(* ===== verification/Prelude.thy ===== *)
theory Prelude
  imports Main "HOL-Library.Word"
begin

text \<open>
  The prelude shared by every component: the names of the machine types, the value type of
  operations that may panic or fail an assertion, byte buffers with explicit bounds, and the
  generic facts on words, lists and loops that the component proofs use.
\<close>

unbundle bit_operations_syntax

section \<open>Machine types\<close>

type_synonym u8 = "8 word"
type_synonym u16 = "16 word"
type_synonym u32 = "32 word"
type_synonym u64 = "64 word"

section \<open>Failing operations\<close>

text \<open>
  \<open>panic ()\<close> and a failed \<open>ASSERT\<close> do not return; a C access outside the object a pointer
  points into has no defined value.  All three are values of the sum type, so that no branch
  of the source disappears.  \<open>OutOfFuel\<close> stands for a loop that is still running after the number of
  turns the model allows; it is shown not to arise where the code relies on the end of the loop.
\<close>

datatype fault = Panic string | AssertFail string | OutOfBounds | OutOfFuel

type_synonym 'a res = "fault + 'a"

definition bind_res :: "'a res \<Rightarrow> ('a \<Rightarrow> 'b res) \<Rightarrow> 'b res" where
  "bind_res m f = (case m of Inl e \<Rightarrow> Inl e | Inr a \<Rightarrow> f a)"

definition assert_res :: "bool \<Rightarrow> string \<Rightarrow> unit res" where
  "assert_res b what = (if b then Inr () else Inl (AssertFail what))"

lemma bind_res_simps [simp]:
  "bind_res (Inl e) f = Inl e"
  "bind_res (Inr a) f = f a"
  by (simp_all add: bind_res_def)

lemma bind_res_Inr_iff:
  "bind_res m f = Inr b \<longleftrightarrow> (\<exists>a. m = Inr a \<and> f a = Inr b)"
  by (cases m) auto

lemma bind_res_Inl_iff:
  "bind_res m f = Inl e \<longleftrightarrow> m = Inl e \<or> (\<exists>a. m = Inr a \<and> f a = Inl e)"
  by (cases m) auto

lemma assert_res_Inr [simp]: "assert_res b w = Inr u \<longleftrightarrow> b"
  by (simp add: assert_res_def)

lemma assert_res_True [simp]: "assert_res True w = Inr ()"
  by (simp add: assert_res_def)

section \<open>Byte buffers\<close>

text \<open>A read through a pointer: the object is the list, the pointer is an index into it.\<close>

definition rd :: "'a list \<Rightarrow> nat \<Rightarrow> 'a option" where
  "rd buf i = (if i < length buf then Some (buf ! i) else None)"

lemma rd_Some [simp]: "i < length buf \<Longrightarrow> rd buf i = Some (buf ! i)"
  by (simp add: rd_def)

lemma rd_None [simp]: "length buf \<le> i \<Longrightarrow> rd buf i = None"
  by (simp add: rd_def)

lemma rd_append1: "i < length xs \<Longrightarrow> rd (xs @ ys) i = rd xs i"
  by (simp add: rd_def nth_append)

lemma rd_append2: "rd (xs @ ys) (length xs + i) = rd ys i"
  by (simp add: rd_def nth_append)

lemma rd_drop: "rd (drop k xs) i = rd xs (k + i)"
  by (auto simp: rd_def)

section \<open>Bits and words\<close>

text \<open>The C idiom \<open>if (w & mask)\<close>.\<close>

definition any_bit :: "'a::len word \<Rightarrow> 'a word \<Rightarrow> bool" where
  "any_bit w m \<longleftrightarrow> w AND m \<noteq> 0"

lemma any_bit_0 [simp]: "\<not> any_bit 0 m" "\<not> any_bit w 0"
  by (simp_all add: any_bit_def)

lemma unat_bound_32: "unat w < 4294967296" for w :: u32
  using unsigned_less [of w] by simp

lemma unat_ucast_64: "unat (ucast w :: u64) = unat w" for w :: u32
proof -
  have "unat w < 2 ^ 32" using unsigned_less [of w] by simp
  then have "take_bit 64 (unat w) = unat w" by (simp add: take_bit_nat_eq_self)
  then show ?thesis by (simp add: unsigned_ucast_eq unsigned_take_bit_eq)
qed

lemma unat_ucast_32: "unat w < 2 ^ 32 \<Longrightarrow> unat (ucast w :: u32) = unat w" for w :: u64
  by (simp add: unsigned_ucast_eq unsigned_take_bit_eq take_bit_nat_eq_self)

lemma unat_less_of_nat:
  "n < 2 ^ LENGTH('a) \<Longrightarrow> unat (of_nat n :: 'a::len word) = n"
  by (simp add: unat_of_nat take_bit_nat_eq_self)

text \<open>Clearing the low bits is rounding down.\<close>

lemma and_not_mask: "w AND NOT (mask n) = push_bit n (drop_bit n w)" for w :: "'a::len word"
  by (rule bit_word_eqI) (auto simp: bit_simps not_less dest: bit_imp_le_length)

lemma unat_and_not_mask: "unat (w AND NOT (mask n)) = unat w div 2 ^ n * 2 ^ n" for w :: "'a::len word"
proof -
  have "push_bit n (drop_bit n (unat w)) = unat w div 2 ^ n * 2 ^ n"
    by (simp add: push_bit_eq_mult drop_bit_eq_div)
  moreover have "\<dots> < 2 ^ LENGTH('a)"
    by (rule le_less_trans [OF _ unsigned_less [of w]]) simp
  ultimately show ?thesis
    by (simp add: and_not_mask unsigned_push_bit_eq unsigned_drop_bit_eq take_bit_nat_eq_self)
qed

end
