(* ===== verification/Disas_Message.thy ===== *)
theory Disas_Message
  imports Prelude
begin

text \<open>
  The DisasVisor message receiver of \<^verbatim>\<open>bitvisor/vpn/kernel.c\<close>: every frame the
  physical or virtual NIC delivers passes through \<open>vpn_callback_wrapper\<close>, which picks the
  UDP datagrams for port 26666 out of the traffic and hands their payload to
  \<open>handle_disasvisor_message\<close>.  A frame is the receive buffer it lies in, as the list of
  bytes from its first byte to the end of the buffer, together with the size the driver
  reports; a read past the end of the buffer is the outcome \<open>Over\<close>.
\<close>

section \<open>Characters and scanners\<close>

definition ntohs :: "u16 \<Rightarrow> u16" where
  "ntohs x = (push_bit 8 (x AND 0x00ff)) OR (drop_bit 8 (x AND 0xff00))"

definition is_delimiter :: "u8 \<Rightarrow> bool" where
  "is_delimiter c \<longleftrightarrow> c = 0x20 \<or> c = 0x09 \<or> c = 0x0d \<or> c = 0x0a"

text \<open>
  The scanning macros return from the function that uses them (\<open>Ret\<close>) or leave the pointer
  behind what they scanned (\<open>At\<close>).
\<close>

datatype 'a scan = Ret | Over | At 'a

definition scan_bind :: "'a scan \<Rightarrow> ('a \<Rightarrow> 'b scan) \<Rightarrow> 'b scan" where
  "scan_bind s f = (case s of Ret \<Rightarrow> Ret | Over \<Rightarrow> Over | At a \<Rightarrow> f a)"

lemma scan_bind_simps [simp]:
  "scan_bind Ret f = Ret" "scan_bind Over f = Over" "scan_bind (At a) f = f a"
  by (simp_all add: scan_bind_def)

lemma scan_bind_At: "scan_bind s f = At b \<longleftrightarrow> (\<exists>a. s = At a \<and> f a = At b)"
  by (cases s) auto

lemma scan_bind_Over: "scan_bind s f = Over \<longleftrightarrow> s = Over \<or> (\<exists>a. s = At a \<and> f a = Over)"
  by (cases s) auto

function SKIP_DELIMITERS :: "u8 list \<Rightarrow> nat \<Rightarrow> nat scan" where
  "SKIP_DELIMITERS buf m =
     (case rd buf m of
        None \<Rightarrow> Over
      | Some c \<Rightarrow>
          if c = 0 then Ret
          else if \<not> is_delimiter c then At m
          else SKIP_DELIMITERS buf (Suc m))"
  by pat_completeness auto
termination
  by (relation "measure (\<lambda>(buf, m). length buf - m)") (auto simp: rd_def split: if_splits)

declare SKIP_DELIMITERS.simps [simp del]

text \<open>The result variable has the type of the caller's variable: 8 or 32 bits.\<close>

function READ_INTEGER :: "u8 list \<Rightarrow> nat \<Rightarrow> 'w::len word \<Rightarrow> ('w word \<times> nat) scan" where
  "READ_INTEGER buf m result =
     (case rd buf m of
        None \<Rightarrow> Over
      | Some c \<Rightarrow>
          if c = 0 then Ret
          else if is_delimiter c then At (result, m)
          else if c < 0x30 \<or> c > 0x39 then Ret
          else READ_INTEGER buf (Suc m) (result * 10 + ucast (c - 0x30)))"
  by pat_completeness auto
termination
  by (relation "measure (\<lambda>(buf, m, _). length buf - m)") (auto simp: rd_def split: if_splits)

declare READ_INTEGER.simps [simp del]

text \<open>The loop that skips the version number.\<close>

function skip_version :: "u8 list \<Rightarrow> nat \<Rightarrow> nat scan" where
  "skip_version buf m =
     (case rd buf m of
        None \<Rightarrow> Over
      | Some c \<Rightarrow>
          if c = 0 then Ret
          else if is_delimiter c then At m
          else skip_version buf (Suc m))"
  by pat_completeness auto
termination
  by (relation "measure (\<lambda>(buf, m). length buf - m)") (auto simp: rd_def split: if_splits)

declare skip_version.simps [simp del]

section \<open>The message handler\<close>

definition disasvisor_keyword :: "u8 list" where
  "disasvisor_keyword = [0x44, 0x49, 0x53, 0x41, 0x53, 0x56, 0x49, 0x53, 0x4f, 0x52]"

lemma length_disasvisor_keyword [simp]: "length disasvisor_keyword = 10"
  by (simp add: disasvisor_keyword_def)

text \<open>\<open>strncmp (s, kw, strlen (kw)) == 0\<close>, which stops at the first difference.\<close>

fun strncmp_eq :: "u8 list \<Rightarrow> nat \<Rightarrow> u8 list \<Rightarrow> bool scan" where
  "strncmp_eq buf p [] = At True"
| "strncmp_eq buf p (k # ks) =
     (case rd buf p of
        None \<Rightarrow> Over
      | Some c \<Rightarrow> if c \<noteq> k then At False else strncmp_eq buf (Suc p) ks)"

text \<open>
  The arguments of the call of \<open>vga_display_disaster_warning\<close>: \<open>d_info\<close> is the pointer
  \<open>detailed_info\<close>, as an index into the receive buffer.
\<close>

record display =
  d_type :: u8
  d_x :: u32
  d_y :: u32
  d_info :: nat
  d_len :: u32

definition handle_disasvisor_message :: "u8 list \<Rightarrow> nat \<Rightarrow> nat \<Rightarrow> display scan" where
  "handle_disasvisor_message buf udp_payload udp_payload_len =
     (if udp_payload_len < length disasvisor_keyword then Ret
      else scan_bind (strncmp_eq buf udp_payload disasvisor_keyword) (\<lambda>same.
      if \<not> same then Ret
      else
        let m = udp_payload + length disasvisor_keyword in
        case rd buf m of
          None \<Rightarrow> Over
        | Some c \<Rightarrow>
            if \<not> is_delimiter c then Ret
            else
              scan_bind (SKIP_DELIMITERS buf m) (\<lambda>m.
              scan_bind (skip_version buf m) (\<lambda>m.
              scan_bind (SKIP_DELIMITERS buf m) (\<lambda>m.
              scan_bind (READ_INTEGER buf m (0 :: u8)) (\<lambda>(disaster_type, m).
              scan_bind (SKIP_DELIMITERS buf m) (\<lambda>m.
              scan_bind (READ_INTEGER buf m (0 :: u32)) (\<lambda>(dialog_offset_x, m).
              scan_bind (SKIP_DELIMITERS buf m) (\<lambda>m.
              scan_bind (READ_INTEGER buf m (0 :: u32)) (\<lambda>(dialog_offset_y, m).
              scan_bind (SKIP_DELIMITERS buf m) (\<lambda>m.
              At \<lparr>d_type = disaster_type, d_x = dialog_offset_x, d_y = dialog_offset_y,
                  d_info = m,
                  d_len = word_of_int (int udp_payload_len - (int m - int udp_payload))\<rparr>
              )))))))))))"

section \<open>The receive callback\<close>

text \<open>\<open>*(uint16_t *)p\<close> on a little-endian machine.\<close>

definition load16 :: "u8 list \<Rightarrow> nat \<Rightarrow> u16 option" where
  "load16 buf i =
     (case rd buf i of None \<Rightarrow> None
      | Some l \<Rightarrow> (case rd buf (Suc i) of None \<Rightarrow> None
          | Some h \<Rightarrow> Some ((ucast l :: u16) OR push_bit 8 (ucast h))))"

datatype packet_act = Continue | Return | Fault | Shown display

definition DISASVISOR_PORT :: u16 where
  "DISASVISOR_PORT = 26666"

text \<open>
  One iteration of the packet loop.  \<open>packet_size\<close> is unsigned, so the C test
  \<open>packet_size - 14 < 0\<close> is never true and \<open>packet_len\<close> is the wrapped difference.
\<close>

definition handle_packet :: "u8 list \<Rightarrow> u32 \<Rightarrow> packet_act" where
  "handle_packet packet packet_size =
     (let packet_len = packet_size - 14; ip_packet = 14 in
      if packet_len < 20 then Continue
      else case load16 packet (ip_packet + 2) of None \<Rightarrow> Fault
      | Some l \<Rightarrow>
        let ip_packet_len = ntohs l; tcp_or_udp_packet = ip_packet + 20 in
        case load16 packet (tcp_or_udp_packet + 2) of None \<Rightarrow> Fault
      | Some dp \<Rightarrow>
        let dst_port = ntohs dp in
        case rd packet (ip_packet + 9) of None \<Rightarrow> Fault
      | Some proto \<Rightarrow>
        if proto \<noteq> 0x11 then Continue
        else if ip_packet_len < 28 then Continue
        else case load16 packet (tcp_or_udp_packet + 4) of None \<Rightarrow> Fault
      | Some ul \<Rightarrow>
        let udp_packet_len = ntohs ul in
        if dst_port = DISASVISOR_PORT then
          let udp_payload = tcp_or_udp_packet + 8; udp_payload_len = udp_packet_len - 8 in
          if udp_payload_len = 0 then Return
          else case handle_disasvisor_message packet udp_payload (unat udp_payload_len) of
            Ret \<Rightarrow> Continue | Over \<Rightarrow> Fault | At d \<Rightarrow> Shown d
        else Continue)"

text \<open>
  The loop over the packets of one receive interrupt: the display requests it makes, each
  with the buffer its text lies in, and whether it read outside a buffer.
\<close>

fun handle_packets :: "(u8 list \<times> u32) list \<Rightarrow> (u8 list \<times> display) list \<times> bool" where
  "handle_packets [] = ([], False)"
| "handle_packets ((packet, packet_size) # ps) =
     (case handle_packet packet packet_size of
        Continue \<Rightarrow> handle_packets ps
      | Return \<Rightarrow> ([], False)
      | Fault \<Rightarrow> ([], True)
      | Shown d \<Rightarrow> (let (ds, f) = handle_packets ps in ((packet, d) # ds, f)))"

text \<open>
  The wrapper first passes every packet on to the callback the VPN client registered, then
  scans them.
\<close>

definition vpn_callback_wrapper ::
    "((u8 list \<times> u32) list \<Rightarrow> 's \<Rightarrow> 's) \<Rightarrow> (u8 list \<times> u32) list \<Rightarrow> 's \<Rightarrow>
     's \<times> (u8 list \<times> display) list \<times> bool" where
  "vpn_callback_wrapper callback packets s = (callback packets s, handle_packets packets)"

section \<open>What the scanners read\<close>

lemma rd_mid [simp]: "rd (pre @ c # post) (length pre) = Some c"
  by (simp add: rd_def)

lemma rd_mid' [simp]: "length pre = n \<Longrightarrow> rd (pre @ c # post) n = Some c"
  by auto

definition delims :: "u8 list \<Rightarrow> bool" where
  "delims ds \<longleftrightarrow> (\<forall>c \<in> set ds. is_delimiter c)"

lemma is_delimiter_nonzero: "is_delimiter c \<Longrightarrow> c \<noteq> 0"
  by (auto simp: is_delimiter_def)

lemma SKIP_DELIMITERS_run:
  assumes "delims ds" "c \<noteq> 0" "\<not> is_delimiter c"
  shows "SKIP_DELIMITERS (pre @ ds @ c # post) (length pre) = At (length pre + length ds)"
  using assms(1)
proof (induction ds arbitrary: pre)
  case Nil
  then show ?case using assms(2,3) by (subst SKIP_DELIMITERS.simps) simp
next
  case (Cons d ds)
  then have d: "is_delimiter d" "d \<noteq> 0" and ds: "delims ds"
    by (auto simp: delims_def dest: is_delimiter_nonzero)
  have "SKIP_DELIMITERS ((pre @ [d]) @ ds @ c # post) (length (pre @ [d])) =
        At (length (pre @ [d]) + length ds)"
    using ds by (rule Cons.IH)
  with d show ?case by (subst SKIP_DELIMITERS.simps) simp
qed

lemma skip_version_run:
  assumes "\<forall>c \<in> set vs. c \<noteq> 0 \<and> \<not> is_delimiter c" "is_delimiter d"
  shows "skip_version (pre @ vs @ d # post) (length pre) = At (length pre + length vs)"
  using assms(1)
proof (induction vs arbitrary: pre)
  case Nil
  then show ?case using assms(2) is_delimiter_nonzero [OF assms(2)]
    by (subst skip_version.simps) simp
next
  case (Cons v vs)
  have "skip_version ((pre @ [v]) @ vs @ d # post) (length (pre @ [v])) =
        At (length (pre @ [v]) + length vs)"
    using Cons.prems by (intro Cons.IH) simp
  with Cons.prems show ?case by (subst skip_version.simps) simp
qed

text \<open>Decimal numerals: what a sender prints and \<open>READ_INTEGER\<close> reads back.\<close>

fun decimal :: "nat \<Rightarrow> u8 list" where
  "decimal n = (if n < 10 then [0x30 + of_nat n] else decimal (n div 10) @ [0x30 + of_nat (n mod 10)])"

declare decimal.simps [simp del]

definition digit :: "u8 \<Rightarrow> bool" where
  "digit c \<longleftrightarrow> 0x30 \<le> c \<and> c \<le> 0x39"

lemma digit_of_nat: "k < 10 \<Longrightarrow> digit (0x30 + of_nat k) \<and> 0x30 + of_nat k - 0x30 = (of_nat k :: u8)"
proof -
  assume "k < 10"
  then have "k \<in> {0, 1, 2, 3, 4, 5, 6, 7, 8, 9}" by auto
  then show ?thesis by (auto simp: digit_def)
qed

lemma digit_plain: "digit c \<Longrightarrow> c \<noteq> 0 \<and> \<not> is_delimiter c \<and> \<not> (c < 0x30 \<or> c > 0x39)"
  by (auto simp: digit_def is_delimiter_def)

lemma READ_INTEGER_run:
  assumes "\<forall>c \<in> set ns. digit c" "is_delimiter d"
  shows "READ_INTEGER (pre @ ns @ d # post) (length pre) a =
    At (foldl (\<lambda>r c. r * 10 + ucast (c - 0x30)) a ns, length pre + length ns)"
  using assms(1)
proof (induction ns arbitrary: pre a)
  case Nil
  then show ?case using assms(2) is_delimiter_nonzero [OF assms(2)]
    by (subst READ_INTEGER.simps) simp
next
  case (Cons n ns)
  then have n: "digit n" and ns: "\<forall>c \<in> set ns. digit c" by auto
  let ?a = "a * 10 + ucast (n - 0x30)"
  have "READ_INTEGER ((pre @ [n]) @ ns @ d # post) (length (pre @ [n])) ?a =
        At (foldl (\<lambda>r c. r * 10 + ucast (c - 0x30)) ?a ns, length (pre @ [n]) + length ns)"
    using ns by (rule Cons.IH)
  with digit_plain [OF n] show ?case by (subst READ_INTEGER.simps) simp
qed

lemma decimal_digits: "\<forall>c \<in> set (decimal n). digit c"
proof (induction n rule: decimal.induct)
  case (1 n)
  then show ?case
    by (cases "n < 10") (auto simp: decimal.simps [of n] digit_of_nat)
qed

lemma decimal_value:
  "foldl (\<lambda>r c. r * 10 + ucast (c - 0x30)) (0 :: 'w::len word) (decimal n) = of_nat n"
proof (induction n rule: decimal.induct)
  case (1 n)
  have uc: "ucast (of_nat k :: u8) = (of_nat k :: 'w word)" if "k < 10" for k
    using that by (simp add: unsigned_of_nat take_bit_nat_eq_self)
  show ?case
  proof (cases "n < 10")
    case True
    then show ?thesis by (simp add: decimal.simps [of n] digit_of_nat uc)
  next
    case False
    have "of_nat n = (of_nat (n div 10) * 10 + of_nat (n mod 10) :: 'w word)"
      by (metis div_mult_mod_eq of_nat_add of_nat_mult of_nat_numeral)
    with False 1 show ?thesis
      by (simp add: decimal.simps [of n] digit_of_nat uc)
  qed
qed

lemma decimal_Nil [simp]: "decimal n \<noteq> []"
  by (subst decimal.simps) simp

lemma READ_INTEGER_decimal:
  assumes "is_delimiter d"
  shows "READ_INTEGER (pre @ decimal n @ d # post) (length pre) 0 =
    At (of_nat n, length pre + length (decimal n))"
  by (subst READ_INTEGER_run [OF decimal_digits assms]) (simp add: decimal_value)

lemma strncmp_eq_run: "strncmp_eq (pre @ ks @ post) (length pre) ks = At True"
proof (induction ks arbitrary: pre)
  case (Cons k ks)
  have "strncmp_eq ((pre @ [k]) @ ks @ post) (length (pre @ [k])) ks = At True"
    by (rule Cons.IH)
  then show ?case by simp
qed simp

text \<open>The same facts at a position of a buffer, by what follows the position.\<close>

lemma drop_split:
  assumes "drop m buf = xs" "xs \<noteq> []"
  shows "buf = take m buf @ xs \<and> length (take m buf) = m"
proof -
  from assms have "m < length buf" by (metis drop_all leI)
  then show ?thesis using assms(1) by (metis append_take_drop_id length_take min.absorb4)
qed

lemma drop_advance: "drop m buf = xs @ ys \<Longrightarrow> drop (m + length xs) buf = ys"
  by (metis add.commute append_eq_conv_conj drop_drop)

lemma SKIP_DELIMITERS_at:
  assumes "drop m buf = ds @ c # post" "delims ds" "c \<noteq> 0" "\<not> is_delimiter c"
  shows "SKIP_DELIMITERS buf m = At (m + length ds)"
  using drop_split [OF assms(1)] SKIP_DELIMITERS_run [OF assms(2-4), of "take m buf" post] by simp

lemma skip_version_at:
  assumes "drop m buf = vs @ d # post" "\<forall>c \<in> set vs. c \<noteq> 0 \<and> \<not> is_delimiter c" "is_delimiter d"
  shows "skip_version buf m = At (m + length vs)"
  using drop_split [OF assms(1)] skip_version_run [OF assms(2,3), of "take m buf" post] by simp

lemma READ_INTEGER_at:
  assumes "drop m buf = decimal n @ d # post" "is_delimiter d"
  shows "READ_INTEGER buf m 0 = At (of_nat n, m + length (decimal n))"
  using drop_split [OF assms(1)] READ_INTEGER_decimal [OF assms(2), of "take m buf" n post] by simp

lemma strncmp_eq_at: "drop m buf = ks @ post \<Longrightarrow> ks @ post \<noteq> [] \<Longrightarrow> strncmp_eq buf m ks = At True"
  using drop_split [of m buf] strncmp_eq_run [of "take m buf" ks post] by metis

lemma rd_at: "drop m buf = c # post \<Longrightarrow> rd buf m = Some c"
  using drop_split [of m buf "c # post"] rd_mid' [of "take m buf" m c post] by simp

text \<open>The decimal numeral, and any nonempty delimiter string, by their first characters.\<close>

lemma decimal_Cons: "\<exists>c cs. decimal n = c # cs \<and> digit c"
  using decimal_digits [of n] by (cases "decimal n") auto

definition sep :: "u8 list \<Rightarrow> bool" where
  "sep ds \<longleftrightarrow> ds \<noteq> [] \<and> delims ds"

lemma sep_Cons: "sep ds \<Longrightarrow> \<exists>d es. ds = d # es \<and> is_delimiter d"
  by (cases ds) (auto simp: sep_def delims_def)

lemma sep_delims: "sep ds \<Longrightarrow> delims ds"
  by (simp add: sep_def)

section \<open>Reading back what a sender prints\<close>

text \<open>
  The message format of the comment in the source, with any delimiters between the fields:
  keyword, version, disaster type, the two offsets and the text.
\<close>

definition encode_message ::
    "u8 list \<Rightarrow> u8 list \<Rightarrow> u8 list \<Rightarrow> nat \<Rightarrow> u8 list \<Rightarrow> nat \<Rightarrow> u8 list \<Rightarrow> nat \<Rightarrow> u8 list \<Rightarrow> u8 list \<Rightarrow> u8 list" where
  "encode_message s0 ver s1 dt s2 x s3 y s4 info =
     disasvisor_keyword @ s0 @ ver @ s1 @ decimal dt @ s2 @ decimal x @ s3 @ decimal y @ s4 @ info"

lemma skip_sep_number:
  assumes "drop m buf = s @ decimal n @ t @ post" "sep s" "sep t"
  shows "SKIP_DELIMITERS buf m = At (m + length s)"
    and "READ_INTEGER buf (m + length s) 0 = At (of_nat n, m + length s + length (decimal n))"
    and "drop (m + length s + length (decimal n)) buf = t @ post"
proof -
  obtain c cs where c: "decimal n = c # cs" "digit c" using decimal_Cons by blast
  obtain d ds where d: "t = d # ds" "is_delimiter d" using sep_Cons [OF assms(3)] by blast
  show "SKIP_DELIMITERS buf m = At (m + length s)"
    using assms(1) c digit_plain [OF c(2)] sep_delims [OF assms(2)]
    by (intro SKIP_DELIMITERS_at) auto
  have r: "drop (m + length s) buf = decimal n @ t @ post"
    using assms(1) by (rule drop_advance)
  show "READ_INTEGER buf (m + length s) 0 = At (of_nat n, m + length s + length (decimal n))"
    using r d by (intro READ_INTEGER_at) auto
  show "drop (m + length s + length (decimal n)) buf = t @ post"
    using r by (rule drop_advance)
qed

text \<open>
  C23: A message printed in the documented format is read back exactly: the type, both offsets
  and the place and length of the text, wherever the payload lies in the receive buffer and
  whatever follows it.
\<close>

theorem handle_message_roundtrip:
  fixes ver info :: "u8 list"
  assumes seps: "sep s0" "sep s1" "sep s2" "sep s3" "sep s4"
    and ver: "ver \<noteq> []" "\<forall>c \<in> set ver. c \<noteq> 0 \<and> \<not> is_delimiter c"
    and info: "info = c # cs" "c \<noteq> 0" "\<not> is_delimiter c"
    and msg: "msg = encode_message s0 ver s1 dt s2 x s3 y s4 info"
  shows "handle_disasvisor_message (pre @ msg @ post) (length pre) (length msg) =
    At \<lparr>d_type = of_nat dt, d_x = of_nat x, d_y = of_nat y,
        d_info = length pre + (length msg - length info), d_len = of_nat (length info)\<rparr>"
proof -
  let ?buf = "pre @ msg @ post"
  let ?m0 = "length pre + 10"
  obtain d ds where d: "s0 = d # ds" "is_delimiter d" using sep_Cons [OF seps(1)] by blast
  obtain e es where e: "s1 = e # es" "is_delimiter e" using sep_Cons [OF seps(2)] by blast
  obtain v vs where v: "ver = v # vs" "v \<noteq> 0" "\<not> is_delimiter v" using ver by (cases ver) auto
  have k0: "drop (length pre) ?buf = disasvisor_keyword @ s0 @ ver @ s1 @ decimal dt @ s2 @
      decimal x @ s3 @ decimal y @ s4 @ info @ post"
    by (simp add: msg encode_message_def)
  have k1: "drop ?m0 ?buf = s0 @ ver @ s1 @ decimal dt @ s2 @ decimal x @ s3 @ decimal y @ s4 @ info @ post"
    using drop_advance [OF k0] by simp
  let ?m1 = "?m0 + length s0"
  have k2: "drop ?m1 ?buf = ver @ s1 @ decimal dt @ s2 @ decimal x @ s3 @ decimal y @ s4 @ info @ post"
    using k1 by (rule drop_advance)
  let ?m2 = "?m1 + length ver"
  have k3: "drop ?m2 ?buf = s1 @ decimal dt @ s2 @ decimal x @ s3 @ decimal y @ s4 @ info @ post"
    using k2 by (rule drop_advance)
  note n1 = skip_sep_number [OF k3 seps(2,3)]
  note n2 = skip_sep_number [OF n1(3) seps(3,4)]
  note n3 = skip_sep_number [OF n2(3) seps(4,5)]
  have kw: "strncmp_eq ?buf (length pre) disasvisor_keyword = At True"
    by (rule strncmp_eq_at [OF k0]) (simp add: disasvisor_keyword_def)
  have r0: "rd ?buf ?m0 = Some d" using k1 d by (intro rd_at) auto
  have q0: "SKIP_DELIMITERS ?buf ?m0 = At ?m1"
    using k1 v sep_delims [OF seps(1)] by (intro SKIP_DELIMITERS_at) auto
  have q1: "skip_version ?buf ?m1 = At ?m2"
    using k2 e ver(2) by (intro skip_version_at) auto
  let ?m5 = "?m2 + length s1 + length (decimal dt) + length s2 + length (decimal x) + length s3 + length (decimal y)"
  have q4: "SKIP_DELIMITERS ?buf ?m5 = At (?m5 + length s4)"
    using n3(3) info sep_delims [OF seps(5)] by (intro SKIP_DELIMITERS_at) auto
  have len: "length msg = 10 + length s0 + length ver + length s1 + length (decimal dt) + length s2 +
      length (decimal x) + length s3 + length (decimal y) + length s4 + length info"
    by (simp add: msg encode_message_def)
  show ?thesis
    using d(2) by (simp add: handle_disasvisor_message_def kw r0 q0 q1 n1(1,2) n2(1,2) n3(1,2) q4 Let_def len)
qed

text \<open>A message of the shape of the shipped samples: type 1 at (80, 40), text \<open>M 5\<close>.\<close>

theorem handle_message_roundtrip_witness:
  "handle_disasvisor_message
     ([0xaa] @ encode_message [0x20] [0x31, 0x2e, 0x30] [0x20] 1 [0x0a] 80 [0x20] 40 [0x0a] [0x4d, 0x20, 0x35] @ [0xff])
     1 (length (encode_message [0x20] [0x31, 0x2e, 0x30] [0x20] 1 [0x0a] 80 [0x20] 40 [0x0a] [0x4d, 0x20, 0x35])) =
   At \<lparr>d_type = 1, d_x = 80, d_y = 40, d_info = 1 + 23, d_len = 3\<rparr>"
proof -
  let ?m = "encode_message [0x20] [0x31, 0x2e, 0x30] [0x20] 1 [0x0a] 80 [0x20] 40 [0x0a] [0x4d, 0x20, 0x35]"
  have len: "length ?m = 26"
    by (simp add: encode_message_def decimal.simps)
  have "handle_disasvisor_message ([0xaa] @ ?m @ [0xff]) (length [0xaa :: u8]) (length ?m) =
    At \<lparr>d_type = of_nat 1, d_x = of_nat 80, d_y = of_nat 40,
        d_info = length [0xaa :: u8] + (length ?m - length [0x4d, 0x20, 0x35 :: u8]),
        d_len = of_nat (length [0x4d, 0x20, 0x35 :: u8])\<rparr>"
    by (rule handle_message_roundtrip [where c = "0x4d" and cs = "[0x20, 0x35]"])
      (auto simp: sep_def delims_def is_delimiter_def)
  then show ?thesis unfolding len by simp
qed

section \<open>Where the parser stops\<close>

text \<open>
  A NUL byte ends every scanner, so a buffer that holds one behind the keyword is never
  read past it; and nothing but a NUL or a bad character does, which is why a payload
  without one is scanned into whatever follows it.
\<close>

definition within :: "nat \<Rightarrow> ('a \<Rightarrow> nat) \<Rightarrow> 'a scan \<Rightarrow> bool" where
  "within k pos s \<longleftrightarrow> (case s of Ret \<Rightarrow> True | Over \<Rightarrow> False | At a \<Rightarrow> pos a \<le> k)"

lemma within_simps [simp]:
  "within k pos Ret" "\<not> within k pos Over" "within k pos (At a) \<longleftrightarrow> pos a \<le> k"
  by (simp_all add: within_def)

lemma within_bind:
  assumes "within k pos s" "\<And>a. pos a \<le> k \<Longrightarrow> within k pos' (f a)"
  shows "within k pos' (scan_bind s f)"
  using assms by (cases s) auto

lemma rd_nul_step:
  assumes "rd buf k = Some 0" "m \<le> k"
  shows "\<exists>c. rd buf m = Some c \<and> (c = 0 \<or> Suc m \<le> k)"
  using assms by (cases "m = k") (auto simp: rd_def split: if_splits)

lemma SKIP_DELIMITERS_nul:
  "rd buf k = Some 0 \<Longrightarrow> m \<le> k \<Longrightarrow> within k (\<lambda>m. m) (SKIP_DELIMITERS buf m)"
proof (induction buf m rule: SKIP_DELIMITERS.induct)
  case (1 buf m)
  from rd_nul_step [OF "1.prems"] obtain c where "rd buf m = Some c" "c = 0 \<or> Suc m \<le> k" by blast
  then show ?case using "1.IH" [of c] "1.prems" by (subst SKIP_DELIMITERS.simps) auto
qed

lemma skip_version_nul:
  "rd buf k = Some 0 \<Longrightarrow> m \<le> k \<Longrightarrow> within k (\<lambda>m. m) (skip_version buf m)"
proof (induction buf m rule: skip_version.induct)
  case (1 buf m)
  from rd_nul_step [OF "1.prems"] obtain c where "rd buf m = Some c" "c = 0 \<or> Suc m \<le> k" by blast
  then show ?case using "1.IH" [of c] "1.prems" by (subst skip_version.simps) auto
qed

lemma READ_INTEGER_nul:
  "rd buf k = Some 0 \<Longrightarrow> m \<le> k \<Longrightarrow> within k snd (READ_INTEGER buf m a)"
proof (induction buf m a rule: READ_INTEGER.induct)
  case (1 buf m a)
  from rd_nul_step [OF "1.prems"] obtain c where "rd buf m = Some c" "c = 0 \<or> Suc m \<le> k" by blast
  then show ?case using "1.IH" [of c] "1.prems" by (subst READ_INTEGER.simps) auto
qed

lemma strncmp_eq_inside: "p + length ks \<le> length buf \<Longrightarrow> \<exists>b. strncmp_eq buf p ks = At b"
  by (induction buf p ks rule: strncmp_eq.induct) auto

lemma handle_message_nul:
  assumes nul: "rd buf k = Some 0" "p + 10 \<le> k"
  shows "within k d_info (handle_disasvisor_message buf p len)"
proof -
  from nul have k: "k < length buf" by (auto simp: rd_def split: if_splits)
  obtain b where b: "strncmp_eq buf p disasvisor_keyword = At b"
    using strncmp_eq_inside [of p disasvisor_keyword buf] k nul(2) by auto
  have c: "rd buf (p + 10) = Some (buf ! (p + 10))" using k nul(2) by simp
  note scans = SKIP_DELIMITERS_nul [OF nul(1)] skip_version_nul [OF nul(1)] READ_INTEGER_nul [OF nul(1)]
  show ?thesis
    unfolding handle_disasvisor_message_def b
    by (auto simp: c Let_def nul(2) split: prod.split
        intro!: within_bind [where pos = "\<lambda>m. m"] within_bind [where pos = snd] scans)
qed

text \<open>
  When the buffer holds a NUL byte anywhere behind the keyword (inside the payload or
  after it), the handler never reads outside the buffer, and a text it displays starts at or
  before that NUL.
\<close>

theorem handle_message_nul_safe:
  assumes "rd buf k = Some 0" "p + 10 \<le> k"
  shows "case handle_disasvisor_message buf p len of
    Ret \<Rightarrow> True | Over \<Rightarrow> False | At d \<Rightarrow> d_info d \<le> k"
  using handle_message_nul [OF assms, of len] by (simp add: within_def)

theorem handle_message_nul_safe_witness:
  "case handle_disasvisor_message (disasvisor_keyword @ [0x20, 0x31, 0]) 0 13 of
    Ret \<Rightarrow> True | Over \<Rightarrow> False | At d \<Rightarrow> d_info d \<le> 12"
  by (rule handle_message_nul_safe) (simp_all add: disasvisor_keyword_def rd_def)

section \<open>The length handed to the display\<close>

lemma handle_message_At_len:
  "handle_disasvisor_message buf p len = At d \<Longrightarrow>
     d_len d = word_of_int (int len - (int (d_info d) - int p)) \<and>
     strncmp_eq buf p disasvisor_keyword = At True"
  by (auto simp: handle_disasvisor_message_def Let_def scan_bind_At
      split: if_splits option.splits prod.splits)

lemma neg_mod_32: "0 < k \<Longrightarrow> k < 2 ^ 32 \<Longrightarrow> (- int k) mod 2 ^ 32 = 2 ^ 32 - int k"
  by (simp add: zmod_zminus1_eq_if)

text \<open>
  While the parser stays inside the payload, text pointer and text length add up to its
  end.  When it has run past the end (nothing stops it there), the length wraps around: the
  display is told that almost 4 GiB of text follow.
\<close>

theorem handle_message_text_length:
  assumes d: "handle_disasvisor_message buf p len = At d"
    and small: "len < 2 ^ 16" "d_info d < 2 ^ 31" "p \<le> d_info d"
  shows "if d_info d \<le> p + len then d_info d + unat (d_len d) = p + len
         else unat (d_len d) = 2 ^ 32 - (d_info d - (p + len))"
proof -
  have w: "d_len d = word_of_int (int len - (int (d_info d) - int p))"
    using handle_message_At_len [OF d] by blast
  show ?thesis
  proof (cases "d_info d \<le> p + len")
    case True
    then have "int len - (int (d_info d) - int p) = int (p + len - d_info d)" by simp
    with w have "d_len d = of_nat (p + len - d_info d)" by (metis of_int_of_nat_eq)
    moreover have "p + len - d_info d < 2 ^ 32" using small by simp
    ultimately have "unat (d_len d) = p + len - d_info d"
      by (simp add: unat_of_nat take_bit_nat_eq_self)
    with True show ?thesis by simp
  next
    case False
    let ?k = "d_info d - (p + len)"
    from False have k: "0 < ?k" "?k < 2 ^ 32" using small by auto
    have "int len - (int (d_info d) - int p) = - int ?k" using False by simp
    moreover have "uint (d_len d) = (int len - (int (d_info d) - int p)) mod 2 ^ 32"
      unfolding w by (rule trans [OF uint_word_of_int]) simp
    ultimately have "uint (d_len d) = (- int ?k) mod 2 ^ 32" by (simp only:)
    also have "\<dots> = 2 ^ 32 - int ?k"
      using k by (rule neg_mod_32)
    finally have "int (unat (d_len d)) = 2 ^ 32 - int ?k" by simp
    also have "\<dots> = int (2 ^ 32 - ?k)" using k by (simp only: of_nat_diff less_imp_le_nat) simp
    finally have "unat (d_len d) = 2 ^ 32 - ?k" by (simp only: of_nat_eq_iff)
    with False show ?thesis by simp
  qed
qed

text \<open>
  The second case happens: a 17-byte payload whose last number is cut off, followed in the
  receive buffer by stale digits and text.
\<close>

theorem handle_message_text_length_witness:
  "unat (d_len \<lparr>d_type = 1, d_x = 2, d_y = 33, d_info = 20, d_len = 0xfffffffd\<rparr>) = 2 ^ 32 - (20 - (0 + 17))"
proof -
  let ?buf = "disasvisor_keyword @ [0x20, 0x31, 0x20, 0x31, 0x20, 0x32, 0x20, 0x33, 0x33, 0x20, 0x41]"
  let ?d = "\<lparr>d_type = 1, d_x = 2, d_y = 33, d_info = 20, d_len = 0xfffffffd\<rparr>"
  have h: "handle_disasvisor_message ?buf 0 17 = At ?d"
    by (simp add: handle_disasvisor_message_def disasvisor_keyword_def rd_def is_delimiter_def
        SKIP_DELIMITERS.simps skip_version.simps READ_INTEGER.simps scan_bind_def)
  show ?thesis
    using handle_message_text_length [OF h] by simp
qed

section \<open>Which frames reach the display\<close>

lemma strncmp_eq_take: "strncmp_eq buf p ks = At True \<Longrightarrow> take (length ks) (drop p buf) = ks"
proof (induction buf p ks rule: strncmp_eq.induct)
  case (2 buf p k ks)
  then have p: "p < length buf" and k: "buf ! p = k"
    by (auto simp: rd_def split: if_splits)
  with 2 have "take (length ks) (drop (Suc p) buf) = ks" by auto
  with p k show ?case by (simp flip: Cons_nth_drop_Suc)
qed simp

lemma handle_packet_Shown:
  assumes "handle_packet b sz = Shown d"
  shows "rd b 23 = Some 0x11 \<and> map_option ntohs (load16 b 36) = Some DISASVISOR_PORT \<and>
    take 10 (drop 42 b) = disasvisor_keyword"
  using assms
  by (auto simp: handle_packet_def Let_def dest!: handle_message_At_len strncmp_eq_take
      split: if_splits option.splits scan.splits)

lemma handle_packets_source:
  "(b, d) \<in> set (fst (handle_packets ps)) \<Longrightarrow> \<exists>sz. (b, sz) \<in> set ps \<and> handle_packet b sz = Shown d"
proof (induction ps rule: handle_packets.induct)
  case (2 packet sz ps)
  then show ?case
    by (fastforce simp: Let_def split: packet_act.splits prod.splits)
qed simp

text \<open>
  C7: Whatever traffic a receive interrupt delivers, a warning is displayed only for frames
  of it that carry the UDP protocol number, the destination port 26666 and the keyword.
\<close>

theorem displayed_frames_are_disasvisor:
  assumes "(b, d) \<in> set (fst (handle_packets ps))"
  shows "(\<exists>sz. (b, sz) \<in> set ps) \<and> rd b 23 = Some 0x11 \<and>
    map_option ntohs (load16 b 36) = Some DISASVISOR_PORT \<and>
    take 10 (drop 42 b) = disasvisor_keyword"
  using handle_packets_source [OF assms] handle_packet_Shown by blast

text \<open>A frame as the intermediate server sends it: Ethernet, IP and UDP header, message.\<close>

definition frame :: "u8 list \<Rightarrow> u8 list" where
  "frame msg =
     replicate 16 0 @ [of_nat ((length msg + 28) div 256), of_nat (length msg + 28)] @
     replicate 5 0 @ [0x11] @ replicate 12 0 @ [0x68, 0x2a] @
     [of_nat ((length msg + 8) div 256), of_nat (length msg + 8)] @ [0, 0] @ msg"

lemma length_frame [simp]: "length (frame msg) = length msg + 42"
  by (simp add: frame_def)


lemma ntohs_load: "ntohs (ucast a OR push_bit 8 (ucast b)) = push_bit 8 (ucast a) OR ucast (b :: u8)"
  for a :: u8
proof -
  have m: "(0x00ff :: u16) = mask 8" "(0xff00 :: u16) = push_bit 8 (mask 8)"
    by (simp_all add: mask_eq_exp_minus_1)
  show ?thesis
    unfolding ntohs_def m
    by (rule bit_word_eqI) (auto simp: bit_simps dest: bit_imp_le_length)
qed

lemma split_bytes:
  "push_bit 8 (ucast (of_nat (n div 256) :: u8)) OR ucast (of_nat n :: u8) = (of_nat n :: u16)"
proof (rule bit_word_eqI)
  fix k
  assume "k < LENGTH(16)"
  moreover have "bit (n div 256) (k - 8) \<longleftrightarrow> bit n (8 + (k - 8))"
    using bit_drop_bit_eq [of 8 n, THEN fun_cong, of "k - 8"] by (simp add: drop_bit_eq_div)
  ultimately show "bit (push_bit 8 (ucast (of_nat (n div 256) :: u8)) OR ucast (of_nat n :: u8) :: u16) k
      = bit (of_nat n :: u16) k"
    by (cases "k < 8") (simp_all add: bit_or_iff bit_push_bit_iff bit_unsigned_iff bit_of_nat_iff less_diff_conv2)
qed

lemma load16_at:
  "drop i b = h # l # post \<Longrightarrow> map_option ntohs (load16 b i) = Some (push_bit 8 (ucast h) OR ucast l)"
proof -
  assume d: "drop i b = h # l # post"
  then have "rd b i = Some h" by (rule rd_at)
  moreover have "rd b (Suc i) = Some l"
    using drop_advance [of i b "[h]" "l # post"] d by (intro rd_at) auto
  ultimately show ?thesis by (simp add: load16_def ntohs_load)
qed

lemma frame_fields:
  assumes "length msg + 28 < 2 ^ 16"
  shows "map_option ntohs (load16 (frame msg @ post) 16) = Some (of_nat (length msg + 28))"
    and "rd (frame msg @ post) 23 = Some 0x11"
    and "map_option ntohs (load16 (frame msg @ post) 36) = Some DISASVISOR_PORT"
    and "map_option ntohs (load16 (frame msg @ post) 38) = Some (of_nat (length msg + 8))"
    and "drop 42 (frame msg @ post) = msg @ post"
proof -
  let ?b = "frame msg @ post"
  have d: "drop 16 ?b = of_nat ((length msg + 28) div 256) # of_nat (length msg + 28) #
      replicate 5 0 @ [0x11] @ replicate 12 0 @ [0x68, 0x2a] @
      [of_nat ((length msg + 8) div 256), of_nat (length msg + 8)] @ [0, 0] @ msg @ post"
    by (simp add: frame_def)
  show "map_option ntohs (load16 ?b 16) = Some (of_nat (length msg + 28))"
    by (simp only: load16_at [OF d] split_bytes)
  have "drop 23 ?b = 0x11 # replicate 12 0 @ [0x68, 0x2a] @
      [of_nat ((length msg + 8) div 256), of_nat (length msg + 8)] @ [0, 0] @ msg @ post"
    by (simp add: frame_def)
  then show "rd ?b 23 = Some 0x11" by (rule rd_at)
  have "drop 36 ?b = 0x68 # 0x2a #
      [of_nat ((length msg + 8) div 256), of_nat (length msg + 8)] @ [0, 0] @ msg @ post"
    by (simp add: frame_def)
  from load16_at [OF this] show "map_option ntohs (load16 ?b 36) = Some DISASVISOR_PORT"
    by (simp add: DISASVISOR_PORT_def)
  have d2: "drop 38 ?b = of_nat ((length msg + 8) div 256) # of_nat (length msg + 8) # [0, 0] @ msg @ post"
    by (simp add: frame_def)
  show "map_option ntohs (load16 ?b 38) = Some (of_nat (length msg + 8))"
    by (simp only: load16_at [OF d2] split_bytes)
  show "drop 42 ?b = msg @ post" by (simp add: frame_def)
qed

lemma map_option_SomeE: "map_option f x = Some y \<Longrightarrow> (\<And>a. x = Some a \<Longrightarrow> f a = y \<Longrightarrow> P) \<Longrightarrow> P"
  by (cases x) auto

text \<open>A frame around any message is handled by parsing the message at offset 42.\<close>

lemma handle_packet_frame:
  assumes len: "msg \<noteq> []" "length msg + 28 < 2 ^ 16" and sz: "34 \<le> sz"
  shows "handle_packet (frame msg @ post) sz =
    (case handle_disasvisor_message (frame msg @ post) 42 (length msg) of
       Ret \<Rightarrow> Continue | Over \<Rightarrow> Fault | At d \<Rightarrow> Shown d)"
proof -
  note f = frame_fields [OF len(2), of post]
  obtain a where a: "load16 (frame msg @ post) 16 = Some a" "ntohs a = of_nat (length msg + 28)"
    using f(1) by (rule map_option_SomeE)
  obtain b where b: "load16 (frame msg @ post) 36 = Some b" "ntohs b = DISASVISOR_PORT"
    using f(3) by (rule map_option_SomeE)
  obtain c where c: "load16 (frame msg @ post) 38 = Some c" "ntohs c = of_nat (length msg + 8)"
    using f(4) by (rule map_option_SomeE)
  have g1: "\<not> sz - 14 < 20"
  proof -
    have "unat (sz - 14) = unat sz - 14" using unat_sub [of 14 sz] sz by (simp add: word_le_nat_alt)
    then show ?thesis using sz by (simp add: word_less_nat_alt word_le_nat_alt)
  qed
  have g2: "\<not> (of_nat (length msg + 28) :: u16) < 28"
  proof -
    have "unat (of_nat (length msg + 28) :: u16) = length msg + 28"
      using len(2) by (intro unat_less_of_nat) simp
    then show ?thesis unfolding word_less_nat_alt by simp
  qed
  have g3: "unat ((of_nat (length msg + 8) :: u16) - 8) = length msg"
    using len(2) by (simp add: unat_of_nat take_bit_nat_eq_self)
  have g4: "(of_nat (length msg + 8) :: u16) - 8 \<noteq> 0"
    using g3 len(1) by (metis length_0_conv unat_0)
  show ?thesis
    using g1 g2 g3 g4 a b c f(2) by (simp add: handle_packet_def Let_def)
qed


lemmas sep_simps = sep_def delims_def is_delimiter_def


section \<open>Frames the guards do not catch\<close>

text \<open>
  The check for truncated frames does not see the shortest ones: a frame reported with
  less than 14 bytes is treated exactly like a frame of full size, because the difference to
  the Ethernet header wraps around.
\<close>

theorem short_frames_pass_the_size_check:
  assumes "packet_size < 14" and "34 \<le> full_size"
  shows "handle_packet packet packet_size = handle_packet packet full_size"
proof -
  have a: "\<not> packet_size - 14 < 20"
  proof -
    have "uint (packet_size - 14) = (uint packet_size - 14) mod 4294967296"
      by (simp add: uint_word_ariths)
    also have "\<dots> = uint packet_size - 14 + 4294967296"
    proof -
      have "0 \<le> uint packet_size" "uint packet_size < 14"
        using assms(1) by (simp_all add: word_less_def)
      then have "(uint packet_size - 14 + 4294967296) mod 4294967296 = uint packet_size - 14 + 4294967296"
        by (intro mod_pos_pos_trivial) auto
      then show ?thesis by (simp only: mod_add_self2)
    qed
    finally have "uint (packet_size - 14) = uint packet_size - 14 + 4294967296" .
    then have "20 \<le> uint (packet_size - 14)"
      using uint_ge_0 [of packet_size] by linarith
    then show ?thesis by (simp add: word_less_def)
  qed
  have b: "\<not> full_size - 14 < 20"
    using unat_sub [of 14 full_size] assms(2) by (simp add: word_le_nat_alt word_less_nat_alt)
  from a b show ?thesis by (simp add: handle_packet_def Let_def)
qed

theorem short_frames_pass_the_size_check_witness:
  "handle_packet [] 3 = handle_packet [] 60"
  by (rule short_frames_pass_the_size_check) simp_all

text \<open>
  A datagram for the DisasVisor port with an empty payload (UDP length 8) ends the
  handler for the whole batch: frames behind it are not looked at.
\<close>

theorem empty_datagram_ends_batch:
  assumes "34 \<le> packet_size" "rd packet 23 = Some 0x11"
    and "map_option ntohs (load16 packet 16) = Some l" "28 \<le> l"
    and "map_option ntohs (load16 packet 36) = Some DISASVISOR_PORT"
    and "map_option ntohs (load16 packet 38) = Some 8"
  shows "handle_packets ((packet, packet_size) # ps) = ([], False)"
proof -
  have b: "\<not> packet_size - 14 < 20"
    using unat_sub [of 14 packet_size] assms(1) by (simp add: word_le_nat_alt word_less_nat_alt)
  have "handle_packet packet packet_size = Return"
    using b assms(2-) by (auto simp: handle_packet_def Let_def elim!: map_option_SomeE)
  then show ?thesis by simp
qed

theorem empty_datagram_ends_batch_witness:
  "handle_packets [(frame [], 42), (frame disasvisor_keyword, 52)] = ([], False)"
  by (rule empty_datagram_ends_batch [where l = 28])
    (use frame_fields [of "[]" "[]"] in simp_all)

text \<open>A frame with the shortest message: type 1 at (2, 3), text \<open>A\<close>.\<close>

definition sample_message :: "u8 list" where
  "sample_message = disasvisor_keyword @ [0x20, 0x31, 0x20, 0x31, 0x20, 0x32, 0x20, 0x33, 0x20, 0x41]"

lemma sample_shown:
  "handle_packet (frame sample_message) 62 =
    Shown \<lparr>d_type = 1, d_x = 2, d_y = 3, d_info = 61, d_len = 1\<rparr>"
  by code_simp

theorem displayed_frames_are_disasvisor_witness:
  "(\<exists>sz. (frame sample_message, sz) \<in> set [(frame sample_message, 62 :: u32)]) \<and>
   rd (frame sample_message) 23 = Some 0x11 \<and>
   map_option ntohs (load16 (frame sample_message) 36) = Some DISASVISOR_PORT \<and>
   take 10 (drop 42 (frame sample_message)) = disasvisor_keyword"
  by (rule displayed_frames_are_disasvisor
      [of _ "\<lparr>d_type = 1, d_x = 2, d_y = 3, d_info = 61, d_len = 1\<rparr>"]) (simp add: sample_shown)

end
