(* ===== verification/Vga.thy ===== *)
theory Vga
  imports Prelude
begin

text \<open>
  The display layer of \<^verbatim>\<open>bitvisor/core/vga.c\<close>: the registry of graphics drivers,
  the drawing of pictures and letters pixel by pixel, the disaster warning dialog and the
  blackout effect.  A driver is the record of its entry points over its private data; the
  contract of a driver is the locale \<open>pixel_device\<close>.
\<close>

section \<open>The driver interface\<close>

datatype vga_func_transfer_dir = DIR_PUT | DIR_GET
datatype vga_func_image_type = BGRX_8888

text \<open>Image data is memory the caller points to.\<close>

type_synonym image = "nat \<Rightarrow> u8"

record 'd vga_func =
  is_ready :: "'d \<Rightarrow> bool \<times> 'd"
  transfer_image :: "'d \<Rightarrow> vga_func_transfer_dir \<Rightarrow> image \<Rightarrow> vga_func_image_type \<Rightarrow> nat \<Rightarrow>
    u32 \<Rightarrow> u32 \<Rightarrow> u32 \<Rightarrow> u32 \<Rightarrow> int \<times> 'd \<times> image"
  fill_rect :: "'d \<Rightarrow> image \<Rightarrow> vga_func_image_type \<Rightarrow> u32 \<Rightarrow> u32 \<Rightarrow> u32 \<Rightarrow> u32 \<Rightarrow> int \<times> 'd"
  get_screen_size :: "'d \<Rightarrow> (u32 \<times> u32) option"

text \<open>\<open>struct vga_data\<close>: a driver's entry points and its data.\<close>

record 'd vga_data =
  vd_func :: "'d vga_func"
  vd_data :: 'd

text \<open>The list of drivers and the active one, by its position in the list.\<close>

record 'd vga_state =
  vga_list :: "'d vga_data list"
  vga_active :: "nat option"

definition vga_init :: "'d vga_state" where
  "vga_init = \<lparr>vga_list = [], vga_active = None\<rparr>"

definition vga_register :: "'d vga_func \<Rightarrow> 'd \<Rightarrow> 'd vga_state \<Rightarrow> 'd vga_state" where
  "vga_register func data s =
     s\<lparr>vga_list := vga_list s @ [\<lparr>vd_func = func, vd_data = data\<rparr>]\<rparr>"

text \<open>The search of \<open>vga_is_ready\<close>: every driver before the first ready one is asked.\<close>

fun first_ready :: "'d vga_data list \<Rightarrow> 'd vga_data list \<times> nat option" where
  "first_ready [] = ([], None)"
| "first_ready (p # ps) =
     (let (r, d) = is_ready (vd_func p) (vd_data p); p' = p\<lparr>vd_data := d\<rparr> in
      if r then (p' # ps, Some 0)
      else (let (ps', a) = first_ready ps in (p' # ps', map_option Suc a)))"

definition vga_is_ready :: "'d vga_state \<Rightarrow> bool \<times> 'd vga_state" where
  "vga_is_ready s =
     (let (l, p) = first_ready (vga_list s) in
      (p \<noteq> None, s\<lparr>vga_list := l, vga_active := p\<rparr>))"

text \<open>The driver behind the pointer \<open>vga_active\<close>, and an update of its data.\<close>

definition active_driver :: "'d vga_state \<Rightarrow> 'd vga_data option" where
  "active_driver s =
     (case vga_active s of None \<Rightarrow> None
      | Some i \<Rightarrow> if i < length (vga_list s) then Some (vga_list s ! i) else None)"

definition set_active_data :: "'d \<Rightarrow> 'd vga_state \<Rightarrow> 'd vga_state" where
  "set_active_data d s =
     (case vga_active s of None \<Rightarrow> s
      | Some i \<Rightarrow> s\<lparr>vga_list := (vga_list s)[i := (vga_list s ! i)\<lparr>vd_data := d\<rparr>]\<rparr>)"

definition vga_transfer_image ::
    "vga_func_transfer_dir \<Rightarrow> image \<Rightarrow> vga_func_image_type \<Rightarrow> nat \<Rightarrow> u32 \<Rightarrow> u32 \<Rightarrow> u32 \<Rightarrow> u32 \<Rightarrow>
     'd vga_state \<Rightarrow> int \<times> image \<times> 'd vga_state" where
  "vga_transfer_image dir img type stride width lines x y s =
     (case active_driver s of None \<Rightarrow> (0, img, s)
      | Some p \<Rightarrow>
          let (r, d, img') = transfer_image (vd_func p) (vd_data p) dir img type stride width lines x y
          in (r, img', set_active_data d s))"

definition vga_fill_rect ::
    "image \<Rightarrow> vga_func_image_type \<Rightarrow> u32 \<Rightarrow> u32 \<Rightarrow> u32 \<Rightarrow> u32 \<Rightarrow> 'd vga_state \<Rightarrow> int \<times> 'd vga_state" where
  "vga_fill_rect img type x y width height s =
     (case active_driver s of None \<Rightarrow> (0, s)
      | Some p \<Rightarrow>
          let (r, d) = fill_rect (vd_func p) (vd_data p) img type x y width height
          in (r, set_active_data d s))"

definition vga_get_screen_size :: "'d vga_state \<Rightarrow> (u32 \<times> u32) option" where
  "vga_get_screen_size s =
     (case active_driver s of None \<Rightarrow> None
      | Some p \<Rightarrow> get_screen_size (vd_func p) (vd_data p))"

section \<open>Pictures and letters\<close>

text \<open>A counting loop \<open>for (i = a; i < b; i++)\<close> over unsigned ints.\<close>

definition for_u32 :: "u32 \<Rightarrow> u32 \<Rightarrow> (u32 \<Rightarrow> 's \<Rightarrow> 's) \<Rightarrow> 's \<Rightarrow> 's" where
  "for_u32 a b body s = fold (\<lambda>i. body (of_nat i)) [unat a..<unat b] s"

text \<open>The four bytes of the pixel at \<open>(xx, yy)\<close>: the stored order is RGB, the screen's BGRX.\<close>

definition bgrx_pixel :: "image \<Rightarrow> u32 \<Rightarrow> u32 \<Rightarrow> u32 \<Rightarrow> image" where
  "bgrx_pixel img width xx yy =
     (\<lambda>_. 0)(0 := img (unat (yy * width * 3 + xx * 3 + 2)),
             1 := img (unat (yy * width * 3 + xx * 3 + 1)),
             2 := img (unat (yy * width * 3 + xx * 3 + 0)),
             3 := 0)"

definition vga_display_picture ::
    "image \<Rightarrow> u32 \<Rightarrow> u32 \<Rightarrow> u32 \<Rightarrow> u32 \<Rightarrow> 'd vga_state \<Rightarrow> int \<times> 'd vga_state" where
  "vga_display_picture img x y width height s =
     (case active_driver s of None \<Rightarrow> (0, s)
      | Some p \<Rightarrow>
          (1, for_u32 0 height (\<lambda>yy. for_u32 0 width (\<lambda>xx s.
                snd (vga_fill_rect (bgrx_pixel img width xx yy) BGRX_8888 (x + xx) (y + yy) 1 1 s))) s))"

text \<open>
  The picture and letter data are generated files; they are the arguments \<open>pics\<close> and
  \<open>letters\<close> here.  The sizes are the ones in the source.
\<close>

definition vga_display_stored_picture ::
    "(nat \<Rightarrow> image) \<Rightarrow> u32 \<Rightarrow> u32 \<Rightarrow> u32 \<Rightarrow> 'd vga_state \<Rightarrow> int \<times> 'd vga_state" where
  "vga_display_stored_picture pics picture_number x y s =
     (case (if picture_number = 0 then Some (200, 200, pics 0)
            else if picture_number = 1 then Some (800, 600, pics 1)
            else if picture_number = 2 then Some (800, 600, pics 2)
            else None) of
        None \<Rightarrow> (- 1, s)
      | Some (width, height, rgb_data) \<Rightarrow>
          let (r, s') = vga_is_ready s in
          if \<not> r then (- 1, s') else vga_display_picture rgb_data x y width height s')"

definition LETTER_WIDTH :: u32 where "LETTER_WIDTH = 18"
definition LETTER_HEIGHT :: u32 where "LETTER_HEIGHT = 36"

definition vga_display_stored_letter ::
    "(nat \<Rightarrow> image) \<Rightarrow> u8 \<Rightarrow> u32 \<Rightarrow> u32 \<Rightarrow> 'd vga_state \<Rightarrow> int \<times> 'd vga_state" where
  "vga_display_stored_letter letters ascii_code x y s =
     (if ascii_code < 0x20 \<or> ascii_code > 0x7e then (- 1, s)
      else vga_display_picture (letters (unat (ascii_code - 0x20))) x y LETTER_WIDTH LETTER_HEIGHT s)"

section \<open>The warning dialog\<close>

definition MAX_NLETTERS_IN_ROW :: nat where "MAX_NLETTERS_IN_ROW = 41"
definition MAX_NROWS_IN_DIALOG :: nat where "MAX_NROWS_IN_DIALOG = 12"

text \<open>
  The text loop.  The message is read through \<open>msg\<close> (None: outside the buffer); \<open>left\<close> is
  the number of iterations left, \<open>idx_x\<close> and \<open>idx_y\<close> the cursor.  Every letter goes
  through \<open>draw\<close>.
\<close>

fun warning_loop ::
    "(u8 \<Rightarrow> u32 \<Rightarrow> u32 \<Rightarrow> 's \<Rightarrow> 's) \<Rightarrow> u32 \<Rightarrow> u32 \<Rightarrow> (nat \<Rightarrow> u8 option) \<Rightarrow> nat \<Rightarrow> nat \<Rightarrow> nat \<Rightarrow> nat \<Rightarrow>
     's \<Rightarrow> 's res" where
  "warning_loop draw x y msg n 0 idx_x idx_y s = Inr s"
| "warning_loop draw x y msg n (Suc left) idx_x idx_y s =
     (case msg n of None \<Rightarrow> Inl OutOfBounds
      | Some c \<Rightarrow>
          let (s', idx_x', idx_y') =
            (if 0x20 \<le> c \<and> c \<le> 0x7e then
               let loc_x = x + 26 + LETTER_WIDTH * of_nat idx_x;
                   loc_y = y + 154 + LETTER_HEIGHT * of_nat idx_y;
                   s' = draw c loc_x loc_y s
               in if idx_x + 1 \<ge> MAX_NLETTERS_IN_ROW then (s', 0, idx_y + 1)
                  else (s', idx_x + 1, idx_y)
             else if c = 0x0a then (s, 0, idx_y + 1)
             else (s, idx_x, idx_y))
          in if idx_y' \<ge> MAX_NROWS_IN_DIALOG then Inr s'
             else warning_loop draw x y msg (Suc n) left idx_x' idx_y' s')"

definition vga_display_disaster_warning ::
    "(nat \<Rightarrow> image) \<Rightarrow> (nat \<Rightarrow> image) \<Rightarrow> u32 \<Rightarrow> u32 \<Rightarrow> u32 \<Rightarrow> (nat \<Rightarrow> u8 option) \<Rightarrow> u32 \<Rightarrow>
     'd vga_state \<Rightarrow> (int \<times> 'd vga_state) res" where
  "vga_display_disaster_warning pics letters dt x y msg msg_len s =
     (if dt = 1 \<or> dt = 2 then
        let s1 = snd (vga_display_stored_picture pics dt x y s) in
        bind_res (warning_loop (\<lambda>c lx ly s. snd (vga_display_stored_letter letters c lx ly s))
            x y msg 0 (unat msg_len) 0 0 s1)
          (\<lambda>s2. Inr (0, s2))
      else Inr (- 1, s))"

section \<open>Blackout\<close>

text \<open>
  The body of the blackout loops for one pixel; \<open>Inl\<close> is the early \<open>return 0\<close>.
\<close>

definition blackout_pixel :: "bool \<Rightarrow> u32 \<Rightarrow> u32 \<Rightarrow> 'd vga_state \<Rightarrow> 'd vga_state + 'd vga_state" where
  "blackout_pixel use_semitrans x y s =
     (if use_semitrans then
        let (r, pixel, s1) = vga_transfer_image DIR_GET (\<lambda>_. 0) BGRX_8888 4 1 1 x y s in
        if r < 0 then Inl s1
        else
          let (r2, _, s2) = vga_transfer_image DIR_PUT (\<lambda>i. pixel i div 8) BGRX_8888 4 1 1 x y s1 in
          if r2 < 0 then Inl s2 else Inr s2
      else Inr (snd (vga_fill_rect (\<lambda>_. 0) BGRX_8888 x y 1 1 s)))"

text \<open>A loop that may return early.\<close>

fun foldE :: "('a \<Rightarrow> 's \<Rightarrow> 's + 's) \<Rightarrow> 'a list \<Rightarrow> 's \<Rightarrow> 's + 's" where
  "foldE f [] s = Inr s"
| "foldE f (a # as) s = (case f a s of Inl t \<Rightarrow> Inl t | Inr t \<Rightarrow> foldE f as t)"

definition vga_blackout_screen :: "bool \<Rightarrow> 'd vga_state \<Rightarrow> int \<times> 'd vga_state" where
  "vga_blackout_screen use_semitrans s =
     (case active_driver s of None \<Rightarrow> (0, s)
      | Some p \<Rightarrow>
        (case vga_get_screen_size s of None \<Rightarrow> (0, s)
         | Some (width, height) \<Rightarrow>
             (case foldE (\<lambda>y. foldE (\<lambda>x. blackout_pixel use_semitrans (of_nat x) (of_nat y))
                      [20..<unat (width - 20)]) [20..<unat (height - 20)] s of
                Inl t \<Rightarrow> (0, t) | Inr t \<Rightarrow> (1, t))))"

section \<open>The text layout of the dialog\<close>

text \<open>The letters a text puts on the screen, in order: character and position.\<close>

definition log_letter :: "u8 \<Rightarrow> u32 \<Rightarrow> u32 \<Rightarrow> (u8 \<times> u32 \<times> u32) list \<Rightarrow> (u8 \<times> u32 \<times> u32) list" where
  "log_letter c lx ly l = l @ [(c, lx, ly)]"

definition layout :: "u32 \<Rightarrow> u32 \<Rightarrow> (nat \<Rightarrow> u8 option) \<Rightarrow> nat \<Rightarrow> (u8 \<times> u32 \<times> u32) list res" where
  "layout x y msg len = warning_loop log_letter x y msg 0 len 0 0 []"

definition draw_all :: "(u8 \<Rightarrow> u32 \<Rightarrow> u32 \<Rightarrow> 's \<Rightarrow> 's) \<Rightarrow> (u8 \<times> u32 \<times> u32) list \<Rightarrow> 's \<Rightarrow> 's" where
  "draw_all draw l s = fold (\<lambda>(c, lx, ly). draw c lx ly) l s"

lemma draw_all_simps [simp]:
  "draw_all draw [] s = s"
  "draw_all draw (l @ [(c, lx, ly)]) s = draw c lx ly (draw_all draw l s)"
  by (simp_all add: draw_all_def)

lemma warning_loop_layout:
  "warning_loop draw x y msg n left ix iy (draw_all draw l s) =
   bind_res (warning_loop log_letter x y msg n left ix iy l) (\<lambda>l'. Inr (draw_all draw l' s))"
proof (induction left arbitrary: n ix iy l)
  case 0
  then show ?case by simp
next
  case (Suc left)
  have s: "draw c lx ly (draw_all draw l s) = draw_all draw (log_letter c lx ly l) s" for c lx ly
    by (simp add: log_letter_def)
  show ?case
    by (simp add: Let_def s Suc.IH split: option.split)
qed

text \<open>One position of the letter grid of a dialog at \<open>(x, y)\<close>.\<close>

definition grid :: "u32 \<Rightarrow> u32 \<Rightarrow> nat \<Rightarrow> nat \<Rightarrow> u32 \<times> u32" where
  "grid x y i j = (x + 26 + LETTER_WIDTH * of_nat i, y + 154 + LETTER_HEIGHT * of_nat j)"

definition printable :: "u8 \<Rightarrow> bool" where
  "printable c \<longleftrightarrow> 0x20 \<le> c \<and> c \<le> 0x7e"

text \<open>The cells the loop fills, in reading order.\<close>

definition on_grid :: "u32 \<Rightarrow> u32 \<Rightarrow> (u8 \<times> u32 \<times> u32) list \<Rightarrow> (nat \<times> nat) list \<Rightarrow> bool" where
  "on_grid x y l cells \<longleftrightarrow>
     list_all2 (\<lambda>(c, p) (i, j). printable c \<and> p = grid x y i j \<and> i < 41 \<and> j < 12) l cells"

definition cell_no :: "nat \<times> nat \<Rightarrow> nat" where
  "cell_no = (\<lambda>(i, j). j * 41 + i)"

lemma warning_loop_grid:
  assumes "warning_loop log_letter x y msg n left ix iy l = Inr l'"
    and "on_grid x y l cells" "sorted_wrt (<) (map cell_no cells)"
    and "ix < 41" "iy < 12" "\<forall>p \<in> set cells. cell_no p < cell_no (ix, iy)"
  shows "\<exists>cells'. on_grid x y l' cells' \<and> sorted_wrt (<) (map cell_no cells')"
  using assms
proof (induction left arbitrary: n ix iy l cells)
  case 0
  then show ?case by auto
next
  case (Suc left)
  from Suc.prems(1) obtain c where c: "msg n = Some c" by (auto split: option.splits)
  show ?case
  proof (cases "0x20 \<le> c \<and> c \<le> 0x7e")
    case True
    let ?l = "log_letter c (x + 26 + LETTER_WIDTH * of_nat ix) (y + 154 + LETTER_HEIGHT * of_nat iy) l"
    let ?cells = "cells @ [(ix, iy)]"
    have g: "on_grid x y ?l ?cells"
      using Suc.prems(2,4,5) True
      by (auto simp: on_grid_def log_letter_def grid_def printable_def intro: list_all2_appendI)
    have s: "sorted_wrt (<) (map cell_no ?cells)"
      using Suc.prems(3,6) by (auto simp: sorted_wrt_append)
    have m: "\<forall>p \<in> set ?cells. cell_no p \<le> cell_no (ix, iy)"
      using Suc.prems(6) by auto
    have lt: "cell_no (ix, iy) < cell_no (0, iy + 1)" "ix + 1 < 41 \<Longrightarrow> cell_no (ix, iy) < cell_no (ix + 1, iy)"
      using Suc.prems(4) by (simp_all add: cell_no_def)
    then show ?thesis
      using Suc.prems(1,4,5) True c g s m
        Suc.IH [OF _ g s, where iy = "iy + 1" and ix = 0] Suc.IH [OF _ g s, where iy = iy and ix = "ix + 1"]
      by (force simp: Let_def MAX_NLETTERS_IN_ROW_def MAX_NROWS_IN_DIALOG_def split: if_splits)
  next
    case False
    have "cell_no p < cell_no (ix, iy) \<Longrightarrow> cell_no p < cell_no (0, Suc iy)" for p
      using Suc.prems(4) by (simp add: cell_no_def)
    with False show ?thesis
      using Suc.prems c
        Suc.IH [OF _ Suc.prems(2,3), where iy = "iy + 1" and ix = 0]
        Suc.IH [OF _ Suc.prems(2,3), where iy = iy and ix = ix]
      by (auto simp: Let_def MAX_NROWS_IN_DIALOG_def split: if_splits)
  qed
qed

lemma layout_grid:
  assumes "layout x y msg len = Inr l"
  obtains cells where "on_grid x y l cells" "sorted_wrt (<) (map cell_no cells)"
  using warning_loop_grid [OF assms [unfolded layout_def], of "[]"] by (auto simp: on_grid_def)

lemma unat_18: "i < 41 \<Longrightarrow> unat (26 + LETTER_WIDTH * of_nat i) = 26 + 18 * i"
  by (simp add: LETTER_WIDTH_def unat_word_ariths unat_of_nat take_bit_nat_eq_self)

lemma unat_36: "j < 12 \<Longrightarrow> unat (154 + LETTER_HEIGHT * of_nat j) = 154 + 36 * j"
  by (simp add: LETTER_HEIGHT_def unat_word_ariths unat_of_nat take_bit_nat_eq_self)

lemma grid_offsets:
  assumes "i < 41" "j < 12"
  shows "unat (fst (grid x y i j) - x) = 26 + 18 * i" "unat (snd (grid x y i j) - y) = 154 + 36 * j"
  using unat_18 [OF assms(1)] unat_36 [OF assms(2)] by (simp_all add: grid_def algebra_simps)

lemma grid_inj:
  assumes "grid x y i j = grid x y i' j'" "i < 41" "j < 12" "i' < 41" "j' < 12"
  shows "i = i' \<and> j = j'"
  using assms grid_offsets [of i j x y] grid_offsets [of i' j' x y] by simp

lemma on_grid_cell:
  "on_grid x y l cells \<Longrightarrow> q \<in> set l \<Longrightarrow>
    \<exists>(i, j) \<in> set cells. printable (fst q) \<and> snd q = grid x y i j \<and> i < 41 \<and> j < 12"
proof (induction l arbitrary: cells)
  case (Cons a l)
  then obtain i j cs where "cells = (i, j) # cs" "printable (fst a)" "snd a = grid x y i j" "i < 41" "j < 12"
      "on_grid x y l cs"
    by (cases a) (auto simp: on_grid_def list_all2_Cons1)
  with Cons.IH [of cs] Cons.prems(2) show ?case by auto
qed simp

lemma on_grid_cells: "on_grid x y l cells \<Longrightarrow> p \<in> set cells \<Longrightarrow> cell_no p < 12 * 41"
proof (induction l arbitrary: cells)
  case (Cons a l)
  then obtain i j cs where "cells = (i, j) # cs" "i < 41" "j < 12" "on_grid x y l cs"
    by (cases a) (auto simp: on_grid_def list_all2_Cons1)
  with Cons.IH [of cs] Cons.prems(2) show ?case by (auto simp: cell_no_def)
qed (simp add: on_grid_def)

lemma on_grid_distinct:
  assumes "on_grid x y l cells" "distinct cells"
  shows "distinct (map snd l)"
  using assms
proof (induction l arbitrary: cells)
  case (Cons a l)
  obtain c p where a: "a = (c, p)" by (cases a)
  from Cons.prems(1) obtain i j cs where cs: "cells = (i, j) # cs" "p = grid x y i j" "i < 41" "j < 12"
      and rest: "on_grid x y l cs"
    by (auto simp: on_grid_def a list_all2_Cons1)
  have "p \<noteq> snd q" if "q \<in> set l" for q
  proof -
    from on_grid_cell [OF rest that] obtain i' j' where
        "(i', j') \<in> set cs" "snd q = grid x y i' j'" "i' < 41" "j' < 12"
      by auto
    with cs Cons.prems(2) grid_inj [of x y i j i' j'] show ?thesis by auto
  qed
  with Cons.IH [OF rest] Cons.prems(2) cs a show ?case by auto
qed simp

lemma sorted_bounded_length:
  assumes "sorted_wrt (<) (ns :: nat list)" "\<forall>n \<in> set ns. n < b"
  shows "length ns \<le> b"
proof -
  have "distinct ns" using assms(1) by (simp add: strict_sorted_iff)
  then have "length ns = card (set ns)" by (simp add: distinct_card)
  also have "\<dots> \<le> card {..<b}" using assms(2) by (intro card_mono) auto
  finally show ?thesis by simp
qed

text \<open>
  Whatever bytes a message holds, every letter the warning loop draws is a printable
  character at a position whose 18 x 36 cell lies inside the 800 x 600 dialog, no cell is
  drawn twice, and there are at most 12 rows of 41 letters.
\<close>

theorem layout_fits_dialog:
  assumes "layout x y msg len = Inr l"
  shows "list_all (\<lambda>(c, lx, ly). printable c \<and> 26 \<le> unat (lx - x) \<and> unat (lx - x) + 18 \<le> 800 \<and>
            154 \<le> unat (ly - y) \<and> unat (ly - y) + 36 \<le> 600) l \<and>
    distinct (map snd l) \<and> length l \<le> 12 * 41"
proof -
  obtain cells where g: "on_grid x y l cells" and s: "sorted_wrt (<) (map cell_no cells)"
    using assms by (rule layout_grid)
  have cell: "\<exists>i j. printable (fst q) \<and> snd q = grid x y i j \<and> i < 41 \<and> j < 12" if "q \<in> set l" for q
    using on_grid_cell [OF g that] by auto
  have "distinct (map cell_no cells)" using s by (simp add: strict_sorted_iff)
  then have d: "distinct (map snd l)" using g by (intro on_grid_distinct) (auto simp: distinct_map)
  have "\<forall>n \<in> set (map cell_no cells). n < 12 * 41"
    using on_grid_cells [OF g] by auto
  from sorted_bounded_length [OF s this] have "length l \<le> 12 * 41"
    using g by (simp add: on_grid_def list_all2_lengthD)
  moreover have "printable c \<and> 26 \<le> unat (lx - x) \<and> unat (lx - x) + 18 \<le> 800 \<and>
            154 \<le> unat (ly - y) \<and> unat (ly - y) + 36 \<le> 600" if "(c, lx, ly) \<in> set l" for c lx ly
  proof -
    from cell [OF that] obtain i j where "printable c"
        and p: "(lx, ly) = grid x y i j" and ij: "i < 41" "j < 12"
      by auto
    moreover have "lx = fst (grid x y i j)" "ly = snd (grid x y i j)" using p by (metis fst_conv snd_conv)+
    ultimately show ?thesis using grid_offsets [OF ij, of x y] by simp
  qed
  ultimately show ?thesis using d by (auto simp: list_all_iff)
qed

text \<open>A text that uses the whole width: one line feed, tabs are dropped.\<close>

theorem layout_fits_dialog_witness:
  "list_all (\<lambda>(c, lx, ly). printable c \<and>
      26 \<le> unat (lx - 100 :: u32) \<and> unat (lx - 100) + 18 \<le> 800 \<and>
      154 \<le> unat (ly - 100 :: u32) \<and> unat (ly - 100) + 36 \<le> 600)
      [(0x41, 126, 254), (0x42, 126, 290)] \<and>
   distinct (map snd [(0x41 :: u8, 126 :: u32, 254 :: u32), (0x42, 126, 290)]) \<and>
   length [(0x41 :: u8, 126 :: u32, 254 :: u32), (0x42, 126, 290)] \<le> 12 * 41"
  by (rule layout_fits_dialog [where len = "Suc (Suc (Suc (Suc 0)))" and msg = "rd [0x41, 0x0a, 0x09, 0x42]"])
    (simp add: layout_def log_letter_def MAX_NLETTERS_IN_ROW_def
      MAX_NROWS_IN_DIALOG_def LETTER_WIDTH_def LETTER_HEIGHT_def rd_def)

lemma grid_step:
  "k < 492 \<Longrightarrow> Suc k mod 41 = (if k mod 41 + 1 \<ge> 41 then 0 else k mod 41 + 1) \<and>
     Suc k div 41 = (if k mod 41 + 1 \<ge> 41 then k div 41 + 1 else k div 41)"
  by (auto simp: mod_Suc div_Suc)

lemma warning_loop_printable:
  assumes "n < 492" "\<forall>k. n \<le> k \<and> k < min (n + left) 492 \<longrightarrow> (\<exists>c. msg k = Some c \<and> printable c)"
  shows "warning_loop log_letter x y msg n left (n mod 41) (n div 41) l =
    Inr (l @ map (\<lambda>k. (the (msg k), grid x y (k mod 41) (k div 41))) [n..<min (n + left) 492])"
  using assms
proof (induction left arbitrary: n l)
  case (Suc left)
  then obtain c where c: "msg n = Some c" "printable c" by auto
  let ?f = "\<lambda>k. (the (msg k), grid x y (k mod 41) (k div 41))"
  have up: "[n..<min (n + Suc left) 492] = n # [Suc n..<min (Suc n + left) 492]"
    by (subst upt_conv_Cons) (use Suc.prems(1) in simp_all)
  have l: "log_letter c (x + 26 + LETTER_WIDTH * of_nat (n mod 41)) (y + 154 + LETTER_HEIGHT * of_nat (n div 41)) l
      = l @ [?f n]"
    by (simp add: log_letter_def grid_def c)
  note st = grid_step [OF Suc.prems(1)]
  show ?case
  proof (cases "Suc n < 492")
    case True
    have small: "Suc n div 41 < 12" using True by auto
    have IH: "warning_loop log_letter x y msg (Suc n) left (Suc n mod 41) (Suc n div 41) (l @ [?f n]) =
        Inr ((l @ [?f n]) @ map ?f [Suc n..<min (Suc n + left) 492])"
      using Suc.prems True by (intro Suc.IH) auto
    show ?thesis
      using IH c st small unfolding up
      by (auto simp: l Let_def printable_def MAX_NLETTERS_IN_ROW_def MAX_NROWS_IN_DIALOG_def split: if_splits)
  next
    case False
    with Suc.prems(1) have n: "n = 491" by simp
    show ?thesis
      using c unfolding up l [unfolded c] n
      using l by (simp add: n Let_def printable_def MAX_NLETTERS_IN_ROW_def MAX_NROWS_IN_DIALOG_def)
  qed
qed simp

text \<open>
  A text of printable characters is laid out in reading order, 41 letters to the row;
  what does not fit into the 12 rows is cut off.
\<close>

theorem layout_reading_order:
  assumes "\<forall>k < min len 492. \<exists>c. msg k = Some c \<and> printable c"
  shows "layout x y msg len =
    Inr (map (\<lambda>k. (the (msg k), grid x y (k mod 41) (k div 41))) [0..<min len 492])"
  using warning_loop_printable [of 0 len msg x y "[]"] assms by (simp add: layout_def)

theorem layout_reading_order_witness:
  "layout 80 40 (\<lambda>k. Some 0x41) 1000 =
    Inr (map (\<lambda>k. (the (Some 0x41), grid 80 40 (k mod 41) (k div 41))) [0..<min 1000 492])"
  by (rule layout_reading_order) (simp add: printable_def)

definition draw_letter :: "(nat \<Rightarrow> image) \<Rightarrow> u8 \<Rightarrow> u32 \<Rightarrow> u32 \<Rightarrow> 'd vga_state \<Rightarrow> 'd vga_state" where
  "draw_letter letters c lx ly s = snd (vga_display_stored_letter letters c lx ly s)"


section \<open>The contract of a graphics driver\<close>

text \<open>
  What the display layer relies on: in the states \<open>ok\<close>, a driver shows a screen of
  \<open>wd\<close> by \<open>ht\<close> pixels, and the one-pixel calls read and write exactly the
  pixel they name.
\<close>

type_synonym pixel = "u8 \<times> u8 \<times> u8 \<times> u8"

definition pixel_of :: "image \<Rightarrow> pixel" where
  "pixel_of img = (img 0, img 1, img 2, img 3)"

definition rgb_at :: "image \<Rightarrow> nat \<Rightarrow> nat \<Rightarrow> nat \<Rightarrow> pixel" where
  "rgb_at img width xx yy =
     (let i = 3 * (yy * width + xx) in (img (i + 2), img (i + 1), img i, 0))"

definition dim :: "pixel \<Rightarrow> pixel" where
  "dim = (\<lambda>(b, g, r, z). (b div 8, g div 8, r div 8, z div 8))"

definition paint :: "(nat \<Rightarrow> nat \<Rightarrow> pixel) \<Rightarrow> nat \<Rightarrow> nat \<Rightarrow> nat \<Rightarrow> nat \<Rightarrow> (nat \<times> nat \<Rightarrow> pixel) \<Rightarrow> nat \<times> nat \<Rightarrow> pixel" where
  "paint pic x y w h f =
     (\<lambda>(X, Y). if x \<le> X \<and> X < x + w \<and> y \<le> Y \<and> Y < y + h then pic (X - x) (Y - y) else f (X, Y))"

text \<open>The blackout changes the inner area only, pixel by pixel.\<close>

definition blackout_px :: "bool \<Rightarrow> nat \<Rightarrow> nat \<Rightarrow> (nat \<times> nat \<Rightarrow> pixel) \<Rightarrow> nat \<times> nat \<Rightarrow> pixel" where
  "blackout_px b w h f =
     (\<lambda>(X, Y). if 20 \<le> X \<and> X < w - 20 \<and> 20 \<le> Y \<and> Y < h - 20
               then (if b then dim (f (X, Y)) else (0, 0, 0, 0)) else f (X, Y))"

lemma fold_upt_invariant:
  assumes "P a s" "\<And>i s. a \<le> i \<Longrightarrow> i < b \<Longrightarrow> P i s \<Longrightarrow> P (Suc i) (body i s)" "a \<le> b"
  shows "P b (fold body [a..<b] s)"
  using assms(3,1,2)
proof (induction b rule: dec_induct)
  case (step n)
  then have "P n (fold body [a..<n] s)" by simp
  with step show ?case by simp
qed simp

lemma foldE_upt_invariant:
  assumes "P a s" "\<And>i s. a \<le> i \<Longrightarrow> i < b \<Longrightarrow> P i s \<Longrightarrow> \<exists>t. body i s = Inr t \<and> P (Suc i) t" "a \<le> b"
  shows "\<exists>t. foldE body [a..<b] s = Inr t \<and> P b t"
  using assms
proof (induction "b - a" arbitrary: a s)
  case (Suc n)
  then have lt: "a < b" by simp
  with Suc.prems obtain t where t: "body a s = Inr t" "P (Suc a) t" by blast
  have "\<exists>u. foldE body [Suc a..<b] t = Inr u \<and> P b u"
    using Suc.hyps(2) Suc.prems(2) t(2) lt by (intro Suc.hyps(1)) auto
  with t lt show ?case by (simp add: upt_conv_Cons)
qed simp

locale pixel_device =
  fixes func :: "'d vga_func"
    and ok :: "'d \<Rightarrow> bool"
    and wd :: "'d \<Rightarrow> nat"
    and ht :: "'d \<Rightarrow> nat"
    and px :: "'d \<Rightarrow> nat \<times> nat \<Rightarrow> pixel"
  assumes fill_pixel:
      "ok d \<Longrightarrow> unat x < wd d \<Longrightarrow> unat y < ht d \<Longrightarrow>
        \<exists>r d'. fill_rect func d img BGRX_8888 x y 1 1 = (r, d') \<and> ok d' \<and> wd d' = wd d \<and> ht d' = ht d \<and>
          px d' = (px d)((unat x, unat y) := pixel_of img)"
    and put_pixel:
      "ok d \<Longrightarrow> unat x < wd d \<Longrightarrow> unat y < ht d \<Longrightarrow>
        \<exists>r d' img'. transfer_image func d DIR_PUT img BGRX_8888 4 1 1 x y = (r, d', img') \<and> 0 \<le> r \<and>
          ok d' \<and> wd d' = wd d \<and> ht d' = ht d \<and> px d' = (px d)((unat x, unat y) := pixel_of img)"
    and get_pixel:
      "ok d \<Longrightarrow> unat x < wd d \<Longrightarrow> unat y < ht d \<Longrightarrow>
        \<exists>r img'. transfer_image func d DIR_GET img BGRX_8888 4 1 1 x y = (r, d, img') \<and> 0 \<le> r \<and>
          pixel_of img' = px d (unat x, unat y)"
    and screen_size:
      "ok d \<Longrightarrow> get_screen_size func d = Some (of_nat (wd d), of_nat (ht d)) \<and>
        wd d < 2 ^ 32 \<and> ht d < 2 ^ 32"
begin

text \<open>The active driver is this one, and its screen shows \<open>f\<close>.\<close>

definition shows_on :: "'d vga_state \<Rightarrow> nat \<Rightarrow> nat \<Rightarrow> (nat \<times> nat \<Rightarrow> pixel) \<Rightarrow> bool" where
  "shows_on s w h f \<longleftrightarrow>
     (\<exists>d. active_driver s = Some \<lparr>vd_func = func, vd_data = d\<rparr> \<and> ok d \<and> wd d = w \<and> ht d = h \<and> px d = f)"

lemma active_set_data:
  "active_driver s = Some p \<Longrightarrow> active_driver (set_active_data d s) = Some (p\<lparr>vd_data := d\<rparr>)"
  by (auto simp: active_driver_def set_active_data_def split: option.splits if_splits)

lemma shows_fill:
  assumes "shows_on s w h f" "unat x < w" "unat y < h"
  shows "shows_on (snd (vga_fill_rect img BGRX_8888 x y 1 1 s)) w h (f((unat x, unat y) := pixel_of img))"
proof -
  from assms(1) obtain d where d: "active_driver s = Some \<lparr>vd_func = func, vd_data = d\<rparr>" "ok d"
      "wd d = w" "ht d = h" "px d = f"
    by (auto simp: shows_on_def)
  with fill_pixel [of d x y img] assms(2,3) obtain r d' where
      "fill_rect func d img BGRX_8888 x y 1 1 = (r, d')" "ok d'" "wd d' = w" "ht d' = h"
      "px d' = f((unat x, unat y) := pixel_of img)"
    by auto
  with d show ?thesis
    by (auto simp: vga_fill_rect_def shows_on_def active_set_data)
qed

lemma blackout_step:
  assumes "shows_on s w h f" "unat x < w" "unat y < h"
  shows "\<exists>t. blackout_pixel b x y s = Inr t \<and>
    shows_on t w h (f((unat x, unat y) := (if b then dim (f (unat x, unat y)) else (0, 0, 0, 0))))"
proof (cases b)
  case False
  then show ?thesis
    using shows_fill [OF assms, of "\<lambda>_. 0"] by (simp add: blackout_pixel_def pixel_of_def)
next
  case True
  from assms(1) obtain d where d: "active_driver s = Some \<lparr>vd_func = func, vd_data = d\<rparr>" "ok d"
      "wd d = w" "ht d = h" "px d = f"
    by (auto simp: shows_on_def)
  with get_pixel [of d x y "\<lambda>_. 0"] assms(2,3) obtain r img where
      g: "transfer_image func d DIR_GET (\<lambda>_. 0) BGRX_8888 4 1 1 x y = (r, d, img)" "0 \<le> r"
         "pixel_of img = f (unat x, unat y)"
    by auto
  let ?img = "\<lambda>i. img i div 8"
  from d put_pixel [of d x y ?img] assms(2,3) obtain r2 d' img' where
      p: "transfer_image func d DIR_PUT ?img BGRX_8888 4 1 1 x y = (r2, d', img')" "0 \<le> r2"
         "ok d'" "wd d' = w" "ht d' = h" "px d' = f((unat x, unat y) := pixel_of ?img)"
    by auto
  have i: "pixel_of ?img = dim (f (unat x, unat y))"
    using g(3) by (auto simp: pixel_of_def dim_def split: prod.splits)
  have a: "active_driver (set_active_data d s) = Some \<lparr>vd_func = func, vd_data = d\<rparr>"
    using active_set_data [OF d(1), of d] by simp
  show ?thesis
    using True d(1) g(1,2) p a i
    by (auto simp: blackout_pixel_def vga_transfer_image_def shows_on_def active_set_data)
qed

lemma shows_row:
  assumes "shows_on s w h f" "unat x + unat width \<le> w" "unat (y + yy) < h" "w < 2 ^ 32"
    and pix: "\<And>xx. xx < unat width \<Longrightarrow> pixel_of (img (of_nat xx)) = pic xx"
  shows "shows_on (for_u32 0 width (\<lambda>xx s. snd (vga_fill_rect (img xx) BGRX_8888 (x + xx) (y + yy) 1 1 s)) s) w h
    (\<lambda>(X, Y). if unat x \<le> X \<and> X < unat x + unat width \<and> Y = unat (y + yy) then pic (X - unat x) else f (X, Y))"
proof -
  let ?P = "\<lambda>i s. shows_on s w h
    (\<lambda>(X, Y). if unat x \<le> X \<and> X < unat x + i \<and> Y = unat (y + yy) then pic (X - unat x) else f (X, Y))"
  have "?P (unat width) (fold (\<lambda>i s. snd (vga_fill_rect (img (of_nat i)) BGRX_8888 (x + of_nat i) (y + yy) 1 1 s)) [0..<unat width] s)"
  proof (rule fold_upt_invariant [where P = ?P])
    have "(\<lambda>(X, Y). if unat x \<le> X \<and> X < unat x + 0 \<and> Y = unat (y + yy) then pic (X - unat x) else f (X, Y)) = f"
      by (auto simp: fun_eq_iff)
    then show "?P 0 s" using assms(1) by simp
  next
    fix i t
    assume i: "i < unat width" and t: "?P i t"
    have "unat x + i < 2 ^ 32" using i assms(2,4) by simp
    then have u: "unat (x + of_nat i) = unat x + i"
      by (simp add: unat_word_ariths unat_of_nat take_bit_nat_eq_self)
    have "unat (x + of_nat i) < w" using i assms(2) u by simp
    from shows_fill [OF t this assms(3), of "img (of_nat i)"]
    show "?P (Suc i) (snd (vga_fill_rect (img (of_nat i)) BGRX_8888 (x + of_nat i) (y + yy) 1 1 t))"
      by (rule back_subst [where P = "shows_on _ w h"]) (auto simp: fun_eq_iff u pix [OF i] less_Suc_eq)
  qed simp
  then show ?thesis by (simp add: for_u32_def)
qed

lemma bgrx_rgb_at:
  assumes "3 * (unat width * unat height) < 2 ^ 32" "xx < unat width" "yy < unat height"
  shows "pixel_of (bgrx_pixel img width (of_nat xx) (of_nat yy)) = rgb_at img (unat width) xx yy"
proof -
  have "yy * unat width + xx < unat width * unat height"
  proof -
    have "yy * unat width + xx < Suc yy * unat width" using assms(2) by simp
    also have "\<dots> \<le> unat height * unat width" using assms(3) by (intro mult_le_mono1) simp
    finally show ?thesis by (simp add: mult.commute)
  qed
  then have b: "3 * (yy * unat width + xx) + 2 < 2 ^ 32"
    using assms(1) less_le_trans [of "3 * (yy * unat width + xx) + 2" "3 * (unat width * unat height)"] by simp
  have "unat (of_nat yy * width * 3 + of_nat xx * 3 + of_nat k) = 3 * (yy * unat width + xx) + k" if "k \<le> 2" for k
  proof -
    have "of_nat yy * width * 3 + of_nat xx * 3 + of_nat k = (of_nat (3 * (yy * unat width + xx) + k) :: u32)"
      by (simp add: algebra_simps)
    moreover have "3 * (yy * unat width + xx) + k < 2 ^ 32" using b that by simp
    then have "unat (of_nat (3 * (yy * unat width + xx) + k) :: u32) = 3 * (yy * unat width + xx) + k"
      by (intro unat_less_of_nat) simp
    ultimately show ?thesis by (simp only:)
  qed
  from this [of 0] this [of 1] this [of 2] show ?thesis
    by (simp add: pixel_of_def bgrx_pixel_def rgb_at_def Let_def)
qed

text \<open>A picture lands on the screen exactly, and nothing else changes.\<close>

lemma display_picture_paints:
  assumes s: "shows_on s w h f"
    and fits: "unat x + unat width \<le> w" "unat y + unat height \<le> h" "3 * (unat width * unat height) < 2 ^ 32"
  shows "fst (vga_display_picture img x y width height s) = 1 \<and>
    shows_on (snd (vga_display_picture img x y width height s)) w h
      (paint (rgb_at img (unat width)) (unat x) (unat y) (unat width) (unat height) f)"
proof -
  from s obtain d where d: "active_driver s = Some \<lparr>vd_func = func, vd_data = d\<rparr>" "ok d" "wd d = w" "ht d = h"
    by (auto simp: shows_on_def)
  with screen_size [of d] have lim: "w < 2 ^ 32" "h < 2 ^ 32" by auto
  let ?P = "\<lambda>i s. shows_on s w h (paint (rgb_at img (unat width)) (unat x) (unat y) (unat width) i f)"
  let ?row = "\<lambda>yy s. for_u32 0 width (\<lambda>xx s. snd (vga_fill_rect (bgrx_pixel img width xx yy) BGRX_8888 (x + xx) (y + yy) 1 1 s)) s"
  have "?P (unat height) (fold (\<lambda>i. ?row (of_nat i)) [0..<unat height] s)"
  proof (rule fold_upt_invariant [where P = ?P])
    have "paint (rgb_at img (unat width)) (unat x) (unat y) (unat width) 0 f = f"
      by (auto simp: paint_def fun_eq_iff)
    then show "?P 0 s" using s by simp
  next
    fix i t
    assume i: "i < unat height" and t: "?P i t"
    have "unat y + i < 2 ^ 32" using i fits(2) lim by simp
    then have u: "unat (y + of_nat i) = unat y + i"
      by (simp add: unat_word_ariths unat_of_nat take_bit_nat_eq_self)
    have yh: "unat (y + of_nat i) < h" using u i fits(2) by simp
    have "pixel_of (bgrx_pixel img width (of_nat xx) (of_nat i)) = rgb_at img (unat width) xx i" if "xx < unat width" for xx
      using fits(3) that i by (rule bgrx_rgb_at)
    from shows_row [OF t fits(1) yh lim(1), where img = "\<lambda>xx. bgrx_pixel img width xx (of_nat i)"
        and pic = "\<lambda>xx. rgb_at img (unat width) xx i", OF this]
    show "?P (Suc i) (?row (of_nat i) t)"
      by (rule back_subst [where P = "shows_on _ w h"]) (auto simp: fun_eq_iff paint_def u less_Suc_eq)
  qed simp
  then show ?thesis using d(1) by (simp add: vga_display_picture_def for_u32_def [abs_def])
qed

lemma blackout_row:
  assumes "shows_on s w h f" "w < 2 ^ 32" "h < 2 ^ 32" "40 \<le> w" "y < h"
  shows "\<exists>t. foldE (\<lambda>x. blackout_pixel b (of_nat x) (of_nat y)) [20..<w - 20] s = Inr t \<and>
    shows_on t w h (\<lambda>(X, Y). if 20 \<le> X \<and> X < w - 20 \<and> Y = y
      then (if b then dim (f (X, Y)) else (0, 0, 0, 0)) else f (X, Y))"
proof -
  let ?P = "\<lambda>i s. shows_on s w h (\<lambda>(X, Y). if 20 \<le> X \<and> X < i \<and> Y = y
      then (if b then dim (f (X, Y)) else (0, 0, 0, 0)) else f (X, Y))"
  have y: "unat (of_nat y :: u32) = y" using assms(3,5) by (intro unat_less_of_nat) simp
  have "\<exists>t. foldE (\<lambda>x. blackout_pixel b (of_nat x) (of_nat y)) [20..<w - 20] s = Inr t \<and> ?P (w - 20) t"
  proof (rule foldE_upt_invariant [where P = ?P])
    have "(\<lambda>(X, Y). if 20 \<le> X \<and> X < (20 :: nat) \<and> Y = y
      then (if b then dim (f (X, Y)) else (0, 0, 0, 0)) else f (X, Y)) = f"
      by (auto simp: fun_eq_iff)
    then show "?P 20 s" using assms(1) by simp
  next
    fix i t
    assume i: "20 \<le> i" "i < w - 20" and t: "?P i t"
    have x: "unat (of_nat i :: u32) = i" using assms(2) i by (intro unat_less_of_nat) simp
    have xy: "unat (of_nat i :: u32) < w" "unat (of_nat y :: u32) < h" using i assms(5) x y by auto
    let ?g = "\<lambda>(X, Y). if 20 \<le> X \<and> X < i \<and> Y = y
        then (if b then dim (f (X, Y)) else (0, 0, 0, 0)) else f (X, Y)"
    from blackout_step [OF t xy, of b, unfolded x y] obtain t' where
        t': "blackout_pixel b (of_nat i) (of_nat y) t = Inr t'"
      and sh: "shows_on t' w h (?g((i, y) := (if b then dim (?g (i, y)) else (0, 0, 0, 0))))"
      by blast
    from sh have "?P (Suc i) t'"
      by (rule back_subst [where P = "shows_on _ w h"]) (use i in \<open>auto simp: fun_eq_iff less_Suc_eq\<close>)
    with t' show "\<exists>t'. blackout_pixel b (of_nat i) (of_nat y) t = Inr t' \<and> ?P (Suc i) t'" by blast
  qed (use assms(4) in simp)
  then show ?thesis .
qed

lemma blackout_shows:
  assumes s: "shows_on s w h f" and sz: "40 \<le> w" "40 \<le> h"
  shows "fst (vga_blackout_screen b s) = 1 \<and>
    shows_on (snd (vga_blackout_screen b s)) w h (blackout_px b w h f)"
proof -
  from s obtain d where d: "active_driver s = Some \<lparr>vd_func = func, vd_data = d\<rparr>" "ok d" "wd d = w" "ht d = h"
    by (auto simp: shows_on_def)
  with screen_size [of d] have lim: "w < 2 ^ 32" "h < 2 ^ 32"
      and gs: "vga_get_screen_size s = Some (of_nat w, of_nat h)"
    by (auto simp: vga_get_screen_size_def)
  have u: "unat (of_nat n - 20 :: u32) = n - 20" if "n < 2 ^ 32" "40 \<le> n" for n
    using that unat_less_of_nat [where 'a = 32, of n] by (simp add: unat_sub_if')
  let ?P = "\<lambda>i s. shows_on s w h (\<lambda>(X, Y). if 20 \<le> X \<and> X < w - 20 \<and> 20 \<le> Y \<and> Y < i
               then (if b then dim (f (X, Y)) else (0, 0, 0, 0)) else f (X, Y))"
  have "\<exists>t. foldE (\<lambda>y. foldE (\<lambda>x. blackout_pixel b (of_nat x) (of_nat y)) [20..<w - 20]) [20..<h - 20] s = Inr t \<and>
      ?P (h - 20) t"
  proof (rule foldE_upt_invariant [where P = ?P])
    have "(\<lambda>(X, Y). if 20 \<le> X \<and> X < w - 20 \<and> 20 \<le> Y \<and> Y < (20 :: nat)
      then (if b then dim (f (X, Y)) else (0, 0, 0, 0)) else f (X, Y)) = f"
      by (auto simp: fun_eq_iff)
    then show "?P 20 s" using s by simp
  next
    fix i t
    assume i: "20 \<le> i" "i < h - 20" and t: "?P i t"
    then have ih: "i < h" by simp
    from blackout_row [OF t lim sz(1) ih, of b] obtain t' where
        t': "foldE (\<lambda>x. blackout_pixel b (of_nat x) (of_nat i)) [20..<w - 20] t = Inr t'"
      and sh: "shows_on t' w h (\<lambda>(X, Y). if 20 \<le> X \<and> X < w - 20 \<and> Y = i
          then (if b then dim ((\<lambda>(X, Y). if 20 \<le> X \<and> X < w - 20 \<and> 20 \<le> Y \<and> Y < i
               then (if b then dim (f (X, Y)) else (0, 0, 0, 0)) else f (X, Y)) (X, Y)) else (0, 0, 0, 0))
          else (\<lambda>(X, Y). if 20 \<le> X \<and> X < w - 20 \<and> 20 \<le> Y \<and> Y < i
               then (if b then dim (f (X, Y)) else (0, 0, 0, 0)) else f (X, Y)) (X, Y))"
      by blast
    from sh have "?P (Suc i) t'"
      by (rule back_subst [where P = "shows_on _ w h"]) (use i in \<open>auto simp: fun_eq_iff less_Suc_eq\<close>)
    with t' show "\<exists>t'. foldE (\<lambda>x. blackout_pixel b (of_nat x) (of_nat i)) [20..<w - 20] t = Inr t' \<and> ?P (Suc i) t'"
      by blast
  qed (use sz in simp)
  then show ?thesis
    using d(1) gs u [OF lim(1) sz(1)] u [OF lim(2) sz(2)]
    by (auto simp: vga_blackout_screen_def blackout_px_def)
qed

end

end
