(* ===== verification/Vga_Intel.thy ===== *)
theory Vga_Intel
  imports Vga
begin

text \<open>
  The Intel graphics driver of \<^verbatim>\<open>bitvisor/drivers/vga_intel.c\<close> (its 64-bit branch).
  The windows \<open>mapmem_gphys\<close> opens onto the register block and the video memory are the
  functions \<open>map_regs\<close> and \<open>map_vram\<close>: what the device holds there, or None when the
  mapping fails.  The driver meets the contract \<open>pixel_device\<close> on a linear screen; on a
  tiled one its addressing loses columns.
\<close>

section \<open>Data\<close>

definition MAX_NFENCE :: nat where "MAX_NFENCE = 16"

record fence_reg =
  f_start :: u32
  f_end :: u32
  f_pitch :: u32

text \<open>
  \<open>struct vga_func_data\<close>.  \<open>fence0\<close> points into the array \<open>fence\<close>; the pointers
  \<open>reg\<close> and \<open>vram\<close> are the contents behind them.
\<close>

record vga_func_data =
  reg_base :: u32
  reg_len :: u32
  vram_base :: u32
  vram_len :: u32
  reg :: "nat \<Rightarrow> u64"
  vram_mapped_len :: u32
  stride :: u32
  srcsize :: u32
  vram_off :: u32
  tiled_off :: u32
  vram :: "nat \<Rightarrow> u8"
  tiled :: bool
  nfence :: nat
  fence :: "fence_reg list"
  fence0 :: "nat option"
  ready :: bool
  swap64_line :: u32

section \<open>Fence registers and the mode\<close>

text \<open>One round of the loop of \<open>vga_intel_read_fence\<close>; \<open>Inl\<close> is \<open>return 0\<close>.\<close>

definition read_fence_step ::
    "u64 \<Rightarrow> nat \<Rightarrow> u64 \<Rightarrow> nat \<Rightarrow> vga_func_data \<Rightarrow> vga_func_data + vga_func_data" where
  "read_fence_step offset p off i data =
     (let fence_v = reg data ((unat offset + i) div 8) in
      if fence_v AND 0x1 = 0 then Inr data
      else if nfence data \<ge> MAX_NFENCE then Inl data
      else
        let fence_lower_bound = ucast (fence_v AND 0x00000000FFFFF000) :: u32;
            fence_pitch = (if p = 0 then ucast ((drop_bit 2 fence_v AND 0x3FF) + 1) * 128
                           else if p = 1 then ucast ((drop_bit 32 fence_v AND 0x3FF) + 1) * 128
                           else 0) :: u32;
            fence_upper_bound = ucast (drop_bit 32 fence_v AND 0x00000000FFFFF000) :: u32
        in if ucast fence_lower_bound \<ge> off + ucast (vram_mapped_len data) then Inr data
        else
          let n = nfence data;
              f0 = fence data ! n;
              f1 = (if ucast fence_lower_bound \<le> off
                    then f0\<lparr>f_start := ucast (ucast fence_lower_bound - off)\<rparr> else f0);
              f2 = f1\<lparr>f_end := ucast (ucast fence_upper_bound - off + 1), f_pitch := fence_pitch\<rparr>
          in Inr (data\<lparr>fence := (fence data)[n := f2],
                       fence0 := (if f_start f1 = 0 then Some n else fence0 data),
                       nfence := n + 1\<rparr>))"

definition vga_intel_read_fence :: "vga_func_data \<Rightarrow> u64 \<Rightarrow> nat \<Rightarrow> u64 \<Rightarrow> bool \<times> vga_func_data" where
  "vga_intel_read_fence data offset p off =
     (if (ucast (reg_len data) :: u64) < offset + 16 * 8 then (True, data)
      else case foldE (read_fence_step offset p off) (map (\<lambda>i. i * 8) [0..<16]) data of
             Inl d \<Rightarrow> (False, d) | Inr d \<Rightarrow> (True, d))"

text \<open>A 32-bit register, \<open>((uint32_t *)reg)[a / 4]\<close>.\<close>

definition reg32 :: "(nat \<Rightarrow> u64) \<Rightarrow> nat \<Rightarrow> u32" where
  "reg32 r a = (if even (a div 4) then ucast (r (a div 8)) else ucast (drop_bit 32 (r (a div 8))))"

text \<open>Which display plane is enabled: its register offset and its control register.\<close>

definition enabled_plane :: "(nat \<Rightarrow> u64) \<Rightarrow> (nat \<times> u32) option" where
  "enabled_plane r =
     (let ctl = reg32 r 0x70180 in
      if any_bit ctl 0x80000000 then Some (0, ctl)
      else let ctl = reg32 r 0x71180 in
      if any_bit ctl 0x80000000 then Some (0x1000, ctl)
      else let ctl = reg32 r 0x72180 in
      if any_bit ctl 0x80000000 then Some (0x2000, ctl) else None)"

text \<open>The last part of \<open>vga_intel_is_ready\<close>: the video memory at \<open>off\<close> is mapped and the fences are read.\<close>

definition map_screen ::
    "(u32 \<Rightarrow> u32 \<Rightarrow> (nat \<Rightarrow> u8) option) \<Rightarrow> u32 \<Rightarrow> vga_func_data \<Rightarrow> bool \<times> vga_func_data" where
  "map_screen map_vram off data =
     (let data = data\<lparr>vram_off := off AND 0xFFF\<rparr>;
          off = off - vram_off data;
          len = vram_off data +
            (((srcsize data AND 0xFFF) + 1 +
              drop_bit 16 (tiled_off data AND 0xFFF0000)) * stride data +
             (tiled_off data AND 0xFFF)) * 4;
          data = data\<lparr>vram_mapped_len :=
            (if len > vram_len data - off then vram_len data - off else len)\<rparr>
      in case map_vram (vram_base data + off) (vram_mapped_len data) of
           None \<Rightarrow> (False, data)
         | Some m \<Rightarrow>
           let data = data\<lparr>vram := m, nfence := 0, fence0 := None\<rparr>;
               (r, data) = vga_intel_read_fence data 0x100000 1 (ucast off)
           in if \<not> r then (False, data) else (True, data\<lparr>ready := True\<rparr>))"

definition vga_intel_is_ready ::
    "(u32 \<Rightarrow> u32 \<Rightarrow> (nat \<Rightarrow> u64) option) \<Rightarrow> (u32 \<Rightarrow> u32 \<Rightarrow> (nat \<Rightarrow> u8) option) \<Rightarrow>
     vga_func_data \<Rightarrow> bool \<times> vga_func_data" where
  "vga_intel_is_ready map_regs map_vram data =
     (let data = data\<lparr>ready := False\<rparr> in
      if reg_len data < 0x80000 then (False, data)
      else case map_regs (reg_base data) (reg_len data) of None \<Rightarrow> (False, data)
      | Some r \<Rightarrow>
        let data = data\<lparr>reg := r\<rparr> in
        case enabled_plane r of None \<Rightarrow> (False, data)
        | Some (ab, ctl) \<Rightarrow>
          if ctl AND 0x3C000000 \<noteq> 0x18000000 then (False, data)
          else
            let surface_base = reg32 r (0x7019C + ab);
                strd = reg32 r (0x70188 + ab) AND 0x0000FFC0 in
            if strd AND 0x3F \<noteq> 0 then (False, data)
            else
              let off = reg32 r (0x701A4 + ab);
                  ypos = drop_bit 16 off AND 0xFFF;
                  xpos = off AND 0x3FF;
                  off = ypos * strd + xpos in
              if strd = 0 then (False, data)
              else
                let data = data\<lparr>stride := strd, srcsize := reg32 r (0x6001C + ab)\<rparr>;
                    (data, off) =
                      (if any_bit ctl 0x400
                       then (data\<lparr>tiled := True, tiled_off := reg32 r (0x701A4 + ab)\<rparr>, off)
                       else (data\<lparr>tiled := False, tiled_off := 0\<rparr>, reg32 r (0x70184 + ab)))
                in map_screen map_vram (off + surface_base) data)"

section \<open>Copying between an image and the video memory\<close>

text \<open>
  \<open>memcpy\<close> between the image at index \<open>b\<close> and the video memory at \<open>off\<close>; \<open>dir\<close> tells
  whether the image is the destination.
\<close>

definition put_bytes :: "nat \<Rightarrow> nat \<Rightarrow> (nat \<Rightarrow> u8) \<Rightarrow> (nat \<Rightarrow> u8) \<Rightarrow> nat \<Rightarrow> u8" where
  "put_bytes a n src mem = (\<lambda>i. if a \<le> i \<and> i < a + n then src (i - a) else mem i)"

definition memcpy :: "bool \<Rightarrow> nat \<Rightarrow> nat \<Rightarrow> nat \<Rightarrow> (nat \<Rightarrow> u8) \<times> image \<Rightarrow> (nat \<Rightarrow> u8) \<times> image" where
  "memcpy dir off b n = (\<lambda>(mem, img).
     if dir then (mem, put_bytes b n (\<lambda>i. mem (off + i)) img)
     else (put_bytes off n (\<lambda>i. img (b + i)) mem, img))"

text \<open>The rounds of the swapping loop after the first one, whose length is always 64.\<close>

function swap64_rest :: "u64 \<Rightarrow> nat \<Rightarrow> u64 \<Rightarrow> bool \<Rightarrow> (nat \<Rightarrow> u8) \<times> image \<Rightarrow> (nat \<Rightarrow> u8) \<times> image" where
  "swap64_rest offset b nbytes dir s =
     (if nbytes > 64 then
        swap64_rest (offset + 64) (b + 64) (nbytes - 64) dir (memcpy dir (unat (offset XOR 64)) b 64 s)
      else memcpy dir (unat (offset XOR 64)) b (unat nbytes) s)"
  by pat_completeness auto
termination
proof (relation "measure (\<lambda>(_, _, nbytes, _). unat nbytes)")
  fix offset nbytes :: u64 and b :: nat and dir s
  assume "64 < nbytes"
  then have "64 \<le> nbytes" by simp
  then show "((offset + 64, b + 64, nbytes - 64, dir, memcpy dir (unat (offset XOR 64)) b 64 s), offset, b, nbytes, dir, s)
      \<in> measure (\<lambda>(_, _, nbytes, _). unat nbytes)"
    using \<open>64 < nbytes\<close> by (simp add: unat_sub word_less_nat_alt)
qed auto

declare swap64_rest.simps [simp del]

definition vga_intel_copyline_sub2 ::
    "u64 \<Rightarrow> nat \<Rightarrow> u64 \<Rightarrow> bool \<Rightarrow> bool \<Rightarrow> (nat \<Rightarrow> u8) \<times> image \<Rightarrow> (nat \<Rightarrow> u8) \<times> image" where
  "vga_intel_copyline_sub2 offset b nbytes dir swap64 s =
     (if swap64 then
        let len = 64 - (offset AND 63) in
        if nbytes > len then
          swap64_rest (offset + len) (b + unat len) (nbytes - len) dir
            (memcpy dir (unat (offset XOR 64)) b (unat len) s)
        else memcpy dir (unat (offset XOR 64)) b (unat nbytes) s
      else memcpy dir (unat offset) b (unat nbytes) s)"

text \<open>
  The \<open>goto loop\<close> of one fence.  \<open>Inl\<close>: everything is copied and the function returns;
  \<open>Inr\<close>: the rest lies behind the fence.
\<close>

type_synonym copy_state = "(nat \<Rightarrow> u8) \<times> image"

function fence_loop ::
    "vga_func_data \<Rightarrow> fence_reg \<Rightarrow> bool \<Rightarrow> bool \<Rightarrow> u32 \<Rightarrow> nat \<Rightarrow> u32 \<Rightarrow> u64 \<Rightarrow> copy_state \<Rightarrow>
     copy_state + u32 \<times> nat \<times> u32 \<times> copy_state" where
  "fence_loop data f dir swap64 offset b nbytes y s =
     (let p = ucast (f_pitch f) :: u64;
          x = push_bit 3 p;
          n = drop_bit 9 (y AND 4095);
          off = ucast offset - y + push_bit 9 (drop_bit 12 y) + p * n + ucast (offset AND 511);
          swap64_2 = (swap64 \<noteq> bit (swap64_line data) (unat n));
          len1 = 512 - (off AND 511);
          len2 = (if len1 > ucast (f_end f - offset) then ucast (f_end f - offset) else len1)
      in if len2 = 0 then Inr (offset, b, nbytes, s)
      else
        let len = (if len2 > ucast nbytes then ucast nbytes else len2);
            s = vga_intel_copyline_sub2 off b len dir swap64_2 s;
            left = ucast (ucast nbytes - len) :: u32
        in if left = 0 then Inl s
        else
          let y = y + len
          in fence_loop data f dir swap64 (ucast (ucast offset + len)) (b + unat len) left
               (if y \<ge> x then y - x else y) s)"
  by pat_completeness auto
termination
proof (relation "measure (\<lambda>(_, _, _, _, _, _, nbytes, _). unat nbytes)", goal_cases)
  case (2 data f dir swap64 offset b nbytes y s p x n off swap64_2 len1 len2 len s2 left y2)
  let ?n = "ucast nbytes :: u64"
  have n: "unat ?n = unat nbytes" by (rule unat_ucast_64)
  have le: "unat len \<le> unat nbytes" using 2 n by (auto simp: word_le_nat_alt not_less split: if_splits)
  then have d: "unat (?n - len) = unat nbytes - unat len" by (simp add: n unat_sub word_le_nat_alt)
  have l: "unat left = unat nbytes - unat len"
    using unat_ucast_32 [of "?n - len"] 2 d unat_bound_32 [of nbytes] by simp
  with 2 have "unat len < unat nbytes" by (auto simp flip: unat_gt_0 simp: word_less_nat_alt)
  moreover have "0 < unat len"
    using 2 calculation by (auto simp: unat_gt_0 split: if_splits)
  ultimately show ?case using l 2 by simp
qed simp

declare fence_loop.simps [simp del]

fun copyline_fences ::
    "vga_func_data \<Rightarrow> bool \<Rightarrow> bool \<Rightarrow> nat \<Rightarrow> u32 \<Rightarrow> nat \<Rightarrow> u32 \<Rightarrow> copy_state \<Rightarrow>
     copy_state + u32 \<times> nat \<times> u32 \<times> copy_state" where
  "copyline_fences data dir swap64 0 offset b nbytes s = Inr (offset, b, nbytes, s)"
| "copyline_fences data dir swap64 (Suc i) offset b nbytes s =
     (let f = fence data ! i in
      if f_start f \<ge> offset + nbytes then copyline_fences data dir swap64 i offset b nbytes s
      else if f_end f \<le> offset then copyline_fences data dir swap64 i offset b nbytes s
      else
        case fence_loop data f dir swap64 offset b nbytes
               (ucast offset mod push_bit 3 (ucast (f_pitch f))) s of
          Inl s \<Rightarrow> Inl s
        | Inr (offset, b, nbytes, s) \<Rightarrow> copyline_fences data dir swap64 i offset b nbytes s)"

definition vga_intel_copyline_sub ::
    "vga_func_data \<Rightarrow> u32 \<Rightarrow> nat \<Rightarrow> u32 \<Rightarrow> bool \<Rightarrow> bool \<Rightarrow> copy_state \<Rightarrow> copy_state" where
  "vga_intel_copyline_sub data offset b nbytes dir swap64 s =
     (case copyline_fences data dir swap64 (nfence data) offset b nbytes s of
        Inl s \<Rightarrow> s
      | Inr (offset, b, nbytes, s) \<Rightarrow>
          if nbytes > 0 then vga_intel_copyline_sub2 (ucast offset) b (ucast nbytes) dir swap64 s else s)"

text \<open>The chunks of a tiled line behind the first one: 512 bytes each, 4096 bytes apart.\<close>

function tiled_rest ::
    "vga_func_data \<Rightarrow> u64 \<Rightarrow> nat \<Rightarrow> u64 \<Rightarrow> bool \<Rightarrow> bool \<Rightarrow> copy_state \<Rightarrow> copy_state" where
  "tiled_rest data off2 b nbytes dir swap64 s =
     (if nbytes > 512 then
        tiled_rest data (off2 + 4096) (b + 512) (nbytes - 512) dir swap64
          (vga_intel_copyline_sub data (ucast off2) b 512 dir swap64 s)
      else vga_intel_copyline_sub data (ucast off2) b (ucast nbytes) dir swap64 s)"
  by pat_completeness auto
termination
proof (relation "measure (\<lambda>(_, _, _, nbytes, _). unat nbytes)", goal_cases)
  case (2 data off2 b nbytes dir swap64 s)
  then show ?case by (simp add: unat_sub word_less_nat_alt word_le_nat_alt)
qed simp

declare tiled_rest.simps [simp del]

definition vga_intel_copyline ::
    "vga_func_data \<Rightarrow> u64 \<Rightarrow> nat \<Rightarrow> u64 \<Rightarrow> bool \<Rightarrow> copy_state \<Rightarrow> copy_state" where
  "vga_intel_copyline data offset b nbytes dir s =
     (let off = ucast (vram_off data) + offset :: u64 in
      if tiled data then
        if (case fence0 data of None \<Rightarrow> False
            | Some i \<Rightarrow> off + nbytes \<le> ucast (f_end (fence data ! i)) \<and>
                f_pitch (fence data ! i) = stride data)
        then vga_intel_copyline_sub2 off b nbytes dir False s
        else
          let strd = ucast (stride data) :: u64;
              n = off div strd;
              off2 = (n AND NOT 7) * strd + push_bit 3 ((off mod strd) AND 0xE00) + push_bit 9 (n AND 7);
              off = off AND 511;
              swap64 = bit (swap64_line data) (unat (n AND 7));
              len = 512 - off
          in if nbytes > len then
               tiled_rest data (off2 + 4096) (b + unat len) (nbytes - len) dir swap64
                 (vga_intel_copyline_sub data (ucast (off + off2)) b (ucast len) dir swap64 s)
             else vga_intel_copyline_sub data (ucast (off + off2)) b (ucast nbytes) dir swap64 s
      else vga_intel_copyline_sub data (ucast off) b (ucast nbytes) dir False s)"

section \<open>The driver's entry points\<close>

text \<open>
  \<open>tmp1\<close> and \<open>tmp2\<close> are 64-bit and sums of 32-bit values, so they never wrap: they are
  naturals here, computed from wrapping 32-bit expressions as in the source.
\<close>

definition line_start :: "vga_func_data \<Rightarrow> u32 \<Rightarrow> u32 \<Rightarrow> nat" where
  "line_start data x y = unat (y * stride data + x * 4)"

definition line_end :: "vga_func_data \<Rightarrow> u32 \<Rightarrow> u32 \<Rightarrow> u32 \<Rightarrow> nat" where
  "line_end data x y width =
     min (line_start data x y + unat (width * 4)) (unat (vram_mapped_len data))"

definition tile_x :: "vga_func_data \<Rightarrow> u32" where
  "tile_x data = tiled_off data AND 0xFFF"

definition tile_y :: "vga_func_data \<Rightarrow> u32" where
  "tile_y data = drop_bit 16 (tiled_off data AND 0xFFF0000)"

definition transfer_line ::
    "vga_func_data \<Rightarrow> bool \<Rightarrow> nat \<Rightarrow> u32 \<Rightarrow> u32 \<Rightarrow> u32 \<Rightarrow> u32 \<Rightarrow> copy_state \<Rightarrow> copy_state" where
  "transfer_line data dir strd width x y yy s =
     (let tmp1 = line_start data x (y + yy); tmp2 = line_end data x (y + yy) width in
      if tmp2 \<le> tmp1 then s
      else vga_intel_copyline data (of_nat tmp1) (unat (of_nat strd * yy)) (of_nat (tmp2 - tmp1)) dir s)"

definition vga_intel_transfer_image ::
    "vga_func_data \<Rightarrow> vga_func_transfer_dir \<Rightarrow> image \<Rightarrow> vga_func_image_type \<Rightarrow> nat \<Rightarrow>
     u32 \<Rightarrow> u32 \<Rightarrow> u32 \<Rightarrow> u32 \<Rightarrow> int \<times> vga_func_data \<times> image" where
  "vga_intel_transfer_image data dir img type strd width lines x y =
     (if \<not> ready data then (0, data, img)
      else if type \<noteq> BGRX_8888 then (0, data, img)
      else
        let x = x + tile_x data; y = y + tile_y data;
            (mem, img) = for_u32 0 lines (transfer_line data (dir = DIR_GET) strd width x y) (vram data, img)
        in (1, data\<lparr>vram := mem\<rparr>, img))"

function fill_line :: "vga_func_data \<Rightarrow> nat \<Rightarrow> nat \<Rightarrow> copy_state \<Rightarrow> copy_state" where
  "fill_line data tmp1 tmp2 s =
     (if tmp1 < tmp2 then fill_line data (tmp1 + 4) tmp2 (vga_intel_copyline data (of_nat tmp1) 0 4 False s)
      else s)"
  by pat_completeness auto
termination by (relation "measure (\<lambda>(_, tmp1, tmp2, _). tmp2 - tmp1)") auto

declare fill_line.simps [simp del]

definition vga_intel_fill_rect ::
    "vga_func_data \<Rightarrow> image \<Rightarrow> vga_func_image_type \<Rightarrow> u32 \<Rightarrow> u32 \<Rightarrow> u32 \<Rightarrow> u32 \<Rightarrow> int \<times> vga_func_data" where
  "vga_intel_fill_rect data img type x y width height =
     (if \<not> ready data then (0, data)
      else if type \<noteq> BGRX_8888 then (0, data)
      else
        let x = x + tile_x data; y = y + tile_y data;
            (mem, _) = for_u32 0 height (\<lambda>yy. fill_line data (line_start data x (y + yy))
                         (line_end data x (y + yy) width)) (vram data, img)
        in (1, data\<lparr>vram := mem\<rparr>))"

definition screen_width :: "vga_func_data \<Rightarrow> u32" where
  "screen_width data = drop_bit 16 (srcsize data AND 0x1FFF0000) + 1"

definition screen_height :: "vga_func_data \<Rightarrow> u32" where
  "screen_height data = (srcsize data AND 0xFFF) + 1"

definition vga_intel_get_screen_size :: "vga_func_data \<Rightarrow> (u32 \<times> u32) option" where
  "vga_intel_get_screen_size data =
     (if \<not> ready data then None else Some (screen_width data, screen_height data))"

definition vga_intel_func ::
    "(u32 \<Rightarrow> u32 \<Rightarrow> (nat \<Rightarrow> u64) option) \<Rightarrow> (u32 \<Rightarrow> u32 \<Rightarrow> (nat \<Rightarrow> u8) option) \<Rightarrow> vga_func_data vga_func" where
  "vga_intel_func map_regs map_vram =
     \<lparr>is_ready = vga_intel_is_ready map_regs map_vram,
      transfer_image = vga_intel_transfer_image,
      fill_rect = vga_intel_fill_rect,
      get_screen_size = vga_intel_get_screen_size\<rparr>"

section \<open>The linear screen\<close>

text \<open>The states the contract holds in, and what the screen shows in them.\<close>

definition linear_screen :: "vga_func_data \<Rightarrow> bool" where
  "linear_screen d \<longleftrightarrow> ready d \<and> \<not> tiled d \<and> nfence d = 0 \<and> tiled_off d = 0 \<and>
     4 * unat (screen_width d) \<le> unat (stride d) \<and>
     unat (screen_height d) * unat (stride d) \<le> unat (vram_mapped_len d) \<and>
     unat (vram_off d) + unat (vram_mapped_len d) < 2 ^ 32"

definition pixel_addr :: "vga_func_data \<Rightarrow> nat \<Rightarrow> nat \<Rightarrow> nat" where
  "pixel_addr d X Y = unat (vram_off d) + (Y * unat (stride d) + 4 * X)"

definition screen_px :: "vga_func_data \<Rightarrow> nat \<times> nat \<Rightarrow> pixel" where
  "screen_px d = (\<lambda>(X, Y).
     if X < unat (screen_width d) \<and> Y < unat (screen_height d)
     then pixel_of (\<lambda>i. vram d (pixel_addr d X Y + i)) else (0, 0, 0, 0))"

lemma pixel_inside:
  assumes "linear_screen d" "X < unat (screen_width d)" "Y < unat (screen_height d)"
  shows "Y * unat (stride d) + 4 * X + 4 \<le> unat (vram_mapped_len d)"
proof -
  have "Y * unat (stride d) + 4 * X + 4 \<le> Suc Y * unat (stride d)"
    using assms by (simp add: linear_screen_def)
  also have "\<dots> \<le> unat (screen_height d) * unat (stride d)"
    using assms(3) by (intro mult_le_mono1) simp
  finally show ?thesis using assms(1) by (simp add: linear_screen_def)
qed

lemma unat_affine:
  assumes "unat y * unat s + 4 * unat x < 2 ^ 32"
  shows "unat (y * s + x * 4 :: u32) = unat y * unat s + 4 * unat x"
proof -
  have "y * s + x * 4 = of_nat (unat y * unat s + 4 * unat x)" by (simp add: mult.commute)
  moreover have "unat (of_nat (unat y * unat s + 4 * unat x) :: u32) = unat y * unat s + 4 * unat x"
    using assms by (intro unat_less_of_nat) simp
  ultimately show ?thesis by (simp only:)
qed

lemma unat_of_nat_64: "k < 2 ^ 32 \<Longrightarrow> unat (of_nat k :: u64) = k"
  by (rule unat_less_of_nat) simp

lemma ucast_of_nat_32: "k < 2 ^ 32 \<Longrightarrow> (ucast (of_nat k :: u64) :: u32) = of_nat k"
  by (rule word_unat_eq_iff [THEN iffD2]) (simp add: unat_ucast_32 unat_of_nat_64 unat_less_of_nat)

lemma copyline_linear:
  assumes "linear_screen d" "0 < n" "unat (vram_off d) + a + n < 2 ^ 32"
  shows "vga_intel_copyline d (of_nat a) b (of_nat n) dir s = memcpy dir (unat (vram_off d) + a) b n s"
proof -
  have o: "ucast (vram_off d) + of_nat a = (of_nat (unat (vram_off d) + a) :: u64)"
    by (simp add: unat_ucast_64 [symmetric])
  have nz: "(of_nat n :: u32) > 0"
    using assms(2,3) unat_less_of_nat [where 'a = 32, of n] by (simp add: word_less_nat_alt)
  have u: "unat (ucast (of_nat k :: u32) :: u64) = k" if "k < 2 ^ 32" for k
    using that unat_less_of_nat [where 'a = 32, of k] by (simp add: unat_ucast_64)
  show ?thesis
    using assms
    by (simp only: vga_intel_copyline_def o)
      (simp add: linear_screen_def vga_intel_copyline_sub_def vga_intel_copyline_sub2_def
        ucast_of_nat_32 [simplified] nz u [simplified] del: of_nat_add)
qed

lemma width_mask: "drop_bit 16 (0x1FFF0000 :: u32) = 0x1FFF"
  by code_simp

lemma screen_dims_le: "unat (screen_width d) \<le> 8192" "unat (screen_height d) \<le> 4096"
proof -
  have "srcsize d AND 0xFFF \<le> 0xFFF" by (rule word_and_le1)
  then have "unat (srcsize d AND 0xFFF) \<le> 4095" by (simp add: word_le_nat_alt)
  then show "unat (screen_height d) \<le> 4096"
    unfolding screen_height_def by (subst unat_add_lem [THEN iffD1]) auto
  have "drop_bit 16 (srcsize d AND 0x1FFF0000) = drop_bit 16 (srcsize d) AND 0x1FFF"
    by (simp only: drop_bit_and width_mask)
  then have "drop_bit 16 (srcsize d AND 0x1FFF0000) \<le> 0x1FFF"
    by (metis word_and_le1)
  then have "unat (drop_bit 16 (srcsize d AND 0x1FFF0000)) \<le> 8191" by (simp add: word_le_nat_alt)
  then show "unat (screen_width d) \<le> 8192"
    unfolding screen_width_def by (subst unat_add_lem [THEN iffD1]) auto
qed

text \<open>One pixel of the screen, addressed by the code and by the model.\<close>

lemma line_of_pixel:
  assumes "linear_screen d" "unat x < unat (screen_width d)" "unat y < unat (screen_height d)"
  shows "line_start d x y = unat y * unat (stride d) + 4 * unat x"
    and "line_end d x y 1 = unat y * unat (stride d) + 4 * unat x + 4"
    and "unat (vram_off d) + (unat y * unat (stride d) + 4 * unat x) + 4 < 2 ^ 32"
proof -
  note p = pixel_inside [OF assms]
  show l: "unat (vram_off d) + (unat y * unat (stride d) + 4 * unat x) + 4 < 2 ^ 32"
    using p assms(1) by (simp add: linear_screen_def)
  then have "unat y * unat (stride d) + 4 * unat x < 2 ^ 32" by simp
  then show s: "line_start d x y = unat y * unat (stride d) + 4 * unat x"
    unfolding line_start_def by (rule unat_affine)
  show "line_end d x y 1 = unat y * unat (stride d) + 4 * unat x + 4"
    using p by (simp add: line_end_def s)
qed

lemma linear_vram_update: "linear_screen (d\<lparr>vram := m\<rparr>) = linear_screen d"
  by (simp add: linear_screen_def screen_width_def screen_height_def)

lemma screen_dims_update [simp]:
  "screen_width (d\<lparr>vram := m\<rparr>) = screen_width d" "screen_height (d\<lparr>vram := m\<rparr>) = screen_height d"
  by (simp_all add: screen_width_def screen_height_def)

lemma pixel_addr_update [simp]: "pixel_addr (d\<lparr>vram := m\<rparr>) = pixel_addr d"
  by (simp add: pixel_addr_def fun_eq_iff)

text \<open>Two pixels of the screen do not overlap.\<close>

lemma pixel_addr_apart:
  assumes d: "linear_screen d" and "X < unat (screen_width d)" "X' < unat (screen_width d)"
    and ne: "(X, Y) \<noteq> (X', Y')" and "i < 4" "j < 4"
  shows "pixel_addr d X Y + i \<noteq> pixel_addr d X' Y' + j"
proof
  assume eq: "pixel_addr d X Y + i = pixel_addr d X' Y' + j"
  let ?s = "unat (stride d)"
  have w: "4 * X + i < ?s" "4 * X' + j < ?s"
    using assms by (simp_all add: linear_screen_def)
  have "Y * ?s + (4 * X + i) = Y' * ?s + (4 * X' + j)" using eq by (simp add: pixel_addr_def)
  then have "(Y * ?s + (4 * X + i)) div ?s = (Y' * ?s + (4 * X' + j)) div ?s"
    and "(Y * ?s + (4 * X + i)) mod ?s = (Y' * ?s + (4 * X' + j)) mod ?s" by simp_all
  with w have "Y = Y'" "4 * X + i = 4 * X' + j" by simp_all
  with ne assms(5,6) show False by auto
qed

lemma pixel_written:
  assumes d: "linear_screen d" and xy: "x < unat (screen_width d)" "y < unat (screen_height d)"
  shows "screen_px (d\<lparr>vram := put_bytes (pixel_addr d x y) 4 src (vram d)\<rparr>) =
    (screen_px d)((x, y) := pixel_of src)"
proof -
  have same: "put_bytes (pixel_addr d x y) 4 src (vram d) (pixel_addr d x y + i) = src i" if "i < 4" for i
    using that by (simp add: put_bytes_def)
  have other: "put_bytes (pixel_addr d x y) 4 src (vram d) (pixel_addr d X Y + i) = vram d (pixel_addr d X Y + i)"
    if "X < unat (screen_width d)" "(X, Y) \<noteq> (x, y)" "i < 4" for X Y i
  proof -
    have "\<not> (pixel_addr d x y \<le> pixel_addr d X Y + i \<and> pixel_addr d X Y + i < pixel_addr d x y + 4)"
    proof
      assume "pixel_addr d x y \<le> pixel_addr d X Y + i \<and> pixel_addr d X Y + i < pixel_addr d x y + 4"
      then obtain j where "j < 4" "pixel_addr d X Y + i = pixel_addr d x y + j"
        by (metis le_add_diff_inverse nat_add_left_cancel_less)
      with pixel_addr_apart [OF d that(1) xy(1) that(2,3)] show False by blast
    qed
    then show ?thesis by (auto simp: put_bytes_def)
  qed
  show ?thesis
    using xy same other [where i = 0] other [where i = 1] other [where i = 2] other [where i = 3]
      same [of 0] same [of 1] same [of 2] same [of 3] by (auto simp: fun_eq_iff screen_px_def pixel_of_def)
qed

lemma for_u32_once [simp]: "for_u32 0 1 body s = body 0 s"
  by (simp add: for_u32_def)

lemma linear_tile [simp]: "linear_screen d \<Longrightarrow> tile_x d = 0" "linear_screen d \<Longrightarrow> tile_y d = 0"
  by (simp_all add: linear_screen_def tile_x_def tile_y_def)

lemma linear_ready: "linear_screen d \<Longrightarrow> ready d"
  by (simp add: linear_screen_def)

lemma copy_pixel:
  fixes x y :: u32
  assumes d: "linear_screen d" and x: "unat x < unat (screen_width d)" and y: "unat y < unat (screen_height d)"
  shows "vga_intel_copyline d (of_nat (unat y * unat (stride d) + 4 * unat x)) b 4 dir s =
    memcpy dir (pixel_addr d (unat x) (unat y)) b 4 s"
  using copyline_linear [OF d, of 4 "unat y * unat (stride d) + 4 * unat x" b dir s]
    line_of_pixel(3) [OF d x y] by (simp add: pixel_addr_def)

lemma fill_pixel_linear:
  fixes x y :: u32
  assumes d: "linear_screen d" and x: "unat x < unat (screen_width d)" and y: "unat y < unat (screen_height d)"
  shows "vga_intel_fill_rect d img BGRX_8888 x y 1 1 =
    (1, d\<lparr>vram := put_bytes (pixel_addr d (unat x) (unat y)) 4 img (vram d)\<rparr>)"
  using line_of_pixel(1,2) [OF d x y] copy_pixel [OF d x y] d
  by (simp add: vga_intel_fill_rect_def linear_ready fill_line.simps memcpy_def)

lemma transfer_pixel_linear:
  fixes x y :: u32
  assumes d: "linear_screen d" and x: "unat x < unat (screen_width d)" and y: "unat y < unat (screen_height d)"
  shows "vga_intel_transfer_image d dir img BGRX_8888 4 1 1 x y =
    (let (mem, img') = memcpy (dir = DIR_GET) (pixel_addr d (unat x) (unat y)) 0 4 (vram d, img)
     in (1, d\<lparr>vram := mem\<rparr>, img'))"
  using line_of_pixel(1,2) [OF d x y] copy_pixel [OF d x y] d
  by (simp add: vga_intel_transfer_image_def transfer_line_def linear_ready Let_def)

lemma pixel_of_put: "pixel_of (put_bytes 0 4 src img) = pixel_of src"
  by (simp add: pixel_of_def put_bytes_def)

interpretation intel: pixel_device "vga_intel_func map_regs map_vram" linear_screen
    "\<lambda>d. unat (screen_width d)" "\<lambda>d. unat (screen_height d)" screen_px
  for map_regs map_vram
proof (unfold_locales, goal_cases)
  case (1 d x y img)
  then show ?case
    using pixel_written [of d "unat x" "unat y" img] fill_pixel_linear [of d x y img]
    by (simp add: vga_intel_func_def linear_vram_update)
next
  case (2 d x y img)
  then show ?case
    using pixel_written [of d "unat x" "unat y" img] transfer_pixel_linear [of d x y DIR_PUT img]
    by (simp add: vga_intel_func_def linear_vram_update memcpy_def)
next
  case (3 d x y img)
  then show ?case
    using transfer_pixel_linear [of d x y DIR_GET img]
    by (simp add: vga_intel_func_def memcpy_def pixel_of_put screen_px_def)
next
  case (4 d)
  then show ?case
    using screen_dims_le [of d]
    by (simp add: vga_intel_func_def vga_intel_get_screen_size_def linear_ready)
qed

section \<open>What the user sees\<close>

text \<open>The Intel driver is the active one and shows \<open>f\<close> on a linear screen of \<open>w\<close> by \<open>h\<close>.\<close>

definition intel_shows ::
    "(u32 \<Rightarrow> u32 \<Rightarrow> (nat \<Rightarrow> u64) option) \<Rightarrow> (u32 \<Rightarrow> u32 \<Rightarrow> (nat \<Rightarrow> u8) option) \<Rightarrow>
     vga_func_data vga_state \<Rightarrow> nat \<Rightarrow> nat \<Rightarrow> (nat \<times> nat \<Rightarrow> pixel) \<Rightarrow> bool" where
  "intel_shows map_regs map_vram s w h f \<longleftrightarrow>
     (\<exists>d. active_driver s = Some \<lparr>vd_func = vga_intel_func map_regs map_vram, vd_data = d\<rparr> \<and>
        linear_screen d \<and> unat (screen_width d) = w \<and> unat (screen_height d) = h \<and> screen_px d = f)"

lemma intel_shows_on: "intel_shows map_regs map_vram = intel.shows_on map_regs map_vram"
  by (simp add: fun_eq_iff intel_shows_def intel.shows_on_def)

text \<open>
  C33: A picture that fits on a linear Intel screen is painted exactly: every pixel of its
  rectangle has the picture's colour in the screen's byte order, and every other pixel is
  what it was.
\<close>

theorem picture_is_painted:
  assumes "intel_shows map_regs map_vram s w h f"
    and "unat x + unat width \<le> w" "unat y + unat height \<le> h" "3 * (unat width * unat height) < 2 ^ 32"
  shows "intel_shows map_regs map_vram (snd (vga_display_picture img x y width height s)) w h
    (paint (rgb_at img (unat width)) (unat x) (unat y) (unat width) (unat height) f)"
  using intel.display_picture_paints [of map_regs map_vram s w h f] assms
  by (simp add: intel_shows_on)

text \<open>A screen of one hundred by fifty pixels in a mapping that starts 16 bytes into its page.\<close>

definition sample_intel :: vga_func_data where
  "sample_intel =
     \<lparr>reg_base = 0, reg_len = 0x80000, vram_base = 0, vram_len = 0x1000000, reg = \<lambda>_. 0,
      vram_mapped_len = 25600, stride = 512, srcsize = 0x00630031, vram_off = 16, tiled_off = 0,
      vram = \<lambda>i. of_nat i, tiled = False, nfence = 0, fence = [], fence0 = None, ready = True,
      swap64_line = 0\<rparr>"

definition sample_screen :: "vga_func_data vga_state" where
  "sample_screen =
     \<lparr>vga_list = [\<lparr>vd_func = vga_intel_func (\<lambda>_ _. None) (\<lambda>_ _. None), vd_data = sample_intel\<rparr>],
      vga_active = Some 0\<rparr>"

lemma sample_shows:
  "intel_shows (\<lambda>_ _. None) (\<lambda>_ _. None) sample_screen 100 50 (screen_px sample_intel)"
proof -
  have d: "screen_width sample_intel = 100" "screen_height sample_intel = 50"
    by (simp_all add: sample_intel_def screen_width_def screen_height_def)
  then have "linear_screen sample_intel"
    by (simp add: linear_screen_def) (simp add: sample_intel_def)
  with d show ?thesis by (simp add: intel_shows_def sample_screen_def active_driver_def)
qed

theorem picture_is_painted_witness:
  "intel_shows (\<lambda>_ _. None) (\<lambda>_ _. None)
    (snd (vga_display_picture (\<lambda>i. of_nat i) 10 5 18 36 sample_screen)) 100 50
    (paint (rgb_at (\<lambda>i. of_nat i) (unat (18 :: u32))) (unat (10 :: u32)) (unat (5 :: u32)) (unat (18 :: u32))
      (unat (36 :: u32)) (screen_px sample_intel))"
  by (rule picture_is_painted [OF sample_shows]) simp_all

text \<open>
  The blackout darkens exactly the pixels at least 20 away from every edge: to an eighth of
  each colour when it is semitransparent, to black otherwise.
\<close>

theorem blackout_darkens_interior:
  assumes "intel_shows map_regs map_vram s w h f" "40 \<le> w" "40 \<le> h"
  shows "fst (vga_blackout_screen b s) = 1 \<and>
    intel_shows map_regs map_vram (snd (vga_blackout_screen b s)) w h (blackout_px b w h f)"
  using intel.blackout_shows [of map_regs map_vram s w h f] assms by (simp add: intel_shows_on)

theorem blackout_darkens_interior_witness:
  "fst (vga_blackout_screen True sample_screen) = 1 \<and>
   intel_shows (\<lambda>_ _. None) (\<lambda>_ _. None) (snd (vga_blackout_screen True sample_screen)) 100 50
     (blackout_px True 100 50 (screen_px sample_intel))"
  by (rule blackout_darkens_interior [OF sample_shows]) simp_all

section \<open>What makes the driver ready\<close>

text \<open>
  What the copy routines rely on: they divide by the stride and by eight times a fence's
  pitch, and index the array of fences.
\<close>

definition fences_ok :: "vga_func_data \<Rightarrow> bool" where
  "fences_ok d \<longleftrightarrow> length (fence d) = MAX_NFENCE \<and> nfence d \<le> MAX_NFENCE \<and>
     (\<forall>i < nfence d. f_pitch (fence d ! i) \<noteq> 0) \<and>
     (case fence0 d of None \<Rightarrow> True | Some i \<Rightarrow> i < nfence d)"

lemma fence_pitch_nonzero: "(ucast ((k AND 0x3FF) + 1) * 128 :: u32) \<noteq> 0" for k :: u64
proof -
  have "k AND 0x3FF \<le> 0x3FF" by (rule word_and_le1)
  then have k: "unat (k AND 0x3FF) \<le> 1023" by (simp add: word_le_nat_alt)
  then have "unat ((k AND 0x3FF) + 1) = unat (k AND 0x3FF) + 1"
    by (subst unat_add_lem [THEN iffD1]) auto
  then have "unat (ucast ((k AND 0x3FF) + 1) :: u32) = unat (k AND 0x3FF) + 1"
    using k by (subst unat_ucast_32) auto
  then have "unat (ucast ((k AND 0x3FF) + 1) * 128 :: u32) = (unat (k AND 0x3FF) + 1) * 128"
    using k by (subst unat_mult_lem [THEN iffD1]) auto
  then show ?thesis by (metis add_eq_0_iff_both_eq_0 mult_eq_0_iff one_neq_zero unat_0 zero_neq_numeral)
qed

lemma read_fence_step_ok:
  "fences_ok d \<Longrightarrow> fences_ok (case read_fence_step offset 1 off i d of Inl e \<Rightarrow> e | Inr e \<Rightarrow> e)"
  by (auto simp: read_fence_step_def fences_ok_def Let_def fence_pitch_nonzero nth_list_update less_Suc_eq
      split: option.splits)

lemma foldE_ok:
  assumes "\<And>i s. P s \<Longrightarrow> P (case f i s of Inl e \<Rightarrow> e | Inr e \<Rightarrow> e)" "P s"
  shows "P (case foldE f is s of Inl e \<Rightarrow> e | Inr e \<Rightarrow> e)"
  using assms(2)
proof (induction "is" arbitrary: s)
  case (Cons i "is")
  from assms(1) [OF Cons.prems, of i] Cons.IH show ?case by (cases "f i s") simp_all
qed simp

lemma read_fence_ok: "fences_ok d \<Longrightarrow> fences_ok (snd (vga_intel_read_fence d offset 1 off))"
  using foldE_ok [where P = fences_ok and f = "read_fence_step offset 1 off", OF read_fence_step_ok, of d
      "map (\<lambda>i. i * 8) [0..<16]"]
  by (auto simp: vga_intel_read_fence_def split: sum.splits)

lemma read_fence_step_frame:
  "stride (case read_fence_step offset p off i d of Inl e \<Rightarrow> e | Inr e \<Rightarrow> e) = stride d \<and>
   tiled (case read_fence_step offset p off i d of Inl e \<Rightarrow> e | Inr e \<Rightarrow> e) = tiled d"
  by (simp add: read_fence_step_def Let_def)

lemma read_fence_frame:
  "stride (snd (vga_intel_read_fence d offset p off)) = stride d"
proof -
  have "(\<lambda>e. stride e = stride d) (case foldE (read_fence_step offset p off) (map (\<lambda>i. i * 8) [0..<16]) d of
      Inl e \<Rightarrow> e | Inr e \<Rightarrow> e)"
    by (rule foldE_ok) (simp_all add: read_fence_step_frame)
  then show ?thesis by (auto simp: vga_intel_read_fence_def split: sum.splits)
qed

lemma fences_ok_ready [simp]: "fences_ok (d\<lparr>ready := r\<rparr>) = fences_ok d"
  by (simp add: fences_ok_def split: option.split)

lemma map_screen_ok:
  assumes "map_screen map_vram off c = (True, d')" "length (fence c) = MAX_NFENCE"
  shows "ready d' \<and> stride d' = stride c \<and> fences_ok d'"
proof -
  from assms(1) obtain e d2 o2 where e: "vga_intel_read_fence e 0x100000 1 o2 = (True, d2)" "d' = d2\<lparr>ready := True\<rparr>"
      "stride e = stride c" "fence e = fence c" "nfence e = 0" "fence0 e = None"
    by (auto simp: map_screen_def Let_def split: option.splits prod.splits if_splits)
  then have "fences_ok e" using assms(2) by (simp add: fences_ok_def)
  then have "fences_ok d2" using read_fence_ok e(1) by (metis snd_conv)
  moreover have "stride d2 = stride e" using read_fence_frame e(1) by (metis snd_conv)
  ultimately show ?thesis using e by simp
qed

text \<open>
  C34: The driver only reports ready with a plane enabled, a nonzero stride of a multiple of 64
  bytes, and a fence table whose entries are in range and have nonzero pitches, so no later
  copy divides by zero or reads past the table.
\<close>

theorem ready_state_is_sound:
  assumes "vga_intel_is_ready map_regs map_vram d = (True, d')" "length (fence d) = MAX_NFENCE"
  shows "ready d' \<and> stride d' \<noteq> 0 \<and> stride d' AND 0x3F = 0 \<and> fences_ok d'"
proof -
  have "\<exists>c off. map_screen map_vram off c = (True, d') \<and> stride c \<noteq> 0 \<and> stride c AND 0x3F = 0 \<and>
      fence c = fence d"
    using assms(1)
    by (auto simp: vga_intel_is_ready_def Let_def split: if_splits option.splits prod.splits intro!: exI)
  then obtain c off where c: "map_screen map_vram off c = (True, d')" "stride c \<noteq> 0" "stride c AND 0x3F = 0"
      "fence c = fence d" by blast
  then show ?thesis using map_screen_ok [OF c(1)] assms(2) by simp
qed

text \<open>Plane A enabled in the 32-bit format with a stride of 512 bytes.\<close>

definition sample_regs :: "nat \<Rightarrow> u64" where
  "sample_regs = (\<lambda>_. 0)(0xE030 := 0x98000000, 0xE031 := 0x200)"

definition sample_ready :: vga_func_data where
  "sample_ready = snd (vga_intel_is_ready (\<lambda>_ _. Some sample_regs) (\<lambda>_ _. Some (\<lambda>_. 0))
     (sample_intel\<lparr>fence := replicate 16 \<lparr>f_start = 0, f_end = 0, f_pitch = 0\<rparr>, ready := False\<rparr>))"

lemma sample_is_ready:
  "vga_intel_is_ready (\<lambda>_ _. Some sample_regs) (\<lambda>_ _. Some (\<lambda>_. 0))
     (sample_intel\<lparr>fence := replicate 16 \<lparr>f_start = 0, f_end = 0, f_pitch = 0\<rparr>, ready := False\<rparr>) =
   (True, sample_ready)"
proof -
  have "fst (vga_intel_is_ready (\<lambda>_ _. Some sample_regs) (\<lambda>_ _. Some (\<lambda>_. 0))
     (sample_intel\<lparr>fence := replicate 16 \<lparr>f_start = 0, f_end = 0, f_pitch = 0\<rparr>, ready := False\<rparr>))"
    by (simp add: vga_intel_is_ready_def enabled_plane_def reg32_def sample_regs_def map_screen_def
        vga_intel_read_fence_def sample_intel_def any_bit_def)
  then show ?thesis by (simp add: sample_ready_def prod_eq_iff)
qed

theorem ready_state_is_sound_witness:
  "ready sample_ready \<and> stride sample_ready \<noteq> 0 \<and> stride sample_ready AND 0x3F = 0 \<and> fences_ok sample_ready"
  by (rule ready_state_is_sound [OF sample_is_ready]) (simp add: MAX_NFENCE_def)

section \<open>Tiled screens\<close>

lemma take_bit_add_multiple:
  assumes "take_bit n (unat k) = 0" "n \<le> 64"
  shows "take_bit n (m + k) = take_bit n (m :: u64)"
proof (rule word_unat_eq_iff [THEN iffD2])
  have "take_bit n (unat (m + k)) = take_bit n (take_bit 64 (unat m + unat k))"
    by (simp add: unat_word_ariths take_bit_eq_mod)
  also have "\<dots> = take_bit n (unat m + unat k)" using assms(2) by (simp add: min_def)
  also have "\<dots> = take_bit n (unat m)" using assms(1) by (metis add.right_neutral take_bit_add take_bit_of_0)
  finally show "unat (take_bit n (m + k)) = unat (take_bit n m)" by (simp add: unsigned_take_bit_eq)
qed

lemma div_mod_add_small:
  fixes a k s :: nat
  assumes "a mod s + k < s"
  shows "(a + k) div s = a div s \<and> (a + k) mod s = a mod s + k"
  using assms by (simp add: div_add1_eq [of a k s] mod_add_eq [of a s k, symmetric])

lemma mask_E00: "(m + 4096) AND 0xE00 = m AND (0xE00 :: u64)"
proof -
  have a: "k AND 0xE00 = take_bit 12 k AND 0xE00" for k :: u64
    by (simp add: take_bit_eq_mask and.assoc mask_eq_exp_minus_1)
  have "take_bit 12 (m + 4096) = take_bit 12 m"
    by (rule take_bit_add_multiple) simp_all
  then show ?thesis using a [of "m + 4096"] a [of m] by simp
qed

lemma mask_511: "(m + 4096) AND 511 = m AND (511 :: u64)"
proof -
  have a: "k AND 511 = take_bit 9 k AND 511" for k :: u64
    by (simp add: take_bit_eq_mask and.assoc mask_eq_exp_minus_1)
  have "take_bit 9 (m + 4096) = take_bit 9 m"
    by (rule take_bit_add_multiple) simp_all
  then show ?thesis using a [of "m + 4096"] a [of m] by simp
qed

text \<open>
  Bytes 4096 apart in one line of a tiled screen are copied to and from the same place: of
  the column, the address keeps only the bits 9 to 11 and the position in its chunk.
\<close>

lemma copyline_tiled_alias:
  assumes t: "tiled d" "fence0 d = None"
    and o: "unat (ucast (vram_off d) + offset) mod unat (stride d) + 4096 < unat (stride d)"
    and nw: "unat (ucast (vram_off d) + offset) + 4096 < 2 ^ 64"
  shows "vga_intel_copyline d (offset + 4096) b nbytes dir s = vga_intel_copyline d offset b nbytes dir s"
proof -
  let ?o = "ucast (vram_off d) + offset :: u64" and ?s = "ucast (stride d) :: u64"
  have S: "unat ?s = unat (stride d)" by (rule unat_ucast_64)
  have p: "unat (?o + 4096) = unat ?o + 4096"
    using nw by (subst unat_add_lem [THEN iffD1]) auto
  have dm: "(unat ?o + 4096) div unat (stride d) = unat ?o div unat (stride d) \<and>
      (unat ?o + 4096) mod unat (stride d) = unat ?o mod unat (stride d) + 4096"
    using o by (rule div_mod_add_small)
  have n: "(?o + 4096) div ?s = ?o div ?s"
    by (rule word_unat_eq_iff [THEN iffD2]) (simp add: unat_div p S dm)
  have m: "(?o + 4096) mod ?s = ?o mod ?s + 4096"
  proof (rule word_unat_eq_iff [THEN iffD2])
    have "unat (?o mod ?s + 4096) = unat (?o mod ?s) + 4096"
      using o unat_bound_32 [of "stride d"]
      by (subst unat_add_lem [THEN iffD1]) (auto simp: unat_mod S)
    then show "unat ((?o + 4096) mod ?s) = unat (?o mod ?s + 4096)"
      by (simp add: unat_mod p S dm)
  qed
  have a: "ucast (vram_off d) + (offset + 4096) = ?o + 4096" by simp
  show ?thesis
    unfolding vga_intel_copyline_def Let_def a n m mask_E00 mask_511
    by (simp only: t if_True option.case if_False)
qed

text \<open>
  On a tiled screen without a matching fence, pixels of one line that are 1024 columns apart
  are the same memory: a pixel written at column \<open>x + 1024\<close> lands on column \<open>x\<close>.
\<close>

theorem tiled_columns_alias:
  assumes t: "tiled d" "fence0 d = None"
    and m: "line_start d (x + tile_x d) (y + tile_y d) + 4100 \<le> unat (vram_mapped_len d)"
    and row: "(unat (vram_off d) + line_start d (x + tile_x d) (y + tile_y d)) mod unat (stride d) + 4096
                < unat (stride d)"
  shows "vga_intel_fill_rect d img BGRX_8888 (x + 1024) y 1 1 = vga_intel_fill_rect d img BGRX_8888 x y 1 1"
proof -
  let ?Y = "y + tile_y d" and ?X = "x + tile_x d"
  let ?ls = "line_start d ?X ?Y"
  have lim: "?ls + 4100 < 4294967296" using m unat_bound_32 [of "vram_mapped_len d"] by simp
  have "?Y * stride d + (x + 1024 + tile_x d) * 4 = (?Y * stride d + ?X * 4) + 4096"
    by (simp add: algebra_simps)
  then have ls2: "line_start d (x + 1024 + tile_x d) ?Y = ?ls + 4096"
    unfolding line_start_def using lim
    by (simp only: line_start_def) (subst unat_add_lem [THEN iffD1], auto)
  have le: "line_end d ?X ?Y 1 = ?ls + 4" "line_end d (x + 1024 + tile_x d) ?Y 1 = ?ls + 4096 + 4"
    using m by (simp_all add: line_end_def ls2)
  have vo: "unat (ucast (vram_off d) + of_nat ?ls :: u64) = unat (vram_off d) + ?ls"
  proof -
    have "ucast (vram_off d) + of_nat ?ls = (of_nat (unat (vram_off d) + ?ls) :: u64)"
      by (simp add: unat_ucast_64 [symmetric])
    moreover have "unat (of_nat (unat (vram_off d) + ?ls) :: u64) = unat (vram_off d) + ?ls"
      using lim unat_bound_32 [of "vram_off d"] by (intro unat_less_of_nat) simp
    ultimately show ?thesis by (simp only:)
  qed
  have same: "vga_intel_copyline d (of_nat (?ls + 4096)) 0 4 False s = vga_intel_copyline d (of_nat ?ls) 0 4 False s" for s
    using copyline_tiled_alias [OF t, of "of_nat ?ls" 0 4 False s] row vo lim unat_bound_32 [of "vram_off d"]
    by simp
  show ?thesis
    by (simp add: vga_intel_fill_rect_def Let_def ls2 le fill_line.simps same del: of_nat_add)
qed

definition sample_tiled :: vga_func_data where
  "sample_tiled = sample_intel\<lparr>tiled := True, stride := 8192, vram_off := 0, vram_mapped_len := 0x1000000\<rparr>"

theorem tiled_columns_alias_witness:
  "vga_intel_fill_rect sample_tiled (\<lambda>_. 0xff) BGRX_8888 (0 + 1024) 0 1 1 =
   vga_intel_fill_rect sample_tiled (\<lambda>_. 0xff) BGRX_8888 0 0 1 1"
  by (rule tiled_columns_alias)
    (simp_all add: sample_tiled_def sample_intel_def line_start_def tile_x_def tile_y_def)

end
