(* ===== verification/Cache.thy ===== *)
theory Cache
  imports Prelude
begin

text \<open>
  Memory types: \<^verbatim>\<open>bitvisor/core/cache.c\<close> and \<^verbatim>\<open>core/cache.h\<close> in the build with
  shadow page tables.  The VMM keeps the guest's PAT and MTRRs in variables and realises the
  memory type they give by the attribute bits of its own page table entries.  The processor
  is a record of the registers the code touches and a trace of the order it touches them in.
\<close>

section \<open>Types and registers\<close>

definition CACHE_TYPE_UC :: u8 where "CACHE_TYPE_UC = 0x00"
definition CACHE_TYPE_WC :: u8 where "CACHE_TYPE_WC = 0x01"
definition CACHE_TYPE_WT :: u8 where "CACHE_TYPE_WT = 0x04"
definition CACHE_TYPE_WP :: u8 where "CACHE_TYPE_WP = 0x05"
definition CACHE_TYPE_WB :: u8 where "CACHE_TYPE_WB = 0x06"
definition CACHE_TYPE_UC_MINUS :: u8 where "CACHE_TYPE_UC_MINUS = 0x07"

lemmas cache_types = CACHE_TYPE_UC_def CACHE_TYPE_WC_def CACHE_TYPE_WT_def CACHE_TYPE_WP_def
  CACHE_TYPE_WB_def CACHE_TYPE_UC_MINUS_def

definition GMTRR_VCNT :: nat where "GMTRR_VCNT = 10"
definition NUM_MTRR_FIX :: nat where "NUM_MTRR_FIX = 11"

abbreviation (input) "MSR_IA32_MTRRCAP \<equiv> 0xFE :: u64"
abbreviation (input) "MSR_IA32_MTRR_PHYSBASE0 \<equiv> 0x200 :: u64"
abbreviation (input) "MSR_IA32_MTRR_PHYSMASK0 \<equiv> 0x201 :: u64"
abbreviation (input) "MSR_IA32_MTRR_FIX64K_00000 \<equiv> 0x250 :: u64"
abbreviation (input) "MSR_IA32_MTRR_FIX4K_F8000 \<equiv> 0x26F :: u64"
abbreviation (input) "MSR_IA32_PAT \<equiv> 0x277 :: u64"
abbreviation (input) "MSR_IA32_MTRR_DEF_TYPE \<equiv> 0x2FF :: u64"
abbreviation (input) "MSR_AMD_SYSCFG \<equiv> 0xC0010010 :: u64"
abbreviation (input) "MSR_AMD_TOP_MEM2 \<equiv> 0xC001001D :: u64"
abbreviation (input) "TYPE_MASK \<equiv> 0xFF :: u64"
abbreviation (input) "ADDR_MASK \<equiv> 0xFFFFFFFFFF000 :: u64"
abbreviation (input) "V_BIT \<equiv> 0x800 :: u64"
abbreviation (input) "FE_BIT \<equiv> 0x400 :: u64"
abbreviation (input) "E_BIT \<equiv> 0x800 :: u64"
abbreviation (input) "VCNT_MASK \<equiv> 0xFF :: u64"
abbreviation (input) "FIX_BIT \<equiv> 0x100 :: u64"
abbreviation (input) "WC_BIT \<equiv> 0x400 :: u64"
abbreviation (input) "TOM2EN_BIT \<equiv> 0x200000 :: u64"
abbreviation (input) "TOM2FORCE_BIT \<equiv> 0x400000 :: u64"
abbreviation (input) "TOP_MEM2_ADDR_MASK \<equiv> 0xFFFFFFF800000 :: u64"

text \<open>\<open>struct cache_regs\<close>; the byte view of the union \<open>mtrr_fix\<close> is \<open>fix_byte\<close>.\<close>

record cache_regs =
  pat_data :: "u8 list"
  mtrr_def_type :: u64
  mtrr_physbase :: "u64 list"
  mtrr_physmask :: "u64 list"
  mtrr_fix :: "u64 list"
  syscfg :: u64
  top_mem2 :: u64

definition byte_of :: "u64 \<Rightarrow> nat \<Rightarrow> u8" where
  "byte_of v k = ucast (drop_bit (8 * k) v)"

definition fix_byte :: "cache_regs \<Rightarrow> nat \<Rightarrow> u8" where
  "fix_byte c i = byte_of (mtrr_fix c ! (i div 8)) (i mod 8)"

record cache_pcpu_data =
  has_pat :: bool
  has_mtrr :: bool
  syscfg_exist :: bool
  mtrrcap :: u64
  pat_index_from_type :: "nat list"
  regs_h :: cache_regs

record cache_data =
  regs_g :: cache_regs
  pass_mtrrfix :: bool

definition pat_default :: "u8 list" where
  "pat_default = [CACHE_TYPE_WB, CACHE_TYPE_WT, CACHE_TYPE_UC_MINUS, CACHE_TYPE_UC,
                  CACHE_TYPE_WB, CACHE_TYPE_WT, CACHE_TYPE_UC_MINUS, CACHE_TYPE_UC]"

definition mtrr_fix_msr :: "u64 list" where
  "mtrr_fix_msr = [0x268, 0x269, 0x26A, 0x26B, 0x26C, 0x26D, 0x26E, 0x26F, 0x258, 0x259, 0x250]"

section \<open>The memory type the MTRRs give\<close>

text \<open>The loop over the variable ranges; \<open>Inl\<close> is its early return.\<close>

fun range_type :: "u64 \<Rightarrow> (u64 \<times> u64) list \<Rightarrow> u8 \<Rightarrow> u8 + u8" where
  "range_type phys [] type = Inr type"
| "range_type phys ((base, msk) # rs) type =
     (if \<not> any_bit msk V_BIT then range_type phys rs type
      else
        let msk = msk AND ADDR_MASK;
            basetype = ucast (base AND TYPE_MASK)
        in if msk AND base = msk AND phys then
             if basetype = CACHE_TYPE_UC then Inl CACHE_TYPE_UC
             else if basetype = CACHE_TYPE_WT then range_type phys rs CACHE_TYPE_WT
             else range_type phys rs (if type = CACHE_TYPE_UC_MINUS then basetype else type)
           else range_type phys rs type)"

definition ranges :: "cache_regs \<Rightarrow> (u64 \<times> u64) list" where
  "ranges c = map (\<lambda>i. (mtrr_physbase c ! i, mtrr_physmask c ! i)) [0..<GMTRR_VCNT]"

definition fix_index :: "u64 \<Rightarrow> nat" where
  "fix_index phys =
     (if any_bit phys 0x80000 then
        if any_bit phys 0x40000 then unat (drop_bit 12 (phys AND 0x3F000))
        else 64 + unat (drop_bit 14 (phys AND 0x3C000))
      else 80 + unat (drop_bit 16 (phys AND 0x70000)))"

definition get_mtrr_type :: "u64 \<Rightarrow> cache_regs \<Rightarrow> bool \<Rightarrow> u8" where
  "get_mtrr_type phys c pass =
     (if \<not> any_bit (mtrr_def_type c) E_BIT then CACHE_TYPE_UC
      else if any_bit (mtrr_def_type c) FE_BIT \<and> phys \<le> 0xFFFFF then
        if pass then CACHE_TYPE_WB else fix_byte c (fix_index phys)
      else case range_type phys (ranges c) CACHE_TYPE_UC_MINUS of
        Inl t \<Rightarrow> t
      | Inr type \<Rightarrow>
          if type \<noteq> CACHE_TYPE_UC_MINUS then type
          else if phys \<ge> 0x100000000 \<and> any_bit (syscfg c) TOM2FORCE_BIT \<and>
                  phys < top_mem2 c AND TOP_MEM2_ADDR_MASK
               then CACHE_TYPE_WB
               else ucast (mtrr_def_type c AND TYPE_MASK))"

text \<open>The same scan for a block \<open>phys .. phys | physmask\<close>; \<open>Inl\<close> is an early return.\<close>

fun range_equal :: "u64 \<Rightarrow> u64 \<Rightarrow> (u64 \<times> u64) list \<Rightarrow> u8 \<Rightarrow> bool + u8" where
  "range_equal phys physmask [] type = Inr type"
| "range_equal phys physmask ((base, msk) # rs) type =
     (if \<not> any_bit msk V_BIT then range_equal phys physmask rs type
      else
        let msk = msk AND ADDR_MASK;
            basetype = ucast (base AND TYPE_MASK)
        in if msk AND base = msk AND phys then
             if any_bit msk physmask then Inl False
             else if basetype = CACHE_TYPE_UC then Inl True
             else if basetype = CACHE_TYPE_WT then range_equal phys physmask rs CACHE_TYPE_WT
             else range_equal phys physmask rs (if type = CACHE_TYPE_UC_MINUS then basetype else type)
           else if any_bit msk physmask then
             if (msk AND base) AND NOT physmask = phys AND NOT physmask then Inl False
             else range_equal phys physmask rs type
           else range_equal phys physmask rs type)"

definition mtrr_type_equal :: "u64 \<Rightarrow> cache_regs \<Rightarrow> bool \<Rightarrow> u64 \<Rightarrow> bool" where
  "mtrr_type_equal phys c pass physmask =
     (if \<not> any_bit (mtrr_def_type c) E_BIT then False
      else if any_bit (mtrr_def_type c) FE_BIT \<and> (phys \<le> 0xFFFFF \<or> phys \<le> physmask) then False
      else case range_equal phys physmask (ranges c) CACHE_TYPE_UC_MINUS of
        Inl r \<Rightarrow> r
      | Inr type \<Rightarrow>
          if type \<noteq> CACHE_TYPE_UC_MINUS then True
          else if phys \<ge> 0x100000000 \<and> any_bit (syscfg c) TOM2FORCE_BIT \<and>
                  phys < top_mem2 c AND TOP_MEM2_ADDR_MASK
               then phys OR physmask < top_mem2 c AND TOP_MEM2_ADDR_MASK
               else True)"

section \<open>The processor\<close>

text \<open>
  The registers the code reads and writes, the model-specific registers whose access faults,
  and a trace of the writes, cache flushes and rendezvous, oldest first.
\<close>

datatype hw_event = Sync | Wbinvd | Wrcr0 u64 | Wrcr3 u64 | Wrcr4 u64 | Wrmsr u64 u64

record hw =
  msr :: "u64 \<Rightarrow> u64"
  cr0 :: u64
  cr3 :: u64
  cr4 :: u64
  rd_faults :: "u64 \<Rightarrow> bool"
  wr_faults :: "u64 \<Rightarrow> u64 \<Rightarrow> bool"
  trace :: "hw_event list"

definition asm_wrmsr64 :: "u64 \<Rightarrow> u64 \<Rightarrow> hw \<Rightarrow> hw" where
  "asm_wrmsr64 n v m = m\<lparr>msr := (msr m)(n := v), trace := trace m @ [Wrmsr n v]\<rparr>"

definition asm_wrcr0 :: "u64 \<Rightarrow> hw \<Rightarrow> hw" where
  "asm_wrcr0 v m = m\<lparr>cr0 := v, trace := trace m @ [Wrcr0 v]\<rparr>"

definition asm_wrcr3 :: "u64 \<Rightarrow> hw \<Rightarrow> hw" where
  "asm_wrcr3 v m = m\<lparr>cr3 := v, trace := trace m @ [Wrcr3 v]\<rparr>"

definition asm_wrcr4 :: "u64 \<Rightarrow> hw \<Rightarrow> hw" where
  "asm_wrcr4 v m = m\<lparr>cr4 := v, trace := trace m @ [Wrcr4 v]\<rparr>"

definition asm_wbinvd :: "hw \<Rightarrow> hw" where
  "asm_wbinvd m = m\<lparr>trace := trace m @ [Wbinvd]\<rparr>"

definition sync_all_processors :: "hw \<Rightarrow> hw" where
  "sync_all_processors m = m\<lparr>trace := trace m @ [Sync]\<rparr>"

text \<open>One processor and the virtual processor on it.\<close>

record cache_state =
  cpu :: hw
  pc :: cache_pcpu_data
  vc :: cache_data

abbreviation map_h :: "(cache_regs \<Rightarrow> cache_regs) \<Rightarrow> cache_state \<Rightarrow> cache_state" where
  "map_h f s \<equiv> s\<lparr>pc := (pc s)\<lparr>regs_h := f (regs_h (pc s))\<rparr>\<rparr>"

abbreviation map_g :: "(cache_regs \<Rightarrow> cache_regs) \<Rightarrow> cache_state \<Rightarrow> cache_state" where
  "map_g f s \<equiv> s\<lparr>vc := (vc s)\<lparr>regs_g := f (regs_g (vc s))\<rparr>\<rparr>"

text \<open>Accesses that may fault: the flag is the code's \<open>ret\<close>, true for a fault.\<close>

definition cache_rdmsr :: "u64 \<Rightarrow> cache_state \<Rightarrow> bool \<times> u64 option" where
  "cache_rdmsr n s = (if rd_faults (cpu s) n then (True, None) else (False, Some (msr (cpu s) n)))"

definition cache_wrmsr :: "u64 \<Rightarrow> u64 \<Rightarrow> cache_state \<Rightarrow> bool \<times> cache_state" where
  "cache_wrmsr n v s =
     (if wr_faults (cpu s) n v then (True, s) else (False, s\<lparr>cpu := asm_wrmsr64 n v (cpu s)\<rparr>))"

definition vcnt :: "cache_pcpu_data \<Rightarrow> nat" where
  "vcnt p = unat (mtrrcap p AND VCNT_MASK)"

definition save_initial_mtrr :: "cache_state \<Rightarrow> cache_state" where
  "save_initial_mtrr s =
     (let m = msr (cpu s); p = pc s;
          s = fold (\<lambda>i. map_h (\<lambda>h. h\<lparr>mtrr_physbase := (mtrr_physbase h)[i := m (MSR_IA32_MTRR_PHYSBASE0 + of_nat i * 2)],
                                     mtrr_physmask := (mtrr_physmask h)[i := m (MSR_IA32_MTRR_PHYSMASK0 + of_nat i * 2)]\<rparr>))
                [0..<vcnt p] s;
          s = (if any_bit (mtrrcap p) FIX_BIT
               then fold (\<lambda>i. map_h (\<lambda>h. h\<lparr>mtrr_fix := (mtrr_fix h)[i := m (mtrr_fix_msr ! i)]\<rparr>)) [0..<NUM_MTRR_FIX] s
               else s);
          s = map_h (\<lambda>h. h\<lparr>mtrr_def_type := m MSR_IA32_MTRR_DEF_TYPE\<rparr>) s
      in if any_bit (syscfg (regs_h (pc s))) TOM2EN_BIT
         then map_h (\<lambda>h. h\<lparr>top_mem2 := m MSR_AMD_TOP_MEM2\<rparr>) s else s)"

section \<open>Reprogramming the processor\<close>

definition CR0_NW_BIT :: u64 where "CR0_NW_BIT = 0x20000000"
definition CR0_CD_BIT :: u64 where "CR0_CD_BIT = 0x40000000"
definition CR4_PGE_BIT :: u64 where "CR4_PGE_BIT = 0x80"

definition disable_cache :: "hw \<Rightarrow> hw" where
  "disable_cache m = asm_wrcr0 ((cr0 m AND NOT CR0_NW_BIT) OR CR0_CD_BIT) m"

definition flush_cache :: "hw \<Rightarrow> hw" where
  "flush_cache = asm_wbinvd"

definition enable_cache :: "hw \<Rightarrow> hw" where
  "enable_cache m = asm_wrcr0 (cr0 m AND NOT (CR0_NW_BIT OR CR0_CD_BIT)) m"

definition flush_tlb :: "hw \<Rightarrow> hw" where
  "flush_tlb m = asm_wrcr3 (cr3 m) m"

definition disable_mtrr :: "cache_pcpu_data \<Rightarrow> hw \<Rightarrow> hw" where
  "disable_mtrr p m =
     (if \<not> has_mtrr p then m
      else asm_wrmsr64 MSR_IA32_MTRR_DEF_TYPE (msr m MSR_IA32_MTRR_DEF_TYPE AND NOT E_BIT) m)"

definition load_initial_mtrr :: "cache_pcpu_data \<Rightarrow> hw \<Rightarrow> hw" where
  "load_initial_mtrr p m =
     (let h = regs_h p;
          m = fold (\<lambda>i m. asm_wrmsr64 (MSR_IA32_MTRR_PHYSMASK0 + of_nat i * 2) (mtrr_physmask h ! i)
                (asm_wrmsr64 (MSR_IA32_MTRR_PHYSBASE0 + of_nat i * 2) (mtrr_physbase h ! i) m)) [0..<vcnt p] m;
          m = (if any_bit (mtrrcap p) FIX_BIT
               then fold (\<lambda>i. asm_wrmsr64 (mtrr_fix_msr ! i) (mtrr_fix h ! i)) [0..<NUM_MTRR_FIX] m else m);
          m = asm_wrmsr64 MSR_IA32_MTRR_DEF_TYPE (mtrr_def_type h) m;
          m = (if syscfg_exist p then asm_wrmsr64 MSR_AMD_SYSCFG (syscfg h) m else m)
      in if any_bit (syscfg h) TOM2EN_BIT then asm_wrmsr64 MSR_AMD_TOP_MEM2 (top_mem2 h) m else m)"

definition update_mtrr :: "cache_pcpu_data \<Rightarrow> hw \<Rightarrow> hw" where
  "update_mtrr p m = (if \<not> has_mtrr p then m else load_initial_mtrr p m)"

definition enable_mtrr :: "cache_pcpu_data \<Rightarrow> hw \<Rightarrow> hw" where
  "enable_mtrr p m =
     (if \<not> has_mtrr p then m
      else asm_wrmsr64 MSR_IA32_MTRR_DEF_TYPE (msr m MSR_IA32_MTRR_DEF_TYPE OR E_BIT) m)"

definition save_and_clear_pge :: "hw \<Rightarrow> bool \<times> hw" where
  "save_and_clear_pge m =
     (any_bit (cr4 m) CR4_PGE_BIT,
      if any_bit (cr4 m) CR4_PGE_BIT then asm_wrcr4 (cr4 m AND NOT CR4_PGE_BIT) m else m)"

definition restore_pge :: "bool \<Rightarrow> hw \<Rightarrow> hw" where
  "restore_pge pge m =
     asm_wrcr4 (if pge then cr4 m OR CR4_PGE_BIT else cr4 m AND NOT CR4_PGE_BIT) m"

text \<open>The eight bytes of a PAT value, least significant first, and back.\<close>

definition pat_value :: "u8 list \<Rightarrow> u64" where
  "pat_value bs = fold (\<lambda>i v. v OR push_bit (i * 8) (ucast (bs ! i))) [0..<8] 0"

definition update_pat :: "cache_pcpu_data \<Rightarrow> hw \<Rightarrow> hw" where
  "update_pat p m =
     (if \<not> has_pat p then m else asm_wrmsr64 MSR_IA32_PAT (pat_value (pat_data (regs_h p))) m)"

definition update_mtrr_and_pat :: "cache_pcpu_data \<Rightarrow> hw \<Rightarrow> hw" where
  "update_mtrr_and_pat p m =
     (let m = sync_all_processors m;
          m = disable_cache m;
          m = flush_cache m;
          (pge, m) = save_and_clear_pge m;
          m = flush_tlb m;
          m = disable_mtrr p m;
          m = update_mtrr p m;
          m = update_pat p m;
          m = enable_mtrr p m;
          m = flush_cache m;
          m = flush_tlb m;
          m = enable_cache m;
          m = restore_pge pge m
      in sync_all_processors m)"

section \<open>The guest's registers\<close>

text \<open>The flag of the setters is the code's result: true asks for a \<open>#GP\<close> in the guest.\<close>

definition is_type_ok :: "cache_state \<Rightarrow> u8 \<Rightarrow> bool" where
  "is_type_ok s type \<longleftrightarrow> (\<exists>i \<in> set [0..<8]. pat_data (regs_h (pc s)) ! i = type)"

definition set_gpat :: "u8 list \<Rightarrow> cache_state \<Rightarrow> bool \<times> cache_state" where
  "set_gpat gpat_data s =
     (if \<exists>i \<in> set [0..<8]. \<not> is_type_ok s (gpat_data ! i) then (True, s)
      else (False, map_g (\<lambda>g. g\<lparr>pat_data := take 8 gpat_data\<rparr>) s))"

definition cache_get_gpat :: "cache_state \<Rightarrow> bool \<times> u64" where
  "cache_get_gpat s =
     (if \<not> has_pat (pc s) then (True, 0) else (False, pat_value (pat_data (regs_g (vc s)))))"

definition cache_set_gpat :: "u64 \<Rightarrow> cache_state \<Rightarrow> bool \<times> cache_state" where
  "cache_set_gpat pat s =
     (if \<not> has_pat (pc s) then (True, s) else set_gpat (map (byte_of pat) [0..<8]) s)"

definition get_gmtrr_def_type :: "cache_state \<Rightarrow> bool \<times> u64 option" where
  "get_gmtrr_def_type s = (False, Some (mtrr_def_type (regs_g (vc s))))"

definition type_allowed :: "cache_state \<Rightarrow> u8 \<Rightarrow> bool" where
  "type_allowed s type \<longleftrightarrow> is_type_ok s type \<and> type \<noteq> CACHE_TYPE_UC_MINUS"

definition set_gmtrr_def_type :: "u64 \<Rightarrow> cache_state \<Rightarrow> bool \<times> cache_state" where
  "set_gmtrr_def_type value s =
     (if any_bit value (NOT (TYPE_MASK OR FE_BIT OR E_BIT)) then (True, s)
      else if \<not> type_allowed s (ucast (value AND TYPE_MASK)) then (True, s)
      else (False, map_g (\<lambda>g. g\<lparr>mtrr_def_type := value\<rparr>) s))"

definition range_index :: "u64 \<Rightarrow> nat" where
  "range_index msr_num = unat (drop_bit 1 (msr_num - MSR_IA32_MTRR_PHYSBASE0))"

definition get_gmtrr_range :: "u64 \<Rightarrow> cache_state \<Rightarrow> bool \<times> u64 option" where
  "get_gmtrr_range msr_num s =
     (let index = range_index msr_num in
      if index \<ge> GMTRR_VCNT then (True, None)
      else if any_bit msr_num 1 then (False, Some (mtrr_physmask (regs_g (vc s)) ! index))
      else (False, Some (mtrr_physbase (regs_g (vc s)) ! index)))"

definition set_gmtrr_range :: "u64 \<Rightarrow> u64 \<Rightarrow> cache_state \<Rightarrow> bool \<times> cache_state" where
  "set_gmtrr_range msr_num value s =
     (let index = range_index msr_num in
      if index \<ge> GMTRR_VCNT then (True, s)
      else if any_bit msr_num 1 then
        if any_bit value (NOT (ADDR_MASK OR V_BIT)) then (True, s)
        else (False, map_g (\<lambda>g. g\<lparr>mtrr_physmask := (mtrr_physmask g)[index := value]\<rparr>) s)
      else if any_bit value (NOT (ADDR_MASK OR TYPE_MASK)) then (True, s)
      else if \<not> type_allowed s (ucast (value AND TYPE_MASK)) then (True, s)
      else (False, map_g (\<lambda>g. g\<lparr>mtrr_physbase := (mtrr_physbase g)[index := value]\<rparr>) s))"

definition get_index_from_mtrr_fix_msr_num :: "u64 \<Rightarrow> nat option" where
  "get_index_from_mtrr_fix_msr_num msr_num =
     (if msr_num = 0x268 then Some 0 else if msr_num = 0x269 then Some 1
      else if msr_num = 0x26A then Some 2 else if msr_num = 0x26B then Some 3
      else if msr_num = 0x26C then Some 4 else if msr_num = 0x26D then Some 5
      else if msr_num = 0x26E then Some 6 else if msr_num = 0x26F then Some 7
      else if msr_num = 0x258 then Some 8 else if msr_num = 0x259 then Some 9
      else if msr_num = 0x250 then Some 10 else None)"

definition get_gmtrr_fix :: "u64 \<Rightarrow> cache_state \<Rightarrow> bool \<times> u64 option" where
  "get_gmtrr_fix msr_num s =
     (if pass_mtrrfix (vc s) then cache_rdmsr msr_num s
      else case get_index_from_mtrr_fix_msr_num msr_num of
        None \<Rightarrow> (True, None)
      | Some i \<Rightarrow> (False, Some (mtrr_fix (regs_g (vc s)) ! i)))"

definition set_gmtrr_fix :: "u64 \<Rightarrow> u64 \<Rightarrow> cache_state \<Rightarrow> bool \<times> cache_state" where
  "set_gmtrr_fix msr_num value s =
     (if pass_mtrrfix (vc s) then cache_wrmsr msr_num value s
      else if \<exists>i \<in> set [0..<8]. \<not> type_allowed s (byte_of value i) then (True, s)
      else case get_index_from_mtrr_fix_msr_num msr_num of
        None \<Rightarrow> (True, s)
      | Some i \<Rightarrow> (False, map_g (\<lambda>g. g\<lparr>mtrr_fix := (mtrr_fix g)[i := value]\<rparr>) s))"

definition cache_get_gmtrr :: "u64 \<Rightarrow> cache_state \<Rightarrow> bool \<times> u64 option" where
  "cache_get_gmtrr msr_num s =
     (if \<not> has_pat (pc s) then (True, None)
      else if msr_num = MSR_IA32_MTRR_DEF_TYPE then get_gmtrr_def_type s
      else if msr_num \<ge> MSR_IA32_MTRR_PHYSBASE0 \<and> msr_num < MSR_IA32_MTRR_FIX64K_00000
      then get_gmtrr_range msr_num s
      else if msr_num \<ge> MSR_IA32_MTRR_FIX64K_00000 \<and> msr_num \<le> MSR_IA32_MTRR_FIX4K_F8000
      then get_gmtrr_fix msr_num s
      else (True, None))"

definition cache_set_gmtrr :: "u64 \<Rightarrow> u64 \<Rightarrow> cache_state \<Rightarrow> bool \<times> cache_state" where
  "cache_set_gmtrr msr_num value s =
     (if \<not> has_pat (pc s) then (True, s)
      else if msr_num = MSR_IA32_MTRR_DEF_TYPE then set_gmtrr_def_type value s
      else if msr_num \<ge> MSR_IA32_MTRR_PHYSBASE0 \<and> msr_num < MSR_IA32_MTRR_FIX64K_00000
      then set_gmtrr_range msr_num value s
      else if msr_num \<ge> MSR_IA32_MTRR_FIX64K_00000 \<and> msr_num \<le> MSR_IA32_MTRR_FIX4K_F8000
      then set_gmtrr_fix msr_num value s
      else (True, s))"

definition cache_get_gmtrrcap :: "cache_state \<Rightarrow> u64" where
  "cache_get_gmtrrcap s =
     (if \<not> has_pat (pc s) then 0
      else (mtrrcap (pc s) AND WC_BIT) OR FIX_BIT OR of_nat GMTRR_VCNT)"

definition copy_syscfg_mtrrfix :: "u64 \<Rightarrow> u64 \<Rightarrow> u64" where
  "copy_syscfg_mtrrfix dest src =
     (let m = 0x40000 OR 0x80000 in (dest AND NOT m) OR (src AND m))"

definition cache_get_gmsr_amd :: "u64 \<Rightarrow> cache_state \<Rightarrow> (bool \<times> u64 option) \<times> cache_state" where
  "cache_get_gmsr_amd msr_num s =
     (if msr_num = MSR_AMD_SYSCFG then
        let s = (if pass_mtrrfix (vc s) then
                   let s = map_h (\<lambda>h. h\<lparr>syscfg := msr (cpu s) MSR_AMD_SYSCFG\<rparr>) s
                   in map_g (\<lambda>g. g\<lparr>syscfg := copy_syscfg_mtrrfix (syscfg g) (syscfg (regs_h (pc s)))\<rparr>) s
                 else s)
        in ((False, Some (syscfg (regs_g (vc s)))), s)
      else if msr_num = MSR_AMD_TOP_MEM2 then ((False, Some (top_mem2 (regs_g (vc s)))), s)
      else ((True, None), s))"

definition cache_set_gmsr_amd :: "u64 \<Rightarrow> u64 \<Rightarrow> cache_state \<Rightarrow> bool \<times> cache_state" where
  "cache_set_gmsr_amd msr_num value s =
     (if msr_num = MSR_AMD_SYSCFG then
        let s = map_g (\<lambda>g. g\<lparr>syscfg := value\<rparr>) s
        in if pass_mtrrfix (vc s) then
             let s = map_h (\<lambda>h. h\<lparr>syscfg := copy_syscfg_mtrrfix (msr (cpu s) MSR_AMD_SYSCFG) value\<rparr>) s
             in (False, s\<lparr>cpu := asm_wrmsr64 MSR_AMD_SYSCFG (syscfg (regs_h (pc s))) (cpu s)\<rparr>)
           else (False, s)
      else if msr_num = MSR_AMD_TOP_MEM2 then (False, map_g (\<lambda>g. g\<lparr>top_mem2 := value\<rparr>) s)
      else (True, s))"

section \<open>From guest attributes to VMM attributes\<close>

text \<open>The table \<open>pat_mtrr_matrix\<close>, row by row; entries C leaves out are 0.\<close>

definition pat_mtrr_matrix :: "u8 list list" where
  "pat_mtrr_matrix =
     (let uc = CACHE_TYPE_UC; wc = CACHE_TYPE_WC; wt = CACHE_TYPE_WT; wp = CACHE_TYPE_WP; wb = CACHE_TYPE_WB in
      [[uc, uc, 0, 0, uc, uc, uc, 0],
       [wc, wc, 0, 0, wc, wc, wc, 0],
       [0, 0, 0, 0, 0, 0, 0, 0],
       [0, 0, 0, 0, 0, 0, 0, 0],
       [uc, uc, 0, 0, wt, wt, wt, 0],
       [uc, uc, 0, 0, wp, wp, wp, 0],
       [uc, wc, 0, 0, wt, wp, wb, 0],
       [uc, wc, 0, 0, uc, wc, uc, 0]])"

definition PTE_PWT_BIT :: u32 where "PTE_PWT_BIT = 0x8"
definition PTE_PCD_BIT :: u32 where "PTE_PCD_BIT = 0x10"
definition PTE_PAT_BIT :: u32 where "PTE_PAT_BIT = 0x80"

definition pat_index :: "u32 \<Rightarrow> nat" where
  "pat_index gattr =
     (if any_bit gattr PTE_PAT_BIT then 4 else 0) + (if any_bit gattr PTE_PCD_BIT then 2 else 0) +
     (if any_bit gattr PTE_PWT_BIT then 1 else 0)"

definition get_type :: "u64 \<Rightarrow> u32 \<Rightarrow> cache_state \<Rightarrow> u8 res" where
  "get_type gphys gattr s =
     (let gpat_type = pat_data (regs_g (vc s)) ! pat_index gattr in
      if gpat_type = CACHE_TYPE_UC \<or> gpat_type = CACHE_TYPE_WC then Inr gpat_type
      else
        let gmtrr_type = get_mtrr_type gphys (regs_g (vc s)) (pass_mtrrfix (vc s)) in
        bind_res (assert_res (gpat_type < 8 \<and> gmtrr_type < 8) ''gpat_type < 8 && gmtrr_type < 8'') (\<lambda>_.
        Inr (pat_mtrr_matrix ! unat gpat_type ! unat gmtrr_type)))"

definition attr_from_type :: "cache_state \<Rightarrow> u8 \<Rightarrow> u32" where
  "attr_from_type s type =
     (let i = pat_index_from_type (pc s) ! unat type in
      (if bit i 2 then PTE_PAT_BIT else 0) OR (if bit i 1 then PTE_PCD_BIT else 0) OR
      (if bit i 0 then PTE_PWT_BIT else 0))"

definition cache_get_attr :: "u64 \<Rightarrow> u32 \<Rightarrow> cache_state \<Rightarrow> u32 res" where
  "cache_get_attr gphys gattr s =
     (if \<not> has_pat (pc s) then Inr gattr
      else bind_res (get_type gphys gattr s) (\<lambda>t. Inr (attr_from_type s t)))"

definition cache_get_gmtrr_type :: "u64 \<Rightarrow> cache_state \<Rightarrow> u8" where
  "cache_get_gmtrr_type gphys s = get_mtrr_type gphys (regs_g (vc s)) False"

definition cache_gmtrr_type_equal :: "u64 \<Rightarrow> u64 \<Rightarrow> cache_state \<Rightarrow> bool" where
  "cache_gmtrr_type_equal gphys msk s = mtrr_type_equal gphys (regs_g (vc s)) False msk"

definition cache_get_gmtrr_attr :: "u64 \<Rightarrow> cache_state \<Rightarrow> u32" where
  "cache_get_gmtrr_attr gphys s =
     attr_from_type s (get_mtrr_type gphys (regs_g (vc s)) (pass_mtrrfix (vc s)))"

section \<open>Initialisation\<close>

definition make_pat_value :: "cache_pcpu_data \<Rightarrow> cache_pcpu_data" where
  "make_pat_value p =
     (if \<not> has_pat p then p
      else
        let pat = take 4 pat_default @ [CACHE_TYPE_WB, CACHE_TYPE_WP,
              (if any_bit (mtrrcap p) WC_BIT then CACHE_TYPE_WC else CACHE_TYPE_UC), CACHE_TYPE_UC]
        in p\<lparr>regs_h := (regs_h p)\<lparr>pat_data := pat\<rparr>,
             pat_index_from_type := map (\<lambda>i. case List.find (\<lambda>j. of_nat i = pat ! j) [0..<8] of
               None \<Rightarrow> 0 | Some j \<Rightarrow> j) [0..<8]\<rparr>)"

definition cache_init_pcpu :: "u32 \<Rightarrow> cache_state \<Rightarrow> cache_state res" where
  "cache_init_pcpu fn0000_0001_edx s =
     (let mtrr = any_bit fn0000_0001_edx 0x1000;
          s = s\<lparr>pc := (pc s)\<lparr>has_pat := any_bit fn0000_0001_edx 0x10000, has_mtrr := mtrr,
                mtrrcap := (if mtrr then msr (cpu s) MSR_IA32_MTRRCAP else 0)\<rparr>\<rparr>;
          (fault, v) = cache_rdmsr MSR_AMD_SYSCFG s;
          s = map_h (\<lambda>h. h\<lparr>syscfg := (case v of None \<Rightarrow> 0 | Some v \<Rightarrow> v)\<rparr>)
                (s\<lparr>pc := (pc s)\<lparr>syscfg_exist := \<not> fault\<rparr>\<rparr>)
      in if vcnt (pc s) > 10 then Inl (Panic ''MTRR VCNT is too large'')
      else
        let s = (if mtrr then save_initial_mtrr s else s);
            s = s\<lparr>pc := make_pat_value (pc s)\<rparr>
        in Inr (s\<lparr>cpu := update_mtrr_and_pat (pc s) (cpu s)\<rparr>))"

definition cache_init_vcpu :: "cache_state \<Rightarrow> cache_state" where
  "cache_init_vcpu s =
     (let s = (if has_pat (pc s)
               then map_g (\<lambda>g. g\<lparr>syscfg := 0\<rparr>) (snd (set_gmtrr_def_type 0 (snd (set_gpat pat_default s))))
               else s)
      in s\<lparr>vc := (vc s)\<lparr>pass_mtrrfix := False\<rparr>\<rparr>)"

text \<open>A setter whose refusal is a panic.\<close>

definition or_panic :: "string \<Rightarrow> bool \<times> 's \<Rightarrow> 's res" where
  "or_panic w r = (if fst r then Inl (Panic w) else Inr (snd r))"

fun for_res :: "('a \<Rightarrow> 's \<Rightarrow> 's res) \<Rightarrow> 'a list \<Rightarrow> 's \<Rightarrow> 's res" where
  "for_res f [] s = Inr s"
| "for_res f (x # xs) s = bind_res (f x s) (for_res f xs)"

definition cache_init_pass :: "cache_state \<Rightarrow> cache_state res" where
  "cache_init_pass s =
     (if \<not> has_pat (pc s) \<or> \<not> has_mtrr (pc s) then Inr s
      else
        let h = regs_h (pc s);
            s = (if syscfg_exist (pc s) then s\<lparr>vc := (vc s)\<lparr>pass_mtrrfix := True\<rparr>\<rparr> else s);
            s = fold (\<lambda>i s. snd (set_gmtrr_range (MSR_IA32_MTRR_PHYSBASE0 + of_nat i * 2 + 1) 0 s)) [0..<GMTRR_VCNT] s
        in bind_res (for_res (\<lambda>i s.
             bind_res (or_panic ''set_gmtrr_range failed''
               (set_gmtrr_range (MSR_IA32_MTRR_PHYSBASE0 + of_nat i * 2) (mtrr_physbase h ! i) s)) (\<lambda>s.
             or_panic ''set_gmtrr_range failed''
               (set_gmtrr_range (MSR_IA32_MTRR_PHYSMASK0 + of_nat i * 2) (mtrr_physmask h ! i) s))) [0..<vcnt (pc s)] s) (\<lambda>s.
           bind_res (if any_bit (mtrrcap (pc s)) FIX_BIT
             then for_res (\<lambda>i s. or_panic ''set_gmtrr_fix failed''
               (set_gmtrr_fix (mtrr_fix_msr ! i) (mtrr_fix h ! i) s)) [0..<NUM_MTRR_FIX] s else Inr s) (\<lambda>s.
           bind_res (or_panic ''set_gmtrr_def_type failed'' (set_gmtrr_def_type (mtrr_def_type h) s)) (\<lambda>s.
           let s = map_g (\<lambda>g. g\<lparr>syscfg := syscfg h\<rparr>) s
           in Inr (if any_bit (syscfg h) TOM2EN_BIT
                   then map_g (\<lambda>g. g\<lparr>top_mem2 := top_mem2 h\<rparr>) s else s)))))"

section \<open>The guest only holds types the processor has\<close>

text \<open>
  The processor's own data after \<open>cache_init_pcpu\<close>, and the guest's: every type a guest
  register holds is one of the types in the host's PAT, and none of the MTRR types is UC-.
\<close>

definition host_types :: "cache_pcpu_data \<Rightarrow> u8 list" where
  "host_types p = [CACHE_TYPE_WB, CACHE_TYPE_WT, CACHE_TYPE_UC_MINUS, CACHE_TYPE_UC, CACHE_TYPE_WB,
     CACHE_TYPE_WP, (if any_bit (mtrrcap p) WC_BIT then CACHE_TYPE_WC else CACHE_TYPE_UC), CACHE_TYPE_UC]"

definition type_index :: "u8 list \<Rightarrow> nat \<Rightarrow> nat" where
  "type_index pat i = (case List.find (\<lambda>j. of_nat i = pat ! j) [0..<8] of None \<Rightarrow> 0 | Some j \<Rightarrow> j)"

definition host_ok :: "cache_pcpu_data \<Rightarrow> bool" where
  "host_ok p \<longleftrightarrow> has_pat p \<and> pat_data (regs_h p) = host_types p \<and>
     pat_index_from_type p = map (type_index (host_types p)) [0..<8]"

definition mtrr_type_ok :: "cache_pcpu_data \<Rightarrow> u8 \<Rightarrow> bool" where
  "mtrr_type_ok p t \<longleftrightarrow> t \<in> set (pat_data (regs_h p)) \<and> t \<noteq> CACHE_TYPE_UC_MINUS"

definition guest_ok :: "cache_state \<Rightarrow> bool" where
  "guest_ok s \<longleftrightarrow>
     (let g = regs_g (vc s) in
      length (pat_data g) = 8 \<and> set (pat_data g) \<subseteq> set (pat_data (regs_h (pc s))) \<and>
      length (mtrr_physbase g) = GMTRR_VCNT \<and> length (mtrr_physmask g) = GMTRR_VCNT \<and>
      length (mtrr_fix g) = NUM_MTRR_FIX \<and>
      mtrr_type_ok (pc s) (ucast (mtrr_def_type g AND TYPE_MASK)) \<and>
      (\<forall>b \<in> set (mtrr_physbase g). mtrr_type_ok (pc s) (ucast (b AND TYPE_MASK))) \<and>
      (\<forall>v \<in> set (mtrr_fix g). \<forall>i < 8. mtrr_type_ok (pc s) (byte_of v i)))"

lemma host_ok_make: "has_pat p \<Longrightarrow> host_ok (make_pat_value p)"
  by (simp add: host_ok_def make_pat_value_def Let_def pat_default_def host_types_def type_index_def)

lemma host_ok_pat: "host_ok p \<Longrightarrow> pat_data (regs_h p) = host_types p"
  by (simp add: host_ok_def)

lemma length_host_types [simp]: "length (host_types p) = 8"
  by (simp add: host_types_def)

lemma host_types_small: "t \<in> set (host_types p) \<Longrightarrow> t \<in> {0, 1, 4, 5, 6, 7}"
  by (auto simp: host_types_def cache_types split: if_splits)

lemma host_ok_index:
  assumes "host_ok p" "t \<in> set (host_types p)"
  shows "unat t < 8 \<and> pat_index_from_type p ! unat t < 8 \<and>
    host_types p ! (pat_index_from_type p ! unat t) = t"
proof -
  have t8: "unat t < 8" using host_types_small [OF assms(2)] by auto
  obtain k where k: "k < 8" "host_types p ! k = t"
    using assms(2) by (metis in_set_conv_nth length_host_types)
  then have "List.find (\<lambda>j. t = host_types p ! j) [0..<8] \<noteq> None"
    by (auto simp: find_None_iff)
  then obtain j where j: "List.find (\<lambda>j. t = host_types p ! j) [0..<8] = Some j" by blast
  then have "j < 8" "t = host_types p ! j"
    by (auto simp: find_Some_iff)
  moreover have "pat_index_from_type p ! unat t = j"
    using t8 j assms(1) by (simp add: host_ok_def type_index_def)
  ultimately show ?thesis using t8 by simp
qed

lemma is_type_ok_iff: "host_ok (pc s) \<Longrightarrow> is_type_ok s t \<longleftrightarrow> t \<in> set (pat_data (regs_h (pc s)))"
  by (auto simp: is_type_ok_def host_ok_pat in_set_conv_nth)

lemma type_allowed_iff: "host_ok (pc s) \<Longrightarrow> type_allowed s t \<longleftrightarrow> mtrr_type_ok (pc s) t"
  by (simp add: type_allowed_def mtrr_type_ok_def is_type_ok_iff)

text \<open>Updates of the guest's registers, one conjunct at a time.\<close>

lemma guest_ok_pat:
  "guest_ok s \<Longrightarrow> length bs = 8 \<Longrightarrow> set bs \<subseteq> set (pat_data (regs_h (pc s))) \<Longrightarrow>
    guest_ok (map_g (\<lambda>g. g\<lparr>pat_data := bs\<rparr>) s)"
  by (simp add: guest_ok_def Let_def)

lemma guest_ok_def_type:
  "guest_ok s \<Longrightarrow> mtrr_type_ok (pc s) (ucast (v AND TYPE_MASK)) \<Longrightarrow>
    guest_ok (map_g (\<lambda>g. g\<lparr>mtrr_def_type := v\<rparr>) s)"
  by (simp add: guest_ok_def Let_def)

lemma guest_ok_physmask:
  "guest_ok s \<Longrightarrow> guest_ok (map_g (\<lambda>g. g\<lparr>mtrr_physmask := (mtrr_physmask g)[i := v]\<rparr>) s)"
  by (simp add: guest_ok_def Let_def)

lemma guest_ok_physbase:
  "guest_ok s \<Longrightarrow> mtrr_type_ok (pc s) (ucast (v AND TYPE_MASK)) \<Longrightarrow>
    guest_ok (map_g (\<lambda>g. g\<lparr>mtrr_physbase := (mtrr_physbase g)[i := v]\<rparr>) s)"
  by (auto simp: guest_ok_def Let_def dest!: set_update_subset_insert [THEN subsetD])

lemma guest_ok_fix:
  "guest_ok s \<Longrightarrow> \<forall>k < 8. mtrr_type_ok (pc s) (byte_of v k) \<Longrightarrow>
    guest_ok (map_g (\<lambda>g. g\<lparr>mtrr_fix := (mtrr_fix g)[i := v]\<rparr>) s)"
  by (auto simp: guest_ok_def Let_def dest!: set_update_subset_insert [THEN subsetD])

lemma guest_ok_other:
  "guest_ok (map_g (\<lambda>g. g\<lparr>syscfg := v\<rparr>) s) = guest_ok s"
  "guest_ok (map_g (\<lambda>g. g\<lparr>top_mem2 := v\<rparr>) s) = guest_ok s"
  "guest_ok (map_h (\<lambda>h. h\<lparr>syscfg := v\<rparr>) s) = guest_ok s"
  "guest_ok (s\<lparr>cpu := m\<rparr>) = guest_ok s"
  by (simp_all add: guest_ok_def Let_def mtrr_type_ok_def)

lemma host_ok_syscfg: "host_ok (p\<lparr>regs_h := (regs_h p)\<lparr>syscfg := v\<rparr>\<rparr>) = host_ok p"
  by (simp add: host_ok_def host_types_def)

definition cache_inv :: "cache_state \<Rightarrow> bool" where
  "cache_inv s \<longleftrightarrow> host_ok (pc s) \<and> guest_ok s"

lemma set_gpat_inv: "cache_inv s \<Longrightarrow> length bs = 8 \<Longrightarrow> cache_inv (snd (set_gpat bs s))"
  by (auto simp: cache_inv_def set_gpat_def is_type_ok_iff in_set_conv_nth intro!: guest_ok_pat)

lemma set_gmtrr_def_type_inv: "cache_inv s \<Longrightarrow> cache_inv (snd (set_gmtrr_def_type v s))"
  by (auto simp: cache_inv_def set_gmtrr_def_type_def type_allowed_iff intro!: guest_ok_def_type)

lemma set_gmtrr_range_inv: "cache_inv s \<Longrightarrow> cache_inv (snd (set_gmtrr_range n v s))"
  by (auto simp: cache_inv_def set_gmtrr_range_def Let_def type_allowed_iff
      intro!: guest_ok_physmask guest_ok_physbase)

lemma set_gmtrr_fix_inv: "cache_inv s \<Longrightarrow> cache_inv (snd (set_gmtrr_fix n v s))"
  by (auto simp: cache_inv_def set_gmtrr_fix_def cache_wrmsr_def type_allowed_iff guest_ok_other
      split: option.split intro!: guest_ok_fix)

lemmas setters_inv = set_gpat_inv set_gmtrr_def_type_inv set_gmtrr_range_inv set_gmtrr_fix_inv

lemma cache_set_gpat_inv: "cache_inv s \<Longrightarrow> cache_inv (snd (cache_set_gpat v s))"
  by (simp add: cache_set_gpat_def setters_inv)

lemma cache_set_gmtrr_inv: "cache_inv s \<Longrightarrow> cache_inv (snd (cache_set_gmtrr n v s))"
  by (simp add: cache_set_gmtrr_def setters_inv)

lemma cache_amd_inv:
  "cache_inv s \<Longrightarrow> cache_inv (snd (cache_set_gmsr_amd n v s))"
  "cache_inv s \<Longrightarrow> cache_inv (snd (cache_get_gmsr_amd n s))"
  by (simp_all add: cache_inv_def cache_set_gmsr_amd_def cache_get_gmsr_amd_def Let_def
      guest_ok_def mtrr_type_ok_def host_ok_syscfg)

text \<open>What the guest can do to the registers, and the states it can bring about.\<close>

inductive cache_step :: "cache_state \<Rightarrow> cache_state \<Rightarrow> bool" where
  gpat: "cache_step s (snd (cache_set_gpat v s))"
| gmtrr: "cache_step s (snd (cache_set_gmtrr n v s))"
| set_amd: "cache_step s (snd (cache_set_gmsr_amd n v s))"
| get_amd: "cache_step s (snd (cache_get_gmsr_amd n s))"

inductive cache_reach :: "cache_state \<Rightarrow> cache_state \<Rightarrow> bool" for s0 where
  start: "cache_reach s0 (cache_init_vcpu s0)"
| step: "cache_reach s0 s \<Longrightarrow> cache_step s t \<Longrightarrow> cache_reach s0 t"

lemma cache_step_inv: "cache_step s t \<Longrightarrow> cache_inv s \<Longrightarrow> cache_inv t"
  by (induction rule: cache_step.induct) (simp_all add: cache_set_gpat_inv cache_set_gmtrr_inv cache_amd_inv)

text \<open>The data of a new virtual processor is all zero.\<close>

definition zero_regs :: cache_regs where
  "zero_regs = \<lparr>pat_data = replicate 8 0, mtrr_def_type = 0, mtrr_physbase = replicate GMTRR_VCNT 0,
     mtrr_physmask = replicate GMTRR_VCNT 0, mtrr_fix = replicate NUM_MTRR_FIX 0, syscfg = 0, top_mem2 = 0\<rparr>"

lemma uc_ok: "host_ok p \<Longrightarrow> mtrr_type_ok p 0"
  by (simp add: mtrr_type_ok_def host_ok_pat host_types_def cache_types)

lemma cache_inv_boot:
  "cache_inv (s\<lparr>vc := (vc s)\<lparr>regs_g := (regs_g (vc s))\<lparr>syscfg := v\<rparr>, pass_mtrrfix := b\<rparr>\<rparr>) = cache_inv s"
  by (simp add: cache_inv_def guest_ok_def Let_def)

lemma cache_init_vcpu_inv:
  assumes "host_ok (pc s)" "regs_g (vc s) = zero_regs"
  shows "cache_inv (cache_init_vcpu s)"
proof -
  have z: "guest_ok s"
    using assms uc_ok [OF assms(1)]
    by (auto simp: guest_ok_def Let_def zero_regs_def byte_of_def host_ok_pat host_types_def cache_types)
  then have "cache_inv s" using assms(1) by (simp add: cache_inv_def)
  then have "cache_inv (snd (set_gmtrr_def_type 0 (snd (set_gpat pat_default s))))"
    by (intro setters_inv) (simp_all add: pat_default_def)
  then show ?thesis
    using assms(1) by (simp add: cache_init_vcpu_def Let_def cache_inv_boot host_ok_def)
qed

lemma cache_reach_inv:
  "cache_reach s0 s \<Longrightarrow> host_ok (pc s0) \<Longrightarrow> regs_g (vc s0) = zero_regs \<Longrightarrow> cache_inv s"
  by (induction rule: cache_reach.induct) (auto simp: cache_init_vcpu_inv intro: cache_step_inv)

section \<open>Attributes that realise the guest's types\<close>

lemma fix_index_bound: "fix_index phys < 88"
proof -
  have le: "unat (drop_bit n (phys AND m)) \<le> unat (drop_bit n m)" for n m
    by (metis drop_bit_and word_and_le1 word_le_nat_alt)
  have "unat (drop_bit 12 (phys AND 0x3F000)) \<le> 63" "unat (drop_bit 14 (phys AND 0x3C000)) \<le> 15"
    "unat (drop_bit 16 (phys AND 0x70000)) \<le> 7"
    using le [of 12 "0x3F000"] le [of 14 "0x3C000"] le [of 16 "0x70000"] by simp_all
  then show ?thesis by (simp add: fix_index_def)
qed

lemma range_type_ok:
  assumes "\<forall>(b, m) \<in> set rs. P (ucast (b AND TYPE_MASK))" "P CACHE_TYPE_UC" "P CACHE_TYPE_WT"
    and "type \<noteq> CACHE_TYPE_UC_MINUS \<Longrightarrow> P type"
  shows "case range_type phys rs type of Inl t \<Rightarrow> P t | Inr t \<Rightarrow> t \<noteq> CACHE_TYPE_UC_MINUS \<longrightarrow> P t"
  using assms
proof (induction phys rs type rule: range_type.induct)
  case (2 phys base msk rs type)
  then show ?case by (auto simp: Let_def)
qed simp

lemma get_mtrr_type_ok:
  assumes "cache_inv s"
  shows "mtrr_type_ok (pc s) (get_mtrr_type phys (regs_g (vc s)) p)"
proof -
  let ?g = "regs_g (vc s)" and ?P = "mtrr_type_ok (pc s)"
  have h: "host_ok (pc s)" and g: "guest_ok s" using assms by (simp_all add: cache_inv_def)
  have basic: "?P CACHE_TYPE_UC" "?P CACHE_TYPE_WT" "?P CACHE_TYPE_WB"
    using h by (simp_all add: mtrr_type_ok_def host_ok_pat host_types_def cache_types)
  have fb: "?P (fix_byte ?g (fix_index phys))"
  proof -
    have "fix_index phys div 8 < length (mtrr_fix ?g)"
      using fix_index_bound [of phys] g by (auto simp: guest_ok_def Let_def NUM_MTRR_FIX_def)
    then show ?thesis using g by (simp add: fix_byte_def guest_ok_def Let_def)
  qed
  have dt: "?P (ucast (mtrr_def_type ?g AND TYPE_MASK))" using g by (simp add: guest_ok_def Let_def)
  have rs: "\<forall>(b, m) \<in> set (ranges ?g). ?P (ucast (b AND TYPE_MASK))"
    using g by (auto simp: ranges_def guest_ok_def Let_def)
  from range_type_ok [OF rs basic(1,2), of CACHE_TYPE_UC_MINUS phys]
  show ?thesis using basic fb dt
    by (auto simp: get_mtrr_type_def split: sum.splits)
qed

lemma matrix_types:
  assumes "a \<in> {0, 1, 4, 5, 6, 7 :: u8}" "b \<in> {0, 1, 4, 5, 6 :: u8}"
  shows "pat_mtrr_matrix ! unat a ! unat b \<in> {0, 1, 4, 5, 6}"
  using assms by (auto simp: pat_mtrr_matrix_def cache_types Let_def)

lemma pat_index_bound: "pat_index a < 8"
  by (simp add: pat_index_def)

lemma get_type_total:
  assumes "cache_inv s"
  shows "\<exists>t. get_type gphys gattr s = Inr t \<and> t \<in> {0, 1, 4, 5, 6}"
proof -
  have h: "host_ok (pc s)" and g: "guest_ok s" using assms by (simp_all add: cache_inv_def)
  let ?a = "pat_data (regs_g (vc s)) ! pat_index gattr"
  let ?b = "get_mtrr_type gphys (regs_g (vc s)) (pass_mtrrfix (vc s))"
  have "?a \<in> set (host_types (pc s))"
    using g pat_index_bound [of gattr] h
    by (metis guest_ok_def host_ok_pat nth_mem subsetD)
  then have a: "?a \<in> {0, 1, 4, 5, 6, 7}" by (rule host_types_small)
  have b: "?b \<in> {0, 1, 4, 5, 6}"
    using get_mtrr_type_ok [OF assms, of gphys "pass_mtrrfix (vc s)"] h
    by (auto simp: mtrr_type_ok_def host_ok_pat cache_types dest!: host_types_small)
  have ab: "?a < 8 \<and> ?b < 8" using a b by auto
  show ?thesis
    using matrix_types [OF a b] a ab
    by (simp add: get_type_def Let_def cache_types)
qed

lemma pat_index_attr:
  assumes "pat_index_from_type (pc s) ! unat t < 8"
  shows "pat_index (attr_from_type s t) = pat_index_from_type (pc s) ! unat t"
proof -
  define i where "i = pat_index_from_type (pc s) ! unat t"
  have "i \<in> {0, 1, 2, 3, 4, 5, 6, 7}" using assms by (auto simp: i_def)
  then show ?thesis
    unfolding attr_from_type_def Let_def i_def [symmetric]
    by (auto simp: pat_index_def any_bit_def PTE_PAT_BIT_def PTE_PCD_BIT_def PTE_PWT_BIT_def bit_0)
qed


text \<open>The processor of the witnesses: write-combining, eight variable ranges.\<close>

definition sample_pc :: cache_pcpu_data where
  "sample_pc = make_pat_value
     \<lparr>has_pat = True, has_mtrr = True, syscfg_exist = False, mtrrcap = 0x508,
      pat_index_from_type = [], regs_h = zero_regs\<rparr>"

definition sample_state :: cache_state where
  "sample_state =
     \<lparr>cpu = \<lparr>msr = \<lambda>_. 0, cr0 = 0, cr3 = 0, cr4 = 0, rd_faults = \<lambda>_. False, wr_faults = \<lambda>_ _. False, trace = []\<rparr>,
      pc = sample_pc, vc = \<lparr>regs_g = zero_regs, pass_mtrrfix = False\<rparr>\<rparr>"

lemma sample_host_ok: "host_ok (pc sample_state)"
  by (simp add: sample_state_def sample_pc_def host_ok_make)

lemma setters_pc [simp]:
  "pc (snd (set_gpat bs s)) = pc s"
  "pc (snd (set_gmtrr_def_type v s)) = pc s"
  "pc (cache_init_vcpu s) = pc s"
  by (simp_all add: set_gpat_def set_gmtrr_def_type_def cache_init_vcpu_def Let_def)


section \<open>Blocks of one type\<close>

text \<open>
  The masks of the ranges are contiguous up to the width \<open>W\<close> of physical addresses, as the
  architecture asks.
\<close>

definition contig :: "nat \<Rightarrow> u64 \<Rightarrow> bool" where
  "contig W m \<longleftrightarrow> (\<exists>l \<le> W. m AND ADDR_MASK = push_bit l (mask (W - l)))"

text \<open>\<open>x\<close> lies in the block of \<open>2 ^ k\<close> bytes at \<open>phys\<close>, an address of \<open>W\<close> bits.\<close>

definition in_block :: "nat \<Rightarrow> nat \<Rightarrow> u64 \<Rightarrow> u64 \<Rightarrow> bool" where
  "in_block k W phys x \<longleftrightarrow> x AND NOT (mask k) = phys \<and> phys AND NOT (mask W) = 0"

lemma block_bit: "in_block k W phys x \<Longrightarrow> bit phys j \<longleftrightarrow> k \<le> j \<and> bit x j"
  using bit_imp_le_length [of x j] by (auto simp: in_block_def bit_simps not_less)

lemma width_bit: "in_block k W phys x \<Longrightarrow> W \<le> j \<Longrightarrow> \<not> bit phys j"
proof
  assume w: "in_block k W phys x" and "W \<le> j" "bit phys j"
  then have "bit (phys AND NOT (mask W)) j" by (auto simp: bit_simps dest: bit_imp_le_length)
  then show False using w by (simp add: in_block_def)
qed

lemma outside_block:
  assumes B: "in_block k W phys x" and "m AND mask k = 0"
  shows "m AND x = m AND phys"
proof (rule bit_word_eqI)
  fix j assume j: "j < LENGTH(64)"
  have "\<not> bit (m AND mask k) j" using assms by simp
  then have "\<not> (bit m j \<and> j < k)" using j by (auto simp: bit_simps)
  then show "bit (m AND x) j = bit (m AND phys) j" by (auto simp: bit_and_iff block_bit [OF B])
qed

lemma inside_block:
  assumes B: "in_block k W phys x" and "m AND mask k \<noteq> 0" "m = push_bit l (mask (W - l))" "l \<le> W" "m AND base = m AND x"
  shows "(m AND base) AND NOT (mask k) = phys AND NOT (mask k)"
proof (rule bit_word_eqI)
  fix j assume j: "j < LENGTH(64)"
  obtain i where "bit (m AND mask k) i" using assms(2) bit_eqI by (metis bit_0_eq bot_apply bot_bool_def)
  then have "i < k" "l \<le> i" using assms(3) by (auto simp: bit_simps)
  then have lk: "l < k" by simp
  have mb: "bit m j \<longleftrightarrow> l \<le> j \<and> j < W" using j assms(3,4) by (auto simp: bit_simps)
  have "bit (m AND base) j = bit (m AND x) j" using assms(5) by simp
  then show "bit ((m AND base) AND NOT (mask k)) j = bit (phys AND NOT (mask k)) j"
    using j mb lk width_bit [OF B, of j] by (auto simp: bit_simps block_bit [OF B] not_less)
qed

lemma phys_le: "in_block k W phys x \<Longrightarrow> phys \<le> x"
  using word_and_le2 [of x "NOT (mask k)"] by (simp add: in_block_def)

lemma le_last:
  assumes B: "in_block k W phys x"
  shows "x \<le> phys OR mask k"
proof -
  have "x = x AND (phys OR mask k)"
    by (rule bit_word_eqI) (auto simp: bit_simps block_bit [OF B] not_less)
  then show ?thesis by (metis word_and_le1)
qed

lemma below_4g:
  assumes B: "in_block k W phys x" and "k \<le> 32"
  shows "x < 0x100000000 \<longleftrightarrow> phys < 0x100000000"
proof
  assume "x < 0x100000000"
  then show "phys < 0x100000000" using phys_le [OF B] by (rule le_less_trans [rotated])
next
  assume "phys < 0x100000000"
  then have "phys AND mask 32 = phys" using less_mask_eq [of phys 32] by simp
  then have p: "bit phys j \<Longrightarrow> j < 32" for j by (metis bit_and_iff bit_mask_iff)
  have "j < 32" if "bit x j" for j
    using p [of j] that assms(2) by (cases "k \<le> j") (simp_all add: block_bit [OF B])
  then have "x AND mask 32 = x"
    by (intro bit_word_eqI) (auto simp: bit_simps)
  then show "x < 0x100000000" using mask_eq_iff_w2p [of 32 x] by (simp add: word_size)
qed

lemma range_equal_sound:
  assumes B: "in_block k W phys x" and "\<forall>(b, m) \<in> set rs. any_bit m V_BIT \<longrightarrow> contig W m"
  shows "(range_equal phys (mask k) rs type = Inl True \<longrightarrow>
        range_type x rs type = Inl CACHE_TYPE_UC \<and> range_type phys rs type = Inl CACHE_TYPE_UC) \<and>
    (range_equal phys (mask k) rs type = Inr t \<longrightarrow>
        range_type x rs type = Inr t \<and> range_type phys rs type = Inr t)"
  using assms(2)
proof (induction rs arbitrary: type)
  case (Cons r rs)
  obtain base msk where r: "r = (base, msk)" by (cases r)
  note IH = Cons.IH
  have rest: "\<forall>(b, m) \<in> set rs. any_bit m V_BIT \<longrightarrow> contig W m" using Cons.prems by simp
  show ?case
  proof (cases "any_bit msk V_BIT")
    case False
    then show ?thesis using IH [OF rest, of type] by (simp add: r)
  next
    case V: True
    let ?m = "msk AND ADDR_MASK"
    obtain l where l: "l \<le> W" "?m = push_bit l (mask (W - l))"
      using Cons.prems V by (auto simp: r contig_def)
    show ?thesis
    proof (cases "?m AND mask k = 0")
      case True
      then have e: "?m AND x = ?m AND phys" by (rule outside_block [OF B])
      show ?thesis
        using V True IH [OF rest] by (simp add: r Let_def e any_bit_def [of "msk AND ADDR_MASK" "mask k"])
    next
      case False
      then have i: "?m AND base = ?m AND x \<Longrightarrow> (?m AND base) AND NOT (mask k) = phys AND NOT (mask k)"
        using inside_block [OF B _ l(2,1)] by blast
      show ?thesis
        using V False IH [OF rest, of type] i
        by (simp add: r Let_def any_bit_def [of "msk AND ADDR_MASK" "mask k"])
    qed
  qed
qed simp

text \<open>
  When \<open>mtrr_type_equal\<close> says yes for an aligned block of at most 4 GiB, every address of the
  block has the memory type of its first one, so one large page can map it.
\<close>

theorem mtrr_type_equal_sound:
  assumes eq: "mtrr_type_equal phys c pass (mask k)" and k: "k \<le> 32"
    and A: "in_block k W phys x"
    and masks: "\<forall>(b, m) \<in> set (ranges c). any_bit m V_BIT \<longrightarrow> contig W m"
  shows "get_mtrr_type x c pass = get_mtrr_type phys c pass"
proof -
  note sound = range_equal_sound [OF A masks, of CACHE_TYPE_UC_MINUS]
  from eq have E: "any_bit (mtrr_def_type c) E_BIT"
    and F: "\<not> (any_bit (mtrr_def_type c) FE_BIT \<and> phys \<le> 0xFFFFF)"
    by (auto simp: mtrr_type_equal_def split: if_splits)
  have Fx: "\<not> (any_bit (mtrr_def_type c) FE_BIT \<and> x \<le> 0xFFFFF)"
    using F phys_le [OF A] order_trans by blast
  show ?thesis
  proof (cases "range_equal phys (mask k) (ranges c) CACHE_TYPE_UC_MINUS")
    case (Inl r)
    then have "r" using eq by (auto simp: mtrr_type_equal_def split: if_splits)
    then show ?thesis using Inl sound E F Fx by (auto simp: get_mtrr_type_def)
  next
    case (Inr t)
    let ?top = "top_mem2 c AND TOP_MEM2_ADDR_MASK"
    have r: "range_type x (ranges c) CACHE_TYPE_UC_MINUS = Inr t"
      "range_type phys (ranges c) CACHE_TYPE_UC_MINUS = Inr t" using sound [of t] Inr by auto
    show ?thesis
    proof (cases "t = CACHE_TYPE_UC_MINUS \<and> any_bit (syscfg c) TOM2FORCE_BIT \<and> 0x100000000 \<le> phys")
      case True
      then have x4: "0x100000000 \<le> x" using below_4g [OF A k] by (simp flip: not_less)
      have "x < ?top \<longleftrightarrow> phys < ?top"
      proof
        assume "x < ?top"
        then show "phys < ?top" using phys_le [OF A] by (rule le_less_trans [rotated])
      next
        assume p: "phys < ?top"
        then have "phys OR mask k < ?top"
          using eq True Inr E F by (auto simp: mtrr_type_equal_def split: if_splits)
        with le_last [OF A] show "x < ?top" by (rule le_less_trans)
      qed
      then show ?thesis using True x4 r E F Fx by (auto simp: get_mtrr_type_def)
    next
      case False
      then show ?thesis using r E F Fx below_4g [OF A k]
        by (auto simp: get_mtrr_type_def simp flip: not_less)
    qed
  qed
qed

text \<open>Write-back below 2 GiB, on a processor with 36 address bits: a 2 MiB page.\<close>

definition sample_mtrr :: cache_regs where
  "sample_mtrr = zero_regs\<lparr>mtrr_def_type := 0x800, mtrr_physbase := [0x6, 0, 0, 0, 0, 0, 0, 0, 0, 0],
     mtrr_physmask := [0xF80000800, 0, 0, 0, 0, 0, 0, 0, 0, 0]\<rparr>"

lemma ranges_sample:
  "ranges sample_mtrr = [(0x6, 0xF80000800), (0, 0), (0, 0), (0, 0), (0, 0), (0, 0), (0, 0), (0, 0), (0, 0), (0, 0)]"
  by (simp add: ranges_def sample_mtrr_def GMTRR_VCNT_def upt_rec)

theorem mtrr_type_equal_sound_witness:
  "get_mtrr_type 0x212345 sample_mtrr False = get_mtrr_type 0x200000 sample_mtrr False"
proof (rule mtrr_type_equal_sound [where k = 21 and W = 36])
  show "mtrr_type_equal 0x200000 sample_mtrr False (mask 21)"
    by (simp add: mtrr_type_equal_def ranges_sample)
      (simp add: sample_mtrr_def any_bit_def mask_eq_exp_minus_1 cache_types)
  show "in_block 21 36 0x200000 0x212345"
    by (simp add: in_block_def mask_eq_exp_minus_1)
  have "contig 36 0xF80000800"
    by (auto simp: contig_def mask_eq_exp_minus_1 intro!: exI [of _ 31])
  then show "\<forall>(b, m) \<in> set (ranges sample_mtrr). any_bit m V_BIT \<longrightarrow> contig 36 m"
    by (simp add: ranges_sample)
qed simp

section \<open>Reading back what was written\<close>

lemma range_index_inj:
  assumes "range_index n = range_index m" "any_bit n 1 = any_bit m 1"
  shows "n = m"
proof -
  have d: "drop_bit 1 (n - 0x200) = drop_bit 1 (m - 0x200)"
    using assms(1) unfolding range_index_def by (rule unsigned_word_eqI)
  have o: "any_bit w 1 \<longleftrightarrow> odd w" for w :: u64
    by (simp add: any_bit_def and_one_eq odd_iff_mod_2_eq_one)
  have "odd (n - 0x200) = odd (m - 0x200)" using assms(2) by (simp add: o)
  have "n - 0x200 = m - 0x200"
  proof (rule bit_word_eqI)
    fix j
    have "bit (drop_bit 1 (n - 0x200)) (j - 1) = bit (drop_bit 1 (m - 0x200)) (j - 1)" using d by simp
    then show "bit (n - 0x200) j = bit (m - 0x200) j"
      using \<open>odd (n - 0x200) = odd (m - 0x200)\<close> by (cases j) (simp_all add: bit_0 bit_drop_bit_eq del: diff_left_imp_eq)
  qed
  then show ?thesis by simp
qed

lemma fix_msr_inj:
  "get_index_from_mtrr_fix_msr_num n = Some i \<Longrightarrow> get_index_from_mtrr_fix_msr_num m = Some i \<Longrightarrow> n = m"
  by (auto simp: get_index_from_mtrr_fix_msr_num_def split: if_splits)

lemma fix_msr_index: "get_index_from_mtrr_fix_msr_num n = Some i \<Longrightarrow> i < NUM_MTRR_FIX"
  by (auto simp: get_index_from_mtrr_fix_msr_num_def NUM_MTRR_FIX_def split: if_splits)



lemma upt_8: "[0..<8] = [0, 1, 2, 3, 4, 5, 6, 7]"
  by (simp add: upt_rec numeral_eq_Suc)

lemma bit_pat_fold:
  "bit (fold (\<lambda>i v. v OR push_bit (i * 8) (ucast (bs ! i :: u8))) [0..<k] (0 :: u64)) n \<longleftrightarrow>
    n div 8 < k \<and> n < 64 \<and> bit (bs ! (n div 8)) (n mod 8)"
proof (induction k)
  case (Suc k)
  have b: "(k * 8 \<le> n \<and> n < 64 \<and> bit (bs ! k) (n - k * 8)) \<longleftrightarrow>
      n div 8 = k \<and> n < 64 \<and> bit (bs ! (n div 8)) (n mod 8)"
  proof (cases "n div 8 = k")
    case True
    then have "n - k * 8 = n mod 8" "k * 8 \<le> n" by (auto simp: minus_div_mult_eq_mod [symmetric])
    with True show ?thesis by simp
  next
    case False
    then have "\<not> (k * 8 \<le> n \<and> n - k * 8 < 8)" by auto
    then show ?thesis using False bit_imp_le_length [of "bs ! k" "n - k * 8"] by auto
  qed
  show ?case
    using Suc.IH b bit_imp_le_length [of "bs ! k" "n - k * 8"]
    by (auto simp: bit_or_iff bit_push_bit_iff bit_ucast_iff less_Suc_eq)
qed simp

lemma bit_pat_value: "bit (pat_value bs) n \<longleftrightarrow> n < 64 \<and> bit (bs ! (n div 8)) (n mod 8)"
  unfolding pat_value_def bit_pat_fold by auto

lemma bytes_pat_value: "pat_value (map (byte_of v) [0..<8]) = v"
proof (rule bit_word_eqI)
  fix j assume j: "j < LENGTH(64)"
  then have "j div 8 < 8" by auto
  then show "bit (pat_value (map (byte_of v) [0..<8])) j = bit v j"
    using j by (simp add: bit_pat_value byte_of_def bit_ucast_iff bit_drop_bit_eq del: upt_rec_numeral upt_Suc)
qed

text \<open>
  The same for the PAT: a value the guest could write is read back bit for bit.
\<close>

theorem gpat_read_after_write:
  assumes "cache_set_gpat v s = (False, s')"
  shows "cache_get_gpat s' = (False, v)"
  using assms
  by (auto simp: cache_set_gpat_def cache_get_gpat_def set_gpat_def bytes_pat_value
      simp del: set_upt split: if_splits)

theorem gpat_read_after_write_witness:
  "cache_get_gpat (snd (cache_set_gpat 0x0007040600070406 (cache_init_vcpu sample_state))) =
    (False, 0x0007040600070406)"
proof (rule gpat_read_after_write)
  have "fst (cache_set_gpat 0x0007040600070406 (cache_init_vcpu sample_state)) = False"
    by (simp add: cache_set_gpat_def set_gpat_def is_type_ok_iff sample_host_ok host_ok_pat upt_rec
        byte_of_def host_types_def cache_types)
      (simp add: sample_state_def sample_pc_def make_pat_value_def Let_def)
  then show "cache_set_gpat 0x0007040600070406 (cache_init_vcpu sample_state) =
      (False, snd (cache_set_gpat 0x0007040600070406 (cache_init_vcpu sample_state)))"
    by (metis prod.collapse)
qed

section \<open>The order of reprogramming\<close>

fun is_wrmsr :: "hw_event \<Rightarrow> bool" where
  "is_wrmsr (Wrmsr n v) = True"
| "is_wrmsr _ = False"

text \<open>Only model-specific registers are written on the way from \<open>m\<close> to \<open>m'\<close>.\<close>

definition msr_only :: "hw \<Rightarrow> hw \<Rightarrow> bool" where
  "msr_only m m' \<longleftrightarrow> cr0 m' = cr0 m \<and> cr3 m' = cr3 m \<and> cr4 m' = cr4 m \<and>
     (\<exists>W. list_all is_wrmsr W \<and> trace m' = trace m @ W)"

lemma msr_only_refl [simp]: "msr_only m m"
  by (simp add: msr_only_def)

lemma msr_only_trans: "msr_only a b \<Longrightarrow> msr_only b c \<Longrightarrow> msr_only a c"
  by (fastforce simp: msr_only_def)

lemma msr_only_wr: "msr_only a b \<Longrightarrow> msr_only a (asm_wrmsr64 n v b)"
  by (auto simp: msr_only_def asm_wrmsr64_def)

lemma msr_only_fold: "(\<And>x m. msr_only m (f x m)) \<Longrightarrow> msr_only a b \<Longrightarrow> msr_only a (fold f xs b)"
  by (induction xs arbitrary: b) (simp_all, metis msr_only_trans)

lemma msr_only_load: "msr_only m (load_initial_mtrr p m)"
  by (auto simp: load_initial_mtrr_def Let_def intro!: msr_only_wr msr_only_fold)

lemma msr_only_steps:
  "msr_only a b \<Longrightarrow> msr_only a (disable_mtrr p b)"
  "msr_only a b \<Longrightarrow> msr_only a (update_mtrr p b)"
  "msr_only a b \<Longrightarrow> msr_only a (update_pat p b)"
  "msr_only a b \<Longrightarrow> msr_only a (enable_mtrr p b)"
  using msr_only_trans [OF _ msr_only_load, of a b p]
  by (auto simp: disable_mtrr_def update_mtrr_def update_pat_def enable_mtrr_def intro!: msr_only_wr)

lemma any_bit_PGE: "any_bit w CR4_PGE_BIT \<longleftrightarrow> bit w 7"
  by (simp add: any_bit_def bit_iff_and_push_bit_not_eq_0 CR4_PGE_BIT_def)

lemma bit_PGE: "bit CR4_PGE_BIT j \<longleftrightarrow> j = 7"
proof -
  have e: "CR4_PGE_BIT = push_bit 7 1" by (simp add: CR4_PGE_BIT_def)
  show ?thesis unfolding e bit_push_bit_iff bit_1_iff using bit_imp_le_length [of CR4_PGE_BIT j]
    by auto
qed

lemma msr_enable_pat:
  "msr (enable_mtrr p (update_pat p m)) MSR_IA32_PAT =
    (if has_pat p then pat_value (pat_data (regs_h p)) else msr m MSR_IA32_PAT)"
  by (simp add: enable_mtrr_def update_pat_def asm_wrmsr64_def)

text \<open>
  Reprogramming follows the order the processor manuals ask for: between the two rendezvous,
  the caches are disabled and flushed, global pages are off and the TLB is flushed before the
  first memory type register is written; caches and TLB are flushed again before caching is
  enabled; the control registers are then as they were, with caching on.
\<close>

theorem mtrr_update_order:
  "\<exists>W. list_all is_wrmsr W \<and>
    trace (update_mtrr_and_pat p m) = trace m @
      [Sync, Wrcr0 ((cr0 m AND NOT CR0_NW_BIT) OR CR0_CD_BIT), Wbinvd] @
      (if any_bit (cr4 m) CR4_PGE_BIT then [Wrcr4 (cr4 m AND NOT CR4_PGE_BIT)] else []) @
      [Wrcr3 (cr3 m)] @ W @
      [Wbinvd, Wrcr3 (cr3 m), Wrcr0 (cr0 m AND NOT (CR0_NW_BIT OR CR0_CD_BIT)), Wrcr4 (cr4 m), Sync] \<and>
    cr4 (update_mtrr_and_pat p m) = cr4 m \<and> cr3 (update_mtrr_and_pat p m) = cr3 m \<and>
    (if has_pat p then msr (update_mtrr_and_pat p m) MSR_IA32_PAT = pat_value (pat_data (regs_h p)) else True)"
proof -
  let ?c0 = "(cr0 m AND NOT CR0_NW_BIT) OR CR0_CD_BIT"
  define m1 where "m1 = flush_tlb (snd (save_and_clear_pge (flush_cache (disable_cache (sync_all_processors m)))))"
  define m2 where "m2 = enable_mtrr p (update_pat p (update_mtrr p (disable_mtrr p m1)))"
  have m1: "trace m1 = trace m @ [Sync, Wrcr0 ?c0, Wbinvd] @
      (if any_bit (cr4 m) CR4_PGE_BIT then [Wrcr4 (cr4 m AND NOT CR4_PGE_BIT)] else []) @ [Wrcr3 (cr3 m)]"
    "cr0 m1 = ?c0" "cr3 m1 = cr3 m"
    "cr4 m1 = (if any_bit (cr4 m) CR4_PGE_BIT then cr4 m AND NOT CR4_PGE_BIT else cr4 m)"
    by (simp_all add: m1_def flush_tlb_def save_and_clear_pge_def flush_cache_def disable_cache_def
        sync_all_processors_def asm_wbinvd_def asm_wrcr0_def asm_wrcr3_def asm_wrcr4_def)
  have "msr_only m1 m2" unfolding m2_def by (intro msr_only_steps msr_only_refl)
  then obtain W where W: "list_all is_wrmsr W" "trace m2 = trace m1 @ W"
    and c: "cr0 m2 = cr0 m1" "cr3 m2 = cr3 m1" "cr4 m2 = cr4 m1"
    by (auto simp: msr_only_def)
  have pat: "has_pat p \<Longrightarrow> msr m2 MSR_IA32_PAT = pat_value (pat_data (regs_h p))"
    by (simp add: m2_def msr_enable_pat)
  have u: "update_mtrr_and_pat p m = sync_all_processors (restore_pge (any_bit (cr4 m) CR4_PGE_BIT)
      (enable_cache (flush_tlb (flush_cache m2))))"
    by (simp add: update_mtrr_and_pat_def m1_def m2_def Let_def save_and_clear_pge_def
        flush_cache_def disable_cache_def sync_all_processors_def asm_wbinvd_def asm_wrcr0_def)
  have c0: "?c0 AND NOT (CR0_NW_BIT OR CR0_CD_BIT) = cr0 m AND NOT (CR0_NW_BIT OR CR0_CD_BIT)"
    by (rule bit_word_eqI) (auto simp: bit_simps)
  have c4: "any_bit (cr4 m) CR4_PGE_BIT \<Longrightarrow> (cr4 m AND NOT CR4_PGE_BIT) OR CR4_PGE_BIT = cr4 m"
    "\<not> any_bit (cr4 m) CR4_PGE_BIT \<Longrightarrow> cr4 m AND NOT CR4_PGE_BIT = cr4 m"
    by (rule bit_word_eqI, auto simp: bit_simps any_bit_PGE bit_PGE)+
  show ?thesis
    using W m1 c pat c0 c4
    by (intro exI [of _ W]) (simp add: u restore_pge_def enable_cache_def flush_tlb_def flush_cache_def
        sync_all_processors_def asm_wbinvd_def asm_wrcr0_def asm_wrcr3_def asm_wrcr4_def)
qed

end
