(* ===== verification/Sysmem.thy ===== *)
theory Sysmem
  imports Prelude
begin

text \<open>
  The memory map part of \<^verbatim>\<open>bitvisor/core/mm.c\<close>: reading the map of the firmware, choosing
  the 128 MiB the VMM runs in, choosing and handing out real-mode memory, and the map the
  guest is shown instead.  The firmware calls are parameters: \<open>bios\<close> is
  \<open>callrealmode_getsysmemmap\<close> (None: failure), \<open>uefi_alloc\<close> and \<open>uefi_free\<close> are the boot
  services, and the UEFI memory map is the function from byte offsets to the 64-bit values
  stored there.
\<close>

section \<open>The map\<close>

definition SYSMEMMAP_TYPE_AVAILABLE :: u32 where "SYSMEMMAP_TYPE_AVAILABLE = 0x1"
definition SYSMEMMAP_TYPE_RESERVED :: u32 where "SYSMEMMAP_TYPE_RESERVED = 0x2"
definition VMMSIZE_ALL :: nat where "VMMSIZE_ALL = 128 * 1024 * 1024"
definition MAXNUM_OF_SYSMEMMAP :: nat where "MAXNUM_OF_SYSMEMMAP = 256"

record sysmemmap =
  m_base :: u64
  m_len :: u64
  m_type :: u32

record sysmemmapdata =
  sm_n :: u32
  sm_nn :: u32
  sm_m :: sysmemmap

record sysmem =
  sysmem_list :: "sysmemmapdata list"
  memorysize :: u64
  vmmsize :: u64
  e820_vmm_base :: u64
  e820_vmm_fake_len :: u64
  e820_vmm_end :: u64
  e801_fake_ax :: u16
  e801_fake_bx :: u16
  realmodemem_base :: u32
  realmodemem_limit :: u32
  realmodemem_fakelimit :: u32

fun find_entry :: "sysmemmapdata list \<Rightarrow> u32 \<Rightarrow> sysmemmapdata option" where
  "find_entry [] n = None"
| "find_entry (e # es) n = (if sm_n e = n then Some e else find_entry es n)"

definition getsysmemmap :: "sysmem \<Rightarrow> u32 \<Rightarrow> u32 \<times> sysmemmap" where
  "getsysmemmap s n =
     (case find_entry (sysmem_list s) n of
        Some e \<Rightarrow> (sm_nn e, sm_m e)
      | None \<Rightarrow> (0, \<lparr>m_base = 0, m_len = 0, m_type = 0\<rparr>))"

definition getfakesysmemmap :: "sysmem \<Rightarrow> u32 \<Rightarrow> u32 \<times> sysmemmap" where
  "getfakesysmemmap s n =
     (let (r, m) = getsysmemmap s n in
      if m_type m = SYSMEMMAP_TYPE_AVAILABLE then
        let m = (if m_base m = ucast (realmodemem_base s)
                 then m\<lparr>m_len := ucast (realmodemem_fakelimit s - realmodemem_base s + 1)\<rparr> else m);
            m = (if m_base m = e820_vmm_base s then m\<lparr>m_len := e820_vmm_fake_len s\<rparr> else m);
            m = (if m_base m > e820_vmm_base s \<and> m_base m < e820_vmm_end s
                 then m\<lparr>m_type := SYSMEMMAP_TYPE_RESERVED\<rparr> else m)
        in (r, m)
      else (r, m))"

section \<open>Reading the firmware's map\<close>

text \<open>The loop of \<open>getallsysmemmap_bios\<close> with \<open>k\<close> entries of the array left.\<close>

fun bios_entries :: "(u32 \<Rightarrow> (sysmemmap \<times> u32) option) \<Rightarrow> nat \<Rightarrow> u32 \<Rightarrow> u32 \<Rightarrow> sysmemmapdata list res" where
  "bios_entries bios 0 n nn = Inr []"
| "bios_entries bios (Suc k) n nn =
     (if nn = 0 then Inr []
      else case bios n of
        None \<Rightarrow> Inl (Panic ''getsysmemmap failed'')
      | Some (m, nn') \<Rightarrow>
          bind_res (bios_entries bios k nn' nn') (\<lambda>es.
          Inr (\<lparr>sm_n = n, sm_nn = nn', sm_m = m\<rparr> # es)))"

definition getallsysmemmap_bios :: "(u32 \<Rightarrow> (sysmemmap \<times> u32) option) \<Rightarrow> sysmem \<Rightarrow> sysmem res" where
  "getallsysmemmap_bios bios s =
     bind_res (bios_entries bios MAXNUM_OF_SYSMEMMAP 0 1) (\<lambda>es. Inr (s\<lparr>sysmem_list := es\<rparr>))"

text \<open>One descriptor of the UEFI map, and the loop over them.\<close>

definition uefi_entry :: "(nat \<Rightarrow> u64) \<Rightarrow> nat \<Rightarrow> sysmemmap" where
  "uefi_entry p offset =
     \<lparr>m_base = p (offset + 8), m_len = push_bit 12 (p (offset + 24)),
      m_type = (if p offset AND 0xFFFFFFFF = 7 then SYSMEMMAP_TYPE_AVAILABLE else SYSMEMMAP_TYPE_RESERVED)\<rparr>"

fun uefi_entries :: "(nat \<Rightarrow> u64) \<Rightarrow> nat \<Rightarrow> nat \<Rightarrow> nat \<Rightarrow> nat \<Rightarrow> sysmemmapdata list \<Rightarrow> sysmemmapdata list" where
  "uefi_entries p msize descsize 0 offset es = es"
| "uefi_entries p msize descsize (Suc k) offset es =
     (if offset + 5 * 8 \<le> msize then
        let i = length es;
            es = (if i = 0 then es else es[i - 1 := (es ! (i - 1))\<lparr>sm_nn := of_nat i\<rparr>])
        in uefi_entries p msize descsize k (offset + descsize)
             (es @ [\<lparr>sm_n = of_nat i, sm_nn = 0, sm_m = uefi_entry p offset\<rparr>])
      else es)"

definition getallsysmemmap_uefi :: "(nat \<Rightarrow> u64) \<Rightarrow> nat \<Rightarrow> nat \<Rightarrow> sysmem \<Rightarrow> sysmem" where
  "getallsysmemmap_uefi p msize descsize s =
     s\<lparr>sysmem_list := uefi_entries p msize descsize MAXNUM_OF_SYSMEMMAP 0 []\<rparr>"

section \<open>Where the VMM goes\<close>

definition update_e801_fake :: "u32 \<Rightarrow> sysmem \<Rightarrow> sysmem" where
  "update_e801_fake limit32 s =
     (let tmp = drop_bit 10 limit32 in
      s\<lparr>e801_fake_ax := (if tmp > 0x3C00 then 0x3C00 else ucast tmp),
        e801_fake_bx := (if limit32 > 0x1000000 then ucast (drop_bit 16 (limit32 - 0x1000000)) else 0)\<rparr>)"

text \<open>
  The walk along the chain of entries, \<open>for (nn = 1; nn; n = nn)\<close>, with a body that gets each
  entry.  The chain comes from the firmware and may be cyclic: after \<open>k\<close> rounds the walk gives
  up with None.
\<close>

fun for_sysmem :: "nat \<Rightarrow> (sysmemmap \<Rightarrow> 's \<Rightarrow> 's) \<Rightarrow> sysmem \<Rightarrow> u32 \<Rightarrow> 's \<Rightarrow> 's option" where
  "for_sysmem 0 body s n t = None"
| "for_sysmem (Suc k) body s n t =
     (let (nn, m) = getsysmemmap s n; t = body m t in
      if nn = 0 then Some t else for_sysmem k body s nn t)"

text \<open>The locals of \<open>find_vmm_phys\<close> and the globals it sets in the loop.\<close>

record vmm_search =
  v_phys :: u32
  v_memsize :: u64
  v_vmmsize :: u64
  v_base :: u64
  v_fake_len :: u64
  v_end :: u64

text \<open>The usable, 4 MiB-aligned part of an entry: first and last address.\<close>

definition usable :: "u64 \<Rightarrow> u64 \<Rightarrow> (u32 \<times> u32) option" where
  "usable base len =
     (if base \<ge> 0x100000000 then None
      else
        let limit64 = base + len - 1;
            limit64 = (if limit64 \<ge> 0x100000000 then 0xFFFFFFFF else limit64);
            base32 = ucast base :: u32; limit32 = ucast limit64 :: u32
        in if base32 > limit32 then None
        else if base32 > 0xFFFFFFFF - of_nat VMMSIZE_ALL + 1 then None
        else if limit32 < of_nat VMMSIZE_ALL then None
        else
          let base32 = (base32 + 0x003FFFFF) AND 0xFFC00000;
              limit32 = ((limit32 + 1) AND 0xFFC00000) - 1
          in if base32 > limit32 then None else Some (base32, limit32))"

definition vmm_step :: "sysmemmap \<Rightarrow> vmm_search \<Rightarrow> vmm_search" where
  "vmm_step m v =
     (if m_type m \<noteq> SYSMEMMAP_TYPE_AVAILABLE then v
      else
        let v = v\<lparr>v_memsize := v_memsize v + m_len m\<rparr> in
        case usable (m_base m) (m_len m) of None \<Rightarrow> v
        | Some (base32, limit32) \<Rightarrow>
            if limit32 - base32 \<ge> of_nat VMMSIZE_ALL - 1 \<and> v_phys v < limit32 - (of_nat VMMSIZE_ALL - 1)
            then
              let phys = limit32 - (of_nat VMMSIZE_ALL - 1) in
              v\<lparr>v_phys := phys, v_base := m_base m, v_fake_len := ucast phys - m_base m,
                v_vmmsize := m_len m - (ucast phys - m_base m), v_end := m_base m + m_len m\<rparr>
            else v)"

definition find_vmm_phys :: "nat \<Rightarrow> sysmem \<Rightarrow> (u32 \<times> sysmem) option" where
  "find_vmm_phys fuel s =
     (case for_sysmem fuel vmm_step s 0
        \<lparr>v_phys = 0, v_memsize = 0, v_vmmsize = of_nat VMMSIZE_ALL, v_base = e820_vmm_base s,
         v_fake_len = e820_vmm_fake_len s, v_end = e820_vmm_end s\<rparr> of
        None \<Rightarrow> None
      | Some v \<Rightarrow>
          Some (v_phys v,
            update_e801_fake (v_phys v)
              (s\<lparr>e801_fake_ax := 0, e801_fake_bx := 0, vmmsize := v_vmmsize v, e820_vmm_base := v_base v,
                 e820_vmm_fake_len := v_fake_len v, e820_vmm_end := v_end v, memorysize := v_memsize v\<rparr>)))"

definition uefi_init_get_vmmsize :: "u32 \<times> u32" where
  "uefi_init_get_vmmsize = (of_nat VMMSIZE_ALL, 0x400000)"

section \<open>Real-mode memory\<close>

definition realmode_step :: "sysmemmap \<Rightarrow> u32 \<times> u32 \<times> u32 \<Rightarrow> u32 \<times> u32 \<times> u32" where
  "realmode_step m = (\<lambda>(rbase, rlimit, rfake).
     if m_type m \<noteq> SYSMEMMAP_TYPE_AVAILABLE then (rbase, rlimit, rfake)
     else if m_base m \<ge> 0x100000 then (rbase, rlimit, rfake)
     else
       let limit64 = m_base m + m_len m - 1 in
       if limit64 \<ge> 0x100000 then (rbase, rlimit, rfake)
       else
         let base32 = ucast (m_base m) :: u32; limit32 = ucast limit64 :: u32 in
         if base32 > limit32 then (rbase, rlimit, rfake)
         else if limit32 - base32 \<ge> rlimit - rbase then (base32, limit32, limit32)
         else (rbase, rlimit, rfake))"

definition find_realmodemem :: "nat \<Rightarrow> sysmem \<Rightarrow> sysmem option" where
  "find_realmodemem fuel s =
     (case for_sysmem fuel realmode_step s 0 (0, 0, 0) of
        None \<Rightarrow> None
      | Some (b, l, f) \<Rightarrow>
          Some (s\<lparr>realmodemem_base := b, realmodemem_limit := l, realmodemem_fakelimit := f\<rparr>))"

text \<open>\<open>int0x12\<close> is the word at 0x413 in the BIOS data area.\<close>

definition alloc_realmodemem_bios :: "u32 \<Rightarrow> u16 \<Rightarrow> sysmem \<Rightarrow> (u32 \<times> u16 \<times> sysmem) res" where
  "alloc_realmodemem_bios len int0x12 s =
     bind_res (assert_res (len > 0) ''len > 0'') (\<lambda>_.
     bind_res (assert_res (len < realmodemem_fakelimit s - realmodemem_base s + 1)
       ''len < realmodemem_fakelimit - realmodemem_base + 1'') (\<lambda>_.
     let f = realmodemem_fakelimit s - len;
         size = ucast (drop_bit 10 (f + 1)) :: u16
     in Inr (f + 1, (if int0x12 > size then size else int0x12), s\<lparr>realmodemem_fakelimit := f\<rparr>)))"

text \<open>
  The boot services over their state \<open>'w\<close>: \<open>alloc npages limit\<close> gives an error code and the
  address it chose, \<open>free phys npages\<close> an error code.
\<close>

record 'w uefi_services =
  uefi_alloc :: "u32 \<Rightarrow> u64 \<Rightarrow> 'w \<Rightarrow> nat \<times> u64 \<times> 'w"
  uefi_free :: "u64 \<Rightarrow> u32 \<Rightarrow> 'w \<Rightarrow> nat \<times> 'w"

text \<open>Growing the current block downwards: the new \<open>remain\<close>, limit and firmware state.\<close>

definition grow_realmodemem ::
    "'w uefi_services \<Rightarrow> u32 \<Rightarrow> u32 \<Rightarrow> u32 \<Rightarrow> 'w \<Rightarrow> (u32 \<times> u32 \<times> 'w) res" where
  "grow_realmodemem u len limit remain w =
     (if limit \<noteq> 0 \<and> len > remain then
        let npages = drop_bit 12 (len - remain + 0x1000 - 1) in
        case uefi_alloc u npages (ucast (limit AND NOT 0xFFF)) w of (ret, phys, w) \<Rightarrow>
          if ret \<noteq> 0 then Inl (Panic ''alloc_realmodemem'')
          else if phys + ucast (push_bit 12 npages) \<noteq> ucast (limit AND NOT 0xFFF) then
            case uefi_free u phys npages w of (ret, w) \<Rightarrow>
              if ret \<noteq> 0 then Inl (Panic ''alloc_realmodemem free'') else Inr (remain, 0, w)
          else Inr (remain + push_bit 12 npages, limit, w)
      else Inr (remain, limit, w))"

definition alloc_realmodemem_uefi ::
    "'w uefi_services \<Rightarrow> u32 \<Rightarrow> sysmem \<Rightarrow> 'w \<Rightarrow> (u32 \<times> sysmem \<times> 'w) res" where
  "alloc_realmodemem_uefi u len s w =
     bind_res (grow_realmodemem u len (realmodemem_limit s) (realmodemem_limit s AND 0xFFF) w) (\<lambda>(remain, limit, w).
     bind_res (if limit = 0 then
                 let npages = drop_bit 12 (len + 0x1000 - 1) in
                 case uefi_alloc u npages 0xFFFFF w of (ret, phys, w) \<Rightarrow>
                   if ret \<noteq> 0 then Inl (Panic ''alloc_realmodemem'')
                   else let remain = push_bit 12 npages in Inr (remain, ucast (phys + ucast remain), w)
               else Inr (remain, limit, w)) (\<lambda>(remain, limit, w).
     bind_res (assert_res (len \<le> remain) ''len <= remain'') (\<lambda>_.
     Inr (limit - len, s\<lparr>realmodemem_limit := limit - len\<rparr>, w))))"

section \<open>The region lies in available memory\<close>

lemma for_sysmem_invariant:
  assumes "for_sysmem k body s n t = Some t'" "P t"
    and "\<And>n t. P t \<Longrightarrow> P (body (snd (getsysmemmap s n)) t)"
  shows "P t'"
  using assms(1,2)
proof (induction k arbitrary: n t)
  case (Suc k)
  from Suc.prems assms(3) [OF Suc.prems(2), of n] show ?case
    by (auto simp: Let_def split: prod.splits if_splits intro: Suc.IH)
qed simp

lemma find_entry_set: "find_entry es n = Some e \<Longrightarrow> e \<in> set es"
  by (induction es) (auto split: if_splits)

lemma getsysmemmap_cases:
  obtains e where "e \<in> set (sysmem_list s)" "snd (getsysmemmap s n) = sm_m e"
  | "snd (getsysmemmap s n) = \<lparr>m_base = 0, m_len = 0, m_type = 0\<rparr>"
  by (cases "find_entry (sysmem_list s) n") (auto simp: getsysmemmap_def dest: find_entry_set)

text \<open>
  The map of a real firmware: entries end below the top of the 64-bit space, and the empty
  entry at address 0 does not occur (the code would take it for all of the low 4 GiB).
\<close>

definition sane :: "sysmemmap \<Rightarrow> bool" where
  "sane m \<longleftrightarrow> unat (m_base m) + unat (m_len m) < 2 ^ 64 \<and> 0 < unat (m_base m) + unat (m_len m)"

lemma align_4m: "(0xFFC00000 :: u32) = NOT (mask 22)"
  by (simp add: mask_eq_exp_minus_1)

lemma usable_sound:
  assumes "usable base len = Some (b, l)"
    and "unat base + unat len < 2 ^ 64" "0 < unat base + unat len"
  shows "unat base \<le> unat b \<and> unat l < unat base + unat len \<and> (unat l + 1) mod 2 ^ 22 = 0 \<and> b \<le> l"
proof -
  let ?l64 = "base + len - 1"
  let ?lim = "if ?l64 \<ge> 0x100000000 then 0xFFFFFFFF else ?l64"
  let ?b32 = "ucast base :: u32" and ?l32 = "ucast ?lim :: u32"
  from assms(1) have c: "base < 0x100000000" "\<not> ?b32 > ?l32" "\<not> ?b32 > 0xF8000000" "\<not> ?l32 < 0x8000000"
      "b = (?b32 + 0x003FFFFF) AND 0xFFC00000" "l = ((?l32 + 1) AND 0xFFC00000) - 1" "\<not> b > l"
    by (auto simp: usable_def Let_def VMMSIZE_ALL_def split: if_splits)
  have ub: "unat ?b32 = unat base" using c(1) by (intro unat_ucast_32) (simp add: word_less_nat_alt)
  have "unat (base + len) = unat base + unat len" using assms(2) by (simp add: unat_word_ariths)
  then have ul64: "unat ?l64 = unat base + unat len - 1"
    using assms(3) by (subst unat_sub) (auto simp: word_le_nat_alt)
  have lim: "unat ?lim \<le> unat ?l64" "unat ?lim < 4294967296"
    by (auto simp: word_le_nat_alt not_le)
  then have ul: "unat ?l32 = unat ?lim" by (intro unat_ucast_32) simp
  have b: "unat base \<le> unat b"
  proof -
    have "unat ?b32 \<le> 0xF8000000" using c(3) by (simp add: word_less_nat_alt)
    then have "unat (?b32 + 0x003FFFFF) = unat base + 0x003FFFFF"
      using ub by (subst unat_add_lem [THEN iffD1]) auto
    then have "unat b = (unat base + 0x003FFFFF) div 2 ^ 22 * 2 ^ 22"
      using c(5) by (simp add: align_4m unat_and_not_mask)
    then show ?thesis by simp
  qed
  have l: "unat l < unat base + unat len \<and> (unat l + 1) mod 2 ^ 22 = 0"
  proof (cases "unat ?l32 = 4294967295")
    case True
    then have "?l32 = 0xFFFFFFFF" by (simp add: word_unat_eq_iff)
    then have "l = 0xFFFFFFFF" using c(6) by simp
    then show ?thesis using True ul lim(1) ul64 assms(3) by simp
  next
    case False
    then have s: "unat (?l32 + 1) = unat ?l32 + 1"
      using unat_bound_32 [of ?l32] by (subst unat_add_lem [THEN iffD1]) auto
    let ?a = "(?l32 + 1) AND 0xFFC00000"
    have a: "unat ?a = (unat ?l32 + 1) div 2 ^ 22 * 2 ^ 22"
      by (simp add: align_4m unat_and_not_mask s)
    have "0x8000000 \<le> unat ?l32" using c(4) by (simp add: word_less_nat_alt)
    then have "0 < unat ?a" by (simp add: a)
    then have "unat l = unat ?a - 1" unfolding c(6) by (subst unat_sub) (auto simp: word_le_nat_alt)
    then have u: "unat l + 1 = (unat ?l32 + 1) div 2 ^ 22 * 2 ^ 22" using a \<open>0 < unat ?a\<close> by simp
    then have "unat l + 1 \<le> unat ?l32 + 1" by simp
    moreover have "(unat l + 1) mod 2 ^ 22 = 0" by (simp only: u mod_mult_self2_is_0)
    ultimately show ?thesis using ul lim(1) ul64 assms(3) by linarith
  qed
  from b l c(7) show ?thesis by simp
qed

text \<open>The VMM's 128 MiB at \<open>phys\<close> lie, 4 MiB-aligned and below 4 GiB, in the available entry \<open>m\<close>.\<close>

definition fits :: "u32 \<Rightarrow> sysmemmap \<Rightarrow> bool" where
  "fits phys m \<longleftrightarrow> m_type m = SYSMEMMAP_TYPE_AVAILABLE \<and> unat (m_base m) \<le> unat phys \<and>
     unat phys + VMMSIZE_ALL \<le> unat (m_base m) + unat (m_len m) \<and>
     unat phys + VMMSIZE_ALL \<le> 2 ^ 32 \<and> unat phys mod 2 ^ 22 = 0"

definition search_ok :: "sysmem \<Rightarrow> vmm_search \<Rightarrow> bool" where
  "search_ok s v \<longleftrightarrow> v_phys v = 0 \<or>
     (\<exists>e \<in> set (sysmem_list s). fits (v_phys v) (sm_m e) \<and> v_base v = m_base (sm_m e) \<and>
        v_fake_len v = ucast (v_phys v) - m_base (sm_m e) \<and> v_end v = m_base (sm_m e) + m_len (sm_m e))"

lemma usable_fits:
  assumes "usable (m_base m) (m_len m) = Some (b, l)" "sane m" "m_type m = SYSMEMMAP_TYPE_AVAILABLE"
    and "l - b \<ge> 0x7FFFFFF"
  shows "fits (l - 0x7FFFFFF) m"
proof -
  note u = usable_sound [OF assms(1) assms(2) [unfolded sane_def, THEN conjunct1] assms(2) [unfolded sane_def, THEN conjunct2]]
  have lb: "unat (l - b) = unat l - unat b" using u by (simp add: unat_sub word_le_nat_alt)
  then have ge: "unat b + 0x7FFFFFF \<le> unat l" using assms(4) by (simp add: word_le_nat_alt)
  then have p: "unat (l - 0x7FFFFFF) = unat l - 0x7FFFFFF"
    by (subst unat_sub) (auto simp: word_le_nat_alt)
  obtain q where q: "unat l + 1 = q * 2 ^ 22" using u by (auto simp: mod_eq_0_iff_dvd dvd_def)
  then have "unat (l - 0x7FFFFFF) = (q - 32) * 2 ^ 22" using p ge by (simp add: diff_mult_distrib)
  then have al: "unat (l - 0x7FFFFFF) mod 2 ^ 22 = 0" by (simp only: mod_mult_self2_is_0)
  have "unat b \<le> unat l - 0x7FFFFFF" using ge by simp
  with al show ?thesis
    using u p ge assms(3) unat_bound_32 [of l] by (simp add: fits_def VMMSIZE_ALL_def)
qed

lemma vmm_step_none: "vmm_step \<lparr>m_base = 0, m_len = 0, m_type = 0\<rparr> v = v"
  by (simp add: vmm_step_def SYSMEMMAP_TYPE_AVAILABLE_def)

lemma vmm_step_ok:
  assumes "search_ok s v" "e \<in> set (sysmem_list s)" "sane (sm_m e)"
  shows "search_ok s (vmm_step (sm_m e) v)"
proof (cases "m_type (sm_m e) = SYSMEMMAP_TYPE_AVAILABLE")
  case True
  show ?thesis
  proof (cases "usable (m_base (sm_m e)) (m_len (sm_m e))")
    case None
    then show ?thesis using assms(1) True by (simp add: vmm_step_def search_ok_def)
  next
    case (Some p)
    obtain b l where p: "p = (b, l)" by (cases p)
    have v: "of_nat VMMSIZE_ALL - 1 = (0x7FFFFFF :: u32)" by (simp add: VMMSIZE_ALL_def)
    show ?thesis
    proof (cases "l - b \<ge> 0x7FFFFFF \<and> v_phys v < l - 0x7FFFFFF")
      case f: True
      then have "fits (l - 0x7FFFFFF) (sm_m e)"
        using usable_fits [OF _ assms(3) True] Some p by auto
      then show ?thesis using True Some p f assms(2)
        by (simp add: vmm_step_def search_ok_def v Let_def) blast
    next
      case False
      then have "vmm_step (sm_m e) v = v\<lparr>v_memsize := v_memsize v + m_len (sm_m e)\<rparr>"
        using True Some p by (auto simp: vmm_step_def v Let_def)
      then show ?thesis using assms(1) by (simp add: search_ok_def)
    qed
  qed
qed (use assms(1) in \<open>simp add: vmm_step_def\<close>)

lemma find_vmm_phys_search:
  assumes "find_vmm_phys fuel s = Some (phys, s')" "\<forall>e \<in> set (sysmem_list s). sane (sm_m e)"
  shows "phys = 0 \<or> (\<exists>e \<in> set (sysmem_list s). fits phys (sm_m e) \<and> e820_vmm_base s' = m_base (sm_m e) \<and>
      e820_vmm_fake_len s' = ucast phys - m_base (sm_m e) \<and> e820_vmm_end s' = m_base (sm_m e) + m_len (sm_m e))"
    and "sysmem_list s' = sysmem_list s" "realmodemem_base s' = realmodemem_base s"
      "realmodemem_fakelimit s' = realmodemem_fakelimit s"
proof -
  from assms(1) obtain v0 v where v: "for_sysmem fuel vmm_step s 0 v0 = Some v" "v_phys v0 = 0" "v_phys v = phys"
    and s': "e820_vmm_base s' = v_base v" "e820_vmm_fake_len s' = v_fake_len v" "e820_vmm_end s' = v_end v"
      "sysmem_list s' = sysmem_list s" "realmodemem_base s' = realmodemem_base s"
      "realmodemem_fakelimit s' = realmodemem_fakelimit s"
    by (auto simp: find_vmm_phys_def update_e801_fake_def Let_def split: option.splits)
  have "search_ok s v"
  proof (rule for_sysmem_invariant [OF v(1)])
    show "search_ok s v0" using v(2) by (simp add: search_ok_def)
    fix n t
    assume "search_ok s t"
    then show "search_ok s (vmm_step (snd (getsysmemmap s n)) t)"
      by (cases s n rule: getsysmemmap_cases)
        (use assms(2) in \<open>auto intro: vmm_step_ok simp: vmm_step_none\<close>)
  qed
  then show "phys = 0 \<or> (\<exists>e \<in> set (sysmem_list s). fits phys (sm_m e) \<and> e820_vmm_base s' = m_base (sm_m e) \<and>
      e820_vmm_fake_len s' = ucast phys - m_base (sm_m e) \<and> e820_vmm_end s' = m_base (sm_m e) + m_len (sm_m e))"
    using v(3) s' by (auto simp: search_ok_def)
  show "sysmem_list s' = sysmem_list s" "realmodemem_base s' = realmodemem_base s"
      "realmodemem_fakelimit s' = realmodemem_fakelimit s"
    by (fact s')+
qed


text \<open>A machine with 640 KiB, a hole, and 511 MiB from 1 MiB on.\<close>

definition sample_sysmem :: sysmem where
  "sample_sysmem =
     \<lparr>sysmem_list =
        [\<lparr>sm_n = 0, sm_nn = 1, sm_m = \<lparr>m_base = 0, m_len = 0xA0000, m_type = 1\<rparr>\<rparr>,
         \<lparr>sm_n = 1, sm_nn = 2, sm_m = \<lparr>m_base = 0xF0000, m_len = 0x10000, m_type = 2\<rparr>\<rparr>,
         \<lparr>sm_n = 2, sm_nn = 0, sm_m = \<lparr>m_base = 0x100000, m_len = 0x1FF00000, m_type = 1\<rparr>\<rparr>],
      memorysize = 0, vmmsize = 0, e820_vmm_base = 0, e820_vmm_fake_len = 0, e820_vmm_end = 0,
      e801_fake_ax = 0, e801_fake_bx = 0, realmodemem_base = 0, realmodemem_limit = 0,
      realmodemem_fakelimit = 0\<rparr>"

lemma sample_sane: "\<forall>e \<in> set (sysmem_list sample_sysmem). sane (sm_m e)"
  by (simp add: sample_sysmem_def sane_def)

definition sample_rm :: sysmem where
  "sample_rm = sample_sysmem\<lparr>realmodemem_base := 0, realmodemem_limit := 0x9FFFF, realmodemem_fakelimit := 0x9FFFF\<rparr>"

definition sample_vmm :: sysmem where
  "sample_vmm = snd (the (find_vmm_phys (Suc (Suc (Suc 0))) sample_rm))"

lemma sample_find_rm: "find_realmodemem (Suc (Suc (Suc 0))) sample_sysmem = Some sample_rm"
  by (simp add: find_realmodemem_def sample_sysmem_def sample_rm_def getsysmemmap_def realmode_step_def
      SYSMEMMAP_TYPE_AVAILABLE_def)

lemma sample_find_vmm: "find_vmm_phys (Suc (Suc (Suc 0))) sample_rm = Some (0x18000000, sample_vmm)"
  unfolding sample_vmm_def
  by (simp add: find_vmm_phys_def sample_sysmem_def sample_rm_def getsysmemmap_def vmm_step_def usable_def
      VMMSIZE_ALL_def SYSMEMMAP_TYPE_AVAILABLE_def)


section \<open>The guest's map hides the region\<close>

text \<open>Available entries are the same or apart, as the firmware reports them.\<close>

definition apart :: "sysmemmap \<Rightarrow> sysmemmap \<Rightarrow> bool" where
  "apart m m' \<longleftrightarrow> m = m' \<or> unat (m_base m) + unat (m_len m) \<le> unat (m_base m') \<or>
     unat (m_base m') + unat (m_len m') \<le> unat (m_base m)"

definition firmware_map :: "sysmem \<Rightarrow> bool" where
  "firmware_map s \<longleftrightarrow> (\<forall>e \<in> set (sysmem_list s). sane (sm_m e)) \<and>
     (\<forall>e \<in> set (sysmem_list s). \<forall>e' \<in> set (sysmem_list s).
        m_type (sm_m e) = SYSMEMMAP_TYPE_AVAILABLE \<longrightarrow> m_type (sm_m e') = SYSMEMMAP_TYPE_AVAILABLE \<longrightarrow>
        apart (sm_m e) (sm_m e'))"

text \<open>The real-mode region: none, or the start of an available entry.\<close>

definition realmode_ok :: "sysmem \<Rightarrow> bool" where
  "realmode_ok s \<longleftrightarrow> realmodemem_base s \<le> realmodemem_fakelimit s \<and>
     (realmodemem_fakelimit s = 0 \<or>
      (\<exists>e \<in> set (sysmem_list s). m_type (sm_m e) = SYSMEMMAP_TYPE_AVAILABLE \<and>
         m_base (sm_m e) = ucast (realmodemem_base s) \<and>
         unat (realmodemem_fakelimit s) < unat (m_base (sm_m e)) + unat (m_len (sm_m e))))"

definition realmode_inv :: "sysmem \<Rightarrow> u32 \<times> u32 \<times> u32 \<Rightarrow> bool" where
  "realmode_inv s t \<longleftrightarrow> (case t of (b, l, f) \<Rightarrow> l = f \<and>
     realmode_ok (s\<lparr>realmodemem_base := b, realmodemem_fakelimit := f\<rparr>))"

lemma realmode_step_none: "realmode_step \<lparr>m_base = 0, m_len = 0, m_type = 0\<rparr> t = t"
  by (simp add: realmode_step_def SYSMEMMAP_TYPE_AVAILABLE_def split: prod.split)

lemma realmode_step_ok:
  assumes "realmode_inv s t"
    and e: "e \<in> set (sysmem_list s)" "sane (sm_m e)"
  shows "realmode_inv s (realmode_step (sm_m e) t)"
proof -
  let ?m = "sm_m e"
  let ?l64 = "m_base ?m + m_len ?m - 1"
  have r: "realmode_ok (s\<lparr>realmodemem_base := ucast (m_base ?m), realmodemem_fakelimit := ucast ?l64\<rparr>)"
    if "m_type ?m = SYSMEMMAP_TYPE_AVAILABLE" "m_base ?m < 0x100000" "?l64 < 0x100000"
      "\<not> (ucast (m_base ?m) :: u32) > ucast ?l64"
  proof -
    have b: "unat (ucast (m_base ?m) :: u32) = unat (m_base ?m)"
      using that(2) by (intro unat_ucast_32) (simp add: word_less_nat_alt)
    have l: "unat (ucast ?l64 :: u32) = unat ?l64"
      using that(3) by (intro unat_ucast_32) (simp add: word_less_nat_alt)
    have "unat (m_base ?m + m_len ?m) = unat (m_base ?m) + unat (m_len ?m)"
      using e(2) by (simp add: sane_def unat_word_ariths)
    then have "unat ?l64 < unat (m_base ?m) + unat (m_len ?m)"
      using e(2) by (subst unat_sub) (auto simp: sane_def word_le_nat_alt)
    moreover have "(ucast (ucast (m_base ?m) :: u32) :: u64) = m_base ?m"
      using b by (simp add: word_unat_eq_iff unat_ucast_64)
    ultimately show ?thesis using that e(1) l by (auto simp: realmode_ok_def not_less intro!: bexI [of _ e])
  qed
  show ?thesis using assms(1) r by (auto simp: realmode_inv_def realmode_step_def Let_def not_le not_less split: prod.splits)
qed

lemma find_realmodemem_ok:
  assumes "find_realmodemem fuel s = Some s'" "\<forall>e \<in> set (sysmem_list s). sane (sm_m e)"
  shows "realmode_ok s' \<and> sysmem_list s' = sysmem_list s"
proof -
  from assms(1) obtain b l f where t: "for_sysmem fuel realmode_step s 0 (0, 0, 0) = Some (b, l, f)"
    and s': "s' = s\<lparr>realmodemem_base := b, realmodemem_limit := l, realmodemem_fakelimit := f\<rparr>"
    by (auto simp: find_realmodemem_def split: option.splits)
  have "realmode_inv s (b, l, f)"
  proof (rule for_sysmem_invariant [OF t])
    show "realmode_inv s (0, 0, 0)" by (simp add: realmode_inv_def realmode_ok_def)
    fix n t
    assume "realmode_inv s t"
    then show "realmode_inv s (realmode_step (snd (getsysmemmap s n)) t)"
      by (cases s n rule: getsysmemmap_cases)
        (use assms(2) in \<open>auto intro!: realmode_step_ok simp: realmode_step_none\<close>)
  qed
  then show ?thesis by (simp add: s' realmode_inv_def realmode_ok_def)
qed

lemma realmode_len:
  assumes "realmodemem_base s \<le> realmodemem_fakelimit s" "realmodemem_fakelimit s \<noteq> 0xFFFFFFFF"
  shows "unat (ucast (realmodemem_fakelimit s - realmodemem_base s + 1) :: u64) =
    unat (realmodemem_fakelimit s) - unat (realmodemem_base s) + 1"
proof -
  have d: "unat (realmodemem_fakelimit s - realmodemem_base s) =
      unat (realmodemem_fakelimit s) - unat (realmodemem_base s)"
    using assms(1) by (simp add: unat_sub word_le_nat_alt)
  have "unat (realmodemem_fakelimit s) \<noteq> 4294967295" using assms(2) by (simp add: word_unat_eq_iff)
  then have "unat (realmodemem_fakelimit s - realmodemem_base s + 1) =
      unat (realmodemem_fakelimit s) - unat (realmodemem_base s) + 1"
    using d unat_bound_32 [of "realmodemem_fakelimit s"] by (subst unat_add_lem [THEN iffD1]) auto
  then show ?thesis by (simp add: unat_ucast_64)
qed

text \<open>
  C13: After \<open>find_vmm_phys\<close>, no entry that \<open>getfakesysmemmap\<close> shows the guest as available
  reaches into the 128 MiB of the VMM, however much real-mode memory was handed out.
\<close>

theorem fake_map_hides_vmm:
  assumes "find_vmm_phys fuel s = Some (phys, s')" "phys \<noteq> 0"
    and "firmware_map s" "realmode_ok s" "realmodemem_fakelimit s \<noteq> 0xFFFFFFFF"
    and "getfakesysmemmap s' n = (nn, m)" "m_type m = SYSMEMMAP_TYPE_AVAILABLE"
  shows "unat (m_base m) + unat (m_len m) \<le> unat phys \<or> unat phys + VMMSIZE_ALL \<le> unat (m_base m)"
proof -
  have sane: "\<forall>e \<in> set (sysmem_list s). sane (sm_m e)" using assms(3) by (simp add: firmware_map_def)
  note f = find_vmm_phys_search [OF assms(1) sane]
  from f(1) assms(2) obtain E where E: "E \<in> set (sysmem_list s)" "fits phys (sm_m E)"
      "e820_vmm_base s' = m_base (sm_m E)" "e820_vmm_fake_len s' = ucast phys - m_base (sm_m E)"
      "e820_vmm_end s' = m_base (sm_m E) + m_len (sm_m E)"
    by blast
  let ?B = "unat (m_base (sm_m E))" and ?L = "unat (m_len (sm_m E))"
  have fit: "?B \<le> unat phys" "unat phys + VMMSIZE_ALL \<le> ?B + ?L" using E(2) by (auto simp: fits_def)
  have pos: "0 < unat phys" using assms(2) by (simp add: unat_gt_0)
  have uend: "unat (e820_vmm_end s') = ?B + ?L"
    using sane E(1,5) by (simp add: sane_def unat_word_ariths)
  have ulen: "unat (e820_vmm_fake_len s') = unat phys - ?B"
    unfolding E(4) using fit(1) by (subst unat_sub) (auto simp: unat_ucast_64 word_le_nat_alt)
  have ge: "unat phys + VMMSIZE_ALL \<le> unat b" if "\<not> (b > m_base (sm_m E) \<and> b < e820_vmm_end s')" "b > m_base (sm_m E)" for b
    using that fit uend by (simp add: word_less_nat_alt)
  obtain r m0 where g: "getsysmemmap s' n = (r, m0)" by (cases "getsysmemmap s' n")
  have m: "m_base m = m_base m0" "m_type m0 = SYSMEMMAP_TYPE_AVAILABLE"
    "\<not> (m_base m0 > m_base (sm_m E) \<and> m_base m0 < e820_vmm_end s')"
    "m_len m = (if m_base m0 = m_base (sm_m E) then e820_vmm_fake_len s'
                else if m_base m0 = ucast (realmodemem_base s')
                then ucast (realmodemem_fakelimit s' - realmodemem_base s' + 1) else m_len m0)"
    using assms(6,7) g E(3)
    by (auto simp: getfakesysmemmap_def Let_def SYSMEMMAP_TYPE_AVAILABLE_def SYSMEMMAP_TYPE_RESERVED_def
        split: if_splits)
  have m0: "\<exists>e \<in> set (sysmem_list s). m0 = sm_m e"
    using g m(2) f(2) by (cases s' n rule: getsysmemmap_cases) (auto simp: SYSMEMMAP_TYPE_AVAILABLE_def)
  consider "m_base m0 = m_base (sm_m E)" | "m_base m0 > m_base (sm_m E)" | (low) "m_base m0 < m_base (sm_m E)"
    by fastforce
  then show ?thesis
  proof cases
    case 1
    then show ?thesis using m ulen fit by simp
  next
    case 2
    then show ?thesis using ge [OF m(3)] m(1) by simp
  next
    case low
    have below: "unat (m_base m1) + unat (m_len m1) \<le> ?B" if "m_base m1 = m_base m0"
      "m1 \<in> sm_m ` set (sysmem_list s)" "m_type m1 = SYSMEMMAP_TYPE_AVAILABLE" for m1
    proof -
      have "apart m1 (sm_m E)" using that assms(3) E(1,2) by (auto simp: firmware_map_def fits_def)
      moreover have "unat (m_base m1) < ?B" using low that(1) by (simp add: word_less_nat_alt)
      ultimately show ?thesis by (auto simp: apart_def)
    qed
    show ?thesis
    proof (cases "m_base m0 = ucast (realmodemem_base s')")
      case True
      have rb: "unat (m_base m0) = unat (realmodemem_base s)" using True f(3) by (simp add: unat_ucast_64)
      have rl: "unat (m_len m) = unat (realmodemem_fakelimit s) - unat (realmodemem_base s) + 1"
        using m(4) low True realmode_len [of s] assms(4,5) f(3,4) by (auto simp: realmode_ok_def)
      have le: "unat (realmodemem_base s) \<le> unat (realmodemem_fakelimit s)"
        using assms(4) by (simp add: realmode_ok_def word_le_nat_alt)
      show ?thesis
      proof (cases "realmodemem_fakelimit s = 0")
        case True
        then show ?thesis using m(1) rb rl le pos by simp
      next
        case False
        with assms(4) obtain e where "e \<in> set (sysmem_list s)" "m_type (sm_m e) = SYSMEMMAP_TYPE_AVAILABLE"
          "m_base (sm_m e) = m_base m0"
          "unat (realmodemem_fakelimit s) < unat (m_base (sm_m e)) + unat (m_len (sm_m e))"
          using True f(3) by (auto simp: realmode_ok_def)
        then show ?thesis using below [of "sm_m e"] m(1) rb rl le fit by auto
      qed
    next
      case False
      then have "m_len m = m_len m0" using m(4) low by auto
      then show ?thesis using below [of m0] m0 m(1,2) fit by auto
    qed
  qed
qed

theorem fake_map_hides_vmm_witness:
  "unat (0x100000 :: u64) + unat (0x17F00000 :: u64) \<le> unat (0x18000000 :: u32) \<or>
   unat (0x18000000 :: u32) + VMMSIZE_ALL \<le> unat (0x100000 :: u64)"
proof -
  have "getfakesysmemmap sample_vmm 2 = (0, \<lparr>m_base = 0x100000, m_len = 0x17F00000, m_type = 1\<rparr>)"
    unfolding sample_vmm_def
    by (simp add: getfakesysmemmap_def getsysmemmap_def find_vmm_phys_def sample_sysmem_def sample_rm_def
        vmm_step_def usable_def VMMSIZE_ALL_def SYSMEMMAP_TYPE_AVAILABLE_def update_e801_fake_def)
  moreover have "firmware_map sample_rm"
    by (simp add: firmware_map_def sample_rm_def sample_sysmem_def sane_def apart_def SYSMEMMAP_TYPE_AVAILABLE_def)
  moreover have "realmode_ok sample_rm" using find_realmodemem_ok [OF sample_find_rm sample_sane] by blast
  ultimately show ?thesis
    using fake_map_hides_vmm [OF sample_find_vmm, of 2 0 "\<lparr>m_base = 0x100000, m_len = 0x17F00000, m_type = 1\<rparr>"]
    by (simp add: sample_rm_def SYSMEMMAP_TYPE_AVAILABLE_def)
qed

end
