(* ===== verification/Page_Alloc.thy ===== *)
theory Page_Alloc
  imports Prelude
begin

text \<open>
  The page allocator of \<^verbatim>\<open>bitvisor/core/mm.c\<close>: a buddy system over the 32768 pages of the
  VMM, with free lists for blocks of 1, 2, 4, .. 4096 pages.  A \<open>struct page *\<close> is the index
  of the page; its addresses are the functions \<open>page_to_virt\<close> and \<open>page_to_phys\<close> of the index
  that \<open>mm_init_global\<close> stores.  The allocator runs under its lock, as one sequence of steps.
\<close>

section \<open>State\<close>

definition NUM_OF_PAGES :: nat where "NUM_OF_PAGES = 32768"
definition NUM_OF_ALLOCSIZE :: nat where "NUM_OF_ALLOCSIZE = 13"
definition NUM_OF_PANICMEM_PAGES :: nat where "NUM_OF_PANICMEM_PAGES = 256"
definition VMM_START_VIRT :: u64 where "VMM_START_VIRT = 0x40000000"

datatype page_type = PAGE_TYPE_FREE | PAGE_TYPE_NOT_HEAD | PAGE_TYPE_ALLOCATED | PAGE_TYPE_RESERVED

record mm =
  ptype :: "nat \<Rightarrow> page_type"
  psize :: "nat \<Rightarrow> nat"
  freepage :: "nat \<Rightarrow> nat list"
  panicmem_start_page :: nat

definition allocsize :: "nat \<Rightarrow> u64" where
  "allocsize n = push_bit n 4096"

definition page_to_virt :: "nat \<Rightarrow> u64" where
  "page_to_virt i = VMM_START_VIRT + 4096 * of_nat i"

definition page_to_phys :: "u32 \<Rightarrow> nat \<Rightarrow> u64" where
  "page_to_phys vmm_start_phys i = ucast (vmm_start_phys + 4096 * of_nat i)"

definition phys_to_virt :: "u32 \<Rightarrow> u64 \<Rightarrow> u64" where
  "phys_to_virt vmm_start_phys phys = phys - ucast vmm_start_phys + VMM_START_VIRT"

definition virt_to_page :: "u64 \<Rightarrow> nat res" where
  "virt_to_page virt =
     (let i = ucast (drop_bit 12 (virt - VMM_START_VIRT)) :: u32 in
      bind_res (assert_res (unat i < NUM_OF_PAGES) ''i < NUM_OF_PAGES'') (\<lambda>_. Inr (unat i)))"

definition phys_to_page :: "u32 \<Rightarrow> u64 \<Rightarrow> nat res" where
  "phys_to_page vmm_start_phys phys = virt_to_page (phys_to_virt vmm_start_phys phys)"

text \<open>\<open>LIST1_ADD\<close> appends, \<open>LIST1_POP\<close> takes the first element, \<open>LIST1_DEL\<close> removes one.\<close>

definition LIST1_ADD :: "nat \<Rightarrow> nat \<Rightarrow> mm \<Rightarrow> mm" where
  "LIST1_ADD n p s = s\<lparr>freepage := (freepage s)(n := freepage s n @ [p])\<rparr>"

definition LIST1_DEL :: "nat \<Rightarrow> nat \<Rightarrow> mm \<Rightarrow> mm" where
  "LIST1_DEL n p s = s\<lparr>freepage := (freepage s)(n := remove1 p (freepage s n))\<rparr>"

definition set_type :: "nat \<Rightarrow> page_type \<Rightarrow> mm \<Rightarrow> mm" where
  "set_type p t s = s\<lparr>ptype := (ptype s)(p := t)\<rparr>"

definition set_size :: "nat \<Rightarrow> nat \<Rightarrow> mm \<Rightarrow> mm" where
  "set_size p n s = s\<lparr>psize := (psize s)(p := n)\<rparr>"

section \<open>Allocation\<close>

text \<open>The halves of a block: \<open>p\<close> was allocated with order \<open>n + 1\<close>, \<open>q\<close> is its upper half.\<close>

definition split_block :: "nat \<Rightarrow> nat \<Rightarrow> nat \<Rightarrow> mm \<Rightarrow> mm" where
  "split_block n p q s =
     LIST1_ADD n q (LIST1_ADD n p (set_type q PAGE_TYPE_FREE (set_type p PAGE_TYPE_FREE (set_size p n s))))"

lemma freepage_split [simp]: "freepage (split_block n p q s) = (freepage s)(n := freepage s n @ [p, q])"
  by (simp add: split_block_def LIST1_ADD_def set_type_def set_size_def)

function mm_page_alloc :: "nat \<Rightarrow> mm \<Rightarrow> (nat \<times> mm) res" where
  "mm_page_alloc n s =
     (if \<not> n < NUM_OF_ALLOCSIZE then Inl (AssertFail ''n < NUM_OF_ALLOCSIZE'')
      else case freepage s n of
        p # ps \<Rightarrow>
          (let old_type = ptype s p;
               s = set_type p PAGE_TYPE_ALLOCATED (s\<lparr>freepage := (freepage s)(n := ps)\<rparr>)
           in bind_res (assert_res (old_type = PAGE_TYPE_FREE) ''old_type == PAGE_TYPE_FREE'') (\<lambda>_. Inr (p, s)))
      | [] \<Rightarrow>
          (case mm_page_alloc (n + 1) s of
             Inl e \<Rightarrow> Inl e
           | Inr (p, s) \<Rightarrow>
               (case virt_to_page (page_to_virt p XOR allocsize n) of
                  Inl e \<Rightarrow> Inl e
                | Inr q \<Rightarrow> mm_page_alloc n (split_block n p q s))))"
  by pat_completeness auto
termination
  by (relation "measure (\<lambda>(n, s). 2 * (NUM_OF_ALLOCSIZE - n) + (if freepage s n = [] then 1 else 0))") auto

declare mm_page_alloc.simps [simp del]

section \<open>Freeing\<close>

text \<open>
  The loop of \<open>mm_page_free\<close>, which merges a block with its buddy as long as that is free and
  of the same order.  The loop's \<open>n\<close> is \<open>p->allocsize\<close> at every test, so it is read there.
\<close>

definition merge_block :: "nat \<Rightarrow> nat \<Rightarrow> mm \<Rightarrow> mm" where
  "merge_block p q s =
     (let n = psize s p;
          s = set_type q PAGE_TYPE_NOT_HEAD (LIST1_DEL n q (LIST1_DEL n p s));
          m = psize s p + 1
      in LIST1_ADD m p (set_size p m s))"

lemma psize_merge [simp]: "psize (merge_block p q s) = (psize s)(p := psize s p + 1)"
  by (simp add: merge_block_def LIST1_ADD_def LIST1_DEL_def set_type_def set_size_def Let_def)

function free_loop :: "nat \<Rightarrow> mm \<Rightarrow> mm res" where
  "free_loop p s =
     (if \<not> psize s p < NUM_OF_ALLOCSIZE - 1 then Inr s
      else case virt_to_page (page_to_virt p XOR allocsize (psize s p)) of
        Inl e \<Rightarrow> Inl e
      | Inr q \<Rightarrow>
          if ptype s q = PAGE_TYPE_FREE \<and> psize s q = psize s p then
            if any_bit (page_to_virt p) (allocsize (psize s p)) then free_loop q (merge_block q p s)
            else free_loop p (merge_block p q s)
          else Inr s)"
  by pat_completeness auto
termination by (relation "measure (\<lambda>(p, s). NUM_OF_ALLOCSIZE - psize s p)") auto

declare free_loop.simps [simp del]

definition mm_page_free :: "nat \<Rightarrow> mm \<Rightarrow> mm res" where
  "mm_page_free p s = free_loop p (LIST1_ADD (psize s p) p (set_type p PAGE_TYPE_FREE s))"

text \<open>Returns number of available pages.\<close>

definition num_of_available_pages :: "mm \<Rightarrow> nat" where
  "num_of_available_pages s =
     foldl (\<lambda>r i. r + length (freepage s i) * unat (drop_bit 12 (allocsize i))) 0 [0..<NUM_OF_ALLOCSIZE]"

section \<open>The interface to the rest of the VMM\<close>

text \<open>
  \<open>int s = n * PAGESIZE\<close> wraps at 32 bits and is compared signed.  The result is the virtual
  and the physical address of the block.
\<close>

definition alloc_order :: "u32 \<Rightarrow> nat option" where
  "alloc_order n = find (\<lambda>i. n * 4096 \<le>s (push_bit i 4096 :: u32)) [0..<NUM_OF_ALLOCSIZE]"

definition alloc_pages :: "u32 \<Rightarrow> u32 \<Rightarrow> mm \<Rightarrow> ((u64 \<times> u64) \<times> mm) res" where
  "alloc_pages vmm_start_phys n s =
     (case alloc_order n of
        None \<Rightarrow> Inl (Panic ''alloc_pages failed.'')
      | Some i \<Rightarrow> bind_res (mm_page_alloc i s) (\<lambda>(p, s). Inr ((page_to_virt p, page_to_phys vmm_start_phys p), s)))"

definition alloc_page :: "u32 \<Rightarrow> mm \<Rightarrow> ((u64 \<times> u64) \<times> mm) res" where
  "alloc_page vmm_start_phys s = alloc_pages vmm_start_phys 1 s"

definition free_page :: "u64 \<Rightarrow> mm \<Rightarrow> mm res" where
  "free_page virt s = bind_res (virt_to_page virt) (\<lambda>p. mm_page_free p s)"

definition free_page_phys :: "u32 \<Rightarrow> u64 \<Rightarrow> mm \<Rightarrow> mm res" where
  "free_page_phys vmm_start_phys phys s = bind_res (phys_to_page vmm_start_phys phys) (\<lambda>p. mm_page_free p s)"

text \<open>The pages kept back for a panic.\<close>

definition mm_get_panicmem :: "mm \<Rightarrow> (u64 \<times> nat) option" where
  "mm_get_panicmem s =
     (if panicmem_start_page s = 0 then None
      else Some (page_to_virt (panicmem_start_page s), NUM_OF_PANICMEM_PAGES * 4096))"

primrec free_each :: "nat list \<Rightarrow> mm \<Rightarrow> mm res" where
  "free_each [] s = Inr s"
| "free_each (p # ps) s = bind_res (mm_page_free p s) (free_each ps)"

definition mm_free_panicmem :: "mm \<Rightarrow> mm res" where
  "mm_free_panicmem s =
     (let p = panicmem_start_page s in
      if p = 0 then Inr s
      else free_each [p..<p + NUM_OF_PANICMEM_PAGES] (s\<lparr>panicmem_start_page := 0\<rparr>))"

section \<open>Initialisation\<close>

text \<open>
  The page part of \<open>mm_init_global\<close>: every page reserved, then the pages outside the VMM image
  (between the linker's symbols \<open>head\<close> and \<open>end\<close>) and the panic memory are freed one by one.
\<close>

definition mm_reserved :: "u64 \<Rightarrow> mm" where
  "mm_reserved end =
     \<lparr>ptype = \<lambda>_. PAGE_TYPE_RESERVED, psize = \<lambda>_. 0, freepage = \<lambda>_. [],
      panicmem_start_page = unat (drop_bit 12 (end + 4096 - 1 - VMM_START_VIRT))\<rparr>"

definition initial_pages :: "u64 \<Rightarrow> u64 \<Rightarrow> mm \<Rightarrow> nat list" where
  "initial_pages head end s =
     filter (\<lambda>i. \<not> (head \<le> page_to_virt i \<and> page_to_virt i < end)
               \<and> \<not> i < panicmem_start_page s + NUM_OF_PANICMEM_PAGES) [0..<NUM_OF_PAGES]"

definition mm_init_pages :: "u64 \<Rightarrow> u64 \<Rightarrow> mm res" where
  "mm_init_pages head end = (let s = mm_reserved end in free_each (initial_pages head end s) s)"

section \<open>Buddies\<close>

text \<open>The other half of the block of the next order.\<close>

definition buddy :: "nat \<Rightarrow> nat \<Rightarrow> nat" where
  "buddy n i = (if bit i n then i - 2 ^ n else i + 2 ^ n)"

lemma buddy_xor: "buddy n i = i XOR 2 ^ n"
proof -
  have "flip_bit n i = i XOR 2 ^ n" by (simp add: flip_bit_eq_xor push_bit_eq_mult)
  moreover have "i = unset_bit n i + 2 ^ n" if "bit i n"
  proof -
    have "i = set_bit n (unset_bit n i)" using that by (intro bit_eqI) (auto simp: bit_simps)
    also have "\<dots> = unset_bit n i + 2 ^ n" by (simp add: set_bit_eq bit_simps)
    finally show ?thesis .
  qed
  ultimately show ?thesis by (auto simp: buddy_def flip_bit_eq_if set_bit_eq split: if_splits)
qed

lemma bit_aligned: "2 ^ n dvd i \<Longrightarrow> bit i n \<longleftrightarrow> \<not> 2 ^ Suc n dvd i" for i :: nat
  by (auto simp: bit_iff_odd elim!: dvdE)

lemma page_to_virt_push:
  "page_to_virt i = push_bit 12 (of_nat (262144 + i))"
  by (simp add: page_to_virt_def VMM_START_VIRT_def push_bit_eq_mult algebra_simps)

lemma virt_to_page_push:
  assumes "i < NUM_OF_PAGES" shows "virt_to_page (push_bit 12 (of_nat (262144 + i))) = Inr i"
proof -
  have "push_bit 12 (of_nat (262144 + i)) - VMM_START_VIRT = push_bit 12 (of_nat i :: u64)"
    by (simp add: VMM_START_VIRT_def push_bit_eq_mult algebra_simps)
  also have "drop_bit 12 \<dots> = (of_nat i :: u64)"
  proof (rule bit_word_eqI)
    fix k assume "k < LENGTH(64)"
    have "\<not> bit i k" if "15 \<le> k"
    proof -
      have "i < 2 ^ k" using assms power_increasing [OF that, of "2::nat"] by (simp add: NUM_OF_PAGES_def)
      then show ?thesis by (simp add: bit_iff_odd)
    qed
    then show "bit (drop_bit 12 (push_bit 12 (of_nat i :: u64))) k = bit (of_nat i :: u64) k"
      by (cases "15 \<le> k") (auto simp: bit_simps)
  qed
  finally show ?thesis
    using assms by (simp add: virt_to_page_def Let_def NUM_OF_PAGES_def unat_less_of_nat unat_ucast_32 assert_res_def)
qed

lemma virt_to_page_virt: "i < NUM_OF_PAGES \<Longrightarrow> virt_to_page (page_to_virt i) = Inr i"
  by (simp only: page_to_virt_push virt_to_page_push)

lemma xor_offset:
  fixes i :: nat
  assumes "i < 32768" "n < 13"
  shows "(262144 + i) XOR 2 ^ n = 262144 + (i XOR 2 ^ n)" "bit (262144 + i) n = bit i n"
proof -
  have q: "(262144 + i) div 2 ^ n = 2 ^ (18 - n) + i div 2 ^ n"
  proof -
    have "2 ^ n * 2 ^ (18 - n) = (262144 :: nat)"
      using assms(2) by (simp flip: power_add)
    then show ?thesis by (metis div_mult_self2 mult.commute add.commute power_not_zero zero_neq_numeral)
  qed
  show b: "bit (262144 + i) n = bit i n"
    using assms(2) by (simp add: bit_iff_odd q)
  have "bit i n \<Longrightarrow> 2 ^ n \<le> i"
    by (metis bit_iff_odd div_less even_zero not_le)
  then show "(262144 + i) XOR 2 ^ n = 262144 + (i XOR 2 ^ n)"
    unfolding buddy_xor [symmetric] buddy_def b by auto
qed

lemma buddy_in_range:
  assumes "i < NUM_OF_PAGES" "n < 13" shows "buddy n i < NUM_OF_PAGES"
proof -
  have "i XOR 2 ^ n < 2 ^ 15"
  proof -
    have "take_bit 15 (i XOR 2 ^ n) = i XOR (2 ^ n :: nat)"
    proof -
      have "take_bit 15 i = i" using assms by (simp add: take_bit_nat_eq_self NUM_OF_PAGES_def)
      moreover have "take_bit 15 (2 ^ n) = (2 ^ n :: nat)"
        using power_strict_increasing [of n 15 "2::nat"] assms by (simp add: take_bit_nat_eq_self)
      ultimately show ?thesis by simp
    qed
    then show ?thesis by (metis take_bit_nat_less_exp)
  qed
  then show ?thesis by (simp add: buddy_xor NUM_OF_PAGES_def)
qed

lemma virt_to_page_buddy:
  assumes "i < NUM_OF_PAGES" "n < 13"
  shows "virt_to_page (page_to_virt i XOR allocsize n) = Inr (buddy n i)"
proof -
  have "allocsize n = push_bit 12 (of_nat (2 ^ n))"
    by (simp add: allocsize_def push_bit_eq_mult mult.commute)
  then have "page_to_virt i XOR allocsize n = push_bit 12 (of_nat ((262144 + i) XOR 2 ^ n))"
    by (simp only: page_to_virt_push push_bit_xor [symmetric] of_nat_xor_eq)
  also have "(262144 + i) XOR 2 ^ n = 262144 + buddy n i"
    using assms by (simp add: xor_offset buddy_xor NUM_OF_PAGES_def)
  finally show ?thesis using buddy_in_range [OF assms] by (simp only: virt_to_page_push)
qed

lemma upper_half:
  assumes "i < NUM_OF_PAGES" "n < 13"
  shows "any_bit (page_to_virt i) (allocsize n) \<longleftrightarrow> bit i n"
proof -
  have "allocsize n = 2 ^ (n + 12)"
    by (simp add: allocsize_def push_bit_eq_mult power_add)
  then have "any_bit (page_to_virt i) (allocsize n) = bit (page_to_virt i) (n + 12)"
    using assms(2) by (simp add: any_bit_def bit_iff_and_push_bit_not_eq_0 push_bit_of_1)
  also have "\<dots> = bit (262144 + i) n"
    using assms(2) unfolding page_to_virt_push by (simp add: bit_simps del: of_nat_add)
  also have "\<dots> = bit i n" using assms by (simp add: xor_offset NUM_OF_PAGES_def)
  finally show ?thesis .
qed

section \<open>The invariant\<close>

text \<open>
  A page that is not a tail heads the block \<open>block s i\<close>.  The free lists hold exactly the heads
  of free blocks; a block is aligned to its size and all its other pages are tails; a tail keeps
  the order at which it was merged, the position of its lowest bit.
\<close>

definition block :: "mm \<Rightarrow> nat \<Rightarrow> nat set" where "block s i = {i..<i + 2 ^ psize s i}"

definition lists_ok :: "mm \<Rightarrow> bool" where
  "lists_ok s \<longleftrightarrow> (\<forall>n<NUM_OF_ALLOCSIZE. distinct (freepage s n) \<and>
     set (freepage s n) = {i. i < NUM_OF_PAGES \<and> ptype s i = PAGE_TYPE_FREE \<and> psize s i = n})"

definition heads_ok :: "mm \<Rightarrow> bool" where
  "heads_ok s \<longleftrightarrow> (\<forall>i<NUM_OF_PAGES. ptype s i \<noteq> PAGE_TYPE_NOT_HEAD \<longrightarrow>
     psize s i < NUM_OF_ALLOCSIZE \<and> 2 ^ psize s i dvd i \<and>
     (\<forall>j. i < j \<and> j < i + 2 ^ psize s i \<longrightarrow> ptype s j = PAGE_TYPE_NOT_HEAD))"

definition tails_ok :: "mm \<Rightarrow> bool" where
  "tails_ok s \<longleftrightarrow> (\<forall>i<NUM_OF_PAGES. ptype s i = PAGE_TYPE_NOT_HEAD \<longrightarrow>
     2 ^ psize s i dvd i \<and> \<not> 2 ^ Suc (psize s i) dvd i)"

definition reserved_ok :: "mm \<Rightarrow> bool" where
  "reserved_ok s \<longleftrightarrow> (\<forall>i<NUM_OF_PAGES. ptype s i = PAGE_TYPE_RESERVED \<longrightarrow> psize s i = 0)"

definition mm_inv :: "mm \<Rightarrow> bool" where
  "mm_inv s \<longleftrightarrow> lists_ok s \<and> heads_ok s \<and> tails_ok s \<and> reserved_ok s"

definition free_heads :: "mm \<Rightarrow> nat set" where
  "free_heads s = {i. i < NUM_OF_PAGES \<and> ptype s i = PAGE_TYPE_FREE}"

definition in_use :: "mm \<Rightarrow> nat set" where
  "in_use s = {i. i < NUM_OF_PAGES \<and> ptype s i = PAGE_TYPE_ALLOCATED}"

definition free_pages :: "mm \<Rightarrow> nat set" where
  "free_pages s = (\<Union>i\<in>free_heads s. block s i)"

lemma inv_list:
  "mm_inv s \<Longrightarrow> n < NUM_OF_ALLOCSIZE \<Longrightarrow> i \<in> set (freepage s n) \<longleftrightarrow>
     i < NUM_OF_PAGES \<and> ptype s i = PAGE_TYPE_FREE \<and> psize s i = n"
  "mm_inv s \<Longrightarrow> n < NUM_OF_ALLOCSIZE \<Longrightarrow> distinct (freepage s n)"
  by (auto simp: mm_inv_def lists_ok_def)

lemma inv_head:
  assumes "mm_inv s" "i < NUM_OF_PAGES" "ptype s i \<noteq> PAGE_TYPE_NOT_HEAD"
  shows "psize s i < NUM_OF_ALLOCSIZE" "2 ^ psize s i dvd i"
    "i < j \<Longrightarrow> j < i + 2 ^ psize s i \<Longrightarrow> ptype s j = PAGE_TYPE_NOT_HEAD"
  using assms by (auto simp: mm_inv_def heads_ok_def)

lemma inv_tail:
  assumes "mm_inv s" "i < NUM_OF_PAGES" "ptype s i = PAGE_TYPE_NOT_HEAD"
  shows "2 ^ psize s i dvd i" "\<not> 2 ^ Suc (psize s i) dvd i"
  using assms by (auto simp: mm_inv_def tails_ok_def)

lemma aligned_end:
  assumes "2 ^ k dvd i" "i < NUM_OF_PAGES" "k < NUM_OF_ALLOCSIZE"
  shows "i + 2 ^ k \<le> NUM_OF_PAGES"
proof -
  have "(2::nat) ^ 15 = 2 ^ k * 2 ^ (15 - k)"
    using assms(3) by (simp flip: power_add add: NUM_OF_ALLOCSIZE_def)
  then have N: "NUM_OF_PAGES = 2 ^ k * 2 ^ (15 - k)" by (simp add: NUM_OF_PAGES_def)
  obtain a where a: "i = 2 ^ k * a" using assms(1) by (elim dvdE)
  with assms(2) N have "2 ^ k * a < 2 ^ k * 2 ^ (15 - k)" by simp
  then have "Suc a \<le> 2 ^ (15 - k)" by (simp only: mult_less_cancel1 Suc_le_eq)
  then have "2 ^ k * Suc a \<le> 2 ^ k * 2 ^ (15 - k)" by (rule mult_le_mono2)
  then show ?thesis using a N by simp
qed

lemma block_range:
  assumes "mm_inv s" "i < NUM_OF_PAGES" "ptype s i \<noteq> PAGE_TYPE_NOT_HEAD"
  shows "i + 2 ^ psize s i \<le> NUM_OF_PAGES" "block s i \<subseteq> {..<NUM_OF_PAGES}"
  using aligned_end [OF inv_head(2) [OF assms] assms(2) inv_head(1) [OF assms]]
  by (auto simp: block_def)

lemma heads_apart:
  assumes "mm_inv s" "i < NUM_OF_PAGES" "ptype s i \<noteq> PAGE_TYPE_NOT_HEAD"
    "ptype s j \<noteq> PAGE_TYPE_NOT_HEAD" "i < j"
  shows "i + 2 ^ psize s i \<le> j"
  using inv_head(3) [OF assms(1-3,5)] assms(4) by (meson not_le)

lemma heads_disjoint:
  assumes "mm_inv s" "i < NUM_OF_PAGES" "j < NUM_OF_PAGES"
    "ptype s i \<noteq> PAGE_TYPE_NOT_HEAD" "ptype s j \<noteq> PAGE_TYPE_NOT_HEAD" "i \<noteq> j"
  shows "block s i \<inter> block s j = {}"
proof -
  consider "i < j" | "j < i" using assms(6) by linarith
  then show ?thesis
    using heads_apart [OF assms(1,2,4,5)] heads_apart [OF assms(1,3,5,4)]
    by cases (simp_all add: block_def)
qed

lemma block_free_disjoint:
  assumes "mm_inv s" "i < NUM_OF_PAGES" "ptype s i \<noteq> PAGE_TYPE_NOT_HEAD" "ptype s i \<noteq> PAGE_TYPE_FREE"
  shows "block s i \<inter> free_pages s = {}"
proof -
  have "block s i \<inter> block s j = {}" if "j \<in> free_heads s" for j
    using heads_disjoint [OF assms(1,2) _ assms(3), of j] assms(4) that by (auto simp: free_heads_def)
  then show ?thesis by (auto simp: free_pages_def)
qed

section \<open>The steps that keep it\<close>

lemmas mm_defs = LIST1_ADD_def LIST1_DEL_def set_type_def set_size_def

text \<open>A block leaves the list of its order and becomes allocated.\<close>

definition take_block :: "nat \<Rightarrow> nat \<Rightarrow> nat list \<Rightarrow> mm \<Rightarrow> mm" where
  "take_block n p ps s = set_type p PAGE_TYPE_ALLOCATED (s\<lparr>freepage := (freepage s)(n := ps)\<rparr>)"

lemma take_block_simps [simp]:
  "ptype (take_block n p ps s) = (ptype s)(p := PAGE_TYPE_ALLOCATED)"
  "psize (take_block n p ps s) = psize s"
  "freepage (take_block n p ps s) = (freepage s)(n := ps)"
  by (simp_all add: take_block_def mm_defs)

lemma lists_okI:
  assumes "\<And>n. n < NUM_OF_ALLOCSIZE \<Longrightarrow> distinct (freepage s n)"
    "\<And>n i. n < NUM_OF_ALLOCSIZE \<Longrightarrow> i \<in> set (freepage s n) \<longleftrightarrow>
       i < NUM_OF_PAGES \<and> ptype s i = PAGE_TYPE_FREE \<and> psize s i = n"
  shows "lists_ok s"
  using assms by (simp add: lists_ok_def set_eq_iff)

lemma tails_same:
  assumes "\<And>i. ptype s' i = PAGE_TYPE_NOT_HEAD \<longleftrightarrow> ptype s i = PAGE_TYPE_NOT_HEAD" "psize s' = psize s"
  shows "heads_ok s' = heads_ok s" "tails_ok s' = tails_ok s"
  using assms by (simp_all add: heads_ok_def tails_ok_def)

lemma take_block_inv:
  assumes "mm_inv s" "n < NUM_OF_ALLOCSIZE" "freepage s n = p # ps"
  shows "mm_inv (take_block n p ps s)" "p < NUM_OF_PAGES" "ptype s p = PAGE_TYPE_FREE" "psize s p = n"
proof -
  have d: "p \<notin> set ps" "distinct ps" using inv_list(2) [OF assms(1,2)] assms(3) by simp_all
  have i: "i = p \<or> i \<in> set ps \<longleftrightarrow> i < NUM_OF_PAGES \<and> ptype s i = PAGE_TYPE_FREE \<and> psize s i = n" for i
    using inv_list(1) [OF assms(1,2), of i] assms(3) by simp
  show p: "p < NUM_OF_PAGES" "ptype s p = PAGE_TYPE_FREE" "psize s p = n" using i [of p] by simp_all
  have "lists_ok (take_block n p ps s)"
  proof (rule lists_okI)
    fix m i assume m: "m < NUM_OF_ALLOCSIZE"
    show "distinct (freepage (take_block n p ps s) m)" using d inv_list(2) [OF assms(1) m] by simp
    show "i \<in> set (freepage (take_block n p ps s) m) \<longleftrightarrow> i < NUM_OF_PAGES \<and>
        ptype (take_block n p ps s) i = PAGE_TYPE_FREE \<and> psize (take_block n p ps s) i = m"
      using d(1) p i [of i] inv_list(1) [OF assms(1) m, of i] by (cases "i = p"; cases "m = n") auto
  qed
  moreover have "heads_ok (take_block n p ps s)" "tails_ok (take_block n p ps s)"
    using assms(1) p(2) tails_same [of "take_block n p ps s" s] by (auto simp: mm_inv_def)
  moreover have "reserved_ok (take_block n p ps s)"
    using assms(1) by (simp add: mm_inv_def reserved_ok_def)
  ultimately show "mm_inv (take_block n p ps s)" by (simp add: mm_inv_def)
qed

text \<open>A page that heads a block becomes free.\<close>

definition put_block :: "nat \<Rightarrow> mm \<Rightarrow> mm" where
  "put_block p s = LIST1_ADD (psize s p) p (set_type p PAGE_TYPE_FREE s)"

lemma put_block_simps [simp]:
  "ptype (put_block p s) = (ptype s)(p := PAGE_TYPE_FREE)"
  "psize (put_block p s) = psize s"
  "freepage (put_block p s) = (freepage s)(psize s p := freepage s (psize s p) @ [p])"
  by (simp_all add: put_block_def mm_defs)

lemma put_block_inv:
  assumes "mm_inv s" "p < NUM_OF_PAGES" "ptype s p \<noteq> PAGE_TYPE_NOT_HEAD" "ptype s p \<noteq> PAGE_TYPE_FREE"
  shows "mm_inv (put_block p s)"
proof -
  have "lists_ok (put_block p s)"
  proof (rule lists_okI)
    fix m i assume m: "m < NUM_OF_ALLOCSIZE"
    show "distinct (freepage (put_block p s) m)"
      using assms(4) inv_list [OF assms(1) m] by (cases "m = psize s p") auto
    show "i \<in> set (freepage (put_block p s) m) \<longleftrightarrow> i < NUM_OF_PAGES \<and>
        ptype (put_block p s) i = PAGE_TYPE_FREE \<and> psize (put_block p s) i = m"
      using assms inv_list(1) [OF assms(1) m, of i] by (cases "i = p"; cases "m = psize s p") auto
  qed
  moreover have "heads_ok (put_block p s)" "tails_ok (put_block p s)"
    using assms(1,3) tails_same [of "put_block p s" s] by (auto simp: mm_inv_def)
  moreover have "reserved_ok (put_block p s)"
    using assms(1) by (simp add: mm_inv_def reserved_ok_def)
  ultimately show ?thesis by (simp add: mm_inv_def)
qed

text \<open>The two halves of an allocated block become free.\<close>

lemma split_block_simps [simp]:
  "ptype (split_block n p q s) = (ptype s)(p := PAGE_TYPE_FREE, q := PAGE_TYPE_FREE)"
  "psize (split_block n p q s) = (psize s)(p := n)"
  by (simp_all add: split_block_def mm_defs)

lemma dvd_lower:
  fixes i :: nat assumes "2 ^ m dvd i" "n \<le> m" shows "2 ^ n dvd i"
  using assms by (meson dvd_trans le_imp_power_dvd)

lemma lowest_bit_unique:
  fixes i :: nat
  assumes "2 ^ a dvd i" "\<not> 2 ^ Suc a dvd i" "2 ^ b dvd i" "\<not> 2 ^ Suc b dvd i"
  shows "a = b"
  using assms dvd_lower by (metis Suc_leI linorder_neqE_nat)

lemma less_exp_Suc: "(2::nat) ^ n < 2 ^ Suc n" by simp

lemma upper_half_tail:
  assumes "mm_inv s" "p < NUM_OF_PAGES" "ptype s p \<noteq> PAGE_TYPE_NOT_HEAD" "psize s p = Suc n"
  shows "p + 2 ^ n < NUM_OF_PAGES" "ptype s (p + 2 ^ n) = PAGE_TYPE_NOT_HEAD" "psize s (p + 2 ^ n) = n"
    "buddy n p = p + 2 ^ n" "2 ^ n dvd p"
proof -
  have al: "2 ^ Suc n dvd p" using inv_head(2) [OF assms(1-3)] assms(4) by simp
  then show d: "2 ^ n dvd p" by (rule dvd_lower) simp
  show r: "p + 2 ^ n < NUM_OF_PAGES" using block_range(1) [OF assms(1-3)] less_exp_Suc [of n] unfolding assms(4) by linarith
  show t: "ptype s (p + 2 ^ n) = PAGE_TYPE_NOT_HEAD"
    using inv_head(3) [OF assms(1-3), of "p + 2 ^ n"] assms(4) by simp
  have "\<not> bit p n" using al d by (simp add: bit_aligned)
  then show "buddy n p = p + 2 ^ n" by (simp add: buddy_def)
  have "\<not> 2 ^ Suc n dvd p + 2 ^ n"
    using al by (metis dvd_add_right_iff nat_dvd_not_less lessI power_strict_increasing_iff one_less_numeral_iff
        semiring_norm(76) zero_less_numeral zero_less_power)
  moreover have "2 ^ n dvd p + 2 ^ n" using d by simp
  ultimately show "psize s (p + 2 ^ n) = n"
    using inv_tail [OF assms(1) r t] by (intro lowest_bit_unique [of _ "p + 2 ^ n"])
qed

lemma split_block_inv:
  assumes "mm_inv s" "p < NUM_OF_PAGES" "ptype s p = PAGE_TYPE_ALLOCATED" "psize s p = Suc n"
    "Suc n < NUM_OF_ALLOCSIZE"
  shows "mm_inv (split_block n p (p + 2 ^ n) s)"
proof -
  let ?q = "p + 2 ^ n" and ?s = "split_block n p (p + 2 ^ n) s"
  have nh: "ptype s p \<noteq> PAGE_TYPE_NOT_HEAD" using assms(3) by simp
  note h = upper_half_tail [OF assms(1,2) nh assms(4)]
  have "lists_ok ?s"
  proof (rule lists_okI)
    fix m i assume m: "m < NUM_OF_ALLOCSIZE"
    show "distinct (freepage ?s m)"
      using assms(3) h(2) inv_list [OF assms(1) m] by (cases "m = n") auto
    show "i \<in> set (freepage ?s m) \<longleftrightarrow> i < NUM_OF_PAGES \<and> ptype ?s i = PAGE_TYPE_FREE \<and> psize ?s i = m"
      using assms(2,3) h(1-3) inv_list(1) [OF assms(1) m, of i]
      by (cases "i = p"; cases "i = ?q"; cases "m = n") auto
  qed
  moreover have "heads_ok ?s"
    unfolding heads_ok_def
  proof (intro allI impI)
    fix i assume i: "i < NUM_OF_PAGES" "ptype ?s i \<noteq> PAGE_TYPE_NOT_HEAD"
    consider "i = p" | "i = ?q" | "i \<noteq> p" "i \<noteq> ?q" "ptype s i \<noteq> PAGE_TYPE_NOT_HEAD" using i(2) by fastforce
    then show "psize ?s i < NUM_OF_ALLOCSIZE \<and> 2 ^ psize ?s i dvd i \<and>
        (\<forall>j. i < j \<and> j < i + 2 ^ psize ?s i \<longrightarrow> ptype ?s j = PAGE_TYPE_NOT_HEAD)"
    proof cases
      case 1
      then show ?thesis using assms(5) h(5) inv_head(3) [OF assms(1,2) nh] assms(4) by auto
    next
      case 2
      then show ?thesis using assms(5) h(3,5) inv_head(3) [OF assms(1,2) nh] assms(4) by auto
    next
      case 3
      have "i + 2 ^ psize s i \<le> p" if "i < p"
        using heads_apart [OF assms(1) i(1) 3(3) nh that] .
      moreover have "i < p" if "i < ?q"
        using heads_apart [OF assms(1,2) nh 3(3)] that 3(1) assms(4) by fastforce
      ultimately show ?thesis using inv_head [OF assms(1) i(1) 3(3)] 3 by fastforce
    qed
  qed
  moreover have "tails_ok ?s"
    using assms(1) by (auto simp: mm_inv_def tails_ok_def)
  moreover have "reserved_ok ?s"
    using assms(1) by (simp add: mm_inv_def reserved_ok_def)
  ultimately show ?thesis by (simp add: mm_inv_def)
qed

text \<open>Two free buddies become one free block.\<close>

lemma merge_block_simps [simp]:
  "ptype (merge_block p q s) = (ptype s)(q := PAGE_TYPE_NOT_HEAD)"
  "freepage (merge_block p q s) = (let n = psize s p; f = (freepage s)(n := remove1 q (remove1 p (freepage s n)))
     in f(Suc n := f (Suc n) @ [p]))"
  by (simp_all add: merge_block_def mm_defs Let_def)

lemma merge_block_inv:
  assumes "mm_inv s" "p < NUM_OF_PAGES" "p + 2 ^ n < NUM_OF_PAGES"
    "ptype s p = PAGE_TYPE_FREE" "ptype s (p + 2 ^ n) = PAGE_TYPE_FREE"
    "psize s p = n" "psize s (p + 2 ^ n) = n" "Suc n < NUM_OF_ALLOCSIZE" "2 ^ Suc n dvd p"
  shows "mm_inv (merge_block p (p + 2 ^ n) s)"
proof -
  let ?q = "p + 2 ^ n" and ?s = "merge_block p (p + 2 ^ n) s"
  have nh: "ptype s p \<noteq> PAGE_TYPE_NOT_HEAD" "ptype s ?q \<noteq> PAGE_TYPE_NOT_HEAD" using assms(4,5) by simp_all
  have "lists_ok ?s"
  proof (rule lists_okI)
    fix m i assume m: "m < NUM_OF_ALLOCSIZE"
    show "distinct (freepage ?s m)"
      using assms(6) inv_list [OF assms(1) m] by (cases "m = Suc n"; cases "m = n") (auto simp: Let_def)
    show "i \<in> set (freepage ?s m) \<longleftrightarrow> i < NUM_OF_PAGES \<and> ptype ?s i = PAGE_TYPE_FREE \<and> psize ?s i = m"
      using assms(2-7) inv_list(1) [OF assms(1) m, of i] inv_list(2) [OF assms(1) m]
      by (cases "i = p"; cases "i = ?q"; cases "m = n"; cases "m = Suc n") (auto simp: Let_def)
  qed
  moreover have "heads_ok ?s"
    unfolding heads_ok_def
  proof (intro allI impI)
    fix i assume i: "i < NUM_OF_PAGES" "ptype ?s i \<noteq> PAGE_TYPE_NOT_HEAD"
    then have i2: "i \<noteq> ?q" "ptype s i \<noteq> PAGE_TYPE_NOT_HEAD" by (auto split: if_splits)
    show "psize ?s i < NUM_OF_ALLOCSIZE \<and> 2 ^ psize ?s i dvd i \<and>
        (\<forall>j. i < j \<and> j < i + 2 ^ psize ?s i \<longrightarrow> ptype ?s j = PAGE_TYPE_NOT_HEAD)"
    proof (cases "i = p")
      case True
      have "ptype s j = PAGE_TYPE_NOT_HEAD" if "p < j" "j < p + 2 ^ Suc n" "j \<noteq> ?q" for j
        using inv_head(3) [OF assms(1,2) nh(1), of j] inv_head(3) [OF assms(1,3) nh(2), of j] that assms(6,7)
        by (cases j ?q rule: linorder_cases) auto
      with True show ?thesis using assms(6,8,9) by auto
    next
      case False
      then show ?thesis using inv_head [OF assms(1) i(1) i2(2)] by auto
    qed
  qed
  moreover have "tails_ok ?s"
    unfolding tails_ok_def
  proof (intro allI impI)
    fix i assume i: "i < NUM_OF_PAGES" "ptype ?s i = PAGE_TYPE_NOT_HEAD"
    show "2 ^ psize ?s i dvd i \<and> \<not> 2 ^ Suc (psize ?s i) dvd i"
    proof (cases "i = ?q")
      case True
      have "\<not> 2 ^ Suc n dvd (2::nat) ^ n" by (simp add: nat_dvd_not_less)
      then have "\<not> 2 ^ Suc n dvd ?q" using assms(9) by (metis dvd_add_right_iff)
      moreover have "2 ^ n dvd ?q" using dvd_lower [OF assms(9), of n] by simp
      ultimately show ?thesis using True assms(7) by simp
    next
      case False
      then have "i \<noteq> p" using i nh by auto
      with False show ?thesis using inv_tail [OF assms(1) i(1)] i(2) by simp
    qed
  qed
  moreover have "reserved_ok ?s"
    using assms(1,4) by (simp add: mm_inv_def reserved_ok_def)
  ultimately show ?thesis by (simp add: mm_inv_def)
qed

section \<open>What a step does to the pages\<close>

text \<open>The blocks in use, as base and order, and the pages that were never handed to the allocator.\<close>

definition live :: "mm \<Rightarrow> (nat \<times> nat) set" where
  "live s = {(p, psize s p) |p. p \<in> in_use s}"

definition reserved :: "mm \<Rightarrow> nat set" where
  "reserved s = {i. i < NUM_OF_PAGES \<and> ptype s i = PAGE_TYPE_RESERVED}"

lemma live_iff: "(p, n) \<in> live s \<longleftrightarrow> p < NUM_OF_PAGES \<and> ptype s p = PAGE_TYPE_ALLOCATED \<and> psize s p = n"
  by (auto simp: live_def in_use_def)

lemma live_eqI: "(\<And>p n. (p, n) \<in> live s \<longleftrightarrow> (p, n) \<in> A) \<Longrightarrow> live s = A"
  by auto

lemma in_free_pages: "j \<in> free_pages s \<longleftrightarrow>
    (\<exists>i<NUM_OF_PAGES. ptype s i = PAGE_TYPE_FREE \<and> i \<le> j \<and> j < i + 2 ^ psize s i)"
  by (auto simp: free_pages_def free_heads_def block_def)

lemma take_block_pages:
  assumes "mm_inv s" "n < NUM_OF_ALLOCSIZE" "freepage s n = p # ps"
  shows "{p..<p + 2 ^ n} \<subseteq> free_pages s"
    "free_pages (take_block n p ps s) = free_pages s - {p..<p + 2 ^ n}"
    "live (take_block n p ps s) = insert (p, n) (live s)" "(p, n) \<notin> live s"
    "reserved (take_block n p ps s) = reserved s"
proof -
  note t = take_block_inv [OF assms]
  show "{p..<p + 2 ^ n} \<subseteq> free_pages s"
    using t(2-4) by (auto simp: in_free_pages)
  have "p \<in> in_use (take_block n p ps s)" using t(2) by (simp add: in_use_def)
  have sub: "free_pages (take_block n p ps s) \<inter> {p..<p + 2 ^ n} = {}"
    using block_free_disjoint [OF t(1,2)] t(4) by (auto simp: block_def)
  show "free_pages (take_block n p ps s) = free_pages s - {p..<p + 2 ^ n}"
  proof (intro set_eqI iffI)
    fix j assume j: "j \<in> free_pages (take_block n p ps s)"
    then have "j \<in> free_pages s" by (auto simp: in_free_pages split: if_splits)
    with j sub show "j \<in> free_pages s - {p..<p + 2 ^ n}" by blast
  next
    fix j assume "j \<in> free_pages s - {p..<p + 2 ^ n}"
    then obtain i where "i < NUM_OF_PAGES" "ptype s i = PAGE_TYPE_FREE" "i \<le> j" "j < i + 2 ^ psize s i" "i \<noteq> p"
      using t(4) by (auto simp: in_free_pages)
    then show "j \<in> free_pages (take_block n p ps s)" by (auto simp: in_free_pages)
  qed
  show "live (take_block n p ps s) = insert (p, n) (live s)"
    using t(2-4) by (auto simp: live_def in_use_def)
  show "(p, n) \<notin> live s" "reserved (take_block n p ps s) = reserved s"
    using t(3) by (auto simp: live_iff reserved_def)
qed

lemma put_block_pages:
  assumes "p < NUM_OF_PAGES" "ptype s p \<noteq> PAGE_TYPE_NOT_HEAD"
  shows "free_pages (put_block p s) = free_pages s \<union> block s p"
    "live (put_block p s) = live s - {(p, psize s p)}"
    "reserved (put_block p s) = reserved s - {p}"
  using assms by (auto simp: free_pages_def free_heads_def block_def live_def in_use_def reserved_def split: if_splits)

lemma halves: "{p..<p + 2 ^ Suc n} = {p..<p + 2 ^ n} \<union> {p + 2 ^ n..<p + 2 ^ n + 2 ^ n}" for p :: nat
  by auto

lemma split_block_pages:
  assumes "mm_inv s" "p < NUM_OF_PAGES" "ptype s p = PAGE_TYPE_ALLOCATED" "psize s p = Suc n"
  shows "free_pages (split_block n p (p + 2 ^ n) s) = free_pages s \<union> {p..<p + 2 ^ Suc n}"
    "live (split_block n p (p + 2 ^ n) s) = live s - {(p, Suc n)}"
    "reserved (split_block n p (p + 2 ^ n) s) = reserved s"
proof -
  have nh: "ptype s p \<noteq> PAGE_TYPE_NOT_HEAD" using assms(3) by simp
  note h = upper_half_tail [OF assms(1,2) nh assms(4)]
  let ?s = "split_block n p (p + 2 ^ n) s"
  have "free_heads ?s = insert p (insert (p + 2 ^ n) (free_heads s))"
    using assms(2) h(1) by (auto simp: free_heads_def)
  moreover have "block ?s p = {p..<p + 2 ^ n}" "block ?s (p + 2 ^ n) = {p + 2 ^ n..<p + 2 ^ n + 2 ^ n}"
    using h(3) by (simp_all add: block_def)
  moreover have "block ?s i = block s i" if "i \<in> free_heads s" for i
    using that assms(3) by (auto simp: block_def free_heads_def)
  ultimately show "free_pages ?s = free_pages s \<union> {p..<p + 2 ^ Suc n}"
    unfolding free_pages_def halves by (simp add: Un_ac)
  show "live ?s = live s - {(p, Suc n)}"
    using assms(3,4) h(2) by (intro live_eqI) (auto simp: live_iff split: if_splits)
  show "reserved ?s = reserved s"
    using assms(3) h(2) by (auto simp: reserved_def split: if_splits)
qed

lemma merge_block_pages:
  assumes "p < NUM_OF_PAGES" "p + 2 ^ n < NUM_OF_PAGES"
    "ptype s p = PAGE_TYPE_FREE" "ptype s (p + 2 ^ n) = PAGE_TYPE_FREE"
    "psize s p = n" "psize s (p + 2 ^ n) = n"
  shows "free_pages (merge_block p (p + 2 ^ n) s) = free_pages s"
    "live (merge_block p (p + 2 ^ n) s) = live s"
    "reserved (merge_block p (p + 2 ^ n) s) = reserved s"
proof -
  let ?s = "merge_block p (p + 2 ^ n) s" and ?q = "p + 2 ^ n"
  define H where "H = free_heads s - {p, ?q}"
  have "free_heads ?s = insert p H" "free_heads s = insert p (insert ?q H)"
    using assms by (auto simp: free_heads_def H_def)
  moreover have "block ?s p = block s p \<union> block s ?q"
    using assms(5,6) halves [of p n] by (simp add: block_def)
  moreover have "block ?s i = block s i" if "i \<in> H" for i
    using that by (auto simp: block_def H_def)
  ultimately show "free_pages ?s = free_pages s"
    unfolding free_pages_def by (simp add: Un_assoc)
  show "live ?s = live s"
    using assms(3,4) by (intro live_eqI) (auto simp: live_iff split: if_splits)
  show "reserved ?s = reserved s"
    using assms(4) by (auto simp: reserved_def split: if_splits)
qed

section \<open>Allocating and freeing\<close>

text \<open>What an allocation that returned block \<open>p\<close> of order \<open>n\<close> did to the pages.\<close>

definition allocated :: "nat \<Rightarrow> nat \<Rightarrow> mm \<Rightarrow> mm \<Rightarrow> bool" where
  "allocated n p s s' \<longleftrightarrow>
     2 ^ n dvd p \<and> {p..<p + 2 ^ n} \<subseteq> free_pages s \<and> free_pages s' = free_pages s - {p..<p + 2 ^ n} \<and>
     (p, n) \<notin> live s \<and> live s' = insert (p, n) (live s) \<and> reserved s' = reserved s"

definition has_block :: "nat \<Rightarrow> mm \<Rightarrow> bool" where
  "has_block n s \<longleftrightarrow> (\<exists>m. n \<le> m \<and> m < NUM_OF_ALLOCSIZE \<and> freepage s m \<noteq> [])"

lemma mm_page_alloc_spec:
  assumes "mm_inv s"
  shows "case mm_page_alloc n s of
      Inl e \<Rightarrow> e = AssertFail ''n < NUM_OF_ALLOCSIZE'' \<and> \<not> has_block n s
    | Inr (p, s') \<Rightarrow> mm_inv s' \<and> p < NUM_OF_PAGES \<and> n < NUM_OF_ALLOCSIZE \<and> has_block n s \<and> allocated n p s s'"
  using assms
proof (induction n s rule: mm_page_alloc.induct)
  case (1 n s)
  show ?case
  proof (cases "n < NUM_OF_ALLOCSIZE")
    case False
    then show ?thesis by (simp add: mm_page_alloc.simps [of n] has_block_def)
  next
    case n: True
    show ?thesis
    proof (cases "freepage s n")
      case (Cons p ps)
      note t = take_block_inv [OF 1(3) n Cons] and u = take_block_pages [OF 1(3) n Cons]
      have "mm_page_alloc n s = Inr (p, take_block n p ps s)"
        using n Cons t(3) by (simp add: mm_page_alloc.simps [of n] take_block_def)
      moreover have "has_block n s" using n Cons by (auto simp: has_block_def)
      moreover have "2 ^ n dvd p" using inv_head(2) [OF 1(3) t(2)] t(3,4) by simp
      ultimately show ?thesis using n t u by (simp add: allocated_def)
    next
      case Nil
      have hb: "has_block (n + 1) s = has_block n s"
        using Nil by (simp add: has_block_def) (metis Suc_leD Suc_leI le_neq_implies_less)
      have IH1: "case mm_page_alloc (n + 1) s of
          Inl e \<Rightarrow> e = AssertFail ''n < NUM_OF_ALLOCSIZE'' \<and> \<not> has_block (n + 1) s
        | Inr (p, s') \<Rightarrow> mm_inv s' \<and> p < NUM_OF_PAGES \<and> n + 1 < NUM_OF_ALLOCSIZE \<and> has_block (n + 1) s \<and>
            allocated (n + 1) p s s'"
        using 1(1) [OF _ Nil 1(3)] n by simp
      show ?thesis
      proof (cases "mm_page_alloc (n + 1) s")
        case (Inl e)
        then show ?thesis using IH1 n Nil hb by (simp add: mm_page_alloc.simps [of n])
      next
        case (Inr ps1)
        obtain p1 s1 where ps1: "ps1 = (p1, s1)" by (cases ps1)
        have a: "mm_inv s1" "p1 < NUM_OF_PAGES" "n + 1 < NUM_OF_ALLOCSIZE" "allocated (n + 1) p1 s s1"
          using IH1 Inr ps1 by simp_all
        then have p1: "ptype s1 p1 = PAGE_TYPE_ALLOCATED" "psize s1 p1 = Suc n"
          using live_iff [of p1 "n + 1" s1] by (simp_all add: allocated_def)
        have nh: "ptype s1 p1 \<noteq> PAGE_TYPE_NOT_HEAD" using p1(1) by simp
        have b: "virt_to_page (page_to_virt p1 XOR allocsize n) = Inr (p1 + 2 ^ n)"
          using virt_to_page_buddy [OF a(2), of n] upper_half_tail(4) [OF a(1,2) nh p1(2)] n
          by (simp add: NUM_OF_ALLOCSIZE_def)
        define s2 where "s2 = split_block n p1 (p1 + 2 ^ n) s1"
        have s2: "mm_inv s2" "free_pages s2 = free_pages s" "live s2 = live s" "reserved s2 = reserved s" "has_block n s2"
        proof -
          show "mm_inv s2" unfolding s2_def using split_block_inv [OF a(1,2) p1] a(3) by simp
          show "free_pages s2 = free_pages s" "live s2 = live s" "reserved s2 = reserved s"
            using split_block_pages [OF a(1,2) p1] a(4) by (auto simp: s2_def allocated_def)
          show "has_block n s2" using n by (auto simp: s2_def has_block_def)
        qed
        have step: "mm_page_alloc n s = mm_page_alloc n s2"
          using n Nil Inr ps1 b by (simp add: mm_page_alloc.simps [of n s] s2_def)
        have IH2: "case mm_page_alloc n s2 of
          Inl e \<Rightarrow> e = AssertFail ''n < NUM_OF_ALLOCSIZE'' \<and> \<not> has_block n s2
        | Inr (p, s') \<Rightarrow> mm_inv s' \<and> p < NUM_OF_PAGES \<and> n < NUM_OF_ALLOCSIZE \<and> has_block n s2 \<and> allocated n p s2 s'"
          using 1(2) [OF _ Nil Inr ps1 [symmetric] b] n s2(1) unfolding s2_def by simp
        moreover have "has_block n s" using IH1 Inr ps1 hb by simp
        ultimately show ?thesis
          using s2(2-5) unfolding step by (simp add: allocated_def split: sum.splits prod.splits)
      qed
    qed
  qed
qed

lemma free_loop_spec:
  assumes "mm_inv s" "p < NUM_OF_PAGES" "ptype s p = PAGE_TYPE_FREE"
  shows "\<exists>s'. free_loop p s = Inr s' \<and> mm_inv s' \<and> free_pages s' = free_pages s \<and> live s' = live s \<and>
           reserved s' = reserved s"
  using assms
proof (induction p s rule: free_loop.induct)
  case (1 p s)
  let ?n = "psize s p"
  have nh: "ptype s p \<noteq> PAGE_TYPE_NOT_HEAD" using 1(5) by simp
  have al: "2 ^ ?n dvd p" using inv_head(2) [OF 1(3,4) nh] .
  show ?case
  proof (cases "?n < NUM_OF_ALLOCSIZE - 1")
    case False
    then show ?thesis using 1(3) by (simp add: free_loop.simps [of p])
  next
    case n: True
    let ?q = "buddy ?n p"
    have n13: "?n < 13" "Suc ?n < NUM_OF_ALLOCSIZE" using n by (simp_all add: NUM_OF_ALLOCSIZE_def)
    have q: "virt_to_page (page_to_virt p XOR allocsize ?n) = Inr ?q" "?q < NUM_OF_PAGES"
      using virt_to_page_buddy [OF 1(4) n13(1)] buddy_in_range [OF 1(4) n13(1)] by simp_all
    have up: "any_bit (page_to_virt p) (allocsize ?n) \<longleftrightarrow> bit p ?n" by (rule upper_half [OF 1(4) n13(1)])
    show ?thesis
    proof (cases "ptype s ?q = PAGE_TYPE_FREE \<and> psize s ?q = ?n")
      case False
      then show ?thesis using 1(3) n q by (auto simp: free_loop.simps [of p])
    next
      case m: True
      show ?thesis
      proof (cases "bit p ?n")
        case True
        then have "2 ^ ?n \<le> p" by (metis bit_iff_odd div_less even_zero not_le)
        then have pq: "p = ?q + 2 ^ ?n" using True by (simp add: buddy_def)
        have "2 ^ Suc ?n dvd ?q"
        proof -
          have "\<not> bit ?q ?n" using True by (simp add: buddy_xor bit_simps)
          moreover have "2 ^ ?n dvd ?q" using al pq by (metis dvd_add_left_iff dvd_refl)
          ultimately show ?thesis by (simp add: bit_aligned)
        qed
        then have i: "mm_inv (merge_block ?q p s)"
          using merge_block_inv [OF 1(3) q(2), of ?n] m n13 1(4,5) pq by simp
        have g: "free_pages (merge_block ?q p s) = free_pages s" "live (merge_block ?q p s) = live s"
            "reserved (merge_block ?q p s) = reserved s"
          using merge_block_pages [OF q(2), of ?n s] m 1(4,5) pq by simp_all
        have "ptype (merge_block ?q p s) ?q = PAGE_TYPE_FREE" using m pq by (metis fun_upd_other
            add_cancel_right_right merge_block_simps(1) power_not_zero zero_neq_numeral)
        from 1(1) [OF _ q(1) m _ i q(2) this] obtain s' where
          "free_loop ?q (merge_block ?q p s) = Inr s'" "mm_inv s'" "free_pages s' = free_pages s"
          "live s' = live s" "reserved s' = reserved s"
          using n up True g by auto
        moreover have "free_loop p s = free_loop ?q (merge_block ?q p s)"
          using n q m up True by (simp add: free_loop.simps [of p])
        ultimately show ?thesis by simp
      next
        case False
        then have pq: "?q = p + 2 ^ ?n" by (simp add: buddy_def)
        have d: "2 ^ Suc ?n dvd p" using False al by (simp add: bit_aligned)
        have i: "mm_inv (merge_block p ?q s)"
          using merge_block_inv [OF 1(3,4), of ?n] m n13 q(2) 1(5) d pq by simp
        have g: "free_pages (merge_block p ?q s) = free_pages s" "live (merge_block p ?q s) = live s"
            "reserved (merge_block p ?q s) = reserved s"
          using merge_block_pages [OF 1(4), of ?n s] m q(2) 1(5) pq by simp_all
        have "ptype (merge_block p ?q s) p = PAGE_TYPE_FREE" using 1(5) pq by simp
        from 1(2) [OF _ q(1) m _ i 1(4) this] obtain s' where
          "free_loop p (merge_block p ?q s) = Inr s'" "mm_inv s'" "free_pages s' = free_pages s"
          "live s' = live s" "reserved s' = reserved s"
          using n up False g by auto
        moreover have "free_loop p s = free_loop p (merge_block p ?q s)"
          using n q m up False by (simp add: free_loop.simps [of p])
        ultimately show ?thesis by simp
      qed
    qed
  qed
qed

lemma mm_page_free_put: "mm_page_free p s = free_loop p (put_block p s)"
  by (simp add: mm_page_free_def put_block_def)

lemma mm_page_free_head:
  assumes "mm_inv s" "p < NUM_OF_PAGES" "ptype s p \<noteq> PAGE_TYPE_NOT_HEAD" "ptype s p \<noteq> PAGE_TYPE_FREE"
  shows "\<exists>s'. mm_page_free p s = Inr s' \<and> mm_inv s' \<and> free_pages s' = free_pages s \<union> block s p \<and>
           live s' = live s - {(p, psize s p)} \<and> reserved s' = reserved s - {p}"
proof -
  obtain s' where "free_loop p (put_block p s) = Inr s'" "mm_inv s'" "free_pages s' = free_pages (put_block p s)"
      "live s' = live (put_block p s)" "reserved s' = reserved (put_block p s)"
    using free_loop_spec [OF put_block_inv [OF assms] assms(2)] by auto
  then show ?thesis using put_block_pages [OF assms(2,3)] by (simp add: mm_page_free_put)
qed

lemma mm_page_free_live:
  assumes "mm_inv s" "(p, n) \<in> live s"
  shows "\<exists>s'. mm_page_free p s = Inr s' \<and> mm_inv s' \<and> free_pages s' = free_pages s \<union> {p..<p + 2 ^ n} \<and>
           live s' = live s - {(p, n)} \<and> reserved s' = reserved s"
proof -
  have p: "p < NUM_OF_PAGES" "ptype s p = PAGE_TYPE_ALLOCATED" "psize s p = n"
    using assms(2) by (simp_all add: live_iff)
  then have "reserved s - {p} = reserved s" by (auto simp: reserved_def)
  then show ?thesis using mm_page_free_head [OF assms(1) p(1)] p by (simp add: block_def)
qed

lemma mm_page_free_reserved:
  assumes "mm_inv s" "p \<in> reserved s"
  shows "\<exists>s'. mm_page_free p s = Inr s' \<and> mm_inv s' \<and> free_pages s' = insert p (free_pages s) \<and>
           live s' = live s \<and> reserved s' = reserved s - {p}"
proof -
  have p: "p < NUM_OF_PAGES" "ptype s p = PAGE_TYPE_RESERVED" using assms(2) by (simp_all add: reserved_def)
  then have "block s p = {p}" "live s - {(p, psize s p)} = live s"
    using assms(1) by (auto simp: mm_inv_def reserved_ok_def block_def live_iff)
  then show ?thesis using mm_page_free_head [OF assms(1) p(1)] p(2) by simp
qed

lemma free_each_reserved:
  assumes "mm_inv s" "set ps \<subseteq> reserved s" "distinct ps"
  shows "\<exists>s'. free_each ps s = Inr s' \<and> mm_inv s' \<and> free_pages s' = free_pages s \<union> set ps \<and>
           live s' = live s \<and> reserved s' = reserved s - set ps"
  using assms
proof (induction ps arbitrary: s)
  case (Cons p ps)
  obtain s1 where s1: "mm_page_free p s = Inr s1" "mm_inv s1" "free_pages s1 = insert p (free_pages s)"
      "live s1 = live s" "reserved s1 = reserved s - {p}"
    using mm_page_free_reserved [OF Cons.prems(1), of p] Cons.prems(2) by auto
  moreover have "set ps \<subseteq> reserved s1" using Cons.prems(2,3) s1(5) by auto
  ultimately show ?case using Cons.IH [of s1] Cons.prems(3) by auto
qed simp

lemma free_loop_panicmem: "free_loop p s = Inr s' \<Longrightarrow> panicmem_start_page s' = panicmem_start_page s"
proof (induction p s rule: free_loop.induct)
  case (1 p s)
  then show ?case
    by (subst (asm) (3) free_loop.simps) (auto simp: merge_block_def mm_defs Let_def split: if_splits sum.splits)
qed

lemma free_each_panicmem: "free_each ps s = Inr s' \<Longrightarrow> panicmem_start_page s' = panicmem_start_page s"
  by (induction ps arbitrary: s)
    (auto simp: bind_res_Inr_iff mm_page_free_put put_block_def mm_defs dest!: free_loop_panicmem)

lemma panicmem_irrelevant:
  "mm_inv (s\<lparr>panicmem_start_page := x\<rparr>) = mm_inv s"
  "free_pages (s\<lparr>panicmem_start_page := x\<rparr>) = free_pages s"
  "live (s\<lparr>panicmem_start_page := x\<rparr>) = live s" "reserved (s\<lparr>panicmem_start_page := x\<rparr>) = reserved s"
  by (simp_all add: mm_inv_def lists_ok_def heads_ok_def tails_ok_def reserved_ok_def
      free_pages_def free_heads_def block_def live_def in_use_def reserved_def)

lemma live_disjoint:
  assumes "mm_inv s" "(p, n) \<in> live s" "(q, m) \<in> live s" "(p, n) \<noteq> (q, m)"
  shows "{p..<p + 2 ^ n} \<inter> {q..<q + 2 ^ m} = {}"
  using heads_disjoint [OF assms(1), of p q] assms(2-4) by (auto simp: live_iff block_def)

lemma live_not_free:
  assumes "mm_inv s" "(p, n) \<in> live s" shows "{p..<p + 2 ^ n} \<inter> free_pages s = {}"
  using block_free_disjoint [OF assms(1), of p] assms(2) by (auto simp: live_iff block_def)

section \<open>The contract of the allocator\<close>

text \<open>Several allocations in a row, and several frees.\<close>

primrec alloc_each :: "(nat \<Rightarrow> 's \<Rightarrow> (nat \<times> 's) res) \<Rightarrow> nat list \<Rightarrow> 's \<Rightarrow> ((nat \<times> nat) list \<times> 's) res" where
  "alloc_each alloc [] s = Inr ([], s)"
| "alloc_each alloc (n # ns) s =
     bind_res (alloc n s) (\<lambda>(p, s). bind_res (alloc_each alloc ns s) (\<lambda>(bs, s). Inr ((p, n) # bs, s)))"

primrec release_each :: "(nat \<Rightarrow> 's \<Rightarrow> 's res) \<Rightarrow> (nat \<times> nat) list \<Rightarrow> 's \<Rightarrow> 's res" where
  "release_each release [] s = Inr s"
| "release_each release (b # bs) s = bind_res (release (fst b) s) (release_each release bs)"

definition pages_of :: "nat \<times> nat \<Rightarrow> nat set" where "pages_of b = {fst b..<fst b + 2 ^ snd b}"

locale page_allocator =
  fixes inv :: "'s \<Rightarrow> bool" and alloc :: "nat \<Rightarrow> 's \<Rightarrow> (nat \<times> 's) res" and release :: "nat \<Rightarrow> 's \<Rightarrow> 's res"
    and avail :: "'s \<Rightarrow> nat set" and blocks :: "'s \<Rightarrow> (nat \<times> nat) set"
  assumes alloc_ok: "inv s \<Longrightarrow> alloc n s = Inr (p, s') \<Longrightarrow>
      inv s' \<and> pages_of (p, n) \<subseteq> avail s \<and> avail s' = avail s - pages_of (p, n) \<and>
      (p, n) \<notin> blocks s \<and> blocks s' = insert (p, n) (blocks s)"
    and release_ok: "inv s \<Longrightarrow> b \<in> blocks s \<Longrightarrow>
      \<exists>s'. release (fst b) s = Inr s' \<and> inv s' \<and> avail s' = avail s \<union> pages_of b \<and> blocks s' = blocks s - {b}"
    and unavail: "inv s \<Longrightarrow> b \<in> blocks s \<Longrightarrow> pages_of b \<inter> avail s = {}"
begin

lemma release_each_ok:
  assumes "inv s" "set bs \<subseteq> blocks s" "distinct bs"
  shows "\<exists>s'. release_each release bs s = Inr s' \<and> inv s' \<and>
    avail s' = avail s \<union> (\<Union>b\<in>set bs. pages_of b) \<and> blocks s' = blocks s - set bs"
  using assms
proof (induction bs arbitrary: s)
  case (Cons b bs)
  obtain s1 where s1: "release (fst b) s = Inr s1" "inv s1" "avail s1 = avail s \<union> pages_of b" "blocks s1 = blocks s - {b}"
    using release_ok [OF Cons.prems(1), of b] Cons.prems(2) by auto
  moreover have "set bs \<subseteq> blocks s1" using Cons.prems(2,3) s1(4) by auto
  ultimately show ?case using Cons.IH [of s1] Cons.prems(3) by (auto simp: Un_assoc)
qed simp

lemma alloc_each_ok:
  assumes "inv s" "alloc_each alloc ns s = Inr (bs, s')"
  shows "inv s' \<and> distinct bs \<and> map snd bs = ns \<and> set bs \<inter> blocks s = {} \<and> blocks s' = blocks s \<union> set bs \<and>
    (\<Union>b\<in>set bs. pages_of b) \<subseteq> avail s \<and> avail s' = avail s - (\<Union>b\<in>set bs. pages_of b)"
  using assms
proof (induction ns arbitrary: s bs)
  case (Cons n ns)
  obtain p s1 bs1 where b: "alloc n s = Inr (p, s1)" "alloc_each alloc ns s1 = Inr (bs1, s')" "bs = (p, n) # bs1"
    using Cons.prems(2) by (auto simp: bind_res_Inr_iff)
  have a: "inv s1" "pages_of (p, n) \<subseteq> avail s" "avail s1 = avail s - pages_of (p, n)" "(p, n) \<notin> blocks s"
      "blocks s1 = insert (p, n) (blocks s)"
    using alloc_ok [OF Cons.prems(1) b(1)] by simp_all
  with Cons.IH [OF a(1) b(2)] b(3) show ?case by auto
qed simp

text \<open>Whatever the order in which they are given back, the pages are available again.\<close>

lemma alloc_release:
  assumes "inv s" "alloc_each alloc ns s = Inr (bs, s1)" "set cs = set bs" "distinct cs"
  shows "\<exists>s'. release_each release cs s1 = Inr s' \<and> inv s' \<and> avail s' = avail s \<and> blocks s' = blocks s"
proof -
  note a = alloc_each_ok [OF assms(1,2)]
  then obtain s' where "release_each release cs s1 = Inr s'" "inv s'"
      "avail s' = avail s1 \<union> (\<Union>b\<in>set cs. pages_of b)" "blocks s' = blocks s1 - set cs"
    using release_each_ok [of s1 cs] assms(3,4) by auto
  then show ?thesis using a assms(3) by (auto simp: Un_absorb2)
qed

end

interpretation buddy: page_allocator mm_inv mm_page_alloc mm_page_free free_pages live
proof
  fix s n p s' assume a: "mm_inv s" "mm_page_alloc n s = Inr (p, s')"
  show "mm_inv s' \<and> pages_of (p, n) \<subseteq> free_pages s \<and> free_pages s' = free_pages s - pages_of (p, n) \<and>
      (p, n) \<notin> live s \<and> live s' = insert (p, n) (live s)"
    using mm_page_alloc_spec [OF a(1), of n] a(2) by (simp add: allocated_def pages_of_def)
next
  fix s b assume "mm_inv s" "b \<in> live s"
  then show "\<exists>s'. mm_page_free (fst b) s = Inr s' \<and> mm_inv s' \<and> free_pages s' = free_pages s \<union> pages_of b \<and>
      live s' = live s - {b}"
    using mm_page_free_live [of s "fst b" "snd b"] by (auto simp: pages_of_def)
next
  fix s b assume "mm_inv s" "b \<in> live s"
  then show "pages_of b \<inter> free_pages s = {}"
    using live_not_free [of s "fst b" "snd b"] by (simp add: pages_of_def)
qed

section \<open>Counting the free pages\<close>

lemma allocsize_pages: "n < NUM_OF_ALLOCSIZE \<Longrightarrow> unat (drop_bit 12 (allocsize n)) = 2 ^ n"
proof -
  assume n: "n < NUM_OF_ALLOCSIZE"
  have "allocsize n = push_bit 12 (2 ^ n)" by (simp add: allocsize_def push_bit_eq_mult mult.commute)
  then have "drop_bit 12 (allocsize n) = (2 ^ n :: u64)"
    using n by (intro bit_word_eqI) (auto simp: bit_simps NUM_OF_ALLOCSIZE_def)
  moreover have "(2::nat) ^ n < 2 ^ 64"
    using n by (intro power_strict_increasing) (simp_all add: NUM_OF_ALLOCSIZE_def)
  ultimately show ?thesis using unat_less_of_nat [of "2 ^ n", where 'a = 64] by simp
qed

lemma foldl_sum: "foldl (\<lambda>r i. r + f i) a xs = a + sum_list (map f xs)" for a :: nat
  by (induction xs arbitrary: a) simp_all

lemma card_free_pages:
  assumes "mm_inv s" shows "card (free_pages s) = (\<Sum>i\<in>free_heads s. 2 ^ psize s i)"
proof -
  have "card (\<Union>i\<in>free_heads s. block s i) = (\<Sum>i\<in>free_heads s. card (block s i))"
    using heads_disjoint [OF assms] by (intro card_UN_disjoint) (auto simp: free_heads_def block_def)
  then show ?thesis by (simp add: free_pages_def block_def)
qed

lemma count_free_pages:
  assumes "mm_inv s" shows "num_of_available_pages s = card (free_pages s)"
proof -
  have "num_of_available_pages s = (\<Sum>n\<leftarrow>[0..<NUM_OF_ALLOCSIZE]. length (freepage s n) * unat (drop_bit 12 (allocsize n)))"
    by (simp add: num_of_available_pages_def foldl_sum)
  also have "\<dots> = (\<Sum>n<NUM_OF_ALLOCSIZE. length (freepage s n) * 2 ^ n)"
    by (simp add: sum_list_distinct_conv_sum_set allocsize_pages atLeast0LessThan)
  also have "\<dots> = (\<Sum>n<NUM_OF_ALLOCSIZE. \<Sum>i\<in>set (freepage s n). 2 ^ psize s i)"
    using inv_list [OF assms] by (intro sum.cong) (auto simp: distinct_card sum.cong)
  also have "\<dots> = (\<Sum>n<NUM_OF_ALLOCSIZE. \<Sum>i\<in>{i \<in> free_heads s. psize s i = n}. 2 ^ psize s i)"
    using inv_list(1) [OF assms] by (intro sum.cong refl) (auto simp: free_heads_def)
  also have "\<dots> = (\<Sum>i\<in>free_heads s. 2 ^ psize s i)"
    using inv_head(1) [OF assms] by (intro sum.group) (auto simp: free_heads_def)
  finally show ?thesis by (simp add: card_free_pages [OF assms])
qed

section \<open>Initialisation establishes the invariant\<close>

lemma mm_reserved_inv: "mm_inv (mm_reserved e)"
  by (simp add: mm_inv_def lists_ok_def heads_ok_def tails_ok_def reserved_ok_def mm_reserved_def NUM_OF_ALLOCSIZE_def)

lemma mm_init_pages_ok:
  "\<exists>s. mm_init_pages h e = Inr s \<and> mm_inv s \<and> live s = {} \<and>
    free_pages s = set (initial_pages h e (mm_reserved e)) \<and>
    reserved s = {..<NUM_OF_PAGES} - set (initial_pages h e (mm_reserved e))"
proof -
  let ?s = "mm_reserved e"
  have "free_pages ?s = {}" "live ?s = {}" "reserved ?s = {..<NUM_OF_PAGES}"
    by (auto simp: mm_reserved_def free_pages_def free_heads_def live_def in_use_def reserved_def)
  moreover have "set (initial_pages h e ?s) \<subseteq> {..<NUM_OF_PAGES}" "distinct (initial_pages h e ?s)"
    by (auto simp: initial_pages_def)
  ultimately show ?thesis
    using free_each_reserved [OF mm_reserved_inv [of e], of "initial_pages h e ?s"]
    by (auto simp: mm_init_pages_def Let_def)
qed

section \<open>Addresses\<close>

lemma sint_small: "unat w < 2147483648 \<Longrightarrow> sint w = int (unat w)" for w :: u32
proof -
  assume a: "unat w < 2147483648"
  moreover have "uint w = int (unat w)" by simp
  ultimately have "uint w < 2147483648" by linarith
  moreover have "- (2 ^ 31) \<le> uint w" by (rule order_trans [of _ 0]) simp_all
  ultimately have "signed_take_bit 31 (uint w) = uint w" by (intro signed_take_bit_int_eq_self) simp_all
  then show "sint w = int (unat w)" by (simp add: sint_uint)
qed

lemma alloc_order_some:
  assumes "alloc_order n = Some k" "unat n < 524288"
  shows "k < NUM_OF_ALLOCSIZE" "unat n \<le> 2 ^ k"
proof -
  have f: "k \<in> set [0..<NUM_OF_ALLOCSIZE]" "n * 4096 \<le>s push_bit k 4096"
    using assms(1) by (auto simp: alloc_order_def find_Some_iff)
  show k: "k < NUM_OF_ALLOCSIZE" using f(1) by simp
  have "unat (n * 4096) = unat n * 4096"
    using assms(2) by (subst unat_mult_lem [THEN iffD1]) simp_all
  moreover have "unat (push_bit k 4096 :: u32) = 4096 * 2 ^ k"
  proof -
    have "(2::nat) ^ k \<le> 2 ^ 12" using k by (intro power_increasing) (simp_all add: NUM_OF_ALLOCSIZE_def)
    then have "4096 * (2::nat) ^ k < 2 ^ 32" by simp
    moreover have "push_bit k 4096 = (of_nat (4096 * 2 ^ k) :: u32)"
      by (simp add: push_bit_eq_mult mult.commute)
    ultimately show ?thesis using unat_less_of_nat [of "4096 * 2 ^ k", where 'a = 32] by simp
  qed
  moreover have "(2::nat) ^ k \<le> 4096"
    using k power_increasing [of k 12 "2::nat"] by (simp add: NUM_OF_ALLOCSIZE_def)
  ultimately have "int (unat n * 4096) \<le> int (4096 * 2 ^ k)"
    using f(2) assms(2) sint_small [of "n * 4096"] sint_small [of "push_bit k 4096"] by (simp add: word_sle_eq)
  then show "unat n \<le> 2 ^ k" by linarith
qed

text \<open>The length in bytes is an \<open>int\<close>: a request for 4 GiB wraps to a single page.\<close>

lemma alloc_order_wraps: "alloc_order 0x100000 = Some 0"
  by (simp add: alloc_order_def NUM_OF_ALLOCSIZE_def upt_rec word_sle_eq)

lemma unat_page_to_virt: "p < NUM_OF_PAGES \<Longrightarrow> unat (page_to_virt p) = 1073741824 + 4096 * p"
proof -
  assume p: "p < NUM_OF_PAGES"
  have "page_to_virt p = of_nat (1073741824 + 4096 * p)"
    by (simp add: page_to_virt_def VMM_START_VIRT_def)
  then show ?thesis using p unat_less_of_nat [of "1073741824 + 4096 * p", where 'a = 64]
    by (simp add: NUM_OF_PAGES_def)
qed

lemma unat_page_to_phys:
  assumes "p < NUM_OF_PAGES" "unat v + 134217728 \<le> 4294967296"
  shows "unat (page_to_phys v p) = unat v + 4096 * p"
proof -
  have "v + 4096 * of_nat p = of_nat (unat v + 4096 * p)" by simp
  then have "unat (v + 4096 * of_nat p) = unat v + 4096 * p"
    using assms unat_less_of_nat [of "unat v + 4096 * p", where 'a = 32] by (simp add: NUM_OF_PAGES_def)
  then show ?thesis by (simp add: page_to_phys_def unat_ucast_64)
qed

lemma phys_to_virt_page:
  assumes "p < NUM_OF_PAGES" "unat v + 134217728 \<le> 4294967296"
  shows "phys_to_virt v (page_to_phys v p) = page_to_virt p"
proof -
  have "page_to_phys v p = of_nat (unat (page_to_phys v p))" by simp
  also have "\<dots> = ucast v + 4096 * of_nat p"
    unfolding unat_page_to_phys [OF assms] by (simp flip: unat_ucast_64)
  finally show ?thesis by (simp add: phys_to_virt_def page_to_virt_def)
qed

lemma free_page_live:
  assumes "p < NUM_OF_PAGES" "unat v + 134217728 \<le> 4294967296"
  shows "free_page (page_to_virt p) s = mm_page_free p s" "free_page_phys v (page_to_phys v p) s = mm_page_free p s"
  using assms by (simp_all add: free_page_def free_page_phys_def phys_to_page_def phys_to_virt_page virt_to_page_virt)

lemma alloc_pages_Inr:
  assumes "alloc_pages v n s = Inr ((virt, phys), s')"
  obtains p k where "alloc_order n = Some k" "mm_page_alloc k s = Inr (p, s')" "virt = page_to_virt p" "phys = page_to_phys v p"
  using assms by (auto simp: alloc_pages_def bind_res_Inr_iff split: option.splits)

section \<open>Properties\<close>

subsection \<open>A concrete pool\<close>

text \<open>One free block of two pages, and one reserved page.\<close>

definition small_pool :: mm where
  "small_pool = \<lparr>ptype = (\<lambda>i. if i = 2 then PAGE_TYPE_FREE else if i = 3 then PAGE_TYPE_NOT_HEAD else PAGE_TYPE_RESERVED),
     psize = (\<lambda>i. if i = 2 then 1 else 0), freepage = (\<lambda>n. if n = 1 then [2] else []), panicmem_start_page = 0\<rparr>"

lemma small_pool_inv: "mm_inv small_pool"
  by (auto simp: mm_inv_def lists_ok_def heads_ok_def tails_ok_def reserved_ok_def small_pool_def NUM_OF_ALLOCSIZE_def
      NUM_OF_PAGES_def)


definition pool_1 :: mm where
  "pool_1 = take_block 0 2 [3] (split_block 0 2 3 (take_block 1 2 [] small_pool))"

lemma small_pool_lists: "freepage small_pool 0 = []" "freepage small_pool 1 = [2]" "freepage small_pool (Suc 0) = [2]"
    "ptype small_pool 2 = PAGE_TYPE_FREE"
  by (simp_all add: small_pool_def)

lemma pool_1_alloc: "mm_page_alloc 0 small_pool = Inr (2, pool_1)"
proof -
  have b: "virt_to_page (page_to_virt 2 XOR allocsize 0) = Inr 3"
    using virt_to_page_buddy [of 2 0] by (simp add: NUM_OF_PAGES_def buddy_def)
  have "mm_page_alloc (0 + 1) small_pool = Inr (2, take_block 1 2 [] small_pool)"
    by (subst mm_page_alloc.simps) (simp add: small_pool_lists NUM_OF_ALLOCSIZE_def take_block_def)
  then have "mm_page_alloc 0 small_pool = mm_page_alloc 0 (split_block 0 2 3 (take_block 1 2 [] small_pool))"
    using b by (subst mm_page_alloc.simps) (simp add: small_pool_lists NUM_OF_ALLOCSIZE_def)
  also have "\<dots> = Inr (2, pool_1)"
    by (subst mm_page_alloc.simps)
      (simp add: small_pool_lists NUM_OF_ALLOCSIZE_def pool_1_def take_block_def set_type_def)
  finally show ?thesis .
qed

definition pool_2 :: mm where "pool_2 = take_block 0 3 [] pool_1"

lemma pool_2_alloc: "mm_page_alloc 0 pool_1 = Inr (3, pool_2)"
  by (subst mm_page_alloc.simps)
    (simp add: small_pool_lists NUM_OF_ALLOCSIZE_def pool_1_def pool_2_def take_block_def set_type_def)

text \<open>C3: a block that \<open>mm_page_alloc\<close> returns is aligned to its order, was free, and overlaps no block in use; the
  invariant holds afterwards, and the free pages and the blocks in use change by exactly that block.\<close>

theorem allocated_block_is_fresh:
  assumes "mm_inv s" "mm_page_alloc n s = Inr (p, s')"
  shows "mm_inv s' \<and> 2 ^ n dvd p \<and> p + 2 ^ n \<le> NUM_OF_PAGES \<and> pages_of (p, n) \<inter> (\<Union>b\<in>live s. pages_of b) = {} \<and>
    pages_of (p, n) \<subseteq> free_pages s \<and> free_pages s' = free_pages s - pages_of (p, n) \<and> live s' = insert (p, n) (live s)"
proof -
  have a: "mm_inv s'" "p < NUM_OF_PAGES" "n < NUM_OF_ALLOCSIZE" "allocated n p s s'"
    using mm_page_alloc_spec [OF assms(1), of n] assms(2) by simp_all
  have "pages_of (p, n) \<inter> (\<Union>b\<in>live s. pages_of b) = {}"
    using buddy.unavail [OF assms(1)] buddy.alloc_ok [OF assms] by blast
  then show ?thesis
    using a aligned_end [of n p] by (simp add: allocated_def pages_of_def)
qed

theorem allocated_block_is_fresh_witness:
  "mm_inv pool_1 \<and> free_pages pool_1 = free_pages small_pool - pages_of (2, 0) \<and> live pool_1 = insert (2, 0) (live small_pool)"
  using allocated_block_is_fresh [OF small_pool_inv pool_1_alloc] by simp

text \<open>C37: \<open>mm_page_alloc\<close> fails only for want of a free block of the order or above, by the assertion on the order
  of the innermost call; its assertion that a listed block is free never fails.\<close>

theorem allocation_fails_only_when_exhausted:
  assumes "mm_inv s"
  shows "mm_page_alloc n s = Inl e \<longleftrightarrow> e = AssertFail ''n < NUM_OF_ALLOCSIZE'' \<and> \<not> has_block n s"
  using mm_page_alloc_spec [OF assms, of n] by (auto split: sum.splits)

theorem allocation_fails_only_when_exhausted_witness:
  "mm_page_alloc 2 small_pool = Inl (AssertFail ''n < NUM_OF_ALLOCSIZE'')"
  unfolding allocation_fails_only_when_exhausted [OF small_pool_inv]
  by (auto simp: has_block_def small_pool_def)

text \<open>freeing a block in use never fails; the invariant holds afterwards, and exactly its pages are free again,
  however many merges follow.\<close>

theorem free_returns_the_block:
  assumes "mm_inv s" "(p, n) \<in> live s"
  shows "\<exists>s'. mm_page_free p s = Inr s' \<and> mm_inv s' \<and> free_pages s' = free_pages s \<union> pages_of (p, n) \<and>
    live s' = live s - {(p, n)} \<and> pages_of (p, n) \<inter> free_pages s = {}"
  using buddy.release_ok [OF assms] buddy.unavail [OF assms] by auto

theorem free_returns_the_block_witness:
  "\<exists>s'. mm_page_free 2 pool_1 = Inr s' \<and> mm_inv s' \<and> free_pages s' = free_pages pool_1 \<union> pages_of (2, 0)"
proof -
  have "mm_inv pool_1" "(2, 0) \<in> live pool_1"
    using buddy.alloc_ok [OF small_pool_inv pool_1_alloc] by simp_all
  from free_returns_the_block [OF this] show ?thesis by blast
qed

text \<open>C4: after any sequence of allocations, freeing the blocks in any order succeeds and gives back exactly the free
  pages there were before.\<close>

theorem free_in_any_order_restores_pages:
  assumes "mm_inv s" "alloc_each mm_page_alloc ns s = Inr (bs, s1)" "set cs = set bs" "distinct cs"
  shows "\<exists>s'. release_each mm_page_free cs s1 = Inr s' \<and> mm_inv s' \<and> free_pages s' = free_pages s \<and> live s' = live s"
  by (rule buddy.alloc_release [OF assms])

theorem free_in_any_order_restores_pages_witness:
  "\<exists>s'. release_each mm_page_free [(3, 0), (2, 0)] pool_2 = Inr s' \<and> mm_inv s' \<and> free_pages s' = free_pages small_pool \<and>
    live s' = live small_pool"
proof (rule free_in_any_order_restores_pages [OF small_pool_inv])
  show "alloc_each mm_page_alloc [0, 0] small_pool = Inr ([(2, 0), (3, 0)], pool_2)"
    by (simp add: pool_1_alloc pool_2_alloc)
qed auto

text \<open>\<open>num_of_available_pages\<close> counts the free pages.\<close>

theorem available_pages_is_the_number_of_free_pages:
  assumes "mm_inv s" shows "num_of_available_pages s = card (free_pages s)"
  by (rule count_free_pages [OF assms])

theorem available_pages_is_the_number_of_free_pages_witness:
  "num_of_available_pages small_pool = card (free_pages small_pool)"
  by (rule available_pages_is_the_number_of_free_pages [OF small_pool_inv])

text \<open>\<open>mm_init_global\<close> leaves a consistent allocator whose free pages are exactly the pages outside the VMM
  image and behind the panic memory; whatever the image's bounds, no assertion fails.\<close>

theorem initial_allocator_is_consistent:
  "\<exists>s. mm_init_pages head end = Inr s \<and> mm_inv s \<and> live s = {} \<and>
    free_pages s = set (initial_pages head end (mm_reserved end))"
  using mm_init_pages_ok [of head "end"] by blast

text \<open>the addresses \<open>alloc_pages\<close> returns stay inside the VMM region, virtual and physical, for the whole
  length that was asked for, and \<open>free_page\<close> and \<open>free_page_phys\<close> give the block back.\<close>

theorem alloc_pages_roundtrip:
  assumes "mm_inv s" "unat n < 524288" "unat v + 134217728 \<le> 4294967296" "alloc_pages v n s = Inr ((virt, phys), s')"
  shows "1073741824 \<le> unat virt \<and> unat virt + 4096 * unat n \<le> 1073741824 + 134217728 \<and>
    unat v \<le> unat phys \<and> unat phys + 4096 * unat n \<le> unat v + 134217728 \<and>
    unat virt mod 4096 = 0 \<and> phys_to_virt v phys = virt \<and> free_page_phys v phys s' = free_page virt s' \<and>
    (\<exists>s''. free_page virt s' = Inr s'' \<and> mm_inv s'' \<and> free_pages s'' = free_pages s \<and> live s'' = live s)"
proof -
  obtain p k where k: "alloc_order n = Some k" "mm_page_alloc k s = Inr (p, s')" and
    virt: "virt = page_to_virt p" and phys: "phys = page_to_phys v p" using alloc_pages_Inr [OF assms(4)] .
  have a: "mm_inv s'" "p < NUM_OF_PAGES" "allocated k p s s'"
    using mm_page_alloc_spec [OF assms(1), of k] k(2) by simp_all
  have le: "p + unat n \<le> NUM_OF_PAGES"
    using aligned_end [of k p] alloc_order_some [OF k(1) assms(2)] a by (simp add: allocated_def)
  have "live s' = insert (p, k) (live s)" "(p, k) \<notin> live s" "free_pages s' = free_pages s - {p..<p + 2 ^ k}"
      "{p..<p + 2 ^ k} \<subseteq> free_pages s"
    using a(3) by (simp_all add: allocated_def)
  moreover obtain s'' where "mm_page_free p s' = Inr s''" "mm_inv s''"
      "free_pages s'' = free_pages s' \<union> {p..<p + 2 ^ k}" "live s'' = live s' - {(p, k)}"
    using mm_page_free_live [OF a(1), of p k] calculation(1) by auto
  ultimately have "\<exists>s''. free_page virt s' = Inr s'' \<and> mm_inv s'' \<and> free_pages s'' = free_pages s \<and> live s'' = live s"
    using a(2) by (auto simp: virt free_page_live [OF _ assms(3)] Un_absorb2)
  then show ?thesis
    using le a(2) unat_page_to_virt [OF a(2)] unat_page_to_phys [OF a(2) assms(3)]
    by (simp add: virt phys phys_to_virt_page [OF _ assms(3)] free_page_live [OF _ assms(3)] NUM_OF_PAGES_def)
qed

theorem alloc_pages_roundtrip_witness:
  "\<exists>virt phys s' s''. alloc_pages 0x1000000 1 small_pool = Inr ((virt, phys), s') \<and> unat phys + 4096 \<le> 16777216 + 134217728 \<and>
    free_page virt s' = Inr s'' \<and> free_pages s'' = free_pages small_pool"
proof -
  have "alloc_order 1 = Some 0"
    by (simp add: alloc_order_def NUM_OF_ALLOCSIZE_def upt_rec word_sle_eq)
  then have a: "alloc_pages 0x1000000 1 small_pool = Inr ((page_to_virt 2, page_to_phys 0x1000000 2), pool_1)"
    by (simp add: alloc_pages_def pool_1_alloc)
  from alloc_pages_roundtrip [OF small_pool_inv _ _ a] a show ?thesis by auto
qed

text \<open>\<open>mm_free_panicmem\<close> hands the panic memory to the allocator once: exactly its pages become free, and
  a second call changes nothing.\<close>

theorem panicmem_is_freed_once:
  assumes "mm_inv s" "{panicmem_start_page s..<panicmem_start_page s + NUM_OF_PANICMEM_PAGES} \<subseteq> reserved s"
    "panicmem_start_page s \<noteq> 0"
  shows "\<exists>s'. mm_free_panicmem s = Inr s' \<and> mm_inv s' \<and> live s' = live s \<and> mm_get_panicmem s' = None \<and>
    free_pages s' = free_pages s \<union> {panicmem_start_page s..<panicmem_start_page s + NUM_OF_PANICMEM_PAGES} \<and>
    mm_free_panicmem s' = Inr s'"
proof -
  let ?p = "panicmem_start_page s" and ?s = "s\<lparr>panicmem_start_page := 0\<rparr>"
  have "mm_inv ?s" "free_pages ?s = free_pages s" "live ?s = live s" "reserved ?s = reserved s"
    using assms(1) by (simp_all add: panicmem_irrelevant)
  then obtain s' where s': "free_each [?p..<?p + NUM_OF_PANICMEM_PAGES] ?s = Inr s'" "mm_inv s'" "live s' = live s"
      "free_pages s' = free_pages s \<union> {?p..<?p + NUM_OF_PANICMEM_PAGES}"
    using free_each_reserved [of ?s "[?p..<?p + NUM_OF_PANICMEM_PAGES]"] assms(2) by auto
  have "panicmem_start_page s' = 0" using free_each_panicmem [OF s'(1)] by simp
  then show ?thesis using s' assms(3) by (simp add: mm_free_panicmem_def mm_get_panicmem_def Let_def)
qed

theorem panicmem_is_freed_once_witness:
  "\<exists>s'. mm_free_panicmem (mm_reserved 0x40064000) = Inr s' \<and> free_pages s' = free_pages (mm_reserved 0x40064000) \<union> {100..<356}"
proof -
  have p: "panicmem_start_page (mm_reserved 0x40064000) = 100"
    by (simp add: mm_reserved_def VMM_START_VIRT_def drop_bit_eq_div)
  have "{100..<356} \<subseteq> reserved (mm_reserved 0x40064000)"
    by (auto simp: reserved_def mm_reserved_def NUM_OF_PAGES_def)
  then show ?thesis
    using panicmem_is_freed_once [OF mm_reserved_inv, of "0x40064000"] p by (auto simp: NUM_OF_PANICMEM_PAGES_def)
qed

end
