(* ===== verification/Guest_Phys.thy ===== *)
theory Guest_Phys
  imports Prelude Cache Sysmem
begin

text \<open>
  Guest-physical and host-physical memory: the pass-through translation of
  \<^verbatim>\<open>bitvisor/core/gmm_pass.c\<close>, and the accessors and mappings of host memory of
  \<^verbatim>\<open>bitvisor/core/mm.c\<close>.  Memory is a function from host-physical addresses to bytes; every access
  is recorded, and the other processors may change memory before each one.
\<close>

section \<open>State\<close>

datatype event =
    Bus u64 nat u32 bool    \<comment> \<open>host address, bytes, cache attributes, write\<close>
  | Handler nat u64 nat bool    \<comment> \<open>handler, guest address, bytes, write\<close>

record world =
  mem :: "u64 \<Rightarrow> u8"
  pending :: "((u64 \<Rightarrow> u8) \<Rightarrow> u64 \<Rightarrow> u8) list"
  events :: "event list"
  vmm_start_phys :: u32
  phys_blank :: u64
  hphys_len :: u64
  caches :: cache_state

text \<open>What the other processors do to memory before the next access of this one.\<close>

definition other_cpus :: "'a world_scheme \<Rightarrow> 'a world_scheme" where
  "other_cpus w = (case pending w of [] \<Rightarrow> w | f # fs \<Rightarrow> w\<lparr>mem := f (mem w), pending := fs\<rparr>)"

definition note_event :: "event \<Rightarrow> 'a world_scheme \<Rightarrow> 'a world_scheme" where
  "note_event e w = w\<lparr>events := events w @ [e]\<rparr>"

section \<open>Bytes\<close>

definition le_bytes :: "nat \<Rightarrow> 'a::len word \<Rightarrow> u8 list" where
  "le_bytes n x = map (\<lambda>i. ucast (drop_bit (8 * i) x)) [0..<n]"

definition of_bytes :: "u8 list \<Rightarrow> 'a::len word" where
  "of_bytes bs = foldr (\<lambda>b x. ucast b OR push_bit 8 x) bs 0"

definition get_bytes :: "(u64 \<Rightarrow> u8) \<Rightarrow> u64 list \<Rightarrow> u8 list" where
  "get_bytes m as = map m as"

fun put_bytes :: "(u64 \<Rightarrow> u8) \<Rightarrow> u64 list \<Rightarrow> u8 list \<Rightarrow> u64 \<Rightarrow> u8" where
  "put_bytes m (a # as) (b # bs) = put_bytes (m(a := b)) as bs"
| "put_bytes m as bs = m"

definition span :: "u64 \<Rightarrow> nat \<Rightarrow> u64 list" where
  "span a n = map (\<lambda>i. a + of_nat i) [0..<n]"

section \<open>Host-physical memory\<close>

definition hphys_read :: "nat \<Rightarrow> u64 \<Rightarrow> u32 \<Rightarrow> 'a world_scheme \<Rightarrow> u8 list \<times> 'a world_scheme" where
  "hphys_read n phys attr w =
     (let w = note_event (Bus phys n attr False) (other_cpus w) in (get_bytes (mem w) (span phys n), w))"

definition hphys_write :: "u64 \<Rightarrow> u8 list \<Rightarrow> u32 \<Rightarrow> 'a world_scheme \<Rightarrow> 'a world_scheme" where
  "hphys_write phys bs attr w =
     (let w = note_event (Bus phys (length bs) attr True) (other_cpus w)
      in w\<lparr>mem := put_bytes (mem w) (span phys (length bs)) bs\<rparr>)"

definition read_hphys_b :: "u64 \<Rightarrow> u32 \<Rightarrow> 'a world_scheme \<Rightarrow> u8 list \<times> 'a world_scheme" where
  "read_hphys_b = hphys_read 1"
definition read_hphys_w :: "u64 \<Rightarrow> u32 \<Rightarrow> 'a world_scheme \<Rightarrow> u8 list \<times> 'a world_scheme" where
  "read_hphys_w = hphys_read 2"
definition read_hphys_l :: "u64 \<Rightarrow> u32 \<Rightarrow> 'a world_scheme \<Rightarrow> u8 list \<times> 'a world_scheme" where
  "read_hphys_l = hphys_read 4"
definition read_hphys_q :: "u64 \<Rightarrow> u32 \<Rightarrow> 'a world_scheme \<Rightarrow> u8 list \<times> 'a world_scheme" where
  "read_hphys_q = hphys_read 8"

definition write_hphys_b :: "u64 \<Rightarrow> u32 \<Rightarrow> u32 \<Rightarrow> 'a world_scheme \<Rightarrow> 'a world_scheme" where
  "write_hphys_b phys data = hphys_write phys (le_bytes 1 data)"
definition write_hphys_w :: "u64 \<Rightarrow> u32 \<Rightarrow> u32 \<Rightarrow> 'a world_scheme \<Rightarrow> 'a world_scheme" where
  "write_hphys_w phys data = hphys_write phys (le_bytes 2 data)"
definition write_hphys_l :: "u64 \<Rightarrow> u32 \<Rightarrow> u32 \<Rightarrow> 'a world_scheme \<Rightarrow> 'a world_scheme" where
  "write_hphys_l phys data = hphys_write phys (le_bytes 4 data)"
definition write_hphys_q :: "u64 \<Rightarrow> u64 \<Rightarrow> u32 \<Rightarrow> 'a world_scheme \<Rightarrow> 'a world_scheme" where
  "write_hphys_q phys data = hphys_write phys (le_bytes 8 data)"

text \<open>
  A locked compare and exchange: true, and the value found, when memory did not hold \<open>old\<close>.
\<close>

definition hphys_cmpxchg :: "u64 \<Rightarrow> u8 list \<Rightarrow> u8 list \<Rightarrow> u32 \<Rightarrow> 'a world_scheme \<Rightarrow> (bool \<times> u8 list) \<times> 'a world_scheme" where
  "hphys_cmpxchg phys old new attr w =
     (let w = note_event (Bus phys (length new) attr True) (other_cpus w);
          cur = get_bytes (mem w) (span phys (length new))
      in if cur = old then ((False, cur), w\<lparr>mem := put_bytes (mem w) (span phys (length new)) new\<rparr>)
         else ((True, cur), w))"

definition cmpxchg_hphys_l :: "u64 \<Rightarrow> u32 \<Rightarrow> u32 \<Rightarrow> u32 \<Rightarrow> 'a world_scheme \<Rightarrow> (bool \<times> u32) \<times> 'a world_scheme" where
  "cmpxchg_hphys_l phys old data attr w =
     (case hphys_cmpxchg phys (le_bytes 4 old) (le_bytes 4 data) attr w of ((r, cur), w) \<Rightarrow> ((r, of_bytes cur), w))"
definition cmpxchg_hphys_q :: "u64 \<Rightarrow> u64 \<Rightarrow> u64 \<Rightarrow> u32 \<Rightarrow> 'a world_scheme \<Rightarrow> (bool \<times> u64) \<times> 'a world_scheme" where
  "cmpxchg_hphys_q phys old data attr w =
     (case hphys_cmpxchg phys (le_bytes 8 old) (le_bytes 8 data) attr w of ((r, cur), w) \<Rightarrow> ((r, of_bytes cur), w))"

section \<open>The translation of guest-physical addresses\<close>

text \<open>The end of the region is computed in 32 bits.\<close>

definition phys_in_vmm :: "u32 \<Rightarrow> u64 \<Rightarrow> bool" where
  "phys_in_vmm start phys \<longleftrightarrow> ucast start \<le> phys \<and> phys < ucast (start + of_nat VMMSIZE_ALL)"

definition gmm_pass_gp2hp :: "'a world_scheme \<Rightarrow> u64 \<Rightarrow> u64 \<times> bool" where
  "gmm_pass_gp2hp w gp = (if phys_in_vmm (vmm_start_phys w) gp then (phys_blank w, True) else (gp, False))"

definition GMM_GP2HP_2M_FAIL :: u64 where "GMM_GP2HP_2M_FAIL = 0xFFFFFFFFFFFFFFFF"

definition gmm_pass_gp2hp_2m :: "'a world_scheme \<Rightarrow> u64 \<Rightarrow> u64" where
  "gmm_pass_gp2hp_2m w gp =
     (if any_bit gp 0x1FFFFF then GMM_GP2HP_2M_FAIL
      else if phys_in_vmm (vmm_start_phys w) gp then GMM_GP2HP_2M_FAIL else gp)"

section \<open>Mapping guest-physical memory\<close>

text \<open>
  \<open>mapped_hphys_addr\<close>: the part of host memory that is always mapped.  The result is the host
  address that the returned pointer accesses.
\<close>

definition mapped_hphys_addr :: "u64 \<Rightarrow> u32 \<Rightarrow> 'a world_scheme \<Rightarrow> u64 option" where
  "mapped_hphys_addr hphys len w =
     (if hphys \<ge> hphys_len w then None
      else if hphys + ucast len - 1 \<ge> hphys_len w then None else Some hphys)"

text \<open>The loop over the pages after the first; \<open>k\<close> of them are left.\<close>

fun contiguous :: "nat \<Rightarrow> u64 \<Rightarrow> u64 \<Rightarrow> bool \<Rightarrow> 'a world_scheme \<Rightarrow> bool" where
  "contiguous 0 p1 hphys1 wr w = True"
| "contiguous (Suc k) p1 hphys1 wr w =
     (let p1 = p1 + 4096; hphys1 = hphys1 + 4096; (h, fakerom) = gmm_pass_gp2hp w p1
      in if hphys1 \<noteq> h then False else if fakerom \<and> wr then False else contiguous k p1 hphys1 wr w)"

definition mapped_gphys_addr :: "u64 \<Rightarrow> u32 \<Rightarrow> bool \<Rightarrow> 'a world_scheme \<Rightarrow> u64 option" where
  "mapped_gphys_addr gphys len wr w =
     (let (hphys, fakerom) = gmm_pass_gp2hp w gphys in
      if fakerom \<and> wr then None
      else
        let p1 = gphys AND NOT 0xFFF; p2 = (gphys + ucast len - 1) AND NOT 0xFFF in
        if contiguous (unat (drop_bit 12 (p2 - p1))) p1 (hphys AND NOT 0xFFF) wr w
        then mapped_hphys_addr hphys len w else None)"

text \<open>\<open>mapmem_domap\<close> for guest memory: the page frames it enters into the VMM's page table.\<close>

fun mapmem_domap :: "u64 \<Rightarrow> nat \<Rightarrow> bool \<Rightarrow> 'a world_scheme \<Rightarrow> u64 list option" where
  "mapmem_domap p 0 wr w = Some []"
| "mapmem_domap p (Suc n) wr w =
     (let (pte, fakerom) = gmm_pass_gp2hp w p in
      if fakerom \<and> wr then None
      else map_option (\<lambda>fs. (pte AND NOT 0xFFF) # fs) (mapmem_domap (p + 4096) n wr w))"

text \<open>
  The host address of every byte of the mapping; no value when \<open>mapmem\<close> returns \<open>NULL\<close>.  The
  number of pages is an \<open>uint\<close>, so the mapping of a length near 4 GiB is shorter than asked for.
\<close>

definition mapmem_gphys :: "u64 \<Rightarrow> u32 \<Rightarrow> bool \<Rightarrow> 'a world_scheme \<Rightarrow> u64 list option" where
  "mapmem_gphys physaddr len wr w =
     (case mapped_gphys_addr physaddr len wr w of
        Some h \<Rightarrow> Some (span h (unat len))
      | None \<Rightarrow>
          let offset = ucast physaddr AND 0xFFF :: u32;
              n = unat (drop_bit 12 (offset + len + 0xFFF))
          in map_option
               (\<lambda>fs. map (\<lambda>k. fs ! (k div 4096) + of_nat (k mod 4096)) [unat offset..<min (unat offset + unat len) (4096 * n)])
               (mapmem_domap (physaddr AND NOT 0xFFF) n wr w))"

section \<open>Pages\<close>

definition page :: "u64 \<Rightarrow> u64" where "page a = a AND NOT 0xFFF"

lemma mask_12: "(0xFFF :: 'a::len word) = mask 12"
  by (simp add: mask_eq_exp_minus_1)

lemma unat_page: "unat (page a) = unat a div 4096 * 4096"
  by (simp add: page_def mask_12 unat_and_not_mask)

lemma unat_offset: "unat (a AND 0xFFF) = unat a mod 4096" for a :: "'a::len word"
  by (simp only: mask_12 take_bit_eq_mask [symmetric] unsigned_take_bit_eq) (simp add: take_bit_eq_mod)

lemma page_eqI: "unat a div 4096 = unat b div 4096 \<Longrightarrow> page a = page b"
  by (rule word_unat_eq_iff [THEN iffD2]) (simp add: unat_page)

lemma page_page [simp]: "page (page a) = page a"
  by (rule page_eqI) (simp add: unat_page)

lemma page_split: "a = page a + of_nat (unat a mod 4096)"
proof -
  have "of_nat (unat a) = (of_nat (unat a div 4096 * 4096) + of_nat (unat a mod 4096) :: u64)"
    by (metis div_mult_mod_eq of_nat_add)
  then show ?thesis unfolding unat_page [symmetric] by simp
qed

lemma unat_add_in_page:
  fixes a :: u64
  assumes "unat a mod 4096 + i < 4096"
  shows "unat (a + of_nat i) = unat a + i"
proof -
  obtain k r where k: "unat a = 4096 * k + r" "r = unat a mod 4096"
    using mult_div_mod_eq [of 4096 "unat a"] by metis
  have "unat a < 2 ^ LENGTH(64)" by (rule unsigned_less)
  then have "unat a < 18446744073709551616" by simp
  then have "k < 4503599627370496" using k(1) by linarith
  then have "unat a + i < 18446744073709551616" using assms k by linarith
  then have "unat (of_nat (unat a + i) :: u64) = unat a + i" by (intro unat_less_of_nat) simp
  then show ?thesis by simp
qed

text \<open>The page of an address \<open>i\<close> bytes on, also where addresses wrap.\<close>

lemma page_add_in_page:
  assumes "unat a mod 4096 + i < 4096"
  shows "page (a + of_nat i) = page a"
proof (rule page_eqI)
  show "unat (a + of_nat i) div 4096 = unat a div 4096"
  proof -
    obtain k r where k: "unat a = 4096 * k + r" "r = unat a mod 4096"
      by (metis div_mult_mod_eq mult.commute)
    then have "(4096 * k + (r + i)) div 4096 = k" "(4096 * k + r) div 4096 = k" using assms by simp_all
    then show ?thesis unfolding unat_add_in_page [OF assms] using k(1) by (simp add: add.assoc)
  qed
qed

lemma page_mod: "unat (page a) mod 4096 = 0"
  by (simp add: unat_page)

lemma page_push: "page (push_bit 12 y) = push_bit 12 y"
  unfolding page_def mask_12 and_not_mask by (rule bit_word_eqI) (auto simp: bit_simps)

lemma page_step: "page (page a + 4096 * x) = page a + 4096 * x"
proof -
  have "page a + 4096 * x = push_bit 12 (drop_bit 12 a + x)"
    by (simp add: page_def mask_12 and_not_mask push_bit_eq_mult algebra_simps)
  then show ?thesis by (simp only: page_push)
qed

lemma page_add:
  "page (a + of_nat i) = page a + 4096 * of_nat ((unat a mod 4096 + i) div 4096)"
proof -
  let ?o = "unat a mod 4096 + i"
  have "a + of_nat i = (page a + of_nat (unat a mod 4096)) + of_nat i"
    by (simp only: page_split [symmetric])
  also have "\<dots> = page a + of_nat ?o" by (simp only: of_nat_add add.assoc)
  also have "\<dots> = (page a + 4096 * of_nat (?o div 4096)) + of_nat (?o mod 4096)"
  proof -
    have "of_nat ?o = (of_nat (4096 * (?o div 4096)) + of_nat (?o mod 4096) :: u64)"
      by (simp only: of_nat_add [symmetric] mult_div_mod_eq)
    then show ?thesis by (simp only: of_nat_mult of_nat_numeral add.assoc)
  qed
  also have "page \<dots> = page a + 4096 * of_nat (?o div 4096)"
    using page_add_in_page [of "page a + 4096 * of_nat (?o div 4096)" "?o mod 4096"]
      page_step [of a "of_nat (?o div 4096)"] page_mod [of "page a + 4096 * of_nat (?o div 4096)"]
    by simp
  finally show ?thesis .
qed

section \<open>The memory of the VMM\<close>

text \<open>
  What the placement of the VMM guarantees: the region is page aligned and ends below 4 GiB, and
  the blank page is one of its pages.
\<close>

definition vmm_placed :: "'a world_scheme \<Rightarrow> bool" where
  "vmm_placed w \<longleftrightarrow> unat (vmm_start_phys w) mod 4096 = 0 \<and> unat (vmm_start_phys w) + VMMSIZE_ALL < 4294967296 \<and>
     page (phys_blank w) = phys_blank w"

definition in_vmm :: "'a world_scheme \<Rightarrow> u64 \<Rightarrow> bool" where
  "in_vmm w a \<longleftrightarrow> unat (vmm_start_phys w) \<le> unat a \<and> unat a < unat (vmm_start_phys w) + VMMSIZE_ALL"

lemma phys_in_vmm_iff:
  assumes "vmm_placed w" shows "phys_in_vmm (vmm_start_phys w) a \<longleftrightarrow> in_vmm w a"
proof -
  have "unat (vmm_start_phys w + of_nat VMMSIZE_ALL) = unat (vmm_start_phys w) + VMMSIZE_ALL"
    using assms by (subst unat_add_lem [THEN iffD1]) (simp_all add: vmm_placed_def VMMSIZE_ALL_def)
  then show ?thesis
    by (simp add: phys_in_vmm_def in_vmm_def word_le_nat_alt word_less_nat_alt unat_ucast_64)
qed

lemma in_vmm_page:
  assumes "vmm_placed w" shows "in_vmm w (page a) = in_vmm w a"
proof -
  obtain k where k: "unat (vmm_start_phys w) = 4096 * k"
    using assms unfolding vmm_placed_def by (metis dvd_def mod_0_imp_dvd)
  obtain q r where q: "unat a = 4096 * q + r" "r < 4096"
    by (metis div_mult_mod_eq mult.commute mod_less_divisor zero_less_numeral)
  then have "unat (page a) = 4096 * q" by (simp add: unat_page)
  moreover have "4096 * q < 4096 * k + 134217728 \<longleftrightarrow> q < k + 32768" by linarith
  moreover have "4096 * q + r < 4096 * k + 134217728 \<longleftrightarrow> q < k + 32768" using q(2) by linarith
  ultimately show ?thesis using q by (auto simp: in_vmm_def k VMMSIZE_ALL_def)
qed

text \<open>
  The host addresses an access may touch: those outside the VMM, and the blank page, which under
  the strict policy is only read.
\<close>

definition allowed :: "bool \<Rightarrow> bool \<Rightarrow> 'a world_scheme \<Rightarrow> u64 \<Rightarrow> bool" where
  "allowed strict wr w a \<longleftrightarrow> \<not> in_vmm w a \<or> (page a = phys_blank w \<and> \<not> (strict \<and> wr))"

lemma allowed_page: "vmm_placed w \<Longrightarrow> page a = page b \<Longrightarrow> allowed st wr w a \<Longrightarrow> allowed st wr w b"
  by (metis allowed_def in_vmm_page)

lemma gp2hp_allowed:
  assumes "vmm_placed w" "gmm_pass_gp2hp w a = (h, fakerom)" "st \<and> wr \<longrightarrow> \<not> fakerom"
  shows "allowed st wr w h" "page h = page (if fakerom then phys_blank w else a)"
  using assms by (auto simp: gmm_pass_gp2hp_def allowed_def phys_in_vmm_iff vmm_placed_def split: if_splits)

lemma contiguous_frames:
  assumes "contiguous k p h wr w" "1 \<le> j" "j \<le> k"
  shows "\<exists>fakerom. gmm_pass_gp2hp w (p + 4096 * of_nat j) = (h + 4096 * of_nat j, fakerom) \<and> \<not> (fakerom \<and> wr)"
  using assms
proof (induction k arbitrary: p h j)
  case (Suc k)
  obtain h1 fr where g: "gmm_pass_gp2hp w (p + 4096) = (h1, fr)" by (cases "gmm_pass_gp2hp w (p + 4096)")
  with Suc.prems(1) have c: "h + 4096 = h1" "\<not> (fr \<and> wr)" "contiguous k (p + 4096) (h + 4096) wr w"
    by (auto simp: Let_def split: if_splits)
  show ?case
  proof (cases "j = 1")
    case False
    then obtain i where j: "j = Suc i" "1 \<le> i" "i \<le> k" using Suc.prems(2,3) by (cases j) auto
    from Suc.IH [OF c(3) j(2,3)] show ?thesis by (simp add: j(1) algebra_simps)
  qed (use g c in auto)
qed simp

lemma pages_between:
  fixes n :: u32
  assumes "0 < unat n"
  shows "unat (drop_bit 12 (page (a + ucast n - 1) - page a)) = (unat a mod 4096 + (unat n - 1)) div 4096"
proof -
  let ?k = "(unat a mod 4096 + (unat n - 1)) div 4096"
  have "a + ucast n - 1 = a + of_nat (unat n - 1)"
    using assms by (simp add: of_nat_diff flip: unat_ucast_64)
  then have "page (a + ucast n - 1) - page a = push_bit 12 (of_nat ?k)"
    by (simp only: page_add) (simp add: push_bit_eq_mult mult.commute)
  moreover have k: "?k < 2 ^ 52"
  proof -
    have "unat a mod 4096 < 4096" by simp
    then have "unat a mod 4096 + (unat n - 1) < 4503599627370496 * 4096"
      using unat_bound_32 [of n] by linarith
    then show ?thesis by (simp add: less_mult_imp_div_less)
  qed
  moreover have "drop_bit 12 (push_bit 12 (of_nat ?k :: u64)) = of_nat ?k"
  proof (rule bit_word_eqI)
    fix i assume "i < LENGTH(64)"
    have "\<not> bit ?k i" if "52 \<le> i"
      using k less_le_trans [OF k power_increasing [OF that, of "2::nat"]] by (simp add: bit_iff_odd)
    then show "bit (drop_bit 12 (push_bit 12 (of_nat ?k :: u64))) i = bit (of_nat ?k :: u64) i"
      by (cases "52 \<le> i") (auto simp: bit_simps)
  qed
  ultimately show ?thesis by (simp add: unat_less_of_nat)
qed

lemma mapped_gphys_allowed:
  assumes "vmm_placed w" "mapped_gphys_addr a n wr w = Some h" "i < unat n"
  shows "allowed True wr w (h + of_nat i)"
proof -
  obtain hp fr where g: "gmm_pass_gp2hp w a = (hp, fr)" by (cases "gmm_pass_gp2hp w a")
  let ?k = "unat (drop_bit 12 (page (a + ucast n - 1) - page a))"
  have c: "\<not> (fr \<and> wr)" "contiguous ?k (page a) (page hp) wr w" "h = hp"
    using assms(2) g by (auto simp: mapped_gphys_addr_def page_def mapped_hphys_addr_def Let_def split: if_splits)
  let ?j = "(unat h mod 4096 + i) div 4096"
  have pg: "page (h + of_nat i) = page h + 4096 * of_nat ?j" by (rule page_add)
  have hm: "unat h mod 4096 \<le> unat a mod 4096"
  proof (cases fr)
    case True
    then have "h = phys_blank w" using g c(3) by (auto simp: gmm_pass_gp2hp_def split: if_splits)
    then show ?thesis using page_mod [of "phys_blank w"] assms(1) by (simp add: vmm_placed_def)
  next
    case False
    then show ?thesis using g c(3) by (auto simp: gmm_pass_gp2hp_def split: if_splits)
  qed
  have "unat h mod 4096 + i \<le> unat a mod 4096 + (unat n - 1)" using hm assms(3) by linarith
  then have jk: "?j \<le> ?k" using assms(3) by (subst pages_between) (auto intro: div_le_mono)
  show ?thesis
  proof (cases "?j = 0")
    case True
    have "allowed True wr w h" using gp2hp_allowed(1) [OF assms(1) g, of True wr] c(1,3) by auto
    moreover have "page h = page (h + of_nat i)"
      unfolding pg True by simp
    ultimately show ?thesis by (rule allowed_page [OF assms(1), rotated])
  next
    case False
    then obtain fr' where g': "gmm_pass_gp2hp w (page a + 4096 * of_nat ?j) = (page hp + 4096 * of_nat ?j, fr')"
        "\<not> (fr' \<and> wr)"
      using contiguous_frames [OF c(2), of ?j] jk by auto
    have "allowed True wr w (page h + 4096 * of_nat ?j)"
      using gp2hp_allowed(1) [OF assms(1) g'(1), of True wr] g'(2) c(3) by auto
    moreover have "page (page h + 4096 * of_nat ?j) = page (h + of_nat i)" unfolding pg by (rule page_step)
    ultimately show ?thesis by (rule allowed_page [OF assms(1), rotated])
  qed
qed

lemma mapmem_domap_frames:
  assumes "vmm_placed w" "mapmem_domap p n wr w = Some fs"
  shows "length fs = n \<and> (\<forall>f\<in>set fs. page f = f \<and> allowed True wr w f)"
  using assms(2)
proof (induction n arbitrary: p fs)
  case (Suc n)
  obtain h fr where g: "gmm_pass_gp2hp w p = (h, fr)" by (cases "gmm_pass_gp2hp w p")
  with Suc.prems obtain fs' where f: "\<not> (fr \<and> wr)" "mapmem_domap (p + 4096) n wr w = Some fs'" "fs = page h # fs'"
    by (auto simp: page_def split: if_splits)
  have "allowed True wr w (page h)"
    using allowed_page [OF assms(1), of h "page h"] gp2hp_allowed(1) [OF assms(1) g, of True wr] f(1) by auto
  with Suc.IH [OF f(2)] f(3) show ?case by simp
qed simp

lemma mapmem_allowed:
  assumes "vmm_placed w" "mapmem_gphys a n wr w = Some as" "x \<in> set as"
  shows "allowed True wr w x"
proof (cases "mapped_gphys_addr a n wr w")
  case None
  let ?m = "unat (drop_bit 12 ((ucast a AND 0xFFF :: u32) + n + 0xFFF))"
  obtain fs where fs: "mapmem_domap (a AND NOT 0xFFF) ?m wr w = Some fs"
    and as: "as = map (\<lambda>k. fs ! (k div 4096) + of_nat (k mod 4096))
      [unat (ucast a AND 0xFFF :: u32)..<min (unat (ucast a AND 0xFFF :: u32) + unat n) (4096 * ?m)]"
    using assms(2) None by (auto simp: mapmem_gphys_def Let_def)
  then obtain k where k: "x = fs ! (k div 4096) + of_nat (k mod 4096)" "k < 4096 * ?m"
    using assms(3) by auto
  note f = mapmem_domap_frames [OF assms(1) fs]
  have "k div 4096 < length fs" using k(2) f by (simp add: less_mult_imp_div_less mult.commute)
  then have m: "page (fs ! (k div 4096)) = fs ! (k div 4096)" "allowed True wr w (fs ! (k div 4096))"
    using f nth_mem by blast+
  then have "page x = page (fs ! (k div 4096))"
    using page_add_in_page [of "fs ! (k div 4096)" "k mod 4096"] page_mod [of "fs ! (k div 4096)"] k(1) by simp
  then show ?thesis using allowed_page [OF assms(1) _ m(2)] by simp
next
  case (Some h)
  then obtain i where "x = h + of_nat i" "i < unat n"
    using assms(2,3) by (auto simp: mapmem_gphys_def span_def)
  then show ?thesis using mapped_gphys_allowed [OF assms(1) Some] by simp
qed

section \<open>Steps that respect it\<close>

definition event_ok :: "bool \<Rightarrow> 'a world_scheme \<Rightarrow> event \<Rightarrow> bool" where
  "event_ok st w e = (case e of Bus a n attr wr \<Rightarrow> list_all (allowed st wr w) (span a n) | Handler k a n wr \<Rightarrow> True)"

text \<open>The other processors run the guest, and do not write the memory of the VMM either.\<close>

definition others_ok :: "'a world_scheme \<Rightarrow> bool" where
  "others_ok w \<longleftrightarrow> list_all (\<lambda>f. \<forall>m a. in_vmm w a \<longrightarrow> f m a = m a) (pending w)"

definition safe :: "bool \<Rightarrow> 'a world_scheme \<Rightarrow> 'a world_scheme \<Rightarrow> bool" where
  "safe st w w' \<longleftrightarrow>
     vmm_start_phys w' = vmm_start_phys w \<and> phys_blank w' = phys_blank w \<and> set (pending w') \<subseteq> set (pending w) \<and>
     (\<exists>es. events w' = events w @ es \<and> list_all (event_ok st w) es) \<and>
     (\<forall>a. \<not> allowed st True w a \<longrightarrow> mem w' a = mem w a)"

lemma config_same:
  assumes "vmm_start_phys w' = vmm_start_phys w" "phys_blank w' = phys_blank w"
  shows "in_vmm w' = in_vmm w" "allowed st wr w' = allowed st wr w" "event_ok st w' = event_ok st w"
    "vmm_placed w' = vmm_placed w"
proof -
  show i: "in_vmm w' = in_vmm w" using assms by (simp add: in_vmm_def fun_eq_iff)
  have a: "allowed st wr w' = allowed st wr w" for st wr using assms i by (simp add: allowed_def fun_eq_iff)
  show "allowed st wr w' = allowed st wr w" by (rule a)
  show "event_ok st w' = event_ok st w" unfolding event_ok_def a ..
  show "vmm_placed w' = vmm_placed w" using assms by (simp add: vmm_placed_def)
qed

lemma safe_refl [simp]: "safe st w w" by (simp add: safe_def)

lemma safe_config:
  assumes "safe st w w'" shows "vmm_placed w' = vmm_placed w" "allowed s wr w' = allowed s wr w"
    "in_vmm w' = in_vmm w" "others_ok w \<Longrightarrow> others_ok w'"
  using config_same [of w' w] assms by (auto simp: safe_def others_ok_def list_all_iff)

lemma safe_trans:
  assumes "safe st w w'" "safe st w' w''" shows "safe st w w''"
proof -
  have c: "allowed st True w' = allowed st True w" "event_ok st w' = event_ok st w"
    using assms(1) config_same [of w' w] by (auto simp: safe_def)
  then show ?thesis using assms unfolding safe_def by auto
qed

lemma allowed_weaken: "allowed True wr w a \<Longrightarrow> allowed st wr w a"
  by (auto simp: allowed_def)

lemma event_ok_weaken: "event_ok True w e \<Longrightarrow> event_ok st w e"
  by (auto simp: event_ok_def intro: allowed_weaken list.pred_mono_strong split: event.splits)

lemma safe_weaken:
  assumes "safe True w w'" shows "safe st w w'"
proof -
  obtain es where "events w' = events w @ es" "list_all (event_ok True w) es"
    using assms by (auto simp: safe_def)
  then have "\<exists>es. events w' = events w @ es \<and> list_all (event_ok st w) es"
    using event_ok_weaken by (blast intro: list.pred_mono_strong)
  then show ?thesis using assms allowed_weaken unfolding safe_def by blast
qed

lemma safe_other_cpus: "others_ok w \<Longrightarrow> safe st w (other_cpus w)"
  by (auto simp: safe_def other_cpus_def others_ok_def allowed_def split: list.splits)

lemma safe_note: "event_ok st w e \<Longrightarrow> safe st w (note_event e w)"
  by (simp add: safe_def note_event_def)

lemma put_bytes_outside: "a \<notin> set as \<Longrightarrow> put_bytes m as bs a = m a"
  by (induction m as bs rule: put_bytes.induct) auto

lemma safe_put:
  assumes "list_all (allowed st True w) as" shows "safe st w (w\<lparr>mem := put_bytes (mem w) as bs\<rparr>)"
  using assms by (auto simp: safe_def list_all_iff intro: put_bytes_outside)

lemma hphys_read_safe:
  assumes "others_ok w" "list_all (allowed st False w) (span phys n)" "hphys_read n phys attr w = (bs, w')"
  shows "safe st w w'" "length bs = n"
proof -
  note o = safe_other_cpus [OF assms(1), of st]
  have "event_ok st (other_cpus w) (Bus phys n attr False)"
    using assms(2) safe_config(2) [OF o] by (simp add: event_ok_def)
  then show "safe st w w'"
    using safe_trans [OF o safe_note] assms(3) by (auto simp: hphys_read_def Let_def)
  show "length bs = n" using assms(3) by (auto simp: hphys_read_def Let_def get_bytes_def span_def)
qed

lemma hphys_write_safe:
  assumes "others_ok w" "list_all (allowed st True w) (span phys (length bs))"
  shows "safe st w (hphys_write phys bs attr w)"
proof -
  note o = safe_other_cpus [OF assms(1), of st]
  have e: "event_ok st (other_cpus w) (Bus phys (length bs) attr True)"
    using assms(2) safe_config(2) [OF o] by (simp add: event_ok_def)
  let ?w = "note_event (Bus phys (length bs) attr True) (other_cpus w)"
  have s: "safe st w ?w" by (rule safe_trans [OF o safe_note [OF e]])
  then have "list_all (allowed st True ?w) (span phys (length bs))" using assms(2) safe_config(2) by metis
  from safe_trans [OF s safe_put [OF this]] show ?thesis by (simp add: hphys_write_def Let_def)
qed

lemma hphys_cmpxchg_safe:
  assumes "others_ok w" "list_all (allowed st True w) (span phys (length new))"
    "hphys_cmpxchg phys old new attr w = (r, w')"
  shows "safe st w w'"
proof -
  note o = safe_other_cpus [OF assms(1), of st]
  have e: "event_ok st (other_cpus w) (Bus phys (length new) attr True)"
    using assms(2) safe_config(2) [OF o] by (simp add: event_ok_def)
  let ?w = "note_event (Bus phys (length new) attr True) (other_cpus w)"
  have s: "safe st w ?w" by (rule safe_trans [OF o safe_note [OF e]])
  then have "list_all (allowed st True ?w) (span phys (length new))" using assms(2) safe_config(2) by metis
  from safe_trans [OF s safe_put [OF this]] s assms(3) show ?thesis
    by (auto simp: hphys_cmpxchg_def Let_def split: if_splits)
qed

lemma safe_same:
  assumes "vmm_start_phys w' = vmm_start_phys w" "phys_blank w' = phys_blank w" "pending w' = pending w"
    "events w' = events w" "mem w' = mem w"
  shows "safe st w w'"
  using assms by (simp add: safe_def)

definition ready :: "'a world_scheme \<Rightarrow> bool" where
  "ready w \<longleftrightarrow> vmm_placed w \<and> others_ok w"

lemma safe_ready: "safe st w w' \<Longrightarrow> ready w \<Longrightarrow> ready w'"
  using safe_config by (auto simp: ready_def)

lemma safe_fold:
  assumes "\<And>x w. safe st w (g x w)" shows "safe st w (fold g xs w)"
  by (induction xs arbitrary: w) (auto intro: safe_trans assms)

lemma le_bytes_length [simp]: "length (le_bytes n x) = n"
  by (simp add: le_bytes_def)

end
