(* ===== verification/Mmio.thy ===== *)
theory Mmio
  imports Prelude Guest_Phys
begin

text \<open>
  The dispatcher of \<^verbatim>\<open>bitvisor/core/mmio.c\<close>: device models register ranges of guest-physical
  addresses, and an access to guest memory is cut into the parts that belong to a handler and the
  parts that go to memory.  The handlers themselves are a parameter \<open>H\<close> of the operations.
\<close>

section \<open>State\<close>

record mmio_handle =
  gphys :: u64
  len :: u32
  handler :: nat
  unregistered :: bool
  unlocked_handler :: bool

text \<open>A handle is an index into \<open>hinfo\<close>; indices from \<open>next_handle\<close> on are not allocated yet.\<close>

record 'd mmio_data = world +
  hinfo :: "nat \<Rightarrow> mmio_handle"
  next_handle :: nat
  handles :: "nat list"
  mmio :: "nat \<Rightarrow> nat list"
  unregister_flag :: bool
  lock_count :: nat
  readers :: nat    \<comment> \<open>holders of the shared lock, this processor included\<close>
  dev :: 'd

text \<open>What a handler does to the devices, the buffer and its return value.\<close>

type_synonym 'd mmio_handler = "nat \<Rightarrow> u64 \<Rightarrow> bool \<Rightarrow> u8 list \<Rightarrow> u32 \<Rightarrow> 'd \<Rightarrow> (bool \<times> u8 list) \<times> 'd"

section \<open>Ranges\<close>

text \<open>\<open>need\<close> is \<open>gphys2 != NULL\<close>; the addresses are relative to the handle's, modulo \<open>2 ^ 64\<close>.\<close>

definition rangecheck :: "mmio_handle \<Rightarrow> u64 \<Rightarrow> u32 \<Rightarrow> bool \<Rightarrow> (u64 \<times> u32) option res" where
  "rangecheck h gphys0 len0 need =
     (if unregistered h then Inr None
      else
        let a = gphys0 - gphys h;
            b = gphys0 + ucast len0 - 1 - gphys h;
            c = 0;
            d = gphys h + ucast (len h) - 1 - gphys h
        in if d < a \<and> a \<le> b then Inr None
           else
             let a = (if d < a then c else a);
                 b = (if d < b then d else b)
             in if \<not> need then Inr (Some (0, 0))
                else bind_res (assert_res (a \<le> b) ''f'') (\<lambda>_. Inr (Some (a + gphys h, ucast (b - a + 1)))))"

definition range_hit :: "mmio_handle \<Rightarrow> u64 \<Rightarrow> u32 \<Rightarrow> bool" where
  "range_hit h gphys0 len0 = (case rangecheck h gphys0 len0 False of Inr (Some _) \<Rightarrow> True | _ \<Rightarrow> False)"

definition slot :: "u64 \<Rightarrow> nat" where
  "slot a = (if a \<le> 0xFFFFFFFF then unat (drop_bit 28 a) else 16)"

section \<open>Access\<close>

definition mmio_gphys_access :: "u64 \<Rightarrow> bool \<Rightarrow> u8 list \<Rightarrow> u32 \<Rightarrow> u32 \<Rightarrow> 'a world_scheme \<Rightarrow> (u8 list \<times> 'a world_scheme) res" where
  "mmio_gphys_access gphysaddr wr buf n flags w =
     (if n = 0 then Inr (buf, w)
      else case mapmem_gphys gphysaddr n wr w of
        None \<Rightarrow> Inl (AssertFail ''p'')
      | Some as \<Rightarrow>
          if length as < unat n \<or> length buf < unat n then Inl OutOfBounds
          else
            let w = other_cpus w; w = w\<lparr>events := events w @ map (\<lambda>a. Bus a 1 flags wr) as\<rparr>
            in if wr then Inr (buf, w\<lparr>mem := put_bytes (mem w) as buf\<rparr>)
               else Inr (get_bytes (mem w) as @ drop (unat n) buf, w))"

record 'd acc =
  gphysaddr :: u64
  off :: nat    \<comment> \<open>\<open>q - buf\<close>\<close>
  left :: u32    \<comment> \<open>\<open>len\<close>\<close>
  buf :: "u8 list"
  hit :: bool    \<comment> \<open>\<open>r\<close>\<close>
  unlocked :: "(nat \<times> u64 \<times> nat \<times> u32) option"
  wld :: "'d mmio_data"

definition part :: "nat \<Rightarrow> nat \<Rightarrow> 'b list \<Rightarrow> 'b list" where "part i n xs = take n (drop i xs)"

definition patch :: "nat \<Rightarrow> 'b list \<Rightarrow> 'b list \<Rightarrow> 'b list" where
  "patch i ys xs = take i xs @ ys @ drop (i + length ys) xs"

text \<open>Direct access to the next \<open>n\<close> bytes, without advancing.\<close>

definition access_direct :: "bool \<Rightarrow> u32 \<Rightarrow> u64 \<Rightarrow> nat \<Rightarrow> u32 \<Rightarrow> 'd acc \<Rightarrow> 'd acc res" where
  "access_direct wr f a i n s =
     bind_res (mmio_gphys_access a wr (part i (unat n) (buf s)) n f (wld s)) (\<lambda>(bs, w).
     Inr (s\<lparr>buf := patch i bs (buf s), wld := w\<rparr>))"

text \<open>A call of a handler; if it declines, the bytes are accessed directly.\<close>

definition access_handler :: "'d mmio_handler \<Rightarrow> bool \<Rightarrow> u32 \<Rightarrow> nat \<Rightarrow> u64 \<Rightarrow> nat \<Rightarrow> u32 \<Rightarrow> 'd acc \<Rightarrow> 'd acc res" where
  "access_handler H wr f k a i n s =
     (let old = part i (unat n) (buf s);
          ((ok, bs), d) = H k a wr old f (dev (wld s));
          bs = take (length old) (bs @ drop (length bs) old);
          s = s\<lparr>buf := patch i bs (buf s), wld := note_event (Handler k a (unat n) wr) ((wld s)\<lparr>dev := d\<rparr>)\<rparr>
      in if ok then Inr s else access_direct wr f a i n s)"

definition advance :: "u32 \<Rightarrow> 'd acc \<Rightarrow> 'd acc" where
  "advance n s = s\<lparr>gphysaddr := gphysaddr s + ucast n, off := off s + unat n, left := left s - n\<rparr>"

text \<open>One handle that meets the access, from \<open>gphys2\<close> on for \<open>len2\<close> bytes.\<close>

definition access_handle :: "'d mmio_handler \<Rightarrow> bool \<Rightarrow> u32 \<Rightarrow> mmio_handle \<Rightarrow> u64 \<Rightarrow> u32 \<Rightarrow> 'd acc \<Rightarrow> 'd acc res" where
  "access_handle H wr f h gphys2 len2 s =
     (let tmp = ucast (gphys2 - gphysaddr s) :: u32; s = s\<lparr>hit := True\<rparr> in
      bind_res (access_direct wr f (gphysaddr s) (off s) tmp s) (\<lambda>s.
      let s = advance tmp s in
      bind_res
        (if unlocked_handler h then
           (if unlocked s \<noteq> None then Inl (Panic ''mmio_access_memory: two unlocked handlers in one access'')
            else Inr (s\<lparr>unlocked := Some (handler h, gphysaddr s, off s, len2)\<rparr>))
         else access_handler H wr f (handler h) (gphysaddr s) (off s) len2 s)
        (\<lambda>s. Inr (advance len2 s))))"

text \<open>The loop over one list; the result tells whether it left by \<open>goto out\<close>.\<close>

fun access_list :: "'d mmio_handler \<Rightarrow> bool \<Rightarrow> u32 \<Rightarrow> nat list \<Rightarrow> 'd acc \<Rightarrow> (bool \<times> 'd acc) res" where
  "access_list H wr f [] s = Inr (False, s)"
| "access_list H wr f (p # ps) s =
     (let h = hinfo (wld s) p in
      if gphys h \<ge> gphysaddr s + ucast (left s) then Inr (True, s)
      else bind_res (rangecheck h (gphysaddr s) (left s) True) (\<lambda>rc.
        case rc of
          None \<Rightarrow> access_list H wr f ps s
        | Some (gphys2, len2) \<Rightarrow>
            bind_res (access_handle H wr f h gphys2 len2 s) (\<lambda>s.
            if left s = 0 then Inr (True, s) else access_list H wr f ps s)))"

fun access_slots :: "'d mmio_handler \<Rightarrow> bool \<Rightarrow> u32 \<Rightarrow> nat list \<Rightarrow> 'd acc \<Rightarrow> 'd acc res" where
  "access_slots H wr f [] s = Inr s"
| "access_slots H wr f (i # is) s =
     bind_res (access_list H wr f (mmio (wld s) i) s) (\<lambda>(out, s). if out then Inr s else access_slots H wr f is s)"

definition mmio_access_memory ::
  "'d mmio_handler \<Rightarrow> u64 \<Rightarrow> bool \<Rightarrow> u8 list \<Rightarrow> u32 \<Rightarrow> u32 \<Rightarrow> 'd mmio_data \<Rightarrow> (bool \<times> u8 list \<times> 'd mmio_data) res" where
  "mmio_access_memory H a wr bs n f w =
     (let i = slot a; j = slot (a + ucast n - 1);
          s = \<lparr>gphysaddr = a, off = 0, left = n, buf = bs, hit = False, unlocked = None, wld = w\<rparr>
      in bind_res (if n = 0 then Inr s else access_slots H wr f [i..<j + 1] s) (\<lambda>s.
         bind_res (if hit s then access_direct wr f (gphysaddr s) (off s) (left s) s else Inr s) (\<lambda>s.
         bind_res
           (case unlocked s of
              None \<Rightarrow> Inr s
            | Some (k, a2, i2, n2) \<Rightarrow> access_handler H wr f k a2 i2 n2 s)
           (\<lambda>s. Inr (hit s, buf s, wld s)))))"

text \<open>\<open>emulate\<close> is the result of \<open>cpu_interpreter\<close> and the world it leaves.\<close>

fun page_list :: "u64 \<Rightarrow> ('d mmio_data \<Rightarrow> bool \<times> 'd mmio_data) option \<Rightarrow> nat list \<Rightarrow> 'd mmio_data \<Rightarrow> (bool \<times> 'd mmio_data) res" where
  "page_list a emulate [] w = Inr (False, w)"
| "page_list a emulate (p # ps) w =
     (let h = hinfo w p in
      if gphys h \<ge> a + 4096 then Inr (False, w)
      else if range_hit h a 4096 then
        (case emulate of
           None \<Rightarrow> Inr (True, w)
         | Some e \<Rightarrow> (case e w of (ok, w) \<Rightarrow> if ok then Inr (True, w) else Inl (Panic ''Fatal error: MMIO access error'')))
      else page_list a emulate ps w)"

definition mmio_access_page :: "u64 \<Rightarrow> ('d mmio_data \<Rightarrow> bool \<times> 'd mmio_data) option \<Rightarrow> 'd mmio_data \<Rightarrow> (bool \<times> 'd mmio_data) res" where
  "mmio_access_page a emulate w = (let a = a AND NOT 0xFFF in page_list a emulate (mmio w (slot a)) w)"

text \<open>The end of the next range, or 0; in a list the boolean tells that the function returned.\<close>

fun range_list :: "u64 \<Rightarrow> u32 \<Rightarrow> (nat \<Rightarrow> mmio_handle) \<Rightarrow> nat list \<Rightarrow> u64 option" where
  "range_list a n info [] = None"
| "range_list a n info (p # ps) =
     (let h = info p in
      if gphys h \<ge> a + ucast n then Some 0
      else if range_hit h a n then Some (gphys h + ucast (len h)) else range_list a n info ps)"

fun range_slots :: "u64 \<Rightarrow> u32 \<Rightarrow> 'd mmio_data \<Rightarrow> nat list \<Rightarrow> u64" where
  "range_slots a n w [] = 0"
| "range_slots a n w (i # is) =
     (case range_list a n (hinfo w) (mmio w i) of Some r \<Rightarrow> r | None \<Rightarrow> range_slots a n w is)"

definition mmio_range :: "u64 \<Rightarrow> u32 \<Rightarrow> 'd mmio_data \<Rightarrow> u64" where
  "mmio_range a n w = (if n = 0 then 0 else range_slots a n w [slot a..<slot (a + ucast n - 1) + 1])"

section \<open>Registration\<close>

text \<open>\<open>LIST1_INSERT\<close> before the first handle with a higher address.\<close>

fun insert_sorted :: "(nat \<Rightarrow> u64) \<Rightarrow> nat \<Rightarrow> nat list \<Rightarrow> nat list" where
  "insert_sorted key p [] = [p]"
| "insert_sorted key p (d # ds) = (if key d > key p then p # d # ds else d # insert_sorted key p ds)"

definition add :: "nat \<Rightarrow> nat \<Rightarrow> 'd mmio_data \<Rightarrow> 'd mmio_data" where
  "add i p w = w\<lparr>mmio := (mmio w)(i := insert_sorted (\<lambda>q. gphys (hinfo w q)) p (mmio w i))\<rparr>"

definition del :: "nat \<Rightarrow> nat \<Rightarrow> 'd mmio_data \<Rightarrow> 'd mmio_data" where
  "del i p w = w\<lparr>mmio := (mmio w)(i := remove1 p (mmio w i))\<rparr>"

definition scan :: "u64 \<Rightarrow> u32 \<Rightarrow> (nat \<Rightarrow> 'd mmio_data \<Rightarrow> 'd mmio_data) \<Rightarrow> 'd mmio_data \<Rightarrow> 'd mmio_data" where
  "scan a n func w =
     (let end = (a + ucast n - 1) OR 0x0FFFFFFF; a = a AND NOT 0x0FFFFFFF
      in fold func [slot a..<slot end + 1] w)"

text \<open>\<open>flush\<close> is \<open>flush_tlb_entry\<close>: true when a processor cannot flush the range.\<close>

definition mmio_register_internal ::
  "(u64 \<Rightarrow> u64 \<Rightarrow> bool) \<Rightarrow> u64 \<Rightarrow> u32 \<Rightarrow> nat \<Rightarrow> bool \<Rightarrow> 'd mmio_data \<Rightarrow> nat option \<times> 'd mmio_data" where
  "mmio_register_internal flush a n k unl w =
     (if list_ex (\<lambda>p. range_hit (hinfo w p) a n) (handles w) then (None, w)
      else if flush a (a + ucast n - 1) then (None, w)
      else
        let p = next_handle w;
            w = w\<lparr>next_handle := p + 1,
                  hinfo := (hinfo w)(p := \<lparr>gphys = a, len = n, handler = k, unregistered = False, unlocked_handler = unl\<rparr>),
                  handles := handles w @ [p]\<rparr>
        in (Some p, scan a n (\<lambda>i. add i p) w))"

definition mmio_register :: "(u64 \<Rightarrow> u64 \<Rightarrow> bool) \<Rightarrow> u64 \<Rightarrow> u32 \<Rightarrow> nat \<Rightarrow> 'd mmio_data \<Rightarrow> nat option \<times> 'd mmio_data" where
  "mmio_register flush a n k w = mmio_register_internal flush a n k False w"

definition mmio_register_unlocked :: "(u64 \<Rightarrow> u64 \<Rightarrow> bool) \<Rightarrow> u64 \<Rightarrow> u32 \<Rightarrow> nat \<Rightarrow> 'd mmio_data \<Rightarrow> nat option \<times> 'd mmio_data" where
  "mmio_register_unlocked flush a n k w = mmio_register_internal flush a n k True w"

definition remove_handle :: "nat \<Rightarrow> 'd mmio_data \<Rightarrow> 'd mmio_data" where
  "remove_handle p w =
     (let h = hinfo w p; w = w\<lparr>handles := remove1 p (handles w)\<rparr> in scan (gphys h) (len h) (\<lambda>i. del i p) w)"

text \<open>The exclusive lock is only free when nobody holds the shared one.\<close>

definition mmio_unregister :: "nat \<Rightarrow> 'd mmio_data \<Rightarrow> 'd mmio_data" where
  "mmio_unregister p w =
     (if readers w > 0 then
        w\<lparr>hinfo := (hinfo w)(p := (hinfo w p)\<lparr>unregistered := True\<rparr>), unregister_flag := True\<rparr>
      else remove_handle p w)"

definition mmio_lock :: "'d mmio_data \<Rightarrow> 'd mmio_data" where
  "mmio_lock w = w\<lparr>lock_count := lock_count w + 1, readers := readers w + (if lock_count w = 0 then 1 else 0)\<rparr>"

definition mmio_unlock :: "'d mmio_data \<Rightarrow> 'd mmio_data" where
  "mmio_unlock w =
     (let w = w\<lparr>lock_count := lock_count w - 1, readers := readers w - (if lock_count w = 1 then 1 else 0)\<rparr>
      in if unregister_flag w \<and> readers w = 0 then
           fold (\<lambda>p w. if unregistered (hinfo w p) then remove_handle p w else w) (handles w)
             (w\<lparr>unregister_flag := False\<rparr>)
         else w)"

definition mmio_init :: "'d mmio_data \<Rightarrow> 'd mmio_data" where
  "mmio_init w = w\<lparr>handles := [], mmio := \<lambda>_. [], unregister_flag := False, lock_count := 0, readers := 0\<rparr>"

section \<open>No access touches the memory of the VMM\<close>

lemma mmio_gphys_access_safe:
  assumes "ready w" "mmio_gphys_access a wr bs n f w = Inr (bs', w')"
  shows "safe True w w'"
proof (cases "n = 0")
  case False
  obtain as where as: "mapmem_gphys a n wr w = Some as"
    and r: "let w0 = other_cpus w; w1 = w0\<lparr>events := events w0 @ map (\<lambda>a. Bus a 1 f wr) as\<rparr>
        in w' = (if wr then w1\<lparr>mem := put_bytes (mem w1) as bs\<rparr> else w1)"
    using assms(2) False by (auto simp: mmio_gphys_access_def Let_def split: option.splits if_splits)
  have o: "safe True w (other_cpus w)" using assms(1) by (simp add: ready_def safe_other_cpus)
  let ?w = "(other_cpus w)\<lparr>events := events (other_cpus w) @ map (\<lambda>a. Bus a 1 f wr) as\<rparr>"
  have al: "allowed True wr w x" if "x \<in> set as" for x
    using mapmem_allowed [OF _ as that] assms(1) by (simp add: ready_def)
  have "list_all (event_ok True (other_cpus w)) (map (\<lambda>a. Bus a 1 f wr) as)"
    using al safe_config(2) [OF o] by (auto simp: list_all_iff event_ok_def span_def)
  then have s: "safe True w ?w" by (intro safe_trans [OF o]) (simp add: safe_def)
  show ?thesis
  proof (cases wr)
    case True
    then have "list_all (allowed True True ?w) as" using al safe_config(2) [OF s] by (simp add: list_all_iff)
    from safe_trans [OF s safe_put [OF this]] True r show ?thesis by (simp add: Let_def)
  qed (use s r in \<open>simp add: Let_def\<close>)
qed (use assms in \<open>simp add: mmio_gphys_access_def\<close>)

lemma access_direct_safe:
  assumes "ready (wld s)" "access_direct wr f a i n s = Inr s'" shows "safe True (wld s) (wld s')"
  using assms mmio_gphys_access_safe by (auto simp: access_direct_def bind_res_Inr_iff)

lemma access_handler_safe:
  assumes "ready (wld s)" "access_handler H wr f k a i n s = Inr s'" shows "safe True (wld s) (wld s')"
proof -
  obtain ok bs d where h: "H k a wr (part i (unat n) (buf s)) f (dev (wld s)) = ((ok, bs), d)" by (metis surj_pair)
  let ?w = "note_event (Handler k a (unat n) wr) ((wld s)\<lparr>dev := d\<rparr>)"
  have w: "safe True (wld s) ?w"
    by (rule safe_trans [OF safe_same safe_note]) (simp_all add: event_ok_def)
  obtain s1 where s1: "wld s1 = ?w" and r: "(if ok then Inr s1 else access_direct wr f a i n s1) = Inr s'"
  proof (rule that [rotated])
    let ?o = "part i (unat n) (buf s)"
    show "(if ok then Inr (s\<lparr>buf := patch i (take (length ?o) (bs @ drop (length bs) ?o)) (buf s), wld := ?w\<rparr>)
        else access_direct wr f a i n (s\<lparr>buf := patch i (take (length ?o) (bs @ drop (length bs) ?o)) (buf s), wld := ?w\<rparr>))
      = Inr s'"
      using assms(2) h by (simp add: access_handler_def Let_def split: if_splits)
  qed simp
  then show ?thesis
    using w access_direct_safe [of s1 wr f a i n s'] safe_ready [OF w assms(1)]
    by (auto split: if_splits intro: safe_trans)
qed

lemma advance_wld [simp]: "wld (advance n s) = wld s"
  by (simp add: advance_def)

lemma access_handle_safe:
  assumes "ready (wld s)" "access_handle H wr f h g n s = Inr s'" shows "safe True (wld s) (wld s')"
proof -
  let ?s = "s\<lparr>hit := True\<rparr>" and ?t = "ucast (g - gphysaddr s) :: u32"
  obtain s1 where s1: "access_direct wr f (gphysaddr s) (off s) ?t ?s = Inr s1"
    using assms(2) by (auto simp: access_handle_def Let_def bind_res_Inr_iff)
  have d: "safe True (wld s) (wld s1)" using access_direct_safe [OF _ s1] assms(1) by simp
  note r = safe_ready [OF d assms(1)]
  obtain s2 where s2: "s' = advance n s2" and
    "unlocked_handler h \<longrightarrow> wld s2 = wld s1"
    "\<not> unlocked_handler h \<longrightarrow> access_handler H wr f (handler h) (gphysaddr (advance ?t s1)) (off (advance ?t s1)) n
       (advance ?t s1) = Inr s2"
    using assms(2) s1 by (auto simp: access_handle_def Let_def bind_res_Inr_iff split: if_splits)
  then have "safe True (wld s1) (wld s2)"
    using access_handler_safe [of "advance ?t s1"] r by (cases "unlocked_handler h") auto
  with d show ?thesis by (auto simp: s2 intro: safe_trans)
qed

lemma access_list_safe:
  assumes "ready (wld s)" "access_list H wr f ps s = Inr (out, s')" shows "safe True (wld s) (wld s')"
  using assms
proof (induction ps arbitrary: s)
  case (Cons p ps)
  let ?h = "hinfo (wld s) p"
  show ?case
  proof (cases "gphys ?h \<ge> gphysaddr s + ucast (left s)")
    case False
    then obtain rc where rc: "rangecheck ?h (gphysaddr s) (left s) True = Inr rc"
      using Cons.prems(2) by (auto simp: Let_def bind_res_Inr_iff)
    show ?thesis
    proof (cases rc)
      case None
      then show ?thesis using Cons False rc by simp
    next
      case (Some gn)
      then obtain g n s1 where gn: "gn = (g, n)" and s1: "access_handle H wr f ?h g n s = Inr s1" 
        and rest: "s' = s1 \<or> access_list H wr f ps s1 = Inr (out, s')"
        using Cons.prems(2) False rc by (cases gn) (auto simp: Let_def bind_res_Inr_iff split: if_splits)
      have d: "safe True (wld s) (wld s1)" by (rule access_handle_safe [OF Cons.prems(1) s1])
      from rest show ?thesis
        using d Cons.IH [OF safe_ready [OF d Cons.prems(1)]] by (auto intro: safe_trans)
    qed
  qed (use Cons.prems in simp)
qed simp

lemma access_slots_safe:
  assumes "ready (wld s)" "access_slots H wr f is s = Inr s'" shows "safe True (wld s) (wld s')"
  using assms
proof (induction "is" arbitrary: s)
  case (Cons i "is")
  then obtain out s1 where s1: "access_list H wr f (mmio (wld s) i) s = Inr (out, s1)"
    and rest: "s' = s1 \<or> access_slots H wr f is s1 = Inr s'"
    by (auto simp: bind_res_Inr_iff split: if_splits)
  have d: "safe True (wld s) (wld s1)" by (rule access_list_safe [OF Cons.prems(1) s1])
  from rest show ?case using d Cons.IH [OF safe_ready [OF d Cons.prems(1)]] by (auto intro: safe_trans)
qed simp

lemma mmio_access_memory_safe:
  assumes "ready w" "mmio_access_memory H a wr bs n f w = Inr (r, bs', w')"
  shows "safe True w w'"
proof -
  let ?s = "\<lparr>gphysaddr = a, off = 0, left = n, buf = bs, hit = False, unlocked = None, wld = w\<rparr>"
  obtain s1 s2 s3 where
    s1: "(if n = 0 then Inr ?s else access_slots H wr f [slot a..<slot (a + ucast n - 1) + 1] ?s) = Inr s1" and
    s2: "(if hit s1 then access_direct wr f (gphysaddr s1) (off s1) (left s1) s1 else Inr s1) = Inr s2" and
    s3: "(case unlocked s2 of None \<Rightarrow> Inr s2 | Some (k, a2, i2, n2) \<Rightarrow> access_handler H wr f k a2 i2 n2 s2) = Inr s3" and
    w': "w' = wld s3"
    using assms(2) by (auto simp: mmio_access_memory_def Let_def bind_res_Inr_iff)
  have a: "safe True w (wld s1)" using access_slots_safe [of ?s] s1 assms(1) by (auto split: if_splits)
  have b: "safe True (wld s1) (wld s2)"
    using access_direct_safe [OF safe_ready [OF a assms(1)]] s2 by (auto split: if_splits)
  have "safe True (wld s2) (wld s3)"
    using access_handler_safe [OF safe_ready [OF b safe_ready [OF a assms(1)]]] s3
    by (auto split: option.splits prod.splits)
  with a b w' show ?thesis by (auto intro: safe_trans)
qed

lemma scan_del_safe: "safe st w (scan a n (\<lambda>i. del i p) w)"
  unfolding scan_def Let_def by (rule safe_fold) (simp add: safe_same del_def)

lemma remove_handle_safe: "safe st w (remove_handle p w)"
  unfolding remove_handle_def Let_def by (rule safe_trans [OF safe_same scan_del_safe]) simp_all

lemma mmio_lock_safe: "safe st w (mmio_lock w)"
  by (rule safe_same) (simp_all add: mmio_lock_def)

lemma mmio_unlock_safe: "safe st w (mmio_unlock w)"
proof -
  let ?g = "\<lambda>p w. if unregistered (hinfo w p) then remove_handle p w else w"
  have f: "safe st w (fold ?g ps w0)" if "safe st w w0" for ps w0
    by (rule safe_trans [OF that safe_fold]) (simp add: remove_handle_safe)
  show ?thesis unfolding mmio_unlock_def Let_def
    by (auto intro!: f safe_same)
qed

section \<open>Ranges as intervals\<close>

definition extent :: "u64 \<Rightarrow> u32 \<Rightarrow> nat set" where "extent a n = {unat a..<unat a + unat n}"

text \<open>A range that is not empty and does not reach over the end of the address space.\<close>

definition proper :: "u64 \<Rightarrow> u32 \<Rightarrow> bool" where
  "proper a n \<longleftrightarrow> 0 < unat n \<and> unat a + unat n < 18446744073709551616"

definition meets :: "mmio_handle \<Rightarrow> u64 \<Rightarrow> u32 \<Rightarrow> bool" where
  "meets h a n \<longleftrightarrow> \<not> unregistered h \<and> extent (gphys h) (len h) \<inter> extent a n \<noteq> {}"

lemma meets_iff:
  assumes "0 < unat n" "0 < unat (len h)"
  shows "meets h a n \<longleftrightarrow> \<not> unregistered h \<and> unat a < unat (gphys h) + unat (len h) \<and> unat (gphys h) < unat a + unat n"
proof -
  have "extent (gphys h) (len h) \<inter> extent a n \<noteq> {} \<longleftrightarrow>
      max (unat (gphys h)) (unat a) \<in> extent (gphys h) (len h) \<inter> extent a n"
    using assms by (auto simp: extent_def max_def)
  then show ?thesis using assms unfolding meets_def by (auto simp: extent_def max_def)
qed

lemma unat_end: "proper a n \<Longrightarrow> unat (a + ucast n) = unat a + unat n" "proper a n \<Longrightarrow> unat (a + ucast n - 1) = unat a + unat n - 1"
proof -
  assume p: "proper a n"
  show e: "unat (a + ucast n) = unat a + unat n"
    using p by (subst unat_add_lem [THEN iffD1]) (simp_all add: proper_def unat_ucast_64)
  have "1 \<le> a + ucast n" using p e by (simp add: word_le_nat_alt proper_def)
  then show "unat (a + ucast n - 1) = unat a + unat n - 1" by (simp add: unat_sub e)
qed

lemma unat_diff_64: "unat (x - y) = (if unat y \<le> unat x then unat x - unat y else unat x + 18446744073709551616 - unat y)"
  for x y :: u64
  using unat_sub_if' [of x y] by (simp add: word_size)

lemma ucast_of_nat_word: "(ucast (of_nat m :: u64) :: u32) = of_nat m"
  by (rule bit_word_eqI) (auto simp: bit_simps)

lemma rangecheck_spec:
  assumes "proper a n" "proper (gphys h) (len h)"
  shows "rangecheck h a n need = (if meets h a n then
      Inr (Some (if need then (if a \<le> gphys h then gphys h else a,
        of_nat (min (unat a + unat n) (unat (gphys h) + unat (len h)) - max (unat a) (unat (gphys h)))) else (0, 0)))
    else Inr None)"
proof -
  let ?A = "unat a" and ?N = "unat n" and ?G = "unat (gphys h)" and ?L = "unat (len h)"
  have p: "0 < ?N" "0 < ?L" "?A + ?N < 18446744073709551616" "?G + ?L < 18446744073709551616"
    using assms by (simp_all add: proper_def)
  have N: "?N < 4294967296" "?L < 4294967296" by (rule unat_bound_32)+
  define x where "x = a - gphys h"
  define y where "y = a + ucast n - 1 - gphys h"
  define z where "z = gphys h + ucast (len h) - 1 - gphys h"
  have X: "unat x = (if ?G \<le> ?A then ?A - ?G else ?A + 18446744073709551616 - ?G)"
    unfolding x_def by (rule unat_diff_64)
  have Y: "unat y = (if ?G \<le> ?A + ?N - 1 then ?A + ?N - 1 - ?G else ?A + ?N - 1 + 18446744073709551616 - ?G)"
    unfolding y_def by (simp only: unat_diff_64 [of "a + ucast n - 1"] unat_end(2) [OF assms(1)])
  have Z: "unat z = ?L - 1"
    unfolding z_def unat_diff_64 [of "gphys h + ucast (len h) - 1"] unat_end(2) [OF assms(2)] using p by auto
  have m: "meets h a n \<longleftrightarrow> \<not> unregistered h \<and> ?A < ?G + ?L \<and> ?G < ?A + ?N" by (rule meets_iff [OF p(1,2)])
  have miss: "z < x \<and> x \<le> y \<longleftrightarrow> \<not> (?A < ?G + ?L \<and> ?G < ?A + ?N)"
    using p by (auto simp: word_less_nat_alt word_le_nat_alt X Y Z)
  show ?thesis
  proof (cases "unregistered h \<or> (z < x \<and> x \<le> y)")
    case True
    then show ?thesis using m miss by (auto simp: rangecheck_def Let_def x_def y_def z_def)
  next
    case False
    then have hit: "?A < ?G + ?L" "?G < ?A + ?N" "\<not> unregistered h" using miss by auto
    define x' where "x' = (if z < x then 0 else x)"
    define y' where "y' = (if z < y then z else y)"
    have X': "unat x' = max ?A ?G - ?G"
      using p hit by (auto simp: x'_def word_less_nat_alt X Z max_def)
    have Y': "unat y' = min (?A + ?N) (?G + ?L) - 1 - ?G"
      using p hit by (auto simp: y'_def word_less_nat_alt Y Z min_def)
    have le: "x' \<le> y'" using hit p by (auto simp: word_le_nat_alt X' Y' max_def min_def)
    have g: "x' + gphys h = (if a \<le> gphys h then gphys h else a)"
    proof (rule word_unat_eq_iff [THEN iffD2])
      have "unat (x' + gphys h) = max ?A ?G"
        using p hit by (subst unat_add_lem [THEN iffD1]) (auto simp: X' max_def)
      then show "unat (x' + gphys h) = unat (if a \<le> gphys h then gphys h else a)"
        by (auto simp: max_def word_le_nat_alt)
    qed
    have l: "(ucast (y' - x' + 1) :: u32) = of_nat (min (?A + ?N) (?G + ?L) - max ?A ?G)"
    proof -
      have "unat (y' - x') = min (?A + ?N) (?G + ?L) - 1 - max ?A ?G"
        using le hit p by (auto simp: unat_sub X' Y' max_def min_def)
      then have "y' - x' = of_nat (min (?A + ?N) (?G + ?L) - 1 - max ?A ?G)" by (metis of_nat_unat ucast_id)
      then have "y' - x' + 1 = of_nat (min (?A + ?N) (?G + ?L) - 1 - max ?A ?G + 1)" by simp
      also have "min (?A + ?N) (?G + ?L) - 1 - max ?A ?G + 1 = min (?A + ?N) (?G + ?L) - max ?A ?G"
        using hit p by (auto simp: max_def min_def)
      finally show ?thesis by (simp only: ucast_of_nat_word)
    qed
    have "rangecheck h a n need = (if \<not> need then Inr (Some (0, 0)) else
        bind_res (assert_res (x' \<le> y') ''f'') (\<lambda>_. Inr (Some (x' + gphys h, ucast (y' - x' + 1)))))"
      using False by (simp add: rangecheck_def Let_def x_def y_def z_def x'_def y'_def)
    then show ?thesis using le g l m hit by simp
  qed
qed

lemma range_hit_iff: "proper a n \<Longrightarrow> proper (gphys h) (len h) \<Longrightarrow> range_hit h a n = meets h a n"
  by (simp add: range_hit_def rangecheck_spec)

section \<open>The lists of handles\<close>

definition covers_slot :: "mmio_handle \<Rightarrow> nat \<Rightarrow> bool" where
  "covers_slot h i \<longleftrightarrow> slot (gphys h) \<le> i \<and> i \<le> slot (gphys h + ucast (len h) - 1)"

definition mmio_inv :: "'d mmio_data \<Rightarrow> bool" where
  "mmio_inv w \<longleftrightarrow>
     distinct (handles w) \<and>
     (\<forall>p\<in>set (handles w). p < next_handle w \<and> proper (gphys (hinfo w p)) (len (hinfo w p))) \<and>
     (\<forall>p\<in>set (handles w). \<forall>q\<in>set (handles w). p \<noteq> q \<longrightarrow> \<not> unregistered (hinfo w p) \<longrightarrow> \<not> unregistered (hinfo w q) \<longrightarrow>
        extent (gphys (hinfo w p)) (len (hinfo w p)) \<inter> extent (gphys (hinfo w q)) (len (hinfo w q)) = {}) \<and>
     (\<forall>i. distinct (mmio w i) \<and> sorted (map (\<lambda>p. gphys (hinfo w p)) (mmio w i)) \<and>
        set (mmio w i) = {p \<in> set (handles w). covers_slot (hinfo w p) i})"

lemma unat_drop_28: "unat (drop_bit 28 a) = unat a div 268435456" for a :: u64
  by (simp add: drop_bit_eq_div unat_div_distrib)

lemma mmio_inv_disjoint:
  assumes "mmio_inv w" "p \<in> set (handles w)" "q \<in> set (handles w)" "p \<noteq> q"
    "\<not> unregistered (hinfo w p)" "\<not> unregistered (hinfo w q)"
  shows "extent (gphys (hinfo w p)) (len (hinfo w p)) \<inter> extent (gphys (hinfo w q)) (len (hinfo w q)) = {}"
  using assms unfolding mmio_inv_def by blast

lemma mmio_inv_handle:
  assumes "mmio_inv w" "p \<in> set (handles w)"
  shows "p < next_handle w" "proper (gphys (hinfo w p)) (len (hinfo w p))"
  using assms unfolding mmio_inv_def by blast+

lemma mmio_inv_slot:
  assumes "mmio_inv w"
  shows "distinct (mmio w i)" "sorted (map (\<lambda>p. gphys (hinfo w p)) (mmio w i))"
    "set (mmio w i) = {p \<in> set (handles w). covers_slot (hinfo w p) i}"
  using assms unfolding mmio_inv_def by blast+

lemma slot_eq: "slot a = min (unat a div 268435456) 16"
  by (auto simp: slot_def unat_drop_28 word_le_nat_alt min_def)

lemma slot_mono: "a \<le> b \<Longrightarrow> slot a \<le> slot b"
  by (simp add: slot_eq word_le_nat_alt div_le_mono min.coboundedI1)

lemma slot_low_bits:
  assumes "\<And>i. 28 \<le> i \<Longrightarrow> bit a i = bit b i" shows "slot a = slot b"
proof -
  have "drop_bit 28 a = drop_bit 28 b" using assms by (intro bit_word_eqI) (auto simp: bit_simps)
  then show ?thesis by (metis slot_eq unat_drop_28)
qed

lemma mask_28: "(0x0FFFFFFF :: u64) = mask 28"
  by (simp add: mask_eq_exp_minus_1)

lemma scan_slots: "scan a n func w = fold func [slot a..<slot (a + ucast n - 1) + 1] w"
proof -
  have "slot (a AND NOT 0x0FFFFFFF) = slot a" "slot ((a + ucast n - 1) OR 0x0FFFFFFF) = slot (a + ucast n - 1)"
    by (rule slot_low_bits; simp only: mask_28; auto simp: bit_simps dest: bit_imp_le_length)+
  then show ?thesis by (simp add: scan_def Let_def)
qed

lemma slots_mem: "i \<in> set [a..<b + 1] \<longleftrightarrow> a \<le> i \<and> i \<le> b"
  by auto

lemma fold_add:
  "distinct is \<Longrightarrow> fold (\<lambda>i. add i p) is w =
     w\<lparr>mmio := \<lambda>i. if i \<in> set is then insert_sorted (\<lambda>q. gphys (hinfo w q)) p (mmio w i) else mmio w i\<rparr>"
  by (induction "is" arbitrary: w) (auto simp: add_def fun_eq_iff)

lemma fold_del:
  "distinct is \<Longrightarrow> fold (\<lambda>i. del i p) is w = w\<lparr>mmio := \<lambda>i. if i \<in> set is then remove1 p (mmio w i) else mmio w i\<rparr>"
  by (induction "is" arbitrary: w) (auto simp: del_def fun_eq_iff)

lemma insert_sorted_set [simp]: "set (insert_sorted key p ds) = insert p (set ds)"
  by (induction ds) auto

lemma insert_sorted_distinct: "distinct (insert_sorted key p ds) \<longleftrightarrow> p \<notin> set ds \<and> distinct ds"
  by (induction ds) auto

lemma insert_sorted_sorted: "sorted (map key ds) \<Longrightarrow> sorted (map key (insert_sorted key p ds))"
  by (induction ds) (auto simp: not_less)

lemma remove1_sorted: "sorted (map key ds) \<Longrightarrow> sorted (map key (remove1 p ds))"
  by (rule sorted_map_remove1)

lemma mmio_register_inv:
  assumes "mmio_inv w" "proper a n"
  shows "mmio_inv (snd (mmio_register_internal flush a n k u w))"
proof (cases "list_ex (\<lambda>p. range_hit (hinfo w p) a n) (handles w) \<or> flush a (a + ucast n - 1)")
  case True
  then show ?thesis using assms(1) by (auto simp: mmio_register_internal_def)
next
  case False
  let ?p = "next_handle w" and ?h = "\<lparr>gphys = a, len = n, handler = k, unregistered = False, unlocked_handler = u\<rparr>"
  let ?info = "(hinfo w)(?p := ?h)"
  let ?w = "w\<lparr>next_handle := ?p + 1, hinfo := ?info, handles := handles w @ [?p]\<rparr>"
  have fresh: "?p \<notin> set (handles w)" using assms(1) by (auto simp: mmio_inv_def)
  have r: "snd (mmio_register_internal flush a n k u w) = ?w\<lparr>mmio :=
      \<lambda>i. if covers_slot ?h i then insert_sorted (\<lambda>q. gphys (?info q)) ?p (mmio w i) else mmio w i\<rparr>"
  proof -
    have "scan a n (\<lambda>i. add i ?p) ?w = ?w\<lparr>mmio :=
        \<lambda>i. if covers_slot ?h i then insert_sorted (\<lambda>q. gphys (?info q)) ?p (mmio w i) else mmio w i\<rparr>"
      unfolding scan_slots fold_add [OF distinct_upt] slots_mem covers_slot_def by (simp cong: if_cong)
    then show ?thesis using False by (simp add: mmio_register_internal_def Let_def)
  qed
  have apart: "extent (gphys (hinfo w q)) (len (hinfo w q)) \<inter> extent a n = {}"
    if "q \<in> set (handles w)" "\<not> unregistered (hinfo w q)" for q
    using False that assms(1) range_hit_iff [OF assms(2), of "hinfo w q"]
    by (auto simp: list_ex_iff mmio_inv_def meets_def)
  note i = mmio_inv_slot [OF assms(1)]
  have ni: "?p \<notin> set (mmio w i)" for i using i(3) [of i] fresh by blast
  have same: "map (\<lambda>q. gphys (?info q)) (mmio w i) = map (\<lambda>q. gphys (hinfo w q)) (mmio w i)" for i
    using ni by (intro map_cong) auto
  have so: "sorted (map (\<lambda>q. gphys (?info q)) (insert_sorted (\<lambda>q. gphys (?info q)) ?p (mmio w i)))"
      "sorted (map (\<lambda>q. gphys (?info q)) (mmio w i))" for i
    using i(2) unfolding same [symmetric] by (simp_all add: insert_sorted_sorted)
  show ?thesis
    unfolding r mmio_inv_def
  proof (intro conjI ballI allI impI, goal_cases)
    case 1 then show ?case using fresh assms(1) by (simp add: mmio_inv_def)
  next
    case (2 p) then show ?case using assms(1) by (auto simp: mmio_inv_def)
  next
    case (3 p) then show ?case using assms by (auto simp: mmio_inv_def)
  next
    case (4 p q)
    have "p \<in> set (handles w)" if "p \<noteq> ?p" using 4(1) that by simp
    moreover have "q \<in> set (handles w)" if "q \<noteq> ?p" using 4(2) that by simp
    ultimately show ?case
      using 4(3-5) apart [of p] apart [of q] mmio_inv_disjoint [OF assms(1), of p q] fresh
      by (cases "p = ?p"; cases "q = ?p") (simp_all add: Int_commute)
  next
    case (5 i) then show ?case using i(1) ni by (simp add: insert_sorted_distinct)
  next
    case (6 i) then show ?case using so by (simp del: fun_upd_apply)
  next
    case (7 i) then show ?case using i(3) fresh by auto
  qed
qed

lemma remove_handle_inv:
  assumes "mmio_inv w" "p \<in> set (handles w)" shows "mmio_inv (remove_handle p w)"
proof -
  let ?h = "hinfo w p"
  have r: "remove_handle p w = w\<lparr>handles := remove1 p (handles w),
      mmio := \<lambda>i. if covers_slot ?h i then remove1 p (mmio w i) else mmio w i\<rparr>"
    unfolding remove_handle_def Let_def scan_slots fold_del [OF distinct_upt] slots_mem covers_slot_def
    by (simp cong: if_cong)
  note i = mmio_inv_slot [OF assms(1)]
  have d: "distinct (handles w)" using assms(1) by (simp add: mmio_inv_def)
  have ni: "p \<notin> set (mmio w i)" if "\<not> covers_slot ?h i" for i using i(3) [of i] that by simp
  show ?thesis
    unfolding r mmio_inv_def
  proof (intro conjI ballI allI impI, goal_cases)
    case 1 then show ?case using d by simp
  next
    case (2 q) then show ?case using mmio_inv_handle(1) [OF assms(1), of q] d by simp
  next
    case (3 q) then show ?case using mmio_inv_handle(2) [OF assms(1), of q] d by simp
  next
    case (4 q r) then show ?case using mmio_inv_disjoint [OF assms(1), of q r] d by simp
  next
    case (5 i) then show ?case using i(1) by simp
  next
    case (6 i) then show ?case using i(2) by (simp add: sorted_map_remove1)
  next
    case (7 i) then show ?case using i(1,3) [of i] ni d by auto
  qed
qed

lemma mark_inv: "mmio_inv w \<Longrightarrow> mmio_inv (w\<lparr>hinfo := (hinfo w)(p := (hinfo w p)\<lparr>unregistered := True\<rparr>), unregister_flag := True\<rparr>)"
proof -
  assume inv: "mmio_inv w"
  let ?w = "w\<lparr>hinfo := (hinfo w)(p := (hinfo w p)\<lparr>unregistered := True\<rparr>), unregister_flag := True\<rparr>"
  have s: "gphys (hinfo ?w q) = gphys (hinfo w q)" "len (hinfo ?w q) = len (hinfo w q)"
    "covers_slot (hinfo ?w q) i = covers_slot (hinfo w q) i" "\<not> unregistered (hinfo ?w q) \<Longrightarrow> \<not> unregistered (hinfo w q)" for q i
    by (auto simp: covers_slot_def split: if_splits)
  have l: "handles ?w = handles w" "mmio ?w = mmio w" "next_handle ?w = next_handle w" by simp_all
  show ?thesis
    unfolding mmio_inv_def s(1-3) l
  proof (intro conjI ballI allI impI, goal_cases)
    case (4 q r) then show ?case using mmio_inv_disjoint [OF inv] s(4) by blast
  qed (use inv mmio_inv_slot [OF inv] in \<open>auto simp: mmio_inv_def\<close>)
qed

lemma mmio_unregister_inv: "mmio_inv w \<Longrightarrow> p \<in> set (handles w) \<Longrightarrow> mmio_inv (mmio_unregister p w)"
  by (auto simp: mmio_unregister_def intro: remove_handle_inv mark_inv)

lemma same_lists_inv:
  assumes "hinfo w' = hinfo w" "next_handle w' = next_handle w" "handles w' = handles w" "mmio w' = mmio w"
  shows "mmio_inv w' = mmio_inv w"
  using assms by (simp add: mmio_inv_def)

lemma remove_handle_simps [simp]:
  "hinfo (remove_handle p w) = hinfo w" "handles (remove_handle p w) = remove1 p (handles w)"
  by (simp_all add: remove_handle_def Let_def scan_slots fold_del)

lemma deferred_inv:
  assumes "mmio_inv w" "set ps \<subseteq> set (handles w)" "distinct ps"
  shows "mmio_inv (fold (\<lambda>p w. if unregistered (hinfo w p) then remove_handle p w else w) ps w)"
  using assms
proof (induction ps arbitrary: w)
  case (Cons p ps)
  let ?w = "if unregistered (hinfo w p) then remove_handle p w else w"
  have "mmio_inv ?w" using Cons.prems remove_handle_inv by auto
  moreover have "set ps \<subseteq> set (handles ?w)"
  proof
    fix q assume "q \<in> set ps"
    then have "q \<in> set (handles w)" "q \<noteq> p" using Cons.prems by auto
    then show "q \<in> set (handles ?w)" by (simp add: in_set_remove1)
  qed
  ultimately show ?case using Cons.IH [of ?w] Cons.prems(3) by simp
qed simp

lemma mmio_lock_inv: "mmio_inv w \<Longrightarrow> mmio_inv (mmio_lock w)"
  using same_lists_inv [of "mmio_lock w" w] by (simp add: mmio_lock_def)

lemma mmio_unlock_inv:
  assumes "mmio_inv w" shows "mmio_inv (mmio_unlock w)"
proof -
  let ?w = "w\<lparr>lock_count := lock_count w - 1, readers := readers w - (if lock_count w = 1 then 1 else 0)\<rparr>"
  have i: "mmio_inv ?w" "mmio_inv (?w\<lparr>unregister_flag := False\<rparr>)"
    using assms same_lists_inv [of ?w w] same_lists_inv [of "?w\<lparr>unregister_flag := False\<rparr>" w] by simp_all
  have "mmio_inv (fold (\<lambda>p w. if unregistered (hinfo w p) then remove_handle p w else w) (handles ?w)
      (?w\<lparr>unregister_flag := False\<rparr>))"
    using i(2) assms by (intro deferred_inv) (simp_all add: mmio_inv_def)
  with i show ?thesis unfolding mmio_unlock_def Let_def by presburger
qed

section \<open>Reachable registrations\<close>

inductive mmio_step :: "'d mmio_data \<Rightarrow> 'd mmio_data \<Rightarrow> bool" where
  register: "proper a n \<Longrightarrow> mmio_step w (snd (mmio_register_internal flush a n k u w))"
| unregister: "p \<in> set (handles w) \<Longrightarrow> mmio_step w (mmio_unregister p w)"
| lock: "mmio_step w (mmio_lock w)"
| unlock: "mmio_step w (mmio_unlock w)"

inductive mmio_reach :: "'d mmio_data \<Rightarrow> bool" where
  init: "mmio_reach (mmio_init w)"
| step: "mmio_reach w \<Longrightarrow> mmio_step w w' \<Longrightarrow> mmio_reach w'"

lemma mmio_step_inv: "mmio_step w w' \<Longrightarrow> mmio_inv w \<Longrightarrow> mmio_inv w'"
  by (induction rule: mmio_step.induct)
    (auto intro: mmio_register_inv mmio_unregister_inv mmio_lock_inv mmio_unlock_inv)

lemma mmio_reach_inv: "mmio_reach w \<Longrightarrow> mmio_inv w"
proof (induction rule: mmio_reach.induct)
  case (init w)
  show ?case by (simp add: mmio_init_def mmio_inv_def)
qed (rule mmio_step_inv)

section \<open>What an access reaches\<close>

lemma covers_if_meets:
  assumes "proper a n" "proper (gphys h) (len h)" "x \<in> extent (gphys h) (len h)"
  shows "covers_slot h (min (x div 268435456) 16)"
proof -
  have "unat (gphys h) \<le> x" "x \<le> unat (gphys h + ucast (len h) - 1)"
    using assms(2,3) unat_end(2) [OF assms(2)] by (auto simp: extent_def proper_def)
  then show ?thesis by (auto simp: covers_slot_def slot_eq min_def div_le_mono le_trans [OF div_le_mono])
qed

lemma page_list_iff:
  assumes "proper a 4096" "\<forall>p\<in>set ps. proper (gphys (hinfo w p)) (len (hinfo w p))" "sorted (map (\<lambda>p. gphys (hinfo w p)) ps)"
  shows "page_list a None ps w = Inr (list_ex (\<lambda>p. meets (hinfo w p) a 4096) ps, w)"
  using assms(2,3)
proof (induction ps)
  case (Cons p ps)
  have hit: "range_hit (hinfo w p) a 4096 = meets (hinfo w p) a 4096"
    using Cons.prems(1) by (intro range_hit_iff [OF assms(1)]) simp
  show ?case
  proof (cases "gphys (hinfo w p) \<ge> a + 4096")
    case True
    have "\<not> meets (hinfo w q) a 4096" if "q \<in> set (p # ps)" for q
    proof -
      have "a + 4096 \<le> gphys (hinfo w q)" using True Cons.prems(2) that by auto
      then show ?thesis using unat_end(1) [OF assms(1)] by (auto simp: meets_def extent_def word_le_nat_alt)
    qed
    then show ?thesis using True by (auto simp: list_ex_iff)
  next
    case False
    then show ?thesis using Cons hit by (simp add: Let_def)
  qed
qed simp

text \<open>All bytes of a page lie in one slot.\<close>

lemma page_slot:
  assumes "unat a mod 4096 = 0" "x \<in> extent a 4096" shows "min (x div 268435456) 16 = slot a"
proof -
  obtain k where k: "unat a = 4096 * k" using assms(1) by (metis dvd_def mod_0_imp_dvd)
  have x: "unat a \<le> x" "x < unat a + 4096" using assms(2) by (simp_all add: extent_def)
  define r where "r = x - unat a"
  have "x = 4096 * k + r" "r < 4096" using x k by (simp_all add: r_def)
  then have "x div 4096 = k" by simp
  then have "x div (4096 * 65536) = k div 65536" by (simp only: div_mult2_eq)
  moreover have "unat a div (4096 * 65536) = k div 65536" using k by (simp add: div_mult2_eq)
  ultimately show ?thesis by (simp add: slot_eq)
qed

lemma meets_listed:
  assumes "mmio_inv w" "p \<in> set (handles w)" "x \<in> extent (gphys (hinfo w p)) (len (hinfo w p))" 
  shows "p \<in> set (mmio w (min (x div 268435456) 16))"
  using covers_if_meets [OF _ _ assms(3)] mmio_inv_handle(2) [OF assms(1,2)] mmio_inv_slot(3) [OF assms(1)] assms(2)
  by blast

lemma access_page_iff:
  assumes "mmio_inv w" "proper (page a) 4096"
  shows "mmio_access_page a None w = Inr (\<exists>p\<in>set (handles w). meets (hinfo w p) (page a) 4096, w)"
proof -
  let ?ps = "mmio w (slot (page a))"
  have sub: "set ?ps \<subseteq> set (handles w)" using mmio_inv_slot(3) [OF assms(1)] by blast
  have "p \<in> set ?ps" if p: "p \<in> set (handles w)" "meets (hinfo w p) (page a) 4096" for p
  proof -
    obtain x where "x \<in> extent (gphys (hinfo w p)) (len (hinfo w p))" "x \<in> extent (page a) 4096"
      using p(2) by (auto simp: meets_def)
    then show ?thesis using meets_listed [OF assms(1) p(1)] page_slot [OF page_mod] by metis
  qed
  then have "list_ex (\<lambda>p. meets (hinfo w p) (page a) 4096) ?ps \<longleftrightarrow> (\<exists>p\<in>set (handles w). meets (hinfo w p) (page a) 4096)"
    using sub by (auto simp: list_ex_iff)
  moreover have "page_list (page a) None ?ps w = Inr (list_ex (\<lambda>p. meets (hinfo w p) (page a) 4096) ?ps, w)"
    using sub mmio_inv_handle(2) [OF assms(1)] mmio_inv_slot(2) [OF assms(1)]
    by (intro page_list_iff [OF assms(2)]) auto
  ultimately show ?thesis by (simp add: mmio_access_page_def page_def Let_def)
qed

text \<open>An access that meets no range is left to memory.\<close>

lemma access_list_miss:
  assumes "proper (gphysaddr s) (left s)"
    "\<forall>p\<in>set ps. proper (gphys (hinfo (wld s) p)) (len (hinfo (wld s) p)) \<and> \<not> meets (hinfo (wld s) p) (gphysaddr s) (left s)"
  shows "\<exists>out. access_list H wr f ps s = Inr (out, s)"
  using assms(2) by (induction ps) (auto simp: Let_def rangecheck_spec [OF assms(1)])

lemma access_slots_miss:
  assumes "proper (gphysaddr s) (left s)" "mmio_inv (wld s)"
    "\<forall>p\<in>set (handles (wld s)). \<not> meets (hinfo (wld s) p) (gphysaddr s) (left s)"
  shows "access_slots H wr f is s = Inr s"
proof (induction "is")
  case (Cons i "is")
  have "\<forall>p\<in>set (mmio (wld s) i). proper (gphys (hinfo (wld s) p)) (len (hinfo (wld s) p)) \<and>
      \<not> meets (hinfo (wld s) p) (gphysaddr s) (left s)"
    using mmio_inv_slot(3) [OF assms(2)] mmio_inv_handle(2) [OF assms(2)] assms(3) by auto
  then obtain out where "access_list H wr f (mmio (wld s) i) s = Inr (out, s)"
    using access_list_miss [OF assms(1)] by blast
  with Cons show ?case by simp
qed simp

lemma access_memory_miss:
  assumes "mmio_inv w" "proper a n" "\<forall>p\<in>set (handles w). \<not> meets (hinfo w p) a n"
  shows "mmio_access_memory H a wr bs n f w = Inr (False, bs, w)"
proof -
  let ?s = "\<lparr>gphysaddr = a, off = 0, left = n, buf = bs, hit = False, unlocked = None, wld = w\<rparr>"
  have "access_slots H wr f is ?s = Inr ?s" for "is"
    using assms by (intro access_slots_miss) simp_all
  then show ?thesis by (simp add: mmio_access_memory_def Let_def)
qed

text \<open>An access inside one range is one call of its handler.\<close>

lemma access_direct_0 [simp]: "access_direct wr f a i 0 s = Inr s"
  by (simp add: access_direct_def mmio_gphys_access_def patch_def part_def)

lemma advance_simps:
  "advance 0 s = s" "left (advance n s) = left s - n" "hit (advance n s) = hit s" "buf (advance n s) = buf s"
  "unlocked (advance n s) = unlocked s" "wld (advance n s) = wld s"
  by (simp_all add: advance_def)

definition called :: "'d mmio_handler \<Rightarrow> mmio_handle \<Rightarrow> u64 \<Rightarrow> bool \<Rightarrow> u8 list \<Rightarrow> u32 \<Rightarrow> u32 \<Rightarrow> 'd mmio_data \<Rightarrow> u8 list \<Rightarrow> 'd \<Rightarrow> bool" where
  "called H h a wr bs n f w bs' d \<longleftrightarrow>
     H (handler h) a wr bs f (dev w) = ((True, bs'), d) \<and> length bs = unat n \<and> length bs' = unat n"

lemma access_handler_called:
  assumes "called H h a wr bs n f (wld s) bs' d" "buf s = bs"
  shows "access_handler H wr f (handler h) a 0 n s =
    Inr (s\<lparr>buf := bs', wld := note_event (Handler (handler h) a (unat n) wr) ((wld s)\<lparr>dev := d\<rparr>)\<rparr>)"
  using assms by (simp add: access_handler_def called_def part_def patch_def Let_def)

lemma access_handle_inside:
  assumes "called H h a wr bs n f (wld s) bs' d" "buf s = bs" "gphysaddr s = a" "off s = 0" "left s = n" "unlocked s = None"
  shows "\<exists>s'. access_handle H wr f h a n s = Inr s' \<and> left s' = 0 \<and> hit s' \<and>
    (if unlocked_handler h then unlocked s' = Some (handler h, a, 0, n) \<and> wld s' = wld s \<and> buf s' = bs
     else unlocked s' = None \<and> buf s' = bs' \<and>
       wld s' = note_event (Handler (handler h) a (unat n) wr) ((wld s)\<lparr>dev := d\<rparr>))"
  using assms access_handler_called [of H h a wr bs n f "s\<lparr>hit := True\<rparr>" bs' d]
  by (auto simp: access_handle_def advance_simps Let_def)

lemma access_list_inside:
  assumes "mmio_inv (wld s)" "set ps \<subseteq> set (handles (wld s))" "sorted (map (\<lambda>q. gphys (hinfo (wld s) q)) ps)"
    "p \<in> set ps" "\<not> unregistered (hinfo (wld s) p)" "extent a n \<subseteq> extent (gphys (hinfo (wld s) p)) (len (hinfo (wld s) p))"
    "proper a n" "gphysaddr s = a" "left s = n"
    "access_handle H wr f (hinfo (wld s) p) a n s = Inr s'" "left s' = 0"
  shows "access_list H wr f ps s = Inr (True, s')"
  using assms(2-4)
proof (induction ps)
  case (Cons q qs)
  let ?h = "hinfo (wld s) q"
  have pr: "proper (gphys ?h) (len ?h)" using mmio_inv_handle(2) [OF assms(1)] Cons.prems(1) by simp
  have pp: "proper (gphys (hinfo (wld s) p)) (len (hinfo (wld s) p))" "p \<in> set (handles (wld s))"
    using mmio_inv_handle(2) [OF assms(1)] Cons.prems(1,3) by auto
  have "unat a \<in> extent a n" "unat a + unat n - 1 \<in> extent a n" using assms(7) by (auto simp: extent_def proper_def)
  then have P: "unat (gphys (hinfo (wld s) p)) \<le> unat a"
      "unat a + unat n \<le> unat (gphys (hinfo (wld s) p)) + unat (len (hinfo (wld s) p))"
    using assms(6,7) by (auto simp: extent_def proper_def)
  have "gphys ?h \<le> gphys (hinfo (wld s) p)" using Cons.prems(2,3) by auto
  then have lt: "\<not> gphys ?h \<ge> a + ucast n"
    using P(1) unat_end(1) [OF assms(7)] assms(7) by (simp add: word_le_nat_alt proper_def)
  show ?case
  proof (cases "q = p")
    case True
    have m: "meets (hinfo (wld s) p) a n"
      using assms(5,6) \<open>unat a \<in> extent a n\<close> by (auto simp: meets_def)
    have "rangecheck (hinfo (wld s) p) a n True = Inr (Some (a, n))"
    proof -
      have "(if a \<le> gphys (hinfo (wld s) p) then gphys (hinfo (wld s) p) else a) = a"
        using P(1) by (auto simp: word_le_nat_alt word_unat_eq_iff)
      moreover have "min (unat a + unat n) (unat (gphys (hinfo (wld s) p)) + unat (len (hinfo (wld s) p))) -
          max (unat a) (unat (gphys (hinfo (wld s) p))) = unat n"
        using P by (simp add: min_def max_def)
      ultimately show ?thesis using m by (simp add: rangecheck_spec [OF assms(7) pp(1)])
    qed
    then show ?thesis using True lt assms(8-11) by (simp add: Let_def)
  next
    case False
    have "\<not> meets ?h a n"
    proof
      assume m: "meets ?h a n"
      then have "extent (gphys ?h) (len ?h) \<inter> extent (gphys (hinfo (wld s) p)) (len (hinfo (wld s) p)) = {}"
        using mmio_inv_disjoint [OF assms(1) _ pp(2) False _ assms(5)] Cons.prems(1) by (auto simp: meets_def)
      with m assms(6) show False by (auto simp: meets_def)
    qed
    then have "rangecheck ?h a n True = Inr None" by (simp add: rangecheck_spec [OF assms(7) pr])
    then show ?thesis using False lt Cons assms(8,9) by (simp add: Let_def)
  qed
qed simp

lemma access_memory_inside:
  assumes "mmio_inv w" "proper a n" "p \<in> set (handles w)" "\<not> unregistered (hinfo w p)"
    "extent a n \<subseteq> extent (gphys (hinfo w p)) (len (hinfo w p))" "called H (hinfo w p) a wr bs n f w bs' d"
  shows "mmio_access_memory H a wr bs n f w =
    Inr (True, bs', note_event (Handler (handler (hinfo w p)) a (unat n) wr) (w\<lparr>dev := d\<rparr>))"
proof -
  let ?s = "\<lparr>gphysaddr = a, off = 0, left = n, buf = bs, hit = False, unlocked = None, wld = w\<rparr>" and ?h = "hinfo w p"
  obtain s' where s': "access_handle H wr f ?h a n ?s = Inr s'" "left s' = 0" "hit s'"
    "if unlocked_handler ?h then unlocked s' = Some (handler ?h, a, 0, n) \<and> wld s' = w \<and> buf s' = bs
     else unlocked s' = None \<and> buf s' = bs' \<and> wld s' = note_event (Handler (handler ?h) a (unat n) wr) (w\<lparr>dev := d\<rparr>)"
    using access_handle_inside [of H ?h a wr bs n f ?s bs' d] assms(6) by auto
  have n0: "n \<noteq> 0" using assms(2) by (auto simp: proper_def)
  have "unat a \<in> extent a n" using assms(2) by (auto simp: extent_def proper_def)
  then have "p \<in> set (mmio w (slot a))"
    using meets_listed [OF assms(1,3), of "unat a"] assms(5) by (auto simp: slot_eq)
  then have l: "access_list H wr f (mmio w (slot a)) ?s = Inr (True, s')"
    using assms(1-5) mmio_inv_slot(2,3) [OF assms(1)] s' by (intro access_list_inside [where p = p]) auto
  have "a \<le> a + ucast n - 1"
    using unat_end(2) [OF assms(2)] assms(2) unfolding word_le_nat_alt proper_def by linarith
  then have "slot a \<le> slot (a + ucast n - 1)" by (rule slot_mono)
  then have "[slot a..<slot (a + ucast n - 1) + 1] = slot a # [Suc (slot a)..<slot (a + ucast n - 1) + 1]"
    by (simp only: upt_conv_Cons Suc_eq_plus1 [symmetric] le_imp_less_Suc)
  then have "access_slots H wr f [slot a..<slot (a + ucast n - 1) + 1] ?s = Inr s'" using l by simp
  then show ?thesis
    using s' n0 assms(6) access_handler_called [of H ?h a wr bs n f s' bs' d]
    by (auto simp: mmio_access_memory_def Let_def split: if_splits)
qed

section \<open>Properties\<close>

subsection \<open>A guest with one device, or two\<close>

definition sample_world :: "unit mmio_data" where
  "sample_world = \<lparr>mem = \<lambda>_. 0, pending = [], events = [], vmm_start_phys = 0x10000000, phys_blank = 0x10001000,
     hphys_len = 0x200000000,
     caches = \<lparr>cpu = \<lparr>msr = \<lambda>_. 0, cr0 = 0, cr3 = 0, cr4 = 0, rd_faults = \<lambda>_. False, wr_faults = \<lambda>_ _. False, trace = []\<rparr>,
       pc = \<lparr>has_pat = False, has_mtrr = False, syscfg_exist = False, mtrrcap = 0, pat_index_from_type = [], regs_h = zero_regs\<rparr>,
       vc = \<lparr>regs_g = zero_regs, pass_mtrrfix = False\<rparr>\<rparr>,
     hinfo = \<lambda>_. \<lparr>gphys = 0, len = 0, handler = 0, unregistered = False, unlocked_handler = False\<rparr>,
     next_handle = 0, handles = [], mmio = \<lambda>_. [], unregister_flag = False, lock_count = 0, readers = 0, dev = ()\<rparr>"

definition no_handler :: "unit mmio_handler" where "no_handler k a wr bs f d = ((False, bs), d)"

definition echo :: "unit mmio_handler" where "echo k a wr bs f d = ((True, bs), d)"

definition world_1 :: "unit mmio_data" where
  "world_1 = snd (mmio_register_internal (\<lambda>_ _. False) 0xFEC00000 0x1000 7 False (mmio_init sample_world))"

definition world_2 :: "unit mmio_data" where
  "world_2 = snd (mmio_register_internal (\<lambda>_ _. False) 0xFEE00000 0x1000 8 False world_1)"

lemma handle_lists:
  "handles world_1 = [0]" "handles world_2 = [0, 1]"
  "hinfo world_1 0 = \<lparr>gphys = 0xFEC00000, len = 0x1000, handler = 7, unregistered = False, unlocked_handler = False\<rparr>"
  "hinfo world_2 0 = \<lparr>gphys = 0xFEC00000, len = 0x1000, handler = 7, unregistered = False, unlocked_handler = False\<rparr>"
  "hinfo world_2 1 = \<lparr>gphys = 0xFEE00000, len = 0x1000, handler = 8, unregistered = False, unlocked_handler = False\<rparr>"
proof -
  have 1: "handles world_1 = [0] \<and> next_handle world_1 = 1 \<and>
      hinfo world_1 0 = \<lparr>gphys = 0xFEC00000, len = 0x1000, handler = 7, unregistered = False, unlocked_handler = False\<rparr>"
    by (simp add: world_1_def mmio_register_internal_def mmio_init_def sample_world_def Let_def scan_slots fold_add)
  moreover have "\<not> range_hit (hinfo world_1 0) 0xFEE00000 0x1000"
    using 1 by (simp add: range_hit_iff proper_def meets_iff)
  ultimately show "handles world_1 = [0]" "handles world_2 = [0, 1]"
    "hinfo world_1 0 = \<lparr>gphys = 0xFEC00000, len = 0x1000, handler = 7, unregistered = False, unlocked_handler = False\<rparr>"
    "hinfo world_2 0 = \<lparr>gphys = 0xFEC00000, len = 0x1000, handler = 7, unregistered = False, unlocked_handler = False\<rparr>"
    "hinfo world_2 1 = \<lparr>gphys = 0xFEE00000, len = 0x1000, handler = 8, unregistered = False, unlocked_handler = False\<rparr>"
    by (simp_all add: world_2_def mmio_register_internal_def Let_def scan_slots fold_add)
qed

lemmas handle_lists_Suc = handle_lists handle_lists(5) [unfolded One_nat_def]

lemma worlds_reached: "mmio_reach world_1" "mmio_reach world_2"
proof -
  show 1: "mmio_reach world_1" unfolding world_1_def
    by (intro mmio_reach.step [OF mmio_reach.init [of sample_world]] mmio_step.register) (simp add: proper_def)
  show "mmio_reach world_2" unfolding world_2_def
    by (intro mmio_reach.step [OF 1] mmio_step.register) (simp add: proper_def)
qed

text \<open>C5: after any sequence of registrations, removals and locked sections, the ranges of two registered handlers
  are disjoint, and every slot list is sorted by address.\<close>

theorem registered_ranges_are_disjoint:
  assumes "mmio_reach w" "p \<in> set (handles w)" "q \<in> set (handles w)" "p \<noteq> q"
    "\<not> unregistered (hinfo w p)" "\<not> unregistered (hinfo w q)"
  shows "extent (gphys (hinfo w p)) (len (hinfo w p)) \<inter> extent (gphys (hinfo w q)) (len (hinfo w q)) = {} \<and>
    sorted (map (\<lambda>p. gphys (hinfo w p)) (mmio w i))"
  using mmio_inv_disjoint [OF mmio_reach_inv assms(2-)] mmio_inv_slot(2) [OF mmio_reach_inv] assms(1) by blast

theorem registered_ranges_are_disjoint_witness:
  "extent 0xFEC00000 0x1000 \<inter> extent 0xFEE00000 0x1000 = {} \<and> sorted (map (\<lambda>p. gphys (hinfo world_2 p)) (mmio world_2 15))"
  using registered_ranges_are_disjoint [OF worlds_reached(2), of 0 1 15] by (simp add: handle_lists_Suc)

text \<open>\<open>mmio_access_page\<close> finds a handler exactly when a registered range meets the page.\<close>

theorem access_page_finds_every_range:
  assumes "mmio_reach w" "proper (page a) 4096"
  shows "mmio_access_page a None w = Inr (list_ex (\<lambda>p. meets (hinfo w p) (page a) 4096) (handles w), w)"
  using access_page_iff [OF mmio_reach_inv [OF assms(1)] assms(2)] by (simp add: list_ex_iff)

theorem access_page_finds_every_range_witness:
  "mmio_access_page 0xFEC00010 None world_1 = Inr (True, world_1)"
proof -
  have p: "page 0xFEC00010 = 0xFEC00000" by (simp add: page_def)
  have "proper (page 0xFEC00010) 4096" by (simp add: p proper_def)
  from access_page_finds_every_range [OF worlds_reached(1) this] show ?thesis
    by (simp add: p handle_lists meets_iff)
qed

text \<open>an access that meets no registered range is left to memory: nothing is called, the buffer and the
  world stay as they are.\<close>

theorem access_outside_ranges_is_left_to_memory:
  assumes "mmio_reach w" "proper a n" "list_all (\<lambda>p. \<not> meets (hinfo w p) a n) (handles w)"
  shows "mmio_access_memory H a wr bs n f w = Inr (False, bs, w)"
  using access_memory_miss [OF mmio_reach_inv [OF assms(1)] assms(2)] assms(3) by (simp add: list_all_iff)

theorem access_outside_ranges_is_left_to_memory_witness:
  "mmio_access_memory echo 0x1000 True [1, 2] 2 0 world_2 = Inr (False, [1, 2], world_2)"
  by (rule access_outside_ranges_is_left_to_memory [OF worlds_reached(2)]) (simp_all add: proper_def handle_lists_Suc meets_iff)

text \<open>C16: an access inside one registered range is exactly one call of its handler, locked or unlocked, with
  the whole buffer; memory is not touched.\<close>

theorem access_inside_a_range_is_one_call:
  assumes "mmio_reach w" "proper a n" "p \<in> set (handles w)" "\<not> unregistered (hinfo w p)"
    "extent a n \<subseteq> extent (gphys (hinfo w p)) (len (hinfo w p))" "called H (hinfo w p) a wr bs n f w bs' d"
  shows "mmio_access_memory H a wr bs n f w =
    Inr (True, bs', note_event (Handler (handler (hinfo w p)) a (unat n) wr) (w\<lparr>dev := d\<rparr>))"
  by (rule access_memory_inside [OF mmio_reach_inv [OF assms(1)] assms(2-)])

theorem access_inside_a_range_is_one_call_witness:
  "mmio_access_memory echo 0xFEC00010 True [1, 2, 3, 4] 4 0 world_1 =
    Inr (True, [1, 2, 3, 4], note_event (Handler 7 0xFEC00010 4 True) (world_1\<lparr>dev := ()\<rparr>))"
  using access_inside_a_range_is_one_call [OF worlds_reached(1), of "0xFEC00010" 4 0 echo True "[1, 2, 3, 4]" 0 "[1, 2, 3, 4]" "()"]
  by (simp add: handle_lists proper_def extent_def called_def echo_def)

end
