(* ===== verification/Gmm_Access.thy ===== *)
theory Gmm_Access
  imports Prelude Guest_Phys Mmio
begin

text \<open>
  Access to guest-physical memory (\<^verbatim>\<open>bitvisor/core/gmm_access.c\<close>): first the MMIO handlers, then the
  pass-through translation, in which the memory of the VMM itself is one write-protected blank
  page.  The lemmas show that no access, mapping or MMIO dispatch touches the VMM's memory.
\<close>

section \<open>Reading\<close>

text \<open>
  The four sizes share their last part: \<open>n\<close> bytes inside one page.  \<open>bs\<close> is what the caller's
  buffer holds; a handler may leave it as it is.
\<close>

definition read_gphys :: "nat \<Rightarrow> 'd mmio_handler \<Rightarrow> u64 \<Rightarrow> u8 list \<Rightarrow> u32 \<Rightarrow> 'd mmio_data \<Rightarrow> (u8 list \<times> 'd mmio_data) res" where
  "read_gphys n H phys bs attr w =
     bind_res (cache_get_attr phys attr (caches w)) (\<lambda>attr.
     bind_res (mmio_access_memory H phys False bs (of_nat n) attr (mmio_lock w)) (\<lambda>(r, bs, w).
     let (bs, w) = (if r then (bs, w) else hphys_read n (fst (gmm_pass_gp2hp w phys)) attr w)
     in Inr (bs, mmio_unlock w)))"

text \<open>An access that may straddle is cut into two of half the size.\<close>

definition read_halves :: "('d mmio_handler \<Rightarrow> u64 \<Rightarrow> u8 list \<Rightarrow> u32 \<Rightarrow> 'd mmio_data \<Rightarrow> (u8 list \<times> 'd mmio_data) res) \<Rightarrow> nat \<Rightarrow>
    'd mmio_handler \<Rightarrow> u64 \<Rightarrow> u8 list \<Rightarrow> u32 \<Rightarrow> 'd mmio_data \<Rightarrow> (u8 list \<times> 'd mmio_data) res" where
  "read_halves read k H phys bs attr w =
     bind_res (read H (phys + 0) (take k bs) attr w) (\<lambda>(b0, w).
     bind_res (read H (phys + of_nat k) (drop k bs) attr w) (\<lambda>(b1, w).
     Inr (b0 @ b1, w)))"

definition read_gphys_b :: "'d mmio_handler \<Rightarrow> u64 \<Rightarrow> u8 list \<Rightarrow> u32 \<Rightarrow> 'd mmio_data \<Rightarrow> (u8 list \<times> 'd mmio_data) res" where
  "read_gphys_b H phys bs attr w = read_gphys 1 H phys bs attr w"

definition read_gphys_w :: "'d mmio_handler \<Rightarrow> u64 \<Rightarrow> u8 list \<Rightarrow> u32 \<Rightarrow> 'd mmio_data \<Rightarrow> (u8 list \<times> 'd mmio_data) res" where
  "read_gphys_w H phys bs attr w =
     (if phys AND 0xFFF = 0xFFF then read_halves read_gphys_b 1 H phys bs attr w else read_gphys 2 H phys bs attr w)"

definition read_gphys_l :: "'d mmio_handler \<Rightarrow> u64 \<Rightarrow> u8 list \<Rightarrow> u32 \<Rightarrow> 'd mmio_data \<Rightarrow> (u8 list \<times> 'd mmio_data) res" where
  "read_gphys_l H phys bs attr w =
     (if phys AND 0xFFF \<ge> 0xFFD then read_halves read_gphys_w 2 H phys bs attr w else read_gphys 4 H phys bs attr w)"

definition read_gphys_q :: "'d mmio_handler \<Rightarrow> u64 \<Rightarrow> u8 list \<Rightarrow> u32 \<Rightarrow> 'd mmio_data \<Rightarrow> (u8 list \<times> 'd mmio_data) res" where
  "read_gphys_q H phys bs attr w =
     (if phys AND 0xFFF \<ge> 0xFF9 then read_halves read_gphys_l 4 H phys bs attr w else read_gphys 8 H phys bs attr w)"

section \<open>Writing\<close>

text \<open>
  The shared last part; \<open>ds\<close> is the little-endian image of \<open>data\<close>, of which \<open>n\<close> bytes are
  written.  \<open>guard\<close> tells whether the function panics when \<open>fakerom\<close> is set: \<open>write_gphys_l\<close> only
  prints a message and goes on.
\<close>

definition write_gphys :: "bool \<Rightarrow> string \<Rightarrow> nat \<Rightarrow> 'd mmio_handler \<Rightarrow> u64 \<Rightarrow> u8 list \<Rightarrow> u32 \<Rightarrow> 'd mmio_data \<Rightarrow> 'd mmio_data res" where
  "write_gphys guard msg n H phys ds attr w =
     bind_res (cache_get_attr phys attr (caches w)) (\<lambda>attr.
     bind_res (mmio_access_memory H phys True ds (of_nat n) attr (mmio_lock w)) (\<lambda>(r, _, w).
     bind_res
       (if r then Inr w
        else let (phys, fakerom) = gmm_pass_gp2hp w phys in
          if fakerom \<and> guard then Inl (Panic msg) else Inr (hphys_write phys (take n ds) attr w))
       (\<lambda>w. Inr (mmio_unlock w))))"

definition write_gphys_b :: "'d mmio_handler \<Rightarrow> u64 \<Rightarrow> u32 \<Rightarrow> u32 \<Rightarrow> 'd mmio_data \<Rightarrow> 'd mmio_data res" where
  "write_gphys_b H phys data attr w =
     write_gphys True ''write_gphys_b modifying VMM memory.'' 1 H phys (le_bytes 4 data) attr w"

definition write_gphys_w :: "'d mmio_handler \<Rightarrow> u64 \<Rightarrow> u32 \<Rightarrow> u32 \<Rightarrow> 'd mmio_data \<Rightarrow> 'd mmio_data res" where
  "write_gphys_w H phys data attr w =
     (if phys AND 0xFFF = 0xFFF then
        bind_res (write_gphys_b H (phys + 0) (data AND 0xFF) attr w) (\<lambda>w.
        write_gphys_b H (phys + 1) (drop_bit 8 data AND 0xFF) attr w)
      else write_gphys True ''write_gphys_w modifying VMM memory.'' 2 H phys (le_bytes 4 data) attr w)"

definition write_gphys_l :: "'d mmio_handler \<Rightarrow> u64 \<Rightarrow> u32 \<Rightarrow> u32 \<Rightarrow> 'd mmio_data \<Rightarrow> 'd mmio_data res" where
  "write_gphys_l H phys data attr w =
     (if phys AND 0xFFF \<ge> 0xFFD then
        bind_res (write_gphys_w H (phys + 0) (data AND 0xFFFF) attr w) (\<lambda>w.
        write_gphys_w H (phys + 2) (drop_bit 16 data AND 0xFFFF) attr w)
      else write_gphys False [] 4 H phys (le_bytes 4 data) attr w)"

definition write_gphys_q :: "'d mmio_handler \<Rightarrow> u64 \<Rightarrow> u64 \<Rightarrow> u32 \<Rightarrow> 'd mmio_data \<Rightarrow> 'd mmio_data res" where
  "write_gphys_q H phys data attr w =
     (if phys AND 0xFFF \<ge> 0xFF9 then
        bind_res (write_gphys_l H (phys + 0) (ucast data) attr w) (\<lambda>w.
        write_gphys_l H (phys + 4) (ucast (drop_bit 32 data)) attr w)
      else write_gphys True ''write_gphys_q modifying VMM memory.'' 8 H phys (le_bytes 8 data) attr w)"

section \<open>Compare and exchange\<close>

definition cmpxchg_gphys ::
  "string \<Rightarrow> u8 list \<Rightarrow> u8 list \<Rightarrow> 'd mmio_handler \<Rightarrow> u64 \<Rightarrow> u32 \<Rightarrow> 'd mmio_data \<Rightarrow> ((bool \<times> u8 list) \<times> 'd mmio_data) res" where
  "cmpxchg_gphys msg old new H phys attr w =
     bind_res (cache_get_attr phys attr (caches w)) (\<lambda>attr.
     bind_res (mmio_access_memory H phys False old (of_nat (length old)) attr (mmio_lock w)) (\<lambda>(r, _, w).
     if r then Inl (Panic ''CMPXCHG MMIO!'')
     else
       let w = mmio_unlock w; (phys, fakerom) = gmm_pass_gp2hp w phys in
       if fakerom then Inl (Panic msg) else Inr (hphys_cmpxchg phys old new attr w)))"

definition cmpxchg_gphys_l ::
  "'d mmio_handler \<Rightarrow> u64 \<Rightarrow> u32 \<Rightarrow> u32 \<Rightarrow> u32 \<Rightarrow> 'd mmio_data \<Rightarrow> ((bool \<times> u32) \<times> 'd mmio_data) res" where
  "cmpxchg_gphys_l H phys olddata data attr w =
     (if phys AND 0xFFF \<ge> 0xFFD then Inl (Panic ''cmpxchg_gphys_l: bad physical address'')
      else bind_res (cmpxchg_gphys ''cmpxchg_gphys_l modifying VMM memory.'' (le_bytes 4 olddata) (le_bytes 4 data) H phys attr w)
        (\<lambda>((r, cur), w). Inr ((r, of_bytes cur), w)))"

definition cmpxchg_gphys_q ::
  "'d mmio_handler \<Rightarrow> u64 \<Rightarrow> u64 \<Rightarrow> u64 \<Rightarrow> u32 \<Rightarrow> 'd mmio_data \<Rightarrow> ((bool \<times> u64) \<times> 'd mmio_data) res" where
  "cmpxchg_gphys_q H phys olddata data attr w =
     (if phys AND 0xFFF \<ge> 0xFF9 then Inl (Panic ''cmpxchg_gphys_q: bad physical address'')
      else bind_res (cmpxchg_gphys ''cmpxchg_gphys_q modifying VMM memory.'' (le_bytes 8 olddata) (le_bytes 8 data) H phys attr w)
        (\<lambda>((r, cur), w). Inr ((r, of_bytes cur), w)))"

section \<open>Isolation of one access\<close>

lemma span_allowed:
  assumes "vmm_placed w" "gmm_pass_gp2hp w a = (h, fakerom)" "unat a mod 4096 + n \<le> 4096" "st \<and> wr \<longrightarrow> \<not> fakerom"
  shows "list_all (allowed st wr w) (span h n)"
  unfolding list_all_iff
proof
  fix x assume "x \<in> set (span h n)"
  then obtain i where i: "x = h + of_nat i" "i < n" by (auto simp: span_def)
  have "unat h mod 4096 \<le> unat a mod 4096"
    using assms(1,2) page_mod [of "phys_blank w"]
    by (auto simp: gmm_pass_gp2hp_def vmm_placed_def split: if_splits)
  then have "page h = page x" using i assms(3) page_add_in_page [of h i] by simp
  then show "allowed st wr w x"
    using allowed_page [OF assms(1)] gp2hp_allowed(1) [OF assms(1,2,4)] by blast
qed

lemma lock_step:
  assumes "ready w" "mmio_access_memory H phys wr bs n attr (mmio_lock w) = Inr (r, bs', w1)"
  shows "safe st w w1" "ready w1"
proof -
  have l: "safe True w (mmio_lock w)" by (rule mmio_lock_safe)
  have "safe True w w1" using safe_trans [OF l mmio_access_memory_safe [OF safe_ready [OF l assms(1)] assms(2)]] .
  then show "safe st w w1" "ready w1" using safe_weaken safe_ready assms(1) by blast+
qed

lemma read_gphys_safe:
  assumes "ready w" "unat phys mod 4096 + n \<le> 4096" "read_gphys n H phys bs attr w = Inr (bs', w')"
  shows "safe st w w'"
proof -
  obtain at r bs1 w1 where
    m: "mmio_access_memory H phys False bs (of_nat n) at (mmio_lock w) = Inr (r, bs1, w1)" and
    "(let (bs, w) = (if r then (bs1, w1) else hphys_read n (fst (gmm_pass_gp2hp w1 phys)) at w1)
      in Inr (bs, mmio_unlock w)) = (Inr (bs', w') :: (u8 list \<times> 'a mmio_data) res)"
    using assms(3) by (auto simp: read_gphys_def bind_res_Inr_iff)
  then obtain w2 where h: "(if r then (bs1, w1) else hphys_read n (fst (gmm_pass_gp2hp w1 phys)) at w1) = (bs', w2)"
    and w': "w' = mmio_unlock w2"
    by (cases "if r then (bs1, w1) else hphys_read n (fst (gmm_pass_gp2hp w1 phys)) at w1") auto
  note l = lock_step [OF assms(1) m]
  have "safe st w1 w2"
  proof (cases r)
    case False
    obtain h fr where g: "gmm_pass_gp2hp w1 phys = (h, fr)" by (cases "gmm_pass_gp2hp w1 phys")
    have "list_all (allowed st False w1) (span h n)"
      using span_allowed [OF _ g assms(2), of st False] l(2) by (simp add: ready_def)
    then show ?thesis
      using hphys_read_safe(1) [of w1 st h n at bs' w2] l(2) h False g by (simp add: ready_def)
  qed (use h in simp)
  from safe_trans [OF safe_trans [OF l(1) this] mmio_unlock_safe] show ?thesis by (simp add: w')
qed

lemma write_gphys_safe:
  assumes "ready w" "unat phys mod 4096 + n \<le> 4096" "write_gphys guard msg n H phys ds attr w = Inr w'" "st \<longrightarrow> guard"
  shows "safe st w w'"
proof -
  obtain at r bs1 w1 w2 where
    m: "mmio_access_memory H phys True ds (of_nat n) at (mmio_lock w) = Inr (r, bs1, w1)" and
    h: "(if r then Inr w1 else let (phys, fakerom) = gmm_pass_gp2hp w1 phys in
          if fakerom \<and> guard then Inl (Panic msg) else Inr (hphys_write phys (take n ds) at w1)) = Inr w2"
    and w': "w' = mmio_unlock w2"
    using assms(3) by (auto simp: write_gphys_def bind_res_Inr_iff)
  note l = lock_step [OF assms(1) m]
  have "safe st w1 w2"
  proof (cases r)
    case False
    obtain h' fr where g: "gmm_pass_gp2hp w1 phys = (h', fr)" by (cases "gmm_pass_gp2hp w1 phys")
    with h False have w2: "\<not> (fr \<and> guard)" "w2 = hphys_write h' (take n ds) at w1" by (auto split: if_splits)
    have "unat phys mod 4096 + length (take n ds) \<le> 4096" using assms(2) by simp
    then have "list_all (allowed st True w1) (span h' (length (take n ds)))"
      using span_allowed [OF _ g, of "length (take n ds)" st True] l(2) assms(4) w2(1) by (auto simp: ready_def)
    with l(2) show ?thesis unfolding w2(2) by (intro hphys_write_safe) (simp_all add: ready_def)
  qed (use h in simp)
  from safe_trans [OF safe_trans [OF l(1) this] mmio_unlock_safe] show ?thesis by (simp add: w')
qed

lemma cmpxchg_gphys_safe:
  assumes "ready w" "unat phys mod 4096 + length new \<le> 4096" "cmpxchg_gphys msg old new H phys attr w = Inr (x, w')"
  shows "safe st w w'"
proof -
  obtain at bs1 w1 h where
    m: "mmio_access_memory H phys False old (of_nat (length old)) at (mmio_lock w) = Inr (False, bs1, w1)" and
    g: "gmm_pass_gp2hp (mmio_unlock w1) phys = (h, False)" and c: "hphys_cmpxchg h old new at (mmio_unlock w1) = (x, w')"
    using assms(3) by (auto simp: cmpxchg_gphys_def bind_res_Inr_iff Let_def split: prod.splits if_splits)
  have l: "safe st w (mmio_unlock w1)"
    by (rule safe_trans [OF lock_step(1) [OF assms(1) m] mmio_unlock_safe])
  note r = safe_ready [OF l assms(1)]
  then have "list_all (allowed st True (mmio_unlock w1)) (span h (length new))"
    using span_allowed [OF _ g assms(2)] by (simp add: ready_def)
  then show ?thesis using hphys_cmpxchg_safe [OF _ _ c] r l by (auto simp: ready_def intro: safe_trans)
qed

text \<open>The alignment tests of the source leave accesses that stay in one page.\<close>

lemma in_page:
  fixes phys :: u64
  shows "unat phys mod 4096 + 1 \<le> 4096"
    "phys AND 0xFFF \<noteq> 0xFFF \<Longrightarrow> unat phys mod 4096 + 2 \<le> 4096"
    "\<not> 0xFFD \<le> phys AND 0xFFF \<Longrightarrow> unat phys mod 4096 + 4 \<le> 4096"
    "\<not> 0xFF9 \<le> phys AND 0xFFF \<Longrightarrow> unat phys mod 4096 + 8 \<le> 4096"
proof -
  have l: "unat phys mod 4096 < 4096" by simp
  then show "unat phys mod 4096 + 1 \<le> 4096" by linarith
  show "unat phys mod 4096 + 2 \<le> 4096" if "phys AND 0xFFF \<noteq> 0xFFF"
  proof -
    have "unat (phys AND 0xFFF) \<noteq> unat (0xFFF :: u64)" using that by (metis word_unat_eq_iff)
    then have "unat phys mod 4096 \<noteq> 4095" by (simp add: unat_offset)
    with l show ?thesis by linarith
  qed
  show "unat phys mod 4096 + 4 \<le> 4096" if "\<not> 0xFFD \<le> phys AND 0xFFF"
    using that by (simp add: word_le_nat_alt unat_offset not_le)
  show "unat phys mod 4096 + 8 \<le> 4096" if "\<not> 0xFF9 \<le> phys AND 0xFFF"
    using that by (simp add: word_le_nat_alt unat_offset not_le)
qed

lemma read_halves_safe:
  assumes "ready w" "read_halves f k H phys bs attr w = Inr (bs', w')"
    "\<And>phys bs bs' w w'. ready w \<Longrightarrow> f H phys bs attr w = Inr (bs', w') \<Longrightarrow> safe st w w'"
  shows "safe st w w'"
proof -
  obtain b0 b1 w1 where "f H (phys + 0) (take k bs) attr w = Inr (b0, w1)" "f H (phys + of_nat k) (drop k bs) attr w1 = Inr (b1, w')"
    using assms(2) by (auto simp: read_halves_def bind_res_Inr_iff)
  then show ?thesis using assms(3) [OF assms(1)] assms(3) safe_ready [OF _ assms(1)] by (blast intro: safe_trans)
qed

lemma read_gphys_b_safe: "ready w \<Longrightarrow> read_gphys_b H phys bs attr w = Inr (bs', w') \<Longrightarrow> safe st w w'"
  using read_gphys_safe [OF _ in_page(1)] by (auto simp: read_gphys_b_def)

lemma read_gphys_w_safe: "ready w \<Longrightarrow> read_gphys_w H phys bs attr w = Inr (bs', w') \<Longrightarrow> safe st w w'"
  using read_gphys_safe [OF _ in_page(2)] read_halves_safe [OF _ _ read_gphys_b_safe]
  by (auto simp: read_gphys_w_def split: if_splits)

lemma read_gphys_l_safe: "ready w \<Longrightarrow> read_gphys_l H phys bs attr w = Inr (bs', w') \<Longrightarrow> safe st w w'"
  using read_gphys_safe [OF _ in_page(3)] read_halves_safe [OF _ _ read_gphys_w_safe]
  by (auto simp: read_gphys_l_def split: if_splits)

lemma read_gphys_q_safe: "ready w \<Longrightarrow> read_gphys_q H phys bs attr w = Inr (bs', w') \<Longrightarrow> safe st w w'"
  using read_gphys_safe [OF _ in_page(4)] read_halves_safe [OF _ _ read_gphys_l_safe]
  by (auto simp: read_gphys_q_def split: if_splits)

lemma two_steps_safe:
  assumes "ready w" "bind_res (f w) g = Inr w'" "\<And>w w'. ready w \<Longrightarrow> f w = Inr w' \<Longrightarrow> safe st w w'"
    "\<And>w w'. ready w \<Longrightarrow> g w = Inr w' \<Longrightarrow> safe st w w'"
  shows "safe st w w'"
proof -
  obtain w1 where "f w = Inr w1" "g w1 = Inr w'" using assms(2) by (auto simp: bind_res_Inr_iff)
  then show ?thesis using assms(3) [OF assms(1)] assms(4) safe_ready [OF _ assms(1)] by (blast intro: safe_trans)
qed

lemma write_gphys_b_safe: "ready w \<Longrightarrow> write_gphys_b H phys data attr w = Inr w' \<Longrightarrow> safe st w w'"
  unfolding write_gphys_b_def by (erule write_gphys_safe [OF _ in_page(1)], assumption) simp

lemma write_gphys_w_safe:
  assumes "ready w" "write_gphys_w H phys data attr w = Inr w'" shows "safe st w w'"
proof (cases "phys AND 0xFFF = 0xFFF")
  case True
  with assms(2) show ?thesis unfolding write_gphys_w_def
    by (auto intro!: two_steps_safe [OF assms(1)] intro: write_gphys_b_safe)
next
  case False
  with assms(2) show ?thesis unfolding write_gphys_w_def
    by (auto intro: write_gphys_safe [OF assms(1) in_page(2) [OF False]])
qed

lemma write_gphys_l_safe:
  assumes "ready w" "write_gphys_l H phys data attr w = Inr w'" shows "safe False w w'"
proof (cases "0xFFD \<le> phys AND 0xFFF")
  case True
  with assms(2) show ?thesis unfolding write_gphys_l_def
    by (auto intro!: two_steps_safe [OF assms(1)] intro: write_gphys_w_safe)
next
  case False
  with assms(2) show ?thesis unfolding write_gphys_l_def
    by (auto intro: write_gphys_safe [OF assms(1) in_page(3) [OF False]])
qed

lemma write_gphys_q_safe:
  assumes "ready w" "write_gphys_q H phys data attr w = Inr w'" shows "safe False w w'"
proof (cases "0xFF9 \<le> phys AND 0xFFF")
  case True
  with assms(2) show ?thesis unfolding write_gphys_q_def
    by (auto intro!: two_steps_safe [OF assms(1)] intro: write_gphys_l_safe)
next
  case False
  with assms(2) show ?thesis unfolding write_gphys_q_def
    by (auto intro: write_gphys_safe [OF assms(1) in_page(4) [OF False]])
qed

lemma cmpxchg_gphys_l_safe: "ready w \<Longrightarrow> cmpxchg_gphys_l H phys old data attr w = Inr (x, w') \<Longrightarrow> safe st w w'"
  using cmpxchg_gphys_safe [of w phys "le_bytes 4 data"] in_page(3)
  by (auto simp: cmpxchg_gphys_l_def bind_res_Inr_iff split: if_splits)

lemma cmpxchg_gphys_q_safe: "ready w \<Longrightarrow> cmpxchg_gphys_q H phys old data attr w = Inr (x, w') \<Longrightarrow> safe st w w'"
  using cmpxchg_gphys_safe [of w phys "le_bytes 8 data"] in_page(4)
  by (auto simp: cmpxchg_gphys_q_def bind_res_Inr_iff split: if_splits)

section \<open>Isolation of any sequence of accesses\<close>

datatype gphys_op =
    Read_b u64 "u8 list" u32 | Read_w u64 "u8 list" u32 | Read_l u64 "u8 list" u32 | Read_q u64 "u8 list" u32
  | Write_b u64 u32 u32 | Write_w u64 u32 u32 | Write_l u64 u32 u32 | Write_q u64 u64 u32
  | Cmpxchg_l u64 u32 u32 u32 | Cmpxchg_q u64 u64 u64 u32
  | Unregister nat

fun run_op :: "'d mmio_handler \<Rightarrow> gphys_op \<Rightarrow> 'd mmio_data \<Rightarrow> 'd mmio_data res" where
  "run_op H (Read_b a bs at) w = map_sum id snd (read_gphys_b H a bs at w)"
| "run_op H (Read_w a bs at) w = map_sum id snd (read_gphys_w H a bs at w)"
| "run_op H (Read_l a bs at) w = map_sum id snd (read_gphys_l H a bs at w)"
| "run_op H (Read_q a bs at) w = map_sum id snd (read_gphys_q H a bs at w)"
| "run_op H (Write_b a d at) w = write_gphys_b H a d at w"
| "run_op H (Write_w a d at) w = write_gphys_w H a d at w"
| "run_op H (Write_l a d at) w = write_gphys_l H a d at w"
| "run_op H (Write_q a d at) w = write_gphys_q H a d at w"
| "run_op H (Cmpxchg_l a old d at) w = map_sum id snd (cmpxchg_gphys_l H a old d at w)"
| "run_op H (Cmpxchg_q a old d at) w = map_sum id snd (cmpxchg_gphys_q H a old d at w)"
| "run_op H (Unregister p) w = Inr (mmio_unregister p w)"

fun run_ops :: "'d mmio_handler \<Rightarrow> gphys_op list \<Rightarrow> 'd mmio_data \<Rightarrow> 'd mmio_data res" where
  "run_ops H [] w = Inr w"
| "run_ops H (x # xs) w = bind_res (run_op H x w) (run_ops H xs)"

lemma map_sum_snd_Inr: "map_sum id snd x = Inr w' \<longleftrightarrow> (\<exists>a. x = Inr (a, w'))"
  by (cases x) auto

lemma mmio_unregister_safe: "safe st w (mmio_unregister p w)"
  by (simp add: mmio_unregister_def remove_handle_safe safe_same)

text \<open>The accesses that keep the strict policy.\<close>

fun strict_op :: "gphys_op \<Rightarrow> bool" where
  "strict_op (Write_l a d at) = False" | "strict_op (Write_q a d at) = False" | "strict_op x = True"

lemma run_op_safe:
  assumes "ready w" "run_op H x w = Inr w'" "st \<longrightarrow> strict_op x" shows "safe st w w'"
  using assms
  by (cases x) (auto simp: map_sum_snd_Inr mmio_unregister_safe intro: read_gphys_b_safe read_gphys_w_safe
    read_gphys_l_safe read_gphys_q_safe write_gphys_b_safe write_gphys_w_safe write_gphys_l_safe write_gphys_q_safe
    cmpxchg_gphys_l_safe cmpxchg_gphys_q_safe)

lemma run_ops_safe:
  assumes "ready w" "run_ops H xs w = Inr w'" "st \<longrightarrow> list_all strict_op xs" shows "safe st w w'"
  using assms
proof (induction xs arbitrary: w)
  case (Cons x xs)
  obtain w1 where "run_op H x w = Inr w1" "run_ops H xs w1 = Inr w'"
    using Cons.prems(2) by (auto simp: bind_res_Inr_iff)
  moreover have "safe st w w1" using run_op_safe [OF Cons.prems(1)] calculation(1) Cons.prems(3) by auto
  moreover have "safe st w1 w'"
    using Cons.IH [OF safe_ready [OF calculation(3) Cons.prems(1)] calculation(2)] Cons.prems(3) by auto
  ultimately show ?case by (blast intro: safe_trans)
qed simp

section \<open>A guest without devices\<close>

text \<open>No handler is registered, no other processor interferes, and the range is outside the VMM.\<close>

definition quiet :: "'d mmio_data \<Rightarrow> bool" where
  "quiet w \<longleftrightarrow> mmio w = (\<lambda>_. []) \<and> pending w = [] \<and> \<not> unregister_flag w \<and> \<not> has_pat (pc (caches w))"

definition outside :: "'d mmio_data \<Rightarrow> u64 \<Rightarrow> nat \<Rightarrow> bool" where
  "outside w a n \<longleftrightarrow> list_all (\<lambda>x. \<not> phys_in_vmm (vmm_start_phys w) x) (span a n)"

lemma outside_drop: "outside w a n \<Longrightarrow> k + m \<le> n \<Longrightarrow> outside w (a + of_nat k) m"
  unfolding outside_def list_all_iff span_def
  by (auto simp: add.assoc simp flip: of_nat_add)

lemma outside_gp2hp: "outside w a n \<Longrightarrow> 0 < n \<Longrightarrow> gmm_pass_gp2hp w a = (a, False)"
  by (auto simp: outside_def list_all_iff span_def gmm_pass_gp2hp_def dest: bspec [of _ _ 0])

lemma access_slots_empty: "mmio (wld s) = (\<lambda>_. []) \<Longrightarrow> access_slots H wr f is s = Inr s"
  by (induction "is" arbitrary: s) simp_all

lemma mmio_access_quiet: "mmio w = (\<lambda>_. []) \<Longrightarrow> mmio_access_memory H a wr bs n f w = Inr (False, bs, w)"
  by (simp add: mmio_access_memory_def access_slots_empty Let_def)

text \<open>What is left of an access: the bus and the memory.\<close>

definition after_read :: "nat \<Rightarrow> u64 \<Rightarrow> u32 \<Rightarrow> 'd mmio_data \<Rightarrow> 'd mmio_data" where
  "after_read n a attr w = w\<lparr>events := events w @ [Bus a n attr False]\<rparr>"

definition after_write :: "u64 \<Rightarrow> u8 list \<Rightarrow> u32 \<Rightarrow> 'd mmio_data \<Rightarrow> 'd mmio_data" where
  "after_write a bs attr w = w\<lparr>events := events w @ [Bus a (length bs) attr True],
     mem := put_bytes (mem w) (span a (length bs)) bs\<rparr>"

lemma quiet_after [simp]:
  "quiet (after_read n a attr w) = quiet w" "quiet (after_write a bs attr w) = quiet w"
  "outside (after_read n a attr w) = outside w" "outside (after_write a bs attr w) = outside w"
  "mem (after_read n a attr w) = mem w" "mem (after_write a bs attr w) = put_bytes (mem w) (span a (length bs)) bs"
  by (simp_all add: quiet_def outside_def fun_eq_iff after_read_def after_write_def)

lemma read_gphys_quiet:
  assumes "quiet w" "outside w a n" "0 < n"
  shows "read_gphys n H a bs attr w = Inr (get_bytes (mem w) (span a n), after_read n a attr w)"
proof -
  have "gmm_pass_gp2hp (mmio_lock w) a = (a, False)"
    using outside_gp2hp [OF assms(2,3)] by (simp add: gmm_pass_gp2hp_def mmio_lock_def split: if_splits)
  then show ?thesis using assms(1)
    by (simp add: read_gphys_def quiet_def cache_get_attr_def mmio_access_quiet mmio_lock_def mmio_unlock_def
        hphys_read_def other_cpus_def note_event_def after_read_def Let_def)
qed

lemma write_gphys_quiet:
  assumes "quiet w" "outside w a n" "0 < n" "n \<le> length ds"
  shows "write_gphys guard msg n H a ds attr w = Inr (after_write a (take n ds) attr w)"
proof -
  have "gmm_pass_gp2hp (mmio_lock w) a = (a, False)"
    using outside_gp2hp [OF assms(2,3)] by (simp add: gmm_pass_gp2hp_def mmio_lock_def split: if_splits)
  then show ?thesis using assms(1,4)
    by (simp add: write_gphys_def quiet_def cache_get_attr_def mmio_access_quiet mmio_lock_def mmio_unlock_def
        hphys_write_def other_cpus_def note_event_def after_write_def Let_def)
qed

lemma span_append: "span a (k + m) = span a k @ span (a + of_nat k) m"
  unfolding span_def by (rule nth_equalityI) (auto simp: nth_append)

lemma le_bytes_append: "le_bytes (k + m) x = le_bytes k x @ le_bytes m (drop_bit (8 * k) x)"
  unfolding le_bytes_def by (rule nth_equalityI) (auto simp: nth_append algebra_simps)

lemma take_le_bytes: "n \<le> m \<Longrightarrow> take n (le_bytes m x) = le_bytes n x"
  by (simp add: le_bytes_def take_map)

lemma le_bytes_mask: "le_bytes n (x AND mask (8 * n)) = le_bytes n x"
proof -
  have "(ucast (drop_bit (8 * i) (x AND mask (8 * n))) :: u8) = ucast (drop_bit (8 * i) x)" if "i < n" for i
    using that by (intro bit_word_eqI) (auto simp: bit_simps dest: bit_imp_le_length)
  then show ?thesis by (simp add: le_bytes_def)
qed

lemma le_bytes_ucast: "le_bytes 4 (ucast x :: u32) = le_bytes 4 x" for x :: u64
proof -
  have "(ucast (drop_bit (8 * i) (ucast x :: u32)) :: u8) = ucast (drop_bit (8 * i) x)" if "i < 4" for i
    using that by (intro bit_word_eqI) (auto simp: bit_simps)
  then show ?thesis by (simp add: le_bytes_def)
qed

lemma put_bytes_append:
  "length as = length bs \<Longrightarrow> put_bytes m (as @ as') (bs @ bs') = put_bytes (put_bytes m as bs) as' bs'"
  by (induction as bs arbitrary: m rule: list_induct2) simp_all

lemma get_put_bytes: "distinct as \<Longrightarrow> length as = length bs \<Longrightarrow> get_bytes (put_bytes m as bs) as = bs"
proof -
  have "put_bytes (m(a := b)) as bs a = b" if "a \<notin> set as" for m a b as bs
    using that by (simp add: put_bytes_outside)
  then show "distinct as \<Longrightarrow> length as = length bs \<Longrightarrow> get_bytes (put_bytes m as bs) as = bs"
    by (induction as bs arbitrary: m rule: put_bytes.induct) (simp_all add: get_bytes_def)
qed

lemma span_length [simp]: "length (span a n) = n"
  by (simp add: span_def)

lemma span_distinct: "n \<le> 4096 \<Longrightarrow> distinct (span a n)"
proof -
  assume n: "n \<le> 4096"
  have "inj_on (\<lambda>i. a + of_nat i) {0..<n}"
  proof (rule inj_onI)
    fix i j assume ij: "i \<in> {0..<n}" "j \<in> {0..<n}" "a + of_nat i = a + of_nat j"
    have "unat (of_nat i :: u64) = i" "unat (of_nat j :: u64) = j"
      using ij(1,2) n by (simp_all add: unat_less_of_nat)
    with ij(3) show "i = j" by (metis add_left_cancel)
  qed
  then show "distinct (span a n)" by (simp add: span_def distinct_map)
qed

text \<open>The four sizes, cut into halves or not.\<close>

definition reads :: "nat \<Rightarrow> u64 \<Rightarrow> 'd mmio_data \<Rightarrow> (u8 list \<times> 'd mmio_data) res \<Rightarrow> bool" where
  "reads n a w x \<longleftrightarrow> (\<exists>w'. x = Inr (get_bytes (mem w) (span a n), w') \<and> quiet w' \<and> outside w' = outside w \<and> mem w' = mem w)"

definition writes :: "u64 \<Rightarrow> u8 list \<Rightarrow> 'd mmio_data \<Rightarrow> 'd mmio_data res \<Rightarrow> bool" where
  "writes a bs w x \<longleftrightarrow> (\<exists>w'. x = Inr w' \<and> quiet w' \<and> outside w' = outside w \<and>
     mem w' = put_bytes (mem w) (span a (length bs)) bs)"

lemma reads_direct: "quiet w \<Longrightarrow> outside w a n \<Longrightarrow> 0 < n \<Longrightarrow> reads n a w (read_gphys n H a bs attr w)"
  by (simp add: reads_def read_gphys_quiet)

lemma writes_direct:
  "quiet w \<Longrightarrow> outside w a n \<Longrightarrow> 0 < n \<Longrightarrow> n \<le> m \<Longrightarrow> writes a (le_bytes n x) w (write_gphys guard msg n H a (le_bytes m x) attr w)"
  by (simp add: writes_def write_gphys_quiet take_le_bytes)

lemma reads_halves:
  assumes "quiet w" "outside w a (k + k)"
    "\<And>w a bs. quiet w \<Longrightarrow> outside w a k \<Longrightarrow> reads k a w (f H a bs attr w)"
  shows "reads (k + k) a w (read_halves f k H a bs attr w)"
proof -
  have o: "outside w a k" "outside w (a + of_nat k) k"
    using outside_drop [OF assms(2), of 0 k] outside_drop [OF assms(2), of k k] by simp_all
  obtain w1 where w1: "f H a (take k bs) attr w = Inr (get_bytes (mem w) (span a k), w1)"
    "quiet w1" "outside w1 = outside w" "mem w1 = mem w"
    using assms(3) [OF assms(1) o(1)] by (auto simp: reads_def)
  obtain w2 where w2: "f H (a + of_nat k) (drop k bs) attr w1 = Inr (get_bytes (mem w) (span (a + of_nat k) k), w2)"
    "quiet w2" "outside w2 = outside w" "mem w2 = mem w"
    using assms(3) [OF w1(2), of "a + of_nat k" "drop k bs"] w1(3,4) o(2) by (auto simp: reads_def)
  show ?thesis using w1 w2 by (simp add: reads_def read_halves_def span_append get_bytes_def)
qed

lemma writes_halves:
  assumes "writes a (le_bytes k x) w (f w)" "\<And>w1. quiet w1 \<Longrightarrow> outside w1 = outside w \<Longrightarrow>
    writes (a + of_nat k) (le_bytes k (drop_bit (8 * k) x)) w1 (g w1)"
  shows "writes a (le_bytes (k + k) x) w (bind_res (f w) g)"
proof -
  obtain w1 where w1: "f w = Inr w1" "quiet w1" "outside w1 = outside w" "mem w1 = put_bytes (mem w) (span a k) (le_bytes k x)"
    using assms(1) by (auto simp: writes_def)
  from assms(2) [OF w1(2,3)] show ?thesis
    using w1 by (auto simp: writes_def le_bytes_append span_append put_bytes_append)
qed

lemma reads_b: "quiet w \<Longrightarrow> outside w a 1 \<Longrightarrow> reads 1 a w (read_gphys_b H a bs attr w)"
  using reads_direct [of w a 1] by (simp add: read_gphys_b_def)

lemma reads_w:
  assumes "quiet w" "outside w a 2" shows "reads 2 a w (read_gphys_w H a bs attr w)"
proof -
  have "reads (1 + 1) a w (read_halves read_gphys_b 1 H a bs attr w)"
    by (rule reads_halves [OF assms(1)]) (use assms(2) in \<open>auto simp only: one_add_one intro: reads_b\<close>)
  then show ?thesis using reads_direct [OF assms] by (simp add: read_gphys_w_def numeral_2_eq_2)
qed

lemma reads_l: "quiet w \<Longrightarrow> outside w a 4 \<Longrightarrow> reads 4 a w (read_gphys_l H a bs attr w)"
  unfolding read_gphys_l_def by (auto intro!: reads_direct reads_halves [where k = 2, simplified] reads_w)

lemma reads_q: "quiet w \<Longrightarrow> outside w a 8 \<Longrightarrow> reads 8 a w (read_gphys_q H a bs attr w)"
  unfolding read_gphys_q_def by (auto intro!: reads_direct reads_halves [where k = 4, simplified] reads_l)

lemma writes_b: "quiet w \<Longrightarrow> outside w a 1 \<Longrightarrow> writes a (le_bytes 1 d) w (write_gphys_b H a d attr w)"
  using writes_direct [of w a 1 4 d] by (simp add: write_gphys_b_def)

lemma mask_numerals: "(0xFF :: u32) = mask (8 * 1)" "(0xFFFF :: u32) = mask (8 * 2)"
  by (simp_all add: mask_eq_exp_minus_1)

lemma writes_w:
  assumes "quiet w" "outside w a 2" shows "writes a (le_bytes 2 d) w (write_gphys_w H a d attr w)"
proof (cases "a AND 0xFFF = 0xFFF")
  case True
  have "writes a (le_bytes (1 + 1) d) w (bind_res (write_gphys_b H a (d AND 0xFF) attr w)
      (\<lambda>w. write_gphys_b H (a + 1) (drop_bit 8 d AND 0xFF) attr w))"
  proof (rule writes_halves)
    show "writes a (le_bytes 1 d) w (write_gphys_b H a (d AND 0xFF) attr w)"
      using writes_b [OF assms(1), of a "d AND 0xFF"] outside_drop [OF assms(2), of 0 1]
      by (simp only: mask_numerals le_bytes_mask) simp
    fix w1 :: "'a mmio_data" assume "quiet w1" "outside w1 = outside w"
    then show "writes (a + of_nat 1) (le_bytes 1 (drop_bit (8 * 1) d)) w1 (write_gphys_b H (a + 1) (drop_bit 8 d AND 0xFF) attr w1)"
      using writes_b [of w1 "a + 1" "drop_bit 8 d AND 0xFF"] outside_drop [OF assms(2), of 1 1]
      by (simp only: mask_numerals le_bytes_mask) simp
  qed
  with True show ?thesis by (simp add: write_gphys_w_def numeral_2_eq_2)
qed (use writes_direct [OF assms, of 4] in \<open>simp add: write_gphys_w_def\<close>)

lemma writes_l:
  assumes "quiet w" "outside w a 4" shows "writes a (le_bytes 4 d) w (write_gphys_l H a d attr w)"
proof (cases "0xFFD \<le> a AND 0xFFF")
  case True
  have "writes a (le_bytes (2 + 2) d) w (bind_res (write_gphys_w H a (d AND 0xFFFF) attr w)
      (\<lambda>w. write_gphys_w H (a + 2) (drop_bit 16 d AND 0xFFFF) attr w))"
  proof (rule writes_halves)
    show "writes a (le_bytes 2 d) w (write_gphys_w H a (d AND 0xFFFF) attr w)"
      using writes_w [OF assms(1), of a "d AND 0xFFFF"] outside_drop [OF assms(2), of 0 2]
      by (simp only: mask_numerals le_bytes_mask) simp
    fix w1 :: "'a mmio_data" assume "quiet w1" "outside w1 = outside w"
    then show "writes (a + of_nat 2) (le_bytes 2 (drop_bit (8 * 2) d)) w1 (write_gphys_w H (a + 2) (drop_bit 16 d AND 0xFFFF) attr w1)"
      using writes_w [of w1 "a + 2" "drop_bit 16 d AND 0xFFFF"] outside_drop [OF assms(2), of 2 2]
      by (simp only: mask_numerals le_bytes_mask) simp
  qed
  with True show ?thesis by (simp add: write_gphys_l_def)
qed (use writes_direct [OF assms, of 4] in \<open>simp add: write_gphys_l_def\<close>)

lemma writes_q:
  assumes "quiet w" "outside w a 8" shows "writes a (le_bytes 8 d) w (write_gphys_q H a d attr w)"
proof (cases "0xFF9 \<le> a AND 0xFFF")
  case True
  have "writes a (le_bytes (4 + 4) d) w (bind_res (write_gphys_l H a (ucast d) attr w)
      (\<lambda>w. write_gphys_l H (a + 4) (ucast (drop_bit 32 d)) attr w))"
  proof (rule writes_halves)
    show "writes a (le_bytes 4 d) w (write_gphys_l H a (ucast d) attr w)"
      using writes_l [OF assms(1), of a "ucast d"] outside_drop [OF assms(2), of 0 4]
      by (simp add: le_bytes_ucast)
    fix w1 :: "'a mmio_data" assume "quiet w1" "outside w1 = outside w"
    then show "writes (a + of_nat 4) (le_bytes 4 (drop_bit (8 * 4) d)) w1 (write_gphys_l H (a + 4) (ucast (drop_bit 32 d)) attr w1)"
      using writes_l [of w1 "a + 4" "ucast (drop_bit 32 d)"] outside_drop [OF assms(2), of 4 4]
      by (simp add: le_bytes_ucast)
  qed
  with True show ?thesis by (simp add: write_gphys_q_def)
qed (use writes_direct [OF assms, of 8] in \<open>simp add: write_gphys_q_def\<close>)

section \<open>Properties\<close>

lemma sample_ready: "ready sample_world"
  by (simp add: ready_def vmm_placed_def others_ok_def sample_world_def VMMSIZE_ALL_def page_def)

lemma sample_quiet: "quiet sample_world" "outside sample_world 0xFFD 8"
  by (simp_all add: quiet_def outside_def sample_world_def span_def upt_rec phys_in_vmm_def VMMSIZE_ALL_def)

lemma sample_write: "\<exists>w'. write_gphys_l H 0xFFD d 0 sample_world = Inr w'" "\<exists>w'. write_gphys_w H 0xFFD e 0 sample_world = Inr w'"
  using writes_l [OF sample_quiet(1) outside_drop [OF sample_quiet(2), of 0 4, simplified]]
    writes_w [OF sample_quiet(1) outside_drop [OF sample_quiet(2), of 0 2, simplified]]
  unfolding writes_def by blast+

text \<open>C1: whatever the guest reads, writes or exchanges, in whatever order, through whatever device handlers: the
  memory of the VMM outside the blank page is never changed, and the bus sees no access to it, not even a read.\<close>

theorem vmm_memory_is_isolated:
  assumes "ready w" "run_ops H ops w = Inr w'"
  shows "{a. in_vmm w a \<and> page a \<noteq> phys_blank w \<and> mem w' a \<noteq> mem w a} = {} \<and>
    (\<exists>es. events w' = events w @ es \<and> list_all (event_ok False w) es)"
proof -
  have "safe False w w'" using run_ops_safe [OF assms, of False] by simp
  then show ?thesis by (auto simp: safe_def allowed_def)
qed

theorem vmm_memory_is_isolated_witness:
  "\<exists>w'. run_ops no_handler [Write_l 0xFFD 0x12345678 0] sample_world = Inr w' \<and>
    (\<exists>es. events w' = events sample_world @ es \<and> list_all (event_ok False sample_world) es)"
proof -
  obtain w' where "run_ops no_handler [Write_l 0xFFD 0x12345678 0] sample_world = Inr w'"
    using sample_write(1) [of no_handler "0x12345678"] by auto
  with vmm_memory_is_isolated [OF sample_ready this] show ?thesis by blast
qed

text \<open>an access sequence without 4- and 8-byte stores does not change the blank page either.\<close>

theorem blank_page_is_write_protected:
  assumes "ready w" "run_ops H ops w = Inr w'" "list_all strict_op ops"
  shows "{a. in_vmm w a \<and> mem w' a \<noteq> mem w a} = {}"
proof -
  have "safe True w w'" using run_ops_safe [OF assms(1,2), of True] assms(3) by simp
  then show ?thesis by (auto simp: safe_def allowed_def)
qed

theorem blank_page_is_write_protected_witness:
  "\<exists>w'. run_ops no_handler [Write_w 0xFFD 0x1234 0] sample_world = Inr w' \<and>
    {a. in_vmm sample_world a \<and> mem w' a \<noteq> mem sample_world a} = {}"
proof -
  obtain w' where w: "run_ops no_handler [Write_w 0xFFD 0x1234 0] sample_world = Inr w'"
    using sample_write(2) [of no_handler "0x1234"] by auto
  from blank_page_is_write_protected [OF sample_ready w] w show ?thesis by simp
qed

text \<open>a 4-byte store of the guest to the memory of the VMM goes to the blank page, where the 1-, 2- and 8-byte
  stores panic.\<close>

theorem four_byte_store_reaches_blank_page:
  assumes "quiet w" "phys_in_vmm (vmm_start_phys w) a" "\<not> 0xFF9 \<le> a AND 0xFFF"
  shows "(\<exists>w'. write_gphys_l H a d attr w = Inr w' \<and> get_bytes (mem w') (span (phys_blank w) 4) = le_bytes 4 d) \<and>
    write_gphys_b H a d attr w = Inl (Panic ''write_gphys_b modifying VMM memory.'') \<and>
    write_gphys_w H a d attr w = Inl (Panic ''write_gphys_w modifying VMM memory.'') \<and>
    write_gphys_q H a q attr w = Inl (Panic ''write_gphys_q modifying VMM memory.'')"
proof -
  have g: "gmm_pass_gp2hp (mmio_lock w) a = (phys_blank w, True)"
    using assms(2) by (simp add: gmm_pass_gp2hp_def mmio_lock_def)
  have g4: "write_gphys False msg 4 H a (le_bytes 4 d) attr w = Inr (after_write (phys_blank w) (le_bytes 4 d) attr w)" for msg
    using assms(1) g
    by (simp add: write_gphys_def quiet_def cache_get_attr_def mmio_access_quiet mmio_lock_def mmio_unlock_def
        hphys_write_def other_cpus_def note_event_def after_write_def Let_def)
  have gp: "write_gphys True msg n H a ds attr w = Inl (Panic msg)" for msg n ds
    using assms(1) g by (simp add: write_gphys_def quiet_def cache_get_attr_def mmio_access_quiet mmio_lock_def)
  have "\<not> 0xFFD \<le> a AND 0xFFF" "a AND 0xFFF \<noteq> 0xFFF"
    using assms(3) by (auto simp: word_le_nat_alt)
  then show ?thesis using g4 gp assms(3)
    by (simp add: write_gphys_l_def write_gphys_b_def write_gphys_w_def write_gphys_q_def get_put_bytes span_distinct)
qed

theorem four_byte_store_reaches_blank_page_witness:
  "\<exists>w'. write_gphys_l no_handler 0x10002000 0xDEADBEEF 0 sample_world = Inr w' \<and>
    get_bytes (mem w') (span 0x10001000 4) = [0xEF, 0xBE, 0xAD, 0xDE]"
proof -
  have p: "phys_in_vmm (vmm_start_phys sample_world) 0x10002000" "phys_blank sample_world = 0x10001000"
    by (simp_all add: sample_world_def phys_in_vmm_def VMMSIZE_ALL_def)
  have "le_bytes 4 (0xDEADBEEF :: u32) = [0xEF, 0xBE, 0xAD, 0xDE]"
    by (simp add: le_bytes_def upt_rec drop_bit_eq_div)
  with four_byte_store_reaches_blank_page [OF sample_quiet(1) p(1), of no_handler "0xDEADBEEF" 0] p(2) show ?thesis by auto
qed



end
