(* ===== verification/Vramwrite.thy ===== *)
theory Vramwrite
  imports Prelude
begin

text \<open>
  The text console of the VMM (\<^verbatim>\<open>bitvisor/core/vramwrite.c\<close>): the VGA text memory, written at the
  cursor that the CRT controller keeps.  The text memory is a list of cells, cell \<open>i\<close> being the
  bytes \<open>2 * i\<close> (the character) and \<open>2 * i + 1\<close> (the colour) of the 32 KiB window.  An abstract
  terminal of 25 lines of 80 cells specifies the output.
\<close>

section \<open>State\<close>

type_synonym cell = "u8 \<times> u8"

record console =
  vram :: "cell list option"    \<comment> \<open>\<open>vram_virtaddr\<close>; none is the null pointer\<close>
  crtc :: "u8 \<Rightarrow> u8"    \<comment> \<open>the registers of the CRT controller\<close>
  crtc_index :: u8    \<comment> \<open>port 0x3D4\<close>
  saved_cursor_pos :: u16

definition CRTC_CURSOR_POS :: u8 where "CRTC_CURSOR_POS = 0xE"
definition CRTC_SCROLL :: u8 where "CRTC_SCROLL = 0xC"

definition outb_3D4 :: "u8 \<Rightarrow> console \<Rightarrow> console" where "outb_3D4 i s = s\<lparr>crtc_index := i\<rparr>"
definition outb_3D5 :: "u8 \<Rightarrow> console \<Rightarrow> console" where "outb_3D5 d s = s\<lparr>crtc := (crtc s)(crtc_index s := d)\<rparr>"
definition inb_3D5 :: "console \<Rightarrow> u8" where "inb_3D5 s = crtc s (crtc_index s)"

section \<open>The CRT controller\<close>

definition read_crtc_word :: "u8 \<Rightarrow> console \<Rightarrow> u16 \<times> console" where
  "read_crtc_word i s =
     (let s = outb_3D4 i s; h = inb_3D5 s; s = outb_3D4 (i + 1) s; l = inb_3D5 s
      in (push_bit 8 (ucast h) OR ucast l, s))"

definition write_crtc_word :: "u8 \<Rightarrow> u16 \<Rightarrow> console \<Rightarrow> console" where
  "write_crtc_word i data s =
     (let h = ucast (drop_bit 8 data); l = ucast data
      in outb_3D5 l (outb_3D4 (i + 1) (outb_3D5 h (outb_3D4 i s))))"

definition read_cursor_pos :: "console \<Rightarrow> u16 \<times> console" where
  "read_cursor_pos s =
     (let orig_3d4 = crtc_index s; (data, s) = read_crtc_word CRTC_CURSOR_POS s in (data, outb_3D4 orig_3d4 s))"

definition read_scroll :: "console \<Rightarrow> u16 \<times> console" where
  "read_scroll s =
     (let orig_3d4 = crtc_index s; (data, s) = read_crtc_word CRTC_SCROLL s in (data, outb_3D4 orig_3d4 s))"

definition write_scroll :: "u16 \<Rightarrow> console \<Rightarrow> console" where
  "write_scroll scroll s = (let orig_3d4 = crtc_index s in outb_3D4 orig_3d4 (write_crtc_word CRTC_SCROLL scroll s))"

definition move_cursor_pos :: "u16 \<Rightarrow> console \<Rightarrow> console" where
  "move_cursor_pos pos s = (let orig_3d4 = crtc_index s in outb_3D4 orig_3d4 (write_crtc_word CRTC_CURSOR_POS pos s))"

definition move_cursor_pos_xy :: "u32 \<Rightarrow> u32 \<Rightarrow> console \<Rightarrow> console" where
  "move_cursor_pos_xy x y s = (let (scroll, s) = read_scroll s in move_cursor_pos (ucast (ucast scroll + y * 80 + x)) s)"

section \<open>The text memory\<close>

definition put_cell :: "cell list \<Rightarrow> nat \<Rightarrow> cell \<Rightarrow> cell list res" where
  "put_cell v i c = (if i < length v then Inr (v[i := c]) else Inl OutOfBounds)"

fun rep_movsw :: "nat \<Rightarrow> nat \<Rightarrow> nat \<Rightarrow> cell list \<Rightarrow> cell list res" where
  "rep_movsw 0 src dst v = Inr v"
| "rep_movsw (Suc n) src dst v =
     (if src < length v then bind_res (put_cell v dst (v ! src)) (rep_movsw n (src + 1) (dst + 1)) else Inl OutOfBounds)"

fun rep_stosw :: "nat \<Rightarrow> nat \<Rightarrow> cell \<Rightarrow> cell list \<Rightarrow> cell list res" where
  "rep_stosw 0 dst c v = Inr v"
| "rep_stosw (Suc n) dst c v = bind_res (put_cell v dst c) (rep_stosw n (dst + 1) c)"

definition scroll_up :: "nat \<Rightarrow> u32 \<Rightarrow> u32 \<Rightarrow> cell \<Rightarrow> cell list \<Rightarrow> cell list res" where
  "scroll_up start width height space v =
     (let n = unat (width * height - width) in
      bind_res (rep_movsw n (start + unat width) start v) (rep_stosw (unat width) (start + n) space))"

definition vramwrite_clearscreen :: "console \<Rightarrow> console res" where
  "vramwrite_clearscreen s =
     (case vram s of
        None \<Rightarrow> Inr s
      | Some v \<Rightarrow> bind_res (rep_stosw (80 * 25) 0 (0x20, 0x07) v)
          (\<lambda>v. Inr (move_cursor_pos 0 (write_scroll 0 (s\<lparr>vram := Some v\<rparr>)))))"

section \<open>Output of a character\<close>

text \<open>\<open>cursor - scroll\<close> is computed in \<open>int\<close>; a remainder is only compared with 0.\<close>

definition diff :: "u16 \<Rightarrow> u16 \<Rightarrow> int" where
  "diff cursor scroll = int (unat cursor) - int (unat scroll)"

function cr_loop :: "u16 \<Rightarrow> u16 \<Rightarrow> u16" where
  "cr_loop scroll cursor =
     (if cursor \<noteq> 0 \<and> cursor \<noteq> scroll \<and> diff cursor scroll mod 80 \<noteq> 0 then cr_loop scroll (cursor - 1) else cursor)"
  by pat_completeness auto
termination by (relation "measure (\<lambda>(_, cursor). unat cursor)") (auto simp: unat_minus_one unat_gt_0)

declare cr_loop.simps [simp del]

function nl_loop :: "u16 \<Rightarrow> nat \<Rightarrow> u16 \<Rightarrow> cell list \<Rightarrow> (cell list \<times> u16) res" where
  "nl_loop scroll p cursor v =
     (case put_cell v p (0x20, 0x07) of
        Inl e \<Rightarrow> Inl e
      | Inr v \<Rightarrow>
          let cursor = cursor + 1 in
          if diff cursor scroll mod 80 \<noteq> 0 then nl_loop scroll (p + 1) cursor v else Inr (v, cursor))"
  by pat_completeness auto
termination by (relation "measure (\<lambda>(_, p, _, v). length v - p)") (auto simp: put_cell_def split: if_splits)

declare nl_loop.simps [simp del]

text \<open>The loop that shortens the part to scroll; its test is in \<open>unsigned int\<close>.\<close>

function fit_lines :: "u16 \<Rightarrow> u32 \<Rightarrow> u32" where
  "fit_lines scroll lines =
     (if 0x8000 \<le> push_bit 1 (ucast scroll) + lines * 160 then fit_lines scroll (lines - 1) else lines)"
  by pat_completeness auto
termination
proof (relation "measure (\<lambda>(scroll, lines). unat (push_bit 1 (ucast scroll) + lines * 160 :: u32))")
  fix scroll :: u16 and lines :: u32
  let ?v = "push_bit 1 (ucast scroll) + lines * 160 :: u32"
  assume v: "0x8000 \<le> ?v"
  have "push_bit 1 (ucast scroll) + (lines - 1) * 160 = ?v - 160" by (simp add: algebra_simps)
  moreover have "unat (?v - 160) < unat ?v"
    using v by (subst unat_sub) (auto simp: word_le_nat_alt)
  ultimately show "((scroll, lines - 1), scroll, lines)
      \<in> measure (\<lambda>(scroll, lines). unat (push_bit 1 (ucast scroll) + lines * 160 :: u32))"
    by (simp only: in_measure prod.case)
qed simp

declare fit_lines.simps [simp del]

text \<open>The part of \<open>vramwrite_putchar\<close> that works on the text memory: the character, the scrolling.\<close>

definition put_char :: "u8 \<Rightarrow> u16 \<Rightarrow> u16 \<Rightarrow> cell list \<Rightarrow> (cell list \<times> u16) res" where
  "put_char c scroll cursor v =
     (if c = 0x08 then Inr (v, if cursor \<noteq> 0 \<and> cursor \<noteq> scroll then cursor - 1 else cursor)
      else if c = 0x0D then Inr (v, cr_loop scroll cursor)
      else if c \<noteq> 0x0A then bind_res (put_cell v (unat cursor) (c, 0x02)) (\<lambda>v. Inr (v, cursor + 1))
      else nl_loop scroll (unat cursor) cursor v)"

definition scroll_text :: "u16 \<Rightarrow> u16 \<Rightarrow> cell list \<Rightarrow> (cell list \<times> u16) res" where
  "scroll_text scroll cursor v =
     (if 80 * 25 \<le> diff cursor scroll \<and> diff cursor scroll mod 80 = 0 then
        let lines = fit_lines scroll (of_int (diff cursor scroll div 80))
        in bind_res (scroll_up (unat scroll) 80 lines (0x20, 0x07) v) (\<lambda>v. Inr (v, cursor - 80))
      else Inr (v, cursor))"

definition console_putchar :: "u8 \<Rightarrow> console \<Rightarrow> console res" where
  "console_putchar c s =
     (case vram s of
        None \<Rightarrow> Inr s
      | Some v \<Rightarrow>
          let (scroll, s) = read_scroll s; (cursor, s) = read_cursor_pos s in
          bind_res (put_char c scroll cursor v) (\<lambda>(v, cursor).
          bind_res (scroll_text scroll cursor v) (\<lambda>(v, cursor).
          Inr (move_cursor_pos cursor (s\<lparr>vram := Some v\<rparr>)))))"

section \<open>Marks and the cursor\<close>

definition mark :: "(cell \<Rightarrow> cell) \<Rightarrow> u32 \<Rightarrow> u32 \<Rightarrow> console \<Rightarrow> console res" where
  "mark f x y s =
     (case vram s of
        None \<Rightarrow> Inr s
      | Some v \<Rightarrow>
          let (scroll, s) = read_scroll s; i = unat (push_bit 1 (ucast scroll + y * 80 + x)) div 2
          in if i < length v then Inr (s\<lparr>vram := Some (v[i := f (v ! i)])\<rparr>) else Inl OutOfBounds)"

definition vramwrite_mark1 :: "u32 \<Rightarrow> u32 \<Rightarrow> console \<Rightarrow> console res" where
  "vramwrite_mark1 x y s = mark (\<lambda>(c, a). (c + 1, a)) x y s"
definition vramwrite_mark2 :: "u32 \<Rightarrow> u32 \<Rightarrow> u8 \<Rightarrow> console \<Rightarrow> console res" where
  "vramwrite_mark2 x y xor_color s = mark (\<lambda>(c, a). (c, a XOR xor_color)) x y s"
definition vramwrite_mark3 :: "u32 \<Rightarrow> u32 \<Rightarrow> u8 \<Rightarrow> console \<Rightarrow> console res" where
  "vramwrite_mark3 x y color s = mark (\<lambda>(c, a). (c, color)) x y s"

definition vramwrite_save_and_move_cursor :: "u32 \<Rightarrow> u32 \<Rightarrow> console \<Rightarrow> console" where
  "vramwrite_save_and_move_cursor x y s =
     (let (pos, s) = read_cursor_pos s in move_cursor_pos_xy x y (s\<lparr>saved_cursor_pos := pos\<rparr>))"

definition vramwrite_restore_cursor :: "console \<Rightarrow> console" where
  "vramwrite_restore_cursor s = move_cursor_pos (saved_cursor_pos s) s"

text \<open>The quotient and the remainder of C, rounding towards zero.\<close>

definition vramwrite_get_cursor_pos :: "console \<Rightarrow> (u32 \<times> u32) \<times> console" where
  "vramwrite_get_cursor_pos s =
     (let (scroll, s) = read_scroll s; (cursor, s) = read_cursor_pos s; d = diff cursor scroll
      in ((of_int (sgn d * (\<bar>d\<bar> mod 80)), of_int (sgn d * (\<bar>d\<bar> div 80))), s))"

definition vramwrite_init_global :: "cell list option \<Rightarrow> console \<Rightarrow> console" where
  "vramwrite_init_global v s = s\<lparr>vram := v\<rparr>"

definition vramwrite_exit_global :: "console \<Rightarrow> console" where
  "vramwrite_exit_global s = s\<lparr>vram := None\<rparr>"

section \<open>Facts on the registers and the loops\<close>

definition scroll_of :: "console \<Rightarrow> u16" where
  "scroll_of s = push_bit 8 (ucast (crtc s CRTC_SCROLL)) OR ucast (crtc s (CRTC_SCROLL + 1))"

definition cursor_of :: "console \<Rightarrow> u16" where
  "cursor_of s = push_bit 8 (ucast (crtc s CRTC_CURSOR_POS)) OR ucast (crtc s (CRTC_CURSOR_POS + 1))"

lemmas crtc_defs = outb_3D4_def outb_3D5_def inb_3D5_def read_crtc_word_def write_crtc_word_def
  CRTC_CURSOR_POS_def CRTC_SCROLL_def

lemma read_scroll [simp]: "read_scroll s = (scroll_of s, s)"
  by (simp add: read_scroll_def scroll_of_def crtc_defs)

lemma read_cursor_pos [simp]: "read_cursor_pos s = (cursor_of s, s)"
  by (simp add: read_cursor_pos_def cursor_of_def crtc_defs)

lemma word_of_bytes:
  "push_bit 8 (ucast (ucast (drop_bit 8 w) :: u8)) OR ucast (ucast w :: u8) = w" for w :: u16
  by (rule bit_word_eqI) (auto simp: bit_simps dest: bit_imp_le_length)

lemma move_cursor_pos_simps [simp]:
  "cursor_of (move_cursor_pos p s) = p"
  "scroll_of (move_cursor_pos p s) = scroll_of s"
  "vram (move_cursor_pos p s) = vram s"
  "saved_cursor_pos (move_cursor_pos p s) = saved_cursor_pos s"
  by (simp_all add: move_cursor_pos_def cursor_of_def scroll_of_def crtc_defs word_of_bytes)

lemma write_scroll_simps [simp]:
  "cursor_of (write_scroll p s) = cursor_of s"
  "scroll_of (write_scroll p s) = p"
  "vram (write_scroll p s) = vram s"
  by (simp_all add: write_scroll_def cursor_of_def scroll_of_def crtc_defs word_of_bytes)

lemma vram_update_simps [simp]:
  "cursor_of (s\<lparr>vram := v\<rparr>) = cursor_of s" "scroll_of (s\<lparr>vram := v\<rparr>) = scroll_of s"
  "cursor_of (s\<lparr>saved_cursor_pos := p\<rparr>) = cursor_of s" "scroll_of (s\<lparr>saved_cursor_pos := p\<rparr>) = scroll_of s"
  by (simp_all add: cursor_of_def scroll_of_def)

lemma rep_movsw_run:
  "dst \<le> src \<Longrightarrow> src + n \<le> length v \<Longrightarrow>
   rep_movsw n src dst v = Inr (take dst v @ take n (drop src v) @ drop (dst + n) v)"
proof (induction n arbitrary: src dst v)
  case (Suc n)
  have "take (Suc n) (drop src v) = v ! src # take n (drop (Suc src) v)"
    using Suc.prems by (simp add: Cons_nth_drop_Suc [symmetric])
  moreover have "take (Suc dst) (v[dst := v ! src]) = take dst v @ [v ! src]"
    using Suc.prems by (simp add: take_Suc_conv_app_nth)
  ultimately show ?case
    using Suc.prems Suc.IH [of "Suc dst" "Suc src" "v[dst := v ! src]"] by (simp add: put_cell_def)
qed simp

lemma rep_stosw_run:
  "dst + n \<le> length v \<Longrightarrow> rep_stosw n dst c v = Inr (take dst v @ replicate n c @ drop (dst + n) v)"
proof (induction n arbitrary: dst v)
  case (Suc n)
  have "take (Suc dst) (v[dst := c]) = take dst v @ [c]"
    using Suc.prems by (simp add: take_Suc_conv_app_nth)
  then show ?case
    using Suc.prems Suc.IH [of "Suc dst" "v[dst := c]"] by (simp add: put_cell_def)
qed simp

lemma mod_80_pred: "n mod 80 \<noteq> 0 \<Longrightarrow> n mod 80 = (n - 1) mod 80 + 1" for n :: nat
  by (cases n) (auto simp: mod_Suc split: if_splits)

lemma next_line:
  fixes p :: nat
  assumes "p < 2000"
  shows "p + (80 - p mod 80) \<le> 2000"
proof -
  have "p div 80 < 25" using assms by (intro less_mult_imp_div_less) simp
  with div_mult_mod_eq [of p 80] mod_less_divisor [of 80 p] show ?thesis by linarith
qed

lemma diff_ge: "scroll \<le> cursor \<Longrightarrow> diff cursor scroll = int (unat cursor - unat scroll)"
  by (simp add: diff_def word_le_nat_alt of_nat_diff)

lemma diff_mod: "scroll \<le> cursor \<Longrightarrow> diff cursor scroll mod 80 = int ((unat cursor - unat scroll) mod 80)"
  by (simp add: diff_ge zmod_int)

lemma unat_pred: "c \<noteq> 0 \<Longrightarrow> unat (c - 1) = unat c - 1" for c :: u16
  by (simp add: unat_minus_one)

lemma unat_succ: "unat c < 0xFFFF \<Longrightarrow> unat (c + 1) = unat c + 1" for c :: u16
  using unat_add_lem [of c 1] by simp

lemma cr_loop_run:
  "scroll \<le> cursor \<Longrightarrow> unat (cr_loop scroll cursor) = unat cursor - (unat cursor - unat scroll) mod 80"
proof (induction scroll cursor rule: cr_loop.induct)
  case (1 scroll cursor)
  show ?case
  proof (cases "cursor \<noteq> 0 \<and> cursor \<noteq> scroll \<and> diff cursor scroll mod 80 \<noteq> 0")
    case True
    then have "cursor \<noteq> scroll" by blast
    then have lt: "unat scroll < unat cursor"
      using "1.prems" by (auto simp: word_le_nat_alt order_less_le word_unat_eq_iff)
    note m' = True [THEN conjunct2, THEN conjunct2]
    have m: "(unat cursor - unat scroll) mod 80 \<noteq> 0"
      using m' by (simp only: diff_mod [OF "1.prems"] of_nat_eq_0_iff) simp
    have p: "unat (cursor - 1) = unat cursor - 1" using True by (blast intro: unat_pred)
    then have "scroll \<le> cursor - 1" using lt by (simp add: word_le_nat_alt)
    note IH = "1.IH" [OF True this]
    have "cr_loop scroll cursor = cr_loop scroll (cursor - 1)"
      by (subst cr_loop.simps) (simp only: True if_True simp_thms)
    then have "unat (cr_loop scroll cursor) = unat cursor - 1 - (unat cursor - unat scroll - 1) mod 80"
      by (simp only: IH p diff_commute [of "unat cursor" "unat scroll" 1])
    then show ?thesis by (simp only: mod_80_pred [OF m] diff_diff_left add.commute)
  next
    case False
    then have "(unat cursor - unat scroll) mod 80 = 0"
      using "1.prems" by (auto simp: diff_mod)
    moreover have "cr_loop scroll cursor = cursor"
      by (subst cr_loop.simps) (simp only: False if_False)
    ultimately show ?thesis by simp
  qed
qed

lemma nl_loop_run:
  assumes "scroll \<le> cursor" "p + k \<le> length v" "k = 80 - (unat cursor - unat scroll) mod 80"
    "unat cursor + k < 0x10000"
  shows "nl_loop scroll p cursor v =
    Inr (take p v @ replicate k (0x20, 0x07) @ drop (p + k) v, cursor + of_nat k)"
  using assms
proof (induction k arbitrary: p cursor v)
  case 0
  then show ?case using mod_less_divisor [of 80 "unat cursor - unat scroll"] by simp
next
  case (Suc k)
  have u: "unat (cursor + 1) = unat cursor + 1" using Suc.prems by (intro unat_succ) simp
  have le: "scroll \<le> cursor + 1" using Suc.prems u by (simp add: word_le_nat_alt)
  have d: "diff (cursor + 1) scroll mod 80 = int ((unat cursor - unat scroll + 1) mod 80)"
    using le u Suc.prems(1) by (simp add: diff_ge zmod_int word_le_nat_alt Suc_diff_le)
  have pc: "put_cell v p (0x20, 7) = Inr (v[p := (0x20, 7)])" using Suc.prems by (simp add: put_cell_def)
  have t: "take (Suc p) (v[p := (0x20, 7)]) = take p v @ [(0x20, 7)]"
    using Suc.prems by (simp add: take_Suc_conv_app_nth)
  show ?case
  proof (cases "k = 0")
    case True
    then have "(unat cursor - unat scroll) mod 80 = 79" using Suc.prems(3) by linarith
    then have "(unat cursor - unat scroll + 1) mod 80 = 0" by (simp add: mod_Suc)
    then show ?thesis
      using True d pc Suc.prems(2) by (simp add: nl_loop.simps [of scroll p] upd_conv_take_nth_drop)
  next
    case False
    have s1: "a mod 80 + 1 < 80 \<Longrightarrow> (a + 1) mod 80 = a mod 80 + 1" for a :: nat
      by (simp add: mod_Suc)
    have "(unat cursor - unat scroll) mod 80 + 1 < 80" using False Suc.prems(3) by linarith
    note n = s1 [OF this]
    have "unat (cursor + 1) - unat scroll = unat cursor - unat scroll + 1"
      using Suc.prems(1) u by (simp add: word_le_nat_alt)
    with n Suc.prems(3) have k: "k = 80 - (unat (cursor + 1) - unat scroll) mod 80" by (simp only:) linarith
    have "nl_loop scroll (Suc p) (cursor + 1) (v[p := (0x20, 7)]) =
      Inr (take (Suc p) (v[p := (0x20, 7)]) @ replicate k (0x20, 7) @ drop (Suc p + k) (v[p := (0x20, 7)]),
        cursor + 1 + of_nat k)"
      using Suc.prems(2,4) u by (intro Suc.IH [OF le _ k]) simp_all
    moreover have "diff (cursor + 1) scroll mod 80 \<noteq> 0" using d n by simp
    ultimately show ?thesis using pc t by (simp add: nl_loop.simps [of scroll p] add.assoc)
  qed
qed

section \<open>The terminal\<close>

text \<open>
  The specification: 25 lines of 80 cells and a position.  A newline blanks the rest of its
  line; a character that moves the position past the last cell makes the text move up a line.
\<close>

record terminal =
  cells :: "cell list"
  position :: nat

definition blank :: cell where "blank = (0x20, 0x07)"

definition term_char :: "u8 \<Rightarrow> terminal \<Rightarrow> terminal" where
  "term_char c t =
     (let p = position t; n = 80 - p mod 80 in
      if c = 0x08 then t\<lparr>position := p - 1\<rparr>
      else if c = 0x0D then t\<lparr>position := p - p mod 80\<rparr>
      else if c = 0x0A then t\<lparr>cells := take p (cells t) @ replicate n blank @ drop (p + n) (cells t), position := p + n\<rparr>
      else t\<lparr>cells := (cells t)[p := (c, 0x02)], position := p + 1\<rparr>)"

definition term_scroll :: "terminal \<Rightarrow> terminal" where
  "term_scroll t =
     (if position t = 2000 then \<lparr>cells = drop 80 (cells t) @ replicate 80 blank, position = 1920\<rparr> else t)"

definition term_put :: "u8 \<Rightarrow> terminal \<Rightarrow> terminal" where
  "term_put c t = term_scroll (term_char c t)"

text \<open>
  The states in which the output works: the window of the text memory is mapped and the
  scroll start leaves room for the terminal in it, the cursor being in the terminal.
\<close>

definition console_ok :: "console \<Rightarrow> bool" where
  "console_ok s \<longleftrightarrow>
     (case vram s of
        None \<Rightarrow> False
      | Some v \<Rightarrow> length v = 0x4000 \<and> unat (scroll_of s) + 2000 < 0x4000 \<and> scroll_of s \<le> cursor_of s \<and>
          unat (cursor_of s) < unat (scroll_of s) + 2000)"

definition window :: "console \<Rightarrow> cell list" where
  "window s = take 2000 (drop (unat (scroll_of s)) (the (vram s)))"

definition term_of_console :: "console \<Rightarrow> terminal" where
  "term_of_console s = \<lparr>cells = window s, position = unat (cursor_of s) - unat (scroll_of s)\<rparr>"

text \<open>The text memory before and after the terminal.\<close>

definition surroundings :: "console \<Rightarrow> cell list \<times> cell list" where
  "surroundings s =
     (take (unat (scroll_of s)) (the (vram s)), drop (unat (scroll_of s) + 2000) (the (vram s)))"

lemma unat_minus_80: "80 \<le> unat c \<Longrightarrow> unat (c - 80) = unat c - 80" for c :: u16
  by (subst unat_sub) (simp_all add: word_le_nat_alt)

lemma fit_lines_25:
  assumes "unat scroll + 2000 < 0x4000"
  shows "fit_lines scroll 25 = 25"
proof -
  have "push_bit 1 (ucast scroll :: u32) + 25 * 160 = of_nat (2 * unat scroll + 4000)"
    by (simp add: push_bit_eq_mult)
  moreover have "unat (of_nat (2 * unat scroll + 4000) :: u32) = 2 * unat scroll + 4000"
    using assms by (intro unat_less_of_nat) simp
  ultimately have "unat (push_bit 1 (ucast scroll :: u32) + 25 * 160) = 2 * unat scroll + 4000"
    by (simp only:)
  with assms have "unat (push_bit 1 (ucast scroll :: u32) + 25 * 160) < 0x8000" by linarith
  then have "\<not> 0x8000 \<le> push_bit 1 (ucast scroll :: u32) + 25 * 160" by (simp only: word_le_nat_alt) simp
  then show ?thesis by (subst fit_lines.simps) (simp only: if_False)
qed

lemma put_char_run:
  assumes "length pre = unat scroll" "length w = 2000" "unat cursor = unat scroll + p" "p < 2000"
    "unat scroll + 2000 < 0x4000"
  shows "\<exists>cursor'. put_char c scroll cursor (pre @ w @ post) =
      Inr (pre @ cells (term_char c \<lparr>cells = w, position = p\<rparr>) @ post, cursor') \<and>
    unat cursor' = unat scroll + position (term_char c \<lparr>cells = w, position = p\<rparr>)"
proof -
  have le: "scroll \<le> cursor" using assms(3) by (simp add: word_le_nat_alt)
  have eq: "cursor = scroll \<longleftrightarrow> p = 0" using assms(3) by (simp add: word_unat_eq_iff)
  have nz: "cursor \<noteq> 0" if "p \<noteq> 0" using that assms(3) by (auto simp: unat_eq_zero)
  define n where "n = 80 - p mod 80"
  have n: "p + n \<le> 2000" unfolding n_def using assms(4) by (rule next_line)
  have "nl_loop scroll (unat scroll + p) cursor (pre @ w @ post) =
    Inr (take (unat scroll + p) (pre @ w @ post) @ replicate n (0x20, 0x07) @
      drop (unat scroll + p + n) (pre @ w @ post), cursor + of_nat n)"
    using assms n by (intro nl_loop_run le) (simp_all add: n_def)
  moreover have "unat (cursor + of_nat n) = unat scroll + p + n"
    using n assms(3,5) by (subst unat_add_lem [THEN iffD1]) (simp_all add: unat_less_of_nat)
  moreover have "term_char 0x0A \<lparr>cells = w, position = p\<rparr> =
      \<lparr>cells = take p w @ replicate n blank @ drop (p + n) w, position = p + n\<rparr>"
    by (simp add: term_char_def n_def Let_def)
  ultimately have nl: ?thesis if "c = 0x0A"
    using that assms(1-4) n by (simp add: put_char_def blank_def)
  have cr: ?thesis if "c = 0x0D"
    using that assms le by (simp add: put_char_def term_char_def cr_loop_run Let_def)
  have bs: ?thesis if "c = 0x08"
    using that assms eq nz by (auto simp: put_char_def term_char_def unat_pred Let_def)
  have "unat (cursor + 1) = unat scroll + (p + 1)" using assms by (simp add: unat_succ)
  then have ?thesis if "c \<noteq> 0x08" "c \<noteq> 0x0D" "c \<noteq> 0x0A"
    using that assms(1-4) by (simp add: put_char_def term_char_def put_cell_def list_update_append Let_def)
  with nl cr bs show ?thesis by blast
qed

lemma length_term_char: "length (cells t) = 2000 \<Longrightarrow> position t < 2000 \<Longrightarrow>
    length (cells (term_char c t)) = 2000 \<and> position (term_char c t) \<le> 2000"
  using next_line [of "position t"] by (auto simp: term_char_def Let_def)

lemma scroll_text_run:
  assumes "length pre = unat scroll" "length w = 2000" "unat cursor = unat scroll + p" "p \<le> 2000"
    "unat scroll + 2000 < 0x4000"
  shows "\<exists>cursor'. scroll_text scroll cursor (pre @ w @ post) =
      Inr (pre @ cells (term_scroll \<lparr>cells = w, position = p\<rparr>) @ post, cursor') \<and>
    unat cursor' = unat scroll + position (term_scroll \<lparr>cells = w, position = p\<rparr>)"
proof -
  have d: "diff cursor scroll = int p" using assms(3) by (simp add: diff_def)
  show ?thesis
  proof (cases "p = 2000")
    case True
    have "rep_movsw 1920 (unat scroll + 80) (unat scroll) (pre @ w @ post) =
        Inr (pre @ drop 80 w @ drop 1920 w @ post)"
      using assms(1,2) by (simp add: rep_movsw_run)
    moreover have "rep_stosw 80 (unat scroll + 1920) (0x20, 0x07) (pre @ drop 80 w @ drop 1920 w @ post) =
        Inr (pre @ drop 80 w @ replicate 80 (0x20, 0x07) @ post)"
      using assms(1,2) by (simp add: rep_stosw_run)
    ultimately have "scroll_up (unat scroll) 80 25 (0x20, 0x07) (pre @ w @ post) =
        Inr (pre @ drop 80 w @ replicate 80 (0x20, 0x07) @ post)"
      by (simp add: scroll_up_def)
    then show ?thesis
      using True d assms(3,5)
      by (simp add: scroll_text_def term_scroll_def fit_lines_25 unat_minus_80 blank_def)
  next
    case False
    with d assms(4) show ?thesis by (simp add: scroll_text_def term_scroll_def assms(3))
  qed
qed

lemma terminal_eta [simp]: "\<lparr>cells = cells t, position = position t\<rparr> = t"
  by (cases t) simp

lemma length_term_scroll:
  assumes "length (cells t) = 2000" "position t \<le> 2000"
  shows "length (cells (term_scroll t)) = 2000" "position (term_scroll t) < 2000"
  using assms by (simp_all add: term_scroll_def)

lemma console_putchar_refines:
  assumes "console_ok s"
  obtains s' where "console_putchar c s = Inr s'" "console_ok s'" "scroll_of s' = scroll_of s"
    "term_of_console s' = term_put c (term_of_console s)" "surroundings s' = surroundings s"
proof -
  from assms obtain v where v: "vram s = Some v" "length v = 0x4000" "unat (scroll_of s) + 2000 < 0x4000"
    "scroll_of s \<le> cursor_of s" "unat (cursor_of s) < unat (scroll_of s) + 2000"
    by (auto simp: console_ok_def split: option.splits)
  define pre w post p where "pre = take (unat (scroll_of s)) v" and "w = take 2000 (drop (unat (scroll_of s)) v)"
    and "post = drop (unat (scroll_of s) + 2000) v" and "p = unat (cursor_of s) - unat (scroll_of s)"
  have "w @ post = drop (unat (scroll_of s)) v"
    using append_take_drop_id [of 2000 "drop (unat (scroll_of s)) v"]
    by (simp add: w_def post_def add.commute [of _ 2000])
  then have split: "v = pre @ w @ post" by (simp add: pre_def)
  have l: "length pre = unat (scroll_of s)" "length w = 2000" using v by (simp_all add: pre_def w_def)
  have p: "unat (cursor_of s) = unat (scroll_of s) + p" "p < 2000"
    using v(4,5) by (simp_all add: p_def word_le_nat_alt)
  let ?t = "term_char c \<lparr>cells = w, position = p\<rparr>" and ?u = "term_put c \<lparr>cells = w, position = p\<rparr>"
  from put_char_run [OF l p v(3)] obtain c1 where c1:
    "put_char c (scroll_of s) (cursor_of s) v = Inr (pre @ cells ?t @ post, c1)"
    "unat c1 = unat (scroll_of s) + position ?t"
    by (auto simp: split)
  have t: "length (cells ?t) = 2000" "position ?t \<le> 2000" using length_term_char [of "\<lparr>cells = w, position = p\<rparr>" c] l p by simp_all
  from scroll_text_run [OF l(1) t(1) c1(2) t(2) v(3), of post] obtain c2 where c2:
    "scroll_text (scroll_of s) c1 (pre @ cells ?t @ post) = Inr (pre @ cells ?u @ post, c2)"
    "unat c2 = unat (scroll_of s) + position ?u"
    by (auto simp: term_put_def)
  have u: "length (cells ?u) = 2000" "position ?u < 2000"
    using length_term_scroll [OF t] by (simp_all only: term_put_def)
  let ?s = "move_cursor_pos c2 (s\<lparr>vram := Some (pre @ cells ?u @ post)\<rparr>)"
  have "console_putchar c s = Inr ?s"
    using v(1) c1(1) c2(1) by (simp add: console_putchar_def)
  moreover have "console_ok ?s"
    using v l u c2(2) by (simp add: console_ok_def word_le_nat_alt post_def)
  moreover have "term_of_console ?s = ?u"
    using l u c2(2) by (simp add: term_of_console_def window_def)
  moreover have "term_of_console s = \<lparr>cells = w, position = p\<rparr>"
    by (simp add: term_of_console_def window_def v(1) w_def p_def)
  moreover have "surroundings ?s = surroundings s"
    using l u by (simp add: surroundings_def v(1) pre_def [symmetric] post_def [symmetric])
  ultimately show ?thesis by (intro that [of ?s]) simp_all
qed

text \<open>Clearing the screen gives the blank terminal, from any state with the window mapped.\<close>

lemma clearscreen_run:
  assumes "vram s = Some v" "length v = 0x4000"
  obtains s' where "vramwrite_clearscreen s = Inr s'" "console_ok s'" "scroll_of s' = 0"
    "term_of_console s' = \<lparr>cells = replicate 2000 blank, position = 0\<rparr>"
    "the (vram s') = replicate 2000 blank @ drop 2000 v"
proof -
  have "rep_stosw 2000 0 (0x20, 0x07) v = Inr (replicate 2000 blank @ drop 2000 v)"
    using assms by (simp add: rep_stosw_run blank_def)
  with assms have "vramwrite_clearscreen s =
      Inr (move_cursor_pos 0 (write_scroll 0 (s\<lparr>vram := Some (replicate 2000 blank @ drop 2000 v)\<rparr>)))"
    by (simp add: vramwrite_clearscreen_def)
  from that [OF this] assms(2) show ?thesis
    by (simp add: console_ok_def term_of_console_def window_def)
qed

text \<open>The cursor comes back after it has been moved away.\<close>

lemma restore_after_save:
  "cursor_of (vramwrite_restore_cursor (vramwrite_save_and_move_cursor x y s)) = cursor_of s"
  "vram (vramwrite_restore_cursor (vramwrite_save_and_move_cursor x y s)) = vram s"
  by (simp_all add: vramwrite_restore_cursor_def vramwrite_save_and_move_cursor_def move_cursor_pos_xy_def)

lemma unat_ucast_16: "unat (ucast w :: u32) = unat w" for w :: u16
proof -
  have "unat w < 2 ^ 16" using unsigned_less [of w] by simp
  then have "take_bit 32 (unat w) = unat w" by (simp add: take_bit_nat_eq_self)
  then show ?thesis by (simp add: unsigned_ucast_eq unsigned_take_bit_eq)
qed

text \<open>Moving to a position of the terminal and asking for it.\<close>

lemma get_after_move:
  assumes "unat x < 80" "unat y < 25" "unat (scroll_of s) + 2000 < 0x4000"
  shows "fst (vramwrite_get_cursor_pos (move_cursor_pos_xy x y s)) = (x, y)"
proof -
  let ?n = "unat (scroll_of s) + (unat y * 80 + unat x)"
  have "unat (ucast (scroll_of s) + y * 80 + x :: u32) = ?n"
    using assms by (simp add: unat_word_ariths unat_ucast_16)
  then have "unat (ucast (ucast (scroll_of s) + y * 80 + x :: u32) :: u16) = ?n"
    using assms by (simp add: unsigned_ucast_eq unsigned_take_bit_eq take_bit_nat_eq_self)
  then have d: "diff (cursor_of (move_cursor_pos_xy x y s)) (scroll_of s) = int (unat y * 80 + unat x)"
    by (simp add: diff_def move_cursor_pos_xy_def)
  define n where "n = unat y * 80 + unat x"
  have n: "n mod 80 = unat x" "n div 80 = unat y"
    using assms by (simp_all add: n_def)
  have "int n mod 80 = int (unat x)" "int n div 80 = int (unat y)"
    by (simp_all only: n [symmetric] zmod_int zdiv_int of_nat_numeral)
  then show ?thesis
    using d n by (auto simp: vramwrite_get_cursor_pos_def Let_def move_cursor_pos_xy_def n_def [symmetric]
        unat_eq_zero simp del: of_nat_add of_nat_mult)
qed

text \<open>
  The marks change one cell of the window.
\<close>

lemma mark_run:
  assumes "vram s = Some v" "length v = 0x4000" "unat x < 80" "unat y < 25" "unat (scroll_of s) + 2000 < 0x4000"
  shows "mark f x y s =
    (let i = unat (scroll_of s) + (80 * unat y + unat x) in Inr (s\<lparr>vram := Some (v[i := f (v ! i)])\<rparr>))"
proof -
  let ?n = "unat (scroll_of s) + (80 * unat y + unat x)"
  have "unat (push_bit 1 (ucast (scroll_of s) + y * 80 + x) :: u32) = 2 * ?n"
    using assms by (simp add: push_bit_eq_mult unat_word_ariths unat_ucast_16)
  then show ?thesis using assms by (simp add: mark_def Let_def)
qed

end
