(* ===== verification/Vramwrite_Vga.thy ===== *)
theory Vramwrite_Vga
  imports Vramwrite Vga
begin

text \<open>
  Output of a character on a graphics screen (\<^verbatim>\<open>bitvisor/core/vramwrite.c\<close>,
  \<open>vramwrite_vga_putchar\<close>) through the display layer, and \<open>vramwrite_putchar\<close>, which feeds both
  this screen and the text memory.  The built-in font table and the BIOS font are the parameter
  \<open>font\<close>.
\<close>

section \<open>State\<close>

type_synonym glyph = "nat \<Rightarrow> nat \<Rightarrow> u32"

record 'd tty =
  font :: "u8 list option"    \<comment> \<open>none is the null pointer\<close>
  fontx :: nat
  fonty :: nat
  fontlen :: nat
  fontcompressed :: bool
  scrollbuf :: image
  tty_x :: nat    \<comment> \<open>the static variables of \<open>vramwrite_vga_putchar\<close>\<close>
  tty_y :: nat
  tty_buf :: glyph
  screen :: "'d vga_state"

section \<open>Drawing a glyph\<close>

definition set_buf :: "nat \<Rightarrow> nat \<Rightarrow> bool \<Rightarrow> glyph \<Rightarrow> glyph res" where
  "set_buf i j on b =
     (if i < 16 \<and> j < 8 then Inr (b(i := (b i)(j := if on then 0xFF00FF00 else 0))) else Inl OutOfBounds)"

fun glyph_row :: "u8 \<Rightarrow> nat \<Rightarrow> nat list \<Rightarrow> glyph \<Rightarrow> glyph res" where
  "glyph_row b i [] buf = Inr buf"
| "glyph_row b i (j # js) buf =
     bind_res (set_buf i j (any_bit (push_bit j (ucast b :: u32)) 0x80) buf) (glyph_row b i js)"

text \<open>
  The compressed format keeps a fourth row in the two low bits of the three bytes before it.
\<close>

definition glyph_compressed :: "u8 \<Rightarrow> nat \<Rightarrow> glyph \<Rightarrow> glyph res" where
  "glyph_compressed b i buf =
     (let j = push_bit 1 (i AND 3) in
      bind_res (set_buf (i OR 3) (j + 0) (any_bit b 2) buf) (set_buf (i OR 3) (j + 1) (any_bit b 1)))"

function glyph_rows :: "'d tty \<Rightarrow> u8 list \<Rightarrow> nat \<Rightarrow> nat \<Rightarrow> glyph \<Rightarrow> glyph res" where
  "glyph_rows t f p i buf =
     (if i < fonty t then
        case rd f p of
          None \<Rightarrow> Inl OutOfBounds
        | Some b \<Rightarrow>
            (case bind_res (glyph_row b i [0..<fontx t] buf)
                (\<lambda>buf. if fontcompressed t then glyph_compressed b i buf else Inr buf) of
               Inl e \<Rightarrow> Inl e
             | Inr buf \<Rightarrow> glyph_rows t f (p + 1) (if fontcompressed t \<and> i AND 2 \<noteq> 0 then i + 2 else i + 1) buf)
      else Inr buf)"
  by pat_completeness auto
termination by (relation "measure (\<lambda>(t, f, p, i, buf). fonty t - i)") auto

declare glyph_rows.simps [simp del]

text \<open>The glyph in memory: rows of eight pixels of four bytes.\<close>

definition glyph_image :: "glyph \<Rightarrow> image" where
  "glyph_image b k = ucast (drop_bit (8 * (k mod 4)) (b (k div 32) (k mod 32 div 4)))"

section \<open>Scrolling\<close>

definition scroll_row :: "nat \<Rightarrow> 'd tty \<Rightarrow> 'd tty" where
  "scroll_row i t =
     (let n = 4 * fontx t * 80; w = of_nat (fontx t * 80); h = of_nat (fonty t);
        (_, img, s) = vga_transfer_image DIR_GET (scrollbuf t) BGRX_8888 n w h 0 (of_nat ((i + 1) * fonty t)) (screen t);
        (_, img, s) = vga_transfer_image DIR_PUT img BGRX_8888 n w h 0 (of_nat (i * fonty t)) s
      in t\<lparr>scrollbuf := img, screen := s\<rparr>)"

definition tty_newline :: "'d tty \<Rightarrow> 'd tty" where
  "tty_newline t =
     (let t = t\<lparr>tty_x := 0, tty_y := tty_y t + 1\<rparr> in
      if tty_y t \<le> 24 then t
      else
        let t = fold scroll_row [0..<24] t;
          img = (\<lambda>k. if k < 4 then 0 else scrollbuf t k);
          (_, s) = vga_fill_rect img BGRX_8888 0 (of_nat (24 * fonty t)) (of_nat (fontx t * 80)) (of_nat (fonty t)) (screen t)
        in t\<lparr>scrollbuf := img, screen := s, tty_y := 24\<rparr>)"

definition vramwrite_vga_putchar :: "u8 \<Rightarrow> 'd tty \<Rightarrow> (int \<times> 'd tty) res" where
  "vramwrite_vga_putchar c t =
     (case font t of
        None \<Rightarrow> Inr (0, t)
      | Some f \<Rightarrow>
          let (ready, s) = vga_is_ready (screen t); t = t\<lparr>screen := s\<rparr> in
          if \<not> ready then Inr (0, t)
          else if c = 0x08 then
            Inr (0, if tty_x t \<noteq> 0 then t\<lparr>tty_x := tty_x t - 1\<rparr>
                    else if tty_y t \<noteq> 0 then t\<lparr>tty_x := 79, tty_y := tty_y t - 1\<rparr> else t)
          else if c = 0x0D then Inr (0, t\<lparr>tty_x := 0\<rparr>)
          else if c = 0x0A then Inr (0, tty_newline t)
          else
            bind_res (glyph_rows t f (unat c * fontlen t) 0 (tty_buf t)) (\<lambda>b.
            let (_, _, s) = vga_transfer_image DIR_PUT (glyph_image b) BGRX_8888 32 (of_nat (fontx t)) (of_nat (fonty t))
                  (of_nat (tty_x t * fontx t)) (of_nat (tty_y t * fonty t)) s;
              t = t\<lparr>tty_buf := b, screen := s, tty_x := tty_x t + 1\<rparr>
            in Inr (0, if tty_x t \<le> 79 then t else tty_newline t)))"

section \<open>Output on both screens\<close>

definition vramwrite_putchar :: "u8 \<Rightarrow> 'd tty \<times> console \<Rightarrow> ('d tty \<times> console) res" where
  "vramwrite_putchar c =
     (\<lambda>(t, s). bind_res (vramwrite_vga_putchar c t) (\<lambda>(r, t).
        if r \<noteq> 0 then Inr (t, s) else bind_res (console_putchar c s) (\<lambda>s. Inr (t, s))))"

text \<open>Messages: type 0 is a character to print, converted from \<open>int\<close>.\<close>

definition vramwrite_msghandler :: "int \<Rightarrow> int \<Rightarrow> 'd tty \<times> console \<Rightarrow> (int \<times> 'd tty \<times> console) res" where
  "vramwrite_msghandler m c st =
     (if m = 0 then bind_res (vramwrite_putchar (of_int c) st) (\<lambda>st. Inr (0, st)) else Inr (0, st))"

text \<open>
  Start-up.  The BIOS font is at \<open>es:bp\<close> of real mode memory; \<open>mem\<close> is the memory
  \<open>mapmem_hphys\<close> maps.
\<close>

definition vramwrite_get_biosfont :: "u16 \<times> u16 \<Rightarrow> (u32 \<Rightarrow> nat \<Rightarrow> u8 list) \<Rightarrow> 'd tty \<Rightarrow> 'd tty" where
  "vramwrite_get_biosfont fontinfo mem t =
     (let (es, bp) = fontinfo; tmp = push_bit 4 (ucast es) + ucast bp in
      t\<lparr>font := Some (mem tmp (16 * 256)), fontx := 8, fonty := 16, fontlen := 16, fontcompressed := False\<rparr>)"

definition vramwrite_init_bsp ::
    "u8 list option \<Rightarrow> bool \<Rightarrow> u16 \<times> u16 \<Rightarrow> (u32 \<Rightarrow> nat \<Rightarrow> u8 list) \<Rightarrow> image \<Rightarrow> 'd tty \<Rightarrow> 'd tty" where
  "vramwrite_init_bsp TTY_VGA uefi_booted fontinfo mem alloced t =
     (case TTY_VGA of
        None \<Rightarrow> t
      | Some mplus_f12r \<Rightarrow>
          let t = t\<lparr>font := Some mplus_f12r, fontx := 6, fonty := 13, fontlen := 10, fontcompressed := True\<rparr>;
            t = (if \<not> uefi_booted then vramwrite_get_biosfont fontinfo mem t else t)
          in t\<lparr>scrollbuf := alloced\<rparr>)"

section \<open>The graphics screen stays in its grid\<close>

text \<open>The two fonts of the source: 8 by 16 plain and 6 by 13 compressed to ten bytes.\<close>

definition font_ok :: "'d tty \<Rightarrow> bool" where
  "font_ok t \<longleftrightarrow>
     (case font t of
        None \<Rightarrow> True
      | Some f \<Rightarrow> fontx t \<le> 8 \<and> 256 * fontlen t \<le> length f \<and>
          (if fontcompressed t then fonty t = 13 \<and> fontlen t = 10 else fonty t \<le> 16 \<and> fonty t \<le> fontlen t))"

definition tty_ok :: "'d tty \<Rightarrow> bool" where
  "tty_ok t \<longleftrightarrow> font_ok t \<and> tty_x t \<le> 79 \<and> tty_y t \<le> 24"

lemma set_buf_ok: "i < 16 \<Longrightarrow> j < 8 \<Longrightarrow> \<exists>b'. set_buf i j on b = Inr b'"
  by (simp add: set_buf_def)

lemma glyph_row_ok: "i < 16 \<Longrightarrow> list_all (\<lambda>j. j < 8) js \<Longrightarrow> \<exists>b'. glyph_row b i js buf = Inr b'"
proof (induction js arbitrary: buf)
  case (Cons j js)
  then show ?case using set_buf_ok [of i j "any_bit (push_bit j (ucast b :: u32)) 0x80" buf] by auto
qed simp

lemma small_or_3:
  fixes i :: nat
  assumes "i < 16"
  shows "i OR 3 < 16" "i AND 3 < 4"
proof -
  have "take_bit 4 (i OR 3) = i OR 3"
    using assms by (simp add: take_bit_or take_bit_nat_eq_self)
  then show "i OR 3 < 16" using take_bit_nat_less_exp [of 4 "i OR 3"] by simp
  have "i AND 3 = take_bit 2 i" by (simp add: take_bit_eq_mask mask_eq_exp_minus_1)
  then show "i AND 3 < 4" using take_bit_nat_less_exp [of 2 i] by simp
qed

lemma glyph_compressed_ok:
  assumes "i < 16"
  shows "\<exists>b'. glyph_compressed b i buf = Inr b'"
proof -
  have j: "push_bit 1 (i AND 3) + 1 < 8" "i OR 3 < 16"
    using small_or_3 [OF assms] by (simp_all add: push_bit_eq_mult)
  obtain b1 where "set_buf (i OR 3) (push_bit 1 (i AND 3) + 0) (any_bit b 2) buf = Inr b1"
    using j set_buf_ok by (metis add.right_neutral add_lessD1)
  with set_buf_ok [OF j(2,1), of "any_bit b 1" b1] show ?thesis
    by (simp add: glyph_compressed_def Let_def)
qed

text \<open>
  A plain glyph is read byte by byte; a compressed one has no byte for the rows 3, 7 and 11,
  so that row \<open>i\<close> is byte \<open>i - i div 4\<close>.
\<close>

lemma plain_rows_ok:
  assumes "\<not> fontcompressed t" "fontx t \<le> 8" "fonty t \<le> 16" "p + (fonty t - i) \<le> length f"
  shows "\<exists>b. glyph_rows t f p i buf = Inr b"
  using assms(4)
proof (induction "fonty t - i" arbitrary: p i buf)
  case 0
  then show ?case by (simp add: glyph_rows.simps [of t f p i])
next
  case (Suc n)
  then have i: "i < fonty t" by simp
  with assms(2,3) obtain b where "glyph_row (f ! p) i [0..<fontx t] buf = Inr b"
    using glyph_row_ok [of i "[0..<fontx t]" "f ! p" buf] by (auto simp: list_all_iff)
  moreover have "\<exists>b'. glyph_rows t f (p + 1) (i + 1) b = Inr b'"
    using Suc i by (intro Suc.hyps(1)) simp_all
  ultimately show ?case
    using i Suc.prems assms(1) by (simp add: glyph_rows.simps [of t f p i])
qed

lemma and_2_iff: "i AND 2 \<noteq> 0 \<longleftrightarrow> odd (i div 2)" for i :: nat
  using and_exp_eq_0_iff_not_bit [of i 1] by (simp add: bit_nat_def)

lemma quad: "r < 4 \<Longrightarrow> (4 * m + r) div 4 = m" "r < 4 \<Longrightarrow> (4 * m + r) mod 4 = r" for m r :: nat
  by simp_all

lemma next_row:
  fixes i :: nat
  assumes "i mod 4 \<noteq> 3" "k = (if i AND 2 \<noteq> 0 then i + 2 else i + 1)"
  shows "k mod 4 \<noteq> 3" "k - k div 4 = i - i div 4 + 1" "i < k"
proof -
  define m r where "m = i div 4" and "r = i mod 4"
  have i: "i = 4 * m + r" by (simp add: m_def r_def)
  have "r < 4" by (simp add: r_def)
  then consider "r = 0" | "r = 1" | "r = 2" using assms(1) by (fold r_def) linarith
  then have "k mod 4 \<noteq> 3 \<and> k - k div 4 = i - i div 4 + 1 \<and> i < k"
  proof cases
    case 1
    then have "i = 4 * m" "k = 4 * m + 1" using i assms(2) by (simp_all only: and_2_iff) simp_all
    moreover from this have "k div 4 = m" "i div 4 = m" "k mod 4 = 1" by simp_all
    ultimately show ?thesis by simp
  next
    case 2
    then have "i = 4 * m + 1" "k = 4 * m + 2" using i assms(2) by (simp_all only: and_2_iff) simp_all
    moreover from this have "k div 4 = m" "i div 4 = m" "k mod 4 = 2"
      using quad [of 2 m] quad [of 1 m] by simp_all
    ultimately show ?thesis by simp
  next
    case 3
    then have "i = 4 * m + 2" "k = 4 * m + 4" using i assms(2) by (simp_all only: and_2_iff) simp_all
    moreover from this have "k div 4 = m + 1" "i div 4 = m" "k mod 4 = 0" by simp_all
    ultimately show ?thesis by simp
  qed
  then show "k mod 4 \<noteq> 3" "k - k div 4 = i - i div 4 + 1" "i < k" by blast+
qed

lemma row_bound: "i < 13 \<Longrightarrow> i - i div 4 < 10" for i :: nat
  using div_mult_mod_eq [of i 4] mod_less_divisor [of 4 i] by linarith

lemma compressed_rows_ok:
  assumes "fontcompressed t" "fontx t \<le> 8" "fonty t = 13" "q + 10 \<le> length f"
  shows "i mod 4 \<noteq> 3 \<Longrightarrow> \<exists>b. glyph_rows t f (q + (i - i div 4)) i buf = Inr b"
proof (induction "13 - i" arbitrary: i buf rule: less_induct)
  case less
  let ?p = "q + (i - i div 4)"
  show ?case
  proof (cases "i < 13")
    case True
    have p: "?p < length f" using row_bound [OF True] assms(4) by linarith
    obtain b where b: "glyph_row (f ! ?p) i [0..<fontx t] buf = Inr b"
      using True assms(2) glyph_row_ok [of i "[0..<fontx t]" "f ! ?p" buf] by (auto simp: list_all_iff)
    obtain b' where b': "glyph_compressed (f ! ?p) i b = Inr b'"
      using True glyph_compressed_ok [of i "f ! ?p" b] by auto
    define k where "k = (if i AND 2 \<noteq> 0 then i + 2 else i + 1)"
    note k = next_row [OF less.prems k_def]
    have "?p + 1 = q + (k - k div 4)" using k(2) by linarith
    moreover have "13 - k < 13 - i" using k(3) True by linarith
    ultimately have "\<exists>c. glyph_rows t f (?p + 1) k b' = Inr c"
      using less.hyps [OF _ k(1)] by (simp only:)
    then show ?thesis
      using True p b b' assms(1,3) by (subst glyph_rows.simps) (simp add: k_def)
  next
    case False
    then show ?thesis using assms(3) by (subst glyph_rows.simps) simp
  qed
qed

lemma glyph_ok:
  fixes c :: u8
  assumes "font_ok t" "font t = Some f"
  shows "\<exists>b. glyph_rows t f (unat c * fontlen t) 0 buf = Inr b"
proof -
  have f: "256 * fontlen t \<le> length f" "fontx t \<le> 8" using assms by (simp_all add: font_ok_def)
  have "unat c < 2 ^ LENGTH(8)" by (rule unsigned_less)
  then have "unat c + 1 \<le> 256" by simp
  then have "(unat c + 1) * fontlen t \<le> 256 * fontlen t" by (rule mult_right_mono) simp
  moreover have "(unat c + 1) * fontlen t = unat c * fontlen t + fontlen t"
    by (simp only: distrib_right mult_1_left)
  ultimately have c: "unat c * fontlen t + fontlen t \<le> length f" using f(1) by linarith
  show ?thesis
  proof (cases "fontcompressed t")
    case True
    then show ?thesis
      using assms c f compressed_rows_ok [of t "unat c * 10" f 0 buf] by (simp add: font_ok_def)
  next
    case False
    then show ?thesis
      using assms c f by (intro plain_rows_ok) (simp_all add: font_ok_def)
  qed
qed

lemma font_ok_update [simp]:
  "font_ok (t\<lparr>screen := s\<rparr>) = font_ok t" "font_ok (t\<lparr>tty_x := x\<rparr>) = font_ok t"
  "font_ok (t\<lparr>tty_y := y\<rparr>) = font_ok t" "font_ok (t\<lparr>tty_buf := b\<rparr>) = font_ok t"
  "font_ok (t\<lparr>scrollbuf := i\<rparr>) = font_ok t"
  by (simp_all add: font_ok_def cong: option.case_cong if_cong)

lemma scroll_row_simps [simp]:
  "font_ok (scroll_row i t) = font_ok t" "tty_x (scroll_row i t) = tty_x t" "tty_y (scroll_row i t) = tty_y t"
  by (simp_all add: scroll_row_def Let_def split: prod.split)

lemma scroll_rows_simps [simp]:
  "font_ok (fold scroll_row is t) = font_ok t" "tty_x (fold scroll_row is t) = tty_x t"
  "tty_y (fold scroll_row is t) = tty_y t"
  by (induction "is" arbitrary: t) simp_all

lemma tty_okI: "font_ok t \<Longrightarrow> tty_x t \<le> 79 \<Longrightarrow> tty_y t \<le> 24 \<Longrightarrow> tty_ok t"
  by (simp add: tty_ok_def)

lemma tty_newline_ok: "font_ok t \<Longrightarrow> tty_y t \<le> 24 \<Longrightarrow> tty_ok (tty_newline t)"
  by (simp add: tty_newline_def tty_ok_def Let_def split: prod.split)

lemma vga_putchar_ok:
  assumes "tty_ok t"
  shows "\<exists>t'. vramwrite_vga_putchar c t = Inr (0, t') \<and> tty_ok t'"
proof (cases "font t")
  case None
  with assms show ?thesis by (simp add: vramwrite_vga_putchar_def)
next
  case (Some f)
  obtain r s where rs: "vga_is_ready (screen t) = (r, s)" by fastforce
  let ?t = "t\<lparr>screen := s\<rparr>"
  have t: "font_ok ?t" "font ?t = Some f" "tty_x t \<le> 79" "tty_y t \<le> 24"
    using assms Some by (simp_all add: tty_ok_def)
  from glyph_ok [OF t(1,2)] obtain b where b: "glyph_rows ?t f (unat c * fontlen t) 0 (tty_buf t) = Inr b"
    by fastforce
  show ?thesis
    using t rs b Some
    by (auto simp: vramwrite_vga_putchar_def Let_def tty_newline_ok intro!: tty_okI split: prod.split)
qed

section \<open>Printing text\<close>

primrec vramwrite_puts :: "u8 list \<Rightarrow> 'd tty \<times> console \<Rightarrow> ('d tty \<times> console) res" where
  "vramwrite_puts [] st = Inr st"
| "vramwrite_puts (c # cs) st = bind_res (vramwrite_putchar c st) (vramwrite_puts cs)"

lemma putchar_both:
  assumes "tty_ok t" "console_ok s"
  obtains t' s' where "vramwrite_putchar c (t, s) = Inr (t', s')" "tty_ok t'" "console_ok s'"
    "scroll_of s' = scroll_of s" "term_of_console s' = term_put c (term_of_console s)"
    "surroundings s' = surroundings s"
proof -
  obtain t' where t: "vramwrite_vga_putchar c t = Inr (0, t')" "tty_ok t'"
    using vga_putchar_ok [OF assms(1)] by blast
  obtain s' where s: "console_putchar c s = Inr s'" "console_ok s'" "scroll_of s' = scroll_of s"
    "term_of_console s' = term_put c (term_of_console s)" "surroundings s' = surroundings s"
    using console_putchar_refines [OF assms(2)] by blast
  have "vramwrite_putchar c (t, s) = Inr (t', s')" using t(1) s(1) by (simp add: vramwrite_putchar_def)
  from that [OF this t(2) s(2-)] show ?thesis .
qed

text \<open>
  C6: The text console refines a terminal of 25 lines of 80 cells: any text printed from a
  state with the window mapped and the cursor in it is printed without leaving the window,
  the window then shows what the terminal shows, the cursor is the position of the terminal and
  no other cell of the text memory has changed.
\<close>

theorem console_refines_terminal:
  assumes "tty_ok t" "console_ok s"
  shows "\<exists>t' s'. vramwrite_puts chars (t, s) = Inr (t', s') \<and> tty_ok t' \<and> console_ok s' \<and>
    term_of_console s' = fold term_put chars (term_of_console s) \<and> scroll_of s' = scroll_of s \<and>
    surroundings s' = surroundings s"
  using assms
proof (induction chars arbitrary: t s)
  case (Cons c chars)
  from putchar_both [OF Cons.prems] obtain t1 s1 where p:
    "vramwrite_putchar c (t, s) = Inr (t1, s1)" "tty_ok t1" "console_ok s1" "scroll_of s1 = scroll_of s"
    "term_of_console s1 = term_put c (term_of_console s)" "surroundings s1 = surroundings s" .
  from Cons.IH [OF p(2,3)] p show ?case by auto
qed simp

definition sample_tty :: "unit tty" where
  "sample_tty = \<lparr>font = None, fontx = 6, fonty = 13, fontlen = 10, fontcompressed = True,
     scrollbuf = (\<lambda>_. 0), tty_x = 0, tty_y = 0, tty_buf = (\<lambda>_ _. 0), screen = vga_init\<rparr>"

definition sample_console :: console where
  "sample_console = \<lparr>vram = Some (replicate 0x4000 (0, 0)), crtc = (\<lambda>_. 0), crtc_index = 0, saved_cursor_pos = 0\<rparr>"

lemma sample_console_ok: "tty_ok sample_tty" "console_ok sample_console"
    "term_of_console sample_console = \<lparr>cells = replicate 2000 (0, 0), position = 0\<rparr>"
  by (simp_all add: sample_tty_def sample_console_def tty_ok_def font_ok_def console_ok_def scroll_of_def
      cursor_of_def term_of_console_def window_def)

lemma console_refines_terminal_witness:
  "\<exists>t' s'. vramwrite_puts [0x48, 0x69, 0x08] (sample_tty, sample_console) = Inr (t', s') \<and>
     position (term_of_console s') = 1 \<and>
     cells (term_of_console s') = (replicate 2000 (0, 0))[0 := (0x48, 2), Suc 0 := (0x69, 2)]"
  using console_refines_terminal [OF sample_console_ok(1,2), of "[0x48, 0x69, 0x08]"]
  by (auto simp: sample_console_ok term_put_def term_char_def term_scroll_def)

end
