(* ===== verification/Pmap.thy ===== *)
theory Pmap
  imports Prelude Gmm_Access
begin

text \<open>
  Access to page tables (the second half of \<^verbatim>\<open>bitvisor/core/mm.c\<close>): a cursor that walks the page
  table of the guest or of the VMM on demand, keeps the entries it has read and turns large pages
  into the entries of the level that is asked for.  Entries of the guest are read and written by
  compare and exchange, since other processors may change them.
\<close>

section \<open>Page table entries\<close>

definition PDE_P_BIT :: u64 where "PDE_P_BIT = 0x1"
definition PDE_RW_BIT :: u64 where "PDE_RW_BIT = 0x2"
definition PDE_US_BIT :: u64 where "PDE_US_BIT = 0x4"
definition PDE_PWT_BIT :: u64 where "PDE_PWT_BIT = 0x8"
definition PDE_PCD_BIT :: u64 where "PDE_PCD_BIT = 0x10"
definition PDE_A_BIT :: u64 where "PDE_A_BIT = 0x20"
definition PDE_D_BIT :: u64 where "PDE_D_BIT = 0x40"
definition PDE_PS_BIT :: u64 where "PDE_PS_BIT = 0x80"
definition PDE_NX_BIT :: u64 where "PDE_NX_BIT = 0x8000000000000000"
definition PDE_4M_PAT_BIT :: u64 where "PDE_4M_PAT_BIT = 0x1000"
definition PTE_PAT_BIT_64 :: u64 where "PTE_PAT_BIT_64 = 0x80"
definition PTE_ADDR_MASK64 :: u64 where "PTE_ADDR_MASK64 = 0x0000000FFFFFF000"

section \<open>The cursor\<close>

datatype pmap_type = PMAP_TYPE_VMM | PMAP_TYPE_GUEST | PMAP_TYPE_GUEST_ATOMIC

text \<open>\<open>curlevel\<close> is one less than the level the callers name, which is at least 1.\<close>

record pmap_t =
  entry :: "nat \<Rightarrow> u64"
  entryaddr :: "nat \<Rightarrow> u64"
  curaddr :: u64
  curlevel :: nat
  readlevel :: nat
  levels :: nat
  pm_type :: pmap_type

definition pmap_open_vmm :: "u64 \<Rightarrow> nat \<Rightarrow> pmap_t \<Rightarrow> pmap_t" where
  "pmap_open_vmm cr n m =
     m\<lparr>levels := n, readlevel := n, curlevel := n - 1,
       entry := (entry m)(n := (cr AND NOT 0xFFF) OR PDE_P_BIT), pm_type := PMAP_TYPE_VMM\<rparr>"

definition pmap_open_guest :: "u64 \<Rightarrow> nat \<Rightarrow> bool \<Rightarrow> pmap_t \<Rightarrow> pmap_t" where
  "pmap_open_guest cr n atomic m =
     m\<lparr>levels := n, readlevel := n, curlevel := n - 1,
       entry := (entry m)(n :=
         (if n = 3 then (cr AND (NOT 0x1F OR 0x8 OR 0x10)) OR PDE_P_BIT
          else (cr AND (NOT 0xFFF OR 0x8 OR 0x10)) OR PDE_P_BIT)),
       pm_type := (if atomic then PMAP_TYPE_GUEST_ATOMIC else PMAP_TYPE_GUEST)\<rparr>"

definition pmap_getreadlevel :: "pmap_t \<Rightarrow> nat" where "pmap_getreadlevel m = readlevel m + 1"

definition pmap_setlevel :: "nat \<Rightarrow> pmap_t \<Rightarrow> pmap_t" where "pmap_setlevel level m = m\<lparr>curlevel := level - 1\<rparr>"

definition pmap_masks :: "u64 list list" where
  "pmap_masks =
     [[0xFFFFF000, 0xFFC00000, 0x00000000, 0x00000000],
      [0xFFFFF000, 0xFFE00000, 0xC0000000, 0x00000000],
      [0x0000FFFFFFFFF000, 0x0000FFFFFFE00000, 0x0000FFFFC0000000, 0x0000FF8000000000]]"

text \<open>The entries read so far stay valid as far as both addresses share them.\<close>

function seek_loop :: "u64 \<Rightarrow> pmap_t \<Rightarrow> pmap_t" where
  "seek_loop virtaddr m =
     (if readlevel m < levels m then
        let msk = pmap_masks ! (levels m - 2) ! readlevel m in
        if curaddr m AND msk = virtaddr AND msk then m else seek_loop virtaddr (m\<lparr>readlevel := readlevel m + 1\<rparr>)
      else m)"
  by pat_completeness auto
termination by (relation "measure (\<lambda>(_, m). levels m - readlevel m)") auto

declare seek_loop.simps [simp del]

definition pmap_seek :: "u64 \<Rightarrow> nat \<Rightarrow> pmap_t \<Rightarrow> pmap_t" where
  "pmap_seek virtaddr level m = (seek_loop virtaddr (pmap_setlevel level m))\<lparr>curaddr := virtaddr\<rparr>"

section \<open>Entries in memory\<close>

text \<open>A page table of the VMM is read through its own mapping, without the bus log.\<close>

definition pmap_rd32 :: "'d mmio_handler \<Rightarrow> pmap_t \<Rightarrow> u64 \<Rightarrow> u32 \<Rightarrow> 'd mmio_data \<Rightarrow> (u64 \<times> 'd mmio_data) res" where
  "pmap_rd32 H m phys attr w =
     (case pm_type m of
        PMAP_TYPE_VMM \<Rightarrow> Inr (of_bytes (get_bytes (mem w) (span phys 4)), w)
      | PMAP_TYPE_GUEST \<Rightarrow>
          bind_res (read_gphys_l H phys (le_bytes 4 (0 :: u32)) attr w) (\<lambda>(bs, w). Inr (of_bytes bs, w))
      | PMAP_TYPE_GUEST_ATOMIC \<Rightarrow>
          bind_res (cmpxchg_gphys_l H phys 0 0 attr w) (\<lambda>((_, r), w). Inr (ucast r, w)))"

definition pmap_rd64 :: "'d mmio_handler \<Rightarrow> pmap_t \<Rightarrow> u64 \<Rightarrow> u32 \<Rightarrow> 'd mmio_data \<Rightarrow> (u64 \<times> 'd mmio_data) res" where
  "pmap_rd64 H m phys attr w =
     (case pm_type m of
        PMAP_TYPE_VMM \<Rightarrow> Inr (of_bytes (get_bytes (mem w) (span phys 8)), w)
      | PMAP_TYPE_GUEST \<Rightarrow>
          bind_res (read_gphys_q H phys (le_bytes 8 (0 :: u64)) attr w) (\<lambda>(bs, w). Inr (of_bytes bs, w))
      | PMAP_TYPE_GUEST_ATOMIC \<Rightarrow>
          bind_res (cmpxchg_gphys_q H phys 0 0 attr w) (\<lambda>((_, r), w). Inr (r, w)))"

text \<open>The result: whether the exchange failed, and the entry, which is then the one found.\<close>

definition pmap_wr32 ::
  "'d mmio_handler \<Rightarrow> pmap_t \<Rightarrow> u64 \<Rightarrow> u32 \<Rightarrow> u64 \<Rightarrow> u64 \<Rightarrow> 'd mmio_data \<Rightarrow> ((bool \<times> u64) \<times> 'd mmio_data) res" where
  "pmap_wr32 H m phys attr oldentry e w =
     (case pm_type m of
        PMAP_TYPE_VMM \<Rightarrow> Inr ((False, e), w\<lparr>mem := put_bytes (mem w) (span phys 4) (le_bytes 4 e)\<rparr>)
      | PMAP_TYPE_GUEST \<Rightarrow> bind_res (write_gphys_l H phys (ucast e) attr w) (\<lambda>w. Inr ((False, e), w))
      | PMAP_TYPE_GUEST_ATOMIC \<Rightarrow>
          bind_res (cmpxchg_gphys_l H phys (ucast oldentry) (ucast e) attr w)
            (\<lambda>((r, tmp), w). Inr ((r, if r then ucast tmp else e), w)))"

definition pmap_wr64 ::
  "'d mmio_handler \<Rightarrow> pmap_t \<Rightarrow> u64 \<Rightarrow> u32 \<Rightarrow> u64 \<Rightarrow> u64 \<Rightarrow> 'd mmio_data \<Rightarrow> ((bool \<times> u64) \<times> 'd mmio_data) res" where
  "pmap_wr64 H m phys attr oldentry e w =
     (case pm_type m of
        PMAP_TYPE_VMM \<Rightarrow> Inr ((False, e), w\<lparr>mem := put_bytes (mem w) (span phys 8) (le_bytes 8 e)\<rparr>)
      | PMAP_TYPE_GUEST \<Rightarrow> bind_res (write_gphys_q H phys e attr w) (\<lambda>w. Inr ((False, e), w))
      | PMAP_TYPE_GUEST_ATOMIC \<Rightarrow>
          bind_res (cmpxchg_gphys_q H phys oldentry e attr w)
            (\<lambda>((r, tmp), w). Inr ((r, if r then tmp else e), w)))"

section \<open>Reading an entry\<close>

text \<open>A 2 MiB entry for a part of a 1 GiB page, and a 4 KiB entry for a part of a large page.\<close>

definition pde_of_pdpe :: "u64 \<Rightarrow> u64 \<Rightarrow> u64" where
  "pde_of_pdpe addr tmp = (tmp AND NOT 0x3FE00000) OR (addr AND 0x3FE00000)"

definition pte_of_pde :: "nat \<Rightarrow> u64 \<Rightarrow> u64 \<Rightarrow> u64" where
  "pte_of_pde n addr tmp =
     (let tmp = tmp AND NOT PDE_PS_BIT;
          tmp = (if any_bit tmp PDE_4M_PAT_BIT then (tmp OR PTE_PAT_BIT_64) AND NOT PDE_4M_PAT_BIT else tmp)
      in if n = 2 then
           let tmp = tmp OR push_bit 32 (drop_bit 13 (tmp AND 0x1FE000))
           in (tmp AND NOT 0x3FF000) OR (addr AND 0x3FF000)
         else (tmp AND NOT 0x1FF000) OR (addr AND 0x1FF000))"

text \<open>The address of the entry of level \<open>k\<close> in the table that the entry above it points to.\<close>

definition entry_address :: "nat \<Rightarrow> nat \<Rightarrow> u64 \<Rightarrow> u64 \<Rightarrow> u64" where
  "entry_address n k addr e =
     (let tmp = (if n = 3 \<and> k = 2 then e AND 0xFFFFFFE0 else e AND 0x0000FFFFFFFFF000)
      in if n = 2 then tmp OR (drop_bit (10 + 10 * k) addr AND 0xFFC)
         else tmp OR (drop_bit (9 + 9 * k) addr AND 0xFF8))"

text \<open>A step down: the address of the next entry, and the entry read from memory.\<close>

definition below :: "pmap_t \<Rightarrow> pmap_t" where
  "below m = m\<lparr>readlevel := readlevel m - 1, entryaddr := (entryaddr m)(readlevel m - 1 :=
     entry_address (levels m) (readlevel m - 1) (curaddr m) (entry m (readlevel m)))\<rparr>"

definition set_entry :: "nat \<Rightarrow> u64 \<Rightarrow> pmap_t \<Rightarrow> pmap_t" where
  "set_entry k r m = m\<lparr>entry := (entry m)(k := r)\<rparr>"

definition pmap_rd :: "'d mmio_handler \<Rightarrow> pmap_t \<Rightarrow> u64 \<Rightarrow> u32 \<Rightarrow> 'd mmio_data \<Rightarrow> (u64 \<times> 'd mmio_data) res" where
  "pmap_rd H m a attr w = (if levels m = 2 then pmap_rd32 H m a attr w else pmap_rd64 H m a attr w)"

definition table_attr :: "u64 \<Rightarrow> u32" where
  "table_attr e = ucast (e AND (PDE_PWT_BIT OR PDE_PCD_BIT))"

lemma below_simps [simp]:
  "levels (below m) = levels m" "curlevel (below m) = curlevel m" "curaddr (below m) = curaddr m"
  "pm_type (below m) = pm_type m" "readlevel (below m) = readlevel m - 1" "entry (below m) = entry m"
  by (simp_all add: below_def)

lemma set_entry_simps [simp]:
  "levels (set_entry k r m) = levels m" "curlevel (set_entry k r m) = curlevel m"
  "curaddr (set_entry k r m) = curaddr m" "pm_type (set_entry k r m) = pm_type m"
  "readlevel (set_entry k r m) = readlevel m" "entryaddr (set_entry k r m) = entryaddr m"
  "entry (set_entry k r m) = (entry m)(k := r)"
  by (simp_all add: set_entry_def)

function pmap_read :: "'d mmio_handler \<Rightarrow> pmap_t \<Rightarrow> 'd mmio_data \<Rightarrow> (u64 \<times> pmap_t \<times> 'd mmio_data) res" where
  "pmap_read H m w =
     (if readlevel m > curlevel m then
        let tmp = entry m (readlevel m) in
        if \<not> any_bit tmp PDE_P_BIT then Inr (0, m, w)
        else if readlevel m = 2 \<and> any_bit tmp PDE_PS_BIT then
          let tmp = pde_of_pdpe (curaddr m) tmp
          in Inr (if curlevel m = 0 then pte_of_pde (levels m) (curaddr m) tmp else tmp, m, w)
        else if readlevel m = 1 \<and> any_bit tmp PDE_PS_BIT then Inr (pte_of_pde (levels m) (curaddr m) tmp, m, w)
        else
          let m = below m; k = readlevel m in
          (case pmap_rd H m (entryaddr m k) (table_attr tmp) w of
             Inl e \<Rightarrow> Inl e
           | Inr (r, w) \<Rightarrow> pmap_read H (set_entry k r m) w)
      else Inr (entry m (curlevel m), m, w))"
  by pat_completeness auto
termination by (relation "measure (\<lambda>(H, m, w). readlevel m - curlevel m)") auto

declare pmap_read.simps [simp del]

section \<open>Writing an entry\<close>

text \<open>The attributes that are not in \<open>attrmask\<close> get default values.\<close>

definition entry_to_write :: "nat \<Rightarrow> nat \<Rightarrow> u32 \<Rightarrow> u64 \<Rightarrow> u64" where
  "entry_to_write n k attrmask e =
     (let attrdef = (0x26 :: u32);
          attrdef = (if n = 3 \<and> k = 2 then 0 else if k = 0 then attrdef OR 0x40 else attrdef);
          e = e AND (NOT 0xFFF OR ucast attrmask)
      in e OR ucast (attrdef AND NOT attrmask))"

definition pmap_write :: "'d mmio_handler \<Rightarrow> u64 \<Rightarrow> u32 \<Rightarrow> pmap_t \<Rightarrow> 'd mmio_data \<Rightarrow> (bool \<times> pmap_t \<times> 'd mmio_data) res" where
  "pmap_write H e attrmask m w =
     bind_res (assert_res (readlevel m \<le> curlevel m) ''m->readlevel <= m->curlevel'') (\<lambda>_.
     let k = curlevel m; e = entry_to_write (levels m) k attrmask e;
         tblattr = table_attr (entry m (k + 1)); a = entryaddr m k; old = entry m k
     in bind_res (if levels m = 2 then pmap_wr32 H m a tblattr old e w else pmap_wr64 H m a tblattr old e w)
       (\<lambda>((fail, e), w).
         let m = set_entry k e m; m = (if fail then m\<lparr>readlevel := k\<rparr> else m)
         in Inr (fail, m, w)))"

text \<open>The address behind the pointer, and the clearing of a whole table.\<close>

definition pmap_pointer :: "pmap_t \<Rightarrow> u64 res" where
  "pmap_pointer m =
     bind_res (assert_res (readlevel m \<le> curlevel m) ''m->readlevel <= m->curlevel'') (\<lambda>_.
     bind_res (assert_res (pm_type m = PMAP_TYPE_VMM) ''m->type == PMAP_TYPE_VMM'') (\<lambda>_.
     Inr (entryaddr m (curlevel m))))"

definition pmap_clear :: "pmap_t \<Rightarrow> 'd mmio_data \<Rightarrow> (pmap_t \<times> 'd mmio_data) res" where
  "pmap_clear m w =
     bind_res (assert_res (readlevel m \<le> curlevel m + 1) ''m->readlevel <= m->curlevel + 1'') (\<lambda>_.
     bind_res (assert_res (any_bit (entry m (curlevel m + 1)) PDE_P_BIT) ''m->entry[m->curlevel + 1] & PDE_P_BIT'') (\<lambda>_.
     bind_res (assert_res (\<not> (curlevel m = 0 \<and> any_bit (entry m 1) PDE_PS_BIT))
       ''!(m->curlevel == 0 && (m->entry[1] & PDE_PS_BIT))'') (\<lambda>_.
     bind_res (assert_res (pm_type m = PMAP_TYPE_VMM) ''m->type == PMAP_TYPE_VMM'') (\<lambda>_.
     let a = entry m (curlevel m + 1) AND NOT 0xFFF;
         n = (if levels m = 3 \<and> curlevel m = 2 then 8 * 4 else 4096)
     in Inr (m\<lparr>readlevel := curlevel m + 1\<rparr>, w\<lparr>mem := put_bytes (mem w) (span a n) (replicate n 0)\<rparr>)))))"

section \<open>An access that no device takes\<close>

lemma access_direct_hit: "access_direct wr f a i n s = Inr s' \<Longrightarrow> hit s' = hit s"
  by (auto simp: access_direct_def bind_res_Inr_iff)

lemma access_handler_hit: "access_handler H wr f k a i n s = Inr s' \<Longrightarrow> hit s' = hit s"
  by (auto simp: access_handler_def Let_def dest: access_direct_hit split: prod.splits if_splits)

lemma access_handle_hit:
  assumes "access_handle H wr f h a n s = Inr s'" shows "hit s'"
proof -
  let ?t = "ucast (a - gphysaddr s) :: u32"
  obtain s1 s2 where d: "access_direct wr f (gphysaddr s) (off s) ?t (s\<lparr>hit := True\<rparr>) = Inr s1"
    and c: "(let s = advance ?t s1 in
      if unlocked_handler h then
        (if unlocked s \<noteq> None then Inl (Panic ''mmio_access_memory: two unlocked handlers in one access'')
         else Inr (s\<lparr>unlocked := Some (handler h, gphysaddr s, off s, n)\<rparr>))
      else access_handler H wr f (handler h) (gphysaddr s) (off s) n s) = Inr s2"
    and s': "s' = advance n s2"
    using assms by (auto simp: access_handle_def Let_def bind_res_Inr_iff simp del: not_None_eq)
  have "hit (advance ?t s1)" using access_direct_hit [OF d] by (simp add: advance_def)
  then have "hit s2" using c unfolding Let_def by (auto split: if_splits dest: access_handler_hit)
  then show ?thesis by (simp add: s' advance_def)
qed

lemma access_list_hit:
  "access_list H wr f ps s = Inr (out, s') \<Longrightarrow> (hit s \<longrightarrow> hit s') \<and> (\<not> hit s' \<longrightarrow> s' = s)"
proof (induction ps arbitrary: s)
  case (Cons p ps)
  show ?case
  proof (cases "gphys (hinfo (wld s) p) \<ge> gphysaddr s + ucast (left s)")
    case False
    with Cons.prems obtain rc where
      rc: "rangecheck (hinfo (wld s) p) (gphysaddr s) (left s) True = Inr rc" and
      r: "(case rc of None \<Rightarrow> access_list H wr f ps s
        | Some (gphys2, len2) \<Rightarrow> bind_res (access_handle H wr f (hinfo (wld s) p) gphys2 len2 s) (\<lambda>s.
            if left s = 0 then Inr (True, s) else access_list H wr f ps s)) = Inr (out, s')"
      by (auto simp: Let_def bind_res_Inr_iff)
    show ?thesis
    proof (cases rc)
      case None
      with r Cons.IH show ?thesis by simp
    next
      case (Some x)
      then obtain s1 where s1: "access_handle H wr f (hinfo (wld s) p) (fst x) (snd x) s = Inr s1"
        "(if left s1 = 0 then Inr (True, s1) else access_list H wr f ps s1) = Inr (out, s')"
        using r by (auto simp: bind_res_Inr_iff split: prod.splits)
      with Cons.IH [of s1] access_handle_hit [OF s1(1)] show ?thesis by (auto split: if_splits)
    qed
  qed (use Cons.prems in \<open>simp add: Let_def\<close>)
qed simp

lemma access_slots_hit:
  "access_slots H wr f is s = Inr s' \<Longrightarrow> (hit s \<longrightarrow> hit s') \<and> (\<not> hit s' \<longrightarrow> s' = s)"
proof (induction "is" arbitrary: s)
  case (Cons i "is")
  then obtain out s1 where s1: "access_list H wr f (mmio (wld s) i) s = Inr (out, s1)"
    "(if out then Inr s1 else access_slots H wr f is s1) = Inr s'"
    by (auto simp: bind_res_Inr_iff)
  note l = access_list_hit [OF s1(1)]
  show ?case
  proof (cases out)
    case True
    with s1(2) l show ?thesis by simp
  next
    case False
    with s1(2) have "(hit s1 \<longrightarrow> hit s') \<and> (\<not> hit s' \<longrightarrow> s' = s1)" by (intro Cons.IH) simp
    with l show ?thesis by metis
  qed
qed simp

lemma access_memory_not_taken:
  assumes "mmio_access_memory H a wr bs n f w = Inr (False, bs', w')"
  shows "w' = w"
proof -
  let ?s = "\<lparr>gphysaddr = a, off = 0, left = n, buf = bs, hit = False, unlocked = None, wld = w\<rparr>"
  obtain s1 s2 s3 where s1: "(if n = 0 then Inr ?s else access_slots H wr f [slot a..<slot (a + ucast n - 1) + 1] ?s) = Inr s1"
    and s2: "(if hit s1 then access_direct wr f (gphysaddr s1) (off s1) (left s1) s1 else Inr s1) = Inr s2"
    and s3: "(case unlocked s2 of None \<Rightarrow> Inr s2 | Some (k, a2, i2, n2) \<Rightarrow> access_handler H wr f k a2 i2 n2 s2) = Inr s3"
    and "\<not> hit s3" "w' = wld s3"
    using assms by (auto simp: mmio_access_memory_def Let_def bind_res_Inr_iff)
  moreover have "hit s3 = hit s2"
    using s3 by (auto dest: access_handler_hit split: option.splits prod.splits)
  moreover have "hit s2 = hit s1" using s2 by (auto dest: access_direct_hit split: if_splits)
  ultimately have "\<not> hit s1" "s2 = s1" by auto
  moreover from this have "s1 = ?s"
    using s1 access_slots_hit [of H wr f "[slot a..<slot (a + ucast n - 1) + 1]" ?s s1] by (cases "n = 0") auto
  ultimately have e: "s2 = ?s" by simp
  with s3 have "s3 = ?s" unfolding e by simp
  then show ?thesis unfolding \<open>w' = wld s3\<close> by simp
qed

text \<open>What a compare and exchange that returns has done.\<close>

lemma cmpxchg_gphys_done:
  assumes "cmpxchg_gphys msg old new H phys attr w = Inr (x, w')"
  obtains at h where "gmm_pass_gp2hp w phys = (h, False)"
    "hphys_cmpxchg h old new at (mmio_unlock (mmio_lock w)) = (x, w')"
proof -
  obtain at bs1 w1 h where
    m: "mmio_access_memory H phys False old (of_nat (length old)) at (mmio_lock w) = Inr (False, bs1, w1)" and
    g: "gmm_pass_gp2hp (mmio_unlock w1) phys = (h, False)" and c: "hphys_cmpxchg h old new at (mmio_unlock w1) = (x, w')"
    using assms by (auto simp: cmpxchg_gphys_def bind_res_Inr_iff Let_def split: prod.splits if_splits)
  from access_memory_not_taken [OF m] have "w1 = mmio_lock w" .
  moreover have "safe True w (mmio_unlock (mmio_lock w))" by (rule safe_trans [OF mmio_lock_safe mmio_unlock_safe])
  ultimately show ?thesis using g c by (intro that) (auto simp: gmm_pass_gp2hp_def safe_def)
qed

section \<open>Interference\<close>

text \<open>
  An access of this processor comes after one step of the others.  What a compare and exchange
  leaves in memory, and when it can fail.
\<close>

definition found :: "nat \<Rightarrow> u64 \<Rightarrow> 'a world_scheme \<Rightarrow> u8 list" where
  "found n phys w = get_bytes (mem w) (span (fst (gmm_pass_gp2hp w phys)) n)"

lemma pending_other_cpus: "pending (other_cpus w) = tl (pending w)" "pending w = [] \<Longrightarrow> mem (other_cpus w) = mem w"
  by (simp_all add: other_cpus_def split: list.split)

lemma scan_del_world:
  "mem (scan a n (\<lambda>i. del i p) w) = mem w" "pending (scan a n (\<lambda>i. del i p) w) = pending w"
proof -
  have "mem (fold (\<lambda>i. del i p) is w) = mem w \<and> pending (fold (\<lambda>i. del i p) is w) = pending w" for "is"
    by (induction "is" arbitrary: w) (simp_all add: del_def)
  then show "mem (scan a n (\<lambda>i. del i p) w) = mem w" "pending (scan a n (\<lambda>i. del i p) w) = pending w"
    by (simp_all add: scan_def Let_def)
qed

lemma remove_handle_world: "mem (remove_handle p w) = mem w" "pending (remove_handle p w) = pending w"
  by (simp_all add: remove_handle_def Let_def scan_del_world)

lemma remove_handles_world:
  "mem (fold (\<lambda>p w. if unregistered (hinfo w p) then remove_handle p w else w) ps w) = mem w"
  "pending (fold (\<lambda>p w. if unregistered (hinfo w p) then remove_handle p w else w) ps w) = pending w"
  by (induction ps arbitrary: w) (simp_all add: remove_handle_world)

lemma lock_unlock_world:
  "mem (mmio_unlock (mmio_lock w)) = mem w" "pending (mmio_unlock (mmio_lock w)) = pending w"
  "gmm_pass_gp2hp (mmio_unlock (mmio_lock w)) = gmm_pass_gp2hp w"
proof -
  show "mem (mmio_unlock (mmio_lock w)) = mem w" "pending (mmio_unlock (mmio_lock w)) = pending w"
    by (simp_all add: mmio_unlock_def mmio_lock_def Let_def remove_handles_world)
  have "safe True w (mmio_unlock (mmio_lock w))" by (rule safe_trans [OF mmio_lock_safe mmio_unlock_safe])
  then show "gmm_pass_gp2hp (mmio_unlock (mmio_lock w)) = gmm_pass_gp2hp w"
    by (simp add: fun_eq_iff gmm_pass_gp2hp_def safe_def)
qed

lemma other_cpus_gp2hp: "gmm_pass_gp2hp (other_cpus w) = gmm_pass_gp2hp w"
  by (simp add: fun_eq_iff gmm_pass_gp2hp_def other_cpus_def split: list.split)

lemma cmpxchg_gphys_world:
  assumes "cmpxchg_gphys msg old new H phys attr w = Inr ((fail, cur), w')" "length new = length old"
    "length new \<le> 4096"
  shows "pending w' = tl (pending w)" "gmm_pass_gp2hp w' = gmm_pass_gp2hp w" "length cur = length new"
    "cur = found (length new) phys (other_cpus w)" "fail \<longleftrightarrow> cur \<noteq> old"
    "found (length new) phys w' = (if fail then cur else new)"
proof -
  obtain at h where g: "gmm_pass_gp2hp w phys = (h, False)"
    "hphys_cmpxchg h old new at (mmio_unlock (mmio_lock w)) = ((fail, cur), w')"
    by (rule cmpxchg_gphys_done [OF assms(1)])
  let ?w = "mmio_unlock (mmio_lock w)" and ?as = "span h (length new)"
  have m: "mem (other_cpus ?w) = mem (other_cpus w)"
    using lock_unlock_world(1,2) [of w] by (simp add: other_cpus_def split: list.split)
  have w': "cur = get_bytes (mem (other_cpus w)) ?as" "fail \<longleftrightarrow> cur \<noteq> old"
    "mem w' = (if fail then mem (other_cpus w) else put_bytes (mem (other_cpus w)) ?as new)"
    "pending w' = pending (other_cpus ?w)" "gmm_pass_gp2hp w' = gmm_pass_gp2hp (other_cpus ?w)"
    using g(2) by (auto simp: hphys_cmpxchg_def Let_def note_event_def m fun_eq_iff gmm_pass_gp2hp_def split: if_splits)
  show "pending w' = tl (pending w)" "gmm_pass_gp2hp w' = gmm_pass_gp2hp w" "length cur = length new"
    "fail \<longleftrightarrow> cur \<noteq> old"
    using w' by (simp_all add: pending_other_cpus lock_unlock_world other_cpus_gp2hp get_bytes_def)
  then show "cur = found (length new) phys (other_cpus w)"
    using w' g(1) by (simp add: found_def other_cpus_gp2hp)
  show "found (length new) phys w' = (if fail then cur else new)"
    using w' g(1) assms(3)
    by (simp add: found_def lock_unlock_world other_cpus_gp2hp get_put_bytes span_distinct)
qed

section \<open>Words and their bytes\<close>

lemma bit_of_bytes:
  "bit (of_bytes bs :: 'a::len word) k \<longleftrightarrow> k < LENGTH('a) \<and> k div 8 < length bs \<and> bit (bs ! (k div 8)) (k mod 8)"
proof (induction bs arbitrary: k)
  case (Cons b bs)
  show ?case
  proof (cases "k < 8")
    case True
    then show ?thesis by (auto simp: of_bytes_def bit_simps dest: bit_imp_le_length)
  next
    case False
    then have "k div 8 = Suc ((k - 8) div 8)" "k mod 8 = (k - 8) mod 8"
      by (simp_all add: div_if mod_if)
    moreover have "\<not> bit b k" using False by (auto dest: bit_imp_le_length)
    ultimately show ?thesis
      using False Cons.IH [of "k - 8"] by (auto simp: of_bytes_def bit_simps)
  qed
qed (simp add: of_bytes_def)

lemma le_bytes_of_bytes:
  assumes "8 * length bs \<le> LENGTH('a)" "n = length bs" shows "le_bytes n (of_bytes bs :: 'a::len word) = bs"
proof (rule nth_equalityI)
  fix i assume "i < length (le_bytes n (of_bytes bs :: 'a word))"
  then have i: "i < length bs" by (simp add: assms(2))
  have "ucast (drop_bit (8 * i) (of_bytes bs :: 'a word)) = bs ! i"
  proof (rule bit_word_eqI)
    fix j assume "j < LENGTH(8)"
    then show "bit (ucast (drop_bit (8 * i) (of_bytes bs :: 'a word)) :: u8) j = bit (bs ! i) j"
      using i assms(1) by (simp add: bit_simps bit_of_bytes)
  qed
  then show "le_bytes n (of_bytes bs :: 'a word) ! i = bs ! i" using i by (simp add: le_bytes_def assms(2))
qed (simp add: assms(2))

lemma of_bytes_le_bytes:
  fixes x :: "'a::len word"
  assumes "LENGTH('a) \<le> 8 * n" shows "of_bytes (le_bytes n x) = x"
proof (rule bit_word_eqI)
  fix k assume k: "k < LENGTH('a)"
  then have "k div 8 < n" using assms by linarith
  then show "bit (of_bytes (le_bytes n x) :: 'a word) k = bit x k"
    using k by (simp add: bit_of_bytes le_bytes_def bit_simps)
qed

lemma le_bytes_ucast_up: "le_bytes 4 (ucast x :: u64) = le_bytes 4 x" for x :: u32
proof -
  have "(ucast (drop_bit (8 * i) (ucast x :: u64)) :: u8) = ucast (drop_bit (8 * i) x)" if "i < 4" for i
    using that by (intro bit_word_eqI) (auto simp: bit_simps dest: bit_imp_le_length)
  then show ?thesis by (simp add: le_bytes_def)
qed

section \<open>What the cursor knows\<close>

text \<open>The entry of level \<open>k\<close> that the cursor holds is the one in memory.\<close>

definition entry_size :: "pmap_t \<Rightarrow> nat" where "entry_size m = (if levels m = 2 then 4 else 8)"

definition holds :: "pmap_t \<Rightarrow> nat \<Rightarrow> 'a world_scheme \<Rightarrow> bool" where
  "holds m k w \<longleftrightarrow> found (entry_size m) (entryaddr m k) w = le_bytes (entry_size m) (entry m k)"

lemma rd_atomic:
  assumes "pm_type m = PMAP_TYPE_GUEST_ATOMIC"
    "(if levels m = 2 then pmap_rd32 H m a attr w else pmap_rd64 H m a attr w) = Inr (r, w')"
  shows "pending w' = tl (pending w)" "gmm_pass_gp2hp w' = gmm_pass_gp2hp w"
    "found (entry_size m) a w' = le_bytes (entry_size m) r"
proof -
  have "pending w' = tl (pending w) \<and> gmm_pass_gp2hp w' = gmm_pass_gp2hp w \<and>
    found (entry_size m) a w' = le_bytes (entry_size m) r"
  proof (cases "levels m = 2")
    case True
    then obtain fail cur where c: "cmpxchg_gphys ''cmpxchg_gphys_l modifying VMM memory.'' (le_bytes 4 (0 :: u32))
        (le_bytes 4 (0 :: u32)) H a attr w = Inr ((fail, cur), w')" "r = ucast (of_bytes cur :: u32)"
      using assms by (auto simp: pmap_rd32_def cmpxchg_gphys_l_def bind_res_Inr_iff split: if_splits)
    note d = cmpxchg_gphys_world [OF c(1)]
    have "le_bytes 4 r = cur" using d(3) by (simp add: c(2) le_bytes_ucast_up le_bytes_of_bytes)
    then show ?thesis using d True by (simp add: entry_size_def)
  next
    case False
    then obtain fail cur where c: "cmpxchg_gphys ''cmpxchg_gphys_q modifying VMM memory.'' (le_bytes 8 (0 :: u64))
        (le_bytes 8 (0 :: u64)) H a attr w = Inr ((fail, cur), w')" "r = of_bytes cur"
      using assms by (auto simp: pmap_rd64_def cmpxchg_gphys_q_def bind_res_Inr_iff split: if_splits)
    note d = cmpxchg_gphys_world [OF c(1)]
    have "le_bytes 8 r = cur" using d(3) by (simp add: c(2) le_bytes_of_bytes)
    then show ?thesis using d False by (simp add: entry_size_def)
  qed
  then show "pending w' = tl (pending w)" "gmm_pass_gp2hp w' = gmm_pass_gp2hp w"
    "found (entry_size m) a w' = le_bytes (entry_size m) r" by simp_all
qed

lemma wr_atomic:
  assumes "pm_type m = PMAP_TYPE_GUEST_ATOMIC"
    "(if levels m = 2 then pmap_wr32 H m a attr old e w else pmap_wr64 H m a attr old e w) = Inr ((fail, e'), w')"
  shows "pending w' = tl (pending w)" "gmm_pass_gp2hp w' = gmm_pass_gp2hp w"
    "found (entry_size m) a w' = le_bytes (entry_size m) e'" "\<not> fail \<Longrightarrow> e' = e"
    "fail \<longleftrightarrow> found (entry_size m) a (other_cpus w) \<noteq> le_bytes (entry_size m) old"
proof -
  have "pending w' = tl (pending w) \<and> gmm_pass_gp2hp w' = gmm_pass_gp2hp w \<and>
    found (entry_size m) a w' = le_bytes (entry_size m) e' \<and> (\<not> fail \<longrightarrow> e' = e) \<and>
    (fail \<longleftrightarrow> found (entry_size m) a (other_cpus w) \<noteq> le_bytes (entry_size m) old)"
  proof (cases "levels m = 2")
    case True
    then obtain cur where c: "cmpxchg_gphys ''cmpxchg_gphys_l modifying VMM memory.'' (le_bytes 4 (ucast old :: u32))
        (le_bytes 4 (ucast e :: u32)) H a attr w = Inr ((fail, cur), w')"
        "e' = (if fail then ucast (of_bytes cur :: u32) else e)"
      using assms by (auto simp: pmap_wr32_def cmpxchg_gphys_l_def bind_res_Inr_iff split: if_splits)
    note d = cmpxchg_gphys_world [OF c(1)]
    have "le_bytes 4 (ucast (of_bytes cur :: u32) :: u64) = cur"
      using d(3) by (simp add: le_bytes_ucast_up le_bytes_of_bytes)
    then show ?thesis using d True c(2) by (auto simp: entry_size_def le_bytes_ucast)
  next
    case False
    then obtain cur where c: "cmpxchg_gphys ''cmpxchg_gphys_q modifying VMM memory.'' (le_bytes 8 old)
        (le_bytes 8 e) H a attr w = Inr ((fail, cur), w')" "e' = (if fail then of_bytes cur else e)"
      using assms by (auto simp: pmap_wr64_def cmpxchg_gphys_q_def bind_res_Inr_iff split: if_splits)
    note d = cmpxchg_gphys_world [OF c(1)]
    have "le_bytes 8 (of_bytes cur :: u64) = cur" using d(3) by (simp add: le_bytes_of_bytes)
    then show ?thesis using d False c(2) by (auto simp: entry_size_def)
  qed
  then show "pending w' = tl (pending w)" "gmm_pass_gp2hp w' = gmm_pass_gp2hp w"
    "found (entry_size m) a w' = le_bytes (entry_size m) e'" "\<not> fail \<Longrightarrow> e' = e"
    "fail \<longleftrightarrow> found (entry_size m) a (other_cpus w) \<noteq> le_bytes (entry_size m) old" by simp_all
qed

text \<open>Reading: the cursor keeps what it knows, and a read entry is the one in memory.\<close>

definition same_walk :: "pmap_t \<Rightarrow> pmap_t \<Rightarrow> bool" where
  "same_walk m m' \<longleftrightarrow> levels m' = levels m \<and> curlevel m' = curlevel m \<and> curaddr m' = curaddr m \<and> pm_type m' = pm_type m"

definition descends :: "pmap_t \<Rightarrow> bool" where
  "descends m \<longleftrightarrow> curlevel m < readlevel m \<and> any_bit (entry m (readlevel m)) PDE_P_BIT \<and>
     \<not> (readlevel m = 2 \<and> any_bit (entry m (readlevel m)) PDE_PS_BIT) \<and>
     \<not> (readlevel m = 1 \<and> any_bit (entry m (readlevel m)) PDE_PS_BIT)"

text \<open>One turn of the loop, and the cases in which it ends.\<close>

lemma descends_level: "descends m \<Longrightarrow> curlevel m < readlevel m"
  by (simp add: descends_def)

lemma pmap_read_step:
  assumes "descends m"
  shows "pmap_read H m w =
    bind_res (pmap_rd H (below m) (entryaddr (below m) (readlevel m - 1)) (table_attr (entry m (readlevel m))) w)
      (\<lambda>(r, w). pmap_read H (set_entry (readlevel m - 1) r (below m)) w)"
proof -
  from assms have c: "curlevel m < readlevel m" "any_bit (entry m (readlevel m)) PDE_P_BIT"
    "(readlevel m = 2 \<and> any_bit (entry m (readlevel m)) PDE_PS_BIT) = False"
    "(readlevel m = 1 \<and> any_bit (entry m (readlevel m)) PDE_PS_BIT) = False"
    by (simp_all add: descends_def)
  show ?thesis
    by (subst pmap_read.simps)
      (simp only: c if_True if_False not_True_eq_False Let_def below_simps bind_res_def)
qed

lemma pmap_read_stop:
  assumes "pmap_read H m w = Inr (e, m', w')" "\<not> descends m" shows "m' = m" "w' = w"
proof -
  have "m' = m \<and> w' = w"
    using assms by (subst (asm) pmap_read.simps) (auto simp: Let_def descends_def split: if_splits)
  then show "m' = m" "w' = w" by simp_all
qed

text \<open>Induction along a read that returns.\<close>

lemma pmap_read_induct [consumes 1, case_names stop step]:
  assumes "pmap_read H m w = Inr (e, m', w')"
    and "\<And>m w. \<not> descends m \<Longrightarrow> pmap_read H m w = Inr (e, m, w) \<Longrightarrow> m' = m \<Longrightarrow> w' = w \<Longrightarrow> P m w"
    and "\<And>m w r w1. descends m \<Longrightarrow>
      pmap_rd H (below m) (entryaddr (below m) (readlevel m - 1)) (table_attr (entry m (readlevel m))) w = Inr (r, w1) \<Longrightarrow>
      pmap_read H (set_entry (readlevel m - 1) r (below m)) w1 = Inr (e, m', w') \<Longrightarrow>
      P (set_entry (readlevel m - 1) r (below m)) w1 \<Longrightarrow> P m w"
  shows "P m w"
  using assms(1)
proof (induction "readlevel m - curlevel m" arbitrary: m w rule: less_induct)
  case less
  show ?case
  proof (cases "descends m")
    case True
    with less.prems obtain r w1 where r:
      "pmap_rd H (below m) (entryaddr (below m) (readlevel m - 1)) (table_attr (entry m (readlevel m))) w = Inr (r, w1)"
      "pmap_read H (set_entry (readlevel m - 1) r (below m)) w1 = Inr (e, m', w')"
      by (auto simp: pmap_read_step bind_res_Inr_iff)
    moreover have "readlevel m - 1 - curlevel m < readlevel m - curlevel m" using descends_level [OF True] by linarith
    ultimately show ?thesis using less.hyps True by (intro assms(3) [OF True r]) simp_all
  next
    case False
    with pmap_read_stop [OF less.prems False] less.prems show ?thesis by (intro assms(2)) simp_all
  qed
qed

lemma pmap_read_atomic:
  assumes "pm_type m = PMAP_TYPE_GUEST_ATOMIC" "pmap_read H m w = Inr (e, m', w')"
  shows "same_walk m m' \<and> length (pending w') \<le> length (pending w) \<and> gmm_pass_gp2hp w' = gmm_pass_gp2hp w \<and>
    (readlevel m \<le> curlevel m \<longrightarrow> m' = m \<and> w' = w) \<and>
    (curlevel m < readlevel m \<and> readlevel m' \<le> curlevel m \<longrightarrow>
      holds m' (curlevel m) w' \<and> (pending w \<noteq> [] \<longrightarrow> length (pending w') < length (pending w)))"
  using assms(2,1)
proof (induction rule: pmap_read_induct)
  case (stop m w)
  then show ?case
    by (subst (asm) pmap_read.simps) (auto simp: same_walk_def Let_def descends_def split: if_splits)
next
  case (step m w r w1)
  let ?k = "readlevel m - 1" and ?m = "set_entry (readlevel m - 1) r (below m)"
  have at: "pm_type (below m) = PMAP_TYPE_GUEST_ATOMIC" using step.prems by simp
  note rd = rd_atomic [OF at step.hyps(2) [unfolded pmap_rd_def]]
  have h: "holds ?m ?k w1" using rd(3) by (simp add: holds_def entry_size_def cong: if_cong)
  have len: "length (pending w1) \<le> length (pending w)"
    "pending w \<noteq> [] \<Longrightarrow> length (pending w1) < length (pending w)" using rd(1) by (simp_all add: Suc_diff_le)
  have IH: "same_walk ?m m'" "length (pending w') \<le> length (pending w1)" "gmm_pass_gp2hp w' = gmm_pass_gp2hp w1"
    "?k \<le> curlevel m \<Longrightarrow> m' = ?m \<and> w' = w1"
    "curlevel m < ?k \<Longrightarrow> readlevel m' \<le> curlevel m \<Longrightarrow> holds m' (curlevel m) w'"
    using step.IH at by simp_all
  have c: "curlevel m < readlevel m" "curlevel m \<le> ?k" using descends_level [OF step.hyps(1)] by linarith+
  have "same_walk m m'" using IH(1) by (simp add: same_walk_def)
  moreover have "holds m' (curlevel m) w'" if "readlevel m' \<le> curlevel m"
    using h IH(4,5) c(2) that by (cases "?k = curlevel m") simp_all
  ultimately show ?case using IH(2,3) len rd(2) c(1) by auto
qed

text \<open>
  Writing: a failed exchange has taken one step of the others, or the cursor did not hold what is
  in memory; afterwards it does.
\<close>

definition unsettled :: "pmap_t \<Rightarrow> 'a world_scheme \<Rightarrow> nat" where
  "unsettled m w = length (pending w) + (if curlevel m < readlevel m \<or> holds m (curlevel m) w then 0 else 1)"

lemma pmap_write_atomic:
  assumes "pm_type m = PMAP_TYPE_GUEST_ATOMIC" "pmap_write H e msk m w = Inr (fail, m', w')"
  shows "same_walk m m'" "readlevel m \<le> curlevel m" "readlevel m' \<le> curlevel m'" "holds m' (curlevel m) w'"
    "length (pending w') \<le> length (pending w)" "gmm_pass_gp2hp w' = gmm_pass_gp2hp w"
    "fail \<Longrightarrow> unsettled m' w' < unsettled m w"
proof -
  let ?k = "curlevel m"
  let ?attr = "table_attr (entry m (?k + 1))"
  let ?e = "entry_to_write (levels m) ?k msk e"
  obtain e' where r: "readlevel m \<le> ?k"
    and wr: "(if levels m = 2 then pmap_wr32 H m (entryaddr m ?k) ?attr (entry m ?k) ?e w
      else pmap_wr64 H m (entryaddr m ?k) ?attr (entry m ?k) ?e w) = Inr ((fail, e'), w')"
    and m': "m' = (if fail then (set_entry ?k e' m)\<lparr>readlevel := ?k\<rparr> else set_entry ?k e' m)"
    using assms(2) by (auto simp: pmap_write_def Let_def bind_res_Inr_iff simp del: One_nat_def)
  note d = wr_atomic [OF assms(1) wr]
  show "same_walk m m'" "readlevel m \<le> curlevel m" "readlevel m' \<le> curlevel m'"
    using r by (auto simp: same_walk_def m' Let_def)
  show h: "holds m' ?k w'" using d(3) by (auto simp: holds_def m' entry_size_def split: if_splits)
  show p: "length (pending w') \<le> length (pending w)" "gmm_pass_gp2hp w' = gmm_pass_gp2hp w"
    using d(1,2) by simp_all
  show "unsettled m' w' < unsettled m w" if fail
  proof (cases "pending w = []")
    case True
    then have "found (entry_size m) (entryaddr m ?k) w \<noteq> le_bytes (entry_size m) (entry m ?k)"
      using d(5) that by (simp add: other_cpus_def)
    then show ?thesis using True d(1) h r that by (simp add: unsettled_def holds_def m' Let_def)
  next
    case False
    then have "length (pending w') < length (pending w)" using d(1) by simp
    then show ?thesis using h that by (simp add: unsettled_def m' Let_def)
  qed
qed

lemma pmap_read_unsettled:
  assumes "pm_type m = PMAP_TYPE_GUEST_ATOMIC" "pmap_read H m w = Inr (e, m', w')" "readlevel m' \<le> curlevel m'"
  shows "unsettled m' w' \<le> unsettled m w"
  using pmap_read_atomic [OF assms(1,2)] assms(3)
  by (cases "curlevel m < readlevel m") (auto simp: unsettled_def same_walk_def)

section \<open>Page table access does not touch the VMM\<close>

lemma pmap_read_same:
  assumes "pmap_read H m w = Inr (e, m', w')" shows "same_walk m m'"
  using assms by (induction rule: pmap_read_induct) (simp_all add: same_walk_def)

lemma pmap_rd_safe:
  assumes "ready w" "pm_type m \<noteq> PMAP_TYPE_VMM" "pmap_rd H m a attr w = Inr (r, w')" shows "safe st w w'"
  using assms
  by (cases "pm_type m")
    (auto simp: pmap_rd_def pmap_rd32_def pmap_rd64_def bind_res_Inr_iff split: if_splits
      intro: read_gphys_l_safe read_gphys_q_safe cmpxchg_gphys_l_safe cmpxchg_gphys_q_safe)

lemma pmap_read_safe:
  assumes "pmap_read H m w = Inr (e, m', w')" "ready w" "pm_type m \<noteq> PMAP_TYPE_VMM" shows "safe st w w'"
  using assms
proof (induction rule: pmap_read_induct)
  case (step m w r w1)
  have s: "safe st w w1" using pmap_rd_safe [OF step.prems(1) _ step.hyps(2)] step.prems(2) by simp
  moreover have "safe st w1 w'" using step.IH safe_ready [OF s step.prems(1)] step.prems(2) by simp
  ultimately show ?case by (rule safe_trans)
qed simp

lemma pmap_write_fail_atomic:
  assumes "pmap_write H e msk m w = Inr (True, m', w')" shows "pm_type m = PMAP_TYPE_GUEST_ATOMIC"
  using assms
  by (cases "pm_type m") (auto simp: pmap_write_def Let_def bind_res_Inr_iff pmap_wr32_def pmap_wr64_def split: if_splits)

lemma pmap_write_safe:
  assumes "pmap_write H e msk m w = Inr (fail, m', w')" "ready w" "pm_type m = PMAP_TYPE_GUEST_ATOMIC"
  shows "safe st w w'"
  using assms
  by (auto simp: pmap_write_def Let_def bind_res_Inr_iff pmap_wr32_def pmap_wr64_def split: if_splits
      intro: cmpxchg_gphys_l_safe cmpxchg_gphys_q_safe)

end
