(* ===== verification/Cpu_Mmu.thy ===== *)
theory Cpu_Mmu
  imports Prelude Pmap
begin

text \<open>
  The VMM's own walk of the guest's page tables (\<^verbatim>\<open>bitvisor/core/cpu_mmu.c\<close>) and the access to guest
  memory by linear address that emulation uses: permission and reserved bit checks, accessed and
  dirty bits set by compare and exchange, large pages.
\<close>

section \<open>Parameters of a walk\<close>

datatype vmmerr =
    VMMERR_SUCCESS | VMMERR_GUESTSEG_LOAD_FAILED | VMMERR_GUESTSEG_NOT_PRESENT | VMMERR_INVALID_GUESTSEG
  | VMMERR_PAGE_NOT_PRESENT | VMMERR_PAGE_NOT_ACCESSIBLE | VMMERR_PAGE_NOT_EXECUTABLE
  | VMMERR_PAGE_BAD_RESERVED_BIT | VMMERR_INSTRUCTION_TOO_LONG | VMMERR_UNIMPLEMENTED_OPCODE
  | VMMERR_UNSUPPORTED_OPCODE | VMMERR_EXCEPTION_UD | VMMERR_AVOID_COMPILER_WARNING | VMMERR_SW
  | VMMERR_NOMEM | VMMERR_MSR_FAULT

record get_pte_data =
  d_pg :: bool
  d_wp :: bool
  d_pse :: bool
  d_pae :: bool
  d_lme :: bool
  d_nxe :: bool
  d_write :: bool
  d_user :: bool
  d_exec :: bool

text \<open>Indexed by NXE, by the number of levels less 2, and by level.\<close>

definition reserved_bit_table :: "u64 list list list" where
  "reserved_bit_table =
     [[[0x0000000000200000, 0x0000000000000000, 0x0000000000000000,
        0xFFFFFFFFFFFFFFFF, 0xFFFFFFFFFFFFFFFF, 0xFFFFFFFFFFFFFFFF],
       [0xFFFFFFF0001FE000, 0xFFFFFFF000000000, 0xFFFFFFF000000000,
        0xFFFFFFF0000001E6, 0xFFFFFFFFFFFFFFFF, 0xFFFFFFFFFFFFFFFF],
       [0x800FFFF0001FE000, 0x800FFFF000000000, 0x800FFFF000000000,
        0x800FFFF000000100, 0x800FFFF000000180, 0x800FFFF03FFFE000]],
      [[0x0000000000200000, 0x0000000000000000, 0x0000000000000000,
        0xFFFFFFFFFFFFFFFF, 0xFFFFFFFFFFFFFFFF, 0xFFFFFFFFFFFFFFFF],
       [0x7FFFFFF0001FE000, 0x7FFFFFF000000000, 0x7FFFFFF000000000,
        0xFFFFFFF0000001E6, 0xFFFFFFFFFFFFFFFF, 0xFFFFFFFFFFFFFFFF],
       [0x000FFFF0001FE000, 0x000FFFF000000000, 0x000FFFF000000000,
        0x000FFFF000000100, 0x000FFFF000000180, 0x000FFFF03FFFE000]]]"

text \<open>\<open>pmask\<close> is \<open>current->pte_addr_mask\<close>, the address bits of the processor.\<close>

definition test_pmap_entry_reserved_bit :: "u64 \<Rightarrow> u64 \<Rightarrow> nat \<Rightarrow> nat \<Rightarrow> get_pte_data \<Rightarrow> bool res" where
  "test_pmap_entry_reserved_bit pmask e level n d =
     (if \<not> d_pae d \<and> \<not> d_pse d then Inr False
      else
        let level = (if level = 2 \<and> any_bit e PDE_PS_BIT then 0 else level);
            level = (if level = 3 \<and> n = 4 \<and> any_bit e PDE_PS_BIT then 5 else level);
            msk = reserved_bit_table ! (if d_nxe d then 1 else 0) ! (n - 2) ! level;
            msk = msk XOR (pmask XOR PTE_ADDR_MASK64)
        in bind_res (assert_res (msk \<noteq> 0xFFFFFFFFFFFFFFFF) ''mask != 0xFFFFFFFFFFFFFFFFULL'') (\<lambda>_. Inr (any_bit e msk)))"

definition set_ad_bit :: "'d mmio_handler \<Rightarrow> pmap_t \<Rightarrow> u64 \<Rightarrow> bool \<Rightarrow> bool \<Rightarrow> 'd mmio_data \<Rightarrow> (bool \<times> u64 \<times> pmap_t \<times> 'd mmio_data) res" where
  "set_ad_bit H m e seta setd w =
     (let seta = (if any_bit e PDE_A_BIT then False else seta);
          setd = (if any_bit e PDE_D_BIT then False else setd)
      in if seta \<or> setd then
           let e = (if seta then e OR PDE_A_BIT else e); e = (if setd then e OR PDE_D_BIT else e)
           in bind_res (pmap_write H e 0xFFF m w) (\<lambda>(fail, m, w). Inr (fail, e, m, w))
         else Inr (False, e, m, w))"

section \<open>One level\<close>

text \<open>The tests of an entry, and the entry as the rest of the walk sees it.\<close>

definition check_entry :: "u64 \<Rightarrow> get_pte_data \<Rightarrow> nat \<Rightarrow> nat \<Rightarrow> u64 \<Rightarrow> (vmmerr + u64) res" where
  "check_entry pmask d n i e =
     (if \<not> any_bit e PDE_P_BIT then Inr (Inl VMMERR_PAGE_NOT_PRESENT)
      else bind_res (test_pmap_entry_reserved_bit pmask e i n d) (\<lambda>r.
      if r then Inr (Inl VMMERR_PAGE_BAD_RESERVED_BIT)
      else
        let e = (if n = 3 \<and> i = 3 then e OR (PDE_RW_BIT OR PDE_US_BIT OR PDE_A_BIT) else e) in
        if \<not> any_bit e PDE_US_BIT \<and> d_user d then Inr (Inl VMMERR_PAGE_NOT_ACCESSIBLE)
        else if \<not> any_bit e PDE_RW_BIT \<and> d_write d \<and> (d_wp d \<or> d_user d) then Inr (Inl VMMERR_PAGE_NOT_ACCESSIBLE)
        else if any_bit e PDE_NX_BIT \<and> d_exec d \<and> d_nxe d then Inr (Inl VMMERR_PAGE_NOT_EXECUTABLE)
        else Inr (Inr (if i = 2 \<and> \<not> d_pse d then e AND NOT PDE_PS_BIT else e))))"

definition sets_dirty :: "get_pte_data \<Rightarrow> nat \<Rightarrow> u64 \<Rightarrow> bool" where
  "sets_dirty d i e \<longleftrightarrow>
     ((i = 2 \<and> any_bit e PDE_PS_BIT) \<or> i = 1 \<or> (i = 3 \<and> any_bit e PDE_PS_BIT)) \<and> d_write d"

lemma set_ad_bit_retry:
  assumes "pmap_read H m w = Inr (e0, m1, w1)" "set_ad_bit H m1 e seta setd w1 = Inr (True, e', m2, w2)"
  shows "unsettled m2 w2 < unsettled m w"
proof -
  obtain e1 where p: "pmap_write H e1 0xFFF m1 w1 = Inr (True, m2, w2)"
    using assms(2) by (auto simp: set_ad_bit_def Let_def bind_res_Inr_iff split: if_splits)
  have a: "pm_type m1 = PMAP_TYPE_GUEST_ATOMIC" by (rule pmap_write_fail_atomic [OF p])
  then have "pm_type m = PMAP_TYPE_GUEST_ATOMIC" using pmap_read_same [OF assms(1)] by (simp add: same_walk_def)
  from pmap_read_unsettled [OF this assms(1)] pmap_write_atomic(2,7) [OF a p] show ?thesis by simp
qed

text \<open>
  The body of the loop with its \<open>retry\<close>.  Every turn after the first comes after another processor
  has changed the entry, so the loop ends with the interference.
\<close>

function walk_level ::
  "'d mmio_handler \<Rightarrow> u64 \<Rightarrow> get_pte_data \<Rightarrow> nat \<Rightarrow> nat \<Rightarrow> pmap_t \<Rightarrow> 'd mmio_data \<Rightarrow> ((vmmerr + u64) \<times> pmap_t \<times> 'd mmio_data) res" where
  "walk_level H pmask d n i m w =
     (case pmap_read H m w of
        Inl e \<Rightarrow> Inl e
      | Inr (e, m, w) \<Rightarrow>
        (case check_entry pmask d n i e of
           Inl f \<Rightarrow> Inl f
         | Inr (Inl r) \<Rightarrow> Inr (Inl r, m, w)
         | Inr (Inr e) \<Rightarrow>
           (case set_ad_bit H m e True (sets_dirty d i e) w of
              Inl f \<Rightarrow> Inl f
            | Inr (fail, e, m, w) \<Rightarrow> if fail then walk_level H pmask d n i m w else Inr (Inr e, m, w))))"
  by pat_completeness auto

termination
  by (relation "measure (\<lambda>(H, pmask, d, n, i, m, w). unsettled m w)") (auto intro: set_ad_bit_retry)

declare walk_level.simps [simp del]

section \<open>The walk\<close>

text \<open>From level \<open>i\<close> down to level 1; the entries found so far stay in \<open>entries\<close> when it fails.\<close>

fun walk_levels ::
  "'d mmio_handler \<Rightarrow> u64 \<Rightarrow> get_pte_data \<Rightarrow> nat \<Rightarrow> nat \<Rightarrow> (nat \<Rightarrow> u64) \<Rightarrow> pmap_t \<Rightarrow> 'd mmio_data \<Rightarrow>
   (vmmerr \<times> (nat \<Rightarrow> u64) \<times> 'd mmio_data) res" where
  "walk_levels H pmask d n 0 entries m w = Inr (VMMERR_SUCCESS, entries, w)"
| "walk_levels H pmask d n (Suc i) entries m w =
     bind_res (walk_level H pmask d n (Suc i) (pmap_setlevel (Suc i) m) w) (\<lambda>(r, m, w).
     case r of Inl err \<Rightarrow> Inr (err, entries, w) | Inr e \<Rightarrow> walk_levels H pmask d n i (entries(i := e)) m w)"

text \<open>The cursor is a local variable, which \<open>pmap_open_guest\<close> fills in.\<close>

definition pmap_local :: pmap_t where
  "pmap_local = \<lparr>entry = \<lambda>_. 0, entryaddr = \<lambda>_. 0, curaddr = 0, curlevel = 0, readlevel = 0, levels = 0, pm_type = PMAP_TYPE_VMM\<rparr>"

definition get_pte_sub ::
  "'d mmio_handler \<Rightarrow> u64 \<Rightarrow> u64 \<Rightarrow> u64 \<Rightarrow> get_pte_data \<Rightarrow> (nat \<Rightarrow> u64) \<Rightarrow> 'd mmio_data \<Rightarrow>
   (vmmerr \<times> (nat \<Rightarrow> u64) \<times> nat \<times> 'd mmio_data) res" where
  "get_pte_sub H pmask virt cr d entries w =
     (if \<not> d_pg d then
        Inr (VMMERR_SUCCESS,
          entries(0 := (virt AND pmask) OR (PDE_P_BIT OR PDE_RW_BIT OR PDE_US_BIT OR PDE_A_BIT OR PDE_D_BIT),
                  1 := PDE_P_BIT OR PDE_RW_BIT OR PDE_US_BIT OR PDE_A_BIT OR PDE_D_BIT OR PDE_PS_BIT), 1, w)
      else
        let (d, n) = (if d_lme d then (d\<lparr>d_pae := True, d_pse := True\<rparr>, 4)
                      else if d_pae d then (d\<lparr>d_pse := True\<rparr>, 3) else (d, 2));
            m = pmap_seek virt (n + 1) (pmap_open_guest cr n True pmap_local)
        in bind_res (pmap_read H m w) (\<lambda>(e, m, w).
           bind_res (walk_levels H pmask d n n (entries(n := e OR (PDE_RW_BIT OR PDE_US_BIT OR PDE_A_BIT))) m w)
             (\<lambda>(r, entries, w). Inr (r, entries, n, w))))"

definition cpu_mmu_get_pte ::
  "'d mmio_handler \<Rightarrow> u64 \<Rightarrow> u64 \<Rightarrow> u64 \<Rightarrow> u64 \<Rightarrow> u64 \<Rightarrow> u64 \<Rightarrow> bool \<Rightarrow> bool \<Rightarrow> bool \<Rightarrow> (nat \<Rightarrow> u64) \<Rightarrow> 'd mmio_data \<Rightarrow>
   (vmmerr \<times> (nat \<Rightarrow> u64) \<times> nat \<times> 'd mmio_data) res" where
  "cpu_mmu_get_pte H pmask virt c0 c3 c4 efer write user exec entries w =
     get_pte_sub H pmask virt c3
       \<lparr>d_pg = any_bit c0 0x80000000, d_wp = any_bit c0 0x10000, d_pse = any_bit c4 0x10, d_pae = any_bit c4 0x20,
        d_lme = any_bit efer 0x100, d_nxe = any_bit efer 0x800, d_write = write, d_user = user, d_exec = exec\<rparr>
       entries w"

text \<open>What \<open>vmctl\<close> reads of the guest's registers, and the address mask of the processor.\<close>

record guest_regs =
  r_cr0 :: u64
  r_cr3 :: u64
  r_cr4 :: u64
  r_efer :: u64
  pte_addr_mask :: u64

definition get_pte ::
  "'d mmio_handler \<Rightarrow> guest_regs \<Rightarrow> u64 \<Rightarrow> bool \<Rightarrow> bool \<Rightarrow> bool \<Rightarrow> 'd mmio_data \<Rightarrow> (vmmerr \<times> u64 \<times> 'd mmio_data) res" where
  "get_pte H g virt wr us ex w =
     bind_res (cpu_mmu_get_pte H (pte_addr_mask g) virt (r_cr0 g) (r_cr3 g) (r_cr4 g) (r_efer g) wr us ex (\<lambda>_. 0) w)
       (\<lambda>(r, entries, _, w). Inr (r, entries 0, w))"

section \<open>Access by linear address\<close>

text \<open>\<open>RIE\<close>: return when there is an error.\<close>

definition RIE :: "(vmmerr \<times> 'w) res \<Rightarrow> ('w \<Rightarrow> (vmmerr \<times> 'w) res) \<Rightarrow> (vmmerr \<times> 'w) res" where
  "RIE x f = bind_res x (\<lambda>(r, w). if r \<noteq> VMMERR_SUCCESS then Inr (r, w) else f w)"

definition write_linearaddr_ok_b :: "'d mmio_handler \<Rightarrow> guest_regs \<Rightarrow> u64 \<Rightarrow> 'd mmio_data \<Rightarrow> (vmmerr \<times> 'd mmio_data) res" where
  "write_linearaddr_ok_b H g linear w = bind_res (get_pte H g linear True False False w) (\<lambda>(r, _, w). Inr (r, w))"

definition write_linearaddr_ok_w :: "'d mmio_handler \<Rightarrow> guest_regs \<Rightarrow> u64 \<Rightarrow> 'd mmio_data \<Rightarrow> (vmmerr \<times> 'd mmio_data) res" where
  "write_linearaddr_ok_w H g linear w =
     (if linear AND 0xFFE \<le> 0xFFE then write_linearaddr_ok_b H g linear w
      else RIE (write_linearaddr_ok_b H g linear w) (write_linearaddr_ok_b H g (linear + 1)))"

definition write_linearaddr_ok_l :: "'d mmio_handler \<Rightarrow> guest_regs \<Rightarrow> u64 \<Rightarrow> 'd mmio_data \<Rightarrow> (vmmerr \<times> 'd mmio_data) res" where
  "write_linearaddr_ok_l H g linear w =
     (if linear AND 0xFFC \<le> 0xFFC then write_linearaddr_ok_w H g linear w
      else RIE (write_linearaddr_ok_w H g linear w) (write_linearaddr_ok_w H g (linear + 2)))"

text \<open>The translation and then the access; \<open>pte\<close> gives the page and the cache attributes.\<close>

definition linear_phys :: "guest_regs \<Rightarrow> u64 \<Rightarrow> u64 \<Rightarrow> u64" where
  "linear_phys g pte linear = (pte AND pte_addr_mask g) OR (linear AND 0xFFF)"

definition pte_attr :: "u64 \<Rightarrow> u32" where "pte_attr pte = ucast (pte AND (PDE_PWT_BIT OR PDE_PCD_BIT OR PTE_PAT_BIT_64))"

definition write_linear ::
  "('d mmio_handler \<Rightarrow> u64 \<Rightarrow> 'a \<Rightarrow> u32 \<Rightarrow> 'd mmio_data \<Rightarrow> 'd mmio_data res) \<Rightarrow>
   'd mmio_handler \<Rightarrow> guest_regs \<Rightarrow> u64 \<Rightarrow> 'a \<Rightarrow> 'd mmio_data \<Rightarrow> (vmmerr \<times> 'd mmio_data) res" where
  "write_linear write H g linear data w =
     bind_res (get_pte H g linear True False False w) (\<lambda>(r, pte, w).
     if r \<noteq> VMMERR_SUCCESS then Inr (r, w)
     else bind_res (write H (linear_phys g pte linear) data (pte_attr pte) w) (\<lambda>w. Inr (VMMERR_SUCCESS, w)))"

definition write_linearaddr_b :: "'d mmio_handler \<Rightarrow> guest_regs \<Rightarrow> u64 \<Rightarrow> u8 \<Rightarrow> 'd mmio_data \<Rightarrow> (vmmerr \<times> 'd mmio_data) res" where
  "write_linearaddr_b H g linear data w = write_linear write_gphys_b H g linear (ucast data) w"

definition write_linearaddr_w :: "'d mmio_handler \<Rightarrow> guest_regs \<Rightarrow> u64 \<Rightarrow> u16 \<Rightarrow> 'd mmio_data \<Rightarrow> (vmmerr \<times> 'd mmio_data) res" where
  "write_linearaddr_w H g linear data w =
     (if linear AND 0xFFF = 0xFFF then
        RIE (write_linearaddr_b H g linear (ucast data) w) (write_linearaddr_b H g (linear + 1) (ucast (drop_bit 8 data)))
      else write_linear write_gphys_w H g linear (ucast data) w)"

definition write_linearaddr_l :: "'d mmio_handler \<Rightarrow> guest_regs \<Rightarrow> u64 \<Rightarrow> u32 \<Rightarrow> 'd mmio_data \<Rightarrow> (vmmerr \<times> 'd mmio_data) res" where
  "write_linearaddr_l H g linear data w =
     (if linear AND 0xFFF \<ge> 0xFFD then
        RIE (write_linearaddr_w H g linear (ucast data) w) (write_linearaddr_w H g (linear + 2) (ucast (drop_bit 16 data)))
      else write_linear write_gphys_l H g linear data w)"

definition write_linearaddr_q :: "'d mmio_handler \<Rightarrow> guest_regs \<Rightarrow> u64 \<Rightarrow> u64 \<Rightarrow> 'd mmio_data \<Rightarrow> (vmmerr \<times> 'd mmio_data) res" where
  "write_linearaddr_q H g linear data w =
     (if linear AND 0xFFF \<ge> 0xFF9 then
        RIE (write_linearaddr_l H g linear (ucast data) w) (write_linearaddr_l H g (linear + 4) (ucast (drop_bit 32 data)))
      else write_linear write_gphys_q H g linear data w)"

text \<open>The buffer of a read keeps what the part before an error has stored.\<close>

definition read_linear ::
  "('d mmio_handler \<Rightarrow> u64 \<Rightarrow> u8 list \<Rightarrow> u32 \<Rightarrow> 'd mmio_data \<Rightarrow> (u8 list \<times> 'd mmio_data) res) \<Rightarrow>
   'd mmio_handler \<Rightarrow> guest_regs \<Rightarrow> u64 \<Rightarrow> u8 list \<Rightarrow> 'd mmio_data \<Rightarrow> (vmmerr \<times> u8 list \<times> 'd mmio_data) res" where
  "read_linear read H g linear bs w =
     bind_res (get_pte H g linear False False False w) (\<lambda>(r, pte, w).
     if r \<noteq> VMMERR_SUCCESS then Inr (r, bs, w)
     else bind_res (read H (linear_phys g pte linear) bs (pte_attr pte) w) (\<lambda>(bs, w). Inr (VMMERR_SUCCESS, bs, w)))"

definition read_linear_halves ::
  "('d mmio_handler \<Rightarrow> guest_regs \<Rightarrow> u64 \<Rightarrow> u8 list \<Rightarrow> 'd mmio_data \<Rightarrow> (vmmerr \<times> u8 list \<times> 'd mmio_data) res) \<Rightarrow> nat \<Rightarrow>
   'd mmio_handler \<Rightarrow> guest_regs \<Rightarrow> u64 \<Rightarrow> u8 list \<Rightarrow> 'd mmio_data \<Rightarrow> (vmmerr \<times> u8 list \<times> 'd mmio_data) res" where
  "read_linear_halves read k H g linear bs w =
     bind_res (read H g linear (take k bs) w) (\<lambda>(r, b0, w).
     if r \<noteq> VMMERR_SUCCESS then Inr (r, b0 @ drop k bs, w)
     else bind_res (read H g (linear + of_nat k) (drop k bs) w) (\<lambda>(r, b1, w). Inr (r, b0 @ b1, w)))"

definition read_linearaddr_b :: "'d mmio_handler \<Rightarrow> guest_regs \<Rightarrow> u64 \<Rightarrow> u8 list \<Rightarrow> 'd mmio_data \<Rightarrow> (vmmerr \<times> u8 list \<times> 'd mmio_data) res" where
  "read_linearaddr_b H g linear bs w = read_linear read_gphys_b H g linear bs w"

definition read_linearaddr_w :: "'d mmio_handler \<Rightarrow> guest_regs \<Rightarrow> u64 \<Rightarrow> u8 list \<Rightarrow> 'd mmio_data \<Rightarrow> (vmmerr \<times> u8 list \<times> 'd mmio_data) res" where
  "read_linearaddr_w H g linear bs w =
     (if linear AND 0xFFF = 0xFFF then read_linear_halves read_linearaddr_b 1 H g linear bs w
      else read_linear read_gphys_w H g linear bs w)"

definition read_linearaddr_l :: "'d mmio_handler \<Rightarrow> guest_regs \<Rightarrow> u64 \<Rightarrow> u8 list \<Rightarrow> 'd mmio_data \<Rightarrow> (vmmerr \<times> u8 list \<times> 'd mmio_data) res" where
  "read_linearaddr_l H g linear bs w =
     (if linear AND 0xFFF \<ge> 0xFFD then read_linear_halves read_linearaddr_w 2 H g linear bs w
      else read_linear read_gphys_l H g linear bs w)"

definition read_linearaddr_q :: "'d mmio_handler \<Rightarrow> guest_regs \<Rightarrow> u64 \<Rightarrow> u8 list \<Rightarrow> 'd mmio_data \<Rightarrow> (vmmerr \<times> u8 list \<times> 'd mmio_data) res" where
  "read_linearaddr_q H g linear bs w =
     (if linear AND 0xFFF \<ge> 0xFF9 then read_linear_halves read_linearaddr_l 4 H g linear bs w
      else read_linear read_gphys_q H g linear bs w)"

text \<open>
  The task state segment is mapped with \<open>mapmem_gphys\<close> and copied, by contiguous guest-physical
  addresses and past the MMIO handlers.
\<close>

definition read_linearaddr_tss :: "'d mmio_handler \<Rightarrow> guest_regs \<Rightarrow> u64 \<Rightarrow> u8 list \<Rightarrow> u32 \<Rightarrow> 'd mmio_data \<Rightarrow> (vmmerr \<times> u8 list \<times> 'd mmio_data) res" where
  "read_linearaddr_tss H g linear tss n w =
     bind_res (get_pte H g linear False False False w) (\<lambda>(r, pte, w).
     if r \<noteq> VMMERR_SUCCESS then Inr (r, tss, w)
     else case mapmem_gphys (linear_phys g pte linear) n False w of
       None \<Rightarrow> Inr (VMMERR_NOMEM, tss, w)
     | Some as \<Rightarrow>
         if length as < unat n then Inl OutOfBounds
         else let w = other_cpus w; w = w\<lparr>events := events w @ map (\<lambda>a. Bus a 1 0 False) as\<rparr>
           in Inr (VMMERR_SUCCESS, get_bytes (mem w) as, w))"

definition write_linearaddr_tss :: "'d mmio_handler \<Rightarrow> guest_regs \<Rightarrow> u64 \<Rightarrow> u8 list \<Rightarrow> u32 \<Rightarrow> 'd mmio_data \<Rightarrow> (vmmerr \<times> 'd mmio_data) res" where
  "write_linearaddr_tss H g linear tss n w =
     bind_res (get_pte H g linear True False False w) (\<lambda>(r, pte, w).
     if r \<noteq> VMMERR_SUCCESS then Inr (r, w)
     else case mapmem_gphys (linear_phys g pte linear) n True w of
       None \<Rightarrow> Inr (VMMERR_NOMEM, w)
     | Some as \<Rightarrow>
         if length as < unat n \<or> length tss < unat n then Inl OutOfBounds
         else let w = other_cpus w; w = w\<lparr>events := events w @ map (\<lambda>a. Bus a 1 0 True) as\<rparr>
           in Inr (VMMERR_SUCCESS, w\<lparr>mem := put_bytes (mem w) as tss\<rparr>))"

section \<open>The address mask of the processor\<close>

text \<open>
  \<open>gmm_pass_init\<close> sets it from CPUID: \<open>ext_max\<close> is the largest extended function, \<open>eax\<close> the first result
  of function 8.  With fewer than 32 or more than 52 bits the value is not believed.
\<close>

definition get_pte_addr_mask :: "u32 \<Rightarrow> u32 \<Rightarrow> u64" where
  "get_pte_addr_mask ext_max eax =
     (if ext_max < 0x80000008 then PTE_ADDR_MASK64
      else
        let nbits = eax AND 0xFF;
            nbits = (if nbits < 32 then 32 else nbits);
            nbits = (if nbits > 52 then 52 else nbits)
        in NOT (0xFFF OR push_bit (unat nbits) (NOT 0)))"

end
