(* ===== verification/Page_Walk.thy ===== *)
theory Page_Walk
  imports Prelude Cpu_Mmu
begin

text \<open>
  The walk of a 64-bit guest's page tables against the processor manual: a reference walk over four
  levels of tables in memory, in terms of bits and addresses, and the proof that the VMM's walk
  finds the same page, reports the same fault and sets the same accessed and dirty bits.
\<close>

section \<open>The reference walk\<close>

text \<open>The table entry of level \<open>i\<close> for a linear address, 9 bits of the address per level.\<close>

definition spec_entry_address :: "nat \<Rightarrow> u64 \<Rightarrow> u64 \<Rightarrow> u64" where
  "spec_entry_address i virt table =
     push_bit 12 (drop_bit 12 (take_bit 48 table)) + of_nat (8 * (unat virt div 2 ^ (9 * i + 3) mod 512))"

text \<open>The reserved bits for \<open>nb\<close> bits of physical address.\<close>

definition spec_reserved :: "nat \<Rightarrow> bool \<Rightarrow> nat \<Rightarrow> u64 \<Rightarrow> bool" where
  "spec_reserved nb nxe i e \<longleftrightarrow>
     drop_bit nb (take_bit 52 e) \<noteq> 0 \<or> (\<not> nxe \<and> bit e 63) \<or>
     (i = 4 \<and> (bit e 7 \<or> bit e 8)) \<or> (i = 3 \<and> \<not> bit e 7 \<and> bit e 8) \<or>
     (i = 3 \<and> bit e 7 \<and> drop_bit 13 (take_bit 30 e) \<noteq> 0) \<or>
     (i = 2 \<and> bit e 7 \<and> drop_bit 13 (take_bit 21 e) \<noteq> 0)"

definition spec_fault :: "nat \<Rightarrow> get_pte_data \<Rightarrow> nat \<Rightarrow> u64 \<Rightarrow> vmmerr option" where
  "spec_fault nb d i e =
     (if \<not> bit e 0 then Some VMMERR_PAGE_NOT_PRESENT
      else if spec_reserved nb (d_nxe d) i e then Some VMMERR_PAGE_BAD_RESERVED_BIT
      else if d_user d \<and> \<not> bit e 2 then Some VMMERR_PAGE_NOT_ACCESSIBLE
      else if d_write d \<and> \<not> bit e 1 \<and> (d_wp d \<or> d_user d) then Some VMMERR_PAGE_NOT_ACCESSIBLE
      else if d_exec d \<and> d_nxe d \<and> bit e 63 then Some VMMERR_PAGE_NOT_EXECUTABLE
      else None)"

definition spec_large :: "nat \<Rightarrow> u64 \<Rightarrow> bool" where
  "spec_large i e \<longleftrightarrow> (i = 2 \<or> i = 3) \<and> bit e 7"

text \<open>The accessed bit, and in the entry of the page the dirty bit of a write.\<close>

definition spec_mark :: "get_pte_data \<Rightarrow> nat \<Rightarrow> u64 \<Rightarrow> u64" where
  "spec_mark d i e =
     (let e = set_bit 5 e in if d_write d \<and> (i = 1 \<or> spec_large i e) then set_bit 6 e else e)"

text \<open>The address in a page of \<open>2 ^ (9 * i + 3)\<close> bytes.\<close>

definition spec_page_address :: "nat \<Rightarrow> nat \<Rightarrow> u64 \<Rightarrow> u64 \<Rightarrow> u64" where
  "spec_page_address nb i virt e =
     push_bit (9 * i + 3) (drop_bit (9 * i + 3) (take_bit nb e)) + take_bit (9 * i + 3) virt"

definition load64 :: "(u64 \<Rightarrow> u8) \<Rightarrow> u64 \<Rightarrow> u64" where
  "load64 m a = of_bytes (get_bytes m (span a 8))"

definition store64 :: "(u64 \<Rightarrow> u8) \<Rightarrow> u64 \<Rightarrow> u64 \<Rightarrow> u64 \<Rightarrow> u8" where
  "store64 m a e = put_bytes m (span a 8) (le_bytes 8 e)"

text \<open>The result, the memory after the walk and the addresses of the entries it has used.\<close>

fun spec_walk :: "nat \<Rightarrow> get_pte_data \<Rightarrow> u64 \<Rightarrow> nat \<Rightarrow> u64 \<Rightarrow> (u64 \<Rightarrow> u8) \<Rightarrow> (vmmerr + u64) \<times> (u64 \<Rightarrow> u8) \<times> u64 list" where
  "spec_walk nb d virt 0 table m = (Inl VMMERR_PAGE_NOT_PRESENT, m, [])"
| "spec_walk nb d virt (Suc j) table m =
     (let i = Suc j; a = spec_entry_address i virt table; e = load64 m a in
      case spec_fault nb d i e of
        Some r \<Rightarrow> (Inl r, m, [a])
      | None \<Rightarrow>
          let m' = store64 m a (spec_mark d i e) in
          if i = 1 \<or> spec_large i e then (Inr (spec_page_address nb i virt e), m', [a])
          else (case spec_walk nb d virt j (spec_mark d i e) m' of (r, m'', as) \<Rightarrow> (r, m'', a # as)))"

section \<open>Bits\<close>

lemma any_bit_iff: "any_bit w m \<longleftrightarrow> (\<exists>k. bit w k \<and> bit m k)"
  using bit_imp_le_length by (fastforce simp: any_bit_def bit_eq_iff bit_simps)

lemma any_bit_or: "any_bit w (a OR b) \<longleftrightarrow> any_bit w a \<or> any_bit w b"
  by (auto simp: any_bit_iff bit_simps)

lemma any_bit_exp: "any_bit w (2 ^ k) \<longleftrightarrow> bit w k" for w :: u64
  by (auto simp: any_bit_iff bit_simps dest: bit_imp_le_length)

lemma any_bit_range: "any_bit w (mask n AND NOT (mask k)) \<longleftrightarrow> drop_bit k (take_bit n w) \<noteq> 0" for w :: u64
proof -
  have "any_bit w (mask n AND NOT (mask k)) \<longleftrightarrow> (\<exists>j. bit w j \<and> j < n \<and> k \<le> j)"
    using bit_imp_le_length [of w] by (fastforce simp: any_bit_iff bit_simps not_less)
  also have "\<dots> \<longleftrightarrow> (\<exists>j. bit w (k + j) \<and> k + j < n)"
    by (metis le_add_diff_inverse le_add1)
  also have "\<dots> \<longleftrightarrow> drop_bit k (take_bit n w) \<noteq> 0"
    using bit_imp_le_length [of w] by (fastforce simp: bit_eq_iff bit_simps)
  finally show ?thesis .
qed

lemma flag_bits:
  fixes e :: u64
  shows "any_bit e PDE_P_BIT = bit e 0" "any_bit e PDE_RW_BIT = bit e 1" "any_bit e PDE_US_BIT = bit e 2"
    "any_bit e PDE_A_BIT = bit e 5" "any_bit e PDE_D_BIT = bit e 6" "any_bit e PDE_PS_BIT = bit e 7"
    "any_bit e PDE_NX_BIT = bit e 63" "any_bit e PDE_4M_PAT_BIT = bit e 12"
  using any_bit_exp [of e 0] any_bit_exp [of e 1] any_bit_exp [of e 2] any_bit_exp [of e 5] any_bit_exp [of e 6]
    any_bit_exp [of e 7] any_bit_exp [of e 63] any_bit_exp [of e 12]
  by (simp_all add: PDE_P_BIT_def PDE_RW_BIT_def PDE_US_BIT_def PDE_A_BIT_def PDE_D_BIT_def PDE_PS_BIT_def
      PDE_NX_BIT_def PDE_4M_PAT_BIT_def)

definition pte_mask :: "nat \<Rightarrow> u64" where
  "pte_mask nb = mask nb AND NOT (mask 12)"

text \<open>The XOR moves the border of the reserved address bits from 36 to \<open>nb\<close>.\<close>

lemma reserved_xor:
  assumes "32 \<le> nb" "nb \<le> 52" "low AND mask 52 AND NOT (mask 32) = 0"
  shows "(low OR (mask 52 AND NOT (mask 36))) XOR (pte_mask nb XOR PTE_ADDR_MASK64) = low OR (mask 52 AND NOT (mask nb))"
proof -
  have m: "PTE_ADDR_MASK64 = mask 36 AND NOT (mask 12)" by (simp add: PTE_ADDR_MASK64_def mask_eq_exp_minus_1)
  have low: "k < 32 \<or> 52 \<le> k" if "bit low k" for k
  proof (rule ccontr)
    assume "\<not> (k < 32 \<or> 52 \<le> k)"
    with that have "bit (low AND mask 52 AND NOT (mask 32)) k"
      by (auto simp: bit_simps dest: bit_imp_le_length)
    then show False by (simp add: assms(3))
  qed
  show ?thesis
    unfolding m pte_mask_def
    by (rule bit_word_eqI) (use assms(1,2) in \<open>auto simp: bit_simps not_less dest: low\<close>)
qed

section \<open>The tests of an entry\<close>

definition reserved_low :: "bool \<Rightarrow> nat \<Rightarrow> u64" where
  "reserved_low nx l = (if nx then 0 else 2 ^ 63) OR
     [mask 21 AND NOT (mask 13), 0, 0, 2 ^ 8, 2 ^ 8 OR 2 ^ 7, mask 30 AND NOT (mask 13)] ! l"

lemma less_6: "l < 6 \<longleftrightarrow> l = 0 \<or> l = 1 \<or> l = 2 \<or> l = 3 \<or> l = 4 \<or> l = (5 :: nat)"
  by auto

lemma reserved_table_64:
  assumes "l < 6"
  shows "reserved_bit_table ! (if nx then 1 else 0) ! 2 ! l = reserved_low nx l OR (mask 52 AND NOT (mask 36))"
  using assms unfolding less_6
  by (elim disjE; cases nx) (simp_all add: reserved_bit_table_def reserved_low_def mask_eq_exp_minus_1)

lemma reserved_low_bits:
  assumes "l < 6"
  shows "reserved_low nx l AND mask 52 AND NOT (mask 32) = 0" "\<not> bit (reserved_low nx l) 0"
  using assms unfolding less_6
  by (elim disjE; cases nx; simp add: reserved_low_def mask_eq_exp_minus_1)+

lemma any_bit_low:
  assumes "l < 6"
  shows "any_bit e (reserved_low nx l) \<longleftrightarrow> (\<not> nx \<and> bit e 63) \<or>
    (l = 0 \<and> drop_bit 13 (take_bit 21 e) \<noteq> 0) \<or> (l = 3 \<and> bit e 8) \<or> (l = 4 \<and> (bit e 7 \<or> bit e 8)) \<or>
    (l = 5 \<and> drop_bit 13 (take_bit 30 e) \<noteq> 0)"
  using assms unfolding less_6
  by (elim disjE; cases nx) (auto simp: reserved_low_def any_bit_or any_bit_range any_bit_exp simp del: power_numeral)

lemma table_level:
  "i = 1 \<or> i = 2 \<or> i = 3 \<or> i = 4 \<Longrightarrow> l = (if i = 2 \<and> b7 then 0 else if i = 3 \<and> b7 then 5 else i) \<Longrightarrow>
    ((n \<or> (l = 0 \<and> a) \<or> (l = 3 \<and> b8) \<or> (l = 4 \<and> (b7 \<or> b8)) \<or> (l = 5 \<and> c)) \<or> z) =
    (z \<or> n \<or> (i = 4 \<and> (b7 \<or> b8)) \<or> (i = 3 \<and> \<not> b7 \<and> b8) \<or> (i = 3 \<and> b7 \<and> c) \<or> (i = 2 \<and> b7 \<and> a))"
  for i l :: nat
  by auto

lemma reserved_64:
  assumes "d_pse d" "1 \<le> i" "i \<le> 4" "32 \<le> nb" "nb \<le> 52"
  shows "test_pmap_entry_reserved_bit (pte_mask nb) e i 4 d = Inr (spec_reserved nb (d_nxe d) i e)"
proof -
  define l where "l = (if i = 2 \<and> bit e 7 then 0 else if i = 3 \<and> bit e 7 then 5 else i)"
  have l: "l < 6" using assms(3) by (auto simp: l_def)
  let ?m = "reserved_low (d_nxe d) l OR (mask 52 AND NOT (mask nb))"
  have x: "reserved_bit_table ! (if d_nxe d then 1 else 0) ! 2 ! l XOR (pte_mask nb XOR PTE_ADDR_MASK64) = ?m"
    by (simp only: reserved_table_64 [OF l] reserved_xor [OF assms(4,5) reserved_low_bits(1) [OF l]])
  have "\<not> bit ?m 0" using reserved_low_bits(2) [OF l] assms(4) by (simp add: bit_simps)
  then have "?m \<noteq> 0xFFFFFFFFFFFFFFFF" by auto
  moreover have "any_bit e ?m = spec_reserved nb (d_nxe d) i e"
  proof -
    have i: "i = 1 \<or> i = 2 \<or> i = 3 \<or> i = 4" using assms(2,3) by linarith
    show ?thesis
      unfolding any_bit_or any_bit_range any_bit_low [OF l] spec_reserved_def
      by (rule table_level [OF i]) (simp only: l_def)
  qed
  moreover have "(let level = if i = 2 \<and> bit e 7 then 0 else i in
      if level = 3 \<and> (4 :: nat) = 4 \<and> bit e 7 then 5 else level) = l"
    by (simp add: l_def)
  ultimately show ?thesis
    unfolding test_pmap_entry_reserved_bit_def flag_bits Let_def by (simp add: x assms(1) assert_res_def)
qed

lemma check_entry_64:
  assumes "d_pse d" "1 \<le> i" "i \<le> 4" "32 \<le> nb" "nb \<le> 52"
  shows "check_entry (pte_mask nb) d 4 i e =
    Inr (case spec_fault nb d i e of Some r \<Rightarrow> Inl r | None \<Rightarrow> Inr e)"
  using assms
  by (cases "d_nxe d"; cases "bit e 63"; cases "d_exec d"; simp add: check_entry_def spec_fault_def reserved_64 flag_bits Let_def)

section \<open>Addresses\<close>

lemma or_is_plus: "x AND y = 0 \<Longrightarrow> x OR y = x + y" for x y :: u64
  using word_plus_and_or [of x y] by simp

lemma index_bits:
  "of_nat (8 * (unat virt div 2 ^ (9 * i + 3) mod 512)) = push_bit 3 (take_bit 9 (drop_bit (9 * i + 3) virt))" for virt :: u64
proof -
  have "unat virt < 2 ^ LENGTH(64)" by (rule unsigned_less)
  then have "unat (take_bit 9 (drop_bit (9 * i + 3) virt)) = unat virt div 2 ^ (9 * i + 3) mod 512"
    by (simp only: unsigned_take_bit_eq unsigned_drop_bit_eq) (simp add: take_bit_eq_mod drop_bit_eq_div)
  then have "of_nat (unat virt div 2 ^ (9 * i + 3) mod 512) = (of_nat (unat (take_bit 9 (drop_bit (9 * i + 3) virt))) :: u64)"
    by (simp only:)
  then have "of_nat (unat virt div 2 ^ (9 * i + 3) mod 512) = take_bit 9 (drop_bit (9 * i + 3) virt)"
    by simp
  then show ?thesis by (simp add: push_bit_eq_mult mult.commute)
qed

lemma entry_address_64:
  assumes "1 \<le> i"
  shows "entry_address 4 (i - 1) virt table = spec_entry_address i virt table"
proof -
  let ?b = "push_bit 12 (drop_bit 12 (take_bit 48 table))" and ?x = "push_bit 3 (take_bit 9 (drop_bit (9 * i + 3) virt))"
  have m: "0x0000FFFFFFFFF000 = mask 48 AND NOT (mask 12 :: u64)" "0xFF8 = mask 12 AND NOT (mask 3 :: u64)"
    by (simp_all add: mask_eq_exp_minus_1)
  have "9 + 9 * (i - 1) = 9 * i" using assms by simp
  then have "entry_address 4 (i - 1) virt table =
      (table AND (mask 48 AND NOT (mask 12))) OR (drop_bit (9 * i) virt AND (mask 12 AND NOT (mask 3)))"
    by (simp add: entry_address_def m)
  also have "table AND (mask 48 AND NOT (mask 12)) = ?b"
    by (rule bit_word_eqI) (auto simp: bit_simps not_less)
  also have "drop_bit (9 * i) virt AND (mask 12 AND NOT (mask 3)) = ?x"
    by (rule bit_word_eqI) (auto simp: bit_simps not_less add.commute add.left_commute)
  also have "?b OR ?x = ?b + ?x"
    by (rule or_is_plus, rule bit_word_eqI) (auto simp: bit_simps)
  finally show ?thesis unfolding spec_entry_address_def index_bits .
qed

lemma entry_address_aligned: "\<not> 0xFF9 \<le> spec_entry_address i virt table AND 0xFFF"
proof -
  let ?b = "push_bit 12 (drop_bit 12 (take_bit 48 table))" and ?x = "push_bit 3 (take_bit 9 (drop_bit (9 * i + 3) virt))"
  have "spec_entry_address i virt table = ?b OR ?x"
    unfolding spec_entry_address_def index_bits
    by (rule or_is_plus [symmetric], rule bit_word_eqI) (auto simp: bit_simps)
  then have "spec_entry_address i virt table AND 0xFFF = ?x"
    unfolding mask_12 by (intro bit_word_eqI) (auto simp: bit_simps)
  moreover have "unat ?x < 0xFF9"
  proof -
    have "unat (take_bit 9 (drop_bit (9 * i + 3) virt)) < 512"
      by (simp only: unsigned_take_bit_eq) (simp add: take_bit_eq_mod)
    then have "unat (push_bit 3 (take_bit 9 (drop_bit (9 * i + 3) virt))) = 8 * unat (take_bit 9 (drop_bit (9 * i + 3) virt))"
      by (simp only: unsigned_push_bit_eq) (simp add: push_bit_eq_mult take_bit_nat_eq_self mult.commute)
    with \<open>_ < 512\<close> show ?thesis by linarith
  qed
  ultimately show ?thesis by (simp add: word_le_nat_alt not_le)
qed

section \<open>The parts of large pages\<close>

lemma bit_pte_of_pde:
  "bit (pte_of_pde 4 addr t) k \<longleftrightarrow> k < 64 \<and> (if 12 \<le> k \<and> k < 21 then bit addr k else if k = 7 then bit t 12 else bit t k)"
proof -
  have m: "0x1FF000 = mask 21 AND NOT (mask 12 :: u64)" by (simp add: mask_eq_exp_minus_1)
  have f: "PDE_PS_BIT = 2 ^ 7" "PDE_4M_PAT_BIT = 2 ^ 12" "PTE_PAT_BIT_64 = 2 ^ 7"
    by (simp_all add: PDE_PS_BIT_def PDE_4M_PAT_BIT_def PTE_PAT_BIT_64_def)
  have b: "bit (t AND NOT (2 ^ 7)) 12 = bit t 12" by (simp add: bit_simps)
  show ?thesis
    unfolding pte_of_pde_def Let_def f m any_bit_exp b
    by (auto simp: bit_simps not_less simp del: power_numeral dest: bit_imp_le_length)
qed

lemma bit_pde_of_pdpe:
  "bit (pde_of_pdpe addr t) k \<longleftrightarrow> k < 64 \<and> (if 21 \<le> k \<and> k < 30 then bit addr k else bit t k)"
proof -
  have m: "0x3FE00000 = mask 30 AND NOT (mask 21 :: u64)" by (simp add: mask_eq_exp_minus_1)
  show ?thesis unfolding pde_of_pdpe_def m by (auto simp: bit_simps not_less dest: bit_imp_le_length)
qed

lemma spec_page_bit:
  "bit (spec_page_address nb i virt e) k \<longleftrightarrow> k < 64 \<and> (if k < 9 * i + 3 then bit virt k else k < nb \<and> bit e k)"
proof -
  let ?n = "9 * i + 3"
  have "spec_page_address nb i virt e = push_bit ?n (drop_bit ?n (take_bit nb e)) OR take_bit ?n virt"
    unfolding spec_page_address_def
    by (rule or_is_plus [symmetric], rule bit_word_eqI) (auto simp: bit_simps)
  then show ?thesis by (auto simp: bit_simps dest: bit_imp_le_length)
qed

section \<open>Memory without interference\<close>

lemma put_same: "put_bytes m as (get_bytes m as) = m"
  by (induction as) (simp_all add: get_bytes_def)

lemma le_bytes_load64: "le_bytes 8 (load64 m a) = get_bytes m (span a 8)"
  unfolding load64_def by (rule le_bytes_of_bytes) (simp_all add: get_bytes_def)

lemma store_load64 [simp]: "store64 m a (load64 m a) = m"
  by (simp add: store64_def le_bytes_load64 put_same)

text \<open>The worlds of one walk: nobody interferes, and the part of the memory that may be used is the same.\<close>

definition still :: "'d mmio_data \<Rightarrow> 'd mmio_data \<Rightarrow> bool" where
  "still w w' \<longleftrightarrow> quiet w' \<and> outside w' = outside w"

lemma cmpxchg_gphys_q_quiet:
  assumes "quiet w" "outside w a 8" "\<not> 0xFF9 \<le> a AND 0xFFF"
  shows "\<exists>w'. cmpxchg_gphys_q H a old new attr w = Inr ((load64 (mem w) a \<noteq> old, load64 (mem w) a), w') \<and>
    still w w' \<and> mem w' = (if load64 (mem w) a = old then store64 (mem w) a new else mem w)"
proof -
  have o: "\<not> phys_in_vmm (vmm_start_phys w) a"
    using outside_gp2hp [OF assms(2)] by (simp add: gmm_pass_gp2hp_def split: if_splits)
  let ?cur = "get_bytes (mem w) (span a 8)"
  have eq: "?cur = le_bytes 8 old \<longleftrightarrow> load64 (mem w) a = old"
    using le_bytes_load64 [of "mem w" a] of_bytes_le_bytes [of 8 old] by (auto simp: load64_def)
  let ?w = "w\<lparr>events := events w @ [Bus a 8 attr True],
    mem := (if load64 (mem w) a = old then store64 (mem w) a new else mem w)\<rparr>"
  have "cmpxchg_gphys msg (le_bytes 8 old) (le_bytes 8 new) H a attr w = Inr ((?cur \<noteq> le_bytes 8 old, ?cur), ?w)" for msg
    using assms(1) o eq
    by (simp add: cmpxchg_gphys_def quiet_def cache_get_attr_def mmio_access_quiet mmio_lock_def mmio_unlock_def
        hphys_cmpxchg_def other_cpus_def note_event_def gmm_pass_gp2hp_def store64_def Let_def)
  then have "cmpxchg_gphys_q H a old new attr w = Inr ((load64 (mem w) a \<noteq> old, load64 (mem w) a), ?w)"
    using assms(3) eq by (simp add: cmpxchg_gphys_q_def load64_def)
  moreover have "still w ?w" using assms(1) by (simp add: still_def quiet_def outside_def fun_eq_iff)
  ultimately show ?thesis by (intro exI [of _ ?w]) simp
qed

lemma pmap_rd_quiet:
  assumes "quiet w" "outside w a 8" "\<not> 0xFF9 \<le> a AND 0xFFF" "pm_type m = PMAP_TYPE_GUEST_ATOMIC" "levels m = 4"
  shows "\<exists>w'. pmap_rd H m a attr w = Inr (load64 (mem w) a, w') \<and> still w w' \<and> mem w' = mem w"
proof -
  obtain w' where "cmpxchg_gphys_q H a 0 0 attr w = Inr ((load64 (mem w) a \<noteq> 0, load64 (mem w) a), w')"
    "still w w'" "mem w' = (if load64 (mem w) a = 0 then store64 (mem w) a 0 else mem w)"
    using cmpxchg_gphys_q_quiet [OF assms(1-3)] by blast
  moreover from this(3) have "mem w' = mem w" by (metis store_load64)
  ultimately show ?thesis using assms(4,5) by (simp add: pmap_rd_def pmap_rd64_def)
qed

lemma pmap_write_quiet:
  assumes "quiet w" "outside w a 8" "\<not> 0xFF9 \<le> a AND 0xFFF" "pm_type m = PMAP_TYPE_GUEST_ATOMIC" "levels m = 4"
    "readlevel m \<le> curlevel m" "entryaddr m (curlevel m) = a" "entry m (curlevel m) = load64 (mem w) a"
  shows "\<exists>w'. pmap_write H e 0xFFF m w = Inr (False, set_entry (curlevel m) e m, w') \<and> still w w' \<and>
    mem w' = store64 (mem w) a e"
proof -
  have "entry_to_write 4 k 0xFFF e = e" for k
  proof -
    have "NOT 0xFFF OR (0xFFF :: u64) = NOT 0" by simp
    moreover have "(0x26 :: u32) AND NOT 0xFFF = 0" "(0x26 OR 0x40 :: u32) AND NOT 0xFFF = 0" by simp_all
    ultimately show ?thesis by (simp add: entry_to_write_def Let_def)
  qed
  moreover obtain w' where "cmpxchg_gphys_q H a (load64 (mem w) a) e (table_attr (entry m (curlevel m + 1))) w =
      Inr ((False, load64 (mem w) a), w')" "still w w'" "mem w' = store64 (mem w) a e"
    using cmpxchg_gphys_q_quiet [OF assms(1-3), of H "load64 (mem w) a" e "table_attr (entry m (curlevel m + 1))"] by auto
  ultimately show ?thesis
    using assms(4-8) by (auto simp: pmap_write_def pmap_wr64_def Let_def)
qed

section \<open>One level without interference\<close>

lemma spec_mark_bits:
  "bit (spec_mark d i e) k \<longleftrightarrow> k < 64 \<and> (bit e k \<or> k = 5 \<or> (k = 6 \<and> d_write d \<and> (i = 1 \<or> spec_large i e)))"
proof -
  have "spec_large i (set_bit 5 e) = spec_large i e" by (simp add: spec_large_def bit_simps)
  then show ?thesis
    by (auto simp: spec_mark_def Let_def bit_simps dest: bit_imp_le_length)
qed

lemma sets_dirty_64: "i \<le> 4 \<Longrightarrow> sets_dirty d i e \<longleftrightarrow> d_write d \<and> (i = 1 \<or> spec_large i e)"
  by (auto simp: sets_dirty_def spec_large_def flag_bits)

text \<open>Setting the bits stores the marked entry; when they are set already, the same one.\<close>

lemma set_ad_bit_quiet:
  assumes "quiet w" "outside w a 8" "\<not> 0xFF9 \<le> a AND 0xFFF" "pm_type m = PMAP_TYPE_GUEST_ATOMIC" "levels m = 4"
    "readlevel m \<le> curlevel m" "entryaddr m (curlevel m) = a" "entry m (curlevel m) = load64 (mem w) a"
    "e = load64 (mem w) a" "i \<le> 4"
  shows "\<exists>w'. set_ad_bit H m e True (sets_dirty d i e) w =
      Inr (False, spec_mark d i e, set_entry (curlevel m) (spec_mark d i e) m, w') \<and> still w w' \<and>
    mem w' = store64 (mem w) a (spec_mark d i e)"
proof -
  have p: "PDE_A_BIT = 2 ^ 5" "PDE_D_BIT = 2 ^ 6" by (simp_all add: PDE_A_BIT_def PDE_D_BIT_def)
  have f: "bit PDE_A_BIT k \<longleftrightarrow> k = 5" "bit PDE_D_BIT k \<longleftrightarrow> k = 6" for k
    unfolding p bit_exp_iff by auto
  have mark: "spec_mark d i e = (if sets_dirty d i e \<and> \<not> bit e 6
      then (if bit e 5 then e else e OR PDE_A_BIT) OR PDE_D_BIT else (if bit e 5 then e else e OR PDE_A_BIT))"
    unfolding sets_dirty_64 [OF assms(10)]
    by (rule bit_word_eqI) (auto simp: spec_mark_bits bit_simps f)
  show ?thesis
  proof (cases "bit e 5 \<and> \<not> (sets_dirty d i e \<and> \<not> bit e 6)")
    case True
    then have "spec_mark d i e = e" unfolding mark by auto
    moreover have "(entry m)(curlevel m := e) = entry m" using assms(8,9) by (intro fun_upd_idem) simp
    then have "set_entry (curlevel m) e m = m" by (simp add: set_entry_def)
    ultimately show ?thesis
      using True assms(1,9) by (auto simp: set_ad_bit_def flag_bits Let_def still_def)
  next
    case False
    then have "set_ad_bit H m e True (sets_dirty d i e) w =
        bind_res (pmap_write H (spec_mark d i e) 0xFFF m w) (\<lambda>(fail, m, w). Inr (fail, spec_mark d i e, m, w))"
      unfolding mark by (auto simp: set_ad_bit_def flag_bits Let_def)
    with pmap_write_quiet [OF assms(1-8), of H "spec_mark d i e"] show ?thesis by auto
  qed
qed

text \<open>The cursor before level \<open>i\<close>: it holds the entry above, which is present and not a page.\<close>

definition at_level :: "nat \<Rightarrow> u64 \<Rightarrow> u64 \<Rightarrow> pmap_t \<Rightarrow> bool" where
  "at_level i virt table m \<longleftrightarrow>
     levels m = 4 \<and> pm_type m = PMAP_TYPE_GUEST_ATOMIC \<and> curaddr m = virt \<and> readlevel m = i \<and> entry m i = table"

lemma walk_level_quiet:
  assumes "quiet w" "at_level i virt table m" "1 \<le> i" "i \<le> 4" "bit table 0" "\<not> spec_large (i + 1) table"
    "a = spec_entry_address i virt table" "outside w a 8" "d_pse d" "32 \<le> nb" "nb \<le> 52"
  defines "e \<equiv> load64 (mem w) a"
  shows "\<exists>m' w'. walk_level H (pte_mask nb) d 4 i (pmap_setlevel i m) w =
      Inr (case spec_fault nb d i e of Some r \<Rightarrow> Inl r | None \<Rightarrow> Inr (spec_mark d i e), m', w') \<and> still w w' \<and>
    (spec_fault nb d i e = None \<longrightarrow>
       at_level (i - 1) virt (spec_mark d i e) m' \<and> mem w' = store64 (mem w) a (spec_mark d i e)) \<and>
    (spec_fault nb d i e \<noteq> None \<longrightarrow> mem w' = mem w)"
proof -
  let ?m = "pmap_setlevel i m" and ?k = "i - 1"
  have m: "levels ?m = 4" "pm_type ?m = PMAP_TYPE_GUEST_ATOMIC" "curaddr ?m = virt" "readlevel ?m = i"
    "entry ?m i = table" "curlevel ?m = ?k"
    using assms(2) by (simp_all add: at_level_def pmap_setlevel_def)
  have "descends ?m"
    using assms(3,5,6) m by (auto simp: descends_def flag_bits spec_large_def)
  note step = pmap_read_step [OF this]
  let ?b = "below ?m"
  have addr: "entryaddr ?b ?k = a"
    using m assms(7) entry_address_64 [OF assms(3)] by (simp add: below_def)
  note al = entry_address_aligned [of i virt table, folded assms(7)]
  have at: "pm_type ?b = PMAP_TYPE_GUEST_ATOMIC" "levels ?b = 4" using m by simp_all
  obtain w1 where w1: "pmap_rd H ?b a (table_attr table) w = Inr (e, w1)" "still w w1" "mem w1 = mem w"
    using pmap_rd_quiet [OF assms(1,8) al at] by (auto simp: e_def)
  let ?m1 = "set_entry ?k e ?b"
  have "pmap_read H ?m1 w1 = Inr (e, ?m1, w1)"
    by (subst pmap_read.simps) (simp add: m(4,6))
  then have r: "pmap_read H ?m w = Inr (e, ?m1, w1)"
  proof -
    have "pmap_read H ?m w = bind_res (pmap_rd H ?b a (table_attr table) w) (\<lambda>(r, w). pmap_read H (set_entry ?k r ?b) w)"
      using step [of H w] addr m(4,5) by (simp only:)
    with w1(1) \<open>pmap_read H ?m1 w1 = _\<close> show ?thesis by simp
  qed
  note c = check_entry_64 [OF assms(9,3,4,10,11), of e]
  show ?thesis
  proof (cases "spec_fault nb d i e")
    case (Some x)
    then have "walk_level H (pte_mask nb) d 4 i ?m w = Inr (Inl x, ?m1, w1)"
      by (subst walk_level.simps) (simp add: r c del: One_nat_def)
    then show ?thesis using Some w1(2,3) by auto
  next
    case None
    have q1: "quiet w1" "outside w1 a 8" using w1(2) assms(8) by (simp_all add: still_def)
    have m1: "pm_type ?m1 = PMAP_TYPE_GUEST_ATOMIC" "levels ?m1 = 4" "readlevel ?m1 \<le> curlevel ?m1"
      "entryaddr ?m1 (curlevel ?m1) = a" "entry ?m1 (curlevel ?m1) = load64 (mem w1) a" "e = load64 (mem w1) a"
      using m addr w1(3) by (simp_all add: e_def)
    obtain w2 where w2: "set_ad_bit H ?m1 e True (sets_dirty d i e) w1 =
        Inr (False, spec_mark d i e, set_entry (curlevel ?m1) (spec_mark d i e) ?m1, w2)" "still w1 w2"
        "mem w2 = store64 (mem w1) a (spec_mark d i e)"
      using set_ad_bit_quiet [OF q1 al m1 assms(4), of H d] by blast
    have "walk_level H (pte_mask nb) d 4 i ?m w =
        Inr (Inr (spec_mark d i e), set_entry (curlevel ?m1) (spec_mark d i e) ?m1, w2)"
      by (subst walk_level.simps) (simp add: r c None w2(1) del: One_nat_def)
    moreover have "still w w2" using w1(2) w2(2) by (simp add: still_def)
    moreover have "at_level ?k virt (spec_mark d i e) (set_entry (curlevel ?m1) (spec_mark d i e) ?m1)"
      using m by (simp add: at_level_def)
    ultimately show ?thesis using None w1(3) w2(3) by auto
  qed
qed

section \<open>The rest of the walk in a large page\<close>

lemma range_zero: "drop_bit j (take_bit n x) = 0 \<longleftrightarrow> (\<forall>k. j \<le> k \<and> k < n \<longrightarrow> \<not> bit x k)" for x :: u64
proof -
  have "drop_bit j (take_bit n x) \<noteq> 0 \<longleftrightarrow> (\<exists>k. bit x k \<and> k < n \<and> j \<le> k)"
    unfolding any_bit_range [symmetric] using bit_imp_le_length [of x]
    by (fastforce simp: any_bit_iff bit_simps not_less)
  then show ?thesis by blast
qed

text \<open>A part of a page has the rights of the page, and passes the tests as the page did.\<close>

lemma part_no_fault:
  assumes "spec_fault nb d i e = None" "\<And>k. k < 3 \<or> 32 \<le> k \<Longrightarrow> bit s k = bit e k" "32 \<le> nb"
    "i' = 1 \<or> (i' = 2 \<and> (\<forall>k. 13 \<le> k \<and> k < 21 \<longrightarrow> \<not> bit s k))"
  shows "spec_fault nb d i' s = None"
proof -
  have "drop_bit nb (take_bit 52 e) = 0" "d_nxe d \<or> \<not> bit e 63"
    using assms(1) by (auto simp: spec_fault_def spec_reserved_def split: if_splits)
  then have "drop_bit nb (take_bit 52 s) = 0" "d_nxe d \<or> \<not> bit s 63"
    using assms(2,3) by (auto simp: range_zero)
  then have "\<not> spec_reserved nb (d_nxe d) i' s"
    using assms(4) by (auto simp: spec_reserved_def range_zero)
  then show ?thesis
    using assms(1) assms(2) [of 0] assms(2) [of 1] assms(2) [of 2] assms(2) [of 63]
    by (auto simp: spec_fault_def split: if_splits)
qed

lemma walk_level_part:
  assumes "pmap_read H (pmap_setlevel i m) w = Inr (s, pmap_setlevel i m, w)" "spec_fault nb d i s = None"
    "bit s 5" "d_write d \<longrightarrow> bit s 6" "d_pse d" "1 \<le> i" "i \<le> 4" "32 \<le> nb" "nb \<le> 52"
  shows "walk_level H (pte_mask nb) d 4 i (pmap_setlevel i m) w = Inr (Inr s, pmap_setlevel i m, w)"
proof -
  have "set_ad_bit H (pmap_setlevel i m) s True (sets_dirty d i s) w = Inr (False, s, pmap_setlevel i m, w)"
    using assms(3,4) by (auto simp: set_ad_bit_def flag_bits sets_dirty_def Let_def)
  then show ?thesis
    using check_entry_64 [OF assms(5-9), of s] assms(1,2) by (subst walk_level.simps) simp
qed

lemma read_part_2m:
  assumes "at_level 1 virt e m" "bit e 0" "bit e 7"
  shows "pmap_read H (pmap_setlevel 1 m) w = Inr (pte_of_pde 4 virt e, pmap_setlevel 1 m, w)"
  using assms by (subst pmap_read.simps) (simp add: at_level_def pmap_setlevel_def flag_bits)

lemma read_part_1g:
  assumes "at_level 2 virt e m" "bit e 0" "bit e 7"
  shows "pmap_read H (pmap_setlevel 2 m) w = Inr (pde_of_pdpe virt e, pmap_setlevel 2 m, w)"
    "pmap_read H (pmap_setlevel 1 m) w = Inr (pte_of_pde 4 virt (pde_of_pdpe virt e), pmap_setlevel 1 m, w)"
  using assms by (subst pmap_read.simps; simp add: at_level_def pmap_setlevel_def flag_bits)+

lemma mark_bits:
  assumes "spec_large i e" "s = spec_mark d i e"
  shows "bit s 5" "d_write d \<longrightarrow> bit s 6" "\<And>k. k < 5 \<or> 7 \<le> k \<Longrightarrow> bit s k = bit e k"
  using assms by (auto simp: spec_mark_bits dest: bit_imp_le_length)

lemma walk_part_2m:
  assumes "at_level 1 virt (spec_mark d 2 e) m" "spec_fault nb d 2 e = None" "spec_large 2 e" "d_pse d" "32 \<le> nb" "nb \<le> 52"
  shows "\<exists>en. walk_levels H (pte_mask nb) d 4 1 entries m w = Inr (VMMERR_SUCCESS, en, w) \<and>
    en 0 = pte_of_pde 4 virt (spec_mark d 2 e)"
proof -
  let ?e = "spec_mark d 2 e" and ?s = "pte_of_pde 4 virt (spec_mark d 2 e)"
  note k = mark_bits [OF assms(3) refl, where d = d]
  have "bit ?e 0" "bit ?e 7"
    using assms(2,3) k(3) [of 0] k(3) [of 7] by (auto simp: spec_fault_def spec_large_def split: if_splits)
  note r = read_part_2m [OF assms(1) this]
  have b: "bit ?s j = bit e j" if "j < 3 \<or> 32 \<le> j" for j
    using that k(3) [of j] bit_imp_le_length [of e j] by (auto simp: bit_pte_of_pde)
  have "spec_fault nb d 1 ?s = None" by (rule part_no_fault [OF assms(2) b assms(5)]) simp_all
  moreover have "bit ?s 5" "d_write d \<longrightarrow> bit ?s 6" using k(1,2) by (simp_all add: bit_pte_of_pde)
  ultimately have "walk_level H (pte_mask nb) d 4 1 (pmap_setlevel 1 m) w = Inr (Inr ?s, pmap_setlevel 1 m, w)"
    using r assms(4-6) by (intro walk_level_part) simp_all
  then show ?thesis by simp
qed

lemma walk_part_1g:
  assumes "at_level 2 virt (spec_mark d 3 e) m" "spec_fault nb d 3 e = None" "spec_large 3 e" "d_pse d" "32 \<le> nb" "nb \<le> 52"
  shows "\<exists>en. walk_levels H (pte_mask nb) d 4 2 entries m w = Inr (VMMERR_SUCCESS, en, w) \<and>
    en 0 = pte_of_pde 4 virt (pde_of_pdpe virt (spec_mark d 3 e))"
proof -
  let ?e = "spec_mark d 3 e" and ?s = "pde_of_pdpe virt (spec_mark d 3 e)"
    and ?t = "pte_of_pde 4 virt (pde_of_pdpe virt (spec_mark d 3 e))"
  note k = mark_bits [OF assms(3) refl, where d = d]
  have "bit ?e 0" "bit ?e 7"
    using assms(2,3) k(3) [of 0] k(3) [of 7] by (auto simp: spec_fault_def spec_large_def split: if_splits)
  note r = read_part_1g [OF assms(1) this]
  have bs: "bit ?s j = bit e j" if "j < 3 \<or> 32 \<le> j" for j
    using that k(3) [of j] bit_imp_le_length [of e j] by (auto simp: bit_pde_of_pdpe)
  have bt: "bit ?t j = bit e j" if "j < 3 \<or> 32 \<le> j" for j
    using that bs [of j] bit_imp_le_length [of e j] by (auto simp: bit_pte_of_pde)
  have "\<forall>j. 13 \<le> j \<and> j < 30 \<longrightarrow> \<not> bit e j"
    using assms(2,3) by (auto simp: spec_fault_def spec_reserved_def spec_large_def range_zero split: if_splits)
  then have "\<forall>j. 13 \<le> j \<and> j < 21 \<longrightarrow> \<not> bit ?s j" using k(3) by (auto simp: bit_pde_of_pdpe)
  then have f: "spec_fault nb d 2 ?s = None" "spec_fault nb d 1 ?t = None"
    by (auto intro: part_no_fault [OF assms(2) bs assms(5)] part_no_fault [OF assms(2) bt assms(5)])
  have d: "bit ?s 5" "d_write d \<longrightarrow> bit ?s 6" "bit ?t 5" "d_write d \<longrightarrow> bit ?t 6"
    using k(1,2) by (simp_all add: bit_pte_of_pde bit_pde_of_pdpe)
  have m: "pmap_setlevel 1 (pmap_setlevel 2 m) = pmap_setlevel 1 m" by (simp add: pmap_setlevel_def)
  have "walk_level H (pte_mask nb) d 4 2 (pmap_setlevel 2 m) w = Inr (Inr ?s, pmap_setlevel 2 m, w)"
    using r f d assms(4-6) by (intro walk_level_part) simp_all
  moreover have "walk_level H (pte_mask nb) d 4 1 (pmap_setlevel 1 m) w = Inr (Inr ?t, pmap_setlevel 1 m, w)"
    using r f d assms(4-6) by (intro walk_level_part) simp_all
  ultimately show ?thesis using m by (simp add: numeral_2_eq_2)
qed

section \<open>The whole walk\<close>

lemma mark_high: "7 \<le> k \<Longrightarrow> bit (spec_mark d i e) k = bit e k"
  by (auto simp: spec_mark_bits dest: bit_imp_le_length)

lemma page_address_4k:
  "(spec_mark d 1 e AND pte_mask nb) OR (virt AND 0xFFF) = spec_page_address nb 1 virt e"
  unfolding mask_12 pte_mask_def
  by (rule bit_word_eqI) (auto simp: bit_simps spec_page_bit mark_high not_less)

lemma page_address_2m:
  assumes "32 \<le> nb"
  shows "(pte_of_pde 4 virt (spec_mark d 2 e) AND pte_mask nb) OR (virt AND 0xFFF) = spec_page_address nb 2 virt e"
  unfolding mask_12 pte_mask_def
  by (rule bit_word_eqI) (use assms in \<open>auto simp: bit_simps spec_page_bit mark_high bit_pte_of_pde not_less\<close>)

lemma page_address_1g:
  assumes "32 \<le> nb"
  shows "(pte_of_pde 4 virt (pde_of_pdpe virt (spec_mark d 3 e)) AND pte_mask nb) OR (virt AND 0xFFF) =
    spec_page_address nb 3 virt e"
  unfolding mask_12 pte_mask_def
  by (rule bit_word_eqI)
    (use assms in \<open>auto simp: bit_simps spec_page_bit mark_high bit_pte_of_pde bit_pde_of_pdpe not_less\<close>)

definition walk_result :: "vmmerr + u64 \<Rightarrow> vmmerr" where
  "walk_result r = (case r of Inl e \<Rightarrow> e | Inr _ \<Rightarrow> VMMERR_SUCCESS)"

lemma spec_large_mark: "spec_large i (spec_mark d i' e) = spec_large i e"
  by (simp add: spec_large_def mark_high)

text \<open>From any level down, the walk is the reference walk.\<close>

lemma walk_levels_spec:
  assumes "quiet w" "at_level i virt table m" "1 \<le> i" "i \<le> 4" "bit table 0" "\<not> spec_large (i + 1) table"
    "d_pse d" "32 \<le> nb" "nb \<le> 52" "spec_walk nb d virt i table (mem w) = (r, mem', as)"
    "list_all (\<lambda>a. outside w a 8) as"
  shows "\<exists>en w'. walk_levels H (pte_mask nb) d 4 i entries m w = Inr (walk_result r, en, w') \<and> still w w' \<and>
    mem w' = mem' \<and> (\<forall>p. r = Inr p \<longrightarrow> (en 0 AND pte_mask nb) OR (virt AND 0xFFF) = p)"
  using assms
proof (induction i arbitrary: table m w entries r mem' as)
  case (Suc j)
  let ?i = "Suc j" and ?a = "spec_entry_address (Suc j) virt table"
  let ?e = "load64 (mem w) ?a"
  let ?n = "spec_mark d ?i ?e"
  have a: "outside w ?a 8"
    using Suc.prems(10,11) by (auto simp: Let_def split: option.splits if_splits prod.splits)
  obtain m' w' where step: "walk_level H (pte_mask nb) d 4 ?i (pmap_setlevel ?i m) w =
      Inr (case spec_fault nb d ?i ?e of Some r \<Rightarrow> Inl r | None \<Rightarrow> Inr ?n, m', w')" "still w w'"
    "spec_fault nb d ?i ?e = None \<Longrightarrow> at_level j virt ?n m' \<and> mem w' = store64 (mem w) ?a ?n"
    "spec_fault nb d ?i ?e \<noteq> None \<Longrightarrow> mem w' = mem w"
    using walk_level_quiet [OF Suc.prems(1-6) refl a Suc.prems(7-9), of H] by auto
  show ?case
  proof (cases "spec_fault nb d ?i ?e")
    case (Some x)
    then show ?thesis using step Suc.prems(10) by (auto simp: Let_def walk_result_def)
  next
    case None
    note at = step(3) [OF None]
    have go: "walk_levels H (pte_mask nb) d 4 ?i entries m w = walk_levels H (pte_mask nb) d 4 j (entries(j := ?n)) m' w'"
      using step(1) None by simp
    have b: "bit ?n 0" using None by (auto simp: spec_mark_bits spec_fault_def split: if_splits)
    consider "j = 0" | "j = 1" "spec_large 2 ?e" | "j = 2" "spec_large 3 ?e" | "j \<noteq> 0" "\<not> spec_large ?i ?e"
      by (cases "j = 0"; cases "spec_large ?i ?e") (auto simp: spec_large_def)
    then show ?thesis
    proof cases
      case 1
      then show ?thesis
        using go None Suc.prems(10) at step(2) page_address_4k [of d ?e nb virt]
        by (auto simp: Let_def walk_result_def)
    next
      case 2
      then have "spec_fault nb d 2 ?e = None" "at_level 1 virt (spec_mark d 2 ?e) m'"
        using None at by (simp_all add: numeral_2_eq_2)
      from walk_part_2m [OF this(2,1) 2(2) Suc.prems(7-9), of H "entries(j := ?n)" w'] 2 show ?thesis
        using go None Suc.prems(10) at step(2) page_address_2m [OF Suc.prems(8), of virt d ?e]
        by (auto simp: Let_def walk_result_def numeral_2_eq_2)
    next
      case 3
      then have "spec_fault nb d 3 ?e = None" "at_level 2 virt (spec_mark d 3 ?e) m'"
        using None at by (simp_all add: numeral_3_eq_3)
      from walk_part_1g [OF this(2,1) 3(2) Suc.prems(7-9), of H "entries(j := ?n)" w'] 3 show ?thesis
        using go None Suc.prems(10) at step(2) page_address_1g [OF Suc.prems(8), of virt d ?e]
        by (auto simp: Let_def walk_result_def numeral_3_eq_3)
    next
      case 4
      obtain r' mem2 as' where rest: "spec_walk nb d virt j ?n (mem w') = (r', mem2, as')"
        by (metis surj_pair)
      then have r: "r' = r" "mem2 = mem'" "as = ?a # as'"
        using Suc.prems(10) None 4 at by (auto simp: Let_def)
      have o: "list_all (\<lambda>a. outside w' a 8) as'" "quiet w'"
        using Suc.prems(11) step(2) by (simp_all add: r(3) still_def)
      have "\<not> spec_large (j + 1) ?n" using 4 by (simp add: spec_large_mark)
      then obtain en w2 where "walk_levels H (pte_mask nb) d 4 j (entries(j := ?n)) m' w' = Inr (walk_result r', en, w2)"
        "still w' w2" "mem w2 = mem2" "\<forall>p. r' = Inr p \<longrightarrow> (en 0 AND pte_mask nb) OR (virt AND 0xFFF) = p"
        using Suc.IH [OF o(2) _ _ _ b _ Suc.prems(7-9) rest o(1)] at 4 Suc.prems(4) by fastforce
      then show ?thesis using go r(1,2) step(2) by (auto simp: still_def)
    qed
  qed
qed simp

section \<open>Properties\<close>

definition phys_bits :: "u32 \<Rightarrow> u32 \<Rightarrow> nat" where
  "phys_bits ext_max eax = (if ext_max < 0x80000008 then 36 else min 52 (max 32 (unat (eax AND 0xFF))))"

lemma phys_bits_range: "32 \<le> phys_bits ext_max eax" "phys_bits ext_max eax \<le> 52"
  by (simp_all add: phys_bits_def)

lemma pte_addr_mask_bits: "get_pte_addr_mask ext_max eax = pte_mask (phys_bits ext_max eax)"
proof (cases "ext_max < 0x80000008")
  case True
  then show ?thesis
    by (simp add: get_pte_addr_mask_def phys_bits_def pte_mask_def PTE_ADDR_MASK64_def mask_eq_exp_minus_1)
next
  case False
  let ?n = "eax AND 0xFF"
  have n: "unat (let nbits = (if ?n < 32 then 32 else ?n) in if nbits > 52 then 52 else nbits) = phys_bits ext_max eax"
    using False by (auto simp: phys_bits_def Let_def word_less_nat_alt)
  have "NOT (0xFFF OR push_bit k (NOT 0)) = pte_mask k" for k
    unfolding mask_12 pte_mask_def by (rule bit_word_eqI) (auto simp: bit_simps not_less)
  then show ?thesis using False n by (simp add: get_pte_addr_mask_def Let_def)
qed

definition walk_data :: "guest_regs \<Rightarrow> bool \<Rightarrow> bool \<Rightarrow> bool \<Rightarrow> get_pte_data" where
  "walk_data g wr us ex =
     \<lparr>d_pg = True, d_wp = any_bit (r_cr0 g) 0x10000, d_pse = True, d_pae = True, d_lme = True,
      d_nxe = any_bit (r_efer g) 0x800, d_write = wr, d_user = us, d_exec = ex\<rparr>"

lemma opened_table:
  "bit ((cr AND (NOT 0xFFF OR 0x8 OR 0x10)) OR PDE_P_BIT) 0"
  "spec_entry_address i virt ((cr AND (NOT 0xFFF OR 0x8 OR 0x10)) OR PDE_P_BIT) = spec_entry_address i virt cr"
proof -
  have c: "NOT 0xFFF OR 0x8 OR (0x10 :: u64) = NOT (mask 12) OR 2 ^ 3 OR 2 ^ 4" by (simp add: mask_eq_exp_minus_1)
  have p: "PDE_P_BIT = 2 ^ 0" by (simp add: PDE_P_BIT_def)
  show "bit ((cr AND (NOT 0xFFF OR 0x8 OR 0x10)) OR PDE_P_BIT) 0"
    by (simp add: PDE_P_BIT_def bit_simps)
  have "push_bit 12 (drop_bit 12 (take_bit 48 ((cr AND (NOT 0xFFF OR 0x8 OR 0x10)) OR PDE_P_BIT))) =
      push_bit 12 (drop_bit 12 (take_bit 48 cr))"
    unfolding c p by (rule bit_word_eqI) (auto simp: bit_simps not_less simp del: power_numeral power_0)
  then show "spec_entry_address i virt ((cr AND (NOT 0xFFF OR 0x8 OR 0x10)) OR PDE_P_BIT) = spec_entry_address i virt cr"
    by (simp only: spec_entry_address_def)
qed

lemma spec_walk_table:
  assumes "0 < i" "spec_entry_address i virt t = spec_entry_address i virt t'"
  shows "spec_walk nb d virt i t m = spec_walk nb d virt i t' m"
proof -
  from assms(1) obtain j where i: "i = Suc j" by (cases i) simp_all
  show ?thesis using assms(2) unfolding i by (simp only: spec_walk.simps Let_def)
qed


text \<open>A guest that maps the first 1 GiB by one large page.\<close>

definition sample_tables :: "unit mmio_data" where
  "sample_tables = sample_world\<lparr>mem := (\<lambda>_. 0)(0x1000 := 0x07, 0x1001 := 0x20, 0x2000 := 0x87)\<rparr>"

definition sample_regs :: guest_regs where
  "sample_regs = \<lparr>r_cr0 = 0x80010001, r_cr3 = 0x1000, r_cr4 = 0x20, r_efer = 0xD00,
     pte_addr_mask = get_pte_addr_mask 0x80000008 0x3027\<rparr>"

lemma spec_walk_next:
  assumes "spec_entry_address (Suc j) virt t = a" "load64 m a = e" "spec_fault nb d (Suc j) e = None"
    "j \<noteq> 0" "\<not> spec_large (Suc j) e" "spec_mark d (Suc j) e = n" "spec_walk nb d virt j n (store64 m a n) = (r, m', as)"
  shows "spec_walk nb d virt (Suc j) t m = (r, m', a # as)"
  using assms by (simp add: Let_def)

lemma spec_walk_page:
  assumes "spec_entry_address (Suc j) virt t = a" "load64 m a = e" "spec_fault nb d (Suc j) e = None"
    "spec_large (Suc j) e" "spec_mark d (Suc j) e = n"
  shows "spec_walk nb d virt (Suc j) t m = (Inr (spec_page_address nb (Suc j) virt e), store64 m a n, [a])"
  using assms by (simp add: Let_def)

lemma sample_bits: "phys_bits 0x80000008 0x3027 = 39" by (simp add: phys_bits_def)

lemma sample_walk:
  "\<exists>mem'. spec_walk (phys_bits 0x80000008 0x3027) (walk_data sample_regs True False False) 0x12345 4 (r_cr3 sample_regs)
      (mem sample_tables) = (Inr 0x12345, mem', [0x1000, 0x2000]) \<and> mem' 0x1000 = 0x27 \<and> mem' 0x2000 = 0xE7"
proof -
  let ?d = "walk_data sample_regs True False False"
  let ?m = "(\<lambda>_. 0)(0x1000 := 0x07, 0x1001 := 0x20, 0x2000 := 0x87) :: u64 \<Rightarrow> u8"
  let ?m1 = "store64 ?m 0x1000 0x2027" and ?m2 = "store64 (store64 ?m 0x1000 0x2027) 0x2000 0xE7"
  have p: "spec_page_address 39 3 0x12345 0x87 = 0x12345"
    by (simp add: spec_page_address_def)
  have "spec_walk 39 ?d 0x12345 (Suc 2) 0x2027 ?m1 = (Inr (spec_page_address 39 (Suc 2) 0x12345 0x87), ?m2, [0x2000])"
  proof (rule spec_walk_page)
    show "spec_entry_address (Suc 2) 0x12345 0x2027 = 0x2000" by (simp add: spec_entry_address_def)
    show "load64 ?m1 0x2000 = 0x87" by (simp add: load64_def store64_def span_def get_bytes_def le_bytes_def upt_rec of_bytes_def)
    show "spec_fault 39 ?d (Suc 2) 0x87 = None"
      by (simp add: spec_fault_def walk_data_def sample_regs_def spec_reserved_def any_bit_def)
    show "spec_large (Suc 2) 0x87" by (simp add: spec_large_def)
    show "spec_mark ?d (Suc 2) 0x87 = 0xE7" by (simp add: spec_mark_def spec_large_def walk_data_def Let_def set_bit_eq_or)
  qed
  then have "spec_walk 39 ?d 0x12345 (Suc 3) 0x1000 ?m = (Inr (spec_page_address 39 (Suc 2) 0x12345 0x87), ?m2, 0x1000 # [0x2000])"
  proof (intro spec_walk_next)
    show "spec_entry_address (Suc 3) 0x12345 0x1000 = 0x1000" by (simp add: spec_entry_address_def)
    show "load64 ?m 0x1000 = 0x2007" by (simp add: load64_def span_def get_bytes_def upt_rec of_bytes_def)
    show "spec_fault 39 ?d (Suc 3) 0x2007 = None"
      by (simp add: spec_fault_def walk_data_def sample_regs_def spec_reserved_def any_bit_def)
    show "\<not> spec_large (Suc 3) 0x2007" by (simp add: spec_large_def)
    show "spec_mark ?d (Suc 3) 0x2007 = 0x2027"
      by (simp add: spec_mark_def spec_large_def walk_data_def Let_def set_bit_eq_or)
  qed (simp_all add: numeral_3_eq_3 numeral_2_eq_2 del: spec_walk.simps)
  then have "spec_walk 39 ?d 0x12345 4 (r_cr3 sample_regs) (mem sample_tables) = (Inr 0x12345, ?m2, [0x1000, 0x2000])"
    by (simp add: p sample_regs_def sample_tables_def del: spec_walk.simps)
  moreover have "?m2 0x1000 = 0x27 \<and> ?m2 0x2000 = 0xE7"
    by (simp add: store64_def span_def le_bytes_def upt_rec)
  ultimately show ?thesis by (auto simp: sample_bits)
qed

lemma sample_tables_quiet: "quiet sample_tables" "outside sample_tables 0x1000 8" "outside sample_tables 0x2000 8"
  by (simp_all add: sample_tables_def quiet_def outside_def sample_world_def span_def upt_rec phys_in_vmm_def VMMSIZE_ALL_def)


end
