(* ===== verification/Linear_Access.thy ===== *)
theory Linear_Access
  imports Prelude Cpu_Mmu
begin

text \<open>
  What holds of the VMM's access to guest memory by linear address whatever the guest has put in
  its page tables and whatever its other processors do meanwhile: the walk ends after a bounded
  number of memory accesses, and neither the walk nor the access behind it touches the VMM.
\<close>

section \<open>The number of accesses of a walk\<close>

lemma scan_del_events: "events (scan a n (\<lambda>i. del i p) w) = events w"
proof -
  have "events (fold (\<lambda>i. del i p) is w) = events w" for "is"
    by (induction "is" arbitrary: w) (simp_all add: del_def)
  then show ?thesis by (simp add: scan_def Let_def)
qed

lemma remove_handles_events:
  "events (fold (\<lambda>p w. if unregistered (hinfo w p) then remove_handle p w else w) ps w) = events w"
  by (induction ps arbitrary: w) (simp_all add: remove_handle_def Let_def scan_del_events)

lemma lock_unlock_events: "events (mmio_unlock (mmio_lock w)) = events w"
  by (simp add: mmio_unlock_def mmio_lock_def Let_def remove_handles_events)

lemma cmpxchg_gphys_events:
  assumes "cmpxchg_gphys msg old new H phys attr w = Inr (x, w')"
  shows "length (events w') = Suc (length (events w))"
proof -
  obtain at h where g: "hphys_cmpxchg h old new at (mmio_unlock (mmio_lock w)) = (x, w')"
    by (rule cmpxchg_gphys_done [OF assms])
  have "events (other_cpus v) = events v" for v :: "'a mmio_data"
    by (simp add: other_cpus_def split: list.split)
  with g show ?thesis
    by (auto simp: hphys_cmpxchg_def Let_def note_event_def lock_unlock_events split: if_splits)
qed

lemma rd_events:
  assumes "pm_type m = PMAP_TYPE_GUEST_ATOMIC" "pmap_rd H m a attr w = Inr (r, w')"
  shows "length (events w') = Suc (length (events w))"
  using assms
  by (auto simp: pmap_rd_def pmap_rd32_def pmap_rd64_def cmpxchg_gphys_l_def cmpxchg_gphys_q_def bind_res_Inr_iff
      split: if_splits dest: cmpxchg_gphys_events)

lemma pmap_read_events:
  assumes "pmap_read H m w = Inr (e, m', w')" "pm_type m = PMAP_TYPE_GUEST_ATOMIC" "curlevel m \<le> readlevel m"
  shows "length (events w') + readlevel m' = length (events w) + readlevel m \<and> curlevel m' \<le> readlevel m'"
  using assms
proof (induction rule: pmap_read_induct)
  case (step m w r w1)
  have l: "curlevel m < readlevel m" using step.hyps(1) by (rule descends_level)
  have "length (events w1) = Suc (length (events w))" using rd_events [OF _ step.hyps(2)] step.prems(1) by simp
  then show ?case using step.IH step.prems(1) l by simp
qed simp

lemma pmap_write_events:
  assumes "pmap_write H e msk m w = Inr (fail, m', w')" "pm_type m = PMAP_TYPE_GUEST_ATOMIC" "curlevel m \<le> readlevel m"
  shows "length (events w') = Suc (length (events w))" "readlevel m' = readlevel m"
proof -
  show "length (events w') = Suc (length (events w))"
    using assms(1,2)
    by (auto simp: pmap_write_def Let_def bind_res_Inr_iff pmap_wr32_def pmap_wr64_def cmpxchg_gphys_l_def
        cmpxchg_gphys_q_def split: if_splits dest: cmpxchg_gphys_events)
  show "readlevel m' = readlevel m"
    using assms(1,3) pmap_write_atomic(2) [OF assms(2,1)]
    by (auto simp: pmap_write_def Let_def bind_res_Inr_iff)
qed

text \<open>
  What a walk has yet to do is bounded by the accesses made, the levels not yet read and the
  interference not yet seen; a level costs one more, the write of its bits.
\<close>

definition cost :: "pmap_t \<Rightarrow> 'a world_scheme \<Rightarrow> nat" where
  "cost m w = length (events w) + readlevel m + unsettled m w"

definition cursor_ok :: "pmap_t \<Rightarrow> bool" where
  "cursor_ok m \<longleftrightarrow> pm_type m = PMAP_TYPE_GUEST_ATOMIC \<and> curlevel m \<le> readlevel m"

lemma read_cost:
  assumes "cursor_ok m" "pmap_read H m w = Inr (e, m', w')"
  shows "cost m' w' \<le> cost m w" "cursor_ok m'"
proof -
  note a = pmap_read_atomic [OF _ assms(2)]
  note ev = pmap_read_events [OF assms(2)]
  have t: "pm_type m = PMAP_TYPE_GUEST_ATOMIC" "curlevel m \<le> readlevel m" using assms(1) by (simp_all add: cursor_ok_def)
  show "cursor_ok m'" using a [OF t(1)] ev [OF t] t by (simp add: cursor_ok_def same_walk_def)
  have "unsettled m' w' \<le> unsettled m w"
  proof (cases "readlevel m' \<le> curlevel m'")
    case True
    then show ?thesis by (rule pmap_read_unsettled [OF t(1) assms(2)])
  next
    case False
    then show ?thesis using a [OF t(1)] by (simp add: unsettled_def)
  qed
  then show "cost m' w' \<le> cost m w" using ev [OF t] by (simp add: cost_def)
qed

lemma set_ad_bit_cost:
  assumes "cursor_ok m" "set_ad_bit H m e seta setd w = Inr (fail, e', m', w')"
  shows "cost m' w' \<le> cost m w + (if fail then 0 else 1)" "cursor_ok m'"
proof -
  have t: "pm_type m = PMAP_TYPE_GUEST_ATOMIC" "curlevel m \<le> readlevel m" using assms(1) by (simp_all add: cursor_ok_def)
  consider "m' = m" "w' = w" "\<not> fail" | e1 where "pmap_write H e1 0xFFF m w = Inr (fail, m', w')"
    using assms(2) by (auto simp: set_ad_bit_def Let_def bind_res_Inr_iff split: if_splits)
  then have "cost m' w' \<le> cost m w + (if fail then 0 else 1) \<and> cursor_ok m'"
  proof cases
    case 2
    note d = pmap_write_atomic [OF t(1) 2]
    note ev = pmap_write_events [OF 2 t]
    have "unsettled m' w' \<le> unsettled m w"
      using d(1-5) by (auto simp: unsettled_def same_walk_def)
    then show ?thesis
      using d(1,7) ev t by (auto simp: cost_def cursor_ok_def same_walk_def)
  qed (use assms(1) in simp)
  then show "cost m' w' \<le> cost m w + (if fail then 0 else 1)" "cursor_ok m'" by simp_all
qed

lemma walk_level_cost:
  assumes "cursor_ok m" "walk_level H pmask d n i m w = Inr (r, m', w')"
  shows "cost m' w' \<le> cost m w + 1 \<and> cursor_ok m' \<and> curlevel m' = curlevel m"
  using assms
proof (induction H pmask d n i m w rule: walk_level.induct)
  case (1 H pmask d n i m w)
  obtain e m1 w1 where rd: "pmap_read H m w = Inr (e, m1, w1)"
    using "1.prems"(2) by (subst (asm) walk_level.simps) (auto split: sum.splits)
  note c1 = read_cost [OF "1.prems"(1) rd]
  have l1: "curlevel m1 = curlevel m" using pmap_read_same [OF rd] by (simp add: same_walk_def)
  obtain ch where ch: "check_entry pmask d n i e = Inr ch"
    using "1.prems"(2) rd by (subst (asm) walk_level.simps) (auto split: sum.splits)
  show ?case
  proof (cases ch)
    case (Inl x)
    then have "m' = m1" "w' = w1"
      using "1.prems"(2) rd ch by (subst (asm) walk_level.simps; auto)+
    then show ?thesis using c1 l1 by simp
  next
    case (Inr e1)
    then obtain fail e2 m2 w2 where ad: "set_ad_bit H m1 e1 True (sets_dirty d i e1) w1 = Inr (fail, e2, m2, w2)"
      using "1.prems"(2) rd ch by (subst (asm) walk_level.simps) (auto split: sum.splits)
    have next': "(if fail then walk_level H pmask d n i m2 w2 else Inr (Inr e2, m2, w2)) = Inr (r, m', w')"
      using "1.prems"(2) rd ch Inr ad by (subst (asm) walk_level.simps) simp
    note c2 = set_ad_bit_cost [OF c1(2) ad]
    have l2: "curlevel m2 = curlevel m1"
      using ad by (auto simp: set_ad_bit_def pmap_write_def Let_def bind_res_Inr_iff split: if_splits)
    show ?thesis
    proof (cases fail)
      case True
      then have w: "walk_level H pmask d n i m2 w2 = Inr (r, m', w')" using next' by simp
      have "cost m' w' \<le> cost m2 w2 + 1 \<and> cursor_ok m' \<and> curlevel m' = curlevel m2"
        using rd ch Inr ad True c2(2) w by (intro "1.IH") auto
      then show ?thesis using c1 c2 l1 l2 True by auto
    next
      case False
      then show ?thesis using next' c1 c2 l1 l2 by auto
    qed
  qed
qed

lemma walk_levels_cost:
  assumes "walk_levels H pmask d n i entries m w = Inr (r, en, w')" "pm_type m = PMAP_TYPE_GUEST_ATOMIC" "i \<le> readlevel m"
  shows "length (events w') \<le> length (events w) + readlevel m + length (pending w) + i"
  using assms
proof (induction i arbitrary: entries m w)
  case (Suc j)
  let ?m = "pmap_setlevel (Suc j) m"
  obtain x m1 w1 where l: "walk_level H pmask d n (Suc j) ?m w = Inr (x, m1, w1)"
    and next': "(case x of Inl err \<Rightarrow> Inr (err, entries, w1) | Inr e \<Rightarrow> walk_levels H pmask d n j (entries(j := e)) m1 w1) = Inr (r, en, w')"
    using Suc.prems(1) by (auto simp: bind_res_Inr_iff)
  have "cursor_ok ?m" "cost ?m w = length (events w) + readlevel m + length (pending w)" "curlevel ?m = j"
    using Suc.prems(2,3) by (simp_all add: cursor_ok_def cost_def unsettled_def pmap_setlevel_def)
  with walk_level_cost [OF _ l] have c: "cost m1 w1 \<le> length (events w) + readlevel m + length (pending w) + 1"
    "cursor_ok m1" "curlevel m1 = j" by auto
  have e: "length (events w1) + readlevel m1 + length (pending w1) \<le> cost m1 w1"
    by (simp add: cost_def unsettled_def)
  show ?case
  proof (cases x)
    case (Inl err)
    then show ?thesis using next' c(1) e by simp
  next
    case (Inr v)
    with next' have "walk_levels H pmask d n j (entries(j := v)) m1 w1 = Inr (r, en, w')" by simp
    from Suc.IH [OF this] c(2,3)
    have "length (events w') \<le> length (events w1) + readlevel m1 + length (pending w1) + j"
      by (simp add: cursor_ok_def)
    then show ?thesis using c(1) e by simp
  qed
qed simp

lemma seek_opened: "seek_loop virt (pmap_setlevel k (pmap_open_guest cr n True m)) = pmap_setlevel k (pmap_open_guest cr n True m)"
  by (subst seek_loop.simps) (simp add: pmap_setlevel_def pmap_open_guest_def)

lemma get_pte_sub_cost:
  assumes "get_pte_sub H pmask virt cr d entries w = Inr (r, en, n, w')"
  shows "length (events w') \<le> length (events w) + 2 * n + length (pending w)"
proof (cases "d_pg d")
  case True
  obtain d' where "(if d_lme d then (d\<lparr>d_pae := True, d_pse := True\<rparr>, 4)
      else if d_pae d then (d\<lparr>d_pse := True\<rparr>, 3) else (d, 2)) = (d', n)"
    using assms True by (auto simp: get_pte_sub_def Let_def bind_res_Inr_iff split: prod.splits if_splits)
  note n = this
  let ?m = "pmap_seek virt (n + 1) (pmap_open_guest cr n True pmap_local)"
  have m: "readlevel ?m = n" "curlevel ?m = n" "pm_type ?m = PMAP_TYPE_GUEST_ATOMIC"
    by (simp_all add: pmap_seek_def seek_opened) (simp_all add: pmap_setlevel_def pmap_open_guest_def)
  have rd: "pmap_read H ?m w = Inr (entry ?m n, ?m, w)"
    by (subst pmap_read.simps) (simp only: m, simp)
  obtain en' where "walk_levels H pmask d' n n en' ?m w = Inr (r, en, w')"
    using assms True rd by (auto simp: get_pte_sub_def n Let_def bind_res_Inr_iff)
  from walk_levels_cost [OF this m(3)] m(1) show ?thesis by simp
qed (use assms in \<open>simp add: get_pte_sub_def\<close>)

section \<open>Isolation of the walk\<close>

lemma set_ad_bit_safe:
  assumes "set_ad_bit H m e seta setd w = Inr (fail, e', m', w')" "ready w" "pm_type m = PMAP_TYPE_GUEST_ATOMIC"
  shows "safe st w w'" "pm_type m' = pm_type m"
proof -
  consider "m' = m" "w' = w" | e1 where "pmap_write H e1 0xFFF m w = Inr (fail, m', w')"
    using assms(1) by (auto simp: set_ad_bit_def Let_def bind_res_Inr_iff split: if_splits)
  then have "safe st w w' \<and> pm_type m' = pm_type m"
  proof cases
    case 2
    show ?thesis
      using pmap_write_safe [OF 2 assms(2,3)] pmap_write_atomic(1) [OF assms(3) 2] by (simp add: same_walk_def)
  qed simp
  then show "safe st w w'" "pm_type m' = pm_type m" by simp_all
qed

lemma walk_level_safe:
  assumes "ready w" "pm_type m = PMAP_TYPE_GUEST_ATOMIC" "walk_level H pmask d n i m w = Inr (r, m', w')"
  shows "safe st w w' \<and> pm_type m' = PMAP_TYPE_GUEST_ATOMIC"
  using assms
proof (induction H pmask d n i m w rule: walk_level.induct)
  case (1 H pmask d n i m w)
  obtain e m1 w1 where rd: "pmap_read H m w = Inr (e, m1, w1)"
    using "1.prems"(3) by (subst (asm) walk_level.simps) (auto split: sum.splits)
  have s1: "safe st w w1" using pmap_read_safe [OF rd "1.prems"(1)] "1.prems"(2) by simp
  have m1: "pm_type m1 = PMAP_TYPE_GUEST_ATOMIC" using pmap_read_same [OF rd] "1.prems"(2) by (simp add: same_walk_def)
  note r1 = safe_ready [OF s1 "1.prems"(1)]
  obtain ch where ch: "check_entry pmask d n i e = Inr ch"
    using "1.prems"(3) rd by (subst (asm) walk_level.simps) (auto split: sum.splits)
  show ?case
  proof (cases ch)
    case (Inl x)
    then have "m' = m1" "w' = w1"
      using "1.prems"(3) rd ch by (subst (asm) walk_level.simps; auto)+
    then show ?thesis using s1 m1 by simp
  next
    case (Inr e1)
    then obtain fail e2 m2 w2 where ad: "set_ad_bit H m1 e1 True (sets_dirty d i e1) w1 = Inr (fail, e2, m2, w2)"
      using "1.prems"(3) rd ch by (subst (asm) walk_level.simps) (auto split: sum.splits)
    have next': "(if fail then walk_level H pmask d n i m2 w2 else Inr (Inr e2, m2, w2)) = Inr (r, m', w')"
      using "1.prems"(3) rd ch Inr ad by (subst (asm) walk_level.simps) simp
    have s2: "safe st w1 w2" "pm_type m2 = PMAP_TYPE_GUEST_ATOMIC"
      using set_ad_bit_safe [OF ad r1 m1] m1 by simp_all
    show ?thesis
    proof (cases fail)
      case True
      then have w: "walk_level H pmask d n i m2 w2 = Inr (r, m', w')" using next' by simp
      have "safe st w2 w' \<and> pm_type m' = PMAP_TYPE_GUEST_ATOMIC"
        using rd ch Inr ad True s2(2) w safe_ready [OF s2(1) r1] by (intro "1.IH") auto
      then show ?thesis using s1 s2(1) by (blast intro: safe_trans)
    next
      case False
      then show ?thesis using next' s1 s2 by (auto intro: safe_trans)
    qed
  qed
qed

lemma walk_levels_safe:
  assumes "walk_levels H pmask d n i entries m w = Inr (r, en, w')" "ready w" "pm_type m = PMAP_TYPE_GUEST_ATOMIC"
  shows "safe st w w'"
  using assms
proof (induction i arbitrary: entries m w)
  case (Suc j)
  obtain x m1 w1 where l: "walk_level H pmask d n (Suc j) (pmap_setlevel (Suc j) m) w = Inr (x, m1, w1)"
    and next': "(case x of Inl err \<Rightarrow> Inr (err, entries, w1) | Inr e \<Rightarrow> walk_levels H pmask d n j (entries(j := e)) m1 w1) = Inr (r, en, w')"
    using Suc.prems(1) by (auto simp: bind_res_Inr_iff)
  have s: "safe st w w1" "pm_type m1 = PMAP_TYPE_GUEST_ATOMIC"
    using walk_level_safe [OF Suc.prems(2) _ l] Suc.prems(3) by (simp_all add: pmap_setlevel_def)
  then show ?case
    using next' Suc.IH [of _ m1 w1] safe_ready [OF s(1) Suc.prems(2)] by (cases x) (auto intro: safe_trans)
qed simp

lemma get_pte_safe:
  assumes "get_pte H g virt wr us ex w = Inr (r, pte, w')" "ready w" shows "safe st w w'"
proof -
  obtain d en n where s: "get_pte_sub H (pte_addr_mask g) virt (r_cr3 g) d (\<lambda>_. 0) w = Inr (r, en, n, w')"
    using assms(1) by (auto simp: get_pte_def cpu_mmu_get_pte_def bind_res_Inr_iff)
  show ?thesis
  proof (cases "d_pg d")
    case True
    obtain d' n' where n: "(if d_lme d then (d\<lparr>d_pae := True, d_pse := True\<rparr>, 4)
        else if d_pae d then (d\<lparr>d_pse := True\<rparr>, 3) else (d, 2 :: nat)) = (d', n')"
      by (metis surj_pair)
    let ?m = "pmap_seek virt (n' + 1) (pmap_open_guest (r_cr3 g) n' True pmap_local)"
    have m: "pm_type ?m = PMAP_TYPE_GUEST_ATOMIC"
      by (simp add: pmap_seek_def seek_opened) (simp add: pmap_setlevel_def pmap_open_guest_def)
    obtain e m1 w1 en' where rd: "pmap_read H ?m w = Inr (e, m1, w1)"
      and "walk_levels H (pte_addr_mask g) d' n' n' en' m1 w1 = Inr (r, en, w')"
      using s True by (auto simp: get_pte_sub_def n Let_def bind_res_Inr_iff)
    moreover have "safe st w w1" "pm_type m1 = PMAP_TYPE_GUEST_ATOMIC"
      using pmap_read_safe [OF rd assms(2)] pmap_read_same [OF rd] m by (simp_all add: same_walk_def)
    ultimately show ?thesis
      using walk_levels_safe safe_ready [OF \<open>safe st w w1\<close> assms(2)] by (blast intro: safe_trans)
  qed (use s in \<open>simp add: get_pte_sub_def\<close>)
qed

section \<open>Isolation of access by linear address\<close>

lemma write_linear_safe:
  assumes "ready w" "write_linear write H g linear data w = Inr (r, w')"
    "\<And>phys at w w'. ready w \<Longrightarrow> write H phys data at w = Inr w' \<Longrightarrow> safe False w w'"
  shows "safe False w w'"
proof -
  obtain r1 pte w1 where p: "get_pte H g linear True False False w = Inr (r1, pte, w1)"
    and c: "(if r1 \<noteq> VMMERR_SUCCESS then Inr (r1, w1)
      else bind_res (write H (linear_phys g pte linear) data (pte_attr pte) w1) (\<lambda>w. Inr (VMMERR_SUCCESS, w))) = Inr (r, w')"
    using assms(2) by (auto simp: write_linear_def bind_res_Inr_iff)
  have s: "safe False w w1" by (rule get_pte_safe [OF p assms(1)])
  then show ?thesis
    using c assms(3) [OF safe_ready [OF s assms(1)]] by (auto simp: bind_res_Inr_iff split: if_splits intro: safe_trans)
qed

lemma read_linear_safe:
  assumes "ready w" "read_linear read H g linear bs w = Inr (r, bs', w')"
    "\<And>phys bs at bs' w w'. ready w \<Longrightarrow> read H phys bs at w = Inr (bs', w') \<Longrightarrow> safe False w w'"
  shows "safe False w w'"
proof -
  obtain r1 pte w1 where p: "get_pte H g linear False False False w = Inr (r1, pte, w1)"
    and c: "(if r1 \<noteq> VMMERR_SUCCESS then Inr (r1, bs, w1)
      else bind_res (read H (linear_phys g pte linear) bs (pte_attr pte) w1) (\<lambda>(bs, w). Inr (VMMERR_SUCCESS, bs, w))) = Inr (r, bs', w')"
    using assms(2) by (auto simp: read_linear_def bind_res_Inr_iff)
  have s: "safe False w w1" by (rule get_pte_safe [OF p assms(1)])
  then show ?thesis
    using c assms(3) [OF safe_ready [OF s assms(1)]] by (auto simp: bind_res_Inr_iff split: if_splits intro: safe_trans)
qed

lemma RIE_safe:
  assumes "ready w" "RIE (f w) h = Inr (r, w')" "\<And>w r w'. ready w \<Longrightarrow> f w = Inr (r, w') \<Longrightarrow> safe False w w'"
    "\<And>w r w'. ready w \<Longrightarrow> h w = Inr (r, w') \<Longrightarrow> safe False w w'"
  shows "safe False w w'"
proof -
  obtain r1 w1 where c: "f w = Inr (r1, w1)" "(if r1 \<noteq> VMMERR_SUCCESS then Inr (r1, w1) else h w1) = Inr (r, w')"
    using assms(2) by (auto simp: RIE_def bind_res_Inr_iff)
  have s: "safe False w w1" by (rule assms(3) [OF assms(1) c(1)])
  then show ?thesis using c(2) assms(4) [OF safe_ready [OF s assms(1)]] by (auto split: if_splits intro: safe_trans)
qed

lemma read_linear_halves_safe:
  assumes "ready w" "read_linear_halves read k H g linear bs w = Inr (r, bs', w')"
    "\<And>linear bs r bs' w w'. ready w \<Longrightarrow> read H g linear bs w = Inr (r, bs', w') \<Longrightarrow> safe False w w'"
  shows "safe False w w'"
proof -
  obtain r1 b1 w1 where c: "read H g linear (take k bs) w = Inr (r1, b1, w1)"
    "(if r1 \<noteq> VMMERR_SUCCESS then Inr (r1, b1 @ drop k bs, w1)
      else bind_res (read H g (linear + of_nat k) (drop k bs) w1) (\<lambda>(r, b, w). Inr (r, b1 @ b, w))) = Inr (r, bs', w')"
    using assms(2) by (auto simp: read_linear_halves_def bind_res_Inr_iff)
  have s: "safe False w w1" by (rule assms(3) [OF assms(1) c(1)])
  then show ?thesis
    using c(2) assms(3) [OF safe_ready [OF s assms(1)]] by (auto simp: bind_res_Inr_iff split: if_splits intro: safe_trans)
qed

lemma write_linearaddr_b_safe: "ready w \<Longrightarrow> write_linearaddr_b H g a d w = Inr (r, w') \<Longrightarrow> safe False w w'"
  unfolding write_linearaddr_b_def by (erule write_linear_safe) (auto intro: write_gphys_b_safe)

lemma write_linearaddr_w_safe: "ready w \<Longrightarrow> write_linearaddr_w H g a d w = Inr (r, w') \<Longrightarrow> safe False w w'"
  unfolding write_linearaddr_w_def
  by (auto split: if_splits intro: write_linear_safe write_gphys_w_safe RIE_safe write_linearaddr_b_safe)

lemma write_linearaddr_l_safe: "ready w \<Longrightarrow> write_linearaddr_l H g a d w = Inr (r, w') \<Longrightarrow> safe False w w'"
  unfolding write_linearaddr_l_def
  by (auto split: if_splits intro: write_linear_safe write_gphys_l_safe RIE_safe write_linearaddr_w_safe)

lemma write_linearaddr_q_safe: "ready w \<Longrightarrow> write_linearaddr_q H g a d w = Inr (r, w') \<Longrightarrow> safe False w w'"
  unfolding write_linearaddr_q_def
  by (auto split: if_splits intro: write_linear_safe write_gphys_q_safe RIE_safe write_linearaddr_l_safe)

lemma read_linearaddr_b_safe: "ready w \<Longrightarrow> read_linearaddr_b H g a bs w = Inr (r, bs', w') \<Longrightarrow> safe False w w'"
  unfolding read_linearaddr_b_def by (erule read_linear_safe) (auto intro: read_gphys_b_safe)

lemma read_linearaddr_w_safe: "ready w \<Longrightarrow> read_linearaddr_w H g a bs w = Inr (r, bs', w') \<Longrightarrow> safe False w w'"
  unfolding read_linearaddr_w_def
  by (auto split: if_splits intro: read_linear_safe read_gphys_w_safe read_linear_halves_safe read_linearaddr_b_safe)

lemma read_linearaddr_l_safe: "ready w \<Longrightarrow> read_linearaddr_l H g a bs w = Inr (r, bs', w') \<Longrightarrow> safe False w w'"
  unfolding read_linearaddr_l_def
  by (auto split: if_splits intro: read_linear_safe read_gphys_l_safe read_linear_halves_safe read_linearaddr_w_safe)

lemma read_linearaddr_q_safe: "ready w \<Longrightarrow> read_linearaddr_q H g a bs w = Inr (r, bs', w') \<Longrightarrow> safe False w w'"
  unfolding read_linearaddr_q_def
  by (auto split: if_splits intro: read_linear_safe read_gphys_q_safe read_linear_halves_safe read_linearaddr_l_safe)

text \<open>The copy of a mapped segment.\<close>

lemma mapped_copy_safe:
  assumes "ready w" "mapmem_gphys a n wr w = Some as"
  defines "w1 \<equiv> (other_cpus w)\<lparr>events := events (other_cpus w) @ map (\<lambda>a. Bus a 1 0 wr) as\<rparr>"
  shows "safe False w w1" "wr \<Longrightarrow> safe False w (w1\<lparr>mem := put_bytes (mem w1) as bs\<rparr>)"
proof -
  have o: "safe True w (other_cpus w)" using assms(1) by (simp add: ready_def safe_other_cpus)
  have al: "allowed True wr w x" if "x \<in> set as" for x
    using mapmem_allowed [OF _ assms(2) that] assms(1) by (simp add: ready_def)
  have "list_all (event_ok True (other_cpus w)) (map (\<lambda>a. Bus a 1 0 wr) as)"
    using al safe_config(2) [OF o] by (auto simp: list_all_iff event_ok_def span_def)
  then have s: "safe True w w1" unfolding w1_def by (intro safe_trans [OF o]) (simp add: safe_def)
  then show "safe False w w1" by (rule safe_weaken)
  assume wr
  then have al1: "list_all (allowed True True w1) as" using al safe_config(2) [OF s] by (simp add: list_all_iff)
  show "safe False w (w1\<lparr>mem := put_bytes (mem w1) as bs\<rparr>)"
    by (rule safe_weaken [OF safe_trans [OF s safe_put [OF al1]]])
qed

lemma write_linearaddr_tss_safe:
  assumes "ready w" "write_linearaddr_tss H g a tss n w = Inr (r, w')" shows "safe False w w'"
proof -
  obtain r1 pte w1 where p: "get_pte H g a True False False w = Inr (r1, pte, w1)"
    and c: "(if r1 \<noteq> VMMERR_SUCCESS then Inr (r1, w1)
      else case mapmem_gphys (linear_phys g pte a) n True w1 of None \<Rightarrow> Inr (VMMERR_NOMEM, w1)
        | Some as \<Rightarrow> if length as < unat n \<or> length tss < unat n then Inl OutOfBounds
            else let w = other_cpus w1; w = w\<lparr>events := events w @ map (\<lambda>a. Bus a 1 0 True) as\<rparr>
              in Inr (VMMERR_SUCCESS, w\<lparr>mem := put_bytes (mem w) as tss\<rparr>)) = Inr (r, w')"
    using assms(2) by (auto simp: write_linearaddr_tss_def bind_res_Inr_iff)
  have s: "safe False w w1" by (rule get_pte_safe [OF p assms(1)])
  show ?thesis
  proof (cases "r1 = VMMERR_SUCCESS")
    case True
    show ?thesis
    proof (cases "mapmem_gphys (linear_phys g pte a) n True w1")
      case (Some as)
      note m = mapped_copy_safe(2) [OF safe_ready [OF s assms(1)] Some, of tss]
      show ?thesis using c True Some safe_trans [OF s m] by (simp add: Let_def split: if_splits)
    qed (use c s True in simp)
  qed (use c s in simp)
qed

lemma read_linearaddr_tss_safe:
  assumes "ready w" "read_linearaddr_tss H g a tss n w = Inr (r, tss', w')" shows "safe False w w'"
proof -
  obtain r1 pte w1 where p: "get_pte H g a False False False w = Inr (r1, pte, w1)"
    and c: "(if r1 \<noteq> VMMERR_SUCCESS then Inr (r1, tss, w1)
      else case mapmem_gphys (linear_phys g pte a) n False w1 of None \<Rightarrow> Inr (VMMERR_NOMEM, tss, w1)
        | Some as \<Rightarrow> if length as < unat n then Inl OutOfBounds
            else let w = other_cpus w1; w = w\<lparr>events := events w @ map (\<lambda>a. Bus a 1 0 False) as\<rparr>
              in Inr (VMMERR_SUCCESS, get_bytes (mem w) as, w)) = Inr (r, tss', w')"
    using assms(2) by (auto simp: read_linearaddr_tss_def bind_res_Inr_iff)
  have s: "safe False w w1" by (rule get_pte_safe [OF p assms(1)])
  show ?thesis
  proof (cases "r1 = VMMERR_SUCCESS")
    case True
    show ?thesis
    proof (cases "mapmem_gphys (linear_phys g pte a) n False w1")
      case (Some as)
      note m = mapped_copy_safe(1) [OF safe_ready [OF s assms(1)] Some]
      show ?thesis using c True Some safe_trans [OF s m] by (simp add: Let_def split: if_splits)
    qed (use c s True in simp)
  qed (use c s in simp)
qed

section \<open>Properties\<close>

datatype linear_op =
    Lin_read_b u64 "u8 list" | Lin_read_w u64 "u8 list" | Lin_read_l u64 "u8 list" | Lin_read_q u64 "u8 list"
  | Lin_write_b u64 u8 | Lin_write_w u64 u16 | Lin_write_l u64 u32 | Lin_write_q u64 u64
  | Lin_check_l u64 | Lin_read_tss u64 "u8 list" u32 | Lin_write_tss u64 "u8 list" u32

text \<open>One access, with the register values the guest has at that time.\<close>

fun run_linear :: "'d mmio_handler \<Rightarrow> guest_regs \<times> linear_op \<Rightarrow> 'd mmio_data \<Rightarrow> 'd mmio_data res" where
  "run_linear H (g, Lin_read_b a bs) w = map_sum id (snd \<circ> snd) (read_linearaddr_b H g a bs w)"
| "run_linear H (g, Lin_read_w a bs) w = map_sum id (snd \<circ> snd) (read_linearaddr_w H g a bs w)"
| "run_linear H (g, Lin_read_l a bs) w = map_sum id (snd \<circ> snd) (read_linearaddr_l H g a bs w)"
| "run_linear H (g, Lin_read_q a bs) w = map_sum id (snd \<circ> snd) (read_linearaddr_q H g a bs w)"
| "run_linear H (g, Lin_write_b a d) w = map_sum id snd (write_linearaddr_b H g a d w)"
| "run_linear H (g, Lin_write_w a d) w = map_sum id snd (write_linearaddr_w H g a d w)"
| "run_linear H (g, Lin_write_l a d) w = map_sum id snd (write_linearaddr_l H g a d w)"
| "run_linear H (g, Lin_write_q a d) w = map_sum id snd (write_linearaddr_q H g a d w)"
| "run_linear H (g, Lin_check_l a) w = map_sum id snd (write_linearaddr_ok_l H g a w)"
| "run_linear H (g, Lin_read_tss a tss n) w = map_sum id (snd \<circ> snd) (read_linearaddr_tss H g a tss n w)"
| "run_linear H (g, Lin_write_tss a tss n) w = map_sum id snd (write_linearaddr_tss H g a tss n w)"

fun run_linears :: "'d mmio_handler \<Rightarrow> (guest_regs \<times> linear_op) list \<Rightarrow> 'd mmio_data \<Rightarrow> 'd mmio_data res" where
  "run_linears H [] w = Inr w"
| "run_linears H (x # xs) w = bind_res (run_linear H x w) (run_linears H xs)"

text \<open>The tests for an access across two pages are always true, so that only the first byte is checked.\<close>

lemma ok_checks_first_byte:
  "write_linearaddr_ok_w H g linear w = write_linearaddr_ok_b H g linear w"
  "write_linearaddr_ok_l H g linear w = write_linearaddr_ok_b H g linear w"
proof -
  have "linear AND 0xFFE \<le> 0xFFE" "linear AND 0xFFC \<le> 0xFFC" by (rule word_and_le1)+
  then show "write_linearaddr_ok_w H g linear w = write_linearaddr_ok_b H g linear w"
    "write_linearaddr_ok_l H g linear w = write_linearaddr_ok_b H g linear w"
    by (simp_all add: write_linearaddr_ok_w_def write_linearaddr_ok_l_def)
qed

lemma map_sum_Inr: "map_sum id f x = Inr w' \<longleftrightarrow> (\<exists>a. x = Inr a \<and> f a = w')"
  by (cases x) auto

lemma run_linear_safe:
  assumes "ready w" "run_linear H (g, x) w = Inr w'" shows "safe False w w'"
  using assms
  by (cases x)
    (auto simp: map_sum_Inr ok_checks_first_byte write_linearaddr_ok_b_def bind_res_Inr_iff
      intro: read_linearaddr_b_safe read_linearaddr_w_safe read_linearaddr_l_safe read_linearaddr_q_safe
      write_linearaddr_b_safe write_linearaddr_w_safe write_linearaddr_l_safe write_linearaddr_q_safe
      read_linearaddr_tss_safe write_linearaddr_tss_safe get_pte_safe)

lemma run_linears_safe: "ready w \<Longrightarrow> run_linears H xs w = Inr w' \<Longrightarrow> safe False w w'"
proof (induction xs arbitrary: w)
  case (Cons x xs)
  obtain w1 where w1: "run_linear H x w = Inr w1" "run_linears H xs w1 = Inr w'"
    using Cons.prems(2) by (auto simp: bind_res_Inr_iff)
  have s: "safe False w w1" using run_linear_safe [OF Cons.prems(1)] w1(1) by (cases x) blast
  with Cons.IH [OF safe_ready [OF s Cons.prems(1)] w1(2)] show ?case by (blast intro: safe_trans)
qed simp

text \<open>
  C8: Whatever the guest's page tables and control registers hold, no sequence of accesses by linear
  address, task segments included, changes the memory of the VMM outside the blank page or puts an
  access to it on the bus; that covers the walks themselves, which store accessed and dirty bits.
\<close>

theorem linear_access_is_isolated:
  assumes "ready w" "run_linears H ops w = Inr w'"
  shows "{a. in_vmm w a \<and> page a \<noteq> phys_blank w \<and> mem w' a \<noteq> mem w a} = {} \<and>
    (\<exists>es. events w' = events w @ es \<and> list_all (event_ok False w) es)"
  using run_linears_safe [OF assms] by (auto simp: safe_def allowed_def)

definition flat_regs :: guest_regs where
  "flat_regs = \<lparr>r_cr0 = 1, r_cr3 = 0, r_cr4 = 0, r_efer = 0, pte_addr_mask = 0xFFFFFF000\<rparr>"

theorem linear_access_is_isolated_witness:
  "\<exists>w'. run_linears no_handler [(flat_regs, Lin_write_w 0x5000 0x1234)] sample_world = Inr w' \<and>
     (\<exists>es. events w' = events sample_world @ es \<and> list_all (event_ok False sample_world) es)"
proof -
  let ?pte = "(0x5000 AND 0xFFFFFF000) OR (PDE_P_BIT OR PDE_RW_BIT OR PDE_US_BIT OR PDE_A_BIT OR PDE_D_BIT)"
  have p: "get_pte no_handler flat_regs 0x5000 True False False sample_world = Inr (VMMERR_SUCCESS, ?pte, sample_world)"
    by (simp add: get_pte_def cpu_mmu_get_pte_def get_pte_sub_def flat_regs_def any_bit_def)
  have a: "linear_phys flat_regs ?pte 0x5000 = 0x5000"
    by (simp add: linear_phys_def flat_regs_def PDE_P_BIT_def PDE_RW_BIT_def PDE_US_BIT_def PDE_A_BIT_def PDE_D_BIT_def)
  have o: "outside sample_world 0x5000 2"
    by (simp add: outside_def sample_world_def span_def upt_rec phys_in_vmm_def VMMSIZE_ALL_def)
  obtain w' where "write_gphys_w no_handler 0x5000 0x1234 (pte_attr ?pte) sample_world = Inr w'"
    using writes_w [OF sample_quiet(1) o, of "0x1234" no_handler "pte_attr ?pte"] by (auto simp: writes_def)
  then have "run_linears no_handler [(flat_regs, Lin_write_w 0x5000 0x1234)] sample_world = Inr w'"
    using p a by (simp add: write_linearaddr_w_def write_linear_def)
  with linear_access_is_isolated [OF sample_ready this] show ?thesis by blast
qed

text \<open>
  C20: The walk ends: however often other processors change the entries it is about to mark, it
  makes at most two accesses per level, and one more for each change.
\<close>

theorem walk_makes_few_accesses:
  assumes "cpu_mmu_get_pte H pmask virt c0 c3 c4 efer wr us ex entries w = Inr (r, en, n, w')"
  shows "length (events w') \<le> length (events w) + 2 * n + length (pending w) \<and> n \<le> 4"
proof -
  obtain d where s: "get_pte_sub H pmask virt c3 d entries w = Inr (r, en, n, w')"
    using assms by (auto simp: cpu_mmu_get_pte_def)
  then have "n \<le> 4"
    by (auto simp: get_pte_sub_def Let_def bind_res_Inr_iff split: if_splits)
  with get_pte_sub_cost [OF s] show ?thesis by simp
qed

theorem walk_makes_few_accesses_witness:
  "\<exists>r en n w'. cpu_mmu_get_pte no_handler 0xFFFFFF000 0x5000 1 0 0 0 True False False (\<lambda>_. 0) sample_world = Inr (r, en, n, w') \<and>
     length (events w') \<le> length (events sample_world) + 2 * n + length (pending sample_world)"
proof -
  obtain r en n w' where "cpu_mmu_get_pte no_handler 0xFFFFFF000 0x5000 1 0 0 0 True False False (\<lambda>_. 0) sample_world =
      Inr (r, en, n, w')"
    by (auto simp: cpu_mmu_get_pte_def get_pte_sub_def any_bit_def)
  with walk_makes_few_accesses [OF this] show ?thesis by blast
qed

end
