(* ===== verification/Nested_Paging.thy ===== *)
theory Nested_Paging
  imports Prelude Mmio
begin

text \<open>
  The nested page tables that translate guest-physical addresses for the processor:
  \<^verbatim>\<open>bitvisor/core/vt_ept.c\<close> (Intel) and \<^verbatim>\<open>bitvisor/core/svm_np.c\<close> (AMD).  The two files
  hold the same program up to the format of an entry, so its operations are written once here over a
  \<open>nested_format\<close>, which \<open>Ept\<close> and \<open>Svm_Np\<close> supply.  The locale \<open>nested_paging\<close> states what an
  entry format promises about the walk the processor makes, and shows the operations correct.
\<close>

section \<open>State\<close>

text \<open>
  A pointer to an entry is the physical address of the table page and the index of the entry in it.
  The pages of the tables are only accessed entry by entry.
\<close>

type_synonym ptr = "u64 \<times> nat"

record nested =
  cnt :: nat
  cleared :: bool
  ncr3tbl :: u64
  tbl :: "u64 list"
  cur_level :: nat
  cur_gphys :: u64
  cur_entry :: "nat \<Rightarrow> ptr"
  tables :: "ptr \<Rightarrow> u64"
  tlb_flushes :: nat

definition NUM_OF_TBL :: nat where "NUM_OF_TBL = 1024"
definition LEVELS :: nat where "LEVELS = 4"

text \<open>
  How an entry looks: the test that ends the walk of \<open>cur_move\<close>, an entry for a table, one for a
  page of a guest address at a host address (write protected if \<open>fakerom\<close>), and one for a 2 MiB page.
\<close>

record nested_format =
  fm_stop :: "u64 \<Rightarrow> bool"
  fm_link :: "u64 \<Rightarrow> u64"
  fm_page :: "cache_state \<Rightarrow> u64 \<Rightarrow> u64 \<Rightarrow> bool \<Rightarrow> u64"
  fm_large :: "cache_state \<Rightarrow> u64 \<Rightarrow> u64 \<Rightarrow> u64"
  fm_panic :: string

definition ptr_of :: "u64 \<Rightarrow> ptr" where
  "ptr_of p = (p AND NOT 0xFFF, unat (p AND 0xFFF) div 8)"

definition zero_page :: "u64 \<Rightarrow> (ptr \<Rightarrow> u64) \<Rightarrow> ptr \<Rightarrow> u64" where
  "zero_page t T = (\<lambda>p. if fst p = t then 0 else T p)"

section \<open>The cursor\<close>

function cur_up :: "u64 \<Rightarrow> u64 \<Rightarrow> u64 \<Rightarrow> nat \<Rightarrow> nat" where
  "cur_up gp cg msk l =
     (if l < LEVELS \<and> gp AND msk \<noteq> cg AND msk then cur_up gp cg (push_bit 9 msk) (l + 1) else l)"
  by pat_completeness auto
termination by (relation "measure (\<lambda>(g, c, m, l). LEVELS - l)") auto

declare cur_up.simps [simp del]

fun cur_down :: "(u64 \<Rightarrow> bool) \<Rightarrow> (ptr \<Rightarrow> u64) \<Rightarrow> u64 \<Rightarrow> nat \<Rightarrow> ptr \<Rightarrow> (nat \<Rightarrow> ptr) \<Rightarrow> nat \<times> (nat \<Rightarrow> ptr)" where
  "cur_down stop T gp 0 p entry = (0, entry)"
| "cur_down stop T gp (Suc l) p entry =
     (let e = T p in
      if stop e then (Suc l, entry)
      else
        let e = e AND NOT 0xFFF;
            e = e OR (drop_bit (9 * Suc l) gp AND 0xFF8);
            p = ptr_of e
        in cur_down stop T gp l p (entry(l := p)))"

definition cur_move :: "nested_format \<Rightarrow> u64 \<Rightarrow> nested \<Rightarrow> nested" where
  "cur_move F gp np =
     (let msk = 0xFFFFFFFFFFFFF000;
          msk = (if cur_level np > 0 then push_bit (9 * cur_level np) msk else msk);
          l = cur_up gp (cur_gphys np) msk (cur_level np);
          np = np\<lparr>cur_level := l, cur_gphys := gp\<rparr>
      in if l = 0 then np
         else
           let (p, np) =
             (if l \<ge> LEVELS then
                let p = (ncr3tbl np, unat (drop_bit (LEVELS * 9 + 3) gp AND 0x1FF))
                in (p, np\<lparr>cur_entry := (cur_entry np)(LEVELS - 1 := p), cur_level := LEVELS - 1\<rparr>)
              else (cur_entry np l, np));
               (l, entry) = cur_down (fm_stop F) (tables np) gp (cur_level np) p (cur_entry np)
           in np\<lparr>cur_level := l, cur_entry := entry\<rparr>)"

text \<open>The loop that allocates the tables between level \<open>l\<close> and level \<open>level\<close>.\<close>

fun fill_loop :: "nested_format \<Rightarrow> u64 \<Rightarrow> nat \<Rightarrow> nat \<Rightarrow> ptr \<Rightarrow> nested \<Rightarrow> (ptr \<times> nested) res" where
  "fill_loop F gp level 0 p np = Inr (p, np)"
| "fill_loop F gp level (Suc l) p np =
     (if Suc l > level then
        (if cnt np \<ge> length (tbl np) then Inl OutOfBounds
         else
           let np = np\<lparr>tables := (tables np)(p := fm_link F (tbl np ! cnt np))\<rparr>;
               t = tbl np ! cnt np;
               np = np\<lparr>cnt := cnt np + 1, tables := zero_page t (tables np)\<rparr>
           in fill_loop F gp level l (t, unat (drop_bit (9 * Suc l + 3) gp AND 0x1FF)) np)
      else Inr (p, np))"

definition clear_tables :: "nested \<Rightarrow> nested" where
  "clear_tables np = np\<lparr>tables := zero_page (ncr3tbl np) (tables np), cleared := True, cnt := 0,
     tlb_flushes := tlb_flushes np + 1\<rparr>"

definition cur_fill :: "nested_format \<Rightarrow> u64 \<Rightarrow> nat \<Rightarrow> nested \<Rightarrow> (ptr \<times> nested) res" where
  "cur_fill F gp level np =
     (let np = (if cnt np + cur_level np > NUM_OF_TBL + level
                then (clear_tables np)\<lparr>cur_level := LEVELS - 1\<rparr> else np);
          l = cur_level np
      in if l \<ge> LEVELS then Inl OutOfBounds else fill_loop F gp level l (cur_entry np l) np)"

section \<open>Mapping pages\<close>

text \<open>\<open>w\<close> is the state of the rest of the VMM, which these operations only read.\<close>

definition map_page_sub :: "nested_format \<Rightarrow> 'd mmio_data \<Rightarrow> bool \<Rightarrow> u64 \<Rightarrow> nested \<Rightarrow> nested res" where
  "map_page_sub F w wr gp np =
     (let np = cur_move F gp np in
      bind_res (cur_fill F gp 0 np) (\<lambda>(p, np).
      let (hphys, fakerom) = gmm_pass_gp2hp w gp; hphys = hphys AND NOT 0xFFF
      in if fakerom \<and> wr then Inl (Panic (fm_panic F))
         else Inr (np\<lparr>tables := (tables np)(p := fm_page F (caches w) gp hphys fakerom)\<rparr>)))"

text \<open>True when no 2 MiB page is possible.\<close>

definition map_2mpage :: "nested_format \<Rightarrow> 'd mmio_data \<Rightarrow> u64 \<Rightarrow> nested \<Rightarrow> (bool \<times> nested) res" where
  "map_2mpage F w gp np =
     (let np = cur_move F gp np in
      if cur_level np = 0 then Inr (True, np)
      else
        let g2 = gp AND NOT 0x1FFFFF; hphys = gmm_pass_gp2hp_2m w g2
        in if hphys = GMM_GP2HP_2M_FAIL then Inr (True, np)
           else if \<not> cache_gmtrr_type_equal g2 0x1FFFFF (caches w) then Inr (True, np)
           else bind_res (cur_fill F gp 1 np) (\<lambda>(p, np).
             Inr (False, np\<lparr>tables := (tables np)(p := fm_large F (caches w) g2 hphys)\<rparr>)))"

definition level_of :: "nested_format \<Rightarrow> u64 \<Rightarrow> nested \<Rightarrow> nat \<times> nested" where
  "level_of F gp np = (let np = cur_move F gp np in (cur_level np, np))"

text \<open>
  The test shared by the page fault and the forced map: a 2 MiB page is entered when no smaller
  table and no MMIO range is in the way.  The result tells whether it was.
\<close>

definition try_2mpage :: "nested_format \<Rightarrow> 'd mmio_data \<Rightarrow> u64 \<Rightarrow> nested \<Rightarrow> (bool \<times> nested) res" where
  "try_2mpage F w gp np =
     (let (l, np) = level_of F gp np in
      if l > 0 \<and> mmio_range (gp AND NOT 0x1FFFFF) 0x200000 w = 0
      then bind_res (map_2mpage F w gp np) (\<lambda>(fail, np). Inr (\<not> fail, np))
      else Inr (False, np))"

section \<open>The forced map\<close>

text \<open>
  \<open>uefi_mmio_space\<close> is the array of \<open>base\<close> and \<open>npages\<close> that \<open>get_map_uefi_mmio\<close> fills, the last
  element with \<open>npages = 0\<close>; \<open>None\<close> is the null pointer.
\<close>

definition gmm_pass_getforcemap :: "(u64 \<times> u64) list option \<Rightarrow> nat \<Rightarrow> (nat \<times> u64 \<times> u64) res" where
  "gmm_pass_getforcemap uefi_mmio_space n =
     (case uefi_mmio_space of
        Some sp \<Rightarrow>
          (case rd sp n of
             None \<Rightarrow> Inl OutOfBounds
           | Some (base, npages) \<Rightarrow>
               let rest = push_bit 12 npages in Inr (if rest > 0 then n + 1 else 0, base, rest))
      | None \<Rightarrow> Inr (0, 0, 0))"

definition force_step :: "nested_format \<Rightarrow> 'd mmio_data \<Rightarrow> u64 \<Rightarrow> nested \<Rightarrow> (u64 \<times> nested) res" where
  "force_step F w base np =
     bind_res (try_2mpage F w base np) (\<lambda>(done_2m, np).
     if done_2m then Inr ((base OR 0x1FFFFF) + 1 - base, np)
     else
       let next_phys = mmio_range base 0x1000 w
       in if next_phys = 0 then bind_res (map_page_sub F w True base np) (\<lambda>np. Inr (0x1000, np))
          else Inr ((next_phys - base + 0x1000 - 1) AND NOT 0xFFF, np))"

text \<open>The loop over one area; the fuel is the number of turns left.\<close>

fun force_area :: "nested_format \<Rightarrow> 'd mmio_data \<Rightarrow> nat \<Rightarrow> u64 \<Rightarrow> u64 \<Rightarrow> nested \<Rightarrow> nested res" where
  "force_area F w 0 base rest np = (if rest > 0 then Inl OutOfFuel else Inr np)"
| "force_area F w (Suc n) base rest np =
     (if rest > 0 then
        bind_res (force_step F w base np) (\<lambda>(size, np).
        let size = (if size > rest then rest else size)
        in force_area F w n (base + size) (rest - size) np)
      else Inr np)"

definition area_turns :: "u64 \<Rightarrow> nat" where "area_turns rest = unat rest div 4096 + 1"

text \<open>The loop over the areas: \<open>nn = 0\<close> ends it.  Every turn but the last has read one element.\<close>

function force_areas :: "nested_format \<Rightarrow> (u64 \<times> u64) list option \<Rightarrow> 'd mmio_data \<Rightarrow> nat \<Rightarrow> nested \<Rightarrow> nested res" where
  "force_areas F sp w n np =
     (case gmm_pass_getforcemap sp n of
        Inl f \<Rightarrow> Inl f
      | Inr (nn, base, rest) \<Rightarrow>
          bind_res
            (if rest = 0 then Inr np
             else
               let rest = rest + (base AND 0xFFF); base = base AND NOT 0xFFF
               in force_area F w (area_turns rest) base rest np)
            (\<lambda>np. if nn = 0 then Inr np else force_areas F sp w nn np))"
  by pat_completeness auto
termination
  by (relation "measure (\<lambda>(F, sp, w, n, np). case sp of None \<Rightarrow> 0 | Some xs \<Rightarrow> length xs - n)")
    (auto simp: gmm_pass_getforcemap_def rd_def Let_def split: option.splits if_splits prod.splits)

declare force_areas.simps [simp del]

definition map_page_clear_cleared :: "nested_format \<Rightarrow> (u64 \<times> u64) list option \<Rightarrow> 'd mmio_data \<Rightarrow> nested \<Rightarrow> nested res" where
  "map_page_clear_cleared F sp w np =
     bind_res (force_areas F sp w 0 (np\<lparr>cleared := False\<rparr>)) (\<lambda>np.
     if cleared np then Inl (Panic ''map_page_clear_cleared: error'') else Inr np)"

definition map_page :: "nested_format \<Rightarrow> (u64 \<times> u64) list option \<Rightarrow> 'd mmio_data \<Rightarrow> bool \<Rightarrow> u64 \<Rightarrow> nested \<Rightarrow> nested res" where
  "map_page F sp w wr gp np =
     bind_res (if cleared np then map_page_clear_cleared F sp w np else Inr np) (\<lambda>np.
     bind_res (map_page_sub F w wr gp np) (\<lambda>np.
     if cleared np then map_page_clear_cleared F sp w np else Inr np))"

section \<open>Events\<close>

text \<open>A nested page fault; \<open>emulate\<close> is what \<open>cpu_interpreter\<close> does to the rest of the VMM.\<close>

definition nested_fault ::
  "nested_format \<Rightarrow> (u64 \<times> u64) list option \<Rightarrow> ('d mmio_data \<Rightarrow> bool \<times> 'd mmio_data) \<Rightarrow> bool \<Rightarrow> u64 \<Rightarrow>
     'd mmio_data \<times> nested \<Rightarrow> ('d mmio_data \<times> nested) res" where
  "nested_fault F sp emulate wr gp = (\<lambda>(w, np).
     let w = mmio_lock w in
     bind_res (try_2mpage F w gp np) (\<lambda>(done_2m, np).
     bind_res
       (if done_2m then Inr (w, np)
        else bind_res (mmio_access_page gp (Some emulate) w) (\<lambda>(found, w).
          if found then Inr (w, np) else bind_res (map_page F sp w wr gp np) (\<lambda>np. Inr (w, np))))
       (\<lambda>(w, np). Inr (mmio_unlock w, np))))"

definition nested_clear_all :: "nested \<Rightarrow> nested" where
  "nested_clear_all np = (clear_tables np)\<lparr>cur_level := LEVELS\<rparr>"

fun map_low :: "nested_format \<Rightarrow> (u64 \<times> u64) list option \<Rightarrow> u64 list \<Rightarrow> 'd mmio_data \<times> nested \<Rightarrow> ('d mmio_data \<times> nested) res" where
  "map_low F sp [] s = Inr s"
| "map_low F sp (gp # gs) s =
     (case s of (w, np) \<Rightarrow>
      let w = mmio_lock w in
      bind_res (mmio_access_page gp None w) (\<lambda>(found, w).
      bind_res (if found then Inr np else map_page F sp w False gp np) (\<lambda>np.
      map_low F sp gs (mmio_unlock w, np))))"

definition nested_map_1mb :: "nested_format \<Rightarrow> (u64 \<times> u64) list option \<Rightarrow> 'd mmio_data \<times> nested \<Rightarrow> ('d mmio_data \<times> nested) res" where
  "nested_map_1mb F sp = (\<lambda>(w, np).
     map_low F sp (map (\<lambda>i. 0x1000 * of_nat i) [0..<0x100]) (w, nested_clear_all np))"

text \<open>
  The search for translations into \<open>start\<close> to \<open>end\<close>.  On the tables of another processor the first
  one found ends it; on those of this processor (\<open>own\<close>) the entries are cleared.  \<open>present\<close> and \<open>large\<close>
  are the tests of an entry.
\<close>

definition entry_hit :: "(u64 \<Rightarrow> bool) \<Rightarrow> u64 \<Rightarrow> u64 \<Rightarrow> u64 \<Rightarrow> u64 \<Rightarrow> bool" where
  "entry_hit large msk start end e =
     (let tmp1 = e AND msk; tmp2 = tmp1 OR 0xFFF;
          tmp1' = (if large e then tmp1 AND NOT 0x1FFFFF else tmp1);
          tmp2' = (if large e then tmp2 OR 0x1FFFFF else tmp2)
      in start \<le> tmp2' \<and> tmp1' \<le> end)"

fun search_entries :: "(u64 \<Rightarrow> bool) \<Rightarrow> (u64 \<Rightarrow> bool) \<Rightarrow> bool \<Rightarrow> ptr list \<Rightarrow> (ptr \<Rightarrow> u64) \<Rightarrow> bool \<times> (ptr \<Rightarrow> u64)" where
  "search_entries present hits own [] T = (False, T)"
| "search_entries present hits own (p # ps) T =
     (if \<not> present (T p) then search_entries present hits own ps T
      else if hits (T p) then (if \<not> own then (True, T) else search_entries present hits own ps (T(p := 0)))
      else search_entries present hits own ps T)"

definition nested_mapsearch :: "(u64 \<Rightarrow> bool) \<Rightarrow> (u64 \<Rightarrow> bool) \<Rightarrow> bool \<Rightarrow> u64 \<Rightarrow> u64 \<Rightarrow> u64 \<Rightarrow> nested \<Rightarrow> bool \<times> nested" where
  "nested_mapsearch present large own msk start end np =
     (case search_entries present (entry_hit large msk start end) own
         (List.product (take (cnt np) (tbl np)) [0..<512]) (tables np) of
        (found, T) \<Rightarrow> (found, np\<lparr>tables := T\<rparr>))"

definition nested_init :: "u64 \<Rightarrow> u64 list \<Rightarrow> (ptr \<Rightarrow> u64) \<Rightarrow> nested" where
  "nested_init root ts T = \<lparr>cnt = 0, cleared = True, ncr3tbl = root, tbl = ts, cur_level = LEVELS, cur_gphys = 0,
     cur_entry = \<lambda>_. (root, 0), tables = zero_page root T, tlb_flushes = 0\<rparr>"

end
