(* ===== verification/Nested_Walk.thy ===== *)
theory Nested_Walk
  imports Nested_Paging
begin

text \<open>
  What the processor makes of the nested page tables, and the locale \<open>nested_paging\<close>: under the laws
  of an entry format, the tables translate a guest address to what \<open>gmm_pass_gp2hp\<close> says or not at
  all, whatever sequence of operations has built them.
\<close>

section \<open>The walk of the processor\<close>

definition ADDR :: u64 where "ADDR = 0x000FFFFFFFFFF000"

text \<open>The index of a guest address in a table of level \<open>l\<close>, and the number of its region there.\<close>

definition idx :: "nat \<Rightarrow> u64 \<Rightarrow> nat" where "idx l g = unat (drop_bit (12 + 9 * l) g AND 0x1FF)"
definition pfx :: "nat \<Rightarrow> u64 \<Rightarrow> nat" where "pfx l g = unat g div 2 ^ (12 + 9 * l)"

text \<open>The level and the value of the entry that ends the walk, and whether all entries allow writing.\<close>

fun hw_walk :: "(u64 \<Rightarrow> bool) \<Rightarrow> (u64 \<Rightarrow> bool) \<Rightarrow> (u64 \<Rightarrow> bool) \<Rightarrow> (ptr \<Rightarrow> u64) \<Rightarrow> u64 \<Rightarrow> nat \<Rightarrow> u64 \<Rightarrow> (nat \<times> u64 \<times> bool) option" where
  "hw_walk pr la wrt T g 0 t = (let e = T (t, idx 0 g) in if pr e then Some (0, e, wrt e) else None)"
| "hw_walk pr la wrt T g (Suc l) t =
     (let e = T (t, idx (Suc l) g) in
      if \<not> pr e then None
      else if la e then Some (Suc l, e, wrt e)
      else map_option (\<lambda>(k, x, w). (k, x, wrt e \<and> w)) (hw_walk pr la wrt T g l (e AND ADDR)))"

text \<open>The host address and the right to write that a guest address gets.\<close>

definition hw_translate :: "(u64 \<Rightarrow> bool) \<Rightarrow> (u64 \<Rightarrow> bool) \<Rightarrow> (u64 \<Rightarrow> bool) \<Rightarrow> nested \<Rightarrow> u64 \<Rightarrow> (u64 \<times> bool) option" where
  "hw_translate pr la wrt np g =
     map_option (\<lambda>(l, e, w). ((e AND ADDR AND NOT (mask (12 + 9 * l))) OR (g AND mask (12 + 9 * l)), w))
       (hw_walk pr la wrt (tables np) g 3 (ncr3tbl np))"

section \<open>Indices and regions\<close>

lemma split_mask: "(x AND NOT m) OR (x AND m) = x" for x :: u64
  by (rule bit_word_eqI) (auto simp: bit_simps)

lemma clear_mask: "x AND m = 0 \<Longrightarrow> x AND NOT m = x" for x :: u64
  using split_mask [of x m] by simp

lemma unat_drop: "unat (drop_bit n x) = unat x div 2 ^ n" for x :: u64
proof -
  have "take_bit LENGTH(64) (unat x) = unat x" by (rule take_bit_nat_eq_self) (rule unsigned_less)
  then show ?thesis by (simp only: unsigned_drop_bit_eq) (simp add: drop_bit_eq_div)
qed

lemma idx_less: "idx l g < 512"
proof -
  have "drop_bit (12 + 9 * l) g AND 0x1FF = take_bit 9 (drop_bit (12 + 9 * l) g)"
    by (simp add: take_bit_eq_mask mask_eq_exp_minus_1)
  then have "idx l g = take_bit 9 (unat (drop_bit (12 + 9 * l) g))" by (simp only: idx_def unsigned_take_bit_eq)
  then show ?thesis by (simp add: take_bit_eq_mod)
qed

lemma idx_pfx: "idx l g = pfx l g mod 512"
proof -
  have "drop_bit (12 + 9 * l) g AND 0x1FF = take_bit 9 (drop_bit (12 + 9 * l) g)"
    by (simp add: take_bit_eq_mask mask_eq_exp_minus_1)
  then have "idx l g = take_bit 9 (unat (drop_bit (12 + 9 * l) g))" by (simp only: idx_def unsigned_take_bit_eq)
  also have "unat (drop_bit (12 + 9 * l) g) = pfx l g" by (simp only: pfx_def unat_drop)
  finally show ?thesis by (simp add: take_bit_eq_mod)
qed

lemma pfx_Suc: "pfx (Suc l) g = pfx l g div 512"
proof -
  have "(2::nat) ^ (12 + 9 * Suc l) = 2 ^ (12 + 9 * l) * 512" by (simp add: power_add)
  then show ?thesis unfolding pfx_def by (simp only: div_mult2_eq)
qed

lemma pfx_split: "pfx (Suc l) g * 512 + idx l g = pfx l g"
  by (simp add: pfx_Suc idx_pfx)

lemma pfx_top: "g < 2 ^ 48 \<Longrightarrow> pfx 4 g = 0"
  by (simp add: pfx_def word_less_nat_alt)

lemma pfx_upwards: "pfx l g = pfx l h \<Longrightarrow> l \<le> k \<Longrightarrow> pfx k g = pfx k h"
  by (induction k) (auto simp: le_Suc_eq pfx_Suc)

lemma same_region: "g AND push_bit (9 * l) 0xFFFFFFFFFFFFF000 = h AND push_bit (9 * l) 0xFFFFFFFFFFFFF000 \<Longrightarrow> pfx l g = pfx l h"
proof -
  assume e: "g AND push_bit (9 * l) 0xFFFFFFFFFFFFF000 = h AND push_bit (9 * l) 0xFFFFFFFFFFFFF000"
  have m: "(0xFFFFFFFFFFFFF000 :: u64) = NOT (mask 12)" by (simp add: mask_eq_exp_minus_1)
  have "drop_bit (12 + 9 * l) g = drop_bit (12 + 9 * l) h"
  proof (rule bit_word_eqI)
    fix i assume "i < LENGTH(64)"
    from e have "bit (g AND push_bit (9 * l) (NOT (mask 12))) (12 + 9 * l + i) = bit (h AND push_bit (9 * l) (NOT (mask 12))) (12 + 9 * l + i)"
      unfolding m by simp
    then show "bit (drop_bit (12 + 9 * l) g) i = bit (drop_bit (12 + 9 * l) h) i"
      by (cases "12 + 9 * l + i < 64") (auto simp: bit_simps dest: bit_imp_le_length)
  qed
  then have "unat (drop_bit (12 + 9 * l) g) = unat (drop_bit (12 + 9 * l) h)" by (rule arg_cong)
  then show ?thesis by (simp only: pfx_def unat_drop)
qed

text \<open>The two ways in which the code computes a pointer into a table.\<close>

lemma fill_index: "unat (drop_bit (9 * Suc l + 3) g AND 0x1FF) = idx l g"
  by (simp add: idx_def algebra_simps)

lemma root_index: "unat (drop_bit (LEVELS * 9 + 3) g AND 0x1FF) = idx 3 g"
  by (simp add: idx_def LEVELS_def)

lemma down_pointer: "ptr_of ((e AND NOT 0xFFF) OR (drop_bit (9 * Suc l) g AND 0xFF8)) = (e AND NOT 0xFFF, idx l g)"
proof -
  let ?x = "(e AND NOT 0xFFF) OR (drop_bit (9 * Suc l) g AND 0xFF8)"
  have m: "(0xFF8 :: u64) = mask 12 AND NOT (mask 3)" "(0xFFF :: u64) = mask 12" "(0x1FF :: u64) = mask 9"
    by (simp_all add: mask_eq_exp_minus_1)
  have a: "?x AND NOT 0xFFF = e AND NOT 0xFFF" unfolding m by (rule bit_word_eqI) (auto simp: bit_simps)
  have b: "drop_bit 3 (?x AND 0xFFF) = drop_bit (12 + 9 * l) g AND 0x1FF"
    unfolding m by (rule bit_word_eqI) (auto simp: bit_simps ac_simps)
  have "unat (?x AND 0xFFF) div 8 = unat (drop_bit 3 (?x AND 0xFFF))"
    by (simp only: unat_drop) simp
  then show ?thesis by (simp only: ptr_of_def a b idx_def)
qed

section \<open>Attribute bits of an entry\<close>

lemma attr_small: "h AND ADDR = h \<Longrightarrow> a AND NOT 0xFFF = 0 \<Longrightarrow> (h OR a) AND ADDR = h \<and> (h OR a) AND NOT 0xFFF = h"
  for h a :: u64
proof -
  assume a: "h AND ADDR = h" "a AND NOT 0xFFF = 0"
  have m: "ADDR = mask 52 AND NOT (mask 12)" "(0xFFF :: u64) = mask 12" by (simp_all add: ADDR_def mask_eq_exp_minus_1)
  have b: "bit a i \<Longrightarrow> i < 12" for i using arg_cong [OF a(2), of "\<lambda>x. bit x i"] unfolding m by (auto simp: bit_simps dest: bit_imp_le_length)
  have c: "bit h i \<Longrightarrow> 12 \<le> i" for i using arg_cong [OF a(1), of "\<lambda>x. bit x i"] unfolding m by (auto simp: bit_simps)
  have "(h OR a) AND ADDR = (h AND ADDR) OR (a AND ADDR)" by (rule bit.conj_disj_distrib2)
  moreover have "a AND ADDR = 0" unfolding m by (rule bit_word_eqI) (auto simp: bit_simps dest: b)
  moreover have "(h OR a) AND NOT 0xFFF = h" unfolding m by (rule bit_word_eqI) (auto simp: bit_simps dest: b c)
  ultimately show ?thesis using a(1) by simp
qed

lemma attr_bit: "h AND ADDR = h \<Longrightarrow> m AND NOT 0xFFF = 0 \<Longrightarrow> any_bit (h OR a) m = any_bit a m"
  for h a m :: u64
proof -
  assume a: "h AND ADDR = h" "m AND NOT 0xFFF = 0"
  have m: "ADDR = mask 52 AND NOT (mask 12)" "(0xFFF :: u64) = mask 12" by (simp_all add: ADDR_def mask_eq_exp_minus_1)
  have b: "bit m i \<Longrightarrow> i < 12" for i using arg_cong [OF a(2), of "\<lambda>x. bit x i"] unfolding m by (auto simp: bit_simps dest: bit_imp_le_length)
  have c: "bit h i \<Longrightarrow> 12 \<le> i" for i using arg_cong [OF a(1), of "\<lambda>x. bit x i"] unfolding m by (auto simp: bit_simps)
  have "(h OR a) AND m = a AND m"
  proof (rule bit_word_eqI)
    fix i show "bit ((h OR a) AND m) i = bit (a AND m) i" using b [of i] c [of i] by (auto simp: bit_simps)
  qed
  then show ?thesis by (simp add: any_bit_def)
qed

lemma any_bit_OR: "any_bit (a OR b) m \<longleftrightarrow> any_bit a m \<or> any_bit b m" for a b m :: u64
  unfolding any_bit_def bit.conj_disj_distrib2 by (simp add: or_eq_0_iff)

section \<open>The invariant of the tables\<close>

text \<open>What the placement of the VMM (\<^verbatim>\<open>find_vmm_phys\<close>) and the page allocator guarantee.\<close>

definition nested_world :: "'a world_scheme \<Rightarrow> bool" where
  "nested_world w \<longleftrightarrow> vmm_placed w \<and> unat (vmm_start_phys w) mod 0x400000 = 0 \<and>
     in_vmm w (phys_blank w) \<and> phys_blank w AND ADDR = phys_blank w"

text \<open>
  An entry that ends the walk, for region \<open>n\<close> of level \<open>l\<close>: it translates as \<open>gmm_pass_gp2hp\<close> does, and
  all its addresses are in \<open>Q\<close>, the guest addresses that may be accessed without an exit.
\<close>

definition leaf_ok :: "nested_format \<Rightarrow> 'a world_scheme \<Rightarrow> u64 set \<Rightarrow> nat \<Rightarrow> nat \<Rightarrow> u64 \<Rightarrow> bool" where
  "leaf_ok F w Q l n e \<longleftrightarrow> (\<forall>g. g < 2 ^ 48 \<and> pfx l g = n \<longrightarrow> g \<in> Q) \<and>
     (\<exists>c g. g < 2 ^ 48 \<and> pfx l g = n \<and>
       (l = 0 \<and> e = fm_page F c g (fst (gmm_pass_gp2hp w g) AND NOT 0xFFF) (snd (gmm_pass_gp2hp w g)) \<or>
        l = 1 \<and> g AND 0x1FFFFF = 0 \<and> \<not> phys_in_vmm (vmm_start_phys w) g \<and> e = fm_large F c g g))"

text \<open>
  \<open>own\<close> gives each table in use its level and its region; an entry is empty, ends the walk, or
  leads to the table that owns its region.
\<close>

definition tables_in_use :: "nested \<Rightarrow> u64 set" where
  "tables_in_use np = insert (ncr3tbl np) (set (take (cnt np) (tbl np)))"

definition entry_ok :: "nested_format \<Rightarrow> 'a world_scheme \<Rightarrow> u64 set \<Rightarrow> (u64 \<Rightarrow> nat \<times> nat) \<Rightarrow> u64 set \<Rightarrow> nat \<Rightarrow> nat \<Rightarrow> u64 \<Rightarrow> bool" where
  "entry_ok F w Q own lv l n e \<longleftrightarrow> e = 0 \<or> leaf_ok F w Q l n e \<or> (\<exists>t\<in>lv. 0 < l \<and> e = fm_link F t \<and> own t = (l - 1, n))"

definition pool_ok :: "'a world_scheme \<Rightarrow> nested \<Rightarrow> bool" where
  "pool_ok w np \<longleftrightarrow> length (tbl np) = NUM_OF_TBL \<and> distinct (ncr3tbl np # tbl np) \<and> cnt np \<le> NUM_OF_TBL \<and>
     (\<forall>t\<in>set (ncr3tbl np # tbl np). t AND ADDR = t \<and> in_vmm w t \<and> t \<noteq> phys_blank w)"

definition tables_ok :: "nested_format \<Rightarrow> 'a world_scheme \<Rightarrow> u64 set \<Rightarrow> (u64 \<Rightarrow> nat \<times> nat) \<Rightarrow> nested \<Rightarrow> bool" where
  "tables_ok F w Q own np \<longleftrightarrow> pool_ok w np \<and> own (ncr3tbl np) = (3, 0) \<and>
     (\<forall>t\<in>tables_in_use np. \<forall>j<512. entry_ok F w Q own (tables_in_use np) (fst (own t)) (snd (own t) * 512 + j) (tables np (t, j)))"

text \<open>The table of level \<open>l\<close> that the walk for \<open>g\<close> comes to.\<close>

inductive on_path :: "nested_format \<Rightarrow> (ptr \<Rightarrow> u64) \<Rightarrow> u64 \<Rightarrow> u64 \<Rightarrow> nat \<Rightarrow> u64 \<Rightarrow> bool" for F T root g where
  root: "on_path F T root g 3 root"
| down: "on_path F T root g (Suc l) t \<Longrightarrow> T (t, idx (Suc l) g) = fm_link F t' \<Longrightarrow> t' AND ADDR = t' \<Longrightarrow> on_path F T root g l t'"

inductive_cases on_path_downE: "on_path F T root g l t"

definition np_cursor_ok :: "nested_format \<Rightarrow> nested \<Rightarrow> bool" where
  "np_cursor_ok F np \<longleftrightarrow> cur_level np \<le> 4 \<and> cur_gphys np < 2 ^ 48 \<and>
     (\<forall>k<4. cur_level np \<le> k \<longrightarrow>
        (\<exists>t. cur_entry np k = (t, idx k (cur_gphys np)) \<and> on_path F (tables np) (ncr3tbl np) (cur_gphys np) k t))"

definition nested_inv :: "nested_format \<Rightarrow> 'a world_scheme \<Rightarrow> u64 set \<Rightarrow> nested \<Rightarrow> bool" where
  "nested_inv F w Q np \<longleftrightarrow> (\<exists>own. tables_ok F w Q own np) \<and> np_cursor_ok F np"

lemma on_path_level: "on_path F T root g l t \<Longrightarrow> l \<le> 3"
  by (induction rule: on_path.induct) auto

lemma on_path_cong:
  assumes "on_path F T root g l t" "\<And>k. l < k \<Longrightarrow> idx k h = idx k g"
  shows "on_path F T root h l t"
  using assms
proof (induction rule: on_path.induct)
  case (down l t t')
  then have "on_path F T root h (Suc l) t" "idx (Suc l) h = idx (Suc l) g" by auto
  then show ?case using down(2,3) on_path.down by metis
qed (rule on_path.root)

lemma on_path_frame:
  assumes "on_path F T root g l t" "\<And>k s. l < k \<Longrightarrow> on_path F T root g k s \<Longrightarrow> T' (s, idx k g) = T (s, idx k g)"
  shows "on_path F T' root g l t"
  using assms
proof (induction rule: on_path.induct)
  case (down l t t')
  have "on_path F T' root g (Suc l) t" by (rule down.IH) (simp add: down.prems)
  moreover have "T' (t, idx (Suc l) g) = fm_link F t'" using down.prems [OF _ down.hyps(1)] down.hyps(2) by simp
  ultimately show ?case using down.hyps(3) by (rule on_path.down)
qed (rule on_path.root)

lemma pool_fresh:
  assumes "pool_ok w np" "cnt np < NUM_OF_TBL"
  shows "tbl np ! cnt np \<notin> tables_in_use np" "tbl np ! cnt np AND ADDR = tbl np ! cnt np" "in_vmm w (tbl np ! cnt np)"
proof -
  have n: "cnt np < length (tbl np)" using assms by (simp add: pool_ok_def)
  then have "tbl np ! cnt np \<in> set (tbl np)" by simp
  then show "tbl np ! cnt np AND ADDR = tbl np ! cnt np" "in_vmm w (tbl np ! cnt np)" using assms(1) by (auto simp: pool_ok_def)
  have "distinct (tbl np)" "tbl np ! cnt np \<noteq> ncr3tbl np" using assms(1) nth_mem [OF n] by (auto simp: pool_ok_def)
  then show "tbl np ! cnt np \<notin> tables_in_use np" using n by (auto simp: tables_in_use_def in_set_conv_nth nth_eq_iff_index_eq)
qed

lemma tables_in_use_Suc:
  assumes "cnt np < length (tbl np)"
  shows "tables_in_use (np\<lparr>cnt := cnt np + 1, tables := T\<rparr>) = insert (tbl np ! cnt np) (tables_in_use np)"
  using assms by (auto simp: tables_in_use_def take_Suc_conv_app_nth)

section \<open>Entry formats\<close>

text \<open>
  The laws of an entry format: \<open>pr\<close>, \<open>la\<close> and \<open>wrt\<close> are the processor's tests of an entry.  A link
  leads to its table, a page entry has the host address and the write permission it was made with,
  and the entry of a 2 MiB page is one both for the processor and for \<open>cur_move\<close>.
\<close>

locale nested_paging =
  fixes F :: nested_format and pr la wrt :: "u64 \<Rightarrow> bool"
  assumes stop_0: "fm_stop F 0" and absent_0: "\<not> pr 0"
    and link: "t AND ADDR = t \<Longrightarrow> \<not> fm_stop F (fm_link F t) \<and> pr (fm_link F t) \<and> \<not> la (fm_link F t) \<and> wrt (fm_link F t) \<and>
      fm_link F t AND NOT 0xFFF = t \<and> fm_link F t AND ADDR = t"
    and small: "h AND ADDR = h \<Longrightarrow> pr (fm_page F c g h ro) \<and> fm_page F c g h ro AND ADDR = h \<and> wrt (fm_page F c g h ro) = (\<not> ro)"
    and large: "h AND ADDR = h \<Longrightarrow> h AND 0x1FFFFF = 0 \<Longrightarrow> fm_stop F (fm_large F c g h) \<and> pr (fm_large F c g h) \<and>
      la (fm_large F c g h) \<and> wrt (fm_large F c g h) \<and> fm_large F c g h AND ADDR AND NOT 0x1FFFFF = h"
begin

lemma link_inj: "t AND ADDR = t \<Longrightarrow> s AND ADDR = s \<Longrightarrow> fm_link F t = fm_link F s \<Longrightarrow> t = s"
  using link by metis

lemma low_addr: "g < 2 ^ 48 \<Longrightarrow> g AND 0x1FFFFF = 0 \<Longrightarrow> g AND ADDR = g"
proof -
  assume a: "g < 2 ^ 48" "g AND 0x1FFFFF = 0"
  have m: "ADDR = mask 52 AND NOT (mask 12)" "(0x1FFFFF :: u64) = mask 21"
    by (simp_all add: ADDR_def mask_eq_exp_minus_1)
  have "g AND mask 48 = g" by (rule less_mask_eq [OF a(1)])
  then have "bit g i \<Longrightarrow> i < 48" for i by (metis bit_and_iff bit_mask_iff)
  moreover have "bit g i \<Longrightarrow> 21 \<le> i" for i
    using arg_cong [OF a(2), of "\<lambda>x. bit x i"] unfolding m by (auto simp: bit_simps dest: bit_imp_le_length)
  ultimately show ?thesis unfolding m by (intro bit_word_eqI) (force simp: bit_simps)
qed

lemma large_stop: "leaf_ok F w Q (Suc l) n e \<Longrightarrow> fm_stop F e"
  using large low_addr by (auto simp: leaf_ok_def)

lemma on_path_own:
  assumes "tables_ok F w Q own np" "g < 2 ^ 48" "on_path F (tables np) (ncr3tbl np) g l t"
  shows "t \<in> tables_in_use np \<and> own t = (l, pfx (Suc l) g)"
  using assms(3)
proof (induction rule: on_path.induct)
  case root
  have "pfx (Suc 3) g = 0" using pfx_top [OF assms(2)] by (simp add: eval_nat_numeral)
  then show ?case using assms(1) by (simp add: tables_ok_def tables_in_use_def)
next
  case (down l t t')
  from down.IH have t: "t \<in> tables_in_use np" "own t = (Suc l, pfx (Suc (Suc l)) g)" by auto
  have p: "\<forall>t\<in>tables_in_use np. t AND ADDR = t"
    using assms(1) by (auto simp: tables_ok_def pool_ok_def tables_in_use_def dest: in_set_takeD)
  let ?e = "tables np (t, idx (Suc l) g)"
  have "entry_ok F w Q own (tables_in_use np) (Suc l) (pfx (Suc l) g) ?e"
    using assms(1) t idx_less [of "Suc l" g] pfx_split [of "Suc l" g] by (fastforce simp: tables_ok_def)
  moreover have "\<not> fm_stop F ?e" using down.hyps link by simp
  ultimately obtain s where "s \<in> tables_in_use np" "?e = fm_link F s" "own s = (l, pfx (Suc l) g)"
    using stop_0 by (auto simp: entry_ok_def dest: large_stop)
  then show ?case using link_inj down.hyps p by metis
qed

lemma on_path_walk:
  assumes "on_path F T root g l t"
  shows "hw_walk pr la wrt T g 3 root = hw_walk pr la wrt T g l t"
  using assms
proof (induction rule: on_path.induct)
  case (down l t t')
  then show ?case using link [of t'] by (simp add: case_prod_unfold option.map_id [unfolded id_def])
qed simp

text \<open>What the entry for \<open>g\<close> in a table on its path may be.\<close>

lemma path_entry:
  assumes "tables_ok F w Q own np" "g < 2 ^ 48" "on_path F (tables np) (ncr3tbl np) g l t"
  obtains (empty) "tables np (t, idx l g) = 0"
    | (leaf) "leaf_ok F w Q l (pfx l g) (tables np (t, idx l g))" "0 < l \<Longrightarrow> fm_stop F (tables np (t, idx l g))"
    | (table) k t' where "l = Suc k" "tables np (t, idx l g) = fm_link F t'" "t' AND ADDR = t'" "on_path F (tables np) (ncr3tbl np) g k t'"
proof -
  have t: "t \<in> tables_in_use np" "own t = (l, pfx (Suc l) g)" using on_path_own [OF assms] by auto
  have p: "\<forall>t\<in>tables_in_use np. t AND ADDR = t"
    using assms(1) by (auto simp: tables_ok_def pool_ok_def tables_in_use_def dest: in_set_takeD)
  let ?e = "tables np (t, idx l g)"
  have "entry_ok F w Q own (tables_in_use np) l (pfx l g) ?e"
    using assms(1) t idx_less [of l g] pfx_split [of l g] by (fastforce simp: tables_ok_def)
  then consider "?e = 0" | "leaf_ok F w Q l (pfx l g) ?e" | s where "s \<in> tables_in_use np" "0 < l" "?e = fm_link F s"
    by (auto simp: entry_ok_def)
  then show thesis
  proof cases
    case 1 then show ?thesis by (rule empty)
  next
    case 2
    then show ?thesis by (cases l) (auto intro: leaf dest: large_stop)
  next
    case 3
    then obtain k where k: "l = Suc k" by (cases l) auto
    then show ?thesis using table [OF k 3(3)] p 3 on_path.down [OF assms(3) [unfolded k]] by auto
  qed
qed

lemma cur_up_ge: "l \<le> cur_up g cg m l"
proof (induction g cg m l rule: cur_up.induct)
  case (1 g cg m l)
  then show ?case by (subst cur_up.simps) auto
qed

lemma cur_up_region:
  assumes "m = push_bit (9 * l) 0xFFFFFFFFFFFFF000" "l \<le> 4"
  shows "cur_up g cg m l \<le> 4 \<and> (cur_up g cg m l < 4 \<longrightarrow> pfx (cur_up g cg m l) g = pfx (cur_up g cg m l) cg)"
  using assms
proof (induction g cg m l rule: cur_up.induct)
  case (1 g cg m l)
  show ?case
  proof (cases "l < LEVELS \<and> g AND m \<noteq> cg AND m")
    case True
    have "push_bit 9 m = push_bit (9 * (l + 1)) 0xFFFFFFFFFFFFF000" using "1.prems"(1) by (simp add: push_bit_push_bit)
    then show ?thesis using "1.IH" [OF True] True by (subst (1 2 3 4) cur_up.simps) (simp add: LEVELS_def)
  next
    case False
    then have "cur_up g cg m l = l" by (subst cur_up.simps) (simp only: False if_False)
    then show ?thesis using False "1.prems" same_region [of g l cg] by (auto simp: LEVELS_def)
  qed
qed

text \<open>The descent stays on the path and stops at an entry that is no link.\<close>

lemma cur_down_path:
  assumes "tables_ok F w Q own np" "g < 2 ^ 48" "cur_down (fm_stop F) (tables np) g l p entry = (k, entry')"
    "l < 4" "p = (t, idx l g)" "entry l = p" "on_path F (tables np) (ncr3tbl np) g l t"
    "\<forall>j<4. l \<le> j \<longrightarrow> (\<exists>t. entry j = (t, idx j g) \<and> on_path F (tables np) (ncr3tbl np) g j t)"
  shows "k \<le> l \<and> (\<forall>j<4. k \<le> j \<longrightarrow> (\<exists>t. entry' j = (t, idx j g) \<and> on_path F (tables np) (ncr3tbl np) g j t)) \<and>
    (0 < k \<longrightarrow> fm_stop F (tables np (entry' k)))"
  using assms(3-8)
proof (induction l arbitrary: p entry t)
  case (Suc l)
  show ?case
  proof (cases "fm_stop F (tables np p)")
    case True
    then show ?thesis using Suc.prems by auto
  next
    case False
    let ?e = "tables np (t, idx (Suc l) g)"
    obtain t' where t': "?e = fm_link F t'" "t' AND ADDR = t'" "on_path F (tables np) (ncr3tbl np) g l t'"
      using path_entry [OF assms(1,2) Suc.prems(5)] False stop_0 Suc.prems(3) by (metis Suc_inject zero_less_Suc)
    have a: "?e AND NOT 0xFFF = t'" using link t' by metis
    let ?p = "(t', idx l g)"
    have "cur_down (fm_stop F) (tables np) g l ?p (entry(l := ?p)) = (k, entry')"
      using Suc.prems(1) by (simp only: cur_down.simps Let_def Suc.prems(3) down_pointer a False [unfolded Suc.prems(3)] if_False)
    moreover have "\<forall>j<4. l \<le> j \<longrightarrow> (\<exists>t. (entry(l := ?p)) j = (t, idx j g) \<and> on_path F (tables np) (ncr3tbl np) g j t)"
      using Suc.prems(6) t'(3) by (auto simp: Suc_le_eq)
    ultimately have "k \<le> l \<and> (\<forall>j<4. k \<le> j \<longrightarrow> (\<exists>t. entry' j = (t, idx j g) \<and> on_path F (tables np) (ncr3tbl np) g j t)) \<and>
        (0 < k \<longrightarrow> fm_stop F (tables np (entry' k)))"
      using Suc.prems(2) t'(3) by (intro Suc.IH [of ?p "entry(l := ?p)" t']) (assumption | simp)+
    then show ?thesis by simp
  qed
qed auto

definition moved :: "u64 \<Rightarrow> nested \<Rightarrow> nested \<Rightarrow> bool" where
  "moved g np np' \<longleftrightarrow> cur_gphys np' = g \<and> tables np' = tables np \<and> ncr3tbl np' = ncr3tbl np \<and> tbl np' = tbl np \<and>
     cnt np' = cnt np \<and> cleared np' = cleared np \<and> cur_level np' \<le> 3 \<and>
     (0 < cur_level np' \<longrightarrow> fm_stop F (tables np' (cur_entry np' (cur_level np'))))"

lemma tables_ok_cong:
  assumes "tables np' = tables np" "ncr3tbl np' = ncr3tbl np" "tbl np' = tbl np" "cnt np' = cnt np"
  shows "tables_ok F w Q own np' = tables_ok F w Q own np"
  using assms by (simp add: tables_ok_def pool_ok_def tables_in_use_def)

lemma cur_move_ok:
  assumes "tables_ok F w Q own np" "np_cursor_ok F np" "g < 2 ^ 48"
  shows "moved g np (cur_move F g np) \<and> tables_ok F w Q own (cur_move F g np) \<and> np_cursor_ok F (cur_move F g np)"
proof -
  define m :: u64 where "m = push_bit (9 * cur_level np) 0xFFFFFFFFFFFFF000"
  define l where "l = cur_up g (cur_gphys np) m (cur_level np)"
  have m: "(if cur_level np > 0 then push_bit (9 * cur_level np) 0xFFFFFFFFFFFFF000 else 0xFFFFFFFFFFFFF000) = m"
    by (simp add: m_def)
  have l: "cur_level np \<le> l" "l \<le> 4" "l < 4 \<Longrightarrow> pfx l g = pfx l (cur_gphys np)"
    using cur_up_ge cur_up_region [OF m_def, of g "cur_gphys np"] assms(2) by (auto simp: l_def np_cursor_ok_def)
  have ent: "\<exists>t. cur_entry np k = (t, idx k g) \<and> on_path F (tables np) (ncr3tbl np) g k t" if k: "k < 4" "l \<le> k" for k
  proof -
    have s: "idx j g = idx j (cur_gphys np)" if "l \<le> j" for j
      using pfx_upwards [OF l(3) that] k by (simp add: idx_pfx)
    obtain t where t: "cur_entry np k = (t, idx k (cur_gphys np))" "on_path F (tables np) (ncr3tbl np) (cur_gphys np) k t"
      using assms(2) k l(1) unfolding np_cursor_ok_def by (metis order_trans)
    have "on_path F (tables np) (ncr3tbl np) g k t" by (rule on_path_cong [OF t(2)]) (use s k in simp)
    then show ?thesis using t(1) s k(2) by auto
  qed
  show ?thesis
  proof (cases "l = 0")
    case True
    then have "cur_move F g np = np\<lparr>cur_level := 0, cur_gphys := g\<rparr>"
      by (simp add: cur_move_def Let_def m l_def cong: if_cong)
    then show ?thesis using assms(1,3) ent True by (auto simp: moved_def np_cursor_ok_def tables_ok_def pool_ok_def tables_in_use_def)
  next
    case False
    define p where "p = (if LEVELS \<le> l then (ncr3tbl np, idx 3 g) else cur_entry np l)"
    define en where "en = (if LEVELS \<le> l then (cur_entry np)(3 := p) else cur_entry np)"
    define l' where "l' = (if LEVELS \<le> l then 3 else l)"
    obtain k en' where d: "cur_down (fm_stop F) (tables np) g l' p en = (k, en')" by (cases "cur_down (fm_stop F) (tables np) g l' p en")
    have r: "cur_move F g np = np\<lparr>cur_level := k, cur_gphys := g, cur_entry := en'\<rparr>"
      using False d unfolding cur_move_def Let_def m l_def [symmetric] root_index p_def en_def l'_def
      by (auto simp: LEVELS_def split: if_splits)
    have e: "\<forall>j<4. l' \<le> j \<longrightarrow> (\<exists>t. en j = (t, idx j g) \<and> on_path F (tables np) (ncr3tbl np) g j t)"
    proof (cases "LEVELS \<le> l")
      case True
      have "j = 3" if "j < 4" "l' \<le> j" for j using that True by (simp add: l'_def)
      then show ?thesis using True on_path.root by (auto simp: en_def p_def)
    next
      case F: False
      then show ?thesis using ent by (simp add: en_def l'_def)
    qed
    have l': "l' < 4" using l(2) by (auto simp: l'_def LEVELS_def)
    obtain t where t: "en l' = (t, idx l' g)" "on_path F (tables np) (ncr3tbl np) g l' t" using e l' by auto
    have p: "en l' = p" by (auto simp: en_def l'_def p_def)
    note c = cur_down_path [OF assms(1,3) d l' _ p t(2) e]
    show ?thesis unfolding r using c t(1) p l' assms(1,3) tables_ok_cong [of "np\<lparr>cur_level := k, cur_gphys := g, cur_entry := en'\<rparr>" np]
      by (auto simp: moved_def np_cursor_ok_def)
  qed
qed

text \<open>Paths survive a change of entries that are no links, and of tables not in use or of the last level.\<close>

lemma path_keeps:
  assumes "tables_ok F w Q own np" "g < 2 ^ 48" "on_path F (tables np) (ncr3tbl np) g k s"
    "\<And>p. T' p \<noteq> tables np p \<Longrightarrow> fm_stop F (tables np p) \<or> fst p \<notin> tables_in_use np \<or> fst (own (fst p)) = 0"
  shows "on_path F T' (ncr3tbl np) g k s"
  using assms(3)
proof (induction rule: on_path.induct)
  case (down l t t')
  have "t \<in> tables_in_use np" "own t = (Suc l, pfx (Suc (Suc l)) g)" using on_path_own [OF assms(1,2) down.hyps(1)] by auto
  moreover have "\<not> fm_stop F (tables np (t, idx (Suc l) g))" using down.hyps(2,3) link by simp
  ultimately have "T' (t, idx (Suc l) g) = fm_link F t'" using assms(4) [of "(t, idx (Suc l) g)"] down.hyps(2) by auto
  then show ?case using down.IH down.hyps(3) on_path.down by blast
qed (rule on_path.root)

definition keeps_paths :: "nested \<Rightarrow> nested \<Rightarrow> bool" where
  "keeps_paths np np' \<longleftrightarrow> ncr3tbl np' = ncr3tbl np \<and>
     (\<forall>g k s. g < 2 ^ 48 \<longrightarrow> on_path F (tables np) (ncr3tbl np) g k s \<longrightarrow> on_path F (tables np') (ncr3tbl np) g k s) \<and>
     (\<forall>g s. g < 2 ^ 48 \<longrightarrow> on_path F (tables np) (ncr3tbl np) g 0 s \<longrightarrow> tables np (s, idx 0 g) \<noteq> 0 \<longrightarrow> tables np' (s, idx 0 g) \<noteq> 0)"

lemma keeps_pathsI:
  assumes "tables_ok F w Q own np" "ncr3tbl np' = ncr3tbl np"
    "\<And>p. tables np' p \<noteq> tables np p \<Longrightarrow>
      fm_stop F (tables np p) \<and> fst (own (fst p)) \<noteq> 0 \<or> fst p \<notin> tables_in_use np \<or> fst (own (fst p)) = 0 \<and> tables np' p \<noteq> 0"
  shows "keeps_paths np np'"
  unfolding keeps_paths_def
proof (intro conjI allI impI)
  fix g k s assume g: "g < 2 ^ 48" "on_path F (tables np) (ncr3tbl np) g k s"
  show "on_path F (tables np') (ncr3tbl np) g k s"
  proof (rule path_keeps [OF assms(1) g])
    fix p assume "tables np' p \<noteq> tables np p"
    then show "fm_stop F (tables np p) \<or> fst p \<notin> tables_in_use np \<or> fst (own (fst p)) = 0" using assms(3) [of p] by auto
  qed
next
  fix g s assume g: "g < 2 ^ 48" "on_path F (tables np) (ncr3tbl np) g 0 s" "tables np (s, idx 0 g) \<noteq> 0"
  have "s \<in> tables_in_use np" "own s = (0, pfx (Suc 0) g)" using on_path_own [OF assms(1) g(1,2)] by auto
  then show "tables np' (s, idx 0 g) \<noteq> 0"
    using assms(3) [of "(s, idx 0 g)"] g(3) by (cases "tables np' (s, idx 0 g) = tables np (s, idx 0 g)") auto
qed (rule assms(2))

lemma keeps_paths_trans: "keeps_paths a b \<Longrightarrow> keeps_paths b c \<Longrightarrow> keeps_paths a c"
  by (simp add: keeps_paths_def)

lemma write_ok:
  assumes "tables_ok F w Q own np" "g < 2 ^ 48" "on_path F (tables np) (ncr3tbl np) g l t"
    "leaf_ok F w Q l (pfx l g) e" "0 < l \<Longrightarrow> fm_stop F (tables np (t, idx l g))" "e \<noteq> 0"
  shows "tables_ok F w Q own (np\<lparr>tables := (tables np)((t, idx l g) := e)\<rparr>) \<and>
    keeps_paths np (np\<lparr>tables := (tables np)((t, idx l g) := e)\<rparr>)"
proof -
  have t: "t \<in> tables_in_use np" "own t = (l, pfx (Suc l) g)" using on_path_own [OF assms(1-3)] by auto
  have "entry_ok F w Q own (tables_in_use np) l (pfx (Suc l) g * 512 + idx l g) e"
    using assms(4) by (simp add: entry_ok_def pfx_split)
  then have "tables_ok F w Q own (np\<lparr>tables := (tables np)((t, idx l g) := e)\<rparr>)"
    using assms(1) t by (auto simp: tables_ok_def pool_ok_def tables_in_use_def)
  moreover have "keeps_paths np (np\<lparr>tables := (tables np)((t, idx l g) := e)\<rparr>)"
    by (rule keeps_pathsI [OF assms(1)]) (use assms(5,6) t(2) in \<open>auto split: if_splits\<close>)
  ultimately show ?thesis by simp
qed

text \<open>One turn of the loop that allocates tables.\<close>

lemma fill_step_ok:
  assumes "tables_ok F w Q own np" "g < 2 ^ 48" "on_path F (tables np) (ncr3tbl np) g (Suc l) t"
    "fm_stop F (tables np (t, idx (Suc l) g))" "cnt np < NUM_OF_TBL"
  defines "s \<equiv> tbl np ! cnt np"
  defines "np' \<equiv> np\<lparr>cnt := cnt np + 1, tables := zero_page s ((tables np)((t, idx (Suc l) g) := fm_link F s))\<rparr>"
  shows "tables_ok F w Q (own(s := (l, pfx (Suc l) g))) np' \<and> keeps_paths np np' \<and>
    on_path F (tables np') (ncr3tbl np') g l s \<and> (\<forall>j. tables np' (s, j) = 0)"
proof -
  let ?own = "own(s := (l, pfx (Suc l) g))"
  have p: "pool_ok w np" using assms(1) by (simp add: tables_ok_def)
  note s = pool_fresh [OF p assms(5), folded s_def]
  have n: "cnt np < length (tbl np)" using p assms(5) by (simp add: pool_ok_def)
  have t: "t \<in> tables_in_use np" "own t = (Suc l, pfx (Suc (Suc l)) g)" using on_path_own [OF assms(1-3)] by auto
  then have ts: "t \<noteq> s" using s(1) by auto
  have l: "tables_in_use np' = insert s (tables_in_use np)" unfolding np'_def s_def by (rule tables_in_use_Suc [OF n])
  have r: "ncr3tbl np \<noteq> s" using s(1) by (auto simp: tables_in_use_def)
  have z: "tables np' (s, j) = 0" for j by (simp add: np'_def zero_page_def)
  have old: "tables np' (u, j) = tables np (u, j)" if "u \<noteq> s" "(u, j) \<noteq> (t, idx (Suc l) g)" for u j
    using that by (auto simp: np'_def zero_page_def)
  have lk: "tables np' (t, idx (Suc l) g) = fm_link F s" using ts by (simp add: np'_def zero_page_def)
  have e: "entry_ok F w Q ?own (tables_in_use np') (fst (?own u)) (snd (?own u) * 512 + j) (tables np' (u, j))"
    if u: "u \<in> tables_in_use np'" "j < 512" for u j
  proof -
    consider "u = s" | "u \<noteq> s" "(u, j) = (t, idx (Suc l) g)" | "u \<noteq> s" "(u, j) \<noteq> (t, idx (Suc l) g)" by blast
    then show ?thesis
    proof cases
      case 1 then show ?thesis using z by (simp add: entry_ok_def)
    next
      case 2
      have "snd (?own u) * 512 + j = pfx (Suc l) g" "fst (?own u) = Suc l" using 2 ts t(2) by (simp_all add: pfx_split)
      then show ?thesis using 2 lk l by (simp add: entry_ok_def)
    next
      case 3
      have "u \<in> tables_in_use np" using u(1) l 3(1) by simp
      then have "entry_ok F w Q own (tables_in_use np) (fst (own u)) (snd (own u) * 512 + j) (tables np (u, j))"
        using assms(1) u(2) by (simp add: tables_ok_def)
      then show ?thesis using old [OF 3] 3(1) l s(1) unfolding entry_ok_def by (metis fun_upd_other insertCI)
    qed
  qed
  have "pool_ok w np'" using p assms(5) by (auto simp: np'_def pool_ok_def)
  moreover have "?own (ncr3tbl np') = (3, 0)" using assms(1) r by (simp add: np'_def tables_ok_def)
  ultimately have ok: "tables_ok F w Q ?own np'" using e by (simp add: tables_ok_def)
  have k: "keeps_paths np np'"
  proof (rule keeps_pathsI [OF assms(1)])
    fix p assume "tables np' p \<noteq> tables np p"
    then show "fm_stop F (tables np p) \<and> fst (own (fst p)) \<noteq> 0 \<or> fst p \<notin> tables_in_use np \<or> fst (own (fst p)) = 0 \<and> tables np' p \<noteq> 0"
      using old [of "fst p" "snd p"] s(1) assms(4) t(2)
      by (cases "fst p = s"; cases "p = (t, idx (Suc l) g)") auto
  qed (simp add: np'_def)
  have "on_path F (tables np') (ncr3tbl np) g (Suc l) t" using k assms(2,3) by (simp add: keeps_paths_def)
  then have "on_path F (tables np') (ncr3tbl np) g l s" using lk s(2) by (rule on_path.down)
  moreover have "ncr3tbl np' = ncr3tbl np" by (simp add: np'_def)
  ultimately show ?thesis using ok k z by simp
qed

lemma fill_loop_ok:
  assumes "tables_ok F w Q own np" "g < 2 ^ 48" "on_path F (tables np) (ncr3tbl np) g l t" "level \<le> l"
    "cnt np + l \<le> NUM_OF_TBL + level" "0 < l \<Longrightarrow> fm_stop F (tables np (t, idx l g))"
  shows "\<exists>t' T' own'. fill_loop F g level l (t, idx l g) np = Inr ((t', idx level g), np\<lparr>tables := T', cnt := cnt np + (l - level)\<rparr>) \<and>
    tables_ok F w Q own' (np\<lparr>tables := T', cnt := cnt np + (l - level)\<rparr>) \<and>
    keeps_paths np (np\<lparr>tables := T'\<rparr>) \<and> on_path F T' (ncr3tbl np) g level t' \<and> (0 < level \<longrightarrow> fm_stop F (T' (t', idx level g)))"
  using assms(1,3-6)
proof (induction l arbitrary: own np t)
  case 0
  have "np\<lparr>tables := tables np, cnt := cnt np\<rparr> = np" "np\<lparr>tables := tables np\<rparr> = np" by simp_all
  then show ?case using 0 by (intro exI [of _ t] exI [of _ "tables np"] exI [of _ own]) (simp add: keeps_paths_def)
next
  case (Suc l)
  show ?case
  proof (cases "level = Suc l")
    case True
    have "np\<lparr>tables := tables np, cnt := cnt np\<rparr> = np" "np\<lparr>tables := tables np\<rparr> = np" by simp_all
    then show ?thesis using Suc.prems True
      by (intro exI [of _ t] exI [of _ "tables np"] exI [of _ own]) (simp add: keeps_paths_def)
  next
    case False
    let ?s = "tbl np ! cnt np"
    let ?T = "zero_page ?s ((tables np)((t, idx (Suc l) g) := fm_link F ?s))"
    let ?np = "np\<lparr>cnt := cnt np + 1, tables := ?T\<rparr>"
    let ?own = "own(?s := (l, pfx (Suc l) g))"
    have n: "level \<le> l" "cnt np < NUM_OF_TBL" "length (tbl np) = NUM_OF_TBL"
      using False Suc.prems by (auto simp: tables_ok_def pool_ok_def)
    have stop: "fm_stop F (tables np (t, idx (Suc l) g))" using Suc.prems(5) by simp
    have st: "tables_ok F w Q ?own ?np" "keeps_paths np ?np" "on_path F (tables ?np) (ncr3tbl ?np) g l ?s" "tables ?np (?s, idx l g) = 0"
      using fill_step_ok [OF Suc.prems(1) assms(2) Suc.prems(2) stop n(2)] by auto
    have c: "cnt ?np + l \<le> NUM_OF_TBL + level" using Suc.prems(4) by simp
    have z: "0 < l \<Longrightarrow> fm_stop F (tables ?np (?s, idx l g))" unfolding st(4) by (rule stop_0)
    obtain t' T' own' where IH: "fill_loop F g level l (?s, idx l g) ?np = Inr ((t', idx level g), ?np\<lparr>tables := T', cnt := cnt ?np + (l - level)\<rparr>)"
      "tables_ok F w Q own' (?np\<lparr>tables := T', cnt := cnt ?np + (l - level)\<rparr>)" "keeps_paths ?np (?np\<lparr>tables := T'\<rparr>)"
      "on_path F T' (ncr3tbl ?np) g level t'" "0 < level \<longrightarrow> fm_stop F (T' (t', idx level g))"
      using Suc.IH [OF st(1) st(3) n(1) c z] by blast
    have e: "?np\<lparr>tables := T', cnt := cnt ?np + (l - level)\<rparr> = np\<lparr>tables := T', cnt := cnt np + (Suc l - level)\<rparr>"
      using n(1) by simp
    have f: "fill_loop F g level (Suc l) (t, idx (Suc l) g) np = fill_loop F g level l (?s, idx l g) ?np"
      using n False unfolding fill_loop.simps fill_index Let_def by simp
    have k: "keeps_paths np (np\<lparr>tables := T'\<rparr>)"
      using keeps_paths_trans [OF st(2) IH(3)] by (simp add: keeps_paths_def)
    show ?thesis
      using IH(1,2,4,5) k unfolding f e by (intro exI [of _ t'] exI [of _ T'] exI [of _ own']) simp
  qed
qed

lemma clear_tables_ok:
  assumes "tables_ok F w Q own np"
  shows "tables_ok F w Q (\<lambda>_. (3, 0)) (clear_tables np)"
  using assms by (auto simp: tables_ok_def pool_ok_def tables_in_use_def clear_tables_def zero_page_def entry_ok_def)

lemma on_path_root: "on_path F T root g 3 t \<Longrightarrow> t = root"
  by (erule on_path_downE) (auto dest: on_path_level)

text \<open>The tables run out, and what holds after the cursor has moved.\<close>

definition overflows :: "nat \<Rightarrow> nested \<Rightarrow> bool" where
  "overflows level np \<longleftrightarrow> cnt np + cur_level np > NUM_OF_TBL + level"

definition ready_for :: "'a world_scheme \<Rightarrow> u64 set \<Rightarrow> u64 \<Rightarrow> nested \<Rightarrow> bool" where
  "ready_for w Q g np \<longleftrightarrow> (\<exists>own. tables_ok F w Q own np) \<and> np_cursor_ok F np \<and> cur_gphys np = g \<and> cur_level np \<le> 3 \<and>
     (0 < cur_level np \<longrightarrow> fm_stop F (tables np (cur_entry np (cur_level np))))"

lemma cur_move_ready:
  assumes "nested_inv F w Q np" "g < 2 ^ 48"
  shows "ready_for w Q g (cur_move F g np) \<and> moved g np (cur_move F g np)"
proof -
  obtain own where o: "tables_ok F w Q own np" "np_cursor_ok F np" using assms(1) by (auto simp: nested_inv_def)
  show ?thesis using cur_move_ok [OF o assms(2)] by (auto simp: ready_for_def moved_def)
qed

lemma cur_fill_ok:
  assumes "ready_for w Q g np" "level \<le> cur_level np" "level \<le> 1"
  shows "\<exists>t np' own. cur_fill F g level np = Inr ((t, idx level g), np') \<and> tables_ok F w Q own np' \<and> np_cursor_ok F np' \<and>
    cur_gphys np' = g \<and> level \<le> cur_level np' \<and> on_path F (tables np') (ncr3tbl np') g level t \<and>
    (0 < level \<longrightarrow> fm_stop F (tables np' (t, idx level g))) \<and>
    (if overflows level np then cleared np' else cleared np' = cleared np \<and> keeps_paths np np')"
proof -
  define np1 where "np1 = (if overflows level np then (clear_tables np)\<lparr>cur_level := LEVELS - 1\<rparr> else np)"
  obtain own where o: "tables_ok F w Q own np" using assms(1) by (auto simp: ready_for_def)
  have g: "g < 2 ^ 48" "cur_gphys np = g" and lv: "cur_level np \<le> 3" using assms(1) by (auto simp: ready_for_def np_cursor_ok_def)
  have c: "\<exists>t. cur_entry np k = (t, idx k g) \<and> on_path F (tables np) (ncr3tbl np) g k t" if "k < 4" "cur_level np \<le> k" for k
    using assms(1) that by (auto simp: ready_for_def np_cursor_ok_def)
  obtain own1 where o1: "tables_ok F w Q own1 np1"
    using o clear_tables_ok [OF o] tables_ok_cong [of "(clear_tables np)\<lparr>cur_level := LEVELS - 1\<rparr>" "clear_tables np"]
    by (cases "overflows level np") (auto simp: np1_def)
  have lv1: "cur_level np1 < 4" "level \<le> cur_level np1" using lv assms(2,3) by (auto simp: np1_def LEVELS_def)
  have same: "cur_entry np1 = cur_entry np" "cur_gphys np1 = g" "ncr3tbl np1 = ncr3tbl np"
    using g(2) by (auto simp: np1_def clear_tables_def)
  have e3: "cur_entry np 3 = (ncr3tbl np, idx 3 g)" using c [of 3] lv on_path_root by auto
  have c1: "\<exists>t. cur_entry np1 k = (t, idx k g) \<and> on_path F (tables np1) (ncr3tbl np1) g k t" if k: "k < 4" "cur_level np1 \<le> k" for k
  proof (cases "overflows level np")
    case True
    then have "k = 3" using k by (simp add: np1_def LEVELS_def)
    then show ?thesis using e3 same on_path.root by auto
  next
    case False
    then show ?thesis using c [OF k(1)] k(2) by (simp add: np1_def)
  qed
  obtain t where t: "cur_entry np1 (cur_level np1) = (t, idx (cur_level np1) g)" "on_path F (tables np1) (ncr3tbl np1) g (cur_level np1) t"
    using c1 lv1(1) by blast
  have s1: "0 < cur_level np1 \<Longrightarrow> fm_stop F (tables np1 (t, idx (cur_level np1) g))"
  proof (cases "overflows level np")
    case True
    then have "cur_level np1 = 3" "tables np1 (ncr3tbl np1, j) = 0" for j by (simp_all add: np1_def LEVELS_def clear_tables_def zero_page_def)
    then show ?thesis using t(2) on_path_root stop_0 by metis
  next
    case False
    assume "0 < cur_level np1"
    then show ?thesis using False assms(1) t(1) by (auto simp: np1_def ready_for_def)
  qed
  have n: "cnt np1 + cur_level np1 \<le> NUM_OF_TBL + level"
    by (auto simp: np1_def overflows_def clear_tables_def LEVELS_def NUM_OF_TBL_def)
  obtain t' T' own' where f: "fill_loop F g level (cur_level np1) (t, idx (cur_level np1) g) np1 =
      Inr ((t', idx level g), np1\<lparr>tables := T', cnt := cnt np1 + (cur_level np1 - level)\<rparr>)"
    "tables_ok F w Q own' (np1\<lparr>tables := T', cnt := cnt np1 + (cur_level np1 - level)\<rparr>)"
    "keeps_paths np1 (np1\<lparr>tables := T'\<rparr>)" "on_path F T' (ncr3tbl np1) g level t'" "0 < level \<longrightarrow> fm_stop F (T' (t', idx level g))"
    using fill_loop_ok [OF o1 g(1) t(2) lv1(2) n s1] by blast
  define np2 where "np2 = np1\<lparr>tables := T', cnt := cnt np1 + (cur_level np1 - level)\<rparr>"
  have "cur_fill F g level np = fill_loop F g level (cur_level np1) (cur_entry np1 (cur_level np1)) np1"
    using lv1(1) by (simp add: cur_fill_def Let_def np1_def overflows_def LEVELS_def)
  then have r: "cur_fill F g level np = Inr ((t', idx level g), np2)" using f(1) t(1) by (simp add: np2_def)
  have "np_cursor_ok F np2"
    unfolding np_cursor_ok_def
  proof (intro conjI allI impI)
    fix k :: nat assume "k < 4" "cur_level np2 \<le> k"
    then obtain u where "cur_entry np1 k = (u, idx k g)" "on_path F (tables np1) (ncr3tbl np1) g k u"
      using c1 by (auto simp: np2_def)
    then show "\<exists>t. cur_entry np2 k = (t, idx k (cur_gphys np2)) \<and> on_path F (tables np2) (ncr3tbl np2) (cur_gphys np2) k t"
      using f(3) g(1) same by (auto simp: np2_def keeps_paths_def)
  qed (use g same lv1 in \<open>auto simp: np2_def\<close>)
  moreover have "if overflows level np then cleared np2 else cleared np2 = cleared np \<and> keeps_paths np np2"
    using f(3) by (auto simp: np2_def np1_def clear_tables_def keeps_paths_def)
  ultimately show ?thesis
    using r f(2,4,5) same lv1(2) by (intro exI [of _ t'] exI [of _ np2] exI [of _ own']) (simp add: np2_def)
qed

end

section \<open>Soundness of the walk\<close>

lemma low_page: "g < 2 ^ 48 \<Longrightarrow> (g AND NOT 0xFFF) AND ADDR = g AND NOT 0xFFF"
proof -
  assume a: "g < 2 ^ 48"
  have m: "ADDR = mask 52 AND NOT (mask 12)" "(0xFFF :: u64) = mask 12" by (simp_all add: ADDR_def mask_eq_exp_minus_1)
  have "bit g i \<Longrightarrow> i < 48" for i using less_mask_eq [OF a] by (metis bit_and_iff bit_mask_iff)
  then show ?thesis unfolding m by (intro bit_word_eqI) (force simp: bit_simps)
qed

lemma gp2hp_same_page:
  assumes "vmm_placed w" "pfx 0 a = pfx 0 b"
  shows "snd (gmm_pass_gp2hp w a) = snd (gmm_pass_gp2hp w b)"
    "fst (gmm_pass_gp2hp w a) AND NOT 0xFFF = fst (gmm_pass_gp2hp w b) AND NOT 0xFFF"
proof -
  have "unat (page a) = unat (page b)" using assms(2) by (simp add: unat_page pfx_def)
  then have p: "page a = page b" by (simp only: word_unat_eq_iff)
  then have "in_vmm w a = in_vmm w b" using in_vmm_page [OF assms(1)] by metis
  then show "snd (gmm_pass_gp2hp w a) = snd (gmm_pass_gp2hp w b)"
    "fst (gmm_pass_gp2hp w a) AND NOT 0xFFF = fst (gmm_pass_gp2hp w b) AND NOT 0xFFF"
    using p by (simp_all add: gmm_pass_gp2hp_def phys_in_vmm_iff [OF assms(1)] page_def)
qed

text \<open>A 2 MiB block lies inside the VMM region or outside it, as the region is 4 MiB aligned.\<close>

lemma block_outside_vmm:
  assumes "nested_world w" "pfx 1 g = pfx 1 b" "b AND 0x1FFFFF = 0" "\<not> in_vmm w b"
  shows "\<not> in_vmm w g" "g AND NOT 0x1FFFFF = b"
proof -
  have m: "(0x1FFFFF :: u64) = mask 21" by (simp add: mask_eq_exp_minus_1)
  have q: "unat g div 2097152 = unat b div 2097152" using assms(2) by (simp add: pfx_def)
  have b: "b AND NOT 0x1FFFFF = b" by (rule clear_mask [OF assms(3)])
  have u: "unat (x AND NOT 0x1FFFFF) = unat x div 2097152 * 2097152" for x :: u64
    unfolding m using unat_and_not_mask [of x 21] by simp
  have ub: "unat b = unat b div 2097152 * 2097152" using u [of b] b by simp
  show e: "g AND NOT 0x1FFFFF = b" using u [of g] ub q by (metis word_unat_eq_iff)
  let ?S = "unat (vmm_start_phys w)"
  have "?S mod 4194304 = 0" using assms(1) by (simp add: nested_world_def)
  then obtain k where "?S = 4194304 * k" by (metis dvd_def mod_0_imp_dvd)
  then have s: "?S = ?S div 2097152 * 2097152" by simp
  have "?S \<le> unat b" if "?S \<le> unat g"
    using div_le_mono [OF that, of 2097152] q s ub by linarith
  moreover have "unat b \<le> unat g" using ub q div_times_less_eq_dividend [of "unat g" 2097152] by linarith
  ultimately show "\<not> in_vmm w g" using assms(4) by (auto simp: in_vmm_def)
qed

context nested_paging
begin

lemma leaf_hw:
  assumes "nested_world w" "leaf_ok F w Q l (pfx l g) e" "g < 2 ^ 48"
  shows "pr e \<and> (0 < l \<longrightarrow> la e) \<and> wrt e = (\<not> snd (gmm_pass_gp2hp w g)) \<and> g \<in> Q \<and>
    (e AND ADDR AND NOT (mask (12 + 9 * l))) OR (g AND mask (12 + 9 * l)) = (fst (gmm_pass_gp2hp w g) AND NOT 0xFFF) OR (g AND 0xFFF)"
proof -
  have v: "vmm_placed w" using assms(1) by (simp add: nested_world_def)
  have q: "g \<in> Q" using assms(2,3) by (simp add: leaf_ok_def)
  obtain c b where b: "b < 2 ^ 48" "pfx l b = pfx l g"
    "l = 0 \<and> e = fm_page F c b (fst (gmm_pass_gp2hp w b) AND NOT 0xFFF) (snd (gmm_pass_gp2hp w b)) \<or>
     l = 1 \<and> b AND 0x1FFFFF = 0 \<and> \<not> phys_in_vmm (vmm_start_phys w) b \<and> e = fm_large F c b b"
    using assms(2) unfolding leaf_ok_def by blast
  show ?thesis
    using b(3)
  proof (elim disjE conjE, goal_cases)
    case 1
    let ?h = "fst (gmm_pass_gp2hp w b) AND NOT 0xFFF"
    have blank: "phys_blank w AND NOT 0xFFF = phys_blank w" "phys_blank w AND ADDR = phys_blank w"
      using v assms(1) unfolding vmm_placed_def nested_world_def page_def by blast+
    have h: "?h AND ADDR = ?h"
      using low_page [OF b(1)] blank by (simp add: gmm_pass_gp2hp_def split: if_splits)
    have "pfx 0 b = pfx 0 g" using b(2) 1(1) by simp
    note s = gp2hp_same_page [OF v this]
    have e: "pr e" "e AND ADDR = ?h" "wrt e = (\<not> snd (gmm_pass_gp2hp w g))"
      using small [OF h, of c b "snd (gmm_pass_gp2hp w b)"] 1(2) s(1) by auto
    have "e AND ADDR AND NOT 0xFFF = ?h" unfolding and.assoc [symmetric] e(2) by (simp add: and.assoc)
    then have "e AND ADDR AND NOT (mask (12 + 9 * l)) = fst (gmm_pass_gp2hp w g) AND NOT 0xFFF"
      unfolding s(2) [symmetric] using 1(1) by (simp add: mask_eq_exp_minus_1)
    then show ?case using e(1,3) q 1(1) by (simp add: mask_eq_exp_minus_1)
  next
    case 2
    have p: "pfx 1 g = pfx 1 b" using b(2) 2(1) by simp
    note o = block_outside_vmm [OF assms(1) p 2(2)]
    have a: "b AND ADDR = b" by (rule low_addr [OF b(1) 2(2)])
    have n: "\<not> in_vmm w b" using 2(3) phys_in_vmm_iff [OF v] by simp
    have m: "(0x1FFFFF :: u64) = mask 21" "(0xFFF :: u64) = mask 12" by (simp_all add: mask_eq_exp_minus_1)
    have "gmm_pass_gp2hp w g = (g, False)" using o(1) [OF n] phys_in_vmm_iff [OF v] by (simp add: gmm_pass_gp2hp_def)
    moreover have "b OR (g AND mask 21) = g" using o(2) [OF n] unfolding m(1) by (metis split_mask)
    moreover have "(g AND NOT 0xFFF) OR (g AND 0xFFF) = g" by (rule split_mask)
    ultimately show ?case using large [OF a 2(2), of c b] q 2 by (simp add: m(1))
  qed
qed

lemma walk_sound:
  assumes "nested_world w" "tables_ok F w Q own np" "g < 2 ^ 48" "on_path F (tables np) (ncr3tbl np) g l t"
  shows "hw_walk pr la wrt (tables np) g l t = None \<or>
    (\<exists>k e. hw_walk pr la wrt (tables np) g l t = Some (k, e, wrt e) \<and> leaf_ok F w Q k (pfx k g) e)"
  using assms(4)
proof (induction l arbitrary: t)
  case 0
  show ?case
    by (rule path_entry [OF assms(2,3) 0]) (use absent_0 in \<open>auto simp: Let_def\<close>)
next
  case (Suc l)
  show ?case
  proof (cases rule: path_entry [OF assms(2,3) Suc.prems])
    case 1
    then show ?thesis using absent_0 by (simp add: Let_def)
  next
    case 2
    then show ?thesis using leaf_hw [OF assms(1) 2(1) assms(3)] by (simp add: Let_def)
  next
    case (3 k t')
    then show ?thesis using Suc.IH [of t'] link [of t'] by (auto simp: Let_def)
  qed
qed

lemma translate_sound:
  assumes "nested_world w" "tables_ok F w Q own np" "g < 2 ^ 48"
  shows "hw_translate pr la wrt np g = None \<or> g \<in> Q \<and>
    hw_translate pr la wrt np g = Some ((fst (gmm_pass_gp2hp w g) AND NOT 0xFFF) OR (g AND 0xFFF), \<not> snd (gmm_pass_gp2hp w g))"
  using walk_sound [OF assms on_path.root] leaf_hw [OF assms(1) _ assms(3)] by (auto simp: hw_translate_def)

text \<open>The converse: a page with an entry is translated.\<close>

lemma translate_small:
  assumes "nested_world w" "tables_ok F w Q own np" "g < 2 ^ 48" "on_path F (tables np) (ncr3tbl np) g 0 t"
    "tables np (t, idx 0 g) \<noteq> 0"
  shows "hw_translate pr la wrt np g \<noteq> None"
proof (cases rule: path_entry [OF assms(2-4)])
  case 2
  then show ?thesis using leaf_hw [OF assms(1) 2(1) assms(3)] on_path_walk [OF assms(4)] by (simp add: hw_translate_def Let_def)
qed (use assms(5) in auto)

lemma translate_large:
  assumes "nested_world w" "tables_ok F w Q own np" "g < 2 ^ 48" "on_path F (tables np) (ncr3tbl np) g 1 t"
    "leaf_ok F w Q 1 (pfx 1 g) (tables np (t, idx 1 g))"
  shows "hw_translate pr la wrt np g \<noteq> None"
  using leaf_hw [OF assms(1,5,3)] on_path_walk [OF assms(4)] by (simp add: hw_translate_def Let_def)

end

end
