(* ===== verification/Nested_Inv.thy ===== *)
theory Nested_Inv
  imports Nested_Walk
begin

text \<open>
  The operations on nested page tables keep the invariant of \<open>Nested_Walk\<close>, and a page that was
  entered is found by the processor until the tables are cleared.
\<close>

section \<open>Regions of guest memory\<close>

text \<open>All of the region of level \<open>l\<close> around \<open>g\<close> is in \<open>Q\<close>.\<close>

definition passes :: "u64 set \<Rightarrow> nat \<Rightarrow> u64 \<Rightarrow> bool" where
  "passes Q l g \<longleftrightarrow> (\<forall>h. h < 2 ^ 48 \<and> pfx l h = pfx l g \<longrightarrow> h \<in> Q)"

text \<open>\<open>Q\<close> holds every page and every 2 MiB block that no MMIO range meets.\<close>

definition unhandled_in :: "'d mmio_data \<Rightarrow> u64 set \<Rightarrow> bool" where
  "unhandled_in w Q \<longleftrightarrow> (\<forall>g<2 ^ 48.
     (mmio_range (g AND NOT 0x1FFFFF) 0x200000 w = 0 \<longrightarrow> passes Q 1 g) \<and>
     (g AND 0xFFF = 0 \<longrightarrow> mmio_range g 0x1000 w = 0 \<longrightarrow> passes Q 0 g) \<and>
     (mmio_access_page g None w = Inr (False, w) \<longrightarrow> passes Q 0 g))"

lemma unhandled_in_UNIV: "unhandled_in w UNIV"
  by (simp add: unhandled_in_def passes_def)

text \<open>The areas of the forced map end at an empty one and lie in the first 48 bits.\<close>

definition areas_ok :: "(u64 \<times> u64) list option \<Rightarrow> bool" where
  "areas_ok sp \<longleftrightarrow> (case sp of None \<Rightarrow> True | Some xs \<Rightarrow> list_all (\<lambda>(b, n). unat b + 4096 * unat n \<le> 2 ^ 48) xs)"

lemma low_add: "unat (x + y) mod 4096 = (unat x + unat y) mod 4096" for x y :: u64
  by (simp add: unat_word_ariths mod_mod_cancel)

lemma aligned_iff: "x AND 0xFFF = 0 \<longleftrightarrow> unat x mod 4096 = 0" for x :: u64
  by (simp only: unat_offset [symmetric] unsigned_eq_0_iff)

lemma aligned_add: "x AND 0xFFF = 0 \<Longrightarrow> y AND 0xFFF = 0 \<Longrightarrow> (x + y) AND 0xFFF = 0" for x y :: u64
  unfolding aligned_iff low_add by (simp only: mod_eq_0_iff_dvd dvd_add)

lemma aligned_diff:
  fixes x y :: u64
  assumes "x AND 0xFFF = 0" "y AND 0xFFF = 0" shows "(x - y) AND 0xFFF = 0"
proof -
  have "(unat (x - y) + unat y) mod 4096 = 0" using low_add [of "x - y" y] assms(1) by (simp add: aligned_iff)
  then show ?thesis using assms(2) unfolding aligned_iff mod_eq_0_iff_dvd by (simp only: dvd_add_left_iff)
qed

lemma after_block: "((x OR 0x1FFFFF) + 1) AND 0xFFF = 0" for x :: u64
proof -
  have m: "(0x1FFFFF :: u64) = mask 21" "(0xFFF :: u64) = mask 12" by (simp_all add: mask_eq_exp_minus_1)
  have "(x OR 0x1FFFFF) AND 0xFFF = 0xFFF" unfolding m by (rule bit_word_eqI) (auto simp: bit_simps)
  then have "unat (x OR 0x1FFFFF) mod 4096 = 4095" using unat_offset [of "x OR 0x1FFFFF"] by simp
  then show ?thesis unfolding aligned_iff low_add by (simp add: mod_Suc)
qed

lemma clear_low_mask: "unat (g AND NOT 0x1FFFFF) = unat g div 2097152 * 2097152" for g :: u64
proof -
  have m: "(0x1FFFFF :: u64) = mask 21" by (simp add: mask_eq_exp_minus_1)
  show ?thesis unfolding m using unat_and_not_mask [of g 21] by simp
qed

lemma block_base:
  fixes g :: u64
  assumes "g < 2 ^ 48"
  shows "g AND NOT 0x1FFFFF < 2 ^ 48" "pfx 1 (g AND NOT 0x1FFFFF) = pfx 1 g" "(g AND NOT 0x1FFFFF) AND 0x1FFFFF = 0"
proof -
  have "unat (g AND NOT 0x1FFFFF) \<le> unat g" unfolding clear_low_mask by simp
  then show "g AND NOT 0x1FFFFF < 2 ^ 48" using assms by (simp add: word_less_nat_alt)
  show "pfx 1 (g AND NOT 0x1FFFFF) = pfx 1 g" unfolding pfx_def clear_low_mask by simp
  show "(g AND NOT 0x1FFFFF) AND 0x1FFFFF = 0" by (rule bit_word_eqI) (auto simp: bit_simps)
qed

text \<open>The invariant depends on the rest of the VMM only through the placement.\<close>

lemma same_config_inv:
  assumes "vmm_start_phys w' = vmm_start_phys w" "phys_blank w' = phys_blank w"
  shows "nested_inv F w' Q np = nested_inv F w Q np" "nested_world w' = nested_world w"
proof -
  have "gmm_pass_gp2hp w' = gmm_pass_gp2hp w" "in_vmm w' = in_vmm w"
    using assms by (auto simp: gmm_pass_gp2hp_def in_vmm_def fun_eq_iff)
  then have "leaf_ok F w' Q = leaf_ok F w Q" "pool_ok w' = pool_ok w"
    using assms by (simp_all add: leaf_ok_def pool_ok_def fun_eq_iff)
  then show "nested_inv F w' Q np = nested_inv F w Q np"
    by (simp add: nested_inv_def tables_ok_def entry_ok_def)
  show "nested_world w' = nested_world w" using assms by (simp add: nested_world_def vmm_placed_def in_vmm_def)
qed

definition same_config :: "'a world_scheme \<Rightarrow> 'a world_scheme \<Rightarrow> bool" where
  "same_config w w' \<longleftrightarrow> vmm_start_phys w' = vmm_start_phys w \<and> phys_blank w' = phys_blank w"

lemma same_config_trans: "same_config a b \<Longrightarrow> same_config b c \<Longrightarrow> same_config a c"
  by (simp add: same_config_def)

section \<open>The lock\<close>

lemma range_list_cong: "range_slots a n (mmio_lock w) is = range_slots a n w is"
  by (induction "is") (auto simp: mmio_lock_def split: option.splits)

lemma mmio_range_lock: "mmio_range a n (mmio_lock w) = mmio_range a n w"
  by (simp add: mmio_range_def range_list_cong)

lemma page_list_None: "page_list a None ps w = Inr (b, w') \<Longrightarrow> w' = w"
  by (induction ps) (auto simp: Let_def split: if_splits)

lemma page_list_lock: "page_list a None ps (mmio_lock w) = map_sum id (map_prod id mmio_lock) (page_list a None ps w)"
  by (induction ps) (auto simp: Let_def mmio_lock_def)

lemma page_list_False: "page_list a em ps w = Inr (False, w') \<Longrightarrow> w' = w \<and> page_list a None ps w = Inr (False, w)"
  by (induction ps) (auto simp: Let_def split: if_splits option.splits prod.splits)

lemma page_list_True: "page_list a (Some em) ps w = Inr (True, w') \<Longrightarrow> page_list a None ps w = Inr (True, w) \<and> w' = snd (em w)"
  by (induction ps) (auto simp: Let_def split: if_splits option.splits prod.splits)

lemma access_page_lock: "mmio_access_page a None (mmio_lock w) = map_sum id (map_prod id mmio_lock) (mmio_access_page a None w)"
proof -
  have "mmio (mmio_lock w) = mmio w" by (simp add: mmio_lock_def)
  then show ?thesis by (simp only: mmio_access_page_def Let_def page_list_lock)
qed

lemma access_page_cases:
  assumes "mmio_access_page a em w = Inr (found, w')"
  shows "if found then em \<noteq> None \<longrightarrow> w' = snd (the em w) else w' = w \<and> mmio_access_page a None w = Inr (False, w)"
proof (cases found)
  case True
  then show ?thesis using assms by (auto simp: mmio_access_page_def Let_def dest: page_list_True)
next
  case False
  then show ?thesis using assms by (auto simp: mmio_access_page_def Let_def dest: page_list_False)
qed

lemma unhandled_lock: "unhandled_in w Q \<Longrightarrow> unhandled_in (mmio_lock w) Q"
proof -
  assume a: "unhandled_in w Q"
  have "mmio_access_page g None w = Inr (False, w)" if l: "mmio_access_page g None (mmio_lock w) = Inr (False, mmio_lock w)" for g
  proof -
    obtain v where v: "mmio_access_page g None w = Inr (False, v)"
      using l unfolding access_page_lock by (cases "mmio_access_page g None w") auto
    then have "v = w" by (auto simp: mmio_access_page_def Let_def dest: page_list_None)
    then show ?thesis using v by simp
  qed
  then show ?thesis using a by (simp add: unhandled_in_def mmio_range_lock)
qed

lemma lock_config: "same_config w (mmio_lock w)" "same_config w (mmio_unlock w)"
  using mmio_unlock_safe [of False w] by (simp_all add: same_config_def mmio_lock_def safe_def)

section \<open>Entering pages\<close>

context nested_paging
begin

lemma leaf_small:
  assumes "g < 2 ^ 48" "passes Q 0 g"
  shows "leaf_ok F w Q 0 (pfx 0 g) (fm_page F c g (fst (gmm_pass_gp2hp w g) AND NOT 0xFFF) (snd (gmm_pass_gp2hp w g)))"
  using assms by (auto simp: leaf_ok_def passes_def)

lemma leaf_large:
  assumes "g < 2 ^ 48" "passes Q 1 g" "gmm_pass_gp2hp_2m w (g AND NOT 0x1FFFFF) \<noteq> GMM_GP2HP_2M_FAIL"
  shows "leaf_ok F w Q 1 (pfx 1 g) (fm_large F c (g AND NOT 0x1FFFFF) (gmm_pass_gp2hp_2m w (g AND NOT 0x1FFFFF)))"
proof -
  let ?b = "g AND NOT 0x1FFFFF"
  have "gmm_pass_gp2hp_2m w ?b = ?b \<and> \<not> phys_in_vmm (vmm_start_phys w) ?b"
    using assms(3) by (auto simp: gmm_pass_gp2hp_2m_def split: if_splits)
  then show ?thesis using assms(2) block_base [OF assms(1)] by (auto simp: leaf_ok_def passes_def)
qed

lemma cursor_keeps:
  assumes "np_cursor_ok F np" "keeps_paths np np'" "cur_level np' = cur_level np" "cur_gphys np' = cur_gphys np" "cur_entry np' = cur_entry np"
  shows "np_cursor_ok F np'"
  using assms unfolding np_cursor_ok_def keeps_paths_def by metis

text \<open>Nothing is lost unless the tables are cleared.\<close>

definition progress :: "nested \<Rightarrow> nested \<Rightarrow> bool" where
  "progress np np' \<longleftrightarrow> (\<not> cleared np' \<longrightarrow> \<not> cleared np \<and> keeps_paths np np')"

lemma keeps_paths_refl: "ncr3tbl np' = ncr3tbl np \<Longrightarrow> tables np' = tables np \<Longrightarrow> keeps_paths np np'"
  by (simp add: keeps_paths_def)

lemma progress_trans: "progress a b \<Longrightarrow> progress b c \<Longrightarrow> progress a c"
  unfolding progress_def using keeps_paths_trans by blast

lemma progress_refl: "progress np np"
  by (simp add: progress_def keeps_paths_refl)

text \<open>\<open>g\<close> has an entry of its own, or is in a 2 MiB page.\<close>

definition has_page :: "u64 \<Rightarrow> nested \<Rightarrow> bool" where
  "has_page g np \<longleftrightarrow> (\<exists>t. on_path F (tables np) (ncr3tbl np) g 0 t \<and> tables np (t, idx 0 g) \<noteq> 0)"

definition has_2mpage :: "'a world_scheme \<Rightarrow> u64 set \<Rightarrow> u64 \<Rightarrow> nested \<Rightarrow> bool" where
  "has_2mpage w Q g np \<longleftrightarrow> (\<exists>t. on_path F (tables np) (ncr3tbl np) g 1 t \<and> leaf_ok F w Q 1 (pfx 1 g) (tables np (t, idx 1 g)))"

lemma has_page_progress: "has_page g np \<Longrightarrow> g < 2 ^ 48 \<Longrightarrow> progress np np' \<Longrightarrow> \<not> cleared np' \<Longrightarrow> has_page g np'"
  unfolding has_page_def progress_def keeps_paths_def by metis

text \<open>Storing an entry through the pointer that \<open>cur_fill\<close> returned.\<close>

lemma store_ok:
  assumes "nested_world w" "ready_for w Q g np" "level \<le> cur_level np" "level \<le> 1" "leaf_ok F w Q level (pfx level g) e"
  shows "\<exists>p np'. cur_fill F g level np = Inr (p, np') \<and> nested_inv F w Q (np'\<lparr>tables := (tables np')(p := e)\<rparr>) \<and>
    progress np (np'\<lparr>tables := (tables np')(p := e)\<rparr>) \<and>
    (\<exists>t. p = (t, idx level g) \<and> on_path F ((tables np')(p := e)) (ncr3tbl np') g level t) \<and> e \<noteq> 0"
proof -
  have g: "g < 2 ^ 48" using assms(2) by (auto simp: ready_for_def np_cursor_ok_def)
  have e: "e \<noteq> 0" using leaf_hw [OF assms(1,5) g] absent_0 by auto
  obtain t np' own where f: "cur_fill F g level np = Inr ((t, idx level g), np')" "tables_ok F w Q own np'" "np_cursor_ok F np'"
    "cur_gphys np' = g" "level \<le> cur_level np'" "on_path F (tables np') (ncr3tbl np') g level t"
    "0 < level \<longrightarrow> fm_stop F (tables np' (t, idx level g))"
    "if overflows level np then cleared np' else cleared np' = cleared np \<and> keeps_paths np np'"
    using cur_fill_ok [OF assms(2-4)] by blast
  let ?np = "np'\<lparr>tables := (tables np')((t, idx level g) := e)\<rparr>"
  have wr: "tables_ok F w Q own ?np" "keeps_paths np' ?np"
    using write_ok [OF f(2) g f(6) assms(5) _ e] f(7) by auto
  have "np_cursor_ok F ?np" by (rule cursor_keeps [OF f(3) wr(2)]) simp_all
  then have "nested_inv F w Q ?np" using wr(1) by (auto simp: nested_inv_def)
  moreover have "progress np ?np" using f(8) keeps_paths_trans [OF _ wr(2)] by (auto simp: progress_def split: if_splits)
  moreover have "on_path F ((tables np')((t, idx level g) := e)) (ncr3tbl np') g level t"
    using wr(2) f(6) g by (simp add: keeps_paths_def)
  ultimately show ?thesis using f(1) e by blast
qed

lemma moved_progress: "moved g np np' \<Longrightarrow> progress np np'"
  by (simp add: moved_def progress_def keeps_paths_refl)

lemma ready_inv: "ready_for w Q g np \<Longrightarrow> nested_inv F w Q np"
  by (auto simp: ready_for_def nested_inv_def)

lemma map_page_sub_ok:
  assumes "nested_world w" "nested_inv F w Q np" "g < 2 ^ 48" "passes Q 0 g"
  shows "if snd (gmm_pass_gp2hp w g) \<and> wr then map_page_sub F w wr g np = Inl (Panic (fm_panic F))
    else \<exists>np'. map_page_sub F w wr g np = Inr np' \<and> nested_inv F w Q np' \<and> progress np np' \<and> has_page g np'"
proof -
  let ?np = "cur_move F g np"
  let ?e = "fm_page F (caches w) g (fst (gmm_pass_gp2hp w g) AND NOT 0xFFF) (snd (gmm_pass_gp2hp w g))"
  have m: "ready_for w Q g ?np" "moved g np ?np" using cur_move_ready [OF assms(2,3)] by auto
  obtain p np' where s: "cur_fill F g 0 ?np = Inr (p, np')" "nested_inv F w Q (np'\<lparr>tables := (tables np')(p := ?e)\<rparr>)"
    "progress ?np (np'\<lparr>tables := (tables np')(p := ?e)\<rparr>)"
    "\<exists>t. p = (t, idx 0 g) \<and> on_path F ((tables np')(p := ?e)) (ncr3tbl np') g 0 t" "?e \<noteq> 0"
    using store_ok [OF assms(1) m(1) _ _ leaf_small [OF assms(3,4), where c = "caches w"]] by auto
  have "has_page g (np'\<lparr>tables := (tables np')(p := ?e)\<rparr>)" using s(4,5) by (auto simp: has_page_def)
  moreover have "progress np (np'\<lparr>tables := (tables np')(p := ?e)\<rparr>)"
    by (rule progress_trans [OF moved_progress [OF m(2)] s(3)])
  ultimately show ?thesis using s(1,2) by (simp add: map_page_sub_def Let_def case_prod_unfold)
qed

lemma map_2mpage_ok:
  assumes "nested_world w" "nested_inv F w Q np" "g < 2 ^ 48" "passes Q 1 g"
  shows "\<exists>fail np'. map_2mpage F w g np = Inr (fail, np') \<and> nested_inv F w Q np' \<and> progress np np' \<and> (\<not> fail \<longrightarrow> has_2mpage w Q g np')"
proof -
  let ?np = "cur_move F g np" and ?b = "g AND NOT 0x1FFFFF"
  let ?e = "fm_large F (caches w) ?b (gmm_pass_gp2hp_2m w ?b)"
  have m: "ready_for w Q g ?np" "moved g np ?np" using cur_move_ready [OF assms(2,3)] by auto
  show ?thesis
  proof (cases "cur_level ?np = 0 \<or> gmm_pass_gp2hp_2m w ?b = GMM_GP2HP_2M_FAIL \<or> \<not> cache_gmtrr_type_equal ?b 0x1FFFFF (caches w)")
    case True
    then have "map_2mpage F w g np = Inr (True, ?np)" by (auto simp: map_2mpage_def Let_def)
    then show ?thesis using ready_inv [OF m(1)] moved_progress [OF m(2)] by auto
  next
    case False
    then have c: "cur_level ?np \<noteq> 0" "gmm_pass_gp2hp_2m w ?b \<noteq> GMM_GP2HP_2M_FAIL" "cache_gmtrr_type_equal ?b 0x1FFFFF (caches w)" by auto
    have l: "leaf_ok F w Q 1 (pfx 1 g) ?e" by (rule leaf_large [OF assms(3,4) c(2)])
    obtain p np' where s: "cur_fill F g 1 ?np = Inr (p, np')" "nested_inv F w Q (np'\<lparr>tables := (tables np')(p := ?e)\<rparr>)"
      "progress ?np (np'\<lparr>tables := (tables np')(p := ?e)\<rparr>)"
      "\<exists>t. p = (t, idx 1 g) \<and> on_path F ((tables np')(p := ?e)) (ncr3tbl np') g 1 t"
      using store_ok [OF assms(1) m(1) _ _ l] c(1) by auto
    have "has_2mpage w Q g (np'\<lparr>tables := (tables np')(p := ?e)\<rparr>)" using s(4) l by (auto simp: has_2mpage_def)
    moreover have "progress np (np'\<lparr>tables := (tables np')(p := ?e)\<rparr>)"
      by (rule progress_trans [OF moved_progress [OF m(2)] s(3)])
    ultimately show ?thesis using s(1,2) c by (simp add: map_2mpage_def Let_def exI [of _ False])
  qed
qed

lemma try_2mpage_ok:
  assumes "nested_world w" "nested_inv F w Q np" "g < 2 ^ 48" "unhandled_in w Q"
  shows "\<exists>b np'. try_2mpage F w g np = Inr (b, np') \<and> nested_inv F w Q np' \<and> progress np np' \<and> (b \<longrightarrow> has_2mpage w Q g np')"
proof -
  let ?np = "cur_move F g np"
  have m: "nested_inv F w Q ?np" "progress np ?np"
    using cur_move_ready [OF assms(2,3)] ready_inv moved_progress by blast+
  show ?thesis
  proof (cases "cur_level ?np > 0 \<and> mmio_range (g AND NOT 0x1FFFFF) 0x200000 w = 0")
    case True
    then have "passes Q 1 g" using assms(3,4) by (simp add: unhandled_in_def)
    then obtain fail np' where "map_2mpage F w g ?np = Inr (fail, np')" "nested_inv F w Q np'" "progress ?np np'" "\<not> fail \<longrightarrow> has_2mpage w Q g np'"
      using map_2mpage_ok [OF assms(1) m(1) assms(3)] by blast
    then show ?thesis using True progress_trans [OF m(2)] by (simp add: try_2mpage_def level_of_def Let_def)
  next
    case False
    then have "try_2mpage F w g np = Inr (False, ?np)" by (auto simp: try_2mpage_def level_of_def Let_def)
    then show ?thesis using m by auto
  qed
qed

text \<open>The size of a turn is a multiple of the page size, so that the next one starts at a page.\<close>

lemma force_step_ok:
  assumes "nested_world w" "nested_inv F w Q np" "g < 2 ^ 48" "unhandled_in w Q" "g AND 0xFFF = 0"
    "force_step F w g np = Inr (sz, np')"
  shows "nested_inv F w Q np' \<and> progress np np' \<and> sz AND 0xFFF = 0"
proof -
  obtain b np1 where t: "try_2mpage F w g np = Inr (b, np1)" "nested_inv F w Q np1" "progress np np1"
    using try_2mpage_ok [OF assms(1-4)] by blast
  show ?thesis
  proof (cases b)
    case True
    show ?thesis using assms(6) t True aligned_diff [OF after_block assms(5)] by (auto simp: force_step_def)
  next
    case False
    show ?thesis
    proof (cases "mmio_range g 0x1000 w = 0")
      case T: True
      then have "passes Q 0 g" using assms(3-5) by (simp add: unhandled_in_def)
      from map_page_sub_ok [OF assms(1) t(2) assms(3) this, of True] show ?thesis
        using assms(6) t False T progress_trans [OF t(3)] by (auto simp: force_step_def bind_res_Inr_iff split: if_splits)
    next
      case F: False
      then show ?thesis using assms(6) t False by (auto simp: force_step_def Let_def and.assoc)
    qed
  qed
qed

lemma force_area_ok:
  assumes "nested_world w" "unhandled_in w Q"
  shows "force_area F w n g k np = Inr np' \<Longrightarrow> nested_inv F w Q np \<Longrightarrow> g AND 0xFFF = 0 \<Longrightarrow> unat g + unat k \<le> 2 ^ 48 \<Longrightarrow>
    nested_inv F w Q np' \<and> progress np np'"
proof (induction n arbitrary: g k np)
  case 0
  then show ?case by (auto simp: progress_refl split: if_splits)
next
  case (Suc n)
  show ?case
  proof (cases "k > 0")
    case False
    then show ?thesis using Suc.prems by (simp add: progress_refl)
  next
    case True
    then obtain sz np1 where s: "force_step F w g np = Inr (sz, np1)"
      "force_area F w n (g + (if sz > k then k else sz)) (k - (if sz > k then k else sz)) np1 = Inr np'"
      using Suc.prems(1) by (auto simp: bind_res_Inr_iff Let_def split: if_splits)
    have k: "0 < unat k" using True by (simp add: word_less_nat_alt)
    then have "g < 2 ^ 48" using Suc.prems(4) by (simp add: word_less_nat_alt)
    note st = force_step_ok [OF assms(1) Suc.prems(2) this assms(2) Suc.prems(3) s(1)]
    show ?thesis
    proof (cases "sz \<ge> k")
      case True
      then have "(if sz > k then k else sz) = k" by auto
      then have "np' = np1" using s(2) by (cases n) auto
      then show ?thesis using st by simp
    next
      case False
      then have c: "(if sz > k then k else sz) = sz" by auto
      from False have l: "unat sz < unat k" by (simp add: word_less_nat_alt not_le)
      then have u: "unat (g + sz) = unat g + unat sz" "unat (k - sz) = unat k - unat sz"
        using Suc.prems(4) by (simp_all add: unat_sub word_le_nat_alt unat_add_lem [THEN iffD1])
      have z: "(g + sz) AND 0xFFF = 0" using st Suc.prems(3) aligned_add by blast
      have "nested_inv F w Q np' \<and> progress np1 np'"
        by (rule Suc.IH [of "g + sz" "k - sz", OF _ conjunct1 [OF st] z]) (use s(2) u l c Suc.prems(4) in simp_all)
      then show ?thesis using st progress_trans by blast
    qed
  qed
qed

lemma area_base:
  assumes "areas_ok sp" "gmm_pass_getforcemap sp n = Inr (nn, base, k)" "k \<noteq> 0"
  shows "(base AND NOT 0xFFF) AND 0xFFF = 0" "unat (base AND NOT 0xFFF) + unat (k + (base AND 0xFFF)) \<le> 2 ^ 48"
proof -
  obtain xs np where x: "sp = Some xs" "rd xs n = Some (base, np)" "k = push_bit 12 np"
    using assms(2,3) by (auto simp: gmm_pass_getforcemap_def Let_def split: option.splits prod.splits)
  have b: "unat base + 4096 * unat np \<le> 2 ^ 48"
    using assms(1) x(1,2) by (auto simp: areas_ok_def rd_def list_all_length split: if_splits)
  have "unat np \<le> 2 ^ 36" using b by simp
  then have u: "unat k = 4096 * unat np" unfolding x(3) by (simp add: push_bit_eq_mult unat_word_ariths)
  have s: "unat (base AND NOT 0xFFF) = unat base div 4096 * 4096" using unat_page [of base] by (simp add: page_def)
  have "unat (k + (base AND 0xFFF)) \<le> unat k + unat (base AND 0xFFF)" by (simp add: unat_word_ariths)
  also have "\<dots> = 4096 * unat np + unat base mod 4096" by (simp add: u unat_offset)
  finally show "unat (base AND NOT 0xFFF) + unat (k + (base AND 0xFFF)) \<le> 2 ^ 48"
    using b unfolding s by (simp add: minus_mod_eq_div_mult [symmetric])
  show "(base AND NOT 0xFFF) AND 0xFFF = 0" by (rule bit_word_eqI) (auto simp: bit_simps)
qed

lemma force_areas_ok:
  assumes "nested_world w" "unhandled_in w Q" "areas_ok sp"
  shows "force_areas F sp w n np = Inr np' \<Longrightarrow> nested_inv F w Q np \<Longrightarrow> nested_inv F w Q np' \<and> progress np np'"
proof (induction "case sp of None \<Rightarrow> 0 | Some xs \<Rightarrow> length xs - n" arbitrary: n np rule: less_induct)
  case less
  obtain nn base k where g: "gmm_pass_getforcemap sp n = Inr (nn, base, k)"
    using less.prems(1) by (subst (asm) force_areas.simps) (auto split: sum.splits)
  obtain np1 where a: "(if k = 0 then Inr np else force_area F w (area_turns (k + (base AND 0xFFF))) (base AND NOT 0xFFF) (k + (base AND 0xFFF)) np) = Inr np1"
    "(if nn = 0 then Inr np1 else force_areas F sp w nn np1) = Inr np'"
    using less.prems(1) g unfolding force_areas.simps [of F sp w n np] Let_def by (auto simp: bind_res_Inr_iff)
  have 1: "nested_inv F w Q np1 \<and> progress np np1"
  proof (cases "k = 0")
    case True
    then show ?thesis using a(1) less.prems(2) by (simp add: progress_refl)
  next
    case False
    then have "force_area F w (area_turns (k + (base AND 0xFFF))) (base AND NOT 0xFFF) (k + (base AND 0xFFF)) np = Inr np1" using a(1) by simp
    then show ?thesis by (rule force_area_ok [OF assms(1,2) _ less.prems(2) area_base [OF assms(3) g False]])
  qed
  show ?case
  proof (cases "nn = 0")
    case True
    then show ?thesis using a(2) 1 by simp
  next
    case False
    then obtain xs where x: "sp = Some xs" "nn = n + 1" "n < length xs"
      using g by (auto simp: gmm_pass_getforcemap_def rd_def Let_def split: option.splits if_splits prod.splits)
    have "nested_inv F w Q np' \<and> progress np1 np'"
      by (rule less.hyps [of nn]) (use x a(2) False 1 in \<open>auto\<close>)
    then show ?thesis using 1 progress_trans by blast
  qed
qed

text \<open>Marking the tables as set up changes nothing in them.\<close>

lemma set_cleared_inv: "nested_inv F w Q (np\<lparr>cleared := b\<rparr>) = nested_inv F w Q np"
  by (simp add: nested_inv_def tables_ok_def pool_ok_def tables_in_use_def np_cursor_ok_def)

lemma clear_cleared_ok:
  assumes "nested_world w" "unhandled_in w Q" "areas_ok sp" "nested_inv F w Q np" "map_page_clear_cleared F sp w np = Inr np'"
  shows "nested_inv F w Q np' \<and> \<not> cleared np' \<and> keeps_paths np np'"
proof -
  have f: "force_areas F sp w 0 (np\<lparr>cleared := False\<rparr>) = Inr np'" and c: "\<not> cleared np'"
    using assms(5) by (auto simp: map_page_clear_cleared_def bind_res_Inr_iff split: if_splits)
  have "nested_inv F w Q np' \<and> progress (np\<lparr>cleared := False\<rparr>) np'"
    by (rule force_areas_ok [OF assms(1-3) f]) (simp add: set_cleared_inv assms(4))
  then show ?thesis using c by (simp add: progress_def keeps_paths_def)
qed

lemma map_page_ok:
  assumes "nested_world w" "unhandled_in w Q" "areas_ok sp" "nested_inv F w Q np" "g < 2 ^ 48" "passes Q 0 g"
    "map_page F sp w wr g np = Inr np'"
  shows "nested_inv F w Q np' \<and> has_page g np' \<and> \<not> cleared np'"
proof -
  obtain np1 np2 where s: "(if cleared np then map_page_clear_cleared F sp w np else Inr np) = Inr np1"
    "map_page_sub F w wr g np1 = Inr np2" "(if cleared np2 then map_page_clear_cleared F sp w np2 else Inr np2) = Inr np'"
    using assms(7) by (auto simp: map_page_def bind_res_Inr_iff)
  have 1: "nested_inv F w Q np1" using s(1) clear_cleared_ok [OF assms(1-4)] assms(4) by (auto split: if_splits)
  from map_page_sub_ok [OF assms(1) this assms(5,6), of wr]
  have 2: "nested_inv F w Q np2" "has_page g np2" using s(2) by (auto split: if_splits)
  show ?thesis
  proof (cases "cleared np2")
    case True
    then have c: "map_page_clear_cleared F sp w np2 = Inr np'" using s(3) by simp
    note k = clear_cleared_ok [OF assms(1-3) 2(1) c]
    then have "has_page g np'" using 2(2) assms(5) unfolding has_page_def keeps_paths_def by metis
    then show ?thesis using k by simp
  next
    case False
    then show ?thesis using s(3) 2 by simp
  qed
qed

section \<open>Page faults\<close>

lemma block_translated:
  assumes "nested_world w" "nested_inv F w Q np" "g < 2 ^ 48" "has_page g np \<or> has_2mpage w Q g np"
  shows "hw_translate pr la wrt np g \<noteq> None"
  using assms translate_small translate_large unfolding nested_inv_def has_page_def has_2mpage_def by metis

lemma nested_fault_ok:
  assumes "nested_world w" "unhandled_in w Q" "areas_ok sp" "nested_inv F w Q np" "g < 2 ^ 48"
    "\<And>v. same_config v (snd (em v))" "nested_fault F sp em wr g (w, np) = Inr (w', np')"
  shows "same_config w w' \<and> nested_inv F w Q np' \<and>
    (hw_translate pr la wrt np' g \<noteq> None \<or> mmio_access_page g None (mmio_lock w) = Inr (True, mmio_lock w))"
proof -
  let ?w = "mmio_lock w"
  have c: "same_config w ?w" by (rule lock_config)
  have e: "nested_inv F ?w Q = nested_inv F w Q" "nested_world ?w"
    using same_config_inv(1) [of ?w w F Q] same_config_inv(2) [of ?w w] c assms(1) by (auto simp: same_config_def fun_eq_iff)
  note u = unhandled_lock [OF assms(2)]
  obtain b np1 where t: "try_2mpage F ?w g np = Inr (b, np1)" "nested_inv F w Q np1" "b \<longrightarrow> has_2mpage ?w Q g np1"
    using try_2mpage_ok [OF e(2) _ assms(5) u, of np] assms(4) unfolding e(1) by blast
  show ?thesis
  proof (cases b)
    case True
    then have "w' = mmio_unlock ?w" "np' = np1" using assms(7) t(1) by (simp_all add: nested_fault_def Let_def)
    moreover have "hw_translate pr la wrt np1 g \<noteq> None"
      using block_translated [OF e(2), of Q np1 g] assms(5) t(2,3) True by (simp add: e(1))
    ultimately show ?thesis using t(2) same_config_trans [OF c lock_config(2)] by simp
  next
    case False
    then obtain found w1 where a: "mmio_access_page g (Some em) ?w = Inr (found, w1)"
      and r: "(if found then Inr (w1, np1) else bind_res (map_page F sp w1 wr g np1) (\<lambda>np. Inr (w1, np))) = Inr (w1, np')" "w' = mmio_unlock w1"
      using assms(7) t(1) by (auto simp: nested_fault_def Let_def bind_res_Inr_iff split: if_splits)
    show ?thesis
    proof (cases found)
      case True
      then have "mmio_access_page g None ?w = Inr (True, ?w)" "w1 = snd (em ?w)"
        using a by (auto simp: mmio_access_page_def Let_def dest: page_list_True)
      moreover have "same_config w w'"
        unfolding r(2) \<open>w1 = snd (em ?w)\<close> using c assms(6) lock_config(2) same_config_trans by blast
      ultimately show ?thesis using r(1) True t(2) by simp
    next
      case F: False
      then have w1: "w1 = ?w" "mmio_access_page g None ?w = Inr (False, ?w)" using access_page_cases [OF a] by auto
      then have p: "passes Q 0 g" using u assms(5) by (simp add: unhandled_in_def)
      have m: "map_page F sp ?w wr g np1 = Inr np'" using r(1) F w1(1) by (auto simp: bind_res_Inr_iff)
      have k: "nested_inv F w Q np' \<and> has_page g np'"
        using map_page_ok [OF e(2) u assms(3) _ assms(5) p m] t(2) unfolding e(1) by blast
      then have "hw_translate pr la wrt np' g \<noteq> None" using block_translated [OF assms(1) _ assms(5)] by blast
      then show ?thesis using k r(2) w1(1) same_config_trans [OF c lock_config(2)] by simp
    qed
  qed
qed

lemma map_low_ok:
  assumes "areas_ok sp" "\<And>v. J v \<Longrightarrow> unhandled_in v Q" "\<And>v. J v \<Longrightarrow> J (mmio_unlock (mmio_lock v))"
  shows "map_low F sp gs (w, np) = Inr (w', np') \<Longrightarrow> nested_world w \<Longrightarrow> J w \<Longrightarrow> nested_inv F w Q np \<Longrightarrow> \<forall>g\<in>set gs. g < 2 ^ 48 \<Longrightarrow>
    same_config w w' \<and> nested_inv F w Q np'"
proof (induction gs arbitrary: w np)
  case (Cons g gs)
  let ?w = "mmio_lock w"
  have c: "same_config w ?w" by (rule lock_config)
  have e: "nested_inv F ?w Q = nested_inv F w Q" "nested_world ?w"
    using same_config_inv(1) [of ?w w F Q] same_config_inv(2) [of ?w w] c Cons.prems(2) by (auto simp: same_config_def fun_eq_iff)
  note u = unhandled_lock [OF assms(2) [OF Cons.prems(3)]]
  obtain found w1 np1 where a: "mmio_access_page g None ?w = Inr (found, w1)"
    "(if found then Inr np else map_page F sp w1 False g np) = Inr np1" "map_low F sp gs (mmio_unlock w1, np1) = Inr (w', np')"
    using Cons.prems(1) by (auto simp: Let_def bind_res_Inr_iff)
  have w1: "w1 = ?w" using a(1) by (auto simp: mmio_access_page_def Let_def dest: page_list_None)
  have np1: "nested_inv F w Q np1"
  proof (cases found)
    case True
    then show ?thesis using a(2) Cons.prems(4) by simp
  next
    case False
    then have "passes Q 0 g" using a(1) w1 u Cons.prems(5) by (simp add: unhandled_in_def)
    then show ?thesis using map_page_ok [OF e(2) u assms(1), of np g False np1] a(2) w1 False Cons.prems(4,5) unfolding e(1) by simp
  qed
  have d: "same_config w (mmio_unlock w1)" unfolding w1 using same_config_trans [OF c lock_config(2)] .
  have f: "nested_inv F (mmio_unlock w1) Q = nested_inv F w Q" "nested_world (mmio_unlock w1)"
    using same_config_inv(1) [of "mmio_unlock w1" w F Q] same_config_inv(2) [of "mmio_unlock w1" w] d Cons.prems(2) by (auto simp: same_config_def fun_eq_iff)
  have g: "J (mmio_unlock w1)" unfolding w1 by (rule assms(3) [OF Cons.prems(3)])
  have "same_config (mmio_unlock w1) w' \<and> nested_inv F (mmio_unlock w1) Q np'"
    by (rule Cons.IH [OF a(3) f(2) g]) (use np1 Cons.prems(5) f(1) in auto)
  then show ?case using same_config_trans [OF d] f(1) by simp
qed (simp add: same_config_def)

lemma clear_all_ok: "nested_inv F w Q np \<Longrightarrow> nested_inv F w Q (nested_clear_all np)"
  using clear_tables_ok tables_ok_cong [of "nested_clear_all np" "clear_tables np"]
  unfolding nested_inv_def nested_clear_all_def np_cursor_ok_def by (fastforce simp: LEVELS_def clear_tables_def)

text \<open>The tables as \<open>vt_ept_init\<close> and \<open>svm_np_init\<close> leave them, over pages of the page allocator.\<close>

lemma init_ok:
  assumes "length ts = NUM_OF_TBL" "distinct (root # ts)" "\<forall>t\<in>set (root # ts). t AND ADDR = t \<and> in_vmm w t \<and> t \<noteq> phys_blank w"
  shows "nested_inv F w Q (nested_init root ts T)"
proof -
  have "tables_ok F w Q (\<lambda>_. (3, 0)) (nested_init root ts T)"
    using assms by (auto simp: tables_ok_def pool_ok_def tables_in_use_def nested_init_def zero_page_def entry_ok_def)
  then show ?thesis by (auto simp: nested_inv_def np_cursor_ok_def nested_init_def LEVELS_def)
qed

end

end
