(* ===== verification/Nested_Search.thy ===== *)
theory Nested_Search
  imports Nested_Inv
begin

text \<open>
  The search of the nested page tables for a range of addresses, with which a new MMIO range is taken
  out of them, and the page fault that always returns.
\<close>

section \<open>The search\<close>

text \<open>The range from \<open>start\<close> to \<open>end\<close> meets the page of \<open>a\<close>; addresses have \<open>n\<close> bits.\<close>

definition meets_page :: "nat \<Rightarrow> u64 \<Rightarrow> u64 \<Rightarrow> u64 \<Rightarrow> bool" where
  "meets_page n start end a \<longleftrightarrow> a < 2 ^ n \<and> start \<le> a OR 0xFFF \<and> a AND NOT 0xFFF \<le> end"

text \<open>What is left of \<open>Q\<close> without the guest pages whose host page the range meets.\<close>

definition taken_out :: "'a world_scheme \<Rightarrow> nat \<Rightarrow> u64 \<Rightarrow> u64 \<Rightarrow> u64 set \<Rightarrow> u64 set" where
  "taken_out w n start end Q = {a \<in> Q. \<not> meets_page n start end (fst (gmm_pass_gp2hp w a))}"

text \<open>The range meets none of the table pages.\<close>

definition avoids_tables :: "u64 \<Rightarrow> u64 \<Rightarrow> nested \<Rightarrow> bool" where
  "avoids_tables start end np \<longleftrightarrow> (\<forall>t\<in>set (ncr3tbl np # tbl np). \<not> (start \<le> t OR 0xFFF \<and> t \<le> end))"

lemma leaf_mono: "leaf_ok F w Q l n e \<Longrightarrow> Q \<subseteq> Q' \<Longrightarrow> leaf_ok F w Q' l n e"
  unfolding leaf_ok_def by blast

lemma nested_inv_mono: "nested_inv F w Q np \<Longrightarrow> Q \<subseteq> Q' \<Longrightarrow> nested_inv F w Q' np"
  using leaf_mono unfolding nested_inv_def tables_ok_def entry_ok_def by metis

lemma search_entries_own:
  assumes "\<not> present 0"
  shows "search_entries present hits True ps T = (False, \<lambda>p. if p \<in> set ps \<and> present (T p) \<and> hits (T p) then 0 else T p)"
proof (induction ps arbitrary: T)
  case (Cons p ps)
  then show ?case using assms by (auto simp: fun_eq_iff)
qed simp

lemma search_entries_other:
  "search_entries present hits False ps T = (\<exists>p\<in>set ps. present (T p) \<and> hits (T p), T)"
  by (induction ps) auto

lemma page_bounds: "a AND NOT 0xFFF \<le> a" "a \<le> a OR 0xFFF" for a :: u64
proof -
  show "a AND NOT 0xFFF \<le> a" by (rule word_and_le2)
  show "a \<le> a OR 0xFFF" by (rule le_word_or2)
qed

lemma or_clear: "(a AND NOT m) OR m = a OR m" for a m :: u64
  by (rule bit_word_eqI) (auto simp: bit_simps)

lemma and_keeps:
  fixes a m k :: u64
  assumes "a AND m = a" shows "(a AND k) AND m = a AND k"
proof -
  have "(a AND k) AND m = (a AND m) AND k" by (simp only: ac_simps)
  then show ?thesis by (simp only: assms)
qed

lemma page_or: "page (a OR 0xFFF) = page a"
  unfolding page_def by (rule bit_word_eqI) (auto simp: bit_simps)

lemma page_between:
  assumes "page a = page b" "a \<le> x" "x \<le> b" shows "page x = page a"
proof (rule page_eqI)
  have "unat a div 4096 = unat b div 4096" using arg_cong [OF assms(1), of unat] by (simp add: unat_page)
  moreover have "unat a div 4096 \<le> unat x div 4096" "unat x div 4096 \<le> unat b div 4096"
    using assms(2,3) by (simp_all add: word_le_nat_alt div_le_mono)
  ultimately show "unat x div 4096 = unat a div 4096" by simp
qed

lemma page_list_skips: "page_list a None ps w = Inr (False, w') \<Longrightarrow> page_list a em ps w = Inr (False, w)"
  by (induction ps) (auto simp: Let_def split: if_splits)

locale nested_search = nested_paging +
  fixes spr sla :: "u64 \<Rightarrow> bool"
  assumes absent: "\<not> spr 0"
    and link_search: "t AND ADDR = t \<Longrightarrow> \<not> sla (fm_link F t)"
    and small_search: "spr (fm_page F c g h ro)"
    and large_search: "spr (fm_large F c g h) \<and> sla (fm_large F c g h)"
begin

lemma mask_page: "n \<le> 52 \<Longrightarrow> e AND (mask n AND NOT (mask 12)) = (e AND ADDR) AND mask n"
proof -
  assume n: "n \<le> 52"
  have m: "ADDR = mask 52 AND NOT (mask 12)" by (simp add: ADDR_def mask_eq_exp_minus_1)
  show ?thesis unfolding m using n by (intro bit_word_eqI) (auto simp: bit_simps)
qed

text \<open>A table is not in the range, so its link is kept.\<close>

lemma link_kept:
  assumes "vmm_placed w" "32 \<le> n" "n \<le> 52" "\<not> (start \<le> t OR 0xFFF \<and> t \<le> end)" "t AND ADDR = t" "in_vmm w t"
  shows "\<not> entry_hit sla (mask n AND NOT (mask 12)) start end (fm_link F t)"
proof
  assume h: "entry_hit sla (mask n AND NOT (mask 12)) start end (fm_link F t)"
  have "unat t < 2 ^ 32" using assms(1,6) by (simp add: vmm_placed_def in_vmm_def VMMSIZE_ALL_def)
  then have "t < 2 ^ 32" by (simp add: word_less_nat_alt)
  then have "t AND mask 32 = t" by (rule less_mask_eq)
  then have "t AND mask n = t" using assms(2) by (intro bit_word_eqI) (metis bit_and_iff bit_mask_iff order_less_le_trans)
  moreover have "fm_link F t AND (mask n AND NOT (mask 12)) = t AND mask n"
    using mask_page [OF assms(3)] link [OF assms(5)] by simp
  ultimately show False using h link_search [OF assms(5)] assms(4) by (simp add: entry_hit_def Let_def)
qed

text \<open>An entry that ends the walk and is kept translates none of the pages in the range.\<close>

lemma leaf_kept:
  assumes "nested_world w" "n \<le> 52" "leaf_ok F w Q l m e"
    "\<not> entry_hit sla (mask n AND NOT (mask 12)) start end e"
  shows "leaf_ok F w (taken_out w n start end Q) l m e"
proof -
  have v: "vmm_placed w" using assms(1) by (simp add: nested_world_def)
  have m12: "(0xFFF :: u64) = mask 12" and m21: "(0x1FFFFF :: u64) = mask 21" by (simp_all add: mask_eq_exp_minus_1)
  obtain c b where b: "b < 2 ^ 48" "pfx l b = m"
    "l = 0 \<and> e = fm_page F c b (fst (gmm_pass_gp2hp w b) AND NOT 0xFFF) (snd (gmm_pass_gp2hp w b)) \<or>
     l = 1 \<and> b AND 0x1FFFFF = 0 \<and> \<not> phys_in_vmm (vmm_start_phys w) b \<and> e = fm_large F c b b"
    using assms(3) unfolding leaf_ok_def by blast
  have "\<not> meets_page n start end (fst (gmm_pass_gp2hp w a))" if a: "a < 2 ^ 48" "pfx l a = m" for a
  proof
    let ?x = "fst (gmm_pass_gp2hp w a)"
    assume h: "meets_page n start end ?x"
    then have an: "?x AND mask n = ?x" by (simp add: meets_page_def less_mask_eq)
    have "entry_hit sla (mask n AND NOT (mask 12)) start end e"
      using b(3)
    proof (elim disjE conjE, goal_cases)
      case 1
      have p: "pfx 0 b = pfx 0 a" using a(2) b(2) 1(1) by simp
      let ?h = "?x AND NOT 0xFFF"
      have "phys_blank w AND NOT 0xFFF = phys_blank w" "phys_blank w AND ADDR = phys_blank w"
        using v assms(1) unfolding vmm_placed_def nested_world_def page_def by blast+
      then have hh: "?h AND ADDR = ?h" using low_page [OF a(1)] by (simp add: gmm_pass_gp2hp_def)
      have "fst (gmm_pass_gp2hp w b) AND NOT 0xFFF = ?h" using gp2hp_same_page [OF v p] by simp
      then have "e AND ADDR = ?h" using 1(2) small [OF hh] by simp
      then have "e AND (mask n AND NOT (mask 12)) = ?h AND mask n" using mask_page [OF assms(2)] by simp
      also have "\<dots> = ?h" by (rule and_keeps [OF an])
      finally have t: "e AND (mask n AND NOT (mask 12)) = ?h" .
      have "?h OR 0xFFF = ?x OR 0xFFF" by (rule or_clear)
      then have r: "start \<le> ?h OR 0xFFF" "?h \<le> end" using h by (simp_all add: meets_page_def)
      have "?h OR 0xFFF \<le> (?h OR 0xFFF) OR 0x1FFFFF" "?h AND NOT 0x1FFFFF \<le> ?h" by (rule le_word_or2, rule word_and_le2)
      then show ?case using r order_trans unfolding entry_hit_def Let_def t by (auto split: if_splits)
    next
      case 2
      have p: "pfx 1 a = pfx 1 b" using a(2) b(2) 2(1) by simp
      have nb: "\<not> in_vmm w b" using 2(3) phys_in_vmm_iff [OF v] by simp
      note o = block_outside_vmm(2) [OF assms(1) p 2(2) nb]
      have x: "?x = a" using block_outside_vmm(1) [OF assms(1) p 2(2) nb] phys_in_vmm_iff [OF v] by (simp add: gmm_pass_gp2hp_def)
      have ab: "b AND ADDR = b" by (rule low_addr [OF b(1) 2(2)])
      note e = large [OF ab 2(2), of c]
      have bn: "b AND mask n = b" using and_keeps [OF an, of "NOT 0x1FFFFF"] o by (simp add: x)
      let ?t = "e AND (mask n AND NOT (mask 12))"
      have t: "?t AND NOT 0x1FFFFF = b"
      proof -
        have "?t AND NOT 0x1FFFFF = (e AND ADDR AND NOT 0x1FFFFF) AND mask n"
          unfolding mask_page [OF assms(2)] by (simp only: ac_simps)
        then show ?thesis using e 2(4) bn by simp
      qed
      have u: "?t OR 0xFFF OR 0x1FFFFF = b OR 0x1FFFFF"
      proof -
        have "?t OR 0xFFF OR 0x1FFFFF = (?t AND NOT 0x1FFFFF) OR 0x1FFFFF"
          unfolding or_clear m12 m21 by (rule bit_word_eqI) (auto simp: bit_simps)
        then show ?thesis unfolding t .
      qed
      have s1: "a OR 0xFFF \<le> b OR 0x1FFFFF"
      proof -
        have "(a OR 0xFFF) OR 0x1FFFFF = b OR 0x1FFFFF"
          unfolding o [symmetric] m12 m21 by (rule bit_word_eqI) (auto simp: bit_simps)
        then show ?thesis by (metis le_word_or2)
      qed
      have s2: "b \<le> a AND NOT 0xFFF"
      proof -
        have "b = (a AND NOT 0xFFF) AND NOT 0x1FFFFF"
          unfolding o [symmetric] m12 m21 by (rule bit_word_eqI) (auto simp: bit_simps)
        then show ?thesis by (metis word_and_le2)
      qed
      have "sla e" using 2(4) large_search by simp
      then show ?case using h [unfolded x] s1 s2 t u unfolding entry_hit_def Let_def meets_page_def
        by (simp add: or.assoc) (meson order_trans)
    qed
    then show False using assms(4) by simp
  qed
  then show ?thesis using assms(3) by (auto simp: leaf_ok_def taken_out_def)
qed

lemma searched_ok:
  assumes "nested_world w" "32 \<le> n" "n \<le> 52" "avoids_tables start end np" "nested_inv F w Q np"
  defines "hits \<equiv> entry_hit sla (mask n AND NOT (mask 12)) start end"
  assumes "\<And>p. T' p = tables np p \<or> T' p = 0 \<and> hits (tables np p) \<and> snd p < 512"
    "\<And>t j. t \<in> set (take (cnt np) (tbl np)) \<Longrightarrow> j < 512 \<Longrightarrow> spr (T' (t, j)) \<Longrightarrow> \<not> hits (T' (t, j))"
  shows "nested_inv F w (taken_out w n start end Q) (np\<lparr>tables := T'\<rparr>)"
proof -
  let ?Q = "taken_out w n start end Q" and ?np = "np\<lparr>tables := T'\<rparr>"
  have v: "vmm_placed w" using assms(1) by (simp add: nested_world_def)
  obtain own where o: "tables_ok F w Q own np" and c: "np_cursor_ok F np" using assms(5) by (auto simp: nested_inv_def)
  have pool: "t AND ADDR = t \<and> in_vmm w t" if "t \<in> tables_in_use np" for t
    using o that by (auto simp: tables_ok_def pool_ok_def tables_in_use_def dest: in_set_takeD)
  have lk: "\<not> hits (fm_link F t)" if "t \<in> tables_in_use np" for t
    unfolding hits_def by (rule link_kept [OF v assms(2,3)])
      (use assms(4) pool that in \<open>auto simp: avoids_tables_def tables_in_use_def dest: in_set_takeD\<close>)
  have e: "entry_ok F w ?Q own (tables_in_use np) (fst (own t)) (snd (own t) * 512 + j) (T' (t, j))" if t: "t \<in> tables_in_use np" "j < 512" for t j
  proof -
    have old: "entry_ok F w Q own (tables_in_use np) (fst (own t)) (snd (own t) * 512 + j) (tables np (t, j))"
      using o t by (simp add: tables_ok_def)
    show ?thesis
    proof (cases "T' (t, j) = tables np (t, j) \<and> leaf_ok F w Q (fst (own t)) (snd (own t) * 512 + j) (tables np (t, j))")
      case True
      then have l: "leaf_ok F w Q (fst (own t)) (snd (own t) * 512 + j) (T' (t, j))" by simp
      have "t \<noteq> ncr3tbl np" using l o by (auto simp: leaf_ok_def tables_ok_def)
      then have "t \<in> set (take (cnt np) (tbl np))" using t(1) by (simp add: tables_in_use_def)
      moreover have "spr (T' (t, j))" using l small_search large_search by (auto simp: leaf_ok_def)
      ultimately have "\<not> hits (T' (t, j))" using assms(8) t(2) by blast
      then show ?thesis using leaf_kept [OF assms(1,3) l] by (simp add: entry_ok_def hits_def)
    next
      case False
      then show ?thesis using old assms(7) [of "(t, j)"] by (auto simp: entry_ok_def)
    qed
  qed
  have "tables_ok F w ?Q own ?np" using o e by (auto simp: tables_ok_def pool_ok_def tables_in_use_def)
  moreover have "np_cursor_ok F ?np"
  proof -
    have k: "on_path F T' (ncr3tbl np) g k s" if "g < 2 ^ 48" "on_path F (tables np) (ncr3tbl np) g k s" for g k s
    proof (rule path_keeps [OF o that])
      fix p assume "T' p \<noteq> tables np p"
      then have h: "hits (tables np p)" "snd p < 512" using assms(7) by blast+
      have "fst p \<in> tables_in_use np \<longrightarrow> fm_stop F (tables np p) \<or> fst (own (fst p)) = 0"
      proof
        assume t: "fst p \<in> tables_in_use np"
        have "entry_ok F w Q own (tables_in_use np) (fst (own (fst p))) (snd (own (fst p)) * 512 + snd p) (tables np p)"
          using o t h(2) by (metis prod.collapse tables_ok_def)
        then consider "tables np p = 0" | m where "leaf_ok F w Q (fst (own (fst p))) m (tables np p)"
          using lk h(1) by (auto simp: entry_ok_def)
        then show "fm_stop F (tables np p) \<or> fst (own (fst p)) = 0"
        proof cases
          case 1 then show ?thesis using stop_0 by simp
        next
          case 2 then show ?thesis by (cases "fst (own (fst p))") (auto dest: large_stop)
        qed
      qed
      then show "fm_stop F (tables np p) \<or> fst p \<notin> tables_in_use np \<or> fst (own (fst p)) = 0" by auto
    qed
    then show ?thesis using c unfolding np_cursor_ok_def by fastforce
  qed
  ultimately show ?thesis by (auto simp: nested_inv_def)
qed

lemma mapsearch_ok:
  assumes "nested_world w" "32 \<le> n" "n \<le> 52" "avoids_tables start end np" "nested_inv F w Q np"
    "nested_mapsearch spr sla own (mask n AND NOT (mask 12)) start end np = (found, np')"
  shows "(own \<longrightarrow> \<not> found) \<and> (\<not> own \<longrightarrow> np' = np) \<and> (\<not> found \<longrightarrow> nested_inv F w (taken_out w n start end Q) np')"
proof (cases own)
  case True
  let ?hits = "entry_hit sla (mask n AND NOT (mask 12)) start end"
  let ?ps = "List.product (take (cnt np) (tbl np)) [0..<512]"
  let ?T = "\<lambda>p. if p \<in> set ?ps \<and> spr (tables np p) \<and> ?hits (tables np p) then 0 else tables np p"
  have s: "found = False" "np' = np\<lparr>tables := ?T\<rparr>"
    using assms(6) True unfolding nested_mapsearch_def by (simp_all add: search_entries_own [of spr, OF absent])
  have "nested_inv F w (taken_out w n start end Q) (np\<lparr>tables := ?T\<rparr>)"
    by (rule searched_ok [OF assms(1-5)]) (auto simp: absent split: if_splits)
  then show ?thesis using s True by simp
next
  case False
  let ?f = "\<exists>p\<in>set (List.product (take (cnt np) (tbl np)) [0..<512]). spr (tables np p) \<and>
      entry_hit sla (mask n AND NOT (mask 12)) start end (tables np p)"
  have "nested_mapsearch spr sla own (mask n AND NOT (mask 12)) start end np = (?f, np)"
    unfolding nested_mapsearch_def using False by (simp only: search_entries_other prod.case) simp
  then have s: "found = ?f" "np' = np" using assms(6) by simp_all
  have "nested_inv F w (taken_out w n start end Q) (np\<lparr>tables := tables np\<rparr>)" if "\<not> found"
    by (rule searched_ok [OF assms(1-5)]) (use that s(1) in auto)
  then show ?thesis using s False by simp
qed

end

section \<open>A page fault returns\<close>

context nested_paging
begin

lemma map_page_total:
  assumes "nested_world w" "nested_inv F w Q np" "g < 2 ^ 48" "passes Q 0 g" "\<not> (snd (gmm_pass_gp2hp w g) \<and> wr)"
  shows "\<exists>np'. map_page F None w wr g np = Inr np'"
proof -
  have c: "map_page_clear_cleared F None w x = Inr (x\<lparr>cleared := False\<rparr>)" for x
    by (simp add: map_page_clear_cleared_def force_areas.simps gmm_pass_getforcemap_def)
  define np1 where "np1 = (if cleared np then np\<lparr>cleared := False\<rparr> else np)"
  have "nested_inv F w Q np1" using assms(2) by (simp add: np1_def set_cleared_inv)
  from map_page_sub_ok [OF assms(1) this assms(3,4), of wr] obtain np2 where "map_page_sub F w wr g np1 = Inr np2"
    using assms(5) by auto
  moreover have "map_page F None w wr g np = bind_res (map_page_sub F w wr g np1)
      (\<lambda>np. if cleared np then map_page_clear_cleared F None w np else Inr np)"
    by (simp add: map_page_def c np1_def)
  ultimately show ?thesis by (simp add: c)
qed

lemma nested_fault_total:
  assumes "nested_world w" "unhandled_in w Q" "nested_inv F w Q np" "g < 2 ^ 48" "\<not> (snd (gmm_pass_gp2hp w g) \<and> wr)"
    "mmio_access_page g None w = Inr (False, w)" "\<And>v. same_config v (snd (em v))"
  shows "\<exists>np'. nested_fault F None em wr g (w, np) = Inr (mmio_unlock (mmio_lock w), np') \<and> hw_translate pr la wrt np' g \<noteq> None"
proof -
  let ?w = "mmio_lock w"
  have e: "nested_inv F ?w Q = nested_inv F w Q" "nested_world ?w" "gmm_pass_gp2hp ?w = gmm_pass_gp2hp w"
    using same_config_inv(1) [of ?w w F Q] same_config_inv(2) [of ?w w] lock_config(1) [of w] assms(1)
    by (auto simp: same_config_def fun_eq_iff gmm_pass_gp2hp_def)
  note u = unhandled_lock [OF assms(2)]
  have l: "mmio_access_page g None ?w = Inr (False, ?w)" by (simp add: access_page_lock assms(6))
  obtain b np1 where t: "try_2mpage F ?w g np = Inr (b, np1)" "nested_inv F w Q np1"
    using try_2mpage_ok [OF e(2) _ assms(4) u, of np] assms(3) unfolding e(1) by blast
  have a: "mmio_access_page g (Some em) ?w = Inr (False, ?w)"
    using l by (auto simp: mmio_access_page_def Let_def dest: page_list_skips)
  have p: "passes Q 0 g" using assms(2,4,6) by (simp add: unhandled_in_def)
  obtain np2 where m: "map_page F None ?w wr g np1 = Inr np2"
    using map_page_total [OF e(2) _ assms(4) p, of np1 wr] t(2) assms(5) unfolding e(1,3) by blast
  have "\<exists>np'. nested_fault F None em wr g (w, np) = Inr (mmio_unlock ?w, np')"
    using t(1) a m by (cases b) (simp_all add: nested_fault_def Let_def)
  then obtain np' where r: "nested_fault F None em wr g (w, np) = Inr (mmio_unlock ?w, np')" by blast
  have "areas_ok None" by (simp add: areas_ok_def)
  from nested_fault_ok [OF assms(1,2) this assms(3,4,7) r] show ?thesis using r l by auto
qed

end

end
