(* ===== verification/Mmio_Range.thy ===== *)
theory Mmio_Range
  imports Mmio
begin

text \<open>
  What \<open>mmio_range\<close> finds, and the guest pages that no registered range meets.
\<close>

section \<open>The search for a range\<close>

lemma range_list_hit:
  assumes "proper a n" "\<forall>p\<in>set ps. proper (gphys (info p)) (len (info p))" "range_list a n info ps = Some r" "r \<noteq> 0"
  shows "\<exists>p\<in>set ps. meets (info p) a n \<and> r = gphys (info p) + ucast (len (info p))"
  using assms(2,3)
proof (induction ps)
  case (Cons p ps)
  then show ?case using range_hit_iff [OF assms(1), of "info p"] assms(4) by (auto simp: Let_def split: if_splits)
qed simp

lemma range_list_miss:
  assumes "proper a n" "\<forall>p\<in>set ps. proper (gphys (info p)) (len (info p))" "sorted (map (\<lambda>p. gphys (info p)) ps)"
    "range_list a n info ps = None \<or> range_list a n info ps = Some 0" "p \<in> set ps"
  shows "\<not> meets (info p) a n"
  using assms(2-5)
proof (induction ps)
  case (Cons q ps)
  have q: "proper (gphys (info q)) (len (info q))" using Cons.prems(1) by simp
  show ?case
  proof (cases "gphys (info q) \<ge> a + ucast n")
    case True
    then have "a + ucast n \<le> gphys (info p)" using Cons.prems(2,4) by auto
    then show ?thesis using unat_end(1) [OF assms(1)] by (auto simp: meets_def extent_def word_le_nat_alt)
  next
    case False
    have "gphys (info q) + ucast (len (info q)) \<noteq> 0" using unat_end(1) [OF q] q by (auto simp: proper_def)
    then have "\<not> range_hit (info q) a n" using Cons.prems(3) False by (auto simp: Let_def split: if_splits)
    then show ?thesis using Cons False range_hit_iff [OF assms(1) q] by (auto simp: Let_def)
  qed
qed simp

lemma range_list_beyond:
  assumes "\<forall>p\<in>set ps. proper (gphys (info p)) (len (info p))" "range_list a n info ps = Some 0"
  shows "\<exists>p\<in>set ps. a + ucast n \<le> gphys (info p)"
  using assms
proof (induction ps)
  case (Cons q ps)
  have q: "proper (gphys (info q)) (len (info q))" using Cons.prems(1) by simp
  then have "gphys (info q) + ucast (len (info q)) \<noteq> 0" using unat_end(1) [OF q] by (auto simp: proper_def)
  then show ?case using Cons by (auto simp: Let_def split: if_splits)
qed simp

lemma slots_hit:
  assumes "mmio_inv w" "proper a n" "range_slots a n w is \<noteq> 0"
  shows "\<exists>p\<in>set (handles w). meets (hinfo w p) a n \<and> range_slots a n w is = gphys (hinfo w p) + ucast (len (hinfo w p))"
  using assms(3)
proof (induction "is")
  case (Cons i "is")
  have s: "set (mmio w i) \<subseteq> set (handles w)" using mmio_inv_slot(3) [OF assms(1)] by blast
  have p: "\<forall>p\<in>set (mmio w i). proper (gphys (hinfo w p)) (len (hinfo w p))" using s mmio_inv_handle(2) [OF assms(1)] by blast
  show ?case
  proof (cases "range_list a n (hinfo w) (mmio w i)")
    case None
    then show ?thesis using Cons by simp
  next
    case (Some r)
    then show ?thesis using range_list_hit [OF assms(2) p Some] Cons.prems s by auto
  qed
qed simp

lemma slots_miss:
  assumes "mmio_inv w" "proper a n" "range_slots a n w is = 0" "sorted_wrt (<) is"
    "p \<in> set (handles w)" "x \<in> extent (gphys (hinfo w p)) (len (hinfo w p))" "x \<in> extent a n" "\<not> unregistered (hinfo w p)"
  shows "min (x div 268435456) 16 \<notin> set is"
  using assms(3,4)
proof (induction "is")
  case (Cons i "is")
  let ?s = "min (x div 268435456) 16" and ?ps = "mmio w i"
  have s: "set ?ps \<subseteq> set (handles w)" using mmio_inv_slot(3) [OF assms(1)] by blast
  have pr: "\<forall>p\<in>set ?ps. proper (gphys (hinfo w p)) (len (hinfo w p))" using s mmio_inv_handle(2) [OF assms(1)] by blast
  have m: "meets (hinfo w p) a n" using assms(6-8) by (auto simp: meets_def)
  have in_p: "p \<in> set (mmio w ?s)" by (rule meets_listed [OF assms(1,5,6)])
  note miss = range_list_miss [OF assms(2) pr mmio_inv_slot(2) [OF assms(1)]]
  show ?case
  proof (cases "range_list a n (hinfo w) ?ps")
    case None
    then have "i \<noteq> ?s" using miss [of p] in_p m by auto
    then show ?thesis using Cons None by auto
  next
    case (Some r)
    then have r: "range_list a n (hinfo w) ?ps = Some 0" using Cons.prems(1) by simp
    then have i: "i \<noteq> ?s" using miss [of p] in_p m by auto
    obtain q where q: "q \<in> set ?ps" "a + ucast n \<le> gphys (hinfo w q)" using range_list_beyond [OF pr r] by blast
    then have "slot (gphys (hinfo w q)) \<le> i" using mmio_inv_slot(3) [OF assms(1)] by (auto simp: covers_slot_def)
    moreover have "a + ucast n - 1 \<le> gphys (hinfo w q)"
      using q(2) unat_end [OF assms(2)] by (simp add: word_le_nat_alt)
    ultimately have "slot (a + ucast n - 1) \<le> i" using slot_mono order_trans by blast
    moreover have "?s \<le> slot (a + ucast n - 1)"
      using assms(7) unat_end(2) [OF assms(2)] unfolding slot_eq by (auto simp: extent_def intro!: min.mono div_le_mono)
    ultimately show ?thesis using i Cons.prems(2) by auto
  qed
qed simp

lemma mmio_range_zero:
  assumes "mmio_inv w" "proper a n" "mmio_range a n w = 0" "p \<in> set (handles w)"
  shows "\<not> meets (hinfo w p) a n"
proof
  assume m: "meets (hinfo w p) a n"
  then obtain x where x: "x \<in> extent (gphys (hinfo w p)) (len (hinfo w p))" "x \<in> extent a n" by (auto simp: meets_def)
  have "n \<noteq> 0" using assms(2) by (auto simp: proper_def)
  then have r: "range_slots a n w [slot a..<slot (a + ucast n - 1) + 1] = 0" using assms(3) by (simp add: mmio_range_def)
  have "min (x div 268435456) 16 \<notin> set [slot a..<slot (a + ucast n - 1) + 1]"
    by (rule slots_miss [OF assms(1,2) r _ assms(4) x]) (use m in \<open>simp_all add: meets_def sorted_wrt_upt del: upt_Suc\<close>)
  moreover have "slot a \<le> min (x div 268435456) 16" "min (x div 268435456) 16 \<le> slot (a + ucast n - 1)"
    using x(2) unat_end(2) [OF assms(2)] unfolding slot_eq by (auto simp: extent_def intro!: min.mono div_le_mono)
  ultimately show False by simp
qed

lemma mmio_range_next:
  assumes "mmio_inv w" "proper a n" "mmio_range a n w \<noteq> 0"
  shows "unat a < unat (mmio_range a n w)" "unat (mmio_range a n w) < unat a + unat n + 2 ^ 32"
proof -
  have "mmio_range a n w = range_slots a n w [slot a..<slot (a + ucast n - 1) + 1]"
    using assms(3) by (auto simp: mmio_range_def)
  then obtain p where p: "p \<in> set (handles w)" "meets (hinfo w p) a n" "mmio_range a n w = gphys (hinfo w p) + ucast (len (hinfo w p))"
    using slots_hit [OF assms(1,2)] assms(3) by metis
  have q: "proper (gphys (hinfo w p)) (len (hinfo w p))" using mmio_inv_handle(2) [OF assms(1) p(1)] .
  have m: "unat a < unat (gphys (hinfo w p)) + unat (len (hinfo w p)) \<and> unat (gphys (hinfo w p)) < unat a + unat n"
    using p(2) meets_iff q assms(2) by (simp add: proper_def)
  have "unat (len (hinfo w p)) < 2 ^ 32" using unat_bound_32 [of "len (hinfo w p)"] by simp
  then show "unat a < unat (mmio_range a n w)" "unat (mmio_range a n w) < unat a + unat n + 2 ^ 32"
    using m unfolding p(3) unat_end(1) [OF q] by simp_all
qed

section \<open>Pages without a handler\<close>

definition unhandled :: "'d mmio_data \<Rightarrow> u64 set" where
  "unhandled w = {a. \<forall>p\<in>set (handles w). \<not> meets (hinfo w p) (page a) 4096}"

lemma unhandled_part:
  assumes "\<forall>p\<in>set (handles w). \<not> meets (hinfo w p) b n" "extent (page a) 4096 \<subseteq> extent b n"
  shows "a \<in> unhandled w"
  using assms by (auto simp: unhandled_def meets_def)

end
