(* ===== verification/Nested_Trap.thy ===== *)
theory Nested_Trap
  imports Nested_Search Mmio_Range
begin

text \<open>
  Nested page tables and MMIO ranges together: the pages that may be entered are those no registered
  range meets, and the loop over an area of the forced map ends.
\<close>

lemma extent_page: "extent (page a) 4096 = {unat a div 4096 * 4096..<unat a div 4096 * 4096 + 4096}"
  by (simp add: extent_def unat_page)

lemma page_in_block:
  assumes "pfx 1 a = pfx 1 g" shows "extent (page a) 4096 \<subseteq> extent (g AND NOT 0x1FFFFF) 0x200000"
proof -
  have q: "unat a div 2097152 = unat g div 2097152" using assms by (simp add: pfx_def)
  have "unat a div 4096 div 512 = unat a div 2097152" by (simp add: div_mult2_eq [symmetric])
  then have "unat a div 4096 div 512 = unat g div 2097152" using q by simp
  then obtain r where r: "unat a div 4096 = unat g div 2097152 * 512 + r" "r < 512"
    by (metis mod_less_divisor div_mult_mod_eq zero_less_numeral)
  show ?thesis unfolding extent_page unfolding extent_def clear_low_mask using r by auto
qed

lemma page_in_page:
  assumes "pfx 0 a = pfx 0 g" shows "page a = page g"
  using assms by (intro page_eqI) (simp add: pfx_def)

lemma page_aligned: "g AND 0xFFF = 0 \<Longrightarrow> page g = g"
proof -
  assume "g AND 0xFFF = 0"
  then have "unat g div 4096 * 4096 = unat g" unfolding aligned_iff by (metis add.right_neutral div_mult_mod_eq)
  then have "unat (page g) = unat g" by (simp only: unat_page)
  then show ?thesis by (simp only: word_unat_eq_iff)
qed

lemma proper_low:
  assumes "g < 2 ^ 48" shows "proper (page g) 4096" "proper (g AND NOT 0x1FFFFF) 0x200000"
proof -
  have "unat g < 2 ^ 48" using assms by (simp add: word_less_nat_alt)
  then show "proper (page g) 4096" "proper (g AND NOT 0x1FFFFF) 0x200000"
    using div_times_less_eq_dividend [of "unat g" 4096] div_times_less_eq_dividend [of "unat g" 2097152]
    unfolding proper_def unat_page clear_low_mask by simp_all
qed

text \<open>The MMIO dispatcher guarantees what the page fault handler relies on.\<close>

lemma passes_unhandled:
  assumes "\<forall>p\<in>set (handles w). \<not> meets (hinfo w p) (page g) 4096"
  shows "passes (unhandled w) 0 g"
proof -
  have "h \<in> unhandled w" if "pfx 0 h = pfx 0 g" for h
    using assms by (simp add: unhandled_def page_in_page [OF that])
  then show ?thesis by (simp add: passes_def)
qed

lemma unhandled_in_unhandled:
  assumes "mmio_inv w" shows "unhandled_in w (unhandled w)"
  unfolding unhandled_in_def
proof (intro allI impI conjI, goal_cases)
  case (1 g)
  then show ?case
    using mmio_range_zero [OF assms proper_low(2) [OF 1(1)]] unhandled_part page_in_block unfolding passes_def by blast
next
  case (2 g)
  have p: "page g = g" by (rule page_aligned [OF 2(2)])
  show ?case using mmio_range_zero [OF assms proper_low(1) [OF 2(1)]] 2(3) by (intro passes_unhandled) (simp add: p)
next
  case (3 g)
  then show ?case using access_page_iff [OF assms proper_low(1) [OF 3(1)]] by (intro passes_unhandled) simp
qed

lemma aligned_ge:
  fixes x :: u64
  assumes "x AND 0xFFF = 0" "x \<noteq> 0" shows "4096 \<le> unat x"
proof -
  have "0 < unat x" using assms(2) by (simp add: unat_gt_0)
  moreover have "4096 dvd unat x" using assms(1) by (simp only: aligned_iff mod_eq_0_iff_dvd)
  ultimately show ?thesis by (rule dvd_imp_le [rotated])
qed

context nested_paging
begin

lemma force_step_advances:
  assumes "nested_world w" "nested_inv F w Q np" "g < 2 ^ 48" "unhandled_in w Q" "g AND 0xFFF = 0" "mmio_inv w"
  shows "case force_step F w g np of Inl f \<Rightarrow> f = Panic (fm_panic F) | Inr (sz, np') \<Rightarrow> 4096 \<le> unat sz"
proof -
  obtain b np1 where t: "try_2mpage F w g np = Inr (b, np1)" "nested_inv F w Q np1"
    using try_2mpage_ok [OF assms(1-4)] by blast
  have gg: "page g = g" by (rule page_aligned [OF assms(5)])
  show ?thesis
  proof (cases b)
    case True
    have "unat g \<le> unat (g OR 0x1FFFFF)" using le_word_or2 [of g "0x1FFFFF"] by (simp add: word_le_nat_alt)
    moreover have "g OR 0x1FFFFF < 2 ^ 48"
    proof -
      have "(g OR 0x1FFFFF) AND mask 48 = (g AND mask 48) OR (0x1FFFFF AND mask 48)" by (simp only: bit.conj_disj_distrib2)
      also have "\<dots> = g OR 0x1FFFFF" using less_mask_eq [OF assms(3)] by (simp add: mask_eq_exp_minus_1)
      finally have "uint (g OR 0x1FFFFF) < 2 ^ 48" by (simp only: mask_eq_iff)
      then show ?thesis by (simp add: word_less_alt)
    qed
    ultimately have "(g OR 0x1FFFFF) + 1 \<noteq> g"
      by (auto simp: word_less_nat_alt unat_word_ariths dest: arg_cong [where f = unat])
    then have "(g OR 0x1FFFFF) + 1 - g \<noteq> 0" by simp
    then show ?thesis using t True aligned_ge [OF aligned_diff [OF after_block assms(5)]] by (simp add: force_step_def)
  next
    case F: False
    show ?thesis
    proof (cases "mmio_range g 0x1000 w = 0")
      case True
      then have "passes Q 0 g" using assms(3-5) by (simp add: unhandled_in_def)
      from map_page_sub_ok [OF assms(1) t(2) assms(3) this, of True] show ?thesis
        using t F True by (auto simp: force_step_def split: if_splits)
    next
      case False
      let ?n = "mmio_range g 0x1000 w"
      have n: "unat g < unat ?n" "unat ?n < unat g + 4096 + 2 ^ 32"
        using mmio_range_next [OF assms(6) _ False] proper_low(1) [OF assms(3)] gg by auto
      define d where "d = ?n - g + 0x1000 - 1"
      have "unat (?n - g) = unat ?n - unat g" using n(1) by (simp add: unat_sub word_le_nat_alt)
      moreover have "d = (?n - g) + 0xFFF" by (simp add: d_def)
      ultimately have d: "unat d = unat ?n - unat g + 4095" using n by (simp add: unat_add_lem [THEN iffD1])
      have "4096 \<le> unat (page d)" unfolding unat_page d using n(1) by (simp add: le_div_geq)
      then show ?thesis using t F False by (simp add: force_step_def Let_def d_def page_def)
    qed
  qed
qed

lemma force_area_ends:
  assumes "nested_world w" "unhandled_in w Q" "mmio_inv w"
  shows "nested_inv F w Q np \<Longrightarrow> g AND 0xFFF = 0 \<Longrightarrow> unat g + unat k \<le> 2 ^ 48 \<Longrightarrow> unat k < 4096 * n \<Longrightarrow>
    force_area F w n g k np \<noteq> Inl OutOfFuel"
proof (induction n arbitrary: g k np)
  case (Suc n)
  show ?case
  proof (cases "k > 0")
    case True
    then have k: "0 < unat k" by (simp add: word_less_nat_alt)
    then have g: "g < 2 ^ 48" using Suc.prems(3) by (simp add: word_less_nat_alt)
    note a = force_step_advances [OF assms(1) Suc.prems(1) g assms(2) Suc.prems(2) assms(3)]
    show ?thesis
    proof (cases "force_step F w g np")
      case (Inl f)
      then show ?thesis using a True by simp
    next
      case (Inr r)
      obtain sz np1 where r: "r = (sz, np1)" by fastforce
      have s: "4096 \<le> unat sz" using a Inr r by simp
      note st = force_step_ok [OF assms(1) Suc.prems(1) g assms(2) Suc.prems(2) Inr [unfolded r]]
      show ?thesis
      proof (cases "sz > k \<or> sz = k")
        case T: True
        then have "(if sz > k then k else sz) = k" by auto
        then show ?thesis using True Inr r by (cases n) (auto simp: Let_def)
      next
        case F: False
        then have l: "unat sz < unat k" "(if sz > k then k else sz) = sz" by (auto simp: word_less_nat_alt word_unat_eq_iff)
        have u: "unat (g + sz) = unat g + unat sz" "unat (k - sz) = unat k - unat sz"
          using l(1) Suc.prems(3) by (simp_all add: unat_sub word_le_nat_alt unat_add_lem [THEN iffD1])
        have "force_area F w n (g + sz) (k - sz) np1 \<noteq> Inl OutOfFuel"
        proof (rule Suc.IH)
          show "nested_inv F w Q np1" "(g + sz) AND 0xFFF = 0" using st aligned_add [OF Suc.prems(2)] by auto
          show "unat (g + sz) + unat (k - sz) \<le> 2 ^ 48" "unat (k - sz) < 4096 * n"
            using u l(1) s Suc.prems(3,4) by auto
        qed
        then show ?thesis using True Inr r l(2) by (simp add: Let_def)
      qed
    qed
  qed simp
qed simp

end

end
