(* ===== verification/Nested_Flush.thy ===== *)
theory Nested_Flush
  imports Nested_Trap
begin

text \<open>
  Registration of an MMIO range on a guest with several processors: \<open>flush_tlb_entry\<close> of
  \<^verbatim>\<open>bitvisor/core/mmio.c\<close> takes the range out of the nested page tables of every processor before the
  handler is entered.  The guest is the state of the dispatcher and a list of tables, one per processor.
\<close>

section \<open>The flush\<close>

text \<open>
  The host ranges that \<open>flush_tlb_entry\<close> searches for: a run of guest pages with consecutive host
  pages is one range.  \<open>k\<close> guest pages after the first are left; as in \<open>mapmem\<close>, a range that
  reaches the end of the address space, on which the loop of the source does not end, is excluded.
\<close>

fun flush_runs :: "'a world_scheme \<Rightarrow> nat \<Rightarrow> u64 \<Rightarrow> u64 \<Rightarrow> u64 \<Rightarrow> (u64 \<times> u64) list" where
  "flush_runs w 0 gp2 hp0 hp1 = [(hp0, hp1)]"
| "flush_runs w (Suc k) gp2 hp0 hp1 =
     (let hp2 = fst (gmm_pass_gp2hp w gp2); gp2 = (gp2 OR 0xFFF) + 1
      in if hp1 + 1 \<noteq> hp2 then (hp0, hp1) # flush_runs w k gp2 hp2 (hp2 OR 0xFFF)
         else flush_runs w k gp2 hp0 (hp2 OR 0xFFF))"

text \<open>
  One range on all processors, until one of them cannot flush it.  \<open>search\<close> is
  \<open>extern_flush_tlb_entry\<close>; its first argument tells whether the processor is the current one.
\<close>

fun flush_sub :: "(bool \<Rightarrow> u64 \<Rightarrow> u64 \<Rightarrow> nested \<Rightarrow> bool \<times> nested) \<Rightarrow> nat \<Rightarrow> u64 \<times> u64 \<Rightarrow> nat \<Rightarrow> nested list \<Rightarrow> bool \<times> nested list" where
  "flush_sub search cur r i [] = (False, [])"
| "flush_sub search cur r i (np # nps) =
     (let (ret, np) = search (i = cur) (fst r) (snd r) np in
      if ret then (True, np # nps)
      else let (ret, nps) = flush_sub search cur r (Suc i) nps in (ret, np # nps))"

fun flush_all :: "(bool \<Rightarrow> u64 \<Rightarrow> u64 \<Rightarrow> nested \<Rightarrow> bool \<times> nested) \<Rightarrow> nat \<Rightarrow> (u64 \<times> u64) list \<Rightarrow> nested list \<Rightarrow> bool \<times> nested list" where
  "flush_all search cur [] nps = (False, nps)"
| "flush_all search cur (r # rs) nps =
     (let (ret, nps) = flush_sub search cur r 0 nps in if ret then (True, nps) else flush_all search cur rs nps)"

definition flush_tlb_entry ::
  "(bool \<Rightarrow> u64 \<Rightarrow> u64 \<Rightarrow> nested \<Rightarrow> bool \<times> nested) \<Rightarrow> nat \<Rightarrow> 'a world_scheme \<Rightarrow> u64 \<Rightarrow> u64 \<Rightarrow> nested list \<Rightarrow> bool \<times> nested list" where
  "flush_tlb_entry search cur w gpst gpend nps =
     (let hp0 = fst (gmm_pass_gp2hp w gpst); gp2 = (gpst OR 0xFFF) + 1; hp1 = hp0 OR 0xFFF
      in flush_all search cur (flush_runs w (unat gpend div 4096 - unat gpst div 4096) gp2 hp0 hp1) nps)"

definition register_flushed ::
  "(bool \<Rightarrow> u64 \<Rightarrow> u64 \<Rightarrow> nested \<Rightarrow> bool \<times> nested) \<Rightarrow> nat \<Rightarrow> u64 \<Rightarrow> u32 \<Rightarrow> nat \<Rightarrow> bool \<Rightarrow>
     'd mmio_data \<times> nested list \<Rightarrow> nat option \<times> 'd mmio_data \<times> nested list" where
  "register_flushed search cur a n k unl = (\<lambda>(w, nps).
     if list_ex (\<lambda>p. range_hit (hinfo w p) a n) (handles w) then (None, w, nps)
     else
       let (failed, nps) = flush_tlb_entry search cur w a (a + ucast n - 1) nps;
           (r, w) = mmio_register_internal (\<lambda>_ _. failed) a n k unl w
       in (r, w, nps))"

section \<open>The ranges that are searched for\<close>

definition meets_run :: "u64 \<times> u64 \<Rightarrow> u64 \<Rightarrow> bool" where
  "meets_run r x \<longleftrightarrow> fst r \<le> x OR 0xFFF \<and> x AND NOT 0xFFF \<le> snd r"

text \<open>The \<open>i\<close>-th guest page after the one of \<open>g\<close>.\<close>

definition nth_page :: "u64 \<Rightarrow> nat \<Rightarrow> u64" where "nth_page g i = page g + 4096 * of_nat i"

lemma last_byte: "x OR 0xFFF = page x + 0xFFF"
proof -
  have "x OR 0xFFF = page x OR 0xFFF" unfolding page_def by (rule or_clear [symmetric])
  also have "\<dots> = page x + 0xFFF" using word_plus_and_or [of "page x" "0xFFF"] by (simp add: page_def and.assoc)
  finally show ?thesis .
qed

lemma nth_page_Suc: "nth_page (page g + 4096) i = nth_page g (Suc i)"
  using page_step [of g 1] by (simp add: nth_page_def algebra_simps)

lemma page_mono: "x \<le> y \<Longrightarrow> page x \<le> page y"
  by (simp add: word_le_nat_alt unat_page div_le_mono)

lemma page_le: "page x \<le> x"
  unfolding page_def by (rule page_bounds(1))

lemma meets_single: "meets_run (h, h OR 0xFFF) x \<longleftrightarrow> page x = page h"
proof
  assume "meets_run (h, h OR 0xFFF) x"
  then have "h \<le> x OR 0xFFF" "page x \<le> h OR 0xFFF" by (simp_all add: meets_run_def page_def)
  from this [THEN page_mono] have "page h \<le> page (x OR 0xFFF)" "page (page x) \<le> page (h OR 0xFFF)" .
  then show "page x = page h" by (simp add: page_or page_page)
next
  assume "page x = page h"
  then have "x OR 0xFFF = h OR 0xFFF" "page x \<le> h" using page_le [of h] by (simp_all add: last_byte)
  then show "meets_run (h, h OR 0xFFF) x" using page_bounds(2) [of h]
    unfolding meets_run_def fst_conv snd_conv page_def [symmetric] by (simp add: order_trans [of "page x" h])
qed

lemma meets_merged:
  assumes "hp0 \<le> hp1" "hp1 + 1 = hp2" "hp1 < 2 ^ 48"
  shows "meets_run (hp0, hp2 OR 0xFFF) x \<longleftrightarrow> meets_run (hp0, hp1) x \<or> page x = page hp2 \<and> hp0 \<le> x OR 0xFFF"
proof -
  have u: "unat hp2 = unat hp1 + 1" using assms(2,3) by (auto simp: word_less_nat_alt unat_word_ariths)
  have l: "page x \<le> hp1 \<or> hp2 \<le> page x" using u by (auto simp: word_le_nat_alt)
  have b: "page x = page hp2" if "hp2 \<le> page x" "page x \<le> hp2 OR 0xFFF"
    using page_between [OF _ that] by (simp add: page_or page_page)
  have c: "page x \<le> hp2 OR 0xFFF" if "page x \<le> hp1 \<or> page x = page hp2"
  proof -
    have "hp1 \<le> hp2" using u by (simp add: word_le_nat_alt)
    moreover have "page hp2 \<le> hp2" by (rule page_le)
    moreover have "hp2 \<le> hp2 OR 0xFFF" by (rule page_bounds)
    ultimately have "hp1 \<le> hp2" "page hp2 \<le> hp2" "hp2 \<le> hp2 OR 0xFFF" .
    then show ?thesis using that order_trans by metis
  qed
  show ?thesis using l b c unfolding meets_run_def page_def [symmetric] by auto
qed

lemma flush_runs_meets:
  assumes "\<forall>i<k. fst (gmm_pass_gp2hp w (nth_page g i)) < 2 ^ 48" "hp0 \<le> hp1" "hp1 < 2 ^ 48" "page g = g"
  shows "(\<exists>r\<in>set (flush_runs w k g hp0 hp1). meets_run r x) \<longleftrightarrow>
    meets_run (hp0, hp1) x \<or> (\<exists>i<k. page x = page (fst (gmm_pass_gp2hp w (nth_page g i))))"
  using assms
proof (induction k arbitrary: g hp0 hp1)
  case (Suc k)
  let ?hp2 = "fst (gmm_pass_gp2hp w g)" and ?g = "(g OR 0xFFF) + 1"
  have g0: "nth_page g 0 = g" using Suc.prems(4) by (simp add: nth_page_def)
  have gn: "?g = page g + 4096" by (simp add: last_byte)
  have gs: "nth_page ?g i = nth_page g (Suc i)" for i unfolding gn by (rule nth_page_Suc)
  have pg: "page ?g = ?g" unfolding gn using page_step [of g 1] by simp
  have h2: "?hp2 < 2 ^ 48" using Suc.prems(1) g0 by force
  have m: "(2 ^ 48 - 1 :: u64) = mask 48" "(0xFFF :: u64) = mask 12" by (simp_all add: mask_eq_exp_minus_1)
  have l2: "?hp2 OR 0xFFF < 2 ^ 48"
  proof -
    have "(?hp2 OR 0xFFF) AND mask 48 = (?hp2 AND mask 48) OR (0xFFF AND mask 48)" by (simp only: bit.conj_disj_distrib2)
    also have "\<dots> = ?hp2 OR 0xFFF" using less_mask_eq [OF h2] by (simp add: mask_eq_exp_minus_1)
    finally have "uint (?hp2 OR 0xFFF) < 2 ^ 48" by (simp only: mask_eq_iff)
    then show ?thesis by (simp add: word_less_alt)
  qed
  have split: "(\<exists>i<Suc k. page x = page (fst (gmm_pass_gp2hp w (nth_page g i)))) \<longleftrightarrow>
      page x = page ?hp2 \<or> (\<exists>i<k. page x = page (fst (gmm_pass_gp2hp w (nth_page ?g i))))"
    unfolding gs using g0 less_Suc_eq_0_disj by auto
  have b: "\<forall>i<k. fst (gmm_pass_gp2hp w (nth_page ?g i)) < 2 ^ 48" using Suc.prems(1) by (auto simp: gs)
  show ?case
  proof (cases "hp1 + 1 = ?hp2")
    case False
    have "(\<exists>r\<in>set (flush_runs w k ?g ?hp2 (?hp2 OR 0xFFF)). meets_run r x) \<longleftrightarrow>
        meets_run (?hp2, ?hp2 OR 0xFFF) x \<or> (\<exists>i<k. page x = page (fst (gmm_pass_gp2hp w (nth_page ?g i))))"
      by (rule Suc.IH [OF b page_bounds(2) l2 pg])
    then show ?thesis using False unfolding split meets_single by (simp add: Let_def)
  next
    case True
    have u: "unat ?hp2 = unat hp1 + 1" using True [symmetric] Suc.prems(3) by (auto simp: word_less_nat_alt unat_word_ariths)
    then have o: "hp0 \<le> ?hp2 OR 0xFFF"
      using Suc.prems(2) page_bounds(2) [of ?hp2] by (auto simp: word_le_nat_alt)
    have "page x = page ?hp2 \<Longrightarrow> hp0 \<le> x OR 0xFFF" using o by (simp add: last_byte)
    then show ?thesis using Suc.IH [OF b o l2 pg] True unfolding split meets_merged [OF Suc.prems(2) True Suc.prems(3)]
      by (auto simp: Let_def)
  qed
qed simp

text \<open>The ranges that \<open>flush_tlb_entry\<close> searches for are the host pages of the guest range.\<close>

definition searched_runs :: "'a world_scheme \<Rightarrow> u64 \<Rightarrow> u64 \<Rightarrow> (u64 \<times> u64) list" where
  "searched_runs w gpst gpend =
     (let hp0 = fst (gmm_pass_gp2hp w gpst)
      in flush_runs w (unat gpend div 4096 - unat gpst div 4096) ((gpst OR 0xFFF) + 1) hp0 (hp0 OR 0xFFF))"

lemma flush_tlb_entry_runs: "flush_tlb_entry search cur w a b nps = flush_all search cur (searched_runs w a b) nps"
  by (simp add: flush_tlb_entry_def searched_runs_def Let_def)

lemma or_page_low: "x < 2 ^ 48 \<Longrightarrow> x OR 0xFFF < 2 ^ 48" for x :: u64
proof -
  assume x: "x < 2 ^ 48"
  have "(x OR 0xFFF) AND mask 48 = (x AND mask 48) OR (0xFFF AND mask 48)" by (simp only: bit.conj_disj_distrib2)
  also have "\<dots> = x OR 0xFFF" using less_mask_eq [OF x] by (simp add: mask_eq_exp_minus_1)
  finally have "uint (x OR 0xFFF) < 2 ^ 48" by (simp only: mask_eq_iff)
  then show ?thesis by (simp add: word_less_alt)
qed

lemma unat_2_power: "n < 64 \<Longrightarrow> unat ((2 :: u64) ^ n) = 2 ^ n"
proof -
  assume n: "n < 64"
  have "unat (push_bit n (1 :: u64)) = take_bit LENGTH(64) (push_bit n (unat (1 :: u64)))"
    by (rule unsigned_push_bit_eq)
  also have "\<dots> = take_bit 64 (push_bit n (1 :: nat))" by simp
  also have "\<dots> = 2 ^ n" using power_strict_increasing [OF n, of "2 :: nat"] by (simp add: push_bit_eq_mult take_bit_eq_mod)
  finally show ?thesis by (simp add: push_bit_eq_mult)
qed

lemma gp2hp_low:
  assumes "nested_world w" "g < 2 ^ n" "32 \<le> n" "n \<le> 48" shows "fst (gmm_pass_gp2hp w g) < 2 ^ n"
proof -
  have v: "vmm_placed w" "in_vmm w (phys_blank w)" using assms(1) by (simp_all add: nested_world_def)
  show ?thesis
  proof (cases "in_vmm w g")
  case True
  have "unat (phys_blank w) < 2 ^ 32" using v by (simp add: vmm_placed_def in_vmm_def VMMSIZE_ALL_def)
  moreover have "(2::nat) ^ 32 \<le> 2 ^ n" using assms(3) by (rule power_increasing) simp
  moreover have "unat ((2 :: u64) ^ n) = 2 ^ n" using assms(4) by (rule unat_2_power [OF order.strict_trans1]) simp
  ultimately have "phys_blank w < 2 ^ n" by (simp add: word_less_nat_alt)
  then show ?thesis using True by (simp add: gmm_pass_gp2hp_def phys_in_vmm_iff [OF v(1)])
next
  case False
  then show ?thesis using assms(2) by (simp add: gmm_pass_gp2hp_def phys_in_vmm_iff [OF v(1)])
qed
qed

lemma unat_nth_page:
  assumes "unat g div 4096 + i \<le> m div 4096" "m < 2 ^ 48"
  shows "unat (nth_page g i) = (unat g div 4096 + i) * 4096"
proof -
  have "(unat g div 4096 + i) * 4096 \<le> m div 4096 * 4096" using assms(1) by simp
  also have "\<dots> < 2 ^ 48" using assms(2) div_times_less_eq_dividend [of m 4096] by linarith
  finally have b: "unat g div 4096 * 4096 + 4096 * i < 2 ^ 48" by (simp add: algebra_simps)
  have e: "4096 * (of_nat i :: u64) = of_nat (4096 * i)" by simp
  have "unat (4096 * (of_nat i :: u64)) = 4096 * i" unfolding e unat_of_nat using b by (intro mod_less) simp
  then show ?thesis using b unfolding nth_page_def by (simp add: unat_word_ariths unat_page)
qed

lemma ex_le_split: "(\<exists>i\<le>k. P i) \<longleftrightarrow> P 0 \<or> (\<exists>i<k. P (Suc i))"
  unfolding less_Suc_eq_le [symmetric] by (auto simp: less_Suc_eq_0_disj)

lemma searched_runs_meet:
  assumes "nested_world w" "a \<le> b" "b < 2 ^ 48"
  shows "(\<exists>r\<in>set (searched_runs w a b). meets_run r x) \<longleftrightarrow>
    (\<exists>i \<le> unat b div 4096 - unat a div 4096. page x = page (fst (gmm_pass_gp2hp w (nth_page a i))))"
proof -
  let ?k = "unat b div 4096 - unat a div 4096" and ?g = "(a OR 0xFFF) + 1" and ?h = "fst (gmm_pass_gp2hp w a)"
  have g: "?g = page a + 4096" by (simp add: last_byte)
  have s: "nth_page ?g i = nth_page a (Suc i)" for i unfolding g by (rule nth_page_Suc)
  have a: "a < 2 ^ 48" using assms(2,3) by simp
  have d: "unat a div 4096 \<le> unat b div 4096" using assms(2) by (simp add: word_le_nat_alt div_le_mono)
  have n: "nth_page a i < 2 ^ 48" if "i \<le> ?k" for i
  proof -
    have "unat a div 4096 + i \<le> unat b div 4096" using that d by simp
    from unat_nth_page [OF this] this show ?thesis using assms(3) by (simp add: word_less_nat_alt)
  qed
  have h: "fst (gmm_pass_gp2hp w (nth_page a i)) < 2 ^ 48" if "i \<le> ?k" for i
    by (rule gp2hp_low [OF assms(1) n [OF that]]) simp_all
  have "(\<exists>r\<in>set (searched_runs w a b). meets_run r x) \<longleftrightarrow> meets_run (?h, ?h OR 0xFFF) x \<or>
      (\<exists>i<?k. page x = page (fst (gmm_pass_gp2hp w (nth_page ?g i))))"
    unfolding searched_runs_def Let_def
  proof (rule flush_runs_meets)
    show "\<forall>i<?k. fst (gmm_pass_gp2hp w (nth_page ?g i)) < 2 ^ 48" unfolding s using h by simp
    show "?h \<le> ?h OR 0xFFF" by (rule page_bounds(2))
    show "?h OR 0xFFF < 2 ^ 48" by (rule or_page_low [OF gp2hp_low [OF assms(1) a]]) simp_all
    show "page ?g = ?g" unfolding g using page_step [of a 1] by simp
  qed
  moreover have "page (fst (gmm_pass_gp2hp w (nth_page a 0))) = page ?h"
    using gp2hp_same_page(2) [of w "nth_page a 0" a] assms(1)
    unfolding page_def [symmetric] by (simp add: nth_page_def pfx_def unat_page nested_world_def)
  ultimately show ?thesis unfolding s meets_single ex_le_split by simp
qed

section \<open>The tables after a flush\<close>

lemma taken_out_subset: "taken_out w n s e Q \<subseteq> Q"
  by (auto simp: taken_out_def)

definition taken_runs :: "'a world_scheme \<Rightarrow> nat \<Rightarrow> (u64 \<times> u64) list \<Rightarrow> u64 set \<Rightarrow> u64 set" where
  "taken_runs w n rs Q = fold (\<lambda>r. taken_out w n (fst r) (snd r)) rs Q"

lemma taken_runs_iff: "x \<in> taken_runs w n rs Q \<longleftrightarrow> x \<in> Q \<and> (\<forall>r\<in>set rs. \<not> meets_page n (fst r) (snd r) (fst (gmm_pass_gp2hp w x)))"
  unfolding taken_runs_def by (induction rs arbitrary: Q) (auto simp: taken_out_def)

text \<open>A range that the flush searches for meets no table.\<close>

lemma run_avoids:
  assumes "nested_world w" "nested_inv F w Q np" "a \<le> b" "b < 2 ^ 48" "r \<in> set (searched_runs w a b)"
  shows "avoids_tables (fst r) (snd r) np"
  unfolding avoids_tables_def
proof (intro ballI notI)
  fix t assume t: "t \<in> set (ncr3tbl np # tbl np)" "fst r \<le> t OR 0xFFF \<and> t \<le> snd r"
  have p: "t AND ADDR = t" "in_vmm w t" "t \<noteq> phys_blank w"
    using assms(2) t(1) unfolding nested_inv_def tables_ok_def pool_ok_def by blast+
  have v: "vmm_placed w" using assms(1) by (simp add: nested_world_def)
  have a: "page t = t"
  proof -
    have m: "ADDR = mask 52 AND NOT (mask 12)" "(0xFFF :: u64) = mask 12" by (simp_all add: ADDR_def mask_eq_exp_minus_1)
    have "t AND NOT 0xFFF = (t AND ADDR) AND NOT 0xFFF" by (simp only: p(1))
    also have "\<dots> = t AND ADDR" unfolding m by (rule bit_word_eqI) (auto simp: bit_simps)
    finally show ?thesis by (simp only: page_def p(1))
  qed
  then have "meets_run r t" using t(2) unfolding meets_run_def page_def [symmetric] by simp
  then obtain i where "page t = page (fst (gmm_pass_gp2hp w (nth_page a i)))"
    using searched_runs_meet [OF assms(1,3,4)] assms(5) by blast
  moreover have "page (phys_blank w) = phys_blank w" using v by (simp add: vmm_placed_def)
  ultimately show False
    using a p(2,3) in_vmm_page [OF v, of t] in_vmm_page [OF v, of "nth_page a i"] phys_in_vmm_iff [OF v]
    by (auto simp: gmm_pass_gp2hp_def split: if_splits)
qed

context nested_search
begin

text \<open>The search that \<open>flush_tlb_entry\<close> makes on each processor; host addresses have \<open>n\<close> bits.\<close>

definition search_on :: "nat \<Rightarrow> bool \<Rightarrow> u64 \<Rightarrow> u64 \<Rightarrow> nested \<Rightarrow> bool \<times> nested" where
  "search_on n own s e np = nested_mapsearch spr sla own (mask n AND NOT (mask 12)) s e np"

lemma search_on_ok:
  assumes "nested_world w" "32 \<le> n" "n \<le> 48" "avoids_tables s e np" "nested_inv F w Q np" "search_on n own s e np = (ret, np')"
  shows "nested_inv F w (if ret then Q else taken_out w n s e Q) np'"
proof -
  have "n \<le> 52" using assms(3) by simp
  from mapsearch_ok [OF assms(1,2) this assms(4,5) assms(6) [unfolded search_on_def]] show ?thesis using assms(5) by auto
qed

lemma flush_sub_ok:
  assumes "nested_world w" "32 \<le> n" "n \<le> 48"
  shows "flush_sub (search_on n) cur r i nps = (ret, nps') \<Longrightarrow> \<forall>np\<in>set nps. nested_inv F w Q np \<and> avoids_tables (fst r) (snd r) np \<Longrightarrow>
    length nps' = length nps \<and> (\<forall>np\<in>set nps'. nested_inv F w (if ret then Q else taken_out w n (fst r) (snd r) Q) np)"
proof (induction nps arbitrary: i ret nps')
  case (Cons np nps)
  obtain ret1 np1 where s: "search_on n (i = cur) (fst r) (snd r) np = (ret1, np1)" by fastforce
  have 1: "nested_inv F w (if ret1 then Q else taken_out w n (fst r) (snd r) Q) np1"
    using search_on_ok [OF assms _ _ s] Cons.prems(2) by simp
  show ?case
  proof (cases ret1)
    case True
    then show ?thesis using Cons.prems s 1 by auto
  next
    case False
    obtain ret2 nps2 where f: "flush_sub (search_on n) cur r (Suc i) nps = (ret2, nps2)" by fastforce
    have "length nps2 = length nps \<and> (\<forall>np\<in>set nps2. nested_inv F w (if ret2 then Q else taken_out w n (fst r) (snd r) Q) np)"
      using Cons.IH [OF f] Cons.prems(2) by simp
    then show ?thesis using Cons.prems(1) s f False 1 by (auto intro: nested_inv_mono [OF _ taken_out_subset])
  qed
qed simp

lemma flush_all_ok:
  assumes "nested_world w" "32 \<le> n" "n \<le> 48" "\<forall>r\<in>set rs. \<forall>Q np. nested_inv F w Q np \<longrightarrow> avoids_tables (fst r) (snd r) np"
  shows "flush_all (search_on n) cur rs nps = (ret, nps') \<Longrightarrow> \<forall>np\<in>set nps. nested_inv F w Q np \<Longrightarrow>
    length nps' = length nps \<and> (\<forall>np\<in>set nps'. nested_inv F w (if ret then Q else taken_runs w n rs Q) np)"
  using assms(4)
proof (induction rs arbitrary: Q nps)
  case (Cons r rs)
  obtain ret1 nps1 where f: "flush_sub (search_on n) cur r 0 nps = (ret1, nps1)" by fastforce
  have 1: "length nps1 = length nps \<and> (\<forall>np\<in>set nps1. nested_inv F w (if ret1 then Q else taken_out w n (fst r) (snd r) Q) np)"
    by (rule flush_sub_ok [OF assms(1-3) f]) (use Cons.prems in auto)
  show ?case
  proof (cases ret1)
    case True
    then show ?thesis using Cons.prems(1) f 1 by simp
  next
    case False
    have e: "taken_runs w n (r # rs) Q = taken_runs w n rs (taken_out w n (fst r) (snd r) Q)" by (simp add: taken_runs_def)
    have "flush_all (search_on n) cur rs nps1 = (ret, nps')" using Cons.prems(1) f False by simp
    then have "length nps' = length nps1 \<and>
        (\<forall>np\<in>set nps'. nested_inv F w (if ret then taken_out w n (fst r) (snd r) Q else taken_runs w n rs (taken_out w n (fst r) (snd r) Q)) np)"
      by (rule Cons.IH) (use 1 False Cons.prems(3) in auto)
    then show ?thesis using 1 unfolding e by (auto split: if_splits intro: nested_inv_mono [OF _ taken_out_subset])
  qed
qed (simp add: taken_runs_def)

lemma flush_tlb_entry_ok:
  assumes "nested_world w" "32 \<le> n" "n \<le> 48" "a \<le> b" "b < 2 ^ n" "flush_tlb_entry (search_on n) cur w a b nps = (ret, nps')"
    "\<forall>np\<in>set nps. nested_inv F w Q np"
  shows "length nps' = length nps \<and>
    (\<forall>np\<in>set nps'. nested_inv F w (if ret then Q else {x \<in> Q. \<not> (x < 2 ^ n \<and> page a \<le> page x \<and> page x \<le> page b)}) np)"
proof -
  have b: "b < 2 ^ 48"
  proof -
    have "(2 :: nat) ^ n \<le> 2 ^ 48" using assms(3) by (rule power_increasing) simp
    then show ?thesis using assms(3,5) unat_2_power [of n] by (simp add: word_less_nat_alt)
  qed
  have v: "vmm_placed w" using assms(1) by (simp add: nested_world_def)
  have o: "length nps' = length nps \<and>
      (\<forall>np\<in>set nps'. nested_inv F w (if ret then Q else taken_runs w n (searched_runs w a b) Q) np)"
    by (rule flush_all_ok [OF assms(1-3) _ assms(6) [unfolded flush_tlb_entry_runs] assms(7)])
      (use run_avoids [OF assms(1) _ assms(4) b] in blast)
  have sub: "taken_runs w n (searched_runs w a b) Q \<subseteq> {x \<in> Q. \<not> (x < 2 ^ n \<and> page a \<le> page x \<and> page x \<le> page b)}"
  proof (intro subsetI CollectI conjI notI; (elim conjE)?)
    fix x assume x: "x \<in> taken_runs w n (searched_runs w a b) Q"
    then show "x \<in> Q" by (simp add: taken_runs_iff)
    assume l: "x < 2 ^ n" "page a \<le> page x" "page x \<le> page b"
    let ?i = "unat x div 4096 - unat a div 4096" and ?h = "fst (gmm_pass_gp2hp w x)"
    have q: "unat a div 4096 \<le> unat x div 4096" "unat x div 4096 \<le> unat b div 4096"
      using l(2,3) by (simp_all add: word_le_nat_alt unat_page)
    have "unat (nth_page a ?i) = unat x div 4096 * 4096" using unat_nth_page [of a ?i "unat b"] q b by (simp add: word_less_nat_alt)
    then have "pfx 0 x = pfx 0 (nth_page a ?i)" by (simp add: pfx_def)
    then have "page ?h = page (fst (gmm_pass_gp2hp w (nth_page a ?i)))" unfolding page_def by (rule gp2hp_same_page(2) [OF v])
    moreover have "?i \<le> unat b div 4096 - unat a div 4096" using q(2) by simp
    ultimately obtain r where "r \<in> set (searched_runs w a b)" "meets_run r ?h"
      using searched_runs_meet [OF assms(1,4) b, of ?h] by blast
    moreover have "?h < 2 ^ n" by (rule gp2hp_low [OF assms(1) l(1) assms(2,3)])
    ultimately show False using x by (auto simp: taken_runs_iff meets_page_def meets_run_def)
  qed
  show ?thesis
    using o nested_inv_mono [OF _ sub, of F w] by (cases ret) (simp_all only: if_True if_False simp_thms, blast+)
qed

end

end
