(* ===== verification/Nested_Guest.thy ===== *)
theory Nested_Guest
  imports Nested_Flush
begin

text \<open>
  A guest with several processors: the dispatcher of MMIO ranges and the nested page tables of every
  processor, under all sequences of page faults, registrations and removals.  No processor
  translates an address that belongs to a registered range, so that every access to it is trapped.
\<close>

section \<open>Pages without a handler\<close>

lemma unhandled_subset:
  assumes "set (handles w') \<subseteq> set (handles w)"
    "\<And>p. p \<in> set (handles w') \<Longrightarrow> gphys (hinfo w' p) = gphys (hinfo w p) \<and> len (hinfo w' p) = len (hinfo w p) \<and>
      (unregistered (hinfo w p) \<longrightarrow> unregistered (hinfo w' p))"
  shows "unhandled w \<subseteq> unhandled w'"
proof
  fix x assume x: "x \<in> unhandled w"
  have "\<not> meets (hinfo w' p) (page x) 4096" if "p \<in> set (handles w')" for p
    using assms(1) assms(2) [OF that] that x by (auto simp: unhandled_def meets_def)
  then show "x \<in> unhandled w'" by (simp add: unhandled_def)
qed

lemma unhandled_lists: "hinfo w' = hinfo w \<Longrightarrow> handles w' = handles w \<Longrightarrow> unhandled w' = unhandled w"
  by (simp add: unhandled_def)

lemma unhandled_locked [simp]: "unhandled (mmio_lock w) = unhandled w"
  by (rule unhandled_lists) (simp_all add: mmio_lock_def)

lemma unhandled_remove: "unregistered (hinfo w p) \<Longrightarrow> unhandled (remove_handle p w) = unhandled w"
proof -
  assume u: "unregistered (hinfo w p)"
  have "q \<in> set (handles w) \<Longrightarrow> q = p \<or> q \<in> set (remove1 p (handles w))" for q by (cases "q = p") simp_all
  moreover have "\<not> meets (hinfo w p) a n" for a n using u by (simp add: meets_def)
  ultimately show ?thesis unfolding unhandled_def using set_remove1_subset by fastforce
qed

lemma unhandled_deferred: "unhandled (fold (\<lambda>p w. if unregistered (hinfo w p) then remove_handle p w else w) ps w) = unhandled w"
  by (induction ps arbitrary: w) (simp_all add: unhandled_remove)

lemma unhandled_unlocked [simp]: "unhandled (mmio_unlock w) = unhandled w"
proof -
  let ?w = "w\<lparr>lock_count := lock_count w - 1, readers := readers w - (if lock_count w = 1 then 1 else 0)\<rparr>"
  have "unhandled ?w = unhandled w" "unhandled (?w\<lparr>unregister_flag := False\<rparr>) = unhandled w"
    by (rule unhandled_lists; simp)+
  then show ?thesis by (simp only: mmio_unlock_def Let_def unhandled_deferred split: if_split) simp
qed

lemma unhandled_unregister: "unhandled w \<subseteq> unhandled (mmio_unregister p w)"
  by (rule unhandled_subset) (auto simp: mmio_unregister_def dest: in_set_takeD set_remove1_subset [THEN subsetD])

lemma register_lists:
  assumes "mmio_register_internal flush a n k u w = (r, w')"
  shows "(handles w' = handles w \<and> hinfo w' = hinfo w) \<or>
    \<not> flush a (a + ucast n - 1) \<and> handles w' = handles w @ [next_handle w] \<and>
    hinfo w' = (hinfo w)(next_handle w := \<lparr>gphys = a, len = n, handler = k, unregistered = False, unlocked_handler = u\<rparr>)"
  using assms by (auto simp: mmio_register_internal_def Let_def scan_slots fold_add split: if_splits)

lemma unhandled_register:
  assumes "mmio_inv w" "mmio_register_internal flush a n k u w = (r, w')"
    "\<not> flush a (a + ucast n - 1) \<Longrightarrow> Q \<subseteq> {x. extent a n \<inter> extent (page x) 4096 = {}}" "Q \<subseteq> unhandled w"
  shows "Q \<subseteq> unhandled w'"
proof
  fix x assume x: "x \<in> Q"
  have f: "next_handle w \<notin> set (handles w)" using mmio_inv_handle(1) [OF assms(1)] by blast
  have "x \<in> unhandled w" using x assms(4) by blast
  then show "x \<in> unhandled w'"
    using register_lists [OF assms(2)]
  proof (elim disjE conjE)
    assume "\<not> flush a (a + ucast n - 1)" "handles w' = handles w @ [next_handle w]"
      "hinfo w' = (hinfo w)(next_handle w := \<lparr>gphys = a, len = n, handler = k, unregistered = False, unlocked_handler = u\<rparr>)"
    then show ?thesis using x assms(3) f \<open>x \<in> unhandled w\<close> by (auto simp: unhandled_def meets_def)
  qed (simp add: unhandled_def)
qed

lemma register_config: "mmio_register_internal flush a n k u w = (r, w') \<Longrightarrow> same_config w w'"
  by (auto simp: mmio_register_internal_def Let_def scan_slots fold_add same_config_def split: if_splits)

lemma unregister_config: "same_config w (mmio_unregister p w)"
  by (simp add: mmio_unregister_def remove_handle_def Let_def scan_slots fold_del same_config_def)

section \<open>Steps of the guest\<close>

text \<open>
  What an emulated instruction may do to the dispatcher: it runs under the shared lock, so that a
  registration, which takes the lock exclusively, is not part of it.
\<close>

definition quiet_emulation :: "('d mmio_data \<Rightarrow> bool \<times> 'd mmio_data) \<Rightarrow> bool" where
  "quiet_emulation em \<longleftrightarrow> (\<forall>v. same_config v (snd (em v)) \<and> (mmio_inv v \<longrightarrow> mmio_inv (snd (em v))) \<and> unhandled v \<subseteq> unhandled (snd (em v)))"

inductive guest_step ::
  "nested_format \<Rightarrow> (u64 \<times> u64) list option \<Rightarrow> (bool \<Rightarrow> u64 \<Rightarrow> u64 \<Rightarrow> nested \<Rightarrow> bool \<times> nested) \<Rightarrow> nat \<Rightarrow>
     'd mmio_data \<times> nested list \<Rightarrow> 'd mmio_data \<times> nested list \<Rightarrow> bool"
  for F sp search n where
  fault: "guest_step F sp search n (w, nps) (w', nps[i := np'])"
    if "i < length nps" "g < 2 ^ 48" "quiet_emulation em" "nested_fault F sp em wr g (w, nps ! i) = Inr (w', np')"
| clear: "guest_step F sp search n (w, nps) (w, nps[i := nested_clear_all (nps ! i)])" if "i < length nps"
| map_1mb: "guest_step F sp search n (w, nps) (w', nps[i := np'])"
    if "i < length nps" "nested_map_1mb F sp (w, nps ! i) = Inr (w', np')"
| register: "guest_step F sp search n (w, nps) (w', nps')"
    if "proper a k" "a + ucast k - 1 < 2 ^ n" "register_flushed search cur a k h u (w, nps) = (r, w', nps')"
| unregister: "guest_step F sp search n (w, nps) (mmio_unregister p w, nps)" if "p \<in> set (handles w)"
| lock: "guest_step F sp search n (w, nps) (mmio_lock w, nps)"
| unlock: "guest_step F sp search n (w, nps) (mmio_unlock w, nps)"

text \<open>The pages that the page allocator gives to the tables of a processor.\<close>

definition table_pages :: "'a world_scheme \<Rightarrow> u64 \<Rightarrow> u64 list \<Rightarrow> bool" where
  "table_pages w r ts \<longleftrightarrow> length ts = NUM_OF_TBL \<and> distinct (r # ts) \<and>
     list_all (\<lambda>t. t AND ADDR = t \<and> in_vmm w t \<and> t \<noteq> phys_blank w) (r # ts)"

inductive guest_reach ::
  "nested_format \<Rightarrow> (u64 \<times> u64) list option \<Rightarrow> (bool \<Rightarrow> u64 \<Rightarrow> u64 \<Rightarrow> nested \<Rightarrow> bool \<times> nested) \<Rightarrow> nat \<Rightarrow>
     'd mmio_data \<times> nested list \<Rightarrow> bool"
  for F sp search n where
  init: "nested_world w \<Longrightarrow> list_all (\<lambda>(r, ts, T). table_pages w r ts) ps \<Longrightarrow>
    guest_reach F sp search n (mmio_init w, map (\<lambda>(r, ts, T). nested_init r ts T) ps)"
| step: "guest_reach F sp search n s \<Longrightarrow> guest_step F sp search n s s' \<Longrightarrow> guest_reach F sp search n s'"

section \<open>The invariant of the guest\<close>

definition guest_inv :: "nested_format \<Rightarrow> 'd mmio_data \<times> nested list \<Rightarrow> bool" where
  "guest_inv F = (\<lambda>(w, nps). mmio_inv w \<and> nested_world w \<and> (\<forall>np\<in>set nps. nested_inv F w (unhandled w) np))"

lemma guest_inv_keeps:
  assumes "guest_inv F (w, nps)" "mmio_inv w'" "same_config w w'" "unhandled w \<subseteq> unhandled w'"
    "\<And>np. np \<in> set nps' \<Longrightarrow> np \<in> set nps \<or> nested_inv F w (unhandled w) np"
  shows "guest_inv F (w', nps')"
proof -
  have c: "nested_world w' = nested_world w" "nested_inv F w' Q = nested_inv F w Q" for Q
    using assms(3) same_config_inv [of w' w] by (auto simp: same_config_def fun_eq_iff)
  show ?thesis
    unfolding guest_inv_def prod.case c
  proof (intro conjI ballI)
    fix np assume "np \<in> set nps'"
    then have "nested_inv F w (unhandled w) np" using assms(1,5) by (auto simp: guest_inv_def)
    then show "nested_inv F w (unhandled w') np" by (rule nested_inv_mono [OF _ assms(4)])
  qed (use assms(1,2) in \<open>auto simp: guest_inv_def\<close>)
qed

lemma fault_world:
  assumes "nested_fault F sp em wr g (w, np) = Inr (w', np')"
  shows "w' = mmio_unlock (mmio_lock w) \<or> w' = mmio_unlock (snd (em (mmio_lock w)))"
proof -
  obtain b np1 where "try_2mpage F (mmio_lock w) g np = Inr (b, np1)"
    using assms by (auto simp: nested_fault_def Let_def bind_res_Inr_iff)
  then consider "w' = mmio_unlock (mmio_lock w)" | found w1 where "mmio_access_page g (Some em) (mmio_lock w) = Inr (found, w1)" "w' = mmio_unlock w1"
    using assms by (cases b) (auto simp: nested_fault_def Let_def bind_res_Inr_iff split: if_splits)
  then show ?thesis
  proof cases
    case 2
    then show ?thesis using access_page_cases [OF 2(1)] by (auto split: if_splits)
  qed simp
qed

lemma quiet_fault:
  assumes "quiet_emulation em" "mmio_inv w" "nested_fault F sp em wr g (w, np) = Inr (w', np')"
  shows "mmio_inv w' \<and> same_config w w' \<and> unhandled w \<subseteq> unhandled w'"
proof -
  have "mmio_inv (mmio_lock w)" by (rule mmio_lock_inv [OF assms(2)])
  moreover have "same_config w (mmio_unlock v)" if "same_config (mmio_lock w) v" for v
    using same_config_trans [OF same_config_trans [OF lock_config(1) that] lock_config(2)] .
  moreover have "same_config (mmio_lock w) (mmio_lock w)" by (simp add: same_config_def)
  ultimately show ?thesis
    using fault_world [OF assms(3)] assms(1) mmio_unlock_inv unfolding quiet_emulation_def
    by (metis unhandled_locked unhandled_unlocked subset_refl)
qed

lemma map_low_world:
  "map_low F sp gs (w, np) = Inr (w', np') \<Longrightarrow> J w \<Longrightarrow> (\<And>v. J v \<Longrightarrow> J (mmio_unlock (mmio_lock v))) \<Longrightarrow> J w'"
proof (induction gs arbitrary: w np)
  case (Cons g gs)
  obtain w1 found np1 where a: "mmio_access_page g None (mmio_lock w) = Inr (found, w1)" "map_low F sp gs (mmio_unlock w1, np1) = Inr (w', np')"
    using Cons.prems(1) by (auto simp: Let_def bind_res_Inr_iff)
  have "w1 = mmio_lock w" using a(1) by (auto simp: mmio_access_page_def Let_def dest: page_list_None)
  then show ?case using Cons.IH [OF a(2)] Cons.prems(2,3) by simp
qed simp

lemma init_unhandled: "mmio_inv (mmio_init w)" "same_config w (mmio_init w)"
  by (simp_all add: mmio_inv_def mmio_init_def same_config_def)

text \<open>A page that the flush left alone is not in the range.\<close>

lemma run_apart:
  assumes "proper a k" "a + ucast k - 1 < 2 ^ n" "12 \<le> n" "n < 64"
    "\<not> (x < 2 ^ n \<and> page a \<le> page x \<and> page x \<le> page (a + ucast k - 1))"
  shows "extent a k \<inter> extent (page x) 4096 = {}"
proof (rule equals0I)
  let ?b = "a + ucast k - 1"
  fix y assume y: "y \<in> extent a k \<inter> extent (page x) 4096"
  have b: "unat ?b = unat a + unat k - 1" by (rule unat_end(2) [OF assms(1)])
  have q: "y div 4096 = unat x div 4096" using y unfolding extent_page by (auto intro: div_nat_eqI)
  have l: "unat a \<le> y" "y \<le> unat ?b" using y b by (auto simp: extent_def)
  then have p: "unat a div 4096 \<le> unat x div 4096" "unat x div 4096 \<le> unat ?b div 4096"
    unfolding q [symmetric] by (simp_all add: div_le_mono)
  have e: "(2::nat) ^ n = 2 ^ (n - 12) * 4096" using power_add [of "2 :: nat" "n - 12" 12] assms(3) by simp
  have "unat ?b < 2 ^ (n - 12) * 4096" using assms(2) unfolding word_less_nat_alt unat_2_power [OF assms(4)] e .
  then have "unat ?b div 4096 < 2 ^ (n - 12)" by (rule less_mult_imp_div_less)
  then have "unat x div 4096 < 2 ^ (n - 12)" using p(2) by simp
  then have "unat x < 2 ^ (n - 12) * 4096" by (simp add: div_less_iff_less_mult)
  then have "x < 2 ^ n" unfolding word_less_nat_alt unat_2_power [OF assms(4)] e .
  moreover have "page a \<le> page x" "page x \<le> page ?b" using p by (simp_all add: word_le_nat_alt unat_page)
  ultimately show False using assms(5) by blast
qed

context nested_search
begin

lemma fault_keeps:
  assumes "areas_ok sp" "guest_inv F (w, nps)" "np \<in> set nps" "g < 2 ^ 48" "quiet_emulation em"
    "nested_fault F sp em wr g (w, np) = Inr (w', np')"
  shows "nested_inv F w (unhandled w) np' \<and> mmio_inv w' \<and> same_config w w' \<and> unhandled w \<subseteq> unhandled w'"
proof -
  have i: "mmio_inv w" "nested_world w" "nested_inv F w (unhandled w) np" using assms(2,3) by (auto simp: guest_inv_def)
  have q: "same_config v (snd (em v))" for v using assms(5) by (simp add: quiet_emulation_def)
  show ?thesis
    using nested_fault_ok [OF i(2) unhandled_in_unhandled [OF i(1)] assms(1) i(3) assms(4) q assms(6)]
      quiet_fault [OF assms(5) i(1) assms(6)] by blast
qed

lemma map_1mb_keeps:
  assumes "areas_ok sp" "guest_inv F (w, nps)" "np \<in> set nps" "nested_map_1mb F sp (w, np) = Inr (w', np')"
  shows "nested_inv F w (unhandled w) np' \<and> mmio_inv w' \<and> same_config w w' \<and> unhandled w' = unhandled w"
proof -
  let ?J = "\<lambda>v. mmio_inv v \<and> unhandled v = unhandled w" and ?gs = "map (\<lambda>i. 0x1000 * of_nat i) [0..<0x100] :: u64 list"
  have i: "mmio_inv w" "nested_world w" "nested_inv F w (unhandled w) np" using assms(2,3) by (auto simp: guest_inv_def)
  have m: "map_low F sp ?gs (w, nested_clear_all np) = Inr (w', np')" using assms(4) by (simp add: nested_map_1mb_def del: upt_Suc)
  have j: "?J (mmio_unlock (mmio_lock v))" if "?J v" for v using that mmio_lock_inv mmio_unlock_inv by auto
  have u: "unhandled_in v (unhandled w)" if "?J v" for v using that unhandled_in_unhandled [of v] by simp
  have "0x1000 * (of_nat k :: u64) < 2 ^ 48" if "k < 256" for k
  proof -
    have "unat (of_nat k :: u64) = k" using that by (simp add: unat_of_nat)
    then show ?thesis using that by (simp add: word_less_nat_alt unat_word_ariths)
  qed
  then have g: "\<forall>g\<in>set ?gs. g < 2 ^ 48" by (simp del: upt_Suc)
  have "?J w'" by (rule map_low_world [OF m]) (use i(1) j in blast)+
  moreover have "same_config w w' \<and> nested_inv F w (unhandled w) np'"
    by (rule map_low_ok [of sp ?J "unhandled w", OF assms(1) u j m i(2) _ clear_all_ok [OF i(3)] g]) (use i(1) in simp_all)
  ultimately show ?thesis by blast
qed

lemma register_keeps:
  assumes "32 \<le> n" "n \<le> 48" "guest_inv F (w, nps)" "proper a k" "a + ucast k - 1 < 2 ^ n"
    "register_flushed (search_on n) cur a k h u (w, nps) = (r, w', nps')"
  shows "guest_inv F (w', nps') \<and> length nps' = length nps"
proof (cases "list_ex (\<lambda>p. range_hit (hinfo w p) a k) (handles w)")
  case True
  then show ?thesis using assms(3,6) by (auto simp: register_flushed_def)
next
  case False
  let ?b = "a + ucast k - 1" and ?Q = "unhandled w"
  let ?Q' = "{x \<in> ?Q. \<not> (x < 2 ^ n \<and> page a \<le> page x \<and> page x \<le> page ?b)}"
  have i: "mmio_inv w" "nested_world w" "\<forall>np\<in>set nps. nested_inv F w ?Q np" using assms(3) by (auto simp: guest_inv_def)
  obtain failed where f: "flush_tlb_entry (search_on n) cur w a ?b nps = (failed, nps')"
      "mmio_register_internal (\<lambda>_ _. failed) a k h u w = (r, w')"
    using assms(6) False by (auto simp: register_flushed_def Let_def split: prod.splits)
  have ab: "a \<le> ?b" using unat_end(2) [OF assms(4)] assms(4) by (auto simp: word_le_nat_alt proper_def)
  have o: "length nps' = length nps \<and> (\<forall>np\<in>set nps'. nested_inv F w (if failed then ?Q else ?Q') np)"
    by (rule flush_tlb_entry_ok [OF i(2) assms(1,2) ab assms(5) f(1) i(3)])
  have s: "(if failed then ?Q else ?Q') \<subseteq> unhandled w'"
    using assms(1,2) run_apart [OF assms(4,5)] by (intro unhandled_register [OF i(1) f(2)]) auto
  have c: "same_config w w'" by (rule register_config [OF f(2)])
  then have n: "nested_world w'" "nested_inv F w' Q = nested_inv F w Q" for Q
    using i(2) same_config_inv [of w' w] by (auto simp: same_config_def fun_eq_iff)
  have "mmio_inv w'" using mmio_register_inv [OF i(1) assms(4), of "\<lambda>_ _. failed" h u] f(2) by simp
  moreover have "nested_inv F w' (unhandled w') np" if "np \<in> set nps'" for np
    using o that nested_inv_mono [OF _ s, of F w np] unfolding n(2) by blast
  ultimately show ?thesis using o n(1) by (simp add: guest_inv_def)
qed

lemma guest_step_inv:
  assumes "32 \<le> n" "n \<le> 48" "areas_ok sp" "guest_step F sp (search_on n) n s s'" "guest_inv F s"
  shows "guest_inv F s'"
  using assms(4,5)
proof (induction rule: guest_step.induct)
  case (fault i nps g em wr w w' np')
  note k = fault_keeps [OF assms(3) fault.prems nth_mem [OF fault.hyps(1)] fault.hyps(2-4)]
  show ?case
  proof (rule guest_inv_keeps [OF fault.prems])
    fix np assume "np \<in> set (nps[i := np'])"
    then have "np = np' \<or> np \<in> set nps" using set_update_subset_insert [of nps i np'] by auto
    then show "np \<in> set nps \<or> nested_inv F w (unhandled w) np" using k by blast
  qed (use k in simp_all)
next
  case (clear i nps w)
  have "nested_inv F w (unhandled w) (nested_clear_all (nps ! i))"
    using clear by (intro clear_all_ok) (auto simp: guest_inv_def)
  then show ?case
    using clear set_update_subset_insert [of nps i] unfolding guest_inv_def by blast
next
  case (map_1mb i nps w w' np')
  note k = map_1mb_keeps [OF assms(3) map_1mb.prems nth_mem [OF map_1mb.hyps(1)] map_1mb.hyps(2)]
  show ?case
  proof (rule guest_inv_keeps [OF map_1mb.prems])
    fix np assume "np \<in> set (nps[i := np'])"
    then have "np = np' \<or> np \<in> set nps" using set_update_subset_insert [of nps i np'] by auto
    then show "np \<in> set nps \<or> nested_inv F w (unhandled w) np" using k by blast
  qed (use k in simp_all)
next
  case (register a k cur h u w nps r w' nps')
  then show ?case using register_keeps [OF assms(1,2)] by blast
next
  case (unregister p w nps)
  then show ?case
    by (intro guest_inv_keeps [OF unregister.prems] mmio_unregister_inv unregister_config unhandled_unregister)
      (auto simp: guest_inv_def)
next
  case (lock w nps)
  show ?case
    by (rule guest_inv_keeps [OF lock]) (use lock mmio_lock_inv lock_config(1) in \<open>auto simp: guest_inv_def\<close>)
next
  case (unlock w nps)
  show ?case
    by (rule guest_inv_keeps [OF unlock]) (use unlock mmio_unlock_inv lock_config(2) in \<open>auto simp: guest_inv_def\<close>)
qed

theorem guest_reach_inv:
  assumes "32 \<le> n" "n \<le> 48" "areas_ok sp" "guest_reach F sp (search_on n) n s"
  shows "guest_inv F s"
  using assms(4)
proof (induction rule: guest_reach.induct)
  case (init w ps)
  have "nested_inv F w (unhandled (mmio_init w)) (nested_init r ts T)" if "table_pages w r ts" for r ts T
    using that by (intro init_ok) (simp_all add: table_pages_def list_all_iff)
  then have "\<forall>np\<in>set (map (\<lambda>(r, ts, T). nested_init r ts T) ps). nested_inv F w (unhandled (mmio_init w)) np"
    using init(2) by (auto simp: list_all_iff)
  moreover have "nested_inv F (mmio_init w) = nested_inv F w" "nested_world (mmio_init w)"
    using init(1) init_unhandled(2) [of w] same_config_inv [of "mmio_init w" w] by (auto simp: same_config_def fun_eq_iff)
  ultimately show ?case by (simp add: guest_inv_def init_unhandled)
next
  case (step s s')
  then show ?case using guest_step_inv [OF assms(1-3)] by blast
qed

section \<open>What the processors translate\<close>

lemma guest_translates:
  assumes "guest_inv F (w, nps)" "np \<in> set nps" "g < 2 ^ 48"
  shows "hw_translate pr la wrt np g = None \<or> g \<in> unhandled w \<and>
    hw_translate pr la wrt np g = Some ((fst (gmm_pass_gp2hp w g) AND NOT 0xFFF) OR (g AND 0xFFF), \<not> snd (gmm_pass_gp2hp w g))"
proof -
  have "nested_world w" "nested_inv F w (unhandled w) np" using assms(1,2) by (auto simp: guest_inv_def)
  then show ?thesis using translate_sound [of w "unhandled w" _ np g] assms(3) by (auto simp: nested_inv_def)
qed

lemma guest_traps:
  assumes "guest_inv F (w, nps)" "np \<in> set nps" "g < 2 ^ 48" "p \<in> set (handles w)" "meets (hinfo w p) (page g) 4096"
  shows "hw_translate pr la wrt np g = None"
  using guest_translates [OF assms(1-3)] assms(4,5) by (auto simp: unhandled_def)

lemma guest_fault_resolved:
  assumes "guest_inv F (w, nps)" "np \<in> set nps" "g < 2 ^ 48" "g \<in> unhandled w" "quiet_emulation em" "\<not> (snd (gmm_pass_gp2hp w g) \<and> wr)"
  shows "\<exists>np'. nested_fault F None em wr g (w, np) = Inr (mmio_unlock (mmio_lock w), np') \<and> hw_translate pr la wrt np' g \<noteq> None"
proof -
  have i: "mmio_inv w" "nested_world w" "nested_inv F w (unhandled w) np" using assms(1,2) by (auto simp: guest_inv_def)
  have "mmio_access_page g None w = Inr (False, w)"
    using access_page_iff [OF i(1) proper_low(1) [OF assms(3)]] assms(4) by (simp add: unhandled_def)
  moreover have "same_config v (snd (em v))" for v using assms(5) by (simp add: quiet_emulation_def)
  ultimately show ?thesis
    by (rule nested_fault_total [OF i(2) unhandled_in_unhandled [OF i(1)] i(3) assms(3,6)])
qed

section \<open>A page fault ends\<close>

text \<open>With the fuel chosen, the forced map never runs out of it.\<close>

lemma force_areas_end:
  assumes "nested_world w" "mmio_inv w" "areas_ok sp"
  shows "nested_inv F w (unhandled w) np \<Longrightarrow> force_areas F sp w k np \<noteq> Inl OutOfFuel"
proof (induction "case sp of None \<Rightarrow> 0 | Some xs \<Rightarrow> length xs - k" arbitrary: k np rule: less_induct)
  case less
  note u = unhandled_in_unhandled [OF assms(2)]
  show ?case
  proof (cases "gmm_pass_getforcemap sp k")
    case (Inl f)
    then have "f = OutOfBounds" by (auto simp: gmm_pass_getforcemap_def Let_def split: option.splits prod.splits)
    then show ?thesis using Inl by (simp add: force_areas.simps)
  next
    case (Inr q)
    obtain nn base rest where q: "q = (nn, base, rest)" by (metis prod.exhaust)
    note g = Inr [unfolded q]
    let ?r = "rest + (base AND 0xFFF)" and ?b = "base AND NOT 0xFFF"
    let ?A = "if rest = 0 then Inr np else force_area F w (area_turns ?r) ?b ?r np"
    have a: "rest \<noteq> 0 \<Longrightarrow> force_area F w (area_turns ?r) ?b ?r np \<noteq> Inl OutOfFuel"
      using area_base [OF assms(3) g] by (intro force_area_ends [OF assms(1) u assms(2) less.prems]) (auto simp: area_turns_def)
    have b: "force_areas F sp w nn np1 \<noteq> Inl OutOfFuel" if n0: "?A = Inr np1" "nn \<noteq> 0" for np1
    proof -
      have "nested_inv F w (unhandled w) np1"
        using n0(1) less.prems force_area_ok [OF assms(1) u _ less.prems area_base [OF assms(3) g]] by (auto split: if_splits)
      moreover obtain xs where "sp = Some xs" "nn = k + 1" "k < length xs"
        using g n0(2) by (auto simp: gmm_pass_getforcemap_def rd_def Let_def split: option.splits if_splits prod.splits)
      ultimately show ?thesis by (intro less.hyps [of nn]) auto
    qed
    have "force_areas F sp w k np = bind_res ?A (\<lambda>np. if nn = 0 then Inr np else force_areas F sp w nn np)"
      by (subst force_areas.simps) (simp add: g Let_def)
    then show ?thesis using a b by (auto simp: bind_res_Inl_iff split: if_splits)
  qed
qed

lemma map_page_ends:
  assumes "nested_world w" "mmio_inv w" "areas_ok sp" "nested_inv F w (unhandled w) np" "g < 2 ^ 48" "passes (unhandled w) 0 g"
  shows "map_page F sp w wr g np \<noteq> Inl OutOfFuel"
proof -
  note u = unhandled_in_unhandled [OF assms(2)]
  have c: "map_page_clear_cleared F sp w np \<noteq> Inl OutOfFuel" if "nested_inv F w (unhandled w) np" for np
    using that force_areas_end [OF assms(1-3), of "np\<lparr>cleared := False\<rparr>" 0] set_cleared_inv
    by (auto simp: map_page_clear_cleared_def bind_res_Inl_iff split: if_splits)
  have s: "map_page_sub F w wr g np1 \<noteq> Inl OutOfFuel \<and> (\<forall>np2. map_page_sub F w wr g np1 = Inr np2 \<longrightarrow> nested_inv F w (unhandled w) np2)"
    if "nested_inv F w (unhandled w) np1" for np1
    using map_page_sub_ok [OF assms(1) that assms(5,6), of wr] by (auto split: if_splits)
  have k: "nested_inv F w (unhandled w) np2" if "map_page_clear_cleared F sp w np = Inr np2" for np2
    using clear_cleared_ok [OF assms(1) u assms(3,4) that] by simp
  show ?thesis using c s k assms(4) by (auto simp: map_page_def bind_res_Inl_iff split: if_splits)
qed

lemma guest_fault_ends:
  assumes "areas_ok sp" "guest_inv F (w, nps)" "np \<in> set nps" "g < 2 ^ 48"
  shows "nested_fault F sp em wr g (w, np) \<noteq> Inl OutOfFuel"
proof
  let ?w = "mmio_lock w"
  assume f: "nested_fault F sp em wr g (w, np) = Inl OutOfFuel"
  have i: "mmio_inv w" "nested_world w" "nested_inv F w (unhandled w) np" using assms(2,3) by (auto simp: guest_inv_def)
  have e: "mmio_inv ?w" "nested_world ?w" "nested_inv F ?w Q = nested_inv F w Q" for Q
    using i(2) same_config_inv [of ?w w] lock_config(1) [of w] mmio_lock_inv [OF i(1)] by (auto simp: same_config_def fun_eq_iff)
  obtain b np1 where t: "try_2mpage F ?w g np = Inr (b, np1)" "nested_inv F w (unhandled w) np1"
    using try_2mpage_ok [OF e(2) _ assms(4) unhandled_in_unhandled [OF e(1)], of np] i(3) unfolding e(3) unhandled_locked by blast
  have p: "mmio_access_page g (Some em) ?w \<noteq> Inl OutOfFuel"
  proof -
    have "page_list a (Some em) ps v \<noteq> Inl OutOfFuel" for a ps v by (induction ps) (auto simp: Let_def split: prod.splits)
    then show ?thesis by (simp add: mmio_access_page_def Let_def)
  qed
  then obtain w1 where a: "mmio_access_page g (Some em) ?w = Inr (False, w1)" "map_page F sp w1 wr g np1 = Inl OutOfFuel"
    using f t(1) by (auto simp: nested_fault_def Let_def bind_res_Inl_iff split: if_splits)
  have w1: "w1 = ?w" "mmio_access_page g None ?w = Inr (False, ?w)" using access_page_cases [OF a(1)] by auto
  have "passes (unhandled ?w) 0 g" using unhandled_in_unhandled [OF e(1)] w1(2) assms(4) by (simp add: unhandled_in_def)
  from map_page_ends [OF e(2,1) assms(1) _ assms(4) this] show False using a(2) w1(1) t(2) by (simp add: e(3))
qed

end

section \<open>A guest with one processor\<close>

text \<open>Tables in the memory of the VMM, and an emulation that does nothing.\<close>

definition sample_nested :: nested where
  "sample_nested = nested_init 0x10002000 (map (\<lambda>i. 0x10003000 + 0x1000 * of_nat i) [0..<1024]) (\<lambda>_. 0)"

lemma sample_pages: "table_pages sample_world 0x10002000 (map (\<lambda>i. 0x10003000 + 0x1000 * of_nat i) [0..<1024])"
proof -
  let ?t = "\<lambda>i :: nat. 0x10003000 + 0x1000 * of_nat i :: u64"
  have u: "unat (?t i) = 0x10003000 + 0x1000 * i" if "i < 1024" for i
  proof -
    have "unat (of_nat i :: u64) = i" using that by (simp add: unat_of_nat)
    then show ?thesis using that by (simp add: unat_word_ariths)
  qed
  have m: "ADDR = NOT 0xFFF AND mask 52" by (simp add: ADDR_def mask_eq_exp_minus_1)
  have a: "?t i AND ADDR = ?t i" if "i < 1024" for i
  proof -
    have "?t i AND 0xFFF = 0" using u [OF that] unfolding aligned_iff by presburger
    moreover have "?t i AND mask 52 = ?t i" using u [OF that] that by (intro less_mask_eq) (simp add: word_less_nat_alt)
    ultimately show ?thesis unfolding m and.assoc [symmetric] by (simp only: clear_mask)
  qed
  have i: "inj_on ?t {0..<1024}"
  proof (rule inj_onI)
    fix i j assume i: "i \<in> {0..<1024}" "j \<in> {0..<1024}" "?t i = ?t j"
    then have "unat (?t i) = unat (?t j)" by (simp only:)
    then show "i = j" using u [of i] u [of j] i(1,2) by simp
  qed
  have "?t i \<noteq> 0x10002000 \<and> ?t i \<noteq> 0x10001000 \<and> in_vmm sample_world (?t i)" if "i < 1024" for i
  proof (intro conjI notI)
    assume "?t i = 0x10002000"
    then have "unat (?t i) = unat (0x10002000 :: u64)" by (rule arg_cong)
    then show False using u [OF that] by simp
  next
    assume "?t i = 0x10001000"
    then have "unat (?t i) = unat (0x10001000 :: u64)" by (rule arg_cong)
    then show False using u [OF that] by simp
  qed (use u [OF that] that in \<open>simp add: in_vmm_def sample_world_def VMMSIZE_ALL_def\<close>)
  then show ?thesis
    using a i unfolding table_pages_def list_all_iff
    by (auto simp: NUM_OF_TBL_def distinct_map sample_world_def in_vmm_def VMMSIZE_ALL_def ADDR_def simp del: upt_Suc)
qed

lemma sample_nested_world: "nested_world sample_world"
  by (simp add: nested_world_def vmm_placed_def in_vmm_def sample_world_def VMMSIZE_ALL_def ADDR_def page_def)

definition no_emulation :: "unit mmio_data \<Rightarrow> bool \<times> unit mmio_data" where "no_emulation w = (False, w)"

lemma no_emulation_quiet: "quiet_emulation no_emulation"
  by (simp add: quiet_emulation_def no_emulation_def same_config_def)

abbreviation world_0 :: "unit mmio_data" where "world_0 \<equiv> mmio_init sample_world"

lemma sample_0: "handles world_0 = []" "in_vmm world_0 g = in_vmm sample_world g" "mmio_unlock (mmio_lock world_0) = world_0"
  by (simp_all add: mmio_init_def in_vmm_def mmio_lock_def mmio_unlock_def sample_world_def)

lemma sample_vmm_region: "\<not> in_vmm world_0 0x1234" "in_vmm world_0 0x10000234" "phys_blank world_0 = 0x10001000"
  by (simp_all add: sample_0) (simp_all add: in_vmm_def sample_world_def VMMSIZE_ALL_def mmio_init_def)

context nested_search
begin

lemma sample_reached: "guest_reach F sp (search_on 36) 36 (world_0, [sample_nested])"
proof -
  let ?ps = "[(0x10002000, map (\<lambda>i. 0x10003000 + 0x1000 * of_nat i) [0..<1024], \<lambda>_ :: ptr. 0 :: u64)]"
  have "list_all (\<lambda>(r, ts, T). table_pages sample_world r ts) ?ps" using sample_pages by simp
  from guest_reach.init [OF sample_nested_world this] show ?thesis by (simp add: sample_nested_def del: upt_Suc)
qed

lemma sample_inv: "guest_reach F None (search_on 36) 36 s \<Longrightarrow> guest_inv F s"
  by (rule guest_reach_inv [of 36 None]) (simp_all add: areas_ok_def)

lemma sample_mapped:
  assumes "g < 2 ^ 48"
  shows "\<exists>np. guest_reach F None (search_on 36) 36 (world_0, [np]) \<and> hw_translate pr la wrt np g \<noteq> None"
proof -
  have i: "guest_inv F (world_0, [sample_nested])" by (rule sample_inv [OF sample_reached])
  have "g \<in> unhandled world_0" by (simp add: unhandled_def sample_0)
  then obtain np where v: "nested_fault F None no_emulation False g (world_0, sample_nested) = Inr (world_0, np)" "hw_translate pr la wrt np g \<noteq> None"
    using guest_fault_resolved [OF i _ assms _ no_emulation_quiet, of sample_nested False] by (auto simp: sample_0)
  have "guest_step F None (search_on 36) 36 (world_0, [sample_nested]) (world_0, [sample_nested][0 := np])"
    by (rule guest_step.fault [OF _ assms no_emulation_quiet]) (use v(1) in simp_all)
  then have "guest_reach F None (search_on 36) 36 (world_0, [np])" using guest_reach.step [OF sample_reached] by fastforce
  then show ?thesis using v(2) by blast
qed

text \<open>The search on the own tables always succeeds.\<close>

lemma own_search_succeeds: "fst (search_on n True s e np) = False"
  by (simp add: search_on_def nested_mapsearch_def search_entries_own [of spr, OF absent])

lemma own_flush_succeeds: "fst (flush_all (search_on n) 0 rs [np]) = False"
proof (induction rs arbitrary: np)
  case (Cons r rs)
  obtain np' where "search_on n True (fst r) (snd r) np = (False, np')" using own_search_succeeds by (metis prod.collapse)
  then show ?case using Cons by simp
qed simp

lemma sample_registered:
  assumes "guest_reach F None (search_on 36) 36 (world_0, [np])"
  shows "\<exists>w np'. register_flushed (search_on 36) 0 0xFEC00000 0x1000 7 False (world_0, [np]) = (Some 0, w, [np']) \<and>
    guest_reach F None (search_on 36) 36 (w, [np']) \<and> list_ex (\<lambda>p. meets (hinfo w p) (page 0xFEC00000) 4096) (handles w)"
proof -
  have p: "proper 0xFEC00000 0x1000" "page 0xFEC00000 = 0xFEC00000" "next_handle world_0 = 0"
    by (simp_all add: proper_def page_def mmio_init_def sample_world_def)
  obtain nps' where f: "flush_tlb_entry (search_on 36) 0 world_0 0xFEC00000 (0xFEC00000 + ucast (0x1000 :: u32) - 1) [np] = (False, nps')"
    using own_flush_succeeds unfolding flush_tlb_entry_runs by (metis prod.collapse)
  obtain r w where g: "mmio_register_internal (\<lambda>_ _. False) 0xFEC00000 0x1000 7 False world_0 = (r, w)" by fastforce
  have r: "r = Some 0" "handles w = [0]" "gphys (hinfo w 0) = 0xFEC00000 \<and> len (hinfo w 0) = 0x1000 \<and> \<not> unregistered (hinfo w 0)"
    using g p(3) by (auto simp: mmio_register_internal_def sample_0 Let_def scan_slots fold_add)
  have e: "register_flushed (search_on 36) 0 0xFEC00000 0x1000 7 False (world_0, [np]) = (Some 0, w, nps')"
    using f g r(1) by (simp add: register_flushed_def sample_0)
  have "length nps' = 1"
    using register_keeps [OF _ _ sample_inv [OF assms] p(1) _ e] by simp
  then obtain np' where n: "nps' = [np']" by (auto simp: length_Suc_conv)
  have "guest_step F None (search_on 36) 36 (world_0, [np]) (w, nps')"
    by (rule guest_step.register [OF p(1) _ e]) simp
  then have "guest_reach F None (search_on 36) 36 (w, nps')" using guest_reach.step [OF assms] by blast
  then show ?thesis using e r n by (auto simp: p(2) meets_iff)
qed

end

end
