(* ===== verification/Ept.thy ===== *)
theory Ept
  imports Nested_Guest Gmm_Access
begin

text \<open>
  Extended page tables, \<^verbatim>\<open>bitvisor/core/vt_ept.c\<close>: the entry format, the operations of the file as
  instances of those of \<open>Nested_Paging\<close>, and the proof that the format keeps the laws.
\<close>

section \<open>The entry format\<close>

definition EPTE_READ :: u64 where "EPTE_READ = 0x1"
definition EPTE_READEXEC :: u64 where "EPTE_READEXEC = 0x5"
definition EPTE_WRITE :: u64 where "EPTE_WRITE = 0x2"
definition EPTE_LARGE :: u64 where "EPTE_LARGE = 0x80"
definition EPTE_MT_SHIFT :: nat where "EPTE_MT_SHIFT = 3"

lemmas epte_bits = EPTE_READ_def EPTE_READEXEC_def EPTE_WRITE_def EPTE_LARGE_def EPTE_MT_SHIFT_def

definition ept_stop :: "u64 \<Rightarrow> bool" where
  "ept_stop e \<longleftrightarrow> \<not> any_bit e EPTE_READ \<or> any_bit e EPTE_LARGE"

definition ept_link :: "u64 \<Rightarrow> u64" where
  "ept_link t = t OR (EPTE_READEXEC OR EPTE_WRITE)"

definition ept_hattr :: "u8 \<Rightarrow> u32" where
  "ept_hattr mt = push_bit EPTE_MT_SHIFT (ucast mt) OR ucast EPTE_READEXEC OR ucast EPTE_WRITE"

definition ept_page :: "cache_state \<Rightarrow> u64 \<Rightarrow> u64 \<Rightarrow> bool \<Rightarrow> u64" where
  "ept_page c g hphys fakerom =
     (let hattr = ept_hattr (cache_get_gmtrr_type g c);
          hattr = (if fakerom then hattr AND NOT (ucast EPTE_WRITE) else hattr)
      in hphys OR ucast hattr)"

definition ept_large :: "cache_state \<Rightarrow> u64 \<Rightarrow> u64 \<Rightarrow> u64" where
  "ept_large c g hphys =
     (let hattr = ept_hattr (cache_get_gmtrr_type g c) OR ucast EPTE_LARGE in hphys OR ucast hattr)"

definition ept_format :: nested_format where
  "ept_format = \<lparr>fm_stop = ept_stop, fm_link = ept_link, fm_page = ept_page, fm_large = ept_large,
     fm_panic = ''EPT: Writing to VMM memory.''\<rparr>"

section \<open>The operations\<close>

text \<open>The tables and the value of the EPT pointer.\<close>

definition vt_ept_init :: "u64 \<Rightarrow> u64 list \<Rightarrow> (ptr \<Rightarrow> u64) \<Rightarrow> nested \<times> u64" where
  "vt_ept_init root ts T = (nested_init root ts T, root OR 6 OR 0x18)"

definition vt_ept_map_page_sub :: "'d mmio_data \<Rightarrow> bool \<Rightarrow> u64 \<Rightarrow> nested \<Rightarrow> nested res" where
  "vt_ept_map_page_sub = map_page_sub ept_format"

definition vt_ept_map_2mpage :: "'d mmio_data \<Rightarrow> u64 \<Rightarrow> nested \<Rightarrow> (bool \<times> nested) res" where
  "vt_ept_map_2mpage = map_2mpage ept_format"

definition vt_ept_level :: "u64 \<Rightarrow> nested \<Rightarrow> nat \<times> nested" where
  "vt_ept_level = level_of ept_format"

definition vt_ept_map_page :: "(u64 \<times> u64) list option \<Rightarrow> 'd mmio_data \<Rightarrow> bool \<Rightarrow> u64 \<Rightarrow> nested \<Rightarrow> nested res" where
  "vt_ept_map_page = map_page ept_format"

definition vt_ept_violation ::
  "(u64 \<times> u64) list option \<Rightarrow> ('d mmio_data \<Rightarrow> bool \<times> 'd mmio_data) \<Rightarrow> bool \<Rightarrow> u64 \<Rightarrow>
     'd mmio_data \<times> nested \<Rightarrow> ('d mmio_data \<times> nested) res" where
  "vt_ept_violation = nested_fault ept_format"

definition vt_ept_clear_all :: "nested \<Rightarrow> nested" where
  "vt_ept_clear_all = nested_clear_all"

definition vt_ept_map_1mb :: "(u64 \<times> u64) list option \<Rightarrow> 'd mmio_data \<times> nested \<Rightarrow> ('d mmio_data \<times> nested) res" where
  "vt_ept_map_1mb = nested_map_1mb ept_format"

definition ept_present :: "u64 \<Rightarrow> bool" where "ept_present e = any_bit e EPTE_READ"
definition ept_is_large :: "u64 \<Rightarrow> bool" where "ept_is_large e = any_bit e EPTE_LARGE"

definition vt_ept_extern_mapsearch :: "bool \<Rightarrow> u64 \<Rightarrow> u64 \<Rightarrow> u64 \<Rightarrow> nested \<Rightarrow> bool \<times> nested" where
  "vt_ept_extern_mapsearch = nested_mapsearch ept_present ept_is_large"

text \<open>
  The page directory pointers of a guest in PAE mode, which the processor does not read through the
  nested tables itself; \<open>None\<close> when the registers do not ask for them.
\<close>

fun read_pdptes :: "'d mmio_handler \<Rightarrow> u64 list \<Rightarrow> 'd mmio_data \<Rightarrow> (u64 list \<times> 'd mmio_data) res" where
  "read_pdptes H [] w = Inr ([], w)"
| "read_pdptes H (a # as) w =
     bind_res (read_gphys_q H a (replicate 8 0) 0 w) (\<lambda>(bs, w).
     bind_res (read_pdptes H as w) (\<lambda>(es, w). Inr (of_bytes bs # es, w)))"

definition vt_ept_updatecr3 :: "'d mmio_handler \<Rightarrow> bool \<Rightarrow> bool \<Rightarrow> u64 \<Rightarrow> u64 \<Rightarrow> 'd mmio_data \<times> nested \<Rightarrow>
    (u64 list option \<times> 'd mmio_data \<times> nested) res" where
  "vt_ept_updatecr3 H lma pg c4 c3 = (\<lambda>(w, np).
     let np = np\<lparr>tlb_flushes := tlb_flushes np + 1\<rparr> in
     if \<not> lma \<and> pg \<and> any_bit c4 0x20 then
       let c3 = c3 AND 0xFFFFFFE0
       in bind_res (read_pdptes H [c3, c3 + 8, c3 + 0x10, c3 + 0x18] w) (\<lambda>(es, w). Inr (Some es, w, np))
     else Inr (None, w, np))"

section \<open>The laws of the format\<close>

lemma ept_hattr_bits:
  "\<exists>p :: u64. p AND NOT 0xFFF = 0 \<and> ucast (ept_hattr mt) = p OR 7 \<and> ucast (ept_hattr mt AND - 3) = (p AND - 3) OR 5 \<and>
    ucast (ept_hattr mt OR 0x80) = p OR 0x87"
proof (intro exI conjI)
  let ?p = "ucast (push_bit 3 (ucast mt :: u32)) :: u64"
  have m: "(0xFFF :: u64) = mask 12" "(0xFFFFFFFD :: u64) = mask 32 AND NOT 2" by (simp_all add: mask_eq_exp_minus_1)
  show "?p AND NOT 0xFFF = 0" unfolding m by (rule bit_word_eqI) (auto simp: bit_simps dest: bit_imp_le_length)
  show e: "ucast (ept_hattr mt) = ?p OR 7" by (simp add: ept_hattr_def epte_bits unsigned_or_eq or.assoc)
  have "ucast (ept_hattr mt AND NOT 2) = (?p OR 7) AND 0xFFFFFFFD" by (simp add: unsigned_and_eq e)
  also have "\<dots> = (?p AND 0xFFFFFFFD) OR 5" by (simp add: bit.conj_disj_distrib2)
  also have "?p AND 0xFFFFFFFD = ?p AND NOT 2"
  proof -
    have "?p AND mask 32 = ?p" by (rule bit_word_eqI) (auto simp: bit_simps dest: bit_imp_le_length)
    then show ?thesis unfolding m by (simp only: and.assoc [symmetric])
  qed
  finally show "ucast (ept_hattr mt AND - 3) = (?p AND - 3) OR 5" by simp
  show "ucast (ept_hattr mt OR 0x80) = ?p OR 0x87" by (simp add: unsigned_or_eq e or.assoc)
qed

text \<open>The tests that the processor makes: readable, writable or executable; a large page; writable.\<close>

definition ept_walks :: "u64 \<Rightarrow> bool" where "ept_walks e = any_bit e 0x7"
definition ept_writable :: "u64 \<Rightarrow> bool" where "ept_writable e = any_bit e EPTE_WRITE"

interpretation ept: nested_search ept_format ept_walks ept_is_large ept_writable ept_present ept_is_large
proof (unfold_locales, goal_cases)
  case (3 t)
  have a: "(7 :: u64) AND NOT 0xFFF = 0" by simp
  have e: "ept_link t = t OR 7" by (simp add: ept_link_def epte_bits)
  show ?case using attr_small [OF 3 a] attr_bit [OF 3, of _ 7]
    by (simp add: ept_format_def ept_stop_def ept_walks_def ept_is_large_def ept_writable_def e epte_bits any_bit_def)
next
  case (4 h c g ro)
  obtain p :: u64 where p: "p AND NOT 0xFFF = 0" "ucast (ept_hattr (cache_get_gmtrr_type g c)) = p OR 7"
    "ucast (ept_hattr (cache_get_gmtrr_type g c) AND - 3) = (p AND - 3) OR 5" using ept_hattr_bits by blast
  have a: "(p OR 7) AND NOT 0xFFF = 0" "((p AND - 3) OR 5) AND NOT 0xFFF = 0"
    using p(1) by (simp_all add: bit.conj_disj_distrib2 and.assoc and.left_commute [of _ "- 3"])
  show ?case
    using attr_small [OF 4 a(1)] attr_small [OF 4 a(2)] attr_bit [OF 4, of 7] attr_bit [OF 4, of 2 0]
    by (cases ro) (simp_all add: ept_format_def ept_page_def ept_walks_def ept_writable_def epte_bits Let_def p(2,3) any_bit_OR, simp_all add: any_bit_def and.assoc)
next
  case (5 h c g)
  obtain p :: u64 where p: "p AND NOT 0xFFF = 0" "ucast (ept_hattr (cache_get_gmtrr_type g c) OR 0x80) = p OR 0x87" using ept_hattr_bits by blast
  have a: "(p OR 0x87) AND NOT 0xFFF = 0" using p(1) by (simp add: bit.conj_disj_distrib2)
  have "(h OR (p OR 0x87)) AND ADDR AND NOT 0x1FFFFF = h"
    by (simp only: and.assoc [symmetric] conjunct1 [OF attr_small [OF 5(1) a]] clear_mask [OF 5(2)])
  then show ?case using attr_small [OF 5(1) a]
    by (simp add: ept_format_def ept_large_def ept_stop_def ept_walks_def ept_is_large_def ept_writable_def epte_bits Let_def p(2) any_bit_OR)
     (simp add: any_bit_def)
next
  case (7 t)
  have a: "(7 :: u64) AND NOT 0xFFF = 0" by simp
  have e: "ept_link t = t OR 7" by (simp add: ept_link_def epte_bits)
  show ?case using attr_bit [OF 7, of _ 7] by (simp add: ept_format_def e ept_is_large_def epte_bits any_bit_def)
next
  case (8 c g h ro)
  obtain p :: u64 where "ucast (ept_hattr (cache_get_gmtrr_type g c)) = p OR 7"
    "ucast (ept_hattr (cache_get_gmtrr_type g c) AND - 3) = (p AND - 3) OR 5" using ept_hattr_bits by blast
  then show ?case by (simp add: ept_format_def ept_page_def ept_present_def epte_bits Let_def any_bit_OR) (simp add: any_bit_def)
next
  case (9 c g h)
  obtain p :: u64 where "ucast (ept_hattr (cache_get_gmtrr_type g c) OR 0x80) = p OR 0x87" using ept_hattr_bits by blast
  then show ?case by (simp add: ept_format_def ept_large_def ept_present_def ept_is_large_def epte_bits Let_def any_bit_OR) (simp add: any_bit_def)
qed (simp_all add: ept_format_def ept_stop_def ept_walks_def ept_present_def any_bit_def)

section \<open>Guests on EPT\<close>

text \<open>What the processor translates, and the search of \<open>vt_paging_extern_flush_tlb_entry\<close>.\<close>

definition ept_translate :: "nested \<Rightarrow> u64 \<Rightarrow> (u64 \<times> bool) option" where
  "ept_translate = hw_translate ept_walks ept_is_large ept_writable"

definition ept_search :: "nat \<Rightarrow> bool \<Rightarrow> u64 \<Rightarrow> u64 \<Rightarrow> nested \<Rightarrow> bool \<times> nested" where
  "ept_search n own = vt_ept_extern_mapsearch own (mask n AND NOT (mask 12))"

text \<open>
  The states of a guest whose processors all use EPT, with \<open>n\<close> bits of physical address and the areas
  \<open>sp\<close> of the forced map: any sequence of \<open>vt_ept_violation\<close>, \<open>vt_ept_clear_all\<close>,
  \<open>vt_ept_map_1mb\<close>, registrations and removals of MMIO ranges and locked sections.
\<close>

definition ept_reach :: "(u64 \<times> u64) list option \<Rightarrow> nat \<Rightarrow> 'd mmio_data \<times> nested list \<Rightarrow> bool" where
  "ept_reach sp n = guest_reach ept_format sp (ept_search n) n"

lemma ept_search_on: "ept_search n = ept.search_on n"
  by (intro ext) (simp add: ept_search_def ept.search_on_def vt_ept_extern_mapsearch_def)

lemma ept_reach_inv:
  assumes "32 \<le> n" "n \<le> 48" "areas_ok sp" "ept_reach sp n s" shows "guest_inv ept_format s"
  by (rule ept.guest_reach_inv [OF assms(1-3)]) (use assms(4) in \<open>simp only: ept_reach_def ept_search_on\<close>)

lemma sample_init: "fst (vt_ept_init 0x10002000 (map (\<lambda>i. 0x10003000 + 0x1000 * of_nat i) [0..<1024]) (\<lambda>_. 0)) = sample_nested"
  by (simp add: vt_ept_init_def sample_nested_def del: upt_Suc)

lemma ept_sample_mapped:
  assumes "g < 2 ^ 48" shows "\<exists>np. ept_reach None 36 (world_0, [np]) \<and> ept_translate np g \<noteq> None"
  using ept.sample_mapped [OF assms] by (simp only: ept_reach_def ept_search_on ept_translate_def)

subsection \<open>Properties\<close>

text \<open>C18: Whatever sequence of events has built the tables, a processor translates a guest address
  to what \<open>gmm_pass_gp2hp\<close> says or not at all: memory outside the VMM to itself, the memory of the VMM
  to the blank page without the right to write.\<close>

theorem ept_isolates_vmm:
  assumes "32 \<le> n" "n \<le> 48" "areas_ok sp" "ept_reach sp n (w, nps)" "np \<in> set nps" "g < 2 ^ 48" "ept_translate np g = Some (h, wr)"
  shows "if in_vmm w g then h = phys_blank w OR (g AND 0xFFF) \<and> \<not> wr else h = g \<and> wr"
proof -
  have i: "guest_inv ept_format (w, nps)" by (rule ept_reach_inv [OF assms(1-4)])
  then have v: "vmm_placed w" by (auto simp: guest_inv_def nested_world_def)
  have "phys_blank w AND NOT 0xFFF = phys_blank w" using v by (simp add: vmm_placed_def page_def)
  moreover have "g AND NOT 0xFFF OR g AND 0xFFF = g" by (rule split_mask)
  ultimately show ?thesis
    using ept.guest_translates [OF i assms(5,6)] assms(7)
    by (auto simp: ept_translate_def gmm_pass_gp2hp_def phys_in_vmm_iff [OF v])
qed

theorem ept_isolates_vmm_witness:
  "(\<exists>np. ept_reach None 36 (world_0, [np]) \<and> ept_translate np 0x1234 = Some (0x1234, True)) \<and>
   (\<exists>np. ept_reach None 36 (world_0, [np]) \<and> ept_translate np 0x10000234 = Some (0x10001234, False))"
proof -
  have a: "areas_ok None" by (simp add: areas_ok_def)
  obtain np h wr where 1: "ept_reach None 36 (world_0, [np])" "ept_translate np 0x1234 = Some (h, wr)"
    using ept_sample_mapped [of "0x1234"] by auto
  obtain np' h' wr' where 2: "ept_reach None 36 (world_0, [np'])" "ept_translate np' 0x10000234 = Some (h', wr')"
    using ept_sample_mapped [of "0x10000234"] by auto
  have "h = 0x1234 \<and> wr" using ept_isolates_vmm [OF _ _ a 1(1) _ _ 1(2)] sample_vmm_region(1) by simp
  moreover have "h' = 0x10001234 \<and> \<not> wr'" using ept_isolates_vmm [OF _ _ a 2(1) _ _ 2(2)] sample_vmm_region(2,3) by simp
  ultimately show ?thesis using 1 2 by auto
qed





text \<open>C38: The handler of an EPT violation ends, with every array of areas to be mapped and every
  emulation: the loop over an area takes at most one turn per page.\<close>

theorem ept_violation_ends:
  assumes "32 \<le> n" "n \<le> 48" "areas_ok sp" "ept_reach sp n (w, nps)" "np \<in> set nps" "g < 2 ^ 48"
  shows "vt_ept_violation sp em wr g (w, np) \<noteq> Inl OutOfFuel"
  unfolding vt_ept_violation_def by (rule ept.guest_fault_ends [OF assms(3) ept_reach_inv [OF assms(1-4)] assms(5,6)])

theorem ept_violation_ends_witness:
  "vt_ept_violation (Some [(0xFED00000, 16), (0, 0)]) no_emulation True 0x1234 (world_0, sample_nested) \<noteq> Inl OutOfFuel"
proof -
  let ?sp = "Some [(0xFED00000, 16), (0, 0)] :: (u64 \<times> u64) list option"
  have "ept_reach ?sp 36 (world_0, [sample_nested])" using ept.sample_reached by (simp only: ept_reach_def ept_search_on)
  from ept_violation_ends [OF _ _ _ this] show ?thesis by (simp add: areas_ok_def)
qed

end
