(* ===== verification/Svm_Np.thy ===== *)
theory Svm_Np
  imports Nested_Guest Pmap
begin

text \<open>
  AMD nested paging, \<^verbatim>\<open>bitvisor/core/svm_np.c\<close> in its 64-bit build: the entry format, the operations
  of the file as instances of those of \<open>Nested_Paging\<close>, and the proof that the format keeps the laws.
\<close>

section \<open>The entry format\<close>

definition PDE_AVAILABLE1_BIT :: u64 where "PDE_AVAILABLE1_BIT = 0x200"

lemmas np_bits = PDE_P_BIT_def PDE_RW_BIT_def PDE_US_BIT_def PDE_A_BIT_def PDE_D_BIT_def PDE_PS_BIT_def PDE_AVAILABLE1_BIT_def

definition np_stop :: "u64 \<Rightarrow> bool" where
  "np_stop e \<longleftrightarrow> \<not> any_bit e PDE_P_BIT \<or> any_bit e PDE_AVAILABLE1_BIT"

definition np_link :: "u64 \<Rightarrow> u64" where
  "np_link t = t OR PDE_P_BIT OR PDE_RW_BIT OR PDE_US_BIT OR PDE_A_BIT"

definition np_hattr :: "cache_state \<Rightarrow> u64 \<Rightarrow> u32" where
  "np_hattr c g = cache_get_gmtrr_attr g c OR ucast (PDE_P_BIT OR PDE_RW_BIT OR PDE_US_BIT OR PDE_A_BIT OR PDE_D_BIT)"

definition np_page :: "cache_state \<Rightarrow> u64 \<Rightarrow> u64 \<Rightarrow> bool \<Rightarrow> u64" where
  "np_page c g hphys fakerom =
     (let hattr = np_hattr c g; hattr = (if fakerom then hattr AND NOT (ucast PDE_RW_BIT) else hattr)
      in hphys OR ucast hattr)"

definition np_large :: "cache_state \<Rightarrow> u64 \<Rightarrow> u64 \<Rightarrow> u64" where
  "np_large c g hphys =
     (let hattr = np_hattr c g OR ucast PDE_PS_BIT OR ucast PDE_AVAILABLE1_BIT in hphys OR ucast hattr)"

definition np_format :: nested_format where
  "np_format = \<lparr>fm_stop = np_stop, fm_link = np_link, fm_page = np_page, fm_large = np_large,
     fm_panic = ''NP: Writing to VMM memory.''\<rparr>"

section \<open>The operations\<close>

definition svm_np_init :: "u64 \<Rightarrow> u64 list \<Rightarrow> (ptr \<Rightarrow> u64) \<Rightarrow> nested \<times> u64" where
  "svm_np_init root ts T = (nested_init root ts T, root)"

definition np_cur_move :: "u64 \<Rightarrow> nested \<Rightarrow> nested" where "np_cur_move = cur_move np_format"

definition np_cur_fill :: "u64 \<Rightarrow> nat \<Rightarrow> nested \<Rightarrow> (ptr \<times> nested) res" where "np_cur_fill = cur_fill np_format"

definition svm_np_map_page_sub :: "'d mmio_data \<Rightarrow> bool \<Rightarrow> u64 \<Rightarrow> nested \<Rightarrow> nested res" where
  "svm_np_map_page_sub = map_page_sub np_format"

definition svm_np_map_2mpage :: "'d mmio_data \<Rightarrow> u64 \<Rightarrow> nested \<Rightarrow> (bool \<times> nested) res" where
  "svm_np_map_2mpage = map_2mpage np_format"

definition svm_np_level :: "u64 \<Rightarrow> nested \<Rightarrow> nat \<times> nested" where
  "svm_np_level = level_of np_format"

definition svm_np_map_page_clear_cleared :: "(u64 \<times> u64) list option \<Rightarrow> 'd mmio_data \<Rightarrow> nested \<Rightarrow> nested res" where
  "svm_np_map_page_clear_cleared = map_page_clear_cleared np_format"

definition svm_np_map_page :: "(u64 \<times> u64) list option \<Rightarrow> 'd mmio_data \<Rightarrow> bool \<Rightarrow> u64 \<Rightarrow> nested \<Rightarrow> nested res" where
  "svm_np_map_page = map_page np_format"

definition svm_np_pagefault ::
  "(u64 \<times> u64) list option \<Rightarrow> ('d mmio_data \<Rightarrow> bool \<times> 'd mmio_data) \<Rightarrow> bool \<Rightarrow> u64 \<Rightarrow>
     'd mmio_data \<times> nested \<Rightarrow> ('d mmio_data \<times> nested) res" where
  "svm_np_pagefault = nested_fault np_format"

definition svm_np_tlbflush :: "nested \<Rightarrow> nested" where
  "svm_np_tlbflush np = np"

definition svm_np_updatecr3 :: "nested \<Rightarrow> nested" where
  "svm_np_updatecr3 np = np\<lparr>tlb_flushes := tlb_flushes np + 1\<rparr>"

definition svm_np_clear_all :: "nested \<Rightarrow> nested" where
  "svm_np_clear_all = nested_clear_all"

definition svm_np_map_1mb :: "(u64 \<times> u64) list option \<Rightarrow> 'd mmio_data \<times> nested \<Rightarrow> ('d mmio_data \<times> nested) res" where
  "svm_np_map_1mb = nested_map_1mb np_format"

definition np_present :: "u64 \<Rightarrow> bool" where "np_present e = any_bit e PDE_P_BIT"
definition np_is_large :: "u64 \<Rightarrow> bool" where "np_is_large e = any_bit e PDE_AVAILABLE1_BIT"

definition svm_np_extern_mapsearch :: "bool \<Rightarrow> u64 \<Rightarrow> u64 \<Rightarrow> u64 \<Rightarrow> nested \<Rightarrow> bool \<times> nested" where
  "svm_np_extern_mapsearch = nested_mapsearch np_present np_is_large"

section \<open>The laws of the format\<close>

text \<open>The cache attributes of an entry are the PWT, PCD and PAT bits.\<close>

lemma gmtrr_attr_bits: "(ucast (cache_get_gmtrr_attr g c) :: u64) AND NOT 0x98 = 0"
  by (simp add: cache_get_gmtrr_attr_def attr_from_type_def Let_def PTE_PAT_BIT_def PTE_PCD_BIT_def PTE_PWT_BIT_def)

lemma attr_only: "p AND NOT 0x98 = 0 \<Longrightarrow> p AND 0x98 = p" for p :: u64
  using split_mask [of p "0x98"] by simp

lemma np_entry:
  assumes "h AND ADDR = h" "p AND NOT 0x98 = 0" "k AND NOT 0xFFF = 0"
  shows "(h OR p OR k) AND ADDR = h" "m AND NOT 0xFFF = 0 \<Longrightarrow> 0x98 AND m = 0 \<Longrightarrow> any_bit (h OR p OR k) m = any_bit k m"
proof -
  have "p AND NOT 0xFFF = p AND (0x98 AND NOT 0xFFF)" unfolding and.assoc [symmetric] attr_only [OF assms(2)] ..
  then have "(p OR k) AND NOT 0xFFF = 0" using assms(3) by (simp add: bit.conj_disj_distrib2)
  then show "(h OR p OR k) AND ADDR = h" using attr_small [OF assms(1)] by (simp add: or.assoc)
  assume m: "m AND NOT 0xFFF = 0" "0x98 AND m = 0"
  have "p AND m = p AND (0x98 AND m)" unfolding and.assoc [symmetric] attr_only [OF assms(2)] ..
  then have "any_bit p m = False" using m(2) by (simp add: any_bit_def)
  then show "any_bit (h OR p OR k) m = any_bit k m" using attr_bit [OF assms(1) m(1), of "p OR k"] by (simp add: any_bit_OR or.assoc)
qed

lemma np_hattr_bits:
  "\<exists>p :: u64. p AND NOT 0x98 = 0 \<and> ucast (np_hattr c g) = p OR 0x67 \<and> ucast (np_hattr c g AND - 3) = p OR 0x65 \<and>
    ucast (np_hattr c g OR 0x80 OR 0x200) = p OR 0x2E7"
proof (intro exI conjI)
  let ?p = "ucast (cache_get_gmtrr_attr g c) :: u64"
  show p: "?p AND NOT 0x98 = 0" by (rule gmtrr_attr_bits)
  show e: "ucast (np_hattr c g) = ?p OR 0x67" by (simp add: np_hattr_def np_bits unsigned_or_eq)
  have "?p AND 0xFFFFFFFD = ?p AND (0x98 AND 0xFFFFFFFD)" unfolding and.assoc [symmetric] attr_only [OF p] ..
  then have "?p AND 0xFFFFFFFD = ?p" using attr_only [OF p] by simp
  then show "ucast (np_hattr c g AND - 3) = ?p OR 0x65" by (simp add: unsigned_and_eq e bit.conj_disj_distrib2)
  show "ucast (np_hattr c g OR 0x80 OR 0x200) = ?p OR 0x2E7" by (simp add: unsigned_or_eq e or.assoc)
qed

text \<open>The tests that the processor makes.\<close>

definition np_walks :: "u64 \<Rightarrow> bool" where "np_walks e = any_bit e PDE_P_BIT"
definition np_leaf :: "u64 \<Rightarrow> bool" where "np_leaf e = any_bit e PDE_PS_BIT"
definition np_writable :: "u64 \<Rightarrow> bool" where "np_writable e = any_bit e PDE_RW_BIT"

interpretation svm: nested_search np_format np_walks np_leaf np_writable np_present np_is_large
proof (unfold_locales, goal_cases)
  case (3 t)
  have a: "(0x27 :: u64) AND NOT 0xFFF = 0" by simp
  have e: "np_link t = t OR 0x27" by (simp add: np_link_def np_bits or.assoc)
  show ?case using attr_small [OF 3 a] attr_bit [OF 3, of _ "0x27"]
    by (simp add: np_format_def np_stop_def np_walks_def np_leaf_def np_writable_def e np_bits any_bit_def)
next
  case (4 h c g ro)
  obtain p :: u64 where p: "p AND NOT 0x98 = 0" "ucast (np_hattr c g) = p OR 0x67" "ucast (np_hattr c g AND - 3) = p OR 0x65"
    using np_hattr_bits by blast
  show ?case
  proof (cases ro)
    case True
    then have e: "fm_page np_format c g h ro = h OR p OR 0x65" using p(3) by (simp add: np_format_def np_page_def Let_def np_bits or.assoc)
    show ?thesis unfolding e using np_entry [OF 4 p(1), of "0x65"] True by (simp add: np_walks_def np_writable_def np_bits any_bit_def)
  next
    case False
    then have e: "fm_page np_format c g h ro = h OR p OR 0x67" using p(2) by (simp add: np_format_def np_page_def Let_def or.assoc)
    show ?thesis unfolding e using np_entry [OF 4 p(1), of "0x67"] False by (simp add: np_walks_def np_writable_def np_bits any_bit_def)
  qed
next
  case (5 h c g)
  obtain p :: u64 where p: "p AND NOT 0x98 = 0" "ucast (np_hattr c g OR 0x80 OR 0x200) = p OR 0x2E7" using np_hattr_bits by blast
  have e: "fm_large np_format c g h = h OR p OR 0x2E7" using p(2) by (simp add: np_format_def np_large_def Let_def np_bits or.assoc)
  note n = np_entry [OF 5(1) p(1), of "0x2E7"]
  have "any_bit (h OR p OR 0x2E7) 0x80" by (simp add: any_bit_OR) (simp add: any_bit_def)
  moreover have "(h OR p OR 0x2E7) AND ADDR AND NOT 0x1FFFFF = h" using n(1) clear_mask [OF 5(2)] by (simp only: and.assoc [symmetric]) simp
  ultimately show ?case unfolding e using n
    by (simp add: np_format_def np_stop_def np_walks_def np_leaf_def np_writable_def np_bits) (simp add: any_bit_def)
next
  case (7 t)
  have e: "np_link t = t OR 0x27" by (simp add: np_link_def np_bits or.assoc)
  show ?case using attr_bit [OF 7, of "0x200" "0x27"] by (simp add: np_format_def e np_is_large_def np_bits any_bit_def)
next
  case (8 c g h ro)
  obtain p :: u64 where "ucast (np_hattr c g) = p OR 0x67" "ucast (np_hattr c g AND - 3) = p OR 0x65" using np_hattr_bits by blast
  then show ?case by (simp add: np_format_def np_page_def np_present_def np_bits Let_def any_bit_OR) (simp add: any_bit_def)
next
  case (9 c g h)
  obtain p :: u64 where "ucast (np_hattr c g OR 0x80 OR 0x200) = p OR 0x2E7" using np_hattr_bits by blast
  then show ?case by (simp add: np_format_def np_large_def np_present_def np_is_large_def np_bits Let_def any_bit_OR) (simp add: any_bit_def)
qed (simp_all add: np_format_def np_stop_def np_walks_def np_present_def any_bit_def)

text \<open>
  In a 2 MiB entry the PAT bit of \<open>cache_get_gmtrr_attr\<close>, which is bit 7 as in a small entry, falls on
  the PS bit: a type with a PAT index from 4 on gets the entry of the index 4 below.
\<close>

lemma large_entry_drops_pat:
  assumes "cache_get_gmtrr_attr g c = cache_get_gmtrr_attr g' c' OR PTE_PAT_BIT"
  shows "np_large c g h = np_large c' g' h"
proof -
  have "np_hattr c g OR 0x80 = np_hattr c' g' OR 0x80"
    unfolding np_hattr_def assms PTE_PAT_BIT_def by (simp only: or.assoc or.commute or.left_commute or.left_idem or.idem)
  then have "(np_hattr c g OR 0x80) OR 0x200 = (np_hattr c' g' OR 0x80) OR 0x200" by (rule arg_cong)
  then have "np_hattr c g OR 0x280 = np_hattr c' g' OR 0x280" by (simp only: or.assoc) simp
  then show ?thesis by (simp only: np_large_def Let_def np_bits) simp
qed

section \<open>Guests on nested paging\<close>

definition svm_translate :: "nested \<Rightarrow> u64 \<Rightarrow> (u64 \<times> bool) option" where
  "svm_translate = hw_translate np_walks np_leaf np_writable"

definition svm_search :: "nat \<Rightarrow> bool \<Rightarrow> u64 \<Rightarrow> u64 \<Rightarrow> nested \<Rightarrow> bool \<times> nested" where
  "svm_search n own = svm_np_extern_mapsearch own (mask n AND NOT (mask 12))"

definition svm_reach :: "(u64 \<times> u64) list option \<Rightarrow> nat \<Rightarrow> 'd mmio_data \<times> nested list \<Rightarrow> bool" where
  "svm_reach sp n = guest_reach np_format sp (svm_search n) n"

lemma svm_search_on: "svm_search n = svm.search_on n"
  by (intro ext) (simp add: svm_search_def svm.search_on_def svm_np_extern_mapsearch_def)

lemma svm_reach_inv:
  assumes "32 \<le> n" "n \<le> 48" "areas_ok sp" "svm_reach sp n s" shows "guest_inv np_format s"
  by (rule svm.guest_reach_inv [OF assms(1-3)]) (use assms(4) in \<open>simp only: svm_reach_def svm_search_on\<close>)

text \<open>C24: Under nested paging too, a processor translates a guest address outside the registered MMIO
  ranges to what \<open>gmm_pass_gp2hp\<close> says or not at all, and an address in a range not at all.\<close>

theorem svm_isolates_and_traps:
  assumes "32 \<le> n" "n \<le> 48" "areas_ok sp" "svm_reach sp n (w, nps)" "np \<in> set nps" "g < 2 ^ 48" "svm_translate np g = Some (h, wr)"
  shows "(if in_vmm w g then h = phys_blank w OR (g AND 0xFFF) \<and> \<not> wr else h = g \<and> wr) \<and>
    \<not> list_ex (\<lambda>p. meets (hinfo w p) (page g) 4096) (handles w)"
proof -
  have i: "guest_inv np_format (w, nps)" by (rule svm_reach_inv [OF assms(1-4)])
  then have v: "vmm_placed w" by (auto simp: guest_inv_def nested_world_def)
  have "phys_blank w AND NOT 0xFFF = phys_blank w" using v by (simp add: vmm_placed_def page_def)
  moreover have "g AND NOT 0xFFF OR g AND 0xFFF = g" by (rule split_mask)
  ultimately show ?thesis
    using svm.guest_translates [OF i assms(5,6)] assms(7)
    by (auto simp: svm_translate_def gmm_pass_gp2hp_def phys_in_vmm_iff [OF v] unhandled_def list_ex_iff)
qed

theorem svm_isolates_and_traps_witness:
  "\<exists>np. svm_reach None 36 (world_0, [np]) \<and> svm_translate np 0x10000234 = Some (0x10001234, False)"
proof -
  have a: "areas_ok None" by (simp add: areas_ok_def)
  obtain np h wr where 1: "svm_reach None 36 (world_0, [np])" "svm_translate np 0x10000234 = Some (h, wr)"
    using svm.sample_mapped [of "0x10000234"] by (auto simp: svm_reach_def svm_search_on svm_translate_def)
  have "h = 0x10001234 \<and> \<not> wr" using svm_isolates_and_traps [OF _ _ a 1(1) _ _ 1(2)] sample_vmm_region(2,3) by simp
  then show ?thesis using 1 by auto
qed

end
