(* ===== verification/Strtol.thy ===== *)
theory Strtol
  imports Prelude
begin

text \<open>
  \<^verbatim>\<open>bitvisor/core/strtol.c\<close>: reading an integer.  A pointer into a string is the rest of the object from
  there on, its terminating NUL included; reading behind the object is \<open>OutOfBounds\<close>.
\<close>

section \<open>The code\<close>

definition isblank :: "u8 \<Rightarrow> bool" where
  "isblank c \<longleftrightarrow> c = 0x20 \<or> c = 0x09"

definition isspace :: "u8 \<Rightarrow> bool" where
  "isspace c \<longleftrightarrow> isblank c \<or> c = 0x0C \<or> c = 0x0A \<or> c = 0x0D \<or> c = 0x0B"

definition digit_to_num :: "u8 \<Rightarrow> u32 \<Rightarrow> u32" where
  "digit_to_num c base =
     (let n = (if c \<ge> 0x30 \<and> c \<le> 0x39 then ucast (c - 0x30)
               else if c \<ge> 0x41 \<and> c \<le> 0x5A then ucast (c - 0x41) + 10
               else if c \<ge> 0x61 \<and> c \<le> 0x7A then ucast (c - 0x61) + 10
               else base);
          n = (if n \<ge> base then base else n)
      in if sint base < 2 \<or> sint base > 36 then base else n)"

datatype sign = SIGN_NONE | SIGN_PLUS | SIGN_MINUS

definition ULONG_MAX :: u64 where "ULONG_MAX = NOT 0"
definition LONG_MAX :: u64 where "LONG_MAX = drop_bit 1 ULONG_MAX"

fun skip_spaces :: "u8 list \<Rightarrow> u8 list res" where
  "skip_spaces [] = Inl OutOfBounds"
| "skip_spaces (c # s) = (if isspace c then skip_spaces s else Inr (c # s))"

text \<open>The sign, the limit and the rest of the string.\<close>

definition read_sign :: "u8 list \<Rightarrow> (sign \<times> u64 \<times> u8 list) res" where
  "read_sign s =
     (case s of
        [] \<Rightarrow> Inl OutOfBounds
      | c # s' \<Rightarrow>
          if c = 0x2B then Inr (SIGN_PLUS, LONG_MAX, s')
          else if c = 0x2D then Inr (SIGN_MINUS, LONG_MAX + 1, s')
          else Inr (SIGN_NONE, ULONG_MAX, s))"

text \<open>The base that the prefix asks for; the second character is read only behind a \<open>0\<close>.\<close>

definition prefix_base :: "u8 list \<Rightarrow> u32 res" where
  "prefix_base s =
     (case rd s 0 of
        None \<Rightarrow> Inl OutOfBounds
      | Some c \<Rightarrow>
          if c = 0x30 then
            (case rd s 1 of None \<Rightarrow> Inl OutOfBounds | Some c \<Rightarrow> Inr (if c = 0x58 \<or> c = 0x78 then 16 else 8))
          else Inr 10)"

definition signed_val :: "sign \<Rightarrow> u64 \<Rightarrow> u64" where
  "signed_val sign v = (if sign = SIGN_MINUS then - v else v)"

text \<open>The loop over the digits; the result is the value and the end pointer.\<close>

fun strtol_loop :: "u32 \<Rightarrow> u64 \<Rightarrow> sign \<Rightarrow> u64 \<Rightarrow> u8 list \<Rightarrow> (u64 \<times> u8 list) res" where
  "strtol_loop base valmax sign val [] = Inl OutOfBounds"
| "strtol_loop base valmax sign val (c # s) =
     (let d = ucast (digit_to_num c base); b = scast base in
      if d = b then Inr (signed_val sign val, c # s)
      else if val > valmax div b then Inr (signed_val sign valmax, c # s)
      else
        let val = val * b + d
        in if val > valmax then Inr (signed_val sign valmax, c # s)
           else strtol_loop base valmax sign val s)"

definition strtol :: "u8 list \<Rightarrow> u32 \<Rightarrow> (u64 \<times> u8 list) res" where
  "strtol s base =
     bind_res (skip_spaces s) (\<lambda>s.
     bind_res (read_sign s) (\<lambda>(sign, valmax, s).
     bind_res (prefix_base s) (\<lambda>b.
     let base = (if base = 0 then b else base);
         s = (if base = 16 \<and> b = 16 then drop 2 s else s)
     in strtol_loop base valmax sign 0 s)))"

section \<open>Numerals\<close>

text \<open>The digits of a number, the most significant first.\<close>

fun digits :: "nat \<Rightarrow> nat \<Rightarrow> nat list" where
  "digits b n = (if n < b \<or> b < 2 then [n] else digits b (n div b) @ [n mod b])"

declare digits.simps [simp del]

definition digits_value :: "nat \<Rightarrow> nat list \<Rightarrow> nat" where
  "digits_value b ds = foldl (\<lambda>v d. v * b + d) 0 ds"

lemma digits_value_digits: "digits_value b (digits b n) = n"
  by (induction b n rule: digits.induct) (subst digits.simps, auto simp: digits_value_def)

lemma digits_less: "2 \<le> b \<Longrightarrow> \<forall>d\<in>set (digits b n). d < b"
  by (induction b n rule: digits.induct) (subst digits.simps, auto)

lemma digits_Nil [simp]: "digits b n \<noteq> []"
  by (subst digits.simps) simp

text \<open>A digit as a character, in upper or lower case.\<close>

definition digit_char :: "bool \<Rightarrow> nat \<Rightarrow> u8" where
  "digit_char capital d = (if d < 10 then 0x30 + of_nat d else (if capital then 0x41 else 0x61) + of_nat (d - 10))"

lemma unat_digit_char:
  assumes "d < 36"
  shows "unat (digit_char cap d) = (if d < 10 then 48 + d else (if cap then 65 else 97) + (d - 10))"
proof -
  have u: "unat (of_nat k :: u8) = k" if "k < 36" for k using that by (simp add: unat_of_nat)
  show ?thesis
  proof (cases "d < 10")
    case True
    then show ?thesis using u [of d] by (simp add: digit_char_def unat_word_ariths)
  next
    case False
    then obtain k where "d = 10 + k" using le_Suc_ex [of 10 d] by auto
    then show ?thesis using u [of k] assms by (simp add: digit_char_def unat_word_ariths)
  qed
qed

lemma unat_ucast_8_32: "unat (ucast w :: u32) = unat w" for w :: u8
proof -
  have "unat w < 2 ^ 8" using unsigned_less [of w] by simp
  then have "take_bit 32 (unat w) = unat w" by (simp add: take_bit_nat_eq_self)
  then show ?thesis by (simp add: unsigned_ucast_eq)
qed

lemma char_offset:
  fixes c a :: u8
  assumes "unat c = unat a + k" shows "unat (ucast (c - a) :: u32) = k"
proof -
  have "a \<le> c" using assms by (simp add: word_le_nat_alt)
  then have "unat (c - a) = k" using assms by (simp add: unat_sub)
  then show ?thesis by (simp add: unat_ucast_8_32)
qed

text \<open>The bases that the function accepts.\<close>

definition base_ok :: "u32 \<Rightarrow> bool" where "base_ok base \<longleftrightarrow> 2 \<le> unat base \<and> unat base \<le> 36"

lemma base_ok_sint: "base_ok base \<Longrightarrow> sint base = int (unat base)"
proof -
  assume b: "base_ok base"
  then have "int (unat base) \<le> 36" by (simp only: base_ok_def) linarith
  then have u: "uint base < 2 ^ 31" by (simp add: uint_nat del: of_nat_unat)
  have "sint base = signed_take_bit 31 (uint base)" unfolding sint_uint by simp
  also have "\<dots> = uint base"
    by (rule signed_take_bit_int_eq_self [OF _ u]) (rule order.trans [OF _ unsigned_greater_eq], simp)
  finally show ?thesis by (simp only: uint_nat)
qed

lemma base_ok_scast: "base_ok base \<Longrightarrow> unat (scast base :: u64) = unat base"
proof -
  assume b: "base_ok base"
  have "(scast base :: u64) = word_of_int (int (unat base))" unfolding scast_eq base_ok_sint [OF b] ..
  then have "(scast base :: u64) = of_nat (unat base)" by (simp del: of_nat_unat)
  then show ?thesis using b by (simp only: unat_of_nat) (simp add: base_ok_def)
qed

lemma digit_to_num_char:
  assumes "d < unat base" "base_ok base"
  shows "digit_to_num (digit_char cap d) base = of_nat d"
proof -
  let ?c = "digit_char cap d"
  have d: "d < 36" using assms by (simp add: base_ok_def)
  note u = unat_digit_char [OF d, of cap]
  have n: "unat (of_nat d :: u32) = d" using d by (simp add: unat_of_nat)
  then have "\<not> (of_nat d :: u32) \<ge> base" using assms(1) by (simp add: word_le_nat_alt)
  moreover have "\<not> (sint base < 2 \<or> sint base > 36)" unfolding base_ok_sint [OF assms(2)] using assms(2) by (auto simp: base_ok_def simp del: of_nat_unat)
  moreover have "(if ?c \<ge> 0x30 \<and> ?c \<le> 0x39 then ucast (?c - 0x30) else if ?c \<ge> 0x41 \<and> ?c \<le> 0x5A then ucast (?c - 0x41) + 10
      else if ?c \<ge> 0x61 \<and> ?c \<le> 0x7A then ucast (?c - 0x61) + 10 else base) = (of_nat d :: u32)"
  proof (cases "d < 10")
    case True
    then have "unat ?c = unat (0x30 :: u8) + d" using u by simp
    then show ?thesis using True u n char_offset [of ?c "0x30" d] by (simp add: word_le_nat_alt word_unat_eq_iff)
  next
    case F: False
    then have e: "unat ?c = unat (if cap then 0x41 else 0x61 :: u8) + (d - 10)" using u by simp
    have "unat (ucast (?c - (if cap then 0x41 else 0x61)) + 10 :: u32) = d"
      using char_offset [OF e] F d by (simp add: unat_word_ariths)
    then show ?thesis using F d u n by (cases cap) (simp_all add: word_le_nat_alt word_unat_eq_iff)
  qed
  ultimately show ?thesis by (simp only: digit_to_num_def Let_def if_False)
qed

text \<open>A character at which the number ends.\<close>

definition no_digit :: "u32 \<Rightarrow> u8 \<Rightarrow> bool" where "no_digit base c \<longleftrightarrow> digit_to_num c base = base"

lemma NUL_no_digit: "no_digit base 0"
  by (simp add: no_digit_def digit_to_num_def Let_def)

section \<open>The loop\<close>

text \<open>
  Digits whose value fits below the limit are read to the end.  The multiplication does not wrap, as
  the value before it is checked against the limit divided by the base.
\<close>

lemma foldl_mono: "v \<le> foldl (\<lambda>v d. v * b + d) v ds" if "1 \<le> b" for v :: nat
proof (induction ds arbitrary: v)
  case (Cons d ds)
  have "v \<le> v * b + d" using that by (simp add: trans_le_add1)
  then show ?case using Cons [of "v * b + d"] by simp
qed simp

lemma strtol_loop_digits:
  assumes "base_ok base" "no_digit base c"
  shows "\<forall>d\<in>set ds. d < unat base \<Longrightarrow> foldl (\<lambda>v d. v * unat base + d) (unat val) ds \<le> unat valmax \<Longrightarrow>
    strtol_loop base valmax sign val (map (digit_char cap) ds @ c # post) =
      Inr (signed_val sign (of_nat (foldl (\<lambda>v d. v * unat base + d) (unat val) ds)), c # post)"
proof (induction ds arbitrary: val)
  case Nil
  have "(ucast base :: u64) = scast base"
    using base_ok_scast [OF assms(1)] by (simp add: word_unat_eq_iff unat_ucast_64)
  then show ?case using assms(2) by (simp add: no_digit_def)
next
  case (Cons d ds)
  let ?b = "unat base" and ?B = "scast base :: u64" and ?d = "of_nat d :: u32"
  have b: "unat ?B = ?b" "1 \<le> ?b" using base_ok_scast [OF assms(1)] assms(1) by (simp_all add: base_ok_def)
  have d: "d < ?b" "digit_to_num (digit_char cap d) base = ?d" using Cons.prems(1) digit_to_num_char [OF _ assms(1)] by auto
  have ud: "unat (ucast ?d :: u64) = d" using d(1) assms(1) by (simp add: unat_ucast_64 unat_of_nat base_ok_def)
  have f: "unat val * ?b + d \<le> unat valmax"
    using foldl_mono [OF b(2), of "unat val * ?b + d" ds] Cons.prems(2) by simp
  have l: "unat val \<le> unat valmax div ?b" using f b(2) by (simp add: less_eq_div_iff_mult_less_eq)
  have m: "unat valmax < 2 ^ 64" using unsigned_less [of valmax] by simp
  have u: "unat (val * ?B + ucast ?d) = unat val * ?b + d"
  proof -
    have "unat val * ?b < 2 ^ 64" "unat val * ?b + d < 2 ^ 64" using f m by linarith+
    then show ?thesis by (simp add: unat_word_ariths b(1) ud)
  qed
  have "(ucast ?d :: u64) \<noteq> ?B" using ud b(1) d(1) by auto
  moreover have "\<not> val > valmax div ?B" using l by (simp add: word_less_nat_alt unat_div b(1))
  moreover have "\<not> val * ?B + ucast ?d > valmax" unfolding word_less_nat_alt u using f by simp
  ultimately have "strtol_loop base valmax sign val (map (digit_char cap) (d # ds) @ c # post) =
      strtol_loop base valmax sign (val * ?B + ucast ?d) (map (digit_char cap) ds @ c # post)"
    by (simp add: Let_def d(2))
  also have "\<dots> = Inr (signed_val sign (of_nat (foldl (\<lambda>v d. v * ?b + d) (unat (val * ?B + ucast ?d)) ds)), c # post)"
    by (rule Cons.IH) (use Cons.prems u in auto)
  finally show ?case by (simp add: u)
qed

text \<open>Beyond a limit that leaves room for one more digit the result is the limit.\<close>

lemma strtol_loop_overflow:
  assumes "base_ok base" "unat valmax + unat base \<le> 2 ^ 64"
  shows "\<forall>d\<in>set ds. d < unat base \<Longrightarrow> unat val \<le> unat valmax \<Longrightarrow> unat valmax < foldl (\<lambda>v d. v * unat base + d) (unat val) ds \<Longrightarrow>
    \<exists>e. strtol_loop base valmax sign val (map (digit_char cap) ds @ c # post) = Inr (signed_val sign valmax, e)"
proof (induction ds arbitrary: val)
  case (Cons d ds)
  let ?b = "unat base" and ?B = "scast base :: u64" and ?d = "of_nat d :: u32"
  have b: "unat ?B = ?b" "2 \<le> ?b" using base_ok_scast [OF assms(1)] assms(1) by (simp_all add: base_ok_def)
  have d: "d < ?b" "digit_to_num (digit_char cap d) base = ?d" using Cons.prems(1) digit_to_num_char [OF _ assms(1)] by auto
  have ud: "unat (ucast ?d :: u64) = d" using d(1) assms(1) by (simp add: unat_ucast_64 unat_of_nat base_ok_def)
  then have nb: "(ucast ?d :: u64) \<noteq> ?B" using b(1) d(1) by auto
  show ?case
  proof (cases "unat valmax div ?b < unat val")
    case True
    then have "val > valmax div ?B" by (simp add: word_less_nat_alt unat_div b(1))
    then show ?thesis using nb by (simp add: Let_def d(2))
  next
    case False
    then have "unat val * ?b \<le> unat valmax" using b(2) by (simp add: less_eq_div_iff_mult_less_eq not_less)
    then have "unat val * ?b < 2 ^ 64" "unat val * ?b + d < 2 ^ 64" using assms(2) d(1) b(2) by linarith+
    then have u: "unat (val * ?B + ucast ?d) = unat val * ?b + d" by (simp add: unat_word_ariths b(1) ud)
    have l: "\<not> val > valmax div ?B" using False by (simp add: word_less_nat_alt unat_div b(1))
    show ?thesis
    proof (cases "val * ?B + ucast ?d > valmax")
      case True
      then show ?thesis using nb l by (simp add: Let_def d(2))
    next
      case F: False
      then have "unat (val * ?B + ucast ?d) \<le> unat valmax" by (simp add: word_less_nat_alt not_less)
      then show ?thesis using Cons.IH [of "val * ?B + ucast ?d"] Cons.prems(1,3) nb l F u by (simp add: Let_def d(2))
    qed
  qed
qed simp

section \<open>The whole function\<close>

lemma skip_spaces_run: "list_all isspace sp \<Longrightarrow> \<not> isspace c \<Longrightarrow> skip_spaces (sp @ c # s) = Inr (c # s)"
  by (induction sp) auto

lemma digit_char_bounds:
  assumes "d < 36" shows "digit_char cap d \<ge> 0x30" "\<not> isspace (digit_char cap d)" "digit_char cap d \<noteq> 0x2B" "digit_char cap d \<noteq> 0x2D"
    "digit_char cap d = 0x30 \<longleftrightarrow> d = 0"
proof -
  have u: "48 \<le> unat (digit_char cap d)" "unat (digit_char cap d) = 48 \<longleftrightarrow> d = 0"
    unfolding unat_digit_char [OF assms] by auto
  then show "digit_char cap d \<ge> 0x30" by (simp add: word_le_nat_alt)
  have n: "digit_char cap d \<noteq> k" if "unat k < 48" for k using u(1) that by auto
  show "digit_char cap d \<noteq> 0x2B" "digit_char cap d \<noteq> 0x2D" "\<not> isspace (digit_char cap d)"
    by (simp_all add: isspace_def isblank_def n)
  show "digit_char cap d = 0x30 \<longleftrightarrow> d = 0" using u(2) by (simp add: word_unat_eq_iff)
qed

lemma max_values: "LONG_MAX = 0x7FFFFFFFFFFFFFFF" "ULONG_MAX = 0xFFFFFFFFFFFFFFFF"
proof -
  show u: "ULONG_MAX = 0xFFFFFFFFFFFFFFFF" by (simp add: ULONG_MAX_def mask_eq_exp_minus_1 flip: mask_full)
  show "LONG_MAX = 0x7FFFFFFFFFFFFFFF" unfolding LONG_MAX_def u by (simp add: drop_bit_eq_div word_unat_eq_iff unat_div)
qed

text \<open>A sign as it is written, and the largest value that may follow it.\<close>

definition sign_chars :: "sign \<Rightarrow> u8 list" where
  "sign_chars sg = (case sg of SIGN_NONE \<Rightarrow> [] | SIGN_PLUS \<Rightarrow> [0x2B] | SIGN_MINUS \<Rightarrow> [0x2D])"

definition sign_max :: "sign \<Rightarrow> nat" where
  "sign_max sg = (case sg of SIGN_NONE \<Rightarrow> 2 ^ 64 - 1 | SIGN_PLUS \<Rightarrow> 2 ^ 63 - 1 | SIGN_MINUS \<Rightarrow> 2 ^ 63)"

lemma sign_read:
  assumes "c \<ge> 0x30" "list_all isspace sp" "\<not> isspace c"
  shows "\<exists>m. bind_res (skip_spaces (sp @ sign_chars sg @ c # s)) read_sign = Inr (sg, m, c # s) \<and> unat m = sign_max sg"
proof -
  have c: "c \<noteq> 0x2B" "c \<noteq> 0x2D" using assms(1) by (auto simp: word_le_nat_alt)
  have p: "\<not> isspace 0x2B" "\<not> isspace 0x2D" by (simp_all add: isspace_def isblank_def)
  have m: "unat LONG_MAX = 2 ^ 63 - 1" "unat (LONG_MAX + 1) = 2 ^ 63" "unat ULONG_MAX = 2 ^ 64 - 1"
    by (simp_all add: max_values)
  show ?thesis
    using skip_spaces_run [OF assms(2)] assms(3) c p m
    by (cases sg) (auto simp: sign_chars_def read_sign_def sign_max_def)
qed

lemma strtol_after_sign:
  assumes "c \<ge> 0x30" "list_all isspace sp" "\<not> isspace c" "prefix_base (c # s) = Inr b"
  shows "\<exists>m. unat m = sign_max sg \<and> strtol (sp @ sign_chars sg @ c # s) base =
    strtol_loop (if base = 0 then b else base) m sg 0
      (if (if base = 0 then b else base) = 16 \<and> b = 16 then drop 2 (c # s) else c # s)"
proof -
  obtain m where m: "bind_res (skip_spaces (sp @ sign_chars sg @ c # s)) read_sign = Inr (sg, m, c # s)" "unat m = sign_max sg"
    using sign_read [OF assms(1-3)] by blast
  then obtain s' where "skip_spaces (sp @ sign_chars sg @ c # s) = Inr s'" "read_sign s' = Inr (sg, m, c # s)"
    by (auto simp: bind_res_Inr_iff)
  then have "strtol (sp @ sign_chars sg @ c # s) base =
    strtol_loop (if base = 0 then b else base) m sg 0
      (if (if base = 0 then b else base) = 16 \<and> b = 16 then drop 2 (c # s) else c # s)"
    using assms(4) by (simp add: strtol_def Let_def)
  then show ?thesis using m(2) by blast
qed

text \<open>The numeral of \<open>n\<close> in base \<open>b\<close>.\<close>

definition numeral_chars :: "bool \<Rightarrow> nat \<Rightarrow> nat \<Rightarrow> u8 list" where
  "numeral_chars cap b n = map (digit_char cap) (digits b n)"

lemma numeral_Cons:
  assumes "2 \<le> b" "b \<le> 36"
  obtains d ds where "digits b n = d # ds" "d < b" "digit_char cap d \<ge> 0x30" "\<not> isspace (digit_char cap d)" "d < 36"
proof -
  obtain d ds where e: "digits b n = d # ds" by (cases "digits b n") auto
  then have "d < b" using digits_less [OF assms(1), of n] by simp
  then show thesis using that [OF e] digit_char_bounds [of d cap] assms(2) by simp
qed

lemma digits_head_0: "digits b n = 0 # ds \<Longrightarrow> 2 \<le> b \<Longrightarrow> n = 0 \<and> ds = []"
proof (induction b n arbitrary: ds rule: digits.induct)
  case (1 b n)
  show ?case
  proof (cases "n < b")
    case True
    then show ?thesis using 1(2) by (subst (asm) digits.simps) auto
  next
    case False
    then have e: "digits b (n div b) @ [n mod b] = 0 # ds" using 1(2,3) by (subst (asm) digits.simps) auto
    obtain es where "digits b (n div b) = 0 # es" using e by (cases "digits b (n div b)") auto
    then have "n div b = 0" using 1(1) False 1(3) by auto
    then show ?thesis using False 1(3) by (simp add: div_eq_0_iff)
  qed
qed

text \<open>The text ends the numeral: not with a digit, and not so that it makes the prefix \<open>0x\<close>.\<close>

definition ends_numeral :: "u32 \<Rightarrow> u8 \<Rightarrow> bool" where
  "ends_numeral base c \<longleftrightarrow> no_digit base c \<and> c \<noteq> 0x58 \<and> c \<noteq> 0x78"

lemma numeral_read:
  assumes "base_ok base" "ends_numeral base c" "list_all isspace sp"
  shows "\<exists>m. unat m = sign_max sg \<and> strtol (sp @ sign_chars sg @ numeral_chars cap (unat base) n @ c # post) base =
    strtol_loop base m sg 0 (numeral_chars cap (unat base) n @ c # post)"
proof -
  have b: "2 \<le> unat base" "unat base \<le> 36" using assms(1) by (simp_all add: base_ok_def)
  obtain d ds where d: "digits (unat base) n = d # ds" "d < unat base" "digit_char cap d \<ge> 0x30" "\<not> isspace (digit_char cap d)" "d < 36"
    by (rule numeral_Cons [OF b])
  let ?s = "map (digit_char cap) ds @ c # post"
  have p: "\<exists>b'. prefix_base (digit_char cap d # ?s) = Inr b' \<and> b' \<noteq> 16"
  proof (cases "d = 0")
    case True
    then have "ds = []" using digits_head_0 [of "unat base" n ds] d(1) b(1) by simp
    then show ?thesis using True digit_char_bounds(5) [OF d(5)] assms(2) by (auto simp: prefix_base_def ends_numeral_def rd_def)
  next
    case False
    then show ?thesis using digit_char_bounds(5) [OF d(5)] by (auto simp: prefix_base_def)
  qed
  then obtain b' where b': "prefix_base (digit_char cap d # ?s) = Inr b'" "b' \<noteq> 16" by blast
  have "base \<noteq> 0" using b by auto
  then show ?thesis using strtol_after_sign [OF d(3) assms(3) d(4) b'(1), of sg base] b'(2) d(1) by (simp add: numeral_chars_def)
qed

lemma numeral_value:
  assumes "base_ok base" "list_all isspace sp" "n \<le> sign_max sg" "ends_numeral base c"
  shows "strtol (sp @ sign_chars sg @ numeral_chars cap (unat base) n @ c # post) base = Inr (signed_val sg (of_nat n), c # post)"
proof -
  note b = assms(1)
  have "2 \<le> unat base" using b by (simp add: base_ok_def)
  note l = digits_less [OF this]
  obtain m where m: "unat m = sign_max sg" "strtol (sp @ sign_chars sg @ numeral_chars cap (unat base) n @ c # post) base =
      strtol_loop base m sg 0 (numeral_chars cap (unat base) n @ c # post)" using numeral_read [OF b assms(4,2)] by blast
  have v: "foldl (\<lambda>v d. v * unat base + d) (unat (0 :: u64)) (digits (unat base) n) = n"
    using digits_value_digits [of "unat base" n] by (simp add: digits_value_def)
  have "no_digit base c" using assms(4) by (simp add: ends_numeral_def)
  from strtol_loop_digits [OF b this l, where val = 0 and valmax = m] show ?thesis
    using v m assms(3) by (simp add: numeral_chars_def)
qed

section \<open>Properties\<close>

text \<open>A numeral in a base from 2 to 36, after any spaces and a sign, is read to its end, and its
  value is returned, as long as it fits: up to \<open>2 ^ 63 - 1\<close> and down to \<open>- (2 ^ 63)\<close> with a sign, and
  the unsigned range without.\<close>

theorem strtol_reads_numeral:
  assumes "2 \<le> unat base" "unat base \<le> 36" "list_all isspace sp" "n \<le> sign_max sg" "ends_numeral base c"
  shows "strtol (sp @ sign_chars sg @ numeral_chars cap (unat base) n @ c # post) base = Inr (signed_val sg (of_nat n), c # post)"
  using assms by (intro numeral_value) (simp_all add: base_ok_def)

theorem strtol_reads_numeral_witness:
  "strtol [0x20, 0x2D, 0x31, 0x32, 0x38, 0] 10 = Inr (- 128, [0])"
proof -
  have n: "numeral_chars False 10 128 = [0x31, 0x32, 0x38]"
    by (simp add: numeral_chars_def digits.simps digit_char_def)
  show ?thesis
    using strtol_reads_numeral [of 10 "[0x20]" 128 SIGN_MINUS 0 False "[]"]
    by (simp add: n sign_chars_def signed_val_def sign_max_def ends_numeral_def NUL_no_digit isspace_def isblank_def)
qed

text \<open>With a sign, a numeral beyond the range gives the end of the range.\<close>

theorem strtol_clamps_signed:
  assumes "2 \<le> unat base" "unat base \<le> 36" "list_all isspace sp" "sg \<noteq> SIGN_NONE" "sign_max sg < n" "ends_numeral base c"
  shows "\<exists>e. strtol (sp @ sign_chars sg @ numeral_chars cap (unat base) n @ c # post) base =
    Inr (if sg = SIGN_PLUS then LONG_MAX else 0x8000000000000000, e)"
proof -
  have b: "base_ok base" using assms(1,2) by (simp add: base_ok_def)
  obtain m where m: "unat m = sign_max sg" "strtol (sp @ sign_chars sg @ numeral_chars cap (unat base) n @ c # post) base =
      strtol_loop base m sg 0 (numeral_chars cap (unat base) n @ c # post)" using numeral_read [OF b assms(6,3)] by blast
  have v: "foldl (\<lambda>v d. v * unat base + d) (unat (0 :: u64)) (digits (unat base) n) = n"
    using digits_value_digits [of "unat base" n] by (simp add: digits_value_def)
  have "unat m + unat base \<le> 2 ^ 64" using m(1) assms(2,4) by (cases sg) (simp_all add: sign_max_def)
  from strtol_loop_overflow [OF b this digits_less [OF assms(1), of n], where val = 0 and sign = sg and cap = cap and c = c and post = post] obtain e where
    e: "strtol_loop base m sg 0 (numeral_chars cap (unat base) n @ c # post) = Inr (signed_val sg m, e)"
    using v m(1) assms(5) unfolding numeral_chars_def by auto
  have "signed_val sg m = (if sg = SIGN_PLUS then LONG_MAX else 0x8000000000000000)"
  proof (cases sg)
    case SIGN_PLUS
    then have "unat m = unat LONG_MAX" using m(1) by (simp add: sign_max_def max_values)
    then have "m = LONG_MAX" by (simp only: word_unat_eq_iff)
    then show ?thesis using SIGN_PLUS by (simp add: signed_val_def)
  next
    case SIGN_MINUS
    then have "unat m = unat (0x8000000000000000 :: u64)" using m(1) by (simp add: sign_max_def)
    then have "m = 0x8000000000000000" by (simp only: word_unat_eq_iff)
    then show ?thesis using SIGN_MINUS by (simp add: signed_val_def)
  qed (use assms(4) in simp)
  then show ?thesis using e m(2) by simp
qed

theorem strtol_clamps_signed_witness:
  "\<exists>e. strtol (0x2D # numeral_chars False 10 (10 ^ 30) @ [0]) 10 = Inr (0x8000000000000000, e)"
  using strtol_clamps_signed [of 10 "[]" SIGN_MINUS "10 ^ 30" 0 False "[]"]
  by (simp add: sign_chars_def sign_max_def ends_numeral_def NUL_no_digit)

text \<open>Without a sign the check against the limit lets the last digit wrap around.\<close>

lemma strtol_unsigned_wraps:
  "strtol [0x31, 0x38, 0x34, 0x34, 0x36, 0x37, 0x34, 0x34, 0x30, 0x37, 0x33, 0x37, 0x30, 0x39, 0x35, 0x35, 0x31, 0x36, 0x31, 0x36, 0] 10 = Inr (0, [0])"
  by (simp add: strtol_def isspace_def isblank_def read_sign_def prefix_base_def digit_to_num_def Let_def signed_val_def max_values word_le_nat_alt)

end
