(* ===== verification/Printf.thy ===== *)
theory Printf
  imports Strtol
begin

text \<open>
  \<^verbatim>\<open>bitvisor/core/printf.c\<close>: formatted output.  The function that takes a character is a parameter, as in
  the source; \<open>do_snputchar\<close>, the one of \<open>snprintf\<close>, is modelled.  A variable argument is a tagged
  value; one of another type than the format asks for, or a missing one, is \<open>OutOfBounds\<close>.
\<close>

section \<open>Formats\<close>

definition FLAG_ALTERNATE_FORM :: u32 where "FLAG_ALTERNATE_FORM = 0x1"
definition FLAG_ZERO_PADDED :: u32 where "FLAG_ZERO_PADDED = 0x2"
definition FLAG_LEFT_ADJUSTED :: u32 where "FLAG_LEFT_ADJUSTED = 0x4"
definition FLAG_POSITIVE_BLANK :: u32 where "FLAG_POSITIVE_BLANK = 0x8"
definition FLAG_POSITIVE_SIGN :: u32 where "FLAG_POSITIVE_SIGN = 0x10"
definition HAS_WIDTH :: u32 where "HAS_WIDTH = 0x20"
definition HAS_PRECISION :: u32 where "HAS_PRECISION = 0x40"
definition LENGTH_SHORT :: u32 where "LENGTH_SHORT = 0x80"
definition LENGTH_CHAR :: u32 where "LENGTH_CHAR = 0x100"
definition LENGTH_LONG :: u32 where "LENGTH_LONG = 0x200"
definition LENGTH_LONGLONG :: u32 where "LENGTH_LONGLONG = 0x400"
definition LENGTH_INTMAX :: u32 where "LENGTH_INTMAX = 0x800"
definition LENGTH_SIZE :: u32 where "LENGTH_SIZE = 0x1000"
definition LENGTH_PTRDIFF :: u32 where "LENGTH_PTRDIFF = 0x2000"
definition CONVERSION_INT :: u32 where "CONVERSION_INT = 0x4000"
definition CONVERSION_DECIMAL :: u32 where "CONVERSION_DECIMAL = 0x8000"
definition CONVERSION_UINT :: u32 where "CONVERSION_UINT = 0x10000"
definition CONVERSION_OCTAL :: u32 where "CONVERSION_OCTAL = 0x20000"
definition CONVERSION_CAPITAL :: u32 where "CONVERSION_CAPITAL = 0x40000"
definition CONVERSION_HEXADECIMAL :: u32 where "CONVERSION_HEXADECIMAL = 0x80000"
definition CONVERSION_CHARACTER :: u32 where "CONVERSION_CHARACTER = 0x100000"
definition CONVERSION_CHARP :: u32 where "CONVERSION_CHARP = 0x200000"
definition CONVERSION_VOIDP :: u32 where "CONVERSION_VOIDP = 0x400000"
definition CONVERSION_NONE :: u32 where "CONVERSION_NONE = 0x800000"
definition END_STRING :: u32 where "END_STRING = 0x1000000"
definition FLAG_MINUS :: u32 where "FLAG_MINUS = 0x2000000"
definition FLAG_PLUS :: u32 where "FLAG_PLUS = 0x4000000"

lemmas printf_flags = FLAG_ALTERNATE_FORM_def FLAG_ZERO_PADDED_def FLAG_LEFT_ADJUSTED_def FLAG_POSITIVE_BLANK_def
  FLAG_POSITIVE_SIGN_def HAS_WIDTH_def HAS_PRECISION_def LENGTH_SHORT_def LENGTH_CHAR_def LENGTH_LONG_def
  LENGTH_LONGLONG_def LENGTH_INTMAX_def LENGTH_SIZE_def LENGTH_PTRDIFF_def CONVERSION_INT_def CONVERSION_DECIMAL_def
  CONVERSION_UINT_def CONVERSION_OCTAL_def CONVERSION_CAPITAL_def CONVERSION_HEXADECIMAL_def CONVERSION_CHARACTER_def
  CONVERSION_CHARP_def CONVERSION_VOIDP_def CONVERSION_NONE_def END_STRING_def FLAG_MINUS_def FLAG_PLUS_def

text \<open>
  The four phases of \<open>parse_format\<close>.  A \<open>goto\<close> into the next phase with the character that ended the
  phase is a list with that character at its head; \<open>None\<close> is \<open>END_STRING\<close>.
\<close>

fun parse_flags :: "u32 \<Rightarrow> u8 list \<Rightarrow> (u32 option \<times> u8 list) res" where
  "parse_flags r [] = Inl OutOfBounds"
| "parse_flags r (c # s) =
     (if c = 0 then Inr (None, s)
      else if c = 0x23 then parse_flags (r OR FLAG_ALTERNATE_FORM) s
      else if c = 0x30 then parse_flags (r OR FLAG_ZERO_PADDED) s
      else if c = 0x2D then parse_flags (r OR FLAG_LEFT_ADJUSTED) s
      else if c = 0x20 then parse_flags (r OR FLAG_POSITIVE_BLANK) s
      else if c = 0x2B then parse_flags (r OR FLAG_POSITIVE_SIGN) s
      else Inr (Some r, c # s))"

fun parse_width :: "u32 \<Rightarrow> u32 \<Rightarrow> u8 list \<Rightarrow> ((u32 \<times> u32) option \<times> u8 list) res" where
  "parse_width r width [] = Inl OutOfBounds"
| "parse_width r width (c # s) =
     (if c = 0 then Inr (None, s)
      else if c \<ge> 0x30 \<and> c \<le> 0x39 then parse_width (r OR HAS_WIDTH) (width * 10 + ucast (c - 0x30)) s
      else Inr (Some (r, width), c # s))"

fun parse_digits :: "u32 \<Rightarrow> u8 list \<Rightarrow> (u32 option \<times> u8 list) res" where
  "parse_digits precision [] = Inl OutOfBounds"
| "parse_digits precision (c # s) =
     (if c = 0 then Inr (None, s)
      else if c \<ge> 0x30 \<and> c \<le> 0x39 then parse_digits (precision * 10 + ucast (c - 0x30)) s
      else Inr (Some precision, c # s))"

definition parse_precision :: "u32 \<Rightarrow> u8 list \<Rightarrow> ((u32 \<times> u32) option \<times> u8 list) res" where
  "parse_precision r s =
     (case s of
        [] \<Rightarrow> Inl OutOfBounds
      | c # s' \<Rightarrow>
          if c \<noteq> 0x2E then Inr (Some (r, 0), s)
          else bind_res (parse_digits 0 s') (\<lambda>(p, s). Inr (map_option (\<lambda>p. (r OR HAS_PRECISION, p)) p, s)))"

definition parse_conversion :: "u32 \<Rightarrow> u8 \<Rightarrow> u32" where
  "parse_conversion r c =
     (if c = 0x64 \<or> c = 0x69 then r OR CONVERSION_INT OR CONVERSION_DECIMAL
      else if c = 0x6F then r OR CONVERSION_UINT OR CONVERSION_OCTAL
      else if c = 0x75 then r OR CONVERSION_UINT OR CONVERSION_DECIMAL
      else if c = 0x58 then r OR CONVERSION_CAPITAL OR CONVERSION_UINT OR CONVERSION_HEXADECIMAL
      else if c = 0x78 then r OR CONVERSION_UINT OR CONVERSION_HEXADECIMAL
      else if c = 0x63 then r OR CONVERSION_INT OR CONVERSION_CHARACTER
      else if c = 0x73 then r OR CONVERSION_CHARP
      else if c = 0x70 then r OR CONVERSION_VOIDP OR CONVERSION_HEXADECIMAL OR FLAG_ALTERNATE_FORM
      else if c = 0x25 then r OR CONVERSION_NONE
      else r)"

fun parse_length :: "u32 \<Rightarrow> u8 list \<Rightarrow> (u32 option \<times> u8 list) res" where
  "parse_length r [] = Inl OutOfBounds"
| "parse_length r (c # s) =
     (if c = 0 then Inr (None, s)
      else if c = 0x68 then parse_length (if any_bit r LENGTH_SHORT then r OR LENGTH_CHAR else r OR LENGTH_SHORT) s
      else if c = 0x6C then parse_length (if any_bit r LENGTH_LONG then r OR LENGTH_LONGLONG else r OR LENGTH_LONG) s
      else if c = 0x6A then parse_length (r OR LENGTH_INTMAX) s
      else if c = 0x7A then parse_length (r OR LENGTH_SIZE) s
      else if c = 0x74 then parse_length (r OR LENGTH_PTRDIFF) s
      else Inr (Some (parse_conversion r c), s))"

text \<open>The flags, the width, the precision and the rest of the format.\<close>

definition parse_format :: "u8 list \<Rightarrow> (u32 \<times> u32 \<times> u32 \<times> u8 list) res" where
  "parse_format s =
     bind_res (parse_flags 0 s) (\<lambda>(x, s). case x of None \<Rightarrow> Inr (END_STRING, 0, 0, s) | Some r \<Rightarrow>
     bind_res (parse_width r 0 s) (\<lambda>(x, s). case x of None \<Rightarrow> Inr (END_STRING, 0, 0, s) | Some (r, w) \<Rightarrow>
     bind_res (parse_precision r s) (\<lambda>(x, s). case x of None \<Rightarrow> Inr (END_STRING, w, 0, s) | Some (r, p) \<Rightarrow>
     bind_res (parse_length r s) (\<lambda>(x, s). case x of None \<Rightarrow> Inr (END_STRING, w, p, s) | Some r \<Rightarrow> Inr (r, w, p, s)))))"

section \<open>Numbers\<close>

definition sub10 :: "u64 list" where
  "sub10 = [10000000000000000000, 1000000000000000000, 100000000000000000, 10000000000000000, 1000000000000000,
     100000000000000, 10000000000000, 1000000000000, 100000000000, 10000000000, 1000000000, 100000000, 10000000,
     1000000, 100000, 10000, 1000, 100, 10, 1, 0]"

definition sub8 :: "u64 list" where
  "sub8 = [0x8000000000000000, 0x1000000000000000, 0x200000000000000, 0x40000000000000, 0x8000000000000,
     0x1000000000000, 0x200000000000, 0x40000000000, 0x8000000000, 0x1000000000, 0x200000000, 0x40000000,
     0x8000000, 0x1000000, 0x200000, 0x40000, 0x8000, 0x1000, 0x200, 0x40, 8, 1, 0]"

definition sub16 :: "u64 list" where
  "sub16 = [0x1000000000000000, 0x100000000000000, 0x10000000000000, 0x1000000000000, 0x100000000000, 0x10000000000,
     0x1000000000, 0x100000000, 0x10000000, 0x1000000, 0x100000, 0x10000, 0x1000, 0x100, 0x10, 1, 0]"

text \<open>The inner loop: how often \<open>s\<close> goes into \<open>v\<close>, and what is left.\<close>

function take_digit :: "u64 \<Rightarrow> u64 \<Rightarrow> nat \<Rightarrow> nat \<times> u64" where
  "take_digit s v d = (if s \<noteq> 0 \<and> v \<ge> s then take_digit s (v - s) (d + 1) else (d, v))"
  by pat_completeness auto
termination
  by (relation "measure (\<lambda>(s, v, d). unat v)") (auto simp: unat_sub word_le_nat_alt simp flip: unat_gt_0)

declare take_digit.simps [simp del]

text \<open>\<open>n\<close> characters are in the buffer of 32 already.\<close>

fun valconv_loop :: "u64 list \<Rightarrow> u8 list \<Rightarrow> nat \<Rightarrow> u64 \<Rightarrow> u8 list res" where
  "valconv_loop [] str n v = Inl OutOfBounds"
| "valconv_loop (s # sub) str n v =
     (if s = 0 then Inr []
      else
        let (digit, v) = take_digit s v 0 in
        case rd str digit of
          None \<Rightarrow> Inl OutOfBounds
        | Some c \<Rightarrow>
            if n \<ge> 32 then Inl OutOfBounds
            else bind_res (valconv_loop sub str (n + 1) v) (\<lambda>cs. Inr (c # cs)))"

fun skip_large :: "u64 \<Rightarrow> u64 list \<Rightarrow> u64 list res" where
  "skip_large v [] = Inl OutOfBounds"
| "skip_large v (s # sub) = (if v < s then skip_large v sub else Inr (s # sub))"

text \<open>The digits that it writes to the buffer.\<close>

definition valconv :: "u64 \<Rightarrow> u64 list \<Rightarrow> u8 list \<Rightarrow> u8 list res" where
  "valconv v sub str =
     (if v = 0 then Inr [0x30] else bind_res (skip_large v sub) (\<lambda>sub. valconv_loop sub str 0 v))"

definition digits10 :: "u8 list" where "digits10 = [0x30, 0x31, 0x32, 0x33, 0x34, 0x35, 0x36, 0x37, 0x38, 0x39, 0]"
definition digits8 :: "u8 list" where "digits8 = [0x30, 0x31, 0x32, 0x33, 0x34, 0x35, 0x36, 0x37, 0]"
definition digits16C :: "u8 list" where
  "digits16C = [0x30, 0x31, 0x32, 0x33, 0x34, 0x35, 0x36, 0x37, 0x38, 0x39, 0x41, 0x42, 0x43, 0x44, 0x45, 0x46, 0]"
definition digits16 :: "u8 list" where
  "digits16 = [0x30, 0x31, 0x32, 0x33, 0x34, 0x35, 0x36, 0x37, 0x38, 0x39, 0x61, 0x62, 0x63, 0x64, 0x65, 0x66, 0]"

section \<open>Output\<close>

text \<open>\<open>PUTCHAR\<close> for each character; the number that were put, the state, and whether all were.\<close>

fun putchars :: "(u32 \<Rightarrow> 'd \<Rightarrow> 'd option) \<Rightarrow> u32 list \<Rightarrow> 'd \<Rightarrow> u32 \<times> 'd \<times> bool" where
  "putchars func [] d = (0, d, True)"
| "putchars func (c # cs) d =
     (case func c d of
        None \<Rightarrow> (0, d, False)
      | Some d \<Rightarrow> (case putchars func cs d of (n, d, ok) \<Rightarrow> (n + 1, d, ok)))"

text \<open>A loop \<open>while (n--)\<close> on an \<open>int\<close> makes as many turns as its unsigned value says.\<close>

definition repeat :: "u32 \<Rightarrow> u32 \<Rightarrow> u32 list" where "repeat n c = replicate (unat n) c"

definition int_digits :: "u64 \<Rightarrow> u32 \<Rightarrow> u8 list res" where
  "int_digits val f =
     (if any_bit f CONVERSION_DECIMAL then valconv val sub10 digits10
      else if any_bit f CONVERSION_OCTAL then valconv val sub8 digits8
      else if any_bit f CONVERSION_HEXADECIMAL \<and> any_bit f CONVERSION_CAPITAL then valconv val sub16 digits16C
      else if any_bit f CONVERSION_HEXADECIMAL then valconv val sub16 digits16
      else Inr [])"

text \<open>\<open>leftbuf\<close>: the prefix of the alternate form, or the sign.\<close>

definition left_part :: "u64 \<Rightarrow> u32 \<Rightarrow> u32 \<Rightarrow> u32 list" where
  "left_part val f leftzero =
     (let left =
        (if \<not> any_bit f CONVERSION_DECIMAL \<and> any_bit f FLAG_ALTERNATE_FORM \<and> val \<noteq> 0 then
           (if any_bit f CONVERSION_OCTAL \<and> leftzero = 0 then [0x30]
            else if any_bit f CONVERSION_HEXADECIMAL then (if any_bit f CONVERSION_CAPITAL then [0x30, 0x58] else [0x30, 0x78])
            else [])
         else [])
      in if any_bit f CONVERSION_DECIMAL then
           (if any_bit f FLAG_PLUS then
              (if any_bit f FLAG_POSITIVE_SIGN then [0x2B] else if any_bit f FLAG_POSITIVE_BLANK then [0x20] else left)
            else if any_bit f FLAG_MINUS then [0x2D] else left)
         else left)"

text \<open>The characters of a number, in the order of the five loops.\<close>

definition int_text :: "u64 \<Rightarrow> u32 \<Rightarrow> u32 \<Rightarrow> u32 \<Rightarrow> u32 list res" where
  "int_text val f width precision =
     bind_res (int_digits val f) (\<lambda>buf.
     let len = of_nat (length buf);
         leftzero = (if any_bit f HAS_PRECISION \<and> sint precision > sint (len :: u32) then precision - len else 0);
         left = left_part val f leftzero;
         total = of_nat (length left) + leftzero + len;
         wide = any_bit f HAS_WIDTH \<and> sint width > sint total;
         rightsp = (if wide \<and> any_bit f FLAG_LEFT_ADJUSTED then width - total else 0);
         leftsp = (if wide \<and> \<not> any_bit f FLAG_LEFT_ADJUSTED then width - total else 0);
         zeros = any_bit f FLAG_ZERO_PADDED \<and> \<not> any_bit f HAS_PRECISION;
         leftzero = (if zeros then leftzero + leftsp else leftzero);
         leftsp = (if zeros then 0 else leftsp)
     in Inr (repeat leftsp 0x20 @ left @ repeat leftzero 0x30 @ map scast buf @ repeat rightsp 0x20))"

definition do_conversion_int :: "u64 \<Rightarrow> u32 \<Rightarrow> u32 \<Rightarrow> u32 \<Rightarrow> (u32 \<Rightarrow> 'd \<Rightarrow> 'd option) \<Rightarrow> 'd \<Rightarrow> (u32 \<times> 'd) res" where
  "do_conversion_int val f width precision func d =
     (if any_bit f CONVERSION_CHARACTER then (case putchars func [ucast val] d of (n, d, _) \<Rightarrow> Inr (n, d))
      else if any_bit f HAS_PRECISION \<and> precision = 0 \<and> val = 0 then Inr (0, d)
      else bind_res (int_text val f width precision) (\<lambda>cs. case putchars func cs d of (n, d, _) \<Rightarrow> Inr (n, d)))"

text \<open>The part of a string that is printed: up to its NUL or the precision.\<close>

fun string_part :: "bool \<Rightarrow> u32 \<Rightarrow> u32 \<Rightarrow> u8 list \<Rightarrow> u8 list res" where
  "string_part limited precision len s =
     (if limited \<and> sint len \<ge> sint precision then Inr []
      else case s of
        [] \<Rightarrow> Inl OutOfBounds
      | c # s \<Rightarrow> if c = 0 then Inr [] else bind_res (string_part limited precision (len + 1) s) (\<lambda>cs. Inr (c # cs)))"

declare string_part.simps [simp del]

definition string_text :: "u8 list \<Rightarrow> u32 \<Rightarrow> u32 \<Rightarrow> u32 \<Rightarrow> u32 list res" where
  "string_text str f width precision =
     bind_res (string_part (any_bit f HAS_PRECISION) precision 0 str) (\<lambda>cs.
     let len = of_nat (length cs);
         wide = any_bit f HAS_WIDTH \<and> sint width > sint (len :: u32);
         rightsp = (if wide \<and> any_bit f FLAG_LEFT_ADJUSTED then width - len else 0);
         leftsp = (if wide \<and> \<not> any_bit f FLAG_LEFT_ADJUSTED then width - len else 0)
     in Inr (repeat leftsp 0x20 @ map scast cs @ repeat rightsp 0x20))"

definition do_conversion_string :: "u8 list \<Rightarrow> u32 \<Rightarrow> u32 \<Rightarrow> u32 \<Rightarrow> (u32 \<Rightarrow> 'd \<Rightarrow> 'd option) \<Rightarrow> 'd \<Rightarrow> (u32 \<times> 'd) res" where
  "do_conversion_string str f width precision func d =
     bind_res (string_text str f width precision) (\<lambda>cs. case putchars func cs d of (n, d, _) \<Rightarrow> Inr (n, d))"

section \<open>The format loop\<close>

datatype va = VInt u32 | VLong u64 | VStr "u8 list option"

definition va_int :: "va list \<Rightarrow> (u32 \<times> va list) res" where
  "va_int ap = (case ap of VInt x # ap \<Rightarrow> Inr (x, ap) | _ \<Rightarrow> Inl OutOfBounds)"

definition va_long :: "va list \<Rightarrow> (u64 \<times> va list) res" where
  "va_long ap = (case ap of VLong x # ap \<Rightarrow> Inr (x, ap) | _ \<Rightarrow> Inl OutOfBounds)"

definition va_str :: "va list \<Rightarrow> (u8 list option \<times> va list) res" where
  "va_str ap = (case ap of VStr x # ap \<Rightarrow> Inr (x, ap) | _ \<Rightarrow> Inl OutOfBounds)"

text \<open>A \<open>long\<close> and a \<open>long long\<close> argument have the same size.\<close>

definition is_long :: "u32 \<Rightarrow> bool" where
  "is_long f \<longleftrightarrow> \<not> any_bit f LENGTH_CHAR \<and> \<not> any_bit f LENGTH_SHORT \<and> (any_bit f LENGTH_LONGLONG \<or> any_bit f LENGTH_LONG)"

definition long_length :: "u32 \<Rightarrow> u32" where
  "long_length f =
     (if any_bit f LENGTH_INTMAX then f OR LENGTH_LONGLONG
      else if any_bit f LENGTH_SIZE \<or> any_bit f LENGTH_PTRDIFF then f OR LENGTH_LONG else f)"

text \<open>''(null)'' and ''FORMAT ERROR''.\<close>

definition null_text :: "u8 list" where "null_text = [0x28, 0x6E, 0x75, 0x6C, 0x6C, 0x29, 0]"
definition error_text :: "u8 list" where
  "error_text = [0x46, 0x4F, 0x52, 0x4D, 0x41, 0x54, 0x20, 0x45, 0x52, 0x52, 0x4F, 0x52, 0]"

definition convert_one :: "(u32 \<Rightarrow> 'd \<Rightarrow> 'd option) \<Rightarrow> u32 \<Rightarrow> u32 \<Rightarrow> u32 \<Rightarrow> va list \<Rightarrow> 'd \<Rightarrow> (u32 \<times> 'd \<times> va list) res" where
  "convert_one func f width precision ap d =
     (if any_bit f CONVERSION_INT then
        bind_res (if is_long f then va_long ap else bind_res (va_int ap) (\<lambda>(x, ap). Inr (scast x, ap))) (\<lambda>(intval, ap).
        let uintval = (if sint intval < 0 then - intval else intval);
            f = (if sint intval < 0 then f OR FLAG_MINUS else f OR FLAG_PLUS)
        in bind_res (do_conversion_int uintval f width precision func d) (\<lambda>(n, d). Inr (n, d, ap)))
      else if any_bit f CONVERSION_UINT then
        bind_res (if is_long f then va_long ap else bind_res (va_int ap) (\<lambda>(x, ap). Inr (ucast x, ap))) (\<lambda>(uintval, ap).
        bind_res (do_conversion_int uintval f width precision func d) (\<lambda>(n, d). Inr (n, d, ap)))
      else if any_bit f CONVERSION_VOIDP then
        bind_res (va_long ap) (\<lambda>(uintval, ap).
        bind_res (do_conversion_int uintval f width precision func d) (\<lambda>(n, d). Inr (n, d, ap)))
      else if any_bit f CONVERSION_CHARP then
        bind_res (va_str ap) (\<lambda>(x, ap).
        let str = (case x of None \<Rightarrow> null_text | Some str \<Rightarrow> str)
        in bind_res (do_conversion_string str f width precision func d) (\<lambda>(n, d). Inr (n, d, ap)))
      else bind_res (do_conversion_string error_text CONVERSION_CHARP 0 0 func d) (\<lambda>(n, d). Inr (n, d, ap)))"

text \<open>Every phase of \<open>parse_format\<close> leaves no more of the format than it was given.\<close>

lemma parse_flags_length: "parse_flags r s = Inr (x, s') \<Longrightarrow> length s' \<le> length s"
  by (induction r s rule: parse_flags.induct) (auto split: if_splits)

lemma parse_width_length: "parse_width r w s = Inr (x, s') \<Longrightarrow> length s' \<le> length s"
  by (induction r w s rule: parse_width.induct) (auto split: if_splits)

lemma parse_digits_length: "parse_digits p s = Inr (x, s') \<Longrightarrow> length s' \<le> length s"
  by (induction p s rule: parse_digits.induct) (auto split: if_splits)

lemma parse_precision_length: "parse_precision r s = Inr (x, s') \<Longrightarrow> length s' \<le> length s"
  by (auto simp: parse_precision_def bind_res_Inr_iff split: list.splits if_splits dest: parse_digits_length)

lemma parse_length_length: "parse_length r s = Inr (x, s') \<Longrightarrow> length s' \<le> length s"
  by (induction r s rule: parse_length.induct) (auto split: if_splits)

lemma parse_format_length: "parse_format s = Inr (f, w, p, s') \<Longrightarrow> length s' \<le> length s"
  unfolding parse_format_def bind_res_Inr_iff
  by (auto simp: bind_res_Inr_iff split: option.splits prod.splits
      dest!: parse_flags_length parse_width_length parse_precision_length parse_length_length)

function do_printf :: "(u32 \<Rightarrow> 'd \<Rightarrow> 'd option) \<Rightarrow> u8 list \<Rightarrow> va list \<Rightarrow> u32 \<Rightarrow> 'd \<Rightarrow> (u32 \<times> 'd) res" where
  "do_printf func [] ap n d = Inl OutOfBounds"
| "do_printf func (c # s) ap n d =
     (if c = 0 then Inr (n, d)
      else if c = 0x25 then
        (case parse_format s of
           Inl f \<Rightarrow> Inl f
         | Inr (f, width, precision, s) \<Rightarrow>
             let f = long_length f in
             if f = END_STRING then Inr (n, d)
             else if any_bit f CONVERSION_NONE then
               (case func 0x25 d of None \<Rightarrow> Inr (n, d) | Some d \<Rightarrow> do_printf func s ap (n + 1) d)
             else
               (case convert_one func f width precision ap d of
                  Inl f \<Rightarrow> Inl f
                | Inr (m, d, ap) \<Rightarrow> do_printf func s ap (n + m) d))
      else (case func (scast c) d of None \<Rightarrow> Inr (n, d) | Some d \<Rightarrow> do_printf func s ap (n + 1) d))"
  by pat_completeness auto
termination
  by (relation "measure (\<lambda>(func, s, ap, n, d). length s)") (auto dest!: parse_format_length simp: less_Suc_eq_le)

section \<open>Printing to a string\<close>

text \<open>What has been written to the buffer, and how much of its size is left.\<close>

record snputchar_data =
  sn_buf :: "u8 list"
  sn_len :: u64

definition do_snputchar :: "u32 \<Rightarrow> snputchar_data \<Rightarrow> snputchar_data option" where
  "do_snputchar c p =
     (if sn_len p = 0 then None
      else
        let p = p\<lparr>sn_len := sn_len p - 1\<rparr>; c = (if sn_len p = 0 then 0 else c)
        in Some (p\<lparr>sn_buf := sn_buf p @ [ucast c]\<rparr>))"

definition vsnprintf :: "u64 \<Rightarrow> u8 list \<Rightarrow> va list \<Rightarrow> (u32 \<times> u8 list) res" where
  "vsnprintf sz format ap =
     bind_res (do_printf do_snputchar format ap 0 \<lparr>sn_buf = [], sn_len = sz\<rparr>) (\<lambda>(r, data).
     let data = (case do_snputchar 0 data of None \<Rightarrow> data | Some data \<Rightarrow> data)
     in Inr (r, sn_buf data))"

definition snprintf :: "u64 \<Rightarrow> u8 list \<Rightarrow> va list \<Rightarrow> (u32 \<times> u8 list) res" where
  "snprintf sz format ap = vsnprintf sz format ap"

text \<open>The console: what \<open>putchar\<close> has been given.\<close>

definition do_putchar :: "u32 \<Rightarrow> u8 list \<Rightarrow> u8 list option" where
  "do_putchar c out = Some (out @ [ucast c])"

definition vprintf :: "u8 list \<Rightarrow> va list \<Rightarrow> u8 list \<Rightarrow> (u32 \<times> u8 list) res" where
  "vprintf format ap out = do_printf do_putchar format ap 0 out"

end
