(* ===== verification/Printf_Buffer.thy ===== *)
theory Printf_Buffer
  imports Printf
begin

text \<open>
  \<open>vsnprintf\<close> of \<^verbatim>\<open>bitvisor/core/printf.c\<close> against \<open>vprintf\<close>: the buffer holds what the console shows,
  cut off where the buffer ends, and a NUL.
\<close>

section \<open>The text of a format\<close>

text \<open>The characters that a conversion gives to \<open>func\<close>, whatever \<open>func\<close> is.\<close>

definition int_chars :: "u64 \<Rightarrow> u32 \<Rightarrow> u32 \<Rightarrow> u32 \<Rightarrow> u32 list res" where
  "int_chars val f width precision =
     (if any_bit f CONVERSION_CHARACTER then Inr [ucast val]
      else if any_bit f HAS_PRECISION \<and> precision = 0 \<and> val = 0 then Inr []
      else int_text val f width precision)"

lemma do_conversion_int_chars:
  "do_conversion_int val f w p func d = bind_res (int_chars val f w p) (\<lambda>cs. case putchars func cs d of (n, d, _) \<Rightarrow> Inr (n, d))"
  by (simp add: do_conversion_int_def int_chars_def)

definition one_chars :: "u32 \<Rightarrow> u32 \<Rightarrow> u32 \<Rightarrow> va list \<Rightarrow> (u32 list \<times> va list) res" where
  "one_chars f width precision ap =
     (if any_bit f CONVERSION_INT then
        bind_res (if is_long f then va_long ap else bind_res (va_int ap) (\<lambda>(x, ap). Inr (scast x, ap))) (\<lambda>(v, ap).
        bind_res (int_chars (if sint v < 0 then - v else v) (if sint v < 0 then f OR FLAG_MINUS else f OR FLAG_PLUS) width precision)
          (\<lambda>cs. Inr (cs, ap)))
      else if any_bit f CONVERSION_UINT then
        bind_res (if is_long f then va_long ap else bind_res (va_int ap) (\<lambda>(x, ap). Inr (ucast x, ap))) (\<lambda>(v, ap).
        bind_res (int_chars v f width precision) (\<lambda>cs. Inr (cs, ap)))
      else if any_bit f CONVERSION_VOIDP then
        bind_res (va_long ap) (\<lambda>(v, ap). bind_res (int_chars v f width precision) (\<lambda>cs. Inr (cs, ap)))
      else if any_bit f CONVERSION_CHARP then
        bind_res (va_str ap) (\<lambda>(x, ap).
        bind_res (string_text (case x of None \<Rightarrow> null_text | Some str \<Rightarrow> str) f width precision) (\<lambda>cs. Inr (cs, ap)))
      else bind_res (string_text error_text CONVERSION_CHARP 0 0) (\<lambda>cs. Inr (cs, ap)))"

lemma bind_res_assoc: "bind_res (bind_res m f) g = bind_res m (\<lambda>x. bind_res (f x) g)"
  by (simp add: bind_res_def split: sum.splits)

lemma bind_res_cong: "(\<And>a. f a = g a) \<Longrightarrow> bind_res m f = bind_res m g"
  by (simp add: bind_res_def split: sum.splits)

lemma convert_one_chars:
  "convert_one func f w p ap d = bind_res (one_chars f w p ap) (\<lambda>(cs, ap). case putchars func cs d of (n, d, _) \<Rightarrow> Inr (n, d, ap))"
  by (auto simp: convert_one_def one_chars_def do_conversion_int_chars do_conversion_string_def Let_def bind_res_assoc
      intro!: bind_res_cong split: prod.splits)

section \<open>A buffer against the console\<close>

text \<open>What a buffer of \<open>sz\<close> bytes holds after the text \<open>out\<close>, and what is left of it.\<close>

definition buffer_text :: "nat \<Rightarrow> u8 list \<Rightarrow> u8 list" where
  "buffer_text sz out = (if length out < sz then out else if sz = 0 then [] else take (sz - 1) out @ [0])"

definition cut_off :: "u64 \<Rightarrow> u8 list \<Rightarrow> snputchar_data" where
  "cut_off sz out = \<lparr>sn_buf = buffer_text (unat sz) out, sn_len = of_nat (unat sz - length out)\<rparr>"

lemma cut_off_buf: "sn_buf (cut_off sz out) = buffer_text (unat sz) out"
  by (simp add: cut_off_def)

lemma cut_off_len: "sn_len (cut_off sz out) = 0 \<longleftrightarrow> unat sz \<le> length out"
proof -
  have "unat sz < 2 ^ 64" using unsigned_less [of sz] by simp
  then have "unat (of_nat (unat sz - length out) :: u64) = unat sz - length out" by (simp add: unat_of_nat)
  then show ?thesis by (simp add: cut_off_def flip: unat_eq_zero)
qed

lemma snputchar_cut_off:
  "do_snputchar c (cut_off sz out) = (if unat sz \<le> length out then None else Some (cut_off sz (out @ [ucast c])))"
proof (cases "unat sz \<le> length out")
  case True
  then show ?thesis using cut_off_len [of sz out] by (simp add: do_snputchar_def)
next
  case False
  let ?q = "cut_off sz (out @ [ucast c])"
  have nz: "sn_len (cut_off sz out) \<noteq> 0" using False cut_off_len [of sz out] by simp
  have "unat sz - length out = Suc (unat sz - length (out @ [ucast c]))" using False by simp
  then have l: "sn_len (cut_off sz out) - 1 = sn_len ?q" by (simp add: cut_off_def)
  have "sn_buf (cut_off sz out) = out" using False by (simp add: cut_off_def buffer_text_def)
  moreover have "sn_buf ?q = out @ [if sn_len ?q = 0 then 0 else ucast c]"
    using False cut_off_len [of sz "out @ [ucast c]"] by (cases "unat sz = Suc (length out)") (auto simp: cut_off_def buffer_text_def)
  ultimately show ?thesis using False nz l by (simp add: do_snputchar_def Let_def)
qed

lemma cut_off_full: "unat sz \<le> length out \<Longrightarrow> cut_off sz (out @ x) = cut_off sz out"
  by (auto simp: cut_off_def buffer_text_def)

lemma putchars_cut_off:
  "\<exists>k ok. putchars do_snputchar cs (cut_off sz out) = (k, cut_off sz (out @ map ucast cs), ok) \<and>
    (length out + length cs < unat sz \<longrightarrow> k = of_nat (length cs))"
proof (induction cs arbitrary: out)
  case (Cons c cs)
  show ?case
  proof (cases "unat sz \<le> length out")
    case True
    then show ?thesis using cut_off_full [OF True, of "map ucast (c # cs)"] by (auto simp: snputchar_cut_off)
  next
    case False
    obtain k ok where "putchars do_snputchar cs (cut_off sz (out @ [ucast c])) = (k, cut_off sz ((out @ [ucast c]) @ map ucast cs), ok)"
      "length (out @ [ucast c]) + length cs < unat sz \<longrightarrow> k = of_nat (length cs)" using Cons [of "out @ [ucast c]"] by blast
    then show ?thesis using False by (simp add: snputchar_cut_off)
  qed
qed auto

lemma putchars_console: "putchars do_putchar cs out = (of_nat (length cs), out @ map ucast cs, True)"
  by (induction cs arbitrary: out) (simp_all add: do_putchar_def)

text \<open>The text that the loop prints, as a function of the format and the arguments.\<close>

function printf_text :: "u8 list \<Rightarrow> va list \<Rightarrow> u32 list res" where
  "printf_text [] ap = Inl OutOfBounds"
| "printf_text (c # s) ap =
     (if c = 0 then Inr []
      else if c = 0x25 then
        (case parse_format s of
           Inl e \<Rightarrow> Inl e
         | Inr (f, width, precision, s) \<Rightarrow>
             if long_length f = END_STRING then Inr []
             else if any_bit (long_length f) CONVERSION_NONE then bind_res (printf_text s ap) (\<lambda>cs. Inr (0x25 # cs))
             else
               (case one_chars (long_length f) width precision ap of
                  Inl e \<Rightarrow> Inl e
                | Inr (ds, ap) \<Rightarrow> bind_res (printf_text s ap) (\<lambda>cs. Inr (ds @ cs))))
      else bind_res (printf_text s ap) (\<lambda>cs. Inr (scast c # cs)))"
  by pat_completeness auto
termination
  by (relation "measure (\<lambda>(s, ap). length s)") (auto dest!: parse_format_length simp: less_Suc_eq_le)

text \<open>The induction of both proofs: a format is empty, ends, or is one character or conversion and the rest.\<close>

lemma printf_text_induct [case_names Empty End Char Conversion Bad]:
  assumes "\<And>ap. P [] ap"
    "\<And>c s ap. (\<And>(func :: u32 \<Rightarrow> 'd \<Rightarrow> 'd option) n d. do_printf func (c # s) ap n d = Inr (n, d)) \<Longrightarrow> printf_text (c # s) ap = Inr [] \<Longrightarrow> P (c # s) ap"
    "\<And>c s x s' ap. (\<And>(func :: u32 \<Rightarrow> 'd \<Rightarrow> 'd option) n d. do_printf func (c # s) ap n d =
        (case func x d of None \<Rightarrow> Inr (n, d) | Some d \<Rightarrow> do_printf func s' ap (n + 1) d)) \<Longrightarrow>
      printf_text (c # s) ap = bind_res (printf_text s' ap) (\<lambda>cs. Inr (x # cs)) \<Longrightarrow> P s' ap \<Longrightarrow> P (c # s) ap"
    "\<And>c s ds s' ap ap'. (\<And>(func :: u32 \<Rightarrow> 'd \<Rightarrow> 'd option) n d. do_printf func (c # s) ap n d =
        (case putchars func ds d of (m, d, _) \<Rightarrow> do_printf func s' ap' (n + m) d)) \<Longrightarrow>
      printf_text (c # s) ap = bind_res (printf_text s' ap') (\<lambda>cs. Inr (ds @ cs)) \<Longrightarrow> P s' ap' \<Longrightarrow> P (c # s) ap"
    "\<And>c s ap e. (\<And>(func :: u32 \<Rightarrow> 'd \<Rightarrow> 'd option) n d. do_printf func (c # s) ap n d = Inl e) \<Longrightarrow> printf_text (c # s) ap = Inl e \<Longrightarrow> P (c # s) ap"
  shows "P s ap"
proof (induction s ap rule: printf_text.induct)
  case (2 c s ap)
  note IH = "2.IH" and step = assms(2-5) [of c s]
  consider "c = 0" | "c \<noteq> 0" "c \<noteq> 0x25" | "c = 0x25" by auto
  then show ?case
  proof cases
    case 1
    then show ?thesis by (intro step(1)) simp_all
  next
    case 2: 2
    then show ?thesis using IH(3) by (intro step(2) [of ap s "scast c"]) simp_all
  next
    case F: 3
    show ?thesis
    proof (cases "parse_format s")
      case (Inl e)
      then show ?thesis using F by (intro step(4)) simp_all
    next
      case (Inr r)
      obtain f w p s' where r: "r = (f, w, p, s')" by (cases r)
      note ih = IH(1,2) [OF _ F Inr r [symmetric] refl refl]
      let ?f = "long_length f"
      consider "?f = END_STRING" | "?f \<noteq> END_STRING" "any_bit ?f CONVERSION_NONE" | "?f \<noteq> END_STRING" "\<not> any_bit ?f CONVERSION_NONE" by blast
      then show ?thesis
      proof cases
        case 1
        then show ?thesis using F Inr r by (intro step(1)) (simp_all add: Let_def)
      next
        case N: 2
        then show ?thesis using F Inr r ih(1) by (intro step(2) [of ap s' "0x25"]) (simp_all add: Let_def)
      next
        case N: 3
        show ?thesis
        proof (cases "one_chars ?f w p ap")
          case (Inl e)
          then show ?thesis using F r N \<open>parse_format s = Inr r\<close> by (intro step(4) [of ap e]) (simp_all add: Let_def convert_one_chars)
        next
          case o: (Inr q)
          obtain ds ap' where "q = (ds, ap')" by (cases q)
          then show ?thesis using F Inr r N o ih(2)
            by (intro step(3) [of ap s' ap' ds]) (auto simp: Let_def convert_one_chars split: prod.splits)
        qed
      qed
    qed
  qed
qed (rule assms(1))

declare do_printf.simps [simp del] printf_text.simps [simp del]

lemma do_printf_Nil: "do_printf func [] ap n d = Inl OutOfBounds" "printf_text [] ap = Inl OutOfBounds"
  by (simp_all add: do_printf.simps printf_text.simps)

lemma do_printf_console:
  "do_printf do_putchar s ap n out = bind_res (printf_text s ap) (\<lambda>cs. Inr (n + of_nat (length cs), out @ map ucast cs))"
proof (induction s ap arbitrary: n out rule: printf_text_induct [where 'd = "u8 list"])
  case (Char c s x s' ap)
  show ?case unfolding Char(1,2) by (simp add: do_putchar_def [of x] Char(3) bind_res_assoc add.assoc)
next
  case (Conversion c s ds s' ap ap')
  show ?case unfolding Conversion(1,2) by (simp add: putchars_console Conversion(3) bind_res_assoc add.assoc)
qed (simp_all add: do_printf_Nil)

lemma do_printf_cut_off:
  "printf_text s ap = Inr cs \<Longrightarrow>
    \<exists>m. do_printf do_snputchar s ap n (cut_off sz out) = Inr (m, cut_off sz (out @ map ucast cs)) \<and>
      (length out + length cs < unat sz \<longrightarrow> m = n + of_nat (length cs))"
proof (induction s ap arbitrary: n out cs rule: printf_text_induct [where 'd = snputchar_data])
  case (Char c s x s' ap)
  obtain cs' where cs: "printf_text s' ap = Inr cs'" "cs = x # cs'" using Char(4) unfolding Char(2) by (auto simp: bind_res_Inr_iff)
  show ?case
  proof (cases "unat sz \<le> length out")
    case True
    then show ?thesis using Char(1) cut_off_full [OF True, of "map ucast cs"] by (auto simp: snputchar_cut_off)
  next
    case False
    then show ?thesis using Char(3) [OF cs(1), of "n + 1" "out @ [ucast x]"] cs(2) by (auto simp: Char(1) snputchar_cut_off)
  qed
next
  case (Conversion c s ds s' ap ap')
  obtain cs' where cs: "printf_text s' ap' = Inr cs'" "cs = ds @ cs'" using Conversion(4) unfolding Conversion(2) by (auto simp: bind_res_Inr_iff)
  obtain k ok where k: "putchars do_snputchar ds (cut_off sz out) = (k, cut_off sz (out @ map ucast ds), ok)"
    "length out + length ds < unat sz \<longrightarrow> k = of_nat (length ds)" using putchars_cut_off by blast
  then show ?case using Conversion(3) [OF cs(1), of "n + k" "out @ map ucast ds"] cs(2) by (auto simp: Conversion(1))
qed (auto simp: do_printf_Nil)

text \<open>Also where the format fails, the buffer holds the beginning of some text.\<close>

lemma do_printf_within:
  "do_printf do_snputchar s ap n (cut_off sz out) = Inr (m, d) \<Longrightarrow> \<exists>out'. d = cut_off sz out'"
proof (induction s ap arbitrary: n out rule: printf_text_induct [where 'd = snputchar_data])
  case (Char c s x s' ap)
  then show ?case unfolding Char(1) by (auto simp: snputchar_cut_off split: if_splits)
next
  case (Conversion c s ds s' ap ap')
  obtain k ok where "putchars do_snputchar ds (cut_off sz out) = (k, cut_off sz (out @ map ucast ds), ok)" using putchars_cut_off by blast
  then show ?case using Conversion(4) unfolding Conversion(1) by (auto intro: Conversion(3))
qed (auto simp: do_printf_Nil)

lemma cut_off_empty: "\<lparr>sn_buf = [], sn_len = sz\<rparr> = cut_off sz []"
  by (simp add: cut_off_def buffer_text_def)

text \<open>The last call of \<open>do_snputchar\<close> in \<open>vsnprintf\<close> adds a NUL to the text.\<close>

lemma cut_off_NUL: "(case do_snputchar 0 (cut_off sz out) of None \<Rightarrow> cut_off sz out | Some d \<Rightarrow> d) = cut_off sz (out @ [0])"
  using cut_off_full [of sz out "[0]"] by (simp add: snputchar_cut_off)

section \<open>Properties\<close>

lemma vsnprintf_text:
  assumes "printf_text s ap = Inr cs"
  shows "\<exists>m. vsnprintf sz s ap = Inr (m, buffer_text (unat sz) (map ucast (cs @ [0]))) \<and> (length cs < unat sz \<longrightarrow> m = of_nat (length cs))"
proof -
  obtain m where m: "do_printf do_snputchar s ap 0 (cut_off sz []) = Inr (m, cut_off sz (map ucast cs))" "length cs < unat sz \<longrightarrow> m = of_nat (length cs)"
    using do_printf_cut_off [OF assms, of 0 sz "[]"] by auto
  then show ?thesis by (simp add: vsnprintf_def cut_off_empty cut_off_NUL cut_off_buf Let_def)
qed

lemma vsnprintf_console:
  assumes "vprintf s ap [] = Inr (n, out)"
  shows "\<exists>m. vsnprintf sz s ap = Inr (m, if sz = 0 then [] else take (unat sz - 1) out @ [0]) \<and> (length out < unat sz \<longrightarrow> m = n)"
proof -
  obtain cs where cs: "printf_text s ap = Inr cs" "n = of_nat (length cs)" "out = map ucast cs"
    using assms by (auto simp: vprintf_def do_printf_console bind_res_Inr_iff)
  have "buffer_text (unat sz) (map ucast (cs @ [0])) = (if sz = 0 then [] else take (unat sz - 1) out @ [0])"
    using cs(3) by (auto simp: buffer_text_def simp flip: unat_eq_zero)
  then show ?thesis using vsnprintf_text [OF cs(1), of sz] cs(2,3) by auto
qed

text \<open>If a format prints the text \<open>C21: out\<close> on the console, \<open>vsnprintf\<close> of the same format writes \<open>out\<close> up to
  \<open>sz - 1\<close> characters, and a NUL.\<close>

theorem vsnprintf_refines_vprintf:
  assumes "vprintf s ap [] = Inr (n, out)"
  shows "\<exists>m. vsnprintf sz s ap = Inr (m, if sz = 0 then [] else take (unat sz - 1) out @ [0]) \<and> (length out < unat sz \<longrightarrow> m = n)"
  by (rule vsnprintf_console [OF assms])

text \<open>The text of the witness is \<open>a%d\<close> with -7 in a buffer of three bytes: the sign is left of the number.\<close>

theorem vsnprintf_refines_vprintf_witness: "\<exists>m. vsnprintf 3 [0x61, 0x25, 0x64, 0] [VInt (- 7)] = Inr (m, [0x61, 0x2D, 0])"
proof -
  have "vprintf [0x61, 0x25, 0x64, 0] [VInt (- 7)] [] = Inr (3, [0x61, 0x2D, 0x37])"
    by code_simp
  from vsnprintf_refines_vprintf [OF this, of 3] show ?thesis by auto
qed

text \<open>C30: Whatever the format and the arguments, \<open>vsnprintf\<close> writes no more than the size of the buffer, and if
  that is not 0, the last character that it writes is a NUL.\<close>

theorem vsnprintf_stays_in_buffer:
  assumes "vsnprintf sz s ap = Inr (m, text)"
  shows "length text \<le> unat sz \<and> (sz \<noteq> 0 \<longrightarrow> text \<noteq> [] \<and> last text = 0)"
proof -
  obtain n d where d: "do_printf do_snputchar s ap 0 (cut_off sz []) = Inr (n, d)"
    "text = sn_buf (case do_snputchar 0 d of None \<Rightarrow> d | Some d \<Rightarrow> d)"
    using assms by (auto simp: vsnprintf_def cut_off_empty bind_res_Inr_iff Let_def)
  obtain out where e: "d = cut_off sz out" using do_printf_within [OF d(1)] by blast
  have "text = buffer_text (unat sz) (out @ [0])" using d(2) unfolding e by (simp only: cut_off_NUL cut_off_buf)
  then show ?thesis by (auto simp: buffer_text_def simp flip: unat_eq_zero)
qed

text \<open>A negative character is printed with its sign changed: \<open>%c\<close> with -23, the character \<open>0xE9\<close>, prints \<open>0x17\<close>.\<close>

lemma percent_c_changes_sign: "vprintf [0x25, 0x63, 0] [VInt (- 23)] [] = Inr (1, [0x17])"
  by code_simp

text \<open>A zero with precision 0 ignores the width.\<close>

lemma zero_ignores_width: "vprintf [0x25, 0x34, 0x2E, 0x30, 0x64, 0] [VInt 0] [] = Inr (0, [])"
  by code_simp

text \<open>Witness of the bound: \<open>FORMAT ERROR\<close> for an unknown conversion, in a buffer of four bytes.\<close>

theorem vsnprintf_stays_in_buffer_witness: "\<exists>m text. vsnprintf 4 [0x25, 0x6B, 0] [] = Inr (m, text) \<and> length text \<le> 4 \<and> last text = 0"
proof -
  have "vsnprintf 4 [0x25, 0x6B, 0] [] = Inr (4, [0x46, 0x4F, 0x52, 0])" by code_simp
  from vsnprintf_stays_in_buffer [OF this] this show ?thesis by simp
qed

end
