(* ===== verification/Printf_Numbers.thy ===== *)
theory Printf_Numbers
  imports Printf_Buffer
begin

text \<open>
  What the conversions of \<^verbatim>\<open>bitvisor/core/printf.c\<close> print for a whole number: the digits that \<open>valconv\<close> takes
  from its tables are the numeral, and \<open>strtol\<close> of \<^verbatim>\<open>bitvisor/core/strtol.c\<close> reads the number back.
\<close>

section \<open>Numerals\<close>

text \<open>The \<open>k\<close> digits of a number below \<open>b ^ k\<close>, and the table that \<open>valconv\<close> takes them from.\<close>

fun fixed_digits :: "nat \<Rightarrow> nat \<Rightarrow> nat \<Rightarrow> nat list" where
  "fixed_digits b 0 v = []"
| "fixed_digits b (Suc k) v = v div b ^ k # fixed_digits b k (v mod b ^ k)"

fun powers :: "nat \<Rightarrow> nat \<Rightarrow> u64 list" where
  "powers b 0 = [0]"
| "powers b (Suc k) = of_nat (b ^ k) # powers b k"

lemma powers_numeral: "powers b (numeral k) = of_nat (b ^ pred_numeral k) # powers b (pred_numeral k)"
  by (simp add: numeral_eq_Suc)

lemma tables: "sub10 = powers 10 20" "sub8 = powers 8 22" "sub16 = powers 16 16"
  by (simp_all add: sub10_def sub8_def sub16_def powers_numeral)

lemma fixed_digits_snoc:
  assumes "0 < b" shows "v < b ^ Suc k \<Longrightarrow> fixed_digits b (Suc k) v = fixed_digits b k (v div b) @ [v mod b]"
proof (induction k arbitrary: v)
  case (Suc k)
  have l: "v mod b ^ Suc k < b ^ Suc k" using assms by simp
  have "v div b ^ Suc k = v div b div b ^ k" by (simp add: div_mult2_eq)
  moreover have "v mod b ^ Suc k div b = v div b mod b ^ k" by (simp add: mod_mult2_eq assms)
  moreover have "v mod b ^ Suc k mod b = v mod b" by (simp add: mod_mult2_eq)
  ultimately show ?case using Suc.IH [OF l] by simp
qed simp

lemma digits_fixed:
  assumes "2 \<le> b"
  shows "v < b ^ Suc k \<Longrightarrow> b ^ k \<le> v \<or> k = 0 \<Longrightarrow> digits b v = fixed_digits b (Suc k) v"
proof (induction k arbitrary: v)
  case 0
  then show ?case by (subst digits.simps) simp
next
  case (Suc k)
  have "b ^ Suc k \<le> v" using Suc.prems(2) by simp
  moreover have "b \<le> b ^ Suc k" using assms by (intro self_le_power) simp_all
  ultimately have "\<not> v < b" by linarith
  then have d: "digits b v = digits b (v div b) @ [v mod b]" using assms by (subst digits.simps) simp
  have "v div b < b ^ Suc k" using Suc.prems(1) assms by (simp add: div_less_iff_less_mult algebra_simps)
  moreover have "b ^ k \<le> v div b" using \<open>b ^ Suc k \<le> v\<close> assms by (simp add: less_eq_div_iff_mult_less_eq algebra_simps)
  ultimately have "digits b (v div b) = fixed_digits b (Suc k) (v div b)" using Suc.IH by blast
  then show ?case using d fixed_digits_snoc [of b v "Suc k"] Suc.prems(1) assms by simp
qed

lemma take_digit_div: "s \<noteq> 0 \<Longrightarrow> take_digit s v d = (d + unat v div unat s, v mod s)"
proof (induction s v d rule: take_digit.induct)
  case (1 s v d)
  have s: "0 < unat s" using 1(2) by (simp add: unat_gt_0)
  show ?case
  proof (cases "v \<ge> s")
    case True
    have u: "unat (v - s) = unat v - unat s" "unat s \<le> unat v" using True by (simp_all add: unat_sub word_le_nat_alt)
    have "unat v div unat s = Suc (unat (v - s) div unat s)" using u s by (simp add: le_div_geq)
    moreover have "v mod s = (v - s) mod s" using u s by (simp add: word_unat_eq_iff unat_mod le_mod_geq)
    ultimately show ?thesis using 1 True by (subst take_digit.simps) simp
  next
    case False
    then have "unat v < unat s" by (simp add: word_less_nat_alt not_le)
    then show ?thesis using False by (subst take_digit.simps) (simp add: word_unat_eq_iff unat_mod)
  qed
qed

text \<open>A string of digit characters.\<close>

definition digit_string :: "nat \<Rightarrow> bool \<Rightarrow> u8 list \<Rightarrow> bool" where
  "digit_string b cap str \<longleftrightarrow> list_all (\<lambda>d. rd str d = Some (digit_char cap d)) [0..<b]"

lemma digit_strings: "digit_string 10 cap digits10" "digit_string 8 cap digits8" "digit_string 16 True digits16C" "digit_string 16 False digits16"
  by (simp_all add: digit_string_def digits10_def digits8_def digits16C_def digits16_def digit_char_def rd_def upt_rec)

lemma valconv_loop_digits:
  assumes "digit_string b cap str" "2 \<le> b"
  shows "unat v < b ^ k \<Longrightarrow> n + k \<le> 32 \<Longrightarrow> b ^ (k - 1) < 2 ^ 64 \<Longrightarrow>
    valconv_loop (powers b k) str n v = Inr (map (digit_char cap) (fixed_digits b k (unat v)))"
proof (induction k arbitrary: n v)
  case (Suc k)
  have p: "unat (of_nat (b ^ k) :: u64) = b ^ k" using Suc.prems(3) by (simp add: unat_less_of_nat del: of_nat_power)
  have p0: "0 < b ^ k" using assms(2) by simp
  have z: "(of_nat (b ^ k) :: u64) \<noteq> 0"
  proof
    assume "(of_nat (b ^ k) :: u64) = 0"
    then have "unat (of_nat (b ^ k) :: u64) = 0" by simp
    then show False using p p0 by simp
  qed
  have t: "take_digit (of_nat (b ^ k)) v 0 = (unat v div b ^ k, v mod of_nat (b ^ k))"
    using take_digit_div [OF z, of v 0] p by simp
  have d: "unat v div b ^ k < b" using Suc.prems(1) p0 by (simp add: div_less_iff_less_mult algebra_simps)
  have m: "unat (v mod of_nat (b ^ k)) = unat v mod b ^ k" by (simp add: unat_mod p del: of_nat_power)
  have "b ^ (k - 1) \<le> b ^ k" using assms(2) by (intro power_increasing) simp_all
  then have "b ^ (k - 1) < 2 ^ 64" using Suc.prems(3) by simp
  then have "valconv_loop (powers b k) str (Suc n) (v mod of_nat (b ^ k)) = Inr (map (digit_char cap) (fixed_digits b k (unat v mod b ^ k)))"
    using Suc.IH [of "v mod of_nat (b ^ k)" "Suc n"] Suc.prems(2) p0 by (simp only: m) simp
  moreover have "rd str (unat v div b ^ k) = Some (digit_char cap (unat v div b ^ k))" using assms(1) d by (simp add: digit_string_def list_all_iff)
  ultimately show ?case using z t Suc.prems(2) by (simp add: Let_def del: of_nat_power)
qed simp

lemma skip_large_powers:
  assumes "2 \<le> b"
  shows "v \<noteq> 0 \<Longrightarrow> unat v < b ^ k \<Longrightarrow> b ^ (k - 1) < 2 ^ 64 \<Longrightarrow>
    \<exists>j. skip_large v (powers b k) = Inr (powers b (Suc j)) \<and> j < k \<and> unat v < b ^ Suc j \<and> b ^ j \<le> unat v"
proof (induction k)
  case 0
  then show ?case by (simp add: word_unat_eq_iff)
next
  case (Suc k)
  have p: "unat (of_nat (b ^ k) :: u64) = b ^ k" using Suc.prems(3) by (simp add: unat_less_of_nat del: of_nat_power)
  show ?case
  proof (cases "unat v < b ^ k")
    case True
    have "b ^ (k - 1) \<le> b ^ k" using assms by (intro power_increasing) simp_all
    then obtain j where "skip_large v (powers b k) = Inr (powers b (Suc j)) \<and> j < k \<and> unat v < b ^ Suc j \<and> b ^ j \<le> unat v"
      using Suc.IH [OF Suc.prems(1) True] Suc.prems(3) by auto
    then show ?thesis using True p by (intro exI [of _ j]) (simp add: word_less_nat_alt del: of_nat_power)
  next
    case False
    then show ?thesis using Suc.prems(2) p by (intro exI [of _ k]) (simp add: word_less_nat_alt del: of_nat_power)
  qed
qed

lemma valconv_digits:
  assumes "digit_string b cap str" "2 \<le> b" "2 ^ 64 \<le> b ^ k" "k \<le> 32" "b ^ (k - 1) < 2 ^ 64"
  shows "valconv v (powers b k) str = Inr (numeral_chars cap b (unat v))"
proof (cases "v = 0")
  case True
  then show ?thesis using assms(2) by (simp add: valconv_def numeral_chars_def digits.simps digit_char_def)
next
  case False
  have u: "unat v < 2 ^ 64" using unsigned_less [of v] by simp
  have "unat v < b ^ k" using u assms(3) by (rule less_le_trans)
  from skip_large_powers [OF assms(2) False this assms(5)] obtain j where
    j: "skip_large v (powers b k) = Inr (powers b (Suc j))" "j < k" "unat v < b ^ Suc j" "b ^ j \<le> unat v" by blast
  have "b ^ j < 2 ^ 64" using j(4) u by (rule le_less_trans)
  then have "valconv_loop (powers b (Suc j)) str 0 v = Inr (map (digit_char cap) (fixed_digits b (Suc j) (unat v)))"
    using j assms(4) by (intro valconv_loop_digits [OF assms(1,2)]) simp_all
  then show ?thesis using False j digits_fixed [OF assms(2) j(3)] by (simp add: valconv_def numeral_chars_def)
qed

lemma valconv_tables:
  "valconv v sub10 digits10 = Inr (numeral_chars cap 10 (unat v))"
  "valconv v sub8 digits8 = Inr (numeral_chars cap 8 (unat v))"
  "valconv v sub16 digits16C = Inr (numeral_chars True 16 (unat v))"
  "valconv v sub16 digits16 = Inr (numeral_chars False 16 (unat v))"
  unfolding tables by (rule valconv_digits [OF digit_strings(1)] valconv_digits [OF digit_strings(2)]
      valconv_digits [OF digit_strings(3)] valconv_digits [OF digit_strings(4)]; simp)+

section \<open>Printing and reading numbers\<close>

lemma ucast_scast_8: "ucast (scast c :: u32) = c" for c :: u8
  by (rule bit_word_eqI) (auto simp: bit_simps)

text \<open>The conversions that print a whole number without width and precision.\<close>

lemma int_text_plain:
  assumes "int_digits v f = Inr ds" "\<not> any_bit f HAS_WIDTH" "\<not> any_bit f HAS_PRECISION"
  shows "int_text v f w p = Inr (left_part v f 0 @ map scast ds)"
  using assms by (simp add: int_text_def Let_def repeat_def)

lemma console_int:
  assumes "int_digits v f = Inr ds" "\<not> any_bit f HAS_WIDTH" "\<not> any_bit f HAS_PRECISION" "\<not> any_bit f CONVERSION_CHARACTER"
  shows "\<exists>n. do_conversion_int v f w p do_putchar out = Inr (n, out @ map ucast (left_part v f 0) @ ds)"
  using assms int_text_plain [OF assms(1-3)]
  by (simp add: do_conversion_int_def putchars_console ucast_scast_8 o_def)

text \<open>A format that is one conversion: \<open>ld\<close>, \<open>lu\<close>, and \<open>lx\<close>, \<open>lX\<close>, \<open>lo\<close> with their prefix.\<close>

datatype conversion = Dec | Unsigned | Hex | Hex_capital | Octal

definition conversion_format :: "conversion \<Rightarrow> u8 list" where
  "conversion_format k =
     (case k of Dec \<Rightarrow> [0x25, 0x6C, 0x64, 0] | Unsigned \<Rightarrow> [0x25, 0x6C, 0x75, 0] | Hex \<Rightarrow> [0x25, 0x23, 0x6C, 0x78, 0]
      | Hex_capital \<Rightarrow> [0x25, 0x23, 0x6C, 0x58, 0] | Octal \<Rightarrow> [0x25, 0x23, 0x6C, 0x6F, 0])"

text \<open>What it prints: the sign or the prefix, and the numeral.\<close>

definition conversion_text :: "conversion \<Rightarrow> u64 \<Rightarrow> u8 list" where
  "conversion_text k v =
     (case k of
        Dec \<Rightarrow> (if sint v < 0 then 0x2D # numeral_chars False 10 (unat (- v)) else numeral_chars False 10 (unat v))
      | Unsigned \<Rightarrow> numeral_chars False 10 (unat v)
      | Hex \<Rightarrow> (if v = 0 then [] else [0x30, 0x78]) @ numeral_chars False 16 (unat v)
      | Hex_capital \<Rightarrow> (if v = 0 then [] else [0x30, 0x58]) @ numeral_chars True 16 (unat v)
      | Octal \<Rightarrow> (if v = 0 then [] else [0x30]) @ numeral_chars False 8 (unat v))"

definition conversion_flags :: "conversion \<Rightarrow> u32" where
  "conversion_flags k = (case k of Dec \<Rightarrow> 0xC200 | Unsigned \<Rightarrow> 0x18200 | Hex \<Rightarrow> 0x90201 | Hex_capital \<Rightarrow> 0xD0201 | Octal \<Rightarrow> 0x30201)"

lemma format_parsed: "parse_format (tl (conversion_format k)) = Inr (conversion_flags k, 0, 0, [0])"
  by (cases k) (simp_all add: conversion_format_def conversion_flags_def parse_format_def parse_precision_def
      parse_conversion_def printf_flags any_bit_def)

lemma vprintf_one:
  assumes "convert_one do_putchar (conversion_flags k) 0 0 ap [] = Inr (n, out, ap')"
  shows "vprintf (conversion_format k) ap [] = Inr (n, out)"
proof -
  have c: "conversion_format k = 0x25 # tl (conversion_format k)" by (cases k) (simp_all add: conversion_format_def)
  have l: "long_length (conversion_flags k) = conversion_flags k" "conversion_flags k \<noteq> END_STRING"
    "\<not> any_bit (conversion_flags k) CONVERSION_NONE"
    by (cases k; simp add: conversion_flags_def long_length_def printf_flags any_bit_def)+
  show ?thesis using assms by (subst c) (simp add: vprintf_def do_printf.simps format_parsed Let_def l)
qed

text \<open>A number with the flags \<open>f\<close>, which ask neither for a width nor for a precision.\<close>

definition plain :: "u32 \<Rightarrow> bool" where
  "plain f \<longleftrightarrow> \<not> any_bit f HAS_WIDTH \<and> \<not> any_bit f HAS_PRECISION \<and> \<not> any_bit f CONVERSION_CHARACTER"

lemma console_plain:
  assumes "plain f" "int_digits v f = Inr ds" "map ucast (left_part v f 0) = (left :: u8 list)"
  shows "\<exists>n. do_conversion_int v f w p do_putchar out = Inr (n, out @ left @ ds)"
  using console_int [OF assms(2), of w p out] assms(1,3) by (simp add: plain_def)

lemma vprintf_unsigned:
  assumes "k \<noteq> Dec" shows "\<exists>n. vprintf (conversion_format k) [VLong v] [] = Inr (n, conversion_text k v)"
proof -
  let ?f = "conversion_flags k"
  let ?ds = "numeral_chars (k = Hex_capital) (case k of Unsigned \<Rightarrow> 10 | Octal \<Rightarrow> 8 | _ \<Rightarrow> 16) (unat v)"
  let ?left = "(if v = 0 then [] else (case k of Octal \<Rightarrow> [0x30] | Hex \<Rightarrow> [0x30, 0x78] | Hex_capital \<Rightarrow> [0x30, 0x58] | _ \<Rightarrow> [])) :: u8 list"
  have t1: "int_digits v ?f = Inr ?ds"
    using assms by (cases k) (simp_all add: int_digits_def valconv_tables conversion_flags_def printf_flags any_bit_def)
  have t2: "map ucast (left_part v ?f 0) = ?left"
    using assms by (cases k; cases "v = 0") (simp_all add: left_part_def conversion_flags_def printf_flags any_bit_def)
  have t3: "?left @ ?ds = conversion_text k v" using assms by (cases k) (simp_all add: conversion_text_def)
  have "plain ?f" by (cases k) (simp_all add: plain_def conversion_flags_def printf_flags any_bit_def)
  then obtain n where "do_conversion_int v ?f 0 0 do_putchar [] = Inr (n, [] @ ?left @ ?ds)" using console_plain [OF _ t1 t2] by blast
  then have "convert_one do_putchar ?f 0 0 [VLong v] [] = Inr (n, conversion_text k v, [])"
    using assms unfolding append_Nil t3 by (cases k) (simp_all add: convert_one_def is_long_def va_long_def conversion_flags_def printf_flags any_bit_def)
  then show ?thesis using vprintf_one by blast
qed

lemma vprintf_signed: "\<exists>n. vprintf (conversion_format Dec) [VLong v] [] = Inr (n, conversion_text Dec v)"
proof -
  define x where "x = (if sint v < 0 then - v else v)"
  define f where "f = (if sint v < 0 then 0x200C200 else 0x400C200 :: u32)"
  have "plain f" "int_digits x f = Inr (numeral_chars False 10 (unat x))"
    "map ucast (left_part x f 0) = (if sint v < 0 then [0x2D] else [] :: u8 list)"
    by (simp_all add: f_def plain_def int_digits_def valconv_tables left_part_def printf_flags any_bit_def)
  then obtain n where n: "do_conversion_int x f 0 0 do_putchar [] = Inr (n, [] @ (if sint v < 0 then [0x2D] else []) @ numeral_chars False 10 (unat x))"
    using console_plain by blast
  have "convert_one do_putchar (conversion_flags Dec) 0 0 [VLong v] [] = bind_res (do_conversion_int x f 0 0 do_putchar []) (\<lambda>(n, d). Inr (n, d, []))"
    by (simp add: convert_one_def is_long_def va_long_def conversion_flags_def printf_flags any_bit_def Let_def x_def f_def)
  then have "convert_one do_putchar (conversion_flags Dec) 0 0 [VLong v] [] = Inr (n, conversion_text Dec v, [])"
    using n by (simp add: conversion_text_def x_def)
  then show ?thesis by (blast intro: vprintf_one)
qed

lemma vprintf_conversion: "\<exists>n. vprintf (conversion_format k) [VLong v] [] = Inr (n, conversion_text k v)"
  using vprintf_unsigned vprintf_signed by (cases "k = Dec") auto

section \<open>Reading it back\<close>

definition conversion_base :: "conversion \<Rightarrow> u32" where
  "conversion_base k = (if k = Dec \<or> k = Unsigned then 10 else 0)"

lemma unat_bound: "unat v < 2 ^ 64" for v :: u64
  using unsigned_less [of v] by simp

lemma unat_minus_bound: "sint v < 0 \<Longrightarrow> unat (- v) \<le> 2 ^ 63" for v :: u64
proof (rule ccontr)
  assume n: "sint v < 0" "\<not> unat (- v) \<le> 2 ^ 63"
  have "2 ^ 63 < uint (- v)" using n(2) by (simp add: uint_nat del: of_nat_unat)
  moreover have "uint (- (- v)) = (- uint (- v)) mod 2 ^ 64" unfolding uint_word_ariths(4) [of "- v"] by simp
  moreover have "uint (- v) < 2 ^ 64" using unsigned_less [of "- v", where ?'a = int] by simp
  ultimately have u: "uint v < 2 ^ 63" by (simp add: zmod_zminus1_eq_if)
  have "sint v = signed_take_bit 63 (uint v)" unfolding sint_uint by simp
  also have "\<dots> = uint v"
    by (rule signed_take_bit_int_eq_self [OF _ u]) (rule order.trans [OF _ unsigned_greater_eq], simp)
  finally show False using n(1) by simp
qed

lemma NUL_ends: "ends_numeral base 0"
  by (simp add: ends_numeral_def NUL_no_digit)

lemma decimal_read:
  assumes "n \<le> sign_max sg"
  shows "strtol (sign_chars sg @ numeral_chars False 10 n @ [0]) 10 = Inr (signed_val sg (of_nat n), [0])"
  using numeral_value [of 10 "[]" n sg 0 False "[]"] assms NUL_ends by (simp add: base_ok_def)

text \<open>A numeral behind the prefix of its base, with base 0.\<close>

lemma loop_numeral:
  fixes v :: u64
  assumes "base_ok base" "unat m = 2 ^ 64 - 1"
  shows "strtol_loop base m SIGN_NONE 0 (map (digit_char cap) (replicate z 0) @ numeral_chars cap (unat base) (unat v) @ [0]) = Inr (v, [0])"
proof -
  have b: "2 \<le> unat base" using assms(1) by (simp add: base_ok_def)
  let ?ds = "replicate z 0 @ digits (unat base) (unat v)"
  have z: "foldl (\<lambda>v d. v * unat base + d) 0 (replicate z 0) = 0" by (induction z) simp_all
  have d: "foldl (\<lambda>v d. v * unat base + d) 0 (digits (unat base) (unat v)) = unat v"
    using digits_value_digits [of "unat base" "unat v"] by (simp add: digits_value_def)
  have l: "\<forall>d\<in>set ?ds. d < unat base" using digits_less [OF b] b by auto
  have "unat v \<le> unat m" using unat_bound [of v] assms(2) by simp
  then show ?thesis
    using strtol_loop_digits [OF assms(1) NUL_no_digit l, where val = 0 and valmax = m and sign = SIGN_NONE and cap = cap and post = "[]"]
    by (simp add: z d numeral_chars_def signed_val_def)
qed

lemma prefixed_read:
  fixes v :: u64
  assumes "prefix_base (0x30 # s) = Inr b" "base_ok b"
    "(if b = 16 then drop 1 s else 0x30 # s) = map (digit_char cap) (replicate z 0) @ numeral_chars cap (unat b) (unat v) @ [0]"
  shows "strtol (0x30 # s) 0 = Inr (v, [0])"
proof -
  have "\<not> isspace 0x30" by (simp add: isspace_def isblank_def)
  from strtol_after_sign [OF _ _ this assms(1), of "[]" SIGN_NONE 0] obtain m where
    m: "unat m = 2 ^ 64 - 1" "strtol (0x30 # s) 0 = strtol_loop b m SIGN_NONE 0 (if b = 16 then drop 1 s else 0x30 # s)"
    by (auto simp: sign_chars_def sign_max_def)
  then show ?thesis using loop_numeral [OF assms(2) m(1)] assms(3) by simp
qed

lemma conversion_read: "strtol (conversion_text k v @ [0]) (conversion_base k) = Inr (v, [0])"
proof (cases "v = 0 \<and> k \<noteq> Dec \<and> k \<noteq> Unsigned")
  case True
  have n: "numeral_chars cap b 0 = [0x30]" if "2 \<le> b" for cap b using that by (simp add: numeral_chars_def digits.simps digit_char_def)
  then have "conversion_text k v = [0x30]" "conversion_base k = 0" using True by (cases k; simp add: conversion_text_def conversion_base_def)+
  then show ?thesis using prefixed_read [of "[0]" 8 False 0 v] True n by (simp add: prefix_base_def rd_def base_ok_def)
next
  case F: False
  show ?thesis
  proof (cases k)
  case Dec
  have "unat v \<le> sign_max SIGN_NONE" "sint v < 0 \<Longrightarrow> unat (- v) \<le> sign_max SIGN_MINUS"
    using unat_bound [of v] unat_minus_bound by (simp_all add: sign_max_def)
  then show ?thesis using decimal_read [of "unat v" SIGN_NONE] decimal_read [of "unat (- v)" SIGN_MINUS] Dec
    by (simp add: conversion_text_def conversion_base_def sign_chars_def signed_val_def)
next
  case Unsigned
  have "unat v \<le> sign_max SIGN_NONE" using unat_bound [of v] by (simp add: sign_max_def)
  then show ?thesis using decimal_read [of "unat v" SIGN_NONE] Unsigned
    by (simp add: conversion_text_def conversion_base_def sign_chars_def signed_val_def)
next
  case Hex
  then show ?thesis using F prefixed_read [of "0x78 # numeral_chars False 16 (unat v) @ [0]" 16 False 0 v]
    by (simp add: prefix_base_def rd_def base_ok_def conversion_text_def conversion_base_def)
next
  case Hex_capital
  then show ?thesis using F prefixed_read [of "0x58 # numeral_chars True 16 (unat v) @ [0]" 16 True 0 v]
    by (simp add: prefix_base_def rd_def base_ok_def conversion_text_def conversion_base_def)
next
  case Octal
  obtain d ds where d: "digits 8 (unat v) = d # ds" "d < 8" by (rule numeral_Cons [of 8 "unat v" False]) simp_all
  have "unat (digit_char False d) = 48 + d" using unat_digit_char [of d False] d(2) by simp
  then have "digit_char False d \<noteq> 0x58" "digit_char False d \<noteq> 0x78" using d(2) by auto
  then have "prefix_base (0x30 # numeral_chars False 8 (unat v) @ [0]) = Inr 8" using d(1) by (simp add: prefix_base_def rd_def numeral_chars_def)
  from prefixed_read [OF this, where cap = False and z = 1 and v = v] show ?thesis
    using F Octal by (simp add: base_ok_def conversion_text_def conversion_base_def digit_char_def)
qed
qed

text \<open>The texts are short: 22 octal digits and the prefix at most.\<close>

lemma digits_length: "2 \<le> b \<Longrightarrow> 0 < k \<Longrightarrow> n < b ^ k \<Longrightarrow> length (digits b n) \<le> k"
proof (induction k arbitrary: n)
  case (Suc k)
  show ?case
  proof (cases "n < b")
    case True
    then show ?thesis by (subst digits.simps) simp
  next
    case False
    then have "0 < k" using Suc.prems(3) by (cases k) simp_all
    moreover have "n div b < b ^ k" using Suc.prems(1,3) by (simp add: div_less_iff_less_mult algebra_simps)
    ultimately show ?thesis using Suc False by (subst digits.simps) simp
  qed
qed simp

lemma conversion_text_length: "length (conversion_text k v) \<le> 23"
proof -
  have l: "length (numeral_chars c 10 (unat x)) \<le> 20" "length (numeral_chars c 16 (unat x)) \<le> 16" "length (numeral_chars c 8 (unat x)) \<le> 22"
    for c and x :: u64
    using digits_length [of 10 20 "unat x"] digits_length [of 16 16 "unat x"] digits_length [of 8 22 "unat x"] unat_bound [of x]
    by (simp_all add: numeral_chars_def)
  have m: "length (numeral_chars c 10 (unat x)) \<le> 22" "length (numeral_chars c 16 (unat x)) \<le> 21"
    "length (numeral_chars c 8 0) \<le> 23" "length (numeral_chars c 16 0) \<le> 23" for c and x :: u64
    using l [of c x] l [of c 0] by simp_all
  have n: "length xs \<le> 22 \<Longrightarrow> length xs \<le> 23" for xs :: "u8 list" by simp
  show ?thesis by (cases k) (simp_all add: conversion_text_def m l n)
qed

section \<open>Properties\<close>

text \<open>C22: What \<open>vsnprintf\<close> writes for a 64-bit value with a signed, unsigned, hexadecimal or octal
  conversion into a buffer of 24 bytes or more, \<open>strtol\<close> reads back as the value, up to the NUL.\<close>

theorem printed_number_is_read_back:
  assumes "24 \<le> unat sz"
  shows "\<exists>n text. vsnprintf sz (conversion_format k) [VLong v] = Inr (n, text) \<and> strtol text (conversion_base k) = Inr (v, [0])"
proof -
  obtain n where n: "vprintf (conversion_format k) [VLong v] [] = Inr (n, conversion_text k v)" using vprintf_conversion by blast
  have "sz \<noteq> 0" "take (unat sz - 1) (conversion_text k v) = conversion_text k v"
    using assms conversion_text_length [of k v] by auto
  then show ?thesis using vsnprintf_console [OF n, of sz] conversion_read [of k v] by auto
qed

theorem printed_number_is_read_back_witness:
  "\<exists>n text. vsnprintf 24 [0x25, 0x23, 0x6C, 0x78, 0] [VLong 0xDEADBEEF] = Inr (n, text) \<and> strtol text 0 = Inr (0xDEADBEEF, [0])"
  using printed_number_is_read_back [of 24 Hex "0xDEADBEEF"] by (simp add: conversion_format_def conversion_base_def)

end
