(* ===== verification/Heap.thy ===== *)
theory Heap
  imports Page_Alloc
begin

text \<open>
  Fourth part of \<^verbatim>\<open>bitvisor/core/mm.c\<close>: \<open>alloc\<close>, \<open>free\<close> and \<open>realloc\<close>.  Requests of up to 1024 bytes are served from
  pages that are cut into units of one size, with a bitmap of the units in use at the beginning of the
  page; larger ones go to the page allocator.

  The header of such a page is kept as a value, \<open>adata\<close>, apart from the bytes \<open>contents\<close> that the blocks hold.
\<close>

section \<open>State\<close>

definition NUM_OF_ALLOCLIST :: nat where "NUM_OF_ALLOCLIST = 7"
definition ALLOCLIST_SIZE :: "nat \<Rightarrow> nat" where "ALLOCLIST_SIZE n = 2 ^ n * 16"
definition ALLOCLIST_DATABIT :: "nat \<Rightarrow> nat" where "ALLOCLIST_DATABIT n = 4096 div ALLOCLIST_SIZE n"
definition ALLOCLIST_DATASIZE :: "nat \<Rightarrow> nat" where "ALLOCLIST_DATASIZE n = (ALLOCLIST_DATABIT n + 7) div 8"

text \<open>\<open>sizeof (struct allocdata)\<close> is 24: two pointers, two bytes, and padding.\<close>

definition ALLOCLIST_HEADERSIZE :: "nat \<Rightarrow> nat" where "ALLOCLIST_HEADERSIZE n = 24 + ALLOCLIST_DATASIZE n - 1"

record allocdata =
  ad_n :: u8
  ad_data :: "u8 list"

record heap =
  pages :: mm
  alloclist :: "nat \<Rightarrow> u64 list"
  adata :: "u64 \<Rightarrow> allocdata option"
  contents :: "u64 \<Rightarrow> u8"

definition upd_data :: "u64 \<Rightarrow> allocdata \<Rightarrow> heap \<Rightarrow> heap" where
  "upd_data p a h = h\<lparr>adata := (adata h)(p \<mapsto> a)\<rparr>"

definition PUSH_alloclist :: "nat \<Rightarrow> u64 \<Rightarrow> heap \<Rightarrow> heap" where
  "PUSH_alloclist n p h = h\<lparr>alloclist := (alloclist h)(n := p # alloclist h n)\<rparr>"

section \<open>One page of units\<close>

definition set_unit :: "nat \<Rightarrow> u8 list \<Rightarrow> u8 list" where
  "set_unit i d = d[i div 8 := d ! (i div 8) OR push_bit (i mod 8) 1]"

definition alloclist_new :: "u32 \<Rightarrow> nat \<Rightarrow> heap \<Rightarrow> (u64 \<times> heap) res" where
  "alloclist_new vmm_start_phys n h =
     bind_res (alloc_page vmm_start_phys (pages h)) (\<lambda>((tmp, _), s).
     let headlen = ALLOCLIST_HEADERSIZE n;
         heads = takeWhile (\<lambda>i. i * ALLOCLIST_SIZE n < headlen) [0..<ALLOCLIST_DATABIT n];
         r = \<lparr>ad_n = of_nat n, ad_data = fold set_unit heads (replicate (ALLOCLIST_DATASIZE n) 0)\<rparr>
     in Inr (tmp, upd_data tmp r (h\<lparr>pages := s\<rparr>)))"

text \<open>The first byte that is not \<open>0xFF\<close>, and in it the first bit that is not set, or 8.\<close>

definition free_unit :: "u8 list \<Rightarrow> nat \<Rightarrow> nat option" where
  "free_unit d datalen =
     (case find (\<lambda>i. d ! i \<noteq> 0xFF) [0..<datalen] of
        None \<Rightarrow> None
      | Some i \<Rightarrow> Some (i * 8 + (case find (\<lambda>j. d ! i AND push_bit j 1 = 0) [0..<8] of None \<Rightarrow> 8 | Some j \<Rightarrow> j)))"

definition alloclist_alloc :: "u64 \<Rightarrow> nat \<Rightarrow> heap \<Rightarrow> (u64 option \<times> heap) res" where
  "alloclist_alloc p n h =
     (case adata h p of
        None \<Rightarrow> Inl OutOfBounds
      | Some a \<Rightarrow>
          (case free_unit (ad_data a) (ALLOCLIST_DATASIZE n) of
             None \<Rightarrow> Inr (None, h)
           | Some k \<Rightarrow>
               if k \<ge> ALLOCLIST_DATABIT n then Inr (None, h)
               else
                 let offset = k * ALLOCLIST_SIZE n in
                 bind_res (assert_res (offset \<noteq> 0) ''offset != 0'') (\<lambda>_.
                 bind_res (assert_res (offset < 4096) ''offset < PAGESIZE'') (\<lambda>_.
                 Inr (Some (p + of_nat offset), upd_data p (a\<lparr>ad_data := set_unit k (ad_data a)\<rparr>) h)))))"

definition alloclist_free :: "u64 \<Rightarrow> nat \<Rightarrow> nat \<Rightarrow> heap \<Rightarrow> heap res" where
  "alloclist_free p n offset h =
     (case adata h p of
        None \<Rightarrow> Inl OutOfBounds
      | Some a \<Rightarrow>
          let k = offset div ALLOCLIST_SIZE n; i = k div 8; j = k mod 8 in
          (case rd (ad_data a) i of
             None \<Rightarrow> Inl OutOfBounds
           | Some d \<Rightarrow>
               bind_res (assert_res (d AND push_bit j 1 \<noteq> 0) ''p->data[i] & (1 << j)'') (\<lambda>_.
               Inr (upd_data p (a\<lparr>ad_data := (ad_data a)[i := d AND NOT (push_bit j 1)]\<rparr>) h))))"

section \<open>The functions\<close>

text \<open>
  The loop of \<open>alloc\<close>: a page without a free unit is marked and left out of the list.
\<close>

primrec alloc_loop :: "nat \<Rightarrow> u32 \<Rightarrow> nat \<Rightarrow> heap \<Rightarrow> (u64 \<times> heap) res" where
  "alloc_loop 0 vmm_start_phys i h = Inl OutOfFuel"
| "alloc_loop (Suc fuel) vmm_start_phys i h =
     bind_res
       (case alloclist h i of
          [] \<Rightarrow> alloclist_new vmm_start_phys i h
        | p # ps \<Rightarrow> Inr (p, h\<lparr>alloclist := (alloclist h)(i := ps)\<rparr>)) (\<lambda>(p, h).
     bind_res (alloclist_alloc p i h) (\<lambda>(r, h).
     case r of
       Some r \<Rightarrow> Inr (r, PUSH_alloclist i p h)
     | None \<Rightarrow>
         (case adata h p of
            None \<Rightarrow> Inl OutOfBounds
          | Some a \<Rightarrow> alloc_loop fuel vmm_start_phys i (upd_data p (a\<lparr>ad_n := ad_n a OR 0x80\<rparr>) h))))"

definition alloc :: "u32 \<Rightarrow> u32 \<Rightarrow> heap \<Rightarrow> (u64 \<times> heap) res" where
  "alloc vmm_start_phys len h =
     (case find (\<lambda>i. unat len \<le> ALLOCLIST_SIZE i) [0..<NUM_OF_ALLOCLIST] of
        None \<Rightarrow>
          bind_res (alloc_pages vmm_start_phys ((len + 4095) div 4096) (pages h)) (\<lambda>((r, _), s). Inr (r, h\<lparr>pages := s\<rparr>))
      | Some i \<Rightarrow> alloc_loop (length (alloclist h i) + 1) vmm_start_phys i h)"

definition alloc2 :: "u32 \<Rightarrow> u32 \<Rightarrow> heap \<Rightarrow> ((u64 \<times> u64) \<times> heap) res" where
  "alloc2 vmm_start_phys len h =
     bind_res (alloc vmm_start_phys len h) (\<lambda>(r, h).
     if r = 0 then Inr ((r, 0), h)
     else bind_res (virt_to_page r) (\<lambda>p. Inr ((r, page_to_phys vmm_start_phys p + (r AND 0xFFF)), h)))"

definition free :: "u64 \<Rightarrow> heap \<Rightarrow> heap res" where
  "free virt h =
     (let offset = virt AND 0xFFF in
      if offset = 0 then bind_res (free_page virt (pages h)) (\<lambda>s. Inr (h\<lparr>pages := s\<rparr>))
      else
        let p = virt AND NOT 0xFFF in
        case adata h p of
          None \<Rightarrow> Inl OutOfBounds
        | Some a \<Rightarrow>
            let n = ad_n a AND NOT 0x80;
                h = (if any_bit (ad_n a) 0x80 then PUSH_alloclist (unat n) p (upd_data p (a\<lparr>ad_n := n\<rparr>) h) else h)
            in alloclist_free p (unat n) (unat offset) h)"

text \<open>The size of a block, its class, and whether it is a block of pages.\<close>

definition get_alloc_len :: "u64 \<Rightarrow> heap \<Rightarrow> (bool \<times> nat \<times> nat) res" where
  "get_alloc_len virt h =
     (let offset = virt AND 0xFFF in
      if offset = 0 then bind_res (virt_to_page virt) (\<lambda>i. let n = psize (pages h) i in Inr (True, unat (allocsize n), n))
      else
        (case adata h (virt AND NOT 0xFFF) of
           None \<Rightarrow> Inl OutOfBounds
         | Some a \<Rightarrow> let n = unat (ad_n a AND NOT 0x80) in Inr (False, ALLOCLIST_SIZE n, n)))"

definition memcpy_heap :: "u64 \<Rightarrow> u64 \<Rightarrow> nat \<Rightarrow> heap \<Rightarrow> heap" where
  "memcpy_heap dst src len h =
     h\<lparr>contents := (\<lambda>a. if unat (a - dst) < len then contents h (src + (a - dst)) else contents h a)\<rparr>"

text \<open>A block in a new place: \<open>alloc\<close> does not return a null pointer, so that the tests \<open>if (p)\<close> hold.\<close>

definition move_block :: "u32 \<Rightarrow> u64 \<Rightarrow> u32 \<Rightarrow> nat \<Rightarrow> heap \<Rightarrow> (u64 \<times> heap) res" where
  "move_block vmm_start_phys virt len n h =
     bind_res (alloc vmm_start_phys len h) (\<lambda>(p, h).
     if p = 0 then Inr (p, h)
     else bind_res (free virt (memcpy_heap p virt n h)) (\<lambda>h. Inr (p, h)))"

definition realloc :: "u32 \<Rightarrow> u64 \<Rightarrow> u32 \<Rightarrow> heap \<Rightarrow> (u64 \<times> heap) res" where
  "realloc vmm_start_phys virt len h =
     (if virt = 0 \<and> len = 0 then Inr (0, h)
      else if virt = 0 then alloc vmm_start_phys len h
      else if len = 0 then bind_res (free virt h) (\<lambda>h. Inr (0, h))
      else
        bind_res (get_alloc_len virt h) (\<lambda>(pagemode, oldlen, n).
        if oldlen = unat len then Inr (virt, h)
        else if oldlen < unat len then move_block vmm_start_phys virt len oldlen h
        else
          let smaller = (if pagemode then (if n > 0 then unat (allocsize (n - 1)) else ALLOCLIST_SIZE (NUM_OF_ALLOCLIST - 1))
                         else (if n > 0 then ALLOCLIST_SIZE (n - 1) else ALLOCLIST_SIZE 0))
          in if smaller < unat len then Inr (virt, h)
             else move_block vmm_start_phys virt len (unat len) h))"

end
