(* ===== verification/Heap_Inv.thy ===== *)
theory Heap_Inv
  imports Heap
begin

text \<open>
  The invariant of the small-block allocator, the blocks in use that a state describes, and the effect
  of each step on them.
\<close>

section \<open>Units\<close>

definition used :: "u8 list \<Rightarrow> nat \<Rightarrow> bool" where "used d k \<longleftrightarrow> bit (d ! (k div 8)) (k mod 8)"

text \<open>The units that the header takes.\<close>

definition head_units :: "nat \<Rightarrow> nat" where
  "head_units n = length (takeWhile (\<lambda>i. i * ALLOCLIST_SIZE n < ALLOCLIST_HEADERSIZE n) [0..<ALLOCLIST_DATABIT n])"

definition fresh_data :: "nat \<Rightarrow> u8 list" where
  "fresh_data n = fold set_unit (takeWhile (\<lambda>i. i * ALLOCLIST_SIZE n < ALLOCLIST_HEADERSIZE n) [0..<ALLOCLIST_DATABIT n])
     (replicate (ALLOCLIST_DATASIZE n) 0)"

lemmas list_params = ALLOCLIST_SIZE_def ALLOCLIST_DATABIT_def ALLOCLIST_DATASIZE_def ALLOCLIST_HEADERSIZE_def

lemma class_cases: "n < NUM_OF_ALLOCLIST \<Longrightarrow> n \<in> {0, 1, 2, 3, 4, 5, 6}"
  by (auto simp: NUM_OF_ALLOCLIST_def)

lemma unit_params:
  assumes "n < NUM_OF_ALLOCLIST"
  shows "ALLOCLIST_SIZE n * ALLOCLIST_DATABIT n = 4096" "0 < ALLOCLIST_SIZE n" "ALLOCLIST_SIZE n \<le> 1024"
    "ALLOCLIST_DATABIT n \<le> 8 * ALLOCLIST_DATASIZE n" "0 < ALLOCLIST_DATABIT n"
  using class_cases [OF assms] by (auto simp: list_params)

lemma head_params:
  assumes "n < NUM_OF_ALLOCLIST"
  shows "0 < head_units n" "head_units n < ALLOCLIST_DATABIT n" "ALLOCLIST_HEADERSIZE n \<le> head_units n * ALLOCLIST_SIZE n"
proof -
  have "head_units n = (if n = 0 then 4 else if n = 1 then 2 else 1)"
    using class_cases [OF assms] by (auto simp: head_units_def list_params upt_rec)
  then show "0 < head_units n" "head_units n < ALLOCLIST_DATABIT n" "ALLOCLIST_HEADERSIZE n \<le> head_units n * ALLOCLIST_SIZE n"
    using class_cases [OF assms] by (auto simp: list_params)
qed

lemma used_set_unit:
  "length (set_unit i d) = length d"
  "i div 8 < length d \<Longrightarrow> used (set_unit i d) k \<longleftrightarrow> k = i \<or> used d k"
proof -
  have "k div 8 = i div 8 \<and> k mod 8 = i mod 8 \<longleftrightarrow> k = i" by (metis div_mult_mod_eq)
  then show "length (set_unit i d) = length d" "i div 8 < length d \<Longrightarrow> used (set_unit i d) k \<longleftrightarrow> k = i \<or> used d k"
    by (auto simp: used_def set_unit_def nth_list_update bit_simps)
qed

lemma used_fold_set_unit:
  "\<forall>i\<in>set is. i div 8 < length d \<Longrightarrow> length (fold set_unit is d) = length d"
  "\<forall>i\<in>set is. i div 8 < length d \<Longrightarrow> used (fold set_unit is d) k \<longleftrightarrow> k \<in> set is \<or> used d k"
  by (induction "is" arbitrary: d) (auto simp: used_set_unit)

lemma fresh_heads: "fresh_data n = fold set_unit [0..<head_units n] (replicate (ALLOCLIST_DATASIZE n) 0)"
proof -
  let ?P = "\<lambda>i. i * ALLOCLIST_SIZE n < ALLOCLIST_HEADERSIZE n"
  have "takeWhile ?P [0..<ALLOCLIST_DATABIT n] = take (head_units n) [0..<ALLOCLIST_DATABIT n]"
    unfolding head_units_def by (rule takeWhile_eq_take)
  moreover have "head_units n \<le> ALLOCLIST_DATABIT n"
    using length_takeWhile_le [of ?P "[0..<ALLOCLIST_DATABIT n]"] by (simp add: head_units_def)
  ultimately show ?thesis by (simp add: fresh_data_def)
qed

lemma used_fresh:
  assumes "n < NUM_OF_ALLOCLIST"
  shows "length (fresh_data n) = ALLOCLIST_DATASIZE n" "k < ALLOCLIST_DATABIT n \<Longrightarrow> used (fresh_data n) k \<longleftrightarrow> k < head_units n"
proof -
  have l: "i div 8 < ALLOCLIST_DATASIZE n" if "i < ALLOCLIST_DATABIT n" for i
    using that unit_params(4) [OF assms] by (simp add: div_less_iff_less_mult mult.commute)
  have h: "\<forall>i\<in>set [0..<head_units n]. i div 8 < length (replicate (ALLOCLIST_DATASIZE n) (0 :: u8))"
    using l head_params(2) [OF assms] by auto
  show "length (fresh_data n) = ALLOCLIST_DATASIZE n" unfolding fresh_heads using used_fold_set_unit(1) [OF h] by simp
  show "used (fresh_data n) k \<longleftrightarrow> k < head_units n" if "k < ALLOCLIST_DATABIT n"
    unfolding fresh_heads using used_fold_set_unit(2) [OF h, of k] l [OF that] by (auto simp: used_def)
qed

lemma byte_not_FF: "b \<noteq> 0xFF \<Longrightarrow> \<exists>j<8. \<not> bit b j" for b :: u8
proof (rule ccontr)
  assume b: "b \<noteq> 0xFF" "\<not> (\<exists>j<8. \<not> bit b j)"
  have "b = NOT 0" by (rule bit_word_eqI) (use b(2) in \<open>auto simp: bit_simps\<close>)
  then show False using b(1) by simp
qed

lemma free_unit_Some:
  assumes "free_unit d l = Some k" "l \<le> length d"
  shows "k div 8 < length d" "\<not> used d k"
proof -
  obtain i where i: "find (\<lambda>i. d ! i \<noteq> 0xFF) [0..<l] = Some i"
    "k = i * 8 + (case find (\<lambda>j. d ! i AND push_bit j 1 = 0) [0..<8] of None \<Rightarrow> 8 | Some j \<Rightarrow> j)"
    using assms(1) by (auto simp: free_unit_def split: option.splits)
  then have l: "i < l" "d ! i \<noteq> 0xFF" by (auto simp: find_Some_iff)
  then obtain j0 where "j0 < 8" "\<not> bit (d ! i) j0" using byte_not_FF by blast
  then obtain j where j: "find (\<lambda>j. d ! i AND push_bit j 1 = 0) [0..<8] = Some j"
    by (cases "find (\<lambda>j. d ! i AND push_bit j 1 = 0) [0..<8]") (auto simp: find_None_iff bit_iff_and_push_bit_not_eq_0)
  then have "j < 8" "\<not> bit (d ! i) j" by (auto simp: find_Some_iff bit_iff_and_push_bit_not_eq_0)
  moreover have "k = i * 8 + j" using i(2) j by simp
  ultimately show "k div 8 < length d" "\<not> used d k" using l(1) assms(2) by (simp_all add: used_def)
qed

text \<open>It is the first unit that is not in use.\<close>

lemma find_upt: "P k \<Longrightarrow> k < l \<Longrightarrow> \<exists>i. find P [0..<l] = Some i \<and> i \<le> k \<and> P i"
proof -
  assume k: "P k" "k < l"
  then obtain i where i: "find P [0..<l] = Some i" by (cases "find P [0..<l]") (auto simp: find_None_iff)
  then have "P i \<and> (\<forall>j<i. \<not> P j)" by (auto simp: find_Some_iff)
  then show ?thesis using i k(1) by (metis not_less)
qed

lemma free_unit_first:
  assumes "\<not> used d k" "k div 8 < l"
  shows "\<exists>k'. free_unit d l = Some k' \<and> k' \<le> k"
proof -
  have "d ! (k div 8) \<noteq> 0xFF"
  proof
    assume "d ! (k div 8) = 0xFF"
    moreover have e: "(0xFF :: u8) = mask 8" by (simp add: mask_eq_exp_minus_1)
    have "bit (0xFF :: u8) (k mod 8)" unfolding e by (simp only: bit_mask_iff) simp
    ultimately show False using assms(1) by (simp add: used_def)
  qed
  from find_upt [of "\<lambda>i. d ! i \<noteq> 0xFF", OF this assms(2)] obtain i where
    i: "find (\<lambda>i. d ! i \<noteq> 0xFF) [0..<l] = Some i" "i \<le> k div 8" "d ! i \<noteq> 0xFF" by blast
  let ?j = "\<lambda>j. d ! i AND push_bit j 1 = 0"
  show ?thesis
  proof (cases "i = k div 8")
    case True
    then have "?j (k mod 8)" using assms(1) by (simp add: used_def bit_iff_and_push_bit_not_eq_0)
    then obtain j where "find ?j [0..<8] = Some j" "j \<le> k mod 8" using find_upt [of ?j "k mod 8" 8] by auto
    moreover have "i * 8 + j \<le> k" using True \<open>j \<le> k mod 8\<close> div_mult_mod_eq [of k 8] by linarith
    ultimately show ?thesis using i(1) by (simp add: free_unit_def)
  next
    case False
    obtain j0 where "j0 < 8" "\<not> bit (d ! i) j0" using byte_not_FF i(3) by blast
    then obtain j where j: "find ?j [0..<8] = Some j" "j \<le> j0"
      using find_upt [of ?j j0 8] by (auto simp: bit_iff_and_push_bit_not_eq_0)
    have "i * 8 + j \<le> k" using False i(2) j(2) \<open>j0 < 8\<close> by linarith
    then show ?thesis using i(1) j(1) by (simp add: free_unit_def)
  qed
qed

lemma fresh_has_unit:
  assumes "n < NUM_OF_ALLOCLIST"
  shows "\<exists>k. free_unit (fresh_data n) (ALLOCLIST_DATASIZE n) = Some k \<and> k < ALLOCLIST_DATABIT n"
proof -
  have h: "head_units n < ALLOCLIST_DATABIT n" by (rule head_params(2) [OF assms])
  then have "\<not> used (fresh_data n) (head_units n)" by (simp add: used_fresh [OF assms])
  moreover have "head_units n div 8 < ALLOCLIST_DATASIZE n"
    using h unit_params(4) [OF assms] by (simp add: div_less_iff_less_mult mult.commute)
  ultimately show ?thesis using free_unit_first h by (meson le_less_trans)
qed

section \<open>Addresses\<close>

definition unit_addr :: "u64 \<Rightarrow> nat \<Rightarrow> nat \<Rightarrow> u64" where
  "unit_addr p n k = p + of_nat (k * ALLOCLIST_SIZE n)"

lemma unit_offset:
  assumes "n < NUM_OF_ALLOCLIST" "k < ALLOCLIST_DATABIT n"
  shows "k * ALLOCLIST_SIZE n + ALLOCLIST_SIZE n \<le> 4096"
proof -
  have "(k + 1) * ALLOCLIST_SIZE n \<le> ALLOCLIST_DATABIT n * ALLOCLIST_SIZE n" using assms(2) by (intro mult_le_mono1) simp
  then show ?thesis using unit_params(1) [OF assms(1)] by (simp add: algebra_simps)
qed

lemma unat_low_12: "unat (a AND 0xFFF) = unat a mod 4096" for a :: u64
proof -
  have m: "(0xFFF :: u64) = mask 12" by (simp add: mask_eq_exp_minus_1)
  have "unat (a AND 0xFFF) = take_bit 12 (unat a)" unfolding m by (simp only: unsigned_take_bit_eq flip: take_bit_eq_mask)
  then show ?thesis by (simp add: take_bit_eq_mod)
qed

lemma unat_unit_addr:
  assumes "i < NUM_OF_PAGES" "n < NUM_OF_ALLOCLIST" "k < ALLOCLIST_DATABIT n"
  shows "unat (unit_addr (page_to_virt i) n k) = unat (page_to_virt i) + k * ALLOCLIST_SIZE n"
proof -
  let ?o = "k * ALLOCLIST_SIZE n"
  have o: "?o < 4096" using unit_offset [OF assms(2,3)] unit_params(2) [OF assms(2)] by linarith
  then have "unat (of_nat ?o :: u64) = ?o" by (intro unat_less_of_nat) simp
  moreover have "unat (page_to_virt i) + ?o < 2 ^ 64" using o assms(1) unat_page_to_virt [OF assms(1)] by (simp add: NUM_OF_PAGES_def)
  ultimately show ?thesis unfolding unit_addr_def by (subst unat_plus_if') simp
qed

lemma unit_addr_page:
  assumes "i < NUM_OF_PAGES" "n < NUM_OF_ALLOCLIST" "k < ALLOCLIST_DATABIT n"
  shows "unit_addr (page_to_virt i) n k AND NOT 0xFFF = page_to_virt i"
    "unat (unit_addr (page_to_virt i) n k AND 0xFFF) = k * ALLOCLIST_SIZE n"
proof -
  let ?o = "k * ALLOCLIST_SIZE n" and ?a = "unit_addr (page_to_virt i) n k"
  have o: "?o < 4096" using unit_offset [OF assms(2,3)] unit_params(2) [OF assms(2)] by linarith
  have m: "(0xFFF :: u64) = mask 12" by (simp add: mask_eq_exp_minus_1)
  have a: "unat ?a = (262144 + i) * 4096 + ?o" using unat_unit_addr [OF assms] unat_page_to_virt [OF assms(1)] by simp
  have "unat ?a div 4096 = 262144 + i" by (rule div_nat_eqI) (use a o in simp_all)
  then have "unat (?a AND NOT 0xFFF) = unat (page_to_virt i)"
    unfolding m unat_and_not_mask using unat_page_to_virt [OF assms(1)] by simp
  then show "?a AND NOT 0xFFF = page_to_virt i" by (simp only: word_unat_eq_iff)
  show "unat (?a AND 0xFFF) = ?o" unfolding unat_low_12 a using o by (simp only: mod_mult_self3 mod_less)
qed

text \<open>The address of a page determines it.\<close>

lemma page_to_virt_inj: "i < NUM_OF_PAGES \<Longrightarrow> j < NUM_OF_PAGES \<Longrightarrow> page_to_virt i = page_to_virt j \<Longrightarrow> i = j"
proof -
  assume i: "i < NUM_OF_PAGES" "j < NUM_OF_PAGES" and "page_to_virt i = page_to_virt j"
  then have "unat (page_to_virt i) = unat (page_to_virt j)" by (simp only:)
  then show "i = j" unfolding unat_page_to_virt [OF i(1)] unat_page_to_virt [OF i(2)] by linarith
qed

lemma page_to_virt_aligned: "i < NUM_OF_PAGES \<Longrightarrow> page_to_virt i AND 0xFFF = 0"
proof -
  assume i: "i < NUM_OF_PAGES"
  have a: "unat (page_to_virt i) = (262144 + i) * 4096" using unat_page_to_virt [OF i] by simp
  have "unat (page_to_virt i AND 0xFFF) = 0" unfolding unat_low_12 a by simp
  then show ?thesis by (simp flip: unat_eq_zero)
qed

section \<open>The invariant\<close>

text \<open>The class of a page of units; the bit \<open>0x80\<close> says that it is not in a list.\<close>

definition ad_class :: "allocdata \<Rightarrow> nat" where "ad_class a = unat (ad_n a AND NOT 0x80)"

definition ad_ok :: "allocdata \<Rightarrow> bool" where
  "ad_ok a \<longleftrightarrow> ad_class a < NUM_OF_ALLOCLIST \<and> (ad_n a = of_nat (ad_class a) \<or> ad_n a = of_nat (ad_class a) OR 0x80) \<and>
     length (ad_data a) = ALLOCLIST_DATASIZE (ad_class a) \<and> (\<forall>k<head_units (ad_class a). used (ad_data a) k)"

text \<open>The pages in \<open>out\<close> are between two lists.\<close>

definition heap_ok :: "u64 set \<Rightarrow> heap \<Rightarrow> bool" where
  "heap_ok out h \<longleftrightarrow> mm_inv (pages h) \<and>
     (\<forall>p a. adata h p = Some a \<longrightarrow> (\<exists>i. p = page_to_virt i \<and> (i, 0) \<in> live (pages h)) \<and> ad_ok a) \<and>
     (\<forall>n<NUM_OF_ALLOCLIST. distinct (alloclist h n) \<and>
        (\<forall>p. p \<in> set (alloclist h n) \<longleftrightarrow> p \<notin> out \<and> (\<exists>a. adata h p = Some a \<and> ad_n a = of_nat n)))"

abbreviation heap_inv :: "heap \<Rightarrow> bool" where "heap_inv \<equiv> heap_ok {}"

text \<open>The blocks that have been handed out: units of pages, and whole pages.\<close>

definition unit_blocks :: "u64 \<Rightarrow> allocdata \<Rightarrow> (u64 \<times> nat) set" where
  "unit_blocks p a = {(unit_addr p (ad_class a) k, ALLOCLIST_SIZE (ad_class a)) |k.
     head_units (ad_class a) \<le> k \<and> k < ALLOCLIST_DATABIT (ad_class a) \<and> used (ad_data a) k}"

definition page_blocks :: "heap \<Rightarrow> (u64 \<times> nat) set" where
  "page_blocks h = {(page_to_virt i, 4096 * 2 ^ n) |i n. (i, n) \<in> live (pages h) \<and> adata h (page_to_virt i) = None}"

definition blocks :: "heap \<Rightarrow> (u64 \<times> nat) set" where
  "blocks h = {b. \<exists>p a. adata h p = Some a \<and> b \<in> unit_blocks p a} \<union> page_blocks h"

definition bytes_of :: "u64 \<times> nat \<Rightarrow> nat set" where "bytes_of b = {unat (fst b)..<unat (fst b) + snd b}"

text \<open>The bytes of pages in use, and of free pages.\<close>

definition page_bytes :: "nat set \<Rightarrow> nat set" where "page_bytes P = {b. \<exists>i\<in>P. i < NUM_OF_PAGES \<and> b \<in> {unat (page_to_virt i)..<unat (page_to_virt i) + 4096}}"

text \<open>Where a block lies: in a block of pages, and for a unit behind the header of its page.\<close>

lemma blocks_cases [consumes 2, case_names Unit Page]:
  assumes "heap_ok out h" "b \<in> blocks h"
  obtains i a k where "adata h (page_to_virt i) = Some a" "(i, 0) \<in> live (pages h)" "i < NUM_OF_PAGES" "ad_ok a"
      "ad_class a < NUM_OF_ALLOCLIST" "head_units (ad_class a) \<le> k" "k < ALLOCLIST_DATABIT (ad_class a)" "used (ad_data a) k"
      "b = (unit_addr (page_to_virt i) (ad_class a) k, ALLOCLIST_SIZE (ad_class a))"
  | i n where "(i, n) \<in> live (pages h)" "i < NUM_OF_PAGES" "adata h (page_to_virt i) = None" "b = (page_to_virt i, 4096 * 2 ^ n)"
proof (cases "b \<in> page_blocks h")
  case True
  then obtain i n where "(i, n) \<in> live (pages h)" "adata h (page_to_virt i) = None" "b = (page_to_virt i, 4096 * 2 ^ n)"
    by (auto simp: page_blocks_def)
  then show ?thesis using that(2) by (auto simp: live_iff)
next
  case False
  then obtain p a k where a: "adata h p = Some a" "head_units (ad_class a) \<le> k" "k < ALLOCLIST_DATABIT (ad_class a)" "used (ad_data a) k"
    "b = (unit_addr p (ad_class a) k, ALLOCLIST_SIZE (ad_class a))"
    using assms(2) by (auto simp: blocks_def unit_blocks_def)
  then obtain i where "p = page_to_virt i" "(i, 0) \<in> live (pages h)" "ad_ok a" using assms(1) unfolding heap_ok_def by blast
  then show ?thesis using that(1) a by (auto simp: live_iff ad_ok_def)
qed

text \<open>The bytes of a block of pages.\<close>

definition region :: "nat \<Rightarrow> nat \<Rightarrow> nat set" where "region i n = {4096 * (262144 + i)..<4096 * (262144 + i + 2 ^ n)}"

lemma region_disjoint:
  assumes "{i..<i + 2 ^ n} \<inter> {j..<j + 2 ^ m} = {}" shows "region i n \<inter> region j m = {}"
proof -
  have "i + 2 ^ n \<le> j \<or> j + 2 ^ m \<le> i"
  proof (rule ccontr)
    assume "\<not> ?thesis"
    then have "max i j \<in> {i..<i + 2 ^ n} \<inter> {j..<j + 2 ^ m}" by (auto simp: max_def)
    then show False using assms by blast
  qed
  then show ?thesis by (auto simp: region_def)
qed

lemma page_block_region: "i < NUM_OF_PAGES \<Longrightarrow> bytes_of (page_to_virt i, 4096 * 2 ^ n) = region i n"
  by (simp add: bytes_of_def region_def unat_page_to_virt algebra_simps)

lemma unit_region:
  assumes "i < NUM_OF_PAGES" "n < NUM_OF_ALLOCLIST" "k < ALLOCLIST_DATABIT n"
  shows "bytes_of (unit_addr (page_to_virt i) n k, ALLOCLIST_SIZE n) \<subseteq> region i 0"
  using unit_offset [OF assms(2,3)] unat_unit_addr [OF assms] unat_page_to_virt [OF assms(1)]
  by (auto simp: bytes_of_def region_def)

lemma units_disjoint:
  assumes "i < NUM_OF_PAGES" "n < NUM_OF_ALLOCLIST" "k < ALLOCLIST_DATABIT n" "l < ALLOCLIST_DATABIT n" "k \<noteq> l"
  shows "bytes_of (unit_addr (page_to_virt i) n k, ALLOCLIST_SIZE n) \<inter> bytes_of (unit_addr (page_to_virt i) n l, ALLOCLIST_SIZE n) = {}"
proof -
  have "a * ALLOCLIST_SIZE n + ALLOCLIST_SIZE n \<le> b * ALLOCLIST_SIZE n" if "a < b" for a b
    using mult_le_mono1 [of "Suc a" b "ALLOCLIST_SIZE n"] that by simp
  moreover have "k < l \<or> l < k" using assms(5) by auto
  ultimately have "k * ALLOCLIST_SIZE n + ALLOCLIST_SIZE n \<le> l * ALLOCLIST_SIZE n \<or> l * ALLOCLIST_SIZE n + ALLOCLIST_SIZE n \<le> k * ALLOCLIST_SIZE n"
    by blast
  then show ?thesis
    using unat_unit_addr [OF assms(1-3)] unat_unit_addr [OF assms(1,2,4)] by (auto simp: bytes_of_def)
qed

text \<open>Every block lies in a block of pages in use, and two blocks in the same one are units.\<close>

lemma block_region:
  assumes "heap_ok out h" "b \<in> blocks h"
  obtains i n where "(i, n) \<in> live (pages h)" "bytes_of b \<subseteq> region i n"
    "adata h (page_to_virt i) = None \<longrightarrow> b = (page_to_virt i, 4096 * 2 ^ n)"
    "\<And>a. adata h (page_to_virt i) = Some a \<Longrightarrow> i < NUM_OF_PAGES \<and> ad_class a < NUM_OF_ALLOCLIST \<and>
      (\<exists>k. head_units (ad_class a) \<le> k \<and> k < ALLOCLIST_DATABIT (ad_class a) \<and> b = (unit_addr (page_to_virt i) (ad_class a) k, ALLOCLIST_SIZE (ad_class a)))"
  using assms
proof (cases rule: blocks_cases)
  case (Unit i a k)
  then show ?thesis using that [of i 0] unit_region [of i "ad_class a" k] by auto
next
  case (Page i n)
  then show ?thesis using that [of i n] page_block_region [of i n] by auto
qed

text \<open>Blocks in use do not overlap.\<close>

lemma blocks_disjoint:
  assumes "heap_ok out h" "b \<in> blocks h" "b' \<in> blocks h" "b \<noteq> b'"
  shows "bytes_of b \<inter> bytes_of b' = {}"
proof -
  obtain i n where i: "(i, n) \<in> live (pages h)" "bytes_of b \<subseteq> region i n"
    "adata h (page_to_virt i) = None \<longrightarrow> b = (page_to_virt i, 4096 * 2 ^ n)"
    "\<And>a. adata h (page_to_virt i) = Some a \<Longrightarrow> i < NUM_OF_PAGES \<and> ad_class a < NUM_OF_ALLOCLIST \<and>
      (\<exists>k. head_units (ad_class a) \<le> k \<and> k < ALLOCLIST_DATABIT (ad_class a) \<and> b = (unit_addr (page_to_virt i) (ad_class a) k, ALLOCLIST_SIZE (ad_class a)))"
    using block_region [OF assms(1,2)] by blast
  obtain j m where j: "(j, m) \<in> live (pages h)" "bytes_of b' \<subseteq> region j m"
    "adata h (page_to_virt j) = None \<longrightarrow> b' = (page_to_virt j, 4096 * 2 ^ m)"
    "\<And>a. adata h (page_to_virt j) = Some a \<Longrightarrow> j < NUM_OF_PAGES \<and> ad_class a < NUM_OF_ALLOCLIST \<and>
      (\<exists>k. head_units (ad_class a) \<le> k \<and> k < ALLOCLIST_DATABIT (ad_class a) \<and> b' = (unit_addr (page_to_virt j) (ad_class a) k, ALLOCLIST_SIZE (ad_class a)))"
    using block_region [OF assms(1,3)] by blast
  show ?thesis
  proof (cases "(i, n) = (j, m)")
    case False
    have "mm_inv (pages h)" using assms(1) by (simp add: heap_ok_def)
    from region_disjoint [OF live_disjoint [OF this i(1) j(1) False]] show ?thesis using i(2) j(2) by blast
  next
    case True
    then obtain a where a: "adata h (page_to_virt i) = Some a" using i(3) j(3) assms(4) by auto
    then obtain k l where "b = (unit_addr (page_to_virt i) (ad_class a) k, ALLOCLIST_SIZE (ad_class a))" "k < ALLOCLIST_DATABIT (ad_class a)"
      "b' = (unit_addr (page_to_virt i) (ad_class a) l, ALLOCLIST_SIZE (ad_class a))" "l < ALLOCLIST_DATABIT (ad_class a)"
      using i(4) j(4) True by blast
    then show ?thesis using units_disjoint [of i "ad_class a" k l] i(4) [OF a] assms(4) by auto
  qed
qed

end
