(* ===== verification/Heap_Steps.thy ===== *)
theory Heap_Steps
  imports Heap_Inv
begin

text \<open>
  What \<open>alloc\<close> and \<open>free\<close> do to the blocks in use: the steps on one page of units, the loop over the list,
  and the whole functions.
\<close>

section \<open>One header\<close>

text \<open>The blocks outside the page of units at \<open>p\<close>.\<close>

definition others :: "u64 \<Rightarrow> heap \<Rightarrow> (u64 \<times> nat) set" where
  "others p h = {b. \<exists>q a. q \<noteq> p \<and> adata h q = Some a \<and> b \<in> unit_blocks q a} \<union> page_blocks h"

lemma upd_data_simps [simp]:
  "pages (upd_data p a h) = pages h" "alloclist (upd_data p a h) = alloclist h" "contents (upd_data p a h) = contents h"
  "adata (upd_data p a h) = (adata h)(p \<mapsto> a)"
  by (simp_all add: upd_data_def)

lemma PUSH_simps [simp]:
  "pages (PUSH_alloclist n p h) = pages h" "adata (PUSH_alloclist n p h) = adata h" "contents (PUSH_alloclist n p h) = contents h"
  "alloclist (PUSH_alloclist n p h) = (alloclist h)(n := p # alloclist h n)"
  by (simp_all add: PUSH_alloclist_def)

lemma blocks_others:
  assumes "adata h p = Some a" shows "blocks h = others p h \<union> unit_blocks p a"
proof -
  have "(\<exists>q x. adata h q = Some x \<and> b \<in> unit_blocks q x) \<longleftrightarrow> (\<exists>q x. q \<noteq> p \<and> adata h q = Some x \<and> b \<in> unit_blocks q x) \<or> b \<in> unit_blocks p a" for b
    using assms by (metis option.inject)
  then show ?thesis by (simp add: blocks_def others_def) blast
qed

lemma others_upd: "adata h p = Some a \<Longrightarrow> others p (upd_data p a' h) = others p h"
proof -
  assume a: "adata h p = Some a"
  then have "((adata h)(p \<mapsto> a')) q = None \<longleftrightarrow> adata h q = None" for q by auto
  then show ?thesis by (auto simp: others_def page_blocks_def)
qed

lemma blocks_upd: "adata h p = Some a \<Longrightarrow> blocks (upd_data p a' h) = others p h \<union> unit_blocks p a'"
  using blocks_others [of "upd_data p a' h" p a'] others_upd by simp

lemma blocks_same: "pages h' = pages h \<Longrightarrow> adata h' = adata h \<Longrightarrow> blocks h' = blocks h"
  by (simp add: blocks_def page_blocks_def)

lemma heap_ok_header:
  assumes "heap_ok out h" "adata h p = Some a"
  obtains i where "p = page_to_virt i" "(i, 0) \<in> live (pages h)" "i < NUM_OF_PAGES" "ad_ok a"
proof -
  obtain i where i: "p = page_to_virt i" "(i, 0) \<in> live (pages h)" "ad_ok a" using assms unfolding heap_ok_def by blast
  then have "i < NUM_OF_PAGES" by (simp add: live_iff)
  then show thesis using that i by blast
qed

lemma unit_block_addr:
  assumes "heap_ok out h" "adata h p = Some a" "head_units (ad_class a) \<le> k" "k < ALLOCLIST_DATABIT (ad_class a)"
  shows "unit_addr p (ad_class a) k AND NOT 0xFFF = p" "unat (unit_addr p (ad_class a) k AND 0xFFF) = k * ALLOCLIST_SIZE (ad_class a)"
    "0 < k * ALLOCLIST_SIZE (ad_class a)" "unit_addr p (ad_class a) k AND 0xFFF \<noteq> 0"
proof -
  obtain i where i: "p = page_to_virt i" "i < NUM_OF_PAGES" "ad_ok a" using heap_ok_header [OF assms(1,2)] by metis
  then have c: "ad_class a < NUM_OF_ALLOCLIST" by (simp add: ad_ok_def)
  show 1: "unit_addr p (ad_class a) k AND NOT 0xFFF = p" "unat (unit_addr p (ad_class a) k AND 0xFFF) = k * ALLOCLIST_SIZE (ad_class a)"
    unfolding i(1) by (rule unit_addr_page [OF i(2) c assms(4)])+
  show 2: "0 < k * ALLOCLIST_SIZE (ad_class a)" using head_params(1) [OF c] unit_params(2) [OF c] assms(3) by simp
  show "unit_addr p (ad_class a) k AND 0xFFF \<noteq> 0" using 1(2) 2 by auto
qed

lemma other_addr: "heap_ok out h \<Longrightarrow> b \<in> others p h \<Longrightarrow> fst b AND 0xFFF = 0 \<or> fst b AND NOT 0xFFF \<noteq> p"
proof -
  assume h: "heap_ok out h" "b \<in> others p h"
  then consider "b \<in> page_blocks h" | q a where "q \<noteq> p" "adata h q = Some a" "b \<in> unit_blocks q a" by (auto simp: others_def)
  then show ?thesis
  proof cases
    case 1
    then show ?thesis using page_to_virt_aligned by (auto simp: page_blocks_def live_iff)
  next
    case (2 q a)
    then show ?thesis using unit_block_addr(1) [OF h(1) 2(2)] by (auto simp: unit_blocks_def)
  qed
qed

lemma unit_addr_inj:
  assumes "heap_ok out h" "adata h p = Some a" "unit_addr p (ad_class a) l = unit_addr p (ad_class a) k"
    "head_units (ad_class a) \<le> l" "l < ALLOCLIST_DATABIT (ad_class a)" "head_units (ad_class a) \<le> k" "k < ALLOCLIST_DATABIT (ad_class a)"
  shows "l = k"
proof -
  obtain i where "ad_ok a" using heap_ok_header [OF assms(1,2)] by metis
  then have z: "0 < ALLOCLIST_SIZE (ad_class a)" using unit_params(2) by (simp add: ad_ok_def)
  note u = unit_block_addr(2) [OF assms(1,2)]
  have "l * ALLOCLIST_SIZE (ad_class a) = k * ALLOCLIST_SIZE (ad_class a)"
    using u [OF assms(4,5)] u [OF assms(6,7)] unfolding assms(3) by (rule trans [OF sym])
  then show ?thesis using z by simp
qed

lemma unit_in_page:
  assumes "heap_ok out h" "adata h p = Some a" "head_units (ad_class a) \<le> k" "k < ALLOCLIST_DATABIT (ad_class a)"
  shows "(unit_addr p (ad_class a) k, s) \<notin> others p h"
    "(unit_addr p (ad_class a) k, s) \<in> unit_blocks p a \<longleftrightarrow> s = ALLOCLIST_SIZE (ad_class a) \<and> used (ad_data a) k"
proof -
  note u = unit_block_addr [OF assms(1,2)]
  show "(unit_addr p (ad_class a) k, s) \<notin> others p h" using other_addr [OF assms(1)] u(1,4) [OF assms(3,4)] by fastforce
  show "(unit_addr p (ad_class a) k, s) \<in> unit_blocks p a \<longleftrightarrow> s = ALLOCLIST_SIZE (ad_class a) \<and> used (ad_data a) k"
    using assms(3,4) unit_addr_inj [OF assms(1,2)] by (auto simp: unit_blocks_def)
qed

text \<open>A header may be exchanged for one of the same class in the same list.\<close>

lemma heap_ok_upd:
  assumes "heap_ok out h" "adata h p = Some a" "ad_ok a'" "ad_n a' = ad_n a"
  shows "heap_ok out (upd_data p a' h)"
proof -
  have "(\<exists>x. ((adata h)(p \<mapsto> a')) q = Some x \<and> ad_n x = c) \<longleftrightarrow> (\<exists>x. adata h q = Some x \<and> ad_n x = c)" for q c
    using assms(2,4) by (cases "q = p") auto
  moreover obtain i where "p = page_to_virt i" "(i, 0) \<in> live (pages h)" using heap_ok_header [OF assms(1,2)] by metis
  ultimately show ?thesis using assms(1,3) by (simp add: heap_ok_def) blast
qed

lemma class_update [simp]: "ad_class (a\<lparr>ad_data := d\<rparr>) = ad_class a"
  by (simp add: ad_class_def)

section \<open>Taking and giving back a unit\<close>

lemma alloclist_alloc_ok:
  assumes "heap_ok out h" "adata h p = Some a" "ad_class a = n"
  shows "alloclist_alloc p n h = Inr (None, h) \<or>
    (\<exists>r a'. alloclist_alloc p n h = Inr (Some r, upd_data p a' h) \<and> ad_n a' = ad_n a \<and> heap_ok out (upd_data p a' h) \<and>
      (r, ALLOCLIST_SIZE n) \<notin> blocks h \<and> blocks (upd_data p a' h) = insert (r, ALLOCLIST_SIZE n) (blocks h))"
proof (cases "free_unit (ad_data a) (ALLOCLIST_DATASIZE n)")
  case (Some k)
  show ?thesis
  proof (cases "k < ALLOCLIST_DATABIT n")
    case True
    have ok: "ad_ok a" using heap_ok_header [OF assms(1,2)] by metis
    then have c: "n < NUM_OF_ALLOCLIST" "length (ad_data a) = ALLOCLIST_DATASIZE n" "\<forall>k<head_units n. used (ad_data a) k"
      using assms(3) by (simp_all add: ad_ok_def)
    have k: "k div 8 < length (ad_data a)" "\<not> used (ad_data a) k" using free_unit_Some [OF Some] c(2) by simp_all
    then have hk: "head_units n \<le> k" using c(3) not_less by blast
    let ?a = "a\<lparr>ad_data := set_unit k (ad_data a)\<rparr>" and ?r = "unit_addr p n k"
    have ok': "ad_ok ?a" using ok k(1) by (auto simp: ad_ok_def used_set_unit)
    have o: "0 < k * ALLOCLIST_SIZE n" "k * ALLOCLIST_SIZE n < 4096"
      using head_params(1) [OF c(1)] unit_params(2) [OF c(1)] unit_offset [OF c(1) True] hk by (simp, linarith)
    have "unit_blocks p ?a = insert (?r, ALLOCLIST_SIZE n) (unit_blocks p a)"
      using hk True k(1) assms(3) by (auto simp: unit_blocks_def used_set_unit)
    then have "blocks (upd_data p ?a h) = insert (?r, ALLOCLIST_SIZE n) (blocks h)"
      using blocks_upd [OF assms(2), of ?a] blocks_others [OF assms(2)] by simp
    moreover have "(?r, ALLOCLIST_SIZE n) \<notin> blocks h"
      using unit_in_page [OF assms(1,2), of k] hk True assms(3) k(2) blocks_others [OF assms(2)] by simp
    moreover have "alloclist_alloc p n h = Inr (Some ?r, upd_data p ?a h)"
      using assms(2) Some True o by (simp add: alloclist_alloc_def Let_def unit_addr_def)
    ultimately show ?thesis using heap_ok_upd [OF assms(1,2) ok'] by auto
  qed (use assms(2) Some in \<open>simp add: alloclist_alloc_def\<close>)
qed (use assms(2) in \<open>simp add: alloclist_alloc_def\<close>)

definition clear_unit :: "nat \<Rightarrow> u8 list \<Rightarrow> u8 list" where
  "clear_unit k d = d[k div 8 := d ! (k div 8) AND NOT (push_bit (k mod 8) 1)]"

lemma used_clear_unit:
  "length (clear_unit k d) = length d"
  "k div 8 < length d \<Longrightarrow> used (clear_unit k d) l \<longleftrightarrow> l \<noteq> k \<and> used d l"
proof -
  have "l div 8 = k div 8 \<and> l mod 8 = k mod 8 \<longleftrightarrow> l = k" by (metis div_mult_mod_eq)
  then show "length (clear_unit k d) = length d" "k div 8 < length d \<Longrightarrow> used (clear_unit k d) l \<longleftrightarrow> l \<noteq> k \<and> used d l"
    by (auto simp: used_def clear_unit_def nth_list_update bit_simps)
qed

lemma alloclist_free_ok:
  assumes "heap_ok out h" "adata h p = Some a" "ad_class a = n" "head_units n \<le> k" "k < ALLOCLIST_DATABIT n" "used (ad_data a) k"
  shows "\<exists>a'. alloclist_free p n (k * ALLOCLIST_SIZE n) h = Inr (upd_data p a' h) \<and> ad_n a' = ad_n a \<and> heap_ok out (upd_data p a' h) \<and>
      blocks (upd_data p a' h) = blocks h - {(unit_addr p n k, ALLOCLIST_SIZE n)} \<and> \<not> used (ad_data a') k"
proof -
  have ok: "ad_ok a" using heap_ok_header [OF assms(1,2)] by metis
  then have c: "n < NUM_OF_ALLOCLIST" "length (ad_data a) = ALLOCLIST_DATASIZE n" using assms(3) by (simp_all add: ad_ok_def)
  have k: "k div 8 < length (ad_data a)" using assms(5) unit_params(4) [OF c(1)] c(2) by (simp add: div_less_iff_less_mult mult.commute)
  let ?a = "a\<lparr>ad_data := clear_unit k (ad_data a)\<rparr>" and ?b = "(unit_addr p n k, ALLOCLIST_SIZE n)"
  have ok': "ad_ok ?a" using ok k assms(3,4) by (auto simp: ad_ok_def used_clear_unit)
  have "l = k" if "unit_addr p n l = unit_addr p n k" "head_units n \<le> l" "l < ALLOCLIST_DATABIT n" for l
    using unit_addr_inj [OF assms(1,2), of l k] that assms(3-5) by simp
  then have "unit_blocks p ?a = unit_blocks p a - {?b}"
    using k assms(3) by (auto simp: unit_blocks_def used_clear_unit)
  moreover have "?b \<notin> others p h" using unit_in_page(1) [OF assms(1,2), of k] assms(3-5) by simp
  ultimately have "blocks (upd_data p ?a h) = blocks h - {?b}"
    using blocks_upd [OF assms(2), of ?a] blocks_others [OF assms(2)] by blast
  moreover have "alloclist_free p n (k * ALLOCLIST_SIZE n) h = Inr (upd_data p ?a h)"
    using assms(2,6) k unit_params(2) [OF c(1)]
    by (simp add: alloclist_free_def Let_def clear_unit_def used_def bit_iff_and_push_bit_not_eq_0)
  ultimately show ?thesis using heap_ok_upd [OF assms(1,2) ok'] k by (intro exI [of _ ?a]) (simp add: used_clear_unit)
qed

section \<open>Pages of units and their lists\<close>

lemma class_n: "n < NUM_OF_ALLOCLIST \<Longrightarrow> unat ((of_nat n :: u8) AND NOT 0x80) = n" "n < NUM_OF_ALLOCLIST \<Longrightarrow> unat (((of_nat n :: u8) OR 0x80) AND NOT 0x80) = n"
  "n < NUM_OF_ALLOCLIST \<Longrightarrow> \<not> any_bit (of_nat n :: u8) 0x80" "n < NUM_OF_ALLOCLIST \<Longrightarrow> any_bit ((of_nat n :: u8) OR 0x80) 0x80"
  using class_cases [of n] by (auto simp: any_bit_def)

lemma class_inj:
  assumes "n < NUM_OF_ALLOCLIST" "m < NUM_OF_ALLOCLIST"
  shows "(of_nat n :: u8) = of_nat m \<longleftrightarrow> n = m" "(of_nat n :: u8) OR 0x80 \<noteq> of_nat m"
  using class_n [OF assms(1)] class_n [OF assms(2)] by metis+

lemma ad_class_eq: "ad_n a = of_nat n \<or> ad_n a = of_nat n OR 0x80 \<Longrightarrow> n < NUM_OF_ALLOCLIST \<Longrightarrow> ad_class a = n"
  unfolding ad_class_def using class_n(1,2) by metis

lemma fresh_header:
  assumes "n < NUM_OF_ALLOCLIST"
  shows "ad_ok \<lparr>ad_n = of_nat n, ad_data = fresh_data n\<rparr>" "ad_class \<lparr>ad_n = of_nat n, ad_data = fresh_data n\<rparr> = n"
    "unit_blocks p \<lparr>ad_n = of_nat n, ad_data = fresh_data n\<rparr> = {}"
proof -
  show c: "ad_class \<lparr>ad_n = of_nat n, ad_data = fresh_data n\<rparr> = n" using assms by (intro ad_class_eq) simp_all
  show "ad_ok \<lparr>ad_n = of_nat n, ad_data = fresh_data n\<rparr>"
    using head_params(2) [OF assms] by (simp add: ad_ok_def c assms used_fresh)
  show "unit_blocks p \<lparr>ad_n = of_nat n, ad_data = fresh_data n\<rparr> = {}"
    by (auto simp: unit_blocks_def c used_fresh [OF assms])
qed

text \<open>A new page of units is in no list yet, and holds no block.\<close>

lemma alloc_order_1: "alloc_order 1 = Some 0"
  by (simp add: alloc_order_def NUM_OF_ALLOCSIZE_def upt_rec)

text \<open>A block of pages that has just been allocated was no block of any kind before.\<close>

lemma page_fresh:
  assumes "heap_inv h" "mm_page_alloc k (pages h) = Inr (i, s)"
  shows "mm_inv s" "i < NUM_OF_PAGES" "live s = insert (i, k) (live (pages h))" "(i, m) \<notin> live (pages h)"
    "adata h (page_to_virt i) = None" "(j, m) \<in> live (pages h) \<Longrightarrow> page_to_virt j \<noteq> page_to_virt i"
proof -
  have "mm_inv (pages h)" using assms(1) by (simp add: heap_ok_def)
  from mm_page_alloc_spec [OF this, of k] have s: "mm_inv s" "i < NUM_OF_PAGES" "(i, k) \<notin> live (pages h)" "live s = insert (i, k) (live (pages h))"
    using assms(2) by (simp_all add: allocated_def)
  then show "mm_inv s" "i < NUM_OF_PAGES" "live s = insert (i, k) (live (pages h))" by simp_all
  show i: "(i, m) \<notin> live (pages h)" for m
  proof
    assume "(i, m) \<in> live (pages h)"
    then have "(i, m) \<in> live s" "(i, k) \<in> live s" using s(4) by simp_all
    then show False using s(3) \<open>(i, m) \<in> live (pages h)\<close> by (auto simp: live_iff)
  qed
  show o: "page_to_virt j \<noteq> page_to_virt i" if "(j, m) \<in> live (pages h)" for j m
    using that page_to_virt_inj [OF _ s(2), of j] i by (auto simp: live_iff)
  show "adata h (page_to_virt i) = None"
  proof (rule ccontr)
    assume "adata h (page_to_virt i) \<noteq> None"
    then obtain a where "adata h (page_to_virt i) = Some a" by blast
    from heap_ok_header [OF assms(1) this] show False using o by metis
  qed
qed

lemma alloclist_new_ok:
  assumes "heap_inv h" "n < NUM_OF_ALLOCLIST"
  shows "case alloclist_new v n h of
      Inl e \<Rightarrow> \<not> has_block 0 (pages h)
    | Inr (p, h') \<Rightarrow> heap_ok {p} h' \<and> blocks h' = blocks h \<and> alloclist h' = alloclist h \<and> contents h' = contents h \<and>
        adata h' p = Some \<lparr>ad_n = of_nat n, ad_data = fresh_data n\<rparr>"
proof (cases "mm_page_alloc 0 (pages h)")
  case (Inl e)
  have "mm_inv (pages h)" using assms(1) by (simp add: heap_ok_def)
  from mm_page_alloc_spec [OF this, of 0] show ?thesis
    using Inl by (simp add: alloclist_new_def alloc_page_def alloc_pages_def alloc_order_1)
next
  case (Inr q)
  obtain i s where q: "q = (i, s)" by (cases q)
  let ?p = "page_to_virt i" and ?a = "\<lparr>ad_n = of_nat n, ad_data = fresh_data n\<rparr>"
  define h' where "h' = upd_data ?p ?a (h\<lparr>pages := s\<rparr>)"
  note s = page_fresh [OF assms(1) Inr [unfolded q]]
  have e: "alloclist_new v n h = Inr (?p, h')"
    using Inr q by (simp add: alloclist_new_def alloc_page_def alloc_pages_def alloc_order_1 h'_def fresh_data_def Let_def)
  have "heap_ok {?p} h'"
  proof -
    have "q \<in> set (alloclist h m) \<longleftrightarrow> q \<noteq> ?p \<and> (\<exists>x. ((adata h)(?p \<mapsto> ?a)) q = Some x \<and> ad_n x = of_nat m)" if "m < NUM_OF_ALLOCLIST" for q m
      using assms(1) s(5) that by (cases "q = ?p") (simp_all add: heap_ok_def)
    moreover have "(\<exists>j. q = page_to_virt j \<and> (j, 0) \<in> live s) \<and> ad_ok x" if "((adata h)(?p \<mapsto> ?a)) q = Some x" for q x
    proof (cases "q = ?p")
      case True
      then show ?thesis using that fresh_header(1) [OF assms(2)] s(3) by auto
    next
      case False
      then have "adata h q = Some x" using that by simp
      from heap_ok_header [OF assms(1) this] show ?thesis using s(3) by (metis insertI2)
    qed
    ultimately show ?thesis using assms(1) s(1) unfolding heap_ok_def h'_def by simp
  qed
  moreover have "blocks h' = blocks h"
  proof -
    have "page_blocks h' = page_blocks h"
    proof -
      have "(j, m) \<in> live s \<and> adata h' (page_to_virt j) = None \<longleftrightarrow> (j, m) \<in> live (pages h) \<and> adata h (page_to_virt j) = None" for j m
        using s(3) s(4) [of m] s(6) [of j m] by (cases "j = i") (auto simp: h'_def)
      then show ?thesis by (simp add: page_blocks_def h'_def)
    qed
    moreover have "(\<exists>q a. adata h' q = Some a \<and> b \<in> unit_blocks q a) \<longleftrightarrow> (\<exists>q a. adata h q = Some a \<and> b \<in> unit_blocks q a)" for b
      using s(5) fresh_header(3) [OF assms(2), of ?p] by (auto simp: h'_def split: if_splits) (metis option.distinct(1))
    ultimately show ?thesis by (simp add: blocks_def)
  qed
  ultimately show ?thesis by (simp add: e h'_def)
qed

text \<open>A page goes back to its list, or is left out and marked.\<close>

lemma push_ok:
  assumes "heap_ok {p} h" "adata h p = Some a" "ad_n a = of_nat n" "n < NUM_OF_ALLOCLIST"
  shows "heap_inv (PUSH_alloclist n p h)"
proof -
  have l: "distinct (alloclist h m)" "q \<in> set (alloclist h m) \<longleftrightarrow> q \<noteq> p \<and> (\<exists>x. adata h q = Some x \<and> ad_n x = of_nat m)"
    if "m < NUM_OF_ALLOCLIST" for m q using assms(1) that by (auto simp: heap_ok_def)
  have "distinct ((alloclist (PUSH_alloclist n p h)) m) \<and>
      (\<forall>q. q \<in> set (alloclist (PUSH_alloclist n p h) m) \<longleftrightarrow> (\<exists>x. adata h q = Some x \<and> ad_n x = of_nat m))" if m: "m < NUM_OF_ALLOCLIST" for m
  proof (cases "m = n")
    case True
    have "q \<in> set (p # alloclist h n) \<longleftrightarrow> (\<exists>x. adata h q = Some x \<and> ad_n x = of_nat n)" for q
      using l(2) [OF assms(4), of q] assms(2,3) by (cases "q = p") simp_all
    moreover have "p \<notin> set (alloclist h n)" using l(2) [OF assms(4), of p] by simp
    ultimately show ?thesis using True l(1) [OF assms(4)] by simp
  next
    case False
    then have "ad_n a \<noteq> of_nat m" using assms(3) class_inj(1) [OF assms(4) m] by simp
    then have "q \<in> set (alloclist h m) \<longleftrightarrow> (\<exists>x. adata h q = Some x \<and> ad_n x = of_nat m)" for q
      using l(2) [OF m, of q] assms(2) by (cases "q = p") simp_all
    then show ?thesis using False l(1) [OF m] by simp
  qed
  then show ?thesis using assms(1) by (simp add: heap_ok_def)
qed

lemma mark_ok:
  assumes "heap_ok {p} h" "adata h p = Some a" "ad_n a = of_nat n" "n < NUM_OF_ALLOCLIST"
  shows "heap_inv (upd_data p (a\<lparr>ad_n := of_nat n OR 0x80\<rparr>) h)" "blocks (upd_data p (a\<lparr>ad_n := of_nat n OR 0x80\<rparr>) h) = blocks h"
proof -
  let ?a = "a\<lparr>ad_n := of_nat n OR 0x80\<rparr>"
  have c: "ad_class a = n" "ad_class ?a = n" using assms(3,4) by (intro ad_class_eq; simp)+
  have "ad_ok a" using heap_ok_header [OF assms(1,2)] by metis
  then have ok: "ad_ok ?a" using c by (simp add: ad_ok_def)
  have "(\<exists>x. ((adata h)(p \<mapsto> ?a)) q = Some x \<and> ad_n x = of_nat m) \<longleftrightarrow> q \<noteq> p \<and> (\<exists>x. adata h q = Some x \<and> ad_n x = of_nat m)"
    if "m < NUM_OF_ALLOCLIST" for q m
    using class_inj(2) [OF assms(4) that] by (cases "q = p") auto
  moreover obtain i where "p = page_to_virt i" "(i, 0) \<in> live (pages h)" using heap_ok_header [OF assms(1,2)] by metis
  ultimately show "heap_inv (upd_data p ?a h)" using assms(1) ok by (simp add: heap_ok_def) blast
  have "unit_blocks p ?a = unit_blocks p a" unfolding unit_blocks_def c by simp
  then show "blocks (upd_data p ?a h) = blocks h" using blocks_upd [OF assms(2), of ?a] blocks_others [OF assms(2)] by simp
qed

lemma pop_ok:
  assumes "heap_inv h" "alloclist h n = p # ps" "n < NUM_OF_ALLOCLIST"
  shows "heap_ok {p} (h\<lparr>alloclist := (alloclist h)(n := ps)\<rparr>)" "\<exists>a. adata h p = Some a \<and> ad_n a = of_nat n"
proof -
  have l: "distinct (alloclist h m)" "q \<in> set (alloclist h m) \<longleftrightarrow> (\<exists>x. adata h q = Some x \<and> ad_n x = of_nat m)"
    if "m < NUM_OF_ALLOCLIST" for m q using assms(1) that by (auto simp: heap_ok_def)
  show a: "\<exists>a. adata h p = Some a \<and> ad_n a = of_nat n" using l(2) [OF assms(3), of p] assms(2) by simp
  let ?h = "h\<lparr>alloclist := (alloclist h)(n := ps)\<rparr>"
  have "distinct (alloclist ?h m) \<and> (\<forall>q. q \<in> set (alloclist ?h m) \<longleftrightarrow> q \<noteq> p \<and> (\<exists>x. adata h q = Some x \<and> ad_n x = of_nat m))"
    if m: "m < NUM_OF_ALLOCLIST" for m
  proof (cases "m = n")
    case True
    have "q \<in> set ps \<longleftrightarrow> q \<noteq> p \<and> q \<in> set (p # ps)" for q using l(1) [OF assms(3)] assms(2) by auto
    then show ?thesis using True l [OF m] assms(2) by simp
  next
    case False
    obtain x where "adata h p = Some x" "ad_n x = of_nat n" using a by blast
    then have "p \<notin> set (alloclist h m)" using l(2) [OF m, of p] class_inj(1) [OF assms(3) m] False by simp
    then show ?thesis using False l [OF m] by simp blast
  qed
  then show "heap_ok {p} ?h" using assms(1) by (simp add: heap_ok_def)
qed

end
