(* ===== verification/Heap_Contract.thy ===== *)
theory Heap_Contract
  imports Heap_Steps
begin

text \<open>
  The contract of \<open>alloc\<close>, \<open>free\<close> and \<open>realloc\<close>, and the locale that states it.
\<close>

section \<open>Allocation\<close>

text \<open>A block of \<open>s\<close> bytes at \<open>r\<close> has been added.\<close>

definition added :: "u64 \<Rightarrow> nat \<Rightarrow> heap \<Rightarrow> heap \<Rightarrow> bool" where
  "added r s h h' \<longleftrightarrow> heap_inv h' \<and> (r, s) \<notin> blocks h \<and> blocks h' = insert (r, s) (blocks h) \<and> contents h' = contents h"

lemma unit_taken:
  assumes "heap_ok {p} h" "adata h p = Some a" "ad_n a = of_nat n" "n < NUM_OF_ALLOCLIST"
    "alloclist_alloc p n h = Inr (Some r, h')"
  shows "added r (ALLOCLIST_SIZE n) h (PUSH_alloclist n p h')"
proof -
  have c: "ad_class a = n" using assms(3,4) by (intro ad_class_eq) simp_all
  from alloclist_alloc_ok [OF assms(1,2) c] assms(5) obtain a' where
    a': "h' = upd_data p a' h" "ad_n a' = ad_n a" "heap_ok {p} h'" "(r, ALLOCLIST_SIZE n) \<notin> blocks h"
    "blocks h' = insert (r, ALLOCLIST_SIZE n) (blocks h)" by auto
  moreover have "heap_inv (PUSH_alloclist n p h')" using push_ok [OF a'(3), of a' n] a'(1,2) assms(3,4) by simp
  moreover have "blocks (PUSH_alloclist n p h') = blocks h'" by (rule blocks_same) simp_all
  ultimately show ?thesis by (simp add: added_def)
qed

lemma alloclist_alloc_cases:
  assumes "heap_ok {p} h" "adata h p = Some a" "ad_n a = of_nat n" "n < NUM_OF_ALLOCLIST"
  obtains "alloclist_alloc p n h = Inr (None, h)" "\<not> (\<exists>k. free_unit (ad_data a) (ALLOCLIST_DATASIZE n) = Some k \<and> k < ALLOCLIST_DATABIT n)"
  | r h' where "alloclist_alloc p n h = Inr (Some r, h')" "added r (ALLOCLIST_SIZE n) h (PUSH_alloclist n p h')"
proof -
  have c: "ad_class a = n" using assms(3,4) by (intro ad_class_eq) simp_all
  have "\<not> (\<exists>k. free_unit (ad_data a) (ALLOCLIST_DATASIZE n) = Some k \<and> k < ALLOCLIST_DATABIT n)"
    if "alloclist_alloc p n h = Inr (None, h)"
    using that assms(2) by (auto simp: alloclist_alloc_def Let_def bind_res_Inr_iff)
  then show thesis using alloclist_alloc_ok [OF assms(1,2) c] unit_taken [OF assms] that by metis
qed

lemma alloc_loop_ok:
  assumes "n < NUM_OF_ALLOCLIST"
  shows "heap_inv h \<Longrightarrow> length (alloclist h n) < fuel \<Longrightarrow>
    (case alloc_loop fuel v n h of Inl e \<Rightarrow> \<not> has_block 0 (pages h) | Inr (r, h') \<Rightarrow> added r (ALLOCLIST_SIZE n) h h')"
proof (induction fuel arbitrary: h)
  case (Suc fuel)
  show ?case
  proof (cases "alloclist h n")
    case Nil
    show ?thesis
    proof (cases "alloclist_new v n h")
      case (Inl e)
      then show ?thesis using alloclist_new_ok [OF Suc.prems(1) assms, of v] Nil by simp
    next
      case (Inr q)
      obtain p h1 where q: "q = (p, h1)" by (cases q)
      let ?a = "\<lparr>ad_n = of_nat n, ad_data = fresh_data n\<rparr>"
      have h1: "heap_ok {p} h1" "blocks h1 = blocks h" "contents h1 = contents h" "adata h1 p = Some ?a"
        using alloclist_new_ok [OF Suc.prems(1) assms, of v] Inr q by simp_all
      from alloclist_alloc_cases [OF h1(1,4) _ assms] obtain r h' where
        r: "alloclist_alloc p n h1 = Inr (Some r, h')" "added r (ALLOCLIST_SIZE n) h1 (PUSH_alloclist n p h')"
        using fresh_has_unit [OF assms] by auto
      then show ?thesis using Nil Inr q h1(2,3) by (simp add: added_def)
    qed
  next
    case (Cons p ps)
    let ?h = "h\<lparr>alloclist := (alloclist h)(n := ps)\<rparr>"
    note pop = pop_ok [OF Suc.prems(1) Cons assms]
    then obtain a where a: "adata ?h p = Some a" "ad_n a = of_nat n" by auto
    have b: "blocks ?h = blocks h" by (rule blocks_same) simp_all
    from pop(1) a assms show ?thesis
    proof (cases rule: alloclist_alloc_cases)
      case 1
      let ?m = "upd_data p (a\<lparr>ad_n := of_nat n OR 0x80\<rparr>) ?h"
      note m = mark_ok [OF pop(1) a assms]
      have "length (alloclist ?m n) < fuel" using Suc.prems(2) Cons by simp
      from Suc.IH [OF m(1) this] show ?thesis
        using Cons 1 a m(2) b by (simp add: added_def split: sum.splits prod.splits)
    next
      case (2 r h')
      then show ?thesis using Cons b by (simp add: added_def)
    qed
  qed
qed simp

text \<open>The size of the block that a request of \<open>len\<close> bytes gets; \<open>None\<close> where the number of pages wraps or is too large.\<close>

definition block_size :: "u32 \<Rightarrow> nat option" where
  "block_size len =
     (case find (\<lambda>i. unat len \<le> ALLOCLIST_SIZE i) [0..<NUM_OF_ALLOCLIST] of
        Some i \<Rightarrow> Some (ALLOCLIST_SIZE i)
      | None \<Rightarrow> map_option (\<lambda>k. 4096 * 2 ^ k) (alloc_order ((len + 4095) div 4096)))"

lemma block_size_enough:
  assumes "block_size len = Some s" "unat len \<le> 0x7FFFEFFF"
  shows "unat len \<le> s"
proof (cases "find (\<lambda>i. unat len \<le> ALLOCLIST_SIZE i) [0..<NUM_OF_ALLOCLIST]")
  case (Some i)
  then have "unat len \<le> ALLOCLIST_SIZE i" by (auto simp: find_Some_iff)
  then show ?thesis using Some assms(1) by (simp add: block_size_def)
next
  case None
  let ?n = "(len + 4095) div 4096"
  obtain k where k: "alloc_order ?n = Some k" "s = 4096 * 2 ^ k" using None assms(1) by (auto simp: block_size_def)
  have "unat (len + 4095) = unat len + 4095" using assms(2) by (simp add: unat_word_ariths)
  then have n: "unat ?n = (unat len + 4095) div 4096" by (simp add: unat_div)
  then have "unat ?n < 524288" using assms(2) by (simp add: div_less_iff_less_mult)
  from alloc_order_some(2) [OF k(1) this] have "4096 * unat ?n \<le> s" using k(2) by simp
  moreover have "unat len \<le> 4096 * unat ?n" unfolding n by linarith
  ultimately show ?thesis by linarith
qed

text \<open>The order that is needed from the page allocator.\<close>

definition order_needed :: "u32 \<Rightarrow> nat" where
  "order_needed len =
     (case find (\<lambda>i. unat len \<le> ALLOCLIST_SIZE i) [0..<NUM_OF_ALLOCLIST] of
        Some i \<Rightarrow> 0
      | None \<Rightarrow> the (alloc_order ((len + 4095) div 4096)))"

lemma page_added:
  assumes "heap_inv h" "mm_page_alloc k (pages h) = Inr (i, s)"
  shows "added (page_to_virt i) (4096 * 2 ^ k) h (h\<lparr>pages := s\<rparr>)"
proof -
  note f = page_fresh [OF assms]
  let ?h = "h\<lparr>pages := s\<rparr>" and ?b = "(page_to_virt i, 4096 * 2 ^ k)"
  have "heap_inv ?h" using assms(1) f(1,3) unfolding heap_ok_def by simp blast
  moreover have "page_blocks ?h = insert ?b (page_blocks h)" using f(3,5) by (auto simp: page_blocks_def)
  then have "blocks ?h = insert ?b (blocks h)" by (simp add: blocks_def)
  moreover have "?b \<notin> blocks h"
  proof
    assume "?b \<in> blocks h"
    from assms(1) this show False
    proof (cases rule: blocks_cases)
      case (Unit j a l)
      then show False using f(6) [of j 0] unit_block_addr(4) [OF assms(1) Unit(1,6,7)] page_to_virt_aligned [OF f(2)] by auto
    next
      case (Page j n)
      then show False using f(6) [of j n] by auto
    qed
  qed
  ultimately show ?thesis by (simp add: added_def)
qed

lemma alloc_ok:
  assumes "heap_inv h"
  shows "case alloc v len h of
      Inl e \<Rightarrow> block_size len = None \<or> \<not> has_block (order_needed len) (pages h)
    | Inr (r, h') \<Rightarrow> \<exists>s. block_size len = Some s \<and> added r s h h'"
proof (cases "find (\<lambda>i. unat len \<le> ALLOCLIST_SIZE i) [0..<NUM_OF_ALLOCLIST]")
  case (Some i)
  then have i: "i < NUM_OF_ALLOCLIST" by (auto simp: find_Some_iff)
  from alloc_loop_ok [OF i assms, of "length (alloclist h i) + 1" v] show ?thesis
    using Some by (auto simp: alloc_def block_size_def order_needed_def simp del: alloc_loop.simps split: sum.splits)
next
  case None
  let ?n = "(len + 4095) div 4096"
  show ?thesis
  proof (cases "alloc_order ?n")
    case N: None
    then show ?thesis using None by (simp add: alloc_def alloc_pages_def block_size_def)
  next
    case k: (Some k)
    have inv: "mm_inv (pages h)" using assms by (simp add: heap_ok_def)
    show ?thesis
    proof (cases "mm_page_alloc k (pages h)")
      case (Inl e)
      then show ?thesis using mm_page_alloc_spec [OF inv, of k] None k
        by (simp add: alloc_def alloc_pages_def order_needed_def)
    next
      case (Inr q)
      obtain i s where "q = (i, s)" by (cases q)
      then show ?thesis using page_added [OF assms, of k i s] Inr None k
        by (simp add: alloc_def alloc_pages_def block_size_def)
    qed
  qed
qed

section \<open>Release\<close>

lemma unmark_ok:
  assumes "heap_inv h" "adata h p = Some a" "any_bit (ad_n a) 0x80"
  shows "heap_inv (PUSH_alloclist (ad_class a) p (upd_data p (a\<lparr>ad_n := of_nat (ad_class a)\<rparr>) h))"
    "blocks (upd_data p (a\<lparr>ad_n := of_nat (ad_class a)\<rparr>) h) = blocks h"
proof -
  let ?a = "a\<lparr>ad_n := of_nat (ad_class a)\<rparr>" and ?h = "upd_data p (a\<lparr>ad_n := of_nat (ad_class a)\<rparr>) h"
  obtain i where i: "p = page_to_virt i" "(i, 0) \<in> live (pages h)" "ad_ok a" using heap_ok_header [OF assms(1,2)] by metis
  then have n: "ad_class a < NUM_OF_ALLOCLIST" by (simp add: ad_ok_def)
  then have m: "ad_n a = of_nat (ad_class a) OR 0x80" using i(3) assms(3) class_n(3) [OF n] by (auto simp: ad_ok_def)
  have c: "ad_class ?a = ad_class a" using n by (intro ad_class_eq) simp_all
  then have ok: "ad_ok ?a" using i(3) by (simp add: ad_ok_def)
  have "(\<exists>x. ((adata h)(p \<mapsto> ?a)) q = Some x \<and> ad_n x = of_nat m) \<longleftrightarrow> (\<exists>x. adata h q = Some x \<and> ad_n x = of_nat m)" if "q \<noteq> p" for q m
    using that by simp
  moreover have "\<not> (\<exists>x. adata h p = Some x \<and> ad_n x = of_nat l)" if "l < NUM_OF_ALLOCLIST" for l
    using assms(2) class_inj(2) [OF n that] m by simp
  ultimately have "heap_ok {p} ?h" using assms(1) ok i(1,2) by (simp add: heap_ok_def) metis
  from push_ok [OF this, of ?a "ad_class a"] n show "heap_inv (PUSH_alloclist (ad_class a) p ?h)" by simp
  have "unit_blocks p ?a = unit_blocks p a" unfolding unit_blocks_def c by simp
  then show "blocks ?h = blocks h" using blocks_upd [OF assms(2), of ?a] blocks_others [OF assms(2)] by simp
qed

text \<open>A unit whose page is in its list, or has just been put there.\<close>

lemma unit_freed:
  assumes "heap_inv h" "adata h p = Some a" "ad_class a = n" "head_units n \<le> k" "k < ALLOCLIST_DATABIT n" "used (ad_data a) k"
  shows "\<exists>h'. alloclist_free p n (k * ALLOCLIST_SIZE n) h = Inr h' \<and> heap_inv h' \<and> blocks h' = blocks h - {(unit_addr p n k, ALLOCLIST_SIZE n)} \<and>
    contents h' = contents h \<and> (\<exists>a'. adata h' p = Some a' \<and> ad_class a' = n \<and> \<not> used (ad_data a') k)"
proof -
  from alloclist_free_ok [OF assms] obtain a' where
    a': "alloclist_free p n (k * ALLOCLIST_SIZE n) h = Inr (upd_data p a' h)" "ad_n a' = ad_n a" "heap_inv (upd_data p a' h)"
      "blocks (upd_data p a' h) = blocks h - {(unit_addr p n k, ALLOCLIST_SIZE n)}" "\<not> used (ad_data a') k" by blast
  have "ad_class a' = n" using a'(2) assms(3) by (simp add: ad_class_def)
  then show ?thesis using a' by simp
qed

text \<open>\<open>free\<close> of the address of a unit.\<close>

lemma free_unit_addr:
  assumes "heap_inv h" "adata h p = Some a" "head_units (ad_class a) \<le> k" "k < ALLOCLIST_DATABIT (ad_class a)"
  shows "free (unit_addr p (ad_class a) k) h =
    (if any_bit (ad_n a) 0x80
     then alloclist_free p (ad_class a) (k * ALLOCLIST_SIZE (ad_class a)) (PUSH_alloclist (ad_class a) p (upd_data p (a\<lparr>ad_n := of_nat (ad_class a)\<rparr>) h))
     else alloclist_free p (ad_class a) (k * ALLOCLIST_SIZE (ad_class a)) h)"
proof -
  note r = unit_block_addr [OF assms]
  have m: "ad_n a AND NOT 0x80 = of_nat (ad_class a)" by (simp only: ad_class_def of_nat_unat) simp
  show ?thesis unfolding free_def Let_def r(1) r(2) using r(4) assms(2) m by (simp add: ad_class_def)
qed

lemma free_unit_ok:
  assumes "heap_inv h" "adata h p = Some a" "head_units (ad_class a) \<le> k" "k < ALLOCLIST_DATABIT (ad_class a)" "used (ad_data a) k"
  shows "\<exists>h'. free (unit_addr p (ad_class a) k) h = Inr h' \<and> heap_inv h' \<and>
    blocks h' = blocks h - {(unit_addr p (ad_class a) k, ALLOCLIST_SIZE (ad_class a))} \<and> contents h' = contents h \<and>
    (\<exists>a'. adata h' p = Some a' \<and> ad_class a' = ad_class a \<and> \<not> used (ad_data a') k)"
proof -
  let ?r = "unit_addr p (ad_class a) k" and ?n = "ad_class a"
  let ?a = "a\<lparr>ad_n := of_nat ?n\<rparr>" and ?h = "upd_data p (a\<lparr>ad_n := of_nat (ad_class a)\<rparr>) h"
  obtain i where "ad_ok a" using heap_ok_header [OF assms(1,2)] by metis
  then have n: "?n < NUM_OF_ALLOCLIST" by (simp add: ad_ok_def)
  note e = free_unit_addr [OF assms(1-4)]
  show ?thesis
  proof (cases "any_bit (ad_n a) 0x80")
    case True
    have c: "ad_class ?a = ?n" using n by (intro ad_class_eq) simp_all
    have "blocks (PUSH_alloclist ?n p ?h) = blocks h" using blocks_same [of "PUSH_alloclist ?n p ?h" ?h] unmark_ok(2) [OF assms(1,2) True] by simp
    then show ?thesis using unit_freed [OF unmark_ok(1) [OF assms(1,2) True], of p ?a ?n k] c assms(3-5) e True by simp
  next
    case False
    then show ?thesis using unit_freed [OF assms(1,2) refl assms(3-5)] e by simp
  qed
qed

lemma free_pages_ok:
  assumes "heap_inv h" "(i, n) \<in> live (pages h)" "adata h (page_to_virt i) = None"
  shows "\<exists>h'. free (page_to_virt i) h = Inr h' \<and> heap_inv h' \<and> blocks h' = blocks h - {(page_to_virt i, 4096 * 2 ^ n)} \<and> contents h' = contents h"
proof -
  have i: "i < NUM_OF_PAGES" using assms(2) by (simp add: live_iff)
  have inv: "mm_inv (pages h)" using assms(1) by (simp add: heap_ok_def)
  obtain s where s: "mm_page_free i (pages h) = Inr s" "mm_inv s" "live s = live (pages h) - {(i, n)}"
    using mm_page_free_live [OF inv assms(2)] by blast
  let ?h = "h\<lparr>pages := s\<rparr>" and ?b = "(page_to_virt i, 4096 * 2 ^ n)"
  have f: "free (page_to_virt i) h = Inr ?h"
    using page_to_virt_aligned [OF i] virt_to_page_virt [OF i] s(1) by (simp add: free_def free_page_def)
  have "heap_inv ?h"
  proof -
    have "\<exists>j. q = page_to_virt j \<and> (j, 0) \<in> live s" if "adata h q = Some a" for q a
      using heap_ok_header [OF assms(1) that] s(3) assms(3) that by (metis DiffI option.distinct(1) prod.inject singletonD)
    then show ?thesis using assms(1) s(2) by (simp add: heap_ok_def)
  qed
  moreover have "blocks ?h = blocks h - {?b}"
  proof -
    have o: "j = i \<and> m = n" if "page_to_virt j = page_to_virt i" "(j, m) \<in> live (pages h)" for j m
      using page_to_virt_inj [of j i] that assms(2) by (auto simp: live_iff)
    have "page_blocks ?h = page_blocks h - {?b}" using s(3) by (auto simp: page_blocks_def dest: o)
    moreover have "?b \<notin> unit_blocks q a" if "adata h q = Some a" for q a
      using unit_block_addr(4) [OF assms(1) that] page_to_virt_aligned [OF i] by (auto simp: unit_blocks_def)
    ultimately show ?thesis by (auto simp: blocks_def)
  qed
  ultimately show ?thesis using f by simp
qed

lemma free_ok:
  assumes "heap_inv h" "(r, s) \<in> blocks h"
  shows "\<exists>h'. free r h = Inr h' \<and> heap_inv h' \<and> blocks h' = blocks h - {(r, s)} \<and> contents h' = contents h"
  using assms
proof (cases rule: blocks_cases)
  case (Unit i a k)
  then show ?thesis using free_unit_ok [OF assms(1) Unit(1,6-8)] by auto
next
  case (Page i n)
  then show ?thesis using free_pages_ok [OF assms(1) Page(1,3)] by simp
qed

text \<open>A second \<open>free\<close> of a unit fails the assertion of \<open>alloclist_free\<close>.\<close>

lemma double_free:
  assumes "heap_inv h" "(r, s) \<in> blocks h" "s \<le> 1024" "free r h = Inr h'"
  shows "free r h' = Inl (AssertFail ''p->data[i] & (1 << j)'')"
  using assms(1,2)
proof (cases rule: blocks_cases)
  case (Unit i a k)
  let ?p = "page_to_virt i" and ?n = "ad_class a"
  obtain a' where h': "heap_inv h'" "adata h' ?p = Some a'" "ad_class a' = ?n" "\<not> used (ad_data a') k"
    using free_unit_ok [OF assms(1) Unit(1,6-8)] assms(4) Unit(9) by auto
  have k: "k div 8 < length (ad_data a')"
    using heap_ok_header [OF h'(1,2)] Unit(7) unit_params(4) [OF Unit(5)] h'(3)
    by (metis ad_ok_def div_less_iff_less_mult less_le_trans mult.commute zero_less_numeral)
  have e: "alloclist_free ?p ?n (k * ALLOCLIST_SIZE ?n) g = Inl (AssertFail ''p->data[i] & (1 << j)'')"
    if "adata g ?p = Some x" "ad_data x = ad_data a'" for g x
    using that k h'(4) unit_params(2) [OF Unit(5)]
    by (simp add: alloclist_free_def Let_def used_def bit_iff_and_push_bit_not_eq_0 assert_res_def)
  show ?thesis using free_unit_addr [OF h'(1,2), of k] Unit(6,7,9) h'(2,3) e by simp
next
  case (Page i n)
  then have "4096 \<le> s" by simp
  then show ?thesis using assms(3) by linarith
qed

section \<open>realloc\<close>

lemma live_order:
  assumes "mm_inv m" "(i, n) \<in> live m" shows "n < NUM_OF_ALLOCSIZE" "i + 2 ^ n \<le> NUM_OF_PAGES"
  using inv_head(1) [OF assms(1), of i] block_range(1) [OF assms(1), of i] assms(2) by (auto simp: live_iff)

lemma block_start:
  assumes "heap_inv h" "(r, s) \<in> blocks h"
  shows "r \<noteq> 0" "unat r + s < 2 ^ 64"
proof -
  have inv: "mm_inv (pages h)" using assms(1) by (simp add: heap_ok_def)
  obtain i n where i: "(i, n) \<in> live (pages h)" "bytes_of (r, s) \<subseteq> region i n" using block_region [OF assms] by metis
  have "0 < s" using assms
  proof (cases rule: blocks_cases)
    case (Unit j a k)
    then show ?thesis using unit_params(2) [OF Unit(5)] by simp
  qed simp
  then have "unat r \<in> bytes_of (r, s)" "unat r + s - 1 \<in> bytes_of (r, s)" by (auto simp: bytes_of_def)
  then have "unat r \<in> region i n" "unat r + s - 1 \<in> region i n" using i(2) by blast+
  moreover have "i + 2 ^ n \<le> 32768" using live_order(2) [OF inv i(1)] by (simp add: NUM_OF_PAGES_def)
  ultimately have "0 < unat r" "unat r + s < 2 ^ 64" by (auto simp: region_def)
  then show "r \<noteq> 0" "unat r + s < 2 ^ 64" by auto
qed

lemma unat_allocsize:
  assumes "n < NUM_OF_ALLOCSIZE" shows "unat (allocsize n) = 4096 * 2 ^ n"
proof -
  have "(2::nat) ^ n \<le> 2 ^ 12" using assms by (intro power_increasing) (simp_all add: NUM_OF_ALLOCSIZE_def)
  then have "4096 * (2::nat) ^ n < 2 ^ 64" by simp
  moreover have "allocsize n = of_nat (4096 * 2 ^ n)" by (simp add: allocsize_def push_bit_eq_mult mult.commute)
  ultimately show ?thesis using unat_less_of_nat [of "4096 * 2 ^ n", where 'a = 64] by simp
qed

lemma get_alloc_len_ok:
  assumes "heap_inv h" "(r, s) \<in> blocks h"
  shows "\<exists>m n. get_alloc_len r h = Inr (m, s, n)"
  using assms
proof (cases rule: blocks_cases)
  case (Unit i a k)
  note u = unit_block_addr [OF assms(1) Unit(1,6,7)]
  have "get_alloc_len r h = Inr (False, s, ad_class a)" using Unit(1,9) u(1,4) by (simp add: get_alloc_len_def Let_def ad_class_def)
  then show ?thesis by blast
next
  case (Page i n)
  have inv: "mm_inv (pages h)" using assms(1) by (simp add: heap_ok_def)
  have "get_alloc_len r h = Inr (True, s, n)"
    using Page page_to_virt_aligned [OF Page(2)] virt_to_page_virt [OF Page(2)] unat_allocsize [OF live_order(1) [OF inv Page(1)]]
    by (simp add: get_alloc_len_def Let_def live_iff)
  then show ?thesis by blast
qed

text \<open>The block at \<open>r\<close> of \<open>s\<close> bytes is now one at \<open>r'\<close> of at least \<open>len\<close> bytes, which begins with the same bytes; no
  byte of another block has changed.\<close>

definition moved :: "u64 \<Rightarrow> nat \<Rightarrow> nat \<Rightarrow> heap \<Rightarrow> u64 \<Rightarrow> heap \<Rightarrow> bool" where
  "moved r s len h r' h' \<longleftrightarrow> heap_inv h' \<and>
     (\<exists>s'. len \<le> s' \<and> blocks h' = insert (r', s') (blocks h - {(r, s)})) \<and>
     (\<forall>i<min s len. contents h' (r' + of_nat i) = contents h (r + of_nat i)) \<and>
     (\<forall>b\<in>blocks h - {(r, s)}. \<forall>x. unat x \<in> bytes_of b \<longrightarrow> contents h' x = contents h x)"

lemma memcpy_simps [simp]:
  "pages (memcpy_heap d r n h) = pages h" "adata (memcpy_heap d r n h) = adata h" "alloclist (memcpy_heap d r n h) = alloclist h"
  "blocks (memcpy_heap d r n h) = blocks h" "heap_ok out (memcpy_heap d r n h) = heap_ok out h"
  by (simp_all add: memcpy_heap_def blocks_def page_blocks_def heap_ok_def)

lemma memcpy_contents:
  assumes "unat d + k < 2 ^ 64" "n \<le> k"
  shows "i < n \<Longrightarrow> contents (memcpy_heap d r n h) (d + of_nat i) = contents h (r + of_nat i)"
    "unat x \<notin> {unat d..<unat d + k} \<Longrightarrow> contents (memcpy_heap d r n h) x = contents h x"
proof -
  have "unat (of_nat i :: u64) = i" if "i < n" for i using that assms by (intro unat_less_of_nat) simp
  then show "i < n \<Longrightarrow> contents (memcpy_heap d r n h) (d + of_nat i) = contents h (r + of_nat i)" by (simp add: memcpy_heap_def)
  assume x: "unat x \<notin> {unat d..<unat d + k}"
  have "\<not> unat (x - d) < n"
  proof
    assume l: "unat (x - d) < n"
    have "unat x = unat (d + (x - d))" by simp
    also have "\<dots> = unat d + unat (x - d)" by (rule unat_add_lem [THEN iffD1]) (use l assms in simp)
    finally show False using x l assms(2) by simp
  qed
  then show "contents (memcpy_heap d r n h) x = contents h x" by (simp add: memcpy_heap_def)
qed

lemma move_block_ok:
  assumes "heap_inv h" "(r, s) \<in> blocks h" "unat len \<le> 0x7FFFEFFF" "n = min s (unat len)"
    "move_block v r len n h = Inr (r', h')"
  shows "moved r s (unat len) h r' h'"
proof -
  obtain h1 where h1: "alloc v len h = Inr (r', h1)" using assms(5) by (auto simp: move_block_def bind_res_Inr_iff split: if_splits)
  obtain s' where s': "block_size len = Some s'" "added r' s' h h1" using alloc_ok [OF assms(1), of len v] h1 by auto
  then have a: "heap_inv h1" "(r', s') \<notin> blocks h" "blocks h1 = insert (r', s') (blocks h)" "contents h1 = contents h"
    by (simp_all add: added_def)
  let ?m = "memcpy_heap r' r n h1"
  have st: "r' \<noteq> 0" "unat r' + s' < 2 ^ 64" using block_start [OF a(1), of r' s'] a(3) by simp_all
  have l: "unat len \<le> s'" by (rule block_size_enough [OF s'(1) assms(3)])
  have f: "free r ?m = Inr h'" using assms(5) h1 st(1) by (auto simp: move_block_def bind_res_Inr_iff)
  have "heap_inv ?m" "(r, s) \<in> blocks ?m" using a assms(2) by simp_all
  from free_ok [OF this] f have h': "heap_inv h'" "blocks h' = insert (r', s') (blocks h) - {(r, s)}" "contents h' = contents ?m"
    using a(3) by simp_all
  have n: "n \<le> s'" using assms(4) l by simp
  note c = memcpy_contents [OF st(2) n, of _ r h1]
  have "(r', s') \<noteq> (r, s)" using a(2) assms(2) by auto
  then have "blocks h' = insert (r', s') (blocks h - {(r, s)})" using h'(2) by auto
  moreover have "contents h' x = contents h x" if b: "b \<in> blocks h - {(r, s)}" "unat x \<in> bytes_of b" for b x
  proof -
    have "bytes_of b \<inter> bytes_of (r', s') = {}" using blocks_disjoint [OF a(1), of b "(r', s')"] a(2,3) b(1) by auto
    then have "unat x \<notin> {unat r'..<unat r' + s'}" using b(2) by (auto simp: bytes_of_def)
    then show ?thesis using c(2) h'(3) a(4) by simp
  qed
  moreover have "contents h' (r' + of_nat i) = contents h (r + of_nat i)" if "i < min s (unat len)" for i
    using c(1) [of i] that assms(4) h'(3) a(4) by simp
  ultimately show ?thesis using h'(1) l unfolding moved_def by blast
qed

text \<open>The branches of \<open>realloc\<close> for a block in use and a nonzero length.\<close>

lemma realloc_branches:
  assumes "heap_inv h" "(r, s) \<in> blocks h" "len \<noteq> 0"
  shows "(realloc v r len h = Inr (r, h) \<and> unat len \<le> s) \<or> realloc v r len h = move_block v r len (min s (unat len)) h"
proof -
  obtain m n where g: "get_alloc_len r h = Inr (m, s, n)" using get_alloc_len_ok [OF assms(1,2)] by blast
  have r: "r \<noteq> 0" by (rule block_start(1) [OF assms(1,2)])
  define k where "k = (if m then if n > 0 then unat (allocsize (n - 1)) else ALLOCLIST_SIZE (NUM_OF_ALLOCLIST - 1)
    else if n > 0 then ALLOCLIST_SIZE (n - 1) else ALLOCLIST_SIZE 0)"
  have "realloc v r len h = (if s = unat len then Inr (r, h) else if s < unat len then move_block v r len s h
      else if k < unat len then Inr (r, h) else move_block v r len (unat len) h)"
    unfolding realloc_def g Let_def k_def using r assms(3) by (simp only: simp_thms if_False bind_res_simps prod.case)
  then show ?thesis by (cases "s = unat len"; cases "s < unat len"; cases "k < unat len") simp_all
qed

lemma realloc_ok:
  assumes "heap_inv h" "(r, s) \<in> blocks h" "unat len \<le> 0x7FFFEFFF" "len \<noteq> 0" "realloc v r len h = Inr (r', h')"
  shows "moved r s (unat len) h r' h'"
proof -
  consider "r' = r" "h' = h" "unat len \<le> s" | "move_block v r len (min s (unat len)) h = Inr (r', h')"
    using realloc_branches [OF assms(1,2,4), of v] assms(5) by auto
  then show ?thesis
  proof cases
    case 1
    have "blocks h = insert (r, s) (blocks h - {(r, s)})" using assms(2) by blast
    then show ?thesis unfolding moved_def 1(1,2) using assms(1) 1(3) by blast
  next
    case 2
    then show ?thesis by (rule move_block_ok [OF assms(1-3) refl])
  qed
qed

text \<open>It succeeds where \<open>alloc\<close> does.\<close>

lemma realloc_succeeds:
  assumes "heap_inv h" "(r, s) \<in> blocks h" "len \<noteq> 0" "alloc v len h = Inr (q, h1)"
  shows "\<exists>r' h'. realloc v r len h = Inr (r', h')"
proof -
  obtain s' where "added q s' h h1" using alloc_ok [OF assms(1), of len v] assms(4) by auto
  then have a: "heap_inv h1" "(q, s') \<in> blocks h1" "(r, s) \<in> blocks h1" using assms(2) by (simp_all add: added_def)
  have "\<exists>h'. move_block v r len n h = Inr (q, h')" for n
  proof -
    have "heap_inv (memcpy_heap q r n h1)" "(r, s) \<in> blocks (memcpy_heap q r n h1)" using a by simp_all
    from free_ok [OF this] show ?thesis using block_start(1) [OF a(1,2)] assms(4) by (auto simp: move_block_def)
  qed
  then show ?thesis using realloc_branches [OF assms(1-3), of v] by metis
qed

section \<open>The interface\<close>

text \<open>What a user of an allocator of bytes relies on.  \<open>extent\<close> is the set of addresses of a block.\<close>

primrec get_each :: "(u32 \<Rightarrow> 's \<Rightarrow> (u64 \<times> 's) res) \<Rightarrow> u32 list \<Rightarrow> 's \<Rightarrow> (u64 list \<times> 's) res" where
  "get_each get [] s = Inr ([], s)"
| "get_each get (n # ns) s = bind_res (get n s) (\<lambda>(r, s). bind_res (get_each get ns s) (\<lambda>(rs, s). Inr (r # rs, s)))"

primrec put_each :: "(u64 \<Rightarrow> 's \<Rightarrow> 's res) \<Rightarrow> u64 list \<Rightarrow> 's \<Rightarrow> 's res" where
  "put_each put [] s = Inr s"
| "put_each put (r # rs) s = bind_res (put r s) (put_each put rs)"

locale memory_allocator =
  fixes inv :: "'s \<Rightarrow> bool" and get :: "u32 \<Rightarrow> 's \<Rightarrow> (u64 \<times> 's) res" and put :: "u64 \<Rightarrow> 's \<Rightarrow> 's res"
    and held :: "'s \<Rightarrow> (u64 \<times> nat) set" and extent :: "u64 \<times> nat \<Rightarrow> nat set"
  assumes get_law: "inv s \<Longrightarrow> get n s = Inr (r, s') \<Longrightarrow> inv s' \<and> (\<exists>k. (r, k) \<notin> held s \<and> held s' = insert (r, k) (held s))"
    and put_law: "inv s \<Longrightarrow> (r, k) \<in> held s \<Longrightarrow> \<exists>s'. put r s = Inr s' \<and> inv s' \<and> held s' = held s - {(r, k)}"
    and apart: "inv s \<Longrightarrow> b \<in> held s \<Longrightarrow> b' \<in> held s \<Longrightarrow> b \<noteq> b' \<Longrightarrow> extent b \<inter> extent b' = {}"
    and starts: "inv s \<Longrightarrow> (r, k) \<in> held s \<Longrightarrow> unat r \<in> extent (r, k)"
begin

lemma starts_differ: "inv s \<Longrightarrow> (r, k) \<in> held s \<Longrightarrow> (r, k') \<in> held s \<Longrightarrow> k = k'"
  using apart [of s "(r, k)" "(r, k')"] starts [of s r k] starts [of s r k'] by auto

lemma same_start: "inv s \<Longrightarrow> (r, k) \<in> held s \<Longrightarrow> (q, m) \<in> held s \<Longrightarrow> (q, m) = (r, k) \<longleftrightarrow> q = r"
  using starts_differ [of s r k m] by blast

text \<open>The start addresses of the blocks are fresh as well.\<close>

lemma get_fresh:
  assumes "inv s" "get n s = Inr (r, s')"
  shows "inv s'" "r \<notin> fst ` held s" "\<exists>k. held s' = insert (r, k) (held s)"
proof -
  obtain k where k: "inv s'" "(r, k) \<notin> held s" "held s' = insert (r, k) (held s)" using get_law [OF assms] by blast
  then show "inv s'" "\<exists>k. held s' = insert (r, k) (held s)" by blast+
  show "r \<notin> fst ` held s"
  proof
    assume "r \<in> fst ` held s"
    then obtain k' where "(r, k') \<in> held s" by auto
    then show False using starts_differ [OF k(1), of r k k'] k(2,3) by auto
  qed
qed

lemma get_each_ok:
  assumes "inv s" "get_each get ns s = Inr (rs, s')"
  shows "inv s' \<and> distinct rs \<and> set rs \<inter> fst ` held s = {} \<and> (\<exists>B. held s' = held s \<union> B \<and> fst ` B = set rs)"
  using assms
proof (induction ns arbitrary: s rs)
  case (Cons n ns)
  obtain r s1 rs1 where r: "get n s = Inr (r, s1)" "get_each get ns s1 = Inr (rs1, s')" "rs = r # rs1"
    using Cons.prems(2) by (auto simp: bind_res_Inr_iff)
  note g = get_fresh [OF Cons.prems(1) r(1)]
  obtain k where k: "held s1 = insert (r, k) (held s)" using g(3) by blast
  obtain B where B: "inv s'" "distinct rs1" "set rs1 \<inter> fst ` held s1 = {}" "held s' = held s1 \<union> B" "fst ` B = set rs1"
    using Cons.IH [OF g(1) r(2)] by blast
  then have "held s' = held s \<union> insert (r, k) B" "fst ` insert (r, k) B = set rs" "distinct rs" "set rs \<inter> fst ` held s = {}"
    using k r(3) g(2) by auto
  then show ?case using B(1) by blast
qed auto

lemma put_each_ok:
  assumes "inv s" "set rs \<subseteq> fst ` held s" "distinct rs"
  shows "\<exists>s'. put_each put rs s = Inr s' \<and> inv s' \<and> held s' = {b \<in> held s. fst b \<notin> set rs}"
  using assms
proof (induction rs arbitrary: s)
  case (Cons r rs)
  obtain k where k: "(r, k) \<in> held s" using Cons.prems(2) by auto
  then obtain s1 where s1: "put r s = Inr s1" "inv s1" "held s1 = held s - {(r, k)}" using put_law [OF Cons.prems(1)] by blast
  have "b \<in> held s1 \<longleftrightarrow> b \<in> held s \<and> fst b \<noteq> r" for b
  proof (cases b)
    case (Pair q m)
    then show ?thesis unfolding s1(3) Pair using same_start [OF Cons.prems(1) k, of q m] by (simp only: Diff_iff singleton_iff fst_conv) blast
  qed
  then have e: "held s1 = {b \<in> held s. fst b \<noteq> r}" by blast
  have "set rs \<subseteq> fst ` held s1"
  proof
    fix q assume q: "q \<in> set rs"
    then have "q \<in> fst ` held s" "q \<noteq> r" using Cons.prems(2,3) by auto
    then show "q \<in> fst ` held s1" unfolding e by force
  qed
  from Cons.IH [OF s1(2) this] Cons.prems(3) obtain s' where
    "put_each put rs s1 = Inr s'" "inv s'" "held s' = {b \<in> held s1. fst b \<notin> set rs}" by auto
  then show ?case using s1(1) e by auto
qed simp

text \<open>Whatever the order in which they are given back, the blocks held are the same again.\<close>

lemma get_put:
  assumes "inv s" "get_each get ns s = Inr (rs, s1)" "set qs = set rs" "distinct qs"
  shows "\<exists>s'. put_each put qs s1 = Inr s' \<and> inv s' \<and> held s' = held s"
proof -
  obtain B where B: "inv s1" "set rs \<inter> fst ` held s = {}" "held s1 = held s \<union> B" "fst ` B = set rs"
    using get_each_ok [OF assms(1,2)] by blast
  have "set qs \<subseteq> fst ` held s1" using B(3,4) assms(3) by auto
  from put_each_ok [OF B(1) this assms(4)] obtain s' where
    "put_each put qs s1 = Inr s'" "inv s'" "held s' = {b \<in> held s1. fst b \<notin> set qs}" by blast
  moreover have "{b \<in> held s1. fst b \<notin> set qs} = held s" using B(2-4) assms(3) by auto
  ultimately show ?thesis by blast
qed

end

lemma block_size_positive: "heap_inv h \<Longrightarrow> (r, s) \<in> blocks h \<Longrightarrow> unat r \<in> bytes_of (r, s)"
proof -
  assume h: "heap_inv h" "(r, s) \<in> blocks h"
  then have "0 < s"
  proof (cases rule: blocks_cases)
    case (Unit j a k)
    then show ?thesis using unit_params(2) [OF Unit(5)] by simp
  qed simp
  then show ?thesis by (simp add: bytes_of_def)
qed

interpretation heap: memory_allocator heap_inv "alloc v" free blocks bytes_of for v
proof
  fix n r and h h' :: heap
  assume "heap_inv h" "alloc v n h = Inr (r, h')"
  then show "heap_inv h' \<and> (\<exists>k. (r, k) \<notin> blocks h \<and> blocks h' = insert (r, k) (blocks h))"
    using alloc_ok [of h n v] by (auto simp: added_def)
next
  fix r k and h :: heap
  assume "heap_inv h" "(r, k) \<in> blocks h"
  then show "\<exists>h'. free r h = Inr h' \<and> heap_inv h' \<and> blocks h' = blocks h - {(r, k)}" using free_ok by blast
qed (rule blocks_disjoint, assumption+, rule block_size_positive)

text \<open>Blocks stay clear of the headers of the pages of units.\<close>

lemma blocks_avoid_headers:
  assumes "heap_inv h" "b \<in> blocks h" "adata h p = Some a"
  shows "bytes_of b \<inter> {unat p..<unat p + ALLOCLIST_HEADERSIZE (ad_class a)} = {}"
proof -
  obtain i where i: "p = page_to_virt i" "(i, 0) \<in> live (pages h)" "i < NUM_OF_PAGES" "ad_ok a" using heap_ok_header [OF assms(1,3)] by metis
  then have n: "ad_class a < NUM_OF_ALLOCLIST" by (simp add: ad_ok_def)
  have u: "unat p = 4096 * (262144 + i)" unfolding i(1) using unat_page_to_virt [OF i(3)] by simp
  obtain j m where j: "(j, m) \<in> live (pages h)" "bytes_of b \<subseteq> region j m" "adata h (page_to_virt j) = None \<longrightarrow> b = (page_to_virt j, 4096 * 2 ^ m)"
    "\<And>a. adata h (page_to_virt j) = Some a \<Longrightarrow> j < NUM_OF_PAGES \<and> ad_class a < NUM_OF_ALLOCLIST \<and>
      (\<exists>k. head_units (ad_class a) \<le> k \<and> k < ALLOCLIST_DATABIT (ad_class a) \<and> b = (unit_addr (page_to_virt j) (ad_class a) k, ALLOCLIST_SIZE (ad_class a)))"
    using block_region [OF assms(1,2)] by blast
  show ?thesis
  proof (cases "(j, m) = (i, 0)")
    case True
    then obtain k where k: "head_units (ad_class a) \<le> k" "k < ALLOCLIST_DATABIT (ad_class a)" "b = (unit_addr p (ad_class a) k, ALLOCLIST_SIZE (ad_class a))"
      using j(4) [of a] assms(3) i(1) by auto
    have "ALLOCLIST_HEADERSIZE (ad_class a) \<le> k * ALLOCLIST_SIZE (ad_class a)"
      using head_params(3) [OF n] mult_le_mono1 [OF k(1), of "ALLOCLIST_SIZE (ad_class a)"] by linarith
    then show ?thesis using unat_unit_addr [OF i(3) n k(2)] unfolding k(3) i(1) by (auto simp: bytes_of_def)
  next
    case False
    have inv: "mm_inv (pages h)" using assms(1) by (simp add: heap_ok_def)
    have "ALLOCLIST_HEADERSIZE (ad_class a) \<le> 4096" using class_cases [OF n] by (auto simp: list_params)
    then have "{unat p..<unat p + ALLOCLIST_HEADERSIZE (ad_class a)} \<subseteq> region i 0" unfolding u by (auto simp: region_def)
    then show ?thesis using region_disjoint [OF live_disjoint [OF inv j(1) i(2) False]] j(2) by blast
  qed
qed

section \<open>Properties\<close>

text \<open>A heap with two free pages.\<close>

definition small_heap :: heap where
  "small_heap = \<lparr>pages = small_pool, alloclist = \<lambda>_. [], adata = \<lambda>_. None, contents = \<lambda>_. 0\<rparr>"

lemma small_heap_ok: "heap_inv small_heap" "blocks small_heap = {}" "has_block 0 (pages small_heap)"
proof -
  show "heap_inv small_heap" using small_pool_inv by (simp add: heap_ok_def small_heap_def)
  have "live small_pool = {}" by (auto simp: live_def in_use_def small_pool_def)
  then show "blocks small_heap = {}" by (simp add: blocks_def page_blocks_def small_heap_def)
  show "has_block 0 (pages small_heap)" by (auto simp: has_block_def small_heap_def small_pool_def NUM_OF_ALLOCSIZE_def intro: exI [of _ 1])
qed

lemma small_request:
  assumes "unat len \<le> 1024" shows "block_size len \<noteq> None" "order_needed len = 0"
proof -
  have "unat len \<le> ALLOCLIST_SIZE 6" "6 < NUM_OF_ALLOCLIST" using assms by (simp_all add: ALLOCLIST_SIZE_def NUM_OF_ALLOCLIST_def)
  then have "find (\<lambda>i. unat len \<le> ALLOCLIST_SIZE i) [0..<NUM_OF_ALLOCLIST] \<noteq> None" by (auto simp: find_None_iff)
  then show "block_size len \<noteq> None" "order_needed len = 0" by (auto simp: block_size_def order_needed_def)
qed

lemma small_heap_alloc: "unat len \<le> 1024 \<Longrightarrow> \<exists>r h. alloc v len small_heap = Inr (r, h)"
proof -
  assume l: "unat len \<le> 1024"
  show ?thesis using alloc_ok [OF small_heap_ok(1), of len v] small_heap_ok(3) small_request [OF l] by (auto split: sum.splits)
qed

lemma small_heap_pages: "alloc 0 16 small_heap = Inr (r, h) \<Longrightarrow> pages h = pool_1"
proof -
  assume "alloc 0 16 small_heap = Inr (r, h)"
  moreover have "find (\<lambda>i. 16 \<le> ALLOCLIST_SIZE i) [0..<NUM_OF_ALLOCLIST] = Some 0"
    by (simp add: NUM_OF_ALLOCLIST_def ALLOCLIST_SIZE_def upt_rec)
  moreover have "pages h1 = pages g" if "alloclist_alloc p n g = Inr (x, h1)" for p n g x h1
    using that by (auto simp: alloclist_alloc_def bind_res_Inr_iff Let_def split: option.splits if_splits)
  ultimately show ?thesis
    by (auto simp: alloc_def alloclist_new_def alloc_page_def alloc_pages_def alloc_order_1 small_heap_def pool_1_alloc bind_res_Inr_iff Let_def split: option.splits)
qed

lemma pool_1_has_block: "has_block 0 pool_1"
  unfolding has_block_def by (intro exI [of _ 0]) (simp add: pool_1_def take_block_def set_type_def small_pool_lists NUM_OF_ALLOCSIZE_def)

text \<open>C27: \<open>alloc\<close> returns memory of at least the size that was asked for (below 2 GiB), which overlaps neither a block in use nor the header of a
  page of units; the invariant holds afterwards, the blocks in use change by this block only, and no contents change.\<close>

theorem alloc_gives_fresh_memory:
  assumes "heap_inv h" "unat len \<le> 0x7FFFEFFF" "alloc v len h = Inr (r, h')"
  shows "heap_inv h' \<and> contents h' = contents h \<and>
    (\<exists>s. unat len \<le> s \<and> blocks h' = insert (r, s) (blocks h) \<and>
      (\<forall>b\<in>blocks h. bytes_of b \<inter> bytes_of (r, s) = {}) \<and>
      (\<forall>p a. adata h' p = Some a \<longrightarrow> bytes_of (r, s) \<inter> {unat p..<unat p + ALLOCLIST_HEADERSIZE (ad_class a)} = {}))"
proof -
  obtain s where s: "block_size len = Some s" "added r s h h'" using alloc_ok [OF assms(1), of len v] assms(3) by auto
  then have a: "heap_inv h'" "(r, s) \<notin> blocks h" "blocks h' = insert (r, s) (blocks h)" "contents h' = contents h"
    by (simp_all add: added_def)
  have "bytes_of b \<inter> bytes_of (r, s) = {}" if "b \<in> blocks h" for b
    using blocks_disjoint [OF a(1), of b "(r, s)"] that a(2,3) by auto
  moreover have "bytes_of (r, s) \<inter> {unat p..<unat p + ALLOCLIST_HEADERSIZE (ad_class x)} = {}" if "adata h' p = Some x" for p x
    using blocks_avoid_headers [OF a(1) _ that] a(3) by simp
  ultimately show ?thesis using a block_size_enough [OF s(1) assms(2)] by blast
qed

theorem alloc_gives_fresh_memory_witness:
  "\<exists>r h s. alloc 0 24 small_heap = Inr (r, h) \<and> heap_inv h \<and> 24 \<le> s \<and> blocks h = {(r, s)}"
proof -
  obtain r h where a: "alloc 0 24 small_heap = Inr (r, h)" using small_heap_alloc [of 24 0] by auto
  from alloc_gives_fresh_memory [OF small_heap_ok(1) _ a] show ?thesis using a small_heap_ok(2) by auto
qed

text \<open>C39: A request of up to 1024 bytes is refused only when there is no free page: the loop over the pages of units ends, and no assertion
  in it fails.\<close>

theorem small_alloc_succeeds:
  assumes "heap_inv h" "unat len \<le> 1024" "free_pages (pages h) \<noteq> {}"
  shows "\<exists>r h'. alloc v len h = Inr (r, h')"
proof -
  note b = small_request [OF assms(2)]
  have inv: "mm_inv (pages h)" using assms(1) by (simp add: heap_ok_def)
  obtain i where i: "i < NUM_OF_PAGES" "ptype (pages h) i = PAGE_TYPE_FREE" using assms(3) by (auto simp: free_pages_def free_heads_def)
  have n: "psize (pages h) i < NUM_OF_ALLOCSIZE" using inv_head(1) [OF inv i(1)] i(2) by simp
  then have "i \<in> set (freepage (pages h) (psize (pages h) i))" using inv_list(1) [OF inv n, of i] i by simp
  then have "has_block 0 (pages h)" using n unfolding has_block_def by (metis empty_iff empty_set zero_le)
  then show ?thesis using alloc_ok [OF assms(1), of len v] b by (auto split: sum.splits)
qed

theorem small_alloc_succeeds_witness: "\<exists>r h. alloc 0 1024 small_heap = Inr (r, h)"
proof -
  have "2 \<in> free_heads small_pool" "2 \<in> block small_pool 2" by (simp_all add: free_heads_def block_def small_pool_def NUM_OF_PAGES_def)
  then have "2 \<in> free_pages small_pool" unfolding free_pages_def by blast
  then have "free_pages (pages small_heap) \<noteq> {}" by (auto simp: small_heap_def)
  then show ?thesis by (intro small_alloc_succeeds [OF small_heap_ok(1)]) simp_all
qed

text \<open>C29: After any sequence of requests, freeing the memory in any order returns the blocks in use to what they were.\<close>

theorem free_undoes_alloc:
  assumes "heap_inv h" "get_each (alloc v) lens h = Inr (rs, h1)" "set qs = set rs" "distinct qs"
  shows "\<exists>h'. put_each free qs h1 = Inr h' \<and> heap_inv h' \<and> blocks h' = blocks h"
  by (rule heap.get_put [OF assms])

theorem free_undoes_alloc_witness:
  "\<exists>r h h'. get_each (alloc 0) [100] small_heap = Inr ([r], h) \<and> put_each free [r] h = Inr h' \<and> blocks h' = {}"
proof -
  obtain r h where "alloc 0 100 small_heap = Inr (r, h)" using small_heap_alloc [of 100 0] by auto
  then have g: "get_each (alloc 0) [100] small_heap = Inr ([r], h)" by simp
  from free_undoes_alloc [OF small_heap_ok(1) g, of "[r]"] show ?thesis using g small_heap_ok(2) by auto
qed

text \<open>C28: \<open>realloc\<close> to a nonzero length below 2 GiB replaces the block by one that is large enough and begins with
  the same bytes, as many as both have room for; no byte of another block changes.\<close>

theorem realloc_keeps_contents:
  assumes "heap_inv h" "(r, s) \<in> blocks h" "unat len \<le> 0x7FFFEFFF" "len \<noteq> 0" "realloc v r len h = Inr (r', h')"
  shows "heap_inv h' \<and> (\<exists>s'. unat len \<le> s' \<and> blocks h' = insert (r', s') (blocks h - {(r, s)})) \<and>
    (\<forall>i<min s (unat len). contents h' (r' + of_nat i) = contents h (r + of_nat i)) \<and>
    (\<forall>b\<in>blocks h - {(r, s)}. \<forall>x. unat x \<in> bytes_of b \<longrightarrow> contents h' x = contents h x)"
  using realloc_ok [OF assms] unfolding moved_def .

theorem realloc_keeps_contents_witness:
  "\<exists>r h s r' h'. alloc 0 16 small_heap = Inr (r, h) \<and> (r, s) \<in> blocks h \<and> realloc 0 r 8 h = Inr (r', h') \<and> heap_inv h'"
proof -
  obtain r h where a: "alloc 0 16 small_heap = Inr (r, h)" using small_heap_alloc [of 16 0] by auto
  have "block_size 16 = Some 16" by (simp add: block_size_def NUM_OF_ALLOCLIST_def ALLOCLIST_SIZE_def upt_rec)
  then have h: "heap_inv h" "(r, 16) \<in> blocks h" using alloc_ok [OF small_heap_ok(1), of 16 0] a by (auto simp: added_def)
  have "pages h = pool_1" using a small_heap_pages by blast
  then obtain q h1 where q: "alloc 0 8 h = Inr (q, h1)"
    using alloc_ok [OF h(1), of 8 0] small_request [of 8] pool_1_has_block by (auto split: sum.splits)
  obtain r' h' where "realloc 0 r 8 h = Inr (r', h')" using realloc_succeeds [OF h _ q] by auto
  with realloc_keeps_contents [OF h, of 8 0] a h(2) show ?thesis by fastforce
qed

text \<open>C40: A second \<open>free\<close> of the same small block is caught: it fails the assertion of \<open>alloclist_free\<close>.\<close>

theorem double_free_is_caught:
  assumes "heap_inv h" "(r, s) \<in> blocks h" "s \<le> 1024" "free r h = Inr h'"
  shows "free r h' = Inl (AssertFail ''p->data[i] & (1 << j)'')"
  by (rule double_free [OF assms])

theorem double_free_is_caught_witness:
  "\<exists>r h h'. alloc 0 1024 small_heap = Inr (r, h) \<and> free r h = Inr h' \<and> free r h' = Inl (AssertFail ''p->data[i] & (1 << j)'')"
proof -
  obtain r h where a: "alloc 0 1024 small_heap = Inr (r, h)" using small_heap_alloc [of 1024 0] by auto
  have "block_size 1024 = Some 1024" by (simp add: block_size_def NUM_OF_ALLOCLIST_def ALLOCLIST_SIZE_def upt_rec)
  then have h: "heap_inv h" "(r, 1024) \<in> blocks h" using alloc_ok [OF small_heap_ok(1), of 1024 0] a by (auto simp: added_def)
  then obtain h' where f: "free r h = Inr h'" using free_ok by blast
  from double_free_is_caught [OF h _ f] show ?thesis using a f by auto
qed

text \<open>The number of pages is computed in 32 bits: a request of 4 GiB less 100 bytes, and one of 2 GiB, get one page.\<close>

lemma huge_requests_get_one_page: "block_size 0xFFFFFF9C = Some 4096" "block_size 0x80000000 = Some 4096"
  by (simp_all add: block_size_def NUM_OF_ALLOCLIST_def ALLOCLIST_SIZE_def upt_rec alloc_order_def NUM_OF_ALLOCSIZE_def word_sle_eq)

end
