(* ===== verification/Mempool.thy ===== *)
theory Mempool
  imports Heap_Contract
begin

text \<open>
  Fifth part of \<^verbatim>\<open>bitvisor/core/mm.c\<close>: memory pools over \<open>alloc\<close> and \<open>alloc_pages\<close>.  The structures of a pool are
  kept as values with their addresses; the integers are those of the source, 32 bits wide.
\<close>

section \<open>State\<close>

text \<open>A part of a block: the address of its structure, offset and length.\<close>

record mempool_list =
  ml_addr :: u64
  ml_off :: u32
  ml_len :: u32

record mempool_block_list =
  mb_addr :: u64
  mb_alloc :: "mempool_list list"
  mb_free :: "mempool_list list"
  mb_p :: u64
  mb_len :: u32

record mempool =
  mp_addr :: u64
  mp_block :: "mempool_block_list list"
  mp_numpages :: u32
  mp_numkeeps :: u32
  mp_clear :: bool
  mp_keep :: u32

text \<open>\<open>sizeof\<close> of the three structures.\<close>

definition sizeof_list :: u32 where "sizeof_list = 24"
definition sizeof_block_list :: u32 where "sizeof_block_list = 64"
definition sizeof_mempool :: u32 where "sizeof_mempool = 40"

section \<open>Operations\<close>

text \<open>
  The loop that doubles the number of pages.  It does not end where the product wraps before it reaches
  the length: 33 turns stand for that.
\<close>

primrec double_pages :: "nat \<Rightarrow> u32 \<Rightarrow> u32 \<Rightarrow> u32 res" where
  "double_pages 0 len npages = Inl OutOfFuel"
| "double_pages (Suc fuel) len npages = (if 4096 * npages < len then double_pages fuel len (push_bit 1 npages) else Inr npages)"

text \<open>\<open>keep\<close> is not initialised: it has the value that the memory holds, at offset 28 of the structure.\<close>

definition mempool_new :: "u32 \<Rightarrow> u32 \<Rightarrow> u32 \<Rightarrow> bool \<Rightarrow> heap \<Rightarrow> (mempool \<times> heap) res" where
  "mempool_new vmm_start_phys blocksize numkeeps clear h =
     bind_res (alloc vmm_start_phys sizeof_mempool h) (\<lambda>(p, h).
     bind_res (if sint blocksize \<le> 4096 then Inr 1 else double_pages 33 blocksize 1) (\<lambda>numpages.
     Inr (\<lparr>mp_addr = p, mp_block = [], mp_numpages = numpages, mp_numkeeps = numkeeps, mp_clear = clear,
       mp_keep = ucast (contents h (p + 28)) OR push_bit 8 (ucast (contents h (p + 29)))
         OR push_bit 16 (ucast (contents h (p + 30))) OR push_bit 24 (ucast (contents h (p + 31)))\<rparr>, h)))"

primrec free_all :: "mempool_list list \<Rightarrow> heap \<Rightarrow> heap res" where
  "free_all [] h = Inr h"
| "free_all (q # qs) h = bind_res (free (ml_addr q) h) (free_all qs)"

definition free_page_heap :: "u64 \<Rightarrow> heap \<Rightarrow> heap res" where
  "free_page_heap virt h = bind_res (free_page virt (pages h)) (\<lambda>s. Inr (h\<lparr>pages := s\<rparr>))"

primrec free_blocks :: "mempool_block_list list \<Rightarrow> heap \<Rightarrow> heap res" where
  "free_blocks [] h = Inr h"
| "free_blocks (p # ps) h =
     bind_res (free_all (mb_alloc p) h) (\<lambda>h.
     bind_res (free_all (mb_free p) h) (\<lambda>h.
     bind_res (free_page_heap (mb_p p) h) (\<lambda>h.
     bind_res (free (mb_addr p) h) (free_blocks ps))))"

definition mempool_free :: "mempool \<Rightarrow> heap \<Rightarrow> heap res" where
  "mempool_free mp h = bind_res (free_blocks (mp_block mp) h) (free (mp_addr mp))"

text \<open>The first part of a block, and the first block, with a free part of \<open>len\<close> bytes: their positions.\<close>

definition fits_part :: "u32 \<Rightarrow> mempool_block_list \<Rightarrow> nat option" where
  "fits_part len p = find (\<lambda>j. ml_len (mb_free p ! j) \<ge> len) [0..<length (mb_free p)]"

definition find_part :: "u32 \<Rightarrow> mempool_block_list list \<Rightarrow> (nat \<times> nat) option" where
  "find_part len ps =
     (case find (\<lambda>i. fits_part len (ps ! i) \<noteq> None) [0..<length ps] of
        None \<Rightarrow> None
      | Some i \<Rightarrow> map_option (Pair i) (fits_part len (ps ! i)))"

definition new_block :: "u32 \<Rightarrow> mempool \<Rightarrow> u32 \<Rightarrow> heap \<Rightarrow> (mempool \<times> heap) res" where
  "new_block vmm_start_phys mp len h =
     bind_res (double_pages 33 len (mp_numpages mp)) (\<lambda>npages.
     bind_res (alloc vmm_start_phys sizeof_block_list h) (\<lambda>(p, h).
     bind_res (alloc_pages vmm_start_phys npages (pages h)) (\<lambda>((tmp, _), s).
     let h = h\<lparr>pages := s\<rparr>; plen = 4096 * npages;
         h = (if mp_clear mp then h\<lparr>contents := (\<lambda>a. if a - tmp < scast plen then 0 else contents h a)\<rparr> else h) in
     bind_res (alloc vmm_start_phys sizeof_list h) (\<lambda>(q, h).
     let part = \<lparr>ml_addr = q, ml_off = 0, ml_len = plen\<rparr>;
         b = \<lparr>mb_addr = p, mb_alloc = [], mb_free = [part], mb_p = tmp, mb_len = plen\<rparr>
     in Inr (mp\<lparr>mp_block := mp_block mp @ [b], mp_keep := mp_keep mp + 1\<rparr>, h)))))"

text \<open>From \<open>found\<close> on, with the block at position \<open>i\<close> and its free part at position \<open>j\<close>.\<close>

definition take_part :: "u32 \<Rightarrow> nat \<Rightarrow> nat \<Rightarrow> mempool \<Rightarrow> u32 \<Rightarrow> heap \<Rightarrow> (u64 \<times> mempool \<times> heap) res" where
  "take_part vmm_start_phys i j mp len h =
     (let p = mp_block mp ! i; q = mb_free p ! j;
          mp = (if ml_len q = mb_len p then mp\<lparr>mp_keep := mp_keep mp - 1\<rparr> else mp)
      in if ml_len q = len then
           let p = p\<lparr>mb_free := take j (mb_free p) @ drop (j + 1) (mb_free p), mb_alloc := mb_alloc p @ [q]\<rparr>
           in Inr (mb_p p + scast (ml_off q), mp\<lparr>mp_block := (mp_block mp)[i := p]\<rparr>, h)
         else
           bind_res (alloc vmm_start_phys sizeof_list h) (\<lambda>(a, h).
           let qq = \<lparr>ml_addr = a, ml_off = ml_off q, ml_len = len\<rparr>;
               p = p\<lparr>mb_free := (mb_free p)[j := q\<lparr>ml_off := ml_off q + len\<rparr>], mb_alloc := mb_alloc p @ [qq]\<rparr>
           in Inr (mb_p p + scast (ml_off qq), mp\<lparr>mp_block := (mp_block mp)[i := p]\<rparr>, h)))"

definition mempool_allocmem :: "u32 \<Rightarrow> mempool \<Rightarrow> u32 \<Rightarrow> heap \<Rightarrow> (u64 \<times> mempool \<times> heap) res" where
  "mempool_allocmem vmm_start_phys mp len h =
     (if len = 0 then Inr (0, mp, h)
      else
        case find_part len (mp_block mp) of
          Some (i, j) \<Rightarrow> take_part vmm_start_phys i j mp len h
        | None \<Rightarrow>
            bind_res (new_block vmm_start_phys mp len h) (\<lambda>(mp, h).
            take_part vmm_start_phys (length (mp_block mp) - 1) 0 mp len h))"

text \<open>
  The first two loops of \<open>mempool_freemem\<close> after \<open>found\<close>: the part \<open>q\<close> is joined with a free part that ends where it begins, and then
  with one that begins where it ends.  The position of \<open>q\<close> in the list of free parts is \<open>k\<close>.
\<close>

definition join_before :: "mempool_list \<Rightarrow> mempool_list list \<Rightarrow> heap \<Rightarrow> (mempool_list \<times> mempool_list list \<times> heap) res" where
  "join_before q fs h =
     (case find (\<lambda>j. ml_off (fs ! j) + ml_len (fs ! j) = ml_off q) [0..<length fs] of
        None \<Rightarrow> Inr (q, fs, h)
      | Some j \<Rightarrow>
          let qq = fs ! j; qq' = qq\<lparr>ml_len := ml_len qq + ml_len q\<rparr>
          in bind_res (free (ml_addr q) h) (\<lambda>h. Inr (qq', remove1 q (fs[j := qq']), h)))"

definition join_after :: "mempool_list \<Rightarrow> mempool_list list \<Rightarrow> heap \<Rightarrow> (mempool_list list \<times> heap) res" where
  "join_after q fs h =
     (case find (\<lambda>j. ml_off q + ml_len q = ml_off (fs ! j)) [0..<length fs] of
        None \<Rightarrow> Inr (fs, h)
      | Some j \<Rightarrow>
          let qq = fs ! j; q' = q\<lparr>ml_len := ml_len q + ml_len qq\<rparr>
          in bind_res (free (ml_addr qq) h) (\<lambda>h. Inr (remove1 qq (map (\<lambda>x. if x = q then q' else x) fs), h)))"

text \<open>The third loop looks at the first free part only.\<close>

definition drop_block :: "nat \<Rightarrow> mempool \<Rightarrow> heap \<Rightarrow> (mempool \<times> heap) res" where
  "drop_block i mp h =
     (let p = mp_block mp ! i in
      case mb_free p of
        [] \<Rightarrow> Inr (mp, h)
      | q # fs \<Rightarrow>
          if ml_len q \<noteq> mb_len p then Inr (mp, h)
          else if mp_keep mp <s mp_numkeeps mp then Inr (mp\<lparr>mp_keep := mp_keep mp + 1\<rparr>, h)
          else
            let mp = mp\<lparr>mp_block := take i (mp_block mp) @ drop (i + 1) (mp_block mp)\<rparr> in
            bind_res (assert_res (mb_alloc p = []) ''LIST1_POP (p->alloc) == NULL'') (\<lambda>_.
            bind_res (assert_res (fs = []) ''LIST1_POP (p->free) == NULL'') (\<lambda>_.
            bind_res (free (ml_addr q) h) (\<lambda>h.
            bind_res (free_page_heap (mb_p p) h) (\<lambda>h.
            bind_res (free (mb_addr p) h) (\<lambda>h. Inr (mp, h)))))))"

definition mempool_freemem :: "mempool \<Rightarrow> u64 \<Rightarrow> heap \<Rightarrow> (mempool \<times> heap) res" where
  "mempool_freemem mp virt h =
     (case find (\<lambda>i. let p = mp_block mp ! i in mb_p p \<le> virt \<and> virt < mb_p p + scast (mb_len p)) [0..<length (mp_block mp)] of
        None \<Rightarrow> Inl (Panic ''mempool_freemem: double free'')
      | Some i \<Rightarrow>
          let p = mp_block mp ! i in
          (case find (\<lambda>q. mb_p p + scast (ml_off q) = virt) (mb_alloc p) of
             None \<Rightarrow> Inl (Panic ''mempool_freemem: double free'')
           | Some q \<Rightarrow>
               bind_res (join_before q (mb_free p @ [q]) h) (\<lambda>(q', fs, h).
               bind_res (join_after q' fs h) (\<lambda>(fs, h).
               let p = p\<lparr>mb_alloc := remove1 q (mb_alloc p), mb_free := fs\<rparr>
               in drop_block i (mp\<lparr>mp_block := (mp_block mp)[i := p]\<rparr>) h))))"

section \<open>Requests end to end\<close>

text \<open>Several requests in a row, and the addresses they get.\<close>

primrec requests :: "u32 \<Rightarrow> u32 list \<Rightarrow> mempool \<Rightarrow> heap \<Rightarrow> (u64 list \<times> mempool \<times> heap) res" where
  "requests v [] mp h = Inr ([], mp, h)"
| "requests v (n # ns) mp h =
     bind_res (mempool_allocmem v mp n h) (\<lambda>(r, mp, h).
     bind_res (requests v ns mp h) (\<lambda>(rs, mp, h). Inr (r # rs, mp, h)))"

text \<open>A pool with one block, which has one free part.\<close>

definition one_part :: "u64 \<Rightarrow> u32 \<Rightarrow> u32 \<Rightarrow> mempool \<Rightarrow> bool" where
  "one_part p off len mp \<longleftrightarrow> (\<exists>b q. mp_block mp = [b] \<and> mb_free b = [q] \<and> mb_p b = p \<and> ml_off q = off \<and> ml_len q = len)"

lemma request_served:
  assumes "one_part p off len mp" "0 < n" "n < len" "mempool_allocmem v mp n h = Inr (r, mp', h')"
  shows "r = p + scast off" "one_part p (off + n) len mp'"
proof -
  obtain b q where b: "mp_block mp = [b]" "mb_free b = [q]" "mb_p b = p" "ml_off q = off" "ml_len q = len"
    using assms(1) by (auto simp: one_part_def)
  have f: "find_part n [b] = Some (0, 0)" using b assms(3) by (simp add: find_part_def fits_part_def)
  have n: "n \<noteq> 0" "len \<noteq> n" using assms(2,3) by auto
  have "r = p + scast off \<and> one_part p (off + n) len mp'"
    using assms(4) b f n unfolding mempool_allocmem_def take_part_def one_part_def by (auto simp: bind_res_Inr_iff Let_def)
  then show "r = p + scast off" "one_part p (off + n) len mp'" by blast+
qed

text \<open>
  Requests that are smaller than the free part are placed end to end.  The length of the part stays what it
  was, so that the code never notices that it is used up: the addresses leave the block.
\<close>

lemma requests_end_to_end:
  assumes "one_part p off len mp" "\<forall>n\<in>set ns. 0 < n \<and> n < len" "requests v ns mp h = Inr (rs, mp', h')"
  shows "rs = map (\<lambda>k. p + scast (off + sum_list (take k ns))) [0..<length ns] \<and> one_part p (off + sum_list ns) len mp'"
  using assms
proof (induction ns arbitrary: off mp h rs)
  case (Cons n ns)
  obtain r mp1 h1 rs1 where r: "mempool_allocmem v mp n h = Inr (r, mp1, h1)" "requests v ns mp1 h1 = Inr (rs1, mp', h')" "rs = r # rs1"
    using Cons.prems(3) by (auto simp: bind_res_Inr_iff)
  note s = request_served [OF Cons.prems(1) _ _ r(1)]
  have "0 < n" "n < len" using Cons.prems(2) by simp_all
  note s = s [OF this]
  have "rs1 = map (\<lambda>k. p + scast (off + n + sum_list (take k ns))) [0..<length ns] \<and> one_part p (off + n + sum_list ns) len mp'"
    using Cons.IH [OF s(2) _ r(2)] Cons.prems(2) by simp
  moreover have "map f [0..<length (n # ns)] = f 0 # map (f \<circ> Suc) [0..<length ns]" for f :: "nat \<Rightarrow> u64"
    by (simp add: upt_rec [of 0] map_Suc_upt [symmetric] del: upt_Suc map_Suc_upt)
  ultimately show ?case using r(3) s(1) by (simp add: o_def add.assoc del: upt_Suc)
qed simp

text \<open>The fifth request of 1024 bytes from a block of one page begins behind the block.\<close>

lemma fifth_request_leaves_the_block:
  assumes "one_part p 0 4096 mp" "requests v [1024, 1024, 1024, 1024, 1024] mp h = Inr (rs, mp', h')"
  shows "rs ! 4 = p + 4096"
  using requests_end_to_end [OF assms(1) _ assms(2)] by (simp add: upt_rec)

end
