(* ===== verification/Guest_Cpu.thy ===== *)
theory Guest_Cpu
  imports Cpu_Mmu
begin

text \<open>
  The guest processor as the emulation of instructions sees it, and the access to its segments and its
  stack: \<^verbatim>\<open>bitvisor/core/cpu_seg.c\<close>, \<^verbatim>\<open>bitvisor/core/cpu_stack.c\<close> and \<^verbatim>\<open>bitvisor/core/cpu_emul.c\<close>.

  The registers that the functions of \<open>vmctl\<close> read and write are fields of the state.  The functions with
  further effects are function pointers of the source, collected in \<open>env\<close>.
\<close>

section \<open>State\<close>

definition GENERAL_REG_RAX :: nat where "GENERAL_REG_RAX = 0"
definition GENERAL_REG_RCX :: nat where "GENERAL_REG_RCX = 1"
definition GENERAL_REG_RDX :: nat where "GENERAL_REG_RDX = 2"
definition GENERAL_REG_RBX :: nat where "GENERAL_REG_RBX = 3"
definition GENERAL_REG_RSP :: nat where "GENERAL_REG_RSP = 4"
definition GENERAL_REG_RSI :: nat where "GENERAL_REG_RSI = 6"
definition GENERAL_REG_RDI :: nat where "GENERAL_REG_RDI = 7"

lemmas general_reg_defs = GENERAL_REG_RAX_def GENERAL_REG_RCX_def GENERAL_REG_RDX_def GENERAL_REG_RBX_def
  GENERAL_REG_RSP_def GENERAL_REG_RSI_def GENERAL_REG_RDI_def

text \<open>Segment registers are numbers: 0 to 5 for ES, CS, SS, DS, FS, GS, and \<open>SREG_DEFAULT\<close>.\<close>

type_synonym sreg = nat

definition SREG_ES :: sreg where "SREG_ES = 0"
definition SREG_CS :: sreg where "SREG_CS = 1"
definition SREG_SS :: sreg where "SREG_SS = 2"
definition SREG_DS :: sreg where "SREG_DS = 3"
definition SREG_FS :: sreg where "SREG_FS = 4"
definition SREG_GS :: sreg where "SREG_GS = 5"
definition SREG_DEFAULT :: sreg where "SREG_DEFAULT = 7"

lemmas sreg_defs = SREG_ES_def SREG_CS_def SREG_SS_def SREG_DS_def SREG_FS_def SREG_GS_def SREG_DEFAULT_def

record regs =
  general :: "nat \<Rightarrow> u64"
  ip :: u64
  flags :: u64
  seg_sel :: "sreg \<Rightarrow> u16"
  seg_acr :: "sreg \<Rightarrow> u64"
  seg_base :: "sreg \<Rightarrow> u64"
  gdtr :: "u64 \<times> u64"
  idtr :: "u64 \<times> u64"
  cr2 :: u64
  ctl :: guest_regs

record 'd guest = regs +
  halt :: bool
  updateip :: bool
  mem_state :: "'d mmio_data"

datatype iotype = IOTYPE_INB | IOTYPE_INW | IOTYPE_INL | IOTYPE_OUTB | IOTYPE_OUTW | IOTYPE_OUTL

datatype ioact = IOACT_CONT | IOACT_RERUN

section \<open>Steps that may return an error\<close>

text \<open>
  A function of type \<open>enum vmmerr\<close> with its result: an error other than \<open>VMMERR_SUCCESS\<close> is \<open>Inl\<close>.  \<open>bind_exec\<close> is
  \<open>RIE\<close>, the return of the caller when the callee returns an error.
\<close>

type_synonym ('a, 'd) exec = "'d guest \<Rightarrow> ((vmmerr + 'a) \<times> 'd guest) res"

definition ret :: "'a \<Rightarrow> ('a, 'd) exec" where "ret x g = Inr (Inr x, g)"
definition err :: "vmmerr \<Rightarrow> ('a, 'd) exec" where "err e g = Inr (Inl e, g)"
definition stop :: "string \<Rightarrow> ('a, 'd) exec" where "stop s g = Inl (Panic s)"
definition get :: "('d guest \<Rightarrow> 'a) \<Rightarrow> ('a, 'd) exec" where "get f g = Inr (Inr (f g), g)"
definition modify :: "('d guest \<Rightarrow> 'd guest) \<Rightarrow> (unit, 'd) exec" where "modify f g = Inr (Inr (), f g)"

definition bind_exec :: "('a, 'd) exec \<Rightarrow> ('a \<Rightarrow> ('b, 'd) exec) \<Rightarrow> ('b, 'd) exec" where
  "bind_exec m f g = bind_res (m g) (\<lambda>(r, g). case r of Inl e \<Rightarrow> Inr (Inl e, g) | Inr x \<Rightarrow> f x g)"

abbreviation seq_exec :: "(unit, 'd) exec \<Rightarrow> ('b, 'd) exec \<Rightarrow> ('b, 'd) exec" where
  "seq_exec m k \<equiv> bind_exec m (\<lambda>_. k)"

lemma exec_simps [simp]:
  "ret x g = Inr r1 \<longleftrightarrow> r1 = (Inr x, g)"
  "err e g = Inr r2 \<longleftrightarrow> r2 = (Inl e, g)"
  "stop s g \<noteq> Inr r3"
  "get f g = Inr r4 \<longleftrightarrow> r4 = (Inr (f g), g)"
  "modify h g = Inr r5 \<longleftrightarrow> r5 = (Inr (), h g)"
  by (auto simp: ret_def err_def stop_def get_def modify_def)

lemma bind_exec_Inr:
  "bind_exec m f g = Inr (Inr x, g') \<longleftrightarrow> (\<exists>a g1. m g = Inr (Inr a, g1) \<and> f a g1 = Inr (Inr x, g'))"
  by (cases "m g") (auto simp: bind_exec_def split: sum.split prod.split)

lemma bind_exec_Inl:
  "bind_exec m f g = Inr (Inl e, g') \<longleftrightarrow>
     m g = Inr (Inl e, g') \<or> (\<exists>a g1. m g = Inr (Inr a, g1) \<and> f a g1 = Inr (Inl e, g'))"
  by (cases "m g") (auto simp: bind_exec_def split: sum.split prod.split)

section \<open>Effects behind function pointers\<close>

text \<open>
  \<open>handler\<close> are the MMIO handlers; \<open>vmctl_*\<close> the functions of \<open>current->vmctl\<close> that do more than access a field;
  \<open>int_enabled\<close> is \<open>current->exint.int_enabled\<close>, \<open>iofunc\<close> the table \<open>current->vcpu0->io.iofunc\<close>, whose functions get a
  pointer to the data; \<open>uninit\<close> is what an uninitialised local variable holds; \<open>alu\<close> is an arithmetic instruction of the host processor on operands of 1, 2, 4 or 8
  bytes: it maps the flags, the source and the destination to new flags and a new destination.
\<close>

record 'd env =
  handler :: "'d mmio_handler"
  vmctl_write_control_reg :: "nat \<Rightarrow> u64 \<Rightarrow> 'd guest \<Rightarrow> 'd guest res"
  vmctl_writing_sreg :: "sreg \<Rightarrow> 'd guest \<Rightarrow> (vmmerr \<times> 'd guest) res"
  vmctl_read_msr :: "u32 \<Rightarrow> 'd guest \<Rightarrow> ((bool \<times> u64) \<times> 'd guest) res"
  vmctl_write_msr :: "u32 \<Rightarrow> u64 \<Rightarrow> 'd guest \<Rightarrow> (bool \<times> 'd guest) res"
  vmctl_invlpg :: "u64 \<Rightarrow> 'd guest \<Rightarrow> 'd guest res"
  vmctl_cpuid :: "u32 \<Rightarrow> u32 \<Rightarrow> 'd guest \<Rightarrow> ((u32 \<times> u32 \<times> u32 \<times> u32) \<times> 'd guest) res"
  vmctl_xsetbv :: "u32 \<Rightarrow> u32 \<Rightarrow> u32 \<Rightarrow> 'd guest \<Rightarrow> (bool \<times> 'd guest) res"
  int_enabled :: "'d guest \<Rightarrow> 'd guest res"
  iofunc :: "u32 \<Rightarrow> iotype \<Rightarrow> u32 \<Rightarrow> u64 \<Rightarrow> 'd guest \<Rightarrow> ((ioact \<times> u64) \<times> 'd guest) res"
  wbinvd :: "'d guest \<Rightarrow> 'd guest"
  uninit :: "string \<Rightarrow> u64"
  alu :: "string \<Rightarrow> nat \<Rightarrow> u64 \<Rightarrow> u64 \<Rightarrow> u64 \<Rightarrow> u64 \<times> u64"

text \<open>An effect whose value is used, and one without a value, as steps.\<close>

definition effect :: "('d guest \<Rightarrow> ('a \<times> 'd guest) res) \<Rightarrow> ('a, 'd) exec" where
  "effect f g = bind_res (f g) (\<lambda>(x, g). Inr (Inr x, g))"

definition effect_unit :: "('d guest \<Rightarrow> 'd guest res) \<Rightarrow> (unit, 'd) exec" where
  "effect_unit f g = bind_res (f g) (\<lambda>g. Inr (Inr (), g))"

section \<open>Registers\<close>

definition read_general_reg :: "nat \<Rightarrow> (u64, 'd) exec" where "read_general_reg r = get (\<lambda>g. general g r)"

definition write_general_reg :: "nat \<Rightarrow> u64 \<Rightarrow> (unit, 'd) exec" where
  "write_general_reg r v = modify (\<lambda>g. g\<lparr>general := (general g)(r := v)\<rparr>)"

definition read_ip :: "(u64, 'd) exec" where "read_ip = get ip"
definition write_ip :: "u64 \<Rightarrow> (unit, 'd) exec" where "write_ip v = modify (\<lambda>g. g\<lparr>ip := v, updateip := True\<rparr>)"
definition read_flags :: "(u64, 'd) exec" where "read_flags = get flags"
definition write_flags :: "u64 \<Rightarrow> (unit, 'd) exec" where "write_flags v = modify (\<lambda>g. g\<lparr>flags := v\<rparr>)"

definition read_control_reg :: "nat \<Rightarrow> (u64, 'd) exec" where
  "read_control_reg n =
     (if n = 0 then get (\<lambda>g. r_cr0 (ctl g)) else if n = 2 then get cr2 else if n = 3 then get (\<lambda>g. r_cr3 (ctl g))
      else if n = 4 then get (\<lambda>g. r_cr4 (ctl g)) else stop ''Fatal error: unknown control register.'')"

definition read_sreg_sel :: "sreg \<Rightarrow> (u16, 'd) exec" where
  "read_sreg_sel s = (if s \<le> SREG_GS then get (\<lambda>g. seg_sel g s) else stop ''Fatal error: unknown sreg.'')"

definition read_sreg_acr :: "sreg \<Rightarrow> (u64, 'd) exec" where
  "read_sreg_acr s = (if s \<le> SREG_GS then get (\<lambda>g. seg_acr g s) else stop ''Fatal error: unknown sreg.'')"

definition read_sreg_base :: "sreg \<Rightarrow> (u64, 'd) exec" where
  "read_sreg_base s = (if s \<le> SREG_GS then get (\<lambda>g. seg_base g s) else stop ''Fatal error: unknown sreg.'')"

definition write_realmode_seg :: "sreg \<Rightarrow> u16 \<Rightarrow> (unit, 'd) exec" where
  "write_realmode_seg s v =
     (if s \<le> SREG_GS then
        modify (\<lambda>g. g\<lparr>seg_sel := (seg_sel g)(s := v), seg_base := (seg_base g)(s := push_bit 4 (ucast v))\<rparr>)
      else stop ''Fatal error: unknown sreg.'')"

text \<open>The low \<open>n\<close> bytes of a variable, stored through a pointer of that width.\<close>

definition low :: "nat \<Rightarrow> u64 \<Rightarrow> u64" where "low n v = v AND mask (8 * n)"

definition put_low :: "nat \<Rightarrow> u64 \<Rightarrow> u64 \<Rightarrow> u64" where
  "put_low n old v = (old AND NOT (mask (8 * n))) OR low n v"

lemma low_put_low [simp]: "low n (put_low n old v) = low n v"
  unfolding low_def put_low_def by (rule bit_word_eqI) (auto simp: bit_simps)

section \<open>Linear addresses\<close>

text \<open>
  \<open>read_linearaddr_b\<close>, \<open>_w\<close>, \<open>_l\<close> and \<open>_q\<close> by their width in bytes, on a variable that holds \<open>old\<close>.
\<close>

definition read_linearaddr :: "nat \<Rightarrow> 'd mmio_handler \<Rightarrow> guest_regs \<Rightarrow> u64 \<Rightarrow> u8 list \<Rightarrow> 'd mmio_data \<Rightarrow> (vmmerr \<times> u8 list \<times> 'd mmio_data) res" where
  "read_linearaddr n =
     (if n = 1 then read_linearaddr_b else if n = 2 then read_linearaddr_w else if n = 4 then read_linearaddr_l else read_linearaddr_q)"

definition write_linearaddr :: "nat \<Rightarrow> 'd mmio_handler \<Rightarrow> guest_regs \<Rightarrow> u64 \<Rightarrow> u64 \<Rightarrow> 'd mmio_data \<Rightarrow> (vmmerr \<times> 'd mmio_data) res" where
  "write_linearaddr n H r a v =
     (if n = 1 then write_linearaddr_b H r a (ucast v) else if n = 2 then write_linearaddr_w H r a (ucast v)
      else if n = 4 then write_linearaddr_l H r a (ucast v) else write_linearaddr_q H r a v)"

definition linear_read :: "'d env \<Rightarrow> nat \<Rightarrow> u64 \<Rightarrow> u64 \<Rightarrow> (u64, 'd) exec" where
  "linear_read E n a old g =
     bind_res (read_linearaddr n (handler E) (ctl g) a (le_bytes n old) (mem_state g)) (\<lambda>(r, bs, w).
     Inr (if r \<noteq> VMMERR_SUCCESS then Inl r else Inr (put_low n old (of_bytes bs)), g\<lparr>mem_state := w\<rparr>))"

definition linear_write :: "'d env \<Rightarrow> nat \<Rightarrow> u64 \<Rightarrow> u64 \<Rightarrow> (unit, 'd) exec" where
  "linear_write E n a v g =
     bind_res (write_linearaddr n (handler E) (ctl g) a v (mem_state g)) (\<lambda>(r, w).
     Inr (if r \<noteq> VMMERR_SUCCESS then Inl r else Inr (), g\<lparr>mem_state := w\<rparr>))"

section \<open>Segments\<close>

definition ACCESS_RIGHTS_UNUSABLE_BIT :: u64 where "ACCESS_RIGHTS_UNUSABLE_BIT = 0x10000"
definition ACCESS_RIGHTS_P_BIT :: u64 where "ACCESS_RIGHTS_P_BIT = 0x80"
definition ACCESS_RIGHTS_L_BIT :: u64 where "ACCESS_RIGHTS_L_BIT = 0x2000"
definition ACCESS_RIGHTS_D_B_BIT :: u64 where "ACCESS_RIGHTS_D_B_BIT = 0x4000"

text \<open>The test of the access rights, with which every access to a segment begins.\<close>

definition check_seg :: "u64 \<Rightarrow> (unit, 'd) exec" where
  "check_seg acr =
     (if any_bit acr ACCESS_RIGHTS_UNUSABLE_BIT then err VMMERR_INVALID_GUESTSEG
      else if \<not> any_bit acr ACCESS_RIGHTS_P_BIT then err VMMERR_GUESTSEG_NOT_PRESENT
      else ret ())"

definition seg_linear :: "sreg \<Rightarrow> u64 \<Rightarrow> (u64, 'd) exec" where
  "seg_linear s offset =
     bind_exec (read_sreg_acr s) (\<lambda>acr.
     bind_exec (read_sreg_base s) (\<lambda>base.
     seq_exec (check_seg acr) (ret (base + offset))))"

definition cpu_seg_read_b :: "'d env \<Rightarrow> sreg \<Rightarrow> u64 \<Rightarrow> u64 \<Rightarrow> (u64, 'd) exec" where
  "cpu_seg_read_b E s offset old = bind_exec (seg_linear s offset) (\<lambda>linear. linear_read E 1 linear old)"
definition cpu_seg_read_w :: "'d env \<Rightarrow> sreg \<Rightarrow> u64 \<Rightarrow> u64 \<Rightarrow> (u64, 'd) exec" where
  "cpu_seg_read_w E s offset old = bind_exec (seg_linear s offset) (\<lambda>linear. linear_read E 2 linear old)"
definition cpu_seg_read_l :: "'d env \<Rightarrow> sreg \<Rightarrow> u64 \<Rightarrow> u64 \<Rightarrow> (u64, 'd) exec" where
  "cpu_seg_read_l E s offset old = bind_exec (seg_linear s offset) (\<lambda>linear. linear_read E 4 linear old)"
definition cpu_seg_read_q :: "'d env \<Rightarrow> sreg \<Rightarrow> u64 \<Rightarrow> u64 \<Rightarrow> (u64, 'd) exec" where
  "cpu_seg_read_q E s offset old = bind_exec (seg_linear s offset) (\<lambda>linear. linear_read E 8 linear old)"

definition cpu_seg_write_b :: "'d env \<Rightarrow> sreg \<Rightarrow> u64 \<Rightarrow> u64 \<Rightarrow> (unit, 'd) exec" where
  "cpu_seg_write_b E s offset data = bind_exec (seg_linear s offset) (\<lambda>linear. linear_write E 1 linear data)"
definition cpu_seg_write_w :: "'d env \<Rightarrow> sreg \<Rightarrow> u64 \<Rightarrow> u64 \<Rightarrow> (unit, 'd) exec" where
  "cpu_seg_write_w E s offset data = bind_exec (seg_linear s offset) (\<lambda>linear. linear_write E 2 linear data)"
definition cpu_seg_write_l :: "'d env \<Rightarrow> sreg \<Rightarrow> u64 \<Rightarrow> u64 \<Rightarrow> (unit, 'd) exec" where
  "cpu_seg_write_l E s offset data = bind_exec (seg_linear s offset) (\<lambda>linear. linear_write E 4 linear data)"
definition cpu_seg_write_q :: "'d env \<Rightarrow> sreg \<Rightarrow> u64 \<Rightarrow> u64 \<Rightarrow> (unit, 'd) exec" where
  "cpu_seg_write_q E s offset data = bind_exec (seg_linear s offset) (\<lambda>linear. linear_write E 8 linear data)"

definition cpu_seg_read :: "'d env \<Rightarrow> nat \<Rightarrow> sreg \<Rightarrow> u64 \<Rightarrow> u64 \<Rightarrow> (u64, 'd) exec" where
  "cpu_seg_read E n =
     (if n = 1 then cpu_seg_read_b E else if n = 2 then cpu_seg_read_w E else if n = 4 then cpu_seg_read_l E else cpu_seg_read_q E)"

definition cpu_seg_write :: "'d env \<Rightarrow> nat \<Rightarrow> sreg \<Rightarrow> u64 \<Rightarrow> u64 \<Rightarrow> (unit, 'd) exec" where
  "cpu_seg_write E n =
     (if n = 1 then cpu_seg_write_b E else if n = 2 then cpu_seg_write_w E else if n = 4 then cpu_seg_write_l E else cpu_seg_write_q E)"

section \<open>Stack\<close>

datatype optype = OPTYPE_16BIT | OPTYPE_32BIT | OPTYPE_64BIT

text \<open>\<open>struct cpu_stack\<close> is the value of its only field, \<open>sp\<close>.\<close>

definition read_ss_acr :: "(u64, 'd) exec" where
  "read_ss_acr = bind_exec (read_sreg_acr SREG_SS) (\<lambda>acr. seq_exec (check_seg acr) (ret acr))"

definition wrap_sp :: "u64 \<Rightarrow> u64 \<Rightarrow> u64" where
  "wrap_sp acr sp = (if \<not> any_bit acr ACCESS_RIGHTS_D_B_BIT then sp AND 0xFFFF else sp)"

definition cpu_stack_get :: "(u64, 'd) exec" where
  "cpu_stack_get = bind_exec read_ss_acr (\<lambda>acr. bind_exec (read_general_reg GENERAL_REG_RSP) (\<lambda>sp. ret (wrap_sp acr sp)))"

definition cpu_stack_set :: "u64 \<Rightarrow> (unit, 'd) exec" where
  "cpu_stack_set sp =
     bind_exec read_ss_acr (\<lambda>acr.
     bind_exec
       (if \<not> any_bit acr ACCESS_RIGHTS_D_B_BIT then
          bind_exec (read_general_reg GENERAL_REG_RSP) (\<lambda>rsp. ret ((rsp AND NOT 0xFFFF) OR (sp AND 0xFFFF)))
        else ret sp)
       (write_general_reg GENERAL_REG_RSP))"

definition stack_size :: "optype \<Rightarrow> nat" where "stack_size type = (if type = OPTYPE_16BIT then 2 else 4)"

definition cpu_stack_push :: "'d env \<Rightarrow> u64 \<Rightarrow> u64 \<Rightarrow> optype \<Rightarrow> (u64, 'd) exec" where
  "cpu_stack_push E sp data type =
     bind_exec read_ss_acr (\<lambda>acr.
     let n = stack_size type; sp = wrap_sp acr (sp - of_nat n)
     in seq_exec (cpu_seg_write E n SREG_SS sp data) (ret sp))"

text \<open>The value that is popped, in a variable of at least \<open>stack_size type\<close> bytes.\<close>

definition cpu_stack_pop :: "'d env \<Rightarrow> u64 \<Rightarrow> u64 \<Rightarrow> optype \<Rightarrow> (u64 \<times> u64, 'd) exec" where
  "cpu_stack_pop E sp old type =
     bind_exec read_ss_acr (\<lambda>acr.
     let n = stack_size type
     in bind_exec (cpu_seg_read E n SREG_SS sp old) (\<lambda>data. ret (data, wrap_sp acr (sp + of_nat n))))"

section \<open>Emulation shared with the exit handlers\<close>

definition RFLAGS_CF_BIT :: u64 where "RFLAGS_CF_BIT = 0x1"
definition RFLAGS_TF_BIT :: u64 where "RFLAGS_TF_BIT = 0x100"
definition RFLAGS_IF_BIT :: u64 where "RFLAGS_IF_BIT = 0x200"
definition RFLAGS_DF_BIT :: u64 where "RFLAGS_DF_BIT = 0x400"
definition RFLAGS_IOPL_MASK :: u64 where "RFLAGS_IOPL_MASK = 0x3000"
definition RFLAGS_RF_BIT :: u64 where "RFLAGS_RF_BIT = 0x10000"
definition RFLAGS_VM_BIT :: u64 where "RFLAGS_VM_BIT = 0x20000"
definition RFLAGS_AC_BIT :: u64 where "RFLAGS_AC_BIT = 0x40000"
definition RFLAGS_VIF_BIT :: u64 where "RFLAGS_VIF_BIT = 0x80000"
definition RFLAGS_VIP_BIT :: u64 where "RFLAGS_VIP_BIT = 0x100000"
definition RFLAGS_ALWAYS1_BIT :: u64 where "RFLAGS_ALWAYS1_BIT = 0x2"

text \<open>TF, IF, IOPL, NT, RF, VM, AC, VIF, VIP, ID; and CF, PF, AF, ZF, SF, DF, OF.\<close>

definition RFLAGS_SYS_MASK :: u64 where "RFLAGS_SYS_MASK = 0x3F7300"
definition RFLAGS_NONSYS_MASK :: u64 where "RFLAGS_NONSYS_MASK = 0xCD5"

definition cpu_emul_cpuid :: "'d env \<Rightarrow> (unit, 'd) exec" where
  "cpu_emul_cpuid E =
     bind_exec (read_general_reg GENERAL_REG_RAX) (\<lambda>la.
     bind_exec (read_general_reg GENERAL_REG_RCX) (\<lambda>lc.
     bind_exec (effect (vmctl_cpuid E (ucast la) (ucast lc))) (\<lambda>(oa, ob, oc, od).
     seq_exec (write_general_reg GENERAL_REG_RAX (ucast oa))
    (seq_exec (write_general_reg GENERAL_REG_RBX (ucast ob))
    (seq_exec (write_general_reg GENERAL_REG_RCX (ucast oc))
              (write_general_reg GENERAL_REG_RDX (ucast od)))))))"

text \<open>The registers are written also when \<open>read_msr\<close> reports an error.\<close>

definition cpu_emul_rdmsr :: "'d env \<Rightarrow> (bool, 'd) exec" where
  "cpu_emul_rdmsr E =
     bind_exec (read_general_reg GENERAL_REG_RCX) (\<lambda>lc.
     bind_exec (effect (vmctl_read_msr E (ucast lc))) (\<lambda>(fail, msrdata).
     seq_exec (write_general_reg GENERAL_REG_RAX (low 4 msrdata))
    (seq_exec (write_general_reg GENERAL_REG_RDX (drop_bit 32 msrdata))
              (ret fail))))"

definition cpu_emul_wrmsr :: "'d env \<Rightarrow> (bool, 'd) exec" where
  "cpu_emul_wrmsr E =
     bind_exec (read_general_reg GENERAL_REG_RCX) (\<lambda>ic.
     bind_exec (read_general_reg GENERAL_REG_RAX) (\<lambda>ia.
     bind_exec (read_general_reg GENERAL_REG_RDX) (\<lambda>id.
     effect (vmctl_write_msr E (ucast ic) (low 4 ia OR push_bit 32 (low 4 id))))))"

definition cpu_emul_hlt :: "(unit, 'd) exec" where "cpu_emul_hlt = modify (\<lambda>g. g\<lparr>halt := True\<rparr>)"

definition cpu_emul_cli :: "(unit, 'd) exec" where
  "cpu_emul_cli = bind_exec read_flags (\<lambda>rflags. write_flags (rflags AND NOT RFLAGS_IF_BIT))"

definition cpu_emul_sti :: "'d env \<Rightarrow> (unit, 'd) exec" where
  "cpu_emul_sti E =
     bind_exec read_flags (\<lambda>rflags.
     seq_exec (write_flags (rflags OR RFLAGS_IF_BIT)) (effect_unit (int_enabled E)))"

text \<open>The build without \<open>DISABLE_TCG_BIOS\<close>.\<close>

definition cpu_emul_realmode_int :: "'d env \<Rightarrow> u8 \<Rightarrow> (unit, 'd) exec" where
  "cpu_emul_realmode_int E num =
     bind_exec (get idtr) (\<lambda>(idtr_base, idtr_limit).
     bind_exec (linear_read E 2 (idtr_base + push_bit 2 (ucast num)) (uninit E ''off'')) (\<lambda>off.
     bind_exec (linear_read E 2 (idtr_base + push_bit 2 (ucast num) + 2) (uninit E ''seg'')) (\<lambda>seg.
     bind_exec read_flags (\<lambda>rflags.
     bind_exec (read_sreg_sel SREG_CS) (\<lambda>cs.
     bind_exec read_ip (\<lambda>rip.
     bind_exec cpu_stack_get (\<lambda>st.
     bind_exec (cpu_stack_push E st rflags OPTYPE_16BIT) (\<lambda>st.
     bind_exec (cpu_stack_push E st (ucast cs) OPTYPE_16BIT) (\<lambda>st.
     bind_exec (cpu_stack_push E st rip OPTYPE_16BIT) (\<lambda>st.
     seq_exec (write_realmode_seg SREG_CS (ucast seg))
    (seq_exec (write_ip off)
    (seq_exec (write_flags (rflags AND NOT (RFLAGS_TF_BIT OR RFLAGS_AC_BIT)))
    (seq_exec (cpu_stack_set st)
              cpu_emul_cli)))))))))))))"

definition cpu_emul_xsetbv :: "'d env \<Rightarrow> (bool, 'd) exec" where
  "cpu_emul_xsetbv E =
     bind_exec (read_general_reg GENERAL_REG_RAX) (\<lambda>la.
     bind_exec (read_general_reg GENERAL_REG_RCX) (\<lambda>lc.
     bind_exec (read_general_reg GENERAL_REG_RDX) (\<lambda>ld.
     effect (vmctl_xsetbv E (ucast lc) (ucast la) (ucast ld)))))"

end
