(* ===== verification/Interp_Decode.thy ===== *)
theory Interp_Decode
  imports Guest_Cpu
begin

text \<open>
  First part of the instruction interpreter \<^verbatim>\<open>bitvisor/core/cpu_interpreter.c\<close>: the tables, the bytes of an
  instruction, its prefixes and its operand in memory.  The local variable \<open>op1\<close> of the source is a value that
  the functions return; a \<open>goto\<close> that leaves the function is a call.
\<close>

section \<open>Data\<close>

definition PREFIX_LOCK :: u8 where "PREFIX_LOCK = 0xF0"
definition PREFIX_REPNE :: u8 where "PREFIX_REPNE = 0xF2"
definition PREFIX_REPE :: u8 where "PREFIX_REPE = 0xF3"
definition PREFIX_ES :: u8 where "PREFIX_ES = 0x26"
definition PREFIX_CS :: u8 where "PREFIX_CS = 0x2E"
definition PREFIX_SS :: u8 where "PREFIX_SS = 0x36"
definition PREFIX_DS :: u8 where "PREFIX_DS = 0x3E"
definition PREFIX_FS :: u8 where "PREFIX_FS = 0x64"
definition PREFIX_GS :: u8 where "PREFIX_GS = 0x65"
definition PREFIX_OPERAND_SIZE :: u8 where "PREFIX_OPERAND_SIZE = 0x66"
definition PREFIX_ADDRESS_SIZE :: u8 where "PREFIX_ADDRESS_SIZE = 0x67"
definition PREFIX_REX_MIN :: u8 where "PREFIX_REX_MIN = 0x40"
definition PREFIX_REX_MAX :: u8 where "PREFIX_REX_MAX = 0x4F"

lemmas prefix_defs = PREFIX_LOCK_def PREFIX_REPNE_def PREFIX_REPE_def PREFIX_ES_def PREFIX_CS_def PREFIX_SS_def PREFIX_DS_def
  PREFIX_FS_def PREFIX_GS_def PREFIX_OPERAND_SIZE_def PREFIX_ADDRESS_SIZE_def PREFIX_REX_MIN_def PREFIX_REX_MAX_def

datatype cpumode = CPUMODE_REAL | CPUMODE_PROTECTED
datatype addrtype = ADDRTYPE_16BIT | ADDRTYPE_32BIT | ADDRTYPE_64BIT
datatype reptype = REPTYPE_16BIT | REPTYPE_32BIT | REPTYPE_64BIT

text \<open>The values of \<open>enum reg\<close>: \<open>REG_NO\<close>, and the numbers 0 to 15, on which the source computes.\<close>

datatype reg = REG_NO | REG nat

abbreviation "REG_AX \<equiv> REG 0"
abbreviation "REG_CX \<equiv> REG 1"
abbreviation "REG_DX \<equiv> REG 2"
abbreviation "REG_BX \<equiv> REG 3"
abbreviation "REG_SP \<equiv> REG 4"
abbreviation "REG_BP \<equiv> REG 5"
abbreviation "REG_SI \<equiv> REG 6"
abbreviation "REG_DI \<equiv> REG 7"
abbreviation "REG_08 \<equiv> REG 8"
abbreviation "REG_09 \<equiv> REG 9"
abbreviation "REG_10 \<equiv> REG 10"
abbreviation "REG_11 \<equiv> REG 11"
abbreviation "REG_12 \<equiv> REG 12"
abbreviation "REG_13 \<equiv> REG 13"
abbreviation "REG_14 \<equiv> REG 14"
abbreviation "REG_15 \<equiv> REG 15"

datatype idata_type = I_ZERO | I_MODRM | I_IMME1 | I_IMME2 | I_MIMM1 | I_MIMM2 | I_MOFFS | I_MGRP3 | I_IMMED | I_NOMOR

datatype idata_operand = O_ZERO | O_M | O_R | O_A | O_I | O_1 | O_C

datatype idata_function =
  F_ZERO | F_ADD | F_OR | F_ADC | F_SBB | F_AND | F_SUB | F_XOR | F_CMP | F_TEST | F_XCHG | F_MOV | F_NOT | F_NEG
  | F_ROL | F_ROR | F_RCL | F_RCR | F_SHL | F_SHR | F_SAR | F_GRP1 | F_GRP2 | F_GRP11

record prefix =
  p_seg :: sreg
  p_lock :: bool
  p_repne :: bool
  p_repe :: bool
  p_opsize :: bool
  p_addrsize :: bool
  p_rex :: u8

text \<open>The bits of a REX prefix.\<close>

abbreviation "rex_b p \<equiv> bit (p_rex p) 0"
abbreviation "rex_x p \<equiv> bit (p_rex p) 1"
abbreviation "rex_r p \<equiv> bit (p_rex p) 2"
abbreviation "rex_w p \<equiv> bit (p_rex p) 3"

text \<open>The fields of the bytes, at their width.\<close>

record modrm =
  m_rm :: "3 word"
  m_reg :: "3 word"
  m_mod :: "2 word"

record sib =
  s_base :: "3 word"
  s_index :: "3 word"
  s_scale :: "2 word"

record op =
  op_prefix :: prefix
  op_modrm :: modrm
  op_sib :: sib
  op_disp :: u32
  op_imm :: u64
  modrm_brm :: reg
  modrm_rreg :: reg
  modrm_seg :: sreg
  modrm_addr :: u64
  op_mode :: cpumode
  op_addrtype :: addrtype
  op_optype :: optype
  op_reptype :: reptype
  op_ip :: u64
  ip_off :: nat
  longmode :: bool
  modrm_ripflag :: bool

record modrm_info =
  mi_displen :: nat
  mi_reg1 :: reg
  mi_reg2 :: reg
  mi_defseg :: sreg
  mi_sibflag :: bool
  mi_ripflag :: bool

record sibbase_info =
  sb_displen :: nat
  sb_reg :: reg
  sb_defseg :: sreg

record idata =
  id_type :: idata_type
  id_len :: nat
  id_dst :: idata_operand
  id_src :: idata_operand
  id_func :: idata_function

section \<open>Tables\<close>

text \<open>By \<open>mod\<close> and \<open>rm\<close>: length of the displacement, registers, default segment, SIB flag, RIP flag.\<close>

definition modrmmatrix16 :: "modrm_info list list" where
  "modrmmatrix16 =
     [[modrm_info.make 0 REG_BX REG_SI SREG_DS False False, modrm_info.make 0 REG_BX REG_DI SREG_DS False False,
       modrm_info.make 0 REG_BP REG_SI SREG_SS False False, modrm_info.make 0 REG_BP REG_DI SREG_SS False False,
       modrm_info.make 0 REG_SI REG_NO SREG_DS False False, modrm_info.make 0 REG_DI REG_NO SREG_DS False False,
       modrm_info.make 2 REG_NO REG_NO SREG_DS False False, modrm_info.make 0 REG_BX REG_NO SREG_DS False False],
      [modrm_info.make 1 REG_BX REG_SI SREG_DS False False, modrm_info.make 1 REG_BX REG_DI SREG_DS False False,
       modrm_info.make 1 REG_BP REG_SI SREG_SS False False, modrm_info.make 1 REG_BP REG_DI SREG_SS False False,
       modrm_info.make 1 REG_SI REG_NO SREG_DS False False, modrm_info.make 1 REG_DI REG_NO SREG_DS False False,
       modrm_info.make 1 REG_BP REG_NO SREG_SS False False, modrm_info.make 1 REG_BX REG_NO SREG_DS False False],
      [modrm_info.make 2 REG_BX REG_SI SREG_DS False False, modrm_info.make 2 REG_BX REG_DI SREG_DS False False,
       modrm_info.make 2 REG_BP REG_SI SREG_SS False False, modrm_info.make 2 REG_BP REG_DI SREG_SS False False,
       modrm_info.make 2 REG_SI REG_NO SREG_DS False False, modrm_info.make 2 REG_DI REG_NO SREG_DS False False,
       modrm_info.make 2 REG_BP REG_NO SREG_SS False False, modrm_info.make 2 REG_BX REG_NO SREG_DS False False]]"

text \<open>By \<open>mod\<close>, REX.B and \<open>rm\<close>.\<close>

definition modrmmatrix32 :: "modrm_info list list list" where
  "modrmmatrix32 =
     [[[modrm_info.make 0 REG_AX REG_NO SREG_DS False False, modrm_info.make 0 REG_CX REG_NO SREG_DS False False,
        modrm_info.make 0 REG_DX REG_NO SREG_DS False False, modrm_info.make 0 REG_BX REG_NO SREG_DS False False,
        modrm_info.make 0 REG_NO REG_NO SREG_DS True False, modrm_info.make 4 REG_NO REG_NO SREG_DS False True,
        modrm_info.make 0 REG_SI REG_NO SREG_DS False False, modrm_info.make 0 REG_DI REG_NO SREG_DS False False],
       [modrm_info.make 0 REG_08 REG_NO SREG_DS False False, modrm_info.make 0 REG_09 REG_NO SREG_DS False False,
        modrm_info.make 0 REG_10 REG_NO SREG_DS False False, modrm_info.make 0 REG_11 REG_NO SREG_DS False False,
        modrm_info.make 0 REG_NO REG_NO SREG_DS True False, modrm_info.make 4 REG_NO REG_NO SREG_DS False True,
        modrm_info.make 0 REG_14 REG_NO SREG_DS False False, modrm_info.make 0 REG_15 REG_NO SREG_DS False False]],
      [[modrm_info.make 1 REG_AX REG_NO SREG_DS False False, modrm_info.make 1 REG_CX REG_NO SREG_DS False False,
        modrm_info.make 1 REG_DX REG_NO SREG_DS False False, modrm_info.make 1 REG_BX REG_NO SREG_DS False False,
        modrm_info.make 1 REG_NO REG_NO SREG_DS True False, modrm_info.make 1 REG_BP REG_NO SREG_SS False False,
        modrm_info.make 1 REG_SI REG_NO SREG_DS False False, modrm_info.make 1 REG_DI REG_NO SREG_DS False False],
       [modrm_info.make 1 REG_08 REG_NO SREG_DS False False, modrm_info.make 1 REG_09 REG_NO SREG_DS False False,
        modrm_info.make 1 REG_10 REG_NO SREG_DS False False, modrm_info.make 1 REG_11 REG_NO SREG_DS False False,
        modrm_info.make 1 REG_NO REG_NO SREG_DS True False, modrm_info.make 1 REG_13 REG_NO SREG_SS False False,
        modrm_info.make 1 REG_14 REG_NO SREG_DS False False, modrm_info.make 1 REG_15 REG_NO SREG_DS False False]],
      [[modrm_info.make 4 REG_AX REG_NO SREG_DS False False, modrm_info.make 4 REG_CX REG_NO SREG_DS False False,
        modrm_info.make 4 REG_DX REG_NO SREG_DS False False, modrm_info.make 4 REG_BX REG_NO SREG_DS False False,
        modrm_info.make 4 REG_NO REG_NO SREG_DS True False, modrm_info.make 4 REG_BP REG_NO SREG_SS False False,
        modrm_info.make 4 REG_SI REG_NO SREG_DS False False, modrm_info.make 4 REG_DI REG_NO SREG_DS False False],
       [modrm_info.make 4 REG_08 REG_NO SREG_DS False False, modrm_info.make 4 REG_09 REG_NO SREG_DS False False,
        modrm_info.make 4 REG_10 REG_NO SREG_DS False False, modrm_info.make 4 REG_11 REG_NO SREG_DS False False,
        modrm_info.make 4 REG_NO REG_NO SREG_DS True False, modrm_info.make 4 REG_13 REG_NO SREG_SS False False,
        modrm_info.make 4 REG_14 REG_NO SREG_DS False False, modrm_info.make 4 REG_15 REG_NO SREG_DS False False]]]"

text \<open>By \<open>mod\<close>, REX.B and \<open>base\<close>, and by REX.X and \<open>index\<close>.\<close>

definition sibmatrix_base :: "sibbase_info list list list" where
  "sibmatrix_base =
     [[[sibbase_info.make 0 REG_AX SREG_DS, sibbase_info.make 0 REG_CX SREG_DS, sibbase_info.make 0 REG_DX SREG_DS, sibbase_info.make 0 REG_BX SREG_DS,
        sibbase_info.make 0 REG_SP SREG_SS, sibbase_info.make 4 REG_NO SREG_DS, sibbase_info.make 0 REG_SI SREG_DS, sibbase_info.make 0 REG_DI SREG_DS],
       [sibbase_info.make 0 REG_08 SREG_DS, sibbase_info.make 0 REG_09 SREG_DS, sibbase_info.make 0 REG_10 SREG_DS, sibbase_info.make 0 REG_11 SREG_DS,
        sibbase_info.make 0 REG_12 SREG_SS, sibbase_info.make 4 REG_NO SREG_DS, sibbase_info.make 0 REG_14 SREG_DS, sibbase_info.make 0 REG_15 SREG_DS]],
      [[sibbase_info.make 1 REG_AX SREG_DS, sibbase_info.make 1 REG_CX SREG_DS, sibbase_info.make 1 REG_DX SREG_DS, sibbase_info.make 1 REG_BX SREG_DS,
        sibbase_info.make 1 REG_SP SREG_SS, sibbase_info.make 1 REG_BP SREG_SS, sibbase_info.make 1 REG_SI SREG_DS, sibbase_info.make 1 REG_DI SREG_DS],
       [sibbase_info.make 1 REG_08 SREG_DS, sibbase_info.make 1 REG_09 SREG_DS, sibbase_info.make 1 REG_10 SREG_DS, sibbase_info.make 1 REG_11 SREG_DS,
        sibbase_info.make 1 REG_12 SREG_SS, sibbase_info.make 1 REG_13 SREG_SS, sibbase_info.make 1 REG_14 SREG_DS, sibbase_info.make 1 REG_15 SREG_DS]],
      [[sibbase_info.make 4 REG_AX SREG_DS, sibbase_info.make 4 REG_CX SREG_DS, sibbase_info.make 4 REG_DX SREG_DS, sibbase_info.make 4 REG_BX SREG_DS,
        sibbase_info.make 4 REG_SP SREG_SS, sibbase_info.make 4 REG_BP SREG_SS, sibbase_info.make 4 REG_SI SREG_DS, sibbase_info.make 4 REG_DI SREG_DS],
       [sibbase_info.make 4 REG_08 SREG_DS, sibbase_info.make 4 REG_09 SREG_DS, sibbase_info.make 4 REG_10 SREG_DS, sibbase_info.make 4 REG_11 SREG_DS,
        sibbase_info.make 4 REG_12 SREG_SS, sibbase_info.make 4 REG_13 SREG_SS, sibbase_info.make 4 REG_14 SREG_DS, sibbase_info.make 4 REG_15 SREG_DS]]]"

definition sib_scale :: "reg list list" where
  "sib_scale =
     [[REG_AX, REG_CX, REG_DX, REG_BX, REG_NO, REG_BP, REG_SI, REG_DI],
      [REG_08, REG_09, REG_10, REG_11, REG_12, REG_13, REG_14, REG_15]]"

text \<open>The instructions with a regular form, by opcode: \<open>idata\<close>.\<close>

definition idata_none :: idata where "idata_none = idata.make I_ZERO 0 O_ZERO O_ZERO F_ZERO"

definition idata_00 :: "idata list" where
  "idata_00 =
     [idata.make I_MODRM 1 O_M O_R F_ADD, idata.make I_MODRM 2 O_M O_R F_ADD, idata.make I_MODRM 1 O_R O_M F_ADD, idata.make I_MODRM 2 O_R O_M F_ADD,
      idata.make I_IMME1 1 O_A O_I F_ADD, idata.make I_IMME2 2 O_A O_I F_ADD, idata_none, idata_none,
      idata.make I_MODRM 1 O_M O_R F_OR, idata.make I_MODRM 2 O_M O_R F_OR, idata.make I_MODRM 1 O_R O_M F_OR, idata.make I_MODRM 2 O_R O_M F_OR,
      idata.make I_IMME1 1 O_A O_I F_OR, idata.make I_IMME2 2 O_A O_I F_OR, idata_none, idata_none,
      idata.make I_MODRM 1 O_M O_R F_ADC, idata.make I_MODRM 2 O_M O_R F_ADC, idata.make I_MODRM 1 O_R O_M F_ADC, idata.make I_MODRM 2 O_R O_M F_ADC,
      idata.make I_IMME1 1 O_A O_I F_ADC, idata.make I_IMME2 2 O_A O_I F_ADC, idata_none, idata_none,
      idata.make I_MODRM 1 O_M O_R F_SBB, idata.make I_MODRM 2 O_M O_R F_SBB, idata.make I_MODRM 1 O_R O_M F_SBB, idata.make I_MODRM 2 O_R O_M F_SBB,
      idata.make I_IMME1 1 O_A O_I F_SBB, idata.make I_IMME2 2 O_A O_I F_SBB, idata_none, idata_none,
      idata.make I_MODRM 1 O_M O_R F_AND, idata.make I_MODRM 2 O_M O_R F_AND, idata.make I_MODRM 1 O_R O_M F_AND, idata.make I_MODRM 2 O_R O_M F_AND,
      idata.make I_IMME1 1 O_A O_I F_AND, idata.make I_IMME2 2 O_A O_I F_AND, idata_none, idata_none,
      idata.make I_MODRM 1 O_M O_R F_SUB, idata.make I_MODRM 2 O_M O_R F_SUB, idata.make I_MODRM 1 O_R O_M F_SUB, idata.make I_MODRM 2 O_R O_M F_SUB,
      idata.make I_IMME1 1 O_A O_I F_SUB, idata.make I_IMME2 2 O_A O_I F_SUB, idata_none, idata_none,
      idata.make I_MODRM 1 O_M O_R F_XOR, idata.make I_MODRM 2 O_M O_R F_XOR, idata.make I_MODRM 1 O_R O_M F_XOR, idata.make I_MODRM 2 O_R O_M F_XOR,
      idata.make I_IMME1 1 O_A O_I F_XOR, idata.make I_IMME2 2 O_A O_I F_XOR, idata_none, idata_none,
      idata.make I_MODRM 1 O_M O_R F_CMP, idata.make I_MODRM 2 O_M O_R F_CMP, idata.make I_MODRM 1 O_R O_M F_CMP, idata.make I_MODRM 2 O_R O_M F_CMP,
      idata.make I_IMME1 1 O_A O_I F_CMP, idata.make I_IMME2 2 O_A O_I F_CMP, idata_none, idata_none]"

definition idata_40 :: "idata list" where
  "idata_40 =
     [idata_none, idata_none, idata_none, idata_none,
      idata_none, idata_none, idata_none, idata_none,
      idata_none, idata_none, idata_none, idata_none,
      idata_none, idata_none, idata_none, idata_none,
      idata_none, idata_none, idata_none, idata_none,
      idata_none, idata_none, idata_none, idata_none,
      idata_none, idata_none, idata_none, idata_none,
      idata_none, idata_none, idata_none, idata_none,
      idata_none, idata_none, idata_none, idata_none,
      idata_none, idata_none, idata_none, idata_none,
      idata_none, idata_none, idata_none, idata_none,
      idata_none, idata_none, idata_none, idata_none,
      idata_none, idata_none, idata_none, idata_none,
      idata_none, idata_none, idata_none, idata_none,
      idata_none, idata_none, idata_none, idata_none,
      idata_none, idata_none, idata_none, idata_none]"

definition idata_80 :: "idata list" where
  "idata_80 =
     [idata.make I_MIMM1 1 O_M O_I F_GRP1, idata.make I_MIMM2 2 O_M O_I F_GRP1, idata.make I_MIMM1 1 O_M O_I F_GRP1, idata.make I_MIMM1 2 O_M O_I F_GRP1,
      idata.make I_MODRM 1 O_M O_R F_TEST, idata.make I_MODRM 2 O_M O_R F_TEST, idata.make I_MODRM 1 O_M O_R F_XCHG, idata.make I_MODRM 2 O_M O_R F_XCHG,
      idata.make I_MODRM 1 O_M O_R F_MOV, idata.make I_MODRM 2 O_M O_R F_MOV, idata.make I_MODRM 1 O_R O_M F_MOV, idata.make I_MODRM 2 O_R O_M F_MOV,
      idata_none, idata_none, idata_none, idata_none,
      idata_none, idata_none, idata_none, idata_none,
      idata_none, idata_none, idata_none, idata_none,
      idata_none, idata_none, idata_none, idata_none,
      idata_none, idata_none, idata_none, idata_none,
      idata.make I_MOFFS 1 O_A O_M F_MOV, idata.make I_MOFFS 2 O_A O_M F_MOV, idata.make I_MOFFS 1 O_M O_A F_MOV, idata.make I_MOFFS 2 O_M O_A F_MOV,
      idata_none, idata_none, idata_none, idata_none,
      idata_none, idata_none, idata_none, idata_none,
      idata_none, idata_none, idata_none, idata_none,
      idata_none, idata_none, idata_none, idata_none,
      idata_none, idata_none, idata_none, idata_none,
      idata_none, idata_none, idata_none, idata_none,
      idata_none, idata_none, idata_none, idata_none]"

definition idata_C0 :: "idata list" where
  "idata_C0 =
     [idata.make I_MIMM1 1 O_M O_I F_GRP2, idata.make I_MIMM1 2 O_M O_I F_GRP2, idata_none, idata_none,
      idata_none, idata_none, idata.make I_MIMM1 1 O_M O_I F_GRP11, idata.make I_MIMM2 2 O_M O_I F_GRP11,
      idata_none, idata_none, idata_none, idata_none,
      idata_none, idata_none, idata_none, idata_none,
      idata.make I_MODRM 1 O_M O_1 F_GRP2, idata.make I_MODRM 2 O_M O_1 F_GRP2, idata.make I_MODRM 1 O_M O_C F_GRP2, idata.make I_MODRM 2 O_M O_C F_GRP2,
      idata_none, idata_none, idata_none, idata_none,
      idata_none, idata_none, idata_none, idata_none,
      idata_none, idata_none, idata_none, idata_none,
      idata_none, idata_none, idata_none, idata_none,
      idata_none, idata_none, idata_none, idata_none,
      idata_none, idata_none, idata_none, idata_none,
      idata_none, idata_none, idata_none, idata_none,
      idata_none, idata_none, idata_none, idata_none,
      idata_none, idata_none, idata.make I_MGRP3 1 O_ZERO O_ZERO F_ZERO, idata.make I_MGRP3 2 O_ZERO O_ZERO F_ZERO,
      idata_none, idata_none, idata_none, idata_none,
      idata_none, idata_none, idata_none, idata_none]"

definition idata_table :: "idata list" where "idata_table = idata_00 @ idata_40 @ idata_80 @ idata_C0"

text \<open>Group 3, by \<open>reg\<close>.\<close>

definition grp3 :: "idata list" where
  "grp3 =
     [idata.make I_IMMED 0 O_M O_I F_TEST, idata_none,
      idata.make I_NOMOR 0 O_M O_ZERO F_NOT, idata.make I_NOMOR 0 O_M O_ZERO F_NEG,
      idata_none, idata_none,
      idata_none, idata_none]"

section \<open>The bytes of an instruction\<close>

text \<open>What a variable holds before a fetch stores into it is the same for all fetches here.\<close>

definition read_next_b :: "'d env \<Rightarrow> op \<Rightarrow> (u8 \<times> op, 'd) exec" where
  "read_next_b E op =
     (if ip_off op \<ge> 15 then err VMMERR_INSTRUCTION_TOO_LONG
      else bind_exec (cpu_seg_read_b E SREG_CS (op_ip op + of_nat (ip_off op)) (uninit E ''code''))
        (\<lambda>b. ret (ucast b, op\<lparr>ip_off := ip_off op + 1\<rparr>)))"

definition READ_NEXT_W :: "'d env \<Rightarrow> op \<Rightarrow> (u16 \<times> op, 'd) exec" where
  "READ_NEXT_W E op =
     bind_exec (read_next_b E op) (\<lambda>(b0, op).
     bind_exec (read_next_b E op) (\<lambda>(b1, op). ret (ucast b0 OR push_bit 8 (ucast b1), op)))"

definition READ_NEXT_L :: "'d env \<Rightarrow> op \<Rightarrow> (u32 \<times> op, 'd) exec" where
  "READ_NEXT_L E op =
     bind_exec (READ_NEXT_W E op) (\<lambda>(w0, op).
     bind_exec (READ_NEXT_W E op) (\<lambda>(w1, op). ret (ucast w0 OR push_bit 16 (ucast w1), op)))"

section \<open>Registers by operand number\<close>

definition get_reg :: "reg \<Rightarrow> (u64, 'd) exec" where
  "get_reg r = (case r of REG_NO \<Rightarrow> ret 0 | REG n \<Rightarrow> read_general_reg n)"

definition set_reg :: "reg \<Rightarrow> u64 \<Rightarrow> (unit, 'd) exec" where
  "set_reg r data = (case r of REG_NO \<Rightarrow> ret () | REG n \<Rightarrow> write_general_reg n data)"

section \<open>The operand\<close>

definition modrm_of :: "u8 \<Rightarrow> modrm" where
  "modrm_of b = \<lparr>m_rm = ucast b, m_reg = ucast (drop_bit 3 b), m_mod = ucast (drop_bit 6 b)\<rparr>"

definition sib_of :: "u8 \<Rightarrow> sib" where
  "sib_of b = \<lparr>s_base = ucast b, s_index = ucast (drop_bit 3 b), s_scale = ucast (drop_bit 6 b)\<rparr>"

definition read_modrm_b :: "'d env \<Rightarrow> op \<Rightarrow> (op, 'd) exec" where
  "read_modrm_b E op =
     bind_exec (read_next_b E op) (\<lambda>(b, op). let m = modrm_of b in
     ret (op\<lparr>op_modrm := m,
       modrm_rreg := REG (unat (m_reg m) + (if rex_r (op_prefix op) then 8 else 0)),
       modrm_brm := REG (unat (m_rm m) + (if rex_b (op_prefix op) then 8 else 0))\<rparr>))"

definition set_seg :: "sreg \<Rightarrow> op \<Rightarrow> op" where
  "set_seg defseg op = op\<lparr>modrm_seg := (if p_seg (op_prefix op) \<noteq> SREG_DEFAULT then p_seg (op_prefix op) else defseg)\<rparr>"

definition read_disp :: "'d env \<Rightarrow> nat \<Rightarrow> op \<Rightarrow> (op, 'd) exec" where
  "read_disp E displen op =
     (if displen = 1 then bind_exec (read_next_b E op) (\<lambda>(d, op). ret (op\<lparr>op_disp := scast d\<rparr>))
      else if displen = 2 then bind_exec (READ_NEXT_W E op) (\<lambda>(d, op). ret (op\<lparr>op_disp := scast d\<rparr>))
      else if displen = 4 then bind_exec (READ_NEXT_L E op) (\<lambda>(d, op). ret (op\<lparr>op_disp := d\<rparr>))
      else ret (op\<lparr>op_disp := 0\<rparr>))"

text \<open>The address without the displacement, and the length of the displacement and default segment.\<close>

definition read_sib :: "'d env \<Rightarrow> modrm_info \<Rightarrow> op \<Rightarrow> (u64 \<times> nat \<times> sreg \<times> op, 'd) exec" where
  "read_sib E m op =
     (if mi_sibflag m then
        bind_exec (read_next_b E op) (\<lambda>(b, op).
        let op = op\<lparr>op_sib := sib_of b\<rparr>;
            sb = sibmatrix_base ! unat (m_mod (op_modrm op)) ! (if rex_b (op_prefix op) then 1 else 0) ! unat (s_base (op_sib op));
            ss = sib_scale ! (if rex_x (op_prefix op) then 1 else 0) ! unat (s_index (op_sib op)) in
        bind_exec (get_reg ss) (\<lambda>i.
        bind_exec (get_reg (sb_reg sb)) (\<lambda>b.
        ret (push_bit (unat (s_scale (op_sib op))) i + b, sb_displen sb, sb_defseg sb, op))))
      else
        bind_exec (get_reg (mi_reg1 m)) (\<lambda>r1.
        bind_exec (get_reg (mi_reg2 m)) (\<lambda>r2.
        ret (r1 + r2, mi_displen m, mi_defseg m, op))))"

definition get_modrm :: "'d env \<Rightarrow> op \<Rightarrow> (op, 'd) exec" where
  "get_modrm E op =
     (if m_mod (op_modrm op) = 3 then ret op
      else
        let op = op\<lparr>modrm_brm := REG_NO\<rparr>;
            m = (if op_addrtype op = ADDRTYPE_16BIT then modrmmatrix16 ! unat (m_mod (op_modrm op)) ! unat (m_rm (op_modrm op))
                 else modrmmatrix32 ! unat (m_mod (op_modrm op)) ! (if rex_b (op_prefix op) then 1 else 0) ! unat (m_rm (op_modrm op))) in
        bind_exec (read_sib E m op) (\<lambda>(addr, displen, defseg, op).
        bind_exec (read_disp E displen op) (\<lambda>op.
        ret (set_seg defseg (op\<lparr>modrm_addr := addr + scast (op_disp op), modrm_ripflag := longmode op \<and> mi_ripflag m\<rparr>)))))"

definition read_moffs :: "'d env \<Rightarrow> op \<Rightarrow> (op, 'd) exec" where
  "read_moffs E op =
     (let op = op\<lparr>modrm_brm := REG_NO\<rparr> in
      bind_exec (if op_addrtype op = ADDRTYPE_16BIT then bind_exec (READ_NEXT_W E op) (\<lambda>(d, op). ret (ucast d, op))
                 else bind_exec (READ_NEXT_L E op) (\<lambda>(d, op). ret (ucast d :: u64, op)))
        (\<lambda>(moffs, op). ret (set_seg SREG_DS (op\<lparr>modrm_addr := moffs, modrm_ripflag := False\<rparr>))))"

definition modrm_off :: "op \<Rightarrow> u8 \<Rightarrow> u64" where
  "modrm_off op k =
     (let addr = modrm_addr op + ucast k;
          addr = (if modrm_ripflag op then addr + (op_ip op + of_nat (ip_off op)) else addr)
      in case op_addrtype op of ADDRTYPE_16BIT \<Rightarrow> addr AND 0xFFFF | ADDRTYPE_32BIT \<Rightarrow> addr AND 0xFFFFFFFF | ADDRTYPE_64BIT \<Rightarrow> addr)"

section \<open>Prefixes\<close>

definition clear_prefix :: prefix where
  "clear_prefix =
     \<lparr>p_seg = SREG_DEFAULT, p_lock = False, p_repne = False, p_repe = False, p_opsize = False, p_addrsize = False, p_rex = 0\<rparr>"

text \<open>The effect of one prefix, for codes other than \<open>PREFIX_LOCK\<close>; \<open>None\<close> for a code that is none.\<close>

definition set_prefix :: "u8 \<Rightarrow> prefix \<Rightarrow> prefix option" where
  "set_prefix code p =
     (if code = PREFIX_REPNE then Some (p\<lparr>p_repne := True\<rparr>)
      else if code = PREFIX_REPE then Some (p\<lparr>p_repe := True\<rparr>)
      else if code = PREFIX_ES then Some (p\<lparr>p_seg := SREG_ES\<rparr>)
      else if code = PREFIX_CS then Some (p\<lparr>p_seg := SREG_CS\<rparr>)
      else if code = PREFIX_SS then Some (p\<lparr>p_seg := SREG_SS\<rparr>)
      else if code = PREFIX_DS then Some (p\<lparr>p_seg := SREG_DS\<rparr>)
      else if code = PREFIX_FS then Some (p\<lparr>p_seg := SREG_FS\<rparr>)
      else if code = PREFIX_GS then Some (p\<lparr>p_seg := SREG_GS\<rparr>)
      else if code = PREFIX_OPERAND_SIZE then Some (p\<lparr>p_opsize := True\<rparr>)
      else if code = PREFIX_ADDRESS_SIZE then Some (p\<lparr>p_addrsize := True\<rparr>)
      else None)"

lemma read_next_b_advances:
  "read_next_b E op g = Inr (Inr (b, op'), g') \<Longrightarrow> op' = op\<lparr>ip_off := ip_off op + 1\<rparr> \<and> ip_off op < 15"
  by (auto simp: read_next_b_def bind_exec_Inr split: if_splits)

function parse_prefixes :: "'d env \<Rightarrow> u8 \<Rightarrow> op \<Rightarrow> (u8 \<times> op, 'd) exec" where
  "parse_prefixes E code op g =
     (if code = PREFIX_LOCK then stop ''LOCK'' g
      else case set_prefix code (op_prefix op) of
        None \<Rightarrow> ret (code, op) g
      | Some p \<Rightarrow>
          (case read_next_b E (op\<lparr>op_prefix := p\<rparr>) g of
             Inl f \<Rightarrow> Inl f
           | Inr (Inl e, g) \<Rightarrow> Inr (Inl e, g)
           | Inr (Inr (code, op), g) \<Rightarrow> parse_prefixes E code op g))"
  by pat_completeness auto

termination
  by (relation "measure (\<lambda>(E, code, op, g). 15 - ip_off op)") (auto dest!: read_next_b_advances)

declare parse_prefixes.simps [simp del]

section \<open>Operand, address and counter sizes\<close>

definition MSR_IA32_EFER_LMA_BIT :: u64 where "MSR_IA32_EFER_LMA_BIT = 0x400"

text \<open>From \<open>parse_opcode\<close> on: a REX prefix in 64-bit mode, and the sizes.\<close>

definition read_rex :: "'d env \<Rightarrow> u8 \<Rightarrow> op \<Rightarrow> (u8 \<times> op, 'd) exec" where
  "read_rex E code op =
     (if PREFIX_REX_MIN \<le> code \<and> code \<le> PREFIX_REX_MAX then
        read_next_b E (op\<lparr>op_prefix := (op_prefix op)\<lparr>p_rex := code\<rparr>\<rparr>)
      else ret (code, op))"

definition parse_opcode :: "'d env \<Rightarrow> u64 \<Rightarrow> u8 \<Rightarrow> op \<Rightarrow> (u8 \<times> op, 'd) exec" where
  "parse_opcode E efer code op =
     bind_exec (read_sreg_acr SREG_CS) (\<lambda>acr.
     if any_bit efer MSR_IA32_EFER_LMA_BIT \<and> any_bit acr ACCESS_RIGHTS_L_BIT then
       bind_exec (read_rex E code (op\<lparr>longmode := True\<rparr>)) (\<lambda>(code, op). let p = op_prefix op in
       ret (code, op\<lparr>op_reptype := REPTYPE_64BIT,
         op_optype := (if rex_w p then OPTYPE_64BIT else if \<not> p_opsize p then OPTYPE_32BIT else OPTYPE_16BIT),
         op_addrtype := (if \<not> p_addrsize p then ADDRTYPE_64BIT else ADDRTYPE_32BIT)\<rparr>))
     else let p = op_prefix op in
       if any_bit acr ACCESS_RIGHTS_D_B_BIT then
         ret (code, op\<lparr>op_reptype := REPTYPE_32BIT,
           op_optype := (if \<not> p_opsize p then OPTYPE_32BIT else OPTYPE_16BIT),
           op_addrtype := (if \<not> p_addrsize p then ADDRTYPE_32BIT else ADDRTYPE_16BIT)\<rparr>)
       else
         ret (code, op\<lparr>op_reptype := REPTYPE_16BIT,
           op_optype := (if \<not> p_opsize p then OPTYPE_16BIT else OPTYPE_32BIT),
           op_addrtype := (if \<not> p_addrsize p then ADDRTYPE_16BIT else ADDRTYPE_32BIT)\<rparr>))"

text \<open>The beginning of \<open>cpu_interpreter\<close>; \<open>op1\<close> is what the uninitialised local variable holds.\<close>

definition CR0_PE_BIT :: u64 where "CR0_PE_BIT = 0x1"

definition start_op :: "op \<Rightarrow> u64 \<Rightarrow> u64 \<Rightarrow> op" where
  "start_op op1 cr rip =
     op1\<lparr>op_mode := (if any_bit cr CR0_PE_BIT then CPUMODE_PROTECTED else CPUMODE_REAL), longmode := False, op_ip := rip, ip_off := 0\<rparr>"

definition parse_start :: "'d env \<Rightarrow> op \<Rightarrow> (u8 \<times> op, 'd) exec" where
  "parse_start E op1 =
     bind_exec (read_control_reg 0) (\<lambda>cr.
     bind_exec (get (\<lambda>g. r_efer (ctl g))) (\<lambda>efer.
     bind_exec read_ip (\<lambda>rip.
     bind_exec (read_next_b E (start_op op1 cr rip)) (\<lambda>(code, op).
     bind_exec (parse_prefixes E code (op\<lparr>op_prefix := clear_prefix\<rparr>)) (\<lambda>(code, op).
     parse_opcode E efer code op)))))"

end
