(* ===== verification/Interp_Operand.thy ===== *)
theory Interp_Operand
  imports Interp_Decode
begin

text \<open>
  Second part of \<^verbatim>\<open>bitvisor/core/cpu_interpreter.c\<close>: the operands of instructions, and the instructions with a regular
  form, which the tables describe.  A variable that is read or written through a pointer of the operand's width is a
  64-bit word, of which the other bytes keep what they hold.
\<close>

definition UPDATE_IP :: "op \<Rightarrow> (unit, 'd) exec" where "UPDATE_IP op = write_ip (op_ip op + of_nat (ip_off op))"

section \<open>Segment and offset\<close>

text \<open>\<open>LGUESTSEG_READ_B\<close> to \<open>LGUESTSEG_WRITE_Q\<close>, by their width in bytes: in 64-bit mode without a check.\<close>

definition LGUESTSEG_READ :: "'d env \<Rightarrow> nat \<Rightarrow> op \<Rightarrow> sreg \<Rightarrow> u64 \<Rightarrow> u64 \<Rightarrow> (u64, 'd) exec" where
  "LGUESTSEG_READ E n op p offset old =
     (if longmode op then bind_exec (read_sreg_base p) (\<lambda>base. linear_read E n (base + offset) old)
      else cpu_seg_read E n p offset old)"

definition LGUESTSEG_WRITE :: "'d env \<Rightarrow> nat \<Rightarrow> op \<Rightarrow> sreg \<Rightarrow> u64 \<Rightarrow> u64 \<Rightarrow> (unit, 'd) exec" where
  "LGUESTSEG_WRITE E n op p offset data =
     (if longmode op then bind_exec (read_sreg_base p) (\<lambda>base. linear_write E n (base + offset) data)
      else cpu_seg_write E n p offset data)"

section \<open>Registers\<close>

text \<open>A register is read as \<open>u16\<close> or \<open>u8\<close> by its low bytes; AH, CH, DH, BH are the second bytes.\<close>

definition reg8_general_reg :: "nat \<Rightarrow> nat" where
  "reg8_general_reg r8 =
     (if r8 = 0 \<or> r8 = 4 then GENERAL_REG_RAX else if r8 = 1 \<or> r8 = 5 then GENERAL_REG_RCX
      else if r8 = 2 \<or> r8 = 6 then GENERAL_REG_RDX else if r8 = 3 \<or> r8 = 7 then GENERAL_REG_RBX else 0)"

definition reg8_dp :: "nat \<Rightarrow> nat option" where
  "reg8_dp r8 = (if r8 < 4 then Some 0 else if r8 < 8 then Some 1 else None)"

text \<open>Register and byte of an operand of one byte; \<open>None\<close> is the null pointer.\<close>

definition reg8_place :: "bool \<Rightarrow> nat \<Rightarrow> (nat \<times> nat) option" where
  "reg8_place rex r8 = (if rex then Some (r8, 0) else map_option (Pair (reg8_general_reg r8)) (reg8_dp r8))"

definition get_reg8 :: "bool \<Rightarrow> nat \<Rightarrow> (u64, 'd) exec" where
  "get_reg8 rex r8 =
     (case reg8_place rex r8 of
        None \<Rightarrow> (\<lambda>g. Inl OutOfBounds)
      | Some (r, k) \<Rightarrow> bind_exec (read_general_reg r) (\<lambda>d. ret (low 1 (drop_bit (8 * k) d))))"

definition set_reg8 :: "bool \<Rightarrow> nat \<Rightarrow> u64 \<Rightarrow> (unit, 'd) exec" where
  "set_reg8 rex r8 d8 =
     (case reg8_place rex r8 of
        None \<Rightarrow> (\<lambda>g. Inl OutOfBounds)
      | Some (r, k) \<Rightarrow>
          bind_exec (read_general_reg r) (\<lambda>d.
          write_general_reg r (d AND NOT (push_bit (8 * k) 0xFF) OR push_bit (8 * k) (low 1 d8))))"

definition set_reg16 :: "reg \<Rightarrow> u64 \<Rightarrow> (unit, 'd) exec" where
  "set_reg16 r d16 = bind_exec (get_reg r) (\<lambda>d. set_reg r (put_low 2 d d16))"

definition reg_num :: "reg \<Rightarrow> nat" where "reg_num r = (case r of REG_NO \<Rightarrow> 0 | REG n \<Rightarrow> n)"

definition has_rex :: "op \<Rightarrow> bool" where "has_rex op \<longleftrightarrow> p_rex (op_prefix op) \<noteq> 0"

section \<open>The operand in memory or in a register\<close>

definition read_modrm8 :: "'d env \<Rightarrow> op \<Rightarrow> u8 \<Rightarrow> u64 \<Rightarrow> (u64, 'd) exec" where
  "read_modrm8 E op k old =
     (if modrm_brm op = REG_NO then LGUESTSEG_READ E 1 op (modrm_seg op) (modrm_off op k) old
      else if k \<noteq> 0 then stop ''Offset must be zero for register access''
      else bind_exec (get_reg8 (has_rex op) (reg_num (modrm_brm op))) (\<lambda>d. ret (put_low 1 old d)))"

definition write_modrm8 :: "'d env \<Rightarrow> op \<Rightarrow> u8 \<Rightarrow> u64 \<Rightarrow> (unit, 'd) exec" where
  "write_modrm8 E op k d8 =
     (if modrm_brm op = REG_NO then LGUESTSEG_WRITE E 1 op (modrm_seg op) (modrm_off op k) d8
      else if k \<noteq> 0 then stop ''Offset must be zero for register access''
      else set_reg8 (has_rex op) (reg_num (modrm_brm op)) d8)"

definition read_modrm_n :: "nat \<Rightarrow> 'd env \<Rightarrow> op \<Rightarrow> u8 \<Rightarrow> u64 \<Rightarrow> (u64, 'd) exec" where
  "read_modrm_n n E op k old =
     (if modrm_brm op = REG_NO then LGUESTSEG_READ E n op (modrm_seg op) (modrm_off op k) old
      else if k \<noteq> 0 then stop ''Offset must be zero for register access''
      else bind_exec (get_reg (modrm_brm op)) (\<lambda>d. ret (put_low n old d)))"

definition write_modrm_n :: "(reg \<Rightarrow> u64 \<Rightarrow> (unit, 'd) exec) \<Rightarrow> nat \<Rightarrow> 'd env \<Rightarrow> op \<Rightarrow> u8 \<Rightarrow> u64 \<Rightarrow> (unit, 'd) exec" where
  "write_modrm_n put n E op k d =
     (if modrm_brm op = REG_NO then LGUESTSEG_WRITE E n op (modrm_seg op) (modrm_off op k) d
      else if k \<noteq> 0 then stop ''Offset must be zero for register access''
      else put (modrm_brm op) (low n d))"

definition read_modrm16 :: "'d env \<Rightarrow> op \<Rightarrow> u8 \<Rightarrow> u64 \<Rightarrow> (u64, 'd) exec" where "read_modrm16 = read_modrm_n 2"
definition read_modrm32 :: "'d env \<Rightarrow> op \<Rightarrow> u8 \<Rightarrow> u64 \<Rightarrow> (u64, 'd) exec" where "read_modrm32 = read_modrm_n 4"
definition read_modrm64 :: "'d env \<Rightarrow> op \<Rightarrow> u8 \<Rightarrow> u64 \<Rightarrow> (u64, 'd) exec" where "read_modrm64 = read_modrm_n 8"
definition write_modrm16 :: "'d env \<Rightarrow> op \<Rightarrow> u8 \<Rightarrow> u64 \<Rightarrow> (unit, 'd) exec" where "write_modrm16 = write_modrm_n set_reg16 2"
definition write_modrm32 :: "'d env \<Rightarrow> op \<Rightarrow> u8 \<Rightarrow> u64 \<Rightarrow> (unit, 'd) exec" where "write_modrm32 = write_modrm_n set_reg 4"
definition write_modrm64 :: "'d env \<Rightarrow> op \<Rightarrow> u8 \<Rightarrow> u64 \<Rightarrow> (unit, 'd) exec" where "write_modrm64 = write_modrm_n set_reg 8"

section \<open>Operands by kind\<close>

definition opsize :: "op \<Rightarrow> nat \<Rightarrow> nat" where
  "opsize op bytes =
     (if bytes = 1 then 1 else case op_optype op of OPTYPE_16BIT \<Rightarrow> 2 | OPTYPE_32BIT \<Rightarrow> 4 | OPTYPE_64BIT \<Rightarrow> 8)"

definition idata_rd :: "'d env \<Rightarrow> op \<Rightarrow> idata_operand \<Rightarrow> nat \<Rightarrow> u64 \<Rightarrow> (u64, 'd) exec" where
  "idata_rd E op operand bytes old =
     (case operand of
        O_ZERO \<Rightarrow> stop ''idata_rd operand error!''
      | O_M \<Rightarrow>
          (if bytes = 1 then read_modrm8 E op 0 old
           else case op_optype op of
             OPTYPE_16BIT \<Rightarrow> read_modrm16 E op 0 old | OPTYPE_32BIT \<Rightarrow> read_modrm32 E op 0 old | OPTYPE_64BIT \<Rightarrow> read_modrm64 E op 0 old)
      | O_R \<Rightarrow>
          bind_exec (if bytes = 1 then get_reg8 (has_rex op) (reg_num (modrm_rreg op)) else get_reg (modrm_rreg op))
            (\<lambda>d. ret (put_low (opsize op bytes) old d))
      | O_A \<Rightarrow>
          bind_exec (if bytes = 1 then get_reg8 False 0 else get_reg REG_AX) (\<lambda>d. ret (put_low (opsize op bytes) old d))
      | O_I \<Rightarrow> ret (put_low (opsize op bytes) old (op_imm op))
      | O_1 \<Rightarrow> ret (put_low (opsize op bytes) old 1)
      | O_C \<Rightarrow> if bytes = 1 then bind_exec (get_reg8 False 1) (\<lambda>d. ret (put_low 1 old d)) else stop ''read CX/RCX?'')"

definition set_by_size :: "op \<Rightarrow> reg \<Rightarrow> u64 \<Rightarrow> (unit, 'd) exec" where
  "set_by_size op r d =
     (case op_optype op of OPTYPE_16BIT \<Rightarrow> set_reg16 r d | OPTYPE_32BIT \<Rightarrow> set_reg r (low 4 d) | OPTYPE_64BIT \<Rightarrow> set_reg r d)"

definition idata_wr :: "'d env \<Rightarrow> op \<Rightarrow> idata_operand \<Rightarrow> nat \<Rightarrow> u64 \<Rightarrow> (unit, 'd) exec" where
  "idata_wr E op operand bytes d =
     (case operand of
        O_M \<Rightarrow>
          (if bytes = 1 then write_modrm8 E op 0 d
           else case op_optype op of
             OPTYPE_16BIT \<Rightarrow> write_modrm16 E op 0 d | OPTYPE_32BIT \<Rightarrow> write_modrm32 E op 0 d | OPTYPE_64BIT \<Rightarrow> write_modrm64 E op 0 d)
      | O_R \<Rightarrow> if bytes = 1 then set_reg8 (has_rex op) (reg_num (modrm_rreg op)) d else set_by_size op (modrm_rreg op) d
      | O_A \<Rightarrow> if bytes = 1 then set_reg8 False 0 d else set_by_size op REG_AX d
      | _ \<Rightarrow> stop ''idata_wr operand error!'')"

section \<open>The regular instructions\<close>

definition grp1 :: "idata_function list" where "grp1 = [F_ADD, F_OR, F_ADC, F_SBB, F_AND, F_SUB, F_XOR, F_CMP]"
definition grp2 :: "idata_function list" where "grp2 = [F_ROL, F_ROR, F_RCL, F_RCR, F_SHL, F_SHR, F_SHL, F_SAR]"

text \<open>CF, PF, AF, ZF, SF, DF and OF.\<close>

definition flagmask :: u64 where "flagmask = 0xCD5"

text \<open>The turns of \<open>grp_special\<close>: the function that a group stands for.\<close>

definition resolve_group :: "op \<Rightarrow> idata_function \<Rightarrow> idata_function" where
  "resolve_group op f =
     (case f of F_GRP1 \<Rightarrow> grp1 ! unat (m_reg (op_modrm op)) | F_GRP2 \<Rightarrow> grp2 ! unat (m_reg (op_modrm op))
      | F_GRP11 \<Rightarrow> (if m_reg (op_modrm op) = 0 then F_MOV else F_ZERO) | _ \<Rightarrow> f)"

definition instruction_2op :: "idata_function \<Rightarrow> string option" where
  "instruction_2op f =
     (case f of F_ADD \<Rightarrow> Some ''add'' | F_OR \<Rightarrow> Some ''or'' | F_ADC \<Rightarrow> Some ''adc'' | F_SBB \<Rightarrow> Some ''sbb''
      | F_AND \<Rightarrow> Some ''and'' | F_SUB \<Rightarrow> Some ''sub'' | F_XOR \<Rightarrow> Some ''xor'' | F_CMP \<Rightarrow> Some ''cmp'' | F_TEST \<Rightarrow> Some ''test''
      | _ \<Rightarrow> None)"

text \<open>\<open>ID_2OP\<close>: the new flags and the new value of \<open>dst\<close>.\<close>

definition ID_2OP :: "'d env \<Rightarrow> string \<Rightarrow> nat \<Rightarrow> u64 \<Rightarrow> u64 \<Rightarrow> u64 \<Rightarrow> u64 \<times> u64" where
  "ID_2OP E instruction n fl src dst =
     (case alu E instruction n (fl AND flagmask) (low n src) (low n dst) of
        (newflags, r) \<Rightarrow> ((fl AND NOT flagmask) OR (newflags AND flagmask), put_low n dst r))"

definition opcode_2op :: "'d env \<Rightarrow> op \<Rightarrow> idata \<Rightarrow> idata_function \<Rightarrow> string \<Rightarrow> (unit, 'd) exec" where
  "opcode_2op E op i func instruction =
     bind_exec (idata_rd E op (id_src i) (id_len i) (uninit E ''src'')) (\<lambda>src.
     bind_exec (idata_rd E op (id_dst i) (id_len i) (uninit E ''dst'')) (\<lambda>dst.
     bind_exec read_flags (\<lambda>fl.
     let (newflags, dst) = ID_2OP E instruction (opsize op (id_len i)) fl src dst in
     seq_exec (if func = F_CMP \<or> func = F_TEST then ret () else idata_wr E op (id_dst i) (id_len i) dst)
    (seq_exec (write_flags newflags)
              (UPDATE_IP op)))))"

definition opcode_xchg :: "'d env \<Rightarrow> op \<Rightarrow> idata \<Rightarrow> (unit, 'd) exec" where
  "opcode_xchg E op i =
     bind_exec (idata_rd E op (id_src i) (id_len i) (uninit E ''src'')) (\<lambda>src.
     bind_exec (idata_rd E op (id_dst i) (id_len i) (uninit E ''dst'')) (\<lambda>dst.
     seq_exec (idata_wr E op (id_src i) (id_len i) dst)
    (seq_exec (idata_wr E op (id_dst i) (id_len i) src)
              (UPDATE_IP op))))"

definition opcode_mov :: "'d env \<Rightarrow> op \<Rightarrow> idata \<Rightarrow> (unit, 'd) exec" where
  "opcode_mov E op i =
     bind_exec (idata_rd E op (id_src i) (id_len i) (uninit E ''src'')) (\<lambda>src.
     seq_exec (idata_wr E op (id_dst i) (id_len i) src) (UPDATE_IP op))"

definition opcode_idata :: "'d env \<Rightarrow> op \<Rightarrow> idata \<Rightarrow> (unit, 'd) exec" where
  "opcode_idata E op i =
     (let func = resolve_group op (id_func i) in
      case instruction_2op func of
        Some instruction \<Rightarrow> opcode_2op E op i func instruction
      | None \<Rightarrow>
          if func = F_XCHG then opcode_xchg E op i
          else if func = F_MOV then opcode_mov E op i
          else err VMMERR_UNSUPPORTED_OPCODE)"

end
