(* ===== verification/Interp.thy ===== *)
theory Interp
  imports Interp_Operand
begin

text \<open>
  Third part of \<^verbatim>\<open>bitvisor/core/cpu_interpreter.c\<close>: string instructions, port I/O, the other instructions, and
  \<open>cpu_interpreter\<close> itself.  The source adds 16 to \<open>ip_off\<close> of its local variable before it returns
  \<open>VMMERR_UNSUPPORTED_OPCODE\<close>, which nothing reads.
\<close>

section \<open>Opcodes\<close>

definition OPCODE_0x0F :: u8 where "OPCODE_0x0F = 0x0F"
definition OPCODE_0x0F_MOV_TO_CR :: u8 where "OPCODE_0x0F_MOV_TO_CR = 0x22"
definition OPCODE_0x0F_MOV_FROM_CR :: u8 where "OPCODE_0x0F_MOV_FROM_CR = 0x20"
definition OPCODE_0x0F_MOV_TO_DR :: u8 where "OPCODE_0x0F_MOV_TO_DR = 0x23"
definition OPCODE_0x0F_MOV_FROM_DR :: u8 where "OPCODE_0x0F_MOV_FROM_DR = 0x21"
definition OPCODE_0x0F_CLTS :: u8 where "OPCODE_0x0F_CLTS = 0x06"
definition OPCODE_HLT :: u8 where "OPCODE_HLT = 0xF4"
definition OPCODE_CLI :: u8 where "OPCODE_CLI = 0xFA"
definition OPCODE_STI :: u8 where "OPCODE_STI = 0xFB"
definition OPCODE_PUSHF :: u8 where "OPCODE_PUSHF = 0x9C"
definition OPCODE_POPF :: u8 where "OPCODE_POPF = 0x9D"
definition OPCODE_IRET :: u8 where "OPCODE_IRET = 0xCF"
definition OPCODE_0x0F_INVD :: u8 where "OPCODE_0x0F_INVD = 0x08"
definition OPCODE_0x0F_WBINVD :: u8 where "OPCODE_0x0F_WBINVD = 0x09"
definition OPCODE_0x0F_0x01 :: u8 where "OPCODE_0x0F_0x01 = 0x01"
definition OPCODE_0x0F_0x01_LGDT :: "3 word" where "OPCODE_0x0F_0x01_LGDT = 0x2"
definition OPCODE_0x0F_0x01_LIDT :: "3 word" where "OPCODE_0x0F_0x01_LIDT = 0x3"
definition OPCODE_0x0F_0x01_SMSW :: "3 word" where "OPCODE_0x0F_0x01_SMSW = 0x4"
definition OPCODE_0x0F_0x01_LMSW :: "3 word" where "OPCODE_0x0F_0x01_LMSW = 0x6"
definition OPCODE_0x0F_0x01_INVLPG :: "3 word" where "OPCODE_0x0F_0x01_INVLPG = 0x7"
definition OPCODE_0x0F_RDMSR :: u8 where "OPCODE_0x0F_RDMSR = 0x32"
definition OPCODE_0x0F_WRMSR :: u8 where "OPCODE_0x0F_WRMSR = 0x30"
definition OPCODE_INT :: u8 where "OPCODE_INT = 0xCD"
definition OPCODE_INT3 :: u8 where "OPCODE_INT3 = 0xCC"
definition OPCODE_INTO :: u8 where "OPCODE_INTO = 0xCE"
definition OPCODE_INB_IMM :: u8 where "OPCODE_INB_IMM = 0xE4"
definition OPCODE_IN_IMM :: u8 where "OPCODE_IN_IMM = 0xE5"
definition OPCODE_INB_DX :: u8 where "OPCODE_INB_DX = 0xEC"
definition OPCODE_IN_DX :: u8 where "OPCODE_IN_DX = 0xED"
definition OPCODE_INSB :: u8 where "OPCODE_INSB = 0x6C"
definition OPCODE_INS :: u8 where "OPCODE_INS = 0x6D"
definition OPCODE_OUTB_IMM :: u8 where "OPCODE_OUTB_IMM = 0xE6"
definition OPCODE_OUT_IMM :: u8 where "OPCODE_OUT_IMM = 0xE7"
definition OPCODE_OUTB_DX :: u8 where "OPCODE_OUTB_DX = 0xEE"
definition OPCODE_OUT_DX :: u8 where "OPCODE_OUT_DX = 0xEF"
definition OPCODE_OUTSB :: u8 where "OPCODE_OUTSB = 0x6E"
definition OPCODE_OUTS :: u8 where "OPCODE_OUTS = 0x6F"
definition OPCODE_MOV_FROM_SR :: u8 where "OPCODE_MOV_FROM_SR = 0x8C"
definition OPCODE_MOV_TO_SR :: u8 where "OPCODE_MOV_TO_SR = 0x8E"
definition OPCODE_PUSH_ES :: u8 where "OPCODE_PUSH_ES = 0x06"
definition OPCODE_PUSH_CS :: u8 where "OPCODE_PUSH_CS = 0x0E"
definition OPCODE_PUSH_SS :: u8 where "OPCODE_PUSH_SS = 0x16"
definition OPCODE_PUSH_DS :: u8 where "OPCODE_PUSH_DS = 0x1E"
definition OPCODE_0x0F_PUSH_FS :: u8 where "OPCODE_0x0F_PUSH_FS = 0xA0"
definition OPCODE_0x0F_PUSH_GS :: u8 where "OPCODE_0x0F_PUSH_GS = 0xA8"
definition OPCODE_POP_ES :: u8 where "OPCODE_POP_ES = 0x07"
definition OPCODE_POP_SS :: u8 where "OPCODE_POP_SS = 0x17"
definition OPCODE_POP_DS :: u8 where "OPCODE_POP_DS = 0x1F"
definition OPCODE_0x0F_POP_FS :: u8 where "OPCODE_0x0F_POP_FS = 0xA1"
definition OPCODE_0x0F_POP_GS :: u8 where "OPCODE_0x0F_POP_GS = 0xA9"
definition OPCODE_JMP_FAR_DIRECT :: u8 where "OPCODE_JMP_FAR_DIRECT = 0xEA"
definition OPCODE_0xFF :: u8 where "OPCODE_0xFF = 0xFF"
definition OPCODE_0xFF_JMP_FAR_INDIRECT :: "3 word" where "OPCODE_0xFF_JMP_FAR_INDIRECT = 0x05"
definition OPCODE_RETF :: u8 where "OPCODE_RETF = 0xCB"
definition OPCODE_0x0F_LSS :: u8 where "OPCODE_0x0F_LSS = 0xB2"
definition OPCODE_MOVSB :: u8 where "OPCODE_MOVSB = 0xA4"
definition OPCODE_MOVS :: u8 where "OPCODE_MOVS = 0xA5"
definition OPCODE_STOSB :: u8 where "OPCODE_STOSB = 0xAA"
definition OPCODE_STOS :: u8 where "OPCODE_STOS = 0xAB"
definition OPCODE_0x0F_MOVZX_RM8_TO_R :: u8 where "OPCODE_0x0F_MOVZX_RM8_TO_R = 0xB6"
definition OPCODE_0x0F_MOVZX_RM16_TO_R :: u8 where "OPCODE_0x0F_MOVZX_RM16_TO_R = 0xB7"
definition OPCODE_0xFF_PUSH :: "3 word" where "OPCODE_0xFF_PUSH = 0x06"
definition OPCODE_0x8F :: u8 where "OPCODE_0x8F = 0x8F"
definition OPCODE_0x8F_POP :: "3 word" where "OPCODE_0x8F_POP = 0x00"
definition OPCODE_0x0F_0xBA :: u8 where "OPCODE_0x0F_0xBA = 0xBA"
definition OPCODE_0x0F_0xBA_BT :: "3 word" where "OPCODE_0x0F_0xBA_BT = 0x4"

lemmas opcode_defs = OPCODE_0x0F_def OPCODE_0x0F_MOV_TO_CR_def OPCODE_0x0F_MOV_FROM_CR_def OPCODE_0x0F_MOV_TO_DR_def
  OPCODE_0x0F_MOV_FROM_DR_def OPCODE_0x0F_CLTS_def OPCODE_HLT_def OPCODE_CLI_def OPCODE_STI_def OPCODE_PUSHF_def OPCODE_POPF_def
  OPCODE_IRET_def OPCODE_0x0F_INVD_def OPCODE_0x0F_WBINVD_def OPCODE_0x0F_0x01_def OPCODE_0x0F_0x01_LGDT_def OPCODE_0x0F_0x01_LIDT_def
  OPCODE_0x0F_0x01_SMSW_def OPCODE_0x0F_0x01_LMSW_def OPCODE_0x0F_0x01_INVLPG_def OPCODE_0x0F_RDMSR_def OPCODE_0x0F_WRMSR_def OPCODE_INT_def
  OPCODE_INT3_def OPCODE_INTO_def OPCODE_INB_IMM_def OPCODE_IN_IMM_def OPCODE_INB_DX_def OPCODE_IN_DX_def OPCODE_INSB_def OPCODE_INS_def
  OPCODE_OUTB_IMM_def OPCODE_OUT_IMM_def OPCODE_OUTB_DX_def OPCODE_OUT_DX_def OPCODE_OUTSB_def OPCODE_OUTS_def OPCODE_MOV_FROM_SR_def
  OPCODE_MOV_TO_SR_def OPCODE_PUSH_ES_def OPCODE_PUSH_CS_def OPCODE_PUSH_SS_def OPCODE_PUSH_DS_def OPCODE_0x0F_PUSH_FS_def
  OPCODE_0x0F_PUSH_GS_def OPCODE_POP_ES_def OPCODE_POP_SS_def OPCODE_POP_DS_def OPCODE_0x0F_POP_FS_def OPCODE_0x0F_POP_GS_def
  OPCODE_JMP_FAR_DIRECT_def OPCODE_0xFF_def OPCODE_0xFF_JMP_FAR_INDIRECT_def OPCODE_RETF_def OPCODE_0x0F_LSS_def OPCODE_MOVSB_def
  OPCODE_MOVS_def OPCODE_STOSB_def OPCODE_STOS_def OPCODE_0x0F_MOVZX_RM8_TO_R_def OPCODE_0x0F_MOVZX_RM16_TO_R_def OPCODE_0xFF_PUSH_def
  OPCODE_0x8F_def OPCODE_0x8F_POP_def OPCODE_0x0F_0xBA_def OPCODE_0x0F_0xBA_BT_def

section \<open>Port I/O\<close>

definition call_io :: "'d env \<Rightarrow> iotype \<Rightarrow> u32 \<Rightarrow> u64 \<Rightarrow> (ioact \<times> u64, 'd) exec" where
  "call_io E type port data = (let port = port AND 0xFFFF in effect (iofunc E port type port data))"

text \<open>The instruction pointer is moved unless an I/O function has moved it.\<close>

definition UPDATE_IP_unless_updated :: "op \<Rightarrow> (unit, 'd) exec" where
  "UPDATE_IP_unless_updated op = bind_exec (get updateip) (\<lambda>u. if \<not> u then UPDATE_IP op else ret ())"

definition clear_updateip :: "(unit, 'd) exec" where "clear_updateip = modify (\<lambda>g. g\<lparr>updateip := False\<rparr>)"

definition in_port :: "'d env \<Rightarrow> op \<Rightarrow> iotype \<Rightarrow> u32 \<Rightarrow> u64 \<Rightarrow> (unit, 'd) exec" where
  "in_port E op type port rax =
     seq_exec clear_updateip
    (bind_exec (call_io E type port rax) (\<lambda>(ioret, rax).
     case ioret of
       IOACT_RERUN \<Rightarrow> ret ()
     | IOACT_CONT \<Rightarrow> seq_exec (write_general_reg GENERAL_REG_RAX rax) (UPDATE_IP_unless_updated op)))"

definition out_port :: "'d env \<Rightarrow> op \<Rightarrow> iotype \<Rightarrow> u32 \<Rightarrow> u64 \<Rightarrow> (unit, 'd) exec" where
  "out_port E op type port rax =
     seq_exec clear_updateip
    (bind_exec (call_io E type port rax) (\<lambda>(ioret, rax).
     case ioret of IOACT_RERUN \<Rightarrow> ret () | IOACT_CONT \<Rightarrow> UPDATE_IP_unless_updated op))"

definition imm_port :: "op \<Rightarrow> u32" where "imm_port op = ucast (op_imm op AND 0xFF)"
definition dx_port :: "u64 \<Rightarrow> u32" where "dx_port rdx = ucast (rdx AND 0xFFFF)"

text \<open>64 bits become 32; an input of 32 bits clears the upper half of RAX.\<close>

definition io_optype :: "op \<Rightarrow> optype" where
  "io_optype op = (if op_optype op = OPTYPE_64BIT then OPTYPE_32BIT else op_optype op)"

definition old_rax :: "op \<Rightarrow> (u64, 'd) exec" where
  "old_rax op = (if io_optype op = OPTYPE_32BIT then ret 0 else read_general_reg GENERAL_REG_RAX)"

definition opcode_inb_imm :: "'d env \<Rightarrow> op \<Rightarrow> (unit, 'd) exec" where
  "opcode_inb_imm E op = bind_exec (read_general_reg GENERAL_REG_RAX) (\<lambda>rax. in_port E op IOTYPE_INB (imm_port op) rax)"

definition opcode_in_imm :: "'d env \<Rightarrow> op \<Rightarrow> (unit, 'd) exec" where
  "opcode_in_imm E op =
     bind_exec (old_rax op) (\<lambda>rax.
     in_port E op (if io_optype op = OPTYPE_16BIT then IOTYPE_INW else IOTYPE_INL) (imm_port op) rax)"

definition opcode_inb_dx :: "'d env \<Rightarrow> op \<Rightarrow> (unit, 'd) exec" where
  "opcode_inb_dx E op =
     bind_exec (read_general_reg GENERAL_REG_RAX) (\<lambda>rax.
     bind_exec (read_general_reg GENERAL_REG_RDX) (\<lambda>rdx. in_port E op IOTYPE_INB (dx_port rdx) rax))"

definition opcode_in_dx :: "'d env \<Rightarrow> op \<Rightarrow> (unit, 'd) exec" where
  "opcode_in_dx E op =
     bind_exec (read_general_reg GENERAL_REG_RDX) (\<lambda>rdx.
     bind_exec (old_rax op) (\<lambda>rax.
     in_port E op (if io_optype op = OPTYPE_16BIT then IOTYPE_INW else IOTYPE_INL) (dx_port rdx) rax))"

definition opcode_outb_imm :: "'d env \<Rightarrow> op \<Rightarrow> (unit, 'd) exec" where
  "opcode_outb_imm E op = bind_exec (read_general_reg GENERAL_REG_RAX) (\<lambda>rax. out_port E op IOTYPE_OUTB (imm_port op) rax)"

definition opcode_out_imm :: "'d env \<Rightarrow> op \<Rightarrow> (unit, 'd) exec" where
  "opcode_out_imm E op =
     bind_exec (read_general_reg GENERAL_REG_RAX) (\<lambda>rax.
     out_port E op (if io_optype op = OPTYPE_16BIT then IOTYPE_OUTW else IOTYPE_OUTL) (imm_port op) rax)"

definition opcode_outb_dx :: "'d env \<Rightarrow> op \<Rightarrow> (unit, 'd) exec" where
  "opcode_outb_dx E op =
     bind_exec (read_general_reg GENERAL_REG_RAX) (\<lambda>rax.
     bind_exec (read_general_reg GENERAL_REG_RDX) (\<lambda>rdx. out_port E op IOTYPE_OUTB (dx_port rdx) rax))"

definition opcode_out_dx :: "'d env \<Rightarrow> op \<Rightarrow> (unit, 'd) exec" where
  "opcode_out_dx E op =
     bind_exec (read_general_reg GENERAL_REG_RAX) (\<lambda>rax.
     bind_exec (read_general_reg GENERAL_REG_RDX) (\<lambda>rdx.
     out_port E op (if io_optype op = OPTYPE_16BIT then IOTYPE_OUTW else IOTYPE_OUTL) (dx_port rdx) rax))"

section \<open>String instructions\<close>

text \<open>What is done with the data between reading and writing: whether to go on, and the data.\<close>

type_synonym 'd execinst = "u64 \<Rightarrow> nat \<Rightarrow> (bool \<times> u64, 'd) exec"

definition execinst_io :: "'d env \<Rightarrow> iotype \<Rightarrow> 'd execinst" where
  "execinst_io E type data bytes =
     bind_exec (read_general_reg GENERAL_REG_RDX) (\<lambda>rdx.
     bind_exec (call_io E type (dx_port rdx) data) (\<lambda>(a, data). ret (a = IOACT_CONT, data)))"

definition execinst_stos :: "'d execinst" where
  "execinst_stos data bytes = bind_exec (read_general_reg GENERAL_REG_RAX) (\<lambda>rax. ret (True, rax))"

definition execinst_movs :: "'d execinst" where "execinst_movs data bytes = ret (True, data)"

definition addr_bytes :: "op \<Rightarrow> nat" where
  "addr_bytes op = (case op_addrtype op of ADDRTYPE_16BIT \<Rightarrow> 2 | ADDRTYPE_32BIT \<Rightarrow> 4 | ADDRTYPE_64BIT \<Rightarrow> 8)"

definition rep_bytes :: "op \<Rightarrow> nat" where
  "rep_bytes op = (case op_reptype op of REPTYPE_16BIT \<Rightarrow> 2 | REPTYPE_32BIT \<Rightarrow> 4 | REPTYPE_64BIT \<Rightarrow> 8)"

definition repeats :: "op \<Rightarrow> bool" where "repeats op \<longleftrightarrow> p_repe (op_prefix op) \<or> p_repne (op_prefix op)"

text \<open>The count that is left after this turn; \<open>None\<close> when it is used up before.\<close>

definition rep_count :: "op \<Rightarrow> (u64 option, 'd) exec" where
  "rep_count op =
     (if repeats op then
        bind_exec (read_general_reg GENERAL_REG_RCX) (\<lambda>rcx.
        let cnt = low (rep_bytes op) rcx in
        if cnt = 0 then ret None
        else seq_exec (write_general_reg GENERAL_REG_RCX (put_low (rep_bytes op) rcx (cnt - 1))) (ret (Some (cnt - 1))))
      else ret (Some 0))"

text \<open>The next value of SI or DI.\<close>

definition advance_reg :: "op \<Rightarrow> nat \<Rightarrow> u64 \<Rightarrow> u64 \<Rightarrow> u64" where
  "advance_reg op bytes rflags r =
     (let offset = low (addr_bytes op) r in
      put_low (addr_bytes op) r (if any_bit rflags RFLAGS_DF_BIT then offset - of_nat bytes else offset + of_nat bytes))"

definition string_segr :: "op \<Rightarrow> sreg" where
  "string_segr op = (if p_seg (op_prefix op) = SREG_DEFAULT then SREG_DS else p_seg (op_prefix op))"

text \<open>One element, with the registers SI and DI in local variables.\<close>

definition string_element ::
  "'d env \<Rightarrow> op \<Rightarrow> bool \<Rightarrow> bool \<Rightarrow> nat \<Rightarrow> 'd execinst \<Rightarrow> u64 \<Rightarrow> u64 \<times> u64 \<times> u64 \<Rightarrow> ((u64 \<times> u64 \<times> u64) option, 'd) exec" where
  "string_element E op rds wrs bytes inst rflags = (\<lambda>(regr, regw, data).
     bind_exec (if rds then LGUESTSEG_READ E bytes op (string_segr op) (low (addr_bytes op) regr) data else ret data) (\<lambda>data.
     bind_exec (inst data bytes) (\<lambda>(go, data).
     if \<not> go then ret None
     else seq_exec (if wrs then LGUESTSEG_WRITE E bytes op SREG_ES (low (addr_bytes op) regw) data else ret ())
       (ret (Some (if rds then advance_reg op bytes rflags regr else regr, if wrs then advance_reg op bytes rflags regw else regw, data))))))"

text \<open>From \<open>reploop\<close> on.\<close>

primrec string_loop ::
  "nat \<Rightarrow> 'd env \<Rightarrow> op \<Rightarrow> bool \<Rightarrow> bool \<Rightarrow> nat \<Rightarrow> 'd execinst \<Rightarrow> u64 \<Rightarrow> nat \<Rightarrow> u64 \<times> u64 \<times> u64 \<Rightarrow> (unit, 'd) exec" where
  "string_loop 0 E op rds wrs bytes inst rflags loopcount v = (\<lambda>g. Inl OutOfFuel)"
| "string_loop (Suc fuel) E op rds wrs bytes inst rflags loopcount v =
     bind_exec (rep_count op) (\<lambda>c.
     case c of
       None \<Rightarrow> UPDATE_IP op
     | Some cnt \<Rightarrow>
         bind_exec (string_element E op rds wrs bytes inst rflags v) (\<lambda>r.
         case r of
           None \<Rightarrow> ret ()
         | Some (regr, regw, data) \<Rightarrow>
             if cnt \<noteq> 0 \<and> loopcount \<noteq> 0 then
               string_loop fuel E op rds wrs bytes inst rflags (if any_bit rflags RFLAGS_IF_BIT then loopcount - 1 else loopcount) (regr, regw, data)
             else
               seq_exec (if rds then write_general_reg GENERAL_REG_RSI regr else ret ())
              (seq_exec (if wrs then write_general_reg GENERAL_REG_RDI regw else ret ())
                        (if cnt = 0 then UPDATE_IP op else ret ()))))"

text \<open>A turn for each value of the counter is enough.\<close>

definition string_instruction :: "'d env \<Rightarrow> op \<Rightarrow> bool \<Rightarrow> bool \<Rightarrow> nat \<Rightarrow> 'd execinst \<Rightarrow> (unit, 'd) exec" where
  "string_instruction E op rds wrs bytes inst =
     bind_exec read_flags (\<lambda>rflags.
     bind_exec (if wrs then read_general_reg GENERAL_REG_RDI else ret (uninit E ''regw'')) (\<lambda>regw.
     bind_exec (if rds then read_general_reg GENERAL_REG_RSI else ret (uninit E ''regr'')) (\<lambda>regr.
     bind_exec (read_general_reg GENERAL_REG_RCX) (\<lambda>rcx.
     string_loop (unat (low (rep_bytes op) rcx) + 1) E op rds wrs bytes inst rflags 16 (regr, regw, uninit E ''data'')))))"

definition io_str :: "'d env \<Rightarrow> op \<Rightarrow> iotype \<Rightarrow> nat \<Rightarrow> (unit, 'd) exec" where
  "io_str E op type bytes =
     (let wrs = (type = IOTYPE_INB \<or> type = IOTYPE_INW \<or> type = IOTYPE_INL)
      in string_instruction E op (\<not> wrs) wrs bytes (execinst_io E type))"

definition opcode_insb :: "'d env \<Rightarrow> op \<Rightarrow> (unit, 'd) exec" where "opcode_insb E op = io_str E op IOTYPE_INB 1"

definition opcode_ins :: "'d env \<Rightarrow> op \<Rightarrow> (unit, 'd) exec" where
  "opcode_ins E op =
     (let op = op\<lparr>op_optype := io_optype op\<rparr> in
      if op_optype op = OPTYPE_16BIT then io_str E op IOTYPE_INW 2 else io_str E op IOTYPE_INL 4)"

definition opcode_outsb :: "'d env \<Rightarrow> op \<Rightarrow> (unit, 'd) exec" where "opcode_outsb E op = io_str E op IOTYPE_OUTB 1"

definition opcode_outs :: "'d env \<Rightarrow> op \<Rightarrow> (unit, 'd) exec" where
  "opcode_outs E op =
     (let op = op\<lparr>op_optype := io_optype op\<rparr> in
      if op_optype op = OPTYPE_16BIT then io_str E op IOTYPE_OUTW 2 else io_str E op IOTYPE_OUTL 4)"

definition opcode_stosb :: "'d env \<Rightarrow> op \<Rightarrow> (unit, 'd) exec" where
  "opcode_stosb E op = string_instruction E op False True 1 execinst_stos"

definition opcode_stos :: "'d env \<Rightarrow> op \<Rightarrow> (unit, 'd) exec" where
  "opcode_stos E op = string_instruction E op False True (opsize op 2) execinst_stos"

definition opcode_movsb :: "'d env \<Rightarrow> op \<Rightarrow> (unit, 'd) exec" where
  "opcode_movsb E op = string_instruction E op True True 1 execinst_movs"

definition opcode_movs :: "'d env \<Rightarrow> op \<Rightarrow> (unit, 'd) exec" where
  "opcode_movs E op = string_instruction E op True True (opsize op 2) execinst_movs"

section \<open>Flags, interrupts and the stack\<close>

definition opcode_hlt :: "op \<Rightarrow> (unit, 'd) exec" where "opcode_hlt op = seq_exec (UPDATE_IP op) cpu_emul_hlt"
definition opcode_cli :: "op \<Rightarrow> (unit, 'd) exec" where "opcode_cli op = seq_exec (UPDATE_IP op) cpu_emul_cli"
definition opcode_sti :: "'d env \<Rightarrow> op \<Rightarrow> (unit, 'd) exec" where "opcode_sti E op = seq_exec (UPDATE_IP op) (cpu_emul_sti E)"

definition DEBUG_UNIMPLEMENTED :: "('a, 'd) exec" where "DEBUG_UNIMPLEMENTED = stop ''NOT IMPLEMENTED''"

definition opcode_pushf :: "'d env \<Rightarrow> op \<Rightarrow> (unit, 'd) exec" where
  "opcode_pushf E op =
     (if longmode op then stop ''64bit PUSHF not supported''
      else
        bind_exec cpu_stack_get (\<lambda>st.
        bind_exec read_flags (\<lambda>rflags.
        bind_exec (cpu_stack_push E st (rflags AND NOT (RFLAGS_VM_BIT OR RFLAGS_RF_BIT)) (op_optype op)) (\<lambda>st.
        seq_exec (cpu_stack_set st) (UPDATE_IP op)))))"

text \<open>The flags that POPF and IRET load: some bits keep their old value.\<close>

definition RFLAGS_KEPT :: u64 where
  "RFLAGS_KEPT = RFLAGS_RF_BIT OR RFLAGS_VM_BIT OR RFLAGS_VIF_BIT OR RFLAGS_VIP_BIT OR RFLAGS_IOPL_MASK"

definition popped_flags :: "u64 \<Rightarrow> u64 \<Rightarrow> u64" where
  "popped_flags orflags rflags =
     (((rflags AND (RFLAGS_SYS_MASK OR RFLAGS_NONSYS_MASK)) OR RFLAGS_ALWAYS1_BIT) AND NOT RFLAGS_KEPT) OR (orflags AND RFLAGS_KEPT)"

definition enable_if_set :: "'d env \<Rightarrow> u64 \<Rightarrow> (unit, 'd) exec" where
  "enable_if_set E rflags = (if any_bit rflags RFLAGS_IF_BIT then cpu_emul_sti E else ret ())"

definition opcode_popf :: "'d env \<Rightarrow> op \<Rightarrow> (unit, 'd) exec" where
  "opcode_popf E op =
     (if longmode op then stop ''64bit POPF not supported''
      else
        bind_exec cpu_stack_get (\<lambda>st.
        bind_exec read_flags (\<lambda>orflags.
        bind_exec (cpu_stack_pop E st orflags (op_optype op)) (\<lambda>(rflags, st). let rflags = popped_flags orflags rflags in
        seq_exec (write_flags rflags)
       (seq_exec (UPDATE_IP op)
       (seq_exec (cpu_stack_set st)
                 (enable_if_set E rflags)))))))"

text \<open>\<open>cs\<close> has two bytes: a pop of four is an access outside of it.\<close>

definition pop_u16 :: "'d env \<Rightarrow> u64 \<Rightarrow> optype \<Rightarrow> (u64 \<times> u64, 'd) exec" where
  "pop_u16 E st type =
     bind_exec (cpu_stack_pop E st 0 type) (\<lambda>r. if type = OPTYPE_16BIT then ret r else (\<lambda>g. Inl OutOfBounds))"

definition opcode_iret :: "'d env \<Rightarrow> op \<Rightarrow> (unit, 'd) exec" where
  "opcode_iret E op =
     (if longmode op then stop ''64bit IRET not supported''
      else if op_mode op = CPUMODE_REAL then
        bind_exec cpu_stack_get (\<lambda>st.
        bind_exec read_flags (\<lambda>orflags.
        bind_exec (cpu_stack_pop E st 0 (op_optype op)) (\<lambda>(rip, st).
        bind_exec (pop_u16 E st (op_optype op)) (\<lambda>(cs, st).
        bind_exec (cpu_stack_pop E st orflags (op_optype op)) (\<lambda>(rflags, st). let rflags = popped_flags orflags rflags in
        seq_exec (write_flags rflags)
       (seq_exec (write_realmode_seg SREG_CS (ucast cs))
       (seq_exec (write_ip rip)
       (seq_exec (cpu_stack_set st)
                 (enable_if_set E rflags)))))))))
      else DEBUG_UNIMPLEMENTED)"

definition opcode_int :: "'d env \<Rightarrow> op \<Rightarrow> (unit, 'd) exec" where
  "opcode_int E op =
     (if op_mode op = CPUMODE_REAL then seq_exec (UPDATE_IP op) (cpu_emul_realmode_int E (ucast (op_imm op AND 0xFF)))
      else DEBUG_UNIMPLEMENTED)"

definition opcode_int3 :: "'d env \<Rightarrow> op \<Rightarrow> (unit, 'd) exec" where
  "opcode_int3 E op =
     (if op_mode op = CPUMODE_REAL then seq_exec (UPDATE_IP op) (cpu_emul_realmode_int E 3) else DEBUG_UNIMPLEMENTED)"

definition opcode_into :: "op \<Rightarrow> (unit, 'd) exec" where "opcode_into op = DEBUG_UNIMPLEMENTED"

definition push_value :: "'d env \<Rightarrow> op \<Rightarrow> u64 \<Rightarrow> (unit, 'd) exec" where
  "push_value E op data =
     bind_exec cpu_stack_get (\<lambda>st.
     bind_exec (cpu_stack_push E st data (op_optype op)) (\<lambda>st.
     seq_exec (cpu_stack_set st) (UPDATE_IP op)))"

definition opcode_push_sr :: "'d env \<Rightarrow> op \<Rightarrow> sreg \<Rightarrow> (unit, 'd) exec" where
  "opcode_push_sr E op seg =
     (if longmode op then stop ''64bit PUSH SREG not supported''
      else bind_exec (read_sreg_sel seg) (\<lambda>sel16. push_value E op (ucast sel16)))"

definition opcode_ff_push :: "'d env \<Rightarrow> op \<Rightarrow> (unit, 'd) exec" where
  "opcode_ff_push E op =
     (if longmode op then stop ''64bit PUSH not supported''
      else
        bind_exec
          (if op_optype op = OPTYPE_16BIT then bind_exec (read_modrm16 E op 0 (uninit E ''data16'')) (\<lambda>d. ret (low 2 d))
           else bind_exec (read_modrm32 E op 0 (uninit E ''data'')) (\<lambda>d. ret (low 4 d)))
          (push_value E op))"

definition opcode_8f_pop :: "'d env \<Rightarrow> op \<Rightarrow> (unit, 'd) exec" where
  "opcode_8f_pop E op =
     (if longmode op then stop ''64bit POP not supported''
      else
        bind_exec cpu_stack_get (\<lambda>st.
        bind_exec (cpu_stack_pop E st (uninit E ''data'') (op_optype op)) (\<lambda>(data, st).
        seq_exec (if op_optype op = OPTYPE_16BIT then write_modrm16 E op 0 data else write_modrm32 E op 0 data)
       (seq_exec (UPDATE_IP op)
                 (cpu_stack_set st)))))"

section \<open>Control registers, segments and descriptor tables\<close>

definition opcode_mov_to_cr :: "'d env \<Rightarrow> op \<Rightarrow> (unit, 'd) exec" where
  "opcode_mov_to_cr E op =
     bind_exec (get_reg (modrm_brm op)) (\<lambda>cr.
     seq_exec (effect_unit (vmctl_write_control_reg E (reg_num (modrm_rreg op)) (if \<not> longmode op then cr AND 0xFFFFFFFF else cr)))
              (UPDATE_IP op))"

definition opcode_mov_from_cr :: "op \<Rightarrow> (unit, 'd) exec" where
  "opcode_mov_from_cr op =
     bind_exec (read_control_reg (reg_num (modrm_rreg op))) (\<lambda>cr.
     seq_exec (set_reg (modrm_brm op) (if \<not> longmode op then cr AND 0xFFFFFFFF else cr)) (UPDATE_IP op))"

definition opcode_mov_to_dr :: "op \<Rightarrow> (unit, 'd) exec" where "opcode_mov_to_dr op = DEBUG_UNIMPLEMENTED"
definition opcode_mov_from_dr :: "op \<Rightarrow> (unit, 'd) exec" where "opcode_mov_from_dr op = DEBUG_UNIMPLEMENTED"

definition CR0_TS_BIT :: u64 where "CR0_TS_BIT = 0x8"

definition opcode_clts :: "'d env \<Rightarrow> op \<Rightarrow> (unit, 'd) exec" where
  "opcode_clts E op =
     bind_exec (read_control_reg 0) (\<lambda>val.
     seq_exec (effect_unit (vmctl_write_control_reg E 0 (val AND NOT CR0_TS_BIT))) (UPDATE_IP op))"

definition opcode_invd :: "op \<Rightarrow> (unit, 'd) exec" where "opcode_invd op = DEBUG_UNIMPLEMENTED"

definition opcode_wbinvd :: "'d env \<Rightarrow> op \<Rightarrow> (unit, 'd) exec" where
  "opcode_wbinvd E op = seq_exec (modify (wbinvd E)) (UPDATE_IP op)"

definition opcode_rdmsr :: "'d env \<Rightarrow> op \<Rightarrow> (unit, 'd) exec" where
  "opcode_rdmsr E op = bind_exec (cpu_emul_rdmsr E) (\<lambda>e. if e then err VMMERR_MSR_FAULT else UPDATE_IP op)"

definition opcode_wrmsr :: "'d env \<Rightarrow> op \<Rightarrow> (unit, 'd) exec" where
  "opcode_wrmsr E op = bind_exec (cpu_emul_wrmsr E) (\<lambda>e. if e then err VMMERR_MSR_FAULT else UPDATE_IP op)"

text \<open>Base and limit of a descriptor table, from memory.\<close>

definition read_dtr :: "'d env \<Rightarrow> op \<Rightarrow> (u64 \<times> u64, 'd) exec" where
  "read_dtr E op =
     bind_exec (read_modrm16 E op 0 (uninit E ''limit'')) (\<lambda>limit.
     bind_exec (read_modrm32 E op 2 (uninit E ''base'')) (\<lambda>base.
     ret (if op_optype op = OPTYPE_16BIT then low 4 base AND 0x00FFFFFF else low 4 base, low 2 limit)))"

definition opcode_lgdt :: "'d env \<Rightarrow> op \<Rightarrow> (unit, 'd) exec" where
  "opcode_lgdt E op =
     (if modrm_brm op \<noteq> REG_NO then err VMMERR_EXCEPTION_UD
      else if longmode op then stop ''64bit LGDT not supported''
      else bind_exec (read_dtr E op) (\<lambda>dtr. seq_exec (modify (\<lambda>g. g\<lparr>gdtr := dtr\<rparr>)) (UPDATE_IP op)))"

definition opcode_lidt :: "'d env \<Rightarrow> op \<Rightarrow> (unit, 'd) exec" where
  "opcode_lidt E op =
     (if modrm_brm op \<noteq> REG_NO then err VMMERR_EXCEPTION_UD
      else if longmode op then stop ''64bit LIDT not supported''
      else bind_exec (read_dtr E op) (\<lambda>dtr. seq_exec (modify (\<lambda>g. g\<lparr>idtr := dtr\<rparr>)) (UPDATE_IP op)))"

definition opcode_smsw :: "'d env \<Rightarrow> op \<Rightarrow> (unit, 'd) exec" where
  "opcode_smsw E op = bind_exec (read_control_reg 0) (\<lambda>cr. seq_exec (idata_wr E op O_M 2 cr) (UPDATE_IP op))"

definition opcode_lmsw :: "'d env \<Rightarrow> op \<Rightarrow> (unit, 'd) exec" where
  "opcode_lmsw E op =
     (let op = op\<lparr>op_optype := OPTYPE_16BIT\<rparr> in
      bind_exec (idata_rd E op O_M 2 (uninit E ''data'')) (\<lambda>data.
      bind_exec (read_control_reg 0) (\<lambda>cr.
      seq_exec (effect_unit (vmctl_write_control_reg E 0 ((cr AND NOT 0xF) OR (data AND 0xF)))) (UPDATE_IP op))))"

definition opcode_invlpg :: "'d env \<Rightarrow> op \<Rightarrow> (unit, 'd) exec" where
  "opcode_invlpg E op =
     bind_exec (read_sreg_base (modrm_seg op)) (\<lambda>base.
     seq_exec (effect_unit (vmctl_invlpg E (base + modrm_off op 0))) (UPDATE_IP op))"

text \<open>The selector is a variable of two bytes; a wider operand is an access outside of it.\<close>

definition opcode_mov_from_sr :: "'d env \<Rightarrow> op \<Rightarrow> (unit, 'd) exec" where
  "opcode_mov_from_sr E op =
     bind_exec (read_sreg_sel (unat (m_reg (op_modrm op)))) (\<lambda>sel.
     let op = (if modrm_brm op = REG_NO then op\<lparr>op_optype := OPTYPE_16BIT\<rparr> else op) in
     if op_optype op = OPTYPE_16BIT then seq_exec (idata_wr E op O_M 2 (ucast sel)) (UPDATE_IP op)
     else (\<lambda>g. Inl OutOfBounds))"

text \<open>Loading a segment register is left to \<open>writing_sreg\<close>, which asks for it with \<open>VMMERR_SW\<close>.\<close>

definition load_sreg :: "'d env \<Rightarrow> sreg \<Rightarrow> (unit, 'd) exec" where
  "load_sreg E s = bind_exec (effect (vmctl_writing_sreg E s)) (\<lambda>e. if e = VMMERR_SW then err e else DEBUG_UNIMPLEMENTED)"

definition opcode_mov_to_sr :: "'d env \<Rightarrow> op \<Rightarrow> (unit, 'd) exec" where "opcode_mov_to_sr E op = load_sreg E (unat (m_reg (op_modrm op)))"
definition opcode_pop_sr :: "'d env \<Rightarrow> op \<Rightarrow> sreg \<Rightarrow> (unit, 'd) exec" where "opcode_pop_sr E op seg = load_sreg E seg"
definition opcode_jmp_far_direct :: "'d env \<Rightarrow> op \<Rightarrow> (unit, 'd) exec" where "opcode_jmp_far_direct E op = load_sreg E SREG_CS"
definition opcode_jmp_far_indirect :: "'d env \<Rightarrow> op \<Rightarrow> (unit, 'd) exec" where "opcode_jmp_far_indirect E op = load_sreg E SREG_CS"
definition opcode_retf :: "'d env \<Rightarrow> op \<Rightarrow> (unit, 'd) exec" where "opcode_retf E op = load_sreg E SREG_CS"

definition opcode_0f_lss :: "'d env \<Rightarrow> op \<Rightarrow> (unit, 'd) exec" where
  "opcode_0f_lss E op =
     (if longmode op then stop ''64bit LSS(0F) not supported''
      else if modrm_brm op \<noteq> REG_NO then stop ''LSS(0F) reg''
      else if op_mode op \<noteq> CPUMODE_REAL then stop ''LSS(0F) protected mode''
      else if op_optype op = OPTYPE_16BIT then
        bind_exec (read_modrm16 E op 0 (uninit E ''data16'')) (\<lambda>data.
        bind_exec (read_modrm16 E op 2 (uninit E ''seg'')) (\<lambda>seg.
        seq_exec (write_realmode_seg SREG_SS (ucast seg))
       (seq_exec (set_reg16 (modrm_rreg op) data)
                 (UPDATE_IP op))))
      else
        bind_exec (read_modrm32 E op 0 (uninit E ''data'')) (\<lambda>data.
        bind_exec (read_modrm16 E op 4 (uninit E ''seg'')) (\<lambda>seg.
        seq_exec (write_realmode_seg SREG_SS (ucast seg))
       (seq_exec (set_reg (modrm_rreg op) (low 4 data))
                 (UPDATE_IP op)))))"

section \<open>Moves with extension, and bit test\<close>

definition opcode_movzx_rm8_to_r :: "'d env \<Rightarrow> op \<Rightarrow> (unit, 'd) exec" where
  "opcode_movzx_rm8_to_r E op =
     bind_exec (read_modrm8 E op 0 (uninit E ''d8'')) (\<lambda>d. seq_exec (idata_wr E op O_R 2 (low 1 d)) (UPDATE_IP op))"

definition opcode_movzx_rm16_to_r :: "'d env \<Rightarrow> op \<Rightarrow> (unit, 'd) exec" where
  "opcode_movzx_rm16_to_r E op =
     bind_exec (read_modrm16 E op 0 (uninit E ''d16'')) (\<lambda>d. seq_exec (idata_wr E op O_R 2 (low 2 d)) (UPDATE_IP op))"

text \<open>
  \<open>1 << k\<close> is an \<open>int\<close>, which is sign-extended; a shift by 32 or more has no defined value.
\<close>

definition bt_mask :: "'d env \<Rightarrow> nat \<Rightarrow> u64" where
  "bt_mask E k = (if k < 32 then scast (push_bit k 1 :: u32) else uninit E ''mask'')"

definition opcode_bt_imm :: "'d env \<Rightarrow> op \<Rightarrow> (unit, 'd) exec" where
  "opcode_bt_imm E op =
     bind_exec (idata_rd E op O_M 2 (uninit E ''data'')) (\<lambda>data.
     let mask = (case op_optype op of
           OPTYPE_16BIT \<Rightarrow> bt_mask E (unat (op_imm op AND 0xF)) | OPTYPE_32BIT \<Rightarrow> bt_mask E (unat (op_imm op AND 0x1F))
         | OPTYPE_64BIT \<Rightarrow> bt_mask E (unat (op_imm op AND 0x3F))) in
     bind_exec read_flags (\<lambda>rflags.
     seq_exec (write_flags (if any_bit data mask then rflags OR RFLAGS_CF_BIT else rflags AND NOT RFLAGS_CF_BIT))
              (UPDATE_IP op)))"

section \<open>The interpreter\<close>

definition read_operand :: "'d env \<Rightarrow> op \<Rightarrow> (op, 'd) exec" where
  "read_operand E op = bind_exec (read_modrm_b E op) (get_modrm E)"

text \<open>A byte of an immediate is stored in the low byte of \<open>imm\<close>.\<close>

definition read_imm_b :: "'d env \<Rightarrow> op \<Rightarrow> (op, 'd) exec" where
  "read_imm_b E op = bind_exec (read_next_b E op) (\<lambda>(b, op). ret (op\<lparr>op_imm := put_low 1 (op_imm op) (ucast b)\<rparr>))"

text \<open>The labels \<open>grp_imme1\<close> and \<open>grp_imme2\<close>: the immediate is sign-extended.\<close>

definition grp_imme1 :: "'d env \<Rightarrow> op \<Rightarrow> idata \<Rightarrow> (unit, 'd) exec" where
  "grp_imme1 E op i =
     bind_exec (read_imm_b E (op\<lparr>op_imm := 0\<rparr>)) (\<lambda>op.
     opcode_idata E
       (if id_len i = 2 \<and> any_bit (op_imm op) 0x80 then op\<lparr>op_imm := op_imm op OR 0xFFFFFFFFFFFFFF00\<rparr> else op) i)"

definition grp_imme2 :: "'d env \<Rightarrow> op \<Rightarrow> idata \<Rightarrow> (unit, 'd) exec" where
  "grp_imme2 E op i =
     bind_exec (if op_optype op = OPTYPE_16BIT then bind_exec (READ_NEXT_W E op) (\<lambda>(d, op). ret (ucast d :: u64, op))
                else bind_exec (READ_NEXT_L E op) (\<lambda>(d, op). ret (ucast d, op))) (\<lambda>(d, op).
     opcode_idata E
       (op\<lparr>op_imm := (if op_optype op = OPTYPE_64BIT \<and> any_bit d 0x80000000 then d OR 0xFFFFFFFF00000000 else d)\<rparr>) i)"

text \<open>The cases of \<open>grp_special\<close> that group 3 leads to.\<close>

definition grp3_special :: "'d env \<Rightarrow> op \<Rightarrow> idata \<Rightarrow> (unit, 'd) exec" where
  "grp3_special E op i =
     (case id_type i of
        I_IMMED \<Rightarrow> if id_len i = 1 then grp_imme1 E op i else grp_imme2 E op i
      | I_NOMOR \<Rightarrow> opcode_idata E op i
      | _ \<Rightarrow> err VMMERR_UNSUPPORTED_OPCODE)"

definition grp_special :: "'d env \<Rightarrow> op \<Rightarrow> idata \<Rightarrow> (unit, 'd) exec" where
  "grp_special E op i =
     (case id_type i of
        I_MODRM \<Rightarrow> bind_exec (read_operand E op) (\<lambda>op. opcode_idata E op i)
      | I_MIMM1 \<Rightarrow> bind_exec (read_operand E op) (\<lambda>op. grp_imme1 E op i)
      | I_IMME1 \<Rightarrow> grp_imme1 E op i
      | I_MIMM2 \<Rightarrow> bind_exec (read_operand E op) (\<lambda>op. grp_imme2 E op i)
      | I_IMME2 \<Rightarrow> grp_imme2 E op i
      | I_MOFFS \<Rightarrow> bind_exec (read_moffs E op) (\<lambda>op. opcode_idata E op i)
      | I_MGRP3 \<Rightarrow> bind_exec (read_operand E op) (\<lambda>op. grp3_special E op ((grp3 ! unat (m_reg (op_modrm op)))\<lparr>id_len := id_len i\<rparr>))
      | _ \<Rightarrow> grp3_special E op i)"

definition parse_opcode_0x0f_0x01 :: "'d env \<Rightarrow> op \<Rightarrow> (unit, 'd) exec" where
  "parse_opcode_0x0f_0x01 E op =
     (let r = m_reg (op_modrm op) in
      if r = OPCODE_0x0F_0x01_LGDT then bind_exec (get_modrm E op) (opcode_lgdt E)
      else if r = OPCODE_0x0F_0x01_LIDT then bind_exec (get_modrm E op) (opcode_lidt E)
      else if r = OPCODE_0x0F_0x01_SMSW then bind_exec (get_modrm E op) (opcode_smsw E)
      else if r = OPCODE_0x0F_0x01_LMSW then bind_exec (get_modrm E op) (opcode_lmsw E)
      else if r = OPCODE_0x0F_0x01_INVLPG then bind_exec (get_modrm E op) (opcode_invlpg E)
      else err VMMERR_UNSUPPORTED_OPCODE)"

definition parse_opcode_0x0f_0xba :: "'d env \<Rightarrow> op \<Rightarrow> (unit, 'd) exec" where
  "parse_opcode_0x0f_0xba E op =
     (if m_reg (op_modrm op) = OPCODE_0x0F_0xBA_BT then
        bind_exec (get_modrm E op) (\<lambda>op. bind_exec (read_imm_b E op) (opcode_bt_imm E))
      else err VMMERR_UNSUPPORTED_OPCODE)"

definition parse_opcode_0x0f :: "'d env \<Rightarrow> u8 \<Rightarrow> op \<Rightarrow> (unit, 'd) exec" where
  "parse_opcode_0x0f E code op =
     (if code = OPCODE_0x0F_0x01 then bind_exec (read_modrm_b E op) (parse_opcode_0x0f_0x01 E)
      else if code = OPCODE_0x0F_0xBA then bind_exec (read_modrm_b E op) (parse_opcode_0x0f_0xba E)
      else if code = OPCODE_0x0F_MOV_TO_CR then bind_exec (read_modrm_b E op) (opcode_mov_to_cr E)
      else if code = OPCODE_0x0F_MOV_FROM_CR then bind_exec (read_modrm_b E op) opcode_mov_from_cr
      else if code = OPCODE_0x0F_MOV_TO_DR then bind_exec (read_modrm_b E op) opcode_mov_to_dr
      else if code = OPCODE_0x0F_MOV_FROM_DR then bind_exec (read_modrm_b E op) opcode_mov_from_dr
      else if code = OPCODE_0x0F_CLTS then opcode_clts E op
      else if code = OPCODE_0x0F_INVD then opcode_invd op
      else if code = OPCODE_0x0F_WBINVD then opcode_wbinvd E op
      else if code = OPCODE_0x0F_RDMSR then opcode_rdmsr E op
      else if code = OPCODE_0x0F_WRMSR then opcode_wrmsr E op
      else if code = OPCODE_0x0F_MOVZX_RM8_TO_R then bind_exec (read_operand E op) (opcode_movzx_rm8_to_r E)
      else if code = OPCODE_0x0F_MOVZX_RM16_TO_R then bind_exec (read_operand E op) (opcode_movzx_rm16_to_r E)
      else if longmode op then stop ''64bit instructions begin with 0x0F not supported''
      else if code = OPCODE_0x0F_PUSH_FS then opcode_push_sr E op SREG_FS
      else if code = OPCODE_0x0F_PUSH_GS then opcode_push_sr E op SREG_GS
      else if code = OPCODE_0x0F_POP_FS then opcode_pop_sr E op SREG_FS
      else if code = OPCODE_0x0F_POP_GS then opcode_pop_sr E op SREG_GS
      else if code = OPCODE_0x0F_LSS then bind_exec (read_operand E op) (opcode_0f_lss E)
      else err VMMERR_UNSUPPORTED_OPCODE)"

definition parse_opcode_0xff :: "'d env \<Rightarrow> op \<Rightarrow> (unit, 'd) exec" where
  "parse_opcode_0xff E op =
     (if m_reg (op_modrm op) = OPCODE_0xFF_JMP_FAR_INDIRECT then opcode_jmp_far_indirect E op
      else if m_reg (op_modrm op) = OPCODE_0xFF_PUSH then opcode_ff_push E op
      else err VMMERR_UNSUPPORTED_OPCODE)"

definition parse_opcode_0x8f :: "'d env \<Rightarrow> op \<Rightarrow> (unit, 'd) exec" where
  "parse_opcode_0x8f E op =
     (if m_reg (op_modrm op) = OPCODE_0x8F_POP then opcode_8f_pop E op else err VMMERR_UNSUPPORTED_OPCODE)"

text \<open>The \<open>switch\<close> over the opcode; what it does not list is looked up in the table.\<close>

definition exec_opcode :: "'d env \<Rightarrow> u8 \<Rightarrow> op \<Rightarrow> (unit, 'd) exec" where
  "exec_opcode E code op =
     (if code = OPCODE_0x0F then bind_exec (read_next_b E op) (\<lambda>(code, op). parse_opcode_0x0f E code op)
      else if code = OPCODE_HLT then opcode_hlt op
      else if code = OPCODE_CLI then opcode_cli op
      else if code = OPCODE_STI then opcode_sti E op
      else if code = OPCODE_PUSHF then opcode_pushf E op
      else if code = OPCODE_POPF then opcode_popf E op
      else if code = OPCODE_IRET then opcode_iret E op
      else if code = OPCODE_INT then bind_exec (read_imm_b E op) (opcode_int E)
      else if code = OPCODE_INT3 then opcode_int3 E op
      else if code = OPCODE_INTO then opcode_into op
      else if code = OPCODE_INB_IMM then bind_exec (read_imm_b E op) (opcode_inb_imm E)
      else if code = OPCODE_IN_IMM then bind_exec (read_imm_b E op) (opcode_in_imm E)
      else if code = OPCODE_INB_DX then opcode_inb_dx E op
      else if code = OPCODE_IN_DX then opcode_in_dx E op
      else if code = OPCODE_INSB then opcode_insb E op
      else if code = OPCODE_INS then opcode_ins E op
      else if code = OPCODE_OUTB_IMM then bind_exec (read_imm_b E op) (opcode_outb_imm E)
      else if code = OPCODE_OUT_IMM then bind_exec (read_imm_b E op) (opcode_out_imm E)
      else if code = OPCODE_OUTB_DX then opcode_outb_dx E op
      else if code = OPCODE_OUT_DX then opcode_out_dx E op
      else if code = OPCODE_OUTSB then opcode_outsb E op
      else if code = OPCODE_OUTS then opcode_outs E op
      else if code = OPCODE_MOV_FROM_SR then bind_exec (read_operand E op) (opcode_mov_from_sr E)
      else if code = OPCODE_MOV_TO_SR then bind_exec (read_operand E op) (opcode_mov_to_sr E)
      else if code = OPCODE_PUSH_ES then opcode_push_sr E op SREG_ES
      else if code = OPCODE_PUSH_CS then opcode_push_sr E op SREG_CS
      else if code = OPCODE_PUSH_SS then opcode_push_sr E op SREG_SS
      else if code = OPCODE_PUSH_DS then opcode_push_sr E op SREG_DS
      else if code = OPCODE_POP_ES then opcode_pop_sr E op SREG_ES
      else if code = OPCODE_POP_SS then opcode_pop_sr E op SREG_SS
      else if code = OPCODE_POP_DS then opcode_pop_sr E op SREG_DS
      else if code = OPCODE_JMP_FAR_DIRECT then opcode_jmp_far_direct E op
      else if code = OPCODE_0xFF then bind_exec (read_operand E op) (parse_opcode_0xff E)
      else if code = OPCODE_0x8F then bind_exec (read_operand E op) (parse_opcode_0x8f E)
      else if code = OPCODE_RETF then opcode_retf E op
      else if code = OPCODE_MOVSB then opcode_movsb E op
      else if code = OPCODE_MOVS then opcode_movs E op
      else if code = OPCODE_STOSB then opcode_stosb E op
      else if code = OPCODE_STOS then opcode_stos E op
      else grp_special E op (idata_table ! unat code))"

definition cpu_interpreter :: "'d env \<Rightarrow> op \<Rightarrow> (unit, 'd) exec" where
  "cpu_interpreter E op1 = bind_exec (parse_start E op1) (\<lambda>(code, op). exec_opcode E code op)"

end
