(* ===== verification/Interp_Steps.thy ===== *)
theory Interp_Steps
  imports Interp
begin

text \<open>
  Relations between the states before and after a step of the interpreter.  A relation that is reflexive and
  transitive, and holds for the primitive steps, holds for every instruction: the locales say which steps are
  primitive, first for what only reads, then for everything.
\<close>

named_theorems keeps_intros "rules that show that a step keeps a relation"

definition keeps :: "('d guest \<Rightarrow> 'd guest \<Rightarrow> bool) \<Rightarrow> ('a, 'd) exec \<Rightarrow> bool" where
  "keeps R m \<longleftrightarrow> (\<forall>g r g'. m g = Inr (r, g') \<longrightarrow> R g g')"

lemma keepsI [intro?]: "(\<And>g r g'. m g = Inr (r, g') \<Longrightarrow> R g g') \<Longrightarrow> keeps R m"
  by (simp add: keeps_def)

lemma keepsD: "keeps R m \<Longrightarrow> m g = Inr (r, g') \<Longrightarrow> R g g'"
  by (simp add: keeps_def)

lemma keeps_modify: "(\<And>g. R g (f g)) \<Longrightarrow> keeps R (modify f)"
  by (auto simp: keeps_def)

lemma keeps_stop [keeps_intros]: "keeps R (stop s)" "keeps R DEBUG_UNIMPLEMENTED" "keeps R (\<lambda>g. Inl f)"
  by (auto simp: keeps_def DEBUG_UNIMPLEMENTED_def)

lemma keeps_cases [keeps_intros]:
  "\<lbrakk>c \<Longrightarrow> keeps R a; \<not> c \<Longrightarrow> keeps R b\<rbrakk> \<Longrightarrow> keeps R (if c then a else b)"
  "(\<And>x y. keeps R (f x y)) \<Longrightarrow> keeps R (case p of (x, y) \<Rightarrow> f x y)"
  "\<lbrakk>keeps R n; \<And>x. keeps R (s x)\<rbrakk> \<Longrightarrow> keeps R (case v of None \<Rightarrow> n | Some x \<Rightarrow> s x)"
  "\<lbrakk>keeps R k1; keeps R k2\<rbrakk> \<Longrightarrow> keeps R (case act of IOACT_CONT \<Rightarrow> k1 | IOACT_RERUN \<Rightarrow> k2)"
  "\<lbrakk>keeps R t1; keeps R t2; keeps R t3\<rbrakk> \<Longrightarrow> keeps R (case t of OPTYPE_16BIT \<Rightarrow> t1 | OPTYPE_32BIT \<Rightarrow> t2 | OPTYPE_64BIT \<Rightarrow> t3)"
  "\<lbrakk>keeps R n; \<And>k. keeps R (s' k)\<rbrakk> \<Longrightarrow> keeps R (case reg of REG_NO \<Rightarrow> n | REG k \<Rightarrow> s' k)"
  "keeps R (h x) \<Longrightarrow> keeps R (let y = x in h y)"
  by (auto split: prod.split option.split ioact.split optype.split reg.split)

lemma keeps_operand [keeps_intros]:
  "\<lbrakk>keeps R a1; keeps R a2; keeps R a3; keeps R a4; keeps R a5; keeps R a6; keeps R a7\<rbrakk> \<Longrightarrow>
   keeps R (case x of O_ZERO \<Rightarrow> a1 | O_M \<Rightarrow> a2 | O_R \<Rightarrow> a3 | O_A \<Rightarrow> a4 | O_I \<Rightarrow> a5 | O_1 \<Rightarrow> a6 | O_C \<Rightarrow> a7)"
  by (cases x) auto

lemma keeps_idata_type [keeps_intros]:
  "\<lbrakk>keeps R a0; keeps R a1; keeps R a2; keeps R a3; keeps R a4; keeps R a5; keeps R a6; keeps R a7; keeps R a8; keeps R a9\<rbrakk> \<Longrightarrow>
   keeps R (case t of I_ZERO \<Rightarrow> a0 | I_MODRM \<Rightarrow> a1 | I_IMME1 \<Rightarrow> a2 | I_IMME2 \<Rightarrow> a3 | I_MIMM1 \<Rightarrow> a4 | I_MIMM2 \<Rightarrow> a5
     | I_MOFFS \<Rightarrow> a6 | I_MGRP3 \<Rightarrow> a7 | I_IMMED \<Rightarrow> a8 | I_NOMOR \<Rightarrow> a9)"
  by (cases t) auto

section \<open>Sequences of steps\<close>

locale step_relation =
  fixes R :: "'d guest \<Rightarrow> 'd guest \<Rightarrow> bool"
  assumes refl: "R g g" and trans: "R g g1 \<Longrightarrow> R g1 g2 \<Longrightarrow> R g g2"
begin

lemma keeps_ret [keeps_intros]: "keeps R (ret x)" "keeps R (err e)" "keeps R (get f)"
  by (auto simp: keeps_def refl)

lemma keeps_bind [keeps_intros]:
  assumes "keeps R m" "\<And>x. keeps R (f x)" shows "keeps R (bind_exec m f)"
proof
  fix g r g' assume a: "bind_exec m f g = Inr (r, g')"
  show "R g g'"
  proof (cases "\<exists>x g1. m g = Inr (Inr x, g1) \<and> f x g1 = Inr (r, g')")
    case True
    then show ?thesis using assms trans keepsD by metis
  next
    case False
    then show ?thesis using a assms(1) by (cases r) (auto simp: bind_exec_Inl bind_exec_Inr dest: keepsD)
  qed
qed

lemma keeps_registers [keeps_intros]:
  "keeps R (read_general_reg r)" "keeps R read_ip" "keeps R read_flags" "keeps R (read_control_reg n)"
  "keeps R (read_sreg_sel s)" "keeps R (read_sreg_acr s)" "keeps R (read_sreg_base s)" "keeps R (get_reg q)"
  unfolding read_general_reg_def read_ip_def read_flags_def read_control_reg_def read_sreg_sel_def read_sreg_acr_def
    read_sreg_base_def get_reg_def
  by (intro keeps_intros)+

lemma keeps_get_reg8 [keeps_intros]: "keeps R (get_reg8 rex r8)"
  unfolding get_reg8_def by (intro keeps_intros)

lemma keeps_seg_linear [keeps_intros]: "keeps R (check_seg acr)" "keeps R (seg_linear s k)" "keeps R read_ss_acr" "keeps R cpu_stack_get"
  unfolding check_seg_def seg_linear_def read_ss_acr_def cpu_stack_get_def by (intro keeps_intros)+

end

section \<open>Reading memory\<close>

locale read_relation = step_relation R for R :: "'d guest \<Rightarrow> 'd guest \<Rightarrow> bool" +
  fixes E :: "'d env"
  assumes keeps_linear_read [keeps_intros]: "keeps R (linear_read E n a old)"
begin

lemma keeps_seg_read [keeps_intros]: "keeps R (cpu_seg_read E n s a old)" "keeps R (cpu_seg_read_b E s a old)"
  unfolding cpu_seg_read_def cpu_seg_read_b_def cpu_seg_read_w_def cpu_seg_read_l_def cpu_seg_read_q_def
  by (cases "n = 1"; cases "n = 2"; cases "n = 4"; simp; intro keeps_intros) (intro keeps_intros)

lemma keeps_LGUESTSEG_READ [keeps_intros]: "keeps R (LGUESTSEG_READ E n op s a old)"
  unfolding LGUESTSEG_READ_def by (intro keeps_intros)

lemma keeps_stack_pop [keeps_intros]: "keeps R (cpu_stack_pop E sp old t)" "keeps R (pop_u16 E sp t)"
  unfolding pop_u16_def cpu_stack_pop_def by (intro keeps_intros)+

lemma keeps_fetch [keeps_intros]: "keeps R (read_next_b E op)" "keeps R (READ_NEXT_W E op)" "keeps R (READ_NEXT_L E op)"
  unfolding READ_NEXT_L_def READ_NEXT_W_def read_next_b_def by (intro keeps_intros)+

lemma keeps_decode [keeps_intros]:
  "keeps R (read_modrm_b E op)" "keeps R (read_disp E n op)" "keeps R (read_sib E m op)" "keeps R (get_modrm E op)"
  "keeps R (read_moffs E op)" "keeps R (read_rex E code op)" "keeps R (read_imm_b E op)" "keeps R (read_operand E op)"
  unfolding read_operand_def get_modrm_def read_modrm_b_def read_disp_def read_sib_def read_moffs_def read_rex_def read_imm_b_def
  by (intro keeps_intros)+

lemma keeps_parse_prefixes [keeps_intros]: "keeps R (parse_prefixes E code op)"
proof
  show "R g g'" if "parse_prefixes E code op g = Inr (r, g')" for g r g'
    using that
  proof (induction "15 - ip_off op" arbitrary: code op g rule: less_induct)
    case less
    have n: "keeps R (read_next_b E op')" for op' by (rule keeps_fetch)
    show ?case
    proof (cases "set_prefix code (op_prefix op)")
      case None
      then show ?thesis using less.prems by (auto simp: parse_prefixes.simps refl split: if_splits)
    next
      case (Some p)
      let ?n = "read_next_b E (op\<lparr>op_prefix := p\<rparr>) g"
      obtain x g1 where x: "?n = Inr (x, g1)" "R g g1"
        using less.prems Some keepsD [OF n] by (cases ?n) (auto simp: parse_prefixes.simps split: if_splits)
      show ?thesis
      proof (cases x)
        case (Inl e)
        then show ?thesis using less.prems Some x by (auto simp: parse_prefixes.simps split: if_splits)
      next
        case (Inr y)
        then obtain code' op' where y: "?n = Inr (Inr (code', op'), g1)" using x by (cases y) auto
        then have "parse_prefixes E code' op' g1 = Inr (r, g')" using less.prems Some by (auto simp: parse_prefixes.simps [of E code op] split: if_splits)
        moreover have "15 - ip_off op' < 15 - ip_off op" using read_next_b_advances [OF y] by auto
        ultimately have "R g1 g'" using less.hyps by blast
        then show ?thesis using x(2) trans by blast
      qed
    qed
  qed
qed

lemma keeps_parse_start: "keeps R (parse_start E op1)"
  unfolding parse_start_def parse_opcode_def by (intro keeps_intros)

lemma keeps_read_modrm [keeps_intros]:
  "keeps R (read_modrm8 E op k old)" "keeps R (read_modrm16 E op k old)" "keeps R (read_modrm32 E op k old)" "keeps R (read_modrm64 E op k old)"
  unfolding read_modrm8_def read_modrm16_def read_modrm32_def read_modrm64_def read_modrm_n_def by (intro keeps_intros)+

lemma keeps_idata_rd [keeps_intros]: "keeps R (idata_rd E op x bytes old)" "keeps R (read_dtr E op)"
  unfolding idata_rd_def read_dtr_def by (intro keeps_intros)+

end

section \<open>All steps\<close>

text \<open>The effects behind the function pointers keep the relation.\<close>

definition env_keeps :: "('d guest \<Rightarrow> 'd guest \<Rightarrow> bool) \<Rightarrow> 'd env \<Rightarrow> bool" where
  "env_keeps R E \<longleftrightarrow>
     (\<forall>n v. keeps R (effect_unit (vmctl_write_control_reg E n v))) \<and> (\<forall>s. keeps R (effect (vmctl_writing_sreg E s))) \<and>
     (\<forall>i. keeps R (effect (vmctl_read_msr E i))) \<and> (\<forall>i v. keeps R (effect (vmctl_write_msr E i v))) \<and>
     (\<forall>a. keeps R (effect_unit (vmctl_invlpg E a))) \<and> keeps R (effect_unit (int_enabled E)) \<and>
     (\<forall>p t q v. keeps R (effect (iofunc E p t q v))) \<and> keeps R (modify (wbinvd E))"

locale guest_relation = read_relation R E for R :: "'d guest \<Rightarrow> 'd guest \<Rightarrow> bool" and E +
  assumes keeps_linear_write [keeps_intros]: "keeps R (linear_write E n a v)"
    and keeps_fields: "R g (g\<lparr>general := x1\<rparr>)" "R g (g\<lparr>ip := x2, updateip := b\<rparr>)" "R g (g\<lparr>flags := x3\<rparr>)"
      "R g (g\<lparr>seg_sel := x4, seg_base := x5\<rparr>)" "R g (g\<lparr>gdtr := x6\<rparr>)" "R g (g\<lparr>idtr := x7\<rparr>)" "R g (g\<lparr>halt := h\<rparr>)"
      "R g (g\<lparr>updateip := b\<rparr>)"
begin

lemma keeps_writes [keeps_intros]:
  "keeps R (write_general_reg r v)" "keeps R (write_ip v)" "keeps R (write_flags v)" "keeps R (write_realmode_seg s w)"
  "keeps R cpu_emul_hlt" "keeps R clear_updateip" "keeps R (modify (\<lambda>g. g\<lparr>gdtr := d\<rparr>))" "keeps R (modify (\<lambda>g. g\<lparr>idtr := d\<rparr>))"
  unfolding write_general_reg_def write_ip_def write_flags_def write_realmode_seg_def cpu_emul_hlt_def clear_updateip_def
  by (intro keeps_intros keeps_modify keeps_fields)+

lemma keeps_env [keeps_intros]:
  assumes "env_keeps R E"
  shows "keeps R (effect_unit (vmctl_write_control_reg E n v))" "keeps R (effect (vmctl_writing_sreg E s))"
    "keeps R (effect (vmctl_read_msr E i))" "keeps R (effect (vmctl_write_msr E i v))" "keeps R (effect_unit (vmctl_invlpg E a))"
    "keeps R (effect_unit (int_enabled E))" "keeps R (effect (iofunc E p t q v))" "keeps R (modify (wbinvd E))"
    "keeps R (call_io E t p v)"
  using assms unfolding env_keeps_def call_io_def Let_def by blast+

lemma keeps_register_writes [keeps_intros]:
  "keeps R (set_reg q v)" "keeps R (set_reg8 rex r8 v)" "keeps R (set_reg16 q v)" "keeps R (set_by_size op q v)" "keeps R (UPDATE_IP op)"
  "keeps R (cpu_stack_set sp)" "keeps R cpu_emul_cli"
  unfolding set_reg16_def set_by_size_def set_reg_def set_reg8_def UPDATE_IP_def cpu_stack_set_def cpu_emul_cli_def
  by (intro keeps_intros)+

lemma keeps_seg_write [keeps_intros]: "keeps R (cpu_seg_write E n s a v)"
  unfolding cpu_seg_write_def cpu_seg_write_b_def cpu_seg_write_w_def cpu_seg_write_l_def cpu_seg_write_q_def
  by (cases "n = 1"; cases "n = 2"; cases "n = 4"; simp; intro keeps_intros)

lemma keeps_memory_writes [keeps_intros]: "keeps R (LGUESTSEG_WRITE E n op s a v)" "keeps R (cpu_stack_push E sp v t)"
  unfolding LGUESTSEG_WRITE_def cpu_stack_push_def by (intro keeps_intros)+

lemma keeps_write_modrm [keeps_intros]:
  "keeps R (write_modrm8 E op k v)" "keeps R (write_modrm16 E op k v)" "keeps R (write_modrm32 E op k v)" "keeps R (write_modrm64 E op k v)"
  unfolding write_modrm8_def write_modrm16_def write_modrm32_def write_modrm64_def write_modrm_n_def by (intro keeps_intros)+

lemma keeps_idata_wr [keeps_intros]: "keeps R (idata_wr E op x bytes v)"
  unfolding idata_wr_def by (intro keeps_intros)

lemma keeps_idata [keeps_intros]: "keeps R (opcode_idata E op i)"
  unfolding opcode_idata_def opcode_2op_def opcode_xchg_def opcode_mov_def by (intro keeps_intros)

lemma keeps_grp [keeps_intros]: "keeps R (grp_imme1 E op i)" "keeps R (grp_imme2 E op i)" "keeps R (grp3_special E op i)" "keeps R (grp_special E op i)"
  unfolding grp_special_def grp3_special_def grp_imme1_def grp_imme2_def by (intro keeps_intros)+

lemma keeps_emul [keeps_intros]:
  assumes "env_keeps R E"
  shows "keeps R (cpu_emul_sti E)" "keeps R (cpu_emul_rdmsr E)" "keeps R (cpu_emul_wrmsr E)" "keeps R (cpu_emul_realmode_int E n)"
    "keeps R (enable_if_set E v)" "keeps R (load_sreg E s)" "keeps R (in_port E op t p v)" "keeps R (out_port E op t p v)"
  unfolding cpu_emul_rdmsr_def cpu_emul_wrmsr_def cpu_emul_realmode_int_def enable_if_set_def load_sreg_def in_port_def out_port_def
    cpu_emul_sti_def UPDATE_IP_unless_updated_def
  by (intro keeps_intros assms)+

lemma keeps_io [keeps_intros]:
  assumes "env_keeps R E"
  shows "keeps R (opcode_inb_imm E op)" "keeps R (opcode_in_imm E op)" "keeps R (opcode_inb_dx E op)" "keeps R (opcode_in_dx E op)"
    "keeps R (opcode_outb_imm E op)" "keeps R (opcode_out_imm E op)" "keeps R (opcode_outb_dx E op)" "keeps R (opcode_out_dx E op)"
  unfolding opcode_inb_imm_def opcode_in_imm_def opcode_inb_dx_def opcode_in_dx_def opcode_outb_imm_def opcode_out_imm_def
    opcode_outb_dx_def opcode_out_dx_def old_rax_def
  by (intro keeps_intros assms)+

lemma keeps_rep_count [keeps_intros]: "keeps R (rep_count op)"
  unfolding rep_count_def by (intro keeps_intros)

lemma keeps_string_element [keeps_intros]:
  "(\<And>d n. keeps R (inst d n)) \<Longrightarrow> keeps R (string_element E op rds wrs bytes inst rflags v)"
  unfolding string_element_def by (intro keeps_intros)

lemma keeps_string_loop [keeps_intros]:
  assumes "\<And>d n. keeps R (inst d n)"
  shows "keeps R (string_loop fuel E op rds wrs bytes inst rflags loopcount v)"
proof (induction fuel arbitrary: loopcount v)
  case (Suc fuel)
  then show ?case unfolding string_loop.simps by (intro keeps_intros assms Suc.IH)
qed (simp add: keeps_intros)

lemma keeps_string_instruction [keeps_intros]:
  "(\<And>d n. keeps R (inst d n)) \<Longrightarrow> keeps R (string_instruction E op rds wrs bytes inst)"
  unfolding string_instruction_def by (intro keeps_intros)

lemma keeps_strings [keeps_intros]:
  "keeps R (opcode_stosb E op)" "keeps R (opcode_stos E op)" "keeps R (opcode_movsb E op)" "keeps R (opcode_movs E op)"
  unfolding opcode_stosb_def opcode_stos_def opcode_movsb_def opcode_movs_def execinst_stos_def execinst_movs_def
  by (intro keeps_intros)+

lemma keeps_io_strings [keeps_intros]:
  assumes "env_keeps R E"
  shows "keeps R (opcode_insb E op)" "keeps R (opcode_ins E op)" "keeps R (opcode_outsb E op)" "keeps R (opcode_outs E op)"
  unfolding opcode_insb_def opcode_ins_def opcode_outsb_def opcode_outs_def io_str_def execinst_io_def Let_def
  by (intro keeps_intros assms)+

lemma keeps_stack_instructions [keeps_intros]:
  assumes "env_keeps R E"
  shows "keeps R (opcode_pushf E op)" "keeps R (opcode_popf E op)" "keeps R (opcode_iret E op)" "keeps R (opcode_int E op)"
    "keeps R (opcode_int3 E op)" "keeps R (opcode_push_sr E op s)" "keeps R (opcode_ff_push E op)" "keeps R (opcode_8f_pop E op)"
  unfolding opcode_pushf_def opcode_popf_def opcode_iret_def opcode_int_def opcode_int3_def opcode_push_sr_def opcode_ff_push_def
    opcode_8f_pop_def push_value_def
  by (intro keeps_intros assms)+

lemma keeps_system_instructions [keeps_intros]:
  assumes "env_keeps R E"
  shows "keeps R (opcode_hlt op)" "keeps R (opcode_cli op)" "keeps R (opcode_sti E op)" "keeps R (opcode_mov_to_cr E op)"
    "keeps R (opcode_mov_from_cr op)" "keeps R (opcode_clts E op)" "keeps R (opcode_wbinvd E op)" "keeps R (opcode_rdmsr E op)"
    "keeps R (opcode_wrmsr E op)" "keeps R (opcode_lgdt E op)" "keeps R (opcode_lidt E op)" "keeps R (opcode_smsw E op)"
    "keeps R (opcode_lmsw E op)" "keeps R (opcode_invlpg E op)" "keeps R (opcode_mov_from_sr E op)" "keeps R (opcode_0f_lss E op)"
  unfolding opcode_hlt_def opcode_cli_def opcode_sti_def opcode_mov_to_cr_def opcode_mov_from_cr_def opcode_clts_def opcode_wbinvd_def
    opcode_rdmsr_def opcode_wrmsr_def opcode_lgdt_def opcode_lidt_def opcode_smsw_def opcode_lmsw_def opcode_invlpg_def
    opcode_mov_from_sr_def opcode_0f_lss_def
  by (intro keeps_intros assms)+

lemma keeps_other_instructions [keeps_intros]:
  "keeps R (opcode_movzx_rm8_to_r E op)" "keeps R (opcode_movzx_rm16_to_r E op)" "keeps R (opcode_bt_imm E op)"
  "keeps R (opcode_into op)" "keeps R (opcode_invd op)" "keeps R (opcode_mov_to_dr op)" "keeps R (opcode_mov_from_dr op)"
  unfolding opcode_movzx_rm8_to_r_def opcode_movzx_rm16_to_r_def opcode_bt_imm_def opcode_into_def opcode_invd_def
    opcode_mov_to_dr_def opcode_mov_from_dr_def
  by (intro keeps_intros)+

lemma keeps_sreg_loads [keeps_intros]:
  assumes "env_keeps R E"
  shows "keeps R (opcode_mov_to_sr E op)" "keeps R (opcode_pop_sr E op s)" "keeps R (opcode_jmp_far_direct E op)"
    "keeps R (opcode_jmp_far_indirect E op)" "keeps R (opcode_retf E op)"
  unfolding opcode_mov_to_sr_def opcode_pop_sr_def opcode_jmp_far_direct_def opcode_jmp_far_indirect_def opcode_retf_def
  by (intro keeps_intros assms)+

lemma keeps_groups [keeps_intros]:
  assumes "env_keeps R E"
  shows "keeps R (parse_opcode_0x0f_0x01 E op)" "keeps R (parse_opcode_0x0f_0xba E op)" "keeps R (parse_opcode_0x0f E code op)"
    "keeps R (parse_opcode_0xff E op)" "keeps R (parse_opcode_0x8f E op)"
  unfolding parse_opcode_0x0f_def parse_opcode_0x0f_0x01_def parse_opcode_0x0f_0xba_def parse_opcode_0xff_def parse_opcode_0x8f_def
  by (intro keeps_intros assms)+

lemma keeps_exec_opcode: "env_keeps R E \<Longrightarrow> keeps R (exec_opcode E code op)"
  unfolding exec_opcode_def by (intro keeps_intros)

lemma keeps_cpu_interpreter: "env_keeps R E \<Longrightarrow> keeps R (cpu_interpreter E op1)"
  unfolding cpu_interpreter_def by (intro keeps_bind keeps_parse_start keeps_cases keeps_exec_opcode)

end

end
