(* ===== verification/Interp_Isolation.thy ===== *)
theory Interp_Isolation
  imports Interp_Steps Linear_Access
begin

text \<open>
  Two relations that the steps of the interpreter keep, as interpretations of the locales of \<open>Interp_Steps\<close>: reading
  changes nothing but the state of memory, and no step touches the memory of the VMM.
\<close>

section \<open>Reading\<close>

definition only_memory :: "'d guest \<Rightarrow> 'd guest \<Rightarrow> bool" where "only_memory g g' \<longleftrightarrow> (\<exists>w. g' = g\<lparr>mem_state := w\<rparr>)"

interpretation reading: read_relation only_memory E for E :: "'d env"
proof
  show "only_memory g g" for g :: "'d guest" unfolding only_memory_def by (rule exI [of _ "mem_state g"]) simp
  show "keeps only_memory (linear_read E n a old)" for n a old
    unfolding keeps_def only_memory_def linear_read_def by (auto simp: bind_res_Inr_iff)
qed (auto simp: only_memory_def)

section \<open>Isolation\<close>

definition isolated_step :: "'d guest \<Rightarrow> 'd guest \<Rightarrow> bool" where
  "isolated_step g g' \<longleftrightarrow> (ready (mem_state g) \<longrightarrow> safe False (mem_state g) (mem_state g'))"

lemma read_linearaddr_safe:
  "ready w \<Longrightarrow> read_linearaddr n H r a bs w = Inr (e, bs', w') \<Longrightarrow> safe False w w'"
  unfolding read_linearaddr_def
  by (auto split: if_splits intro: read_linearaddr_b_safe read_linearaddr_w_safe read_linearaddr_l_safe read_linearaddr_q_safe)

lemma write_linearaddr_safe:
  "ready w \<Longrightarrow> write_linearaddr n H r a v w = Inr (e, w') \<Longrightarrow> safe False w w'"
  unfolding write_linearaddr_def
  by (auto split: if_splits intro: write_linearaddr_b_safe write_linearaddr_w_safe write_linearaddr_l_safe write_linearaddr_q_safe)

interpretation isolation: guest_relation isolated_step E for E :: "'d env"
proof
  show "keeps isolated_step (linear_read E n a old)" for n a old
    unfolding keeps_def isolated_step_def linear_read_def by (auto simp: bind_res_Inr_iff dest: read_linearaddr_safe)
  show "keeps isolated_step (linear_write E n a v)" for n a v
    unfolding keeps_def isolated_step_def linear_write_def by (auto simp: bind_res_Inr_iff dest: write_linearaddr_safe)
  show "isolated_step g g2" if "isolated_step g g1" "isolated_step g1 g2" for g g1 g2 :: "'d guest"
    using that by (auto simp: isolated_step_def intro: safe_trans safe_ready)
qed (simp_all add: isolated_step_def)

end
