(* ===== verification/Interp_Flat.thy ===== *)
theory Interp_Flat
  imports Interp_Isolation
begin

text \<open>
  Access to memory when paging is off and nothing else runs: linear addresses are addresses of memory.  The
  properties of single instructions use it to say what they do to memory.
\<close>

lemma linear_phys_flat:
  assumes "pte_addr_mask r AND 0xFFF = 0" "a AND (pte_addr_mask r OR 0xFFF) = a" "b AND pte_addr_mask r = 0"
  shows "linear_phys r ((a AND pte_addr_mask r) OR b) a = a"
proof -
  have "linear_phys r ((a AND pte_addr_mask r) OR b) a = (a AND pte_addr_mask r) OR (b AND pte_addr_mask r) OR (a AND 0xFFF)"
    unfolding linear_phys_def by (intro bit_word_eqI) (auto simp: bit_simps)
  also have "\<dots> = a AND (pte_addr_mask r OR 0xFFF)"
    unfolding assms(3) by (intro bit_word_eqI) (auto simp: bit_simps)
  finally show ?thesis using assms(2) by simp
qed

text \<open>Control registers with paging off, and an area that the addresses of the processor reach.\<close>

definition flat_regs_ok :: "guest_regs \<Rightarrow> bool" where
  "flat_regs_ok r \<longleftrightarrow> \<not> any_bit (r_cr0 r) 0x80000000 \<and> pte_addr_mask r AND 0xFFF = 0"

definition reachable :: "guest_regs \<Rightarrow> u64 \<Rightarrow> nat \<Rightarrow> bool" where
  "reachable r a n \<longleftrightarrow> list_all (\<lambda>x. x AND (pte_addr_mask r OR 0xFFF) = x) (span a n)"

lemma reachable_drop: "reachable r a n \<Longrightarrow> k + m \<le> n \<Longrightarrow> reachable r (a + of_nat k) m"
  unfolding reachable_def list_all_iff span_def by (auto simp: add.assoc simp flip: of_nat_add)

lemma and_disjoint: "b AND m = b \<Longrightarrow> p AND m = 0 \<Longrightarrow> b AND p = 0" for b m p :: u64
proof -
  assume "b AND m = b" "p AND m = 0"
  moreover have "(b AND m) AND p = b AND (p AND m)" by (intro bit_word_eqI) (auto simp: bit_simps)
  ultimately show "b AND p = 0" by simp
qed

lemma get_pte_flat:
  assumes "flat_regs_ok r" "reachable r a n" "0 < n"
  shows "\<exists>pte. get_pte H r a wr us ex w = Inr (VMMERR_SUCCESS, pte, w) \<and> linear_phys r pte a = a"
proof -
  let ?b = "PDE_P_BIT OR PDE_RW_BIT OR PDE_US_BIT OR PDE_A_BIT OR PDE_D_BIT"
  have "?b AND 0xFFF = ?b" by (simp add: PDE_P_BIT_def PDE_RW_BIT_def PDE_US_BIT_def PDE_A_BIT_def PDE_D_BIT_def)
  then have b: "?b AND pte_addr_mask r = 0" by (rule and_disjoint) (use assms(1) in \<open>simp add: flat_regs_ok_def\<close>)
  have a: "a AND (pte_addr_mask r OR 0xFFF) = a"
    using assms(2,3) by (auto simp: reachable_def span_def list_all_iff dest: bspec [of _ _ 0])
  show ?thesis
    using linear_phys_flat [OF _ a b] assms(1) by (simp add: get_pte_def cpu_mmu_get_pte_def get_pte_sub_def flat_regs_ok_def)
qed

definition lin_reads :: "nat \<Rightarrow> u64 \<Rightarrow> 'd mmio_data \<Rightarrow> (vmmerr \<times> u8 list \<times> 'd mmio_data) res \<Rightarrow> bool" where
  "lin_reads n a w x \<longleftrightarrow>
     (\<exists>w'. x = Inr (VMMERR_SUCCESS, get_bytes (mem w) (span a n), w') \<and> quiet w' \<and> outside w' = outside w \<and> mem w' = mem w)"

definition lin_writes :: "u64 \<Rightarrow> u8 list \<Rightarrow> 'd mmio_data \<Rightarrow> (vmmerr \<times> 'd mmio_data) res \<Rightarrow> bool" where
  "lin_writes a bs w x \<longleftrightarrow>
     (\<exists>w'. x = Inr (VMMERR_SUCCESS, w') \<and> quiet w' \<and> outside w' = outside w \<and> mem w' = put_bytes (mem w) (span a (length bs)) bs)"

lemma lin_reads_direct:
  assumes "flat_regs_ok r" "reachable r a n" "0 < n" "\<And>attr. reads n a w (read H a bs attr w)"
  shows "lin_reads n a w (read_linear read H r a bs w)"
proof -
  obtain pte where p: "get_pte H r a False False False w = Inr (VMMERR_SUCCESS, pte, w)" "linear_phys r pte a = a"
    using get_pte_flat [OF assms(1-3)] by blast
  then show ?thesis using assms(4) [of "pte_attr pte"] by (auto simp: lin_reads_def read_linear_def reads_def)
qed

lemma lin_writes_direct:
  assumes "flat_regs_ok r" "reachable r a n" "0 < n" "\<And>attr. writes a bs w (write H a d attr w)"
  shows "lin_writes a bs w (write_linear write H r a d w)"
proof -
  obtain pte where p: "get_pte H r a True False False w = Inr (VMMERR_SUCCESS, pte, w)" "linear_phys r pte a = a"
    using get_pte_flat [OF assms(1-3)] by blast
  then show ?thesis using assms(4) [of "pte_attr pte"] by (auto simp: lin_writes_def write_linear_def writes_def)
qed

lemma lin_reads_halves:
  assumes "quiet w" "outside w a (k + k)" "reachable r a (k + k)"
    "\<And>w a bs. quiet w \<Longrightarrow> outside w a k \<Longrightarrow> reachable r a k \<Longrightarrow> lin_reads k a w (f H r a bs w)"
  shows "lin_reads (k + k) a w (read_linear_halves f k H r a bs w)"
proof -
  note d = outside_drop [OF assms(2), of 0 k, simplified] outside_drop [OF assms(2), of k k, simplified]
    reachable_drop [OF assms(3), of 0 k, simplified] reachable_drop [OF assms(3), of k k, simplified]
  obtain w1 where w1: "f H r a (take k bs) w = Inr (VMMERR_SUCCESS, get_bytes (mem w) (span a k), w1)"
    "quiet w1" "outside w1 = outside w" "mem w1 = mem w"
    using assms(4) [OF assms(1) d(1,3)] by (auto simp: lin_reads_def)
  obtain w2 where w2: "f H r (a + of_nat k) (drop k bs) w1 = Inr (VMMERR_SUCCESS, get_bytes (mem w) (span (a + of_nat k) k), w2)"
    "quiet w2" "outside w2 = outside w" "mem w2 = mem w"
    using assms(4) [OF w1(2), of "a + of_nat k" "drop k bs"] w1(3,4) d(2,4) by (auto simp: lin_reads_def)
  show ?thesis using w1 w2 by (simp add: lin_reads_def read_linear_halves_def span_append get_bytes_def)
qed

lemma lin_writes_halves:
  assumes "lin_writes a (le_bytes k x) w (f w)" "\<And>w1. quiet w1 \<Longrightarrow> outside w1 = outside w \<Longrightarrow>
    lin_writes (a + of_nat k) (le_bytes k (drop_bit (8 * k) x)) w1 (h w1)"
  shows "lin_writes a (le_bytes (k + k) x) w (RIE (f w) h)"
proof -
  obtain w1 where w1: "f w = Inr (VMMERR_SUCCESS, w1)" "quiet w1" "outside w1 = outside w" "mem w1 = put_bytes (mem w) (span a k) (le_bytes k x)"
    using assms(1) by (auto simp: lin_writes_def)
  from assms(2) [OF w1(2,3)] show ?thesis
    using w1 by (auto simp: lin_writes_def RIE_def le_bytes_append span_append put_bytes_append)
qed

lemma lin_reads_b: "flat_regs_ok r \<Longrightarrow> quiet w \<Longrightarrow> outside w a 1 \<Longrightarrow> reachable r a 1 \<Longrightarrow> lin_reads 1 a w (read_linearaddr_b H r a bs w)"
  unfolding read_linearaddr_b_def by (intro lin_reads_direct reads_b) simp_all

lemma lin_reads_w: "flat_regs_ok r \<Longrightarrow> quiet w \<Longrightarrow> outside w a 2 \<Longrightarrow> reachable r a 2 \<Longrightarrow> lin_reads 2 a w (read_linearaddr_w H r a bs w)"
  unfolding read_linearaddr_w_def
  by (cases "a AND 0xFFF = 0xFFF")
    (simp_all del: One_nat_def add: lin_reads_direct reads_w lin_reads_halves [where k = 1, unfolded one_add_one] lin_reads_b)

lemma lin_reads_l: "flat_regs_ok r \<Longrightarrow> quiet w \<Longrightarrow> outside w a 4 \<Longrightarrow> reachable r a 4 \<Longrightarrow> lin_reads 4 a w (read_linearaddr_l H r a bs w)"
  unfolding read_linearaddr_l_def by (auto intro!: lin_reads_direct reads_l lin_reads_halves [where k = 2, simplified] lin_reads_w)

lemma lin_reads_q: "flat_regs_ok r \<Longrightarrow> quiet w \<Longrightarrow> outside w a 8 \<Longrightarrow> reachable r a 8 \<Longrightarrow> lin_reads 8 a w (read_linearaddr_q H r a bs w)"
  unfolding read_linearaddr_q_def by (auto intro!: lin_reads_direct reads_q lin_reads_halves [where k = 4, simplified] lin_reads_l)

lemma le_bytes_cong:
  fixes x :: "'a::len word" and y :: "'b::len word"
  assumes "\<And>k. k < 8 * n \<Longrightarrow> bit x k = bit y k" shows "le_bytes n x = le_bytes n y"
proof -
  have "(ucast (drop_bit (8 * i) x) :: u8) = ucast (drop_bit (8 * i) y)" if "i < n" for i
    using that by (intro bit_word_eqI) (auto simp: bit_simps assms)
  then show ?thesis by (simp add: le_bytes_def)
qed

lemma lin_writes_b:
  assumes "flat_regs_ok r" "quiet w" "outside w a 1" "reachable r a 1"
  shows "lin_writes a (le_bytes 1 d) w (write_linearaddr_b H r a d w)"
proof -
  have "le_bytes 1 d = le_bytes 1 (ucast d :: u32)" by (rule le_bytes_cong) (auto simp: bit_simps)
  moreover have "lin_writes a (le_bytes 1 (ucast d :: u32)) w (write_linear write_gphys_b H r a (ucast d) w)"
    by (rule lin_writes_direct [OF assms(1,4)]) (use writes_b [OF assms(2,3)] in simp_all)
  ultimately show ?thesis unfolding write_linearaddr_b_def by simp
qed

lemma lin_writes_w:
  assumes "flat_regs_ok r" "quiet w" "outside w a 2" "reachable r a 2"
  shows "lin_writes a (le_bytes 2 d) w (write_linearaddr_w H r a d w)"
proof (cases "a AND 0xFFF = 0xFFF")
  case True
  have l: "le_bytes 1 d = le_bytes 1 (ucast d :: u8)" "le_bytes 1 (drop_bit (8 * 1) d) = le_bytes 1 (ucast (drop_bit 8 d) :: u8)"
    by (rule le_bytes_cong; auto simp: bit_simps)+
  have "lin_writes a (le_bytes (1 + 1) d) w
      (RIE (write_linearaddr_b H r a (ucast d) w) (write_linearaddr_b H r (a + 1) (ucast (drop_bit 8 d))))"
  proof (rule lin_writes_halves, unfold l)
    show "lin_writes a (le_bytes 1 (ucast d :: u8)) w (write_linearaddr_b H r a (ucast d) w)"
      using lin_writes_b [OF assms(1,2)] outside_drop [OF assms(3), of 0 1] reachable_drop [OF assms(4), of 0 1] by simp
    show "lin_writes (a + of_nat 1) (le_bytes 1 (ucast (drop_bit 8 d) :: u8)) w1 (write_linearaddr_b H r (a + 1) (ucast (drop_bit 8 d)) w1)"
      if "quiet w1" "outside w1 = outside w" for w1
      using lin_writes_b [OF assms(1) that(1)] that(2) outside_drop [OF assms(3), of 1 1] reachable_drop [OF assms(4), of 1 1] by simp
  qed
  then show ?thesis using True by (simp del: One_nat_def add: write_linearaddr_w_def one_add_one)
next
  case False
  have "le_bytes 2 d = le_bytes 2 (ucast d :: u32)" by (rule le_bytes_cong) (auto simp: bit_simps)
  then show ?thesis using False assms unfolding write_linearaddr_w_def by (auto intro!: lin_writes_direct writes_w)
qed

lemma lin_writes_l:
  assumes "flat_regs_ok r" "quiet w" "outside w a 4" "reachable r a 4"
  shows "lin_writes a (le_bytes 4 d) w (write_linearaddr_l H r a d w)"
proof (cases "0xFFD \<le> a AND 0xFFF")
  case True
  have l: "le_bytes 2 d = le_bytes 2 (ucast d :: u16)" "le_bytes 2 (drop_bit (8 * 2) d) = le_bytes 2 (ucast (drop_bit 16 d) :: u16)"
    by (rule le_bytes_cong; auto simp: bit_simps)+
  have "lin_writes a (le_bytes (2 + 2) d) w
      (RIE (write_linearaddr_w H r a (ucast d) w) (write_linearaddr_w H r (a + 2) (ucast (drop_bit 16 d))))"
  proof (rule lin_writes_halves, unfold l)
    show "lin_writes a (le_bytes 2 (ucast d :: u16)) w (write_linearaddr_w H r a (ucast d) w)"
      using lin_writes_w [OF assms(1,2)] outside_drop [OF assms(3), of 0 2] reachable_drop [OF assms(4), of 0 2] by simp
    show "lin_writes (a + of_nat 2) (le_bytes 2 (ucast (drop_bit 16 d) :: u16)) w1 (write_linearaddr_w H r (a + 2) (ucast (drop_bit 16 d)) w1)"
      if "quiet w1" "outside w1 = outside w" for w1
      using lin_writes_w [OF assms(1) that(1)] that(2) outside_drop [OF assms(3), of 2 2] reachable_drop [OF assms(4), of 2 2] by simp
  qed
  then show ?thesis using True by (simp add: write_linearaddr_l_def)
next
  case False
  then show ?thesis using assms unfolding write_linearaddr_l_def by (auto intro!: lin_writes_direct writes_l)
qed

lemma lin_writes_q:
  assumes "flat_regs_ok r" "quiet w" "outside w a 8" "reachable r a 8"
  shows "lin_writes a (le_bytes 8 d) w (write_linearaddr_q H r a d w)"
proof (cases "0xFF9 \<le> a AND 0xFFF")
  case True
  have l: "le_bytes 4 d = le_bytes 4 (ucast d :: u32)" "le_bytes 4 (drop_bit (8 * 4) d) = le_bytes 4 (ucast (drop_bit 32 d) :: u32)"
    by (rule le_bytes_cong; auto simp: bit_simps)+
  have "lin_writes a (le_bytes (4 + 4) d) w
      (RIE (write_linearaddr_l H r a (ucast d) w) (write_linearaddr_l H r (a + 4) (ucast (drop_bit 32 d))))"
  proof (rule lin_writes_halves, unfold l)
    show "lin_writes a (le_bytes 4 (ucast d :: u32)) w (write_linearaddr_l H r a (ucast d) w)"
      using lin_writes_l [OF assms(1,2)] outside_drop [OF assms(3), of 0 4] reachable_drop [OF assms(4), of 0 4] by simp
    show "lin_writes (a + of_nat 4) (le_bytes 4 (ucast (drop_bit 32 d) :: u32)) w1 (write_linearaddr_l H r (a + 4) (ucast (drop_bit 32 d)) w1)"
      if "quiet w1" "outside w1 = outside w" for w1
      using lin_writes_l [OF assms(1) that(1)] that(2) outside_drop [OF assms(3), of 4 4] reachable_drop [OF assms(4), of 4 4] by simp
  qed
  then show ?thesis using True by (simp add: write_linearaddr_q_def)
next
  case False
  then show ?thesis using assms unfolding write_linearaddr_q_def by (auto intro!: lin_writes_direct writes_q)
qed

section \<open>A flat guest\<close>

definition flat :: "'d guest \<Rightarrow> bool" where "flat g \<longleftrightarrow> flat_regs_ok (ctl g) \<and> quiet (mem_state g)"

text \<open>An area that addresses reach and that belongs to the guest.\<close>

definition usable :: "'d guest \<Rightarrow> u64 \<Rightarrow> nat \<Rightarrow> bool" where
  "usable g a n \<longleftrightarrow> outside (mem_state g) a n \<and> reachable (ctl g) a n"

text \<open>The guest after accesses that changed memory to \<open>m\<close>: registers and placement are the same.\<close>

definition memory_is :: "(u64 \<Rightarrow> u8) \<Rightarrow> 'd guest \<Rightarrow> 'd guest \<Rightarrow> bool" where
  "memory_is m g g' \<longleftrightarrow> (\<exists>w. g' = g\<lparr>mem_state := w\<rparr> \<and> quiet w \<and> outside w = outside (mem_state g) \<and> mem w = m)"

lemma linear_read_flat:
  assumes "flat g" "usable g a n" "n \<in> {1, 2, 4, 8}"
  shows "\<exists>g'. linear_read E n a old g = Inr (Inr (put_low n old (of_bytes (get_bytes (mem (mem_state g)) (span a n)))), g') \<and>
    memory_is (mem (mem_state g)) g g'"
proof -
  have o: "flat_regs_ok (ctl g)" "quiet (mem_state g)" "outside (mem_state g) a n" "reachable (ctl g) a n"
    using assms(1,2) by (simp_all add: flat_def usable_def)
  have "lin_reads n a (mem_state g) (read_linearaddr n (handler E) (ctl g) a bs (mem_state g))" for bs
    using assms(3) o lin_reads_b lin_reads_w lin_reads_l lin_reads_q by (auto simp: read_linearaddr_def)
  from this [of "le_bytes n old"] show ?thesis by (auto simp: lin_reads_def linear_read_def memory_is_def)
qed

lemma linear_write_flat:
  assumes "flat g" "usable g a n" "n \<in> {1, 2, 4, 8}"
  shows "\<exists>g'. linear_write E n a v g = Inr (Inr (), g') \<and> memory_is (put_bytes (mem (mem_state g)) (span a n) (le_bytes n v)) g g'"
proof -
  have o: "flat_regs_ok (ctl g)" "quiet (mem_state g)" "outside (mem_state g) a n" "reachable (ctl g) a n"
    using assms(1,2) by (simp_all add: flat_def usable_def)
  have l: "le_bytes 1 v = le_bytes 1 (ucast v :: u8)" "le_bytes 2 v = le_bytes 2 (ucast v :: u16)" "le_bytes 4 v = le_bytes 4 (ucast v :: u32)"
    by (rule le_bytes_cong; auto simp: bit_simps)+
  have "lin_writes a (le_bytes n v) (mem_state g) (write_linearaddr n (handler E) (ctl g) a v (mem_state g))"
  proof -
    consider "n = 1" | "n = 2" | "n = 4" | "n = 8" using assms(3) by blast
    then show ?thesis
    proof cases
      case 1
      then show ?thesis using lin_writes_b [OF o(1,2), of a "ucast v" "handler E"] o(3,4) l(1) by (simp add: write_linearaddr_def)
    next
      case 2
      then show ?thesis using lin_writes_w [OF o(1,2), of a "ucast v" "handler E"] o(3,4) l(2) by (simp add: write_linearaddr_def)
    next
      case 3
      then show ?thesis using lin_writes_l [OF o(1,2), of a "ucast v" "handler E"] o(3,4) l(3) by (simp add: write_linearaddr_def)
    next
      case 4
      then show ?thesis using lin_writes_q [OF o(1,2), of a v "handler E"] o(3,4) by (simp add: write_linearaddr_def)
    qed
  qed
  then show ?thesis by (auto simp: lin_writes_def linear_write_def memory_is_def)
qed

lemma memory_is_flat: "memory_is m g g' \<Longrightarrow> flat g \<Longrightarrow> flat g'" "memory_is m g g' \<Longrightarrow> usable g' = usable g"
  "memory_is m g g' \<Longrightarrow> mem (mem_state g') = m" "memory_is m g g1 \<Longrightarrow> memory_is m' g1 g2 \<Longrightarrow> memory_is m' g g2"
  by (auto simp: memory_is_def flat_def usable_def fun_eq_iff)

end
