(* ===== verification/Interp_Fetch.thy ===== *)
theory Interp_Fetch
  imports Interp_Flat
begin

text \<open>
  Steps of a flat guest that only read: they end, with a value that is a function of the guest's registers and memory.
  The fetch of the bytes of an instruction is one; what the prefixes and the sizes of an instruction are follows from
  its bytes.
\<close>

section \<open>Steps with a known result\<close>

abbreviation same_guest :: "'d guest \<Rightarrow> 'd guest \<Rightarrow> bool" where
  "same_guest g g' \<equiv> memory_is (mem (mem_state g)) g g'"

definition runs :: "('a, 'd) exec \<Rightarrow> 'd guest \<Rightarrow> 'a \<Rightarrow> bool" where
  "runs m g x \<longleftrightarrow> (\<exists>g'. m g = Inr (Inr x, g') \<and> same_guest g g')"

lemma same_guest_refl: "flat g \<Longrightarrow> same_guest g g"
  unfolding memory_is_def flat_def by (intro exI [of _ "mem_state g"]) simp

lemma same_guest_registers:
  assumes "same_guest g g'"
  shows "general g' = general g" "ctl g' = ctl g" "ip g' = ip g" "seg_acr g' = seg_acr g" "seg_base g' = seg_base g"
    "mem (mem_state g') = mem (mem_state g)" "usable g' = usable g"
  using assms memory_is_flat(2) [OF assms] by (auto simp: memory_is_def)

lemma runs_bind: "runs m g x \<Longrightarrow> (\<And>g'. same_guest g g' \<Longrightarrow> runs (f x) g' y) \<Longrightarrow> runs (bind_exec m f) g y"
proof -
  assume "runs m g x" and f: "\<And>g'. same_guest g g' \<Longrightarrow> runs (f x) g' y"
  then obtain g1 where 1: "m g = Inr (Inr x, g1)" "same_guest g g1" by (auto simp: runs_def)
  obtain g2 where 2: "f x g1 = Inr (Inr y, g2)" "same_guest g1 g2" using f [OF 1(2)] by (auto simp: runs_def)
  show "runs (bind_exec m f) g y"
    using 1 2 same_guest_registers(6) [OF 1(2)] memory_is_flat(4) [of _ g g1 _ g2] by (simp add: runs_def bind_exec_def)
qed

lemma runs_ret: "flat g \<Longrightarrow> runs (ret x) g x"
  by (auto simp: runs_def ret_def same_guest_refl)

lemma runs_ret_iff: "flat g \<Longrightarrow> runs (ret x) g y \<longleftrightarrow> x = y"
  by (auto simp: runs_def ret_def same_guest_refl)

text \<open>The value of a register that may be missing.\<close>

definition reg_of :: "(nat \<Rightarrow> u64) \<Rightarrow> reg \<Rightarrow> u64" where "reg_of G r = (case r of REG_NO \<Rightarrow> 0 | REG k \<Rightarrow> G k)"

lemma reg_of_simps [simp]: "reg_of G REG_NO = 0" "reg_of G (REG k) = G k" by (simp_all add: reg_of_def)

lemma runs_get_reg: "flat g \<Longrightarrow> runs (get_reg r) g (reg_of (general g) r)"
  by (cases r) (auto simp: runs_def get_reg_def read_general_reg_def ret_def get_def same_guest_refl)

lemma runs_next_reg:
  assumes "flat g"
    "\<And>g'. same_guest g g' \<Longrightarrow> flat g' \<Longrightarrow> general g' = general g \<Longrightarrow> runs (f (reg_of (general g) r)) g' y"
  shows "runs (bind_exec (get_reg r) f) g y"
  by (rule runs_bind [OF runs_get_reg [OF assms(1)]], rule assms(2), assumption, erule memory_is_flat(1) [OF _ assms(1)],
      erule same_guest_registers(1))

lemma runs_registers:
  assumes "flat g"
  shows "runs (read_control_reg 0) g (r_cr0 (ctl g))" "runs (get f) g (f g)" "runs read_ip g (ip g)"
    "s \<le> SREG_GS \<Longrightarrow> runs (read_sreg_acr s) g (seg_acr g s)"
  using assms by (auto simp: runs_def read_control_reg_def read_ip_def read_sreg_acr_def get_def same_guest_refl)

lemma runs_flat: "runs m g x \<Longrightarrow> flat g \<Longrightarrow> \<exists>g'. m g = Inr (Inr x, g') \<and> same_guest g g' \<and> flat g'"
  by (auto simp: runs_def dest: memory_is_flat(1))

section \<open>The bytes of an instruction\<close>

text \<open>The first \<open>n\<close> bytes can be fetched.\<close>

definition code_ok :: "'d guest \<Rightarrow> op \<Rightarrow> nat \<Rightarrow> bool" where
  "code_ok g op n \<longleftrightarrow> n \<le> 15 \<and> usable g (seg_base g SREG_CS + op_ip op) n \<and>
     \<not> any_bit (seg_acr g SREG_CS) ACCESS_RIGHTS_UNUSABLE_BIT \<and> any_bit (seg_acr g SREG_CS) ACCESS_RIGHTS_P_BIT"

definition code_at :: "'d guest \<Rightarrow> op \<Rightarrow> nat \<Rightarrow> u8" where
  "code_at g op k = mem (mem_state g) (seg_base g SREG_CS + op_ip op + of_nat k)"

lemma same_code:
  assumes "same_guest g g'"
  shows "flat g \<Longrightarrow> flat g'" "code_ok g' op n = code_ok g op n" "code_at g' op k = code_at g op k"
  using memory_is_flat(1) [OF assms] same_guest_registers [OF assms] by (simp_all add: code_ok_def code_at_def)

lemma same_code_fun: "same_guest g g' \<Longrightarrow> code_at g' op = code_at g op" by (simp add: same_code(3) fun_eq_iff)

lemma code_updates [simp]:
  "code_ok g (op\<lparr>ip_off := k1\<rparr>) n = code_ok g op n" "code_at g (op\<lparr>ip_off := k2\<rparr>) k = code_at g op k"
  by (simp_all add: code_ok_def code_at_def)

lemma usable_part: "usable g a n \<Longrightarrow> k + m \<le> n \<Longrightarrow> usable g (a + of_nat k) m"
  by (auto simp: usable_def intro: outside_drop reachable_drop)

lemma of_bytes_single: "of_bytes [b] = ucast b"
proof (intro bit_word_eqI)
  fix n assume "n < LENGTH('a)"
  then show "bit (of_bytes [b] :: 'a word) n = bit (ucast b :: 'a word) n"
    using bit_imp_le_length [of b n] by (cases "n < 8") (auto simp: bit_of_bytes bit_simps)
qed

lemma ucast_put_low: "ucast (put_low 1 old (ucast b)) = b" for b :: u8
  by (intro bit_word_eqI) (auto simp: put_low_def low_def bit_simps dest: bit_imp_le_length)

lemma runs_read_next_b:
  assumes "flat g" "code_ok g op n" "ip_off op < n"
  shows "runs (read_next_b E op) g (code_at g op (ip_off op), op\<lparr>ip_off := ip_off op + 1\<rparr>)"
proof -
  let ?a = "seg_base g SREG_CS + (op_ip op + of_nat (ip_off op))"
  have u: "usable g ?a 1" using usable_part [of g "seg_base g SREG_CS + op_ip op" n "ip_off op" 1] assms(2,3)
    by (simp add: code_ok_def add.assoc)
  have s: "seg_linear SREG_CS k g = Inr (Inr (seg_base g SREG_CS + k), g)" for k
    using assms(2) by (simp add: seg_linear_def read_sreg_acr_def read_sreg_base_def check_seg_def code_ok_def bind_exec_def get_def ret_def sreg_defs)
  have b: "get_bytes m (span x 1) = [m x]" for m :: "u64 \<Rightarrow> u8" and x by (simp add: get_bytes_def span_def)
  obtain g' where r: "linear_read E 1 ?a (uninit E ''code'') g = Inr (Inr (put_low 1 (uninit E ''code'') (ucast (mem (mem_state g) ?a))), g')"
    "same_guest g g'" using linear_read_flat [OF assms(1) u, of E "uninit E ''code''"] by (auto simp del: One_nat_def simp: b of_bytes_single)
  then show ?thesis using assms(2,3)
    by (auto simp: runs_def read_next_b_def cpu_seg_read_b_def bind_exec_def ret_def s ucast_put_low code_at_def code_ok_def add.assoc simp del: One_nat_def)
qed

text \<open>Two and four bytes, lowest first.\<close>

definition code_w :: "'d guest \<Rightarrow> op \<Rightarrow> nat \<Rightarrow> u16" where
  "code_w g op k = ucast (code_at g op k) OR push_bit 8 (ucast (code_at g op (k + 1)))"

definition code_l :: "'d guest \<Rightarrow> op \<Rightarrow> nat \<Rightarrow> u32" where
  "code_l g op k = ucast (code_w g op k) OR push_bit 16 (ucast (code_w g op (k + 2)))"

lemma code_w_updates [simp]: "code_w g (op\<lparr>ip_off := k'\<rparr>) k = code_w g op k" by (simp add: code_w_def)

lemma same_code_w: "same_guest g g' \<Longrightarrow> code_w g' op k = code_w g op k" by (simp add: code_w_def same_code(3))

lemma same_code_w_fun: "same_guest g g' \<Longrightarrow> code_w g' op = code_w g op" by (simp add: same_code_w fun_eq_iff)

text \<open>The rest of a decoder after a fetch, with what the fetch does not change.\<close>

lemma runs_next:
  assumes "flat g" "code_ok g op n" "ip_off op < n"
    "\<And>g'. same_guest g g' \<Longrightarrow> flat g' \<Longrightarrow> code_ok g' op n \<Longrightarrow> code_at g' op = code_at g op \<Longrightarrow>
      runs (f (code_at g op (ip_off op)) (op\<lparr>ip_off := ip_off op + 1\<rparr>)) g' y"
  shows "runs (bind_exec (read_next_b E op) (\<lambda>(b, op). f b op)) g y"
  by (rule runs_bind [OF runs_read_next_b [OF assms(1-3)]], unfold prod.case)
    (rule assms(4), assumption, erule same_code(1) [OF _ assms(1)], simp only: same_code(2) assms(2), erule same_code_fun)

lemma runs_READ_NEXT_W:
  assumes "flat g" "code_ok g op n" "ip_off op + 1 < n"
  shows "runs (READ_NEXT_W E op) g (code_w g op (ip_off op), op\<lparr>ip_off := ip_off op + 2\<rparr>)"
  unfolding READ_NEXT_W_def
  by (rule runs_next [OF assms(1,2)], use assms(3) in simp, rule runs_next [where n = n])
    (use assms in \<open>simp_all add: runs_ret code_w_def\<close>)

lemma runs_next_w:
  assumes "flat g" "code_ok g op n" "ip_off op + 1 < n"
    "\<And>g'. same_guest g g' \<Longrightarrow> flat g' \<Longrightarrow> code_ok g' op n \<Longrightarrow> code_w g' op = code_w g op \<Longrightarrow>
      runs (f (code_w g op (ip_off op)) (op\<lparr>ip_off := ip_off op + 2\<rparr>)) g' y"
  shows "runs (bind_exec (READ_NEXT_W E op) (\<lambda>(b, op). f b op)) g y"
  by (rule runs_bind [OF runs_READ_NEXT_W [OF assms(1-3)]], unfold prod.case)
    (rule assms(4), assumption, erule same_code(1) [OF _ assms(1)], simp only: same_code(2) assms(2), erule same_code_w_fun)

lemma runs_READ_NEXT_L:
  assumes "flat g" "code_ok g op n" "ip_off op + 3 < n"
  shows "runs (READ_NEXT_L E op) g (code_l g op (ip_off op), op\<lparr>ip_off := ip_off op + 4\<rparr>)"
  unfolding READ_NEXT_L_def
  by (rule runs_next_w [OF assms(1,2)], use assms(3) in simp, rule runs_next_w [where n = n])
    (use assms in \<open>simp_all add: runs_ret_iff code_l_def\<close>)

lemma code_l_updates [simp]: "code_l g (op\<lparr>ip_off := k'\<rparr>) k = code_l g op k" by (simp add: code_l_def)

section \<open>The beginning of an instruction\<close>

definition plain_code :: "u8 \<Rightarrow> bool" where "plain_code b \<longleftrightarrow> b \<noteq> PREFIX_LOCK \<and> set_prefix b clear_prefix = None"

text \<open>The operation of an instruction without prefixes, in a code segment of 16 bits.\<close>

definition op_16 :: "'d guest \<Rightarrow> op \<Rightarrow> op" where
  "op_16 g op1 = (start_op op1 (r_cr0 (ctl g)) (ip g))
     \<lparr>ip_off := 1, op_prefix := clear_prefix, op_reptype := REPTYPE_16BIT, op_optype := OPTYPE_16BIT, op_addrtype := ADDRTYPE_16BIT\<rparr>"

lemma runs_parse_start:
  assumes "flat g" "code_ok g (op_16 g op1) 1" "plain_code (code_at g (op_16 g op1) 0)"
    "\<not> any_bit (seg_acr g SREG_CS) ACCESS_RIGHTS_L_BIT" "\<not> any_bit (seg_acr g SREG_CS) ACCESS_RIGHTS_D_B_BIT"
  shows "runs (parse_start E op1) g (code_at g (op_16 g op1) 0, op_16 g op1)"
proof -
  let ?op0 = "start_op op1 (r_cr0 (ctl g)) (ip g)"
  obtain b where b: "b = code_at g (op_16 g op1) 0" by blast
  have c: "code_ok g ?op0 1" "code_at g ?op0 0 = b" "ip_off ?op0 = 0"
    using assms(2) by (simp_all add: op_16_def code_ok_def code_at_def start_op_def b)
  obtain g1 where g1: "read_next_b E ?op0 g = Inr (Inr (b, ?op0\<lparr>ip_off := 1\<rparr>), g1)" "same_guest g g1"
    using runs_read_next_b [OF assms(1) c(1)] c by (auto simp: runs_def)
  have p: "parse_prefixes E b (op\<lparr>op_prefix := clear_prefix\<rparr>) g1 = Inr (Inr (b, op\<lparr>op_prefix := clear_prefix\<rparr>), g1)" for op
    using assms(3) by (simp add: parse_prefixes.simps plain_code_def ret_def b)
  have a: "read_sreg_acr SREG_CS g1 = Inr (Inr (seg_acr g SREG_CS), g1)"
    using same_guest_registers(4) [OF g1(2)] by (simp add: read_sreg_acr_def get_def sreg_defs)
  have o: "parse_opcode E efer b (op\<lparr>op_prefix := clear_prefix\<rparr>) g1 = Inr (Inr (b, op\<lparr>op_prefix := clear_prefix,
      op_reptype := REPTYPE_16BIT, op_optype := OPTYPE_16BIT, op_addrtype := ADDRTYPE_16BIT\<rparr>), g1)" for efer op
    using assms(4,5) by (simp add: parse_opcode_def bind_exec_def a Let_def ret_def clear_prefix_def)
  have "runs (parse_start E op1) g (b, op_16 g op1)" unfolding op_16_def using g1
    by (simp add: runs_def parse_start_def read_control_reg_def get_def read_ip_def bind_exec_def p o del: One_nat_def)
  then show ?thesis unfolding b .
qed

section \<open>A sample guest\<close>

text \<open>A guest without paging, at an instruction in its code segment, with the access rights \<open>ds\<close> of the data segment, and
  effects that do nothing.\<close>

definition sample_guest :: "u64 \<Rightarrow> u8 list \<Rightarrow> unit guest" where
  "sample_guest ds code =
     \<lparr>general = (\<lambda>_. 0)(0 := 0x41, 3 := 0x2000, 6 := 0x10), ip = 0x100, flags = 2, seg_sel = \<lambda>_. 0, seg_acr = (\<lambda>_. 0x93)(SREG_DS := ds),
      seg_base = \<lambda>_. 0, gdtr = (0, 0), idtr = (0, 0x3FF), cr2 = 0, ctl = flat_regs, halt = False, updateip = False,
      mem_state = sample_world\<lparr>mem := put_bytes (\<lambda>_. 0) (span 0x100 (length code)) code\<rparr>\<rparr>"

definition sample_env :: "unit env" where
  "sample_env =
     \<lparr>handler = no_handler, vmctl_write_control_reg = \<lambda>_ _ g. Inr g, vmctl_writing_sreg = \<lambda>_ g. Inr (VMMERR_SUCCESS, g),
      vmctl_read_msr = \<lambda>_ g. Inr ((False, 0), g), vmctl_write_msr = \<lambda>_ _ g. Inr (False, g), vmctl_invlpg = \<lambda>_ g. Inr g,
      vmctl_cpuid = \<lambda>_ _ g. Inr ((0, 0, 0, 0), g), vmctl_xsetbv = \<lambda>_ _ _ g. Inr (False, g), int_enabled = Inr,
      iofunc = \<lambda>_ _ _ v g. Inr ((IOACT_CONT, v), g), wbinvd = \<lambda>g. g, uninit = \<lambda>_. 0, alu = \<lambda>_ _ fl s d. (fl, d + s)\<rparr>"

definition sample_op :: op where
  "sample_op =
     \<lparr>op_prefix = clear_prefix, op_modrm = modrm_of 0, op_sib = sib_of 0, op_disp = 0, op_imm = 0, modrm_brm = REG_NO,
      modrm_rreg = REG_NO, modrm_seg = 0, modrm_addr = 0, op_mode = CPUMODE_REAL, op_addrtype = ADDRTYPE_16BIT,
      op_optype = OPTYPE_16BIT, op_reptype = REPTYPE_16BIT, op_ip = 0, ip_off = 0, longmode = False, modrm_ripflag = False\<rparr>"

lemma sample_flat: "flat (sample_guest ds c)"
  using sample_quiet(1) by (simp add: flat_def flat_regs_ok_def sample_guest_def flat_regs_def any_bit_def quiet_def)

lemma sample_usable: "list_all (\<lambda>x. x < 0x10000000) (span a n) \<Longrightarrow> usable (sample_guest ds c) a n"
proof -
  assume a: "list_all (\<lambda>x. x < 0x10000000) (span a n)"
  have "x AND 0xFFFFFFFFF = x" if "x < 0x10000000" for x :: u64
  proof -
    have m: "(0xFFFFFFFFF :: u64) = mask 36" by (simp add: mask_eq_exp_minus_1)
    have "x < 2 ^ 36" using that by (rule less_trans) simp
    then show ?thesis unfolding m by (rule less_mask_eq)
  qed
  then show "usable (sample_guest ds c) a n" using a
    by (auto simp: usable_def outside_def reachable_def sample_guest_def sample_world_def flat_regs_def phys_in_vmm_def VMMSIZE_ALL_def list_all_iff)
qed

text \<open>MOV [BX + SI + 5], AL and its neighbours: the opcode, a ModR/M byte with a displacement of a byte, and the displacement.\<close>

lemma sample_bytes:
  assumes "op_ip op = 0x100"
  shows "code_at (sample_guest ds [b0, b1, b2]) op 0 = b0" "code_at (sample_guest ds [b0, b1, b2]) op 1 = b1"
    "code_at (sample_guest ds [b0, b1, b2]) op 2 = b2" "code_ok (sample_guest ds [b0, b1, b2]) op 3"
proof -
  show "code_at (sample_guest ds [b0, b1, b2]) op 0 = b0" "code_at (sample_guest ds [b0, b1, b2]) op 1 = b1"
    "code_at (sample_guest ds [b0, b1, b2]) op 2 = b2"
    using assms by (simp_all add: code_at_def sample_guest_def span_def upt_rec)
  have "usable (sample_guest ds [b0, b1, b2]) (0 + 0x100) 3" by (rule sample_usable) (simp add: span_def upt_rec)
  then show "code_ok (sample_guest ds [b0, b1, b2]) op 3"
    using assms by (simp add: code_ok_def sample_guest_def sreg_defs any_bit_def ACCESS_RIGHTS_UNUSABLE_BIT_def ACCESS_RIGHTS_P_BIT_def)
qed

end
