(* ===== verification/Interp_Address.thy ===== *)
theory Interp_Address
  imports Interp_Fetch
begin

text \<open>
  The address of an operand in memory: what \<open>get_modrm\<close> and \<open>modrm_off\<close> compute with the tables, against the formula of
  the processor's manual, for each of the three address sizes.
\<close>

section \<open>The formula\<close>

text \<open>Sums are taken at the width of the address; registers are truncated and displacements sign-extended to it.\<close>

definition displacement :: "'d guest \<Rightarrow> op \<Rightarrow> nat \<Rightarrow> nat \<Rightarrow> 'a::len word" where
  "displacement g op k l =
     (if l = 1 then scast (code_at g op k) else if l = 2 then scast (code_w g op k) else if l = 4 then scast (code_l g op k) else 0)"

abbreviation "md op \<equiv> m_mod (op_modrm op)"
abbreviation "rm op \<equiv> m_rm (op_modrm op)"

definition disp_len16 :: "op \<Rightarrow> nat" where
  "disp_len16 op = (if md op = 0 then if rm op = 6 then 2 else 0 else if md op = 1 then 1 else 2)"

text \<open>BX or BP plus SI or DI, one of the four, or a displacement alone.\<close>

definition base16 :: "'d guest \<Rightarrow> op \<Rightarrow> 'a::len word" where
  "base16 g op =
     (let bx = ucast (general g 3); bp = ucast (general g 5); si = ucast (general g 6); di = ucast (general g 7) in
      if rm op = 0 then bx + si else if rm op = 1 then bx + di else if rm op = 2 then bp + si else if rm op = 3 then bp + di
      else if rm op = 4 then si else if rm op = 5 then di else if rm op = 6 then (if md op = 0 then 0 else bp) else bx)"

definition sib_at :: "'d guest \<Rightarrow> op \<Rightarrow> sib" where "sib_at g op = sib_of (code_at g op (ip_off op))"

definition base_bits :: "'d guest \<Rightarrow> op \<Rightarrow> 3 word" where "base_bits g op = (if rm op = 4 then s_base (sib_at g op) else rm op)"

definition no_base :: "'d guest \<Rightarrow> op \<Rightarrow> bool" where "no_base g op \<longleftrightarrow> md op = 0 \<and> base_bits g op = 5"

definition sib_len :: "op \<Rightarrow> nat" where "sib_len op = (if rm op = 4 then 1 else 0)"

definition disp_len32 :: "'d guest \<Rightarrow> op \<Rightarrow> nat" where
  "disp_len32 g op = (if md op = 0 then if no_base g op then 4 else 0 else if md op = 1 then 1 else 4)"

definition rex_ext :: "bool \<Rightarrow> nat" where "rex_ext b = (if b then 8 else 0)"

text \<open>Scaled index plus base, either of which may be missing.\<close>

definition base_index :: "'d guest \<Rightarrow> op \<Rightarrow> 'a::len word" where
  "base_index g op =
     (let x = unat (s_index (sib_at g op)) + rex_ext (rex_x (op_prefix op))
      in (if rm op = 4 \<and> x \<noteq> 4 then push_bit (unat (s_scale (sib_at g op))) (ucast (general g x)) else 0)
         + (if no_base g op then 0 else ucast (general g (unat (base_bits g op) + rex_ext (rex_b (op_prefix op))))))"

text \<open>In 64-bit mode a displacement alone, without a SIB byte, is relative to the end of the instruction.\<close>

definition relative :: "'d guest \<Rightarrow> op \<Rightarrow> bool" where
  "relative g op \<longleftrightarrow> op_addrtype op \<noteq> ADDRTYPE_16BIT \<and> longmode op \<and> no_base g op \<and> rm op \<noteq> 4"

definition ea16 :: "'d guest \<Rightarrow> op \<Rightarrow> u16" where
  "ea16 g op = base16 g op + displacement g op (ip_off op) (disp_len16 op)"

definition ea32 :: "'d guest \<Rightarrow> op \<Rightarrow> nat \<Rightarrow> 'a::len word" where
  "ea32 g op k =
     base_index g op + displacement g op (ip_off op + sib_len op) (disp_len32 g op)
     + (if relative g op then ucast (op_ip op + of_nat k) else 0)"

definition operand_len :: "'d guest \<Rightarrow> op \<Rightarrow> nat" where
  "operand_len g op = (if op_addrtype op = ADDRTYPE_16BIT then disp_len16 op else sib_len op + disp_len32 g op)"

text \<open>The stack segment for addresses relative to the stack or frame pointer.\<close>

definition default_seg :: "'d guest \<Rightarrow> op \<Rightarrow> sreg" where
  "default_seg g op =
     (if op_addrtype op = ADDRTYPE_16BIT then
        if rm op = 2 \<or> rm op = 3 \<or> (rm op = 6 \<and> md op \<noteq> 0) then SREG_SS else SREG_DS
      else if \<not> no_base g op \<and> (base_bits g op = 4 \<and> rm op = 4 \<or> base_bits g op = 5) then SREG_SS else SREG_DS)"

definition effective_address :: "'d guest \<Rightarrow> op \<Rightarrow> nat \<Rightarrow> u64" where
  "effective_address g op k =
     (case op_addrtype op of ADDRTYPE_16BIT \<Rightarrow> ucast (ea16 g op) | ADDRTYPE_32BIT \<Rightarrow> ucast (ea32 g op k :: u32) | ADDRTYPE_64BIT \<Rightarrow> ea32 g op k)"

section \<open>The tables\<close>

lemma word3_cases: "x \<in> {0, 1, 2, 3, 4, 5, 6, 7}" for x :: "3 word"
proof -
  have "unat x < 2 ^ LENGTH(3)" by (rule unsigned_less)
  then have "unat x \<in> {0, 1, 2, 3, 4, 5, 6, 7}" by auto
  then have "of_nat (unat x) \<in> (of_nat ` {0, 1, 2, 3, 4, 5, 6, 7} :: 3 word set)" by (rule imageI)
  then show ?thesis by simp
qed

lemma word2_cases: "x \<in> {0, 1, 2, 3}" for x :: "2 word"
proof -
  have "unat x < 2 ^ LENGTH(2)" by (rule unsigned_less)
  then have "unat x \<in> {0, 1, 2, 3}" by auto
  then have "of_nat (unat x) \<in> (of_nat ` {0, 1, 2, 3} :: 2 word set)" by (rule imageI)
  then show ?thesis by simp
qed

text \<open>The tables are values of formulas, row by row.\<close>

definition modrm32_entry :: "nat \<Rightarrow> bool \<Rightarrow> nat \<Rightarrow> modrm_info" where
  "modrm32_entry m b r =
     modrm_info.make (if m = 0 then if r = 5 then 4 else 0 else if m = 1 then 1 else 4)
       (if r = 4 \<or> (m = 0 \<and> r = 5) then REG_NO else REG (r + rex_ext b)) REG_NO
       (if m \<noteq> 0 \<and> r = 5 then SREG_SS else SREG_DS) (r = 4) (m = 0 \<and> r = 5)"

definition sib_entry :: "nat \<Rightarrow> bool \<Rightarrow> nat \<Rightarrow> sibbase_info" where
  "sib_entry m b r =
     sibbase_info.make (if m = 0 then if r = 5 then 4 else 0 else if m = 1 then 1 else 4)
       (if m = 0 \<and> r = 5 then REG_NO else REG (r + rex_ext b)) (if r = 4 \<or> (r = 5 \<and> m \<noteq> 0) then SREG_SS else SREG_DS)"

definition modrm16_entry :: "nat \<Rightarrow> nat \<Rightarrow> modrm_info" where
  "modrm16_entry m r =
     modrm_info.make (if m = 0 then if r = 6 then 2 else 0 else if m = 1 then 1 else 2)
       (if r = 0 \<or> r = 1 \<or> r = 7 then REG_BX else if r = 2 \<or> r = 3 then REG_BP else if r = 4 then REG_SI
        else if r = 5 then REG_DI else if m = 0 then REG_NO else REG_BP)
       (if r = 0 \<or> r = 2 then REG_SI else if r = 1 \<or> r = 3 then REG_DI else REG_NO)
       (if r = 2 \<or> r = 3 \<or> (r = 6 \<and> m \<noteq> 0) then SREG_SS else SREG_DS) False False"

lemma tables_are_formulas:
  "modrmmatrix32 = map (\<lambda>m. map (\<lambda>b. map (modrm32_entry m (b = 1)) [0..<8]) [0..<2]) [0..<3]"
  "sibmatrix_base = map (\<lambda>m. map (\<lambda>b. map (sib_entry m (b = 1)) [0..<8]) [0..<2]) [0..<3]"
  "modrmmatrix16 = map (\<lambda>m. map (modrm16_entry m) [0..<8]) [0..<3]"
  by code_simp+

lemma field_bounds: "unat r < 8" "m \<noteq> 3 \<Longrightarrow> unat m < 3" for m :: "2 word" and r :: "3 word"
proof -
  have "unat r < 2 ^ LENGTH(3)" by (rule unsigned_less)
  then show "unat r < 8" by simp
  show "unat m < 3" if "m \<noteq> 3" using word2_cases [of m] that by auto
qed

lemma unat_fields [simp]: "unat m = 0 \<longleftrightarrow> m = 0" "unat m = Suc 0 \<longleftrightarrow> m = 1" "unat r = 0 \<longleftrightarrow> r = 0" "unat r = Suc 0 \<longleftrightarrow> r = 1"
  "unat r = 2 \<longleftrightarrow> r = 2" "unat r = 3 \<longleftrightarrow> r = 3" "unat r = 4 \<longleftrightarrow> r = 4" "unat r = 5 \<longleftrightarrow> r = 5" "unat r = 6 \<longleftrightarrow> r = 6" "unat r = 7 \<longleftrightarrow> r = 7"
  for m :: "2 word" and r :: "3 word"
  using word3_cases [of r] word2_cases [of m] by auto

lemma modrm32_table:
  fixes m :: "2 word" and r :: "3 word"
  assumes "m \<noteq> 3" "e = modrmmatrix32 ! unat m ! (if b then 1 else 0) ! unat r"
  shows "mi_sibflag e \<longleftrightarrow> r = 4"
    "r \<noteq> 4 \<Longrightarrow> mi_reg1 e = (if m = 0 \<and> r = 5 then REG_NO else REG (unat r + rex_ext b)) \<and> mi_reg2 e = REG_NO"
    "r \<noteq> 4 \<Longrightarrow> mi_displen e = (if m = 0 then if r = 5 then 4 else 0 else if m = 1 then 1 else 4)"
    "r \<noteq> 4 \<Longrightarrow> mi_defseg e = (if m \<noteq> 0 \<and> r = 5 then SREG_SS else SREG_DS)"
    "mi_ripflag e \<longleftrightarrow> m = 0 \<and> r = 5"
proof -
  have "e = modrm32_entry (unat m) b (unat r)" using assms field_bounds(1) [of r] field_bounds(2) [of m] by (simp add: tables_are_formulas)
  then show "mi_sibflag e \<longleftrightarrow> r = 4"
    "r \<noteq> 4 \<Longrightarrow> mi_reg1 e = (if m = 0 \<and> r = 5 then REG_NO else REG (unat r + rex_ext b)) \<and> mi_reg2 e = REG_NO"
    "r \<noteq> 4 \<Longrightarrow> mi_displen e = (if m = 0 then if r = 5 then 4 else 0 else if m = 1 then 1 else 4)"
    "r \<noteq> 4 \<Longrightarrow> mi_defseg e = (if m \<noteq> 0 \<and> r = 5 then SREG_SS else SREG_DS)"
    "mi_ripflag e \<longleftrightarrow> m = 0 \<and> r = 5"
    by (simp_all add: modrm32_entry_def modrm_info.make_def)
qed

lemma modrm16_table:
  fixes m :: "2 word" and r :: "3 word"
  assumes "m \<noteq> 3" "e = modrmmatrix16 ! unat m ! unat r"
  shows "\<not> mi_sibflag e \<and> \<not> mi_ripflag e"
    "mi_reg1 e = (if r = 0 \<or> r = 1 \<or> r = 7 then REG_BX else if r = 2 \<or> r = 3 then REG_BP else if r = 4 then REG_SI
       else if r = 5 then REG_DI else if m = 0 then REG_NO else REG_BP)"
    "mi_reg2 e = (if r = 0 \<or> r = 2 then REG_SI else if r = 1 \<or> r = 3 then REG_DI else REG_NO)"
    "mi_displen e = (if m = 0 then if r = 6 then 2 else 0 else if m = 1 then 1 else 2)"
    "mi_defseg e = (if r = 2 \<or> r = 3 \<or> (r = 6 \<and> m \<noteq> 0) then SREG_SS else SREG_DS)"
  using assms field_bounds(1) [of r] field_bounds(2) [of m] by (simp_all add: tables_are_formulas modrm16_entry_def modrm_info.make_def)

lemma sib_table:
  fixes m :: "2 word" and r :: "3 word"
  assumes "m \<noteq> 3" "e = sibmatrix_base ! unat m ! (if b then 1 else 0) ! unat r"
  shows "sb_reg e = (if m = 0 \<and> r = 5 then REG_NO else REG (unat r + rex_ext b))"
    "sb_displen e = (if m = 0 then if r = 5 then 4 else 0 else if m = 1 then 1 else 4)"
    "sb_defseg e = (if r = 4 \<or> (r = 5 \<and> m \<noteq> 0) then SREG_SS else SREG_DS)"
proof -
  have "e = sib_entry (unat m) b (unat r)" using assms field_bounds(1) [of r] field_bounds(2) [of m] by (simp add: tables_are_formulas)
  then show "sb_reg e = (if m = 0 \<and> r = 5 then REG_NO else REG (unat r + rex_ext b))"
    "sb_displen e = (if m = 0 then if r = 5 then 4 else 0 else if m = 1 then 1 else 4)"
    "sb_defseg e = (if r = 4 \<or> (r = 5 \<and> m \<noteq> 0) then SREG_SS else SREG_DS)"
    by (simp_all add: sib_entry_def sibbase_info.make_def)
qed

lemma sib_index_table:
  fixes r :: "3 word" shows
  "sib_scale ! (if x then 1 else 0) ! unat r = (if r = 4 \<and> \<not> x then REG_NO else REG (unat r + rex_ext x))"
  using word3_cases [of r] by (cases x) (auto simp: sib_scale_def rex_ext_def)

section \<open>The decoder\<close>

lemma runs_read_disp:
  assumes "flat g" "code_ok g op n" "ip_off op + l \<le> n" "l \<in> {0, 1, 2, 4}"
  shows "runs (read_disp E l op) g (op\<lparr>ip_off := ip_off op + l, op_disp := displacement g op (ip_off op) l\<rparr>)"
proof -
  consider "l = 0" | "l = 1" | "l = 2" | "l = 4" using assms(4) by blast
  then show ?thesis
  proof cases
    case 1
    then show ?thesis using assms by (simp add: read_disp_def runs_ret_iff displacement_def)
  next
    case 2
    then show ?thesis using assms
      by (simp add: read_disp_def) (rule runs_next [OF assms(1,2)]; simp add: runs_ret_iff displacement_def)
  next
    case 3
    then show ?thesis using assms
      by (simp add: read_disp_def) (rule runs_next_w [OF assms(1,2)]; simp add: runs_ret_iff displacement_def)
  next
    case 4
    have "runs (bind_exec (READ_NEXT_L E op) (\<lambda>(d, op). ret (op\<lparr>op_disp := d\<rparr>))) g
        (op\<lparr>ip_off := ip_off op + 4, op_disp := code_l g op (ip_off op)\<rparr>)"
      by (rule runs_bind [OF runs_READ_NEXT_L [OF assms(1,2)]]) (use assms 4 in \<open>auto simp: runs_ret_iff same_code(1)\<close>)
    then show ?thesis using 4 by (simp add: read_disp_def displacement_def)
  qed
qed

lemma rex_ext_4: "unat r + rex_ext b = 4 \<longleftrightarrow> r = 4 \<and> \<not> b" for r :: "3 word"
  using word3_cases [of r] by (cases b) (auto simp: rex_ext_def)

lemma runs_read_sib_32:
  assumes "flat g" "code_ok g op n" "ip_off op + sib_len op \<le> n" "md op \<noteq> 3"
    "m = modrmmatrix32 ! unat (md op) ! (if rex_b (op_prefix op) then 1 else 0) ! unat (rm op)"
  shows "\<exists>s. runs (read_sib E m op) g (base_index g op, disp_len32 g op,
    (if \<not> no_base g op \<and> (base_bits g op = 4 \<and> rm op = 4 \<or> base_bits g op = 5) then SREG_SS else SREG_DS),
    op\<lparr>ip_off := ip_off op + sib_len op, op_sib := s\<rparr>)"
proof (cases "rm op = 4")
  case True
  have m: "mi_sibflag m" using modrm32_table(1) [OF assms(4,5)] True by simp
  let ?sib = "sib_at g op"
  let ?sb = "sibmatrix_base ! unat (md op) ! (if rex_b (op_prefix op) then 1 else 0) ! unat (s_base ?sib)"
  let ?ss = "sib_scale ! (if rex_x (op_prefix op) then 1 else 0) ! unat (s_index ?sib)"
  have "runs (read_sib E m op) g
    (push_bit (unat (s_scale ?sib)) (reg_of (general g) ?ss) + reg_of (general g) (sb_reg ?sb),
      sb_displen ?sb, sb_defseg ?sb, op\<lparr>ip_off := ip_off op + 1, op_sib := ?sib\<rparr>)"
    unfolding read_sib_def using m
  proof (simp only: if_True, intro runs_next [OF assms(1,2)])
    show "ip_off op < n" using assms(3) True by (simp add: sib_len_def)
    fix g1 assume g1: "same_guest g g1" "flat g1"
    have same: "general g1 = general g" by (rule same_guest_registers(1) [OF g1(1)])
    show "runs (let op = (op\<lparr>ip_off := ip_off op + 1\<rparr>)\<lparr>op_sib := sib_of (code_at g op (ip_off op))\<rparr>;
            sb = sibmatrix_base ! unat (m_mod (op_modrm op)) ! (if rex_b (op_prefix op) then 1 else 0) ! unat (s_base (op_sib op));
            ss = sib_scale ! (if rex_x (op_prefix op) then 1 else 0) ! unat (s_index (op_sib op)) in
        bind_exec (get_reg ss) (\<lambda>i. bind_exec (get_reg (sb_reg sb)) (\<lambda>b.
        ret (push_bit (unat (s_scale (op_sib op))) i + b, sb_displen sb, sb_defseg sb, op)))) g1
      (push_bit (unat (s_scale ?sib)) (reg_of (general g) ?ss) + reg_of (general g) (sb_reg ?sb),
      sb_displen ?sb, sb_defseg ?sb, op\<lparr>ip_off := ip_off op + 1, op_sib := ?sib\<rparr>)"
      unfolding Let_def
      by (rule runs_next_reg [OF g1(2)], rule runs_next_reg) (simp_all add: runs_ret_iff sib_at_def same)
  qed
  then show ?thesis using True sib_table [OF assms(4) refl, of "rex_b (op_prefix op)" "s_base ?sib"]
    by (intro exI [of _ ?sib])
      (auto simp: sib_index_table base_index_def no_base_def base_bits_def disp_len32_def sib_len_def rex_ext_4 Let_def)
next
  case False
  note t = modrm32_table [OF assms(4,5)]
  have "runs (read_sib E m op) g (reg_of (general g) (mi_reg1 m) + reg_of (general g) (mi_reg2 m),
      mi_displen m, mi_defseg m, op)"
    unfolding read_sib_def using t(1) False
    by (simp, intro runs_next_reg assms(1)) (simp_all add: runs_ret_iff)
  then show ?thesis using t False
    by (intro exI [of _ "op_sib op"]) (auto simp: base_index_def no_base_def base_bits_def disp_len32_def sib_len_def)
qed

lemma runs_read_sib_16:
  assumes "flat g" "md op \<noteq> 3" "m = modrmmatrix16 ! unat (md op) ! unat (rm op)"
  shows "runs (read_sib E m op) g (base16 g op, disp_len16 op,
    (if rm op = 2 \<or> rm op = 3 \<or> (rm op = 6 \<and> md op \<noteq> 0) then SREG_SS else SREG_DS), op)"
proof -
  note t = modrm16_table [OF assms(2,3)]
  have "runs (read_sib E m op) g (reg_of (general g) (mi_reg1 m) + reg_of (general g) (mi_reg2 m), mi_displen m, mi_defseg m, op)"
    unfolding read_sib_def using t(1) by (simp, intro runs_next_reg assms(1)) (simp_all add: runs_ret_iff)
  moreover have "reg_of (general g) (mi_reg1 m) + reg_of (general g) (mi_reg2 m) = base16 g op"
    unfolding t(2,3) base16_def Let_def using word3_cases [of "rm op"] by auto
  ultimately show ?thesis using t by (simp add: disp_len16_def)
qed

lemma code_cong:
  assumes "same_guest g g'" "op_ip op' = op_ip op"
  shows "displacement g' op' k l = displacement g op k l" "code_ok g' op' n = code_ok g op n"
  using same_guest_registers [OF assms(1)] assms(2)
  by (simp_all add: displacement_def code_at_def code_w_def code_l_def code_ok_def)

text \<open>The operand after \<open>get_modrm\<close>: its parts are those of the formula, at 64 bits.\<close>

definition modrm_decoded :: "'d guest \<Rightarrow> op \<Rightarrow> op \<Rightarrow> bool" where
  "modrm_decoded g op op' \<longleftrightarrow>
     op_ip op' = op_ip op \<and> op_addrtype op' = op_addrtype op \<and> op_prefix op' = op_prefix op \<and> op_optype op' = op_optype op \<and>
     longmode op' = longmode op \<and> modrm_rreg op' = modrm_rreg op \<and> ip_off op' = ip_off op + operand_len g op \<and>
     modrm_brm op' = REG_NO \<and> modrm_ripflag op' = relative g op \<and>
     modrm_seg op' = (if p_seg (op_prefix op) \<noteq> SREG_DEFAULT then p_seg (op_prefix op) else default_seg g op) \<and>
     modrm_addr op' =
       (if op_addrtype op = ADDRTYPE_16BIT then base16 g op + scast (displacement g op (ip_off op) (disp_len16 op) :: u32)
        else base_index g op + scast (displacement g op (ip_off op + sib_len op) (disp_len32 g op) :: u32))"

lemma sib_at_update [simp]: "sib_at g (op\<lparr>modrm_brm := r\<rparr>) = sib_at g op"
  by (simp add: sib_at_def code_at_def)

lemma address_updates [simp]:
  "base16 g (op\<lparr>modrm_brm := r1\<rparr>) = base16 g op" "disp_len16 (op\<lparr>modrm_brm := r2\<rparr>) = disp_len16 op"
  "base_index g (op\<lparr>modrm_brm := r3\<rparr>) = base_index g op" "disp_len32 g (op\<lparr>modrm_brm := r4\<rparr>) = disp_len32 g op"
  "no_base g (op\<lparr>modrm_brm := r5\<rparr>) = no_base g op" "base_bits g (op\<lparr>modrm_brm := r6\<rparr>) = base_bits g op"
  "sib_len (op\<lparr>modrm_brm := r7\<rparr>) = sib_len op" "code_ok g (op\<lparr>modrm_brm := r8\<rparr>) n = code_ok g op n"
  unfolding base16_def disp_len16_def code_ok_def base_index_def disp_len32_def no_base_def base_bits_def sib_len_def sib_at_update Let_def
  by simp_all

lemma runs_get_modrm_rest:
  assumes "flat g" "code_ok g op n" "ip_off op2 + l \<le> n" "l \<in> {0, 1, 2, 4}" "op_ip op2 = op_ip op"
    "runs (read_sib E m op1) g (a, l, seg, op2)"
  shows "runs (bind_exec (read_sib E m op1) (\<lambda>(addr, displen, defseg, op). bind_exec (read_disp E displen op) (\<lambda>op. ret (f addr defseg op)))) g
    (f a seg (op2\<lparr>ip_off := ip_off op2 + l, op_disp := displacement g op (ip_off op2) l\<rparr>))"
proof (rule runs_bind [OF assms(6)], unfold prod.case)
  fix g1 assume g1: "same_guest g g1"
  note f1 = same_code(1) [OF g1 assms(1)] code_cong [OF g1 assms(5)]
  have "runs (read_disp E l op2) g1 (op2\<lparr>ip_off := ip_off op2 + l, op_disp := displacement g op (ip_off op2) l\<rparr>)"
    using runs_read_disp [OF f1(1) _ assms(3,4)] assms(2) f1 by (simp add: code_cong(1) [OF g1 assms(5)])
  then show "runs (bind_exec (read_disp E l op2) (\<lambda>op. ret (f a seg op))) g1
      (f a seg (op2\<lparr>ip_off := ip_off op2 + l, op_disp := displacement g op (ip_off op2) l\<rparr>))"
    by (rule runs_bind) (rule runs_ret, erule same_code(1) [OF _ f1(1)])
qed

lemma runs_get_modrm:
  assumes "flat g" "code_ok g op n" "ip_off op + operand_len g op \<le> n" "md op \<noteq> 3"
  shows "\<exists>op'. runs (get_modrm E op) g op' \<and> modrm_decoded g op op'"
proof (cases "op_addrtype op = ADDRTYPE_16BIT")
  case True
  let ?op = "op\<lparr>modrm_brm := REG_NO\<rparr>"
  have seg: "(if rm op = 2 \<or> rm op = 3 \<or> (rm op = 6 \<and> md op \<noteq> 0) then SREG_SS else SREG_DS) = default_seg g op"
    using True by (simp add: default_seg_def)
  have s: "runs (read_sib E (modrmmatrix16 ! unat (md op) ! unat (rm op)) ?op) g (base16 g op, disp_len16 op, default_seg g op, ?op)"
    using runs_read_sib_16 [OF assms(1), of ?op] assms(4) seg by simp
  have l: "disp_len16 op \<in> {0, 1, 2, 4}" by (simp add: disp_len16_def)
  show ?thesis unfolding get_modrm_def Let_def
    using runs_get_modrm_rest [OF assms(1,2) _ l _ s] assms(3,4) True modrm16_table(1) [OF assms(4) refl]
    by (fastforce simp: operand_len_def modrm_decoded_def relative_def set_seg_def)
next
  case False
  let ?op = "op\<lparr>modrm_brm := REG_NO\<rparr>"
  let ?m = "modrmmatrix32 ! unat (md op) ! (if rex_b (op_prefix op) then 1 else 0) ! unat (rm op)"
  have seg: "(if \<not> no_base g op \<and> (base_bits g op = 4 \<and> rm op = 4 \<or> base_bits g op = 5) then SREG_SS else SREG_DS) = default_seg g op"
    using False by (simp add: default_seg_def)
  have "ip_off ?op + sib_len ?op \<le> n" using assms(3) False by (simp add: operand_len_def)
  then obtain s where s: "runs (read_sib E ?m ?op) g (base_index g op, disp_len32 g op, default_seg g op,
      ?op\<lparr>ip_off := ip_off op + sib_len op, op_sib := s\<rparr>)"
    using runs_read_sib_32 [OF assms(1), of ?op n ?m E] assms(2,4) seg by auto
  have l: "disp_len32 g op \<in> {0, 1, 2, 4}" by (simp add: disp_len32_def)
  have r: "mi_ripflag ?m \<and> longmode op \<longleftrightarrow> relative g op"
    using modrm32_table(5) [OF assms(4) refl, of "rex_b (op_prefix op)"] False by (auto simp: relative_def no_base_def base_bits_def)
  show ?thesis unfolding get_modrm_def Let_def
    using runs_get_modrm_rest [OF assms(1,2) _ l _ s] assms(3,4) False r
    by (fastforce simp: operand_len_def modrm_decoded_def set_seg_def)
qed

lemma ucast_add_down: "LENGTH('b::len) \<le> LENGTH('a::len) \<Longrightarrow> (ucast (x + y :: 'a word) :: 'b word) = ucast x + ucast y"
  by transfer (metis min.absorb1 take_bit_add take_bit_take_bit)

lemma ucast_push_down: "LENGTH('b::len) \<le> LENGTH('a::len) \<Longrightarrow> (ucast (push_bit n x :: 'a word) :: 'b word) = push_bit n (ucast x)"
  by (intro bit_word_eqI) (auto simp: bit_simps)

lemma and_mask_ucast:
  "x AND 0xFFFF = ucast (ucast x :: u16)" "x AND 0xFFFFFFFF = ucast (ucast x :: u32)" for x :: u64
proof -
  have m: "(0xFFFF :: u64) = mask 16" "(0xFFFFFFFF :: u64) = mask 32" by (simp_all add: mask_eq_exp_minus_1)
  show "x AND 0xFFFF = ucast (ucast x :: u16)" unfolding m by (intro bit_word_eqI) (auto simp: bit_simps)
  show "x AND 0xFFFFFFFF = ucast (ucast x :: u32)" unfolding m by (intro bit_word_eqI) (auto simp: bit_simps)
qed

lemma displacement_narrow:
  "(scast (displacement g op k l :: u32) :: u64) = displacement g op k l"
  "(ucast (displacement g op k l :: u64) :: u16) = displacement g op k l"
  "(ucast (displacement g op k l :: u64) :: u32) = displacement g op k l"
proof -
  have [simp]: "min 15 (min 31 j) = min 15 j" "min 7 (min 31 j) = min 7 j" "min 31 j < 32" for j :: nat
    by (auto simp: min_def)
  show "(scast (displacement g op k l :: u32) :: u64) = displacement g op k l"
    "(ucast (displacement g op k l :: u64) :: u16) = displacement g op k l"
    "(ucast (displacement g op k l :: u64) :: u32) = displacement g op k l"
    unfolding displacement_def by (auto intro!: bit_word_eqI simp: bit_simps)
qed

lemma base16_narrow: "ucast (base16 g op :: u64) = (base16 g op :: u16)"
  unfolding base16_def Let_def by (simp add: ucast_add_down)

lemma base_index_narrow: "ucast (base_index g op :: u64) = (base_index g op :: u32)"
  unfolding base_index_def Let_def by (simp add: ucast_add_down ucast_push_down)



end
