(* ===== verification/Interp_Regular.thy ===== *)
theory Interp_Regular
  imports Interp_Address
begin

text \<open>
  What the regular instructions do to a flat guest, against a description of operands in terms of registers and
  bytes of memory.
\<close>

section \<open>Operands\<close>

text \<open>The register file as the manual describes it: without a REX prefix the byte registers 4 to 7 are the second bytes of the
  first four registers; a result of four bytes clears the upper half, shorter ones keep the rest.\<close>

definition byte_place :: "op \<Rightarrow> nat \<Rightarrow> nat \<times> nat" where
  "byte_place op r = (if \<not> has_rex op \<and> 4 \<le> r then (r - 4, 8) else (r, 0))"

definition reg_value :: "'d guest \<Rightarrow> op \<Rightarrow> nat \<Rightarrow> nat \<Rightarrow> u64" where
  "reg_value g op n r = (if n = 1 then (case byte_place op r of (q, k) \<Rightarrow> low 1 (drop_bit k (general g q))) else low n (general g r))"

definition reg_update :: "'d guest \<Rightarrow> op \<Rightarrow> nat \<Rightarrow> nat \<Rightarrow> u64 \<Rightarrow> nat \<Rightarrow> u64" where
  "reg_update g op n r v =
     (if n = 1 then
        (case byte_place op r of (q, k) \<Rightarrow> (general g)(q := (general g q AND NOT (push_bit k 0xFF)) OR push_bit k (low 1 v)))
      else (general g)(r := if n = 2 then put_low 2 (general g r) v else low n v))"

definition linear_operand :: "'d guest \<Rightarrow> op \<Rightarrow> u64" where
  "linear_operand g op = seg_base g (modrm_seg op) + modrm_off op 0"

text \<open>The register of an operand, if it is in one.\<close>

definition operand_reg :: "op \<Rightarrow> idata_operand \<Rightarrow> nat option" where
  "operand_reg op x =
     (case x of O_M \<Rightarrow> (case modrm_brm op of REG_NO \<Rightarrow> None | REG r \<Rightarrow> Some r)
      | O_R \<Rightarrow> (case modrm_rreg op of REG_NO \<Rightarrow> None | REG r \<Rightarrow> Some r)
      | O_A \<Rightarrow> Some 0 | O_C \<Rightarrow> Some 1 | _ \<Rightarrow> None)"

definition operand_value :: "'d guest \<Rightarrow> op \<Rightarrow> nat \<Rightarrow> idata_operand \<Rightarrow> u64" where
  "operand_value g op n x =
     (case operand_reg op x of
        Some r \<Rightarrow> reg_value g op n r
      | None \<Rightarrow>
          (case x of O_M \<Rightarrow> of_bytes (get_bytes (mem (mem_state g)) (span (linear_operand g op) n))
           | O_I \<Rightarrow> low n (op_imm op) | _ \<Rightarrow> 1))"

text \<open>An operand of the instruction that is there: in memory, in a segment that can be used.\<close>

definition operand_ok :: "'d guest \<Rightarrow> op \<Rightarrow> nat \<Rightarrow> idata_operand \<Rightarrow> bool" where
  "operand_ok g op bytes x \<longleftrightarrow>
     (case x of
        O_M \<Rightarrow>
          (case modrm_brm op of
             REG r \<Rightarrow> has_rex op \<or> r < 8
           | REG_NO \<Rightarrow> modrm_seg op \<le> SREG_GS \<and> usable g (linear_operand g op) (opsize op bytes) \<and>
               (longmode op \<or> (\<not> any_bit (seg_acr g (modrm_seg op)) ACCESS_RIGHTS_UNUSABLE_BIT \<and>
                 any_bit (seg_acr g (modrm_seg op)) ACCESS_RIGHTS_P_BIT)))
      | O_R \<Rightarrow> (case modrm_rreg op of REG r \<Rightarrow> has_rex op \<or> r < 8 | REG_NO \<Rightarrow> False)
      | O_C \<Rightarrow> bytes = 1 | O_ZERO \<Rightarrow> False | _ \<Rightarrow> True)"

lemma low_low [simp]: "low n (low n v) = low n v" by (simp add: low_def and.assoc)

lemma low_8 [simp]: "low 8 v = v"
  unfolding low_def by (rule bit_word_eqI) (auto simp: bit_simps dest: bit_imp_le_length)

lemma low_of_bytes: "length bs = n \<Longrightarrow> low n (of_bytes bs) = of_bytes bs"
  unfolding low_def by (rule bit_word_eqI) (auto simp: bit_simps bit_of_bytes)

lemma opsize_in: "opsize op bytes \<in> {1, 2, 4, 8}"
  by (auto simp: opsize_def split: optype.split)

lemma get_reg8_value:
  assumes "rex \<or> r < 8"
  shows "get_reg8 rex r g = Inr (Inr (case (if \<not> rex \<and> 4 \<le> r then (r - 4, 8) else (r, 0)) of (q, k) \<Rightarrow> low 1 (drop_bit k (general g q))), g)"
proof -
  have "r < 8 \<Longrightarrow> reg8_general_reg r = (if 4 \<le> r then r - 4 else r)"
    by (auto simp: reg8_general_reg_def general_reg_defs)
  then show ?thesis using assms
    by (auto simp: get_reg8_def reg8_place_def reg8_dp_def bind_exec_def read_general_reg_def get_def ret_def)
qed

lemma set_reg8_value:
  assumes "rex \<or> r < 8"
  shows "set_reg8 rex r v g =
    Inr (Inr (), g\<lparr>general := (case (if \<not> rex \<and> 4 \<le> r then (r - 4, 8) else (r, 0)) of (q, k) \<Rightarrow>
      (general g)(q := (general g q AND NOT (push_bit k 0xFF)) OR push_bit k (low 1 v)))\<rparr>)"
proof -
  have "r < 8 \<Longrightarrow> reg8_general_reg r = (if 4 \<le> r then r - 4 else r)"
    by (auto simp: reg8_general_reg_def general_reg_defs)
  then show ?thesis using assms
    by (auto simp: set_reg8_def reg8_place_def reg8_dp_def bind_exec_def read_general_reg_def write_general_reg_def get_def modify_def ret_def)
qed

text \<open>A segment that can be used: the access goes to base plus offset.\<close>

definition segment_ok :: "'d guest \<Rightarrow> op \<Rightarrow> sreg \<Rightarrow> bool" where
  "segment_ok g op s \<longleftrightarrow> s \<le> SREG_GS \<and>
     (longmode op \<or> (\<not> any_bit (seg_acr g s) ACCESS_RIGHTS_UNUSABLE_BIT \<and> any_bit (seg_acr g s) ACCESS_RIGHTS_P_BIT))"

lemma seg_linear_ok:
  assumes "segment_ok g op s" "\<not> longmode op" shows "seg_linear s k g = Inr (Inr (seg_base g s + k), g)"
  using assms
  by (simp add: seg_linear_def read_sreg_acr_def read_sreg_base_def check_seg_def segment_ok_def bind_exec_def get_def ret_def)

lemma LGUESTSEG_ok:
  assumes "segment_ok g op s" "n \<in> {1, 2, 4, 8}"
  shows "LGUESTSEG_READ E n op s k old g = linear_read E n (seg_base g s + k) old g"
    "LGUESTSEG_WRITE E n op s k v g = linear_write E n (seg_base g s + k) v g"
proof -
  have b: "read_sreg_base s g = Inr (Inr (seg_base g s), g)" using assms(1) by (simp add: read_sreg_base_def segment_ok_def get_def)
  have r: "cpu_seg_read E n s k old g = linear_read E n (seg_base g s + k) old g" if "\<not> longmode op"
    using assms(2) unfolding cpu_seg_read_def cpu_seg_read_b_def cpu_seg_read_w_def cpu_seg_read_l_def cpu_seg_read_q_def
    by (auto simp: bind_exec_def seg_linear_ok [OF assms(1) that])
  have w: "cpu_seg_write E n s k v g = linear_write E n (seg_base g s + k) v g" if "\<not> longmode op"
    using assms(2) unfolding cpu_seg_write_def cpu_seg_write_b_def cpu_seg_write_w_def cpu_seg_write_l_def cpu_seg_write_q_def
    by (auto simp: bind_exec_def seg_linear_ok [OF assms(1) that])
  show "LGUESTSEG_READ E n op s k old g = linear_read E n (seg_base g s + k) old g"
    using r by (simp add: LGUESTSEG_READ_def bind_exec_def b)
  show "LGUESTSEG_WRITE E n op s k v g = linear_write E n (seg_base g s + k) v g"
    using w by (simp add: LGUESTSEG_WRITE_def bind_exec_def b)
qed

text \<open>The four widths of the operand in memory, by their size.\<close>

lemma idata_rd_memory:
  assumes "modrm_brm op = REG_NO" "segment_ok g op (modrm_seg op)"
  shows "idata_rd E op O_M bytes old g = linear_read E (opsize op bytes) (linear_operand g op) old g"
  using assms LGUESTSEG_ok(1) [OF assms(2)]
  by (auto simp: idata_rd_def read_modrm8_def read_modrm16_def read_modrm32_def read_modrm64_def read_modrm_n_def opsize_def
      linear_operand_def split: optype.split)

lemma idata_wr_memory:
  assumes "modrm_brm op = REG_NO" "segment_ok g op (modrm_seg op)"
  shows "idata_wr E op O_M bytes v g = linear_write E (opsize op bytes) (linear_operand g op) v g"
  using assms LGUESTSEG_ok(2) [OF assms(2)]
  by (auto simp: idata_wr_def write_modrm8_def write_modrm16_def write_modrm32_def write_modrm64_def write_modrm_n_def opsize_def
      linear_operand_def split: optype.split)

lemma operand_ok_memory:
  "modrm_brm op = REG_NO \<Longrightarrow> operand_ok g op bytes O_M \<longleftrightarrow>
    segment_ok g op (modrm_seg op) \<and> usable g (linear_operand g op) (opsize op bytes)"
  by (auto simp: operand_ok_def segment_ok_def)

lemma reg_value_0: "reg_value g op n 0 = low n (general g 0)"
  by (simp add: reg_value_def byte_place_def)

lemma get_reg8_op: "has_rex op \<or> r < 8 \<Longrightarrow> get_reg8 (has_rex op) r g = Inr (Inr (reg_value g op 1 r), g)"
  using get_reg8_value [of "has_rex op" r g] by (simp add: reg_value_def byte_place_def)

lemma put_low_low [simp]: "put_low n old (low n v) = put_low n old v" by (simp add: put_low_def)

lemma opsize_cases: "bytes = 1 \<Longrightarrow> opsize op bytes = 1"
  "bytes \<noteq> 1 \<Longrightarrow> opsize op bytes \<noteq> 1" by (auto simp: opsize_def split: optype.splits)

lemma reg_value_wide: "n \<noteq> 1 \<Longrightarrow> reg_value g op n r = low n (general g r)" by (simp add: reg_value_def)

lemma reg_value_low [simp]: "low n (reg_value g op n r) = reg_value g op n r"
  by (auto simp: reg_value_def split: prod.split)

lemma reg_value_first: "r < 4 \<Longrightarrow> reg_value g op n r = low n (general g r)"
  by (simp add: reg_value_def byte_place_def)

lemma operand_reg_cases:
  assumes "operand_ok g op bytes x" "operand_reg op x = Some r"
  obtains "x = O_M" "modrm_brm op = REG r" "has_rex op \<or> r < 8" | "x = O_R" "modrm_rreg op = REG r" "has_rex op \<or> r < 8"
    | "x = O_A" "r = 0" | "x = O_C" "r = 1" "bytes = 1"
  using assms by (cases x) (auto simp: operand_reg_def operand_ok_def split: reg.splits)

lemma idata_rd_register:
  assumes "operand_ok g op bytes x" "operand_reg op x = Some r"
  shows "idata_rd E op x bytes old g = Inr (Inr (put_low (opsize op bytes) old (reg_value g op (opsize op bytes) r)), g)"
proof (cases "bytes = 1")
  case True
  from assms show ?thesis
  proof (cases rule: operand_reg_cases)
    case 3
    then show ?thesis using True get_reg8_value [of False 0 g] reg_value_first [of 0 g op 1]
      by (simp add: idata_rd_def bind_exec_def ret_def opsize_def)
  next
    case 4
    then show ?thesis using True get_reg8_value [of False 1 g] reg_value_first [of 1 g op 1]
      by (simp add: idata_rd_def bind_exec_def ret_def opsize_def)
  qed (simp_all add: True idata_rd_def read_modrm8_def reg_num_def get_reg8_op bind_exec_def ret_def opsize_def)
next
  case False
  have w: "reg_value g op (opsize op bytes) r = low (opsize op bytes) (general g r)"
    by (rule reg_value_wide) (rule opsize_cases(2) [OF False])
  from assms show ?thesis unfolding w
    by (cases rule: operand_reg_cases; cases "op_optype op")
      (use False in \<open>simp_all add: idata_rd_def read_modrm16_def read_modrm32_def read_modrm64_def read_modrm_n_def opsize_def
        get_reg_def read_general_reg_def get_def ret_def bind_exec_def\<close>)
qed

lemma operand_in_memory:
  assumes "operand_ok g op bytes O_M" "operand_reg op O_M = None"
  shows "modrm_brm op = REG_NO" "segment_ok g op (modrm_seg op)" "usable g (linear_operand g op) (opsize op bytes)"
  using assms by (auto simp: operand_ok_def operand_reg_def segment_ok_def split: reg.splits)

lemma idata_rd_flat:
  assumes "flat g" "operand_ok g op bytes x"
  shows "\<exists>d g'. idata_rd E op x bytes old g = Inr (Inr d, g') \<and> low (opsize op bytes) d = operand_value g op (opsize op bytes) x \<and>
    memory_is (mem (mem_state g)) g g'"
proof (cases "operand_reg op x")
  case (Some r)
  then show ?thesis using idata_rd_register [OF assms(2) Some] same_guest_refl [OF assms(1)] by (auto simp: operand_value_def)
next
  case None
  let ?n = "opsize op bytes"
  have 1: "low ?n 1 = 1" using opsize_in [of op bytes] by (auto simp: low_def mask_eq_exp_minus_1)
  consider "x = O_M" | "x = O_I" | "x = O_1"
    using None assms(2) by (cases x) (auto simp: operand_reg_def operand_ok_def split: reg.splits)
  then show ?thesis
  proof cases
    case 1
    note m = operand_in_memory [OF assms(2) [unfolded 1] None [unfolded 1]]
    show ?thesis
      using linear_read_flat [OF assms(1) m(3) opsize_in, of E old] idata_rd_memory [OF m(1,2)] 1 None
      by (auto simp: operand_value_def low_of_bytes get_bytes_def)
  qed (use 1 None same_guest_refl [OF assms(1)] in \<open>auto simp: idata_rd_def ret_def operand_value_def\<close>)
qed

section \<open>Results\<close>

text \<open>Registers and memory after the store of a result.\<close>

definition store_operand :: "'d guest \<Rightarrow> op \<Rightarrow> nat \<Rightarrow> idata_operand \<Rightarrow> u64 \<Rightarrow> (nat \<Rightarrow> u64) \<times> (u64 \<Rightarrow> u8)" where
  "store_operand g op n x v =
     (case operand_reg op x of
        Some r \<Rightarrow> (reg_update g op n r v, mem (mem_state g))
      | None \<Rightarrow> (general g, put_bytes (mem (mem_state g)) (span (linear_operand g op) n) (le_bytes n v)))"

definition destination :: "idata_operand \<Rightarrow> bool" where "destination x \<longleftrightarrow> x = O_M \<or> x = O_R \<or> x = O_A"

lemma set_reg8_op: "has_rex op \<or> r < 8 \<Longrightarrow> set_reg8 (has_rex op) r v g = Inr (Inr (), g\<lparr>general := reg_update g op 1 r v\<rparr>)"
  using set_reg8_value [of "has_rex op" r v g] by (simp add: reg_update_def byte_place_def)

lemma reg_update_wide:
  "reg_update g op 2 r v = (general g)(r := put_low 2 (general g r) v)" "reg_update g op 4 r v = (general g)(r := low 4 v)"
  "reg_update g op 8 r v = (general g)(r := v)"
  by (simp_all add: reg_update_def)

lemma idata_wr_register:
  assumes "operand_ok g op bytes x" "operand_reg op x = Some r" "destination x"
  shows "idata_wr E op x bytes v g = Inr (Inr (), g\<lparr>general := reg_update g op (opsize op bytes) r v\<rparr>)"
proof (cases "bytes = 1")
  case True
  from assms(1,2) show ?thesis
  proof (cases rule: operand_reg_cases)
    case 3
    then show ?thesis using True set_reg8_value [of False 0 v g]
      by (simp add: idata_wr_def opsize_def reg_update_def byte_place_def)
  next
    case 4
    then show ?thesis using assms(3) by (simp add: destination_def)
  qed (simp_all add: True idata_wr_def write_modrm8_def reg_num_def set_reg8_op opsize_def)
next
  case False
  have put: "set_by_size op (REG r) v g = Inr (Inr (), g\<lparr>general := reg_update g op (opsize op bytes) r v\<rparr>)"
    using False by (cases "op_optype op") (simp_all add: set_by_size_def opsize_def set_reg16_def get_reg_def set_reg_def
      read_general_reg_def write_general_reg_def get_def modify_def bind_exec_def reg_update_wide)
  have wide: "set_by_size op r v = (case op_optype op of
      OPTYPE_16BIT \<Rightarrow> write_modrm16 E op 0 v | OPTYPE_32BIT \<Rightarrow> write_modrm32 E op 0 v | OPTYPE_64BIT \<Rightarrow> write_modrm64 E op 0 v)"
    if "modrm_brm op = r" "r \<noteq> REG_NO" for r
    using that by (cases "op_optype op")
      (simp_all add: set_by_size_def write_modrm16_def write_modrm32_def write_modrm64_def write_modrm_n_def set_reg16_def)
  from assms(1,2) show ?thesis
  proof (cases rule: operand_reg_cases)
    case 1
    then show ?thesis using put wide [OF 1(2)] False by (simp add: idata_wr_def)
  next
    case 2
    then show ?thesis using put False by (simp add: idata_wr_def)
  next
    case 3
    then show ?thesis using put False by (simp add: idata_wr_def)
  next
    case 4
    then show ?thesis using False by simp
  qed
qed

lemma idata_wr_flat:
  assumes "flat g" "operand_ok g op bytes x" "destination x"
  shows "\<exists>w. idata_wr E op x bytes v g = Inr (Inr (), g\<lparr>general := fst (store_operand g op (opsize op bytes) x v), mem_state := w\<rparr>) \<and>
    quiet w \<and> outside w = outside (mem_state g) \<and> mem w = snd (store_operand g op (opsize op bytes) x v)"
proof (cases "operand_reg op x")
  case (Some r)
  have "(g\<lparr>general := k, mem_state := mem_state g\<rparr>) = g\<lparr>general := k\<rparr>" for k by simp
  with Some show ?thesis using idata_wr_register [OF assms(2) Some assms(3)] assms(1)
    by (intro exI [of _ "mem_state g"]) (simp add: store_operand_def flat_def)
next
  case None
  have x: "x = O_M" using None assms(2,3) by (auto simp: operand_reg_def operand_ok_def destination_def split: reg.splits)
  note m = operand_in_memory [OF assms(2) [unfolded x] None [unfolded x]]
  show ?thesis
    using linear_write_flat [OF assms(1) m(3) opsize_in, of E v] idata_wr_memory [OF m(1,2)] x None
    by (auto simp: store_operand_def memory_is_def)
qed

section \<open>Instructions\<close>

text \<open>The flags and the value that a regular instruction computes; a comparison stores no value.\<close>

definition regular_result :: "'d env \<Rightarrow> idata_function \<Rightarrow> nat \<Rightarrow> u64 \<Rightarrow> u64 \<Rightarrow> u64 \<Rightarrow> u64 \<times> u64 option" where
  "regular_result E f n fl s d =
     (case instruction_2op f of
        None \<Rightarrow> (fl, Some s)
      | Some instruction \<Rightarrow>
          (case alu E instruction n (fl AND flagmask) s d of
             (newflags, r) \<Rightarrow> ((fl AND NOT flagmask) OR (newflags AND flagmask), if f = F_CMP \<or> f = F_TEST then None else Some r)))"

text \<open>The guest after an instruction of the source \<open>s\<close> and the destination \<open>x\<close>, up to the placement of memory.\<close>

definition regular_step :: "'d env \<Rightarrow> idata_function \<Rightarrow> op \<Rightarrow> idata \<Rightarrow> 'd guest \<Rightarrow> 'd guest \<Rightarrow> bool" where
  "regular_step E f op i g g' =
     (let n = opsize op (id_len i);
          (fl, result) = regular_result E f n (flags g) (operand_value g op n (id_src i)) (operand_value g op n (id_dst i));
          (general', memory) = (case result of None \<Rightarrow> (general g, mem (mem_state g)) | Some r \<Rightarrow> store_operand g op n (id_dst i) r)
      in memory_is memory (g\<lparr>general := general', flags := fl, ip := op_ip op + of_nat (ip_off op), updateip := True\<rparr>) g')"

lemma low_regular:
  "store_operand g op n x (low n v) = store_operand g op n x v"
proof -
  have "le_bytes n (low n v) = le_bytes n v" by (rule le_bytes_cong) (auto simp: low_def bit_simps dest: bit_imp_le_length)
  moreover have "reg_update g op n r (low n v) = reg_update g op n r v" for r by (auto simp: reg_update_def)
  ultimately show ?thesis by (simp add: store_operand_def split: option.split)
qed

lemma same_operands:
  assumes "memory_is (mem (mem_state g)) g g'"
  shows "operand_value g' op n x = operand_value g op n x" "operand_ok g' op bytes x = operand_ok g op bytes x"
    "store_operand g' op n x v = store_operand g op n x v"
  using assms
  by (auto simp: memory_is_def operand_value_def operand_ok_def usable_def store_operand_def reg_value_def reg_update_def
      linear_operand_def split: option.split idata_operand.split reg.split)

lemma opcode_2op_flat:
  assumes "flat g" "operand_ok g op (id_len i) (id_src i)" "operand_ok g op (id_len i) (id_dst i)" "destination (id_dst i)"
    "instruction_2op f = Some instruction"
  shows "\<exists>g'. opcode_2op E op i f instruction g = Inr (Inr (), g') \<and> regular_step E f op i g g'"
proof -
  let ?n = "opsize op (id_len i)"
  obtain s g1 where s: "idata_rd E op (id_src i) (id_len i) (uninit E ''src'') g = Inr (Inr s, g1)"
    "low ?n s = operand_value g op ?n (id_src i)" "memory_is (mem (mem_state g)) g g1"
    using idata_rd_flat [OF assms(1,2)] by blast
  note f1 = memory_is_flat(1) [OF s(3) assms(1)] same_operands [OF s(3)] memory_is_flat(3) [OF s(3)]
  obtain d g2 where d: "idata_rd E op (id_dst i) (id_len i) (uninit E ''dst'') g1 = Inr (Inr d, g2)"
    "low ?n d = operand_value g op ?n (id_dst i)" "memory_is (mem (mem_state g)) g1 g2"
    using idata_rd_flat [OF f1(1), of op "id_len i" "id_dst i" E "uninit E ''dst''"] assms(3) f1 by auto
  have g2: "memory_is (mem (mem_state g)) g g2" by (rule memory_is_flat(4) [OF s(3) d(3)])
  note f2 = memory_is_flat(1) [OF g2 assms(1)] same_operands [OF g2]
  obtain fl r where fl: "alu E instruction ?n (flags g AND flagmask) (low ?n s) (low ?n d) = (fl, r)" by fastforce
  have flags: "flags g2 = flags g" using g2 by (auto simp: memory_is_def)
  have store: "store_operand g op ?n (id_dst i) (put_low ?n d r) = store_operand g op ?n (id_dst i) r"
    using low_regular [of g op ?n "id_dst i" "put_low ?n d r"] low_regular [of g op ?n "id_dst i" r] by simp
  obtain w where w: "idata_wr E op (id_dst i) (id_len i) (put_low ?n d r) g2 =
      Inr (Inr (), g2\<lparr>general := fst (store_operand g op ?n (id_dst i) r), mem_state := w\<rparr>)"
    "quiet w" "outside w = outside (mem_state g2)" "mem w = snd (store_operand g op ?n (id_dst i) r)"
    using idata_wr_flat [OF f2(1), of op "id_len i" "id_dst i" E "put_low ?n d r"] assms(3,4) f2 store by auto
  show ?thesis
  proof (cases "f = F_CMP \<or> f = F_TEST")
    case True
    then show ?thesis using g2 fl d s assms(5)
      by (auto simp: opcode_2op_def bind_exec_def s(1) d(1) ID_2OP_def flags read_flags_def get_def ret_def write_flags_def modify_def
          UPDATE_IP_def write_ip_def regular_step_def regular_result_def memory_is_def Let_def intro!: exI [of _ "mem_state g2"])
  next
    case False
    then show ?thesis using g2 fl d s w assms(5)
      by (auto simp: opcode_2op_def bind_exec_def s(1) d(1) ID_2OP_def flags read_flags_def get_def ret_def write_flags_def modify_def
          UPDATE_IP_def write_ip_def regular_step_def regular_result_def memory_is_def Let_def split: prod.split intro!: exI [of _ w])
  qed
qed

lemma opcode_mov_flat:
  assumes "flat g" "operand_ok g op (id_len i) (id_src i)" "operand_ok g op (id_len i) (id_dst i)" "destination (id_dst i)"
  shows "\<exists>g'. opcode_mov E op i g = Inr (Inr (), g') \<and> regular_step E F_MOV op i g g'"
proof -
  let ?n = "opsize op (id_len i)"
  obtain s g1 where s: "idata_rd E op (id_src i) (id_len i) (uninit E ''src'') g = Inr (Inr s, g1)"
    "low ?n s = operand_value g op ?n (id_src i)" "memory_is (mem (mem_state g)) g g1"
    using idata_rd_flat [OF assms(1,2)] by blast
  note f1 = memory_is_flat(1) [OF s(3) assms(1)] same_operands [OF s(3)]
  have store: "store_operand g op ?n (id_dst i) s = store_operand g op ?n (id_dst i) (operand_value g op ?n (id_src i))"
    using low_regular [of g op ?n "id_dst i" s] s(2) by simp
  obtain w where w: "idata_wr E op (id_dst i) (id_len i) s g1 =
      Inr (Inr (), g1\<lparr>general := fst (store_operand g op ?n (id_dst i) s), mem_state := w\<rparr>)"
    "quiet w" "outside w = outside (mem_state g1)" "mem w = snd (store_operand g op ?n (id_dst i) s)"
    using idata_wr_flat [OF f1(1), of op "id_len i" "id_dst i" E s] assms(3,4) f1 by auto
  show ?thesis using s w
    by (auto simp: opcode_mov_def bind_exec_def s(1) UPDATE_IP_def write_ip_def modify_def regular_step_def regular_result_def
        instruction_2op_def memory_is_def store Let_def split: prod.split intro!: exI [of _ w])
qed

lemma opcode_idata_flat:
  assumes "flat g" "operand_ok g op (id_len i) (id_src i)" "operand_ok g op (id_len i) (id_dst i)" "destination (id_dst i)"
    "resolve_group op (id_func i) = f" "f = F_MOV \<or> instruction_2op f \<noteq> None"
  shows "\<exists>g'. opcode_idata E op i g = Inr (Inr (), g') \<and> regular_step E f op i g g'"
proof (cases "instruction_2op f")
  case None
  then have "f = F_MOV" using assms(6) by blast
  then show ?thesis using opcode_mov_flat [OF assms(1-4)] assms(5) None by (simp add: opcode_idata_def)
next
  case (Some instruction)
  then show ?thesis using opcode_2op_flat [OF assms(1-4) Some] assms(5) by (simp add: opcode_idata_def)
qed

section \<open>From the table\<close>

text \<open>What the table says of an instruction with a ModR/M byte and no immediate.\<close>

definition modrm_row :: "u8 \<Rightarrow> idata \<Rightarrow> bool" where
  "modrm_row code i \<longleftrightarrow>
     (id_type i = I_MODRM \<longrightarrow>
        destination (id_dst i) \<and> (id_func i \<in> {F_MOV, F_XCHG, F_GRP2} \<or> instruction_2op (id_func i) \<noteq> None) \<and>
        (code < 0x40 \<and> code AND 7 < 4 \<or> 0x84 \<le> code \<and> code < 0x8C \<or> 0xD0 \<le> code \<and> code < 0xD4))"

lemma table_rows: "modrm_row code (idata_table ! unat code)"
proof -
  have t: "list_all (\<lambda>(k, i). modrm_row (of_nat k) i) (enumerate 0 idata_table)" by code_simp
  have l: "length idata_table = 256" by (simp add: idata_table_def idata_00_def idata_40_def idata_80_def idata_C0_def)
  have "unat code < 2 ^ LENGTH(8)" by (rule unsigned_less)
  then have "unat code < 256" by simp
  moreover have "\<forall>n<256. modrm_row (of_nat n) (idata_table ! n)" using t l by (simp add: list_all_length nth_enumerate_eq)
  ultimately have "modrm_row (of_nat (unat code)) (idata_table ! unat code)" by blast
  then show ?thesis by simp
qed

lemma exec_opcode_modrm:
  assumes "id_type (idata_table ! unat code) = I_MODRM"
  shows "exec_opcode E code op = bind_exec (read_operand E op) (\<lambda>op. opcode_idata E op (idata_table ! unat code))"
proof -
  have r: "code < 0x40 \<and> code AND 7 < 4 \<or> 0x84 \<le> code \<and> code < 0x8C \<or> 0xD0 \<le> code \<and> code < 0xD4"
    using table_rows [of code] assms by (simp add: modrm_row_def)
  have "code \<notin> {0x0F, 0xF4, 0xFA, 0xFB, 0x9C, 0x9D, 0xCF, 0xCD, 0xCC, 0xCE, 0xE4, 0xE5, 0xEC, 0xED, 0x6C, 0x6D, 0xE6, 0xE7, 0xEE, 0xEF, 0x6E, 0x6F}"
    "code \<notin> {0x8C, 0x8E, 0x06, 0x0E, 0x16, 0x1E, 0x07, 0x17, 0x1F, 0xEA, 0xFF, 0x8F, 0xCB, 0xA4, 0xA5, 0xAA, 0xAB}"
    using r by (simp_all, safe) simp_all
  then have "exec_opcode E code op = grp_special E op (idata_table ! unat code)"
    unfolding exec_opcode_def opcode_defs by simp
  then show ?thesis using assms by (simp add: grp_special_def)
qed

lemma same_regular_step:
  assumes "same_guest g g1" "regular_step E f op i g1 g'" shows "regular_step E f op i g g'"
proof -
  obtain w where w: "g1 = g\<lparr>mem_state := w\<rparr>" and m: "mem w = mem (mem_state g)" "outside w = outside (mem_state g)"
    using assms(1) by (auto simp: memory_is_def)
  have "memory_is m (g1\<lparr>general := x, flags := fl, ip := p, updateip := u\<rparr>) g' = memory_is m (g\<lparr>general := x, flags := fl, ip := p, updateip := u\<rparr>) g'"
    "memory_is m (g1\<lparr>flags := fl, ip := p, updateip := u\<rparr>) g' = memory_is m (g\<lparr>flags := fl, ip := p, updateip := u\<rparr>) g'"
    for m x fl p u using m(2) by (auto simp: memory_is_def w)
  then show ?thesis using assms(2) same_operands [OF assms(1)] m(1)
    by (auto simp: regular_step_def Let_def w split: prod.splits option.splits)
qed

text \<open>The bytes up to the operand, as one step.\<close>

definition decode :: "'d env \<Rightarrow> op \<Rightarrow> (u8 \<times> op, 'd) exec" where
  "decode E op1 = bind_exec (parse_start E op1) (\<lambda>(code, op). bind_exec (read_operand E op) (\<lambda>op. ret (code, op)))"

lemma interpreter_decodes:
  assumes "decode E op1 g = Inr (Inr (code, op), g1)" "id_type (idata_table ! unat code) = I_MODRM"
  shows "cpu_interpreter E op1 g = opcode_idata E op (idata_table ! unat code) g1"
proof -
  obtain op0 g0 where "parse_start E op1 g = Inr (Inr (code, op0), g0)" "read_operand E op0 g0 = Inr (Inr op, g1)"
    using assms(1) by (auto simp: decode_def bind_exec_Inr)
  then show ?thesis using assms(2) by (simp add: cpu_interpreter_def bind_exec_def exec_opcode_modrm)
qed


end
