(* ===== verification/Interp_Types.thy ===== *)
theory Interp_Types
  imports Interp_Regular
begin

text \<open>
  The type of a decoded operation: what the decoder guarantees to the instructions, so that every register number
  they use is one of the processor and every segment has a descriptor.
\<close>

lemma bind_execE:
  assumes "bind_exec m f g = Inr (Inr y, g')" obtains x g1 where "m g = Inr (Inr x, g1)" "f x g1 = Inr (Inr y, g')"
  using assms by (auto simp: bind_exec_Inr)

lemma if_execE:
  assumes "(if c then m else k) g = Inr r" obtains c "m g = Inr r" | "\<not> c" "k g = Inr r"
  using assms by (auto split: if_splits)

section \<open>Prefixes\<close>

definition seg_override :: "prefix \<Rightarrow> bool" where "seg_override p \<longleftrightarrow> p_seg p \<le> SREG_GS \<or> p_seg p = SREG_DEFAULT"

definition op_typed :: "op \<Rightarrow> bool" where
  "op_typed op \<longleftrightarrow> seg_override (op_prefix op) \<and> (has_rex op \<longrightarrow> longmode op) \<and> ip_off op \<le> 15"

lemma set_prefix_typed: "set_prefix code p = Some p' \<Longrightarrow> seg_override p \<Longrightarrow> seg_override p' \<and> p_rex p' = p_rex p"
  by (auto simp: set_prefix_def seg_override_def sreg_defs split: if_splits)

lemma parse_prefixes_typed:
  "parse_prefixes E code op g = Inr (Inr (code', op'), g') \<Longrightarrow> seg_override (op_prefix op) \<and> p_rex (op_prefix op) = 0 \<and> ip_off op \<le> 15 \<Longrightarrow>
   seg_override (op_prefix op') \<and> p_rex (op_prefix op') = 0 \<and> ip_off op \<le> ip_off op' \<and> ip_off op' \<le> 15"
proof (induction E code op g rule: parse_prefixes.induct)
  case (1 E code op g)
  show ?case
  proof (cases "set_prefix code (op_prefix op)")
    case None
    then show ?thesis using 1(2,3) by (auto simp: parse_prefixes.simps [of E code] ret_def stop_def split: if_splits)
  next
    case (Some p)
    have l: "code \<noteq> PREFIX_LOCK" using 1(2) by (auto simp: parse_prefixes.simps [of E code] stop_def)
    then obtain c1 op1 g1 where n: "read_next_b E (op\<lparr>op_prefix := p\<rparr>) g = Inr (Inr (c1, op1), g1)" "parse_prefixes E c1 op1 g1 = Inr (Inr (code', op'), g')"
      using 1(2) Some by (auto simp: parse_prefixes.simps [of E code] split: sum.splits)
    have p: "seg_override p \<and> p_rex p = p_rex (op_prefix op)" using set_prefix_typed [OF Some] 1(3) by blast
    note a = read_next_b_advances [OF n(1)]
    from 1(1) [OF l Some n(1) refl refl refl n(2)] a p 1(3) show ?thesis by auto
  qed
qed

lemma read_rex_typed:
  "read_rex E code op g = Inr (Inr (code', op'), g') \<Longrightarrow> longmode op \<Longrightarrow> seg_override (op_prefix op) \<Longrightarrow> 1 \<le> ip_off op \<and> ip_off op \<le> 15 \<Longrightarrow>
    op_typed op' \<and> 1 \<le> ip_off op'"
  by (auto simp: read_rex_def op_typed_def seg_override_def dest!: read_next_b_advances split: if_splits)

lemma parse_opcode_typed:
  assumes "parse_opcode E efer code op g = Inr (Inr (code', op'), g')"
    "seg_override (op_prefix op) \<and> p_rex (op_prefix op) = 0 \<and> 1 \<le> ip_off op \<and> ip_off op \<le> 15"
  shows "op_typed op' \<and> 1 \<le> ip_off op'"
  using assms(1) unfolding parse_opcode_def Let_def
proof (elim bind_execE if_execE)
  fix g1 x g2
  assume r: "read_rex E code (op\<lparr>longmode := True\<rparr>) g1 = Inr (Inr x, g2)"
    and x: "(case x of (code, op) \<Rightarrow>
       ret (code, op\<lparr>op_reptype := REPTYPE_64BIT,
         op_optype := (if rex_w (op_prefix op) then OPTYPE_64BIT else if \<not> p_opsize (op_prefix op) then OPTYPE_32BIT else OPTYPE_16BIT),
         op_addrtype := (if \<not> p_addrsize (op_prefix op) then ADDRTYPE_64BIT else ADDRTYPE_32BIT)\<rparr>)) g2 = Inr (Inr (code', op'), g')"
  obtain code1 op1 where p: "x = (code1, op1)" by fastforce
  have o: "op_prefix op' = op_prefix op1" "longmode op' = longmode op1" "ip_off op' = ip_off op1" using x by (auto simp: p ret_def)
  have "op_typed op1 \<and> 1 \<le> ip_off op1" by (rule read_rex_typed [OF r [unfolded p]]) (use assms(2) in simp_all)
  then show "op_typed op' \<and> 1 \<le> ip_off op'" using o by (simp add: op_typed_def has_rex_def)
qed (use assms(2) in \<open>auto simp: ret_def op_typed_def has_rex_def split: if_splits\<close>)

lemma parse_start_typed:
  assumes "parse_start E op1 g = Inr (Inr (code, op), g')" shows "op_typed op \<and> 1 \<le> ip_off op"
proof -
  obtain cr g1 efer g2 rip g3 x g4 where n: "read_next_b E (start_op op1 cr rip) g3 = Inr (Inr x, g4)"
    and r: "(case x of (code, op) \<Rightarrow> bind_exec (parse_prefixes E code (op\<lparr>op_prefix := clear_prefix\<rparr>)) (\<lambda>(code, op).
      parse_opcode E efer code op)) g4 = Inr (Inr (code, op), g')"
    using assms unfolding parse_start_def bind_exec_Inr by blast
  obtain code0 op0 where x: "x = (code0, op0)" by fastforce
  obtain code1 op2 g5 where p: "parse_prefixes E code0 (op0\<lparr>op_prefix := clear_prefix\<rparr>) g4 = Inr (Inr (code1, op2), g5)"
    "parse_opcode E efer code1 op2 g5 = Inr (Inr (code, op), g')"
    using r unfolding x prod.case bind_exec_Inr by fastforce
  have "ip_off op0 = 1" "longmode op0 = False" using read_next_b_advances [OF n [unfolded x]] by (simp_all add: start_op_def)
  then have "seg_override (op_prefix op2) \<and> p_rex (op_prefix op2) = 0 \<and> 1 \<le> ip_off op2 \<and> ip_off op2 \<le> 15"
    using parse_prefixes_typed [OF p(1)] by (simp add: clear_prefix_def seg_override_def)
  then show ?thesis by (rule parse_opcode_typed [OF p(2)])
qed

section \<open>The operand\<close>

definition reg_typed :: "op \<Rightarrow> reg \<Rightarrow> bool" where
  "reg_typed op r \<longleftrightarrow> (case r of REG_NO \<Rightarrow> True | REG k \<Rightarrow> k < 16 \<and> (has_rex op \<or> k < 8))"

definition same_operand :: "op \<Rightarrow> op \<Rightarrow> bool" where
  "same_operand op op' \<longleftrightarrow> op_prefix op' = op_prefix op \<and> longmode op' = longmode op \<and> modrm_brm op' = modrm_brm op \<and>
     modrm_rreg op' = modrm_rreg op \<and> ip_off op \<le> ip_off op' \<and> (ip_off op \<le> 15 \<longrightarrow> ip_off op' \<le> 15)"

lemma same_operand_trans: "same_operand op op1 \<Longrightarrow> same_operand op1 op2 \<Longrightarrow> same_operand op op2"
  by (auto simp: same_operand_def)

lemma same_operand_fetch:
  "read_next_b E op g = Inr (Inr (b, op1), g1) \<Longrightarrow> same_operand op op1"
  "READ_NEXT_W E op g = Inr (Inr (v, op2), g2) \<Longrightarrow> same_operand op op2"
  "READ_NEXT_L E op g = Inr (Inr (x, op3), g3) \<Longrightarrow> same_operand op op3"
proof -
  show b: "same_operand op op1" if "read_next_b E op g = Inr (Inr (b, op1), g1)" for b op op1 g g1
    using read_next_b_advances [OF that] by (simp add: same_operand_def)
  have w: "same_operand op op2" if "READ_NEXT_W E op g = Inr (Inr (v, op2), g2)" for v op op2 g g2
    using that by (auto simp: READ_NEXT_W_def bind_exec_Inr dest!: b intro: same_operand_trans)
  show "READ_NEXT_W E op g = Inr (Inr (v, op2), g2) \<Longrightarrow> same_operand op op2" by (rule w)
  show "same_operand op op3" if "READ_NEXT_L E op g = Inr (Inr (x, op3), g3)"
    using that by (auto simp: READ_NEXT_L_def bind_exec_Inr dest!: w intro: same_operand_trans)
qed

lemma same_operand_disp: "read_disp E l op g = Inr (Inr op', g') \<Longrightarrow> same_operand op op'"
  by (auto simp: read_disp_def bind_exec_Inr same_operand_def dest!: same_operand_fetch split: if_splits)

lemma read_sib_typed:
  assumes "read_sib E m op g = Inr (Inr (a, l, seg, op'), g')"
  shows "same_operand op op' \<and>
    (seg = mi_defseg m \<or> (\<exists>b r. seg = sb_defseg (sibmatrix_base ! unat (md op) ! (if b then 1 else 0) ! unat (r :: 3 word))))"
proof (cases "mi_sibflag m")
  case True
  then obtain b op1 g1 where n: "read_next_b E op g = Inr (Inr (b, op1), g1)"
    and r: "op' = op1\<lparr>op_sib := sib_of b\<rparr>"
      "seg = sb_defseg (sibmatrix_base ! unat (md op1) ! (if rex_b (op_prefix op1) then 1 else 0) ! unat (s_base (sib_of b)))"
    using assms by (auto simp: read_sib_def bind_exec_Inr Let_def)
  have "op1 = op\<lparr>ip_off := ip_off op + 1\<rparr> \<and> ip_off op < 15" by (rule read_next_b_advances [OF n])
  with r show ?thesis by (auto simp: same_operand_def)
next
  case False
  then show ?thesis using assms by (auto simp: read_sib_def bind_exec_Inr same_operand_def)
qed

lemma default_segments:
  fixes r :: "3 word" and m :: "2 word"
  assumes "m \<noteq> 3"
  shows "mi_defseg (modrmmatrix16 ! unat m ! unat r) \<le> SREG_GS" "mi_defseg (modrmmatrix32 ! unat m ! (if b then 1 else 0) ! unat r) \<le> SREG_GS"
    "sb_defseg (sibmatrix_base ! unat m ! (if b then 1 else 0) ! unat r) \<le> SREG_GS"
  using assms field_bounds(1) [of r] field_bounds(2) [of m]
  by (simp_all add: tables_are_formulas modrm16_entry_def modrm32_entry_def sib_entry_def modrm_info.make_def sibbase_info.make_def sreg_defs)

lemma get_modrm_typed:
  assumes "get_modrm E op g = Inr (Inr op', g')" "op_typed op"
  shows "if md op = 3 then op' = op
    else modrm_brm op' = REG_NO \<and> modrm_seg op' \<le> SREG_GS \<and> same_operand (op\<lparr>modrm_brm := REG_NO\<rparr>) op'"
proof (cases "md op = 3")
  case False
  let ?op = "op\<lparr>modrm_brm := REG_NO\<rparr>"
  let ?m = "if op_addrtype op = ADDRTYPE_16BIT then modrmmatrix16 ! unat (md op) ! unat (rm op)
    else modrmmatrix32 ! unat (md op) ! (if rex_b (op_prefix op) then 1 else 0) ! unat (rm op)"
  have m: "?m = modrmmatrix16 ! unat (md op) ! unat (rm op) \<or> (\<exists>b. ?m = modrmmatrix32 ! unat (md op) ! (if b then 1 else 0) ! unat (rm op))"
    by auto
  obtain v g1 where v: "read_sib E ?m ?op g = Inr (Inr v, g1)" and rest: "(case v of (addr, displen, defseg, op) \<Rightarrow>
      bind_exec (read_disp E displen op) (\<lambda>op. ret (set_seg defseg (op\<lparr>modrm_addr := addr + scast (op_disp op),
        modrm_ripflag := longmode op \<and> mi_ripflag ?m\<rparr>)))) g1 = Inr (Inr op', g')"
  proof -
    have "get_modrm E op = bind_exec (read_sib E ?m ?op) (\<lambda>v. case v of (addr, displen, defseg, op) \<Rightarrow>
      bind_exec (read_disp E displen op) (\<lambda>op. ret (set_seg defseg (op\<lparr>modrm_addr := addr + scast (op_disp op),
        modrm_ripflag := longmode op \<and> mi_ripflag ?m\<rparr>))))"
      using False by (simp add: get_modrm_def Let_def)
    from assms(1) [unfolded this] that show thesis by (elim bind_execE) blast
  qed
  obtain a l seg op1 where w: "v = (a, l, seg, op1)" by (cases v)
  obtain op2 g2 where r: "read_sib E ?m ?op g = Inr (Inr (a, l, seg, op1), g1)" "read_disp E l op1 g1 = Inr (Inr op2, g2)"
    and o: "\<exists>x y. op' = set_seg seg (op2\<lparr>modrm_addr := x, modrm_ripflag := y\<rparr>)"
    using v rest unfolding w prod.case bind_exec_Inr by auto
  note s = read_sib_typed [OF r(1)]
  have d: "seg \<le> SREG_GS" using s m default_segments [OF False] by auto
  have t: "same_operand ?op op2" using s same_operand_disp [OF r(2)] same_operand_trans by blast
  then have "p_seg (op_prefix op2) \<le> SREG_GS \<or> p_seg (op_prefix op2) = SREG_DEFAULT"
    using assms(2) by (simp add: op_typed_def seg_override_def same_operand_def)
  then show ?thesis using False o d t by (auto simp: set_seg_def same_operand_def)
qed (use assms in \<open>simp add: get_modrm_def ret_def\<close>)

lemma typed_reg8: "reg_typed op r \<Longrightarrow> r \<noteq> REG_NO \<Longrightarrow> get_reg8 (has_rex op) (reg_num r) g \<noteq> Inl OutOfBounds"
  by (cases r) (auto simp: reg_typed_def reg_num_def get_reg8_value)

text \<open>C25: What the decoder hands to an instruction is well-formed, whatever bytes the guest is at: the registers of both operands exist,
  and without a REX prefix they are among the first eight, so that the register of a byte operand is never the null
  pointer; REX is set in 64-bit mode only; an operand in memory names one of the six segments; and the instruction
  takes between 2 and 15 bytes.\<close>

theorem decoded_operation_is_well_formed:
  assumes "decode E op1 g = Inr (Inr (code, op), g')"
  shows "reg_typed op (modrm_brm op) \<and> reg_typed op (modrm_rreg op) \<and> modrm_rreg op \<noteq> REG_NO \<and> (has_rex op \<longrightarrow> longmode op) \<and>
    (if modrm_brm op = REG_NO then modrm_seg op \<le> SREG_GS
     else get_reg8 (has_rex op) (reg_num (modrm_brm op)) g2 \<noteq> Inl OutOfBounds) \<and>
    get_reg8 (has_rex op) (reg_num (modrm_rreg op)) g2 \<noteq> Inl OutOfBounds \<and> 2 \<le> ip_off op \<and> ip_off op \<le> 15"
proof -
  obtain op0 g0 g1 b op2 where p: "parse_start E op1 g = Inr (Inr (code, op0), g0)" and n: "read_next_b E op0 g0 = Inr (Inr (b, op2), g1)"
    and m: "get_modrm E (op2\<lparr>op_modrm := modrm_of b,
       modrm_rreg := REG (unat (m_reg (modrm_of b)) + (if rex_r (op_prefix op2) then 8 else 0)),
       modrm_brm := REG (unat (m_rm (modrm_of b)) + (if rex_b (op_prefix op2) then 8 else 0))\<rparr>) g1 = Inr (Inr op, g')"
    using assms by (auto simp: decode_def read_operand_def read_modrm_b_def bind_exec_Inr Let_def)
  have t: "op_typed op0" "1 \<le> ip_off op0" using parse_start_typed [OF p] by auto
  note a = read_next_b_advances [OF n]
  have e: "reg_typed op2 (REG (unat r + (if bit (p_rex (op_prefix op2)) k then 8 else 0)))" for r :: "3 word" and k
    using field_bounds(1) [of r] by (auto simp: reg_typed_def has_rex_def)
  have "reg_typed op (modrm_brm op) \<and> reg_typed op (modrm_rreg op) \<and> modrm_rreg op \<noteq> REG_NO \<and> (has_rex op \<longrightarrow> longmode op) \<and>
    (modrm_brm op = REG_NO \<longrightarrow> modrm_seg op \<le> SREG_GS) \<and> 2 \<le> ip_off op \<and> ip_off op \<le> 15"
    using get_modrm_typed [OF m] t a e [of "m_reg (modrm_of b)" 2] e [of "m_rm (modrm_of b)" 0]
    by (auto simp: op_typed_def has_rex_def same_operand_def reg_typed_def split: if_splits)
  then show ?thesis using typed_reg8 [of op "modrm_brm op" g2] typed_reg8 [of op "modrm_rreg op" g2] by auto
qed

end
