(* ===== verification/Interp_Restart.thy ===== *)
theory Interp_Restart
  imports Interp_Isolation
begin

text \<open>
  What an instruction leaves behind when its emulation returns an error, so that a page fault can be given to the guest
  and the instruction run again.
\<close>

named_theorems restart_intros "rules that show that a step leaves the registers as they were when it returns an error"

text \<open>
  Errors other than the two that do not stand for a fault of a memory access: the request to switch the emulation of
  segments, and a refused MSR.
\<close>

definition is_fault :: "vmmerr \<Rightarrow> bool" where "is_fault e \<longleftrightarrow> e \<noteq> VMMERR_SW \<and> e \<noteq> VMMERR_MSR_FAULT"

definition restartable :: "('a, 'd) exec \<Rightarrow> bool" where
  "restartable m \<longleftrightarrow> (\<forall>g e g'. m g = Inr (Inl e, g') \<longrightarrow> is_fault e \<longrightarrow> only_memory g g')"

definition no_error :: "('a, 'd) exec \<Rightarrow> bool" where
  "no_error m \<longleftrightarrow> (\<forall>g e g'. m g \<noteq> Inr (Inl e, g'))"

lemma restartableD: "restartable m \<Longrightarrow> m g = Inr (Inl e, g') \<Longrightarrow> is_fault e \<Longrightarrow> only_memory g g'"
  by (simp add: restartable_def)

section \<open>Steps that return no error\<close>

lemma no_error_steps [restart_intros]:
  "no_error (ret x)" "no_error (get f)" "no_error (modify h)" "no_error (stop s)" "no_error (effect e1)" "no_error (effect_unit e2)"
  "no_error (\<lambda>g. Inl flt)"
  by (auto simp: no_error_def effect_def effect_unit_def bind_res_Inr_iff)

lemma no_error_bind [restart_intros]: "no_error m \<Longrightarrow> (\<And>x. no_error (f x)) \<Longrightarrow> no_error (bind_exec m f)"
  by (auto simp: no_error_def bind_exec_Inl)

lemma no_error_cases [restart_intros]:
  "\<lbrakk>c \<Longrightarrow> no_error a; \<not> c \<Longrightarrow> no_error b\<rbrakk> \<Longrightarrow> no_error (if c then a else b)"
  "(\<And>x y. no_error (f x y)) \<Longrightarrow> no_error (case p of (x, y) \<Rightarrow> f x y)"
  "\<lbrakk>no_error n; \<And>x. no_error (s x)\<rbrakk> \<Longrightarrow> no_error (case v of None \<Rightarrow> n | Some x \<Rightarrow> s x)"
  "\<lbrakk>no_error k1; no_error k2\<rbrakk> \<Longrightarrow> no_error (case act of IOACT_CONT \<Rightarrow> k1 | IOACT_RERUN \<Rightarrow> k2)"
  "\<lbrakk>no_error t1; no_error t2; no_error t3\<rbrakk> \<Longrightarrow> no_error (case t of OPTYPE_16BIT \<Rightarrow> t1 | OPTYPE_32BIT \<Rightarrow> t2 | OPTYPE_64BIT \<Rightarrow> t3)"
  "\<lbrakk>no_error n; \<And>k. no_error (s' k)\<rbrakk> \<Longrightarrow> no_error (case reg of REG_NO \<Rightarrow> n | REG k \<Rightarrow> s' k)"
  "no_error (h x) \<Longrightarrow> no_error (let y = x in h y)"
  by (auto split: prod.split option.split ioact.split optype.split reg.split)

lemma no_error_registers [restart_intros]:
  "no_error (read_general_reg r)" "no_error (write_general_reg r v)" "no_error read_ip" "no_error (write_ip v)" "no_error read_flags"
  "no_error (write_flags v)" "no_error (read_control_reg n)" "no_error (read_sreg_sel s)" "no_error (read_sreg_acr s)"
  "no_error (read_sreg_base s)" "no_error (write_realmode_seg s w)" "no_error (get_reg q)" "no_error (set_reg q v)"
  "no_error (get_reg8 rex r8)" "no_error (set_reg8 rex r8 v)" "no_error (set_reg16 q v)" "no_error (set_by_size op q v)"
  "no_error (UPDATE_IP op)" "no_error cpu_emul_cli" "no_error cpu_emul_hlt" "no_error (cpu_emul_sti E)" "no_error (enable_if_set E v)"
  unfolding set_by_size_def set_reg16_def get_reg_def set_reg_def get_reg8_def set_reg8_def UPDATE_IP_def cpu_emul_cli_def
    cpu_emul_hlt_def enable_if_set_def cpu_emul_sti_def read_general_reg_def write_general_reg_def read_ip_def write_ip_def
    read_flags_def write_flags_def read_control_reg_def read_sreg_sel_def read_sreg_acr_def read_sreg_base_def write_realmode_seg_def
  by (intro restart_intros)+

lemma no_error_io [restart_intros]: "no_error (in_port E op t p v)" "no_error (out_port E op t p v)" "no_error (old_rax op)"
  unfolding in_port_def out_port_def old_rax_def call_io_def clear_updateip_def UPDATE_IP_unless_updated_def Let_def
  by (intro restart_intros)+

section \<open>Steps that can be restarted\<close>

lemma restartable_no_error: "no_error m \<Longrightarrow> restartable m"
  by (simp add: no_error_def restartable_def)

lemma restartable_reading: "keeps only_memory m \<Longrightarrow> restartable m"
  by (auto simp: restartable_def dest: keepsD)

lemma restartable_bind:
  assumes "keeps only_memory m" "\<And>x. restartable (f x)" shows "restartable (bind_exec m f)"
  unfolding restartable_def
proof (intro allI impI)
  fix g e g' assume f: "is_fault e" and "bind_exec m f g = Inr (Inl e, g')"
  then consider "m g = Inr (Inl e, g')" | x g1 where "m g = Inr (Inr x, g1)" "f x g1 = Inr (Inl e, g')"
    by (auto simp: bind_exec_Inl)
  then show "only_memory g g'"
    by cases (use f assms reading.trans keepsD restartableD in metis)+
qed

lemma restartable_then: "restartable m \<Longrightarrow> (\<And>x. no_error (f x)) \<Longrightarrow> restartable (bind_exec m f)"
  by (auto simp: restartable_def no_error_def bind_exec_Inl)

lemma restartable_err [restart_intros]: "restartable (err e)" "restartable (stop s)"
  by (auto simp: restartable_def reading.refl)

lemma restartable_cases [restart_intros]:
  "\<lbrakk>c \<Longrightarrow> restartable a; \<not> c \<Longrightarrow> restartable b\<rbrakk> \<Longrightarrow> restartable (if c then a else b)"
  "(\<And>x y. restartable (f x y)) \<Longrightarrow> restartable (case p of (x, y) \<Rightarrow> f x y)"
  "\<lbrakk>restartable n; \<And>x. restartable (s x)\<rbrakk> \<Longrightarrow> restartable (case v of None \<Rightarrow> n | Some x \<Rightarrow> s x)"
  "\<lbrakk>restartable t1; restartable t2; restartable t3\<rbrakk> \<Longrightarrow>
   restartable (case t of OPTYPE_16BIT \<Rightarrow> t1 | OPTYPE_32BIT \<Rightarrow> t2 | OPTYPE_64BIT \<Rightarrow> t3)"
  "restartable (h x) \<Longrightarrow> restartable (let y = x in h y)"
  by (auto split: prod.split option.split optype.split)

lemma restartable_operand [restart_intros]:
  "\<lbrakk>restartable a1; restartable a2; restartable a3; restartable a4; restartable a5; restartable a6; restartable a7\<rbrakk> \<Longrightarrow>
   restartable (case x of O_ZERO \<Rightarrow> a1 | O_M \<Rightarrow> a2 | O_R \<Rightarrow> a3 | O_A \<Rightarrow> a4 | O_I \<Rightarrow> a5 | O_1 \<Rightarrow> a6 | O_C \<Rightarrow> a7)"
  by (cases x) auto

lemma restartable_idata_type [restart_intros]:
  "\<lbrakk>restartable a0; restartable a1; restartable a2; restartable a3; restartable a4; restartable a5; restartable a6; restartable a7;
    restartable a8; restartable a9\<rbrakk> \<Longrightarrow>
   restartable (case t of I_ZERO \<Rightarrow> a0 | I_MODRM \<Rightarrow> a1 | I_IMME1 \<Rightarrow> a2 | I_IMME2 \<Rightarrow> a3 | I_MIMM1 \<Rightarrow> a4 | I_MIMM2 \<Rightarrow> a5
     | I_MOFFS \<Rightarrow> a6 | I_MGRP3 \<Rightarrow> a7 | I_IMMED \<Rightarrow> a8 | I_NOMOR \<Rightarrow> a9)"
  by (cases t) auto

lemma keeps_memory_write: "keeps only_memory (linear_write E n a v)"
  unfolding keeps_def only_memory_def linear_write_def by (auto simp: bind_res_Inr_iff)

lemma same_acr_seg_write: "keeps only_memory (cpu_seg_write E n s a v)"
  unfolding cpu_seg_write_def cpu_seg_write_b_def cpu_seg_write_w_def cpu_seg_write_l_def cpu_seg_write_q_def
  by (cases "n = 1"; cases "n = 2"; cases "n = 4"; simp; intro reading.keeps_bind reading.keeps_seg_linear keeps_memory_write)

lemma keeps_LGUESTSEG_WRITE: "keeps only_memory (LGUESTSEG_WRITE E n op s a v)"
  unfolding LGUESTSEG_WRITE_def
  by (intro keeps_cases reading.keeps_bind reading.keeps_registers keeps_memory_write same_acr_seg_write)

lemma keeps_stack_push: "keeps only_memory (cpu_stack_push E sp v t)"
  unfolding cpu_stack_push_def Let_def
  by (intro reading.keeps_bind reading.keeps_seg_linear same_acr_seg_write reading.keeps_ret)

lemma restartable_write_modrm [restart_intros]:
  "restartable (write_modrm8 E op k v)" "restartable (write_modrm16 E op k v)" "restartable (write_modrm32 E op k v)"
  "restartable (write_modrm64 E op k v)"
  unfolding write_modrm8_def write_modrm16_def write_modrm32_def write_modrm64_def write_modrm_n_def
  by (intro restart_intros restartable_reading [OF keeps_LGUESTSEG_WRITE] restartable_no_error)+

lemma restartable_idata_wr [restart_intros]: "restartable (idata_wr E op x bytes v)"
  unfolding idata_wr_def by (intro restart_intros restartable_no_error)

lemma restartable_stack_set [restart_intros]: "restartable (cpu_stack_set sp)"
  unfolding cpu_stack_set_def
  by (intro restartable_bind reading.keeps_seg_linear restart_intros restartable_no_error)

lemma restartable_2op [restart_intros]: "restartable (opcode_2op E op i f s)" "restartable (opcode_mov E op i)"
  unfolding opcode_2op_def opcode_mov_def Let_def
  by (intro restartable_bind reading.keeps_idata_rd reading.keeps_registers restart_intros restartable_then restartable_no_error
      reading.keeps_ret)+

section \<open>The regular instructions\<close>

lemma nth_3_word: "list_all P xs \<Longrightarrow> length xs = 8 \<Longrightarrow> P (xs ! unat r)" for r :: "3 word"
proof -
  have "unat r < 2 ^ LENGTH(3)" by (rule unsigned_less)
  then show "list_all P xs \<Longrightarrow> length xs = 8 \<Longrightarrow> P (xs ! unat r)" by (simp add: list_all_length)
qed

lemma resolve_no_xchg: "f \<noteq> F_XCHG \<Longrightarrow> resolve_group op f \<noteq> F_XCHG"
  using nth_3_word [of "\<lambda>f. f \<noteq> F_XCHG" grp1] nth_3_word [of "\<lambda>f. f \<noteq> F_XCHG" grp2]
  by (cases f) (auto simp: resolve_group_def grp1_def grp2_def)

lemma restartable_idata [restart_intros]:
  assumes "id_func i \<noteq> F_XCHG" shows "restartable (opcode_idata E op i)"
  unfolding opcode_idata_def Let_def using resolve_no_xchg [OF assms]
  by (auto intro: restart_intros split: option.split)

lemma grp3_no_xchg: "id_func (grp3 ! unat r) \<noteq> F_XCHG" for r :: "3 word"
  by (rule nth_3_word [of "\<lambda>i. id_func i \<noteq> F_XCHG"]) (simp_all add: grp3_def idata_none_def idata.defs)

lemma restartable_grp [restart_intros]:
  assumes "id_func i \<noteq> F_XCHG"
  shows "restartable (grp_imme1 E op i)" "restartable (grp_imme2 E op i)" "restartable (grp3_special E op i)" "restartable (grp_special E op i)"
proof -
  have 1: "restartable (grp_imme1 E op i)" if "id_func i \<noteq> F_XCHG" for op i
    unfolding grp_imme1_def by (intro restartable_bind reading.keeps_decode restartable_idata that)
  have 2: "restartable (grp_imme2 E op i)" if "id_func i \<noteq> F_XCHG" for op i
    unfolding grp_imme2_def
    by (intro restartable_bind keeps_cases reading.keeps_bind reading.keeps_fetch reading.keeps_ret restartable_cases restartable_idata that)
  have 3: "restartable (grp3_special E op i)" if "id_func i \<noteq> F_XCHG" for op i
    unfolding grp3_special_def by (intro restart_intros 1 2 that)
  show "restartable (grp_imme1 E op i)" "restartable (grp_imme2 E op i)" "restartable (grp3_special E op i)" by (intro 1 2 3 assms)+
  show "restartable (grp_special E op i)"
    unfolding grp_special_def
    by (intro restartable_idata_type restartable_bind reading.keeps_decode 1 2 3 restartable_idata assms) (simp add: grp3_no_xchg)
qed

text \<open>XCHG is at 0x86 and 0x87 only.\<close>

lemma table_xchg: "id_func (idata_table ! unat code) = F_XCHG \<longleftrightarrow> code = 0x86 \<or> code = 0x87" for code :: u8
proof -
  have t: "list_all (\<lambda>(k, i). id_func i = F_XCHG \<longleftrightarrow> k = 0x86 \<or> k = 0x87) (enumerate 0 idata_table)"
    by (simp add: idata_table_def idata_00_def idata_40_def idata_80_def idata_C0_def idata_none_def idata.defs enumerate_simps)
  have l: "length idata_table = 256" by (simp add: idata_table_def idata_00_def idata_40_def idata_80_def idata_C0_def)
  have "unat code < 2 ^ LENGTH(8)" by (rule unsigned_less)
  then have "unat code < 256" by simp
  with t l have "id_func (idata_table ! unat code) = F_XCHG \<longleftrightarrow> unat code = 0x86 \<or> unat code = 0x87"
    by (auto simp: list_all_length nth_enumerate_eq)
  also have "\<dots> \<longleftrightarrow> code = 0x86 \<or> code = 0x87" by (auto simp: word_unat_eq_iff)
  finally show ?thesis .
qed

section \<open>Instructions that use the stack\<close>

text \<open>A stack segment that was usable for \<open>cpu_stack_get\<close> is usable for \<open>cpu_stack_set\<close>.\<close>

definition same_acr :: "'d guest \<Rightarrow> 'd guest \<Rightarrow> bool" where "same_acr g g' \<longleftrightarrow> seg_acr g' = seg_acr g"

interpretation acr: guest_relation same_acr E for E :: "'d env"
  by unfold_locales (auto simp: same_acr_def keeps_def linear_read_def linear_write_def bind_res_Inr_iff)

definition ss_usable :: "'d guest \<Rightarrow> bool" where
  "ss_usable g \<longleftrightarrow> \<not> any_bit (seg_acr g SREG_SS) ACCESS_RIGHTS_UNUSABLE_BIT \<and> any_bit (seg_acr g SREG_SS) ACCESS_RIGHTS_P_BIT"

definition restartable_ss :: "('a, 'd) exec \<Rightarrow> bool" where
  "restartable_ss m \<longleftrightarrow> (\<forall>g e g'. ss_usable g \<longrightarrow> m g = Inr (Inl e, g') \<longrightarrow> is_fault e \<longrightarrow> only_memory g g')"

definition no_error_ss :: "('a, 'd) exec \<Rightarrow> bool" where
  "no_error_ss m \<longleftrightarrow> (\<forall>g e g'. ss_usable g \<longrightarrow> m g \<noteq> Inr (Inl e, g'))"

lemma ss_usable_same: "same_acr g g' \<Longrightarrow> ss_usable g' = ss_usable g" "only_memory g g' \<Longrightarrow> ss_usable g' = ss_usable g"
  by (auto simp: same_acr_def ss_usable_def only_memory_def)

lemma stack_get_usable: "cpu_stack_get g = Inr (Inr sp, g') \<Longrightarrow> ss_usable g' \<and> g' = g"
  by (auto simp: cpu_stack_get_def read_ss_acr_def read_sreg_acr_def check_seg_def read_general_reg_def ss_usable_def bind_exec_Inr
      sreg_defs split: if_splits)

lemma no_error_ss_intros:
  "no_error m \<Longrightarrow> no_error_ss m" "no_error_ss (cpu_stack_set sp)"
  "\<lbrakk>no_error_ss m; keeps same_acr m; \<And>x. no_error_ss (f x)\<rbrakk> \<Longrightarrow> no_error_ss (bind_exec m f)"
proof -
  show "no_error m \<Longrightarrow> no_error_ss m" by (simp add: no_error_def no_error_ss_def)
  show "no_error_ss (cpu_stack_set sp)"
    by (auto simp: no_error_ss_def write_general_reg_def ss_usable_def cpu_stack_set_def read_ss_acr_def read_sreg_acr_def check_seg_def
        read_general_reg_def bind_exec_Inl bind_exec_Inr sreg_defs split: if_splits)
  show "\<lbrakk>no_error_ss m; keeps same_acr m; \<And>x. no_error_ss (f x)\<rbrakk> \<Longrightarrow> no_error_ss (bind_exec m f)"
    by (auto simp: no_error_ss_def bind_exec_Inl) (metis keepsD ss_usable_same(1))
qed

lemma restartable_ss_intros:
  "\<lbrakk>keeps only_memory m; \<And>x. restartable_ss (f x)\<rbrakk> \<Longrightarrow> restartable_ss (bind_exec m f)"
  "\<lbrakk>restartable m; keeps same_acr m; \<And>x. no_error_ss (f x)\<rbrakk> \<Longrightarrow> restartable_ss (bind_exec m f)"
  "(\<And>x y. restartable_ss (h x y)) \<Longrightarrow> restartable_ss (case p of (x, y) \<Rightarrow> h x y)"
proof -
  show "restartable_ss (bind_exec m f)" if "keeps only_memory m" "\<And>x. restartable_ss (f x)"
    unfolding restartable_ss_def
  proof (intro allI impI)
    fix g e g' assume u: "ss_usable g" and f: "is_fault e" and "bind_exec m f g = Inr (Inl e, g')"
    then consider "m g = Inr (Inl e, g')" | x g1 where "m g = Inr (Inr x, g1)" "f x g1 = Inr (Inl e, g')"
      by (auto simp: bind_exec_Inl)
    then show "only_memory g g'"
    proof cases
      case 2
      then have "only_memory g g1" using that(1) keepsD by metis
      then show ?thesis using that(2) [of x] 2(2) f u ss_usable_same(2) reading.trans by (metis restartable_ss_def)
    qed (use that(1) keepsD in metis)
  qed
  show "restartable_ss (bind_exec m f)" if "restartable m" "keeps same_acr m" "\<And>x. no_error_ss (f x)"
    unfolding restartable_ss_def
  proof (intro allI impI)
    fix g e g' assume u: "ss_usable g" and f: "is_fault e" and "bind_exec m f g = Inr (Inl e, g')"
    then consider "m g = Inr (Inl e, g')" | x g1 where "m g = Inr (Inr x, g1)" "f x g1 = Inr (Inl e, g')"
      by (auto simp: bind_exec_Inl)
    then show "only_memory g g'"
    proof cases
      case 2
      then have "ss_usable g1" using that(2) u ss_usable_same(1) keepsD by metis
      then show ?thesis using that(3) [of x] 2(2) by (simp add: no_error_ss_def)
    qed (use f that(1) restartableD in metis)
  qed
  show "(\<And>x y. restartable_ss (h x y)) \<Longrightarrow> restartable_ss (case p of (x, y) \<Rightarrow> h x y)" by (cases p) auto
qed

lemma restartable_stack_get:
  assumes "\<And>x. restartable_ss (f x)" shows "restartable (bind_exec cpu_stack_get f)"
  unfolding restartable_def
proof (intro allI impI)
  fix g e g' assume f: "is_fault e" and "bind_exec cpu_stack_get f g = Inr (Inl e, g')"
  then consider "cpu_stack_get g = Inr (Inl e, g')" | x g1 where "cpu_stack_get g = Inr (Inr x, g1)" "f x g1 = Inr (Inl e, g')"
    by (auto simp: bind_exec_Inl)
  then show "only_memory g g'"
    by cases (use f assms stack_get_usable reading.keeps_seg_linear(4) keepsD restartable_ss_def in metis)+
qed

section \<open>All instructions\<close>

lemma restartable_stack [restart_intros]:
  "restartable (opcode_pushf E op)" "restartable (opcode_push_sr E op s)" "restartable (opcode_ff_push E op)" "restartable (push_value E op v)"
  unfolding opcode_pushf_def opcode_push_sr_def opcode_ff_push_def push_value_def
  by (intro restart_intros restartable_bind reading.keeps_bind reading.keeps_registers reading.keeps_seg_linear reading.keeps_read_modrm
      reading.keeps_ret keeps_cases keeps_stack_push restartable_then restartable_no_error)+

lemma restartable_pops [restart_intros]: "restartable (opcode_popf E op)" "restartable (opcode_iret E op)" "restartable (opcode_8f_pop E op)"
proof -
  note steps = acr.keeps_writes acr.keeps_register_writes acr.keeps_write_modrm no_error_ss_intros(2)
  have fl: "no_error_ss (seq_exec (UPDATE_IP op) (seq_exec (cpu_stack_set st) (enable_if_set E v)))" for op st v and E :: "'a env"
    by (intro no_error_ss_intros(3) no_error_ss_intros(2) steps) (intro no_error_ss_intros(1) restart_intros)+
  have ir: "no_error_ss (seq_exec (write_realmode_seg s cs) (seq_exec (write_ip rip) (seq_exec (cpu_stack_set st) (enable_if_set E v))))"
    for s cs rip st v and E :: "'a env"
    by (intro no_error_ss_intros(3) no_error_ss_intros(2) steps) (intro no_error_ss_intros(1) restart_intros)+
  have wf: "restartable_ss (seq_exec (write_flags v) k)" if "no_error_ss k" for v and k :: "(unit, 'a) exec"
    by (rule restartable_ss_intros(2) [OF restartable_no_error acr.keeps_writes(3) that]) (intro restart_intros)
  show "restartable (opcode_popf E op)"
    unfolding opcode_popf_def Let_def
    by (intro restart_intros restartable_stack_get wf fl restartable_ss_intros(1,3) reading.keeps_registers reading.keeps_stack_pop)
  show "restartable (opcode_iret E op)"
    unfolding opcode_iret_def Let_def DEBUG_UNIMPLEMENTED_def
    by (intro restart_intros restartable_stack_get wf ir restartable_ss_intros(1,3) reading.keeps_registers reading.keeps_stack_pop)
  have "no_error_ss (seq_exec (UPDATE_IP op) (cpu_stack_set st))" for st
    by (intro no_error_ss_intros(3) no_error_ss_intros(2) steps) (intro no_error_ss_intros(1) restart_intros)+
  then show "restartable (opcode_8f_pop E op)"
    unfolding opcode_8f_pop_def
    by (intro restart_intros restartable_stack_get restartable_ss_intros keeps_cases reading.keeps_stack_pop steps)
qed

lemma restartable_system [restart_intros]:
  "restartable (opcode_hlt op)" "restartable (opcode_cli op)" "restartable (opcode_sti E op)" "restartable (opcode_mov_to_cr E op)"
  "restartable (opcode_mov_from_cr op)" "restartable (opcode_clts E op)" "restartable (opcode_wbinvd E op)"
  "restartable (opcode_invlpg E op)" "restartable (opcode_into op)" "restartable (opcode_invd op)" "restartable (opcode_mov_to_dr op)"
  "restartable (opcode_mov_from_dr op)"
  unfolding opcode_hlt_def opcode_cli_def opcode_sti_def opcode_mov_to_cr_def opcode_mov_from_cr_def opcode_clts_def opcode_wbinvd_def
    opcode_invlpg_def opcode_into_def opcode_invd_def opcode_mov_to_dr_def opcode_mov_from_dr_def DEBUG_UNIMPLEMENTED_def
  by (intro restartable_no_error restart_intros)+

lemma restartable_io [restart_intros]:
  "restartable (opcode_inb_imm E op)" "restartable (opcode_in_imm E op)" "restartable (opcode_inb_dx E op)" "restartable (opcode_in_dx E op)"
  "restartable (opcode_outb_imm E op)" "restartable (opcode_out_imm E op)" "restartable (opcode_outb_dx E op)" "restartable (opcode_out_dx E op)"
  unfolding opcode_inb_imm_def opcode_in_imm_def opcode_inb_dx_def opcode_in_dx_def opcode_outb_imm_def opcode_out_imm_def
    opcode_outb_dx_def opcode_out_dx_def
  by (intro restartable_no_error restart_intros)+

lemma restartable_memory [restart_intros]:
  "restartable (opcode_lgdt E op)" "restartable (opcode_lidt E op)" "restartable (opcode_smsw E op)" "restartable (opcode_lmsw E op)"
  "restartable (opcode_mov_from_sr E op)" "restartable (opcode_0f_lss E op)" "restartable (opcode_movzx_rm8_to_r E op)"
  "restartable (opcode_movzx_rm16_to_r E op)" "restartable (opcode_bt_imm E op)"
  unfolding opcode_lgdt_def opcode_lidt_def opcode_smsw_def opcode_lmsw_def opcode_mov_from_sr_def opcode_0f_lss_def
    opcode_movzx_rm8_to_r_def opcode_movzx_rm16_to_r_def opcode_bt_imm_def
  by (intro restart_intros restartable_bind reading.keeps_registers reading.keeps_read_modrm reading.keeps_idata_rd restartable_then
      restartable_no_error)+

lemma restartable_others [restart_intros]:
  "restartable (load_sreg E s)" "restartable (opcode_rdmsr E op)" "restartable (opcode_wrmsr E op)"
proof -
  have [simp]: "UPDATE_IP op g \<noteq> Inr (Inl e, g')" for op g e g' using no_error_registers(18) by (auto simp: no_error_def)
  have "no_error (cpu_emul_rdmsr E)" "no_error (cpu_emul_wrmsr E)"
    unfolding cpu_emul_rdmsr_def cpu_emul_wrmsr_def by (intro restart_intros)+
  then show "restartable (opcode_rdmsr E op)" "restartable (opcode_wrmsr E op)"
    by (auto simp: restartable_def no_error_def opcode_rdmsr_def opcode_wrmsr_def bind_exec_Inl is_fault_def split: if_splits)
  show "restartable (load_sreg E s)"
    by (auto simp: restartable_def load_sreg_def effect_def DEBUG_UNIMPLEMENTED_def bind_exec_Inl bind_res_Inr_iff is_fault_def split: if_splits)
qed

text \<open>The instructions that may have changed registers when an access to memory fails, by their first byte.\<close>

definition stops_midway :: "u8 \<Rightarrow> bool" where
  "stops_midway code \<longleftrightarrow> code \<in> {0x86, 0x87, OPCODE_INT, OPCODE_INT3, OPCODE_INSB, OPCODE_INS, OPCODE_OUTSB, OPCODE_OUTS,
     OPCODE_MOVSB, OPCODE_MOVS, OPCODE_STOSB, OPCODE_STOS}"

lemma restartable_exec_opcode:
  assumes "\<not> stops_midway code" shows "restartable (exec_opcode E code op)"
proof -
  note groups = opcode_mov_to_sr_def opcode_pop_sr_def opcode_jmp_far_direct_def opcode_jmp_far_indirect_def opcode_retf_def
  have g: "restartable (parse_opcode_0x0f_0x01 E op)" "restartable (parse_opcode_0x0f_0xba E op)" "restartable (parse_opcode_0xff E op)"
    "restartable (parse_opcode_0x8f E op)" for op
    unfolding parse_opcode_0x0f_0x01_def parse_opcode_0x0f_0xba_def parse_opcode_0xff_def parse_opcode_0x8f_def groups Let_def
    by (intro restart_intros restartable_bind reading.keeps_decode)+
  have f: "restartable (parse_opcode_0x0f E code op)" for code op
    unfolding parse_opcode_0x0f_def groups by (intro restart_intros restartable_bind reading.keeps_decode g)
  have t: "restartable (grp_special E op (idata_table ! unat code))"
    using assms by (intro restart_intros) (auto simp: table_xchg stops_midway_def)
  show ?thesis
    using assms unfolding exec_opcode_def groups stops_midway_def
    by (intro restartable_cases(1) restartable_bind reading.keeps_decode reading.keeps_fetch restartable_cases(2) f g t restart_intros) simp_all
qed

end
