(* ===== verification/Interp_Termination.thy ===== *)
theory Interp_Termination
  imports Interp_Isolation
begin

text \<open>
  The interpreter ends.  The access to memory has no loop that may go on; the only loop of the interpreter is the one
  of the string instructions, whose turns are bounded by the count register.
\<close>

section \<open>Access to memory\<close>

definition ends :: "'a res \<Rightarrow> bool" where "ends x \<longleftrightarrow> x \<noteq> Inl OutOfFuel"

named_theorems ends_intros "rules that show that a function does not run out of fuel"

lemma ends_values [ends_intros]: "ends (Inr x)" "ends (Inl (Panic s))" "ends (Inl (AssertFail s))" "ends (Inl OutOfBounds)"
  by (simp_all add: ends_def)

lemma ends_assert [ends_intros]: "ends (assert_res b s)"
  by (simp add: assert_res_def ends_def)

lemma ends_bind [ends_intros]: "ends m \<Longrightarrow> (\<And>x. ends (f x)) \<Longrightarrow> ends (bind_res m f)"
  by (cases m) (auto simp: ends_def)

lemma ends_cases [ends_intros]:
  "\<lbrakk>c \<Longrightarrow> ends a; \<not> c \<Longrightarrow> ends b\<rbrakk> \<Longrightarrow> ends (if c then a else b)"
  "(\<And>x y. ends (f x y)) \<Longrightarrow> ends (case p of (x, y) \<Rightarrow> f x y)"
  "\<lbrakk>ends n; \<And>x. ends (s x)\<rbrakk> \<Longrightarrow> ends (case v of None \<Rightarrow> n | Some x \<Rightarrow> s x)"
  "\<lbrakk>\<And>x. ends (l x); \<And>y. ends (r y)\<rbrakk> \<Longrightarrow> ends (case z of Inl x \<Rightarrow> l x | Inr y \<Rightarrow> r y)"
  "(\<And>x y. ends (f' x y v')) \<Longrightarrow> ends ((case q of (x, y) \<Rightarrow> f' x y) v')"
  "ends (h u) \<Longrightarrow> ends (let y = u in h y)"
  by (auto split: prod.split option.split sum.split)

lemma ends_pmap_type [ends_intros]:
  "\<lbrakk>ends a1; ends a2; ends a3\<rbrakk> \<Longrightarrow> ends (case t of PMAP_TYPE_VMM \<Rightarrow> a1 | PMAP_TYPE_GUEST \<Rightarrow> a2 | PMAP_TYPE_GUEST_ATOMIC \<Rightarrow> a3)"
  by (cases t) auto

lemma ends_gphys_access [ends_intros]: "ends (mmio_gphys_access a wr bs n f w)"
  unfolding mmio_gphys_access_def by (intro ends_intros)

lemma ends_direct [ends_intros]: "ends (access_direct wr f a i n s)"
  unfolding access_direct_def by (intro ends_intros)

lemma ends_handler [ends_intros]: "ends (access_handler H wr f k a i n s)"
  unfolding access_handler_def by (intro ends_intros)

lemma ends_handle [ends_intros]: "ends (access_handle H wr f h a2 n2 s)" "ends (rangecheck h a n need)"
  unfolding access_handle_def rangecheck_def by (intro ends_intros)+

lemma ends_list [ends_intros]: "ends (access_list H wr f ps s)"
proof (induction ps arbitrary: s)
  case (Cons p ps)
  show ?case unfolding access_list.simps by (intro ends_intros Cons.IH)
qed (simp add: ends_values)

lemma ends_slots [ends_intros]: "ends (access_slots H wr f is s)"
proof (induction "is" arbitrary: s)
  case (Cons i "is")
  show ?case unfolding access_slots.simps by (intro ends_intros Cons.IH)
qed (simp add: ends_values)

lemma ends_mmio [ends_intros]: "ends (mmio_access_memory H a wr bs n f w)" "ends (cache_get_attr a attr c)"
  unfolding mmio_access_memory_def cache_get_attr_def get_type_def by (intro ends_intros)+

lemma ends_read_gphys [ends_intros]: "ends (read_gphys n H a bs attr w)" "ends (read_gphys_b H a bs attr w)"
  unfolding read_gphys_b_def read_gphys_def by (intro ends_intros)+

lemma ends_read_gphys_w [ends_intros]: "ends (read_gphys_w H a bs attr w)"
  unfolding read_gphys_w_def read_halves_def by (intro ends_intros)
lemma ends_read_gphys_l [ends_intros]: "ends (read_gphys_l H a bs attr w)"
  unfolding read_gphys_l_def read_halves_def by (intro ends_intros)
lemma ends_read_gphys_q [ends_intros]: "ends (read_gphys_q H a bs attr w)"
  unfolding read_gphys_q_def read_halves_def by (intro ends_intros)

lemma ends_write_gphys [ends_intros]: "ends (write_gphys gd msg n H a ds attr w)" "ends (write_gphys_b H a d attr w)"
  unfolding write_gphys_b_def write_gphys_def by (intro ends_intros)+

lemma ends_write_gphys_w [ends_intros]: "ends (write_gphys_w H a d attr w)"
  unfolding write_gphys_w_def by (intro ends_intros)
lemma ends_write_gphys_l [ends_intros]: "ends (write_gphys_l H a d attr w)"
  unfolding write_gphys_l_def by (intro ends_intros)
lemma ends_write_gphys_q [ends_intros]: "ends (write_gphys_q H a d attr w)"
  unfolding write_gphys_q_def by (intro ends_intros)

lemma ends_cmpxchg [ends_intros]: "ends (cmpxchg_gphys_l H a old1 d1 attr w)" "ends (cmpxchg_gphys_q H a old2 d2 attr w)"
  unfolding cmpxchg_gphys_l_def cmpxchg_gphys_q_def cmpxchg_gphys_def by (intro ends_intros)+

lemma ends_pmap [ends_intros]: "ends (pmap_rd H m a attr w)" "ends (pmap_write H e msk m w)"
  unfolding pmap_rd_def pmap_rd32_def pmap_rd64_def pmap_write_def pmap_wr32_def pmap_wr64_def by (intro ends_intros)+

lemma ends_pmap_read [ends_intros]: "ends (pmap_read H m w)"
proof (induction H m w rule: pmap_read.induct)
  case (1 H m w)
  have r: "ends (pmap_rd H m1 a attr w)" for m1 a attr by (intro ends_intros)
  show ?case by (subst pmap_read.simps) (use 1 r in \<open>auto simp: ends_def Let_def split: sum.split\<close>)
qed

lemma ends_walk_level [ends_intros]: "ends (walk_level H pmask d n i m w)"
proof (induction H pmask d n i m w rule: walk_level.induct)
  case (1 H pmask d n i m w)
  have r: "ends (pmap_read H m w)" by (intro ends_intros)
  have c: "ends (check_entry pmask d n i e)" for e unfolding check_entry_def test_pmap_entry_reserved_bit_def by (intro ends_intros)
  have a: "ends (set_ad_bit H m1 e t u w1)" for m1 e t u w1 unfolding set_ad_bit_def by (intro ends_intros)
  show ?case by (subst walk_level.simps) (use 1 r c a in \<open>auto simp: ends_def split: sum.split\<close>)
qed

lemma ends_walk_levels [ends_intros]: "ends (walk_levels H pmask d n i entries m w)"
proof (induction i arbitrary: entries m w)
  case (Suc i)
  show ?case unfolding walk_levels.simps by (intro ends_intros Suc.IH)
qed (simp add: ends_values)

lemma ends_get_pte [ends_intros]: "ends (get_pte H r a wr us ex w)"
  unfolding get_pte_def cpu_mmu_get_pte_def get_pte_sub_def by (intro ends_intros)

lemma ends_RIE [ends_intros]: "ends x \<Longrightarrow> (\<And>w. ends (f w)) \<Longrightarrow> ends (RIE x f)"
  unfolding RIE_def by (intro ends_intros)

lemma ends_read_linearaddr_b [ends_intros]: "ends (read_linearaddr_b H r a bs w)"
  unfolding read_linearaddr_b_def read_linear_def by (intro ends_intros)
lemma ends_read_linearaddr_w [ends_intros]: "ends (read_linearaddr_w H r a bs w)"
  unfolding read_linearaddr_w_def read_linear_def read_linear_halves_def by (intro ends_intros)
lemma ends_read_linearaddr_l [ends_intros]: "ends (read_linearaddr_l H r a bs w)"
  unfolding read_linearaddr_l_def read_linear_def read_linear_halves_def by (intro ends_intros)
lemma ends_read_linearaddr_q [ends_intros]: "ends (read_linearaddr_q H r a bs w)"
  unfolding read_linearaddr_q_def read_linear_def read_linear_halves_def by (intro ends_intros)

lemma ends_write_linearaddr_b [ends_intros]: "ends (write_linearaddr_b H r a b w)"
  unfolding write_linearaddr_b_def write_linear_def by (intro ends_intros)
lemma ends_write_linearaddr_w [ends_intros]: "ends (write_linearaddr_w H r a v w)"
  unfolding write_linearaddr_w_def write_linear_def by (intro ends_intros)
lemma ends_write_linearaddr_l [ends_intros]: "ends (write_linearaddr_l H r a l w)"
  unfolding write_linearaddr_l_def write_linear_def by (intro ends_intros)
lemma ends_write_linearaddr_q [ends_intros]: "ends (write_linearaddr_q H r a q w)"
  unfolding write_linearaddr_q_def write_linear_def by (intro ends_intros)

section \<open>Steps\<close>

definition terminating :: "('a, 'd) exec \<Rightarrow> bool" where "terminating m \<longleftrightarrow> (\<forall>g. ends (m g))"

named_theorems term_intros "rules that show that a step of the interpreter does not run out of fuel"

lemma terminating_steps [term_intros]:
  "terminating (ret x)" "terminating (err e)" "terminating (get f)" "terminating (modify h)" "terminating (stop s)"
  "terminating (\<lambda>g. Inl OutOfBounds)"
  by (auto simp: terminating_def ret_def err_def get_def modify_def stop_def intro: ends_intros)

lemma terminating_bind [term_intros]: "terminating m \<Longrightarrow> (\<And>x. terminating (f x)) \<Longrightarrow> terminating (bind_exec m f)"
  by (auto simp: terminating_def bind_exec_def intro!: ends_intros split: sum.split)

lemma terminating_cases [term_intros]:
  "\<lbrakk>c \<Longrightarrow> terminating a; \<not> c \<Longrightarrow> terminating b\<rbrakk> \<Longrightarrow> terminating (if c then a else b)"
  "(\<And>x y. terminating (f x y)) \<Longrightarrow> terminating (case p of (x, y) \<Rightarrow> f x y)"
  "\<lbrakk>terminating n; \<And>x. terminating (s x)\<rbrakk> \<Longrightarrow> terminating (case v of None \<Rightarrow> n | Some x \<Rightarrow> s x)"
  "\<lbrakk>terminating k1; terminating k2\<rbrakk> \<Longrightarrow> terminating (case act of IOACT_CONT \<Rightarrow> k1 | IOACT_RERUN \<Rightarrow> k2)"
  "\<lbrakk>terminating t1; terminating t2; terminating t3\<rbrakk> \<Longrightarrow> terminating (case t of OPTYPE_16BIT \<Rightarrow> t1 | OPTYPE_32BIT \<Rightarrow> t2 | OPTYPE_64BIT \<Rightarrow> t3)"
  "\<lbrakk>terminating n'; \<And>k. terminating (s' k)\<rbrakk> \<Longrightarrow> terminating (case reg of REG_NO \<Rightarrow> n' | REG k \<Rightarrow> s' k)"
  "\<lbrakk>terminating o1; terminating o2; terminating o3; terminating o4; terminating o5; terminating o6; terminating o7\<rbrakk> \<Longrightarrow>
   terminating (case x of O_ZERO \<Rightarrow> o1 | O_M \<Rightarrow> o2 | O_R \<Rightarrow> o3 | O_A \<Rightarrow> o4 | O_I \<Rightarrow> o5 | O_1 \<Rightarrow> o6 | O_C \<Rightarrow> o7)"
  "\<lbrakk>terminating i0; terminating i1; terminating i2; terminating i3; terminating i4; terminating i5; terminating i6; terminating i7; terminating i8;
    terminating i9\<rbrakk> \<Longrightarrow>
   terminating (case ty of I_ZERO \<Rightarrow> i0 | I_MODRM \<Rightarrow> i1 | I_IMME1 \<Rightarrow> i2 | I_IMME2 \<Rightarrow> i3 | I_MIMM1 \<Rightarrow> i4 | I_MIMM2 \<Rightarrow> i5
     | I_MOFFS \<Rightarrow> i6 | I_MGRP3 \<Rightarrow> i7 | I_IMMED \<Rightarrow> i8 | I_NOMOR \<Rightarrow> i9)"
  "terminating (h u) \<Longrightarrow> terminating (let y = u in h y)"
  by (auto split: prod.split option.split ioact.split optype.split reg.split idata_operand.split idata_type.split)

lemma terminating_linear [term_intros]: "terminating (linear_read E n a old)" "terminating (linear_write E n a v)"
  unfolding terminating_def linear_read_def linear_write_def read_linearaddr_def write_linearaddr_def
  by (cases "n = 1"; cases "n = 2"; cases "n = 4"; simp; intro allI ends_intros)+

lemma terminating_registers [term_intros]:
  "terminating (read_general_reg r)" "terminating read_ip" "terminating read_flags" "terminating (read_control_reg n)"
  "terminating (read_sreg_sel s)" "terminating (read_sreg_acr s)" "terminating (read_sreg_base s)" "terminating (get_reg q)"
  unfolding read_general_reg_def read_ip_def read_flags_def read_control_reg_def read_sreg_sel_def read_sreg_acr_def
    read_sreg_base_def get_reg_def
  by (intro term_intros)+

lemma terminating_get_reg8 [term_intros]: "terminating (get_reg8 rex r8)"
  unfolding get_reg8_def by (intro term_intros)

lemma terminating_seg_linear [term_intros]: "terminating (check_seg acr)" "terminating (seg_linear s k)" "terminating read_ss_acr" "terminating cpu_stack_get"
  unfolding check_seg_def seg_linear_def read_ss_acr_def cpu_stack_get_def by (intro term_intros)+

lemma terminating_seg_read [term_intros]: "terminating (cpu_seg_read E n s a old)" "terminating (cpu_seg_read_b E s a old)"
  unfolding cpu_seg_read_def cpu_seg_read_b_def cpu_seg_read_w_def cpu_seg_read_l_def cpu_seg_read_q_def
  by (cases "n = 1"; cases "n = 2"; cases "n = 4"; simp; intro term_intros) (intro term_intros)

lemma terminating_LGUESTSEG_READ [term_intros]: "terminating (LGUESTSEG_READ E n op s a old)"
  unfolding LGUESTSEG_READ_def by (intro term_intros)

lemma terminating_stack_pop [term_intros]: "terminating (cpu_stack_pop E sp old t)" "terminating (pop_u16 E sp t)"
  unfolding pop_u16_def cpu_stack_pop_def by (intro term_intros)+

lemma terminating_fetch [term_intros]: "terminating (read_next_b E op)" "terminating (READ_NEXT_W E op)" "terminating (READ_NEXT_L E op)"
  unfolding READ_NEXT_L_def READ_NEXT_W_def read_next_b_def by (intro term_intros)+

lemma terminating_decode [term_intros]:
  "terminating (read_modrm_b E op)" "terminating (read_disp E n op)" "terminating (read_sib E m op)" "terminating (get_modrm E op)"
  "terminating (read_moffs E op)" "terminating (read_rex E code op)" "terminating (read_imm_b E op)" "terminating (read_operand E op)"
  unfolding read_operand_def get_modrm_def read_modrm_b_def read_disp_def read_sib_def read_moffs_def read_rex_def read_imm_b_def
  by (intro term_intros)+

lemma terminating_parse_prefixes [term_intros]: "terminating (parse_prefixes E code op)"
  unfolding terminating_def
proof
  show "ends (parse_prefixes E code op g)" for g
  proof (induction E code op g rule: parse_prefixes.induct)
    case (1 E code op g)
    have n: "ends (read_next_b E op' g)" for op' using terminating_fetch(1) [of E op'] by (simp add: terminating_def)
    show ?case by (subst parse_prefixes.simps) (use 1 n in \<open>auto simp: ends_def stop_def ret_def split: option.split sum.split\<close>)
  qed
qed

lemma terminating_parse_start: "terminating (parse_start E op1)"
  unfolding parse_start_def parse_opcode_def by (intro term_intros)

lemma terminating_read_modrm [term_intros]:
  "terminating (read_modrm8 E op k old)" "terminating (read_modrm16 E op k old)" "terminating (read_modrm32 E op k old)" "terminating (read_modrm64 E op k old)"
  unfolding read_modrm8_def read_modrm16_def read_modrm32_def read_modrm64_def read_modrm_n_def by (intro term_intros)+

lemma terminating_idata_rd [term_intros]: "terminating (idata_rd E op x bytes old)" "terminating (read_dtr E op)"
  unfolding idata_rd_def read_dtr_def by (intro term_intros)+

lemma terminating_writes [term_intros]:
  "terminating (write_general_reg r v)" "terminating (write_ip v)" "terminating (write_flags v)" "terminating (write_realmode_seg s w)"
  "terminating cpu_emul_hlt" "terminating clear_updateip"
  unfolding write_general_reg_def write_ip_def write_flags_def write_realmode_seg_def cpu_emul_hlt_def clear_updateip_def
  by (intro term_intros)+

lemma terminating_register_writes [term_intros]:
  "terminating (set_reg q v)" "terminating (set_reg8 rex r8 v)" "terminating (set_reg16 q v)" "terminating (set_by_size op q v)" "terminating (UPDATE_IP op)"
  "terminating (cpu_stack_set sp)" "terminating cpu_emul_cli"
  unfolding set_reg16_def set_by_size_def set_reg_def set_reg8_def UPDATE_IP_def cpu_stack_set_def cpu_emul_cli_def
  by (intro term_intros)+

lemma terminating_seg_write [term_intros]: "terminating (cpu_seg_write E n s a v)"
  unfolding cpu_seg_write_def cpu_seg_write_b_def cpu_seg_write_w_def cpu_seg_write_l_def cpu_seg_write_q_def
  by (cases "n = 1"; cases "n = 2"; cases "n = 4"; simp; intro term_intros)

lemma terminating_memory_writes [term_intros]: "terminating (LGUESTSEG_WRITE E n op s a v)" "terminating (cpu_stack_push E sp v t)"
  unfolding LGUESTSEG_WRITE_def cpu_stack_push_def by (intro term_intros)+

lemma terminating_write_modrm [term_intros]:
  "terminating (write_modrm8 E op k v)" "terminating (write_modrm16 E op k v)" "terminating (write_modrm32 E op k v)" "terminating (write_modrm64 E op k v)"
  unfolding write_modrm8_def write_modrm16_def write_modrm32_def write_modrm64_def write_modrm_n_def by (intro term_intros)+

lemma terminating_idata_wr [term_intros]: "terminating (idata_wr E op x bytes v)"
  unfolding idata_wr_def by (intro term_intros)

lemma terminating_idata [term_intros]: "terminating (opcode_idata E op i)"
  unfolding opcode_idata_def opcode_2op_def opcode_xchg_def opcode_mov_def by (intro term_intros)

lemma terminating_grp [term_intros]: "terminating (grp_imme1 E op i)" "terminating (grp_imme2 E op i)" "terminating (grp3_special E op i)" "terminating (grp_special E op i)"
  unfolding grp_special_def grp3_special_def grp_imme1_def grp_imme2_def by (intro term_intros)+

section \<open>String instructions\<close>

text \<open>Steps that leave the count register as it is.\<close>

definition same_count :: "'d guest \<Rightarrow> 'd guest \<Rightarrow> bool" where
  "same_count g g' \<longleftrightarrow> general g' GENERAL_REG_RCX = general g GENERAL_REG_RCX"

interpretation count: read_relation same_count E for E :: "'d env"
proof
  show "keeps same_count (linear_read E n a old)" for n a old
    unfolding keeps_def same_count_def linear_read_def by (auto simp: bind_res_Inr_iff)
qed (auto simp: same_count_def)

lemma count_write: "keeps same_count (LGUESTSEG_WRITE E n op s a v)"
proof -
  have l: "keeps same_count (linear_write E n a v)" for n a v
    unfolding keeps_def same_count_def linear_write_def by (auto simp: bind_res_Inr_iff)
  have "keeps same_count (cpu_seg_write E n s a v)"
    unfolding cpu_seg_write_def cpu_seg_write_b_def cpu_seg_write_w_def cpu_seg_write_l_def cpu_seg_write_q_def
    by (cases "n = 1"; cases "n = 2"; cases "n = 4"; simp; intro count.keeps_bind count.keeps_seg_linear l)
  then show ?thesis unfolding LGUESTSEG_WRITE_def by (intro keeps_cases count.keeps_bind count.keeps_registers l)
qed

lemma count_element:
  "(\<And>d n. keeps same_count (inst d n)) \<Longrightarrow> keeps same_count (string_element E op rds wrs bytes inst rflags v)"
  unfolding string_element_def by (intro keeps_cases count.keeps_bind count.keeps_ret count.keeps_LGUESTSEG_READ count_write)

lemma terminating_element [term_intros]:
  "(\<And>d n. terminating (inst d n)) \<Longrightarrow> terminating (string_element E op rds wrs bytes inst rflags v)"
  unfolding string_element_def by (intro term_intros)

text \<open>The turns that the count register allows.\<close>

definition turns :: "op \<Rightarrow> 'd guest \<Rightarrow> nat" where
  "turns op g = (if repeats op then unat (low (rep_bytes op) (general g GENERAL_REG_RCX)) else 0)"

lemma rep_count_turns:
  assumes "rep_count op g = Inr (Inr c, g1)"
  shows "(\<exists>n. c = Some n \<and> n \<noteq> 0) \<Longrightarrow> turns op g1 < turns op g"
proof -
  assume "\<exists>n. c = Some n \<and> n \<noteq> 0"
  then obtain n where n: "c = Some n" "n \<noteq> 0" by blast
  have r: "repeats op" using assms n by (cases "repeats op") (auto simp: rep_count_def)
  let ?l = "low (rep_bytes op) (general g GENERAL_REG_RCX)"
  have g1: "?l \<noteq> 0" "general g1 GENERAL_REG_RCX = put_low (rep_bytes op) (general g GENERAL_REG_RCX) (?l - 1)"
    using assms r n by (auto simp: rep_count_def read_general_reg_def write_general_reg_def bind_exec_Inr Let_def split: if_splits)
  have "low (rep_bytes op) (?l - 1) \<le> ?l - 1" by (simp add: low_def word_and_le2)
  moreover have "?l - 1 < ?l" using g1(1) by (simp add: word_gt_0 measure_unat word_less_nat_alt)
  ultimately have "low (rep_bytes op) (?l - 1) < ?l" by (rule le_less_trans)
  then show ?thesis using r g1(2) by (simp add: turns_def word_less_nat_alt)
qed


lemma ends_bind_exec: "ends (m g) \<Longrightarrow> (\<And>x g1. m g = Inr (Inr x, g1) \<Longrightarrow> ends (f x g1)) \<Longrightarrow> ends (bind_exec m f g)"
  by (cases "m g") (auto simp: ends_def bind_exec_def split: sum.splits)

lemma terminatingD: "terminating m \<Longrightarrow> ends (m g)" by (simp add: terminating_def)

lemma string_loop_ends:
  assumes "\<And>d n. keeps same_count (inst d n)" "\<And>d n. terminating (inst d n)"
  shows "turns op g < fuel \<Longrightarrow> ends (string_loop fuel E op rds wrs bytes inst rflags loopcount v g)"
proof (induction fuel arbitrary: loopcount v g)
  case (Suc fuel)
  have t: "terminating (rep_count op)" unfolding rep_count_def by (intro term_intros)
  show ?case unfolding string_loop.simps
  proof (rule ends_bind_exec [OF terminatingD [OF t]])
    fix c g1 assume c: "rep_count op g = Inr (Inr c, g1)"
    show "ends ((case c of None \<Rightarrow> UPDATE_IP op | Some cnt \<Rightarrow>
         bind_exec (string_element E op rds wrs bytes inst rflags v) (\<lambda>r.
         case r of None \<Rightarrow> ret () | Some (regr, regw, data) \<Rightarrow>
             if cnt \<noteq> 0 \<and> loopcount \<noteq> 0 then
               string_loop fuel E op rds wrs bytes inst rflags (if any_bit rflags RFLAGS_IF_BIT then loopcount - 1 else loopcount) (regr, regw, data)
             else seq_exec (if rds then write_general_reg GENERAL_REG_RSI regr else ret ())
              (seq_exec (if wrs then write_general_reg GENERAL_REG_RDI regw else ret ()) (if cnt = 0 then UPDATE_IP op else ret ())))) g1)"
    proof (cases c)
      case None
      then show ?thesis by (auto intro: terminatingD term_intros)
    next
      case (Some cnt)
      have e: "terminating (string_element E op rds wrs bytes inst rflags v)" by (intro term_intros assms(2))
      show ?thesis unfolding Some option.case
      proof (rule ends_bind_exec [OF terminatingD [OF e]])
        fix r g2 assume r: "string_element E op rds wrs bytes inst rflags v g1 = Inr (Inr r, g2)"
        have "turns op g2 = turns op g1" using keepsD [OF count_element [OF assms(1)] r] by (simp add: turns_def same_count_def)
        moreover have "turns op g1 < turns op g" if "cnt \<noteq> 0" by (rule rep_count_turns [OF c]) (use Some that in blast)
        ultimately have g2: "turns op g2 < fuel" if "cnt \<noteq> 0" using that Suc.prems by simp
        have k: "ends (seq_exec (if rds then write_general_reg GENERAL_REG_RSI regr else ret ())
          (seq_exec (if wrs then write_general_reg GENERAL_REG_RDI regw else ret ()) (if cnt = 0 then UPDATE_IP op else ret ())) g2)" for regr regw
          by (rule terminatingD) (intro term_intros)
        show "ends ((case r of None \<Rightarrow> ret () | Some (regr, regw, data) \<Rightarrow>
             if cnt \<noteq> 0 \<and> loopcount \<noteq> 0 then
               string_loop fuel E op rds wrs bytes inst rflags (if any_bit rflags RFLAGS_IF_BIT then loopcount - 1 else loopcount) (regr, regw, data)
             else seq_exec (if rds then write_general_reg GENERAL_REG_RSI regr else ret ())
              (seq_exec (if wrs then write_general_reg GENERAL_REG_RDI regw else ret ()) (if cnt = 0 then UPDATE_IP op else ret ()))) g2)"
        proof (cases "cnt \<noteq> 0 \<and> loopcount \<noteq> 0")
          case True
          then show ?thesis using Suc.IH [OF g2] by (auto simp: ret_def ends_values split: option.split)
        next
          case False
          show ?thesis unfolding if_not_P [OF False] using k by (auto simp: ret_def [of "()"] ends_values split: option.split simp del: bind_exec_def)
        qed
      qed
    qed
  qed
qed (simp add: ends_def)

lemma terminating_string_instruction:
  assumes "\<And>d n. keeps same_count (inst d n)" "\<And>d n. terminating (inst d n)"
  shows "terminating (string_instruction E op rds wrs bytes inst)"
  unfolding terminating_def
proof
  fix g
  have r: "terminating (if wrs then read_general_reg GENERAL_REG_RDI else ret (uninit E ''regw''))"
    "terminating (if rds then read_general_reg GENERAL_REG_RSI else ret (uninit E ''regr''))" by (intro term_intros)+
  have s: "general g1 = general g" if
    "(if b then read_general_reg k else ret x) g = Inr (Inr y, g1)" for b k x y g1 and g :: "'a guest"
    using that by (auto simp: read_general_reg_def split: if_splits)
  show "ends (string_instruction E op rds wrs bytes inst g)" unfolding string_instruction_def
  proof (intro ends_bind_exec)
    fix fl g1 regw g2 regr g3 rcx g4
    assume a: "read_flags g = Inr (Inr fl, g1)"
      "(if wrs then read_general_reg GENERAL_REG_RDI else ret (uninit E ''regw'')) g1 = Inr (Inr regw, g2)"
      "(if rds then read_general_reg GENERAL_REG_RSI else ret (uninit E ''regr'')) g2 = Inr (Inr regr, g3)"
      "read_general_reg GENERAL_REG_RCX g3 = Inr (Inr rcx, g4)"
    have "turns op g4 < unat (low (rep_bytes op) rcx) + 1" using a(4) by (auto simp: turns_def read_general_reg_def)
    then show "ends (string_loop (unat (low (rep_bytes op) rcx) + 1) E op rds wrs bytes inst fl 16 (regr, regw, uninit E ''data'') g4)"
      by (rule string_loop_ends [OF assms])
  qed (use r terminating_registers terminatingD in blast)+
qed

section \<open>All instructions\<close>

text \<open>The functions behind the function pointers end, and the I/O functions leave the count register alone.\<close>

definition env_terminates :: "'d env \<Rightarrow> bool" where
  "env_terminates E \<longleftrightarrow>
     (\<forall>n v. terminating (effect_unit (vmctl_write_control_reg E n v))) \<and> (\<forall>s. terminating (effect (vmctl_writing_sreg E s))) \<and>
     (\<forall>i. terminating (effect (vmctl_read_msr E i))) \<and> (\<forall>i v. terminating (effect (vmctl_write_msr E i v))) \<and>
     (\<forall>a. terminating (effect_unit (vmctl_invlpg E a))) \<and> terminating (effect_unit (int_enabled E)) \<and>
     (\<forall>p t q v. terminating (effect (iofunc E p t q v)) \<and> keeps same_count (effect (iofunc E p t q v)))"

lemma terminating_debug [term_intros]: "terminating DEBUG_UNIMPLEMENTED"
  unfolding DEBUG_UNIMPLEMENTED_def by (intro term_intros)

lemma terminating_env [term_intros]:
  assumes "env_terminates E"
  shows "terminating (effect_unit (vmctl_write_control_reg E n v))" "terminating (effect (vmctl_writing_sreg E s))"
    "terminating (effect (vmctl_read_msr E i))" "terminating (effect (vmctl_write_msr E i v))" "terminating (effect_unit (vmctl_invlpg E a))"
    "terminating (effect_unit (int_enabled E))" "terminating (effect (iofunc E p t q v))" "terminating (call_io E t p v)"
  using assms unfolding env_terminates_def call_io_def Let_def by blast+

lemma terminating_emul [term_intros]:
  assumes "env_terminates E"
  shows "terminating (cpu_emul_sti E)" "terminating (cpu_emul_rdmsr E)" "terminating (cpu_emul_wrmsr E)" "terminating (cpu_emul_realmode_int E n)"
    "terminating (enable_if_set E v)" "terminating (load_sreg E s)" "terminating (in_port E op t p v)" "terminating (out_port E op t p v)"
  unfolding cpu_emul_rdmsr_def cpu_emul_wrmsr_def cpu_emul_realmode_int_def enable_if_set_def load_sreg_def in_port_def out_port_def
    cpu_emul_sti_def UPDATE_IP_unless_updated_def
  by (intro term_intros assms)+

lemma terminating_io [term_intros]:
  assumes "env_terminates E"
  shows "terminating (opcode_inb_imm E op)" "terminating (opcode_in_imm E op)" "terminating (opcode_inb_dx E op)" "terminating (opcode_in_dx E op)"
    "terminating (opcode_outb_imm E op)" "terminating (opcode_out_imm E op)" "terminating (opcode_outb_dx E op)" "terminating (opcode_out_dx E op)"
  unfolding opcode_inb_imm_def opcode_in_imm_def opcode_inb_dx_def opcode_in_dx_def opcode_outb_imm_def opcode_out_imm_def
    opcode_outb_dx_def opcode_out_dx_def old_rax_def
  by (intro term_intros assms)+

lemma count_inst:
  "keeps same_count (execinst_stos d n)" "keeps same_count (execinst_movs d n)"
  "env_terminates E \<Longrightarrow> keeps same_count (execinst_io E t d n)"
proof -
  show "keeps same_count (execinst_stos d n)" "keeps same_count (execinst_movs d n)"
    unfolding execinst_stos_def execinst_movs_def by (intro count.keeps_bind count.keeps_registers count.keeps_ret)+
  assume E: "env_terminates E"
  have "keeps same_count (call_io E t p v)" for p v using E unfolding env_terminates_def call_io_def Let_def by blast
  then show "keeps same_count (execinst_io E t d n)"
    unfolding execinst_io_def by (intro keeps_cases count.keeps_bind count.keeps_registers count.keeps_ret)
qed

lemma terminating_inst:
  "terminating (execinst_stos d n)" "terminating (execinst_movs d n)" "env_terminates E \<Longrightarrow> terminating (execinst_io E t d n)"
  unfolding execinst_stos_def execinst_movs_def execinst_io_def by (intro term_intros)+

lemma terminating_strings [term_intros]:
  "terminating (opcode_stosb E op)" "terminating (opcode_stos E op)" "terminating (opcode_movsb E op)" "terminating (opcode_movs E op)"
  unfolding opcode_stosb_def opcode_stos_def opcode_movsb_def opcode_movs_def
  by (intro terminating_string_instruction count_inst terminating_inst)+

lemma terminating_io_strings [term_intros]:
  assumes "env_terminates E"
  shows "terminating (opcode_insb E op)" "terminating (opcode_ins E op)" "terminating (opcode_outsb E op)" "terminating (opcode_outs E op)"
  unfolding opcode_insb_def opcode_ins_def opcode_outsb_def opcode_outs_def io_str_def Let_def
  by (intro term_intros terminating_string_instruction count_inst terminating_inst assms)+

lemma terminating_stack_instructions [term_intros]:
  assumes "env_terminates E"
  shows "terminating (opcode_pushf E op)" "terminating (opcode_popf E op)" "terminating (opcode_iret E op)" "terminating (opcode_int E op)"
    "terminating (opcode_int3 E op)" "terminating (opcode_push_sr E op s)" "terminating (opcode_ff_push E op)" "terminating (opcode_8f_pop E op)"
  unfolding opcode_pushf_def opcode_popf_def opcode_iret_def opcode_int_def opcode_int3_def opcode_push_sr_def opcode_ff_push_def
    opcode_8f_pop_def push_value_def
  by (intro term_intros assms)+

lemma terminating_register_instructions [term_intros]:
  "terminating (opcode_hlt op)" "terminating (opcode_cli op)" "terminating (opcode_mov_from_cr op)"
  unfolding opcode_hlt_def opcode_cli_def opcode_mov_from_cr_def by (intro term_intros)+

lemma terminating_system_instructions [term_intros]:
  assumes "env_terminates E"
  shows "terminating (opcode_sti E op)" "terminating (opcode_mov_to_cr E op)"
    "terminating (opcode_clts E op)" "terminating (opcode_wbinvd E op)" "terminating (opcode_rdmsr E op)"
    "terminating (opcode_wrmsr E op)" "terminating (opcode_lgdt E op)" "terminating (opcode_lidt E op)" "terminating (opcode_smsw E op)"
    "terminating (opcode_lmsw E op)" "terminating (opcode_invlpg E op)" "terminating (opcode_mov_from_sr E op)" "terminating (opcode_0f_lss E op)"
  unfolding opcode_sti_def opcode_mov_to_cr_def opcode_clts_def opcode_wbinvd_def
    opcode_rdmsr_def opcode_wrmsr_def opcode_lgdt_def opcode_lidt_def opcode_smsw_def opcode_lmsw_def opcode_invlpg_def
    opcode_mov_from_sr_def opcode_0f_lss_def
  by (intro term_intros assms)+

lemma terminating_other_instructions [term_intros]:
  "terminating (opcode_movzx_rm8_to_r E op)" "terminating (opcode_movzx_rm16_to_r E op)" "terminating (opcode_bt_imm E op)"
  "terminating (opcode_into op)" "terminating (opcode_invd op)" "terminating (opcode_mov_to_dr op)" "terminating (opcode_mov_from_dr op)"
  unfolding opcode_movzx_rm8_to_r_def opcode_movzx_rm16_to_r_def opcode_bt_imm_def opcode_into_def opcode_invd_def
    opcode_mov_to_dr_def opcode_mov_from_dr_def
  by (intro term_intros)+

lemma terminating_sreg_loads [term_intros]:
  assumes "env_terminates E"
  shows "terminating (opcode_mov_to_sr E op)" "terminating (opcode_pop_sr E op s)" "terminating (opcode_jmp_far_direct E op)"
    "terminating (opcode_jmp_far_indirect E op)" "terminating (opcode_retf E op)"
  unfolding opcode_mov_to_sr_def opcode_pop_sr_def opcode_jmp_far_direct_def opcode_jmp_far_indirect_def opcode_retf_def
  by (intro term_intros assms)+

lemma terminating_groups [term_intros]:
  assumes "env_terminates E"
  shows "terminating (parse_opcode_0x0f_0x01 E op)" "terminating (parse_opcode_0x0f_0xba E op)" "terminating (parse_opcode_0x0f E code op)"
    "terminating (parse_opcode_0xff E op)" "terminating (parse_opcode_0x8f E op)"
  unfolding parse_opcode_0x0f_def parse_opcode_0x0f_0x01_def parse_opcode_0x0f_0xba_def parse_opcode_0xff_def parse_opcode_0x8f_def
  by (intro term_intros assms)+

lemma terminating_exec_opcode: "env_terminates E \<Longrightarrow> terminating (exec_opcode E code op)"
  unfolding exec_opcode_def by (intro term_intros)

text \<open>C26: The interpreter ends on every instruction, for every guest: the fetch stops after 15 bytes, the walks of the guest's page tables
  end, and a string instruction takes at most as many turns as its count register allows, so that the fuel of its
  loop is never used up; the I/O functions must end and leave the count register as it is.\<close>

theorem interpreter_ends:
  assumes "env_terminates E" shows "cpu_interpreter E op1 g \<noteq> Inl OutOfFuel"
proof -
  have "terminating (cpu_interpreter E op1)"
    unfolding cpu_interpreter_def by (intro terminating_bind terminating_parse_start terminating_cases(2) terminating_exec_opcode assms)
  then show ?thesis by (simp add: terminating_def ends_def)
qed

end
