(* ===== verification/Interp_Guarantees.thy ===== *)
theory Interp_Guarantees
  imports Interp_Types Interp_Restart Interp_Termination
begin

text \<open>
  What the interpreter guarantees of every instruction, whatever the guest: isolation of the VMM, and the restart of
  instructions whose access to memory faults; with the run of a sample instruction to which the properties apply.
\<close>

section \<open>A sample instruction\<close>

lemma same_decoded:
  assumes "same_guest g g1" "op_ip op = op_ip op1"
  shows "modrm_decoded g1 op op' = modrm_decoded g op op'"
proof -
  have c: "code_at g1 op = code_at g op" by (rule same_code_fun [OF assms(1)])
  have d: "(displacement g1 op k l :: u32) = displacement g op k l" for k l by (simp_all add: displacement_def c code_w_def code_l_def)
  show ?thesis
    unfolding modrm_decoded_def d operand_len_def default_seg_def relative_def disp_len32_def no_base_def base_bits_def sib_at_def c
      base16_def base_index_def same_guest_registers(1) [OF assms(1)] by simp
qed

definition with_modrm :: "u8 \<Rightarrow> op \<Rightarrow> op" where
  "with_modrm b op = op\<lparr>ip_off := ip_off op + 1, op_modrm := modrm_of b,
     modrm_rreg := REG (unat (m_reg (modrm_of b)) + (if rex_r (op_prefix op) then 8 else 0)),
     modrm_brm := REG (unat (m_rm (modrm_of b)) + (if rex_b (op_prefix op) then 8 else 0))\<rparr>"

lemma runs_read_operand:
  assumes "flat g" "code_ok g op n" "m_mod (modrm_of (code_at g op (ip_off op))) \<noteq> 3"
    "ip_off op + 1 + operand_len g (with_modrm (code_at g op (ip_off op)) op) \<le> n"
  shows "\<exists>op'. runs (read_operand E op) g op' \<and> modrm_decoded g (with_modrm (code_at g op (ip_off op)) op) op'"
proof -
  let ?op = "with_modrm (code_at g op (ip_off op)) op"
  have op: "code_ok g ?op n = code_ok g op n" "op_modrm ?op = modrm_of (code_at g op (ip_off op))" "ip_off ?op = ip_off op + 1"
    by (simp_all add: with_modrm_def code_ok_def)
  obtain g1 where g1: "read_next_b E op g = Inr (Inr (code_at g op (ip_off op), op\<lparr>ip_off := ip_off op + 1\<rparr>), g1)" "same_guest g g1"
    using runs_read_next_b [OF assms(1,2)] assms(4) by (auto simp: runs_def)
  note f1 = same_code(1,2) [OF g1(2)] same_decoded [OF g1(2) refl]
  have "\<exists>op'. runs (get_modrm E ?op) g1 op' \<and> modrm_decoded g1 ?op op'"
  proof (rule runs_get_modrm)
    have "operand_len g1 ?op = operand_len g ?op"
      using same_code_fun [OF g1(2), of ?op] by (simp add: operand_len_def disp_len32_def no_base_def base_bits_def sib_at_def)
    then show "ip_off ?op + operand_len g1 ?op \<le> n" using assms(4) op(3) by simp
  qed (use assms op f1(1,2) in simp_all)
  then obtain op' where op': "runs (get_modrm E ?op) g1 op'" "modrm_decoded g ?op op'" using f1(3) by blast
  then obtain g2 where g2: "get_modrm E ?op g1 = Inr (Inr op', g2)" "same_guest g1 g2" by (auto simp: runs_def)
  have "read_operand E op g = Inr (Inr op', g2)"
    using g1(1) g2(1) by (simp add: read_operand_def read_modrm_b_def bind_exec_def Let_def ret_def with_modrm_def)
  moreover have "same_guest g g2" using g1(2) g2(2) memory_is_flat(4) same_guest_registers(6) [OF g1(2)] by metis
  ultimately show ?thesis using op'(2) by (auto simp: runs_def)
qed

text \<open>A guest at MOV [BX + SI + 5], AL.\<close>

abbreviation mov_guest :: "u64 \<Rightarrow> unit guest" where "mov_guest ds \<equiv> sample_guest ds [0x88, 0x40, 0x05]"

lemma sample_decode:
  "\<exists>op. runs (decode sample_env sample_op) (mov_guest ds) (0x88, op) \<and> modrm_brm op = REG_NO \<and> modrm_rreg op = REG 0 \<and> modrm_seg op = SREG_DS \<and>
     modrm_off op 0 = 0x2015 \<and> op_ip op = 0x100 \<and> ip_off op = 3 \<and> p_rex (op_prefix op) = 0 \<and> \<not> longmode op"
proof -
  let ?op = "op_16 (mov_guest ds) sample_op"
  have ip: "op_ip ?op = 0x100" "ip_off ?op = 1" by (simp_all add: op_16_def start_op_def sample_guest_def)
  note c = sample_bytes [OF ip(1), of ds "0x88" "0x40" "5"]
  have acr: "\<not> any_bit (seg_acr (mov_guest ds) SREG_CS) ACCESS_RIGHTS_L_BIT" "\<not> any_bit (seg_acr (mov_guest ds) SREG_CS) ACCESS_RIGHTS_D_B_BIT"
    by (simp_all add: sample_guest_def sreg_defs any_bit_def ACCESS_RIGHTS_L_BIT_def ACCESS_RIGHTS_D_B_BIT_def)
  have "plain_code 0x88" by (simp add: plain_code_def set_prefix_def prefix_defs)
  moreover have "code_ok (mov_guest ds) ?op 1" using c(4) usable_part [of "mov_guest ds" "seg_base (mov_guest ds) SREG_CS + 0x100" 3 0 1] ip by (simp add: code_ok_def)
  ultimately have "runs (parse_start sample_env sample_op) (mov_guest ds) (0x88, ?op)"
    using runs_parse_start [OF sample_flat _ _ acr] c(1) by metis
  then obtain g1 where g1: "parse_start sample_env sample_op (mov_guest ds) = Inr (Inr (0x88, ?op), g1)" "same_guest (mov_guest ds) g1"
    by (auto simp: runs_def)
  let ?opm = "with_modrm 0x40 ?op"
  have m: "modrm_of 0x40 = \<lparr>m_rm = 0, m_reg = 0, m_mod = 1\<rparr>" by (simp add: modrm_of_def)
  have o: "op_prefix ?opm = clear_prefix" "op_addrtype ?opm = ADDRTYPE_16BIT" "\<not> longmode ?opm" "op_ip ?opm = 0x100" "ip_off ?opm = 2"
    "modrm_rreg ?opm = REG 0" "op_modrm ?opm = \<lparr>m_rm = 0, m_reg = 0, m_mod = 1\<rparr>"
    by (simp_all add: with_modrm_def op_16_def start_op_def sample_guest_def m clear_prefix_def)
  have l: "operand_len g ?opm = 1" for g :: "unit guest" using o by (simp add: operand_len_def disp_len16_def)
  note f1 = same_code [OF g1(2)]
  have c1: "code_ok g1 ?op 3" "code_at g1 ?op (ip_off ?op) = 0x40" using f1(2,3) c(2,4) ip by simp_all
  obtain op where op: "runs (read_operand sample_env ?op) g1 op" "modrm_decoded g1 ?opm op"
    using runs_read_operand [OF f1(1) [OF sample_flat] c1(1), of sample_env] c1(2) l ip by (auto simp: m)
  have d: "modrm_decoded (mov_guest ds) ?opm op" using same_decoded [OF g1(2) refl] op(2) by blast
  obtain g2 where g2: "read_operand sample_env ?op g1 = Inr (Inr op, g2)" "same_guest g1 g2" using op(1) by (auto simp: runs_def)
  have "decode sample_env sample_op (mov_guest ds) = Inr (Inr (0x88, op), g2)"
    using g1(1) g2(1) by (simp add: decode_def bind_exec_def ret_def)
  moreover have "same_guest (mov_guest ds) g2"
    by (rule memory_is_flat(4) [OF g1(2) g2(2) [unfolded same_guest_registers(6) [OF g1(2)]]])
  moreover have "(displacement (mov_guest ds) ?opm 2 1 :: u32) = 5"
    using sample_bytes(3) [OF o(4), of ds "0x88" "0x40" "5"] by (simp add: displacement_def)
  moreover have "base16 (mov_guest ds) ?opm = (0x2010 :: u64)" using o by (simp add: base16_def sample_guest_def)
  ultimately show ?thesis using d o l
    by (intro exI [of _ op])
      (simp add: runs_def modrm_decoded_def modrm_off_def disp_len16_def relative_def default_seg_def clear_prefix_def)
qed

lemma sample_row: "idata_table ! unat (0x88 :: u8) = idata.make I_MODRM 1 O_M O_R F_MOV"
  by code_simp

lemma sample_operands:
  assumes "modrm_brm op = REG_NO" "modrm_rreg op = REG 0" "modrm_seg op = SREG_DS" "modrm_off op 0 = 0x2015"
  shows "operand_ok (mov_guest 0x93) op 1 O_R" "operand_ok (mov_guest 0x93) op 1 O_M" "linear_operand (mov_guest 0x93) op = 0x2015"
proof -
  show l: "linear_operand (mov_guest 0x93) op = 0x2015" using assms(4) by (simp add: linear_operand_def sample_guest_def)
  have "usable (mov_guest 0x93) 0x2015 1" by (rule sample_usable) (simp add: span_def)
  then show "operand_ok (mov_guest 0x93) op 1 O_M"
    using assms l by (simp add: operand_ok_def opsize_def sreg_defs sample_guest_def any_bit_def ACCESS_RIGHTS_UNUSABLE_BIT_def ACCESS_RIGHTS_P_BIT_def)
  show "operand_ok (mov_guest 0x93) op 1 O_R" using assms by (simp add: operand_ok_def)
qed

lemma sample_step:
  assumes "modrm_brm op = REG_NO" "modrm_rreg op = REG 0" "modrm_seg op = SREG_DS" "modrm_off op 0 = 0x2015" "op_ip op = 0x100" "ip_off op = 3"
    "regular_step E F_MOV op (idata.make I_MODRM 1 O_M O_R F_MOV) (mov_guest 0x93) g'"
  shows "mem (mem_state g') 0x2015 = 0x41" "ip g' = 0x103" "general g' = general (mov_guest 0x93)"
proof -
  have "reg_value (mov_guest 0x93) op 1 0 = 0x41"
    by (simp add: reg_value_def byte_place_def low_def sample_guest_def mask_eq_exp_minus_1)
  moreover have "le_bytes 1 (0x41 :: u64) = [0x41]" by (simp add: le_bytes_def)
  ultimately have "memory_is ((mem (mem_state (mov_guest 0x93)))(0x2015 := 0x41)) ((mov_guest 0x93)\<lparr>ip := 0x103, updateip := True\<rparr>) g'"
    using assms sample_operands(3) [OF assms(1-4)]
    by (simp add: regular_step_def regular_result_def instruction_2op_def idata.defs opsize_def operand_value_def operand_reg_def
        store_operand_def span_def)
  then show "mem (mem_state g') 0x2015 = 0x41" "ip g' = 0x103" "general g' = general (mov_guest 0x93)"
    by (auto simp: memory_is_def)
qed


theorem decoded_operation_is_well_formed_witness:
  "\<exists>op g'. decode sample_env sample_op (mov_guest 0x93) = Inr (Inr (0x88, op), g') \<and> reg_typed op (modrm_rreg op) \<and>
     modrm_seg op \<le> SREG_GS \<and> ip_off op \<le> 15"
proof -
  obtain op where op: "runs (decode sample_env sample_op) (mov_guest 0x93) (0x88, op)" "modrm_brm op = REG_NO" using sample_decode by blast
  then obtain g' where "decode sample_env sample_op (mov_guest 0x93) = Inr (Inr (0x88, op), g')" by (auto simp: runs_def)
  with decoded_operation_is_well_formed [OF this, of "mov_guest 0x93"] op(2) show ?thesis by auto
qed

lemma sample_run: "\<exists>g'. cpu_interpreter sample_env sample_op (mov_guest 0x93) = Inr (Inr (), g')"
proof -
  obtain op where op: "runs (decode sample_env sample_op) (mov_guest 0x93) (0x88, op)" and f: "modrm_brm op = REG_NO" "modrm_rreg op = REG 0"
    "modrm_seg op = SREG_DS" "modrm_off op 0 = 0x2015"
    using sample_decode by blast
  obtain g1 where g1: "decode sample_env sample_op (mov_guest 0x93) = Inr (Inr (0x88, op), g1)" "same_guest (mov_guest 0x93) g1"
    using op by (auto simp: runs_def)
  have "\<exists>g'. opcode_idata sample_env op (idata.make I_MODRM 1 O_M O_R F_MOV) g1 = Inr (Inr (), g') \<and>
      regular_step sample_env F_MOV op (idata.make I_MODRM 1 O_M O_R F_MOV) g1 g'"
    by (rule opcode_idata_flat [OF same_code(1) [OF g1(2) sample_flat]])
      (use sample_operands [OF f] same_operands(2) [OF g1(2)] in \<open>simp_all add: idata.defs destination_def resolve_group_def\<close>)
  then show ?thesis using interpreter_decodes [OF g1(1), unfolded sample_row] by (auto simp: idata.defs)
qed

text \<open>C10: Whatever instruction the guest is at, and whatever its registers, segments and page tables hold, emulating it changes no byte
  of the VMM outside of the blank page and puts no access to it on the bus, as long as the functions behind the
  function pointers do not.\<close>

theorem emulation_is_isolated:
  assumes "ready (mem_state g)" "env_keeps isolated_step E" "cpu_interpreter E op1 g = Inr (r, g')"
  shows "{a. in_vmm (mem_state g) a \<and> page a \<noteq> phys_blank (mem_state g) \<and> mem (mem_state g') a \<noteq> mem (mem_state g) a} = {} \<and>
    (\<exists>es. events (mem_state g') = events (mem_state g) @ es \<and> list_all (event_ok False (mem_state g)) es)"
proof -
  have "safe False (mem_state g) (mem_state g')"
    using keepsD [OF isolation.keeps_cpu_interpreter [OF assms(2)] assms(3)] assms(1) by (simp add: isolated_step_def)
  then show ?thesis by (auto simp: safe_def allowed_def)
qed

lemma sample_env_isolated: "env_keeps isolated_step sample_env"
  by (simp add: env_keeps_def keeps_def isolated_step_def sample_env_def effect_def effect_unit_def modify_def)

theorem emulation_is_isolated_witness:
  "\<exists>g'. cpu_interpreter sample_env sample_op (mov_guest 0x93) = Inr (Inr (), g') \<and>
    {a. in_vmm (mem_state (mov_guest 0x93)) a \<and> page a \<noteq> phys_blank (mem_state (mov_guest 0x93)) \<and>
      mem (mem_state g') a \<noteq> mem (mem_state (mov_guest 0x93)) a} = {}"
proof -
  obtain g' where g': "cpu_interpreter sample_env sample_op (mov_guest 0x93) = Inr (Inr (), g')" using sample_run by blast
  have "ready (mem_state (mov_guest 0x93))" 
    by (simp add: ready_def vmm_placed_def others_ok_def sample_guest_def sample_world_def VMMSIZE_ALL_def page_def)
  from emulation_is_isolated [OF this sample_env_isolated g'] g' show ?thesis by blast
qed

section \<open>Restart\<close>

text \<open>C12: An instruction whose access to memory faults can be run again: when the interpreter returns an error other than the request
  to switch modes and a refused MSR, then no register, segment, flag or control register has changed, for every
  instruction but XCHG, INT and the string instructions, which change registers before their last access.\<close>

theorem faults_are_restartable:
  assumes "cpu_interpreter E op1 g = Inr (Inl e, g')" "e \<noteq> VMMERR_SW" "e \<noteq> VMMERR_MSR_FAULT"
    "\<And>code op g1. parse_start E op1 g = Inr (Inr (code, op), g1) \<Longrightarrow> \<not> stops_midway code"
  shows "g' = g\<lparr>mem_state := mem_state g'\<rparr>"
proof -
  have "only_memory g g'"
  proof (cases "parse_start E op1 g = Inr (Inl e, g')")
    case True
    then show ?thesis using keepsD [OF reading.keeps_parse_start] by blast
  next
    case False
    then obtain code op g1 where p: "parse_start E op1 g = Inr (Inr (code, op), g1)" "exec_opcode E code op g1 = Inr (Inl e, g')"
      using assms(1) by (auto simp: cpu_interpreter_def bind_exec_Inl)
    have "only_memory g g1" using keepsD [OF reading.keeps_parse_start p(1)] .
    moreover have "only_memory g1 g'"
      using restartableD [OF restartable_exec_opcode [OF assms(4) [OF p(1)]] p(2)] assms(2,3) by (simp add: is_fault_def)
    ultimately show ?thesis by (rule reading.trans)
  qed
  then show ?thesis by (auto simp: only_memory_def)
qed

text \<open>The sample instruction in a data segment that cannot be used.\<close>

lemma sample_fault: "\<exists>g'. cpu_interpreter sample_env sample_op (mov_guest 0x10093) = Inr (Inl VMMERR_INVALID_GUESTSEG, g')"
proof -
  obtain op where op: "runs (decode sample_env sample_op) (mov_guest 0x10093) (0x88, op)" and f: "modrm_brm op = REG_NO" "modrm_rreg op = REG 0"
    "modrm_seg op = SREG_DS" "p_rex (op_prefix op) = 0" "\<not> longmode op"
    using sample_decode by blast
  obtain g1 where g1: "decode sample_env sample_op (mov_guest 0x10093) = Inr (Inr (0x88, op), g1)" "same_guest (mov_guest 0x10093) g1"
    using op by (auto simp: runs_def)
  have acr: "seg_acr g1 SREG_DS = 0x10093" using same_guest_registers(4) [OF g1(2)] by (simp add: sample_guest_def)
  have s: "seg_linear SREG_DS k g1 = Inr (Inl VMMERR_INVALID_GUESTSEG, g1)" for k
    using acr by (simp add: seg_linear_def read_sreg_acr_def read_sreg_base_def check_seg_def bind_exec_def get_def err_def sreg_defs any_bit_def
        ACCESS_RIGHTS_UNUSABLE_BIT_def)
  have "opcode_mov sample_env op (idata.make I_MODRM 1 O_M O_R F_MOV) g1 = Inr (Inl VMMERR_INVALID_GUESTSEG, g1)"
    using f get_reg8_value [of False 0 g1]
    by (simp add: opcode_mov_def idata.defs idata_rd_def idata_wr_def write_modrm8_def LGUESTSEG_WRITE_def cpu_seg_write_def cpu_seg_write_b_def
        has_rex_def reg_num_def bind_exec_def ret_def s)
  then show ?thesis using interpreter_decodes [OF g1(1), unfolded sample_row]
    by (simp add: opcode_idata_def idata.defs resolve_group_def instruction_2op_def)
qed

theorem faults_are_restartable_witness:
  "\<exists>g'. cpu_interpreter sample_env sample_op (mov_guest 0x10093) = Inr (Inl VMMERR_INVALID_GUESTSEG, g') \<and>
     ip g' = 0x100 \<and> general g' = general (mov_guest 0x10093)"
proof -
  obtain g' where g': "cpu_interpreter sample_env sample_op (mov_guest 0x10093) = Inr (Inl VMMERR_INVALID_GUESTSEG, g')"
    using sample_fault by blast
  obtain op' g1 where p: "parse_start sample_env sample_op (mov_guest 0x10093) = Inr (Inr (0x88, op'), g1)"
    using sample_decode [of "0x10093"] by (auto simp: runs_def decode_def bind_exec_Inr)
  have "\<not> stops_midway 0x88" by (simp add: stops_midway_def opcode_defs)
  then have e: "g' = (mov_guest 0x10093)\<lparr>mem_state := mem_state g'\<rparr>"
    using p by (intro faults_are_restartable [OF g']) auto
  have "ip g' = 0x100" using arg_cong [OF e, of ip] by (simp add: sample_guest_def)
  moreover have "general g' = general (mov_guest 0x10093)" using arg_cong [OF e, of general] by simp
  ultimately show ?thesis using g' by blast
qed

section \<open>Termination\<close>

lemma sample_env_terminates: "env_terminates sample_env"
  by (simp add: env_terminates_def keeps_def same_count_def sample_env_def effect_def effect_unit_def terminating_def ends_def)

text \<open>REP MOVSB.\<close>

theorem interpreter_ends_witness: "cpu_interpreter sample_env sample_op (sample_guest 0x93 [0xF3, 0xA4]) \<noteq> Inl OutOfFuel"
  by (rule interpreter_ends [OF sample_env_terminates])

end
