(* ===== verification/Spec2Isabelle.thy ===== *)
theory Spec2Isabelle
  imports Prelude Disas_Message Vga Vga_Intel Cache Sysmem Page_Alloc Guest_Phys Mmio Gmm_Access Vramwrite_Vga Page_Walk Linear_Access Ept Svm_Np Printf_Numbers Mempool Interp_Guarantees
begin

text \<open>
  Verification library of DisasVisor, a version of the BitVisor hypervisor that displays
  disaster warnings on the screen of the guest.

  \<^bold>\<open>The program.\<close>  The VMM runs one guest on all processors of the machine.  It takes a region of 128 MiB
  for itself, hides it in the memory map of the firmware, and gives the guest all other memory and
  most devices directly.  What it intercepts are accesses to registered MMIO ranges, to the memory
  type registers, and to its own memory, which the guest sees as one blank page.  A warning arrives
  as a UDP datagram: the VPN callback scans the received frames, and the display layer draws the
  dialog through the driver of the graphics card, which writes the frame buffer of the guest.  The
  console of the VMM shares the screen.

  \<^bold>\<open>Theories and sources\<close> (paths are under \<^verbatim>\<open>src/bitvisor\<close>).
  \<^item> \<open>Prelude\<close>: machine types, the result type \<open>'a res\<close> with its faults (a panic, a failed assertion,
    an access outside an object, a loop that still runs), buffers with checked bounds.
  \<^item> \<open>Disas_Message\<close>, \<^verbatim>\<open>vpn/kernel.c\<close>: the scanner of UDP payloads and the receive callback.  A buffer is a
    list and a pointer an index, so that reading past the end is a value of the model.
  \<^item> \<open>Vga\<close>, \<^verbatim>\<open>core/vga.c\<close>: driver registry, pictures, letters, dialog layout.  \<open>Vga_Intel\<close>,
    \<^verbatim>\<open>drivers/vga_intel.c\<close>: the driver of the graphics card; it interprets the locale \<open>pixel_device\<close> that the
    display layer states.
  \<^item> \<open>Vramwrite\<close>, \<open>Vramwrite_Vga\<close>, \<^verbatim>\<open>core/vramwrite.c\<close>: the text console on VGA text memory and on a graphics
    screen, refined against a terminal.
  \<^item> \<open>Sysmem\<close>, first part of \<^verbatim>\<open>core/mm.c\<close>: the memory map and the placement of the VMM.  \<open>Page_Alloc\<close>, its
    second part: the buddy allocator, with the locale \<open>page_allocator\<close>.  \<open>Pmap\<close>, its third part: the cursor
    through page tables.  \<open>Heap\<close>, its fourth part: \<open>alloc\<close>, \<open>free\<close> and \<open>realloc\<close> over the page allocator, with the
    invariant in \<open>Heap_Inv\<close>, its preservation in \<open>Heap_Steps\<close>, and the locale \<open>memory_allocator\<close>, which they interpret, in
    \<open>Heap_Contract\<close>.  \<open>Mempool\<close>, its fifth part: memory pools.
  \<^item> \<open>Cache\<close>, \<^verbatim>\<open>core/cache.c\<close>: emulated MTRRs and PAT.
  \<^item> \<open>Guest_Phys\<close>, \<^verbatim>\<open>core/gmm_pass.c\<close> and the accessors of \<^verbatim>\<open>core/mm.c\<close>: host memory as bytes by address, the
    translation \<open>gmm_pass_gp2hp\<close>, and the ghost list \<open>events\<close> of all accesses.  \<open>Mmio\<close>, \<open>Mmio_Range\<close>,
    \<^verbatim>\<open>core/mmio.c\<close>: the dispatcher.  \<open>Gmm_Access\<close>, \<^verbatim>\<open>core/gmm_access.c\<close>: guest-physical accessors over both.
  \<^item> \<open>Cpu_Mmu\<close>, \<open>Page_Walk\<close>, \<open>Linear_Access\<close>, \<^verbatim>\<open>core/cpu_mmu.c\<close>: the walk of the page tables of the guest and
    access by linear address, over \<open>Pmap\<close> and \<open>Gmm_Access\<close>.
  \<^item> \<open>Nested_Paging\<close> to \<open>Nested_Guest\<close>: the nested page tables.  \<^verbatim>\<open>core/vt_ept.c\<close> and \<^verbatim>\<open>core/svm_np.c\<close> are one
    program up to the format of an entry; its operations are written over a \<open>nested_format\<close>, and the
    locales \<open>nested_paging\<close> and \<open>nested_search\<close> state what a format promises.  \<open>Ept\<close> and \<open>Svm_Np\<close> supply the
    two formats, name the operations of each file, and interpret the locales.  \<open>Nested_Flush\<close> is
    \<open>flush_tlb_entry\<close> of \<^verbatim>\<open>core/mmio.c\<close> on the tables of all processors.
  \<^item> The instruction interpreter: \<open>Guest_Cpu\<close>, the registers of the guest and the functions of \<open>current->vmctl\<close>, with
    \<^verbatim>\<open>core/cpu_seg.c\<close>, \<^verbatim>\<open>core/cpu_stack.c\<close> and \<^verbatim>\<open>core/cpu_emul.c\<close>; \<open>Interp_Decode\<close>, \<open>Interp_Operand\<close>, \<open>Interp\<close>, the decoder with
    its tables, the operands with the regular instructions, and the remaining instructions of
    \<^verbatim>\<open>core/cpu_interpreter.c\<close>.  \<open>Interp_Steps\<close> states in three locales (\<open>step_relation\<close>, \<open>read_relation\<close>, \<open>guest_relation\<close>) that a
    relation between guest states kept by every elementary step is kept by the interpreter.  \<open>Interp_Isolation\<close>,
    \<open>Interp_Restart\<close> and \<open>Interp_Termination\<close> interpret them; \<open>Interp_Flat\<close>, \<open>Interp_Fetch\<close>, \<open>Interp_Address\<close>, \<open>Interp_Regular\<close>
    follow one instruction on a guest without paging; \<open>Interp_Types\<close> types what the decoder returns;
    \<open>Interp_Guarantees\<close> collects what holds of every instruction.
  \<^item> \<open>Strtol\<close>, \<^verbatim>\<open>core/strtol.c\<close>, and \<open>Printf\<close>, \<^verbatim>\<open>core/printf.c\<close>: reading integers and formatted output.
    \<open>Printf_Buffer\<close> compares \<open>vsnprintf\<close> with \<open>vprintf\<close>, \<open>Printf_Numbers\<close> composes printing with reading.

  \<^bold>\<open>State.\<close>  The VMM state of the memory components is one record, extended from \<open>world\<close> (host memory,
  placement, caches) to \<open>mmio_data\<close> (registered ranges and the devices of the handlers); the buddy
  allocator, the display and the console have states of their own.  Interference of other
  processors is a list \<open>pending\<close> of writes that arrive before the accesses; the page tables of the
  processors are separate records.  The state of the interpreter, \<open>guest\<close>, is the registers of one virtual
  processor and the memory state of the VMM; a step of the interpreter is a function of type \<open>exec\<close>, which
  returns a value or a \<open>vmmerr\<close>, or panics.  What is behind function pointers is the record \<open>env\<close>: control
  and model-specific registers, port handlers, the arithmetic instruction \<open>alu\<close> that the host executes for the
  guest, and \<open>uninit\<close>, the contents of uninitialised variables.

  \<^bold>\<open>What is shown.\<close>
  \<^item> Isolation, at three levels: the accessors of the VMM by guest-physical (\<open>Gmm_Access\<close>) and by linear
    address (\<open>Linear_Access\<close>), and the translations of the processors themselves (\<open>Ept\<close>, \<open>Svm_Np\<close>), reach
    the memory of the VMM only as the blank page; and the firmware map hides it (\<open>Sysmem\<close>).
  \<^item> MMIO: ranges stay disjoint, an access is cut into calls of the right handlers, and no processor
    translates a page of a registered range, so that none is missed (\<open>Mmio\<close>, \<open>Nested_Guest\<close>, \<open>Ept\<close>).
  \<^item> The walk of guest page tables agrees with a reference walk of the manual (\<open>Page_Walk\<close>).
  \<^item> The buddy allocator hands out fresh aligned blocks and gets all pages back (\<open>Page_Alloc\<close>).
    On top of it, \<open>alloc\<close> gives memory apart from every block in use and every header, \<open>free\<close> undoes it, \<open>realloc\<close> keeps
    the contents, and a second \<open>free\<close> is caught (\<open>Heap_Contract\<close>).  The pools hand out memory behind their
    blocks (\<open>Mempool\<close>).
  \<^item> The memory types that guest registers ask for are those the hardware applies (\<open>Cache\<close>).
  \<^item> Emulated instructions: operand addresses are those of the manual (\<open>Interp_Address\<close>), the instructions of the
    table have the effect of the manual up to \<open>alu\<close> (\<open>Interp_Regular\<close>), what is decoded is well-formed (\<open>Interp_Types\<close>),
    every instruction ends (\<open>Interp_Termination\<close>), none reaches the memory of the VMM, and one that faults can be run
    again, but for those that are listed (\<open>Interp_Guarantees\<close>).
  \<^item> From frame to pixel: a well-formed message is parsed to its fields, other frames are not
    displayed, the layout fits the dialog, the driver paints the picture (\<open>Disas_Message\<close>, \<open>Vga\<close>,
    \<open>Vga_Intel\<close>), the console behaves as a terminal (\<open>Vramwrite_Vga\<close>).
  \<^item> \<open>vsnprintf\<close> writes the text of \<open>vprintf\<close>, cut off and terminated, never past its buffer, and \<open>strtol\<close>
    reads back the numbers it prints (\<open>Strtol\<close>, \<open>Printf_Buffer\<close>, \<open>Printf_Numbers\<close>).

  \<^bold>\<open>Fuel and bounds.\<close>
  \<^item> A firmware may return a cyclic chain of map entries, on which the loops of \<open>Sysmem\<close> do not end: they
    take fuel, \<open>None\<close> stands for a loop that is still running, and the properties hold for every fuel.
  \<^item> The retry loop of the page walk ends because every retry uses up a pending write of another
    processor; \<open>walk_makes_few_accesses\<close> gives the bound.
  \<^item> The loop over an area of the forced map has a turn for each page and one more; \<open>ept_violation_ends\<close>
    shows that the fuel never runs out.
  \<^item> The loop of \<open>alloc\<close> takes a page from the list in each turn but the last: the length of the list and one
    more are enough, as \<open>small_alloc_succeeds\<close> shows.  A loop that doubles a number of pages ends within
    33 turns or never.
  \<^item> The loop of a string instruction has a turn for each value of the count register and one more;
    \<open>interpreter_ends\<close> shows that they are enough.  The loop over prefixes ends after 15 bytes.
  \<^item> The flush of a range visits its pages; a range that reaches the end of the address space, on
    which the loop of the source does not end, is excluded by \<open>proper\<close>.

  \<^bold>\<open>Not modelled.\<close>  Third-party code (OpenSSL, lwIP) and the libraries around it; the libraries of the VPN,
  of smart cards and of disk encryption; device drivers other than the graphics card; start-up, trap
  tables and the dispatch of VM exits, whose content is the order of processor instructions; shadow
  page tables, which replace the nested tables on old processors; threads, messages and processes; ACPI.  The manifest gives the
  reason for each part.  Locks are not modelled except where their count decides something
  (\<open>mmio_lock\<close>): an operation under a lock is one step.
\<close>

end
